(* ===== verification/Prelude.thy ===== *)
theory Prelude
  imports Main "HOL-Library.Word" "HOL-Library.Monad_Syntax"
begin

text \<open>
  Shared ground of the development: names for the machine integers of the code, the error
  numbers of \<open>platform/errno.hpp\<close>, the bit helpers of \<open>platform/bits.hpp\<close>, the atomic
  bitset of \<open>platform/bitset.hpp\<close>, and the generic lemmas on words, lists and the option
  monad that the component theories use.

  Conventions. A machine word of the code is a \<open>w word\<close> where its wrap-around matters and a
  \<open>nat\<close> where it is an index that the code keeps in bounds. A computation that may fail an
  \<open>ASSERT\<close> or leave the bounds of an array has an \<open>option\<close> result: \<open>None\<close> is the failed
  assertion (\<open>ASSERT\<close> of \<open>platform/log.hpp\<close> is \<open>assert\<close>) or the out-of-bounds access.
\<close>

unbundle bit_operations_syntax

type_synonym u8 = "8 word"
type_synonym u16 = "16 word"
type_synonym u32 = "32 word"
type_synonym u64 = "64 word"

named_theorems wf_intros \<open>preservation of well-formedness by the operations\<close>
named_theorems frame_simps \<open>fields that an operation leaves alone\<close>

subsection \<open>Words\<close>

lemma word_eqI_bits: "(\<And>n. n < LENGTH('a) \<Longrightarrow> bit x n = bit y n) \<Longrightarrow> x = (y :: 'a::len word)"
  by (rule bit_word_eqI)

lemma unat_plus_no_wrap:
  "unat (a :: 'a::len word) + unat b < 2 ^ LENGTH('a) \<Longrightarrow> unat (a + b) = unat a + unat b"
  by (simp add: unat_word_ariths)

lemma word_plus_no_wrap_iff:
  fixes a b :: "'a::len word"
  shows "\<not> (a + b \<le> a) \<longleftrightarrow> 0 < unat b \<and> unat a + unat b < 2 ^ LENGTH('a)"
proof (cases "unat a + unat b < 2 ^ LENGTH('a)")
  case True
  then have "unat (a + b) = unat a + unat b" by (rule unat_plus_no_wrap)
  then have "(a + b \<le> a) \<longleftrightarrow> unat b = 0" by (simp add: word_le_nat_alt del: unat_eq_zero)
  then show ?thesis using True by (cases "unat b = 0") (simp_all del: unat_eq_zero unat_gt_0)
next
  case False
  have a: "unat a < 2 ^ LENGTH('a)" and b: "unat b < 2 ^ LENGTH('a)" by (rule unsigned_less)+
  have "unat (a + b) = (unat a + unat b) mod 2 ^ LENGTH('a)" by (simp only: unat_word_ariths)
  also have "\<dots> = unat a + unat b - 2 ^ LENGTH('a)" 
  proof -
    have "unat a + unat b - 2 ^ LENGTH('a) < 2 ^ LENGTH('a)" using a b by linarith
    with False show ?thesis by (metis le_mod_geq mod_less not_less)
  qed
  finally have "unat (a + b) \<le> unat a" using b by linarith
  then show ?thesis using False by (simp add: word_le_nat_alt)
qed

lemma unat_minus_le: "b \<le> a \<Longrightarrow> unat (a - b) = unat a - unat (b :: 'a::len word)"
  by (simp add: unat_sub_if_size word_le_nat_alt)

lemma unat_ucast_up:
  fixes x :: "'a::len word"
  assumes "LENGTH('a) \<le> LENGTH('b::len)"
  shows "unat (ucast x :: 'b word) = unat x"
proof -
  have "unat x < 2 ^ LENGTH('b)"
    using unsigned_less [of x, where 'a = nat] power_increasing [OF assms, of "2 :: nat"] by linarith
  then show ?thesis by (simp add: unsigned_ucast_eq take_bit_nat_eq_self)
qed

lemma unat_ucast_simps [simp]:
  "unat (ucast (a :: u8) :: u64) = unat a" "unat (ucast (b :: u16) :: u64) = unat b"
  "unat (ucast (c :: u32) :: u64) = unat c" "unat (ucast (a :: u8) :: u32) = unat a"
  "unat (ucast (a :: u8) :: u16) = unat a" "unat (ucast (b :: u16) :: u32) = unat b"
  by (rule unat_ucast_up, simp)+

lemma bit_push_bit_1_iff:
  "bit (push_bit n (1 :: 'a::len word)) m \<longleftrightarrow> m = n \<and> n < LENGTH('a)"
  by (auto simp: bit_simps)

lemma and_push_bit_1_neq_0:
  "n < LENGTH('a) \<Longrightarrow> (x AND push_bit n 1 \<noteq> (0 :: 'a::len word)) \<longleftrightarrow> bit x n"
  by (auto simp: bit_eq_iff [where 'a = "'a word"] bit_simps)

lemma and_push_bit_1:
  "x AND push_bit n 1 = (if bit x n then push_bit n 1 else (0 :: 'a::len word))"
  by (rule word_eqI_bits) (auto simp: bit_simps)

lemma and_neq_0_iff_bit:
  "(x AND y \<noteq> (0 :: 'a::len word)) \<longleftrightarrow> (\<exists>n<LENGTH('a). bit x n \<and> bit y n)"
  by (auto simp: bit_eq_iff bit_simps dest: bit_imp_le_length)

subsection \<open>Lists\<close>

lemma nth_upt_find:
  "find P [i..<n] = Some k \<longleftrightarrow> i \<le> k \<and> k < n \<and> P k \<and> (\<forall>j. i \<le> j \<and> j < k \<longrightarrow> \<not> P j)"
proof (induction "n - i" arbitrary: i)
  case 0
  then show ?case by auto
next
  case (Suc d)
  then have lt: "i < n" and d: "d = n - Suc i" by simp_all
  show ?case
  proof (cases "P i")
    case True
    then have "find P [i..<n] = Some i" using lt by (simp add: upt_conv_Cons)
    moreover have "(i \<le> k \<and> k < n \<and> P k \<and> (\<forall>j. i \<le> j \<and> j < k \<longrightarrow> \<not> P j)) \<longleftrightarrow> i = k"
      using lt True by (metis le_neq_implies_less leD order_refl)
    ultimately show ?thesis by simp
  next
    case False
    then have "find P [i..<n] = find P [Suc i..<n]" using lt by (simp add: upt_conv_Cons)
    moreover have "(Suc i \<le> k \<and> k < n \<and> P k \<and> (\<forall>j. Suc i \<le> j \<and> j < k \<longrightarrow> \<not> P j)) \<longleftrightarrow>
        (i \<le> k \<and> k < n \<and> P k \<and> (\<forall>j. i \<le> j \<and> j < k \<longrightarrow> \<not> P j))"
      using False by (metis Suc_leD Suc_leI le_neq_implies_less)
    ultimately show ?thesis using Suc.hyps(1) [OF d] by simp
  qed
qed

lemma find_None_upt: "find P [i..<n] = None \<longleftrightarrow> (\<forall>j. i \<le> j \<and> j < n \<longrightarrow> \<not> P j)"
  by (auto simp: find_None_iff)

text \<open>The bits of the masks that the code uses, on integers, to which the word rules reduce.\<close>

lemma bit_push_mask:
  "bit (push_bit a (Bit_Operations.mask b) :: int) n \<longleftrightarrow> a \<le> n \<and> n < a + b"
  by (auto simp: bit_simps)

lemma mask_bits:
  "bit (0xff000000 :: int) n \<longleftrightarrow> 24 \<le> n \<and> n < 32"
  "bit (0xffffff :: int) n \<longleftrightarrow> n < 24"
  "bit (0xff00000000 :: int) n \<longleftrightarrow> 32 \<le> n \<and> n < 40"
  "bit (0xff :: int) n \<longleftrightarrow> n < 8"
  "bit (0xffff :: int) n \<longleftrightarrow> n < 16"
  "bit (0xff0000000000 :: int) n \<longleftrightarrow> 40 \<le> n \<and> n < 48"
  "bit (0xffffffff00000000 :: int) n \<longleftrightarrow> 32 \<le> n \<and> n < 64"
  "bit (0x7fffffff :: int) n \<longleftrightarrow> n < 31"
  "bit (0x80000000 :: int) n \<longleftrightarrow> 31 \<le> n \<and> n < 32"
  "bit (0x3ff :: int) n \<longleftrightarrow> n < 10"
  "bit (0x7 :: int) n \<longleftrightarrow> n < 3"
  "bit (0x3 :: int) n \<longleftrightarrow> n < 2"
  "bit (0xffffffff :: int) n \<longleftrightarrow> n < 32"
  "bit (0x1f :: int) n \<longleftrightarrow> n < 5"
  "bit (0xfff :: int) n \<longleftrightarrow> n < 12"
  "bit (0xc000000000000000 :: int) n \<longleftrightarrow> 62 \<le> n \<and> n < 64"
  "bit (0x1ff :: int) n \<longleftrightarrow> n < 9"
  "bit (0x20000000 :: int) n \<longleftrightarrow> 29 \<le> n \<and> n < 30"
  "bit (0x10000000 :: int) n \<longleftrightarrow> 28 \<le> n \<and> n < 29"
  "bit (0x700000000 :: int) n \<longleftrightarrow> 32 \<le> n \<and> n < 35"
  "bit (0x3ff00000000 :: int) n \<longleftrightarrow> 32 \<le> n \<and> n < 42"
proof -
  have e: "(0xff000000 :: int) = push_bit 24 (Bit_Operations.mask 8)"
    "(0xffffff :: int) = push_bit 0 (Bit_Operations.mask 24)"
    "(0xff00000000 :: int) = push_bit 32 (Bit_Operations.mask 8)"
    "(0xff :: int) = push_bit 0 (Bit_Operations.mask 8)"
    "(0xffff :: int) = push_bit 0 (Bit_Operations.mask 16)"
    "(0xff0000000000 :: int) = push_bit 40 (Bit_Operations.mask 8)"
    "(0xffffffff00000000 :: int) = push_bit 32 (Bit_Operations.mask 32)"
    "(0x7fffffff :: int) = push_bit 0 (Bit_Operations.mask 31)"
    "(0x80000000 :: int) = push_bit 31 (Bit_Operations.mask 1)"
    "(0x3ff :: int) = push_bit 0 (Bit_Operations.mask 10)"
    "(0x7 :: int) = push_bit 0 (Bit_Operations.mask 3)"
    "(0x3 :: int) = push_bit 0 (Bit_Operations.mask 2)"
    "(0xffffffff :: int) = push_bit 0 (Bit_Operations.mask 32)"
    "(0x1f :: int) = push_bit 0 (Bit_Operations.mask 5)"
    "(0xfff :: int) = push_bit 0 (Bit_Operations.mask 12)"
    "(0xc000000000000000 :: int) = push_bit 62 (Bit_Operations.mask 2)"
    "(0x1ff :: int) = push_bit 0 (Bit_Operations.mask 9)"
    "(0x20000000 :: int) = push_bit 29 (Bit_Operations.mask 1)"
    "(0x10000000 :: int) = push_bit 28 (Bit_Operations.mask 1)"
    "(0x700000000 :: int) = push_bit 32 (Bit_Operations.mask 3)"
    "(0x3ff00000000 :: int) = push_bit 32 (Bit_Operations.mask 10)"
    by (simp_all add: mask_eq_exp_minus_1)
  show "bit (0xff000000 :: int) n \<longleftrightarrow> 24 \<le> n \<and> n < 32"
  "bit (0xffffff :: int) n \<longleftrightarrow> n < 24"
  "bit (0xff00000000 :: int) n \<longleftrightarrow> 32 \<le> n \<and> n < 40"
  "bit (0xff :: int) n \<longleftrightarrow> n < 8"
  "bit (0xffff :: int) n \<longleftrightarrow> n < 16"
  "bit (0xff0000000000 :: int) n \<longleftrightarrow> 40 \<le> n \<and> n < 48"
  "bit (0xffffffff00000000 :: int) n \<longleftrightarrow> 32 \<le> n \<and> n < 64"
  "bit (0x7fffffff :: int) n \<longleftrightarrow> n < 31"
  "bit (0x80000000 :: int) n \<longleftrightarrow> 31 \<le> n \<and> n < 32"
  "bit (0x3ff :: int) n \<longleftrightarrow> n < 10"
  "bit (0x7 :: int) n \<longleftrightarrow> n < 3"
  "bit (0x3 :: int) n \<longleftrightarrow> n < 2"
  "bit (0xffffffff :: int) n \<longleftrightarrow> n < 32"
  "bit (0x1f :: int) n \<longleftrightarrow> n < 5"
  "bit (0xfff :: int) n \<longleftrightarrow> n < 12"
  "bit (0xc000000000000000 :: int) n \<longleftrightarrow> 62 \<le> n \<and> n < 64"
  "bit (0x1ff :: int) n \<longleftrightarrow> n < 9"
  "bit (0x20000000 :: int) n \<longleftrightarrow> 29 \<le> n \<and> n < 30"
  "bit (0x10000000 :: int) n \<longleftrightarrow> 28 \<le> n \<and> n < 29"
  "bit (0x700000000 :: int) n \<longleftrightarrow> 32 \<le> n \<and> n < 35"
  "bit (0x3ff00000000 :: int) n \<longleftrightarrow> 32 \<le> n \<and> n < 42"
    unfolding e bit_push_mask by auto
qed

subsection \<open>The option monad\<close>

text \<open>\<open>ASSERT\<close>: go on when the condition holds, abort otherwise.\<close>

definition ASSERT :: "bool \<Rightarrow> unit option" where
  "ASSERT b = (if b then Some () else None)"

lemma ASSERT_simps [simp]: "ASSERT True = Some ()" "ASSERT False = None"
  by (simp_all add: ASSERT_def)

lemma ASSERT_eq_Some [simp]: "ASSERT b = Some u \<longleftrightarrow> b"
  by (simp add: ASSERT_def)

text \<open>Array accesses that abort outside the array.\<close>

definition nth_opt :: "'a list \<Rightarrow> nat \<Rightarrow> 'a option" where
  "nth_opt xs n = (if n < length xs then Some (xs ! n) else None)"

definition upd_opt :: "'a list \<Rightarrow> nat \<Rightarrow> ('a \<Rightarrow> 'a) \<Rightarrow> 'a list option" where
  "upd_opt xs n f = (if n < length xs then Some (xs[n := f (xs ! n)]) else None)"

lemma nth_opt_Some [simp]: "nth_opt xs n = Some x \<longleftrightarrow> n < length xs \<and> xs ! n = x"
  by (auto simp: nth_opt_def)

lemma nth_opt_lt: "n < length xs \<Longrightarrow> nth_opt xs n = Some (xs ! n)"
  by simp

lemma upd_opt_Some [simp]: "upd_opt xs n f = Some ys \<longleftrightarrow> n < length xs \<and> ys = xs[n := f (xs ! n)]"
  by (auto simp: upd_opt_def)

lemma upd_opt_lt: "n < length xs \<Longrightarrow> upd_opt xs n f = Some (xs[n := f (xs ! n)])"
  by simp

text \<open>A \<open>for\<close> loop over the values of a list, threading a state and stopping at an abort.\<close>

fun for_each :: "'a list \<Rightarrow> ('a \<Rightarrow> 's \<Rightarrow> 's option) \<Rightarrow> 's \<Rightarrow> 's option" where
  "for_each [] f s = Some s"
| "for_each (x # xs) f s = (case f x s of None \<Rightarrow> None | Some s' \<Rightarrow> for_each xs f s')"

lemma for_each_append:
  "for_each (xs @ ys) f s = (case for_each xs f s of None \<Rightarrow> None | Some s' \<Rightarrow> for_each ys f s')"
  by (induction xs arbitrary: s) (auto split: option.splits)

lemma for_each_inv:
  assumes "for_each xs f s = Some s'" and "P s"
    and "\<And>x s s'. x \<in> set xs \<Longrightarrow> P s \<Longrightarrow> f x s = Some s' \<Longrightarrow> P s'"
  shows "P s'"
  using assms
proof (induction xs arbitrary: s)
  case Nil
  then show ?case by simp
next
  case (Cons x xs)
  from Cons.prems(1) obtain s1 where 1: "f x s = Some s1" "for_each xs f s1 = Some s'"
    by (auto split: option.splits)
  have "P s1" using Cons.prems(3) [OF _ Cons.prems(2) 1(1)] by simp
  then show ?case using Cons.IH [OF 1(2)] Cons.prems(3) by (meson list.set_intros(2))
qed

lemma for_each_total:
  assumes "P s" and "\<And>x s. x \<in> set xs \<Longrightarrow> P s \<Longrightarrow> \<exists>s'. f x s = Some s' \<and> P s'"
  shows "\<exists>s'. for_each xs f s = Some s' \<and> P s'"
  using assms
proof (induction xs arbitrary: s)
  case Nil
  then show ?case by simp
next
  case (Cons x xs)
  then obtain s1 where "f x s = Some s1" "P s1" by fastforce
  with Cons.IH [of s1] Cons.prems(2) show ?case by auto
qed

subsection \<open>Results of option computations\<close>

text \<open>\<open>tot m P\<close>: the computation does not abort and its result satisfies \<open>P\<close>. \<open>par m P\<close>: if it
  does not abort, its result satisfies \<open>P\<close>.\<close>

definition tot :: "'a option \<Rightarrow> ('a \<Rightarrow> bool) \<Rightarrow> bool" where
  "tot m P = (case m of None \<Rightarrow> False | Some x \<Rightarrow> P x)"

definition par :: "'a option \<Rightarrow> ('a \<Rightarrow> bool) \<Rightarrow> bool" where
  "par m P = (case m of None \<Rightarrow> True | Some x \<Rightarrow> P x)"

lemma tot_simps [simp]:
  "tot (Some x) P = P x" "\<not> tot None P" "tot (ASSERT b) Q = (b \<and> Q ())"
  "tot (Option.bind m f) P = tot m (\<lambda>x. tot (f x) P)"
  by (cases b; cases m; simp add: tot_def)+

lemma par_simps [simp]:
  "par (Some x) P = P x" "par None P" "par (ASSERT b) Q = (b \<longrightarrow> Q ())"
  "par (Option.bind m f) P = par m (\<lambda>x. par (f x) P)"
  by (cases b; cases m; simp add: par_def)+

lemma tot_iff: "tot m P \<longleftrightarrow> (\<exists>x. m = Some x \<and> P x)"
  by (cases m) simp_all

lemma par_iff: "par m P \<longleftrightarrow> (\<forall>x. m = Some x \<longrightarrow> P x)"
  by (cases m) simp_all

lemma totE: "tot m P \<Longrightarrow> (\<And>x. m = Some x \<Longrightarrow> P x \<Longrightarrow> thesis) \<Longrightarrow> thesis"
  by (auto simp: tot_iff)

lemma parD: "par m P \<Longrightarrow> m = Some x \<Longrightarrow> P x"
  by simp

lemma tot_mono: "tot m Q \<Longrightarrow> (\<And>x. m = Some x \<Longrightarrow> Q x \<Longrightarrow> P x) \<Longrightarrow> tot m P"
  by (cases m) simp_all

lemma par_mono: "par m Q \<Longrightarrow> (\<And>x. m = Some x \<Longrightarrow> Q x \<Longrightarrow> P x) \<Longrightarrow> par m P"
  by (cases m) simp_all

lemma tot_nth_opt [simp]: "tot (nth_opt xs n) P \<longleftrightarrow> n < length xs \<and> P (xs ! n)"
  by (simp add: nth_opt_def)

lemma par_nth_opt [simp]: "par (nth_opt xs n) P \<longleftrightarrow> (n < length xs \<longrightarrow> P (xs ! n))"
  by (simp add: nth_opt_def)

lemma tot_upd_opt [simp]: "tot (upd_opt xs n f) P \<longleftrightarrow> n < length xs \<and> P (xs[n := f (xs ! n)])"
  by (simp add: upd_opt_def)

lemma par_upd_opt [simp]: "par (upd_opt xs n f) P \<longleftrightarrow> (n < length xs \<longrightarrow> P (xs[n := f (xs ! n)]))"
  by (simp add: upd_opt_def)

lemma tot_for_each:
  assumes "I s" and "\<And>x s. x \<in> set xs \<Longrightarrow> I s \<Longrightarrow> tot (f x s) I"
  shows "tot (for_each xs f s) I"
  using for_each_total [of I s xs f] assms by (simp add: tot_iff)

lemma par_for_each:
  assumes "I s" and "\<And>x s. x \<in> set xs \<Longrightarrow> I s \<Longrightarrow> par (f x s) I"
  shows "par (for_each xs f s) I"
  unfolding par_iff
proof (intro allI impI)
  fix s' assume "for_each xs f s = Some s'"
  then show "I s'" using assms(1) by (rule for_each_inv) (use assms(2) in \<open>auto simp: par_iff\<close>)
qed

subsection \<open>Error numbers\<close>

datatype Errno = NONE | PERM | NOENT | AGAIN | NOMEM | RBUSY | EXIST | INVAL | BADR | NOTRECOVERABLE

fun errno2str :: "Errno \<Rightarrow> string" where
  "errno2str NONE = ''NONE''"
| "errno2str PERM = ''PERM''"
| "errno2str NOENT = ''NOENT''"
| "errno2str AGAIN = ''AGAIN''"
| "errno2str NOMEM = ''NOMEM''"
| "errno2str RBUSY = ''RBUSY''"
| "errno2str EXIST = ''EXIST''"
| "errno2str INVAL = ''INVAL''"
| "errno2str BADR = ''BADR''"
| "errno2str NOTRECOVERABLE = ''NOTRECOVERABLE''"

subsection \<open>Bit helpers\<close>

definition bit_mask :: "nat \<Rightarrow> nat \<Rightarrow> u64" where
  "bit_mask order offset =
     push_bit offset (if 64 \<le> order then NOT 0 else push_bit order 1 - 1)"

definition bits :: "u64 \<Rightarrow> nat \<Rightarrow> nat \<Rightarrow> u64" where
  "bits val count from = drop_bit from val AND bit_mask count 0"

text \<open>\<open>end - start + 1\<close> is computed in \<open>int\<close> and truncated to eight bits.\<close>

definition bits_in_range :: "u64 \<Rightarrow> nat \<Rightarrow> nat \<Rightarrow> u64" where
  "bits_in_range val start e = bits val (nat ((int e - int start + 1) mod 256)) start"

definition align_dn :: "u64 \<Rightarrow> u64 \<Rightarrow> u64" where
  "align_dn addr align = addr AND NOT (align - 1)"

definition align_up :: "u64 \<Rightarrow> u64 \<Rightarrow> u64" where
  "align_up addr align = align_dn (addr + (align - 1)) align"

definition combine_low_high :: "u32 \<Rightarrow> u32 \<Rightarrow> u64" where
  "combine_low_high low high = ucast low OR push_bit 32 (ucast high)"

lemma bit_mask_eq: "bit_mask n 0 = (Bit_Operations.mask n :: u64)"
proof (cases "64 \<le> n")
  case True
  then have "bit_mask n 0 = NOT (0 :: u64)" by (simp add: bit_mask_def)
  also have "\<dots> = Bit_Operations.mask n"
    by (rule word_eqI_bits) (use True in \<open>simp add: bit_simps\<close>)
  finally show ?thesis .
next
  case False
  then show ?thesis by (simp add: bit_mask_def mask_eq_decr_exp push_bit_eq_mult)
qed

lemma bits_eq_take_bit: "bits v n s = take_bit n (drop_bit s v)"
  by (simp add: bits_def bit_mask_eq take_bit_eq_mask)

lemma bits_value: "unat (bits v n s) = (unat v div 2 ^ s) mod 2 ^ n"
proof -
  have "unat (bits v n s) = take_bit n (unat (drop_bit s v))"
    by (simp add: bits_eq_take_bit unsigned_take_bit_eq)
  also have "unat (drop_bit s v) = unat v div 2 ^ s"
    by (simp add: unat_drop_bit_eq drop_bit_eq_div [where 'a = nat])
  finally show ?thesis by (simp add: take_bit_eq_mod)
qed

lemma combine_low_high_parts:
  "ucast (combine_low_high l h) = l" "ucast (drop_bit 32 (combine_low_high l h)) = h"
  by (rule word_eqI_bits, use bit_imp_le_length in \<open>fastforce simp: combine_low_high_def bit_simps\<close>)+

subsection \<open>The atomic bitset\<close>

text \<open>
  \<open>AtomicBitset<SIZE>\<close> is an array of \<open>SIZE\<close> flags; the callers keep the index below
  \<open>SIZE\<close>. \<open>first_set\<close> scans from \<open>start\<close> and looks at \<open>len\<close> flags at most.
  Its \<open>NOT_FOUND\<close> is \<open>None\<close>.
\<close>

type_synonym bitset = "nat \<Rightarrow> bool"

function first_set_upto :: "bitset \<Rightarrow> nat \<Rightarrow> nat \<Rightarrow> nat option" where
  "first_set_upto f i n = (if i < n then (if f i then Some i else first_set_upto f (Suc i) n) else None)"
  by pat_completeness auto
termination
  by (relation "measure (\<lambda>(f, i, n). n - i)") auto

declare first_set_upto.simps [simp del]

definition first_set :: "nat \<Rightarrow> bitset \<Rightarrow> nat \<Rightarrow> nat \<Rightarrow> nat option" where
  "first_set SIZE f start len = first_set_upto f start (min (start + len) SIZE)"

definition bitset_set :: "bitset \<Rightarrow> nat \<Rightarrow> bitset" where
  "bitset_set f i = f(i := True)"

definition bitset_clr :: "bitset \<Rightarrow> nat \<Rightarrow> bitset" where
  "bitset_clr f i = f(i := False)"

definition bitset_reset :: "bitset" where
  "bitset_reset = (\<lambda>_. False)"

lemma first_set_upto_find: "first_set_upto f i n = find f [i..<n]"
proof (induction f i n rule: first_set_upto.induct)
  case (1 f i n)
  then show ?case
    by (cases "i < n"; cases "f i") (simp_all add: first_set_upto.simps [of f i n] upt_conv_Cons)
qed

lemma first_set_Some:
  "first_set S f i l = Some k \<longleftrightarrow>
     i \<le> k \<and> k < min (i + l) S \<and> f k \<and> (\<forall>j. i \<le> j \<and> j < k \<longrightarrow> \<not> f j)"
  by (simp add: first_set_def first_set_upto_find nth_upt_find)

lemma first_set_None:
  "first_set S f i l = None \<longleftrightarrow> (\<forall>j. i \<le> j \<and> j < min (i + l) S \<longrightarrow> \<not> f j)"
  by (simp add: first_set_def first_set_upto_find find_None_upt)

lemma bitset_simps [simp]:
  "bitset_set f i j = (j = i \<or> f j)" "bitset_clr f i j = (j \<noteq> i \<and> f j)" "\<not> bitset_reset j"
  by (auto simp: bitset_set_def bitset_clr_def bitset_reset_def)

end
