(* ===== verification/RangeMap.thy ===== *)
theory RangeMap
  imports Prelude
begin

text \<open>
  \<open>platform/rangemap.hpp\<close>: half-open address ranges and the map of non-overlapping ranges
  that the virtual bus and the CPU affinity table are built on. The \<open>std::set\<close> ordered by
  \<open>Range_compare\<close> is the list of its nodes in the order of the comparator; a lookup is the
  lower bound of the key, accepted when the key is not below it. A node carries the payload of
  the class derived from \<open>RangeNode\<close>.
\<close>

record range =
  r_begin :: u64
  r_size :: u64

definition range_end :: "range \<Rightarrow> u64" where
  "range_end r = r_begin r + r_size r"

definition range_empty :: "range \<Rightarrow> bool" where
  "range_empty r \<longleftrightarrow> r_size r = 0"

definition range_last :: "range \<Rightarrow> u64" where
  "range_last r = (if range_empty r then r_begin r else r_begin r + r_size r - 1)"

definition range_intersect :: "range \<Rightarrow> range \<Rightarrow> bool" where
  "range_intersect r o' \<longleftrightarrow>
     \<not> range_empty r \<and> \<not> range_empty o' \<and> r_begin o' < range_end r \<and> r_begin r < range_end o'"

definition range_contains_val :: "range \<Rightarrow> u64 \<Rightarrow> bool" where
  "range_contains_val r v \<longleftrightarrow> (if range_empty r then False else r_begin r \<le> v \<and> v < range_end r)"

definition range_contains :: "range \<Rightarrow> range \<Rightarrow> bool" where
  "range_contains r o' \<longleftrightarrow>
     \<not> range_empty o' \<and> range_contains_val r (r_begin o') \<and> range_contains_val r (range_last o')"

definition range_less :: "range \<Rightarrow> range \<Rightarrow> bool" where
  "range_less r o' \<longleftrightarrow> range_end r \<le> r_begin o'"

definition range_compare :: "range \<Rightarrow> range \<Rightarrow> bool" where
  "range_compare a b = (if range_intersect a b then False else range_less a b)"

type_synonym 'd node = "range \<times> 'd"
type_synonym 'd range_map = "'d node list"

fun rm_insert :: "'d range_map \<Rightarrow> 'd node \<Rightarrow> 'd range_map \<times> bool" where
  "rm_insert [] n = ([n], True)"
| "rm_insert (m # ms) n =
     (if range_compare (fst m) (fst n) then (case rm_insert ms n of (ms', b) \<Rightarrow> (m # ms', b))
      else if range_compare (fst n) (fst m) then (n # m # ms, True)
      else (m # ms, False))"

fun rm_lookup :: "'d range_map \<Rightarrow> range \<Rightarrow> 'd node option" where
  "rm_lookup [] r = None"
| "rm_lookup (m # ms) r =
     (if range_compare (fst m) r then rm_lookup ms r
      else if range_compare r (fst m) then None
      else Some m)"

fun rm_remove :: "'d range_map \<Rightarrow> range \<Rightarrow> 'd range_map \<times> 'd node option" where
  "rm_remove [] r = ([], None)"
| "rm_remove (m # ms) r =
     (if range_compare (fst m) r then (case rm_remove ms r of (ms', x) \<Rightarrow> (m # ms', x))
      else if range_compare r (fst m) then (m # ms, None)
      else (ms, Some m))"

definition rm_iter :: "('d node \<Rightarrow> 's \<Rightarrow> 's) \<Rightarrow> 'd range_map \<Rightarrow> 's \<Rightarrow> 's" where
  "rm_iter f m = fold f m"

definition rm_clear :: "('d node \<Rightarrow> 's \<Rightarrow> 's) \<Rightarrow> 'd range_map \<Rightarrow> 's \<Rightarrow> 'd range_map \<times> 's" where
  "rm_clear f m s = ([], fold f m s)"

subsection \<open>Ranges as sets of addresses\<close>

text \<open>A range that is not empty and does not reach the end of the address space.\<close>

definition range_ok :: "range \<Rightarrow> bool" where
  "range_ok r \<longleftrightarrow> 0 < unat (r_size r) \<and> unat (r_begin r) + unat (r_size r) < 2 ^ 64"

definition addrs :: "range \<Rightarrow> nat set" where
  "addrs r = {unat (r_begin r) ..< unat (r_begin r) + unat (r_size r)}"

lemma range_ok_guard: "range_ok \<lparr>r_begin = a, r_size = b\<rparr> \<longleftrightarrow> \<not> a + b \<le> a"
  by (simp add: range_ok_def word_plus_no_wrap_iff)

lemma unat_range_end: "range_ok r \<Longrightarrow> unat (range_end r) = unat (r_begin r) + unat (r_size r)"
  by (simp add: range_ok_def range_end_def unat_plus_no_wrap)

lemma range_ok_nonempty: "range_ok r \<Longrightarrow> \<not> range_empty r"
  by (auto simp: range_ok_def range_empty_def)

lemma unat_range_last: "range_ok r \<Longrightarrow> unat (range_last r) = unat (r_begin r) + unat (r_size r) - 1"
proof -
  assume ok: "range_ok r"
  have e: "range_last r = range_end r - 1"
    using range_ok_nonempty [OF ok] by (simp add: range_last_def range_end_def)
  have "0 < unat (range_end r)" using ok by (simp add: unat_range_end range_ok_def)
  then have "1 \<le> range_end r" by (simp add: word_le_nat_alt)
  then show ?thesis using ok by (simp add: e unat_minus_le unat_range_end)
qed

lemma range_intersect_iff:
  "range_ok a \<Longrightarrow> range_ok b \<Longrightarrow>
     range_intersect a b \<longleftrightarrow>
       unat (r_begin b) < unat (r_begin a) + unat (r_size a) \<and>
       unat (r_begin a) < unat (r_begin b) + unat (r_size b)"
  by (simp add: range_intersect_def range_ok_nonempty word_less_nat_alt unat_range_end)

lemma range_intersect_addrs:
  assumes "range_ok a" "range_ok b"
  shows "range_intersect a b \<longleftrightarrow> addrs a \<inter> addrs b \<noteq> {}"
proof -
  have "0 < unat (r_size a)" "0 < unat (r_size b)" using assms by (simp_all add: range_ok_def)
  then show ?thesis
    unfolding range_intersect_iff [OF assms] addrs_def by (auto simp del: unat_gt_0)
qed

lemma range_compare_iff:
  "range_ok a \<Longrightarrow> range_ok b \<Longrightarrow>
     range_compare a b \<longleftrightarrow> unat (r_begin a) + unat (r_size a) \<le> unat (r_begin b)"
  by (auto simp: range_compare_def range_intersect_iff range_less_def word_le_nat_alt unat_range_end)

lemma range_contains_addrs:
  assumes "range_ok a" "range_ok b"
  shows "range_contains a b \<longleftrightarrow> addrs b \<subseteq> addrs a"
proof -
  have "0 < unat (r_size a)" "0 < unat (r_size b)" using assms by (simp_all add: range_ok_def)
  then show ?thesis
    using assms
    by (auto simp: range_contains_def range_contains_val_def range_ok_nonempty word_le_nat_alt
        word_less_nat_alt unat_range_end unat_range_last addrs_def ivl_subset simp del: unat_gt_0)
qed

subsection \<open>The interface of a map of disjoint ranges\<close>

text \<open>
  What a client of the map relies on: the nodes are valid and pairwise disjoint, a lookup finds
  the node that overlaps the key, an insertion succeeds exactly on a free range, a removal takes
  out the node it returns.
\<close>

locale interval_map =
  fixes invar :: "'m \<Rightarrow> bool"
    and nodes :: "'m \<Rightarrow> 'd node set"
    and ins :: "'m \<Rightarrow> 'd node \<Rightarrow> 'm \<times> bool"
    and find :: "'m \<Rightarrow> range \<Rightarrow> 'd node option"
    and rem :: "'m \<Rightarrow> range \<Rightarrow> 'm \<times> 'd node option"
  assumes valid: "invar m \<Longrightarrow> n \<in> nodes m \<Longrightarrow> range_ok (fst n)"
    and disjoint: "invar m \<Longrightarrow> n \<in> nodes m \<Longrightarrow> n' \<in> nodes m \<Longrightarrow>
           range_intersect (fst n) (fst n') \<Longrightarrow> n = n'"
    and find_Some: "invar m \<Longrightarrow> range_ok r \<Longrightarrow> find m r = Some n \<Longrightarrow>
           n \<in> nodes m \<and> range_intersect (fst n) r"
    and find_None: "invar m \<Longrightarrow> range_ok r \<Longrightarrow> find m r = None \<Longrightarrow> n \<in> nodes m \<Longrightarrow>
           \<not> range_intersect (fst n) r"
    and ins_invar: "invar m \<Longrightarrow> range_ok (fst n) \<Longrightarrow> invar (fst (ins m n))"
    and ins_nodes: "invar m \<Longrightarrow> range_ok (fst n) \<Longrightarrow>
           nodes (fst (ins m n)) = (if snd (ins m n) then insert n (nodes m) else nodes m)"
    and ins_iff: "invar m \<Longrightarrow> range_ok (fst n) \<Longrightarrow>
           snd (ins m n) \<longleftrightarrow> (\<forall>n'\<in>nodes m. \<not> range_intersect (fst n') (fst n))"
    and rem_invar: "invar m \<Longrightarrow> invar (fst (rem m r))"
    and rem_find: "invar m \<Longrightarrow> snd (rem m r) = find m r"
    and rem_nodes: "invar m \<Longrightarrow> nodes (fst (rem m r)) = nodes m - set_option (find m r)"
begin

lemma find_contained:
  assumes "invar m" "n \<in> nodes m" "range_ok r" "range_contains (fst n) r"
  shows "find m r = Some n"
proof (cases "find m r")
  case None
  have ok: "range_ok (fst n)" using assms(1,2) by (rule valid)
  have "addrs r \<subseteq> addrs (fst n)" using range_contains_addrs [OF ok assms(3)] assms(4) by simp
  moreover have "addrs r \<noteq> {}" using assms(3) by (simp add: addrs_def range_ok_def)
  ultimately have "range_intersect (fst n) r"
    using range_intersect_addrs [OF ok assms(3)] by blast
  with find_None [OF assms(1,3) None assms(2)] show ?thesis by simp
next
  case (Some n')
  have n': "n' \<in> nodes m" "range_intersect (fst n') r" using find_Some [OF assms(1,3) Some] by simp_all
  have ok: "range_ok (fst n)" "range_ok (fst n')" using assms(1,2) n'(1) by (auto intro: valid)
  have "addrs r \<subseteq> addrs (fst n)" using range_contains_addrs [OF ok(1) assms(3)] assms(4) by simp
  then have "addrs (fst n') \<inter> addrs (fst n) \<noteq> {}"
    using range_intersect_addrs [OF ok(2) assms(3)] n'(2) by blast
  then have "range_intersect (fst n') (fst n)" using range_intersect_addrs [OF ok(2) ok(1)] by simp
  then show ?thesis using disjoint [OF assms(1) n'(1) assms(2)] Some by simp
qed

lemma find_inserted:
  assumes "invar m" "range_ok (fst n)" "snd (ins m n)" "range_ok r" "range_contains (fst n) r"
  shows "find (fst (ins m n)) r = Some n"
  using assms by (intro find_contained) (auto simp: ins_invar ins_nodes)

lemma find_removed:
  assumes "invar m" "range_ok r" "find m r = Some n" "range_ok r'" "range_contains (fst n) r'"
  shows "find (fst (rem m r)) r' = None"
proof (rule ccontr)
  assume "find (fst (rem m r)) r' \<noteq> None"
  then obtain n' where f: "find (fst (rem m r)) r' = Some n'" by blast
  have n: "n \<in> nodes m" using find_Some [OF assms(1-3)] by simp
  have n': "n' \<in> nodes m" "n' \<noteq> n" "range_intersect (fst n') r'"
    using find_Some [OF rem_invar [OF assms(1)] assms(4) f] rem_nodes [OF assms(1)] assms(3) by auto
  have ok: "range_ok (fst n)" "range_ok (fst n')" using assms(1) n n'(1) by (auto intro: valid)
  have "addrs (fst n') \<inter> addrs (fst n) \<noteq> {}"
    using range_contains_addrs [OF ok(1) assms(4)] assms(5)
      range_intersect_addrs [OF ok(2) assms(4)] n'(3) by blast
  then have "n' = n"
    using range_intersect_addrs [OF ok(2) ok(1)] disjoint [OF assms(1) n'(1) n] by simp
  with n'(2) show False by simp
qed

lemma no_double_booking:
  assumes "invar m" "range_ok (fst n)" "find m (fst n) = Some n'"
  shows "\<not> snd (ins m n) \<and> nodes (fst (ins m n)) = nodes m"
  using assms find_Some [OF assms(1-3)] by (auto simp: ins_iff ins_nodes)

end

subsection \<open>The sorted list of nodes provides it\<close>

definition rm_invar :: "'d range_map \<Rightarrow> bool" where
  "rm_invar m \<longleftrightarrow>
     (\<forall>n\<in>set m. range_ok (fst n)) \<and>
     sorted_wrt (\<lambda>a b. range_compare (fst a) (fst b)) m"

lemma range_compare_trans:
  assumes "range_ok a" "range_ok b" "range_ok c" "range_compare a b" "range_compare b c"
  shows "range_compare a c"
  using assms by (auto simp: range_compare_iff)

lemma range_compare_asym: "range_compare a b \<Longrightarrow> \<not> range_intersect a b"
  by (auto simp: range_compare_def split: if_splits)

lemma range_intersect_sym: "range_intersect a b \<longleftrightarrow> range_intersect b a"
  by (auto simp: range_intersect_def)

lemma range_compare_total:
  "range_ok a \<Longrightarrow> range_ok b \<Longrightarrow> range_compare a b \<or> range_compare b a \<or> range_intersect a b"
  by (auto simp: range_compare_iff range_intersect_iff)

lemma rm_invar_Cons:
  "rm_invar (m # ms) \<longleftrightarrow>
     range_ok (fst m) \<and> (\<forall>n\<in>set ms. range_compare (fst m) (fst n)) \<and> rm_invar ms"
  by (auto simp: rm_invar_def)

lemma rm_insert_set:
  "set (fst (rm_insert m n)) = (if snd (rm_insert m n) then insert n (set m) else set m)"
  by (induction m n rule: rm_insert.induct) (auto split: prod.splits if_splits)

lemma rm_insert_invar: "rm_invar m \<Longrightarrow> range_ok (fst n) \<Longrightarrow> rm_invar (fst (rm_insert m n))"
proof (induction m n rule: rm_insert.induct)
  case (1 n)
  then show ?case by (simp add: rm_invar_def)
next
  case (2 m ms n)
  then have ok: "range_ok (fst m)" and ms: "rm_invar ms" and lt: "\<forall>k\<in>set ms. range_compare (fst m) (fst k)"
    by (simp_all add: rm_invar_Cons)
  have IH: "range_compare (fst m) (fst n) \<Longrightarrow> rm_invar (fst (rm_insert ms n))"
    using 2 ms by simp
  have set': "set (fst (rm_insert ms n)) \<subseteq> insert n (set ms)"
    using rm_insert_set [of ms n] by (auto split: if_splits)
  have okms: "\<And>k. k \<in> set ms \<Longrightarrow> range_ok (fst k)" using ms by (simp add: rm_invar_def)
  show ?case
    using 2(2,3) ok ms lt IH set' okms
    by (auto simp: rm_invar_Cons split: prod.splits intro: range_compare_trans)
qed

lemma rm_insert_iff:
  "rm_invar m \<Longrightarrow> range_ok (fst n) \<Longrightarrow>
     snd (rm_insert m n) \<longleftrightarrow> (\<forall>n'\<in>set m. \<not> range_intersect (fst n') (fst n))"
proof (induction m n rule: rm_insert.induct)
  case (1 n)
  then show ?case by simp
next
  case (2 m ms n)
  have ok: "range_ok (fst m)" and ms: "rm_invar ms" and lt: "\<forall>k\<in>set ms. range_compare (fst m) (fst k)"
    using 2(2) by (simp_all add: rm_invar_Cons)
  have okms: "\<And>k. k \<in> set ms \<Longrightarrow> range_ok (fst k)" using ms by (simp add: rm_invar_def)
  consider (lt) "range_compare (fst m) (fst n)" | (gt) "\<not> range_compare (fst m) (fst n)" "range_compare (fst n) (fst m)"
    | (eq) "\<not> range_compare (fst m) (fst n)" "\<not> range_compare (fst n) (fst m)" by blast
  then show ?case
  proof cases
    case lt
    then show ?thesis using 2(1) [OF lt ms 2(3)] range_compare_asym [OF lt] by (auto split: prod.splits)
  next
    case gt
    have "\<not> range_intersect (fst n) (fst k)" if "k \<in> set ms" for k
      using range_compare_trans [OF 2(3) ok okms [OF that] gt(2)] lt that range_compare_asym by blast
    then show ?thesis using gt range_compare_asym [OF gt(2)] by (auto simp: range_intersect_sym)
  next
    case eq
    then have "range_intersect (fst m) (fst n)" using range_compare_total [OF ok 2(3)] by blast
    then show ?thesis using eq by auto
  qed
qed

lemma rm_lookup_Some:
  "rm_invar m \<Longrightarrow> range_ok r \<Longrightarrow> rm_lookup m r = Some n \<Longrightarrow> n \<in> set m \<and> range_intersect (fst n) r"
  using range_compare_total
  by (induction m r rule: rm_lookup.induct) (auto simp: rm_invar_Cons split: if_splits)

lemma rm_lookup_None:
  assumes "rm_invar m" "range_ok r" "rm_lookup m r = None" "n \<in> set m"
  shows "\<not> range_intersect (fst n) r"
  using assms
proof (induction m r rule: rm_lookup.induct)
  case (1 r)
  then show ?case by simp
next
  case (2 m ms r)
  have ok: "range_ok (fst m)" "range_ok (fst n)" using 2 by (auto simp: rm_invar_def)
  show ?case
  proof (cases "range_compare (fst m) r")
    case True
    then show ?thesis using 2 range_compare_asym [OF True] by (auto simp: rm_invar_Cons)
  next
    case False
    then have r: "range_compare r (fst m)" using 2(4) by (auto split: if_splits)
    have "n = m \<or> range_compare (fst m) (fst n)" using 2(2,5) by (auto simp: rm_invar_Cons)
    then have "range_compare r (fst n)" using r range_compare_trans [OF 2(3) ok] by auto
    then show ?thesis using range_compare_asym range_intersect_sym by blast
  qed
qed

lemma rm_remove_lookup: "snd (rm_remove m r) = rm_lookup m r"
  by (induction m r rule: rm_remove.induct) (auto split: prod.splits)

lemma rm_lookup_in: "rm_lookup m r = Some n \<Longrightarrow> n \<in> set m"
  by (induction m r rule: rm_lookup.induct) (auto split: if_splits)

lemma rm_remove_set:
  "rm_invar m \<Longrightarrow> set (fst (rm_remove m r)) = set m - set_option (rm_lookup m r)"
proof (induction m r rule: rm_remove.induct)
  case (1 r)
  then show ?case by simp
next
  case (2 m ms r)
  have ok: "range_ok (fst m)" and ms: "rm_invar ms" and lt: "\<forall>k\<in>set ms. range_compare (fst m) (fst k)"
    using 2(2) by (simp_all add: rm_invar_Cons)
  have "m \<notin> set ms" using lt ok by (force simp: range_compare_iff range_ok_def)
  have notin: "rm_lookup ms r \<noteq> Some m"
    using \<open>m \<notin> set ms\<close> rm_lookup_in by blast
  show ?case
  proof (cases "range_compare (fst m) r")
    case True
    then have "set (fst (rm_remove ms r)) = set ms - set_option (rm_lookup ms r)"
      using 2(1) [OF _ ms] by blast
    moreover have "fst (rm_remove (m # ms) r) = m # fst (rm_remove ms r)"
      using True by (simp add: split_beta)
    ultimately show ?thesis using True notin by (cases "rm_lookup ms r") auto
  next
    case False
    then show ?thesis using \<open>m \<notin> set ms\<close> by (simp add: insert_Diff_if)
  qed
qed

lemma rm_remove_invar: "rm_invar m \<Longrightarrow> rm_invar (fst (rm_remove m r))"
proof (induction m r rule: rm_remove.induct)
  case (1 r)
  then show ?case by simp
next
  case (2 m ms r)
  have ms: "rm_invar ms" using 2(2) by (simp add: rm_invar_Cons)
  have "set (fst (rm_remove ms r)) \<subseteq> set ms" using rm_remove_set [OF ms] by auto
  then show ?case using 2 ms by (auto simp: rm_invar_Cons split: prod.splits)
qed

lemma rm_disjoint:
  "rm_invar m \<Longrightarrow> n \<in> set m \<Longrightarrow> n' \<in> set m \<Longrightarrow> range_intersect (fst n) (fst n') \<Longrightarrow> n = n'"
proof (induction m)
  case Nil
  then show ?case by simp
next
  case (Cons k ks)
  then show ?case
    using range_compare_asym range_intersect_sym by (metis rm_invar_Cons set_ConsD)
qed

interpretation rm: interval_map rm_invar set rm_insert rm_lookup rm_remove
proof (unfold_locales, goal_cases)
  case (1 m n)
  then show ?case by (simp add: rm_invar_def)
next
  case (2 m n n')
  then show ?case by (rule rm_disjoint)
next
  case (3 m r n)
  then show ?case by (rule rm_lookup_Some)
next
  case (4 m r n)
  then show ?case by (rule rm_lookup_None)
next
  case (5 m n)
  then show ?case by (rule rm_insert_invar)
next
  case (6 m n)
  show ?case by (rule rm_insert_set)
next
  case (7 m n)
  then show ?case by (rule rm_insert_iff)
next
  case (8 m r)
  then show ?case by (rule rm_remove_invar)
next
  case (9 m r)
  show ?case by (rule rm_remove_lookup)
next
  case (10 m r)
  then show ?case by (rule rm_remove_set)
qed

end
