(* ===== verification/Vbus.thy ===== *)
theory Vbus
  imports RangeMap
begin

text \<open>
  \<open>devices/vbus\<close>: the virtual bus. A device is an element of a type \<open>'d\<close> of device
  identities; what the devices do when the bus calls them (the virtual functions of
  \<open>Vbus::Device\<close>) is the record of functions \<open>dev_ops\<close>, acting on a state \<open>'s\<close> of all
  devices. The statistics that \<open>Vbus::Device\<close> itself keeps are in the bus state, per device.
  The lock of the bus is not part of the model: each operation is one step. The two readings
  of \<open>clock()\<close> around an access and the outcome of an allocation are arguments.
\<close>

datatype vbus_err = OK | NO_OP | ACCESS_ERR | UPDATE_REGISTER | NO_DEVICE

datatype vbus_space = MMIO | REGULAR_MEMORY | ALL_MEM | IO_PORT | MODEL_SPECIFIC_REGISTER
  | SYSTEM_REGISTER | AFFINITY

datatype vbus_access = READ | WRITE | READ_WRITE | EXEC_USER | EXEC_SUPERVISOR | EXEC

datatype dev_typ = DEVICE | GUEST_PHYSICAL_STATIC_MEMORY | GUEST_PHYSICAL_DYNAMIC_MEMORY | IRQ_CONTROLLER

record dev_stats =
  accesses :: u64
  time_spent :: u64

definition dev_reset_stats :: "dev_stats \<Rightarrow> dev_stats" where
  "dev_reset_stats d = d\<lparr>accesses := 0, time_spent := 0\<rparr>"

definition dev_accessed :: "dev_stats \<Rightarrow> dev_stats" where
  "dev_accessed d = d\<lparr>accesses := accesses d + 1\<rparr>"

definition dev_add_time :: "u64 \<Rightarrow> dev_stats \<Rightarrow> dev_stats" where
  "dev_add_time t d = d\<lparr>time_spent := time_spent d + t\<rparr>"

record ('d, 's) dev_ops =
  dv_type :: "'d \<Rightarrow> dev_typ"
  dv_access :: "'d \<Rightarrow> vbus_access \<Rightarrow> vbus_space \<Rightarrow> u64 \<Rightarrow> u8 \<Rightarrow> u64 \<Rightarrow> 's \<Rightarrow> vbus_err \<times> u64 \<times> 's"
  dv_reset :: "'d \<Rightarrow> 's \<Rightarrow> 's"
  dv_shutdown :: "'d \<Rightarrow> 's \<Rightarrow> 's"
  dv_deinit :: "'d \<Rightarrow> 's \<Rightarrow> 's"

datatype 'd bus_msg = Folded 'd u64 | Traced 'd u64 u8 vbus_access u64

record 'd bus =
  devices :: "'d range_map"
  bus_space :: vbus_space
  trace :: bool
  fold_trace :: bool
  absolute_access :: bool
  last_access :: "'d node option"
  num_accesses :: u64
  stats :: "'d \<Rightarrow> dev_stats"
  messages :: "'d bus_msg list"

definition bus_new :: "vbus_space \<Rightarrow> bool \<Rightarrow> ('d \<Rightarrow> dev_stats) \<Rightarrow> 'd bus" where
  "bus_new sp absolute st =
     \<lparr>devices = [], bus_space = sp, trace = False, fold_trace = True, absolute_access = absolute,
      last_access = None, num_accesses = 0, stats = st, messages = []\<rparr>"

definition set_trace :: "bool \<Rightarrow> bool \<Rightarrow> 'd bus \<Rightarrow> 'd bus" where
  "set_trace enabled fold_successive b = b\<lparr>trace := enabled, fold_trace := fold_successive\<rparr>"

definition bus_lookup :: "'d bus \<Rightarrow> u64 \<Rightarrow> u64 \<Rightarrow> 'd node option" where
  "bus_lookup b addr bytes =
     (if addr + bytes \<le> addr then None
      else rm_lookup (devices b) \<lparr>r_begin = addr, r_size = bytes\<rparr>)"

definition log_trace_info ::
  "'d bus \<Rightarrow> 'd node \<Rightarrow> 'd node option \<Rightarrow> vbus_access \<Rightarrow> u64 \<Rightarrow> u8 \<Rightarrow> u64 \<Rightarrow> 'd bus" where
  "log_trace_info b cur prev access addr bytes val =
     (let info = (\<lambda>b. b\<lparr>messages := messages b @ [Traced (snd cur) addr bytes access val], num_accesses := 0\<rparr>)
      in if prev \<noteq> Some cur
         then info (case prev of
                None \<Rightarrow> b
              | Some l \<Rightarrow> if fold_trace b \<and> 1 < num_accesses b
                          then b\<lparr>messages := messages b @ [Folded (snd l) (num_accesses b)]\<rparr> else b)
         else (let b1 = b\<lparr>num_accesses := num_accesses b + 1\<rparr>
               in if fold_trace b1 then b1 else info b1))"

definition access_with_dev ::
  "('d, 's) dev_ops \<Rightarrow> bool \<Rightarrow> u64 \<times> u64 \<Rightarrow> 'd bus \<Rightarrow> 'd \<Rightarrow> vbus_access \<Rightarrow> u64 \<Rightarrow> u8 \<Rightarrow> u64 \<Rightarrow> 's \<Rightarrow>
     vbus_err \<times> u64 \<times> 'd bus \<times> 's" where
  "access_with_dev ops stats_on clk b dev access off bytes val s =
     (let b1 = (if stats_on then b\<lparr>stats := (stats b)(dev := dev_accessed (stats b dev))\<rparr> else b);
          (err, val', s') = dv_access ops dev access (bus_space b) off bytes val s;
          b2 = (if stats_on
                then b1\<lparr>stats := (stats b1)(dev := dev_add_time (snd clk - fst clk) (stats b1 dev))\<rparr>
                else b1)
      in (err, val', b2, s'))"

definition bus_access ::
  "('d, 's) dev_ops \<Rightarrow> bool \<Rightarrow> u64 \<times> u64 \<Rightarrow> 'd bus \<Rightarrow> vbus_access \<Rightarrow> u64 \<Rightarrow> u8 \<Rightarrow> u64 \<Rightarrow> 's \<Rightarrow>
     vbus_err \<times> u64 \<times> 'd bus \<times> 's" where
  "bus_access ops stats_on clk b access addr bytes val s =
     (if addr + ucast bytes \<le> addr then (NO_DEVICE, val, b, s)
      else
        let target = \<lparr>r_begin = addr, r_size = ucast bytes\<rparr>;
            found = (case last_access b of
                       Some e \<Rightarrow> if range_contains (fst e) target then Some e
                                 else bus_lookup b addr (ucast bytes)
                     | None \<Rightarrow> bus_lookup b addr (ucast bytes))
        in case found of
             None \<Rightarrow> (NO_DEVICE, val, b, s)
           | Some e \<Rightarrow>
               let previous = (if trace b then last_access b else None);
                   val1 = (if trace b \<and> access = READ then 0 else val);
                   b1 = (if last_access b \<noteq> Some e then b\<lparr>last_access := Some e\<rparr> else b);
                   off = (if absolute_access b then addr else addr - r_begin (fst e));
                   (err, val2, b2, s') = access_with_dev ops stats_on clk b1 (snd e) access off bytes val1 s;
                   b3 = (if trace b then log_trace_info b2 e previous access addr bytes val2 else b2)
               in (err, val2, b3, s'))"

definition get_device_at :: "'d bus \<Rightarrow> u64 \<Rightarrow> u64 \<Rightarrow> 'd option" where
  "get_device_at b addr sz = map_option snd (bus_lookup b addr sz)"

definition register_device :: "bool \<Rightarrow> 'd bus \<Rightarrow> 'd \<Rightarrow> u64 \<Rightarrow> u64 \<Rightarrow> bool \<times> 'd bus" where
  "register_device alloc b d addr bytes =
     (if addr + bytes \<le> addr then (False, b)
      else if \<not> alloc then (False, b)
      else case rm_insert (devices b) (\<lparr>r_begin = addr, r_size = bytes\<rparr>, d) of
             (m, status) \<Rightarrow> (status, b\<lparr>devices := m\<rparr>))"

definition reset_device_cb :: "('d, 's) dev_ops \<Rightarrow> 'd node \<Rightarrow> 's \<Rightarrow> 's" where
  "reset_device_cb ops e s = (if dv_type ops (snd e) \<noteq> IRQ_CONTROLLER then dv_reset ops (snd e) s else s)"

definition reset_irq_ctlr_cb :: "('d, 's) dev_ops \<Rightarrow> 'd node \<Rightarrow> 's \<Rightarrow> 's" where
  "reset_irq_ctlr_cb ops e s = (if dv_type ops (snd e) = IRQ_CONTROLLER then dv_reset ops (snd e) s else s)"

definition bus_reset :: "('d, 's) dev_ops \<Rightarrow> 'd bus \<Rightarrow> 's \<Rightarrow> 's" where
  "bus_reset ops b s =
     rm_iter (reset_irq_ctlr_cb ops) (devices b) (rm_iter (reset_device_cb ops) (devices b) s)"

definition bus_shutdown :: "('d, 's) dev_ops \<Rightarrow> 'd bus \<Rightarrow> 's \<Rightarrow> 's" where
  "bus_shutdown ops b s = rm_iter (\<lambda>e. dv_shutdown ops (snd e)) (devices b) s"

definition bus_deinit :: "('d, 's) dev_ops \<Rightarrow> 'd bus \<Rightarrow> 's \<Rightarrow> Errno \<times> 'd bus \<times> 's" where
  "bus_deinit ops b s =
     (case rm_clear (\<lambda>e. dv_deinit ops (snd e)) (devices b) s of
        (m, s') \<Rightarrow> (NONE, b\<lparr>devices := m\<rparr>, s'))"

definition unregister_device :: "'d bus \<Rightarrow> u64 \<Rightarrow> u64 \<Rightarrow> 'd bus" where
  "unregister_device b addr bytes =
     (case rm_remove (devices b) \<lparr>r_begin = addr, r_size = bytes\<rparr> of
        (m, rm_dev) \<Rightarrow>
          b\<lparr>devices := m, last_access := (if rm_dev = last_access b then None else last_access b)\<rparr>)"

subsection \<open>The invariant of the bus\<close>

definition bus_inv :: "'d bus \<Rightarrow> bool" where
  "bus_inv b \<longleftrightarrow> rm_invar (devices b) \<and> set_option (last_access b) \<subseteq> set (devices b)"

lemma bus_inv_new: "bus_inv (bus_new sp a st)"
  by (simp add: bus_inv_def bus_new_def rm_invar_def)

lemma bus_inv_register: "bus_inv b \<Longrightarrow> bus_inv (snd (register_device alloc b d addr bytes))"
  using rm.ins_invar [of "devices b" "(\<lparr>r_begin = addr, r_size = bytes\<rparr>, d)"]
    rm_insert_set [of "devices b" "(\<lparr>r_begin = addr, r_size = bytes\<rparr>, d)"]
  by (auto simp: bus_inv_def register_device_def range_ok_guard split: prod.splits if_splits)

lemma bus_inv_unregister: "bus_inv b \<Longrightarrow> bus_inv (unregister_device b addr bytes)"
  using rm.rem_invar [of "devices b" "\<lparr>r_begin = addr, r_size = bytes\<rparr>"]
    rm_remove_set [of "devices b" "\<lparr>r_begin = addr, r_size = bytes\<rparr>"]
    rm_remove_lookup [of "devices b" "\<lparr>r_begin = addr, r_size = bytes\<rparr>"]
  by (auto simp: bus_inv_def unregister_device_def split: prod.splits)

lemma log_trace_info_frame [frame_simps]:
  "devices (log_trace_info b cur prev a addr bytes v) = devices b"
  "last_access (log_trace_info b cur prev a addr bytes v) = last_access b"
  by (auto simp: log_trace_info_def Let_def split: option.splits)

lemma access_with_dev_frame [frame_simps]:
  "access_with_dev ops st clk b d a off bytes v s = (e, v', b', s') \<Longrightarrow> devices b' = devices b"
  "access_with_dev ops st clk b d a off bytes v s = (e, v', b', s') \<Longrightarrow> last_access b' = last_access b"
  by (auto simp: access_with_dev_def Let_def split: prod.splits)

text \<open>What the bus does with the entry it has found, apart from the bookkeeping.\<close>

definition bus_found :: "'d bus \<Rightarrow> u64 \<Rightarrow> u8 \<Rightarrow> 'd node option" where
  "bus_found b addr bytes =
     (let target = \<lparr>r_begin = addr, r_size = ucast bytes\<rparr>
      in case last_access b of
           Some e \<Rightarrow> if range_contains (fst e) target then Some e else bus_lookup b addr (ucast bytes)
         | None \<Rightarrow> bus_lookup b addr (ucast bytes))"

lemma bus_found_lookup:
  assumes "bus_inv b" and "\<not> addr + ucast bytes \<le> addr"
  shows "bus_found b addr bytes = bus_lookup b addr (ucast bytes)"
proof -
  have ok: "range_ok \<lparr>r_begin = addr, r_size = ucast bytes\<rparr>" using assms(2) by (simp add: range_ok_guard)
  have inv: "rm_invar (devices b)" using assms(1) by (simp add: bus_inv_def)
  show ?thesis
  proof (cases "last_access b")
    case None
    then show ?thesis by (simp add: bus_found_def Let_def)
  next
    case (Some e)
    then have "e \<in> set (devices b)" using assms(1) by (simp add: bus_inv_def)
    then show ?thesis
      using rm.find_contained [OF inv _ ok] Some assms(2)
      by (simp add: bus_found_def Let_def bus_lookup_def)
  qed
qed

definition result_part :: "'e \<times> 'v \<times> 'b \<times> 's \<Rightarrow> 'e \<times> 'v \<times> 's" where
  "result_part r = (case r of (e, v, b, s) \<Rightarrow> (e, v, s))"

lemma access_with_dev_result:
  "result_part (access_with_dev ops st clk b d a off bytes v s) =
     dv_access ops d a (bus_space b) off bytes v s"
  by (auto simp: access_with_dev_def result_part_def Let_def split: prod.splits)

lemma bus_access_result:
  assumes "bus_inv b"
  shows "result_part (bus_access ops st clk b a addr bytes v s) =
    (case bus_lookup b addr (ucast bytes) of
       None \<Rightarrow> (NO_DEVICE, v, s)
     | Some e \<Rightarrow> dv_access ops (snd e) a (bus_space b)
                  (if absolute_access b then addr else addr - r_begin (fst e)) bytes
                  (if trace b \<and> a = READ then 0 else v) s)"
proof (cases "addr + ucast bytes \<le> addr")
  case True
  then show ?thesis by (simp add: bus_access_def result_part_def bus_lookup_def)
next
  case False
  have f: "bus_found b addr bytes = bus_lookup b addr (ucast bytes)"
    by (rule bus_found_lookup [OF assms False])
  show ?thesis
  proof (cases "bus_lookup b addr (ucast bytes)")
    case None
    with f False show ?thesis
      by (simp add: bus_access_def bus_found_def [unfolded Let_def] result_part_def Let_def)
  next
    case (Some e)
    let ?b1 = "if last_access b \<noteq> Some e then b\<lparr>last_access := Some e\<rparr> else b"
    let ?off = "if absolute_access b then addr else addr - r_begin (fst e)"
    let ?v1 = "if trace b \<and> a = READ then 0 else v"
    have "result_part (bus_access ops st clk b a addr bytes v s) =
        result_part (access_with_dev ops st clk ?b1 (snd e) a ?off bytes ?v1 s)"
      using f False Some
      by (simp add: bus_access_def bus_found_def [unfolded Let_def] result_part_def Let_def split_beta)
    then show ?thesis using Some by (simp add: access_with_dev_result)
  qed
qed

lemma bus_inv_access:
  assumes "bus_inv b"
  shows "bus_inv (fst (snd (snd (bus_access ops st clk b a addr bytes v s))))"
proof (cases "addr + ucast bytes \<le> addr \<or> bus_found b addr bytes = None")
  case True
  then show ?thesis using assms
    by (auto simp: bus_access_def bus_found_def [unfolded Let_def] Let_def)
next
  case False
  then obtain e where e: "bus_found b addr bytes = Some e" and ok: "\<not> addr + ucast bytes \<le> addr" by auto
  have "bus_lookup b addr (ucast bytes) = Some e" using e bus_found_lookup [OF assms ok] by simp
  then have "rm_lookup (devices b) \<lparr>r_begin = addr, r_size = ucast bytes\<rparr> = Some e"
    using ok by (simp add: bus_lookup_def)
  then have "e \<in> set (devices b)" by (rule rm_lookup_in)
  then show ?thesis using assms e ok access_with_dev_frame
    by (auto simp: bus_access_def bus_found_def [unfolded Let_def] Let_def bus_inv_def frame_simps
        split: prod.splits if_splits)
qed

subsection \<open>Operations over all devices\<close>

lemma bus_reset_order:
  "bus_reset ops b s =
     fold (dv_reset ops)
       (filter (\<lambda>d. dv_type ops d \<noteq> IRQ_CONTROLLER) (map snd (devices b)) @
        filter (\<lambda>d. dv_type ops d = IRQ_CONTROLLER) (map snd (devices b))) s"
proof -
  have 1: "fold (reset_device_cb ops) m s =
      fold (dv_reset ops) (filter (\<lambda>d. dv_type ops d \<noteq> IRQ_CONTROLLER) (map snd m)) s" for m s
    by (induction m arbitrary: s) (simp_all add: reset_device_cb_def)
  have 2: "fold (reset_irq_ctlr_cb ops) m s =
      fold (dv_reset ops) (filter (\<lambda>d. dv_type ops d = IRQ_CONTROLLER) (map snd m)) s" for m s
    by (induction m arbitrary: s) (simp_all add: reset_irq_ctlr_cb_def)
  show ?thesis by (simp add: bus_reset_def rm_iter_def 1 2)
qed

subsection \<open>Reachable bus states\<close>

text \<open>
  The calls that the owner of a bus and the VCPUs make, in any order. \<open>deinit\<close> is not among
  them: it ends the life of the bus.
\<close>

inductive bus_step :: "('d, 's) dev_ops \<Rightarrow> 'd bus \<times> 's \<Rightarrow> 'd bus \<times> 's \<Rightarrow> bool" for ops where
  bus_step_register: "bus_step ops (b, s) (snd (register_device alloc b d addr bytes), s)"
| bus_step_unregister: "bus_step ops (b, s) (unregister_device b addr bytes, s)"
| bus_step_access: "bus_access ops st clk b a addr n v s = (e, v', b', s') \<Longrightarrow> bus_step ops (b, s) (b', s')"
| bus_step_trace: "bus_step ops (b, s) (set_trace en fld b, s)"
| bus_step_reset: "bus_step ops (b, s) (b, bus_reset ops b s)"
| bus_step_shutdown: "bus_step ops (b, s) (b, bus_shutdown ops b s)"

inductive_cases bus_stepE: "bus_step ops (b, s) (b', s')"

inductive bus_reachable :: "('d, 's) dev_ops \<Rightarrow> 'd bus \<times> 's \<Rightarrow> bool" for ops where
  bus_start: "bus_reachable ops (bus_new sp a st, s)"
| bus_next: "bus_reachable ops w \<Longrightarrow> bus_step ops w w' \<Longrightarrow> bus_reachable ops w'"

lemma bus_step_inv: "bus_step ops w w' \<Longrightarrow> bus_inv (fst w) \<Longrightarrow> bus_inv (fst w')"
proof (induction rule: bus_step.induct)
  case (bus_step_access st clk b a addr n v s e v' b' s')
  then show ?case using bus_inv_access [of b ops st clk a addr n v s] by simp
qed (simp_all add: bus_inv_register bus_inv_unregister, simp_all add: bus_inv_def set_trace_def)

lemma bus_reachable_inv: "bus_reachable ops w \<Longrightarrow> bus_inv (fst w)"
  by (induction rule: bus_reachable.induct) (auto simp: bus_inv_new dest: bus_step_inv)

subsection \<open>Properties\<close>

text \<open>
  C1: in every state that register, unregister, access, trace, reset and shutdown calls can
  reach, every entry of the bus is a range that is not empty and does not reach the end of the
  addresses, each entry ends before the next one begins, no two entries share an address, none
  occurs twice, and the cached last-accessed entry is an entry of the bus.
\<close>

theorem bus_entries_disjoint:
  assumes "bus_reachable ops (b, s)"
  shows "(\<forall>n\<in>set (devices b). range_ok (fst n)) \<and>
    sorted_wrt (\<lambda>n n'. unat (r_begin (fst n)) + unat (r_size (fst n)) \<le> unat (r_begin (fst n'))) (devices b) \<and>
    (\<forall>n\<in>set (devices b). \<forall>n'\<in>set (devices b). n \<noteq> n' \<longrightarrow> addrs (fst n) \<inter> addrs (fst n') = {}) \<and>
    distinct (devices b) \<and> set_option (last_access b) \<subseteq> set (devices b)"
proof -
  have inv: "rm_invar (devices b)" "set_option (last_access b) \<subseteq> set (devices b)"
    using bus_reachable_inv [OF assms] by (simp_all add: bus_inv_def)
  have ok: "range_ok (fst n)" if "n \<in> set (devices b)" for n using rm.valid [OF inv(1) that] .
  have "sorted_wrt (\<lambda>a b. range_compare (fst a) (fst b)) (devices b)" using inv(1) by (simp add: rm_invar_def)
  then have so: "sorted_wrt (\<lambda>n n'. unat (r_begin (fst n)) + unat (r_size (fst n)) \<le> unat (r_begin (fst n'))) (devices b)"
    by (rule sorted_wrt_mono_rel [rotated]) (simp add: range_compare_iff ok)
  have "distinct (devices b)"
    unfolding distinct_conv_nth
  proof (intro allI impI)
    fix i j assume ij: "i < length (devices b)" "j < length (devices b)" "i \<noteq> j"
    have "0 < unat (r_size (fst (devices b ! k)))" if "k < length (devices b)" for k
      using ok [OF nth_mem [OF that]] by (simp add: range_ok_def)
    then show "devices b ! i \<noteq> devices b ! j"
      using so ij sorted_wrt_nth_less [OF so, of i j] sorted_wrt_nth_less [OF so, of j i] by (cases "i < j") fastforce+
  qed
  moreover have "addrs (fst n) \<inter> addrs (fst n') = {}" if "n \<in> set (devices b)" "n' \<in> set (devices b)" "n \<noteq> n'" for n n'
    using rm.disjoint [OF inv(1) that(1,2)] that range_intersect_addrs [OF ok ok, OF that(1,2)] by blast
  ultimately show ?thesis using ok so inv(2) by blast
qed

definition demo_ops :: "(nat, nat) dev_ops" where
  "demo_ops = \<lparr>dv_type = (\<lambda>d. if d = 2 then IRQ_CONTROLLER else DEVICE),
     dv_access = (\<lambda>d a sp off n v s. (OK, off, s + 1)), dv_reset = (\<lambda>d s. 10 * s + d),
     dv_shutdown = (\<lambda>d s. s), dv_deinit = (\<lambda>d s. s)\<rparr>"

definition demo_bus :: "nat bus" where
  "demo_bus = snd (register_device True (snd (register_device True
     (bus_new ALL_MEM False (\<lambda>_. \<lparr>accesses = 0, time_spent = 0\<rparr>)) 1 0x1000 0x100)) 2 0x2000 0x10)"

lemma demo_bus_devices:
  "devices demo_bus = [(\<lparr>r_begin = 0x1000, r_size = 0x100\<rparr>, 1), (\<lparr>r_begin = 0x2000, r_size = 0x10\<rparr>, 2)]"
  "last_access demo_bus = None" "absolute_access demo_bus = False" "trace demo_bus = False"
  "bus_space demo_bus = ALL_MEM"
  by (simp_all add: demo_bus_def register_device_def bus_new_def range_compare_def range_intersect_def
      range_less_def range_empty_def range_end_def)

lemma demo_bus_reachable: "bus_reachable demo_ops (demo_bus, 0)"
  unfolding demo_bus_def
  by (rule bus_next [OF bus_next [OF bus_start bus_step_register] bus_step_register])

lemma demo_bus_inv: "bus_inv demo_bus"
  using bus_reachable_inv [OF demo_bus_reachable] by simp

theorem bus_entries_disjoint_witness:
  "distinct (devices demo_bus) \<and> addrs \<lparr>r_begin = 0x1000, r_size = 0x100\<rparr> \<inter> addrs \<lparr>r_begin = 0x2000, r_size = 0x10\<rparr> = {}"
  using bus_entries_disjoint [OF demo_bus_reachable] by (simp add: demo_bus_devices)

text \<open>
  The last-accessed cache only saves a lookup. An access on a bus whose cache holds an entry
  gives the status, the value and the device state of the access on the same bus with an empty
  cache.
\<close>

theorem bus_access_cache_transparent:
  assumes "bus_inv b"
  shows "result_part (bus_access ops st clk b a addr bytes v s) =
         result_part (bus_access ops st clk (b\<lparr>last_access := None\<rparr>) a addr bytes v s)"
proof -
  have "bus_inv (b\<lparr>last_access := None\<rparr>)" using assms by (simp add: bus_inv_def)
  then show ?thesis using assms by (simp add: bus_access_result bus_lookup_def cong: option.case_cong)
qed

theorem bus_access_cache_transparent_witness:
  "result_part (bus_access demo_ops False (0, 0) demo_bus READ 0x1010 4 7 0) =
   result_part (bus_access demo_ops False (0, 0) (demo_bus\<lparr>last_access := None\<rparr>) READ 0x1010 4 7 0)"
  by (rule bus_access_cache_transparent [OF demo_bus_inv])

text \<open>
  What may follow a registration: any calls, except that no unregister call takes out this entry.
\<close>

inductive bus_keeps :: "('d, 's) dev_ops \<Rightarrow> 'd node \<Rightarrow> 'd bus \<times> 's \<Rightarrow> 'd bus \<times> 's \<Rightarrow> bool" for ops e where
  keeps_start: "bus_keeps ops e w w"
| keeps_register: "bus_keeps ops e w (b, s) \<Longrightarrow> bus_keeps ops e w (snd (register_device alloc b d addr bytes), s)"
| keeps_unregister: "bus_keeps ops e w (b, s) \<Longrightarrow> rm_lookup (devices b) \<lparr>r_begin = addr, r_size = bytes\<rparr> \<noteq> Some e \<Longrightarrow>
    bus_keeps ops e w (unregister_device b addr bytes, s)"
| keeps_access: "bus_keeps ops e w (b, s) \<Longrightarrow> bus_access ops st clk b a addr n v s = (err, v', b', s') \<Longrightarrow> bus_keeps ops e w (b', s')"
| keeps_trace: "bus_keeps ops e w (b, s) \<Longrightarrow> bus_keeps ops e w (set_trace en fld b, s)"
| keeps_reset: "bus_keeps ops e w (b, s) \<Longrightarrow> bus_keeps ops e w (b, bus_reset ops b s)"
| keeps_shutdown: "bus_keeps ops e w (b, s) \<Longrightarrow> bus_keeps ops e w (b, bus_shutdown ops b s)"

lemma bus_access_devices: "bus_access ops st clk b a addr n v s = (err, v', b', s') \<Longrightarrow> devices b' = devices b"
  by (auto simp: bus_access_def Let_def frame_simps split: if_splits option.splits prod.splits dest: access_with_dev_frame(1))

lemma bus_keeps_entry:
  "bus_keeps ops e w w' \<Longrightarrow> bus_inv (fst w) \<Longrightarrow> e \<in> set (devices (fst w)) \<Longrightarrow> bus_inv (fst w') \<and> e \<in> set (devices (fst w'))"
proof (induction rule: bus_keeps.induct)
  case (keeps_register w b s alloc d addr bytes)
  then show ?case
    using bus_inv_register [of b alloc d addr bytes] rm_insert_set [of "devices b" "(\<lparr>r_begin = addr, r_size = bytes\<rparr>, d)"]
    by (auto simp: register_device_def split: prod.splits if_splits)
next
  case (keeps_unregister w b s addr bytes)
  then show ?case
    using bus_inv_unregister [of b addr bytes] rm_remove_set [of "devices b" "\<lparr>r_begin = addr, r_size = bytes\<rparr>"]
    by (auto simp: unregister_device_def bus_inv_def split: prod.splits)
next
  case (keeps_access w b s st clk a addr n v err v' b' s')
  then show ?case using bus_inv_access [of b ops st clk a addr n v s] bus_access_devices by fastforce
qed (simp_all add: bus_inv_def set_trace_def)

text \<open>
  C2: a device that \<open>register_device\<close> accepted receives every access inside its range, as the next call
  and after any further calls that do not take its entry out, whatever the cache of the last access
  holds then. The device is given the offset from the start of its range, or the address itself on
  a bus of absolute addresses, and the value of the access, or 0 for a read while the bus traces. The
  access ends inside the range.
\<close>

theorem bus_registered_access:
  assumes "bus_reachable ops (b, s0)" and "register_device alloc b d base len = (True, b1)"
    and "bus_keeps ops (\<lparr>r_begin = base, r_size = len\<rparr>, d) (b1, s0) (b2, s)"
    and "range_ok \<lparr>r_begin = addr, r_size = ucast n\<rparr>"
    and "addrs \<lparr>r_begin = addr, r_size = ucast n\<rparr> \<subseteq> addrs \<lparr>r_begin = base, r_size = len\<rparr>"
  shows "result_part (bus_access ops st clk b2 a addr n v s) =
           dv_access ops d a (bus_space b2) (if absolute_access b2 then addr else addr - base) n
             (if trace b2 \<and> a = READ then 0 else v) s \<and>
         unat (addr - base) + unat n \<le> unat len"
proof -
  let ?r = "\<lparr>r_begin = base, r_size = len\<rparr>" and ?t = "\<lparr>r_begin = addr, r_size = ucast n\<rparr>"
  have inv: "bus_inv b" using bus_reachable_inv [OF assms(1)] by simp
  have rok: "range_ok ?r" using assms(2) by (auto simp: register_device_def range_ok_guard split: if_splits)
  have "(?r, d) \<in> set (devices b1)"
    using assms(2) rm_insert_set [of "devices b" "(?r, d)"] by (auto simp: register_device_def split: if_splits prod.splits)
  moreover have "bus_inv b1" using bus_inv_register [OF inv, of alloc d base len] assms(2) by simp
  ultimately have k: "bus_inv b2" "(?r, d) \<in> set (devices b2)" using bus_keeps_entry [OF assms(3)] by simp_all
  have "rm_lookup (devices b2) ?t = Some (?r, d)"
    using rm.find_contained [OF _ k(2) assms(4)] k(1) rok assms(4,5) by (simp add: bus_inv_def range_contains_addrs)
  then have "bus_lookup b2 addr (ucast n) = Some (?r, d)" using assms(4) by (simp add: bus_lookup_def range_ok_guard)
  moreover have "unat base \<le> unat addr" "unat addr + unat n \<le> unat base + unat len"
    using assms(4,5) by (auto simp: addrs_def range_ok_def)
  then have "unat (addr - base) + unat n \<le> unat len" by (simp add: unat_minus_le word_le_nat_alt)
  ultimately show ?thesis by (simp add: bus_access_result [OF k(1)])
qed

text \<open>The second access at the same place is a hit of the cache.\<close>

theorem bus_registered_access_witness:
  "\<exists>b. register_device True demo_bus 3 0x3000 0x20 = (True, b) \<and>
     (case bus_access demo_ops False (0, 0) b WRITE 0x3008 4 7 0 of (e, v, b', s') \<Rightarrow>
        last_access b' = Some (\<lparr>r_begin = 0x3000, r_size = 0x20\<rparr>, 3) \<and>
        result_part (bus_access demo_ops False (0, 0) b' WRITE 0x300c 4 7 s') = (OK, 0xc, 2))"
proof -
  let ?b = "snd (register_device True demo_bus 3 0x3000 0x20)"
  let ?e = "(\<lparr>r_begin = 0x3000, r_size = 0x20\<rparr>, 3 :: nat)"
  have r: "register_device True demo_bus 3 0x3000 0x20 = (True, ?b)"
    by (simp add: register_device_def demo_bus_devices range_compare_def range_intersect_def
        range_less_def range_empty_def range_end_def)
  obtain e v b' s' where a: "bus_access demo_ops False (0, 0) ?b WRITE 0x3008 4 7 0 = (e, v, b', s')"
    by (cases "bus_access demo_ops False (0, 0) ?b WRITE 0x3008 4 7 0") auto
  have f: "last_access b' = Some ?e \<and> s' = 1 \<and> absolute_access b' = False"
    using a by (simp add: bus_access_def Let_def register_device_def demo_bus_devices bus_lookup_def range_compare_def range_intersect_def
        range_less_def range_empty_def range_end_def access_with_dev_def demo_ops_def range_contains_def split: prod.splits if_splits) (auto simp: demo_bus_devices)
  have "bus_keeps demo_ops ?e (?b, 0) (b', s')" by (rule keeps_access [OF keeps_start a])
  from bus_registered_access [OF demo_bus_reachable r this, of "0x300c" 4 False "(0, 0)" WRITE 7] f
  have "result_part (bus_access demo_ops False (0, 0) b' WRITE 0x300c 4 7 s') = (OK, 0xc, 2)"
    by (simp add: range_ok_def addrs_def demo_ops_def)
  then show ?thesis using r a f by auto
qed

text \<open>
  An access needs only to overlap an entry to reach its device. One that starts below the
  entry is handed to the device with an offset that has wrapped around, outside the registered
  range.
\<close>

theorem bus_access_below_entry:
  assumes "bus_inv b" and "bus_lookup b addr (ucast n) = Some e" and "addr < r_begin (fst e)"
    and "\<not> absolute_access b" and "\<not> trace b"
  shows "result_part (bus_access ops st clk b a addr n v s) =
           dv_access ops (snd e) a (bus_space b) (addr - r_begin (fst e)) n v s \<and>
         unat (addr - r_begin (fst e)) = 2 ^ 64 - (unat (r_begin (fst e)) - unat addr) \<and>
         unat (r_size (fst e)) \<le> unat (addr - r_begin (fst e))"
proof -
  have inv: "rm_invar (devices b)" using assms(1) by (simp add: bus_inv_def)
  have "rm_lookup (devices b) \<lparr>r_begin = addr, r_size = ucast n\<rparr> = Some e"
    using assms(2) by (simp add: bus_lookup_def split: if_splits)
  then have "range_ok (fst e)" using rm_lookup_in rm.valid [OF inv] by blast
  then have sz: "unat (r_begin (fst e)) + unat (r_size (fst e)) < 2 ^ 64" by (simp add: range_ok_def)
  have lt: "unat addr < unat (r_begin (fst e))" using assms(3) by (simp add: word_less_nat_alt)
  have "unat (addr - r_begin (fst e)) = 2 ^ 64 - (unat (r_begin (fst e)) - unat addr)"
    using lt by (simp add: unat_sub_if' )
  then show ?thesis using assms sz by (simp add: bus_access_result)
qed

theorem bus_access_below_entry_witness:
  "result_part (bus_access demo_ops False (0, 0) demo_bus READ 0xffe 4 7 0) = (OK, 0xfffffffffffffffe, 1)"
proof -
  have "bus_lookup demo_bus 0xffe (ucast (4 :: u8)) = Some (\<lparr>r_begin = 0x1000, r_size = 0x100\<rparr>, 1)"
    by (simp add: bus_lookup_def demo_bus_devices range_compare_def range_intersect_def
        range_less_def range_empty_def range_end_def)
  from bus_access_below_entry [OF demo_bus_inv this, of demo_ops False "(0, 0)" READ 7 0]
  show ?thesis by (simp add: demo_bus_devices demo_ops_def)
qed

text \<open>
  C3: once the device that a lookup of the removed range finds is unregistered, no access inside
  that device's range reaches a device: the bus answers \<open>NO_DEVICE\<close> and leaves value and device
  state alone.
\<close>

theorem bus_unregistered_no_access:
  assumes "bus_inv b" and "bus_lookup b base len = Some e"
    and "range_ok \<lparr>r_begin = addr, r_size = ucast n\<rparr>"
    and "addrs \<lparr>r_begin = addr, r_size = ucast n\<rparr> \<subseteq> addrs (fst e)"
  shows "result_part (bus_access ops st clk (unregister_device b base len) a addr n v s) = (NO_DEVICE, v, s)"
proof -
  let ?r = "\<lparr>r_begin = base, r_size = len\<rparr>" and ?t = "\<lparr>r_begin = addr, r_size = ucast n\<rparr>"
  have inv: "rm_invar (devices b)" using assms(1) by (simp add: bus_inv_def)
  have rok: "range_ok ?r" and f: "rm_lookup (devices b) ?r = Some e"
    using assms(2) by (simp_all add: bus_lookup_def range_ok_guard split: if_splits)
  have "range_ok (fst e)" using rm_lookup_in [OF f] rm.valid [OF inv] by blast
  then have "rm_lookup (fst (rm_remove (devices b) ?r)) ?t = None"
    using rm.find_removed [OF inv rok f assms(3)] assms(3,4) by (simp add: range_contains_addrs)
  then have "bus_lookup (unregister_device b base len) addr (ucast n) = None"
    by (simp add: bus_lookup_def unregister_device_def split_beta)
  then show ?thesis by (simp add: bus_access_result [OF bus_inv_unregister [OF assms(1)]])
qed

theorem bus_unregistered_no_access_witness:
  "result_part (bus_access demo_ops False (0, 0) (unregister_device demo_bus 0x1000 0x100) READ 0x1004 4 7 0)
     = (NO_DEVICE, 7, 0)"
proof -
  have "bus_lookup demo_bus 0x1000 0x100 = Some (\<lparr>r_begin = 0x1000, r_size = 0x100\<rparr>, 1)"
    by (simp add: bus_lookup_def demo_bus_devices range_compare_def range_intersect_def
        range_less_def range_empty_def range_end_def)
  from bus_unregistered_no_access [OF demo_bus_inv this, of "0x1004" 4]
  show ?thesis by (simp add: range_ok_def addrs_def)
qed

text \<open>
  A reset of the bus resets every registered device exactly once, and the interrupt
  controllers only after all the other devices.
\<close>

theorem bus_reset_irq_controllers_last:
  "bus_reset ops b s =
     fold (dv_reset ops) (filter (\<lambda>d. dv_type ops d = IRQ_CONTROLLER) (map snd (devices b)))
       (fold (dv_reset ops) (filter (\<lambda>d. dv_type ops d \<noteq> IRQ_CONTROLLER) (map snd (devices b))) s)"
  by (simp add: bus_reset_order)

text \<open>
  After \<open>deinit\<close>, which empties the map but keeps the cached entry, an access inside that entry still
  reaches the deinitialised device, although the bus has no device any more.
\<close>

theorem bus_deinit_keeps_cached_entry:
  assumes "bus_deinit ops b s = (err, b', s')" and "last_access b = Some e" and "\<not> trace b"
    and "range_contains (fst e) \<lparr>r_begin = addr, r_size = ucast n\<rparr>" and "\<not> addr + ucast n \<le> addr"
  shows "devices b' = [] \<and> get_device_at b' addr (ucast n) = None \<and>
         result_part (bus_access ops st clk b' a addr n v s') =
           dv_access ops (snd e) a (bus_space b)
             (if absolute_access b then addr else addr - r_begin (fst e)) n v s'"
proof -
  have b': "b' = b\<lparr>devices := []\<rparr>" using assms(1) by (simp add: bus_deinit_def rm_clear_def)
  have "result_part (bus_access ops st clk b' a addr n v s') =
      result_part (access_with_dev ops st clk b' (snd e) a
        (if absolute_access b then addr else addr - r_begin (fst e)) n v s')"
    using assms(2-5) b'
    by (simp add: bus_access_def Let_def result_part_def split_beta)
  then show ?thesis using b' assms(2) by (simp add: access_with_dev_result get_device_at_def bus_lookup_def)
qed

theorem bus_deinit_keeps_cached_entry_witness:
  "devices (fst (snd (bus_deinit demo_ops
      (demo_bus\<lparr>last_access := Some (\<lparr>r_begin = 0x1000, r_size = 0x100\<rparr>, 1)\<rparr>) 0))) = [] \<and>
   result_part (bus_access demo_ops False (0, 0) (fst (snd (bus_deinit demo_ops
      (demo_bus\<lparr>last_access := Some (\<lparr>r_begin = 0x1000, r_size = 0x100\<rparr>, 1)\<rparr>) 0))) READ 0x1004 4 7 0)
     = (OK, 4, 1)"
proof -
  let ?b = "demo_bus\<lparr>last_access := Some (\<lparr>r_begin = 0x1000, r_size = 0x100\<rparr>, 1)\<rparr>"
  have d: "bus_deinit demo_ops ?b 0 = (NONE, fst (snd (bus_deinit demo_ops ?b 0)), 0)"
    by (simp add: bus_deinit_def rm_clear_def demo_bus_devices demo_ops_def)
  have c: "range_contains \<lparr>r_begin = 0x1000, r_size = 0x100\<rparr> \<lparr>r_begin = 0x1004, r_size = ucast (4 :: u8)\<rparr>"
    by (simp add: range_contains_addrs range_ok_def addrs_def)
  show ?thesis
    using bus_deinit_keeps_cached_entry [OF d, of "(\<lparr>r_begin = 0x1000, r_size = 0x100\<rparr>, 1)"
        "0x1004" 4 False "(0, 0)" READ 7] c
    by (simp add: demo_bus_devices demo_ops_def)
qed

end
