(* ===== verification/SeqQueue.thy ===== *)
theory SeqQueue
  imports Prelude
begin

text \<open>
  \<open>vuart/seq_queue.hpp\<close>: a ring buffer of a fixed array, whose capacity in use can be set to any
  size up to the array's. The read index is the capacity when the queue is empty. \<open>None\<close> is an
  access outside the array or a remainder by a zero capacity. The locale \<open>bounded_fifo\<close> is what
  a device relies on; the ring buffer provides it.
\<close>

record 'a seq_queue =
  widx :: nat
  sq_data :: "'a list"
  current_capacity :: nat
  ridx :: nat

definition FIFO_MAX_SIZE :: nat where
  "FIFO_MAX_SIZE = 32"

definition sq_new :: "'a \<Rightarrow> 'a seq_queue" where
  "sq_new z = \<lparr>widx = 0, sq_data = replicate FIFO_MAX_SIZE z, current_capacity = 1, ridx = 1\<rparr>"

definition sq_is_empty :: "'a seq_queue \<Rightarrow> bool" where
  "sq_is_empty q \<longleftrightarrow> ridx q = current_capacity q"

definition sq_is_full :: "'a seq_queue \<Rightarrow> bool" where
  "sq_is_full q \<longleftrightarrow> widx q = ridx q"

definition cur_size :: "'a seq_queue \<Rightarrow> nat" where
  "cur_size q =
     (if sq_is_empty q then 0
      else if sq_is_full q then current_capacity q
      else ((widx q + current_capacity q) - ridx q) mod current_capacity q)"

definition enqueue :: "'a seq_queue \<Rightarrow> 'a \<Rightarrow> (bool \<times> 'a seq_queue) option" where
  "enqueue q c =
     (if sq_is_full q then Some (False, q)
      else if length (sq_data q) \<le> widx q \<or> current_capacity q = 0 then None
      else Some (True, q\<lparr>sq_data := (sq_data q)[widx q := c],
                         widx := (widx q + 1) mod current_capacity q,
                         ridx := (if ridx q = current_capacity q then 0 else ridx q)\<rparr>))"

definition dequeue :: "'a seq_queue \<Rightarrow> ('a \<times> 'a seq_queue) option" where
  "dequeue q =
     (if length (sq_data q) \<le> ridx q \<or> current_capacity q = 0 then None
      else let value = sq_data q ! ridx q; r = (ridx q + 1) mod current_capacity q
           in if r = widx q then Some (value, q\<lparr>widx := 0, ridx := current_capacity q\<rparr>)
              else Some (value, q\<lparr>ridx := r\<rparr>))"

definition sq_reset :: "nat \<Rightarrow> 'a seq_queue \<Rightarrow> 'a seq_queue" where
  "sq_reset new_cap q = q\<lparr>current_capacity := new_cap, widx := 0, ridx := new_cap\<rparr>"

definition reset_maximize_capacity :: "'a seq_queue \<Rightarrow> 'a seq_queue" where
  "reset_maximize_capacity q = sq_reset FIFO_MAX_SIZE q"

subsection \<open>The interface of a bounded queue\<close>

text \<open>The loops of the clients: take out \<open>n\<close> elements, put in a list of elements.\<close>

fun deq_n :: "('q \<Rightarrow> ('a \<times> 'q) option) \<Rightarrow> nat \<Rightarrow> 'q \<Rightarrow> ('a list \<times> 'q) option" where
  "deq_n deq 0 q = Some ([], q)"
| "deq_n deq (Suc n) q =
     (case deq q of None \<Rightarrow> None
      | Some (x, q') \<Rightarrow> (case deq_n deq n q' of None \<Rightarrow> None | Some (xs, q'') \<Rightarrow> Some (x # xs, q'')))"

fun enq_list :: "('q \<Rightarrow> 'a \<Rightarrow> (bool \<times> 'q) option) \<Rightarrow> 'a list \<Rightarrow> 'q \<Rightarrow> 'q option" where
  "enq_list enq [] q = Some q"
| "enq_list enq (x # xs) q =
     (case enq q x of Some (True, q') \<Rightarrow> enq_list enq xs q' | _ \<Rightarrow> None)"

locale bounded_fifo =
  fixes inv :: "'q \<Rightarrow> bool"
    and cap :: "'q \<Rightarrow> nat"
    and items :: "'q \<Rightarrow> 'a list"
    and enq :: "'q \<Rightarrow> 'a \<Rightarrow> (bool \<times> 'q) option"
    and deq :: "'q \<Rightarrow> ('a \<times> 'q) option"
  assumes bound: "inv q \<Longrightarrow> length (items q) \<le> cap q"
    and enq_room: "inv q \<Longrightarrow> length (items q) < cap q \<Longrightarrow>
           \<exists>q'. enq q x = Some (True, q') \<and> inv q' \<and> items q' = items q @ [x] \<and> cap q' = cap q"
    and enq_full: "inv q \<Longrightarrow> length (items q) = cap q \<Longrightarrow> enq q x = Some (False, q)"
    and deq_some: "inv q \<Longrightarrow> items q = x # xs \<Longrightarrow>
           \<exists>q'. deq q = Some (x, q') \<and> inv q' \<and> items q' = xs \<and> cap q' = cap q"
begin

lemma deq_n_take:
  "inv q \<Longrightarrow> n \<le> length (items q) \<Longrightarrow>
     \<exists>q'. deq_n deq n q = Some (take n (items q), q') \<and> inv q' \<and>
          items q' = drop n (items q) \<and> cap q' = cap q"
proof (induction n arbitrary: q)
  case 0
  then show ?case by simp
next
  case (Suc n)
  then obtain x xs where q: "items q = x # xs" by (cases "items q") auto
  then obtain q1 where 1: "deq q = Some (x, q1)" "inv q1" "items q1 = xs" "cap q1 = cap q"
    using deq_some Suc.prems(1) by blast
  then obtain q2 where "deq_n deq n q1 = Some (take n xs, q2)" "inv q2" "items q2 = drop n xs" "cap q2 = cap q1"
    using Suc.IH [of q1] Suc.prems(2) q by auto
  then show ?case using 1 q by auto
qed

lemma enq_list_append:
  "inv q \<Longrightarrow> length (items q) + length xs \<le> cap q \<Longrightarrow>
     \<exists>q'. enq_list enq xs q = Some q' \<and> inv q' \<and> items q' = items q @ xs \<and> cap q' = cap q"
proof (induction xs arbitrary: q)
  case Nil
  then show ?case by simp
next
  case (Cons x xs)
  then obtain q1 where 1: "enq q x = Some (True, q1)" "inv q1" "items q1 = items q @ [x]" "cap q1 = cap q"
    using enq_room [of q x] by auto
  then obtain q2 where "enq_list enq xs q1 = Some q2" "inv q2" "items q2 = items q1 @ xs" "cap q2 = cap q1"
    using Cons.IH [of q1] Cons.prems by auto
  then show ?case using 1 by auto
qed

lemma first_in_first_out:
  assumes "inv q" and "items q = []" and "length xs \<le> cap q"
  shows "\<exists>q1 q2. enq_list enq xs q = Some q1 \<and> deq_n deq (length xs) q1 = Some (xs, q2) \<and> items q2 = []"
proof -
  obtain q1 where "enq_list enq xs q = Some q1" "inv q1" "items q1 = xs"
    using enq_list_append [of q xs] assms by auto
  then show ?thesis using deq_n_take [of q1 "length xs"] by auto
qed

end

subsection \<open>The ring buffer provides it\<close>

definition sq_inv :: "'a seq_queue \<Rightarrow> bool" where
  "sq_inv q \<longleftrightarrow> 0 < current_capacity q \<and> current_capacity q \<le> length (sq_data q) \<and>
     widx q < current_capacity q \<and> ridx q \<le> current_capacity q \<and>
     (ridx q = current_capacity q \<longrightarrow> widx q = 0)"

definition sq_items :: "'a seq_queue \<Rightarrow> 'a list" where
  "sq_items q = map (\<lambda>i. sq_data q ! ((ridx q + i) mod current_capacity q)) [0..<cur_size q]"

lemma length_sq_items [simp]: "length (sq_items q) = cur_size q"
  by (simp add: sq_items_def)

lemma mod_wrap: "a < 2 * c \<Longrightarrow> a mod c = (if a < c then a else a - (c :: nat))"
  by (simp add: le_mod_geq)

lemma cur_size_cases:
  assumes "sq_inv q"
  shows "cur_size q =
    (if ridx q = current_capacity q then 0
     else if ridx q < widx q then widx q - ridx q
     else widx q + current_capacity q - ridx q)"
  using assms
  by (auto simp: cur_size_def sq_is_empty_def sq_is_full_def sq_inv_def mod_wrap)

lemma cur_size_le: "sq_inv q \<Longrightarrow> cur_size q \<le> current_capacity q"
  by (auto simp: cur_size_cases sq_inv_def)

lemma sq_full_iff: "sq_inv q \<Longrightarrow> sq_is_full q \<longleftrightarrow> cur_size q = current_capacity q"
  by (auto simp: cur_size_cases sq_is_full_def sq_inv_def)

lemma sq_empty_iff: "sq_inv q \<Longrightarrow> sq_is_empty q \<longleftrightarrow> cur_size q = 0"
  by (auto simp: cur_size_cases sq_is_empty_def sq_inv_def)

lemma sq_items_Nil: "sq_inv q \<Longrightarrow> sq_items q = [] \<longleftrightarrow> sq_is_empty q"
  by (simp add: sq_empty_iff flip: length_0_conv)

lemma mod_wrap_eq:
  "\<lbrakk>r < c; i < c\<rbrakk> \<Longrightarrow> (r + i) mod c = (if r + i < c then r + i else r + i - (c :: nat))"
  by (rule mod_wrap) simp

lemma enqueue_room:
  assumes inv: "sq_inv q" and room: "cur_size q < current_capacity q"
  shows "\<exists>q'. enqueue q x = Some (True, q') \<and> sq_inv q' \<and> sq_items q' = sq_items q @ [x] \<and>
           current_capacity q' = current_capacity q"
proof -
  let ?c = "current_capacity q" and ?w = "widx q" and ?n = "cur_size q"
  obtain r where r_def: "r = (if ridx q = ?c then 0 else ridx q)" by blast
  let ?r = r
  let ?q = "q\<lparr>sq_data := (sq_data q)[?w := x], widx := (?w + 1) mod ?c, ridx := ?r\<rparr>"
  have c: "0 < ?c" "?c \<le> length (sq_data q)" "?w < ?c" "ridx q \<le> ?c" "ridx q = ?c \<longrightarrow> ?w = 0"
    using inv by (simp_all add: sq_inv_def)
  have w1: "(?w + 1) mod ?c = (if ?w + 1 = ?c then 0 else ?w + 1)" using c by auto
  have inv': "sq_inv ?q" using c by (auto simp: sq_inv_def r_def)
  have nf: "?w \<noteq> ridx q" using room sq_full_iff [OF inv] by (auto simp: sq_is_full_def)
  have r: "?r < ?c" using c by (auto simp: r_def)
  have n: "?n = (if ridx q = ?c then 0 else if ?r < ?w then ?w - ?r else ?w + ?c - ?r)"
    using cur_size_cases [OF inv] by (auto simp: r_def)
  have wn: "(?r + ?n) mod ?c = ?w"
    using c nf room by (auto simp: n r_def)
  have sel: "widx ?q = (if ?w + 1 = ?c then 0 else ?w + 1)" "ridx ?q = ?r" "current_capacity ?q = ?c"
    using w1 by simp_all
  have size': "cur_size ?q = Suc ?n"
    unfolding cur_size_cases [OF inv'] sel n using c nf by (auto simp: r_def)
  have ne: "(?r + i) mod ?c \<noteq> ?w" if "i < ?n" for i
  proof -
    have "i < ?c" using that room by simp
    then show ?thesis using that r c nf room wn
      by (auto simp: mod_wrap_eq n r_def split: if_splits)
  qed
  have old: "sq_data q ! ((ridx q + i) mod ?c) = sq_data q ! ((?r + i) mod ?c)" for i
    by (auto simp: r_def)
  have len: "?w < length (sq_data q)" using c by simp
  have "sq_items ?q = map (\<lambda>i. (sq_data q)[?w := x] ! ((?r + i) mod ?c)) [0..<Suc ?n]"
    by (unfold sq_items_def size' sel, simp)
  also have "\<dots> = map (\<lambda>i. sq_data q ! ((?r + i) mod ?c)) [0..<?n] @ [x]"
  proof -
    have "map (\<lambda>i. (sq_data q)[?w := x] ! ((?r + i) mod ?c)) [0..<?n] =
        map (\<lambda>i. sq_data q ! ((?r + i) mod ?c)) [0..<?n]"
      using ne by (intro map_cong refl nth_list_update_neq) (metis atLeastLessThan_iff set_upt)
    then show ?thesis using wn len by simp
  qed
  also have "\<dots> = sq_items q @ [x]" by (simp add: sq_items_def old)
  finally have "sq_items ?q = sq_items q @ [x]" .
  moreover have "enqueue q x = Some (True, ?q)"
    using nf c by (simp add: enqueue_def sq_is_full_def r_def)
  ultimately show ?thesis using inv' by simp
qed

lemma dequeue_items:
  assumes inv: "sq_inv q" and ne: "sq_items q = x # xs"
  shows "\<exists>q'. dequeue q = Some (x, q') \<and> sq_inv q' \<and> sq_items q' = xs \<and>
           current_capacity q' = current_capacity q"
proof -
  let ?c = "current_capacity q" and ?n = "cur_size q"
  have c: "0 < ?c" "?c \<le> length (sq_data q)" "widx q < ?c" "ridx q \<le> ?c" "ridx q = ?c \<longrightarrow> widx q = 0"
    using inv by (simp_all add: sq_inv_def)
  have pos: "0 < ?n" using ne length_sq_items [of q] by simp
  have r: "ridx q < ?c" using pos c sq_empty_iff [OF inv] by (auto simp: sq_is_empty_def)
  let ?r = "(ridx q + 1) mod ?c"
  have r1: "?r = (if ridx q + 1 = ?c then 0 else ridx q + 1)" using r by auto
  let ?q = "if ?r = widx q then q\<lparr>widx := 0, ridx := ?c\<rparr> else q\<lparr>ridx := ?r\<rparr>"
  have "?r \<noteq> ?c" using c(1) by (metis mod_less_divisor less_irrefl)
  then have inv': "sq_inv ?q" using c r by (auto simp: sq_inv_def)
  have n: "?n = (if ridx q < widx q then widx q - ridx q else widx q + ?c - ridx q)"
    using cur_size_cases [OF inv] r by auto
  have size': "cur_size ?q = ?n - 1"
  proof (cases "?r = widx q")
    case True
    then have "cur_size ?q = 0" by (simp add: cur_size_def sq_is_empty_def)
    then show ?thesis using True r1 c r by (auto simp: n)
  next
    case False
    then have sel: "widx ?q = widx q" "ridx ?q = (if ridx q + 1 = ?c then 0 else ridx q + 1)"
      "current_capacity ?q = ?c" using r1 by simp_all
    show ?thesis unfolding cur_size_cases [OF inv'] sel n using c r False r1 by auto
  qed
  have split: "[0..<?n] = 0 # map Suc [0..<?n - 1]"
    using pos by (simp add: upt_conv_Cons map_Suc_upt)
  have "x # xs = sq_data q ! ridx q # map (\<lambda>i. sq_data q ! ((?r + i) mod ?c)) [0..<?n - 1]"
    using ne r by (simp add: sq_items_def split mod_add_left_eq comp_def)
  then have hd: "x = sq_data q ! ridx q" and tl: "xs = map (\<lambda>i. sq_data q ! ((?r + i) mod ?c)) [0..<?n - 1]"
    by simp_all
  have "sq_items ?q = xs"
  proof (cases "?r = widx q")
    case True
    then have "cur_size ?q = 0" by (simp add: cur_size_def sq_is_empty_def)
    then show ?thesis using size' tl by (simp add: sq_items_def)
  next
    case False
    then show ?thesis using size' tl by (simp add: sq_items_def)
  qed
  moreover have "dequeue q = Some (x, ?q)"
    using r c hd by (simp add: dequeue_def Let_def)
  ultimately show ?thesis using inv' by (intro exI [of _ ?q]) auto
qed

interpretation sq: bounded_fifo sq_inv current_capacity sq_items enqueue dequeue
proof (unfold_locales, goal_cases)
  case (1 q)
  then show ?case by (simp add: cur_size_le)
next
  case (2 q x)
  then show ?case by (simp add: enqueue_room)
next
  case (3 q x)
  then show ?case by (simp add: enqueue_def sq_full_iff)
next
  case (4 q x xs)
  then show ?case by (rule dequeue_items)
qed

lemma sq_inv_new: "sq_inv (sq_new z)" "sq_items (sq_new z) = []"
  by (simp_all add: sq_inv_def sq_new_def FIFO_MAX_SIZE_def sq_items_def cur_size_def sq_is_empty_def)

lemma sq_inv_reset:
  "0 < n \<Longrightarrow> n \<le> length (sq_data q) \<Longrightarrow> sq_inv (sq_reset n q) \<and> sq_items (sq_reset n q) = []"
  by (simp add: sq_inv_def sq_reset_def sq_items_def cur_size_def sq_is_empty_def)

lemma sq_data_length:
  "enqueue q x = Some (b, q') \<Longrightarrow> length (sq_data q') = length (sq_data q)"
  "dequeue q = Some (y, q') \<Longrightarrow> length (sq_data q') = length (sq_data q)"
  "length (sq_data (sq_reset n q)) = length (sq_data q)"
  by (auto simp: enqueue_def dequeue_def sq_reset_def Let_def split: if_splits)

end
