(* ===== verification/Pl011.thy ===== *)
theory Pl011
  imports SeqQueue Vbus
begin

text \<open>
  \<open>devices/vpl011\<close>: the PL011 UART. The calls the device makes to the outside (the interrupt
  controller, the transmit callback, the signal of the receive side, the life-cycle callbacks)
  are recorded in order in \<open>events\<close>. The level of the interrupt line is the last call to the
  controller. The state lock makes each operation one step, so the steps are functions; an
  access from the guest and a character from outside interleave in \<open>pl_step\<close>. \<open>None\<close> is a failed
  \<open>ASSERT\<close>, a call through a null callback or an access outside a FIFO.
\<close>

subsection \<open>Registers and state\<close>

datatype pl_reg = UARTDR | UARTRSR | UARTFR | UARTILPR | UARTIBRD | UARTFBRD | UARTLCR_H | UARTCR
  | UARTIFLS | UARTIMSC | UARTRIS | UARTMIS | UARTICR | UARTDMACR
  | UARTPERIPHID0 | UARTPERIPHID1 | UARTPERIPHID2 | UARTPERIPHID3
  | UARTPCELLID0 | UARTPCELLID1 | UARTPCELLID2 | UARTPCELLID3

definition pl_decode :: "u64 \<Rightarrow> pl_reg option" where
  "pl_decode offset = map_of
     [(0x00, UARTDR), (0x04, UARTRSR), (0x18, UARTFR), (0x20, UARTILPR), (0x24, UARTIBRD),
      (0x28, UARTFBRD), (0x2c, UARTLCR_H), (0x30, UARTCR), (0x34, UARTIFLS), (0x38, UARTIMSC),
      (0x3c, UARTRIS), (0x40, UARTMIS), (0x44, UARTICR), (0x48, UARTDMACR),
      (0xfe0, UARTPERIPHID0), (0xfe4, UARTPERIPHID1), (0xfe8, UARTPERIPHID2), (0xfec, UARTPERIPHID3),
      (0xff0, UARTPCELLID0), (0xff4, UARTPCELLID1), (0xff8, UARTPCELLID2), (0xffc, UARTPCELLID3)] offset"

abbreviation FR_RXFE :: u64 where "FR_RXFE \<equiv> 0x10"
abbreviation FR_RXFF :: u64 where "FR_RXFF \<equiv> 0x40"
abbreviation FR_TXFE :: u64 where "FR_TXFE \<equiv> 0x80"
abbreviation FEN :: u16 where "FEN \<equiv> 0x10"
abbreviation WLEN_8 :: u16 where "WLEN_8 \<equiv> 0x60"
abbreviation UARTEN :: u16 where "UARTEN \<equiv> 0x1"
abbreviation TXE :: u16 where "TXE \<equiv> 0x100"
abbreviation RXE :: u16 where "RXE \<equiv> 0x200"
abbreviation RXIM :: u16 where "RXIM \<equiv> 0x10"
abbreviation TXIM :: u16 where "TXIM \<equiv> 0x20"
abbreviation RXRIS :: u16 where "RXRIS \<equiv> 0x10"
abbreviation TXRIS :: u16 where "TXRIS \<equiv> 0x20"

definition IFLS_RESET :: u16 where
  "IFLS_RESET = push_bit 3 2 OR 2"

datatype pl_event = Assert_line | Deassert_line | Sent u8 | Space_signal | Device_reset | Device_shutdown

record pl011 =
  sbsa_uart :: bool
  ilpr :: u8
  ibrd :: u16
  fbrd :: u16
  lcrh :: u16
  imsc :: u16
  cr :: u16
  ifls :: u16
  ris :: u16
  dmacr :: u16
  rx_irq_disabled_by_icr :: bool
  tx_irq_disabled_by_icr :: bool
  rx_fifo :: "u16 seq_queue"
  tx_fifo :: "u16 seq_queue"
  callback :: bool
  lifecycle_callbacks :: bool
  events :: "pl_event list"

definition emit :: "pl_event \<Rightarrow> pl011 \<Rightarrow> pl011" where
  "emit e s = s\<lparr>events := events s @ [e]\<rparr>"

definition pl011_new :: "bool \<Rightarrow> pl011" where
  "pl011_new sbsa =
     \<lparr>sbsa_uart = sbsa, ilpr = 0, ibrd = 0, fbrd = 0, lcrh = 0, imsc = 0, cr = RXE OR TXE,
      ifls = IFLS_RESET, ris = 0, dmacr = 0, rx_irq_disabled_by_icr = False,
      tx_irq_disabled_by_icr = False, rx_fifo = sq_new 0, tx_fifo = sq_new 0,
      callback = False, lifecycle_callbacks = False, events = []\<rparr>"

definition register_callback :: "bool \<Rightarrow> bool \<Rightarrow> pl011 \<Rightarrow> pl011" where
  "register_callback cb lc s = s\<lparr>callback := cb, lifecycle_callbacks := lc\<rparr>"

subsection \<open>Predicates on the state\<close>

definition get_tx_irq_level :: "pl011 \<Rightarrow> u64" where
  "get_tx_irq_level s = bits_in_range (ucast (ifls s)) 0 2"

definition get_rx_irq_level :: "pl011 \<Rightarrow> u64" where
  "get_rx_irq_level s = bits_in_range (ucast (ifls s)) 3 5"

definition is_fifo_enabled :: "pl011 \<Rightarrow> bool" where
  "is_fifo_enabled s \<longleftrightarrow> FEN AND lcrh s \<noteq> 0"

definition uart_enabled :: "pl011 \<Rightarrow> bool" where
  "uart_enabled s \<longleftrightarrow> cr s AND UARTEN \<noteq> 0"

definition can_tx :: "pl011 \<Rightarrow> bool" where
  "can_tx s \<longleftrightarrow> uart_enabled s \<and> cr s AND TXE \<noteq> 0"

definition can_rx :: "pl011 \<Rightarrow> bool" where
  "can_rx s \<longleftrightarrow> uart_enabled s \<and> cr s AND RXE \<noteq> 0"

definition wait_to_receive :: "pl011 \<Rightarrow> bool" where
  "wait_to_receive s \<longleftrightarrow> sq_is_full (rx_fifo s) \<or> \<not> can_rx s"

definition is_rx_irq_asserted :: "pl011 \<Rightarrow> bool" where
  "is_rx_irq_asserted s \<longleftrightarrow> imsc s AND RXIM \<noteq> 0 \<and> ris s AND RXRIS \<noteq> 0"

definition is_tx_irq_asserted :: "pl011 \<Rightarrow> bool" where
  "is_tx_irq_asserted s \<longleftrightarrow> imsc s AND TXIM \<noteq> 0 \<and> ris s AND TXRIS \<noteq> 0"

definition is_irq_asserted :: "pl011 \<Rightarrow> bool" where
  "is_irq_asserted s \<longleftrightarrow> is_rx_irq_asserted s \<or> is_tx_irq_asserted s"

definition rx_irq_cond :: "pl011 \<Rightarrow> bool" where
  "rx_irq_cond s \<longleftrightarrow> 0 < cur_size (rx_fifo s)"

definition tx_irq_cond :: "pl011 \<Rightarrow> bool" where
  "tx_irq_cond s =
     (let chars = cur_size (tx_fifo s); lvl = get_tx_irq_level s
      in if lvl = 0 then chars \<le> 4 else if lvl = 1 then chars \<le> 8 else if lvl = 2 then chars \<le> 16
         else if lvl = 3 then chars \<le> 24 else if lvl = 4 then chars \<le> 28 else True)"

definition compute_rxris :: "pl011 \<Rightarrow> bool" where
  "compute_rxris s \<longleftrightarrow> rx_irq_cond s \<and> \<not> rx_irq_disabled_by_icr s"

definition compute_txris :: "pl011 \<Rightarrow> bool" where
  "compute_txris s \<longleftrightarrow> tx_irq_cond s \<and> \<not> tx_irq_disabled_by_icr s"

subsection \<open>Updates\<close>

definition set_lvl_to_gicd :: "bool \<Rightarrow> pl011 \<Rightarrow> pl011" where
  "set_lvl_to_gicd asserted s = emit (if asserted then Assert_line else Deassert_line) s"

definition updated_irq_lvl_to_gicd_if_needed :: "bool \<Rightarrow> pl011 \<Rightarrow> pl011" where
  "updated_irq_lvl_to_gicd_if_needed old_irq_lvl s =
     (let new_irq_lvl = is_irq_asserted s
      in if old_irq_lvl \<noteq> new_irq_lvl then set_lvl_to_gicd new_irq_lvl s else s)"

definition set_rxris :: "bool \<Rightarrow> pl011 \<Rightarrow> pl011" where
  "set_rxris b s = (if b then s\<lparr>ris := ris s OR RXRIS\<rparr>
     else s\<lparr>ris := ris s AND NOT RXRIS, rx_irq_disabled_by_icr := False\<rparr>)"

definition set_txris :: "bool \<Rightarrow> pl011 \<Rightarrow> pl011" where
  "set_txris b s = (if b then s\<lparr>ris := ris s OR TXRIS\<rparr>
     else s\<lparr>ris := ris s AND NOT TXRIS, tx_irq_disabled_by_icr := False\<rparr>)"

text \<open>The loop of \<open>mmio_write_cr\<close> over the queued characters.\<close>

fun drain_tx :: "nat \<Rightarrow> pl011 \<Rightarrow> pl011 option" where
  "drain_tx 0 s = Some s"
| "drain_tx (Suc n) s =
     (case dequeue (tx_fifo s) of
        None \<Rightarrow> None
      | Some (val, q) \<Rightarrow>
          if callback s then drain_tx n (emit (Sent (ucast val)) (s\<lparr>tx_fifo := q\<rparr>)) else None)"

definition mmio_write_cr :: "u64 \<Rightarrow> pl011 \<Rightarrow> (bool \<times> pl011) option" where
  "mmio_write_cr value s = do {
     let old_irq = is_irq_asserted s;
     let could_rx = can_rx s;
     let could_tx = can_tx s;
     let old_tx_cond = tx_irq_cond s;
     let s = s\<lparr>cr := ucast value\<rparr>;
     let s = (if \<not> could_rx \<and> can_rx s then emit Space_signal s else s);
     s \<leftarrow> (if \<not> could_tx \<and> can_tx s
          then do {
            s \<leftarrow> drain_tx (cur_size (tx_fifo s)) s;
            Some (if \<not> old_tx_cond then set_txris True s else s)
          }
          else Some s);
     Some (True, updated_irq_lvl_to_gicd_if_needed old_irq s)
   }"

definition mmio_write_ifls :: "u64 \<Rightarrow> pl011 \<Rightarrow> bool \<times> pl011" where
  "mmio_write_ifls value s =
     (let old_irq = is_irq_asserted s;
          old_tx_cond = tx_irq_cond s;
          old_rx_cond = tx_irq_cond s;
          s = s\<lparr>ifls := ucast value\<rparr>;
          new_rx_cond = rx_irq_cond s;
          new_tx_cond = tx_irq_cond s;
          s = (if \<not> new_tx_cond then set_txris False s else if \<not> old_tx_cond then set_txris True s else s);
          s = (if \<not> new_rx_cond then set_rxris False s else if \<not> old_rx_cond then set_rxris True s else s)
      in (True, updated_irq_lvl_to_gicd_if_needed old_irq s))"

definition mmio_write_icr :: "u64 \<Rightarrow> pl011 \<Rightarrow> bool \<times> pl011" where
  "mmio_write_icr value s =
     (let old_irq = is_irq_asserted s;
          oldris = ris s;
          s = s\<lparr>ris := ris s AND ucast (NOT (value AND 0x7ff))\<rparr>;
          s = updated_irq_lvl_to_gicd_if_needed old_irq s;
          s = (if (value AND ucast TXRIS) AND ucast (oldris AND TXRIS) \<noteq> 0
               then s\<lparr>tx_irq_disabled_by_icr := True\<rparr> else s);
          s = (if (value AND ucast RXRIS) AND ucast (oldris AND RXRIS) \<noteq> 0
               then s\<lparr>rx_irq_disabled_by_icr := True\<rparr> else s)
      in (True, s))"

definition mmio_write_dr :: "u64 \<Rightarrow> pl011 \<Rightarrow> (bool \<times> pl011) option" where
  "mmio_write_dr value s = do {
     ASSERT (callback s);
     if \<not> uart_enabled s then Some (True, s)
     else do {
       let old_irq = is_irq_asserted s;
       s \<leftarrow> (if can_tx s then Some (emit (Sent (ucast value)) s)
            else do {
              (b, q) \<leftarrow> enqueue (tx_fifo s) (ucast (ucast value :: u8));
              Some (s\<lparr>tx_fifo := q\<rparr>)
            });
       let s = set_txris (tx_irq_cond s) s;
       Some (True, updated_irq_lvl_to_gicd_if_needed old_irq s)
     }
   }"

definition pl011_write :: "u64 \<Rightarrow> u64 \<Rightarrow> pl011 \<Rightarrow> (bool \<times> pl011) option" where
  "pl011_write offset value s =
     (case pl_decode offset of
        Some UARTDR \<Rightarrow> mmio_write_dr value s
      | Some UARTRSR \<Rightarrow> Some (True, s)
      | Some UARTILPR \<Rightarrow> Some (True, s\<lparr>ilpr := ucast value\<rparr>)
      | Some UARTIBRD \<Rightarrow> Some (True, s\<lparr>ibrd := ucast value\<rparr>)
      | Some UARTFBRD \<Rightarrow> Some (True, s\<lparr>fbrd := ucast (ucast value :: u8)\<rparr>)
      | Some UARTLCR_H \<Rightarrow>
          (let s = s\<lparr>lcrh := ucast (ucast value :: u8)\<rparr>
           in Some (True,
                if is_fifo_enabled s
                then s\<lparr>rx_fifo := reset_maximize_capacity (rx_fifo s),
                       tx_fifo := reset_maximize_capacity (tx_fifo s)\<rparr>
                else s\<lparr>rx_fifo := sq_reset 1 (rx_fifo s), tx_fifo := sq_reset 1 (tx_fifo s)\<rparr>))
      | Some UARTCR \<Rightarrow> mmio_write_cr value s
      | Some UARTIFLS \<Rightarrow> Some (mmio_write_ifls value s)
      | Some UARTIMSC \<Rightarrow>
          (let old_irq = is_irq_asserted s
           in Some (True, updated_irq_lvl_to_gicd_if_needed old_irq (s\<lparr>imsc := ucast value\<rparr>)))
      | Some UARTICR \<Rightarrow> Some (mmio_write_icr value s)
      | Some UARTDMACR \<Rightarrow> Some (True, s\<lparr>dmacr := ucast value\<rparr>)
      | _ \<Rightarrow> Some (True, s))"

definition mmio_read_dr :: "pl011 \<Rightarrow> (bool \<times> u64 \<times> pl011) option" where
  "mmio_read_dr s =
     (if sq_is_empty (rx_fifo s) \<or> \<not> can_rx s then Some (True, 0, s)
      else do {
        let was_full = sq_is_full (rx_fifo s);
        let prev_rx_cond = rx_irq_cond s;
        (value, q) \<leftarrow> dequeue (rx_fifo s);
        let s = s\<lparr>rx_fifo := q\<rparr>;
        let s = (if prev_rx_cond \<and> \<not> rx_irq_cond s then emit Deassert_line (set_rxris False s) else s);
        let s = (if was_full then emit Space_signal s else s);
        Some (True, ucast value, s)
      })"

definition pl011_read :: "u64 \<Rightarrow> u64 \<Rightarrow> pl011 \<Rightarrow> (bool \<times> u64 \<times> pl011) option" where
  "pl011_read offset value s =
     (case pl_decode offset of
        Some UARTDR \<Rightarrow> mmio_read_dr s
      | Some UARTRSR \<Rightarrow> Some (True, 0, s)
      | Some UARTFR \<Rightarrow> Some (True, (if sq_is_empty (rx_fifo s) then FR_RXFE else 0) OR
                               (if sq_is_full (rx_fifo s) then FR_RXFF else 0) OR FR_TXFE, s)
      | Some UARTILPR \<Rightarrow> Some (True, ucast (ilpr s), s)
      | Some UARTIBRD \<Rightarrow> Some (True, ucast (ibrd s), s)
      | Some UARTFBRD \<Rightarrow> Some (True, ucast (fbrd s), s)
      | Some UARTLCR_H \<Rightarrow> Some (True, ucast (lcrh s), s)
      | Some UARTCR \<Rightarrow> Some (True, ucast (cr s), s)
      | Some UARTIFLS \<Rightarrow> Some (True, ucast (ifls s), s)
      | Some UARTIMSC \<Rightarrow> Some (True, ucast (imsc s), s)
      | Some UARTRIS \<Rightarrow> Some (True, ucast (ris s), s)
      | Some UARTMIS \<Rightarrow> Some (True, ucast (ris s AND imsc s), s)
      | Some UARTICR \<Rightarrow> Some (True, value, s)
      | Some UARTDMACR \<Rightarrow> Some (True, ucast (dmacr s), s)
      | Some UARTPERIPHID0 \<Rightarrow> Some (True, 0x11, s)
      | Some UARTPERIPHID1 \<Rightarrow> Some (True, 0x10, s)
      | Some UARTPERIPHID2 \<Rightarrow> Some (True, 0x14, s)
      | Some UARTPERIPHID3 \<Rightarrow> Some (True, 0x0, s)
      | Some UARTPCELLID0 \<Rightarrow> Some (True, 0xd, s)
      | Some UARTPCELLID1 \<Rightarrow> Some (True, 0xf0, s)
      | Some UARTPCELLID2 \<Rightarrow> Some (True, 0x5, s)
      | Some UARTPCELLID3 \<Rightarrow> Some (True, 0xb1, s)
      | None \<Rightarrow> Some (False, value, s))"

definition pl011_access ::
  "vbus_access \<Rightarrow> u64 \<Rightarrow> u8 \<Rightarrow> u64 \<Rightarrow> pl011 \<Rightarrow> (vbus_err \<times> u64 \<times> pl011) option" where
  "pl011_access access offset n value s =
     (if access = EXEC then Some (ACCESS_ERR, value, s)
      else if access = WRITE
      then (case pl011_write offset value s of
              None \<Rightarrow> None | Some (ok, s') \<Rightarrow> Some (if ok then OK else ACCESS_ERR, value, s'))
      else (case pl011_read offset value s of
              None \<Rightarrow> None | Some (ok, v, s') \<Rightarrow> Some (if ok then OK else ACCESS_ERR, v, s')))"

definition write_to_rx_queue :: "u8 \<Rightarrow> pl011 \<Rightarrow> (bool \<times> pl011) option" where
  "write_to_rx_queue c s =
     (if wait_to_receive s then Some (False, s)
      else do {
        let old_irq = is_irq_asserted s;
        (b, q) \<leftarrow> enqueue (rx_fifo s) (ucast c);
        let s = s\<lparr>rx_fifo := q\<rparr>;
        Some (True, if compute_rxris s
                    then updated_irq_lvl_to_gicd_if_needed old_irq (set_rxris True s) else s)
      })"

definition pl011_reset :: "pl011 \<Rightarrow> pl011" where
  "pl011_reset s =
     (let s = s\<lparr>ilpr := 0, ibrd := 0, fbrd := 0, lcrh := 0, imsc := 0, cr := RXE OR TXE, ris := 0,
                ifls := IFLS_RESET, dmacr := 0, rx_irq_disabled_by_icr := False,
                tx_irq_disabled_by_icr := False\<rparr>;
          s = (if sbsa_uart s then s\<lparr>cr := cr s OR UARTEN, lcrh := lcrh s OR (WLEN_8 OR FEN)\<rparr> else s);
          s = emit Space_signal (s\<lparr>rx_fifo := sq_reset 1 (rx_fifo s)\<rparr>)
      in if lifecycle_callbacks s then emit Device_reset s else s)"

definition pl011_shutdown :: "pl011 \<Rightarrow> pl011" where
  "pl011_shutdown s = (if lifecycle_callbacks s then emit Device_shutdown s else s)"

definition pl011_init :: "pl011 \<Rightarrow> bool \<Rightarrow> bool \<Rightarrow> bool \<times> pl011" where
  "pl011_init s sig_ok lock_ok =
     (if \<not> sig_ok then (False, s) else if \<not> lock_ok then (False, s) else (True, pl011_reset s))"

subsection \<open>Well-formedness: no operation of the device aborts\<close>

definition pl_wf :: "pl011 \<Rightarrow> bool" where
  "pl_wf s \<longleftrightarrow> callback s \<and>
     sq_inv (rx_fifo s) \<and> length (sq_data (rx_fifo s)) = FIFO_MAX_SIZE \<and>
     sq_inv (tx_fifo s) \<and> length (sq_data (tx_fifo s)) = FIFO_MAX_SIZE"

text \<open>Two states that agree on the fields that well-formedness and the FIFO contents look at.\<close>

lemma update_frame [frame_simps]:
  "callback (updated_irq_lvl_to_gicd_if_needed o' s) = callback s"
  "rx_fifo (updated_irq_lvl_to_gicd_if_needed o' s) = rx_fifo s"
  "tx_fifo (updated_irq_lvl_to_gicd_if_needed o' s) = tx_fifo s"
  "ris (updated_irq_lvl_to_gicd_if_needed o' s) = ris s"
  "imsc (updated_irq_lvl_to_gicd_if_needed o' s) = imsc s"
  "cr (updated_irq_lvl_to_gicd_if_needed o' s) = cr s"
  by (simp_all add: updated_irq_lvl_to_gicd_if_needed_def set_lvl_to_gicd_def emit_def Let_def)

lemma set_ris_frame [frame_simps]:
  "callback (set_txris b s) = callback s" "rx_fifo (set_txris b s) = rx_fifo s"
  "tx_fifo (set_txris b s) = tx_fifo s" "events (set_txris b s) = events s" "cr (set_txris b s) = cr s"
  "callback (set_rxris b s) = callback s" "rx_fifo (set_rxris b s) = rx_fifo s"
  "tx_fifo (set_rxris b s) = tx_fifo s" "events (set_rxris b s) = events s" "cr (set_rxris b s) = cr s"
  "imsc (set_txris b s) = imsc s" "imsc (set_rxris b s) = imsc s"
  by (simp_all add: set_txris_def set_rxris_def)

lemma emit_frame [simp]:
  "callback (emit e s) = callback s" "rx_fifo (emit e s) = rx_fifo s" "tx_fifo (emit e s) = tx_fifo s"
  "events (emit e s) = events s @ [e]" "cr (emit e s) = cr s" "ris (emit e s) = ris s"
  "imsc (emit e s) = imsc s"
  by (simp_all add: emit_def)

text \<open>Draining the transmit queue sends its characters in order.\<close>

lemma drain_tx_items:
  assumes "callback s" and "sq_inv (tx_fifo s)" and "n \<le> cur_size (tx_fifo s)"
  shows "\<exists>q. drain_tx n s =
           Some (s\<lparr>tx_fifo := q, events := events s @ map (\<lambda>v. Sent (ucast v)) (take n (sq_items (tx_fifo s)))\<rparr>) \<and>
         sq_inv q \<and> sq_items q = drop n (sq_items (tx_fifo s)) \<and>
         length (sq_data q) = length (sq_data (tx_fifo s)) \<and>
         current_capacity q = current_capacity (tx_fifo s)"
  using assms
proof (induction n arbitrary: s)
  case 0
  then show ?case by (intro exI [of _ "tx_fifo s"]) simp
next
  case (Suc n)
  then obtain x xs where it: "sq_items (tx_fifo s) = x # xs"
    using length_sq_items [of "tx_fifo s"] by (cases "sq_items (tx_fifo s)") auto
  obtain q1 where d: "dequeue (tx_fifo s) = Some (x, q1)" "sq_inv q1" "sq_items q1 = xs"
      "current_capacity q1 = current_capacity (tx_fifo s)"
    using sq.deq_some [OF Suc.prems(2) it] by blast
  let ?s = "emit (Sent (ucast x)) (s\<lparr>tx_fifo := q1\<rparr>)"
  have "n \<le> cur_size (tx_fifo ?s)"
    using Suc.prems(3) it d(3) length_sq_items [of q1] length_sq_items [of "tx_fifo s"] by simp
  with Suc.IH [of ?s] Suc.prems(1) d obtain q where
    "drain_tx n ?s = Some (?s\<lparr>tx_fifo := q, events := events ?s @ map (\<lambda>v. Sent (ucast v)) (take n xs)\<rparr>)"
    "sq_inv q" "sq_items q = drop n xs" "length (sq_data q) = length (sq_data q1)"
    "current_capacity q = current_capacity q1"
    by auto
  then show ?case using Suc.prems(1) d it sq_data_length(2) [OF d(1)]
    by (intro exI [of _ q]) (simp add: emit_def)
qed

lemma drain_tx_all:
  assumes "pl_wf s"
  shows "\<exists>q. drain_tx (cur_size (tx_fifo s)) s =
           Some (s\<lparr>tx_fifo := q, events := events s @ map (\<lambda>v. Sent (ucast v)) (sq_items (tx_fifo s))\<rparr>) \<and>
         sq_inv q \<and> sq_items q = [] \<and> length (sq_data q) = FIFO_MAX_SIZE \<and>
         current_capacity q = current_capacity (tx_fifo s)"
  using drain_tx_items [of s "cur_size (tx_fifo s)"] assms by (simp add: pl_wf_def)

lemma enqueue_some:
  assumes "sq_inv q"
  shows "\<exists>b q'. enqueue q x = Some (b, q') \<and> sq_inv q' \<and> length (sq_data q') = length (sq_data q) \<and>
     (b \<longleftrightarrow> \<not> sq_is_full q) \<and> sq_items q' = (if sq_is_full q then sq_items q else sq_items q @ [x])"
proof (cases "sq_is_full q")
  case True
  then show ?thesis using assms by (intro exI [of _ False] exI [of _ q]) (simp add: enqueue_def)
next
  case False
  then have "length (sq_items q) < current_capacity q"
    using cur_size_le [OF assms] sq_full_iff [OF assms] by simp
  then obtain q' where "enqueue q x = Some (True, q')" "sq_inv q'" "sq_items q' = sq_items q @ [x]"
    using sq.enq_room [OF assms] by blast
  then show ?thesis using False
    by (intro exI [of _ True] exI [of _ q']) (simp add: sq_data_length(1) [of q x True q'])
qed

subsection \<open>Calls\<close>

text \<open>What the guest and the outside world do with the device.\<close>

datatype pl_call = Guest_write u64 u64 | Guest_read u64 u64 | Outside u8

fun pl_step :: "pl_call \<Rightarrow> pl011 \<Rightarrow> pl011 option" where
  "pl_step (Guest_write off v) s = map_option (\<lambda>(e, v', s'). s') (pl011_access WRITE off 4 v s)"
| "pl_step (Guest_read off v) s = map_option (\<lambda>(e, v', s'). s') (pl011_access READ off 4 v s)"
| "pl_step (Outside c) s = map_option snd (write_to_rx_queue c s)"

definition pl_run :: "pl_call list \<Rightarrow> pl011 \<Rightarrow> pl011 option" where
  "pl_run = (\<lambda>calls. for_each calls pl_step)"

text \<open>
  \<open>to_guest\<close> retries until the character is in, waiting for the signal between two tries. \<open>env\<close> are the
  calls that others make during the waits; \<open>False\<close> says that it still waits at their end.
\<close>

fun to_guest :: "u8 \<Rightarrow> pl_call list \<Rightarrow> pl011 \<Rightarrow> (bool \<times> pl011) option" where
  "to_guest c env s =
     (case write_to_rx_queue c s of
        None \<Rightarrow> None
      | Some (True, s') \<Rightarrow> Some (True, s')
      | Some (False, s') \<Rightarrow>
          (case env of
             [] \<Rightarrow> Some (False, s')
           | e # es \<Rightarrow> (case pl_step e s' of None \<Rightarrow> None | Some s'' \<Rightarrow> to_guest c es s'')))"

text \<open>The dummy UART of \<open>vuart.hpp\<close>: what it sends, if anything, and the value it reads.\<close>

definition dummy_access ::
  "u64 \<Rightarrow> u64 \<Rightarrow> bool \<Rightarrow> vbus_access \<Rightarrow> u64 \<Rightarrow> u64 \<Rightarrow> vbus_err \<times> u64 \<times> u8 list" where
  "dummy_access write_off read_default_value has_cb access off value =
     (if access \<noteq> READ \<and> access \<noteq> WRITE then (ACCESS_ERR, value, [])
      else if access = READ then (OK, read_default_value, [])
      else if off = write_off \<and> has_cb then (OK, value, [ucast value])
      else (OK, value, []))"

text \<open>The outcome of a write to the control register, in one equation.\<close>

lemma mmio_write_cr_eq:
  assumes "pl_wf s"
  obtains s1 q where
    "s1 = (if \<not> can_rx s \<and> can_rx (s\<lparr>cr := ucast v\<rparr>) then emit Space_signal (s\<lparr>cr := ucast v\<rparr>)
           else s\<lparr>cr := ucast v\<rparr>)"
    and "sq_inv q" and "sq_items q = []" and "length (sq_data q) = FIFO_MAX_SIZE"
    and "current_capacity q = current_capacity (tx_fifo s)"
    and "mmio_write_cr v s = Some (True, updated_irq_lvl_to_gicd_if_needed (is_irq_asserted s)
      (if \<not> can_tx s \<and> can_tx s1
       then (if \<not> tx_irq_cond s then set_txris True else id)
         (s1\<lparr>tx_fifo := q, events := events s1 @ map (\<lambda>v. Sent (ucast v)) (sq_items (tx_fifo s))\<rparr>)
       else s1))"
proof -
  obtain s1 where s1: "s1 = (if \<not> can_rx s \<and> can_rx (s\<lparr>cr := ucast v\<rparr>)
      then emit Space_signal (s\<lparr>cr := ucast v\<rparr>) else s\<lparr>cr := ucast v\<rparr>)" by blast
  then have "pl_wf s1" and fifo: "tx_fifo s1 = tx_fifo s" using assms by (auto simp: pl_wf_def)
  then obtain q where q: "drain_tx (cur_size (tx_fifo s)) s1 =
      Some (s1\<lparr>tx_fifo := q, events := events s1 @ map (\<lambda>v. Sent (ucast v)) (sq_items (tx_fifo s))\<rparr>)"
      "sq_inv q" "sq_items q = []" "length (sq_data q) = FIFO_MAX_SIZE"
      "current_capacity q = current_capacity (tx_fifo s)"
    using drain_tx_all [of s1] by auto
  have "mmio_write_cr v s = Some (True, updated_irq_lvl_to_gicd_if_needed (is_irq_asserted s)
      (if \<not> can_tx s \<and> can_tx s1
       then (if \<not> tx_irq_cond s then set_txris True else id)
         (s1\<lparr>tx_fifo := q, events := events s1 @ map (\<lambda>v. Sent (ucast v)) (sq_items (tx_fifo s))\<rparr>)
       else s1))"
    unfolding mmio_write_cr_def Let_def s1 [symmetric] fifo using q(1) by simp
  then show ?thesis using that [OF s1 q(2-5)] by blast
qed

lemma mmio_write_cr_wf:
  assumes "pl_wf s"
  shows "\<exists>s'. mmio_write_cr v s = Some (True, s') \<and> pl_wf s' \<and> rx_fifo s' = rx_fifo s \<and>
     cr s' = ucast v"
proof -
  obtain s1 q where h: "s1 = (if \<not> can_rx s \<and> can_rx (s\<lparr>cr := ucast v\<rparr>)
        then emit Space_signal (s\<lparr>cr := ucast v\<rparr>) else s\<lparr>cr := ucast v\<rparr>)"
      "sq_inv q" "length (sq_data q) = FIFO_MAX_SIZE"
      "mmio_write_cr v s = Some (True, updated_irq_lvl_to_gicd_if_needed (is_irq_asserted s)
      (if \<not> can_tx s \<and> can_tx s1
       then (if \<not> tx_irq_cond s then set_txris True else id)
         (s1\<lparr>tx_fifo := q, events := events s1 @ map (\<lambda>v. Sent (ucast v)) (sq_items (tx_fifo s))\<rparr>)
       else s1))"
    using mmio_write_cr_eq [OF assms] by metis
  have "pl_wf s1" "rx_fifo s1 = rx_fifo s" "cr s1 = ucast v" using assms h(1) by (auto simp: pl_wf_def)
  then show ?thesis using h(2-4) by (auto simp: pl_wf_def frame_simps)
qed

lemma mmio_write_dr_wf:
  assumes "pl_wf s"
  shows "\<exists>s'. mmio_write_dr v s = Some (True, s') \<and> pl_wf s' \<and> rx_fifo s' = rx_fifo s \<and> cr s' = cr s"
  using enqueue_some [of "tx_fifo s" "ucast (ucast v :: u8)"] assms
  by (auto simp: mmio_write_dr_def Let_def frame_simps pl_wf_def)

lemma pl_wf_others [wf_intros]:
  "pl_wf s \<Longrightarrow> pl_wf (snd (mmio_write_ifls v s))"
  "pl_wf s \<Longrightarrow> pl_wf (snd (mmio_write_icr v s))"
  "pl_wf s \<Longrightarrow> pl_wf (pl011_reset s)"
  by (auto simp: pl_wf_def mmio_write_ifls_def mmio_write_icr_def pl011_reset_def Let_def frame_simps
      FIFO_MAX_SIZE_def sq_inv_reset sq_data_length)

lemma pl011_write_wf:
  assumes "pl_wf s"
  shows "\<exists>s'. pl011_write off v s = Some (True, s') \<and> pl_wf s' \<and>
     (pl_decode off \<noteq> Some UARTLCR_H \<longrightarrow> rx_fifo s' = rx_fifo s)"
proof (cases "pl_decode off")
  case None
  then show ?thesis using assms by (simp add: pl011_write_def)
next
  case (Some r)
  then show ?thesis
    using assms mmio_write_cr_wf [OF assms, of v] mmio_write_dr_wf [OF assms, of v]
      pl_wf_others(1,2) [OF assms, of v]
    by (cases r)
      (auto simp: pl011_write_def pl_wf_def Let_def frame_simps reset_maximize_capacity_def
        FIFO_MAX_SIZE_def sq_inv_reset sq_data_length mmio_write_ifls_def mmio_write_icr_def)
qed

lemma mmio_read_dr_wf:
  assumes "pl_wf s"
  shows "\<exists>v s'. mmio_read_dr s = Some (True, v, s') \<and> pl_wf s' \<and> tx_fifo s' = tx_fifo s \<and> cr s' = cr s \<and>
     (if sq_is_empty (rx_fifo s) \<or> \<not> can_rx s then v = 0 \<and> s' = s
      else sq_items (rx_fifo s) = ucast v # sq_items (rx_fifo s'))"
proof (cases "sq_is_empty (rx_fifo s) \<or> \<not> can_rx s")
  case True
  then show ?thesis using assms by (simp add: mmio_read_dr_def)
next
  case False
  have inv: "sq_inv (rx_fifo s)" using assms by (simp add: pl_wf_def)
  obtain x xs where it: "sq_items (rx_fifo s) = x # xs"
    using False sq_items_Nil [OF inv] by (cases "sq_items (rx_fifo s)") auto
  then obtain q where q: "dequeue (rx_fifo s) = Some (x, q)" "sq_inv q" "sq_items q = xs"
    using sq.deq_some [OF inv] by blast
  have "ucast (ucast x :: u64) = x" by (rule word_eqI_bits) (simp add: bit_simps)
  then show ?thesis using False q it assms sq_data_length(2) [OF q(1)]
    by (simp add: mmio_read_dr_def Let_def pl_wf_def frame_simps)
qed

lemma pl011_read_cases:
  "pl_decode off \<noteq> Some UARTDR \<Longrightarrow> \<exists>b v'. pl011_read off v s = Some (b, v', s)"
  by (cases "pl_decode off") (auto simp: pl011_read_def split: pl_reg.split)

lemma pl_step_wf:
  assumes "pl_wf s"
  shows "\<exists>s'. pl_step c s = Some s' \<and> pl_wf s'"
proof (cases c)
  case (Guest_write off v)
  then show ?thesis using pl011_write_wf [OF assms, of off v] by (auto simp: pl011_access_def)
next
  case (Guest_read off v)
  have "\<exists>b v' s'. pl011_read off v s = Some (b, v', s') \<and> pl_wf s'"
  proof (cases "pl_decode off = Some UARTDR")
    case True
    then show ?thesis using mmio_read_dr_wf [OF assms] by (auto simp: pl011_read_def)
  next
    case False
    then show ?thesis using pl011_read_cases [OF False, of v s] assms by blast
  qed
  then show ?thesis using Guest_read by (auto simp: pl011_access_def)
next
  case (Outside ch)
  then show ?thesis
    using enqueue_some [of "rx_fifo s" "ucast ch"] assms
    by (auto simp: write_to_rx_queue_def pl_wf_def Let_def frame_simps)
qed

subsection \<open>The interrupt line\<close>

definition line_level :: "pl_event list \<Rightarrow> bool" where
  "line_level = foldl (\<lambda>l e. case e of Assert_line \<Rightarrow> True | Deassert_line \<Rightarrow> False | _ \<Rightarrow> l) False"

definition line_ok :: "pl011 \<Rightarrow> bool" where
  "line_ok s \<longleftrightarrow> (line_level (events s) \<longleftrightarrow> is_irq_asserted s)"

lemma line_level_simps [simp]:
  "line_level [] = False"
  "line_level (es @ [Assert_line])" "\<not> line_level (es @ [Deassert_line])"
  "line_level (es @ [Sent c]) = line_level es" "line_level (es @ [Space_signal]) = line_level es"
  "line_level (es @ [Device_reset]) = line_level es" "line_level (es @ [Device_shutdown]) = line_level es"
  by (simp_all add: line_level_def)

lemma line_level_sent [simp]: "line_level (es @ map (\<lambda>v. Sent (f v)) xs) = line_level es"
  by (induction xs rule: rev_induct) (simp_all flip: append_assoc)

lemma line_ok_updated:
  "line_level (events s) = old \<Longrightarrow> line_ok (updated_irq_lvl_to_gicd_if_needed old s)"
  by (auto simp: line_ok_def updated_irq_lvl_to_gicd_if_needed_def set_lvl_to_gicd_def emit_def Let_def
      is_irq_asserted_def is_rx_irq_asserted_def is_tx_irq_asserted_def)

lemma line_ok_cong:
  "line_level (events s') = line_level (events s) \<Longrightarrow> ris s' = ris s \<Longrightarrow> imsc s' = imsc s \<Longrightarrow>
     line_ok s' = line_ok s"
  by (simp add: line_ok_def is_irq_asserted_def is_rx_irq_asserted_def is_tx_irq_asserted_def)

lemma line_ok_simps [simp]:
  "line_ok (s\<lparr>ilpr := x8\<rparr>) = line_ok s" "line_ok (s\<lparr>ibrd := x\<rparr>) = line_ok s"
  "line_ok (s\<lparr>fbrd := x\<rparr>) = line_ok s" "line_ok (s\<lparr>lcrh := x\<rparr>) = line_ok s"
  "line_ok (s\<lparr>dmacr := x\<rparr>) = line_ok s" "line_ok (s\<lparr>rx_fifo := q\<rparr>) = line_ok s"
  "line_ok (s\<lparr>tx_fifo := q\<rparr>) = line_ok s"
  by (rule line_ok_cong; simp)+

lemma mmio_write_cr_line:
  assumes "pl_wf s" "line_ok s" "mmio_write_cr v s = Some (b, s')"
  shows "line_ok s'"
proof -
  obtain s1 q where h: "s1 = (if \<not> can_rx s \<and> can_rx (s\<lparr>cr := ucast v\<rparr>)
        then emit Space_signal (s\<lparr>cr := ucast v\<rparr>) else s\<lparr>cr := ucast v\<rparr>)"
      "mmio_write_cr v s = Some (True, updated_irq_lvl_to_gicd_if_needed (is_irq_asserted s)
      (if \<not> can_tx s \<and> can_tx s1
       then (if \<not> tx_irq_cond s then set_txris True else id)
         (s1\<lparr>tx_fifo := q, events := events s1 @ map (\<lambda>v. Sent (ucast v)) (sq_items (tx_fifo s))\<rparr>)
       else s1))"
    using mmio_write_cr_eq [OF assms(1)] by metis
  have "line_level (events s1) = is_irq_asserted s" using assms(2) h(1) by (auto simp: line_ok_def)
  then have "line_ok (updated_irq_lvl_to_gicd_if_needed (is_irq_asserted s)
      (if \<not> can_tx s \<and> can_tx s1
       then (if \<not> tx_irq_cond s then set_txris True else id)
         (s1\<lparr>tx_fifo := q, events := events s1 @ map (\<lambda>v. Sent (ucast v)) (sq_items (tx_fifo s))\<rparr>)
       else s1))"
    by (intro line_ok_updated) (simp add: frame_simps)
  then show ?thesis using h(2) assms(3) by simp
qed

lemma mmio_write_dr_line:
  assumes "pl_wf s" "line_ok s" "mmio_write_dr v s = Some (b, s')"
  shows "line_ok s'"
proof -
  have l: "line_level (events s) = is_irq_asserted s" using assms(2) by (simp add: line_ok_def)
  obtain b' q where "enqueue (tx_fifo s) (ucast (ucast v :: u8)) = Some (b', q)"
    using enqueue_some [of "tx_fifo s" "ucast (ucast v :: u8)"] assms(1) unfolding pl_wf_def by blast
  then show ?thesis using assms l
    by (auto simp: mmio_write_dr_def Let_def pl_wf_def frame_simps intro!: line_ok_updated split: if_splits)
qed

lemma line_ok_ifls: "line_ok s \<Longrightarrow> line_ok (snd (mmio_write_ifls v s))"
  unfolding mmio_write_ifls_def Let_def snd_conv
  by (rule line_ok_updated) (simp add: frame_simps line_ok_def)

lemma line_ok_icr: "line_ok s \<Longrightarrow> line_ok (snd (mmio_write_icr v s))"
proof -
  assume ok: "line_ok s"
  let ?s = "updated_irq_lvl_to_gicd_if_needed (is_irq_asserted s)
      (s\<lparr>ris := ris s AND ucast (NOT (v AND 0x7ff))\<rparr>)"
  have "line_ok ?s" using ok by (intro line_ok_updated) (simp add: line_ok_def)
  then show ?thesis
    by (subst line_ok_cong [of _ ?s]) (simp_all add: mmio_write_icr_def Let_def)
qed

lemma pl011_write_line:
  assumes "pl_wf s" "line_ok s" "pl011_write off v s = Some (b, s')"
  shows "line_ok s'"
proof (cases "pl_decode off")
  case None
  then show ?thesis using assms by (simp add: pl011_write_def)
next
  case (Some r)
  have l: "line_level (events s) = is_irq_asserted s" using assms(2) by (simp add: line_ok_def)
  show ?thesis
    using Some assms mmio_write_cr_line [OF assms(1,2), of v] mmio_write_dr_line [OF assms(1,2), of v]
      line_ok_ifls [OF assms(2), of v] line_ok_icr [OF assms(2), of v] l
    by (cases r) (auto simp: pl011_write_def Let_def intro!: line_ok_updated)
qed

lemma write_to_rx_queue_line:
  assumes "pl_wf s" "line_ok s" "write_to_rx_queue c s = Some (b, s')"
  shows "line_ok s'"
proof -
  have l: "line_level (events s) = is_irq_asserted s" using assms(2) by (simp add: line_ok_def)
  obtain b' q where "enqueue (rx_fifo s) (ucast c) = Some (b', q)"
    using enqueue_some [of "rx_fifo s" "ucast c"] assms(1) unfolding pl_wf_def by blast
  then show ?thesis using assms(2,3) l
    by (auto simp: write_to_rx_queue_def Let_def frame_simps
        intro!: line_ok_updated split: if_splits)
qed

text \<open>A read of the data register that takes the last character out of the queue.\<close>

fun reads_last_char :: "pl_call \<Rightarrow> pl011 \<Rightarrow> bool" where
  "reads_last_char (Guest_read off v) s \<longleftrightarrow>
     pl_decode off = Some UARTDR \<and> can_rx s \<and> cur_size (rx_fifo s) = 1"
| "reads_last_char _ s \<longleftrightarrow> False"

lemma mmio_read_dr_line:
  assumes "pl_wf s" "line_ok s" "mmio_read_dr s = Some (b, v, s')"
  shows "line_ok s' \<longleftrightarrow> \<not> (can_rx s \<and> cur_size (rx_fifo s) = 1 \<and> is_tx_irq_asserted s)"
proof (cases "sq_is_empty (rx_fifo s) \<or> \<not> can_rx s")
  case True
  have "sq_inv (rx_fifo s)" using assms(1) by (simp add: pl_wf_def)
  then have "sq_is_empty (rx_fifo s) \<longleftrightarrow> cur_size (rx_fifo s) = 0" by (rule sq_empty_iff)
  then show ?thesis using True assms(2,3) by (auto simp: mmio_read_dr_def)
next
  case False
  have inv: "sq_inv (rx_fifo s)" using assms(1) by (simp add: pl_wf_def)
  obtain x xs where it: "sq_items (rx_fifo s) = x # xs"
    using False sq_items_Nil [OF inv] by (cases "sq_items (rx_fifo s)") auto
  then obtain q where q: "dequeue (rx_fifo s) = Some (x, q)" "sq_items q = xs"
    using sq.deq_some [OF inv] by blast
  have n: "cur_size q = length xs" "cur_size (rx_fifo s) = Suc (length xs)"
    using length_sq_items [of q] length_sq_items [of "rx_fifo s"] q(2) it by simp_all
  let ?f = "\<lambda>t. if sq_is_full (rx_fifo s) then emit Space_signal t else t"
  have f: "line_ok (?f t) = line_ok t" for t
    by (rule line_ok_cong) simp_all
  show ?thesis
  proof (cases "xs = []")
    case True
    let ?t = "emit Deassert_line (set_rxris False (s\<lparr>rx_fifo := q\<rparr>))"
    have s': "s' = ?f ?t"
      using False q n True assms(3)
      by (cases "sq_is_full (rx_fifo s)") (simp_all add: mmio_read_dr_def Let_def rx_irq_cond_def)
    have "(ris s AND NOT RXRIS) AND RXRIS = 0" "(ris s AND NOT RXRIS) AND TXRIS = ris s AND TXRIS"
      by (simp_all add: and.assoc)
    then have "is_irq_asserted ?t \<longleftrightarrow> is_tx_irq_asserted s"
      by (simp add: is_irq_asserted_def is_rx_irq_asserted_def is_tx_irq_asserted_def set_rxris_def)
    then have "line_ok ?t \<longleftrightarrow> \<not> is_tx_irq_asserted s" by (simp add: line_ok_def)
    then show ?thesis using False n True by (simp only: s' f) simp
  next
    case False
    then have "s' = ?f (s\<lparr>rx_fifo := q\<rparr>)"
      using \<open>\<not> (sq_is_empty (rx_fifo s) \<or> \<not> can_rx s)\<close> q n assms(3)
      by (cases "sq_is_full (rx_fifo s)") (simp_all add: mmio_read_dr_def Let_def rx_irq_cond_def)
    then have "line_ok s'" using assms(2) by (simp only: f line_ok_simps)
    then show ?thesis using n False by simp
  qed
qed

subsection \<open>Characters in transit\<close>

text \<open>What a call takes from the outside into the receive queue, and what it hands to the guest.\<close>

fun pl_accepted :: "pl_call \<Rightarrow> pl011 \<Rightarrow> u16 list" where
  "pl_accepted (Outside c) s = (if wait_to_receive s then [] else [ucast c])"
| "pl_accepted _ s = []"

fun pl_delivered :: "pl_call \<Rightarrow> pl011 \<Rightarrow> u16 list" where
  "pl_delivered (Guest_read off v) s =
     (if pl_decode off = Some UARTDR \<and> \<not> sq_is_empty (rx_fifo s) \<and> can_rx s
      then (case pl011_access READ off 4 v s of Some (e, v', s') \<Rightarrow> [ucast v'] | None \<Rightarrow> [])
      else [])"
| "pl_delivered _ s = []"

text \<open>What a call of the guest takes into the transmit side, and what has been sent out.\<close>

fun pl_written :: "pl_call \<Rightarrow> pl011 \<Rightarrow> u8 list" where
  "pl_written (Guest_write off v) s =
     (if pl_decode off = Some UARTDR \<and> uart_enabled s \<and> (can_tx s \<or> \<not> sq_is_full (tx_fifo s))
      then [ucast v] else [])"
| "pl_written _ s = []"

fun sent_chars :: "pl_event list \<Rightarrow> u8 list" where
  "sent_chars [] = []"
| "sent_chars (Sent c # es) = c # sent_chars es"
| "sent_chars (_ # es) = sent_chars es"

fun writes_lcr :: "pl_call \<Rightarrow> bool" where
  "writes_lcr (Guest_write off v) \<longleftrightarrow> pl_decode off = Some UARTLCR_H"
| "writes_lcr _ \<longleftrightarrow> False"

fun pl_trace :: "(pl_call \<Rightarrow> pl011 \<Rightarrow> 'a list) \<Rightarrow> pl_call list \<Rightarrow> pl011 \<Rightarrow> ('a list \<times> pl011) option" where
  "pl_trace obs [] s = Some ([], s)"
| "pl_trace obs (c # cs) s =
     (case pl_step c s of None \<Rightarrow> None
      | Some s' \<Rightarrow> (case pl_trace obs cs s' of None \<Rightarrow> None | Some (xs, s'') \<Rightarrow> Some (obs c s @ xs, s'')))"

lemma sent_chars_append [simp]: "sent_chars (xs @ ys) = sent_chars xs @ sent_chars ys"
  by (induction xs rule: sent_chars.induct) simp_all

lemma sent_chars_map [simp]: "sent_chars (map (\<lambda>v. Sent (f v)) xs) = map f xs"
  by (induction xs) simp_all

lemma pl_step_rx:
  assumes "pl_wf s" and "\<not> writes_lcr c" and "pl_step c s = Some s'"
  shows "sq_items (rx_fifo s) @ pl_accepted c s = pl_delivered c s @ sq_items (rx_fifo s')"
proof (cases c)
  case (Guest_write off v)
  obtain s1 where "pl011_write off v s = Some (True, s1)" "rx_fifo s1 = rx_fifo s"
    using pl011_write_wf [OF assms(1), of off v] assms(2) Guest_write by auto
  then show ?thesis using assms(3) Guest_write by (simp add: pl011_access_def)
next
  case (Guest_read off v)
  show ?thesis
  proof (cases "pl_decode off = Some UARTDR")
    case True
    then have r: "pl011_read off v s = mmio_read_dr s" by (simp add: pl011_read_def)
    obtain v' s1 where m: "mmio_read_dr s = Some (True, v', s1)"
        "if sq_is_empty (rx_fifo s) \<or> \<not> can_rx s then v' = 0 \<and> s1 = s
         else sq_items (rx_fifo s) = ucast v' # sq_items (rx_fifo s1)"
      using mmio_read_dr_wf [OF assms(1)] by blast
    then have "s' = s1" using assms(3) r Guest_read by (simp add: pl011_access_def)
    then show ?thesis using m True r Guest_read
      by (cases "sq_is_empty (rx_fifo s) \<or> \<not> can_rx s") (auto simp: pl011_access_def)
  next
    case False
    then show ?thesis using assms(3) Guest_read pl011_read_cases [OF False, of v s]
      by (auto simp: pl011_access_def)
  qed
next
  case (Outside ch)
  obtain b q where e: "enqueue (rx_fifo s) (ucast ch) = Some (b, q)"
      "sq_items q = (if sq_is_full (rx_fifo s) then sq_items (rx_fifo s) else sq_items (rx_fifo s) @ [ucast ch])"
    using enqueue_some [of "rx_fifo s" "ucast ch"] assms(1) unfolding pl_wf_def by blast
  show ?thesis
  proof (cases "wait_to_receive s")
    case True
    then show ?thesis using assms(3) Outside by (simp add: write_to_rx_queue_def)
  next
    case False
    then have "rx_fifo s' = q" using assms(3) Outside e(1)
      by (auto simp: write_to_rx_queue_def Let_def frame_simps)
    then show ?thesis using False Outside e(2) by (simp add: wait_to_receive_def)
  qed
qed

subsection \<open>Properties\<close>

text \<open>
  C4: from a well-formed device with a registered callback, no sequence of guest accesses and
  outside characters makes it abort: every \<open>ASSERT\<close> holds and every FIFO access is inside the
  array, and the result is well-formed again.
\<close>

theorem pl011_never_aborts:
  assumes "pl_wf s"
  shows "\<exists>s'. pl_run calls s = Some s' \<and> pl_wf s'"
  unfolding pl_run_def using assms by (rule for_each_total) (rule pl_step_wf)

definition demo_pl011 :: pl011 where
  "demo_pl011 = pl011_reset (register_callback True False (pl011_new True))"

lemma demo_pl011_wf: "pl_wf demo_pl011"
  by (auto simp: demo_pl011_def pl_wf_def pl011_reset_def register_callback_def pl011_new_def Let_def
      sq_inv_reset sq_inv_new sq_data_length emit_def sq_new_def FIFO_MAX_SIZE_def sq_inv_def sq_reset_def)

theorem pl011_never_aborts_witness:
  "\<exists>s'. pl_run [Guest_write 0x2c 0x70, Outside 65, Outside 66, Guest_read 0 0, Guest_write 0 67] demo_pl011
     = Some s' \<and> pl_wf s'"
  by (rule pl011_never_aborts [OF demo_pl011_wf])

text \<open>
  C5: the receive path is a first-in first-out channel. Over any run in which the guest does not
  write the line control register, the characters that were queued, followed by those accepted
  from outside, are those the guest read from the data register, in order, followed by those
  still queued.
\<close>

theorem pl011_rx_in_order:
  assumes "pl_wf s" and "\<forall>c\<in>set calls. \<not> writes_lcr c"
  shows "\<exists>accepted delivered s'.
     pl_trace pl_accepted calls s = Some (accepted, s') \<and>
     pl_trace pl_delivered calls s = Some (delivered, s') \<and>
     sq_items (rx_fifo s) @ accepted = delivered @ sq_items (rx_fifo s')"
  using assms
proof (induction calls arbitrary: s)
  case Nil
  then show ?case by simp
next
  case (Cons c cs)
  obtain s1 where s1: "pl_step c s = Some s1" "pl_wf s1" using pl_step_wf [OF Cons.prems(1)] by blast
  obtain a d s2 where "pl_trace pl_accepted cs s1 = Some (a, s2)" "pl_trace pl_delivered cs s1 = Some (d, s2)"
      "sq_items (rx_fifo s1) @ a = d @ sq_items (rx_fifo s2)"
    using Cons.IH [OF s1(2)] Cons.prems(2) by auto
  moreover have "sq_items (rx_fifo s) @ pl_accepted c s = pl_delivered c s @ sq_items (rx_fifo s1)"
    using pl_step_rx [OF Cons.prems(1) _ s1(1)] Cons.prems(2) by simp
  ultimately have "sq_items (rx_fifo s) @ pl_accepted c s @ a = (pl_delivered c s @ d) @ sq_items (rx_fifo s2)"
    and "pl_trace pl_accepted (c # cs) s = Some (pl_accepted c s @ a, s2)"
    and "pl_trace pl_delivered (c # cs) s = Some (pl_delivered c s @ d, s2)"
    using s1(1) by (metis append_assoc, simp_all)
  then show ?case by blast
qed

theorem pl011_rx_in_order_witness:
  "\<exists>accepted delivered s'.
     pl_trace pl_accepted [Outside 65, Guest_read 0 0] demo_pl011 = Some (accepted, s') \<and>
     pl_trace pl_delivered [Outside 65, Guest_read 0 0] demo_pl011 = Some (delivered, s') \<and>
     sq_items (rx_fifo demo_pl011) @ accepted = delivered @ sq_items (rx_fifo s')"
  by (rule pl011_rx_in_order [OF demo_pl011_wf]) simp

text \<open>
  C6: when the level of the interrupt line agrees with the masked interrupt state, it agrees again
  after a call, except in one case: a read that takes the last character while the transmit
  interrupt is asserted lowers the line although an interrupt is still asserted.
\<close>

theorem pl011_line_follows_interrupts:
  assumes "pl_wf s" and "line_ok s" and "pl_step c s = Some s'"
  shows "line_ok s' \<longleftrightarrow> \<not> (reads_last_char c s \<and> is_tx_irq_asserted s)"
proof (cases c)
  case (Guest_write off v)
  then show ?thesis using assms pl011_write_line [OF assms(1,2), of off v]
    by (auto simp: pl011_access_def split: option.splits)
next
  case (Guest_read off v)
  show ?thesis
  proof (cases "pl_decode off = Some UARTDR")
    case True
    then have r: "pl011_read off v s = mmio_read_dr s" by (simp add: pl011_read_def)
    obtain b v' where "mmio_read_dr s = Some (b, v', s')"
      using assms(3) r Guest_read by (auto simp: pl011_access_def split: option.splits)
    from mmio_read_dr_line [OF assms(1,2) this] show ?thesis using True Guest_read by simp
  next
    case False
    then show ?thesis using assms(2,3) Guest_read pl011_read_cases [OF False, of v s]
      by (auto simp: pl011_access_def)
  qed
next
  case (Outside ch)
  then show ?thesis using assms write_to_rx_queue_line [OF assms(1,2), of ch] by auto
qed

text \<open>The state of the exceptional case: both interrupts unmasked, one character queued.\<close>

definition demo_both_irqs :: pl011 where
  "demo_both_irqs = demo_pl011\<lparr>imsc := 0x30, ris := 0x30, events := [Assert_line],
     rx_fifo := \<lparr>widx = 0, sq_data = replicate 32 65, current_capacity = 1, ridx = 0\<rparr>\<rparr>"

lemma demo_both_irqs_facts:
  "pl_wf demo_both_irqs" "line_ok demo_both_irqs" "reads_last_char (Guest_read 0 0) demo_both_irqs"
  "is_tx_irq_asserted demo_both_irqs"
proof -
  show "pl_wf demo_both_irqs" using demo_pl011_wf
    by (simp add: pl_wf_def demo_both_irqs_def sq_inv_def FIFO_MAX_SIZE_def)
  have "line_level [Assert_line]" by (simp add: line_level_def)
  then show "line_ok demo_both_irqs"
    by (simp add: line_ok_def demo_both_irqs_def is_irq_asserted_def is_rx_irq_asserted_def)
  show "reads_last_char (Guest_read 0 0) demo_both_irqs"
    by (simp add: pl_decode_def demo_both_irqs_def cur_size_def sq_is_empty_def sq_is_full_def can_rx_def
        uart_enabled_def demo_pl011_def pl011_reset_def register_callback_def pl011_new_def Let_def emit_def)
  show "is_tx_irq_asserted demo_both_irqs"
    by (simp add: is_tx_irq_asserted_def demo_both_irqs_def)
qed

theorem pl011_line_follows_interrupts_witness:
  "\<exists>s'. pl_step (Guest_read 0 0) demo_both_irqs = Some s' \<and> \<not> line_ok s'"
proof -
  obtain s' where s': "pl_step (Guest_read 0 0) demo_both_irqs = Some s'"
    using pl_step_wf [OF demo_both_irqs_facts(1)] by blast
  then show ?thesis
    using pl011_line_follows_interrupts [OF demo_both_irqs_facts(1,2) s'] demo_both_irqs_facts(3,4) by blast
qed

text \<open>
  A write to the FIFO level register decides on the receive interrupt with the state of the
  transmit queue: after it the receive interrupt is raised iff characters are waiting and the
  transmit condition was false before, or they are waiting and it was raised already. So the
  write raises again a receive interrupt that the guest had cleared, with no change in the
  receive queue.
\<close>

theorem pl011_ifls_rx_interrupt:
  "ris (snd (mmio_write_ifls v s)) AND RXRIS \<noteq> 0 \<longleftrightarrow>
     rx_irq_cond s \<and> (if tx_irq_cond s then ris s AND RXRIS \<noteq> 0 else True)"
proof -
  have rx: "rx_irq_cond (set_txris b (s\<lparr>ifls := ucast v\<rparr>)) = rx_irq_cond s"
    "rx_irq_cond (s\<lparr>ifls := ucast v\<rparr>) = rx_irq_cond s" for b
    by (simp_all add: rx_irq_cond_def set_txris_def)
  show ?thesis
    by (cases "rx_irq_cond s"; cases "tx_irq_cond s"; cases "tx_irq_cond (s\<lparr>ifls := ucast v\<rparr>)")
      (simp_all add: mmio_write_ifls_def Let_def frame_simps rx set_txris_def set_rxris_def and.assoc
        bit.conj_disj_distrib2)
qed

text \<open>
  Clearing the transmit interrupt through the clear register does not keep it cleared, as the
  comment in \<open>mmio_write_icr\<close> says it does: the next character that the guest sends raises it
  again, while the flag that should suppress it stays set.
\<close>

theorem pl011_tx_clear_not_kept:
  assumes "pl_wf s" and "can_tx s" and "tx_irq_cond s" and "ris s AND TXRIS \<noteq> 0"
  shows "\<exists>s'. mmio_write_dr v (snd (mmio_write_icr 0x20 s)) = Some (True, s') \<and>
     ris (snd (mmio_write_icr 0x20 s)) AND TXRIS = 0 \<and>
     tx_irq_disabled_by_icr s' \<and> \<not> compute_txris s' \<and> ris s' AND TXRIS \<noteq> 0"
proof -
  let ?c = "snd (mmio_write_icr 0x20 s)"
  have "TXRIS = push_bit 5 1" by simp
  then have m: "ris s AND TXRIS = TXRIS" using assms(4) and_push_bit_1 [of "ris s" 5] by (simp split: if_splits)
  have mask: "(ucast (NOT ((0x20 :: u64) AND 0x7ff)) :: u16) = NOT TXRIS" by simp
  have c: "ris ?c = ris s AND NOT TXRIS" "tx_irq_disabled_by_icr ?c" "cr ?c = cr s" "callback ?c = callback s"
    "tx_fifo ?c = tx_fifo s" "ifls ?c = ifls s"
    using m unfolding mmio_write_icr_def Let_def mask updated_irq_lvl_to_gicd_if_needed_def
      set_lvl_to_gicd_def emit_def by simp_all
  have tx: "can_tx ?c" "uart_enabled ?c" "tx_irq_cond ?c"
    using assms(2,3) c by (simp_all add: can_tx_def uart_enabled_def tx_irq_cond_def get_tx_irq_level_def)
  let ?e = "emit (Sent (ucast v)) ?c"
  let ?d = "updated_irq_lvl_to_gicd_if_needed (is_irq_asserted ?c) (set_txris True ?e)"
  have e: "tx_irq_cond ?e" "tx_irq_disabled_by_icr ?e"
    using tx(3) c(2) by (simp_all add: tx_irq_cond_def get_tx_irq_level_def emit_def)
  have "mmio_write_dr v ?c = Some (True, ?d)"
    using assms(1) tx c(4) e by (simp add: mmio_write_dr_def pl_wf_def Let_def)
  moreover have "tx_irq_disabled_by_icr ?d"
    using e(2) by (simp add: updated_irq_lvl_to_gicd_if_needed_def set_lvl_to_gicd_def emit_def set_txris_def Let_def)
  moreover have "ris ?c AND TXRIS = 0" "ris ?d AND TXRIS \<noteq> 0"
    by (simp_all add: c(1) frame_simps set_txris_def and.assoc bit.conj_disj_distrib2)
  ultimately show ?thesis by (simp add: compute_txris_def)
qed

text \<open>The transmit queue holds characters only while the device may not send.\<close>

definition tx_parked :: "pl011 \<Rightarrow> bool" where
  "tx_parked s \<longleftrightarrow> (can_tx s \<longrightarrow> sq_items (tx_fifo s) = [])"

definition tx_stream :: "pl011 \<Rightarrow> u8 list" where
  "tx_stream s = sent_chars (events s) @ map ucast (sq_items (tx_fifo s))"

lemma sent_updated [simp]: "sent_chars (events (updated_irq_lvl_to_gicd_if_needed b s)) = sent_chars (events s)"
  by (simp add: updated_irq_lvl_to_gicd_if_needed_def set_lvl_to_gicd_def emit_def Let_def)

lemma tx_cong:
  assumes "sent_chars (events t) = sent_chars (events s)" "tx_fifo t = tx_fifo s" "cr t = cr s"
  shows "tx_stream t = tx_stream s" "tx_parked t = tx_parked s"
  using assms by (simp_all add: tx_stream_def tx_parked_def can_tx_def uart_enabled_def)

lemma mmio_write_cr_tx:
  assumes "pl_wf s" "tx_parked s" "mmio_write_cr v s = Some (b, s')"
  shows "tx_parked s' \<and> tx_stream s' = tx_stream s"
proof -
  obtain s1 q where h: "s1 = (if \<not> can_rx s \<and> can_rx (s\<lparr>cr := ucast v\<rparr>)
        then emit Space_signal (s\<lparr>cr := ucast v\<rparr>) else s\<lparr>cr := ucast v\<rparr>)"
      "sq_items q = []"
      "mmio_write_cr v s = Some (True, updated_irq_lvl_to_gicd_if_needed (is_irq_asserted s)
      (if \<not> can_tx s \<and> can_tx s1
       then (if \<not> tx_irq_cond s then set_txris True else id)
         (s1\<lparr>tx_fifo := q, events := events s1 @ map (\<lambda>v. Sent (ucast v)) (sq_items (tx_fifo s))\<rparr>)
       else s1))"
    using mmio_write_cr_eq [OF assms(1)] by metis
  have s1: "sent_chars (events s1) = sent_chars (events s)" "tx_fifo s1 = tx_fifo s" using h(1) by auto
  let ?d = "s1\<lparr>tx_fifo := q, events := events s1 @ map (\<lambda>v. Sent (ucast v)) (sq_items (tx_fifo s))\<rparr>"
  show ?thesis
  proof (cases "\<not> can_tx s \<and> can_tx s1")
    case True
    then have "sent_chars (events s') = sent_chars (events ?d)" "tx_fifo s' = tx_fifo ?d" "cr s' = cr ?d"
      using h(3) assms(3) by (auto simp: frame_simps)
    note c = tx_cong [OF this]
    show ?thesis unfolding c using h(2) s1(1) by (simp add: tx_parked_def tx_stream_def)
  next
    case False
    then have "sent_chars (events s') = sent_chars (events s1)" "tx_fifo s' = tx_fifo s1" "cr s' = cr s1"
      using h(3) assms(3) by (auto simp: frame_simps)
    note c = tx_cong [OF this]
    show ?thesis unfolding c using False s1 assms(2) by (auto simp: tx_parked_def tx_stream_def)
  qed
qed

lemma mmio_write_dr_tx:
  assumes "pl_wf s" "tx_parked s" "mmio_write_dr v s = Some (b, s')"
  shows "tx_parked s' \<and> tx_stream s' =
    tx_stream s @ (if uart_enabled s \<and> (can_tx s \<or> \<not> sq_is_full (tx_fifo s)) then [ucast v] else [])"
proof (cases "uart_enabled s")
  case False
  then show ?thesis using assms by (auto simp: mmio_write_dr_def pl_wf_def)
next
  case en: True
  have inv: "callback s" "sq_inv (tx_fifo s)" using assms(1) by (simp_all add: pl_wf_def)
  have rt: "(ucast (ucast (ucast v :: u8) :: u16) :: u8) = ucast v"
    by (rule word_eqI_bits) (auto simp: bit_simps)
  show ?thesis
  proof (cases "can_tx s")
    case True
    let ?e = "emit (Sent (ucast v)) s"
    have "sent_chars (events s') = sent_chars (events ?e)" "tx_fifo s' = tx_fifo ?e" "cr s' = cr ?e"
      using assms(3) en True inv by (auto simp: mmio_write_dr_def Let_def frame_simps)
    note c = tx_cong [OF this]
    show ?thesis unfolding c using True en assms(2)
      by (simp add: tx_parked_def tx_stream_def can_tx_def uart_enabled_def)
  next
    case False
    obtain b1 q where e: "enqueue (tx_fifo s) (ucast (ucast v :: u8)) = Some (b1, q)"
        "sq_items q = (if sq_is_full (tx_fifo s) then sq_items (tx_fifo s)
           else sq_items (tx_fifo s) @ [ucast (ucast v :: u8)])"
      using enqueue_some [OF inv(2), of "ucast (ucast v :: u8)"] by blast
    let ?e = "s\<lparr>tx_fifo := q\<rparr>"
    have "sent_chars (events s') = sent_chars (events ?e)" "tx_fifo s' = tx_fifo ?e" "cr s' = cr ?e"
      using assms(3) en False inv e(1) by (auto simp: mmio_write_dr_def Let_def frame_simps)
    note c = tx_cong [OF this]
    have "\<not> can_tx ?e" using False by (simp add: can_tx_def uart_enabled_def)
    then show ?thesis unfolding c using False en e(2) rt by (simp add: tx_parked_def tx_stream_def)
  qed
qed

lemma pl_step_tx:
  assumes "pl_wf s" "tx_parked s" "\<not> writes_lcr c" "pl_step c s = Some s'"
  shows "tx_parked s' \<and> tx_stream s' = tx_stream s @ pl_written c s"
proof (cases c)
  case (Guest_write off v)
  then obtain b where w: "pl011_write off v s = Some (b, s')"
    using assms(4) by (auto simp: pl011_access_def split: option.splits)
  show ?thesis
  proof (cases "pl_decode off = Some UARTDR \<or> pl_decode off = Some UARTCR")
    case True
    then show ?thesis using w Guest_write mmio_write_cr_tx [OF assms(1,2), of v b s']
        mmio_write_dr_tx [OF assms(1,2), of v b s']
      by (auto simp: pl011_write_def)
  next
    case False
    have "sent_chars (events s') = sent_chars (events s)" "tx_fifo s' = tx_fifo s" "cr s' = cr s"
      using w False Guest_write assms(3)
      by (cases "pl_decode off"; auto simp: pl011_write_def mmio_write_ifls_def mmio_write_icr_def Let_def
          frame_simps split: pl_reg.splits if_splits)+
    from tx_cong [OF this] show ?thesis using False Guest_write assms(2) by simp
  qed
next
  case (Guest_read off v)
  have "sent_chars (events s') = sent_chars (events s)" "tx_fifo s' = tx_fifo s" "cr s' = cr s"
    using assms(4) Guest_read
    by (cases "pl_decode off = Some UARTDR"; cases "pl_decode off";
        auto simp: pl011_access_def pl011_read_def mmio_read_dr_def Let_def frame_simps
          split: if_splits option.splits bind_splits pl_reg.splits)+
  from tx_cong [OF this] show ?thesis using Guest_read assms(2) by simp
next
  case (Outside ch)
  have "sent_chars (events s') = sent_chars (events s)" "tx_fifo s' = tx_fifo s" "cr s' = cr s"
    using assms(4) Outside
    by (auto simp: write_to_rx_queue_def Let_def frame_simps split: if_splits bind_splits)
  from tx_cong [OF this] show ?thesis using Outside assms(2) by simp
qed


text \<open>A device whose transmit interrupt is raised, for the examples.\<close>

definition demo_tx_raised :: pl011 where
  "demo_tx_raised = demo_pl011\<lparr>ris := TXRIS\<rparr>"

lemma demo_tx_raised_facts:
  "pl_wf demo_tx_raised" "can_tx demo_tx_raised" "tx_irq_cond demo_tx_raised" "ris demo_tx_raised AND TXRIS \<noteq> 0"
proof -
  show "pl_wf demo_tx_raised" using demo_pl011_wf by (simp add: pl_wf_def demo_tx_raised_def)
  show "can_tx demo_tx_raised" "tx_irq_cond demo_tx_raised"
    by (simp_all add: demo_tx_raised_def can_tx_def tx_irq_cond_def uart_enabled_def demo_pl011_def
        pl011_reset_def register_callback_def pl011_new_def Let_def emit_def cur_size_def sq_new_def
        sq_is_empty_def get_tx_irq_level_def)
  show "ris demo_tx_raised AND TXRIS \<noteq> 0" by (simp add: demo_tx_raised_def)
qed

theorem pl011_tx_clear_not_kept_witness:
  "\<exists>s'. mmio_write_dr 65 (snd (mmio_write_icr 0x20 demo_tx_raised)) = Some (True, s') \<and>
     ris (snd (mmio_write_icr 0x20 demo_tx_raised)) AND TXRIS = 0 \<and>
     tx_irq_disabled_by_icr s' \<and> \<not> compute_txris s' \<and> ris s' AND TXRIS \<noteq> 0"
  by (rule pl011_tx_clear_not_kept [OF demo_tx_raised_facts])

text \<open>
  The transmit path loses and reorders nothing that the device takes: over any run without a
  write to the line control register, the characters sent out, followed by those parked in the
  transmit queue while sending is off, are those that were there before followed by the ones the
  guest wrote and the device took, in order; and characters stay parked only while sending is off.
\<close>

theorem pl011_tx_in_order:
  assumes "pl_wf s" and "tx_parked s" and "\<forall>c\<in>set calls. \<not> writes_lcr c"
  shows "\<exists>written s'. pl_trace pl_written calls s = Some (written, s') \<and> tx_parked s' \<and>
     tx_stream s' = tx_stream s @ written"
  using assms
proof (induction calls arbitrary: s)
  case Nil
  then show ?case by simp
next
  case (Cons c cs)
  obtain s1 where s1: "pl_step c s = Some s1" "pl_wf s1" using pl_step_wf [OF Cons.prems(1)] by blast
  have st: "tx_parked s1" "tx_stream s1 = tx_stream s @ pl_written c s"
    using pl_step_tx [OF Cons.prems(1,2) _ s1(1)] Cons.prems(3) by simp_all
  obtain w s2 where "pl_trace pl_written cs s1 = Some (w, s2)" "tx_parked s2" "tx_stream s2 = tx_stream s1 @ w"
    using Cons.IH [OF s1(2) st(1)] Cons.prems(3) by auto
  then show ?case using s1(1) st(2) by simp
qed

lemma demo_tx_parked: "tx_parked demo_pl011"
  by (simp add: tx_parked_def sq_items_def demo_pl011_def pl011_reset_def register_callback_def pl011_new_def
      Let_def emit_def cur_size_def sq_new_def sq_is_empty_def)

theorem pl011_tx_in_order_witness:
  "\<exists>written s'. pl_trace pl_written [Guest_write 0x30 0x201, Guest_write 0 65, Guest_write 0x30 0x101] demo_pl011
       = Some (written, s') \<and> tx_parked s' \<and> tx_stream s' = tx_stream demo_pl011 @ written"
  by (rule pl011_tx_in_order [OF demo_pl011_wf demo_tx_parked]) (simp add: pl_decode_def)

text \<open>
  A reset clears the interrupt state and empties the receive queue, but it makes no call to
  the interrupt controller and leaves the transmit queue alone: the line stays at the level it had,
  while no interrupt is asserted any more. The FIFO enable bit is set exactly on an SBSA UART, although the
  receive queue has room for one character on every UART.
\<close>

theorem pl011_reset_state:
  "\<not> is_irq_asserted (pl011_reset s) \<and>
   line_level (events (pl011_reset s)) = line_level (events s) \<and>
   tx_fifo (pl011_reset s) = tx_fifo s \<and>
   sq_is_empty (rx_fifo (pl011_reset s)) \<and> current_capacity (rx_fifo (pl011_reset s)) = 1 \<and>
   line_ok (pl011_reset s) = (\<not> line_level (events s)) \<and>
   is_fifo_enabled (pl011_reset s) = sbsa_uart s \<and> uart_enabled (pl011_reset s) = sbsa_uart s"
proof -
  have two: "es @ [a, b] = (es @ [a]) @ [b]" for es :: "pl_event list" and a b by simp
  have "line_level (events (pl011_reset s)) = line_level (events s)"
    unfolding pl011_reset_def Let_def by (cases "lifecycle_callbacks s") (simp_all add: two emit_def del: append_assoc)
  moreover have "\<not> is_irq_asserted (pl011_reset s)"
    by (simp add: pl011_reset_def Let_def is_irq_asserted_def is_rx_irq_asserted_def is_tx_irq_asserted_def)
  moreover have "is_fifo_enabled (pl011_reset s) = sbsa_uart s" "uart_enabled (pl011_reset s) = sbsa_uart s"
    by (cases "sbsa_uart s"; simp add: pl011_reset_def Let_def is_fifo_enabled_def uart_enabled_def emit_def)+
  ultimately show ?thesis
    by (auto simp: line_ok_def) (auto simp: pl011_reset_def Let_def sq_is_empty_def sq_reset_def)
qed


lemma signal_of_cr:
  assumes "pl_wf s" "\<not> can_rx s" "mmio_write_cr v s = Some (b, s')" "can_rx s'"
  shows "\<exists>es. events s' = events s @ Space_signal # es"
proof -
  obtain s1 q where h: "s1 = (if \<not> can_rx s \<and> can_rx (s\<lparr>cr := ucast v\<rparr>)
        then emit Space_signal (s\<lparr>cr := ucast v\<rparr>) else s\<lparr>cr := ucast v\<rparr>)"
      "mmio_write_cr v s = Some (True, updated_irq_lvl_to_gicd_if_needed (is_irq_asserted s)
      (if \<not> can_tx s \<and> can_tx s1
       then (if \<not> tx_irq_cond s then set_txris True else id)
         (s1\<lparr>tx_fifo := q, events := events s1 @ map (\<lambda>v. Sent (ucast v)) (sq_items (tx_fifo s))\<rparr>)
       else s1))"
    using mmio_write_cr_eq [OF assms(1)] by metis
  have "cr s' = ucast v" using mmio_write_cr_wf [OF assms(1), of v] assms(3) by auto
  then have "can_rx (s\<lparr>cr := ucast v\<rparr>)" using assms(4) by (simp add: can_rx_def uart_enabled_def)
  then have "events s1 = events s @ [Space_signal]" using h(1) assms(2) by simp
  then show ?thesis using h(2) assms(3)
    by (auto simp: updated_irq_lvl_to_gicd_if_needed_def set_lvl_to_gicd_def Let_def frame_simps)
qed

lemma updated_events:
  "\<exists>es. events (updated_irq_lvl_to_gicd_if_needed b s) = events s @ es \<and> Space_signal \<notin> set es"
  by (auto simp: updated_irq_lvl_to_gicd_if_needed_def set_lvl_to_gicd_def Let_def)

lemma wait_cong:
  "rx_fifo t = rx_fifo s \<Longrightarrow> cr t = cr s \<Longrightarrow> wait_to_receive t = wait_to_receive s"
  by (simp add: wait_to_receive_def can_rx_def uart_enabled_def)

text \<open>
  C7: the sender that waits for room is woken by every call that makes room, with one exception: a
  call after which a character can be received, when none could before, has given the signal unless
  it is a write to the line control register, which empties the receive queue without a signal.
\<close>

theorem pl011_wakeup:
  assumes "pl_wf s" and "wait_to_receive s" and "pl_step c s = Some s'" and "\<not> wait_to_receive s'"
  shows "(\<exists>es. events s' = events s @ es \<and> Space_signal \<in> set es) \<longleftrightarrow> \<not> writes_lcr c"
proof (cases c)
  case (Guest_write off v)
  then obtain b where w: "pl011_write off v s = Some (b, s')"
    using assms(3) by (auto simp: pl011_access_def split: option.splits)
  consider "pl_decode off = Some UARTCR" | "pl_decode off = Some UARTLCR_H"
    | "pl_decode off = Some UARTDR"
    | "pl_decode off \<notin> {Some UARTCR, Some UARTLCR_H, Some UARTDR}" by blast
  then show ?thesis
  proof cases
    case 1
    then have m: "mmio_write_cr v s = Some (b, s')" using w by (simp add: pl011_write_def)
    have rx: "rx_fifo s' = rx_fifo s" using mmio_write_cr_wf [OF assms(1), of v] m by auto
    then have "\<not> can_rx s" "can_rx s'" using assms(2,4) by (auto simp: wait_to_receive_def)
    then show ?thesis using signal_of_cr [OF assms(1) _ m] 1 Guest_write by auto
  next
    case 2
    then show ?thesis using w Guest_write by (auto simp: pl011_write_def Let_def split: if_splits)
  next
    case 3
    then have "wait_to_receive s' = wait_to_receive s"
      using w mmio_write_dr_wf [OF assms(1), of v] by (intro wait_cong) (auto simp: pl011_write_def)
    then show ?thesis using assms(2,4) by simp
  next
    case 4
    have "rx_fifo s' = rx_fifo s" "cr s' = cr s"
      using w 4 by (cases "pl_decode off"; auto simp: pl011_write_def mmio_write_ifls_def mmio_write_icr_def Let_def
          frame_simps split: pl_reg.splits if_splits)+
    from wait_cong [OF this] show ?thesis using assms(2,4) by simp
  qed
next
  case (Guest_read off v)
  show ?thesis
  proof (cases "pl_decode off = Some UARTDR")
    case True
    then obtain b v' where m: "mmio_read_dr s = Some (b, v', s')"
      using assms(3) Guest_read by (auto simp: pl011_access_def pl011_read_def split: option.splits)
    obtain q where "cr s' = cr s"
      using m mmio_read_dr_wf [OF assms(1)] by auto
    then have rx: "can_rx s" "sq_is_full (rx_fifo s)"
      using assms(2,4) by (auto simp: wait_to_receive_def can_rx_def uart_enabled_def)
    have ne: "\<not> (sq_is_empty (rx_fifo s) \<or> \<not> can_rx s)"
    proof
      assume "sq_is_empty (rx_fifo s) \<or> \<not> can_rx s"
      then have "s' = s" using m by (simp only: mmio_read_dr_def if_True) simp
      then show False using assms(2,4) by simp
    qed
    show ?thesis using m ne rx Guest_read True
      by (auto simp: mmio_read_dr_def Let_def frame_simps split: bind_splits if_splits)
  next
    case False
    then have "s' = s" using assms(3) Guest_read pl011_read_cases [OF False, of v s]
      by (auto simp: pl011_access_def)
    then show ?thesis using assms(2,4) by simp
  qed
next
  case (Outside ch)
  then have "s' = s" using assms(2,3) by (simp add: write_to_rx_queue_def)
  then show ?thesis using assms(2,4) by simp
qed

text \<open>A full receive queue of one character.\<close>

lemma demo_both_irqs_waits: "wait_to_receive demo_both_irqs"
  by (simp add: wait_to_receive_def demo_both_irqs_def sq_is_full_def)

theorem pl011_wakeup_witness:
  "\<exists>s'. pl_step (Guest_write 0x2c 0x70) demo_both_irqs = Some s' \<and> \<not> wait_to_receive s' \<and>
     \<not> (\<exists>es. events s' = events demo_both_irqs @ es \<and> Space_signal \<in> set es)"
proof -
  let ?s = "demo_both_irqs\<lparr>lcrh := 0x70, rx_fifo := reset_maximize_capacity (rx_fifo demo_both_irqs),
     tx_fifo := reset_maximize_capacity (tx_fifo demo_both_irqs)\<rparr>"
  have 1: "pl_step (Guest_write 0x2c 0x70) demo_both_irqs = Some ?s"
    by (simp add: pl011_access_def pl011_write_def pl_decode_def is_fifo_enabled_def)
  have 2: "\<not> wait_to_receive ?s"
    by (simp add: wait_to_receive_def demo_both_irqs_def sq_is_full_def reset_maximize_capacity_def sq_reset_def
        FIFO_MAX_SIZE_def can_rx_def uart_enabled_def demo_pl011_def pl011_reset_def register_callback_def
        pl011_new_def Let_def emit_def)
  have "writes_lcr (Guest_write 0x2c 0x70)" by (simp add: pl_decode_def)
  then show ?thesis using 1 2
      pl011_wakeup [OF demo_both_irqs_facts(1) demo_both_irqs_waits 1 2] by blast
qed

end
