(* ===== verification/CpuAffinity.thy ===== *)
theory CpuAffinity
  imports RangeMap
begin

text \<open>
  \<open>vcpu/cpu_model\<close>: CPU affinities (the packed form of the \<open>MPIDR\<close> register) and the map from a
  cluster of sixteen CPUs to the identifiers of its vCPUs. The clusters are the nodes of a range
  map, keyed by the affinity with the lowest byte cleared. \<open>INVALID_VCPU_ID\<close> is \<open>- 1\<close>.
\<close>

type_synonym affinity = u32
type_synonym cluster = "u64 list"
type_synonym clusters = "cluster range_map"

abbreviation INVALID_VCPU_ID :: u64 where "INVALID_VCPU_ID \<equiv> - 1"

abbreviation MAX_VCPU_PER_CLUSTER :: nat where "MAX_VCPU_PER_CLUSTER \<equiv> 16"

subsection \<open>Affinities\<close>

definition aff_of_mpidr :: "u64 \<Rightarrow> affinity" where
  "aff_of_mpidr m = ucast (drop_bit 8 m AND 0xff000000) OR ucast (m AND 0xffffff)"

definition aff_from_vcpu_id :: "u64 \<Rightarrow> affinity" where
  "aff_from_vcpu_id v = ucast (push_bit 8 (v div 16) OR (v mod 16))"

definition mpidr :: "affinity \<Rightarrow> u64" where
  "mpidr a = (push_bit 8 (ucast a) AND 0xff00000000) OR (ucast a AND 0xffffff)"

definition aff0 :: "affinity \<Rightarrow> u8" where "aff0 a = ucast a"
definition aff1 :: "affinity \<Rightarrow> u8" where "aff1 a = ucast (drop_bit 8 a)"
definition aff2 :: "affinity \<Rightarrow> u8" where "aff2 a = ucast (drop_bit 16 a)"
definition aff3 :: "affinity \<Rightarrow> u8" where "aff3 a = ucast (drop_bit 24 a)"

definition aff_cluster :: "affinity \<Rightarrow> u32" where
  "aff_cluster a = a AND NOT 0xff"

subsection \<open>Clusters\<close>

definition cluster_new :: cluster where
  "cluster_new = replicate MAX_VCPU_PER_CLUSTER INVALID_VCPU_ID"

definition cluster_vcpu_id :: "cluster \<Rightarrow> u8 \<Rightarrow> u64" where
  "cluster_vcpu_id c i = (if MAX_VCPU_PER_CLUSTER \<le> unat i then INVALID_VCPU_ID else c ! unat i)"

definition cluster_add_vcpu_id :: "cluster \<Rightarrow> u8 \<Rightarrow> u64 \<Rightarrow> bool \<times> cluster" where
  "cluster_add_vcpu_id c i v = (if MAX_VCPU_PER_CLUSTER \<le> unat i then (False, c) else (True, c[unat i := v]))"

definition cluster_range :: "affinity \<Rightarrow> range" where
  "cluster_range a = \<lparr>r_begin = ucast (aff_cluster a), r_size = of_nat MAX_VCPU_PER_CLUSTER\<rparr>"

definition get_cluster_at :: "clusters \<Rightarrow> affinity \<Rightarrow> cluster node option" where
  "get_cluster_at m a = rm_lookup m (cluster_range a)"

definition cpu_affinity_to_id :: "clusters \<Rightarrow> affinity \<Rightarrow> u64" where
  "cpu_affinity_to_id m a =
     (case get_cluster_at m a of None \<Rightarrow> INVALID_VCPU_ID | Some n \<Rightarrow> cluster_vcpu_id (snd n) (aff0 a))"

definition cpu_affinity_to_cluster :: "clusters \<Rightarrow> affinity \<Rightarrow> cluster option" where
  "cpu_affinity_to_cluster m a = map_option snd (get_cluster_at m a)"

text \<open>A change of a cluster that is in the map, through the pointer that the lookup returns.\<close>

definition cluster_write :: "clusters \<Rightarrow> cluster node \<Rightarrow> cluster \<Rightarrow> clusters" where
  "cluster_write m n c = map (\<lambda>n'. if n' = n then (fst n, c) else n') m"

definition add_cpu_with_affinity :: "bool \<Rightarrow> clusters \<Rightarrow> u64 \<Rightarrow> affinity \<Rightarrow> bool \<times> clusters" where
  "add_cpu_with_affinity alloc m v a =
     (case get_cluster_at m a of
        Some n \<Rightarrow> (case cluster_add_vcpu_id (snd n) (aff0 a) v of (ok, c) \<Rightarrow> (ok, cluster_write m n c))
      | None \<Rightarrow>
          if \<not> alloc then (False, m)
          else case cluster_add_vcpu_id cluster_new (aff0 a) v of
                 (False, c) \<Rightarrow> (False, m)
               | (True, c) \<Rightarrow> (case rm_insert m (cluster_range a, c) of (m', ok) \<Rightarrow> (ok, m')))"

subsection \<open>Lemmas\<close>

lemma aff_of_mpidr_mpidr: "aff_of_mpidr (mpidr a) = a"
  by (rule word_eqI_bits) (auto simp: aff_of_mpidr_def mpidr_def bit_simps mask_bits)

lemma unat_aff_cluster: "unat (aff_cluster a) = unat a div 256 * 256"
proof -
  have "aff_cluster a = push_bit 8 (drop_bit 8 a)"
    by (rule word_eqI_bits) (auto simp: aff_cluster_def bit_simps mask_bits)
  moreover have "unat (push_bit 8 (drop_bit 8 a)) = (unat a div 256 * 256) mod 2 ^ 32"
    by (simp add: push_bit_eq_mult drop_bit_eq_div unat_word_ariths mod_simps)
  moreover have "unat a div 256 * 256 < 2 ^ 32" using unsigned_less [of a, where 'a = nat] by simp
  ultimately show ?thesis by simp
qed

lemma cluster_begin_lt: "unat a div 256 * 256 + 16 < 2 ^ 64" for a :: u32
  using unsigned_less [of a, where 'a = nat] by simp

lemma cluster_range_ok: "range_ok (cluster_range a)"
  using cluster_begin_lt [of a] by (simp add: range_ok_def cluster_range_def unat_aff_cluster)

lemma aff_cluster_eq_iff: "aff_cluster a = aff_cluster b \<longleftrightarrow> unat a div 256 = unat b div 256"
  using unat_aff_cluster [of a] unat_aff_cluster [of b] by (auto simp: word_unat_eq_iff)

lemma cluster_range_intersect: "range_intersect (cluster_range a) (cluster_range b) \<longleftrightarrow> aff_cluster a = aff_cluster b"
  unfolding range_intersect_iff [OF cluster_range_ok cluster_range_ok] aff_cluster_eq_iff
  by (auto simp: cluster_range_def unat_aff_cluster)


subsection \<open>The invariant of the cluster map\<close>

text \<open>Every node is the range of a cluster and holds sixteen identifiers.\<close>

definition clusters_inv :: "clusters \<Rightarrow> bool" where
  "clusters_inv m \<longleftrightarrow> rm_invar m \<and> (\<forall>n\<in>set m. (\<exists>a. fst n = cluster_range a) \<and> length (snd n) = MAX_VCPU_PER_CLUSTER)"

lemma get_cluster_Some:
  assumes "clusters_inv m" and "get_cluster_at m a = Some n"
  shows "n \<in> set m" "fst n = cluster_range a" "length (snd n) = MAX_VCPU_PER_CLUSTER"
proof -
  have n: "n \<in> set m" "range_intersect (fst n) (cluster_range a)"
    using rm.find_Some [OF _ cluster_range_ok, of m a n] assms by (simp_all add: clusters_inv_def get_cluster_at_def)
  then obtain b where "fst n = cluster_range b" "length (snd n) = MAX_VCPU_PER_CLUSTER"
    using assms(1) by (auto simp: clusters_inv_def)
  then show "n \<in> set m" "fst n = cluster_range a" "length (snd n) = MAX_VCPU_PER_CLUSTER"
    using n by (auto simp: cluster_range_intersect) (simp add: cluster_range_def)
qed

lemma get_cluster_iff:
  assumes "clusters_inv m"
  shows "get_cluster_at m a = Some n \<longleftrightarrow> n \<in> set m \<and> fst n = cluster_range a"
proof
  show "get_cluster_at m a = Some n \<Longrightarrow> n \<in> set m \<and> fst n = cluster_range a"
    using get_cluster_Some [OF assms] by blast
next
  assume n: "n \<in> set m \<and> fst n = cluster_range a"
  have "range_contains (cluster_range a) (cluster_range a)"
    using range_contains_addrs [OF cluster_range_ok cluster_range_ok] by simp
  then show "get_cluster_at m a = Some n"
    unfolding get_cluster_at_def
    using n assms rm.find_contained [OF _ _ cluster_range_ok, of m n a] by (simp add: clusters_inv_def)
qed

lemma cluster_range_eq: "cluster_range a = cluster_range b \<longleftrightarrow> aff_cluster a = aff_cluster b"
proof
  assume "cluster_range a = cluster_range b"
  then have "unat (r_begin (cluster_range a)) = unat (r_begin (cluster_range b))" by simp
  then show "aff_cluster a = aff_cluster b" by (simp add: cluster_range_def word_unat_eq_iff)
qed (simp add: cluster_range_def)

text \<open>A change of the data of a node keeps the order of the map.\<close>

lemma cluster_write_nodes:
  assumes "clusters_inv m" "n \<in> set m"
  shows "set (cluster_write m n c) = insert (fst n, c) (set m - {n})"
  using assms(2) by (auto simp: cluster_write_def split: if_splits)

lemma cluster_write_inv:
  assumes "clusters_inv m" "n \<in> set m" "length c = MAX_VCPU_PER_CLUSTER"
  shows "clusters_inv (cluster_write m n c)"
proof -
  have f: "map fst (cluster_write m n c) = map fst m" by (induction m) (auto simp: cluster_write_def)
  have inv: "rm_invar k = ((\<forall>r\<in>set (map fst k). range_ok r) \<and> sorted_wrt range_compare (map fst k))" for k :: clusters
    by (simp add: rm_invar_def sorted_wrt_map)
  have "rm_invar (cluster_write m n c)"
    unfolding inv f using assms(1) by (simp add: clusters_inv_def inv)
  moreover have "(\<exists>a. fst k = cluster_range a) \<and> length (snd k) = MAX_VCPU_PER_CLUSTER"
    if "k \<in> set (cluster_write m n c)" for k
    using that assms unfolding cluster_write_nodes [OF assms(1,2)] by (auto simp: clusters_inv_def)
  ultimately show ?thesis by (simp add: clusters_inv_def)
qed

text \<open>What a client sees of the map: the vCPU at an affinity.\<close>

definition aff_pos :: "affinity \<Rightarrow> nat" where
  "aff_pos a = unat (aff0 a)"

lemma cpu_affinity_to_id_eq:
  "cpu_affinity_to_id m a =
     (if MAX_VCPU_PER_CLUSTER \<le> aff_pos a then INVALID_VCPU_ID
      else case get_cluster_at m a of None \<Rightarrow> INVALID_VCPU_ID | Some n \<Rightarrow> snd n ! aff_pos a)"
  by (auto simp: cpu_affinity_to_id_def cluster_vcpu_id_def aff_pos_def split: option.splits)

lemma unat_aff0: "unat (aff0 a) = unat a mod 256"
proof -
  have "unat (ucast a :: u8) = take_bit 8 (unat a)" by (simp add: unsigned_ucast_eq)
  then show ?thesis by (simp add: aff0_def take_bit_eq_mod)
qed

lemma aff_eq_iff: "a = b \<longleftrightarrow> aff_cluster a = aff_cluster b \<and> aff_pos a = aff_pos b"
proof -
  have "unat a = unat b \<longleftrightarrow> unat a div 256 = unat b div 256 \<and> unat a mod 256 = unat b mod 256"
    by (metis div_mult_mod_eq)
  then show ?thesis unfolding aff_cluster_eq_iff aff_pos_def unat_aff0 by (simp add: word_unat_eq_iff)
qed

lemma lookup_replaced:
  assumes "clusters_inv m" "clusters_inv m'" "set m' = insert (cluster_range a, c) {n \<in> set m. fst n \<noteq> cluster_range a}"
  shows "get_cluster_at m' b =
     (if aff_cluster b = aff_cluster a then Some (cluster_range a, c) else get_cluster_at m b)"
proof (cases "aff_cluster b = aff_cluster a")
  case True
  then show ?thesis using get_cluster_iff [OF assms(2), of b "(cluster_range a, c)"] assms(3)
    by (simp add: cluster_range_eq)
next
  case False
  then have "\<And>k. get_cluster_at m' b = Some k \<longleftrightarrow> get_cluster_at m b = Some k"
    unfolding get_cluster_iff [OF assms(2)] get_cluster_iff [OF assms(1)] assms(3)
    by (auto simp: cluster_range_eq)
  then have "get_cluster_at m' b = get_cluster_at m b"
    by (metis option.exhaust)
  then show ?thesis using False by simp
qed

lemma get_cluster_cong: "aff_cluster b = aff_cluster a \<Longrightarrow> get_cluster_at m b = get_cluster_at m a"
  by (simp add: get_cluster_at_def cluster_range_def)

lemma id_replaced:
  assumes "clusters_inv m" "clusters_inv m'"
    and "set m' = insert (cluster_range a, c[aff_pos a := v]) {n \<in> set m. fst n \<noteq> cluster_range a}"
    and "c = (case get_cluster_at m a of None \<Rightarrow> cluster_new | Some n \<Rightarrow> snd n)" and "aff_pos a < MAX_VCPU_PER_CLUSTER"
  shows "cpu_affinity_to_id m' b = (if b = a then v else cpu_affinity_to_id m b)"
proof -
  have "length c = MAX_VCPU_PER_CLUSTER"
    using assms(4) get_cluster_Some(3) [OF assms(1)] by (auto simp: cluster_new_def split: option.splits)
  note len = this
  show ?thesis
  proof (cases "aff_cluster b = aff_cluster a")
    case False
    then have "b \<noteq> a" by auto
    then show ?thesis using False
      by (simp add: cpu_affinity_to_id_eq lookup_replaced [OF assms(1-3)])
  next
    case True
    have "c ! aff_pos b = (case get_cluster_at m b of None \<Rightarrow> INVALID_VCPU_ID | Some n \<Rightarrow> snd n ! aff_pos b)"
      if "aff_pos b < MAX_VCPU_PER_CLUSTER"
      using assms(4) that get_cluster_cong [OF True, of m] by (simp add: cluster_new_def split: option.splits)
    moreover have "b = a \<longleftrightarrow> aff_pos b = aff_pos a" using True by (simp add: aff_eq_iff [of b a])
    ultimately show ?thesis using True len assms(5)
      by (simp add: cpu_affinity_to_id_eq lookup_replaced [OF assms(1-3)])
  qed
qed

definition add_spec :: "bool \<Rightarrow> clusters \<Rightarrow> u64 \<Rightarrow> affinity \<Rightarrow> affinity \<Rightarrow> bool \<Rightarrow> clusters \<Rightarrow> bool" where
  "add_spec alloc m v a b ok m' \<longleftrightarrow> clusters_inv m' \<and>
     (ok \<longleftrightarrow> aff_pos a < MAX_VCPU_PER_CLUSTER \<and> (alloc \<or> get_cluster_at m a \<noteq> None)) \<and>
     cpu_affinity_to_id m' b = (if ok \<and> b = a then v else cpu_affinity_to_id m b)"

lemma add_cpu_new:
  assumes inv: "clusters_inv m" and add: "add_cpu_with_affinity alloc m v a = (ok, m')"
    and None: "get_cluster_at m a = None"
  shows "add_spec alloc m v a b ok m'"
proof (cases "alloc \<and> aff_pos a < MAX_VCPU_PER_CLUSTER")
  case False
  then show ?thesis using inv add None
    by (auto simp: add_spec_def add_cpu_with_affinity_def cluster_add_vcpu_id_def aff_pos_def split: if_splits)
next
  case True
  let ?n = "(cluster_range a, cluster_new[aff_pos a := v])"
  have rmi: "rm_invar m" using inv by (simp add: clusters_inv_def)
  have free: "\<forall>n'\<in>set m. \<not> range_intersect (fst n') (fst ?n)"
    using rm.find_None [OF rmi cluster_range_ok, of a] None by (auto simp: get_cluster_at_def)
  have ok: "snd (rm_insert m ?n)" using rm.ins_iff [OF rmi, of ?n] free cluster_range_ok by simp
  have m': "m' = fst (rm_insert m ?n)" "ok = True"
    using add None True ok
    by (auto simp: add_cpu_with_affinity_def cluster_add_vcpu_id_def aff_pos_def split: prod.splits)
  have nodes: "set m' = insert ?n (set m)"
    using rm.ins_nodes [OF rmi, of ?n] cluster_range_ok ok m'(1) by simp
  have inv': "clusters_inv m'"
    using rm.ins_invar [OF rmi, of ?n] cluster_range_ok m'(1) inv nodes
    by (auto simp: clusters_inv_def cluster_new_def)
  have "{n \<in> set m. fst n \<noteq> cluster_range a} = set m"
    using free cluster_range_intersect [of a a] by auto
  then show ?thesis
    using inv' m'(2) True None id_replaced [OF inv inv', of a cluster_new v b] nodes
    by (simp add: add_spec_def)
qed

lemma add_cpu_old:
  assumes inv: "clusters_inv m" and add: "add_cpu_with_affinity alloc m v a = (ok, m')"
    and Some: "get_cluster_at m a = Some n"
  shows "add_spec alloc m v a b ok m'"
proof (cases "aff_pos a < MAX_VCPU_PER_CLUSTER")
  case False
  then have "cluster_write m n (snd n) = m" "ok = False" "m' = cluster_write m n (snd n)"
    using add Some by (auto simp: add_cpu_with_affinity_def cluster_add_vcpu_id_def aff_pos_def cluster_write_def
        intro: map_idI)
  then show ?thesis using inv False by (simp add: add_spec_def)
next
  case True
  note n = get_cluster_Some [OF inv Some]
  let ?c = "(snd n)[aff_pos a := v]"
  have m': "m' = cluster_write m n ?c" "ok = True"
    using add Some True by (auto simp: add_cpu_with_affinity_def cluster_add_vcpu_id_def aff_pos_def)
  have inv': "clusters_inv m'" using cluster_write_inv [OF inv n(1), of ?c] n(3) m'(1) by simp
  have "{k \<in> set m. fst k \<noteq> cluster_range a} = set m - {n}"
  proof -
    have "k = n \<longleftrightarrow> fst k = cluster_range a" if "k \<in> set m" for k
      using that n(2) get_cluster_iff [OF inv, of a k] Some by (metis option.inject)
    then show ?thesis using n(1) by blast
  qed
  then have "set m' = insert (cluster_range a, ?c) {k \<in> set m. fst k \<noteq> cluster_range a}"
    using cluster_write_nodes [OF inv n(1), of ?c] n(2) m'(1) by simp
  then have "cpu_affinity_to_id m' b = (if b = a then v else cpu_affinity_to_id m b)"
    by (rule id_replaced [OF inv inv' _ _ True]) (simp add: Some)
  then show ?thesis using inv' m'(2) True by (simp add: add_spec_def Some)
qed

lemma add_cpu_spec_all:
  assumes "clusters_inv m" and "add_cpu_with_affinity alloc m v a = (ok, m')"
  shows "add_spec alloc m v a b ok m'"
  using add_cpu_new [OF assms] add_cpu_old [OF assms] by (cases "get_cluster_at m a") blast+

lemma add_cpu_spec:
  assumes "clusters_inv m" and "add_cpu_with_affinity alloc m v a = (ok, m')"
  shows "clusters_inv m'"
    and "ok \<longleftrightarrow> aff_pos a < MAX_VCPU_PER_CLUSTER \<and> (alloc \<or> get_cluster_at m a \<noteq> None)"
    and "cpu_affinity_to_id m' b = (if ok \<and> b = a then v else cpu_affinity_to_id m b)"
  using add_cpu_spec_all [OF assms, of b] by (simp_all add: add_spec_def)

subsection \<open>Properties\<close>

text \<open>
  C8: the cluster map acts as a partial function from affinities to vCPUs: adding a vCPU succeeds
  exactly when its place in the cluster is below sixteen and memory for a new cluster is there if it
  is needed; after it the lookup of that affinity gives the vCPU and every other lookup is as before.
\<close>

theorem affinity_map_update:
  assumes "clusters_inv m" and "add_cpu_with_affinity alloc m v a = (ok, m')"
  shows "clusters_inv m' \<and>
     (ok \<longleftrightarrow> unat (aff0 a) < 16 \<and> (alloc \<or> cpu_affinity_to_cluster m a \<noteq> None)) \<and>
     cpu_affinity_to_id m' b = (if ok \<and> b = a then v else cpu_affinity_to_id m b)"
  using add_cpu_spec(1,2) [OF assms] add_cpu_spec(3) [OF assms, of b] by (simp add: cpu_affinity_to_cluster_def aff_pos_def)

theorem affinity_map_update_witness:
  "clusters_inv [] \<and> cpu_affinity_to_id (snd (add_cpu_with_affinity True [] 7 0x103)) 0x103 = 7 \<and>
     fst (add_cpu_with_affinity True [] 7 0x103)"
proof -
  have 1: "clusters_inv []" by (simp add: clusters_inv_def rm_invar_def)
  obtain ok m' where e: "add_cpu_with_affinity True [] 7 0x103 = (ok, m')" by fastforce
  then show ?thesis using affinity_map_update [OF 1 e, of "0x103"] 1 by (simp add: aff0_def)
qed

lemma from_vcpu_id_value:
  assumes "unat v < 2 ^ 28"
  shows "unat (aff_from_vcpu_id v) = unat v div 16 * 256 + unat v mod 16"
proof -
  have "push_bit 8 (v div 16) OR v mod 16 = push_bit 8 (v div 16) + v mod 16"
  proof (rule disjunctive_add [symmetric])
    fix n
    have "v mod 16 = take_bit 4 v" by (simp add: take_bit_eq_mod)
    then show "\<not> bit (push_bit 8 (v div 16)) n \<or> \<not> bit (v mod 16) n" by (auto simp: bit_simps)
  qed
  moreover have "unat (push_bit 8 (v div 16) + v mod 16) = unat v div 16 * 256 + unat v mod 16"
    using assms by (simp add: push_bit_eq_mult unat_word_ariths unat_div unat_mod)
  ultimately have "unat (push_bit 8 (v div 16) OR v mod 16) = unat v div 16 * 256 + unat v mod 16" by simp
  moreover have "unat v div 16 * 256 + unat v mod 16 < 2 ^ 32" using assms by simp
  ultimately show ?thesis by (simp add: aff_from_vcpu_id_def unsigned_ucast_eq take_bit_eq_mod)
qed

lemma from_vcpu_id_place:
  assumes "unat v < 2 ^ 28"
  shows "aff_pos (aff_from_vcpu_id v) = unat v mod 16"
  using from_vcpu_id_value [OF assms] by (simp add: aff_pos_def unat_aff0)

lemma split_16_256:
  assumes "x div 16 * 256 + x mod 16 = y div 16 * 256 + y mod (16 :: nat)"
  shows "x = y"
proof -
  have d: "(a * 256 + b) div 256 = a" "(a * 256 + b) mod 256 = b" if "b < 16" for a b :: nat
    using that by simp_all
  have "x div 16 = y div 16"
    using d(1) [of "x mod 16" "x div 16"] d(1) [of "y mod 16" "y div 16"] assms by simp
  moreover have "x mod 16 = y mod 16"
    using d(2) [of "x mod 16" "x div 16"] d(2) [of "y mod 16" "y div 16"] assms by simp
  ultimately show ?thesis by (metis div_mult_mod_eq)
qed

lemma from_vcpu_id_inj:
  assumes "unat v < 2 ^ 28" "unat w < 2 ^ 28" "aff_from_vcpu_id v = aff_from_vcpu_id w"
  shows "v = w"
  using split_16_256 [of "unat v" "unat w"] from_vcpu_id_value [OF assms(1)]
    from_vcpu_id_value [OF assms(2)] assms(3) by (simp add: word_unat_eq_iff)

text \<open>The set-up of a machine: vCPU \<open>i\<close> gets the affinity of its number.\<close>

definition add_vcpus :: "nat \<Rightarrow> clusters" where
  "add_vcpus n = fold (\<lambda>i m. snd (add_cpu_with_affinity True m (of_nat i) (aff_from_vcpu_id (of_nat i)))) [0..<n] []"

text \<open>
  With the standard numbering every vCPU is found at its own affinity, also when the affinity
  comes back through the 64-bit register: the encodings are injective and inverse to each other.
\<close>

theorem affinity_standard_numbering:
  assumes "n \<le> 2 ^ 28" and "i < n"
  shows "cpu_affinity_to_id (add_vcpus n) (aff_of_mpidr (mpidr (aff_from_vcpu_id (of_nat i)))) = of_nat i"
proof -
  have "clusters_inv (add_vcpus n) \<and> (\<forall>i<n. cpu_affinity_to_id (add_vcpus n) (aff_from_vcpu_id (of_nat i)) = of_nat i)"
    using assms(1)
  proof (induction n)
    case 0
    then show ?case by (simp add: add_vcpus_def clusters_inv_def rm_invar_def)
  next
    case (Suc n)
    let ?a = "\<lambda>i. aff_from_vcpu_id (of_nat i)"
    have u: "unat (of_nat i :: u64) = i" if "i \<le> n" for i using that Suc.prems by (simp add: unat_of_nat)
    obtain ok m' where e: "add_cpu_with_affinity True (add_vcpus n) (of_nat n) (?a n) = (ok, m')" by fastforce
    have "clusters_inv (add_vcpus n)" using Suc by simp
    note sp = add_cpu_spec [OF this e]
    have "ok" using sp(2) from_vcpu_id_place [of "of_nat n"] u [of n] Suc.prems by simp
    moreover have "add_vcpus (Suc n) = m'" using e by (simp add: add_vcpus_def)
    moreover have ne: "?a i \<noteq> ?a n" if "i < n" for i
    proof
      assume "?a i = ?a n"
      then have "(of_nat i :: u64) = of_nat n"
        using u [of i] u [of n] that Suc.prems by (intro from_vcpu_id_inj) simp_all
      then have "unat (of_nat i :: u64) = unat (of_nat n :: u64)" by simp
      then show False using u [of i] u [of n] that by simp
    qed
    moreover have "cpu_affinity_to_id m' (?a i) = of_nat i" if "i < Suc n" for i
      using sp(3) [of "?a i"] \<open>ok\<close> ne [of i] Suc that by (cases "i = n") simp_all
    ultimately show ?case using sp(1) by simp
  qed
  then show ?thesis using assms(2) by (simp add: aff_of_mpidr_mpidr)
qed

theorem affinity_standard_numbering_witness:
  "cpu_affinity_to_id (add_vcpus 20) (aff_of_mpidr (mpidr (aff_from_vcpu_id (of_nat 17)))) = of_nat 17"
  by (rule affinity_standard_numbering) simp_all

end
