(* ===== verification/GicIrq.thy ===== *)
theory GicIrq
  imports Prelude
begin

text \<open>
  The data of the interrupt controller (\<open>devices/gic/include/model/gic.hpp\<close>): the target of an
  interrupt, the packed injection information that the code updates with compare-and-swap, the
  interrupt object and the list register that hands an interrupt to a vCPU. \<open>None\<close> is a failed
  \<open>ASSERT\<close>. vCPU and interrupt numbers are natural numbers; the packed values are words.
\<close>

subsection \<open>Constants\<close>

abbreviation MAX_SGI :: nat where "MAX_SGI \<equiv> 16"
abbreviation PPI_BASE :: nat where "PPI_BASE \<equiv> 16"
abbreviation MAX_PPI :: nat where "MAX_PPI \<equiv> 16"
abbreviation SPI_BASE :: nat where "SPI_BASE \<equiv> 32"
abbreviation MAX_SPI :: nat where "MAX_SPI \<equiv> 992"
abbreviation MAX_IRQ_NO_LPI :: nat where "MAX_IRQ_NO_LPI \<equiv> 1020"
abbreviation LPI_BASE :: nat where "LPI_BASE \<equiv> 8192"
abbreviation MAX_IRQ :: nat where "MAX_IRQ \<equiv> 9216"
abbreviation GICV2_MAX_CPUS :: nat where "GICV2_MAX_CPUS \<equiv> 8"
abbreviation SPECIAL_INTID_NONE :: nat where "SPECIAL_INTID_NONE \<equiv> 1023"

datatype irq_ctlr_version = GIC_UNKNOWN | GIC_V2 | GIC_V3 | APIC | X2APIC

fun version_code :: "irq_ctlr_version \<Rightarrow> nat" where
  "version_code GIC_UNKNOWN = 0"
| "version_code GIC_V2 = 2"
| "version_code GIC_V3 = 3"
| "version_code APIC = 4"
| "version_code X2APIC = 5"

subsection \<open>The target of an interrupt\<close>

type_synonym irq_target = u32

abbreviation CPU_ID :: u32 where "CPU_ID \<equiv> 0"
abbreviation CPU_SET :: u32 where "CPU_SET \<equiv> 0x80000000"
abbreviation INVALID_TARGET :: irq_target where "INVALID_TARGET \<equiv> - 1"

definition irq_target :: "u32 \<Rightarrow> u64 \<Rightarrow> irq_target" where
  "irq_target f t = (f AND 0x80000000) OR (ucast t AND 0x7fffffff)"

definition tgt_is_valid :: "irq_target \<Rightarrow> bool" where
  "tgt_is_valid t \<longleftrightarrow> t \<noteq> INVALID_TARGET"

definition tgt_target :: "irq_target \<Rightarrow> u32" where
  "tgt_target t = t AND 0x7fffffff"

definition tgt_is_set :: "irq_target \<Rightarrow> bool" where
  "tgt_is_set t \<longleftrightarrow> t AND CPU_SET \<noteq> 0"

definition is_cpu_targeted :: "irq_target \<Rightarrow> nat \<Rightarrow> bool option" where
  "is_cpu_targeted t i =
     (if \<not> tgt_is_set t then Some (unat (tgt_target t) = i)
      else do {
        ASSERT (i < 8);
        Some (tgt_target t AND push_bit i 1 \<noteq> 0)
      })"

definition add_target_to_set :: "nat \<Rightarrow> irq_target \<Rightarrow> irq_target option" where
  "add_target_to_set i t = do {
     ASSERT (tgt_is_set t);
     ASSERT (i < 8);
     Some (t OR push_bit i 1)
   }"

subsection \<open>Injection information\<close>

text \<open>Bits 0-31: the target; bits 32-39: pending, by sender; bits 40-47: injected, by sender.\<close>

type_synonym injection_info = u64

abbreviation PENDING_SHIFT :: nat where "PENDING_SHIFT \<equiv> 32"
abbreviation INJECTED_SHIFT :: nat where "INJECTED_SHIFT \<equiv> 40"

definition inj_pending :: "injection_info \<Rightarrow> bool" where
  "inj_pending i \<longleftrightarrow> i AND push_bit PENDING_SHIFT 0xff \<noteq> 0"

definition inj_in_injection :: "injection_info \<Rightarrow> bool" where
  "inj_in_injection i \<longleftrightarrow> i AND push_bit INJECTED_SHIFT 0xff \<noteq> 0"

definition inj_target :: "injection_info \<Rightarrow> irq_target" where
  "inj_target i = ucast i"

definition is_targeting_cpu :: "injection_info \<Rightarrow> nat \<Rightarrow> bool option" where
  "is_targeting_cpu i c = is_cpu_targeted (inj_target i) c"

definition set_target_cpu :: "irq_target \<Rightarrow> injection_info \<Rightarrow> injection_info" where
  "set_target_cpu t i = (i AND 0xffffffff00000000) OR ucast t"

definition is_injected :: "nat \<Rightarrow> injection_info \<Rightarrow> bool option" where
  "is_injected sender i = do {
     ASSERT (sender \<noteq> 0xff);
     ASSERT (sender < GICV2_MAX_CPUS);
     Some (i AND push_bit (INJECTED_SHIFT + sender) 1 \<noteq> 0)
   }"

definition set_injected :: "nat \<Rightarrow> injection_info \<Rightarrow> injection_info option" where
  "set_injected sender i = do {
     ASSERT (sender < GICV2_MAX_CPUS);
     Some (i OR push_bit (INJECTED_SHIFT + sender) 1)
   }"

definition unset_injected :: "nat \<Rightarrow> injection_info \<Rightarrow> injection_info option" where
  "unset_injected sender i = do {
     ASSERT (sender < GICV2_MAX_CPUS);
     Some (i AND NOT (push_bit (INJECTED_SHIFT + sender) 1))
   }"

definition set_pending :: "nat \<Rightarrow> injection_info \<Rightarrow> injection_info option" where
  "set_pending sender i = do {
     ASSERT (sender < GICV2_MAX_CPUS);
     Some (i OR push_bit (PENDING_SHIFT + sender) 1)
   }"

definition unset_pending :: "nat \<Rightarrow> injection_info \<Rightarrow> injection_info option" where
  "unset_pending sender i = do {
     ASSERT (sender < GICV2_MAX_CPUS);
     Some (i AND NOT (push_bit (PENDING_SHIFT + sender) 1))
   }"

text \<open>\<open>ffs\<close> of an eight-bit field: the position of the lowest set bit, if there is one.\<close>

definition get_pending_sender_id :: "injection_info \<Rightarrow> nat option" where
  "get_pending_sender_id i = first_set_upto (\<lambda>s. bit (drop_bit PENDING_SHIFT i) s) 0 GICV2_MAX_CPUS"

text \<open>Here no set bit is the value \<open>NO_INJECTION\<close>, which is \<open>None\<close>.\<close>

definition get_injected_sender_id :: "injection_info \<Rightarrow> nat option" where
  "get_injected_sender_id i = first_set_upto (\<lambda>s. bit (drop_bit INJECTED_SHIFT i) s) 0 GICV2_MAX_CPUS"

subsection \<open>The interrupt object\<close>

record irq =
  i_id :: nat
  i_pintid :: u16
  i_prio :: u8
  i_target :: u8
  i_line_asserted :: bool
  i_sw_asserted :: bool
  i_hw_edge :: bool
  i_sw_edge :: bool
  i_enable :: bool
  i_group1 :: bool
  i_hw :: bool
  i_active :: bool
  i_info :: injection_info
  i_routing :: u64
  i_num_asserted :: u64
  i_num_acked :: u64

definition irq_new :: irq where
  "irq_new = \<lparr>i_id = 0, i_pintid = 0, i_prio = 0, i_target = 1, i_line_asserted = False, i_sw_asserted = False,
     i_hw_edge = True, i_sw_edge = True, i_enable = False, i_group1 = False, i_hw = False, i_active = False,
     i_info = 0, i_routing = 0, i_num_asserted = 0, i_num_acked = 0\<rparr>"

definition rt_aff0 :: "u64 \<Rightarrow> u64" where "rt_aff0 r = r AND 0xff"
definition rt_aff1 :: "u64 \<Rightarrow> u64" where "rt_aff1 r = drop_bit 8 r AND 0xff"
definition rt_aff2 :: "u64 \<Rightarrow> u64" where "rt_aff2 r = drop_bit 16 r AND 0xff"
definition rt_aff3 :: "u64 \<Rightarrow> u64" where "rt_aff3 r = drop_bit 32 r AND 0x1f"
definition rt_any :: "u64 \<Rightarrow> bool" where "rt_any r \<longleftrightarrow> drop_bit 31 r AND 1 \<noteq> 0"

definition irq_set_enable :: "bool \<Rightarrow> irq \<Rightarrow> irq" where
  "irq_set_enable mmio_one i = (if mmio_one then i\<lparr>i_enable := True\<rparr> else i)"

definition irq_disable :: "bool \<Rightarrow> irq \<Rightarrow> irq" where
  "irq_disable mmio_one i = (if mmio_one then i\<lparr>i_enable := False\<rparr> else i)"

definition irq_set_group1 :: "bool \<Rightarrow> irq \<Rightarrow> irq" where
  "irq_set_group1 b i = i\<lparr>i_group1 := b\<rparr>"

definition irq_set_prio :: "u8 \<Rightarrow> irq \<Rightarrow> irq" where
  "irq_set_prio p i = i\<lparr>i_prio := p\<rparr>"

definition irq_set_target :: "u8 \<Rightarrow> irq \<Rightarrow> irq" where
  "irq_set_target t i = i\<lparr>i_target := t\<rparr>"

definition irq_configure_hw :: "bool \<Rightarrow> u16 \<Rightarrow> bool \<Rightarrow> irq \<Rightarrow> irq" where
  "irq_configure_hw hw p edge i = i\<lparr>i_pintid := p, i_hw_edge := edge, i_sw_edge := edge, i_hw := hw\<rparr>"

definition irq_edge_encoded :: "irq \<Rightarrow> u8" where
  "irq_edge_encoded i = (if i_sw_edge i then 2 else 0)"

definition irq_set_encoded_edge :: "u8 \<Rightarrow> irq \<Rightarrow> irq" where
  "irq_set_encoded_edge e i = i\<lparr>i_sw_edge := (e AND 2 \<noteq> 0)\<rparr>"

definition irq_activate :: "bool \<Rightarrow> irq \<Rightarrow> irq" where
  "irq_activate mmio_one i = (if mmio_one then i\<lparr>i_active := True\<rparr> else i)"

definition irq_deactivate :: "bool \<Rightarrow> irq \<Rightarrow> irq" where
  "irq_deactivate mmio_one i = (if mmio_one then i\<lparr>i_active := False\<rparr> else i)"

definition irq_pending :: "irq \<Rightarrow> bool" where
  "irq_pending i \<longleftrightarrow> (\<not> i_sw_edge i \<and> i_line_asserted i) \<or> i_sw_asserted i \<or> inj_pending (i_info i)"

definition irq_reset :: "u8 \<Rightarrow> irq \<Rightarrow> irq" where
  "irq_reset t i =
     (let i = i\<lparr>i_sw_edge := i_hw_edge i\<rparr>;
          i = irq_set_target t i;
          i = irq_set_prio 0 i;
          i = irq_deactivate True i;
          i = irq_disable True i;
          i = irq_set_group1 False i;
          i = (if \<not> i_hw i then i\<lparr>i_info := 0\<rparr> else i)
      in i\<lparr>i_routing := 0\<rparr>)"

definition irq_assert_line :: "irq \<Rightarrow> irq" where "irq_assert_line i = i\<lparr>i_line_asserted := True\<rparr>"
definition irq_deassert_line :: "irq \<Rightarrow> irq" where "irq_deassert_line i = i\<lparr>i_line_asserted := False\<rparr>"
definition irq_assert_sw :: "irq \<Rightarrow> irq" where "irq_assert_sw i = i\<lparr>i_sw_asserted := True\<rparr>"
definition irq_deassert_sw :: "irq \<Rightarrow> irq" where "irq_deassert_sw i = i\<lparr>i_sw_asserted := False\<rparr>"

subsection \<open>List registers\<close>

datatype irq_state = INACTIVE | PENDING | ACTIVE | ACTIVE_PENDING

fun state_code :: "irq_state \<Rightarrow> u64" where
  "state_code INACTIVE = 0"
| "state_code PENDING = 1"
| "state_code ACTIVE = 2"
| "state_code ACTIVE_PENDING = 3"

definition state_of_code :: "u64 \<Rightarrow> irq_state" where
  "state_of_code c = (if c = 0 then INACTIVE else if c = 1 then PENDING else if c = 2 then ACTIVE else ACTIVE_PENDING)"

definition lr_new :: "irq_state \<Rightarrow> irq \<Rightarrow> u32 \<Rightarrow> u8 \<Rightarrow> u64" where
  "lr_new st i vintid sender =
     push_bit 62 (state_code st) OR push_bit 61 (if i_hw i then 1 else 0) OR push_bit 60 (if i_group1 i then 1 else 0) OR
     push_bit 48 (ucast (i_prio i)) OR
     (if i_hw i then push_bit 32 (ucast (i_pintid i) AND 0x3ff)
      else if unat vintid < MAX_SGI then push_bit 32 (ucast sender AND 0x7)
      else 0) OR
     ucast vintid"

definition lr_state :: "u64 \<Rightarrow> irq_state" where "lr_state l = state_of_code (drop_bit 62 l AND 0x3)"
definition lr_set_state :: "irq_state \<Rightarrow> u64 \<Rightarrow> u64" where
  "lr_set_state st l = (l AND NOT (push_bit 62 0x3)) OR push_bit 62 (state_code st)"
definition lr_activate :: "u64 \<Rightarrow> u64" where "lr_activate l = lr_set_state ACTIVE l"
definition lr_deactivate :: "u64 \<Rightarrow> u64" where "lr_deactivate l = lr_set_state INACTIVE l"
definition lr_hw :: "u64 \<Rightarrow> bool" where "lr_hw l \<longleftrightarrow> l AND push_bit 61 1 \<noteq> 0"
definition lr_pintid :: "u64 \<Rightarrow> u32" where "lr_pintid l = ucast (drop_bit 32 l AND 0x3ff)"
definition lr_vintid :: "u64 \<Rightarrow> u32" where "lr_vintid l = ucast (l AND 0xffffffff)"
definition lr_senderid :: "u64 \<Rightarrow> u8" where
  "lr_senderid l = (if lr_hw l then 0 else ucast (drop_bit 32 l AND 0x7))"
definition lr_priority :: "u64 \<Rightarrow> u8" where "lr_priority l = ucast (drop_bit 48 l AND 0xff)"

subsection \<open>What the packed information means\<close>

text \<open>The senders whose pending bit, and whose injected bit, is set; the target is the low half.\<close>

definition pend_set :: "injection_info \<Rightarrow> nat set" where
  "pend_set i = {s. s < GICV2_MAX_CPUS \<and> bit i (PENDING_SHIFT + s)}"

definition inj_set :: "injection_info \<Rightarrow> nat set" where
  "inj_set i = {s. s < GICV2_MAX_CPUS \<and> bit i (INJECTED_SHIFT + s)}"

lemma word_neq_0_bit: "(w :: 'a::len word) \<noteq> 0 \<longleftrightarrow> (\<exists>n. bit w n)"
  by (auto simp: bit_eq_iff dest: bit_imp_le_length)

lemma inj_pending_iff: "inj_pending i \<longleftrightarrow> pend_set i \<noteq> {}"
proof -
  have "inj_pending i \<longleftrightarrow> (\<exists>n. bit i n \<and> 32 \<le> n \<and> n < 40)"
    by (auto simp: inj_pending_def word_neq_0_bit bit_simps mask_bits)
  also have "\<dots> \<longleftrightarrow> (\<exists>s. s < 8 \<and> bit i (32 + s))"
  proof
    assume "\<exists>n. bit i n \<and> 32 \<le> n \<and> n < 40"
    then obtain n where "bit i n" "32 \<le> n" "n < 40" by blast
    then show "\<exists>s. s < 8 \<and> bit i (32 + s)" by (intro exI [of _ "n - 32"]) simp
  next
    assume "\<exists>s. s < 8 \<and> bit i (32 + s)"
    then obtain s where "s < 8" "bit i (32 + s)" by blast
    then show "\<exists>n. bit i n \<and> 32 \<le> n \<and> n < 40" by (intro exI [of _ "32 + s"]) simp
  qed
  finally show ?thesis by (auto simp: pend_set_def)
qed

lemma inj_in_injection_iff: "inj_in_injection i \<longleftrightarrow> inj_set i \<noteq> {}"
proof -
  have "inj_in_injection i \<longleftrightarrow> (\<exists>n. bit i n \<and> 40 \<le> n \<and> n < 48)"
    by (auto simp: inj_in_injection_def word_neq_0_bit bit_simps mask_bits)
  also have "\<dots> \<longleftrightarrow> (\<exists>s. s < 8 \<and> bit i (40 + s))"
  proof
    assume "\<exists>n. bit i n \<and> 40 \<le> n \<and> n < 48"
    then obtain n where "bit i n" "40 \<le> n" "n < 48" by blast
    then show "\<exists>s. s < 8 \<and> bit i (40 + s)" by (intro exI [of _ "n - 40"]) simp
  next
    assume "\<exists>s. s < 8 \<and> bit i (40 + s)"
    then obtain s where "s < 8" "bit i (40 + s)" by blast
    then show "\<exists>n. bit i n \<and> 40 \<le> n \<and> n < 48" by (intro exI [of _ "40 + s"]) simp
  qed
  finally show ?thesis by (auto simp: inj_set_def)
qed

lemma pending_sender_Some:
  "get_pending_sender_id i = Some s \<longleftrightarrow> s \<in> pend_set i \<and> (\<forall>t. t < s \<longrightarrow> t \<notin> pend_set i)"
  by (auto simp: get_pending_sender_id_def first_set_upto_find nth_upt_find pend_set_def bit_simps)

lemma injected_sender_Some:
  "get_injected_sender_id i = Some s \<longleftrightarrow> s \<in> inj_set i \<and> (\<forall>t. t < s \<longrightarrow> t \<notin> inj_set i)"
  by (auto simp: get_injected_sender_id_def first_set_upto_find nth_upt_find inj_set_def bit_simps)

lemma pending_sender_None: "get_pending_sender_id i = None \<longleftrightarrow> pend_set i = {}"
  by (auto simp: get_pending_sender_id_def first_set_upto_find find_None_upt pend_set_def bit_simps)

lemma injected_sender_None: "get_injected_sender_id i = None \<longleftrightarrow> inj_set i = {}"
  by (auto simp: get_injected_sender_id_def first_set_upto_find find_None_upt inj_set_def bit_simps)

lemma inj_ops_total [simp]:
  "s < 8 \<Longrightarrow> set_pending s i = Some (i OR 2 ^ (PENDING_SHIFT + s))"
  "s < 8 \<Longrightarrow> unset_pending s i = Some (i AND NOT (2 ^ (PENDING_SHIFT + s)))"
  "s < 8 \<Longrightarrow> set_injected s i = Some (i OR 2 ^ (INJECTED_SHIFT + s))"
  "s < 8 \<Longrightarrow> unset_injected s i = Some (i AND NOT (2 ^ (INJECTED_SHIFT + s)))"
  "s < 8 \<Longrightarrow> is_injected s i = Some (s \<in> inj_set i)"
  by (simp_all add: set_pending_def unset_pending_def set_injected_def unset_injected_def is_injected_def
      inj_set_def and_exp_eq_0_iff_not_bit)

lemma inj_view [simp]:
  "pend_set 0 = {}" "inj_set 0 = {}" "inj_target 0 = 0"
  "pend_set (set_target_cpu t i) = pend_set i" "inj_set (set_target_cpu t i) = inj_set i"
  "inj_target (set_target_cpu t i) = t"
  by (auto simp: pend_set_def inj_set_def inj_target_def set_target_cpu_def bit_simps mask_bits
      intro!: word_eqI_bits dest: bit_imp_le_length)

lemma inj_view_set [simp]:
  assumes "s < 8"
  shows "pend_set (i OR 2 ^ (PENDING_SHIFT + s)) = insert s (pend_set i)"
    "pend_set (i AND NOT (2 ^ (PENDING_SHIFT + s))) = pend_set i - {s}"
    "inj_set (i OR 2 ^ (PENDING_SHIFT + s)) = inj_set i"
    "inj_set (i AND NOT (2 ^ (PENDING_SHIFT + s))) = inj_set i"
    "pend_set (i OR 2 ^ (INJECTED_SHIFT + s)) = pend_set i"
    "pend_set (i AND NOT (2 ^ (INJECTED_SHIFT + s))) = pend_set i"
    "inj_set (i OR 2 ^ (INJECTED_SHIFT + s)) = insert s (inj_set i)"
    "inj_set (i AND NOT (2 ^ (INJECTED_SHIFT + s))) = inj_set i - {s}"
    "inj_target (i OR 2 ^ (PENDING_SHIFT + s)) = inj_target i"
    "inj_target (i AND NOT (2 ^ (PENDING_SHIFT + s))) = inj_target i"
    "inj_target (i OR 2 ^ (INJECTED_SHIFT + s)) = inj_target i"
    "inj_target (i AND NOT (2 ^ (INJECTED_SHIFT + s))) = inj_target i"
  using assms
  by (auto simp: pend_set_def inj_set_def inj_target_def bit_simps bit_push_bit_1_iff intro!: word_eqI_bits)

lemmas inj_view_0 [simp] = inj_view_set [of 0, simplified]

subsection \<open>List registers carry their fields\<close>

lemma state_code_bits:
  "bit (state_code st) 0 \<longleftrightarrow> st = PENDING \<or> st = ACTIVE_PENDING"
  "bit (state_code st) (Suc 0) \<longleftrightarrow> st = ACTIVE \<or> st = ACTIVE_PENDING"
  "2 \<le> n \<Longrightarrow> \<not> bit (state_code st) n"
proof -
  show "bit (state_code st) 0 \<longleftrightarrow> st = PENDING \<or> st = ACTIVE_PENDING"
    "bit (state_code st) (Suc 0) \<longleftrightarrow> st = ACTIVE \<or> st = ACTIVE_PENDING"
    by (cases st; simp add: bit_0 bit_Suc)+
  assume "2 \<le> n"
  then obtain m where "n = Suc (Suc m)" by (metis Suc_le_D numeral_2_eq_2 Suc_le_mono)
  then show "\<not> bit (state_code st) n" by (cases st) (simp_all add: bit_Suc)
qed

lemma state_of_code_code: "state_of_code (state_code st) = st"
  by (cases st) (simp_all add: state_of_code_def)

lemma state_field: "drop_bit 62 l AND 3 = state_code st \<Longrightarrow> lr_state l = st"
  by (simp add: lr_state_def state_of_code_code)

lemma lr_hw_iff: "lr_hw l \<longleftrightarrow> bit l 61"
  unfolding lr_hw_def by (rule and_push_bit_1_neq_0) simp

lemma lr_set_state_other:
  "n < 62 \<Longrightarrow> bit (lr_set_state st l) n = bit l n"
  by (auto simp: lr_set_state_def bit_simps mask_bits)

lemma lr_cong:
  assumes "\<And>n. n < 62 \<Longrightarrow> bit l n = bit k n"
  shows "lr_hw l = lr_hw k" "lr_pintid l = lr_pintid k" "lr_vintid l = lr_vintid k"
    "lr_priority l = lr_priority k" "lr_senderid l = lr_senderid k"
proof -
  show hw: "lr_hw l = lr_hw k" using assms [of 61] by (simp add: lr_hw_iff)
  show "lr_pintid l = lr_pintid k" "lr_vintid l = lr_vintid k" "lr_priority l = lr_priority k"
    unfolding lr_pintid_def lr_vintid_def lr_priority_def
    by (rule word_eqI_bits; use assms in \<open>auto simp: bit_simps mask_bits\<close>)+
  have "(ucast (drop_bit 32 l AND 0x7) :: u8) = ucast (drop_bit 32 k AND 0x7)"
    by (rule word_eqI_bits) (use assms in \<open>auto simp: bit_simps mask_bits\<close>)
  then show "lr_senderid l = lr_senderid k" using hw by (simp add: lr_senderid_def)
qed

lemma lr_new_fields:
  "lr_state (lr_new st i v s) = st" "lr_hw (lr_new st i v s) = i_hw i"
  "lr_vintid (lr_new st i v s) = v" "lr_priority (lr_new st i v s) = i_prio i"
  "i_hw i \<Longrightarrow> lr_pintid (lr_new st i v s) = ucast (i_pintid i) AND 0x3ff"
  "lr_senderid (lr_new st i v s) = (if i_hw i then 0 else if unat v < MAX_SGI then s AND 0x7 else 0)"
proof -
  let ?l = "lr_new st i v s"
  note b = lr_new_def bit_simps mask_bits state_code_bits
  have "drop_bit 62 ?l AND 3 = state_code st"
  proof (rule word_eqI_bits)
    fix n :: nat assume "n < LENGTH(64)"
    show "bit (drop_bit 62 ?l AND 3) n = bit (state_code st) n"
      by (cases "n < 2") (auto simp: b dest: bit_imp_le_length)
  qed
  then show "lr_state ?l = st" by (rule state_field)
  show hw: "lr_hw ?l = i_hw i" by (auto simp: lr_hw_iff b dest: bit_imp_le_length)
  show "lr_vintid ?l = v"
    unfolding lr_vintid_def by (rule word_eqI_bits) (auto simp: b)
  show "lr_priority ?l = i_prio i"
    unfolding lr_priority_def by (rule word_eqI_bits) (auto simp: b dest: bit_imp_le_length)
  show "lr_pintid ?l = ucast (i_pintid i) AND 0x3ff" if "i_hw i"
    unfolding lr_pintid_def by (rule word_eqI_bits) (use that in \<open>auto simp: b dest: bit_imp_le_length\<close>)
  have "(ucast (drop_bit 32 ?l AND 0x7) :: u8) = (if unat v < MAX_SGI then s AND 0x7 else 0)" if "\<not> i_hw i"
    by (rule word_eqI_bits) (use that in \<open>auto simp: b dest: bit_imp_le_length\<close>)
  then show "lr_senderid ?l = (if i_hw i then 0 else if unat v < MAX_SGI then s AND 0x7 else 0)"
    using hw by (simp add: lr_senderid_def)
qed

lemma lr_set_state_state: "lr_state (lr_set_state st l) = st"
proof (rule state_field, rule word_eqI_bits)
  fix n :: nat assume "n < LENGTH(64)"
  show "bit (drop_bit 62 (lr_set_state st l) AND 3) n = bit (state_code st) n"
    by (cases "n < 2") (auto simp: lr_set_state_def bit_simps mask_bits state_code_bits dest: bit_imp_le_length)
qed

text \<open>
  A list register gives back what it was made from: the state, the hardware bit, the
  priority and the number of the interrupt; ten bits of the physical number of a hardware
  interrupt; three bits of the sender of a software-generated one. A change of the state keeps the
  other fields.
\<close>

theorem lr_round_trip:
  "lr_state (lr_new st i v s) = st \<and> lr_hw (lr_new st i v s) = i_hw i \<and>
   lr_vintid (lr_new st i v s) = v \<and> lr_priority (lr_new st i v s) = i_prio i \<and>
   (if i_hw i then lr_pintid (lr_new st i v s) = ucast (i_pintid i) AND 0x3ff \<and> lr_senderid (lr_new st i v s) = 0
    else lr_senderid (lr_new st i v s) = (if unat v < MAX_SGI then s AND 0x7 else 0)) \<and>
   lr_state (lr_set_state st' (lr_new st i v s)) = st' \<and>
   lr_hw (lr_set_state st' (lr_new st i v s)) = i_hw i \<and>
   lr_vintid (lr_set_state st' (lr_new st i v s)) = v \<and>
   lr_priority (lr_set_state st' (lr_new st i v s)) = i_prio i \<and>
   lr_senderid (lr_set_state st' (lr_new st i v s)) = lr_senderid (lr_new st i v s)"
proof -
  note k = lr_cong [of "lr_set_state st' (lr_new st i v s)" "lr_new st i v s", OF lr_set_state_other]
  show ?thesis by (simp add: lr_new_fields lr_set_state_state k)
qed

end
