(* ===== verification/GicDist.thy ===== *)
theory GicDist
  imports GicIrq CpuAffinity
begin

text \<open>
  The distributor of the interrupt controller (\<open>devices/gic/src/gicd.cpp\<close> and the class
  \<open>GicD\<close>) with the state of the redistributors: banks of private interrupts, shared interrupts,
  routing, notification, assertion, the choice of the next interrupt of a vCPU and the life
  cycle of an injected interrupt. A compare-and-swap loop is one step: it takes effect on the value
  it read. \<open>None\<close> is a failed \<open>ASSERT\<close>, a null pointer or an index outside an array. The
  local interface of a vCPU is its redistributor; \<open>notify_interrupt_pending\<close> of vCPU \<open>i\<close>
  appends \<open>i\<close> to \<open>notified\<close>.
\<close>

declare split_paired_All [simp del] split_paired_Ex [simp del]

subsection \<open>State\<close>

record redist =
  r_ctlr :: u32
  r_waker :: u32
  r_aff :: affinity
  r_last :: bool

record banked =
  b_sgi :: "irq list"
  b_ppi :: "irq list"
  b_pending :: bitset
  b_in_injection :: bitset
  b_notify :: bool

record gicd =
  version :: irq_ctlr_version
  num_vcpus :: nat
  configured_irqs :: nat
  ctlr :: u32
  local :: "banked list"
  spi :: "irq list"
  lpi :: "irq list"
  prop_baser :: u64
  pend_baser :: u64
  mem_bus :: bool
  has_its :: bool
  vcpu_hint :: u16
  redists :: "redist list"
  cluster_map :: clusters
  notified :: "nat list"
  stats_enabled :: bool

type_synonym irq_ref = "nat \<times> nat"

abbreviation SLEEP_BIT :: u32 where "SLEEP_BIT \<equiv> 2"
abbreviation CHILDREN_ASLEEP_BIT :: u32 where "CHILDREN_ASLEEP_BIT \<equiv> 4"
abbreviation GICR_CES :: u32 where "GICR_CES \<equiv> 2"

definition waker_sleeping :: "u32 \<Rightarrow> bool" where
  "waker_sleeping w \<longleftrightarrow> w AND SLEEP_BIT \<noteq> 0"

definition can_receive_irq :: "redist \<Rightarrow> bool" where
  "can_receive_irq r \<longleftrightarrow> \<not> waker_sleeping (r_waker r)"

definition redist_new :: "affinity \<Rightarrow> bool \<Rightarrow> redist" where
  "redist_new a last_one =
     \<lparr>r_ctlr = GICR_CES, r_waker = SLEEP_BIT OR CHILDREN_ASLEEP_BIT, r_aff = a, r_last = last_one\<rparr>"

definition group0_enabled :: "gicd \<Rightarrow> bool" where "group0_enabled g \<longleftrightarrow> ctlr g AND 0x1 \<noteq> 0"
definition group1_enabled :: "gicd \<Rightarrow> bool" where "group1_enabled g \<longleftrightarrow> ctlr g AND 0x2 \<noteq> 0"
definition affinity_routing :: "gicd \<Rightarrow> bool" where "affinity_routing g \<longleftrightarrow> ctlr g AND 0x10 \<noteq> 0"

definition configured_spis :: "gicd \<Rightarrow> nat" where
  "configured_spis g = configured_irqs g - MAX_PPI - MAX_SGI"

definition lpi_supported :: "gicd \<Rightarrow> bool" where
  "lpi_supported g \<longleftrightarrow> version g = GIC_V3 \<and> has_its g"

definition get_typer :: "gicd \<Rightarrow> u64" where
  "get_typer g =
     (let itl = (if configured_irqs g = MAX_IRQ then 31 else of_nat (configured_irqs g div 32) - 1);
          itl = (if lpi_supported g then itl OR push_bit 17 1 else itl)
      in itl OR push_bit 5 (of_nat (min (num_vcpus g) 8) - 1) OR push_bit 19 9 OR push_bit 24 1)"

subsection \<open>Access to the interrupt objects\<close>

fun irq_object :: "gicd \<Rightarrow> irq_ref \<Rightarrow> irq option" where
  "irq_object g (c, n) =
     (if n < MAX_SGI then do { b \<leftarrow> nth_opt (local g) c; nth_opt (b_sgi b) n }
      else if n < MAX_SGI + MAX_PPI then do { b \<leftarrow> nth_opt (local g) c; nth_opt (b_ppi b) (n - MAX_SGI) }
      else if n < LPI_BASE then nth_opt (spi g) (n - MAX_SGI - MAX_PPI)
      else nth_opt (lpi g) (n - LPI_BASE))"

definition bank_modify :: "nat \<Rightarrow> (banked \<Rightarrow> banked) \<Rightarrow> gicd \<Rightarrow> gicd option" where
  "bank_modify c f g = do { bs \<leftarrow> upd_opt (local g) c f; Some (g\<lparr>local := bs\<rparr>) }"

text \<open>A change of an interrupt object through the reference to it.\<close>

fun irq_modify :: "irq_ref \<Rightarrow> (irq \<Rightarrow> irq) \<Rightarrow> gicd \<Rightarrow> gicd option" where
  "irq_modify (c, n) f g =
     (if n < MAX_SGI then do {
        b \<leftarrow> nth_opt (local g) c;
        xs \<leftarrow> upd_opt (b_sgi b) n f;
        bank_modify c (\<lambda>b. b\<lparr>b_sgi := xs\<rparr>) g
      }
      else if n < MAX_SGI + MAX_PPI then do {
        b \<leftarrow> nth_opt (local g) c;
        xs \<leftarrow> upd_opt (b_ppi b) (n - MAX_SGI) f;
        bank_modify c (\<lambda>b. b\<lparr>b_ppi := xs\<rparr>) g
      }
      else if n < LPI_BASE then do {
        xs \<leftarrow> upd_opt (spi g) (n - MAX_SGI - MAX_PPI) f;
        Some (g\<lparr>spi := xs\<rparr>)
      }
      else do {
        xs \<leftarrow> upd_opt (lpi g) (n - LPI_BASE) f;
        Some (g\<lparr>lpi := xs\<rparr>)
      })"

definition set_info :: "irq_ref \<Rightarrow> injection_info \<Rightarrow> gicd \<Rightarrow> gicd option" where
  "set_info r v g = irq_modify r (\<lambda>i. i\<lparr>i_info := v\<rparr>) g"

definition count_asserted :: "irq_ref \<Rightarrow> gicd \<Rightarrow> gicd option" where
  "count_asserted r g =
     (if stats_enabled g then irq_modify r (\<lambda>i. i\<lparr>i_num_asserted := i_num_asserted i + 1\<rparr>) g else Some g)"

subsection \<open>Notification and routing\<close>

definition vcpu_can_receive_irq :: "gicd \<Rightarrow> nat \<Rightarrow> nat \<Rightarrow> bool option" where
  "vcpu_can_receive_irq g c n =
     (if \<not> affinity_routing g then Some True
      else if n < SPI_BASE then Some True
      else do { r \<leftarrow> nth_opt (redists g) c; Some (can_receive_irq r) })"

text \<open>The body of the loop of \<open>notify_target\<close>: mark the interrupt at a vCPU and kick it.\<close>

definition notify_cpu :: "nat \<Rightarrow> nat \<Rightarrow> gicd \<Rightarrow> gicd option" where
  "notify_cpu c n g = do {
     b \<leftarrow> nth_opt (local g) c;
     ASSERT (b_notify b);
     g \<leftarrow> bank_modify c (\<lambda>b. b\<lparr>b_pending := bitset_set (b_pending b) n\<rparr>) g;
     ok \<leftarrow> vcpu_can_receive_irq g c n;
     Some (if ok then g\<lparr>notified := notified g @ [c]\<rparr> else g)
   }"

definition notify_target :: "nat \<Rightarrow> irq_target \<Rightarrow> gicd \<Rightarrow> (bool \<times> gicd) option" where
  "notify_target n t g =
     (if \<not> tgt_is_valid t then Some (False, g)
      else if tgt_is_set t then do {
        g \<leftarrow> for_each [0..<min (num_vcpus g) GICV2_MAX_CPUS]
              (\<lambda>i g. do { is \<leftarrow> is_cpu_targeted t i; if is then notify_cpu i n g else Some g }) g;
        Some (True, g)
      }
      else do { g \<leftarrow> notify_cpu (unat (tgt_target t)) n g; Some (True, g) })"

definition route_spi_no_affinity :: "irq \<Rightarrow> gicd \<Rightarrow> irq_target option" where
  "route_spi_no_affinity i g =
     for_each [0..<min (num_vcpus g) 8]
       (\<lambda>c t. do {
          b \<leftarrow> nth_opt (local g) c;
          if \<not> b_notify b then Some t
          else if (ucast (i_target i) :: u32) AND push_bit c 1 \<noteq> 0 then add_target_to_set c t
          else Some t
        }) (irq_target CPU_SET 0)"

text \<open>The round-robin loop of \<open>route_spi\<close>: \<open>n\<close> vCPUs are left to try.\<close>

fun route_any :: "nat \<Rightarrow> nat \<Rightarrow> gicd \<Rightarrow> irq_target option" where
  "route_any 0 hint g = Some (irq_target CPU_ID (of_nat hint))"
| "route_any (Suc n) hint g = do {
     b \<leftarrow> nth_opt (local g) hint;
     ASSERT (b_notify b);
     r \<leftarrow> nth_opt (redists g) hint;
     if can_receive_irq r then Some (irq_target CPU_ID (of_nat hint))
     else route_any n ((hint + 1) mod num_vcpus g) g
   }"

definition routing_affinity :: "u64 \<Rightarrow> affinity" where
  "routing_affinity r =
     ucast (push_bit 24 (rt_aff3 r)) OR ucast (push_bit 16 (rt_aff2 r)) OR
     ucast (push_bit 8 (rt_aff1 r)) OR ucast (rt_aff0 r)"

definition route_spi :: "irq \<Rightarrow> nat \<Rightarrow> gicd \<Rightarrow> irq_target option" where
  "route_spi i hint g =
     (if \<not> affinity_routing g then route_spi_no_affinity i g
      else if rt_any (i_routing i) then do {
        ASSERT (num_vcpus g \<noteq> 0);
        route_any (num_vcpus g) (hint mod num_vcpus g) g
      }
      else let a = routing_affinity (i_routing i)
           in case cpu_affinity_to_cluster (cluster_map g) a of
                None \<Rightarrow> Some INVALID_TARGET
              | Some cl \<Rightarrow>
                  let v = unat (cluster_vcpu_id cl (aff0 a))
                  in if num_vcpus g \<le> v then Some INVALID_TARGET
                     else do {
                       b \<leftarrow> nth_opt (local g) v;
                       Some (if b_notify b then irq_target CPU_ID (of_nat v) else INVALID_TARGET)
                     })"

definition next_hint :: "gicd \<Rightarrow> nat \<times> gicd" where
  "next_hint g = (unat (vcpu_hint g + 1), g\<lparr>vcpu_hint := vcpu_hint g + 1\<rparr>)"

definition redirect_spi :: "irq_ref \<Rightarrow> nat \<Rightarrow> gicd \<Rightarrow> (bool \<times> gicd) option" where
  "redirect_spi r hint g = do {
     i \<leftarrow> irq_object g r;
     ASSERT (SPI_BASE \<le> i_id i);
     t \<leftarrow> route_spi i hint g;
     inj \<leftarrow> is_injected 0 (i_info i);
     if \<not> inj_pending (i_info i) \<or> inj then Some (False, g)
     else do {
       desired \<leftarrow> set_pending 0 (set_target_cpu t 0);
       g \<leftarrow> set_info r desired g;
       notify_target (i_id i) t g
     }
   }"

subsection \<open>Assertion\<close>

definition assert_pi :: "nat \<Rightarrow> irq_ref \<Rightarrow> gicd \<Rightarrow> (bool \<times> gicd) option" where
  "assert_pi c r g = do {
     i \<leftarrow> irq_object g r;
     ASSERT (PPI_BASE \<le> i_id i \<or> affinity_routing g);
     (t, g) \<leftarrow> (if SPI_BASE \<le> i_id i
                then (let (hint, g) = next_hint g in do { t \<leftarrow> route_spi i hint g; Some (t, g) })
                else Some (irq_target CPU_ID (of_nat c), g));
     update \<leftarrow> set_pending 0 (set_target_cpu t 0);
     g \<leftarrow> set_info r update g;
     g \<leftarrow> count_asserted r g;
     notify_target (i_id i) t g
   }"

definition assert_pi_sw :: "nat \<Rightarrow> irq_ref \<Rightarrow> gicd \<Rightarrow> (bool \<times> gicd) option" where
  "assert_pi_sw c r g = do {
     i \<leftarrow> irq_object g r;
     ASSERT (PPI_BASE \<le> i_id i \<or> affinity_routing g);
     g \<leftarrow> irq_modify r irq_assert_sw g;
     assert_pi c r g
   }"

definition deassert_pi :: "nat \<Rightarrow> irq_ref \<Rightarrow> gicd \<Rightarrow> (bool \<times> gicd) option" where
  "deassert_pi c r g = do {
     i \<leftarrow> irq_object g r;
     ASSERT (PPI_BASE \<le> i_id i \<or> affinity_routing g);
     if i_hw i then Some (True, g)
     else do {
       g \<leftarrow> (if stats_enabled g \<and> irq_pending i
             then irq_modify r (\<lambda>i. i\<lparr>i_num_acked := i_num_acked i + 1\<rparr>) g else Some g);
       g \<leftarrow> set_info r 0 g;
       Some (True, g)
     }
   }"

definition deassert_pi_sw :: "nat \<Rightarrow> irq_ref \<Rightarrow> gicd \<Rightarrow> (bool \<times> gicd) option" where
  "deassert_pi_sw c r g = do {
     i \<leftarrow> irq_object g r;
     ASSERT (PPI_BASE \<le> i_id i \<or> affinity_routing g);
     g \<leftarrow> irq_modify r irq_deassert_sw g;
     deassert_pi c r g
   }"

definition assert_sgi :: "nat \<Rightarrow> nat \<Rightarrow> irq_ref \<Rightarrow> gicd \<Rightarrow> (bool \<times> gicd) option" where
  "assert_sgi sender target r g = do {
     i \<leftarrow> irq_object g r;
     ASSERT (i_id i < MAX_SGI);
     if affinity_routing g then assert_pi target r g
     else if GICV2_MAX_CPUS \<le> sender then Some (False, g)
     else do {
       let desired = set_target_cpu (irq_target CPU_ID (of_nat target)) (i_info i);
       desired \<leftarrow> unset_injected sender desired;
       desired \<leftarrow> set_pending sender desired;
       g \<leftarrow> set_info r desired g;
       g \<leftarrow> count_asserted r g;
       notify_target (i_id i) (irq_target CPU_ID (of_nat target)) g
     }
   }"

definition deassert_sgi :: "nat \<Rightarrow> nat \<Rightarrow> irq_ref \<Rightarrow> gicd \<Rightarrow> (bool \<times> gicd) option" where
  "deassert_sgi sender target r g =
     (if affinity_routing g then deassert_pi target r g
      else if GICV2_MAX_CPUS \<le> sender then Some (False, g)
      else do {
        i \<leftarrow> irq_object g r;
        desired \<leftarrow> unset_injected sender (i_info i);
        desired \<leftarrow> unset_pending sender desired;
        g \<leftarrow> set_info r desired g;
        Some (True, g)
      })"

definition assert_ppi :: "nat \<Rightarrow> nat \<Rightarrow> gicd \<Rightarrow> (bool \<times> gicd) option" where
  "assert_ppi c n g =
     (if num_vcpus g \<le> c then Some (False, g)
      else if SPI_BASE \<le> n then Some (False, g)
      else do {
        i \<leftarrow> irq_object g (c, n);
        g \<leftarrow> (if \<not> i_hw_edge i then irq_modify (c, n) irq_assert_line g else Some g);
        assert_pi c (c, n) g
      })"

definition deassert_line :: "nat \<Rightarrow> nat \<Rightarrow> gicd \<Rightarrow> gicd option" where
  "deassert_line c n g =
     (if num_vcpus g \<le> c then Some g
      else if SPI_BASE \<le> n then Some g
      else do {
        g \<leftarrow> irq_modify (c, n) irq_deassert_line g;
        i \<leftarrow> irq_object g (c, n);
        if \<not> i_sw_edge i \<and> \<not> i_sw_asserted i
        then do { (b, g) \<leftarrow> deassert_pi c (c, n) g; Some g }
        else Some g
      })"

definition deassert_line_ppi :: "nat \<Rightarrow> nat \<Rightarrow> gicd \<Rightarrow> gicd option" where
  "deassert_line_ppi c n g = deassert_line c n g"

definition deassert_global_line :: "nat \<Rightarrow> gicd \<Rightarrow> gicd option" where
  "deassert_global_line n g = deassert_line 0 n g"

definition assert_global_line :: "nat \<Rightarrow> gicd \<Rightarrow> (bool \<times> gicd) option" where
  "assert_global_line n g =
     (if configured_irqs g \<le> n then Some (False, g)
      else if n < SPI_BASE then Some (False, g)
      else do {
        i \<leftarrow> irq_object g (0, n);
        g \<leftarrow> (if \<not> i_hw_edge i then irq_modify (0, n) irq_assert_line g else Some g);
        assert_pi 0 (0, n) g
      })"

definition send_sgi :: "nat \<Rightarrow> nat \<Rightarrow> nat \<Rightarrow> gicd \<Rightarrow> gicd option" where
  "send_sgi from target sgi g = do {
     ASSERT (sgi < MAX_SGI);
     ASSERT (target < num_vcpus g);
     (b, g) \<leftarrow> assert_sgi from target (target, sgi) g;
     Some g
   }"

definition config_irq :: "nat \<Rightarrow> nat \<Rightarrow> bool \<Rightarrow> u16 \<Rightarrow> bool \<Rightarrow> gicd \<Rightarrow> (bool \<times> gicd) option" where
  "config_irq c n hw pintid edge g =
     (if configured_irqs g \<le> n then Some (False, g)
      else if num_vcpus g \<le> c then Some (False, g)
      else do { g \<leftarrow> irq_modify (c, n) (irq_configure_hw hw pintid edge) g; Some (True, g) })"

definition config_spi :: "nat \<Rightarrow> bool \<Rightarrow> u16 \<Rightarrow> bool \<Rightarrow> gicd \<Rightarrow> (bool \<times> gicd) option" where
  "config_spi n hw pintid edge g = config_irq 0 n hw pintid edge g"

subsection \<open>The next interrupt of a vCPU\<close>

definition has_irq_in_injection :: "nat \<Rightarrow> gicd \<Rightarrow> bool option" where
  "has_irq_in_injection c g = do {
     b \<leftarrow> nth_opt (local g) c;
     Some (first_set MAX_IRQ (b_in_injection b) 0 (configured_irqs g - 1) \<noteq> None \<or>
           first_set MAX_IRQ (b_in_injection b) LPI_BASE (MAX_IRQ - 1) \<noteq> None)
   }"

text \<open>
  The next pending interrupt from \<open>from\<close> on: \<open>conf\<close> is the number of configured interrupts. The
  code calls itself once more at most, from the first LPI on.
\<close>

definition get_next_pending_irq :: "nat \<Rightarrow> bitset \<Rightarrow> nat \<Rightarrow> nat option" where
  "get_next_pending_irq conf f from =
     (if from < LPI_BASE
      then (case first_set MAX_IRQ f from (conf - 1) of
              Some n \<Rightarrow> Some n
            | None \<Rightarrow> first_set MAX_IRQ f LPI_BASE (MAX_IRQ - 1))
      else first_set MAX_IRQ f from (MAX_IRQ - 1))"

lemma get_next_pending_ge: "get_next_pending_irq conf f from = Some n \<Longrightarrow> from \<le> n"
  by (auto simp: get_next_pending_irq_def first_set_Some split: if_splits option.splits)

text \<open>Whether vCPU \<open>c\<close> may be given the interrupt now.\<close>

definition irq_eligible :: "nat \<Rightarrow> irq_ref \<Rightarrow> gicd \<Rightarrow> bool option" where
  "irq_eligible c r g = do {
     b \<leftarrow> nth_opt (local g) c;
     i \<leftarrow> irq_object g r;
     if \<not> ((\<not> i_group1 i \<and> group0_enabled g) \<or> (i_group1 i \<and> group1_enabled g)) then Some False
     else do {
       t \<leftarrow> is_targeting_cpu (i_info i) c;
       if \<not> (t \<and> inj_pending (i_info i) \<and> i_enable i \<and> \<not> b_in_injection b (snd r)) then Some False
       else vcpu_can_receive_irq g c (snd r)
     }
   }"

text \<open>The body of the loop: keep the interrupt or redirect it.\<close>

definition highest_body :: "nat \<Rightarrow> bool \<Rightarrow> nat \<Rightarrow> nat option \<Rightarrow> gicd \<Rightarrow> (nat option \<times> gicd) option" where
  "highest_body c redirect n best g = do {
     i \<leftarrow> irq_object g (c, n);
     e \<leftarrow> irq_eligible c (c, n) g;
     if e
     then (case best of
             None \<Rightarrow> Some (Some n, g)
           | Some m \<Rightarrow> do {
               j \<leftarrow> irq_object g (c, m);
               Some (if i_prio j < i_prio i then Some n else Some m, g)
             })
     else if redirect \<and> SPI_BASE \<le> n
     then do {
       ok \<leftarrow> vcpu_can_receive_irq g c n;
       if ok then Some (best, g)
       else do { (d, g) \<leftarrow> redirect_spi (c, n) (c + 1) g; Some (best, g) }
     }
     else Some (best, g)
   }"

function highest_loop ::
  "nat \<Rightarrow> nat \<Rightarrow> bool \<Rightarrow> nat \<Rightarrow> nat option \<Rightarrow> gicd \<Rightarrow> (nat option \<times> gicd) option" where
  "highest_loop conf c redirect from best g =
     (case nth_opt (local g) c of
        None \<Rightarrow> None
      | Some b \<Rightarrow>
          (case get_next_pending_irq conf (b_pending b) from of
             None \<Rightarrow> Some (best, g)
           | Some n \<Rightarrow>
               (case highest_body c redirect n best g of
                  None \<Rightarrow> None
                | Some (best', g') \<Rightarrow>
                    if n + 1 < conf then highest_loop conf c redirect (n + 1) best' g'
                    else Some (best', g'))))"
  by pat_completeness auto
termination
  by (relation "measure (\<lambda>(conf, c, redirect, from, best, g). conf - from)")
    (auto dest!: get_next_pending_ge)

declare highest_loop.simps [simp del]

definition highest_irq :: "nat \<Rightarrow> bool \<Rightarrow> gicd \<Rightarrow> (nat option \<times> gicd) option" where
  "highest_irq c redirect g = do {
     b \<leftarrow> nth_opt (local g) c;
     ASSERT (b_notify b);
     highest_loop (configured_irqs g) c redirect 0 None g
   }"

definition has_irq_to_inject :: "nat \<Rightarrow> gicd \<Rightarrow> bool option" where
  "has_irq_to_inject c g = do { (r, g) \<leftarrow> highest_irq c False g; Some (r \<noteq> None) }"

definition highest_irq_to_inject :: "nat \<Rightarrow> u8 \<Rightarrow> gicd \<Rightarrow> nat option" where
  "highest_irq_to_inject c min_priority g = do {
     (r, g) \<leftarrow> highest_irq c False g;
     case r of
       None \<Rightarrow> Some SPECIAL_INTID_NONE
     | Some n \<Rightarrow> do {
         i \<leftarrow> irq_object g (c, n);
         Some (if min_priority < i_prio i then SPECIAL_INTID_NONE else i_id i)
       }
   }"

fun any_active :: "gicd \<Rightarrow> nat \<Rightarrow> nat list \<Rightarrow> bool option" where
  "any_active g c [] = Some False"
| "any_active g c (n # ns) =
     (case irq_object g (c, n) of None \<Rightarrow> None | Some i \<Rightarrow> if i_active i then Some True else any_active g c ns)"

definition any_irq_active :: "nat \<Rightarrow> gicd \<Rightarrow> bool option" where
  "any_irq_active c g = any_active g c [0..<configured_irqs g]"

text \<open>
  \<open>pending_irq\<close>: the list register to inject, if there is an interrupt; \<open>None\<close> inside the
  pair is the result \<open>false\<close>.
\<close>

definition pending_irq :: "nat \<Rightarrow> u8 \<Rightarrow> gicd \<Rightarrow> (u64 option \<times> gicd) option" where
  "pending_irq c min_priority g = do {
     ASSERT (c < num_vcpus g);
     (r, g) \<leftarrow> highest_irq c True g;
     case r of
       None \<Rightarrow> Some (None, g)
     | Some n \<Rightarrow> do {
         i \<leftarrow> irq_object g (c, n);
         if min_priority < i_prio i then Some (None, g)
         else do {
           t \<leftarrow> (if inj_pending (i_info i) then is_targeting_cpu (i_info i) c else Some False);
           if \<not> t then Some (Some 0, g)
           else do {
             sender \<leftarrow> get_pending_sender_id (i_info i);
             ASSERT (PPI_BASE \<le> i_id i \<or> affinity_routing g \<longrightarrow> sender = 0);
             desired \<leftarrow> set_injected sender (i_info i);
             g \<leftarrow> set_info (c, n) desired g;
             g \<leftarrow> bank_modify c (\<lambda>b. b\<lparr>b_in_injection := bitset_set (b_in_injection b) (i_id i),
                                        b_pending := bitset_clr (b_pending b) (i_id i)\<rparr>) g;
             let st = (if i_active i \<and> \<not> i_hw i then ACTIVE_PENDING else PENDING);
             Some (Some (lr_new st i (of_nat (i_id i)) (of_nat sender)), g)
           }
         }
       }
   }"

subsection \<open>The end of an injection\<close>

text \<open>
  The compare-and-swap of both update functions: nothing changes when no sender's interrupt is
  injected or it is not aimed at the vCPU.
\<close>

definition update_info :: "nat \<Rightarrow> irq_ref \<Rightarrow> bool \<Rightarrow> bool \<Rightarrow> gicd \<Rightarrow> gicd option" where
  "update_info c r drop_injected drop_pending g = do {
     i \<leftarrow> irq_object g r;
     case get_injected_sender_id (i_info i) of
       None \<Rightarrow> Some g
     | Some sender \<Rightarrow> do {
         inj \<leftarrow> is_injected sender (i_info i);
         t \<leftarrow> (if inj then is_targeting_cpu (i_info i) c else Some False);
         if \<not> t then Some g
         else do {
           desired \<leftarrow> (if drop_injected then unset_injected sender (i_info i) else Some (i_info i));
           desired \<leftarrow> (if drop_pending then unset_pending sender desired else Some desired);
           set_info r desired g
         }
       }
   }"

text \<open>The last lines of both: an interrupt that is still pending is marked again.\<close>

definition mark_if_pending :: "nat \<Rightarrow> irq_ref \<Rightarrow> gicd \<Rightarrow> gicd option" where
  "mark_if_pending c r g = do {
     i \<leftarrow> irq_object g r;
     if irq_pending i then bank_modify c (\<lambda>b. b\<lparr>b_pending := bitset_set (b_pending b) (i_id i)\<rparr>) g else Some g
   }"

definition update_inj_status_inactive :: "nat \<Rightarrow> nat \<Rightarrow> gicd \<Rightarrow> gicd option" where
  "update_inj_status_inactive c n g = do {
     g \<leftarrow> (if stats_enabled g then irq_modify (c, n) (\<lambda>i. i\<lparr>i_num_acked := i_num_acked i + 1\<rparr>) g else Some g);
     g \<leftarrow> irq_modify (c, n) (irq_deactivate True) g;
     g \<leftarrow> update_info c (c, n) True True g;
     mark_if_pending c (c, n) g
   }"

definition update_inj_status_active_or_pending :: "nat \<Rightarrow> irq_state \<Rightarrow> nat \<Rightarrow> bool \<Rightarrow> gicd \<Rightarrow> gicd option" where
  "update_inj_status_active_or_pending c st n in_injection g = do {
     g \<leftarrow> irq_modify (c, n) (if st = PENDING then irq_deactivate True else irq_activate True) g;
     g \<leftarrow> update_info c (c, n) (\<not> in_injection) (st = ACTIVE) g;
     mark_if_pending c (c, n) g
   }"

definition update_inj_status :: "nat \<Rightarrow> nat \<Rightarrow> irq_state \<Rightarrow> bool \<Rightarrow> gicd \<Rightarrow> gicd option" where
  "update_inj_status c n st in_injection g = do {
     ASSERT (c < num_vcpus g);
     ASSERT (n < configured_irqs g \<or> LPI_BASE \<le> n);
     i \<leftarrow> irq_object g (c, n);
     g \<leftarrow> (if \<not> in_injection
           then do {
             ASSERT (st = PENDING \<or> st = INACTIVE);
             bank_modify c (\<lambda>b. b\<lparr>b_in_injection := bitset_clr (b_in_injection b) (i_id i)\<rparr>) g
           }
           else Some g);
     if st = INACTIVE then update_inj_status_inactive c n g
     else update_inj_status_active_or_pending c st n in_injection g
   }"

subsection \<open>Software-generated interrupts\<close>

definition sgi1r_targets :: "u64 \<Rightarrow> u16" where "sgi1r_targets v = ucast (v AND 0xffff)"
definition sgi1r_intid :: "u64 \<Rightarrow> nat" where "sgi1r_intid v = unat (drop_bit 24 v AND 0xf)"
definition sgi1r_irm :: "u64 \<Rightarrow> bool" where "sgi1r_irm v \<longleftrightarrow> drop_bit 40 v AND 0x1 \<noteq> 0"
definition sgi1r_cluster_affinity :: "u64 \<Rightarrow> affinity" where
  "sgi1r_cluster_affinity v =
     push_bit 8 (ucast (drop_bit 16 v AND 0xff)) OR push_bit 16 (ucast (drop_bit 32 v AND 0xff)) OR
     push_bit 24 (ucast (drop_bit 48 v AND 0xff))"

definition sgi1r_target :: "u64 \<Rightarrow> nat \<Rightarrow> bool" where
  "sgi1r_target v c \<longleftrightarrow> c < 16 \<and> (ucast (sgi1r_targets v) :: u32) AND push_bit c 1 \<noteq> 0"

definition icc_sgi1r_el1 :: "u64 \<Rightarrow> nat \<Rightarrow> gicd \<Rightarrow> gicd option" where
  "icc_sgi1r_el1 v self g =
     (if PPI_BASE \<le> sgi1r_intid v then Some g
      else if sgi1r_irm v
      then for_each [0..<num_vcpus g] (\<lambda>c g. if c = self then Some g else send_sgi self c (sgi1r_intid v) g) g
      else case cpu_affinity_to_cluster (cluster_map g) (sgi1r_cluster_affinity v) of
             None \<Rightarrow> Some g
           | Some cl \<Rightarrow>
               for_each [0..<16]
                 (\<lambda>c g. if \<not> sgi1r_target v c then Some g
                        else if cluster_vcpu_id cl (of_nat c) = INVALID_VCPU_ID then Some g
                        else send_sgi self (unat (cluster_vcpu_id cl (of_nat c))) (sgi1r_intid v) g) g)"

subsection \<open>Life cycle\<close>

definition enable_cpu :: "nat \<Rightarrow> gicd \<Rightarrow> gicd option" where
  "enable_cpu c g = do {
     ASSERT (c < num_vcpus g);
     b \<leftarrow> nth_opt (local g) c;
     ASSERT (\<not> b_notify b);
     bank_modify c (\<lambda>b. b\<lparr>b_notify := True\<rparr>) g
   }"

definition disable_cpu :: "nat \<Rightarrow> gicd \<Rightarrow> gicd option" where
  "disable_cpu c g = do {
     ASSERT (c < num_vcpus g);
     b \<leftarrow> nth_opt (local g) c;
     ASSERT (b_notify b);
     bank_modify c (\<lambda>b. b\<lparr>b_notify := False\<rparr>) g
   }"

text \<open>The target byte that a reset gives to the private interrupts of a vCPU.\<close>

definition reset_target :: "gicd \<Rightarrow> nat \<Rightarrow> u8" where
  "reset_target g c =
     (if version_code GIC_V3 \<le> version_code (version g) \<or> GICV2_MAX_CPUS \<le> c then 0 else push_bit c 1)"

definition reset_status_bitfields_on_vcpu :: "nat \<Rightarrow> gicd \<Rightarrow> gicd option" where
  "reset_status_bitfields_on_vcpu c g = do {
     g \<leftarrow> for_each [0..<configured_irqs g]
           (\<lambda>n g. do {
              i \<leftarrow> irq_object g (c, n);
              if i_hw i
              then bank_modify c (\<lambda>b. if b_in_injection b n
                                        then b\<lparr>b_pending := bitset_set (b_pending b) n\<rparr> else b) g
              else bank_modify c (\<lambda>b. b\<lparr>b_pending := bitset_clr (b_pending b) n\<rparr>) g
            }) g;
     bank_modify c (\<lambda>b. b\<lparr>b_in_injection := bitset_reset\<rparr>) g
   }"

definition gicd_reset :: "gicd \<Rightarrow> gicd option" where
  "gicd_reset g = do {
     g \<leftarrow> for_each [0..<num_vcpus g]
           (\<lambda>c g. do {
              g \<leftarrow> bank_modify c (\<lambda>b. b\<lparr>
                     b_sgi := map (\<lambda>i. irq_set_enable True (irq_reset (reset_target g c) i)) (b_sgi b),
                     b_ppi := map (irq_reset (reset_target g c)) (b_ppi b)\<rparr>) g;
              reset_status_bitfields_on_vcpu c g
            }) g;
     Some (g\<lparr>spi := map (irq_reset 1) (spi g), ctlr := 0\<rparr>)
   }"

definition compute_irq_lines :: "u16 \<Rightarrow> nat" where
  "compute_irq_lines desired = unat (min (of_nat MAX_IRQ_NO_LPI) (align_up (ucast desired) 32))"

definition gicd_new :: "irq_ctlr_version \<Rightarrow> nat \<Rightarrow> bool \<Rightarrow> u16 \<Rightarrow> clusters \<Rightarrow> redist list \<Rightarrow> bool \<Rightarrow> gicd" where
  "gicd_new v nv mem conf cl rs st =
     \<lparr>version = v, num_vcpus = nv, configured_irqs = compute_irq_lines conf, ctlr = push_bit 6 1, local = [],
      spi = [], lpi = [], prop_baser = 0, pend_baser = 0, mem_bus = mem, has_its = False, vcpu_hint = 0,
      redists = rs, cluster_map = cl, notified = [], stats_enabled = st\<rparr>"

definition banked_new :: banked where
  "banked_new =
     \<lparr>b_sgi = map (\<lambda>n. irq_new\<lparr>i_id := n\<rparr>) [0..<MAX_SGI],
      b_ppi = map (\<lambda>n. irq_new\<lparr>i_id := n + MAX_SGI\<rparr>) [0..<MAX_PPI],
      b_pending = bitset_reset, b_in_injection = bitset_reset, b_notify = False\<rparr>"

definition lpi_new :: "nat \<Rightarrow> irq" where
  "lpi_new n = irq_configure_hw False 0 True (irq_set_prio 0xff (irq_set_group1 True
     ((irq_set_enable True irq_new)\<lparr>i_id := n + LPI_BASE\<rparr>)))"

text \<open>\<open>alloc\<close> and \<open>alloc_lpi\<close> say whether the allocations succeed.\<close>

definition gicd_init :: "bool \<Rightarrow> bool \<Rightarrow> gicd \<Rightarrow> (bool \<times> gicd) option" where
  "gicd_init alloc alloc_lpi g =
     (if version g = GIC_V2 \<and> GICV2_MAX_CPUS < num_vcpus g then Some (False, g)
      else if configured_irqs g \<le> SPI_BASE then Some (False, g)
      else if \<not> alloc then Some (False, g)
      else
        let g = g\<lparr>local := replicate (num_vcpus g) banked_new,
                   spi := map (\<lambda>n. irq_new\<lparr>i_id := MAX_PPI + MAX_SGI + n\<rparr>) [0..<configured_spis g]\<rparr>
        in if version g = GIC_V3 \<and> mem_bus g
           then if \<not> alloc_lpi then Some (False, g)
                else do {
                  g \<leftarrow> gicd_reset (g\<lparr>lpi := map lpi_new [0..<MAX_IRQ - LPI_BASE]\<rparr>);
                  Some (True, g)
                }
           else do { g \<leftarrow> gicd_reset g; Some (True, g) })"

definition add_its :: "gicd \<Rightarrow> gicd" where
  "add_its g = g\<lparr>has_its := True\<rparr>"

text \<open>
  \<open>assert_lpi\<close>: the configuration byte is read from the guest's memory; \<open>read_conf\<close> is the
  result of that read at an address.
\<close>

definition assert_lpi :: "(u64 \<Rightarrow> u8 option) \<Rightarrow> nat \<Rightarrow> u64 \<Rightarrow> gicd \<Rightarrow> gicd option" where
  "assert_lpi read_conf pintid target_cpu g = do {
     ASSERT (pintid < MAX_IRQ);
     ASSERT (LPI_BASE \<le> pintid);
     i \<leftarrow> irq_object g (0, pintid);
     if irq_pending i then Some g
     else do {
       ASSERT (prop_baser g \<noteq> 0);
       case read_conf ((prop_baser g AND 0xFFFFFFFFF000) + of_nat (pintid - LPI_BASE)) of
         None \<Rightarrow> Some g
       | Some lpi_prop \<Rightarrow>
           if lpi_prop AND 1 = 0 then Some g
           else do {
             g \<leftarrow> irq_modify (0, pintid) (irq_set_prio (lpi_prop AND 0xFC)) g;
             update \<leftarrow> set_pending 0 (set_target_cpu (irq_target CPU_ID target_cpu) 0);
             g \<leftarrow> set_info (0, pintid) update g;
             (b, g) \<leftarrow> notify_target (i_id i) (irq_target CPU_ID target_cpu) g;
             Some g
           }
     }
   }"

subsection \<open>Queries\<close>

record irq_info =
  info_active :: bool
  info_pending :: bool
  info_enabled :: bool
  info_in_injection :: bool
  info_priority :: u8
  info_target :: u32
  info_num_asserted :: u64
  info_num_acked :: u64

definition get_irq_info :: "nat \<Rightarrow> nat \<Rightarrow> gicd \<Rightarrow> irq_info option option" where
  "get_irq_info c n g =
     (if num_vcpus g \<le> c then Some None
      else if configured_irqs g \<le> n then Some None
      else do {
        i \<leftarrow> irq_object g (c, n);
        Some (Some \<lparr>info_active = i_active i, info_pending = irq_pending i, info_enabled = i_enable i,
                    info_in_injection = inj_in_injection (i_info i), info_priority = i_prio i,
                    info_target = (if affinity_routing g
                                   then (if rt_any (i_routing i) then - 1 else routing_affinity (i_routing i))
                                   else ucast (i_target i)),
                    info_num_asserted = i_num_asserted i, info_num_acked = i_num_acked i\<rparr>)
      })"

definition is_irq_in_injection :: "nat \<Rightarrow> nat \<Rightarrow> gicd \<Rightarrow> bool option" where
  "is_irq_in_injection c n g =
     (if num_vcpus g \<le> c then Some False
      else if configured_irqs g \<le> n \<and> n < LPI_BASE then Some False
      else do { b \<leftarrow> nth_opt (local g) c; Some (b_in_injection b n) })"

definition is_irq_in_pending :: "nat \<Rightarrow> nat \<Rightarrow> gicd \<Rightarrow> bool option" where
  "is_irq_in_pending c n g =
     (if num_vcpus g \<le> c then Some False
      else if configured_irqs g \<le> n \<and> n < LPI_BASE then Some False
      else do { b \<leftarrow> nth_opt (local g) c; Some (b_pending b n) })"

subsection \<open>References\<close>

text \<open>Two references to the same object: private interrupts are banked by vCPU.\<close>

definition same_irq :: "irq_ref \<Rightarrow> irq_ref \<Rightarrow> bool" where
  "same_irq r q \<longleftrightarrow> snd r = snd q \<and> (snd r < SPI_BASE \<longrightarrow> fst r = fst q)"

lemma irq_modify_cases:
  assumes "irq_modify (c, n) f g = Some g'"
  obtains (sgi) "n < MAX_SGI" "c < length (local g)" "n < length (b_sgi (local g ! c))"
      "g' = g\<lparr>local := (local g)[c := (local g ! c)\<lparr>b_sgi := (b_sgi (local g ! c))[n := f (b_sgi (local g ! c) ! n)]\<rparr>]\<rparr>"
    | (ppi) "MAX_SGI \<le> n" "n < SPI_BASE" "c < length (local g)" "n - MAX_SGI < length (b_ppi (local g ! c))"
      "g' = g\<lparr>local := (local g)[c := (local g ! c)\<lparr>b_ppi := (b_ppi (local g ! c))[n - MAX_SGI := f (b_ppi (local g ! c) ! (n - MAX_SGI))]\<rparr>]\<rparr>"
    | (spi) "SPI_BASE \<le> n" "n < LPI_BASE" "n - SPI_BASE < length (spi g)"
      "g' = g\<lparr>spi := (spi g)[n - SPI_BASE := f (spi g ! (n - SPI_BASE))]\<rparr>"
    | (lpi) "LPI_BASE \<le> n" "n - LPI_BASE < length (lpi g)"
      "g' = g\<lparr>lpi := (lpi g)[n - LPI_BASE := f (lpi g ! (n - LPI_BASE))]\<rparr>"
proof -
  consider "n < 16" | "16 \<le> n" "n < 32" | "32 \<le> n" "n < 8192" | "8192 \<le> n" by linarith
  then show ?thesis
    using assms that by cases (auto simp: bank_modify_def bind_eq_Some_conv)
qed

lemma irq_modify_object:
  assumes "irq_modify r f g = Some g'"
  shows "irq_object g' q = (if same_irq r q then map_option f (irq_object g q) else irq_object g q)"
proof -
  obtain c n d m where r: "r = (c, n)" "q = (d, m)" by (cases r; cases q)
  consider "m < 16" | "16 \<le> m" "m < 32" | "32 \<le> m" "m < 8192" | "8192 \<le> m" by linarith
  then show ?thesis
    using assms unfolding r
    by (cases rule: irq_modify_cases [of c n f g g', case_names sgi ppi spi lpi])
      (auto simp: same_irq_def nth_opt_def nth_list_update)
qed

lemma irq_modify_total:
  "irq_object g r = Some i \<Longrightarrow> \<exists>g'. irq_modify r f g = Some g'"
  by (cases r) (auto simp: bank_modify_def upd_opt_def bind_eq_Some_conv split: if_splits)

subsection \<open>What no operation changes\<close>

text \<open>
  The shape of the state: its constants, the sizes of its arrays, the registered interfaces and the
  number each object carries. Operations on interrupts keep it.
\<close>

definition bank_shape :: "banked \<Rightarrow> nat \<times> nat \<times> bool" where
  "bank_shape b = (length (b_sgi b), length (b_ppi b), b_notify b)"

definition same_shape :: "gicd \<Rightarrow> gicd \<Rightarrow> bool" where
  "same_shape g g' \<longleftrightarrow>
     version g' = version g \<and> num_vcpus g' = num_vcpus g \<and> configured_irqs g' = configured_irqs g \<and>
     ctlr g' = ctlr g \<and> redists g' = redists g \<and> cluster_map g' = cluster_map g \<and> mem_bus g' = mem_bus g \<and>
     has_its g' = has_its g \<and> stats_enabled g' = stats_enabled g \<and> prop_baser g' = prop_baser g \<and>
     map bank_shape (local g') = map bank_shape (local g) \<and>
     length (spi g') = length (spi g) \<and> length (lpi g') = length (lpi g) \<and>
     (\<forall>r. map_option i_id (irq_object g' r) = map_option i_id (irq_object g r))"

lemma same_shape_refl [simp]: "same_shape g g"
  by (simp add: same_shape_def)

lemma same_shape_trans: "same_shape g g' \<Longrightarrow> same_shape g' g'' \<Longrightarrow> same_shape g g''"
  by (simp add: same_shape_def)

lemma same_shape_simps:
  assumes "same_shape g g'"
  shows "version g' = version g" "num_vcpus g' = num_vcpus g" "configured_irqs g' = configured_irqs g"
    "ctlr g' = ctlr g" "redists g' = redists g" "cluster_map g' = cluster_map g"
    "stats_enabled g' = stats_enabled g" "affinity_routing g' = affinity_routing g"
    "length (local g') = length (local g)" "prop_baser g' = prop_baser g"
    "group0_enabled g' = group0_enabled g" "group1_enabled g' = group1_enabled g"
    "vcpu_can_receive_irq g' = vcpu_can_receive_irq g"
proof -
  show "length (local g') = length (local g)"
    using assms by (auto simp: same_shape_def dest: map_eq_imp_length_eq)
qed (use assms in \<open>auto simp: same_shape_def affinity_routing_def group0_enabled_def group1_enabled_def
    vcpu_can_receive_irq_def fun_eq_iff\<close>)

lemma same_shape_notify:
  assumes "same_shape g g'" "c < length (local g)"
  shows "b_notify (local g' ! c) = b_notify (local g ! c)"
proof -
  have "map bank_shape (local g') ! c = map bank_shape (local g) ! c" using assms(1) by (simp add: same_shape_def)
  then show ?thesis using assms same_shape_simps(9) [OF assms(1)] by (simp add: bank_shape_def)
qed

lemma irq_object_fields [simp]:
  "irq_object (g\<lparr>notified := x\<rparr>) r = irq_object g r" "irq_object (g\<lparr>vcpu_hint := y\<rparr>) r = irq_object g r"
  by (cases r; simp)+

lemma same_shape_fields [simp]:
  "same_shape g (g'\<lparr>notified := x\<rparr>) = same_shape g g'"
  "same_shape g (g'\<lparr>vcpu_hint := y\<rparr>) = same_shape g g'"
  "same_shape (g\<lparr>notified := x\<rparr>) g' = same_shape g g'"
  "same_shape (g\<lparr>vcpu_hint := y\<rparr>) g' = same_shape g g'"
  by (simp_all add: same_shape_def)

lemma irq_modify_shape:
  assumes "irq_modify r f g = Some g'" "\<And>i. i_id (f i) = i_id i"
  shows "same_shape g g'"
proof -
  obtain c n where r: "r = (c, n)" by (cases r)
  have "map_option i_id (irq_object g' q) = map_option i_id (irq_object g q)" for q
    using irq_modify_object [OF assms(1)] assms(2) by (simp add: option.map_comp comp_def)
  moreover have "map bank_shape (local g') = map bank_shape (local g) \<and> length (spi g') = length (spi g) \<and>
      length (lpi g') = length (lpi g)"
    using assms(1) unfolding r
    by (cases rule: irq_modify_cases [of c n f g g', case_names sgi ppi spi lpi])
      (auto simp: bank_shape_def list_eq_iff_nth_eq nth_list_update)
  moreover have "version g' = version g \<and> num_vcpus g' = num_vcpus g \<and> configured_irqs g' = configured_irqs g \<and>
     ctlr g' = ctlr g \<and> redists g' = redists g \<and> cluster_map g' = cluster_map g \<and> mem_bus g' = mem_bus g \<and>
     has_its g' = has_its g \<and> stats_enabled g' = stats_enabled g \<and> prop_baser g' = prop_baser g"
    using assms(1) unfolding r
    by (cases rule: irq_modify_cases [of c n f g g', case_names sgi ppi spi lpi]) simp_all
  ultimately show ?thesis by (simp add: same_shape_def)
qed

text \<open>A change of the bit sets of a bank.\<close>

definition bits_only :: "(banked \<Rightarrow> banked) \<Rightarrow> bool" where
  "bits_only f \<longleftrightarrow> (\<forall>b. b_sgi (f b) = b_sgi b \<and> b_ppi (f b) = b_ppi b \<and> b_notify (f b) = b_notify b)"

lemma irq_object_cong:
  assumes "length (local g') = length (local g)" "spi g' = spi g" "lpi g' = lpi g"
    and "\<And>c. c < length (local g) \<Longrightarrow> b_sgi (local g' ! c) = b_sgi (local g ! c) \<and> b_ppi (local g' ! c) = b_ppi (local g ! c)"
  shows "irq_object g' r = irq_object g r"
proof -
  obtain c n where r: "r = (c, n)" by (cases r)
  show ?thesis
  proof (cases "c < length (local g)")
    case True
    then show ?thesis using assms(1-3) assms(4) [OF True] by (simp add: r nth_opt_def)
  next
    case False
    then show ?thesis using assms(1-3) by (simp add: r nth_opt_def)
  qed
qed

lemma bank_modify_object:
  assumes "bank_modify c f g = Some g'" "bits_only f"
  shows "irq_object g' r = irq_object g r"
proof (rule irq_object_cong)
  have g': "g' = g\<lparr>local := (local g)[c := f (local g ! c)]\<rparr>" "c < length (local g)"
    using assms(1) by (auto simp: bank_modify_def bind_eq_Some_conv)
  show "length (local g') = length (local g)" "spi g' = spi g" "lpi g' = lpi g" by (simp_all add: g'(1))
  show "b_sgi (local g' ! d) = b_sgi (local g ! d) \<and> b_ppi (local g' ! d) = b_ppi (local g ! d)"
    if "d < length (local g)" for d
    using that assms(2) g' by (cases "d = c") (simp_all add: bits_only_def)
qed

lemma bank_modify_shape:
  assumes "bank_modify c f g = Some g'" "bits_only f"
  shows "same_shape g g'"
proof -
  have g': "g' = g\<lparr>local := (local g)[c := f (local g ! c)]\<rparr>" "c < length (local g)"
    using assms(1) by (auto simp: bank_modify_def bind_eq_Some_conv)
  have "bank_shape (f b) = bank_shape b" for b using assms(2) by (simp add: bits_only_def bank_shape_def)
  then have "map bank_shape (local g') = map bank_shape (local g)"
    using g' by (simp add: map_update) (metis list_update_id nth_map)
  then show ?thesis using bank_modify_object [OF assms] g'(1) by (simp add: same_shape_def)
qed

declare irq_object.simps [simp del] irq_modify.simps [simp del]

subsection \<open>Predicates that the operations keep\<close>

text \<open>
  The interface between the primitive changes of the state and the operations: a predicate that
  every primitive change keeps is kept by every operation. A change of an object keeps its number
  and adds no pending sender other than 0, unless it is a software-generated interrupt without
  affinity routing; the pending bits that are set are numbers of objects.
\<close>

named_theorems tot_rules

definition allowed :: "gicd \<Rightarrow> irq \<Rightarrow> irq \<Rightarrow> bool" where
  "allowed g i j \<longleftrightarrow> i_id j = i_id i \<and>
     (pend_set (i_info j) \<subseteq> insert 0 (pend_set (i_info i)) \<or> (i_id i < MAX_SGI \<and> \<not> affinity_routing g))"

definition known :: "gicd \<Rightarrow> nat \<Rightarrow> bool" where
  "known g n \<longleftrightarrow> (\<exists>r i. irq_object g r = Some i \<and> i_id i = n)"

definition marks_known :: "gicd \<Rightarrow> (banked \<Rightarrow> banked) \<Rightarrow> bool" where
  "marks_known g f \<longleftrightarrow> bits_only f \<and> (\<forall>b n. b_pending (f b) n \<longrightarrow> b_pending b n \<or> known g n)"

lemma knownI: "irq_object g r = Some i \<Longrightarrow> known g (i_id i)"
  unfolding known_def by blast

lemma known_shape:
  assumes "same_shape g g'" "known g n"
  shows "known g' n"
proof -
  obtain r i where i: "irq_object g r = Some i" "i_id i = n" using assms(2) by (auto simp: known_def)
  have "map_option i_id (irq_object g' r) = map_option i_id (irq_object g r)"
    using assms(1) unfolding same_shape_def by blast
  then obtain j where "irq_object g' r = Some j" "i_id j = n" using i by (cases "irq_object g' r") auto
  then show ?thesis unfolding known_def by blast
qed

lemma known_shape1: "irq_object g r = Some i \<Longrightarrow> same_shape g g' \<Longrightarrow> known g' (i_id i)"
  by (rule known_shape [OF _ knownI])

lemma known_shape2:
  "irq_object g r = Some i \<Longrightarrow> same_shape g g' \<Longrightarrow> same_shape g' g'' \<Longrightarrow> known g'' (i_id i)"
  by (rule known_shape [OF _ known_shape1])

lemma irq_ops_id [simp]:
  "i_id (irq_assert_sw i) = i_id i" "i_id (irq_deassert_sw i) = i_id i" "i_id (irq_assert_line i) = i_id i"
  "i_id (irq_deassert_line i) = i_id i" "i_id (irq_set_enable b i) = i_id i" "i_id (irq_disable b i) = i_id i"
  "i_id (irq_set_group1 b i) = i_id i" "i_id (irq_set_prio p i) = i_id i" "i_id (irq_set_target t i) = i_id i"
  "i_id (irq_configure_hw h q e i) = i_id i" "i_id (irq_set_encoded_edge v i) = i_id i"
  "i_id (irq_activate b i) = i_id i" "i_id (irq_deactivate b i) = i_id i" "i_id (irq_reset t i) = i_id i"
  by (simp_all add: irq_assert_sw_def irq_deassert_sw_def irq_assert_line_def irq_deassert_line_def
      irq_set_enable_def irq_disable_def irq_set_group1_def irq_set_prio_def irq_set_target_def irq_configure_hw_def
      irq_set_encoded_edge_def irq_activate_def irq_deactivate_def irq_reset_def Let_def)

lemma irq_ops_info [simp]:
  "i_info (irq_assert_sw i) = i_info i" "i_info (irq_deassert_sw i) = i_info i" "i_info (irq_assert_line i) = i_info i"
  "i_info (irq_deassert_line i) = i_info i" "i_info (irq_set_enable b i) = i_info i" "i_info (irq_disable b i) = i_info i"
  "i_info (irq_set_group1 b i) = i_info i" "i_info (irq_set_prio p i) = i_info i" "i_info (irq_set_target t i) = i_info i"
  "i_info (irq_configure_hw h q e i) = i_info i" "i_info (irq_set_encoded_edge v i) = i_info i"
  "i_info (irq_activate b i) = i_info i" "i_info (irq_deactivate b i) = i_info i"
  by (simp_all add: irq_assert_sw_def irq_deassert_sw_def irq_assert_line_def irq_deassert_line_def
      irq_set_enable_def irq_disable_def irq_set_group1_def irq_set_prio_def irq_set_target_def irq_configure_hw_def
      irq_set_encoded_edge_def irq_activate_def irq_deactivate_def)

lemma allowed_same_info [simp]:
  "i_id j = i_id i \<Longrightarrow> i_info j = i_info i \<Longrightarrow> allowed g i j"
  by (auto simp: allowed_def)

lemma bits_only_simps [simp]:
  "bits_only (\<lambda>b. b\<lparr>b_pending := f b\<rparr>)" "bits_only (\<lambda>b. b\<lparr>b_in_injection := f b\<rparr>)"
  "bits_only (\<lambda>b. b\<lparr>b_in_injection := f b, b_pending := h b\<rparr>)"
  "bits_only (\<lambda>b. b\<lparr>b_pending := f b, b_in_injection := h b\<rparr>)"
  by (simp_all add: bits_only_def)

lemma marks_known_simps [simp]:
  "known g n \<Longrightarrow> marks_known g (\<lambda>b. b\<lparr>b_pending := bitset_set (b_pending b) n\<rparr>)"
  "marks_known g (\<lambda>b. b\<lparr>b_in_injection := f b\<rparr>)"
  "marks_known g (\<lambda>b. b\<lparr>b_in_injection := f b, b_pending := bitset_clr (b_pending b) n\<rparr>)"
  by (auto simp: marks_known_def)

lemma par_any: "(\<And>x. P x) \<Longrightarrow> par m P"
  by (cases m) simp_all

lemma par_irq_object: "(\<And>i. irq_object g r = Some i \<Longrightarrow> P i) \<Longrightarrow> par (irq_object g r) P"
  by (cases "irq_object g r") simp_all

lemmas par_pure =
  par_any [where m = "vcpu_can_receive_irq g c n" for g c n] par_any [where m = "is_cpu_targeted t c" for t c]
  par_any [where m = "route_spi i h g" for i h g] par_any [where m = "is_targeting_cpu i c" for i c]
  par_any [where m = "is_injected n i" for n i] par_any [where m = "get_pending_sender_id i" for i]
  par_any [where m = "irq_eligible c r g" for c r g]

text \<open>What the changes of the packed information do to the pending senders.\<close>

lemma inj_results:
  "set_pending s i = Some j \<Longrightarrow> pend_set j = insert s (pend_set i)"
  "unset_pending s i = Some j \<Longrightarrow> pend_set j = pend_set i - {s}"
  "set_injected s i = Some j \<Longrightarrow> pend_set j = pend_set i"
  "unset_injected s i = Some j \<Longrightarrow> pend_set j = pend_set i"
proof -
  have lt: "set_pending s i = Some j \<Longrightarrow> s < 8" "unset_pending s i = Some j \<Longrightarrow> s < 8"
    "set_injected s i = Some j \<Longrightarrow> s < 8" "unset_injected s i = Some j \<Longrightarrow> s < 8"
    by (auto simp: set_pending_def unset_pending_def set_injected_def unset_injected_def ASSERT_def split: if_splits)
  show "set_pending s i = Some j \<Longrightarrow> pend_set j = insert s (pend_set i)" using lt(1) by auto
  show "unset_pending s i = Some j \<Longrightarrow> pend_set j = pend_set i - {s}" using lt(2) by auto
  show "set_injected s i = Some j \<Longrightarrow> pend_set j = pend_set i" using lt(3) by auto
  show "unset_injected s i = Some j \<Longrightarrow> pend_set j = pend_set i" using lt(4) by auto
qed

lemma par_inj:
  "(\<And>j. pend_set j = insert s (pend_set i) \<Longrightarrow> P j) \<Longrightarrow> par (set_pending s i) P"
  "(\<And>j. pend_set j = pend_set i - {s} \<Longrightarrow> P j) \<Longrightarrow> par (unset_pending s i) P"
  "(\<And>j. pend_set j = pend_set i \<Longrightarrow> P j) \<Longrightarrow> par (set_injected s i) P"
  "(\<And>j. pend_set j = pend_set i \<Longrightarrow> P j) \<Longrightarrow> par (unset_injected s i) P"
  using inj_results by (auto simp: par_iff)

locale gic_marks =
  fixes I :: "gicd \<Rightarrow> bool"
  assumes mark: "I g \<Longrightarrow> known g n \<Longrightarrow>
           bank_modify c (\<lambda>b. b\<lparr>b_pending := bitset_set (b_pending b) n\<rparr>) g = Some g' \<Longrightarrow> I g'"
    and others: "I (g\<lparr>notified := x\<rparr>) = I g" "I (g\<lparr>vcpu_hint := y\<rparr>) = I g"
begin

lemma par_mark:
  assumes "I g" "known g n" "\<And>g'. I g' \<Longrightarrow> same_shape g g' \<Longrightarrow> P g'"
  shows "par (bank_modify c (\<lambda>b. b\<lparr>b_pending := bitset_set (b_pending b) n\<rparr>) g) P"
  using bank_modify_shape mark [OF assms(1,2)] assms(3) by (auto simp: par_iff)

lemma par_notify_cpu:
  assumes "I g" "known g n" "\<And>g'. I g' \<Longrightarrow> same_shape g g' \<Longrightarrow> P g'"
  shows "par (notify_cpu c n g) P"
  unfolding notify_cpu_def using assms by (auto intro!: par_mark par_pure simp: others)

lemma par_notify_target:
  assumes "I g" "known g n" "\<And>x g'. I g' \<Longrightarrow> P (x, g')"
  shows "par (notify_target n t g) P"
proof -
  let ?f = "\<lambda>i g. is_cpu_targeted t i \<bind> (\<lambda>is. if is then notify_cpu i n g else Some g)"
  have "par (for_each xs ?f g) (\<lambda>g'. I g' \<and> known g' n)" for xs
  proof (rule par_for_each [where I = "\<lambda>g'. I g' \<and> known g' n"])
    show "I g \<and> known g n" using assms by simp
    show "par (?f i h) (\<lambda>g'. I g' \<and> known g' n)" if "I h \<and> known h n" for i h
      using that by (auto intro!: par_pure par_notify_cpu intro: known_shape)
  qed
  then have "par (for_each xs ?f g) (\<lambda>g'. P (True, g'))" for xs
    by (rule par_mono) (simp add: assms(3))
  then show ?thesis unfolding notify_target_def using assms by (auto intro!: par_notify_cpu)
qed

end

locale gic_frame = gic_marks +
  assumes modify: "I g \<Longrightarrow> irq_modify r f g = Some g' \<Longrightarrow> (\<And>i. irq_object g r = Some i \<Longrightarrow> allowed g i (f i)) \<Longrightarrow>
           (\<And>i. i_id (f i) = i_id i) \<Longrightarrow> I g'"
begin

lemma par_irq_modify:
  assumes "I g" "\<And>i. irq_object g r = Some i \<Longrightarrow> allowed g i (f i)" "\<And>i. i_id (f i) = i_id i"
    and "\<And>g'. I g' \<Longrightarrow> same_shape g g' \<Longrightarrow> P g'"
  shows "par (irq_modify r f g) P"
  using irq_modify_shape [OF _ assms(3)] modify [OF assms(1) _ assms(2,3)] assms(4) by (auto simp: par_iff)

lemma par_set_info:
  assumes "I g" "\<And>i. irq_object g r = Some i \<Longrightarrow> allowed g i (i\<lparr>i_info := v\<rparr>)"
    and "\<And>g'. I g' \<Longrightarrow> same_shape g g' \<Longrightarrow> P g'"
  shows "par (set_info r v g) P"
  unfolding set_info_def by (rule par_irq_modify [OF assms(1,2)]) (use assms(3) in simp_all)

lemma par_count_asserted:
  "I g \<Longrightarrow> (\<And>g'. I g' \<Longrightarrow> same_shape g g' \<Longrightarrow> P g') \<Longrightarrow> par (count_asserted r g) P"
  unfolding count_asserted_def by (auto intro!: par_irq_modify)

lemmas par_rules = par_irq_object par_pure par_inj par_irq_modify par_set_info par_count_asserted
  par_notify_target

lemma par_redirect_spi:
  assumes "I g" "\<And>x g'. I g' \<Longrightarrow> P (x, g')"
  shows "par (redirect_spi r h g) P"
  unfolding redirect_spi_def using assms
  by (auto intro!: par_rules intro: known_shape1 known_shape2 knownI simp: allowed_def)

lemma par_assert_pi:
  assumes "I g" "\<And>x g'. I g' \<Longrightarrow> P (x, g')"
  shows "par (assert_pi c r g) P"
  unfolding assert_pi_def next_hint_def Let_def using assms
  by (auto intro!: par_rules intro: known_shape1 known_shape2 knownI simp: allowed_def others)

lemma par_deassert_pi:
  assumes "I g" "\<And>x g'. I g' \<Longrightarrow> P (x, g')"
  shows "par (deassert_pi c r g) P"
  unfolding deassert_pi_def using assms by (auto intro!: par_rules simp: allowed_def)

lemma par_pi_sw:
  assumes "I g" "\<And>x g'. I g' \<Longrightarrow> P (x, g')"
  shows "par (assert_pi_sw c r g) P" "par (deassert_pi_sw c r g) P"
  unfolding assert_pi_sw_def deassert_pi_sw_def using assms
  by (auto intro!: par_rules par_assert_pi par_deassert_pi)

lemma par_sgi:
  assumes "I g" "\<And>x g'. I g' \<Longrightarrow> P (x, g')"
  shows "par (assert_sgi a t r g) P" "par (deassert_sgi a t r g) P"
  unfolding assert_sgi_def deassert_sgi_def Let_def using assms
  by (auto intro!: par_rules par_assert_pi par_deassert_pi intro: known_shape1 known_shape2 knownI simp: allowed_def)

lemma par_lines:
  assumes "I g" "\<And>x g'. I g' \<Longrightarrow> P (x, g')"
  shows "par (assert_ppi c n g) P" "par (assert_global_line n g) P" "par (config_irq c n h p e g) P"
  unfolding assert_ppi_def assert_global_line_def config_irq_def using assms
  by (auto intro!: par_rules par_assert_pi)

lemma par_lines2:
  assumes "I g" "\<And>g'. I g' \<Longrightarrow> P g'"
  shows "par (deassert_line c n g) P" "par (send_sgi a t n g) P"
  unfolding deassert_line_def send_sgi_def using assms
  by (auto intro!: par_rules par_deassert_pi par_sgi)

lemma par_update_info:
  assumes "I g" "\<And>g'. I g' \<Longrightarrow> P g'"
  shows "par (update_info c r dj dp g) P"
  unfolding update_info_def using assms
  by (auto intro!: par_rules simp: allowed_def split: option.split)

lemma par_mark_if_pending:
  assumes "I g" "\<And>g'. I g' \<Longrightarrow> P g'"
  shows "par (mark_if_pending c r g) P"
  unfolding mark_if_pending_def using assms by (auto intro!: par_irq_object par_mark intro: knownI)

lemma par_inj_status:
  assumes "I g" "\<And>g'. I g' \<Longrightarrow> P g'"
  shows "par (update_inj_status_inactive c n g) P" "par (update_inj_status_active_or_pending c st n ij g) P"
  unfolding update_inj_status_inactive_def update_inj_status_active_or_pending_def using assms
  by (auto intro!: par_irq_modify par_update_info par_mark_if_pending)

end

interpretation shape: gic_frame "same_shape g0" for g0
proof
  fix g g' :: gicd and r f
  assume "same_shape g0 g" "irq_modify r f g = Some g'" "\<And>i. i_id (f i) = i_id i"
  then show "same_shape g0 g'" using irq_modify_shape same_shape_trans by blast
next
  fix g g' :: gicd and c n
  assume s: "same_shape g0 g" and b: "bank_modify c (\<lambda>b. b\<lparr>b_pending := bitset_set (b_pending b) n\<rparr>) g = Some g'"
  have "same_shape g g'" by (rule bank_modify_shape [OF b]) simp
  with s show "same_shape g0 g'" by (rule same_shape_trans)
qed simp_all

text \<open>Marking an interrupt at vCPUs changes no object and no in-injection bit.\<close>

definition same_objects :: "gicd \<Rightarrow> gicd \<Rightarrow> bool" where
  "same_objects g g' \<longleftrightarrow> same_shape g g' \<and> irq_object g' = irq_object g \<and>
     map b_in_injection (local g') = map b_in_injection (local g)"

interpretation objs: gic_marks "same_objects g0" for g0
proof
  fix g g' :: gicd and c n
  assume s: "same_objects g0 g" and b: "bank_modify c (\<lambda>b. b\<lparr>b_pending := bitset_set (b_pending b) n\<rparr>) g = Some g'"
  have "irq_object g' = irq_object g" using bank_modify_object [OF b] by (simp add: fun_eq_iff)
  moreover have "map b_in_injection (local g') = map b_in_injection (local g)"
    using b by (auto simp: bank_modify_def bind_eq_Some_conv map_update intro!: list_update_same_conv [THEN iffD2])
  moreover have "same_shape g g'" by (rule bank_modify_shape [OF b]) simp
  ultimately show "same_objects g0 g'" using s same_shape_trans by (auto simp: same_objects_def)
next
  show "same_objects g0 (g\<lparr>notified := x\<rparr>) = same_objects g0 g" "same_objects g0 (g\<lparr>vcpu_hint := y\<rparr>) = same_objects g0 g"
    for g x y by (simp_all add: same_objects_def fun_eq_iff)
qed

subsection \<open>Well-formed controllers\<close>

text \<open>
  An initialised controller with every vCPU enabled: the arrays have their sizes and every object
  carries its own number.
\<close>

definition ids_ok :: "gicd \<Rightarrow> bool" where
  "ids_ok g \<longleftrightarrow> (\<forall>r i. irq_object g r = Some i \<longrightarrow> i_id i = snd r)"

definition gic_wf :: "gicd \<Rightarrow> bool" where
  "gic_wf g \<longleftrightarrow> 0 < num_vcpus g \<and> num_vcpus g < 2 ^ 16 \<and> SPI_BASE < configured_irqs g \<and>
     configured_irqs g \<le> MAX_IRQ_NO_LPI \<and>
     length (redists g) = num_vcpus g \<and> map bank_shape (local g) = replicate (num_vcpus g) (MAX_SGI, MAX_PPI, True) \<and>
     length (spi g) = configured_irqs g - SPI_BASE \<and> (lpi g = [] \<or> length (lpi g) = MAX_IRQ - LPI_BASE) \<and> ids_ok g"

lemma wf_id: "gic_wf g \<Longrightarrow> irq_object g r = Some i \<Longrightarrow> i_id i = snd r"
  unfolding gic_wf_def ids_ok_def by blast

definition valid_ref :: "gicd \<Rightarrow> irq_ref \<Rightarrow> bool" where
  "valid_ref g r \<longleftrightarrow>
     (if snd r < SPI_BASE then fst r < num_vcpus g
      else snd r < configured_irqs g \<or> (LPI_BASE \<le> snd r \<and> snd r < MAX_IRQ \<and> lpi g \<noteq> []))"

lemma wf_bank:
  assumes "gic_wf g" "c < num_vcpus g"
  shows "length (local g) = num_vcpus g" "length (b_sgi (local g ! c)) = 16" "length (b_ppi (local g ! c)) = 16"
    "b_notify (local g ! c)"
proof -
  have m: "map bank_shape (local g) = replicate (num_vcpus g) (16, 16, True)" using assms(1) by (simp add: gic_wf_def)
  then show l: "length (local g) = num_vcpus g" using length_map [of bank_shape "local g"] by simp
  have "map bank_shape (local g) ! c = (16, 16, True)" using m assms(2) by simp
  then show "length (b_sgi (local g ! c)) = 16" "length (b_ppi (local g ! c)) = 16" "b_notify (local g ! c)"
    using l assms(2) by (simp_all add: bank_shape_def)
qed

lemma wf_len: "gic_wf g \<Longrightarrow> length (local g) = num_vcpus g" "gic_wf g \<Longrightarrow> length (redists g) = num_vcpus g"
  by (auto simp: gic_wf_def dest: arg_cong [where f = length])

lemma valid_ref_object:
  assumes "gic_wf g" "valid_ref g r"
  obtains i where "irq_object g r = Some i" "i_id i = snd r"
proof -
  obtain c n where r: "r = (c, n)" by (cases r)
  consider "n < 16" "c < num_vcpus g" | "16 \<le> n" "n < 32" "c < num_vcpus g" | "32 \<le> n" "n < configured_irqs g"
    | "8192 \<le> n" "n < 9216" "lpi g \<noteq> []"
    using assms(2) by (cases "n < 32"; cases "n < 16") (auto simp: valid_ref_def r)
  then have "\<exists>i. irq_object g r = Some i"
  proof cases
    case 1
    then show ?thesis using wf_bank(1,2) [OF assms(1)] by (simp add: r irq_object.simps nth_opt_def)
  next
    case 2
    then show ?thesis using wf_bank(1,3) [OF assms(1)] by (simp add: r irq_object.simps nth_opt_def)
  next
    case 3
    then show ?thesis using assms(1) by (simp add: r irq_object.simps nth_opt_def gic_wf_def)
  next
    case 4
    then have "length (lpi g) = 1024" using assms(1) by (simp add: gic_wf_def)
    then show ?thesis using 4 by (simp add: r irq_object.simps nth_opt_def)
  qed
  then show ?thesis using that wf_id [OF assms(1)] by blast
qed

lemma gic_wf_shape:
  assumes "gic_wf g" "same_shape g g'"
  shows "gic_wf g'"
proof -
  have "ids_ok g'"
    unfolding ids_ok_def
  proof (intro allI impI)
    fix r i assume i: "irq_object g' r = Some i"
    have "map_option i_id (irq_object g' r) = map_option i_id (irq_object g r)"
      using assms(2) unfolding same_shape_def by blast
    then obtain j where "irq_object g r = Some j" "i_id j = i_id i" using i by (cases "irq_object g r") auto
    then show "i_id i = snd r" using wf_id [OF assms(1)] by metis
  qed
  moreover have "length (lpi g') = length (lpi g)" using assms(2) by (simp add: same_shape_def)
  ultimately show ?thesis using assms unfolding gic_wf_def same_shape_def by force
qed

lemma valid_ref_shape: "same_shape g g' \<Longrightarrow> valid_ref g' r = valid_ref g r"
  by (auto simp: valid_ref_def same_shape_def)

text \<open>The targets that routing produces: no target, a set, or one vCPU.\<close>

definition tgt_ok :: "gicd \<Rightarrow> irq_target \<Rightarrow> bool" where
  "tgt_ok g t \<longleftrightarrow> \<not> tgt_is_valid t \<or> tgt_is_set t \<or> unat (tgt_target t) < num_vcpus g"

lemma cpu_id_target:
  assumes "c < 2 ^ 31"
  shows "\<not> tgt_is_set (irq_target CPU_ID (of_nat c))" "tgt_is_valid (irq_target CPU_ID (of_nat c))"
    "unat (tgt_target (irq_target CPU_ID (of_nat c))) = c"
proof -
  have e: "irq_target CPU_ID (of_nat c) = of_nat c AND 0x7fffffff"
  proof (rule word_eqI_bits)
    fix n :: nat assume "n < LENGTH(32)"
    then show "bit (irq_target CPU_ID (of_nat c)) n = bit ((of_nat c :: u32) AND 0x7fffffff) n"
      by (auto simp: irq_target_def bit_simps mask_bits)
  qed
  have "(of_nat c :: u32) AND 0x7fffffff = take_bit 31 (of_nat c)"
    by (simp add: take_bit_eq_mask mask_eq_decr_exp)
  moreover have "unat (take_bit 31 (of_nat c :: u32)) = c"
    using assms by (simp add: unsigned_take_bit_eq unat_of_nat take_bit_nat_eq_self)
  ultimately have u: "unat (irq_target CPU_ID (of_nat c)) = c" by (simp add: e)
  have "tgt_target (irq_target CPU_ID (of_nat c)) = irq_target CPU_ID (of_nat c)"
    by (simp add: tgt_target_def e)
  with u show "unat (tgt_target (irq_target CPU_ID (of_nat c))) = c" by simp
  have "irq_target CPU_ID (of_nat c) AND 0x80000000 = 0"
    by (rule word_eqI_bits) (auto simp: e bit_simps mask_bits)
  then show "\<not> tgt_is_set (irq_target CPU_ID (of_nat c))" by (simp add: tgt_is_set_def)
  then show "tgt_is_valid (irq_target CPU_ID (of_nat c))" by (auto simp: tgt_is_valid_def tgt_is_set_def)
qed

lemma invalid_target [simp]: "tgt_is_set INVALID_TARGET" "\<not> tgt_is_valid INVALID_TARGET"
  by (simp_all add: tgt_is_set_def tgt_is_valid_def)

subsection \<open>Routing\<close>

lemma route_any_spec:
  assumes "gic_wf g" "h < num_vcpus g"
  shows "\<exists>v<num_vcpus g. route_any n h g = Some (irq_target CPU_ID (of_nat v)) \<and>
     ((\<exists>k<n. can_receive_irq (redists g ! ((h + k) mod num_vcpus g))) \<longrightarrow> can_receive_irq (redists g ! v))"
  using assms(2)
proof (induction n arbitrary: h)
  case 0
  then show ?case by auto
next
  case (Suc n)
  have l: "h < length (local g)" "h < length (redists g)" "b_notify (local g ! h)"
    using Suc.prems wf_bank [OF assms(1), of h] wf_len [OF assms(1)] by simp_all
  show ?case
  proof (cases "can_receive_irq (redists g ! h)")
    case True
    then show ?thesis using l Suc.prems by (auto simp: nth_opt_def)
  next
    case False
    have "(h + 1) mod num_vcpus g < num_vcpus g" using Suc.prems by simp
    from Suc.IH [OF this] obtain v where v: "v < num_vcpus g"
        "route_any n ((h + 1) mod num_vcpus g) g = Some (irq_target CPU_ID (of_nat v))"
        "(\<exists>k<n. can_receive_irq (redists g ! (((h + 1) mod num_vcpus g + k) mod num_vcpus g))) \<longrightarrow>
           can_receive_irq (redists g ! v)" by blast
    have "can_receive_irq (redists g ! v)" if "k < Suc n" "can_receive_irq (redists g ! ((h + k) mod num_vcpus g))" for k
    proof (cases k)
      case 0
      then show ?thesis using that False Suc.prems by simp
    next
      case (Suc m)
      then have "can_receive_irq (redists g ! (((h + 1) mod num_vcpus g + m) mod num_vcpus g))"
        using that(2) by (simp add: mod_add_left_eq)
      then show ?thesis using v(3) that(1) Suc by auto
    qed
    then show ?thesis using v(1,2) False l by (auto simp: nth_opt_def)
  qed
qed

lemma tot_route_no_affinity:
  assumes "gic_wf g"
  shows "tot (route_spi_no_affinity i g) tgt_is_set"
  unfolding route_spi_no_affinity_def
proof (rule tot_for_each)
  show "tgt_is_set (irq_target CPU_SET 0)" by (simp add: tgt_is_set_def irq_target_def)
next
  fix c t assume c: "c \<in> set [0..<min (num_vcpus g) 8]" and t: "tgt_is_set t"
  have "tgt_is_set (t OR push_bit c 1)" using t
    by (auto simp: tgt_is_set_def word_neq_0_bit bit_simps)
  then show "tot (do { b \<leftarrow> nth_opt (local g) c;
          if \<not> b_notify b then Some t
          else if (ucast (i_target i) :: u32) AND push_bit c 1 \<noteq> 0 then add_target_to_set c t
          else Some t}) tgt_is_set"
    using c t wf_len [OF assms] by (simp add: add_target_to_set_def)
qed

lemma tot_route:
  assumes "gic_wf g"
  shows "tot (route_spi i h g) (tgt_ok g)"
proof (cases "affinity_routing g")
  case False
  then show ?thesis using tot_route_no_affinity [OF assms, of i]
    by (auto simp: route_spi_def tgt_ok_def elim: tot_mono)
next
  case True
  have n: "0 < num_vcpus g" "num_vcpus g < 2 ^ 16" using assms by (simp_all add: gic_wf_def)
  have ok: "tgt_ok g (irq_target CPU_ID (of_nat v))" if "v < num_vcpus g" for v
    using cpu_id_target [of v] that n by (simp add: tgt_ok_def)
  show ?thesis
  proof (cases "rt_any (i_routing i)")
    case any: True
    have "h mod num_vcpus g < num_vcpus g" using n by simp
    from route_any_spec [OF assms this, of "num_vcpus g"] obtain v
      where "v < num_vcpus g" "route_any (num_vcpus g) (h mod num_vcpus g) g = Some (irq_target CPU_ID (of_nat v))" by blast
    then show ?thesis using True any n ok by (simp add: route_spi_def)
  next
    case False
    have "\<not> tgt_is_valid INVALID_TARGET" by simp
    then have inv: "tgt_ok g INVALID_TARGET" unfolding tgt_ok_def by blast
    have ok2: "tgt_ok g (irq_target CPU_ID w)" if "\<not> num_vcpus g \<le> unat w" for w
      using ok [of "unat w"] that by simp
    show ?thesis using True False ok2 wf_len [OF assms] inv
      by (simp add: route_spi_def Let_def split: option.split)
  qed
qed

subsection \<open>Operations that do not abort\<close>

lemma tot_irq_object [tot_rules]:
  assumes "gic_wf g0" "same_shape g0 g" "valid_ref g0 r"
    and "\<And>i. irq_object g r = Some i \<Longrightarrow> i_id i = snd r \<Longrightarrow> P i"
  shows "tot (irq_object g r) P"
proof -
  have "gic_wf g" "valid_ref g r" using gic_wf_shape valid_ref_shape assms(1-3) by blast+
  then obtain i where "irq_object g r = Some i" "i_id i = snd r" by (rule valid_ref_object)
  then show ?thesis using assms(4) by simp
qed

lemma tot_irq_modify [tot_rules]:
  assumes "gic_wf g0" "same_shape g0 g" "valid_ref g0 r" "\<And>i. i_id (f i) = i_id i"
    and "\<And>g'. same_shape g0 g' \<Longrightarrow> P g'"
  shows "tot (irq_modify r f g) P"
proof -
  have "gic_wf g" "valid_ref g r" using gic_wf_shape valid_ref_shape assms(1-3) by blast+
  then obtain i where "irq_object g r = Some i" by (rule valid_ref_object)
  then obtain g' where g': "irq_modify r f g = Some g'" using irq_modify_total by blast
  then have "same_shape g0 g'" using irq_modify_shape [OF g' assms(4)] assms(2) same_shape_trans by blast
  then show ?thesis using g' assms(5) by simp
qed

lemma tot_bank_modify [tot_rules]:
  assumes "gic_wf g0" "same_shape g0 g" "c < num_vcpus g0" "bits_only f"
    and "\<And>g'. same_shape g0 g' \<Longrightarrow> P g'"
  shows "tot (bank_modify c f g) P"
proof -
  have "c < length (local g)" using assms(1-3) wf_len same_shape_simps(9) [OF assms(2)] by simp
  then obtain g' where g': "bank_modify c f g = Some g'" by (simp add: bank_modify_def upd_opt_def)
  then have "same_shape g0 g'" using bank_modify_shape [OF g' assms(4)] assms(2) same_shape_trans by blast
  then show ?thesis using g' assms(5) by simp
qed

lemma tot_set_info [tot_rules]:
  assumes "gic_wf g0" "same_shape g0 g" "valid_ref g0 r" "\<And>g'. same_shape g0 g' \<Longrightarrow> P g'"
  shows "tot (set_info r v g) P"
  unfolding set_info_def using assms by (auto intro: tot_irq_modify [OF assms(1-3)])

lemma tot_count_asserted [tot_rules]:
  assumes "gic_wf g0" "same_shape g0 g" "valid_ref g0 r" "\<And>g'. same_shape g0 g' \<Longrightarrow> P g'"
  shows "tot (count_asserted r g) P"
  unfolding count_asserted_def using assms by (auto intro: tot_irq_modify [OF assms(1-3)])

lemma tot_vcpu_can_receive [tot_rules]:
  assumes "gic_wf g0" "same_shape g0 g" "c < num_vcpus g0" "\<And>b. P b"
  shows "tot (vcpu_can_receive_irq g c n) P"
  using assms(3,4) wf_len(2) [OF assms(1)] same_shape_simps(5) [OF assms(2)]
  by (simp add: vcpu_can_receive_irq_def)

lemma tot_notify_cpu [tot_rules]:
  assumes "gic_wf g0" "same_shape g0 g" "c < num_vcpus g0" "\<And>g'. same_shape g0 g' \<Longrightarrow> P g'"
  shows "tot (notify_cpu c n g) P"
proof -
  have "c < length (local g)" "b_notify (local g ! c)"
    using wf_bank [OF gic_wf_shape [OF assms(1,2)], of c] assms(3) same_shape_simps(2) [OF assms(2)] by simp_all
  then show ?thesis unfolding notify_cpu_def
    using assms(4) by (auto intro!: tot_bank_modify [OF assms(1-3)] tot_vcpu_can_receive [OF assms(1) _ assms(3)])
qed

lemma tot_notify_target [tot_rules]:
  assumes "gic_wf g0" "same_shape g0 g" "tgt_ok g0 t" "\<And>x g'. same_shape g0 g' \<Longrightarrow> P (x, g')"
  shows "tot (notify_target n t g) P"
proof -
  have n: "num_vcpus g = num_vcpus g0" using same_shape_simps(2) [OF assms(2)] .
  let ?f = "\<lambda>i g. is_cpu_targeted t i \<bind> (\<lambda>is. if is then notify_cpu i n g else Some g)"
  have "tot (for_each [0..<min (num_vcpus g) 8] ?f g) (same_shape g0)"
  proof (rule tot_for_each [where I = "same_shape g0"])
    show "same_shape g0 g" by (rule assms(2))
  next
    fix i h assume "i \<in> set [0..<min (num_vcpus g) 8]" and h: "same_shape g0 h"
    then have i: "i < 8" "i < num_vcpus g0" using n by simp_all
    then have "\<exists>b. is_cpu_targeted t i = Some b" by (simp add: is_cpu_targeted_def)
    then obtain b where "is_cpu_targeted t i = Some b" by blast
    then show "tot (?f i h) (same_shape g0)"
      using h tot_notify_cpu [OF assms(1) h i(2)] by auto
  qed
  then have "tot (for_each [0..<min (num_vcpus g) 8] ?f g) (\<lambda>g'. P (True, g'))"
    by (rule tot_mono) (rule assms(4))
  moreover have "tot (notify_cpu (unat (tgt_target t)) n g) (\<lambda>g'. P (True, g'))"
    if "tgt_is_valid t" "\<not> tgt_is_set t"
    using that assms(3,4) by (intro tot_notify_cpu [OF assms(1,2)]) (auto simp: tgt_ok_def)
  ultimately show ?thesis unfolding notify_target_def using assms(2,4) by simp
qed

lemma tgt_ok_shape: "same_shape g0 g \<Longrightarrow> tgt_ok g t = tgt_ok g0 t"
  by (simp add: tgt_ok_def same_shape_simps)

lemma tot_route_shape [tot_rules]:
  assumes "gic_wf g0" "same_shape g0 g" "\<And>t. tgt_ok g0 t \<Longrightarrow> P t"
  shows "tot (route_spi i h g) P"
  using tot_route [OF gic_wf_shape [OF assms(1,2)], of i h] assms(3) tgt_ok_shape [OF assms(2)]
  by (auto elim: tot_mono)

lemma tgt_ok_cpu: "gic_wf g0 \<Longrightarrow> c < num_vcpus g0 \<Longrightarrow> tgt_ok g0 (irq_target CPU_ID (of_nat c))"
  using cpu_id_target [of c] by (simp add: tgt_ok_def gic_wf_def)

lemma tot_redirect_spi [tot_rules]:
  assumes "gic_wf g0" "same_shape g0 g" "valid_ref g0 r" "SPI_BASE \<le> snd r"
    and "\<And>x g'. same_shape g0 g' \<Longrightarrow> P (x, g')"
  shows "tot (redirect_spi r h g) P"
  unfolding redirect_spi_def using assms(2,4,5)
  by (auto intro!: tot_irq_object [OF assms(1) _ assms(3)] tot_route_shape [OF assms(1)]
      tot_set_info [OF assms(1) _ assms(3)] tot_notify_target [OF assms(1)])

lemma tot_assert_pi [tot_rules]:
  assumes "gic_wf g0" "same_shape g0 g" "valid_ref g0 r" "PPI_BASE \<le> snd r \<or> affinity_routing g0" "c < num_vcpus g0"
    and "\<And>x g'. same_shape g0 g' \<Longrightarrow> P (x, g')"
  shows "tot (assert_pi c r g) P"
proof -
  note a = same_shape_simps(8)
  show ?thesis unfolding assert_pi_def next_hint_def Let_def using assms(2,4,6) a [OF assms(2)]
  by (auto intro!: tot_irq_object [OF assms(1) _ assms(3)] tot_route_shape [OF assms(1)]
      tot_set_info [OF assms(1) _ assms(3)] tot_count_asserted [OF assms(1) _ assms(3)]
      tot_notify_target [OF assms(1)] tgt_ok_cpu [OF assms(1,5)])
qed

lemma tot_deassert_pi [tot_rules]:
  assumes "gic_wf g0" "same_shape g0 g" "valid_ref g0 r" "PPI_BASE \<le> snd r \<or> affinity_routing g0"
    and "\<And>x g'. same_shape g0 g' \<Longrightarrow> P (x, g')"
  shows "tot (deassert_pi c r g) P"
  unfolding deassert_pi_def using assms(2,4,5) same_shape_simps(8) [OF assms(2)]
  by (auto intro!: tot_irq_object [OF assms(1) _ assms(3)] tot_irq_modify [OF assms(1) _ assms(3)]
      tot_set_info [OF assms(1) _ assms(3)])

lemma tot_assert_pi_sw [tot_rules]:
  assumes "gic_wf g0" "same_shape g0 g" "valid_ref g0 r" "PPI_BASE \<le> snd r \<or> affinity_routing g0" "c < num_vcpus g0"
    and "\<And>x g'. same_shape g0 g' \<Longrightarrow> P (x, g')"
  shows "tot (assert_pi_sw c r g) P" "tot (deassert_pi_sw c r g) P"
  unfolding assert_pi_sw_def deassert_pi_sw_def using assms(2,4,6) same_shape_simps(8) [OF assms(2)]
  by (auto intro!: tot_irq_object [OF assms(1) _ assms(3)] tot_irq_modify [OF assms(1) _ assms(3)]
      tot_assert_pi [OF assms(1) _ assms(3,4,5)] tot_deassert_pi [OF assms(1) _ assms(3,4)])

lemma tot_assert_sgi [tot_rules]:
  assumes "gic_wf g0" "same_shape g0 g" "valid_ref g0 r" "snd r < MAX_SGI" "t < num_vcpus g0"
    and "\<And>x g'. same_shape g0 g' \<Longrightarrow> P (x, g')"
  shows "tot (assert_sgi a t r g) P" "tot (deassert_sgi a t r g) P"
  unfolding assert_sgi_def deassert_sgi_def Let_def using assms(2,4,6) same_shape_simps(8) [OF assms(2)]
  by (auto intro!: tot_irq_object [OF assms(1) _ assms(3)] tot_assert_pi [OF assms(1) _ assms(3) _ assms(5)]
      tot_set_info [OF assms(1) _ assms(3)] tot_count_asserted [OF assms(1) _ assms(3)]
      tot_notify_target [OF assms(1)] tgt_ok_cpu [OF assms(1,5)] tot_deassert_pi [OF assms(1) _ assms(3)])

lemma tot_lines [tot_rules]:
  assumes "gic_wf g0" "same_shape g0 g" "\<And>x g'. same_shape g0 g' \<Longrightarrow> P (x, g')"
  shows "affinity_routing g0 \<or> PPI_BASE \<le> n \<Longrightarrow> tot (assert_ppi c n g) P" "tot (assert_global_line n g) P"
    "tot (config_irq c n h p e g) P"
proof -
  have n: "0 < num_vcpus g0" "num_vcpus g = num_vcpus g0" "configured_irqs g = configured_irqs g0"
    using assms(1) same_shape_simps(2,3) [OF assms(2)] by (simp_all add: gic_wf_def)
  have v: "\<not> num_vcpus g \<le> c \<Longrightarrow> \<not> 32 \<le> n \<Longrightarrow> valid_ref g0 (c, n)" "\<not> configured_irqs g \<le> n \<Longrightarrow> \<not> n < 32 \<Longrightarrow> valid_ref g0 (0, n)"
    "\<not> configured_irqs g \<le> n \<Longrightarrow> \<not> num_vcpus g \<le> c \<Longrightarrow> valid_ref g0 (c, n)"
    using n by (simp_all add: valid_ref_def)
  show "affinity_routing g0 \<or> PPI_BASE \<le> n \<Longrightarrow> tot (assert_ppi c n g) P"
    unfolding assert_ppi_def using assms v n
    by (auto intro!: tot_irq_object [OF assms(1)] tot_irq_modify [OF assms(1)] tot_assert_pi [OF assms(1)])
  show "tot (assert_global_line n g) P"
    unfolding assert_global_line_def using assms v n
    by (auto intro!: tot_irq_object [OF assms(1)] tot_irq_modify [OF assms(1)] tot_assert_pi [OF assms(1)])
  show "tot (config_irq c n h p e g) P"
    unfolding config_irq_def using assms v n by (auto intro!: tot_irq_modify [OF assms(1)])
qed

lemma tot_lines2 [tot_rules]:
  assumes "gic_wf g0" "same_shape g0 g" "\<And>g'. same_shape g0 g' \<Longrightarrow> P g'"
  shows "affinity_routing g0 \<or> PPI_BASE \<le> n \<Longrightarrow> tot (deassert_line c n g) P"
    "t < num_vcpus g0 \<Longrightarrow> n < MAX_SGI \<Longrightarrow> tot (send_sgi a t n g) P"
proof -
  have n: "num_vcpus g = num_vcpus g0" using same_shape_simps(2) [OF assms(2)] by simp
  have v: "\<not> num_vcpus g \<le> c \<Longrightarrow> \<not> 32 \<le> n \<Longrightarrow> valid_ref g0 (c, n)" "t < num_vcpus g0 \<Longrightarrow> n < 16 \<Longrightarrow> valid_ref g0 (t, n)"
    using n by (simp_all add: valid_ref_def)
  show "affinity_routing g0 \<or> PPI_BASE \<le> n \<Longrightarrow> tot (deassert_line c n g) P"
    unfolding deassert_line_def using assms v n
    by (auto intro!: tot_irq_object [OF assms(1)] tot_irq_modify [OF assms(1)] tot_deassert_pi [OF assms(1)])
  show "t < num_vcpus g0 \<Longrightarrow> n < MAX_SGI \<Longrightarrow> tot (send_sgi a t n g) P"
    unfolding send_sgi_def using assms v n by (auto intro!: tot_assert_sgi(1) [OF assms(1)])
qed

subsection \<open>The invariant of the controller\<close>

text \<open>
  Pending bits are set for existing interrupts only, and only a software-generated interrupt without
  affinity routing is pending for a sender other than 0.
\<close>

definition bits_ok :: "gicd \<Rightarrow> bool" where
  "bits_ok g \<longleftrightarrow> (\<forall>b\<in>set (local g). \<forall>n. b_pending b n \<longrightarrow> known g n)"

definition sender_ok :: "gicd \<Rightarrow> irq \<Rightarrow> bool" where
  "sender_ok g i \<longleftrightarrow> pend_set (i_info i) \<subseteq> {0} \<or> (i_id i < MAX_SGI \<and> \<not> affinity_routing g)"

definition senders_ok :: "gicd \<Rightarrow> bool" where
  "senders_ok g \<longleftrightarrow> (\<forall>r i. irq_object g r = Some i \<longrightarrow> sender_ok g i)"

definition gic_inv :: "gicd \<Rightarrow> bool" where
  "gic_inv g \<longleftrightarrow> gic_wf g \<and> bits_ok g \<and> senders_ok g"

lemma same_shape_sym: "same_shape g g' \<Longrightarrow> same_shape g' g"
  by (simp add: same_shape_def)

lemma known_same_shape: "same_shape g g' \<Longrightarrow> known g' n = known g n"
  using known_shape same_shape_sym by blast

lemma sender_ok_shape: "same_shape g g' \<Longrightarrow> sender_ok g' i = sender_ok g i"
  by (simp add: sender_ok_def same_shape_simps)

lemma bits_ok_bank:
  assumes "bits_ok g" "bank_modify c f g = Some g'" "marks_known g f"
  shows "bits_ok g'"
proof -
  have b: "bits_only f" "\<And>b n. b_pending (f b) n \<Longrightarrow> b_pending b n \<or> known g n"
    using assms(3) unfolding marks_known_def by blast+
  have k: "known g' n = known g n" for n using known_same_shape bank_modify_shape [OF assms(2) b(1)] by blast
  have "c < length (local g)" "local g' = (local g)[c := f (local g ! c)]"
    using assms(2) by (auto simp: bank_modify_def bind_eq_Some_conv)
  then have "set (local g') \<subseteq> insert (f (local g ! c)) (set (local g))" "local g ! c \<in> set (local g)"
    using set_update_subset_insert [of "local g" c] by auto
  then show ?thesis using assms(1) b(2) unfolding bits_ok_def k by blast
qed

lemma bits_ok_modify:
  assumes "bits_ok g" "irq_modify r f g = Some g'" "\<And>i. i_id (f i) = i_id i"
  shows "bits_ok g'"
proof -
  have k: "known g' n = known g n" for n using known_same_shape irq_modify_shape [OF assms(2,3)] by blast
  obtain c n where r: "r = (c, n)" by (cases r)
  have "b_pending ` set (local g') \<subseteq> b_pending ` set (local g)"
    using assms(2) unfolding r
    by (cases rule: irq_modify_cases [of c n f g g', case_names sgi ppi spi lpi])
      (use set_update_subset_insert in \<open>fastforce+\<close>)
  then show ?thesis using assms(1) unfolding bits_ok_def k by fastforce
qed

lemma senders_ok_modify:
  assumes "senders_ok g" "irq_modify r f g = Some g'"
    and "\<And>i. irq_object g r = Some i \<Longrightarrow> allowed g i (f i)" "\<And>i. i_id (f i) = i_id i"
  shows "senders_ok g'"
  unfolding senders_ok_def
proof (intro allI impI)
  fix q j assume j: "irq_object g' q = Some j"
  have sh: "same_shape g g'" by (rule irq_modify_shape [OF assms(2,4)])
  show "sender_ok g' j"
  proof (cases "same_irq r q")
    case False
    then show ?thesis using j irq_modify_object [OF assms(2)] assms(1) sender_ok_shape [OF sh]
      unfolding senders_ok_def by simp
  next
    case True
    then obtain i where i: "irq_object g q = Some i" "j = f i" using j irq_modify_object [OF assms(2), of q] by auto
    have "irq_object g r = irq_object g q"
      using True by (cases r; cases q) (auto simp: same_irq_def irq_object.simps)
    then have "allowed g i j" "sender_ok g i" using i assms(1,3) unfolding senders_ok_def by auto
    then have "sender_ok g j" by (auto simp: allowed_def sender_ok_def)
    then show ?thesis using sender_ok_shape [OF sh] by simp
  qed
qed

lemma senders_ok_same:
  assumes "senders_ok g" "same_shape g g'" "\<And>r. irq_object g' r = irq_object g r"
  shows "senders_ok g'"
  using assms(1,3) sender_ok_shape [OF assms(2)] unfolding senders_ok_def by simp

lemma gic_inv_bank:
  assumes "gic_inv g" "bank_modify c f g = Some g'" "marks_known g f"
  shows "gic_inv g'"
proof -
  have "bits_only f" using assms(3) by (simp add: marks_known_def)
  from bank_modify_shape [OF assms(2) this] bank_modify_object [OF assms(2) this] show ?thesis
    using assms bits_ok_bank gic_wf_shape senders_ok_same unfolding gic_inv_def by blast
qed

interpretation inv: gic_frame gic_inv
proof
  fix g g' :: gicd and r f
  assume "gic_inv g" "irq_modify r f g = Some g'" "\<And>i. irq_object g r = Some i \<Longrightarrow> allowed g i (f i)"
    "\<And>i. i_id (f i) = i_id i"
  then show "gic_inv g'"
    using irq_modify_shape gic_wf_shape bits_ok_modify senders_ok_modify unfolding gic_inv_def by metis
next
  fix g g' :: gicd and c n
  assume g: "gic_inv g" "known g n" and b: "bank_modify c (\<lambda>b. b\<lparr>b_pending := bitset_set (b_pending b) n\<rparr>) g = Some g'"
  show "gic_inv g'" by (rule gic_inv_bank [OF g(1) b]) (simp add: g(2))
next
  fix g :: gicd and x y
  have "known (g\<lparr>notified := x\<rparr>) n = known g n" "known (g\<lparr>vcpu_hint := y\<rparr>) n = known g n" for n
    by (simp_all add: known_same_shape)
  then show "gic_inv (g\<lparr>notified := x\<rparr>) = gic_inv g" "gic_inv (g\<lparr>vcpu_hint := y\<rparr>) = gic_inv g"
    by (simp_all add: gic_inv_def gic_wf_def ids_ok_def bits_ok_def senders_ok_def sender_ok_def affinity_routing_def
       )
qed

subsection \<open>Choosing an interrupt\<close>

lemma known_valid:
  assumes "gic_wf g" "known g n" "c < num_vcpus g"
  shows "valid_ref g (c, n)"
proof -
  obtain r i where ri: "irq_object g r = Some i" "i_id i = n" using assms(2) by (auto simp: known_def)
  then have "snd r = n" using wf_id [OF assms(1)] by simp
  then obtain d where "irq_object g (d, n) = Some i" using ri(1) by (cases r) auto
  then show ?thesis using assms(1,3)
    by (auto simp: valid_ref_def irq_object.simps gic_wf_def nth_opt_def split: if_splits)
qed

text \<open>What a redirection of one interrupt leaves alone.\<close>

definition redirected :: "irq_ref \<Rightarrow> gicd \<Rightarrow> gicd \<Rightarrow> bool" where
  "redirected r g g' \<longleftrightarrow> same_shape g g' \<and> map b_in_injection (local g') = map b_in_injection (local g) \<and>
     (\<forall>q. \<not> same_irq r q \<longrightarrow> irq_object g' q = irq_object g q) \<and>
     (\<forall>q. map_option i_prio (irq_object g' q) = map_option i_prio (irq_object g q)) \<and>
     (\<forall>c n. c < length (local g) \<and> n \<noteq> snd r \<longrightarrow> b_pending (local g' ! c) n = b_pending (local g ! c) n)"

lemma redirected_refl [simp]: "redirected r g g"
  by (simp add: redirected_def)

lemma notify_cpu_bits:
  "par (notify_cpu c n g) (\<lambda>g'. \<forall>d m. m \<noteq> n \<longrightarrow> b_pending (local g' ! d) m = b_pending (local g ! d) m)"
proof -
  have "b_pending ((local g)[c := (local g ! c)\<lparr>b_pending := bitset_set (b_pending (local g ! c)) n\<rparr>] ! d) m
      = b_pending (local g ! d) m" if "c < length (local g)" "m \<noteq> n" for d m
    using that by (cases "d = c") simp_all
  then show ?thesis by (auto simp: notify_cpu_def bank_modify_def intro!: par_pure)
qed

lemma notify_target_bits:
  "par (notify_target n t g) (\<lambda>(x, g'). \<forall>d m. m \<noteq> n \<longrightarrow> b_pending (local g' ! d) m = b_pending (local g ! d) m)"
proof -
  let ?I = "\<lambda>g'. \<forall>d m. m \<noteq> n \<longrightarrow> b_pending (local g' ! d) m = b_pending (local g ! d) m"
  let ?f = "\<lambda>i g. is_cpu_targeted t i \<bind> (\<lambda>is. if is then notify_cpu i n g else Some g)"
  have 1: "par (notify_cpu i n h) ?I" if "?I h" for i h
    using notify_cpu_bits by (rule par_mono) (use that in simp)
  have "par (for_each xs ?f g) ?I" for xs
    by (rule par_for_each [where I = ?I]) (auto intro!: par_pure 1)
  then show ?thesis unfolding notify_target_def using 1 [of g] by simp
qed

lemma set_info_spec:
  assumes "set_info r v g = Some g'"
  shows "same_shape g g'" "irq_object g' q = (if same_irq r q then map_option (\<lambda>i. i\<lparr>i_info := v\<rparr>) (irq_object g q) else irq_object g q)"
    "map b_in_injection (local g') = map b_in_injection (local g)"
    "map b_pending (local g') = map b_pending (local g)"
proof -
  obtain c n where r: "r = (c, n)" by (cases r)
  show "same_shape g g'" using assms irq_modify_shape unfolding set_info_def by fastforce
  show "irq_object g' q = (if same_irq r q then map_option (\<lambda>i. i\<lparr>i_info := v\<rparr>) (irq_object g q) else irq_object g q)"
    using assms irq_modify_object unfolding set_info_def by blast
  show "map b_in_injection (local g') = map b_in_injection (local g)" "map b_pending (local g') = map b_pending (local g)"
    using assms unfolding set_info_def r
    by (cases rule: irq_modify_cases [of c n _ g g', case_names sgi ppi spi lpi];
        simp add: map_update list_update_same_conv)+
qed

lemma redirect_spi_redirected:
  assumes "gic_wf g" "redirect_spi r h g = Some (x, g')"
  shows "redirected r g g'"
proof -
  have "par (redirect_spi r h g) (\<lambda>(x, g'). redirected r g g')"
    unfolding redirect_spi_def
  proof (simp, intro par_irq_object impI par_pure par_inj conjI)
    fix i t inj desired
    assume i: "irq_object g r = Some i"
    show "par (set_info r desired g) (\<lambda>g1. par (notify_target (i_id i) t g1) (\<lambda>(x, g'). redirected r g g'))"
      unfolding par_iff
    proof (intro allI impI, clarify)
      fix g1 y g2
      assume g1: "set_info r desired g = Some g1" and n: "notify_target (i_id i) t g1 = Some (y, g2)"
      note s1 = set_info_spec [OF g1]
      have "same_objects g1 g1" by (simp add: same_objects_def)
      moreover have "known g1 (i_id i)" using known_shape1 [OF i s1(1)] .
      ultimately have "par (notify_target (i_id i) t g1) (\<lambda>(x, g'). same_objects g1 g')"
        by (rule objs.par_notify_target) simp
      then have o: "same_objects g1 g2" using n by simp
      have "\<forall>d m. m \<noteq> snd r \<longrightarrow> b_pending (local g2 ! d) m = b_pending (local g1 ! d) m"
        using notify_target_bits [of "i_id i" t g1] n wf_id [OF assms(1) i] by simp
      moreover have "b_pending (local g1 ! d) = b_pending (local g ! d)" if "d < length (local g)" for d
        using s1(4) that same_shape_simps(9) [OF s1(1)] by (metis nth_map)
      moreover have "map_option i_prio (irq_object g1 q) = map_option i_prio (irq_object g q)" for q
        unfolding s1(2) by (simp add: option.map_comp comp_def)
      ultimately show "redirected r g g2"
        using o s1 same_shape_trans by (auto simp: redirected_def same_objects_def)
    qed
  qed
  then show ?thesis using assms(2) by simp
qed

lemma in_injection_eq:
  "map b_in_injection (local g') = map b_in_injection (local g) \<Longrightarrow> c < length (local g) \<Longrightarrow>
     b_in_injection (local g' ! c) = b_in_injection (local g ! c)"
  by (metis length_map nth_map)

lemma eligible_frame:
  assumes "same_shape g g'" "map b_in_injection (local g') = map b_in_injection (local g)" "c < length (local g)"
    and "irq_object g' q = irq_object g q"
  shows "irq_eligible c q g' = irq_eligible c q g"
  using assms same_shape_simps [OF assms(1)] in_injection_eq [OF assms(2,3)]
  by (simp add: irq_eligible_def nth_opt_def cong: if_cong)

lemma eligible_facts:
  assumes "irq_eligible c r g = Some True"
  obtains i where "irq_object g r = Some i" "c < length (local g)" "is_targeting_cpu (i_info i) c = Some True"
    "inj_pending (i_info i)" "i_enable i" "\<not> b_in_injection (local g ! c) (snd r)"
    "(if i_group1 i then group1_enabled g else group0_enabled g)" "vcpu_can_receive_irq g c (snd r) = Some True"
  using assms by (auto simp: irq_eligible_def bind_eq_Some_conv split: if_splits)

definition prio_of :: "nat \<Rightarrow> gicd \<Rightarrow> nat \<Rightarrow> u8" where
  "prio_of c g n = (case irq_object g (c, n) of None \<Rightarrow> 0 | Some i \<Rightarrow> i_prio i)"

text \<open>One round of the loop: the kept interrupt is the visited one or the best so far.\<close>

lemma highest_body_spec:
  assumes "highest_body c redirect n best g = Some (best', g')" "gic_wf g"
  shows "redirected (c, n) g g'" and "\<not> redirect \<Longrightarrow> g' = g"
    and "irq_eligible c (c, n) g = Some True \<Longrightarrow> g' = g \<and>
       best' = (case best of None \<Rightarrow> Some n | Some m \<Rightarrow> if prio_of c g m < prio_of c g n then Some n else Some m)"
    and "irq_eligible c (c, n) g \<noteq> Some True \<Longrightarrow> best' = best"
    and "gic_inv g \<Longrightarrow> gic_inv g'"
proof -
  obtain i e where i: "irq_object g (c, n) = Some i" and e: "irq_eligible c (c, n) g = Some e"
    using assms(1) by (auto simp: highest_body_def bind_eq_Some_conv)
  have *: "redirected (c, n) g g' \<and> (\<not> redirect \<longrightarrow> g' = g) \<and> (gic_inv g \<longrightarrow> gic_inv g') \<and>
     (if e then g' = g \<and> best' = (case best of None \<Rightarrow> Some n | Some m \<Rightarrow> if prio_of c g m < prio_of c g n then Some n else Some m)
      else best' = best)"
  proof (cases e)
    case True
    then show ?thesis using assms(1) i e
      by (auto simp: highest_body_def prio_of_def bind_eq_Some_conv split: option.splits)
  next
    case False
    then consider "g' = g" "best' = best" | x where "redirect" "redirect_spi (c, n) (c + 1) g = Some (x, g')" "best' = best"
      using assms(1) i e by (auto simp: highest_body_def bind_eq_Some_conv split: if_splits)
    then show ?thesis
    proof cases
      case 2
      have "gic_inv g'" if "gic_inv g"
      proof -
        have "par (redirect_spi (c, n) (c + 1) g) (\<lambda>(x, g'). gic_inv g')"
          by (rule inv.par_redirect_spi [OF that]) simp
        then show ?thesis using 2 by simp
      qed
      then show ?thesis using 2 False redirect_spi_redirected [OF assms(2) 2(2)] by simp
    qed (use False in simp)
  qed
  then show "redirected (c, n) g g'" "\<not> redirect \<Longrightarrow> g' = g" "gic_inv g \<Longrightarrow> gic_inv g'" by blast+
  show "irq_eligible c (c, n) g = Some True \<Longrightarrow> g' = g \<and>
       best' = (case best of None \<Rightarrow> Some n | Some m \<Rightarrow> if prio_of c g m < prio_of c g n then Some n else Some m)"
    "irq_eligible c (c, n) g \<noteq> Some True \<Longrightarrow> best' = best"
    using * e by simp_all
qed

text \<open>What the rest of the loop st \<open>st\<close> on does, for a start with a given best interrupt.\<close>

definition loop_frame :: "bool \<Rightarrow> nat \<Rightarrow> gicd \<Rightarrow> gicd \<Rightarrow> bool" where
  "loop_frame redirect st g g' \<longleftrightarrow> gic_inv g' \<and> same_shape g g' \<and>
     map b_in_injection (local g') = map b_in_injection (local g) \<and> (\<not> redirect \<longrightarrow> g' = g) \<and>
     (\<forall>q. snd q < st \<longrightarrow> irq_object g' q = irq_object g q)"

definition loop_choice :: "nat \<Rightarrow> nat \<Rightarrow> nat option \<Rightarrow> gicd \<Rightarrow> nat option \<Rightarrow> gicd \<Rightarrow> bool" where
  "loop_choice c st best g r g' \<longleftrightarrow> r = best \<or>
     (\<exists>n. r = Some n \<and> st \<le> n \<and> b_pending (local g ! c) n \<and> irq_eligible c (c, n) g = Some True \<and>
          irq_object g' (c, n) = irq_object g (c, n))"

definition loop_max :: "nat \<Rightarrow> nat \<Rightarrow> nat \<Rightarrow> nat option \<Rightarrow> gicd \<Rightarrow> nat option \<Rightarrow> bool" where
  "loop_max conf c st best g r \<longleftrightarrow>
     (\<forall>m. best = Some m \<or> (st \<le> m \<and> (m + 1 < conf \<or> (0 < st \<and> m < conf)) \<and> b_pending (local g ! c) m \<and>
                            irq_eligible c (c, m) g = Some True) \<longrightarrow>
          (\<exists>n. r = Some n \<and> prio_of c g m \<le> prio_of c g n))"

lemma redirected_prio: "redirected r g g' \<Longrightarrow> prio_of c g' n = prio_of c g n"
proof -
  assume "redirected r g g'"
  then have "map_option i_prio (irq_object g' (c, n)) = map_option i_prio (irq_object g (c, n))"
    by (simp add: redirected_def)
  then show ?thesis by (auto simp: prio_of_def split: option.splits)
qed

lemma redirected_later:
  assumes "redirected (c, n) g g'" "c < length (local g)" "n < m"
  shows "irq_object g' (d, m) = irq_object g (d, m)" "b_pending (local g' ! c) m = b_pending (local g ! c) m"
    "irq_eligible c (c, m) g' = irq_eligible c (c, m) g"
proof -
  have ns: "\<not> same_irq (c, n) (d, m)" for d using assms(3) by (simp add: same_irq_def)
  then show o: "irq_object g' (d, m) = irq_object g (d, m)" for d using assms(1) unfolding redirected_def by blast
  show "b_pending (local g' ! c) m = b_pending (local g ! c) m" using assms by (simp add: redirected_def)
  show "irq_eligible c (c, m) g' = irq_eligible c (c, m) g"
    using assms(1,2) o by (intro eligible_frame) (simp_all add: redirected_def)
qed

lemma redirected_earlier:
  "redirected (c, n) g g' \<Longrightarrow> snd q < n \<Longrightarrow> irq_object g' q = irq_object g q"
  by (cases q) (simp add: redirected_def same_irq_def)

text \<open>One round followed by the rest of the loop.\<close>

lemma loop_frame_step:
  assumes "redirected (c, n) g g1" "\<not> redirect \<Longrightarrow> g1 = g" "gic_inv g1" "st \<le> n"
    and "loop_frame redirect (n + 1) g1 g' \<or> g' = g1"
  shows "loop_frame redirect st g g'" "irq_object g' (d, n) = irq_object g1 (d, n)"
proof -
  have f: "loop_frame redirect (n + 1) g1 g'" using assms(3,5) by (auto simp: loop_frame_def)
  then show "irq_object g' (d, n) = irq_object g1 (d, n)" by (simp add: loop_frame_def)
  show "loop_frame redirect st g g'"
    using f assms(1,2,4) redirected_earlier [OF assms(1)] same_shape_trans
    by (auto simp: loop_frame_def redirected_def)
qed

lemma loop_choice_step:
  assumes r: "redirected (c, n) g g1" "c < length (local g)" "b_pending (local g ! c) n" "st \<le> n"
    and e: "irq_eligible c (c, n) g = Some True \<Longrightarrow> g1 = g \<and> (best1 = best \<or> best1 = Some n)"
    and ne: "irq_eligible c (c, n) g \<noteq> Some True \<Longrightarrow> best1 = best"
    and o: "irq_object g' (c, n) = irq_object g1 (c, n)"
    and rest: "loop_choice c (n + 1) best1 g1 rr g'"
  shows "loop_choice c st best g rr g'"
proof (cases "rr = best1")
  case True
  then show ?thesis using e ne o r(3,4) by (cases "irq_eligible c (c, n) g = Some True") (auto simp: loop_choice_def)
next
  case False
  then obtain k where k: "rr = Some k" "n < k" "b_pending (local g1 ! c) k" "irq_eligible c (c, k) g1 = Some True"
      "irq_object g' (c, k) = irq_object g1 (c, k)"
    using rest by (auto simp: loop_choice_def)
  then show ?thesis using redirected_later [OF r(1,2) k(2)] r(4) by (auto simp: loop_choice_def)
qed

lemma loop_max_step:
  assumes r: "redirected (c, n) g g1" "c < length (local g)"
    and gap: "\<And>m. st \<le> m \<Longrightarrow> m < n \<Longrightarrow> m + 1 < conf \<or> (0 < st \<and> m < conf) \<Longrightarrow> \<not> b_pending (local g ! c) m"
    and e: "irq_eligible c (c, n) g = Some True \<Longrightarrow>
       best1 = (case best of None \<Rightarrow> Some n | Some m \<Rightarrow> if prio_of c g m < prio_of c g n then Some n else Some m)"
    and ne: "irq_eligible c (c, n) g \<noteq> Some True \<Longrightarrow> best1 = best"
    and rest: "loop_max conf c (n + 1) best1 g1 rr \<or> (rr = best1 \<and> \<not> n + 1 < conf)"
  shows "loop_max conf c st best g rr"
  unfolding loop_max_def
proof (intro allI impI)
  fix m
  assume m: "best = Some m \<or> (st \<le> m \<and> (m + 1 < conf \<or> (0 < st \<and> m < conf)) \<and> b_pending (local g ! c) m \<and>
     irq_eligible c (c, m) g = Some True)"
  have p: "prio_of c g1 k = prio_of c g k" for k by (rule redirected_prio [OF r(1)])
  have b1: "\<exists>k. rr = Some k \<and> prio_of c g x \<le> prio_of c g k" if "best1 = Some x" for x
    using rest that p by (auto simp: loop_max_def)
  have best: "\<exists>x. best1 = Some x \<and> prio_of c g y \<le> prio_of c g x" if "best = Some y" for y
    using e ne that by (cases "irq_eligible c (c, n) g = Some True") auto
  have one: "\<exists>k. rr = Some k \<and> prio_of c g n \<le> prio_of c g k" if el: "irq_eligible c (c, n) g = Some True"
  proof -
    have "\<exists>x. best1 = Some x \<and> prio_of c g n \<le> prio_of c g x" using e [OF el] by (auto split: option.splits)
    then obtain x where x: "best1 = Some x" "prio_of c g n \<le> prio_of c g x" by blast
    then obtain k where "rr = Some k" "prio_of c g x \<le> prio_of c g k" using b1 by blast
    then show ?thesis using x(2) by auto
  qed
  show "\<exists>k. rr = Some k \<and> prio_of c g m \<le> prio_of c g k"
  proof (cases "best = Some m")
    case True
    then obtain x where x: "best1 = Some x" "prio_of c g m \<le> prio_of c g x" using best by blast
    then obtain k where "rr = Some k" "prio_of c g x \<le> prio_of c g k" using b1 by blast
    then show ?thesis using x(2) by auto
  next
    case False
    then have v: "st \<le> m" "m + 1 < conf \<or> (0 < st \<and> m < conf)" "b_pending (local g ! c) m"
        "irq_eligible c (c, m) g = Some True" using m by auto
    then have "n \<le> m" using gap by (meson not_le)
    show ?thesis
    proof (cases "m = n")
      case True
      then show ?thesis using one v(4) by simp
    next
      case False
      then have "n < m" using \<open>n \<le> m\<close> by simp
      then have "n + 1 < conf" using v(2) by auto
      then have "loop_max conf c (n + 1) best1 g1 rr" using rest by simp
      moreover have "b_pending (local g1 ! c) m" "irq_eligible c (c, m) g1 = Some True"
        using redirected_later [OF r \<open>n < m\<close>] v by simp_all
      ultimately show ?thesis using \<open>n < m\<close> v(2) p by (auto simp: loop_max_def)
    qed
  qed
qed

lemma highest_loop_spec:
  assumes "highest_loop conf c redirect st best g = Some (r, g')" "gic_inv g" "c < num_vcpus g" "conf \<le> MAX_IRQ_NO_LPI"
  shows "loop_frame redirect st g g' \<and> loop_choice c st best g r g' \<and> loop_max conf c st best g r"
  using assms
proof (induction conf c redirect st best g rule: highest_loop.induct)
  case (1 conf c redirect st best g)
  have wf: "gic_wf g" and lc: "c < length (local g)" using 1(3,4) wf_len by (auto simp: gic_inv_def)
  show ?case
  proof (cases "get_next_pending_irq conf (b_pending (local g ! c)) st")
    case None
    then have e: "r = best" "g' = g" using 1(2) lc by (simp_all add: highest_loop.simps [of conf c redirect st best g] nth_opt_def)
    have "\<not> b_pending (local g ! c) m" if "st \<le> m" "m + 1 < conf \<or> (0 < st \<and> m < conf)" for m
      using None that 1(5) by (auto simp: get_next_pending_irq_def first_set_None split: option.splits if_splits)
    then show ?thesis using e 1(3) by (auto simp: loop_frame_def loop_choice_def loop_max_def)
  next
    case (Some n)
    obtain best1 g1 where b: "highest_body c redirect n best g = Some (best1, g1)"
      and rest: "if n + 1 < conf then highest_loop conf c redirect (n + 1) best1 g1 = Some (r, g') else (r, g') = (best1, g1)"
      using 1(2) lc Some by (auto simp: highest_loop.simps [of conf c redirect st best g] nth_opt_def split: option.splits if_splits)
    note body = highest_body_spec [OF b wf]
    have inv1: "gic_inv g1" "c < num_vcpus g1" using body(1,5) 1(3,4) same_shape_simps(2) by (auto simp: redirected_def)
    have rest': "loop_frame redirect (n + 1) g1 g' \<and> loop_choice c (n + 1) best1 g1 r g' \<and> loop_max conf c (n + 1) best1 g1 r
        \<or> (r = best1 \<and> g' = g1 \<and> \<not> n + 1 < conf)"
      using 1(1) [of "local g ! c" n "(best1, g1)" best1 g1] lc Some b rest inv1 1(5) by (auto simp: nth_opt_def split: if_splits)
    have n: "st \<le> n" "b_pending (local g ! c) n"
      using get_next_pending_ge [OF Some] Some by (auto simp: get_next_pending_irq_def first_set_Some split: if_splits option.splits)
    have gap: "\<not> b_pending (local g ! c) m" if "st \<le> m" "m < n" "m + 1 < conf \<or> (0 < st \<and> m < conf)" for m
      using Some that 1(5)
      by (auto simp: get_next_pending_irq_def first_set_Some first_set_None split: if_splits option.splits)
    have fr: "loop_frame redirect (n + 1) g1 g' \<or> g' = g1" using rest' by blast
    note frame = loop_frame_step [OF body(1,2) inv1(1) n(1) fr]
    have ch: "loop_choice c (n + 1) best1 g1 r g'" using rest' by (auto simp: loop_choice_def)
    have e1: "irq_eligible c (c, n) g = Some True \<Longrightarrow> g1 = g \<and> (best1 = best \<or> best1 = Some n)"
      using body(3) by (auto split: option.splits)
    have e2: "irq_eligible c (c, n) g = Some True \<Longrightarrow>
       best1 = (case best of None \<Rightarrow> Some n | Some m \<Rightarrow> if prio_of c g m < prio_of c g n then Some n else Some m)"
      using body(3) by blast
    have mx: "loop_max conf c (n + 1) best1 g1 r \<or> (r = best1 \<and> \<not> n + 1 < conf)" using rest' by blast
    have "loop_choice c st best g r g'"
      by (rule loop_choice_step [OF body(1) lc n(2,1) e1 body(4) frame(2) ch])
    moreover have "loop_max conf c st best g r"
      by (rule loop_max_step [OF body(1) lc gap e2 body(4) mx])
    ultimately show ?thesis using frame(1) by blast
  qed
qed

end
