(* ===== verification/GicProps.thy ===== *)
theory GicProps
  imports GicDist
begin

text \<open>
  The properties of the distributor as the rest of the machine uses it: which interrupt a vCPU is
  given, that it is given once, what the end of an injection does, and that the calls do not abort.
\<close>

subsection \<open>An example controller\<close>

text \<open>
  Two vCPUs, 64 interrupts, all vCPUs awake; \<open>f\<close> sets up the objects, \<open>p\<close> the pending bits
  of both vCPUs, \<open>w\<close> the control register.
\<close>

definition demo_irqs :: "(nat \<Rightarrow> irq \<Rightarrow> irq) \<Rightarrow> nat \<Rightarrow> nat \<Rightarrow> irq list" where
  "demo_irqs f a b = map (\<lambda>n. f n (irq_new\<lparr>i_id := n\<rparr>)) [a..<b]"

lemma demo_irqs_simps [simp]:
  "length (demo_irqs f a b) = b - a" "n < b - a \<Longrightarrow> demo_irqs f a b ! n = f (a + n) (irq_new\<lparr>i_id := a + n\<rparr>)"
  by (simp_all add: demo_irqs_def)

definition demo_gic :: "(nat \<Rightarrow> irq \<Rightarrow> irq) \<Rightarrow> bitset \<Rightarrow> u32 \<Rightarrow> gicd" where
  "demo_gic f p w =
     \<lparr>version = GIC_V3, num_vcpus = 2, configured_irqs = 64, ctlr = w,
      local = replicate 2 \<lparr>b_sgi = demo_irqs f 0 16,
                           b_ppi = demo_irqs f 16 32,
                           b_pending = p, b_in_injection = bitset_reset, b_notify = True\<rparr>,
      spi = demo_irqs f 32 64, lpi = [], prop_baser = 0, pend_baser = 0,
      mem_bus = False, has_its = False, vcpu_hint = 0,
      redists = replicate 2 \<lparr>r_ctlr = GICR_CES, r_waker = 0, r_aff = 0, r_last = False\<rparr>,
      cluster_map = [], notified = [], stats_enabled = False\<rparr>"

lemma demo_object:
  "irq_object (demo_gic f p w) (c, n) =
     (if n < 32 \<and> 2 \<le> c \<or> 64 \<le> n then None else Some (f n (irq_new\<lparr>i_id := n\<rparr>)))"
  by (auto simp: demo_gic_def irq_object.simps nth_opt_def)

lemma demo_inv:
  assumes "\<And>n i. i_id (f n i) = i_id i" "\<And>n. p n \<Longrightarrow> n < 64" "\<And>n i. pend_set (i_info (f n (irq_new\<lparr>i_id := n\<rparr>))) \<subseteq> {0}"
  shows "gic_inv (demo_gic f p w)"
proof -
  have obj: "i_id i = snd r \<and> pend_set (i_info i) \<subseteq> {0}" if "irq_object (demo_gic f p w) r = Some i" for r i
    using that assms(1) assms(3) [of "snd r"] by (cases r) (auto simp: demo_object split: if_splits)
  then have "ids_ok (demo_gic f p w)" "senders_ok (demo_gic f p w)"
    by (auto simp: ids_ok_def senders_ok_def sender_ok_def)
  moreover have "known (demo_gic f p w) n" if "n < 64" for n
    using knownI [of "demo_gic f p w" "(0, n)"] that assms(1) by (simp add: demo_object)
  ultimately show ?thesis using assms(2)
    by (auto simp: gic_inv_def gic_wf_def bits_ok_def demo_gic_def bank_shape_def)
qed

subsection \<open>The end of an injection keeps the invariant and does not abort\<close>

lemma bank_modify_lt:
  "c < length (local g) \<Longrightarrow> bank_modify c f g = Some (g\<lparr>local := (local g)[c := f (local g ! c)]\<rparr>)"
  by (simp add: bank_modify_def upd_opt_def)

lemma bank_modify_tot:
  assumes "gic_inv g" "c < num_vcpus g" "marks_known g f" "\<And>g'. gic_inv g' \<Longrightarrow> same_shape g g' \<Longrightarrow> P g'"
  shows "tot (bank_modify c f g) P"
proof -
  have "c < length (local g)" using assms(1,2) wf_len by (simp add: gic_inv_def)
  then obtain g' where g': "bank_modify c f g = Some g'" by (simp add: bank_modify_def upd_opt_def)
  have "bits_only f" using assms(3) by (simp add: marks_known_def)
  then show ?thesis using g' assms(4) gic_inv_bank [OF assms(1) g' assms(3)] bank_modify_shape [OF g'] by simp
qed

lemma irq_modify_tot:
  assumes "gic_inv g" "valid_ref g r" "\<And>i. irq_object g r = Some i \<Longrightarrow> allowed g i (f i)" "\<And>i. i_id (f i) = i_id i"
    and "\<And>g'. gic_inv g' \<Longrightarrow> same_shape g g' \<Longrightarrow> P g'"
  shows "tot (irq_modify r f g) P"
proof -
  have "gic_wf g" using assms(1) by (simp add: gic_inv_def)
  from valid_ref_object [OF this assms(2)] obtain g' where g': "irq_modify r f g = Some g'"
    using irq_modify_total by metis
  then show ?thesis using assms(5) inv.modify [OF assms(1) g' assms(3,4)] irq_modify_shape [OF g' assms(4)] by simp
qed

lemma irq_object_tot:
  assumes "gic_inv g" "valid_ref g r" "\<And>i. irq_object g r = Some i \<Longrightarrow> i_id i = snd r \<Longrightarrow> P i"
  shows "tot (irq_object g r) P"
proof -
  have "gic_wf g" using assms(1) by (simp add: gic_inv_def)
  from valid_ref_object [OF this assms(2)] obtain i where "irq_object g r = Some i" "i_id i = snd r" by metis
  then show ?thesis using assms(3) by simp
qed

lemma targeting_tot: "c < 8 \<Longrightarrow> (\<And>b. P b) \<Longrightarrow> tot (is_targeting_cpu i c) P"
  by (simp add: is_targeting_cpu_def is_cpu_targeted_def)

lemma injected_sender_lt: "get_injected_sender_id i = Some s \<Longrightarrow> s < 8 \<and> s \<in> inj_set i"
  by (auto simp: injected_sender_Some inj_set_def)

lemma pending_sender_lt: "get_pending_sender_id i = Some s \<Longrightarrow> s < 8 \<and> s \<in> pend_set i"
  by (auto simp: pending_sender_Some pend_set_def)

text \<open>The packed value that \<open>update_info\<close> stores.\<close>

definition updated_info :: "nat \<Rightarrow> bool \<Rightarrow> bool \<Rightarrow> injection_info \<Rightarrow> injection_info" where
  "updated_info c dj dp v =
     (case get_injected_sender_id v of
        None \<Rightarrow> v
      | Some s \<Rightarrow>
          if is_targeting_cpu v c \<noteq> Some True then v
          else let v = (if dj then v AND NOT (2 ^ (INJECTED_SHIFT + s)) else v)
               in if dp then v AND NOT (2 ^ (PENDING_SHIFT + s)) else v)"

lemma updated_info_senders:
  "pend_set (updated_info c dj dp v) \<subseteq> pend_set v" "inj_set (updated_info c dj dp v) \<subseteq> inj_set v"
  by (auto simp: updated_info_def Let_def dest!: injected_sender_lt split: option.splits)

lemma update_info_eq:
  assumes "irq_object g r = Some i" "c < 8"
  shows "update_info c r dj dp g = Some g \<and> updated_info c dj dp (i_info i) = i_info i \<or>
     update_info c r dj dp g = set_info r (updated_info c dj dp (i_info i)) g"
proof (cases "get_injected_sender_id (i_info i)")
  case None
  then show ?thesis using assms(1) by (simp add: update_info_def updated_info_def)
next
  case (Some s)
  obtain t where "is_targeting_cpu (i_info i) c = Some t"
    using targeting_tot [OF assms(2), of "\<lambda>_. True" "i_info i"] by (auto simp: tot_iff)
  then show ?thesis using assms(1) Some injected_sender_lt [OF Some]
    by (cases t) (auto simp: update_info_def updated_info_def Let_def)
qed

lemma update_info_tot:
  assumes "gic_inv g" "valid_ref g r" "c < 8" "\<And>g'. gic_inv g' \<Longrightarrow> same_shape g g' \<Longrightarrow> P g'"
  shows "tot (update_info c r dj dp g) P"
proof -
  have "gic_wf g" using assms(1) by (simp add: gic_inv_def)
  from valid_ref_object [OF this assms(2)] obtain i where i: "irq_object g r = Some i" by metis
  have "tot (set_info r (updated_info c dj dp (i_info i)) g) P"
    unfolding set_info_def
    by (rule irq_modify_tot [OF assms(1,2)])
      (use i updated_info_senders(1) [of c dj dp "i_info i"] assms(4) in \<open>auto simp: allowed_def\<close>)
  then show ?thesis using update_info_eq [OF i assms(3), of dj dp] assms(1,4) by auto
qed

lemma mark_if_pending_tot:
  assumes "gic_inv g" "valid_ref g r" "c < num_vcpus g" "\<And>g'. gic_inv g' \<Longrightarrow> same_shape g g' \<Longrightarrow> P g'"
  shows "tot (mark_if_pending c r g) P"
  unfolding mark_if_pending_def using assms
  by (auto intro!: irq_object_tot [OF assms(1,2)] bank_modify_tot [OF assms(1,3)] dest: knownI)

lemma update_inj_status_tot:
  assumes "gic_inv g" "c < num_vcpus g" "c < 8" "valid_ref g (c, n)" "in_injection \<or> st = PENDING \<or> st = INACTIVE"
    and "\<And>g'. gic_inv g' \<Longrightarrow> same_shape g g' \<Longrightarrow> P g'"
  shows "tot (update_inj_status c n st in_injection g) P"
proof -
  have sub: "tot (update_info c (c, n) dj dp h) (\<lambda>h. tot (mark_if_pending c (c, n) h) P)"
    if h: "gic_inv h" "same_shape g h" for dj dp h
  proof (rule update_info_tot [OF h(1)])
    fix k assume k: "gic_inv k" "same_shape h k"
    then have "same_shape g k" using h(2) same_shape_trans by blast
    then show "tot (mark_if_pending c (c, n) k) P"
      using assms(2,4,6) same_shape_trans valid_ref_shape [of g k] same_shape_simps(2) [of g k]
      by (intro mark_if_pending_tot [OF k(1)]) auto
  qed (use assms(3,4) valid_ref_shape [OF h(2)] in simp_all)
  have mod: "tot (irq_modify (c, n) f h) (\<lambda>h. tot (update_info c (c, n) dj dp h) (\<lambda>h. tot (mark_if_pending c (c, n) h) P))"
    if h: "gic_inv h" "same_shape g h" and f: "\<And>i. i_id (f i) = i_id i" "\<And>i. i_info (f i) = i_info i" for f dj dp h
    using assms(4) valid_ref_shape [OF h(2)] f same_shape_trans [OF h(2)]
    by (intro irq_modify_tot [OF h(1)] sub) auto
  have inact: "tot (update_inj_status_inactive c n h) P" if h: "gic_inv h" "same_shape g h" for h
  proof -
    have "tot (irq_modify (c, n) (\<lambda>i. i\<lparr>i_num_acked := i_num_acked i + 1\<rparr>) h)
      (\<lambda>h. tot (irq_modify (c, n) (irq_deactivate True) h) (\<lambda>h. tot (update_info c (c, n) True True h) (\<lambda>h. tot (mark_if_pending c (c, n) h) P)))"
      using assms(4) valid_ref_shape [OF h(2)] same_shape_trans [OF h(2)]
      by (intro irq_modify_tot [OF h(1)] mod) auto
    then show ?thesis using mod [OF h, of "irq_deactivate True" True True]
      by (simp add: update_inj_status_inactive_def)
  qed
  have act: "tot (update_inj_status_active_or_pending c st n in_injection h) P" if h: "gic_inv h" "same_shape g h" for h
    using mod [OF h, of "irq_deactivate True" "\<not> in_injection" "st = ACTIVE"]
      mod [OF h, of "irq_activate True" "\<not> in_injection" "st = ACTIVE"]
    by (cases "st = PENDING") (simp_all add: update_inj_status_active_or_pending_def)
  have lim: "n < configured_irqs g \<or> LPI_BASE \<le> n"
    using assms(1,4) by (auto simp: valid_ref_def gic_inv_def gic_wf_def split: if_splits)
  have last_step: "tot (if st = INACTIVE then update_inj_status_inactive c n h
        else update_inj_status_active_or_pending c st n in_injection h) P" if "gic_inv h" "same_shape g h" for h
    using inact [OF that] act [OF that] by simp
  show ?thesis
  proof (cases in_injection)
    case True
    then show ?thesis unfolding update_inj_status_def using assms(2) lim last_step [OF assms(1) same_shape_refl]
      by (auto intro!: irq_object_tot [OF assms(1,4)])
  next
    case False
    have "tot (bank_modify c (\<lambda>b. b\<lparr>b_in_injection := bitset_clr (b_in_injection b) k\<rparr>) g)
        (\<lambda>h. tot (if st = INACTIVE then update_inj_status_inactive c n h
           else update_inj_status_active_or_pending c st n in_injection h) P)" for k
      using last_step by (intro bank_modify_tot [OF assms(1,2)]) simp_all
    then show ?thesis unfolding update_inj_status_def using assms(2,5) lim False
      by (auto intro!: irq_object_tot [OF assms(1,4)])
  qed
qed

lemma eligible_tot:
  assumes "gic_inv g" "c < num_vcpus g" "c < 8" "valid_ref g (c, n)"
  shows "tot (irq_eligible c (c, n) g) (\<lambda>_. True)"
proof -
  have "c < length (local g)" "c < length (redists g)" using assms(1,2) wf_len by (auto simp: gic_inv_def)
  then show ?thesis
    unfolding irq_eligible_def
    by (auto intro!: irq_object_tot [OF assms(1,4)] targeting_tot [OF assms(3)] simp: vcpu_can_receive_irq_def)
qed

lemma highest_body_tot:
  assumes "gic_inv g" "c < num_vcpus g" "c < 8" "valid_ref g (c, n)" "\<And>m. best = Some m \<Longrightarrow> valid_ref g (c, m)"
  shows "tot (highest_body c redirect n best g)
     (\<lambda>(best', g'). gic_inv g' \<and> same_shape g g' \<and> (\<forall>m. best' = Some m \<longrightarrow> valid_ref g (c, m)))"
proof -
  have wf: "gic_wf g" and len: "c < length (redists g)" using assms(1,2) wf_len by (auto simp: gic_inv_def)
  obtain e where e: "irq_eligible c (c, n) g = Some e" using eligible_tot [OF assms(1-4)] by (auto simp: tot_iff)
  have red: "tot (redirect_spi (c, n) (c + 1) g)
      (\<lambda>(d, g'). gic_inv g' \<and> same_shape g g' \<and> (\<forall>m. best = Some m \<longrightarrow> valid_ref g (c, m)))" if "32 \<le> n"
  proof -
    have "par (redirect_spi (c, n) (c + 1) g) (\<lambda>(d, g'). gic_inv g')"
      by (rule inv.par_redirect_spi [OF assms(1)]) simp
    moreover have "tot (redirect_spi (c, n) (c + 1) g) (\<lambda>(d, g'). same_shape g g')"
      using that assms(4) by (intro tot_redirect_spi [OF wf same_shape_refl]) simp_all
    ultimately show ?thesis using assms(5) by (auto simp: tot_iff)
  qed
  show ?thesis
    unfolding highest_body_def using e red assms(1,4,5) len
    by (auto intro!: irq_object_tot [OF assms(1)] simp: vcpu_can_receive_irq_def split: option.split) (auto simp: tot_iff)
qed

lemma pending_known:
  assumes "gic_inv g" "c < num_vcpus g" "b_pending (local g ! c) n"
  shows "valid_ref g (c, n)"
proof -
  have "local g ! c \<in> set (local g)" using assms(1,2) wf_len by (auto simp: gic_inv_def)
  then have "known g n" using assms(1,3) unfolding gic_inv_def bits_ok_def by blast
  then show ?thesis using assms(1,2) known_valid by (simp add: gic_inv_def)
qed

lemma highest_loop_tot:
  assumes "gic_inv g" "c < num_vcpus g" "c < 8" "\<And>m. best = Some m \<Longrightarrow> valid_ref g (c, m)"
  shows "tot (highest_loop conf c red st best g) (\<lambda>_. True)"
  using assms
proof (induction conf c red st best g rule: highest_loop.induct)
  case (1 conf c red st best g)
  have lc: "c < length (local g)" using 1(2,3) wf_len by (auto simp: gic_inv_def)
  show ?case
  proof (cases "get_next_pending_irq conf (b_pending (local g ! c)) st")
    case None
    then show ?thesis using lc by (simp add: highest_loop.simps [of conf c red st best g] nth_opt_def)
  next
    case (Some n)
    then have "b_pending (local g ! c) n"
      by (auto simp: get_next_pending_irq_def first_set_Some split: if_splits option.splits)
    then have v: "valid_ref g (c, n)" by (rule pending_known [OF 1(2,3)])
    obtain best1 g1 where b: "highest_body c red n best g = Some (best1, g1)" and
        g1: "gic_inv g1" "same_shape g g1" "\<And>m. best1 = Some m \<Longrightarrow> valid_ref g (c, m)"
      using highest_body_tot [OF 1(2,3,4) v 1(5), of best red] by (auto simp: tot_iff)
    have "tot (highest_loop conf c red (n + 1) best1 g1) (\<lambda>_. True)" if "n + 1 < conf"
      using 1(1) [OF _ Some b _ that g1(1)] lc 1(3,4) g1(3) same_shape_simps(2) [OF g1(2)] valid_ref_shape [OF g1(2)]
      by (simp add: nth_opt_def)
    then show ?thesis using lc Some b by (simp add: highest_loop.simps [of conf c red st best g] nth_opt_def)
  qed
qed

subsection \<open>What a vCPU is given\<close>

lemma highest_irq_spec:
  assumes "gic_inv g" "highest_irq c red g = Some (r, g1)"
  shows "c < num_vcpus g" "loop_frame red 0 g g1" "loop_choice c 0 None g r g1" "loop_max (configured_irqs g) c 0 None g r"
proof -
  have l: "c < length (local g)" "highest_loop (configured_irqs g) c red 0 None g = Some (r, g1)"
    using assms(2) by (auto simp: highest_irq_def bind_eq_Some_conv)
  then show c: "c < num_vcpus g" using assms(1) wf_len by (auto simp: gic_inv_def)
  have "configured_irqs g \<le> MAX_IRQ_NO_LPI" using assms(1) by (simp add: gic_inv_def gic_wf_def)
  from highest_loop_spec [OF l(2) assms(1) c this]
  show "loop_frame red 0 g g1" "loop_choice c 0 None g r g1" "loop_max (configured_irqs g) c 0 None g r" by simp_all
qed

text \<open>The interrupt \<open>n\<close> is given to vCPU \<open>c\<close> with the list register \<open>lr\<close>.\<close>

definition given :: "nat \<Rightarrow> u8 \<Rightarrow> gicd \<Rightarrow> nat \<Rightarrow> u64 \<Rightarrow> gicd \<Rightarrow> bool" where
  "given c p g n lr g' \<longleftrightarrow>
     (\<exists>i s. irq_object g (c, n) = Some i \<and> b_pending (local g ! c) n \<and> irq_eligible c (c, n) g = Some True \<and>
        i_prio i \<le> p \<and> get_pending_sender_id (i_info i) = Some s \<and>
        lr = lr_new (if i_active i \<and> \<not> i_hw i then ACTIVE_PENDING else PENDING) i (of_nat n) (of_nat s) \<and>
        irq_object g' (c, n) = Some (i\<lparr>i_info := i_info i OR 2 ^ (INJECTED_SHIFT + s)\<rparr>) \<and>
        b_in_injection (local g' ! c) = bitset_set (b_in_injection (local g ! c)) n \<and>
        \<not> b_pending (local g' ! c) n)"

lemma pending_irq_spec:
  assumes "gic_inv g" "pending_irq c p g = Some (res, g')"
  shows "gic_inv g' \<and> same_shape g g' \<and> (\<forall>lr. res = Some lr \<longrightarrow> (\<exists>n. given c p g n lr g')) \<and>
     (\<forall>d m. d < num_vcpus g \<longrightarrow> b_in_injection (local g ! d) m \<longrightarrow> b_in_injection (local g' ! d) m)"
proof -
  obtain r g1 where h: "highest_irq c True g = Some (r, g1)"
    using assms(2) by (auto simp: pending_irq_def bind_eq_Some_conv)
  note sp = highest_irq_spec [OF assms(1) h]
  have f1: "gic_inv g1" "same_shape g g1" "map b_in_injection (local g1) = map b_in_injection (local g)"
    using sp(2) by (simp_all add: loop_frame_def)
  have lc: "c < length (local g)" "c < length (local g1)"
    using sp(1) wf_len assms(1) same_shape_simps(9) [OF f1(2)] by (auto simp: gic_inv_def)
  have all: "d < num_vcpus g \<Longrightarrow> b_in_injection (local g1 ! d) = b_in_injection (local g ! d)" for d
    using in_injection_eq [OF f1(3)] assms(1) wf_len(1) [of g] by (simp add: gic_inv_def)
  show ?thesis
  proof (cases r)
    case None
    then show ?thesis using assms(2) h f1 all by (auto simp: pending_irq_def bind_eq_Some_conv)
  next
    case (Some n)
    then have n: "b_pending (local g ! c) n" "irq_eligible c (c, n) g = Some True" "irq_object g1 (c, n) = irq_object g (c, n)"
      using sp(3) by (auto simp: loop_choice_def)
    obtain i where i: "irq_object g (c, n) = Some i" "is_targeting_cpu (i_info i) c = Some True" "inj_pending (i_info i)"
      using n(2) by (rule eligible_facts)
    have idn: "i_id i = n" using wf_id [of g, OF _ i(1)] assms(1) by (simp add: gic_inv_def)
    show ?thesis
    proof (cases "p < i_prio i")
      case True
      then show ?thesis using assms(2) h Some n(3) i(1) f1 all by (auto simp: pending_irq_def bind_eq_Some_conv)
    next
      case False
      obtain s where s: "get_pending_sender_id (i_info i) = Some s"
        using i(3) pending_sender_None inj_pending_iff by (metis not_Some_eq)
      have s8: "s < 8" using pending_sender_lt [OF s] by simp
      let ?v = "i_info i OR 2 ^ (INJECTED_SHIFT + s)"
      let ?f = "\<lambda>b. b\<lparr>b_in_injection := bitset_set (b_in_injection b) n, b_pending := bitset_clr (b_pending b) n\<rparr>"
      obtain g2 where g2: "set_info (c, n) ?v g1 = Some g2" "bank_modify c ?f g2 = Some g'"
          "res = Some (lr_new (if i_active i \<and> \<not> i_hw i then ACTIVE_PENDING else PENDING) i (of_nat n) (of_nat s))"
        using assms(2) h Some n(3) i False s s8 idn by (auto simp: pending_irq_def bind_eq_Some_conv Let_def)
      note s2 = set_info_spec [OF g2(1)]
      have inv2: "gic_inv g2"
      proof (rule inv.modify [OF f1(1) g2(1) [unfolded set_info_def]])
        fix j assume "irq_object g1 (c, n) = Some j"
        then show "allowed g1 j (j\<lparr>i_info := ?v\<rparr>)" using n(3) i(1) s8 by (simp add: allowed_def subset_insertI)
      qed simp
      have bf: "bits_only ?f" by simp
      have "gic_inv g'" by (rule gic_inv_bank [OF inv2 g2(2)]) simp
      moreover have "same_shape g g'"
        using f1(2) s2(1) bank_modify_shape [OF g2(2) bf] same_shape_trans by blast
      moreover have "irq_object g' (c, n) = Some (i\<lparr>i_info := ?v\<rparr>)"
        using bank_modify_object [OF g2(2) bf] s2(2) n(3) i(1) by (simp add: same_irq_def)
      moreover have "local g' ! c = ?f (local g2 ! c)"
        using g2(2) by (auto simp: bank_modify_def bind_eq_Some_conv)
      moreover have "b_in_injection (local g2 ! c) = b_in_injection (local g ! c)"
        using in_injection_eq [OF s2(3) lc(2)] in_injection_eq [OF f1(3) lc(1)] by simp
      moreover have "b_in_injection (local g' ! d) m" if "d < num_vcpus g" "b_in_injection (local g ! d) m" for d m
      proof -
        have "d < length (local g1)" using that(1) lc wf_len(1) [of g1] f1(1) same_shape_simps(2) [OF f1(2)]
          by (simp add: gic_inv_def)
        then have "b_in_injection (local g2 ! d) m"
          using in_injection_eq [OF s2(3)] all [OF that(1)] that(2) by simp
        moreover have "local g' = (local g2)[c := ?f (local g2 ! c)]"
          using g2(2) by (auto simp: bank_modify_def bind_eq_Some_conv)
        ultimately show ?thesis by (cases "d = c"; cases "c < length (local g2)") (simp_all add: not_less list_update_beyond)
      qed
      ultimately show ?thesis using g2(3) i(1) n s False
        by (auto simp: given_def not_less)
    qed
  qed
qed

lemma pending_irq_tot:
  assumes "gic_inv g" "c < num_vcpus g" "c < 8"
  shows "tot (pending_irq c p g) (\<lambda>(res, g'). gic_inv g' \<and> same_shape g g')"
proof -
  have lc: "c < length (local g)" "b_notify (local g ! c)"
    using assms(1,2) wf_len wf_bank(4) by (auto simp: gic_inv_def)
  obtain r g1 where h: "highest_irq c True g = Some (r, g1)"
    using highest_loop_tot [OF assms, of None "configured_irqs g" True 0] lc
    by (auto simp: highest_irq_def tot_iff nth_opt_lt)
  note sp = highest_irq_spec [OF assms(1) h]
  have f1: "gic_inv g1" "same_shape g g1" using sp(2) by (simp_all add: loop_frame_def)
  have "tot (pending_irq c p g) (\<lambda>_. True)"
  proof (cases r)
    case None
    then show ?thesis using h assms(2) by (simp add: pending_irq_def)
  next
    case (Some n)
    then have n: "irq_eligible c (c, n) g = Some True" "irq_object g1 (c, n) = irq_object g (c, n)"
      using sp(3) by (auto simp: loop_choice_def)
    obtain i where i: "irq_object g (c, n) = Some i" "is_targeting_cpu (i_info i) c = Some True" "inj_pending (i_info i)"
      using n(1) by (rule eligible_facts)
    obtain s where s: "get_pending_sender_id (i_info i) = Some s"
      using i(3) pending_sender_None inj_pending_iff by (metis not_Some_eq)
    have so: "sender_ok g1 i" using f1(1) n(2) i(1) unfolding gic_inv_def senders_ok_def by metis
    have sn: "PPI_BASE \<le> i_id i \<or> affinity_routing g1 \<longrightarrow> s = 0"
      using so pending_sender_lt [OF s] by (auto simp: sender_ok_def)
    have "irq_object g1 (c, n) = Some i" using n(2) i(1) by simp
    then obtain g2 where g2: "set_info (c, n) (i_info i OR 2 ^ (INJECTED_SHIFT + s)) g1 = Some g2"
      using irq_modify_total unfolding set_info_def by metis
    have "c < length (local g2)"
      using same_shape_simps(9) [OF set_info_spec(1) [OF g2]] same_shape_simps(9) [OF f1(2)] lc by simp
    then show ?thesis using h assms(2) Some n(2) i s sn g2 pending_sender_lt [OF s]
      by (auto simp: pending_irq_def Let_def bank_modify_def)
  qed
  then show ?thesis using pending_irq_spec [OF assms(1)] by (auto simp: tot_iff)
qed

subsection \<open>The calls of the machine\<close>

datatype host_call =
    Assert_global nat
  | Deassert_global nat
  | Assert_ppi nat nat
  | Deassert_ppi nat nat
  | Config nat nat bool u16 bool
  | Sgi nat nat nat
  | Take nat u8
  | Done nat nat irq_state bool

fun host_step :: "host_call \<Rightarrow> gicd \<Rightarrow> gicd option" where
  "host_step (Assert_global n) g = map_option snd (assert_global_line n g)"
| "host_step (Deassert_global n) g = deassert_global_line n g"
| "host_step (Assert_ppi c n) g = map_option snd (assert_ppi c n g)"
| "host_step (Deassert_ppi c n) g = deassert_line_ppi c n g"
| "host_step (Config c n hw p e) g = map_option snd (config_irq c n hw p e g)"
| "host_step (Sgi a t n) g = send_sgi a t n g"
| "host_step (Take c p) g = map_option snd (pending_irq c p g)"
| "host_step (Done c n st ij) g = update_inj_status c n st ij g"

text \<open>The arguments that the callers pass.\<close>

fun call_ok :: "gicd \<Rightarrow> host_call \<Rightarrow> bool" where
  "call_ok g (Assert_ppi c n) = (affinity_routing g \<or> PPI_BASE \<le> n)"
| "call_ok g (Deassert_ppi c n) = (affinity_routing g \<or> PPI_BASE \<le> n)"
| "call_ok g (Deassert_global n) = (affinity_routing g \<or> PPI_BASE \<le> n)"
| "call_ok g (Sgi a t n) = (t < num_vcpus g \<and> n < MAX_SGI)"
| "call_ok g (Take c p) = (c < num_vcpus g)"
| "call_ok g (Done c n st ij) = (c < num_vcpus g \<and> valid_ref g (c, n) \<and> (ij \<or> st = PENDING \<or> st = INACTIVE))"
| "call_ok g _ = True"

lemma call_ok_shape: "same_shape g g' \<Longrightarrow> call_ok g' x = call_ok g x"
  by (cases x) (simp_all add: same_shape_simps valid_ref_shape)

lemma tot_map_snd: "tot (map_option snd m) P = tot m (\<lambda>(x, y). P y)"
  by (cases m) (auto simp: case_prod_beta)

lemma par_map_snd: "par (map_option snd m) P = par m (\<lambda>(x, y). P y)"
  by (cases m) (auto simp: case_prod_beta)

lemma tot_par: "tot m P \<Longrightarrow> par m Q \<Longrightarrow> tot m (\<lambda>x. P x \<and> Q x)"
  by (cases m) simp_all

lemma host_step_tot:
  assumes "gic_inv g" "num_vcpus g \<le> 8" "call_ok g x"
  shows "tot (host_step x g) (\<lambda>g'. gic_inv g' \<and> same_shape g g')"
proof -
  have wf: "gic_wf g" using assms(1) by (simp add: gic_inv_def)
  note t = tot_lines [OF wf same_shape_refl] tot_lines2 [OF wf same_shape_refl]
  have i: "par m (\<lambda>(x, g'). gic_inv g') \<Longrightarrow> tot m (\<lambda>(x, g'). same_shape g g') \<Longrightarrow>
      tot m (\<lambda>(x, g'). gic_inv g' \<and> same_shape g g')" for m :: "(bool \<times> gicd) option"
    by (cases m) auto
  have j: "par m gic_inv \<Longrightarrow> tot m (same_shape g) \<Longrightarrow> tot m (\<lambda>g'. gic_inv g' \<and> same_shape g g')" for m
    by (cases m) auto
  note il = inv.par_lines [OF assms(1)] and il2 = inv.par_lines2 [OF assms(1)]
  show ?thesis
  proof (cases x)
    case (Assert_global n)
    then show ?thesis by (simp add: tot_map_snd) (rule i [OF il(2) t(2)]; simp)
  next
    case (Deassert_global n)
    then show ?thesis using assms(3)
      by (simp add: deassert_global_line_def) (rule j [OF il2(1) t(4)]; simp)
  next
    case (Assert_ppi c n)
    then show ?thesis using assms(3) by (simp add: tot_map_snd) (rule i [OF il(1) t(1)]; simp)
  next
    case (Deassert_ppi c n)
    then show ?thesis using assms(3)
      by (simp add: deassert_line_ppi_def) (rule j [OF il2(1) t(4)]; simp)
  next
    case (Config c n hw p e)
    then show ?thesis by (simp add: tot_map_snd) (rule i [OF il(3) t(3)]; simp)
  next
    case (Sgi a q n)
    then show ?thesis using assms(3) by simp (rule j [OF il2(2) t(5)]; simp)
  next
    case (Take c p)
    then show ?thesis using assms(2,3) pending_irq_tot [OF assms(1), of c p] by (simp add: tot_map_snd)
  next
    case (Done c n st ij)
    then show ?thesis using assms(2,3) by (auto intro!: update_inj_status_tot [OF assms(1)])
  qed
qed

lemma host_steps_tot:
  assumes "gic_inv g" "num_vcpus g \<le> 8" "list_all (call_ok g) xs"
  shows "tot (for_each xs host_step g) (\<lambda>g'. gic_inv g' \<and> same_shape g g')"
proof (rule tot_for_each [where I = "\<lambda>g'. gic_inv g' \<and> same_shape g g'"])
  fix x h assume x: "x \<in> set xs" and h: "gic_inv h \<and> same_shape g h"
  have "call_ok h x" using x assms(3) call_ok_shape h by (auto simp: list_all_iff)
  then have "tot (host_step x h) (\<lambda>g'. gic_inv g' \<and> same_shape h g')"
    using h assms(2) same_shape_simps(2) [of g h] by (intro host_step_tot) simp_all
  then show "tot (host_step x h) (\<lambda>g'. gic_inv g' \<and> same_shape g g')"
    by (rule tot_mono) (use h same_shape_trans in blast)
qed (use assms in simp)

text \<open>
  C9: on a controller with up to eight vCPUs, every sequence of calls of the machine (lines going
  up and down, private interrupts, configuration, software-generated interrupts, requests for the next
  interrupt and reports of its progress) runs to its end without a failed assertion, a null pointer
  or an index outside an array, and the invariant holds at the end.
\<close>

theorem gic_calls_never_abort:
  assumes "gic_inv g" "num_vcpus g \<le> 8" "list_all (call_ok g) calls"
  shows "\<exists>g'. for_each calls host_step g = Some g' \<and> gic_inv g'"
  using host_steps_tot [OF assms] by (auto simp: tot_iff)

theorem gic_calls_never_abort_witness:
  "\<exists>g'. for_each [Assert_global 40, Sgi 1 0 3, Config 0 41 False 0 False, Assert_global 41, Take 0 0xff, Take 1 0xff, Done 0 40 INACTIVE False]
     host_step (demo_gic (\<lambda>n i. i) (\<lambda>n. False) 3) = Some g' \<and> gic_inv g'"
  by (rule gic_calls_never_abort, rule demo_inv) (simp_all add: irq_new_def demo_gic_def valid_ref_def)

lemma object_bound:
  assumes "gic_wf g" "irq_object g (c, n) = Some i"
  shows "n < MAX_IRQ"
proof (cases "n < LPI_BASE")
  case False
  then have "n - LPI_BASE < length (lpi g)" using assms(2) by (auto simp: irq_object.simps nth_opt_def split: if_splits)
  then have "n - LPI_BASE < MAX_IRQ - LPI_BASE" using assms(1) by (auto simp: gic_wf_def)
  then show ?thesis using False by linarith
qed simp

lemma lr_new_group: "bit (lr_new st i v s) 60 \<longleftrightarrow> i_group1 i"
  by (auto simp: lr_new_def bit_simps mask_bits state_code_bits dest: bit_imp_le_length)

lemma sender_field: "s < 8 \<Longrightarrow> (of_nat s :: u8) AND 0x7 = of_nat s"
proof -
  assume "s < 8"
  then have "take_bit 3 (of_nat s :: u8) = of_nat s" by (simp add: take_bit_of_nat take_bit_nat_eq_self)
  then show ?thesis by (simp add: take_bit_eq_mask mask_eq_exp_minus_1)
qed

text \<open>
  C10: a request for the next interrupt never aborts. When it hands over a list register, that
  register is for an interrupt \<open>n\<close> that is pending and enabled, is aimed at the vCPU, is in an enabled
  group, is not already in injection there and has a priority value that passes the limit, with \<open>s\<close>
  the lowest of the senders it is pending from. The register carries its number, priority, hardware
  bit and group (bit 60), the state pending, or active and pending for an active interrupt that is
  not a hardware one, the physical number of a hardware interrupt and the sender \<open>s\<close> of a
  software-generated one. Afterwards exactly \<open>s\<close> is newly marked injected, nothing else of the
  interrupt has changed, and the vCPU has \<open>n\<close> in injection besides what it had, and no longer
  marked pending.
\<close>

theorem gic_pending_irq_delivers:
  assumes "gic_inv g" "c < num_vcpus g" "c < 8"
  shows "\<exists>res g'. pending_irq c p g = Some (res, g') \<and> gic_inv g' \<and>
     (case res of None \<Rightarrow> True
      | Some lr \<Rightarrow> \<exists>n i s j.
          irq_object g (c, n) = Some i \<and> i_enable i \<and> i_prio i \<le> p \<and> is_targeting_cpu (i_info i) c = Some True \<and>
          (if i_group1 i then group1_enabled g else group0_enabled g) \<and>
          b_pending (local g ! c) n \<and> \<not> b_in_injection (local g ! c) n \<and>
          s \<in> pend_set (i_info i) \<and> (\<forall>t. t < s \<longrightarrow> t \<notin> pend_set (i_info i)) \<and>
          lr_vintid lr = of_nat n \<and> lr_priority lr = i_prio i \<and> lr_hw lr = i_hw i \<and> bit lr 60 = i_group1 i \<and>
          lr_state lr = (if i_active i \<and> \<not> i_hw i then ACTIVE_PENDING else PENDING) \<and>
          (i_hw i \<longrightarrow> lr_pintid lr = ucast (i_pintid i) AND 0x3ff) \<and>
          lr_senderid lr = (if \<not> i_hw i \<and> n < MAX_SGI then of_nat s else 0) \<and>
          irq_object g' (c, n) = Some j \<and> inj_set (i_info j) = insert s (inj_set (i_info i)) \<and>
          pend_set (i_info j) = pend_set (i_info i) \<and> inj_target (i_info j) = inj_target (i_info i) \<and>
          j\<lparr>i_info := 0\<rparr> = i\<lparr>i_info := 0\<rparr> \<and>
          (\<forall>m. b_in_injection (local g' ! c) m \<longleftrightarrow> m = n \<or> b_in_injection (local g ! c) m) \<and> \<not> b_pending (local g' ! c) n)"
proof -
  obtain res g' where r: "pending_irq c p g = Some (res, g')"
    using pending_irq_tot [OF assms, of p] by (auto simp: tot_iff)
  note sp = pending_irq_spec [OF assms(1) r]
  show ?thesis
  proof (cases res)
    case None
    then show ?thesis using r sp by auto
  next
    case (Some lr)
    then obtain n where "given c p g n lr g'" using sp by blast
    then obtain i s where g: "irq_object g (c, n) = Some i" "b_pending (local g ! c) n" "irq_eligible c (c, n) g = Some True"
        "i_prio i \<le> p" "get_pending_sender_id (i_info i) = Some s"
        "lr = lr_new (if i_active i \<and> \<not> i_hw i then ACTIVE_PENDING else PENDING) i (of_nat n) (of_nat s)"
        "irq_object g' (c, n) = Some (i\<lparr>i_info := i_info i OR 2 ^ (INJECTED_SHIFT + s)\<rparr>)"
        "b_in_injection (local g' ! c) = bitset_set (b_in_injection (local g ! c)) n" "\<not> b_pending (local g' ! c) n"
      unfolding given_def by blast
    have el: "is_targeting_cpu (i_info i) c = Some True" "i_enable i" "\<not> b_in_injection (local g ! c) n"
        "if i_group1 i then group1_enabled g else group0_enabled g"
      using g(1) by (auto intro: eligible_facts [OF g(3)])
    have s: "s < 8" "s \<in> pend_set (i_info i)" "\<forall>t. t < s \<longrightarrow> t \<notin> pend_set (i_info i)"
      using g(5) pending_sender_lt [OF g(5)] by (simp_all add: pending_sender_Some)
    have n: "unat (of_nat n :: u32) = n"
    proof -
      have "n < MAX_IRQ" using object_bound [OF _ g(1)] assms(1) by (simp add: gic_inv_def)
      then show ?thesis by (simp add: unsigned_of_nat take_bit_nat_eq_self)
    qed
    have lr: "lr_vintid lr = of_nat n" "lr_priority lr = i_prio i" "lr_hw lr = i_hw i" "bit lr 60 = i_group1 i"
        "lr_state lr = (if i_active i \<and> \<not> i_hw i then ACTIVE_PENDING else PENDING)"
        "i_hw i \<longrightarrow> lr_pintid lr = ucast (i_pintid i) AND 0x3ff" "lr_senderid lr = (if \<not> i_hw i \<and> n < MAX_SGI then of_nat s else 0)"
      using s(1) by (simp_all add: g(6) lr_new_fields lr_new_group n sender_field)
    let ?j = "i\<lparr>i_info := i_info i OR 2 ^ (INJECTED_SHIFT + s)\<rparr>"
    have j: "inj_set (i_info ?j) = insert s (inj_set (i_info i))" "pend_set (i_info ?j) = pend_set (i_info i)"
        "inj_target (i_info ?j) = inj_target (i_info i)" "?j\<lparr>i_info := 0\<rparr> = i\<lparr>i_info := 0\<rparr>"
      using s(1) by simp_all
    have b: "\<forall>m. b_in_injection (local g' ! c) m \<longleftrightarrow> m = n \<or> b_in_injection (local g ! c) m"
      by (auto simp: g(8) bitset_set_def)
    show ?thesis unfolding r Some
      by (intro exI [of _ "Some lr"] exI [of _ g'] conjI refl, use sp in blast, unfold option.case, intro exI conjI)
        (rule g el s lr j b)+
  qed
qed

text \<open>An example: interrupt 40 is pending for vCPU 0.\<close>

definition demo40 :: "nat \<Rightarrow> irq \<Rightarrow> irq" where
  "demo40 n i = (if n = 40 then i\<lparr>i_enable := True, i_info := 0x100000000\<rparr> else i)"

lemma one_pending: "pend_set 0x100000000 = {0}" "inj_target 0x100000000 = 0"
  using inj_view_set(1,9) [of 0 0] by simp_all

lemma demo40_inv: "gic_inv (demo_gic demo40 (\<lambda>n. n = 40) 3)"
  by (rule demo_inv) (simp_all add: demo40_def irq_new_def one_pending)

lemma demo40_eligible: "irq_eligible 0 (0, 40) (demo_gic demo40 (\<lambda>n. n = 40) 3) = Some True"
proof -
  let ?g = "demo_gic demo40 (\<lambda>n. n = 40) 3"
  have "irq_object ?g (0, 40) = Some (demo40 40 (irq_new\<lparr>i_id := 40\<rparr>))" by (simp add: demo_object)
  moreover have "local ?g ! 0 = \<lparr>b_sgi = demo_irqs demo40 0 16, b_ppi = demo_irqs demo40 16 32,
      b_pending = (\<lambda>n. n = 40), b_in_injection = bitset_reset, b_notify = True\<rparr>" "length (local ?g) = 2"
    by (simp_all add: demo_gic_def)
  moreover have "\<not> affinity_routing ?g" "group0_enabled ?g"
    by (simp_all add: affinity_routing_def group0_enabled_def demo_gic_def)
  ultimately show ?thesis
    by (simp add: irq_eligible_def demo40_def irq_new_def inj_pending_iff one_pending nth_opt_lt vcpu_can_receive_irq_def
        is_targeting_cpu_def is_cpu_targeted_def tgt_is_set_def tgt_target_def bitset_reset_def)
qed

lemma demo40_given:
  obtains lr g' where "pending_irq 0 0xff (demo_gic demo40 (\<lambda>n. n = 40) 3) = Some (Some lr, g')" "lr_vintid lr = 40"
proof -
  let ?g = "demo_gic demo40 (\<lambda>n. n = 40) 3"
  have n: "num_vcpus ?g = 2" "configured_irqs ?g = 64" "b_pending (local ?g ! 0) 40" "length (local ?g) = 2" "b_notify (local ?g ! 0)"
    by (simp_all add: demo_gic_def)
  obtain r g1 where h: "highest_irq 0 True ?g = Some (r, g1)"
    using highest_loop_tot [OF demo40_inv, of 0 None 64 True 0] n by (auto simp: highest_irq_def tot_iff nth_opt_lt)
  note sp = highest_irq_spec [OF demo40_inv h]
  obtain m where m: "r = Some m" using sp(4) n demo40_eligible unfolding loop_max_def by force
  then have "m = 40" using sp(3) by (auto simp: loop_choice_def demo_gic_def)
  then have o: "irq_object g1 (0, 40) = Some (demo40 40 (irq_new\<lparr>i_id := 40\<rparr>))" "irq_eligible 0 (0, 40) ?g = Some True"
    using sp(3) m by (auto simp: loop_choice_def demo_object)
  obtain res g' where r: "pending_irq 0 0xff ?g = Some (res, g')"
    using pending_irq_tot [OF demo40_inv, of 0 "0xff"] n by (auto simp: tot_iff)
  have t: "is_targeting_cpu 0x100000000 0 = Some True"
    by (simp add: is_targeting_cpu_def is_cpu_targeted_def one_pending tgt_is_set_def tgt_target_def)
  have s: "get_pending_sender_id 0x100000000 = Some 0"
    by (simp add: pending_sender_Some one_pending)
  obtain lr where "res = Some lr" using r h m \<open>m = 40\<close> o n t s
    by (auto simp: pending_irq_def demo40_def irq_new_def inj_pending_iff one_pending bind_eq_Some_conv Let_def split: if_splits)
  moreover have "lr_vintid lr = 40" if lr: "res = Some lr" for lr
  proof -
    obtain k where k: "given 0 0xff ?g k lr g'" using pending_irq_spec [OF demo40_inv r] lr by blast
    then have "b_pending (local ?g ! 0) k" "lr_vintid lr = of_nat k" by (auto simp: given_def lr_new_fields)
    then show ?thesis by (simp add: demo_gic_def)
  qed
  ultimately show ?thesis using that r by blast
qed

theorem gic_pending_irq_delivers_witness:
  "\<exists>lr g' i j. pending_irq 0 0xff (demo_gic demo40 (\<lambda>n. n = 40) 3) = Some (Some lr, g') \<and> gic_inv g' \<and> lr_vintid lr = 40 \<and>
     lr_state lr = PENDING \<and> \<not> bit lr 60 \<and> lr_senderid lr = 0 \<and> irq_object g' (0, 40) = Some j \<and> 0 \<in> inj_set (i_info j)"
proof -
  obtain lr g' where r: "pending_irq 0 0xff (demo_gic demo40 (\<lambda>n. n = 40) 3) = Some (Some lr, g')" "lr_vintid lr = 40"
    by (rule demo40_given)
  from gic_pending_irq_delivers [OF demo40_inv, of 0 "0xff"] r(1) obtain n i s j where
    n: "gic_inv g'" "irq_object (demo_gic demo40 (\<lambda>n. n = 40) 3) (0, n) = Some i" "b_pending (local (demo_gic demo40 (\<lambda>n. n = 40) 3) ! 0) n"
      "s \<in> pend_set (i_info i)" "bit lr 60 = i_group1 i" "lr_state lr = (if i_active i \<and> \<not> i_hw i then ACTIVE_PENDING else PENDING)"
      "lr_senderid lr = (if \<not> i_hw i \<and> n < MAX_SGI then of_nat s else 0)"
      "irq_object g' (0, n) = Some j" "inj_set (i_info j) = insert s (inj_set (i_info i))"
    by (auto simp: demo_gic_def)
  have "n = 40" using n(3) by (simp add: demo_gic_def)
  moreover have "i = demo40 40 (irq_new\<lparr>i_id := 40\<rparr>)" using n(2) \<open>n = 40\<close> by (simp add: demo_object)
  moreover have "s = 0" using n(4) calculation by (simp add: demo40_def one_pending)
  ultimately show ?thesis using r n by (auto simp: demo40_def irq_new_def)
qed

subsection \<open>An interrupt is handed over once\<close>

text \<open>The interrupt \<open>n\<close> is in injection at vCPU \<open>c\<close>: only the report that it has left its list register ends that.\<close>

definition held :: "nat \<Rightarrow> nat \<Rightarrow> gicd \<Rightarrow> bool" where
  "held c n g \<longleftrightarrow> c < length (local g) \<and> b_in_injection (local g ! c) n"

lemma held_bank:
  assumes "held c n g" "bank_modify d f g = Some g'" "\<And>b. b_in_injection b n \<Longrightarrow> b_in_injection (f b) n"
  shows "held c n g'"
  using assms by (cases "d = c") (auto simp: held_def bank_modify_def bind_eq_Some_conv)

lemma held_modify:
  assumes "held c n g" "irq_modify r f g = Some g'"
  shows "held c n g'"
proof -
  obtain d k where r: "r = (d, k)" by (cases r)
  have "map b_in_injection (local g') = map b_in_injection (local g)"
    using assms(2) unfolding r
    by (cases rule: irq_modify_cases [of d k f g g', case_names sgi ppi spi lpi])
      (simp_all add: map_update list_update_same_conv)
  moreover from this have "length (local g') = length (local g)" by (rule map_eq_imp_length_eq)
  ultimately show ?thesis using assms(1) in_injection_eq [of g' g c] by (simp add: held_def)
qed

interpretation held: gic_frame "held c n" for c n
proof
  show "held c n g'" if "held c n g" "bank_modify d (\<lambda>b. b\<lparr>b_pending := bitset_set (b_pending b) m\<rparr>) g = Some g'"
    for g g' d m using that by (rule held_bank) simp
  show "held c n g'" if "held c n g" "irq_modify r f g = Some g'" for g g' r f
    using that by (rule held_modify)
qed (simp_all add: held_def)

lemma held_pending_irq:
  assumes "gic_inv g" "held c n g" "pending_irq d p g = Some (res, g')"
  shows "held c n g'"
proof -
  note sp = pending_irq_spec [OF assms(1,3)]
  have "c < num_vcpus g" using assms(1,2) wf_len by (simp add: held_def gic_inv_def)
  then show ?thesis using sp assms(2) same_shape_simps(9) [of g g'] by (simp add: held_def)
qed

lemma held_status:
  assumes "held c n g" "(d, m) \<noteq> (c, n) \<or> ij" "gic_inv g"
  shows "par (update_inj_status d m st ij g) (held c n)"
proof -
  have "par (if st = INACTIVE then update_inj_status_inactive d m h else update_inj_status_active_or_pending d st m ij h) (held c n)"
    if "held c n h" for h
    using that held.par_inj_status by simp
  moreover have "par (bank_modify d (\<lambda>b. b\<lparr>b_in_injection := bitset_clr (b_in_injection b) (i_id i)\<rparr>) g) (held c n)"
    if "irq_object g (d, m) = Some i" "\<not> ij" for i
  proof -
    have "i_id i = m" using that(1) assms(3) wf_id by (force simp: gic_inv_def)
    then show ?thesis using assms(1,2) that(2)
      by (cases "d = c") (auto simp: par_iff bank_modify_def bind_eq_Some_conv held_def bitset_clr_def)
  qed
  ultimately show ?thesis unfolding update_inj_status_def using assms(1)
    by (auto intro!: par_irq_object intro: par_mono)
qed

text \<open>The calls that end the injection of \<open>n\<close> at vCPU \<open>c\<close>.\<close>

fun ends_injection :: "nat \<Rightarrow> nat \<Rightarrow> host_call \<Rightarrow> bool" where
  "ends_injection c n (Done d m st ij) = (d = c \<and> m = n \<and> \<not> ij)"
| "ends_injection c n _ = False"

lemma held_step:
  assumes "gic_inv g" "held c n g" "\<not> ends_injection c n x"
  shows "par (host_step x g) (held c n)"
proof -
  have sw: "par (map_option snd m) (held c n)" if "par m (\<lambda>(x, g'). held c n g')" for m :: "('a \<times> gicd) option"
    using that by (simp add: par_map_snd)
  show ?thesis
  proof (cases x)
    case (Take d p)
    then show ?thesis using held_pending_irq [OF assms(1,2)] by (auto simp: par_iff)
  next
    case (Done d m st ij)
    then show ?thesis using held_status [OF assms(2) _ assms(1)] assms(3) by auto
  next
    case (Assert_global m)
    then show ?thesis by (simp add: par_map_snd) (rule held.par_lines [OF assms(2)]; simp)
  next
    case (Deassert_global m)
    then show ?thesis by (simp add: deassert_global_line_def) (rule held.par_lines2 [OF assms(2)]; simp)
  next
    case (Assert_ppi d m)
    then show ?thesis by (simp add: par_map_snd) (rule held.par_lines [OF assms(2)]; simp)
  next
    case (Deassert_ppi d m)
    then show ?thesis by (simp add: deassert_line_ppi_def) (rule held.par_lines2 [OF assms(2)]; simp)
  next
    case (Config d m hw w e)
    then show ?thesis by (simp add: par_map_snd) (rule held.par_lines [OF assms(2)]; simp)
  next
    case (Sgi a t m)
    then show ?thesis by simp (rule held.par_lines2 [OF assms(2)]; simp)
  qed
qed

lemma given_vintid:
  assumes "gic_inv g" "given c p g n lr g'" "c < num_vcpus g" "same_shape g g'"
  shows "lr_vintid lr = of_nat n" "n < 2 ^ 32" "held c n g'" "\<not> b_in_injection (local g ! c) n"
proof -
  have "b_pending (local g ! c) n" using assms(2) by (auto simp: given_def)
  then have "valid_ref g (c, n)" by (rule pending_known [OF assms(1,3)])
  then show "n < 2 ^ 32" using assms(1) by (auto simp: valid_ref_def gic_inv_def gic_wf_def split: if_splits)
  show "lr_vintid lr = of_nat n" using assms(2) by (auto simp: given_def lr_new_fields)
  show "\<not> b_in_injection (local g ! c) n"
    using assms(2) by (auto simp: given_def elim: eligible_facts)
  have "c < length (local g')" using assms(1,3) wf_len same_shape_simps(9) [OF assms(4)] by (simp add: gic_inv_def)
  then show "held c n g'" using assms(2) by (auto simp: held_def given_def)
qed

text \<open>
  C11: an interrupt that a vCPU has been handed is not handed to it again until its list register is
  reported empty of it: whatever the machine does in between (assert the line again, send it
  from other vCPUs, reconfigure it, serve other vCPUs), the next request of the vCPU returns
  nothing or another interrupt.
\<close>

theorem gic_given_once:
  assumes "gic_inv g" "num_vcpus g \<le> 8" "c < num_vcpus g" "pending_irq c p g = Some (Some lr, g1)"
    and "list_all (call_ok g) calls" "list_all (\<lambda>x. \<not> ends_injection c (unat (lr_vintid lr)) x) calls"
  shows "\<exists>g2 res g3. for_each calls host_step g1 = Some g2 \<and> pending_irq c q g2 = Some (res, g3) \<and>
     (case res of None \<Rightarrow> True | Some lr' \<Rightarrow> lr_vintid lr' \<noteq> lr_vintid lr)"
proof -
  note sp = pending_irq_spec [OF assms(1,4)]
  obtain n where n: "given c p g n lr g1" using sp by blast
  have 1: "gic_inv g1" "same_shape g g1" using sp by blast+
  note gn = given_vintid [OF assms(1) n assms(3) 1(2)]
  have u: "unat (lr_vintid lr) = n" using gn(1,2) by (simp add: unat_of_nat take_bit_nat_eq_self)
  have ok: "list_all (call_ok g1) calls" using assms(5) call_ok_shape [OF 1(2)] by (simp add: list_all_iff)
  have n1: "num_vcpus g1 \<le> 8" "c < num_vcpus g1" using assms(2,3) same_shape_simps(2) [OF 1(2)] by simp_all
  obtain g2 where g2: "for_each calls host_step g1 = Some g2" "gic_inv g2" "same_shape g1 g2"
    using host_steps_tot [OF 1(1) n1(1) ok] by (auto simp: tot_iff)
  have "(gic_inv g2 \<and> same_shape g1 g2) \<and> held c n g2"
  proof (rule for_each_inv [where P = "\<lambda>h. (gic_inv h \<and> same_shape g1 h) \<and> held c n h", OF g2(1)])
    show "(gic_inv g1 \<and> same_shape g1 g1) \<and> held c n g1" using 1 gn(3) by simp
  next
    fix x h h' assume x: "x \<in> set calls" and h: "(gic_inv h \<and> same_shape g1 h) \<and> held c n h" and s: "host_step x h = Some h'"
    have c: "call_ok h x" "num_vcpus h \<le> 8" "\<not> ends_injection c n x"
      using ok x h call_ok_shape [of g1 h] n1 same_shape_simps(2) [of g1 h] assms(6) u by (auto simp: list_all_iff)
    have "gic_inv h' \<and> same_shape h h'" using host_step_tot [OF _ c(2,1)] h s by (simp add: tot_iff)
    moreover have "held c n h'" using held_step [of h c n x] c(3) h s by (simp add: par_iff)
    ultimately show "(gic_inv h' \<and> same_shape g1 h') \<and> held c n h'" using h same_shape_trans by blast
  qed
  then have h2: "held c n g2" by simp
  have n2: "c < num_vcpus g2" "c < 8" using n1 same_shape_simps(2) [OF g2(3)] by simp_all
  obtain res g3 where r: "pending_irq c q g2 = Some (res, g3)"
    using pending_irq_tot [OF g2(2) n2, of q] by (auto simp: tot_iff)
  have "lr_vintid lr' \<noteq> lr_vintid lr" if res: "res = Some lr'" for lr'
  proof -
    obtain m where m: "given c q g2 m lr' g3" using pending_irq_spec [OF g2(2) r] res by blast
    have "same_shape g2 g3" using pending_irq_spec [OF g2(2) r] by blast
    note gm = given_vintid [OF g2(2) m n2(1) this]
    have "unat (lr_vintid lr') = m" using gm(1,2) by (simp add: unat_of_nat take_bit_nat_eq_self)
    then show ?thesis using u gm(4) h2 by (auto simp: held_def)
  qed
  then show ?thesis using g2(1) r by (auto split: option.split)
qed

theorem gic_given_once_witness:
  "\<exists>lr g1 g2 res g3. pending_irq 0 0xff (demo_gic demo40 (\<lambda>n. n = 40) 3) = Some (Some lr, g1) \<and>
     for_each [Assert_global 40, Done 0 40 ACTIVE True] host_step g1 = Some g2 \<and> pending_irq 0 0xff g2 = Some (res, g3) \<and>
     (case res of None \<Rightarrow> True | Some lr' \<Rightarrow> lr_vintid lr' \<noteq> lr_vintid lr)"
proof -
  obtain lr g1 where 1: "pending_irq 0 0xff (demo_gic demo40 (\<lambda>n. n = 40) 3) = Some (Some lr, g1)" "lr_vintid lr = 40"
    by (rule demo40_given)
  have "\<exists>g2 res g3. for_each [Assert_global 40, Done 0 40 ACTIVE True] host_step g1 = Some g2 \<and> pending_irq 0 0xff g2 = Some (res, g3) \<and>
     (case res of None \<Rightarrow> True | Some lr' \<Rightarrow> lr_vintid lr' \<noteq> lr_vintid lr)"
    by (rule gic_given_once [OF demo40_inv _ _ 1(1)]) (simp_all add: demo_gic_def valid_ref_def)
  with 1(1) show ?thesis by blast
qed

subsection \<open>Which interrupt is chosen\<close>

lemma pending_eligible_prio:
  assumes "irq_object g (c, n) = Some i"
  shows "prio_of c g n = i_prio i"
  using assms by (simp add: prio_of_def)

lemma highest_irq_tot:
  assumes "gic_inv g" "c < num_vcpus g" "c < 8"
  shows "tot (highest_irq c red g) (\<lambda>_. True)"
proof -
  have "c < length (local g)" "b_notify (local g ! c)"
    using assms(1,2) wf_len wf_bank(4) by (auto simp: gic_inv_def)
  then show ?thesis using highest_loop_tot [OF assms, of None "configured_irqs g" red 0]
    by (simp add: highest_irq_def nth_opt_lt)
qed

text \<open>
  The search for the next interrupt of a vCPU finds none only when no interrupt below the last
  configured one can be delivered; otherwise what it finds can be delivered, and no
  deliverable interrupt below the last configured one has a greater priority value.
\<close>

theorem gic_highest_irq_choice:
  assumes "gic_inv g" "c < num_vcpus g" "c < 8"
  shows "\<exists>r g'. highest_irq c red g = Some (r, g') \<and> gic_inv g' \<and>
     (case r of
        None \<Rightarrow> (\<forall>m < configured_irqs g - 1. b_pending (local g ! c) m \<longrightarrow> irq_eligible c (c, m) g = Some False)
      | Some n \<Rightarrow> b_pending (local g ! c) n \<and> irq_eligible c (c, n) g = Some True \<and>
          (\<forall>m < configured_irqs g - 1. b_pending (local g ! c) m \<and> irq_eligible c (c, m) g = Some True \<longrightarrow>
             prio_of c g m \<le> prio_of c g n))"
proof -
  obtain r g' where r: "highest_irq c red g = Some (r, g')"
    using highest_irq_tot [OF assms, of red] by (auto simp: tot_iff)
  note sp = highest_irq_spec [OF assms(1) r]
  have mx: "\<exists>n. r = Some n \<and> prio_of c g m \<le> prio_of c g n"
    if "m < configured_irqs g - 1" "b_pending (local g ! c) m" "irq_eligible c (c, m) g = Some True" for m
    using sp(4) that by (auto simp: loop_max_def)
  have "irq_eligible c (c, m) g = Some False"
    if m: "r = None" "m < configured_irqs g - 1" "b_pending (local g ! c) m" for m
  proof -
    obtain e where e: "irq_eligible c (c, m) g = Some e"
      using eligible_tot [OF assms pending_known [OF assms(1,2) m(3)]] by (auto simp: tot_iff)
    then show ?thesis using mx [OF m(2,3)] m(1) by (cases e) auto
  qed
  moreover have "b_pending (local g ! c) n \<and> irq_eligible c (c, n) g = Some True" if "r = Some n" for n
    using sp(3) that by (auto simp: loop_choice_def)
  moreover have "gic_inv g'" using sp(2) by (simp add: loop_frame_def)
  ultimately show ?thesis using r mx by (intro exI [of _ r] exI [of _ g']) (auto split: option.split)
qed

theorem gic_highest_irq_choice_witness:
  "\<exists>r g'. highest_irq 0 False (demo_gic demo40 (\<lambda>n. n = 40) 3) = Some (r, g') \<and>
     (case r of None \<Rightarrow> False | Some n \<Rightarrow> n = 40)"
proof -
  let ?g = "demo_gic demo40 (\<lambda>n. n = 40) 3"
  have n: "num_vcpus ?g = 2" "configured_irqs ?g = 64" "b_pending (local ?g ! 0) m \<longleftrightarrow> m = 40" for m
    by (simp_all add: demo_gic_def)
  have "0 < num_vcpus ?g" "(0::nat) < 8" by (simp_all add: n)
  from gic_highest_irq_choice [OF demo40_inv this, of False] show ?thesis
    using demo40_eligible n by (simp split: option.splits) (metis (no_types) option.simps(5))
qed

text \<open>
  The last configured interrupt is not looked at when it is the only one that is pending: the
  search covers one number less than there are interrupts, so a vCPU whose only pending
  interrupt is the last one is handed nothing.
\<close>

theorem gic_last_irq_not_found:
  assumes "gic_inv g" "c < num_vcpus g" "\<forall>n. b_pending (local g ! c) n = (n = configured_irqs g - 1)"
  shows "pending_irq c p g = Some (None, g)"
proof -
  have l: "c < length (local g)" "b_notify (local g ! c)"
    using assms(1,2) wf_len wf_bank(4) by (auto simp: gic_inv_def)
  have "configured_irqs g \<le> 1020" using assms(1) by (simp add: gic_inv_def gic_wf_def)
  then have "get_next_pending_irq (configured_irqs g) (b_pending (local g ! c)) 0 = None"
    using assms(3) by (auto simp: get_next_pending_irq_def first_set_None split: option.splits)
  then show ?thesis using l assms(2)
    by (simp add: pending_irq_def highest_irq_def nth_opt_lt highest_loop.simps [of _ c True 0 None g])
qed

definition demo63 :: "nat \<Rightarrow> irq \<Rightarrow> irq" where
  "demo63 n i = (if n = 63 then i\<lparr>i_enable := True, i_info := 0x100000000\<rparr> else i)"

theorem gic_last_irq_not_found_witness:
  "irq_pending (demo63 63 irq_new) \<and>
   pending_irq 0 0xff (demo_gic demo63 (\<lambda>n. n = 63) 3) = Some (None, demo_gic demo63 (\<lambda>n. n = 63) 3)"
proof -
  have "gic_inv (demo_gic demo63 (\<lambda>n. n = 63) 3)"
    by (rule demo_inv) (simp_all add: demo63_def irq_new_def one_pending)
  then show ?thesis
    using gic_last_irq_not_found [of "demo_gic demo63 (\<lambda>n. n = 63) 3" 0 "0xff"]
    by (simp add: demo_gic_def demo63_def irq_pending_def inj_pending_iff one_pending)
qed

subsection \<open>The end of an injection\<close>

lemma irq_modify_bits:
  assumes "irq_modify r f g = Some g'"
  shows "map b_in_injection (local g') = map b_in_injection (local g)" "map b_pending (local g') = map b_pending (local g)"
proof -
  obtain d k where r: "r = (d, k)" by (cases r)
  show "map b_in_injection (local g') = map b_in_injection (local g)" "map b_pending (local g') = map b_pending (local g)"
    using assms unfolding r
    by (cases rule: irq_modify_cases [of d k f g g', case_names sgi ppi spi lpi];
        simp add: map_update list_update_same_conv)+
qed

text \<open>A change of one object: what it becomes and that nothing else changes.\<close>

definition only_irq :: "irq_ref \<Rightarrow> (irq \<Rightarrow> irq) \<Rightarrow> gicd \<Rightarrow> gicd \<Rightarrow> bool" where
  "only_irq r f g g' \<longleftrightarrow> same_shape g g' \<and>
     (\<forall>q. irq_object g' q = (if same_irq r q then map_option f (irq_object g q) else irq_object g q)) \<and>
     map b_in_injection (local g') = map b_in_injection (local g) \<and> map b_pending (local g') = map b_pending (local g)"

lemma only_irq_modify:
  "irq_modify r f g = Some g' \<Longrightarrow> (\<And>i. i_id (f i) = i_id i) \<Longrightarrow> only_irq r f g g'"
  using irq_modify_object irq_modify_bits irq_modify_shape unfolding only_irq_def by blast

lemma only_irq_refl [simp]: "only_irq r (\<lambda>i. i) g g"
  by (simp add: only_irq_def option.map_ident)

lemma only_irq_trans:
  "only_irq r f g g1 \<Longrightarrow> only_irq r h g1 g2 \<Longrightarrow> only_irq r (\<lambda>i. h (f i)) g g2"
  using same_shape_trans by (auto simp: only_irq_def option.map_comp comp_def)

lemma tot_only_irq:
  assumes "only_irq r f g0 g" "irq_object g0 r \<noteq> None" "\<And>i. i_id (h i) = i_id i"
    and "\<And>g'. only_irq r (\<lambda>i. h (f i)) g0 g' \<Longrightarrow> P g'"
  shows "tot (irq_modify r h g) P"
proof -
  have "irq_object g r \<noteq> None" using assms(1,2) by (auto simp: only_irq_def)
  then obtain g' where g': "irq_modify r h g = Some g'" using irq_modify_total by blast
  show ?thesis using g' assms(4) [OF only_irq_trans [OF assms(1) only_irq_modify [OF g' assms(3)]]] by simp
qed

text \<open>What the end of an injection leaves of the object.\<close>

definition ended :: "nat \<Rightarrow> bool \<Rightarrow> irq \<Rightarrow> irq" where
  "ended c stats i =
     (let i = (if stats then i\<lparr>i_num_acked := i_num_acked i + 1\<rparr> else i)
      in (irq_deactivate True i)\<lparr>i_info := updated_info c True True (i_info i)\<rparr>)"

lemma ended_id [simp]: "i_id (ended c b i) = i_id i"
  by (simp add: ended_def Let_def)

lemma same_irq_object: "same_irq r q \<Longrightarrow> irq_object g q = irq_object g r"
  by (cases r; cases q) (auto simp: same_irq_def irq_object.simps)

lemma inactive_spec:
  assumes "gic_inv g" "c < num_vcpus g" "c < 8" "irq_object g (c, n) = Some i"
  shows "tot (update_inj_status_inactive c n g) (\<lambda>g'. \<exists>g1. only_irq (c, n) (ended c (stats_enabled g)) g g1 \<and>
     (if irq_pending (ended c (stats_enabled g) i)
      then bank_modify c (\<lambda>b. b\<lparr>b_pending := bitset_set (b_pending b) n\<rparr>) g1 = Some g' else g' = g1))"
proof -
  let ?r = "(c, n)" and ?s = "\<lambda>i. if stats_enabled g then i\<lparr>i_num_acked := i_num_acked i + 1\<rparr> else i"
  have idn: "i_id i = n" using wf_id [of g "(c, n)" i] assms(1,4) by (simp add: gic_inv_def)
  have o: "irq_object g ?r \<noteq> None" using assms(4) by simp
  have 1: "tot (if stats_enabled g then irq_modify ?r (\<lambda>i. i\<lparr>i_num_acked := i_num_acked i + 1\<rparr>) g else Some g)
      (\<lambda>g1. only_irq ?r ?s g g1)"
    using tot_only_irq [OF only_irq_refl o, of "\<lambda>i. i\<lparr>i_num_acked := i_num_acked i + 1\<rparr>"] by simp
  have 2: "tot (irq_modify ?r (irq_deactivate True) g1) (\<lambda>g2. only_irq ?r (\<lambda>i. irq_deactivate True (?s i)) g g2)"
    if "only_irq ?r ?s g g1" for g1
    using that by (rule tot_only_irq [OF _ o]) simp_all
  have 3: "tot (update_info c ?r True True g2) (\<lambda>g3. \<exists>f. only_irq ?r f g g3 \<and> f i = ended c (stats_enabled g) i)"
    if g2: "only_irq ?r (\<lambda>i. irq_deactivate True (?s i)) g g2" for g2
  proof -
    have o2: "irq_object g2 ?r = Some (irq_deactivate True (?s i))"
      using g2 assms(4) by (simp add: only_irq_def same_irq_def)
    have "tot (set_info ?r (updated_info c True True (i_info i)) g2)
      (\<lambda>g3. only_irq ?r (\<lambda>j. (irq_deactivate True (?s j))\<lparr>i_info := updated_info c True True (i_info i)\<rparr>) g g3)"
      unfolding set_info_def using g2 by (rule tot_only_irq [OF _ o]) simp_all
    then have "tot (set_info ?r (updated_info c True True (i_info i)) g2) (\<lambda>g3. \<exists>f. only_irq ?r f g g3 \<and> f i = ended c (stats_enabled g) i)"
      by (rule tot_mono) (auto simp: ended_def Let_def)
    moreover have "i_info (irq_deactivate True (?s i)) = i_info i" by simp
    ultimately show ?thesis
      using update_info_eq [OF o2 assms(3), of True True] g2
      by (auto simp: ended_def Let_def intro!: exI [of _ "\<lambda>i. irq_deactivate True (?s i)"])
  qed
  have 4: "tot (mark_if_pending c ?r g3) (\<lambda>g'. \<exists>g1. only_irq ?r (ended c (stats_enabled g)) g g1 \<and>
     (if irq_pending (ended c (stats_enabled g) i)
      then bank_modify c (\<lambda>b. b\<lparr>b_pending := bitset_set (b_pending b) n\<rparr>) g1 = Some g' else g' = g1))"
    if g3: "only_irq ?r f g g3" "f i = ended c (stats_enabled g) i" for f g3
  proof -
    have o3: "irq_object g3 ?r = Some (ended c (stats_enabled g) i)"
      using g3 assms(4) by (simp add: only_irq_def same_irq_def)
    have "only_irq ?r (ended c (stats_enabled g)) g g3" using g3 assms(4)
      by (auto simp: only_irq_def) (metis option.simps(9) same_irq_object assms(4))
    moreover have "c < length (local g3)" using g3(1) assms(1,2) wf_len same_shape_simps(9) [of g g3]
      by (simp add: only_irq_def gic_inv_def)
    ultimately show ?thesis using o3 idn
      by (auto simp: mark_if_pending_def bank_modify_lt intro!: exI [of _ g3])
  qed
  show ?thesis unfolding update_inj_status_inactive_def tot_simps
    by (rule tot_mono [OF 1], rule tot_mono [OF 2], assumption, rule tot_mono [OF 3], assumption) (elim exE conjE, rule 4)
qed

lemma ended_fields:
  assumes "get_injected_sender_id (i_info i) = Some s" "is_targeting_cpu (i_info i) c = Some True"
  shows "\<not> i_active (ended c b i)" "i_enable (ended c b i) = i_enable i" "i_prio (ended c b i) = i_prio i"
    "pend_set (i_info (ended c b i)) = pend_set (i_info i) - {s}" "inj_set (i_info (ended c b i)) = inj_set (i_info i) - {s}"
    "irq_pending (ended c b i) \<longleftrightarrow> (\<not> i_sw_edge i \<and> i_line_asserted i) \<or> i_sw_asserted i \<or> pend_set (i_info i) - {s} \<noteq> {}"
proof -
  have s: "s < 8" using injected_sender_lt [OF assms(1)] by simp
  have v: "i_info (ended c b i) = (i_info i AND NOT (2 ^ (INJECTED_SHIFT + s))) AND NOT (2 ^ (PENDING_SHIFT + s))"
    using assms by (simp add: ended_def Let_def updated_info_def)
  show "\<not> i_active (ended c b i)" "i_enable (ended c b i) = i_enable i" "i_prio (ended c b i) = i_prio i"
    by (simp_all add: ended_def Let_def irq_deactivate_def)
  show p: "pend_set (i_info (ended c b i)) = pend_set (i_info i) - {s}" "inj_set (i_info (ended c b i)) = inj_set (i_info i) - {s}"
    using s by (simp_all add: v)
  have "i_sw_edge (ended c b i) = i_sw_edge i" "i_line_asserted (ended c b i) = i_line_asserted i"
      "i_sw_asserted (ended c b i) = i_sw_asserted i"
    by (simp_all add: ended_def Let_def irq_deactivate_def)
  then show "irq_pending (ended c b i) \<longleftrightarrow> (\<not> i_sw_edge i \<and> i_line_asserted i) \<or> i_sw_asserted i \<or> pend_set (i_info i) - {s} \<noteq> {}"
    by (simp add: irq_pending_def inj_pending_iff p)
qed

text \<open>
  When a vCPU reports that an interrupt has become inactive and left its list register, the
  interrupt is no longer active nor in injection there and the sender that was injected is no longer
  pending; the vCPU has it marked pending exactly when it was marked before or is still pending: the
  line of a level-triggered interrupt is up, the guest has asserted it, or another sender waits. No
  other interrupt changes.
\<close>

theorem gic_end_of_injection:
  assumes "gic_inv g" "c < num_vcpus g" "c < 8" "irq_object g (c, n) = Some i"
    and "get_injected_sender_id (i_info i) = Some s" "is_targeting_cpu (i_info i) c = Some True"
  shows "\<exists>g' j. update_inj_status c n INACTIVE False g = Some g' \<and> irq_object g' (c, n) = Some j \<and>
     \<not> i_active j \<and> inj_set (i_info j) = inj_set (i_info i) - {s} \<and> pend_set (i_info j) = pend_set (i_info i) - {s} \<and>
     \<not> b_in_injection (local g' ! c) n \<and>
     (b_pending (local g' ! c) n \<longleftrightarrow> b_pending (local g ! c) n \<or>
        (\<not> i_sw_edge i \<and> i_line_asserted i) \<or> i_sw_asserted i \<or> pend_set (i_info i) - {s} \<noteq> {}) \<and>
     (\<forall>q. same_irq (c, n) q \<or> irq_object g' q = irq_object g q)"
proof -
  let ?f = "\<lambda>b. b\<lparr>b_in_injection := bitset_clr (b_in_injection b) n\<rparr>"
  let ?h = "\<lambda>b. b\<lparr>b_pending := bitset_set (b_pending b) n\<rparr>"
  have idn: "i_id i = n" using wf_id [of g "(c, n)" i] assms(1,4) by (simp add: gic_inv_def)
  have v: "valid_ref g (c, n)"
    using known_valid [OF _ knownI [OF assms(4)] assms(2)] assms(1) idn by (simp add: gic_inv_def)
  have lim: "n < configured_irqs g \<or> LPI_BASE \<le> n"
    using assms(1) v by (auto simp: valid_ref_def gic_inv_def gic_wf_def split: if_splits)
  have lc: "c < length (local g)" using assms(1,2) wf_len by (simp add: gic_inv_def)
  obtain g1 where g1: "bank_modify c ?f g = Some g1" "local g1 = (local g)[c := ?f (local g ! c)]"
    using lc by (simp add: bank_modify_lt)
  have inv1: "gic_inv g1" by (rule gic_inv_bank [OF assms(1) g1(1)]) simp
  have sh1: "same_shape g g1" by (rule bank_modify_shape [OF g1(1)]) simp
  have o1: "irq_object g1 q = irq_object g q" for q by (rule bank_modify_object [OF g1(1)]) simp
  have "c < num_vcpus g1" "irq_object g1 (c, n) = Some i"
    using assms(2,4) o1 same_shape_simps(2) [OF sh1] by simp_all
  from inactive_spec [OF inv1 this(1) assms(3) this(2)] obtain g2 g' where
    g': "update_inj_status_inactive c n g1 = Some g'" and
    g2: "only_irq (c, n) (ended c (stats_enabled g1)) g1 g2" and
    e: "if irq_pending (ended c (stats_enabled g1) i) then bank_modify c ?h g2 = Some g' else g' = g2"
    by (auto simp: tot_iff)
  have u: "update_inj_status c n INACTIVE False g = Some g'"
    using assms(2,4) lim g1(1) g' idn by (simp add: update_inj_status_def)
  have o2: "irq_object g' q = irq_object g2 q" for q
    using e bank_modify_object [of c ?h g2 g'] by (auto split: if_splits)
  have l2: "c < length (local g2)" "b_pending (local g2 ! c) = b_pending (local g ! c)"
    "b_in_injection (local g2 ! c) = bitset_clr (b_in_injection (local g ! c)) n"
  proof -
    have m: "map b_in_injection (local g2) = map b_in_injection (local g1)" "map b_pending (local g2) = map b_pending (local g1)"
      using g2 by (simp_all add: only_irq_def)
    show "c < length (local g2)" using map_eq_imp_length_eq [OF m(1)] g1(2) lc by simp
    then show "b_pending (local g2 ! c) = b_pending (local g ! c)"
        "b_in_injection (local g2 ! c) = bitset_clr (b_in_injection (local g ! c)) n"
      using arg_cong [OF m(1), of "\<lambda>xs. xs ! c"] arg_cong [OF m(2), of "\<lambda>xs. xs ! c"] g1(2) lc by simp_all
  qed
  have b: "\<not> b_in_injection (local g' ! c) n"
    "b_pending (local g' ! c) n \<longleftrightarrow> b_pending (local g ! c) n \<or> irq_pending (ended c (stats_enabled g1) i)"
    using e l2 by (auto simp: bank_modify_def bind_eq_Some_conv split: if_splits)
  note ef = ended_fields [OF assms(5,6)]
  show ?thesis
    using u o2 g2 o1 assms(4) b ef by (intro exI [of _ g'] exI [of _ "ended c (stats_enabled g1) i"]) (simp add: only_irq_def same_irq_def)
qed

text \<open>The interrupt 40 of the example, pending for one sender and injected.\<close>

definition demo_inj :: "nat \<Rightarrow> irq \<Rightarrow> irq" where
  "demo_inj n i = (if n = 40 then i\<lparr>i_enable := True, i_active := True, i_sw_asserted := True, i_info := 0x10100000000\<rparr> else i)"

lemma one_injected: "pend_set 0x10100000000 = {0}" "inj_set 0x10100000000 = {0}" "inj_target 0x10100000000 = 0"
  using inj_view_set(5,7,11) [of 0 "0x100000000"] one_pending inj_view_set(3) [of 0 0] by simp_all

theorem gic_end_of_injection_witness:
  "\<exists>g' j. update_inj_status 0 40 INACTIVE False (demo_gic demo_inj (\<lambda>n. False) 3) = Some g' \<and>
     irq_object g' (0, 40) = Some j \<and> \<not> i_active j \<and> pend_set (i_info j) = {} \<and> b_pending (local g' ! 0) 40"
proof -
  let ?g = "demo_gic demo_inj (\<lambda>n. False) 3" and ?i = "demo_inj 40 (irq_new\<lparr>i_id := 40\<rparr>)"
  have inv: "gic_inv ?g" by (rule demo_inv) (simp_all add: demo_inj_def irq_new_def one_injected)
  have o: "irq_object ?g (0, 40) = Some ?i" by (simp add: demo_object)
  have f: "i_info ?i = 0x10100000000" "i_sw_asserted ?i" by (simp_all add: demo_inj_def)
  have s: "get_injected_sender_id (i_info ?i) = Some 0" by (simp add: f injected_sender_Some one_injected)
  have t: "is_targeting_cpu (i_info ?i) 0 = Some True"
    by (simp add: f is_targeting_cpu_def is_cpu_targeted_def one_injected tgt_is_set_def tgt_target_def)
  have n: "0 < num_vcpus ?g" by (simp add: demo_gic_def)
  from gic_end_of_injection [OF inv n _ o s t] f show ?thesis by (auto simp: one_injected)
qed

subsection \<open>Lines of shared interrupts\<close>

text \<open>What an assertion leaves of the object: pending for sender 0, not injected, nothing else.\<close>

definition asserted_from :: "irq \<Rightarrow> irq \<Rightarrow> bool" where
  "asserted_from i j \<longleftrightarrow> pend_set (i_info j) = {0} \<and> inj_set (i_info j) = {} \<and>
     i_line_asserted j = i_line_asserted i \<and> i_sw_asserted j = i_sw_asserted i \<and> i_sw_edge j = i_sw_edge i \<and>
     i_enable j = i_enable i \<and> i_prio j = i_prio i \<and> i_active j = i_active i"

lemma notify_object:
  assumes "irq_object g r = Some j" "P j"
  shows "par (notify_target (i_id j) t g) (\<lambda>(x, g'). \<exists>j. irq_object g' r = Some j \<and> P j)"
proof (rule objs.par_notify_target [of g])
  show "same_objects g g" by (simp add: same_objects_def)
  show "known g (i_id j)" by (rule knownI [OF assms(1)])
qed (use assms in \<open>simp add: same_objects_def\<close>)

lemma assert_pi_object:
  assumes "irq_object g r = Some i"
  shows "par (assert_pi c r g) (\<lambda>(x, g'). \<exists>j. irq_object g' r = Some j \<and> asserted_from i j)"
proof -
  have r: "same_irq r r" by (simp add: same_irq_def)
  have 1: "par (set_info r (set_target_cpu t 0 OR 0x100000000) g1) (\<lambda>h. par (count_asserted r h)
      (\<lambda>g2. par (notify_target (i_id i) t g2) (\<lambda>(x, g'). \<exists>j. irq_object g' r = Some j \<and> asserted_from i j)))"
    if g1: "irq_object g1 r = Some i" for t g1
    unfolding par_iff [of "set_info _ _ _"] par_iff [of "count_asserted _ _"]
  proof (intro allI impI)
    fix h g2
    assume h: "set_info r (set_target_cpu t 0 OR 0x100000000) g1 = Some h" "count_asserted r h = Some g2"
    have "irq_object h r = Some (i\<lparr>i_info := set_target_cpu t 0 OR 0x100000000\<rparr>)"
      using set_info_spec(2) [OF h(1), of r] g1 r by simp
    then obtain j where j: "irq_object g2 r = Some j" "asserted_from i j" "i_id j = i_id i"
      using h(2) irq_modify_object [of r _ h g2 r] r
      by (auto simp: count_asserted_def asserted_from_def split: if_splits)
    from notify_object [of g2 r j "asserted_from i" t, OF j(1,2)] j(3)
    show "par (notify_target (i_id i) t g2) (\<lambda>(x, g'). \<exists>j. irq_object g' r = Some j \<and> asserted_from i j)" by simp
  qed
  show ?thesis
    unfolding assert_pi_def next_hint_def using assms by (simp add: Let_def) (auto intro!: par_pure 1)
qed

text \<open>
  Raising the line of a level-triggered shared interrupt makes it pending, and lowering the
  line again has no effect: the call acts on private interrupts only, so the line stays recorded
  as up and the interrupt stays pending after its source has gone quiet.
\<close>

theorem gic_shared_line_not_lowered:
  assumes "gic_inv g" "SPI_BASE \<le> n" "n < configured_irqs g" "irq_object g (0, n) = Some i" "\<not> i_hw_edge i" "\<not> i_sw_edge i"
  shows "\<exists>b g' j. assert_global_line n g = Some (b, g') \<and> deassert_global_line n g' = Some g' \<and>
     irq_object g' (0, n) = Some j \<and> i_line_asserted j \<and> irq_pending j"
proof -
  have wf: "gic_wf g" using assms(1) by (simp add: gic_inv_def)
  have "tot (assert_global_line n g) (\<lambda>_. True)" by (rule tot_lines [OF wf same_shape_refl]) simp
  then obtain b g' where g': "assert_global_line n g = Some (b, g')" by (auto simp: tot_iff)
  then obtain h where h: "irq_modify (0, n) irq_assert_line g = Some h" "assert_pi 0 (0, n) h = Some (b, g')"
    using assms(2-5) by (auto simp: assert_global_line_def bind_eq_Some_conv split: if_splits)
  have "irq_object h (0, n) = Some (irq_assert_line i)"
    using irq_modify_object [OF h(1), of "(0, n)"] assms(4) by (simp add: same_irq_def)
  from parD [OF assert_pi_object [OF this, of 0] h(2)] obtain j where
    "irq_object g' (0, n) = Some j" "asserted_from (irq_assert_line i) j" by auto
  moreover from this have "i_line_asserted j \<and> irq_pending j"
    using assms(6) by (simp add: asserted_from_def irq_assert_line_def irq_pending_def)
  moreover have "deassert_global_line n g' = Some g'"
    using assms(2) by (simp add: deassert_global_line_def deassert_line_def)
  ultimately show ?thesis using g' by blast
qed

definition demo_level :: "nat \<Rightarrow> irq \<Rightarrow> irq" where
  "demo_level n i = i\<lparr>i_hw_edge := False, i_sw_edge := False\<rparr>"

theorem gic_shared_line_not_lowered_witness:
  "\<exists>b g' j. assert_global_line 40 (demo_gic demo_level (\<lambda>n. False) 3) = Some (b, g') \<and>
     deassert_global_line 40 g' = Some g' \<and> irq_object g' (0, 40) = Some j \<and> i_line_asserted j \<and> irq_pending j"
  by (rule gic_shared_line_not_lowered [where i = "demo_level 40 (irq_new\<lparr>i_id := 40\<rparr>)"], rule demo_inv)
    (simp_all add: demo_level_def irq_new_def demo_object, simp add: demo_gic_def)

subsection \<open>Routing and software-generated interrupts\<close>

text \<open>
  With affinity routing, an interrupt that any vCPU may take is routed to one existing vCPU,
  and to one that is awake whenever some vCPU is awake, whatever the round-robin hint is.
\<close>

theorem gic_route_any_finds_awake:
  assumes "gic_wf g" "affinity_routing g" "rt_any (i_routing i)"
  shows "\<exists>v < num_vcpus g. route_spi i h g = Some (irq_target CPU_ID (of_nat v)) \<and>
     (if \<exists>u < num_vcpus g. can_receive_irq (redists g ! u) then can_receive_irq (redists g ! v) else True)"
proof -
  let ?n = "num_vcpus g" and ?h = "h mod num_vcpus g"
  have n: "0 < ?n" using assms(1) by (simp add: gic_wf_def)
  then have "?h < ?n" by simp
  from route_any_spec [OF assms(1) this, of ?n] obtain v where v: "v < ?n"
      "route_any ?n ?h g = Some (irq_target CPU_ID (of_nat v))"
      "(\<exists>k<?n. can_receive_irq (redists g ! ((?h + k) mod ?n))) \<longrightarrow> can_receive_irq (redists g ! v)" by blast
  have "can_receive_irq (redists g ! v)" if u: "u < ?n" "can_receive_irq (redists g ! u)" for u
  proof -
    have "(?h + (u + (?n - ?h)) mod ?n) mod ?n = (?h + (u + (?n - ?h))) mod ?n" by (rule mod_add_right_eq)
    also have "?h + (u + (?n - ?h)) = u + ?n" using n mod_less_divisor [OF n, of h] by linarith
    finally have "(?h + (u + (?n - ?h)) mod ?n) mod ?n = u" using u(1) by simp
    moreover have "(u + (?n - ?h)) mod ?n < ?n" using n by simp
    ultimately show ?thesis using v(3) u(2) by metis
  qed
  then show ?thesis using v(1,2) n assms(2,3) by (auto simp: route_spi_def)
qed

theorem gic_route_any_finds_awake_witness:
  "\<exists>v < 2. route_spi (irq_new\<lparr>i_routing := 0x80000000\<rparr>) 7 (demo_gic (\<lambda>n i. i) (\<lambda>n. False) 0x12) = Some (irq_target CPU_ID (of_nat v))"
proof -
  let ?g = "demo_gic (\<lambda>n i. i) (\<lambda>n. False) 0x12"
  have "gic_inv ?g" by (rule demo_inv) (simp_all add: irq_new_def)
  moreover have "affinity_routing ?g" "num_vcpus ?g = 2" by (simp_all add: affinity_routing_def demo_gic_def)
  ultimately show ?thesis
    using gic_route_any_finds_awake [of ?g "irq_new\<lparr>i_routing := 0x80000000\<rparr>" 7] by (auto simp: gic_inv_def rt_any_def)
qed

lemma notify_cpu_marks:
  assumes "notify_cpu c n g = Some g'"
  shows "b_pending (local g' ! c) n"
  using assms by (auto simp: notify_cpu_def bank_modify_def bind_eq_Some_conv split: if_splits)

text \<open>
  Without affinity routing, a software-generated interrupt sent by one of the first eight
  vCPUs to an existing vCPU adds its sender to the pending senders of that interrupt of
  the target, keeps the other senders, takes the sender out of the injected ones and marks the
  interrupt pending at the target.
\<close>

theorem gic_sgi_recorded_per_sender:
  assumes "gic_inv g" "\<not> affinity_routing g" "a < 8" "t < num_vcpus g" "n < MAX_SGI" "irq_object g (t, n) = Some i"
  shows "\<exists>g' j. send_sgi a t n g = Some g' \<and> gic_inv g' \<and> irq_object g' (t, n) = Some j \<and>
     pend_set (i_info j) = insert a (pend_set (i_info i)) \<and> inj_set (i_info j) = inj_set (i_info i) - {a} \<and>
     inj_target (i_info j) = irq_target CPU_ID (of_nat t) \<and> b_pending (local g' ! t) n"
proof -
  have wf: "gic_wf g" using assms(1) by (simp add: gic_inv_def)
  have idn: "i_id i = n" using wf_id [OF wf assms(6)] by simp
  have t31: "t < 2 ^ 31" using assms(4) wf by (simp add: gic_wf_def)
  let ?T = "irq_target CPU_ID (of_nat t)"
  let ?v = "(set_target_cpu ?T (i_info i) AND NOT (2 ^ (INJECTED_SHIFT + a))) OR 2 ^ (PENDING_SHIFT + a)"
  have "tot (send_sgi a t n g) (\<lambda>_. True)" by (rule tot_lines2 [OF wf same_shape_refl]) (use assms in simp_all)
  then obtain g' where g': "send_sgi a t n g = Some g'" by (auto simp: tot_iff)
  have inv: "gic_inv g'" using inv.par_lines2(2) [OF assms(1), of gic_inv a t n] g' by simp
  obtain b h k where h: "set_info (t, n) ?v g = Some h" "count_asserted (t, n) h = Some k" "notify_target n ?T k = Some (b, g')"
    using g' assms(2-6) idn by (auto simp: send_sgi_def assert_sgi_def bind_eq_Some_conv Let_def)
  have "irq_object h (t, n) = Some (i\<lparr>i_info := ?v\<rparr>)"
    using set_info_spec(2) [OF h(1), of "(t, n)"] assms(6) by (simp add: same_irq_def)
  then obtain j where j: "irq_object k (t, n) = Some j" "i_info j = ?v" "i_id j = n"
    using h(2) idn irq_modify_object [of "(t, n)" _ h k "(t, n)"]
    by (auto simp: count_asserted_def same_irq_def split: if_splits)
  have "par (notify_target (i_id j) ?T k) (\<lambda>(x, g'). \<exists>j. irq_object g' (t, n) = Some j \<and> i_info j = ?v)"
    by (rule notify_object [OF j(1)]) (rule j(2))
  then obtain l where l: "irq_object g' (t, n) = Some l" "i_info l = ?v" using h(3) j(3) by auto
  have "notify_cpu t n k = Some g'"
    using h(3) cpu_id_target [OF t31] by (auto simp: notify_target_def bind_eq_Some_conv split: if_splits)
  then have "b_pending (local g' ! t) n" by (rule notify_cpu_marks)
  then show ?thesis using g' inv l assms(3) by (intro exI [of _ g'] exI [of _ l]) simp
qed

theorem gic_sgi_recorded_per_sender_witness:
  "\<exists>g' j. send_sgi 1 0 3 (demo_gic (\<lambda>n i. i) (\<lambda>n. False) 3) = Some g' \<and> irq_object g' (0, 3) = Some j \<and>
     pend_set (i_info j) = {1} \<and> b_pending (local g' ! 0) 3"
proof -
  let ?g = "demo_gic (\<lambda>n i. i) (\<lambda>n. False) 3"
  have "gic_inv ?g" by (rule demo_inv) (simp_all add: irq_new_def)
  from gic_sgi_recorded_per_sender [OF this, of 1 0 3 "irq_new\<lparr>i_id := 3\<rparr>"] show ?thesis
    by (auto simp: affinity_routing_def demo_gic_def demo_object [unfolded demo_gic_def] irq_new_def)
qed

end
