(* ===== verification/GicMmio.thy ===== *)
theory GicMmio
  imports GicProps Vbus
begin

text \<open>
  The memory-mapped registers of the distributor (\<open>devices/gic/src/gicd.cpp\<close>, \<open>GicD::access\<close>) and the
  access descriptor \<open>IrqMmioAccess\<close> that the redistributor shares. Offsets are natural numbers;
  \<open>None\<close> is a failed \<open>ASSERT\<close>, an index outside an array or a shift by the width of the value
  or more, which is undefined in the source language.
\<close>

subsection \<open>Which interrupts an access covers\<close>

datatype access_type = SGI | PPI | PRIVATE_ONLY | SPI | ALL_IRQS

record irq_access =
  base_abs :: nat
  irq_base :: nat
  irq_max :: nat
  acc_offset :: nat
  acc_bytes :: nat
  irq_per_bytes :: nat
  acc_configured :: nat

definition first_irq_accessed :: "irq_access \<Rightarrow> nat" where
  "first_irq_accessed a = ((acc_offset a - base_abs a) * irq_per_bytes a + irq_base a) mod 2 ^ 16"

definition num_irqs :: "irq_access \<Rightarrow> nat option" where
  "num_irqs a =
     (if irq_max a \<le> first_irq_accessed a then Some 0
      else
        let n = acc_bytes a * irq_per_bytes a mod 2 ^ 16;
            ab = (first_irq_accessed a + n) mod 2 ^ 16;
            overflow = (if irq_max a < ab then ab - irq_max a else 0)
        in do { ASSERT (overflow \<le> n); Some (n - overflow) })"

definition acc_is_valid :: "irq_access \<Rightarrow> bool option" where
  "acc_is_valid a = do {
     n \<leftarrow> num_irqs a;
     Some (\<not> (int (MAX_SPI + MAX_PPI + MAX_SGI) < int (first_irq_accessed a) - int (irq_base a) + int n) \<and>
           \<not> (MAX_SPI + MAX_PPI + MAX_SGI < first_irq_accessed a + n))
   }"

fun configure_access :: "access_type \<Rightarrow> irq_access \<Rightarrow> irq_access" where
  "configure_access ALL_IRQS a = a\<lparr>irq_base := 0, irq_max := acc_configured a\<rparr>"
| "configure_access SGI a = a\<lparr>irq_base := 0, irq_max := MAX_SGI\<rparr>"
| "configure_access PPI a = a\<lparr>irq_base := PPI_BASE, irq_max := PPI_BASE + MAX_PPI\<rparr>"
| "configure_access SPI a =
     a\<lparr>irq_base := SPI_BASE, irq_max := (SPI_BASE + acc_configured a - MAX_SGI - MAX_PPI) mod 2 ^ 16\<rparr>"
| "configure_access PRIVATE_ONLY a = a\<lparr>irq_base := 0, irq_max := MAX_SGI + MAX_PPI\<rparr>"

definition irq_per_bytes_to_mask :: "nat \<Rightarrow> u64 option" where
  "irq_per_bytes_to_mask n =
     (if n = 8 then Some 0x1 else if n = 4 then Some 0x3 else if n = 1 then Some 0xff else None)"

definition irq_per_bytes_to_bits :: "nat \<Rightarrow> nat option" where
  "irq_per_bytes_to_bits n = (if n = 8 then Some 1 else if n = 4 then Some 2 else if n = 1 then Some 8 else None)"

definition shift_right :: "u64 \<Rightarrow> nat \<Rightarrow> u64 option" where
  "shift_right v k = do { ASSERT (k < 64); Some (drop_bit k v) }"

text \<open>The value that the access carries for its \<open>i\<close>-th interrupt.\<close>

definition acc_field :: "irq_access \<Rightarrow> u64 \<Rightarrow> nat \<Rightarrow> u64 option" where
  "acc_field a v i = do {
     b \<leftarrow> irq_per_bytes_to_bits (irq_per_bytes a);
     s \<leftarrow> shift_right v (i * b);
     m \<leftarrow> irq_per_bytes_to_mask (irq_per_bytes a);
     Some (s AND m)
   }"

subsection \<open>Loops over the interrupts of an access\<close>

text \<open>\<open>write\<close>: the setter \<open>f\<close> gets the field; a Boolean setter sees whether it is not zero.\<close>

definition irq_write :: "(u64 \<Rightarrow> irq \<Rightarrow> irq) \<Rightarrow> nat \<Rightarrow> irq_access \<Rightarrow> u64 \<Rightarrow> gicd \<Rightarrow> (bool \<times> gicd) option" where
  "irq_write f c a v g = do {
     ok \<leftarrow> acc_is_valid a;
     if \<not> ok then Some (False, g)
     else do {
       n \<leftarrow> num_irqs a;
       g \<leftarrow> for_each [0..<n]
             (\<lambda>i g. do { x \<leftarrow> acc_field a v i; irq_modify (c, first_irq_accessed a + i) (f x) g }) g;
       Some (True, g)
     }
   }"

definition of_bool_field :: "(bool \<Rightarrow> irq \<Rightarrow> irq) \<Rightarrow> u64 \<Rightarrow> irq \<Rightarrow> irq" where
  "of_bool_field f x = f (x \<noteq> 0)"

definition of_byte_field :: "(u8 \<Rightarrow> irq \<Rightarrow> irq) \<Rightarrow> u64 \<Rightarrow> irq \<Rightarrow> irq" where
  "of_byte_field f x = f (ucast x)"

definition change_target :: "nat \<Rightarrow> irq_access \<Rightarrow> u64 \<Rightarrow> gicd \<Rightarrow> (bool \<times> gicd) option" where
  "change_target c a v g = do {
     ok \<leftarrow> acc_is_valid a;
     if \<not> ok then Some (False, g)
     else do {
       n \<leftarrow> num_irqs a;
       g \<leftarrow> for_each [0..<n]
             (\<lambda>i g. do {
                x \<leftarrow> acc_field a v i;
                let r = (c, first_irq_accessed a + i);
                g \<leftarrow> irq_modify r (irq_set_target (ucast x)) g;
                j \<leftarrow> irq_object g r;
                if irq_pending j
                then (let (hint, g) = next_hint g in do { (b, g) \<leftarrow> redirect_spi r hint g; Some g })
                else Some g
              }) g;
       Some (True, g)
     }
   }"

text \<open>Both template functions pass the vCPU of the access first and the bit of the value second.\<close>

definition mmio_assert_sgi ::
  "(nat \<Rightarrow> nat \<Rightarrow> irq_ref \<Rightarrow> gicd \<Rightarrow> (bool \<times> gicd) option) \<Rightarrow> nat \<Rightarrow> irq_access \<Rightarrow> u64 \<Rightarrow> gicd \<Rightarrow> (bool \<times> gicd) option" where
  "mmio_assert_sgi f c a v g = do {
     ok \<leftarrow> acc_is_valid a;
     if \<not> ok then Some (False, g)
     else do {
       n \<leftarrow> num_irqs a;
       g \<leftarrow> for_each [0..<n]
             (\<lambda>i g. do {
                x \<leftarrow> shift_right v (i * GICV2_MAX_CPUS);
                let senders = (ucast x :: u8);
                for_each [0..<GICV2_MAX_CPUS]
                  (\<lambda>j g. if drop_bit j senders AND 1 \<noteq> 0
                         then do { (b, g) \<leftarrow> f c j (c, first_irq_accessed a + i) g; Some g }
                         else Some g) g
              }) g;
       Some (True, g)
     }
   }"

definition mmio_assert ::
  "(nat \<Rightarrow> irq_ref \<Rightarrow> gicd \<Rightarrow> (bool \<times> gicd) option) \<Rightarrow> nat \<Rightarrow> irq_access \<Rightarrow> u64 \<Rightarrow> gicd \<Rightarrow> (bool \<times> gicd) option" where
  "mmio_assert f c a v g = do {
     ok \<leftarrow> acc_is_valid a;
     if \<not> ok then Some (False, g)
     else do {
       n \<leftarrow> num_irqs a;
       g \<leftarrow> for_each [0..<n]
             (\<lambda>i g. do {
                x \<leftarrow> shift_right v i;
                if x AND 1 = 0 then Some g
                else do { (b, g) \<leftarrow> f c (c, first_irq_accessed a + i) g; Some g }
              }) g;
       Some (True, g)
     }
   }"

text \<open>\<open>read\<close>: the result is the value, or the value that the caller passed when the access is not valid.\<close>

definition irq_read :: "(irq \<Rightarrow> u64) \<Rightarrow> nat \<Rightarrow> irq_access \<Rightarrow> u64 \<Rightarrow> gicd \<Rightarrow> (bool \<times> u64) option" where
  "irq_read f c a v g = do {
     ok \<leftarrow> acc_is_valid a;
     if \<not> ok then Some (False, v)
     else do {
       n \<leftarrow> num_irqs a;
       w \<leftarrow> for_each [0..<n]
             (\<lambda>i w. do {
                j \<leftarrow> irq_object g (c, first_irq_accessed a + i);
                b \<leftarrow> irq_per_bytes_to_bits (irq_per_bytes a);
                ASSERT (i * b < 64);
                Some (w OR push_bit (i * b) (f j))
              }) 0;
       Some (True, w)
     }
   }"

definition read_bool :: "(irq \<Rightarrow> bool) \<Rightarrow> irq \<Rightarrow> u64" where
  "read_bool f i = (if f i then 1 else 0)"

definition read_byte :: "(irq \<Rightarrow> u8) \<Rightarrow> irq \<Rightarrow> u64" where
  "read_byte f i = ucast (f i)"

subsection \<open>Plain registers\<close>

record reg_access =
  ra_offset :: nat
  ra_base_reg :: nat
  ra_base_max :: nat
  ra_bytes :: nat

text \<open>\<open>write_register\<close> for a register of 32 bits.\<close>

definition write_register :: "reg_access \<Rightarrow> u64 \<Rightarrow> u32 \<Rightarrow> u32 \<Rightarrow> u32 \<Rightarrow> bool \<times> u32" where
  "write_register a v fixed_clear fixed_set result =
     (if ra_bytes a = 0 \<or> 4 < ra_bytes a \<or> ra_base_max a + 1 < ra_offset a + ra_bytes a then (False, result)
      else
        let base = ra_offset a - ra_base_reg a;
            m = (if 4 \<le> ra_bytes a then - 1 else push_bit (ra_bytes a * 8) 1 - 1 :: u32);
            r = result AND (if 4 \<le> ra_bytes a then 0 else NOT (push_bit (base * 8) m));
            r = r OR push_bit (base * 8) (ucast (v AND ucast m));
            r = r AND NOT fixed_clear
        in (True, r OR fixed_set))"

definition read_register :: "nat \<Rightarrow> nat \<Rightarrow> nat \<Rightarrow> nat \<Rightarrow> u64 \<Rightarrow> u64 \<Rightarrow> bool \<times> u64" where
  "read_register offset base_reg base_max bytes v result =
     (if bytes = 0 \<or> 8 < bytes \<or> base_max + 1 < offset + bytes then (False, result)
      else
        let base = offset - base_reg;
            m = (if 8 \<le> bytes then - 1 else push_bit (bytes * 8) 1 - 1 :: u64)
        in (True, drop_bit (base * 8) v AND m))"

subsection \<open>The register map of the distributor\<close>

datatype gicd_reg =
    GICD_CTLR | GICD_TYPER | GICD_IIDR | GICD_IGROUP | GICD_ISENABLER | GICD_ICENABLER | GICD_ISPENDR | GICD_ICPENDR
  | GICD_ISACTIVER | GICD_ICACTIVER | GICD_IPRIORITYR | GICD_ITARGETSR0 | GICD_ITARGETSR8 | GICD_ICFGR0 | GICD_ICFGR1
  | GICD_ICFGR | GICD_SGIR | GICD_CPENDSGIR | GICD_SPENDSGIR | GICD_RESERVED | GICD_IROUTER | GICD_IROUTER_EXT | GICD_IMPLDEF
  | GICD_PIDR4 | GICD_PIDR5 | GICD_PIDR6 | GICD_PIDR7 | GICD_PIDR0 | GICD_PIDR1 | GICD_PIDR2 | GICD_PIDR3

text \<open>First and last offset of each register; \<open>GICD_STATUSR\<close> is among the reserved ones.\<close>

definition gicd_regs :: "(nat \<times> nat \<times> gicd_reg) list" where
  "gicd_regs =
    [(0x0, 0x3, GICD_CTLR), (0x4, 0x7, GICD_TYPER), (0x8, 0xb, GICD_IIDR), (0xc, 0xf, GICD_RESERVED),
     (0x10, 0x13, GICD_RESERVED), (0x14, 0x3f, GICD_RESERVED), (0x40, 0x7f, GICD_RESERVED), (0x80, 0xff, GICD_IGROUP),
     (0x100, 0x17f, GICD_ISENABLER), (0x180, 0x1ff, GICD_ICENABLER), (0x200, 0x27f, GICD_ISPENDR),
     (0x280, 0x2ff, GICD_ICPENDR), (0x300, 0x379, GICD_ISACTIVER), (0x380, 0x3ff, GICD_ICACTIVER),
     (0x400, 0x7ff, GICD_IPRIORITYR), (0x800, 0x81f, GICD_ITARGETSR0), (0x820, 0xbff, GICD_ITARGETSR8),
     (0xc00, 0xc03, GICD_ICFGR0), (0xc04, 0xc07, GICD_ICFGR1), (0xc08, 0xcff, GICD_ICFGR), (0xd00, 0xeff, GICD_RESERVED),
     (0xf00, 0xf03, GICD_SGIR), (0xf04, 0xf0f, GICD_RESERVED), (0xf10, 0xf1f, GICD_CPENDSGIR), (0xf20, 0xf2f, GICD_SPENDSGIR),
     (0xf30, 0x60ff, GICD_RESERVED), (0x6100, 0x7fdf, GICD_IROUTER), (0x7fe0, 0x7fff, GICD_RESERVED),
     (0x8000, 0x9fff, GICD_IROUTER_EXT), (0xc000, 0xffcf, GICD_IMPLDEF), (0xffd0, 0xffd3, GICD_PIDR4),
     (0xffd4, 0xffd7, GICD_PIDR5), (0xffd8, 0xffdb, GICD_PIDR6), (0xffdc, 0xffdf, GICD_PIDR7), (0xffe0, 0xffe3, GICD_PIDR0),
     (0xffe4, 0xffe7, GICD_PIDR1), (0xffe8, 0xffeb, GICD_PIDR2), (0xffec, 0xffef, GICD_PIDR3), (0xfff0, 0xffff, GICD_IMPLDEF)]"

text \<open>The first entry that covers an offset.\<close>

fun reg_at :: "(nat \<times> nat \<times> 'r) list \<Rightarrow> nat \<Rightarrow> 'r option" where
  "reg_at [] off = None"
| "reg_at ((a, b, r) # rs) off = (if a \<le> off \<and> off \<le> b then Some r else reg_at rs off)"

abbreviation GICD_SIZE :: nat where "GICD_SIZE \<equiv> 0x10000"

subsection \<open>Writes\<close>

definition sgir_sgi :: "u32 \<Rightarrow> nat" where "sgir_sgi v = unat (v AND 0xf)"
definition sgir_targets :: "u32 \<Rightarrow> u8" where "sgir_targets v = ucast (drop_bit 16 v AND 0xff)"
definition sgir_filter :: "u32 \<Rightarrow> u8" where "sgir_filter v = ucast (drop_bit 24 v AND 0x3)"

definition sgir_target :: "u32 \<Rightarrow> nat \<Rightarrow> bool" where
  "sgir_target v c \<longleftrightarrow> c < 8 \<and> c < GICV2_MAX_CPUS \<and> (ucast (sgir_targets v) :: u32) AND push_bit c 1 \<noteq> 0"

definition write_sgir :: "nat \<Rightarrow> u64 \<Rightarrow> gicd \<Rightarrow> (bool \<times> gicd) option" where
  "write_sgir c v g =
     (let s = (ucast (v AND 0xffffffff) :: u32) in do {
        g \<leftarrow> (if sgir_filter s = 0
              then for_each [0..<8] (\<lambda>t g. if \<not> sgir_target s t then Some g else send_sgi c t (sgir_sgi s) g) g
              else if sgir_filter s = 1
              then for_each [0..<GICV2_MAX_CPUS] (\<lambda>t g. if t = c then Some g else send_sgi c t (sgir_sgi s) g) g
              else if sgir_filter s = 2 then send_sgi c c (sgir_sgi s) g
              else Some g);
        Some (True, g)
      })"

definition write_ctlr :: "nat \<Rightarrow> nat \<Rightarrow> u64 \<Rightarrow> gicd \<Rightarrow> bool \<times> gicd" where
  "write_ctlr offset bytes v g =
     (let (ok, w) = write_register \<lparr>ra_offset = offset, ra_base_reg = 0x0, ra_base_max = 0x3, ra_bytes = bytes\<rparr> v
            (if 3 \<le> version_code (version g) then NOT 0x13 else NOT 0x3) (push_bit 6 1) (ctlr g)
      in (ok, g\<lparr>ctlr := w\<rparr>))"

definition write_irouter :: "nat \<Rightarrow> nat \<Rightarrow> nat \<Rightarrow> u64 \<Rightarrow> gicd \<Rightarrow> (bool \<times> gicd) option" where
  "write_irouter c offset bytes v g =
     (if \<not> affinity_routing g then Some (True, g)
      else if bytes \<noteq> 8 \<or> offset mod 8 \<noteq> 0 then Some (True, g)
      else
        let n = SPI_BASE + (offset - 0x6100) div 8
        in if n < SPI_BASE \<or> configured_irqs g \<le> n then Some (True, g)
           else do {
             g \<leftarrow> irq_modify (c, n) (\<lambda>i. i\<lparr>i_routing := v\<rparr>) g;
             i \<leftarrow> irq_object g (c, n);
             if irq_pending i
             then (let (hint, g) = next_hint g in do { (b, g) \<leftarrow> redirect_spi (c, n) hint g; Some (True, g) })
             else Some (True, g)
           })"

definition default_access :: "nat \<Rightarrow> nat \<Rightarrow> gicd \<Rightarrow> irq_access" where
  "default_access offset bytes g =
     configure_access ALL_IRQS \<lparr>base_abs = 0, irq_base = 0, irq_max = MAX_SGI + MAX_SPI + MAX_PPI, acc_offset = offset,
       acc_bytes = bytes, irq_per_bytes = 8, acc_configured = configured_irqs g\<rparr>"

text \<open>The mask of a write to the first word of the pending registers: the private SGIs ignore it.\<close>

definition without_sgis :: "u64 \<Rightarrow> u64" where
  "without_sgis v = v AND NOT (push_bit MAX_SGI 1 - 1)"

definition mmio_write_32_or_less :: "nat \<Rightarrow> irq_access \<Rightarrow> u64 \<Rightarrow> gicd \<Rightarrow> (bool \<times> gicd) option" where
  "mmio_write_32_or_less c a v g =
     (case reg_at gicd_regs (acc_offset a) of
        None \<Rightarrow> Some (True, g)
      | Some r \<Rightarrow>
          (case r of
             GICD_CTLR \<Rightarrow> Some (write_ctlr (acc_offset a) (acc_bytes a) v g)
           | GICD_IGROUP \<Rightarrow> irq_write (of_bool_field irq_set_group1) c (a\<lparr>base_abs := 0x80\<rparr>) v g
           | GICD_ISENABLER \<Rightarrow> irq_write (of_bool_field irq_set_enable) c (a\<lparr>base_abs := 0x100\<rparr>) v g
           | GICD_ICENABLER \<Rightarrow> irq_write (of_bool_field irq_disable) c (a\<lparr>base_abs := 0x180\<rparr>) v g
           | GICD_ISPENDR \<Rightarrow>
               mmio_assert assert_pi_sw c (a\<lparr>base_abs := 0x200\<rparr>) (if acc_offset a = 0x200 then without_sgis v else v) g
           | GICD_ICPENDR \<Rightarrow>
               mmio_assert deassert_pi_sw c (a\<lparr>base_abs := 0x280\<rparr>) (if acc_offset a = 0x280 then without_sgis v else v) g
           | GICD_ISACTIVER \<Rightarrow> irq_write (of_bool_field irq_activate) c (a\<lparr>base_abs := 0x300\<rparr>) v g
           | GICD_ICACTIVER \<Rightarrow> irq_write (of_bool_field irq_deactivate) c (a\<lparr>base_abs := 0x380\<rparr>) v g
           | GICD_IPRIORITYR \<Rightarrow>
               irq_write (of_byte_field irq_set_prio) c (a\<lparr>irq_per_bytes := 1, base_abs := 0x400\<rparr>) v g
           | GICD_ITARGETSR8 \<Rightarrow> change_target c (configure_access SPI (a\<lparr>irq_per_bytes := 1, base_abs := 0x820\<rparr>)) v g
           | GICD_ICFGR1 \<Rightarrow>
               irq_write (of_byte_field irq_set_encoded_edge) c
                 (configure_access PPI (a\<lparr>base_abs := 0xc04, irq_per_bytes := 4\<rparr>)) v g
           | GICD_ICFGR \<Rightarrow>
               irq_write (of_byte_field irq_set_encoded_edge) c
                 (configure_access SPI (a\<lparr>base_abs := 0xc08, irq_per_bytes := 4\<rparr>)) v g
           | GICD_SGIR \<Rightarrow> write_sgir c v g
           | GICD_CPENDSGIR \<Rightarrow>
               if affinity_routing g then Some (True, g)
               else mmio_assert_sgi deassert_sgi c (configure_access SGI (a\<lparr>irq_per_bytes := 1, base_abs := 0xf10\<rparr>)) v g
           | GICD_SPENDSGIR \<Rightarrow>
               if affinity_routing g then Some (True, g)
               else mmio_assert_sgi assert_sgi c (configure_access SGI (a\<lparr>irq_per_bytes := 1, base_abs := 0xf20\<rparr>)) v g
           | _ \<Rightarrow> Some (True, g)))"

definition gicd_mmio_write :: "nat \<Rightarrow> nat \<Rightarrow> nat \<Rightarrow> u64 \<Rightarrow> gicd \<Rightarrow> (bool \<times> gicd) option" where
  "gicd_mmio_write c offset bytes v g =
     (if GICD_SIZE \<le> offset \<or> 8 < bytes \<or> num_vcpus g \<le> c then Some (False, g)
      else if reg_at gicd_regs offset = Some GICD_IROUTER then write_irouter c offset bytes v g
      else if reg_at gicd_regs offset = Some GICD_IROUTER_EXT then Some (True, g)
      else if 4 < bytes then Some (False, g)
      else mmio_write_32_or_less c (default_access offset bytes g) v g)"

subsection \<open>Reads\<close>

definition read_pending :: "nat \<Rightarrow> irq_access \<Rightarrow> nat \<Rightarrow> u64 \<Rightarrow> gicd \<Rightarrow> (bool \<times> u64) option" where
  "read_pending c a base v g =
     (if affinity_routing g then Some (True, 0)
      else irq_read (read_bool irq_pending) c (a\<lparr>irq_per_bytes := 1, irq_max := MAX_SGI, base_abs := base\<rparr>) v g)"

definition mmio_read_32_or_less :: "nat \<Rightarrow> irq_access \<Rightarrow> u64 \<Rightarrow> gicd \<Rightarrow> (bool \<times> u64) option" where
  "mmio_read_32_or_less c a v g =
     (let off = acc_offset a; n = acc_bytes a in
      case reg_at gicd_regs off of
        None \<Rightarrow> Some (True, 0)
      | Some r \<Rightarrow>
          (case r of
             GICD_CTLR \<Rightarrow> Some (read_register off 0x0 0x3 n (ucast (ctlr g)) v)
           | GICD_TYPER \<Rightarrow> Some (read_register off 0x4 0x7 n (get_typer g) v)
           | GICD_IIDR \<Rightarrow> Some (read_register off 0x8 0xb n 0x123 v)
           | GICD_IGROUP \<Rightarrow> irq_read (read_bool i_group1) c (a\<lparr>base_abs := 0x80\<rparr>) v g
           | GICD_ISENABLER \<Rightarrow> irq_read (read_bool i_enable) c (a\<lparr>base_abs := 0x100\<rparr>) v g
           | GICD_ICENABLER \<Rightarrow> irq_read (read_bool i_enable) c (a\<lparr>base_abs := 0x180\<rparr>) v g
           | GICD_ISPENDR \<Rightarrow> irq_read (read_bool irq_pending) c (a\<lparr>base_abs := 0x200\<rparr>) v g
           | GICD_ICPENDR \<Rightarrow> irq_read (read_bool irq_pending) c (a\<lparr>base_abs := 0x280\<rparr>) v g
           | GICD_ISACTIVER \<Rightarrow> irq_read (read_bool i_active) c (a\<lparr>base_abs := 0x300\<rparr>) v g
           | GICD_ICACTIVER \<Rightarrow> irq_read (read_bool i_active) c (a\<lparr>base_abs := 0x380\<rparr>) v g
           | GICD_IPRIORITYR \<Rightarrow> irq_read (read_byte i_prio) c (a\<lparr>irq_per_bytes := 1, base_abs := 0x400\<rparr>) v g
           | GICD_ITARGETSR0 \<Rightarrow>
               irq_read (read_byte i_target) c (configure_access PRIVATE_ONLY (a\<lparr>irq_per_bytes := 1, base_abs := 0x800\<rparr>)) v g
           | GICD_ITARGETSR8 \<Rightarrow>
               irq_read (read_byte i_target) c (configure_access SPI (a\<lparr>irq_per_bytes := 1, base_abs := 0x820\<rparr>)) v g
           | GICD_ICFGR0 \<Rightarrow>
               irq_read (read_byte irq_edge_encoded) c (configure_access SGI (a\<lparr>irq_per_bytes := 4, base_abs := 0xc00\<rparr>)) v g
           | GICD_ICFGR1 \<Rightarrow>
               irq_read (read_byte irq_edge_encoded) c (configure_access PPI (a\<lparr>irq_per_bytes := 4, base_abs := 0xc04\<rparr>)) v g
           | GICD_ICFGR \<Rightarrow>
               irq_read (read_byte irq_edge_encoded) c (configure_access SPI (a\<lparr>irq_per_bytes := 4, base_abs := 0xc08\<rparr>)) v g
           | GICD_PIDR4 \<Rightarrow> Some (True, 0x44)
           | GICD_PIDR5 \<Rightarrow> Some (True, 0)
           | GICD_PIDR6 \<Rightarrow> Some (True, 0)
           | GICD_PIDR7 \<Rightarrow> Some (True, 0)
           | GICD_PIDR3 \<Rightarrow> Some (True, 0)
           | GICD_PIDR0 \<Rightarrow> Some (True, 0x92)
           | GICD_PIDR1 \<Rightarrow> Some (True, 0xb4)
           | GICD_PIDR2 \<Rightarrow> Some (True, push_bit 4 (of_nat (version_code (version g))) OR 0xb)
           | GICD_CPENDSGIR \<Rightarrow> read_pending c a 0xf10 v g
           | GICD_SPENDSGIR \<Rightarrow> read_pending c a 0xf20 v g
           | _ \<Rightarrow> Some (True, 0)))"

definition gicd_mmio_read :: "nat \<Rightarrow> nat \<Rightarrow> nat \<Rightarrow> u64 \<Rightarrow> gicd \<Rightarrow> (bool \<times> u64) option" where
  "gicd_mmio_read c offset bytes v g =
     (if GICD_SIZE \<le> offset \<or> 8 < bytes \<or> num_vcpus g \<le> c then Some (False, v)
      else if reg_at gicd_regs offset = Some GICD_IROUTER
      then let n = SPI_BASE + (offset - 0x6100) div 8
           in if bytes \<noteq> 8 \<or> offset mod 8 \<noteq> 0 then Some (True, 0)
              else if n < SPI_BASE \<or> configured_irqs g \<le> n then Some (True, 0)
              else if \<not> affinity_routing g then Some (True, 0)
              else do { i \<leftarrow> irq_object g (c, n); Some (True, i_routing i) }
      else if reg_at gicd_regs offset = Some GICD_IROUTER_EXT then Some (True, 0)
      else if 4 < bytes then Some (False, v)
      else mmio_read_32_or_less c (default_access offset bytes g) v g)"

definition gicd_access :: "vbus_access \<Rightarrow> nat \<Rightarrow> u64 \<Rightarrow> u8 \<Rightarrow> u64 \<Rightarrow> gicd \<Rightarrow> (vbus_err \<times> u64 \<times> gicd) option" where
  "gicd_access access c offset len v g =
     (if access = WRITE
      then do {
        (ok, g) \<leftarrow> gicd_mmio_write c (unat offset) (unat len) v g;
        Some (if ok then OK else ACCESS_ERR, v, g)
      }
      else if access = READ
      then do {
        (ok, w) \<leftarrow> gicd_mmio_read c (unat offset) (unat len) v g;
        Some (if ok then OK else ACCESS_ERR, w, g)
      }
      else Some (ACCESS_ERR, v, g))"

end
