(* ===== verification/GicRedist.thy ===== *)
theory GicRedist
  imports GicMmio
begin

text \<open>
  The redistributor of a vCPU (\<open>devices/gic/src/gicr.cpp\<close>): its registers and its use of the
  distributor. Its own state, \<open>GICR_CTLR\<close> and \<open>GICR_WAKER\<close>, is entry \<open>c\<close> of \<open>redists\<close>, for the vCPU
  \<open>c\<close> of the redistributor.
\<close>

subsection \<open>The register map\<close>

datatype gicr_reg =
    GICR_CTLR | GICR_IIDR | GICR_TYPER | GICR_STATUSR | GICR_WAKER | GICR_PROPBASER | GICR_PENDBASER | GICR_PIDR2
  | GICR_IGROUP0 | GICR_ISENABLER0 | GICR_ICENABLER0 | GICR_ISPENDR0 | GICR_ICPENDR0 | GICR_ISACTIVER0 | GICR_ICACTIVER0
  | GICR_IPRIORITYR0 | GICR_ICFGR0 | GICR_ICFGR1 | GICR_IGRPMODR0 | GICR_NSACR

definition gicr_regs :: "(nat \<times> nat \<times> gicr_reg) list" where
  "gicr_regs =
    [(0x0, 0x3, GICR_CTLR), (0x4, 0x7, GICR_IIDR), (0x8, 0xf, GICR_TYPER), (0x10, 0x13, GICR_STATUSR),
     (0x14, 0x17, GICR_WAKER), (0x70, 0x77, GICR_PROPBASER), (0x78, 0x7f, GICR_PENDBASER), (0xffe8, 0xffeb, GICR_PIDR2),
     (0x10080, 0x10083, GICR_IGROUP0), (0x10100, 0x10103, GICR_ISENABLER0), (0x10180, 0x10183, GICR_ICENABLER0),
     (0x10200, 0x10203, GICR_ISPENDR0), (0x10280, 0x10283, GICR_ICPENDR0), (0x10300, 0x10303, GICR_ISACTIVER0),
     (0x10380, 0x10383, GICR_ICACTIVER0), (0x10400, 0x1041f, GICR_IPRIORITYR0), (0x10c00, 0x10c03, GICR_ICFGR0),
     (0x10c04, 0x10c07, GICR_ICFGR1), (0x10d00, 0x10d03, GICR_IGRPMODR0), (0x10e00, 0x10e03, GICR_NSACR)]"

abbreviation GICR_SIZE :: nat where "GICR_SIZE \<equiv> 0x20000"
abbreviation GICR_IIDR_IMPLEMENTER :: u64 where "GICR_IIDR_IMPLEMENTER \<equiv> 0x43b"
abbreviation GICR_TYPER_PLPIS :: u64 where "GICR_TYPER_PLPIS \<equiv> 1"
abbreviation GICR_ENABLE_LPI :: u32 where "GICR_ENABLE_LPI \<equiv> 1"
abbreviation WAKER_RESV_ZERO :: u32 where "WAKER_RESV_ZERO \<equiv> NOT 0x6"

definition redist_modify :: "nat \<Rightarrow> (redist \<Rightarrow> redist) \<Rightarrow> gicd \<Rightarrow> gicd option" where
  "redist_modify c f g = do { rs \<leftarrow> upd_opt (redists g) c f; Some (g\<lparr>redists := rs\<rparr>) }"

definition private_access :: "nat \<Rightarrow> nat \<Rightarrow> gicd \<Rightarrow> irq_access" where
  "private_access offset bytes g =
     configure_access PRIVATE_ONLY \<lparr>base_abs = 0, irq_base = 0, irq_max = MAX_SGI + MAX_PPI, acc_offset = offset,
       acc_bytes = bytes, irq_per_bytes = 8, acc_configured = configured_irqs g\<rparr>"

subsection \<open>Writes\<close>

text \<open>
  The word that a write to \<open>GICR_WAKER\<close> builds: the code shifts by the two masks, 4 and 2, where the
  positions of the bits, 2 and 1, are meant.
\<close>

definition new_waker :: "u32 \<Rightarrow> u32" where
  "new_waker v =
     (let s = (if waker_sleeping v then 1 else 0 :: u32)
      in push_bit (unat CHILDREN_ASLEEP_BIT) s OR push_bit (unat SLEEP_BIT) s)"

definition write_waker :: "nat \<Rightarrow> nat \<Rightarrow> nat \<Rightarrow> u64 \<Rightarrow> gicd \<Rightarrow> (bool \<times> gicd) option" where
  "write_waker c offset bytes v g = do {
     r \<leftarrow> nth_opt (redists g) c;
     let (ret, w) = write_register \<lparr>ra_offset = offset, ra_base_reg = 0x14, ra_base_max = 0x17, ra_bytes = bytes\<rparr>
                      (ucast (new_waker (ucast v))) WAKER_RESV_ZERO 0 (r_waker r);
     g \<leftarrow> redist_modify c (\<lambda>r. r\<lparr>r_waker := w\<rparr>) g;
     g \<leftarrow> (if waker_sleeping (ucast v) then do { (x, g) \<leftarrow> highest_irq c True g; Some g } else Some g);
     Some (ret, g)
   }"

definition gicr_mmio_write :: "nat \<Rightarrow> nat \<Rightarrow> nat \<Rightarrow> u64 \<Rightarrow> gicd \<Rightarrow> (bool \<times> gicd) option" where
  "gicr_mmio_write c offset bytes v g =
     (if GICR_SIZE \<le> offset then Some (False, g)
      else do {
        ASSERT (c < num_vcpus g);
        r \<leftarrow> nth_opt (redists g) c;
        let a = private_access offset bytes g;
        case reg_at gicr_regs offset of
          None \<Rightarrow> Some (True, g)
        | Some x \<Rightarrow>
            (case x of
               GICR_CTLR \<Rightarrow> do {
                 g' \<leftarrow> redist_modify c (\<lambda>r. r\<lparr>r_ctlr := (if lpi_supported g then GICR_CES OR (ucast v AND GICR_ENABLE_LPI) else 0)\<rparr>) g;
                 Some (True, g')
               }
             | GICR_PROPBASER \<Rightarrow> Some (True, if r_ctlr r AND GICR_ENABLE_LPI = 0 then g\<lparr>prop_baser := v\<rparr> else g)
             | GICR_PENDBASER \<Rightarrow> Some (True, if r_ctlr r AND GICR_ENABLE_LPI = 0 then g\<lparr>pend_baser := v\<rparr> else g)
             | GICR_IGRPMODR0 \<Rightarrow> Some (True, g)
             | GICR_NSACR \<Rightarrow> Some (True, g)
             | GICR_WAKER \<Rightarrow> write_waker c offset bytes v g
             | GICR_IGROUP0 \<Rightarrow> irq_write (of_bool_field irq_set_group1) c (a\<lparr>base_abs := 0x10080\<rparr>) v g
             | GICR_ISENABLER0 \<Rightarrow> irq_write (of_bool_field irq_set_enable) c (a\<lparr>base_abs := 0x10100\<rparr>) v g
             | GICR_ICENABLER0 \<Rightarrow> irq_write (of_bool_field irq_disable) c (a\<lparr>base_abs := 0x10180\<rparr>) v g
             | GICR_ISACTIVER0 \<Rightarrow> irq_write (of_bool_field irq_activate) c (a\<lparr>base_abs := 0x10300\<rparr>) v g
             | GICR_ICACTIVER0 \<Rightarrow> irq_write (of_bool_field irq_deactivate) c (a\<lparr>base_abs := 0x10380\<rparr>) v g
             | GICR_IPRIORITYR0 \<Rightarrow>
                 irq_write (of_byte_field irq_set_prio) c (a\<lparr>base_abs := 0x10400, irq_per_bytes := 1\<rparr>) v g
             | GICR_ISPENDR0 \<Rightarrow>
                 if \<not> affinity_routing g then Some (False, g)
                 else mmio_assert assert_pi_sw c (a\<lparr>base_abs := 0x10200\<rparr>) v g
             | GICR_ICPENDR0 \<Rightarrow>
                 if \<not> affinity_routing g then Some (False, g)
                 else mmio_assert deassert_pi_sw c (a\<lparr>base_abs := 0x10280\<rparr>) v g
             | GICR_ICFGR0 \<Rightarrow>
                 irq_write (of_byte_field irq_set_encoded_edge) c
                   ((configure_access SGI (a\<lparr>base_abs := 0x10c00\<rparr>))\<lparr>irq_per_bytes := 4\<rparr>) v g
             | GICR_ICFGR1 \<Rightarrow>
                 irq_write (of_byte_field irq_set_encoded_edge) c
                   ((configure_access PPI (a\<lparr>base_abs := 0x10c04\<rparr>))\<lparr>irq_per_bytes := 4\<rparr>) v g
             | _ \<Rightarrow> Some (True, g))
      })"

subsection \<open>Reads\<close>

definition gicr_typer :: "nat \<Rightarrow> redist \<Rightarrow> gicd \<Rightarrow> u64" where
  "gicr_typer c r g =
     (let a = r_aff r;
          ret = push_bit 56 (ucast (aff3 a)) OR push_bit 48 (ucast (aff2 a)) OR push_bit 40 (ucast (aff1 a)) OR
                push_bit 32 (ucast (aff0 a));
          ret = ret OR push_bit 16 (ucast (aff1 a)) OR push_bit 8 (ucast (aff0 a));
          ret = ret OR push_bit 4 (if r_last r then 1 else 0)
      in if lpi_supported g then ret OR GICR_TYPER_PLPIS else ret)"

text \<open>A read that no case handles leaves the caller's value as it is.\<close>

definition gicr_mmio_read :: "nat \<Rightarrow> nat \<Rightarrow> nat \<Rightarrow> u64 \<Rightarrow> gicd \<Rightarrow> (bool \<times> u64) option" where
  "gicr_mmio_read c offset bytes v g =
     (if GICR_SIZE \<le> offset then Some (False, v)
      else do {
        ASSERT (c < num_vcpus g);
        r \<leftarrow> nth_opt (redists g) c;
        let a = private_access offset bytes g;
        case reg_at gicr_regs offset of
          None \<Rightarrow> Some (True, v)
        | Some x \<Rightarrow>
            (case x of
               GICR_TYPER \<Rightarrow> Some (read_register offset 0x8 0xf bytes (gicr_typer c r g) v)
             | GICR_WAKER \<Rightarrow> Some (read_register offset 0x14 0x17 bytes (ucast (r_waker r)) v)
             | GICR_CTLR \<Rightarrow> Some (read_register offset 0x0 0x3 bytes (if lpi_supported g then ucast (r_ctlr r) else 0) v)
             | GICR_IIDR \<Rightarrow> Some (read_register offset 0x4 0x7 bytes GICR_IIDR_IMPLEMENTER v)
             | GICR_PIDR2 \<Rightarrow> Some (read_register offset 0xffe8 0xffeb bytes 0x30 v)
             | GICR_PROPBASER \<Rightarrow> Some (True, prop_baser g)
             | GICR_PENDBASER \<Rightarrow> Some (True, pend_baser g)
             | GICR_IGRPMODR0 \<Rightarrow> Some (True, 0)
             | GICR_NSACR \<Rightarrow> Some (True, 0)
             | GICR_ISENABLER0 \<Rightarrow> irq_read (read_bool i_enable) c (a\<lparr>base_abs := 0x10100\<rparr>) v g
             | GICR_ICENABLER0 \<Rightarrow> irq_read (read_bool i_enable) c (a\<lparr>base_abs := 0x10180\<rparr>) v g
             | GICR_ISACTIVER0 \<Rightarrow> irq_read (read_bool i_active) c (a\<lparr>base_abs := 0x10300\<rparr>) v g
             | GICR_ICACTIVER0 \<Rightarrow> irq_read (read_bool i_active) c (a\<lparr>base_abs := 0x10380\<rparr>) v g
             | GICR_ISPENDR0 \<Rightarrow> irq_read (read_bool irq_pending) c (a\<lparr>base_abs := 0x10200\<rparr>) v g
             | GICR_ICPENDR0 \<Rightarrow> irq_read (read_bool irq_pending) c (a\<lparr>base_abs := 0x10280\<rparr>) v g
             | GICR_IGROUP0 \<Rightarrow> irq_read (read_bool i_group1) c (a\<lparr>base_abs := 0x10080\<rparr>) v g
             | GICR_ICFGR0 \<Rightarrow>
                 irq_read (read_byte irq_edge_encoded) c
                   ((configure_access SGI (a\<lparr>base_abs := 0x10c00\<rparr>))\<lparr>irq_per_bytes := 4\<rparr>) v g
             | GICR_ICFGR1 \<Rightarrow>
                 irq_read (read_byte irq_edge_encoded) c
                   ((configure_access PPI (a\<lparr>base_abs := 0x10c04\<rparr>))\<lparr>irq_per_bytes := 4\<rparr>) v g
             | GICR_IPRIORITYR0 \<Rightarrow>
                 irq_read (read_byte i_prio) c (a\<lparr>base_abs := 0x10400, irq_per_bytes := 1\<rparr>) v g
             | GICR_STATUSR \<Rightarrow> Some (True, v))
      })"

definition gicr_access :: "vbus_access \<Rightarrow> nat \<Rightarrow> u64 \<Rightarrow> u8 \<Rightarrow> u64 \<Rightarrow> gicd \<Rightarrow> (vbus_err \<times> u64 \<times> gicd) option" where
  "gicr_access access c offset len v g =
     (if access = WRITE
      then do {
        (ok, g) \<leftarrow> gicr_mmio_write c (unat offset) (unat len) v g;
        Some (if ok then OK else ACCESS_ERR, v, g)
      }
      else if access = READ
      then do {
        (ok, w) \<leftarrow> gicr_mmio_read c (unat offset) (unat len) v g;
        Some (if ok then OK else ACCESS_ERR, w, g)
      }
      else Some (ACCESS_ERR, v, g))"

definition gicr_reset :: "nat \<Rightarrow> gicd \<Rightarrow> gicd option" where
  "gicr_reset c g = redist_modify c (\<lambda>r. r\<lparr>r_ctlr := GICR_CES\<rparr>) g"

definition assert_vector :: "nat \<Rightarrow> nat \<Rightarrow> gicd \<Rightarrow> gicd option" where
  "assert_vector c n g = map_option snd (assert_ppi c n g)"

definition int_pending :: "nat \<Rightarrow> gicd \<Rightarrow> bool option" where
  "int_pending c g = do {
     b \<leftarrow> has_irq_in_injection c g;
     if b then Some True else has_irq_to_inject c g
   }"

end
