(* ===== verification/MmioProps.thy ===== *)
theory MmioProps
  imports GicRedist
begin

text \<open>
  The register interface of the interrupt controller as the guest uses it: accesses keep the
  invariant and do not abort, with the exceptions that the theorems name; registers give back
  what was written; set and clear registers; the sleep bit of the redistributor.
\<close>

declare split_paired_All [simp del] split_paired_Ex [simp del]

subsection \<open>The geometry of an access\<close>

definition acc_bits :: "irq_access \<Rightarrow> nat" where
  "acc_bits a = 8 div irq_per_bytes a"

definition acc_first :: "irq_access \<Rightarrow> nat" where
  "acc_first a = (acc_offset a - base_abs a) * irq_per_bytes a + irq_base a"

definition acc_num :: "irq_access \<Rightarrow> nat" where
  "acc_num a = min (acc_bytes a * irq_per_bytes a) (irq_max a - acc_first a)"

text \<open>An access of up to eight bytes inside a register whose interrupts exist.\<close>

definition acc_ok :: "gicd \<Rightarrow> irq_access \<Rightarrow> bool" where
  "acc_ok g a \<longleftrightarrow> irq_per_bytes a \<in> {1, 4, 8} \<and> acc_bytes a \<le> 8 \<and> acc_first a \<le> 1024 \<and> irq_max a \<le> configured_irqs g"

lemma acc_ok_shape: "same_shape g g' \<Longrightarrow> acc_ok g' a = acc_ok g a"
  by (simp add: acc_ok_def same_shape_simps)

lemma acc_ok_simps:
  assumes "acc_ok g a" "gic_wf g"
  shows "first_irq_accessed a = acc_first a" "num_irqs a = Some (acc_num a)" "acc_is_valid a = Some True"
    "acc_field a v i = do { s \<leftarrow> shift_right v (i * acc_bits a); Some (take_bit (acc_bits a) s) }"
    "irq_per_bytes_to_bits (irq_per_bytes a) = Some (acc_bits a)"
    "i < acc_num a \<Longrightarrow> i * acc_bits a < 64" "i < acc_num a \<Longrightarrow> i < 64"
    "i < acc_num a \<Longrightarrow> acc_first a + i < configured_irqs g"
proof -
  have k: "irq_per_bytes a = 1 \<or> irq_per_bytes a = 4 \<or> irq_per_bytes a = 8" and b: "acc_bytes a \<le> 8"
      and f: "acc_first a \<le> 1024" and m: "irq_max a \<le> configured_irqs g" "configured_irqs g \<le> 1020"
    using assms by (auto simp: acc_ok_def gic_wf_def)
  show 1: "first_irq_accessed a = acc_first a" using f by (simp add: first_irq_accessed_def acc_first_def)
  have n: "acc_bytes a * irq_per_bytes a \<le> 64" using k b by auto
  show 2: "num_irqs a = Some (acc_num a)"
    using n f m by (auto simp: num_irqs_def 1 acc_num_def Let_def min_def ASSERT_def)
  have q: "acc_first a + acc_num a \<le> 1024" using f m by (auto simp: acc_num_def min_def)
  then have "int (acc_first a + acc_num a) \<le> 1024" by linarith
  then have "int (acc_first a) - int (irq_base a) + int (acc_num a) \<le> 1024" by simp
  then show "acc_is_valid a = Some True" using q by (simp add: acc_is_valid_def 1 2)
  show "acc_field a v i = do { s \<leftarrow> shift_right v (i * acc_bits a); Some (take_bit (acc_bits a) s) }"
    "irq_per_bytes_to_bits (irq_per_bytes a) = Some (acc_bits a)"
    using k by (auto simp: acc_field_def acc_bits_def irq_per_bytes_to_bits_def irq_per_bytes_to_mask_def take_bit_eq_mask
        mask_eq_decr_exp)
  show "i < acc_num a \<Longrightarrow> i * acc_bits a < 64" "i < acc_num a \<Longrightarrow> i < 64"
    using k b by (auto simp: acc_num_def acc_bits_def)
  show "i < acc_num a \<Longrightarrow> acc_first a + i < configured_irqs g" using m by (auto simp: acc_num_def)
qed

lemma acc_ok_ref:
  assumes "acc_ok g a" "gic_wf g" "i < acc_num a" "c < num_vcpus g"
  shows "valid_ref g (c, acc_first a + i)"
  using acc_ok_simps(8) [OF assms(1-3)] assms(4) by (simp add: valid_ref_def)

lemma drop_and_one:
  "drop_bit i v AND 1 = 0 \<longleftrightarrow> \<not> bit v i" "1 AND drop_bit i v = 0 \<longleftrightarrow> \<not> bit v i" for v :: "'a::len word"
  by (simp_all add: and_one_eq one_and_eq mod2_eq_if bit_iff_odd_drop_bit)

subsection \<open>Loops keep the invariant\<close>

abbreviation kept :: "gicd \<Rightarrow> gicd \<Rightarrow> bool" where
  "kept g0 g \<equiv> gic_inv g \<and> same_shape g0 g"

lemma acc_loop_tot:
  assumes "gic_inv g"
    and "\<And>i h. i < n \<Longrightarrow> kept g h \<Longrightarrow> tot (f i h) (kept g)"
  shows "tot (for_each [0..<n] f g) (kept g)"
  by (rule tot_for_each [where I = "kept g"]) (use assms in simp_all)

lemma irq_write_tot:
  assumes "gic_inv g" "acc_ok g a" "c < num_vcpus g" "\<And>x i. i_id (f x i) = i_id i \<and> i_info (f x i) = i_info i"
  shows "tot (irq_write f c a v g) (\<lambda>(b, g'). b \<and> kept g g')"
proof -
  have wf: "gic_wf g" using assms(1) by (simp add: gic_inv_def)
  note s = acc_ok_simps [OF assms(2) wf]
  let ?f = "\<lambda>i g. do { x \<leftarrow> acc_field a v i; irq_modify (c, first_irq_accessed a + i) (f x) g }"
  have "tot (for_each [0..<acc_num a] ?f g) (kept g)"
  proof (rule acc_loop_tot [OF assms(1)])
    fix i h assume i: "i < acc_num a" and h: "kept g h"
    have "valid_ref h (c, acc_first a + i)"
      using acc_ok_ref [OF assms(2) wf i assms(3)] valid_ref_shape h by blast
    then have "tot (irq_modify (c, acc_first a + i) (f x) h) (kept g)" for x
      using assms(4) h same_shape_trans by (intro irq_modify_tot) auto
    then show "tot (?f i h) (kept g)" using s(6) [OF i] by (simp add: s shift_right_def)
  qed
  then show ?thesis by (simp add: irq_write_def s)
qed

lemma mmio_assert_tot:
  assumes "gic_inv g" "acc_ok g a" "c < num_vcpus g"
    and "\<And>i h. i < acc_num a \<Longrightarrow> bit v i \<Longrightarrow> kept g h \<Longrightarrow> tot (f c (c, acc_first a + i) h) (\<lambda>(b, h'). kept g h')"
  shows "tot (mmio_assert f c a v g) (\<lambda>(b, g'). b \<and> kept g g')"
proof -
  have wf: "gic_wf g" using assms(1) by (simp add: gic_inv_def)
  note s = acc_ok_simps [OF assms(2) wf]
  let ?f = "\<lambda>i g. do { x \<leftarrow> shift_right v i; if x AND 1 = 0 then Some g
      else do { (b, g) \<leftarrow> f c (c, first_irq_accessed a + i) g; Some g } }"
  have "tot (for_each [0..<acc_num a] ?f g) (kept g)"
  proof (rule acc_loop_tot [OF assms(1)])
    fix i h assume i: "i < acc_num a" and h: "kept g h"
    show "tot (?f i h) (kept g)" using s(7) [OF i] assms(4) [OF i _ h] h
      by (auto simp: s shift_right_def drop_and_one split_def)
  qed
  then show ?thesis by (simp add: mmio_assert_def s)
qed

lemma mmio_assert_sgi_tot:
  assumes "gic_inv g" "acc_ok g a" "c < num_vcpus g" "irq_per_bytes a = 1"
    and "\<And>i j h. i < acc_num a \<Longrightarrow> j < 8 \<Longrightarrow> bit v (8 * i + j) \<Longrightarrow> kept g h \<Longrightarrow>
           tot (f c j (c, acc_first a + i) h) (\<lambda>(b, h'). kept g h')"
  shows "tot (mmio_assert_sgi f c a v g) (\<lambda>(b, g'). b \<and> kept g g')"
proof -
  have wf: "gic_wf g" using assms(1) by (simp add: gic_inv_def)
  note s = acc_ok_simps [OF assms(2) wf]
  let ?h = "\<lambda>i x j g. if drop_bit j x AND 1 \<noteq> (0 :: u8)
      then do { (b, g) \<leftarrow> f c j (c, first_irq_accessed a + i) g; Some g } else Some g"
  let ?f = "\<lambda>i g. do { x \<leftarrow> shift_right v (i * 8); let q = (ucast x :: u8); for_each [0..<8] (?h i q) g }"
  have "tot (for_each [0..<acc_num a] ?f g) (kept g)"
  proof (rule acc_loop_tot [OF assms(1)])
    fix i h assume i: "i < acc_num a" and h: "kept g h"
    have "tot (for_each [0..<8] (?h i (ucast (drop_bit (i * 8) v))) h) (kept g)"
    proof (rule tot_for_each [where I = "kept g", OF h])
      fix j k assume "j \<in> set [0..<8]" and k: "kept g k"
      then have j: "j < 8" by simp
      have "drop_bit j (ucast (drop_bit (i * 8) v) :: u8) AND 1 \<noteq> 0 \<longleftrightarrow> bit v (8 * i + j)"
        using j by (simp add: drop_and_one bit_simps ac_simps)
      then show "tot (?h i (ucast (drop_bit (i * 8) v)) j k) (kept g)"
        using assms(5) [OF i j _ k] k by (auto simp: s split_def)
    qed
    moreover have "i * 8 < 64" using s(6) [OF i] assms(4) by (simp add: acc_bits_def)
    ultimately show "tot (?f i h) (kept g)" by (simp add: shift_right_def Let_def)
  qed
  then show ?thesis by (simp add: mmio_assert_sgi_def s)
qed

lemma kept_bool:
  "tot m (\<lambda>(b, h'). same_shape h h') \<Longrightarrow> par m (\<lambda>(b, h'). gic_inv h') \<Longrightarrow> kept g h \<Longrightarrow> tot m (\<lambda>(b, h'). kept g h')"
  by (cases m) (auto intro: same_shape_trans)

lemma pi_sw_kept:
  assumes "kept g h" "valid_ref g r" "PPI_BASE \<le> snd r \<or> affinity_routing g" "c < num_vcpus g"
  shows "tot (assert_pi_sw c r h) (\<lambda>(b, h'). kept g h')" "tot (deassert_pi_sw c r h) (\<lambda>(b, h'). kept g h')"
proof -
  have wf: "gic_wf h" and s: "gic_inv h" "same_shape g h" using assms(1) by (simp_all add: gic_inv_def)
  note a = valid_ref_shape [OF s(2)] same_shape_simps [OF s(2)] assms
  have t: "tot (assert_pi_sw c r h) (\<lambda>(b, h'). same_shape h h')" "tot (deassert_pi_sw c r h) (\<lambda>(b, h'). same_shape h h')"
    using a by (intro tot_assert_pi_sw [OF wf same_shape_refl]; simp)+
  show "tot (assert_pi_sw c r h) (\<lambda>(b, h'). kept g h')" "tot (deassert_pi_sw c r h) (\<lambda>(b, h'). kept g h')"
    by (rule kept_bool [OF t(1) inv.par_pi_sw(1) [OF s(1)] assms(1)], simp)
      (rule kept_bool [OF t(2) inv.par_pi_sw(2) [OF s(1)] assms(1)], simp)
qed

lemma sgi_kept:
  assumes "kept g h" "valid_ref g r" "snd r < MAX_SGI" "t < num_vcpus g"
  shows "tot (assert_sgi a t r h) (\<lambda>(b, h'). kept g h')" "tot (deassert_sgi a t r h) (\<lambda>(b, h'). kept g h')"
proof -
  have wf: "gic_wf h" and s: "gic_inv h" "same_shape g h" using assms(1) by (simp_all add: gic_inv_def)
  note a = valid_ref_shape [OF s(2)] same_shape_simps [OF s(2)] assms
  have t: "tot (assert_sgi a t r h) (\<lambda>(b, h'). same_shape h h')" "tot (deassert_sgi a t r h) (\<lambda>(b, h'). same_shape h h')"
    using a by (intro tot_assert_sgi [OF wf same_shape_refl]; simp)+
  show "tot (assert_sgi a t r h) (\<lambda>(b, h'). kept g h')" "tot (deassert_sgi a t r h) (\<lambda>(b, h'). kept g h')"
    by (rule kept_bool [OF t(1) inv.par_sgi(1) [OF s(1)] assms(1)], simp)
      (rule kept_bool [OF t(2) inv.par_sgi(2) [OF s(1)] assms(1)], simp)
qed

text \<open>Without affinity routing, taking back an SGI does not look at the target.\<close>

lemma deassert_sgi_kept:
  assumes "kept g h" "valid_ref g r" "snd r < MAX_SGI" "\<not> affinity_routing g"
  shows "tot (deassert_sgi a t r h) (\<lambda>(b, h'). kept g h')"
proof -
  have s: "gic_inv h" "same_shape g h" "gic_wf h" using assms(1) by (simp_all add: gic_inv_def)
  have v: "valid_ref h r" using valid_ref_shape [OF s(2)] assms(2) by simp
  have "deassert_sgi a t r h = deassert_sgi a 0 r h"
    using assms(4) same_shape_simps(8) [OF s(2)] by (simp add: deassert_sgi_def)
  moreover have "0 < num_vcpus g" using s(3) same_shape_simps(2) [OF s(2)] by (simp add: gic_wf_def)
  ultimately show ?thesis using sgi_kept(2) [OF assms(1-3)] by simp
qed

lemma redirect_kept:
  assumes "kept g h" "valid_ref g r" "SPI_BASE \<le> snd r"
  shows "tot (redirect_spi r x h) (\<lambda>(b, h'). kept g h')"
proof -
  have wf: "gic_wf h" and s: "gic_inv h" "same_shape g h" using assms(1) by (simp_all add: gic_inv_def)
  have "tot (redirect_spi r x h) (\<lambda>(b, h'). same_shape h h')"
    using assms(2,3) valid_ref_shape [OF s(2)] by (intro tot_redirect_spi [OF wf same_shape_refl]) simp_all
  then show ?thesis by (rule kept_bool [OF _ inv.par_redirect_spi [OF s(1)] assms(1)]) simp
qed

lemma next_hint_kept: "kept g h \<Longrightarrow> kept g (h\<lparr>vcpu_hint := y\<rparr>)"
  by (simp add: inv.others)

lemma change_target_tot:
  assumes "gic_inv g" "acc_ok g a" "c < num_vcpus g" "SPI_BASE \<le> acc_first a"
  shows "tot (change_target c a v g) (\<lambda>(b, g'). b \<and> kept g g')"
proof -
  have wf: "gic_wf g" using assms(1) by (simp add: gic_inv_def)
  note s = acc_ok_simps [OF assms(2) wf]
  let ?f = "\<lambda>i g. do { x \<leftarrow> acc_field a v i; let r = (c, first_irq_accessed a + i);
      g \<leftarrow> irq_modify r (irq_set_target (ucast x)) g; j \<leftarrow> irq_object g r;
      if irq_pending j then (let (hint, g) = next_hint g in do { (b, g) \<leftarrow> redirect_spi r hint g; Some g }) else Some g }"
  have "tot (for_each [0..<acc_num a] ?f g) (kept g)"
  proof (rule acc_loop_tot [OF assms(1)])
    fix i h assume i: "i < acc_num a" and h: "kept g h"
    let ?r = "(c, acc_first a + i)"
    have v: "valid_ref g ?r" by (rule acc_ok_ref [OF assms(2) wf i assms(3)])
    have red: "tot (if irq_pending j then (let (hint, k) = next_hint k in do { (b, k) \<leftarrow> redirect_spi ?r hint k; Some k }) else Some k) (kept g)"
      if k: "kept g k" for j k
      using redirect_kept [OF next_hint_kept [OF k] v] k assms(4) by (simp add: next_hint_def split_def)
    have "tot (irq_modify ?r (irq_set_target y) h) (\<lambda>k. tot (irq_object k ?r)
      (\<lambda>j. tot (if irq_pending j then (let (hint, k) = next_hint k in do { (b, k) \<leftarrow> redirect_spi ?r hint k; Some k }) else Some k) (kept g)))" for y
    proof (rule irq_modify_tot)
      show "gic_inv h" "valid_ref h ?r" using h v valid_ref_shape by auto
      fix k assume "gic_inv k" "same_shape h k"
      then have k: "kept g k" using h same_shape_trans by blast
      then show "tot (irq_object k ?r) (\<lambda>j. tot (if irq_pending j then (let (hint, k) = next_hint k in do { (b, k) \<leftarrow> redirect_spi ?r hint k; Some k }) else Some k) (kept g))"
        using v valid_ref_shape by (intro irq_object_tot red) auto
    qed simp_all
    then show "tot (?f i h) (kept g)" using s(6) [OF i] by (simp add: s shift_right_def Let_def)
  qed
  then show ?thesis by (simp add: change_target_def s)
qed

lemma irq_read_tot:
  assumes "gic_inv g" "acc_ok g a" "c < num_vcpus g"
  shows "tot (irq_read f c a v g) (\<lambda>_. True)"
proof -
  have wf: "gic_wf g" using assms(1) by (simp add: gic_inv_def)
  note s = acc_ok_simps [OF assms(2) wf]
  let ?f = "\<lambda>i w. do { j \<leftarrow> irq_object g (c, first_irq_accessed a + i); b \<leftarrow> irq_per_bytes_to_bits (irq_per_bytes a);
      ASSERT (i * b < 64); Some (w OR push_bit (i * b) (f j)) }"
  have "tot (for_each [0..<acc_num a] ?f 0) (\<lambda>_. True)"
  proof (rule tot_for_each)
    fix i w assume "i \<in> set [0..<acc_num a]"
    then have i: "i < acc_num a" by simp
    then show "tot (?f i w) (\<lambda>_. True)"
      using acc_ok_ref [OF assms(2) wf i assms(3)] s(6) [OF i] by (auto simp: s intro!: irq_object_tot [OF assms(1)])
  qed simp
  then show ?thesis by (simp add: irq_read_def s)
qed

subsection \<open>Accesses to the distributor\<close>

lemma reg_at_Some: "reg_at rs off = Some r \<Longrightarrow> \<exists>a b. (a, b, r) \<in> set rs \<and> a \<le> off \<and> off \<le> b"
  by (induction rs off rule: reg_at.induct) (auto split: if_splits)

lemma gicd_reg_ranges:
  assumes "reg_at gicd_regs off = Some r"
  shows "r = GICD_IGROUP \<Longrightarrow> 0x80 \<le> off \<and> off \<le> 0xff" "r = GICD_ISENABLER \<Longrightarrow> 0x100 \<le> off \<and> off \<le> 0x17f"
    "r = GICD_ICENABLER \<Longrightarrow> 0x180 \<le> off \<and> off \<le> 0x1ff" "r = GICD_ISPENDR \<Longrightarrow> 0x200 \<le> off \<and> off \<le> 0x27f"
    "r = GICD_ICPENDR \<Longrightarrow> 0x280 \<le> off \<and> off \<le> 0x2ff" "r = GICD_ISACTIVER \<Longrightarrow> 0x300 \<le> off \<and> off \<le> 0x379"
    "r = GICD_ICACTIVER \<Longrightarrow> 0x380 \<le> off \<and> off \<le> 0x3ff" "r = GICD_IPRIORITYR \<Longrightarrow> 0x400 \<le> off \<and> off \<le> 0x7ff"
    "r = GICD_ITARGETSR0 \<Longrightarrow> 0x800 \<le> off \<and> off \<le> 0x81f" "r = GICD_ITARGETSR8 \<Longrightarrow> 0x820 \<le> off \<and> off \<le> 0xbff"
    "r = GICD_ICFGR0 \<Longrightarrow> 0xc00 \<le> off \<and> off \<le> 0xc03" "r = GICD_ICFGR1 \<Longrightarrow> 0xc04 \<le> off \<and> off \<le> 0xc07"
    "r = GICD_ICFGR \<Longrightarrow> 0xc08 \<le> off \<and> off \<le> 0xcff" "r = GICD_CPENDSGIR \<Longrightarrow> 0xf10 \<le> off \<and> off \<le> 0xf1f"
    "r = GICD_SPENDSGIR \<Longrightarrow> 0xf20 \<le> off \<and> off \<le> 0xf2f" "r = GICD_IROUTER \<Longrightarrow> 0x6100 \<le> off \<and> off \<le> 0x7fdf"
  using reg_at_Some [OF assms] by (auto simp: gicd_regs_def)

lemma irq_object_ctlr [simp]: "irq_object (g\<lparr>ctlr := w\<rparr>) r = irq_object g r"
  by (cases r) (simp add: irq_object.simps)

lemma irq_object_redists [simp]: "irq_object (g\<lparr>redists := w\<rparr>) r = irq_object g r"
  by (cases r) (simp add: irq_object.simps)

lemma irq_object_basers [simp]:
  "irq_object (g\<lparr>prop_baser := w\<rparr>) r = irq_object g r" "irq_object (g\<lparr>pend_baser := w\<rparr>) r = irq_object g r"
  by (cases r; simp add: irq_object.simps)+

lemma gic_inv_cong:
  assumes "gic_inv g" "num_vcpus g' = num_vcpus g" "configured_irqs g' = configured_irqs g" "local g' = local g"
    and "spi g' = spi g" "lpi g' = lpi g" "length (redists g') = length (redists g)"
    and "\<And>r. irq_object g' r = irq_object g r" "affinity_routing g' = affinity_routing g"
  shows "gic_inv g'"
proof -
  have "gic_wf g'" "bits_ok g'" using assms by (simp_all add: gic_inv_def gic_wf_def ids_ok_def bits_ok_def known_def)
  moreover have "senders_ok g'" using assms unfolding gic_inv_def senders_ok_def sender_ok_def by simp
  ultimately show ?thesis by (simp add: gic_inv_def)
qed

lemma gic_inv_ctlr:
  "gic_inv g \<Longrightarrow> affinity_routing (g\<lparr>ctlr := w\<rparr>) = affinity_routing g \<Longrightarrow> gic_inv (g\<lparr>ctlr := w\<rparr>)"
  by (rule gic_inv_cong) simp_all

text \<open>
  What a guest has to keep to: an SGI that names its targets names existing vCPUs only, and one to
  all others is sent only where all eight vCPUs exist; the switch of affinity routing
  is left alone; without affinity routing, the second byte of the pending registers is not
  written on its own, and the pending-SGI register only where all eight vCPUs exist.
\<close>

definition sgir_write_ok :: "u32 \<Rightarrow> gicd \<Rightarrow> bool" where
  "sgir_write_ok s g \<longleftrightarrow>
     (sgir_filter s = 0 \<longrightarrow> (\<forall>t<8. sgir_target s t \<longrightarrow> t < num_vcpus g)) \<and> (sgir_filter s = 1 \<longrightarrow> num_vcpus g = 8)"

definition gicd_write_ok :: "nat \<Rightarrow> u64 \<Rightarrow> gicd \<Rightarrow> bool" where
  "gicd_write_ok off v g =
     (case reg_at gicd_regs off of
        Some GICD_CTLR \<Rightarrow> off = 0 \<longrightarrow> 3 \<le> version_code (version g) \<longrightarrow> bit v 4 = affinity_routing g
      | Some GICD_ISPENDR \<Rightarrow> affinity_routing g \<or> off \<noteq> 0x201
      | Some GICD_ICPENDR \<Rightarrow> affinity_routing g \<or> off \<noteq> 0x281
      | Some GICD_SGIR \<Rightarrow> sgir_write_ok (ucast (v AND 0xffffffff)) g
      | Some GICD_SPENDSGIR \<Rightarrow> affinity_routing g \<or> num_vcpus g = 8
      | _ \<Rightarrow> True)"

lemma affinity_routing_bit: "affinity_routing g \<longleftrightarrow> bit (ctlr g) 4"
  using and_exp_eq_0_iff_not_bit [of "ctlr g" 4] by (simp add: affinity_routing_def)

lemma write_ctlr_routing:
  assumes "reg_at gicd_regs off = Some GICD_CTLR" "gicd_write_ok off v g" "bytes \<le> 4"
    and "version_code (version g) < 3 \<Longrightarrow> \<not> affinity_routing g"
  shows "affinity_routing (snd (write_ctlr off bytes v g)) = affinity_routing g"
proof -
  have "off \<le> 3" using reg_at_Some [OF assms(1)] by (auto simp: gicd_regs_def)
  then show ?thesis using assms
    by (cases "off = 0") (auto simp: write_ctlr_def write_register_def Let_def affinity_routing_bit gicd_write_ok_def bit_simps mask_bits)
qed

lemma kept_fields: "(\<And>x i. i_id (f x i) = i_id i) \<Longrightarrow> (\<And>x i. i_info (f x i) = i_info i) \<Longrightarrow>
    i_id (of_bool_field f x i) = i_id i \<and> i_info (of_bool_field f x i) = i_info i"
  "(\<And>x i. i_id (h x i) = i_id i) \<Longrightarrow> (\<And>x i. i_info (h x i) = i_info i) \<Longrightarrow>
    i_id (of_byte_field h y i) = i_id i \<and> i_info (of_byte_field h y i) = i_info i"
  by (simp_all add: of_bool_field_def of_byte_field_def)

lemma write_sgir_tot:
  assumes "gic_inv g" "c < num_vcpus g" "sgir_write_ok (ucast (v AND 0xffffffff)) g"
  shows "tot (write_sgir c v g) (\<lambda>(b, g'). b \<and> kept g g')"
proof -
  let ?s = "ucast (v AND 0xffffffff) :: u32"
  have n: "sgir_sgi ?s < 16"
  proof -
    have "?s AND 0xf = take_bit 4 ?s" by (simp add: take_bit_eq_mask mask_eq_decr_exp)
    then show ?thesis using take_bit_nat_less_exp [of 4 "unat ?s"] by (simp add: sgir_sgi_def unsigned_take_bit_eq)
  qed
  have one: "tot (send_sgi c t (sgir_sgi ?s) h) (kept g)" if h: "kept g h" "t < num_vcpus g" for t h
  proof -
    have s: "gic_inv h" "same_shape g h" "gic_wf h" using h(1) by (simp_all add: gic_inv_def)
    have "tot (send_sgi c t (sgir_sgi ?s) h) (same_shape h)"
      using n h(2) same_shape_simps(2) [OF s(2)] by (intro tot_lines2(2) [OF s(3) same_shape_refl]) simp_all
    moreover have "par (send_sgi c t (sgir_sgi ?s) h) gic_inv" by (rule inv.par_lines2(2) [OF s(1)])
    ultimately show ?thesis using s(2) same_shape_trans by (auto simp: tot_iff)
  qed
  have loop: "tot (for_each [0..<8] (\<lambda>t h. if P t then Some h else send_sgi c t (sgir_sgi ?s) h) g) (kept g)"
    if "\<And>t. t < 8 \<Longrightarrow> \<not> P t \<Longrightarrow> t < num_vcpus g" for P
    by (rule acc_loop_tot [OF assms(1)]) (use one that in auto)
  have k: "kept g g" using assms(1) by simp
  have "tot (if sgir_filter ?s = 0 then for_each [0..<8] (\<lambda>t g. if \<not> sgir_target ?s t then Some g else send_sgi c t (sgir_sgi ?s) g) g
     else if sgir_filter ?s = 1 then for_each [0..<8] (\<lambda>t g. if t = c then Some g else send_sgi c t (sgir_sgi ?s) g) g
     else if sgir_filter ?s = 2 then send_sgi c c (sgir_sgi ?s) g else Some g) (kept g)"
    using loop [of "\<lambda>t. \<not> sgir_target ?s t"] loop [of "\<lambda>t. t = c"] one [OF k assms(2)] k assms(3)
    by (simp add: sgir_write_ok_def split del: if_split split: if_split)
  then show ?thesis unfolding write_sgir_def Let_def by simp
qed

lemma write_irouter_tot:
  assumes "gic_inv g" "c < num_vcpus g"
  shows "tot (write_irouter c off bytes v g) (\<lambda>(b, g'). b \<and> kept g g')"
proof -
  let ?n = "SPI_BASE + (off - 0x6100) div 8"
  have red: "tot (let (hint, k) = next_hint k in do { (b, k) \<leftarrow> redirect_spi (c, ?n) hint k; Some (True, k) }) (\<lambda>(b, g'). b \<and> kept g g')"
    if k: "kept g k" and v: "valid_ref g (c, ?n)" for k
    using redirect_kept [OF next_hint_kept [OF k] v] by (simp add: next_hint_def split_def)
  have "tot (irq_modify (c, ?n) (\<lambda>i. i\<lparr>i_routing := v\<rparr>) g) (\<lambda>k. tot (irq_object k (c, ?n))
     (\<lambda>i. tot (if irq_pending i then (let (hint, k) = next_hint k in do { (b, k) \<leftarrow> redirect_spi (c, ?n) hint k; Some (True, k) })
        else Some (True, k)) (\<lambda>(b, g'). b \<and> kept g g')))" if "?n < configured_irqs g"
  proof (rule irq_modify_tot [OF assms(1)])
    show v: "valid_ref g (c, ?n)" using that assms(2) by (simp add: valid_ref_def)
    fix k assume k: "gic_inv k" "same_shape g k"
    have "valid_ref k (c, ?n)" using v valid_ref_shape [OF k(2)] by simp
    then show "tot (irq_object k (c, ?n)) (\<lambda>i. tot (if irq_pending i then (let (hint, k) = next_hint k in do { (b, k) \<leftarrow> redirect_spi (c, ?n) hint k; Some (True, k) })
        else Some (True, k)) (\<lambda>(b, g'). b \<and> kept g g'))"
      using k red [OF _ v, of k] by (intro irq_object_tot) auto
  qed simp_all
  then show ?thesis using assms(1) by (simp add: write_irouter_def Let_def)
qed

lemma default_access_simps:
  "acc_offset (default_access off n g) = off" "acc_bytes (default_access off n g) = n" "irq_base (default_access off n g) = 0"
  "irq_per_bytes (default_access off n g) = 8" "irq_max (default_access off n g) = configured_irqs g"
  "acc_configured (default_access off n g) = configured_irqs g"
  by (simp_all add: default_access_def)

lemma bit_without_sgis: "bit (without_sgis v) i \<longleftrightarrow> bit v i \<and> 16 \<le> i"
  by (auto simp: without_sgis_def bit_simps mask_bits dest: bit_imp_le_length)

lemma bitfield_acc_ok:
  "n \<le> 4 \<Longrightarrow> b \<le> off \<Longrightarrow> off \<le> b + 0x7f \<Longrightarrow> acc_ok g ((default_access off n g)\<lparr>base_abs := b\<rparr>)"
  by (simp add: acc_ok_def acc_first_def default_access_simps)

lemma pending_write_tot:
  fixes v :: u64
  assumes "gic_inv g" "c < num_vcpus g" "n \<le> 4" "b \<le> off" "off \<le> b + 0x7f" "affinity_routing g \<or> off \<noteq> b + 1"
  defines "a \<equiv> (default_access off n g)\<lparr>base_abs := b\<rparr>" and "w \<equiv> (if off = b then without_sgis v else v)"
  shows "tot (mmio_assert assert_pi_sw c a w g) (\<lambda>(b, g'). b \<and> kept g g')"
    "tot (mmio_assert deassert_pi_sw c a w g) (\<lambda>(b, g'). b \<and> kept g g')"
proof -
  have gw: "gic_wf g" using assms(1) by (simp add: gic_inv_def)
  have o: "acc_ok g a" unfolding a_def by (rule bitfield_acc_ok [OF assms(3-5)])
  have k: "valid_ref g (c, acc_first a + i) \<and> (PPI_BASE \<le> acc_first a + i \<or> affinity_routing g)"
    if "i < acc_num a" "bit w i" for i
  proof -
    have "acc_first a = (off - b) * 8" by (simp add: a_def acc_first_def default_access_simps)
    then show ?thesis using that(2) assms(4,6) acc_ok_ref [OF o gw that(1) assms(2)] bit_without_sgis [of v i]
      by (auto simp: w_def split: if_splits)
  qed
  show "tot (mmio_assert assert_pi_sw c a w g) (\<lambda>(b, g'). b \<and> kept g g')"
    "tot (mmio_assert deassert_pi_sw c a w g) (\<lambda>(b, g'). b \<and> kept g g')"
    by (rule mmio_assert_tot [OF assms(1) o assms(2)], rule pi_sw_kept; use k assms(2) in simp)+
qed

lemma sgi_write_tot:
  fixes v :: u64
  assumes "gic_inv g" "c < num_vcpus g" "n \<le> 4" "b \<le> off" "off \<le> b + 15"
  defines "a \<equiv> configure_access SGI ((default_access off n g)\<lparr>irq_per_bytes := 1, base_abs := b\<rparr>)"
  shows "\<not> affinity_routing g \<Longrightarrow> tot (mmio_assert_sgi deassert_sgi c a v g) (\<lambda>(b, g'). b \<and> kept g g')"
    "num_vcpus g = 8 \<Longrightarrow> tot (mmio_assert_sgi assert_sgi c a v g) (\<lambda>(b, g'). b \<and> kept g g')"
proof -
  have gw: "gic_wf g" "32 < configured_irqs g" using assms(1) by (auto simp: gic_inv_def gic_wf_def)
  have o: "acc_ok g a" "irq_per_bytes a = 1" using assms(3-5) gw(2)
    by (auto simp: a_def acc_ok_def acc_first_def default_access_simps)
  have k: "valid_ref g (c, acc_first a + i)" "acc_first a + i < 16" if "i < acc_num a" for i
    using acc_ok_ref [OF o(1) gw(1) that assms(2)] that by (auto simp: acc_num_def a_def)
  show "\<not> affinity_routing g \<Longrightarrow> tot (mmio_assert_sgi deassert_sgi c a v g) (\<lambda>(b, g'). b \<and> kept g g')"
    by (rule mmio_assert_sgi_tot [OF assms(1) o(1) assms(2) o(2)], rule deassert_sgi_kept; use k in simp)
  show "num_vcpus g = 8 \<Longrightarrow> tot (mmio_assert_sgi assert_sgi c a v g) (\<lambda>(b, g'). b \<and> kept g g')"
    by (rule mmio_assert_sgi_tot [OF assms(1) o(1) assms(2) o(2)], rule sgi_kept; use k in simp)
qed

lemma gicd_write_tot:
  assumes "gic_inv g" "num_vcpus g \<le> 8" "gicd_write_ok off v g" "version_code (version g) < 3 \<Longrightarrow> \<not> affinity_routing g"
  shows "tot (gicd_mmio_write c off n v g) (\<lambda>(b, g'). gic_inv g')"
proof -
  let ?a = "default_access off n g"
  have gw: "gic_wf g" and wf: "32 < configured_irqs g" "configured_irqs g \<le> 1020"
    using assms(1) by (auto simp: gic_inv_def gic_wf_def)
  have mono: "tot m (\<lambda>(b, g'). gic_inv g')" if "tot m (\<lambda>(b, g'). b \<and> kept g g')" for m
    using that by (auto simp: tot_iff)
  have "tot (mmio_write_32_or_less c ?a v g) (\<lambda>(b, g'). gic_inv g')" if c: "c < num_vcpus g" and n: "n \<le> 4"
  proof (cases "reg_at gicd_regs off")
    case None
    then show ?thesis using assms(1) by (simp add: mmio_write_32_or_less_def default_access_simps)
  next
    case (Some r)
    note rg = gicd_reg_ranges [OF Some]
    note d = mmio_write_32_or_less_def default_access_simps Some
    note bits = bitfield_acc_ok [OF n, of _ off g]
    note pend = pending_write_tot [OF assms(1) c n] and sgis = sgi_write_tot [OF assms(1) c n]
    note w = irq_write_tot [OF assms(1) _ c kept_fields(1)] irq_write_tot [OF assms(1) _ c kept_fields(2)]
    show ?thesis
    proof (cases r)
      case GICD_CTLR
      then have "affinity_routing (snd (write_ctlr off n v g)) = affinity_routing g"
        using write_ctlr_routing [OF _ assms(3) n assms(4)] Some by simp
      then show ?thesis using GICD_CTLR gic_inv_ctlr [OF assms(1)] by (simp add: d write_ctlr_def split_def Let_def)
    next
      case GICD_IGROUP
      then show ?thesis using rg(1) bits by (simp add: d) (rule mono, rule w; simp)
    next
      case GICD_ISENABLER
      then show ?thesis using rg(2) bits by (simp add: d) (rule mono, rule w; simp)
    next
      case GICD_ICENABLER
      then show ?thesis using rg(3) bits by (simp add: d) (rule mono, rule w; simp)
    next
      case GICD_ISACTIVER
      then show ?thesis using rg(6) bits by (simp add: d) (rule mono, rule w; simp)
    next
      case GICD_ICACTIVER
      then show ?thesis using rg(7) bits by (simp add: d) (rule mono, rule w; simp)
    next
      case GICD_IPRIORITYR
      then show ?thesis using rg(8) n
        by (simp add: d) (rule mono, rule w; auto simp: acc_ok_def acc_first_def default_access_simps)
    next
      case GICD_ICFGR1
      then show ?thesis using rg(12) n wf
        by (simp add: d) (rule mono, rule w; auto simp: acc_ok_def acc_first_def default_access_simps)
    next
      case GICD_ICFGR
      then show ?thesis using rg(13) n wf
        by (simp add: d) (rule mono, rule w; auto simp: acc_ok_def acc_first_def default_access_simps)
    next
      case GICD_ITARGETSR8
      then show ?thesis using rg(10) n wf
        by (simp add: d) (rule mono, rule change_target_tot [OF assms(1) _ c]; auto simp: acc_ok_def acc_first_def default_access_simps)
    next
      case GICD_SGIR
      then show ?thesis using write_sgir_tot [OF assms(1), of c v] c assms(3) Some
        by (simp add: d gicd_write_ok_def mono)
    next
      case GICD_ISPENDR
      then show ?thesis using mono [OF pend(1) [of 512 off v]] rg(4) assms(3) Some
        by (cases "off = 512") (simp_all add: d gicd_write_ok_def)
    next
      case GICD_ICPENDR
      then show ?thesis using mono [OF pend(2) [of 640 off v]] rg(5) assms(3) Some
        by (cases "off = 640") (simp_all add: d gicd_write_ok_def)
    next
      case GICD_CPENDSGIR
      then show ?thesis using mono [OF sgis(1) [of 3856 off v]] rg(14) assms(1) by (simp add: d)
    next
      case GICD_SPENDSGIR
      then show ?thesis using mono [OF sgis(2) [of 3872 off v]] rg(15) assms(1,3) Some by (auto simp: d gicd_write_ok_def)
    qed (use assms(1) in \<open>simp_all add: d\<close>)
  qed
  then show ?thesis using assms(1) write_irouter_tot [OF assms(1), of c off n v]
    by (auto simp: gicd_mmio_write_def intro!: mono)
qed

lemma gicd_read_tot:
  assumes "gic_inv g"
  shows "tot (gicd_mmio_read c off n u g) (\<lambda>_. True)"
proof -
  let ?a = "default_access off n g"
  have wf: "32 < configured_irqs g" "configured_irqs g \<le> 1020" using assms by (auto simp: gic_inv_def gic_wf_def)
  have "tot (mmio_read_32_or_less c ?a u g) (\<lambda>_. True)" if c: "c < num_vcpus g" and n: "n \<le> 4"
  proof (cases "reg_at gicd_regs off")
    case None
    then show ?thesis by (simp add: mmio_read_32_or_less_def default_access_simps Let_def)
  next
    case (Some r)
    note rg = gicd_reg_ranges [OF Some]
    note d = mmio_read_32_or_less_def default_access_simps Some Let_def
    note rd = irq_read_tot [OF assms _ c] and bits = bitfield_acc_ok [OF n, of _ off g]
    note geo = acc_ok_def acc_first_def default_access_simps
    have bit: "tot (irq_read f c (?a\<lparr>base_abs := b\<rparr>) u g) (\<lambda>_. True)" if "b \<le> off" "off \<le> b + 0x7f" for b f
      using that by (intro rd bits)
    have byte: "tot (irq_read f c (?a\<lparr>irq_per_bytes := 1, base_abs := b\<rparr>) u g) (\<lambda>_. True)"
      "tot (irq_read f c (configure_access PRIVATE_ONLY (?a\<lparr>irq_per_bytes := 1, base_abs := b\<rparr>)) u g) (\<lambda>_. True)"
      if "b \<le> off" "off \<le> b + 0x3ff" for b f
      using that n wf by (intro rd; auto simp: geo)+
    have spi: "tot (irq_read f c (configure_access SPI (?a\<lparr>irq_per_bytes := 1, base_abs := b\<rparr>)) u g) (\<lambda>_. True)"
      if "b \<le> off" "off \<le> b + 0x3df" for b f
      using that n wf by (intro rd; auto simp: geo)
    have two: "tot (irq_read f c (configure_access t (?a\<lparr>irq_per_bytes := 4, base_abs := b\<rparr>)) u g) (\<lambda>_. True)"
      if "b \<le> off" "off \<le> b + 0xf7" for b t f
      using that n wf by (intro rd; cases t; auto simp: geo)
    have pend: "tot (read_pending c ?a b u g) (\<lambda>_. True)" if "b \<le> off" "off \<le> b + 0x3ff" for b
    proof -
      have "tot (irq_read (read_bool irq_pending) c (?a\<lparr>irq_per_bytes := 1, irq_max := MAX_SGI, base_abs := b\<rparr>) u g) (\<lambda>_. True)"
        using that n wf by (intro rd; auto simp: geo)
      then show ?thesis by (simp add: read_pending_def)
    qed
    show ?thesis
      by (cases r; use rg in \<open>simp add: d bit byte spi two pend del: configure_access.simps One_nat_def\<close>)
  qed
  moreover have "tot (irq_object g (c, 32 + (off - 0x6100) div 8)) (\<lambda>_. True)"
    if "c < num_vcpus g" "32 + (off - 0x6100) div 8 < configured_irqs g"
    using that by (intro irq_object_tot [OF assms]) (simp_all add: valid_ref_def)
  ultimately show ?thesis by (auto simp: gicd_mmio_read_def Let_def)
qed

text \<open>
  C12: on a controller of up to eight vCPUs, every guest access to the distributor's registers, of any
  kind, size and offset, returns without a failed assertion, an undefined shift or an index
  outside an array, and keeps the invariant, if the writes keep to \<open>gicd_write_ok\<close>.
\<close>

theorem gicd_access_never_aborts:
  assumes "gic_inv g" "num_vcpus g \<le> 8" "version g = GIC_V3 \<or> version g = GIC_V2" "version g = GIC_V2 \<longrightarrow> \<not> affinity_routing g"
    and "acc = WRITE \<longrightarrow> gicd_write_ok (unat off) v g"
  shows "\<exists>e w g'. gicd_access acc c off n v g = Some (e, w, g') \<and> gic_inv g'"
proof -
  have w: "tot (gicd_mmio_write c (unat off) (unat n) v g) (\<lambda>(b, g'). gic_inv g')" if "acc = WRITE"
    using assms that by (intro gicd_write_tot) auto
  have r: "tot (gicd_mmio_read c (unat off) (unat n) v g) (\<lambda>_. True)" by (rule gicd_read_tot [OF assms(1)])
  show ?thesis using w r assms(1) by (cases acc) (auto simp: gicd_access_def tot_iff)
qed

theorem gicd_access_never_aborts_witness:
  "\<exists>e w g'. gicd_access WRITE 1 0x820 4 0x03020103 (demo_gic (\<lambda>n i. i) (\<lambda>n. False) 3) = Some (e, w, g') \<and> gic_inv g'"
  by (rule gicd_access_never_aborts, rule demo_inv)
    (simp_all add: irq_new_def demo_gic_def gicd_write_ok_def gicd_regs_def)

text \<open>
  A guest write to the SGI register that sends to all other vCPUs aborts the monitor on a machine
  with fewer than eight vCPUs, whatever its size and the value of its other fields: the loop goes to
  vCPU number seven and the assertion on the target fails.
\<close>

theorem gicd_sgir_aborts:
  assumes "num_vcpus g < 8" "c < num_vcpus g" "n \<le> 4" "sgir_filter (ucast v) = 1"
  shows "gicd_mmio_write c 0xf00 n v g = None"
proof -
  have f: "sgir_filter (ucast (v AND 0xffffffff)) = 1"
  proof -
    have "(ucast (v AND 0xffffffff) :: u32) = ucast v" by (rule word_eqI_bits) (auto simp: bit_simps mask_bits)
    then show ?thesis using assms(4) by simp
  qed
  let ?s = "\<lambda>t h. if t = c then Some h else send_sgi c t (sgir_sgi (ucast (v AND 0xffffffff))) h"
  have "par (for_each [0..<7] ?s g) (same_shape g)"
    by (rule par_for_each [where I = "same_shape g"]) (auto intro!: shape.par_lines2)
  then have "?s 7 h = None" if "for_each [0..<7] ?s g = Some h" for h
    using that assms(1,2) same_shape_simps(2) [of g h] by (simp add: par_iff send_sgi_def ASSERT_def)
  moreover have "[0..<8] = [0..<7] @ [7::nat]" by (simp add: upt_rec)
  ultimately have "for_each [0..<8] ?s g = None"
    by (simp only: for_each_append) (auto split: option.split)
  then show ?thesis using assms(1-3) f
    by (simp add: gicd_mmio_write_def mmio_write_32_or_less_def default_access_simps gicd_regs_def write_sgir_def)
qed

theorem gicd_sgir_aborts_witness:
  "gicd_mmio_write 0 0xf00 4 0x1000000 (demo_gic (\<lambda>n i. i) (\<lambda>n. False) 3) = None"
  by (rule gicd_sgir_aborts) (simp_all add: demo_gic_def sgir_filter_def)

subsection \<open>Accesses to the redistributor\<close>

lemma gicr_reg_ranges:
  assumes "reg_at gicr_regs off = Some r"
  shows "r = GICR_IGROUP0 \<Longrightarrow> 0x10080 \<le> off \<and> off \<le> 0x10083" "r = GICR_ISENABLER0 \<Longrightarrow> 0x10100 \<le> off \<and> off \<le> 0x10103"
    "r = GICR_ICENABLER0 \<Longrightarrow> 0x10180 \<le> off \<and> off \<le> 0x10183" "r = GICR_ISPENDR0 \<Longrightarrow> 0x10200 \<le> off \<and> off \<le> 0x10203"
    "r = GICR_ICPENDR0 \<Longrightarrow> 0x10280 \<le> off \<and> off \<le> 0x10283" "r = GICR_ISACTIVER0 \<Longrightarrow> 0x10300 \<le> off \<and> off \<le> 0x10303"
    "r = GICR_ICACTIVER0 \<Longrightarrow> 0x10380 \<le> off \<and> off \<le> 0x10383" "r = GICR_IPRIORITYR0 \<Longrightarrow> 0x10400 \<le> off \<and> off \<le> 0x1041f"
    "r = GICR_ICFGR0 \<Longrightarrow> 0x10c00 \<le> off \<and> off \<le> 0x10c03" "r = GICR_ICFGR1 \<Longrightarrow> 0x10c04 \<le> off \<and> off \<le> 0x10c07"
    "r = GICR_WAKER \<Longrightarrow> 0x14 \<le> off \<and> off \<le> 0x17"
  using reg_at_Some [OF assms] by (auto simp: gicr_regs_def)

lemma private_access_simps:
  "acc_offset (private_access off n g) = off" "acc_bytes (private_access off n g) = n" "irq_base (private_access off n g) = 0"
  "irq_per_bytes (private_access off n g) = 8" "irq_max (private_access off n g) = 32"
  by (simp_all add: private_access_def)

lemma private_acc_ok:
  assumes "gic_wf g" "n \<le> 8" "b \<le> off"
  shows "off \<le> b + 3 \<Longrightarrow> acc_ok g ((private_access off n g)\<lparr>base_abs := b\<rparr>)"
    "off \<le> b + 31 \<Longrightarrow> acc_ok g ((private_access off n g)\<lparr>base_abs := b, irq_per_bytes := 1\<rparr>)"
    "off \<le> b + 3 \<Longrightarrow> acc_ok g ((configure_access SGI ((private_access off n g)\<lparr>base_abs := b\<rparr>))\<lparr>irq_per_bytes := 4\<rparr>)"
    "off \<le> b + 3 \<Longrightarrow> acc_ok g ((configure_access PPI ((private_access off n g)\<lparr>base_abs := b\<rparr>))\<lparr>irq_per_bytes := 4\<rparr>)"
  using assms by (simp_all add: acc_ok_def acc_first_def private_access_simps gic_wf_def)

text \<open>The registers of a redistributor and the table addresses are not part of the invariant.\<close>

lemma gic_inv_redist:
  assumes "gic_inv g"
  shows "gic_inv (g\<lparr>redists := (redists g)[c := r]\<rparr>)" "gic_inv (g\<lparr>prop_baser := w\<rparr>)" "gic_inv (g\<lparr>pend_baser := w\<rparr>)"
  by (rule gic_inv_cong [OF assms]; simp add: affinity_routing_def)+

lemma write_waker_tot:
  assumes "gic_inv g" "c < num_vcpus g" "c < 8"
  shows "tot (write_waker c off n v g) (\<lambda>(b, g'). gic_inv g')"
proof -
  have l: "c < length (redists g)" using assms(1,2) wf_len by (simp add: gic_inv_def)
  have "tot (highest_irq c True h) (\<lambda>(r, h'). gic_inv h')" if h: "gic_inv h" "num_vcpus h = num_vcpus g" for h
  proof -
    have "tot (highest_irq c True h) (\<lambda>_. True)" using h assms(2,3) by (intro highest_irq_tot) simp_all
    then show ?thesis using highest_irq_spec(2) [OF h(1)] by (fastforce simp: tot_iff loop_frame_def)
  qed
  then have "tot (highest_irq c True (g\<lparr>redists := (redists g)[c := r]\<rparr>)) (\<lambda>(r, h'). gic_inv h')" for r
    using gic_inv_redist(1) [OF assms(1)] by simp
  then show ?thesis using l gic_inv_redist(1) [OF assms(1)]
    by (simp add: write_waker_def redist_modify_def nth_opt_def Let_def split_def)
qed

lemma gicr_write_tot:
  assumes "gic_inv g" "c < num_vcpus g" "c < 8" "n \<le> 8"
  shows "tot (gicr_mmio_write c off n v g) (\<lambda>(b, g'). gic_inv g')"
proof -
  let ?a = "private_access off n g"
  have wf: "gic_wf g" and l: "c < length (redists g)" using assms(1,2) wf_len by (simp_all add: gic_inv_def)
  note ok = private_acc_ok [OF wf assms(4)]
  have mono: "tot m (\<lambda>(b, g'). gic_inv g')" if "tot m (\<lambda>(b, g'). b \<and> kept g g')" for m
    using that by (auto simp: tot_iff)
  note w = mono [OF irq_write_tot [OF assms(1) _ assms(2) kept_fields(1)]] mono [OF irq_write_tot [OF assms(1) _ assms(2) kept_fields(2)]]
  have pend: "tot (mmio_assert assert_pi_sw c a v g) (\<lambda>(b, g'). gic_inv g')" "tot (mmio_assert deassert_pi_sw c a v g) (\<lambda>(b, g'). gic_inv g')"
    if a: "affinity_routing g" "acc_ok g a" for a
    by (rule mono [OF mmio_assert_tot [OF assms(1) a(2) assms(2)]], rule pi_sw_kept; use a acc_ok_ref [OF a(2) wf _ assms(2)] assms(2) in simp)+
  show ?thesis
  proof (cases "reg_at gicr_regs off")
    case None
    then show ?thesis using assms(1,2) l by (simp add: gicr_mmio_write_def Let_def)
  next
    case (Some r)
    note rg = gicr_reg_ranges [OF Some] and inv = gic_inv_redist [OF assms(1)]
    note d = gicr_mmio_write_def Some Let_def redist_modify_def
    show ?thesis
      by (cases r; use rg assms l inv write_waker_tot [OF assms(1-3)] in
        \<open>simp add: d w ok pend del: configure_access.simps One_nat_def\<close>)
  qed
qed

lemma gicr_read_tot:
  assumes "gic_inv g" "c < num_vcpus g" "n \<le> 8"
  shows "tot (gicr_mmio_read c off n u g) (\<lambda>_. True)"
proof -
  have wf: "gic_wf g" and l: "c < length (redists g)" using assms(1,2) wf_len by (simp_all add: gic_inv_def)
  note ok = private_acc_ok [OF wf assms(3)] and rd = irq_read_tot [OF assms(1) _ assms(2)]
  show ?thesis
  proof (cases "reg_at gicr_regs off")
    case None
    then show ?thesis using assms l by (simp add: gicr_mmio_read_def Let_def)
  next
    case (Some r)
    note rg = gicr_reg_ranges [OF Some] and d = gicr_mmio_read_def Some Let_def
    show ?thesis
      by (cases r; use rg assms l in \<open>simp add: d rd ok del: configure_access.simps One_nat_def\<close>)
  qed
qed

text \<open>
  On a controller of up to eight vCPUs, every guest access of up to eight bytes to the registers
  of a vCPU's redistributor returns without a failed assertion, an undefined shift or an index
  outside an array, and keeps the invariant; no write is excepted.
\<close>

theorem gicr_access_never_aborts:
  assumes "gic_inv g" "num_vcpus g \<le> 8" "c < num_vcpus g" "unat n \<le> 8"
  shows "\<exists>e w g'. gicr_access acc c off n v g = Some (e, w, g') \<and> gic_inv g'"
proof -
  have "tot (gicr_mmio_write c (unat off) (unat n) v g) (\<lambda>(b, g'). gic_inv g')" "tot (gicr_mmio_read c (unat off) (unat n) v g) (\<lambda>_. True)"
    using gicr_write_tot [OF assms(1,3) _ assms(4)] gicr_read_tot [OF assms(1,3,4)] assms(2,3) by simp_all
  then show ?thesis using assms(1) by (cases acc) (auto simp: gicr_access_def tot_iff)
qed

theorem gicr_access_never_aborts_witness:
  "\<exists>e w g'. gicr_access WRITE 0 0x14 4 2 (demo_gic demo40 (\<lambda>n. n = 40) 3) = Some (e, w, g') \<and> gic_inv g'"
  by (rule gicr_access_never_aborts [OF demo40_inv]) (simp_all add: demo_gic_def)

text \<open>
  A redistributor never goes to sleep: after a guest write of the whole wake register, with any
  value, the sleep bit is clear and the vCPU counts as able to receive interrupts; a write that
  asks for sleep leaves only the children-asleep bit set. (The masks of the bits are used as shift
  counts.)
\<close>

theorem gicr_waker_never_sleeps:
  assumes "gic_inv g" "c < num_vcpus g" "c < 8"
  shows "\<exists>g'. gicr_mmio_write c 0x14 4 v g = Some (True, g') \<and> can_receive_irq (redists g' ! c) \<and>
     r_waker (redists g' ! c) = (if bit v 1 then CHILDREN_ASLEEP_BIT else 0)"
proof -
  have l: "c < length (redists g)" using assms(1,2) wf_len by (simp add: gic_inv_def)
  have s: "waker_sleeping (ucast v) \<longleftrightarrow> bit v 1"
    using and_exp_eq_0_iff_not_bit [of "ucast v :: u32" 1] by (simp add: waker_sleeping_def bit_simps)
  obtain w where w: "w = (if bit v 1 then CHILDREN_ASLEEP_BIT else 0)" by simp
  let ?g1 = "g\<lparr>redists := (redists g)[c := (redists g ! c)\<lparr>r_waker := w\<rparr>]\<rparr>"
  have i: "gic_inv ?g1" by (rule gic_inv_redist(1) [OF assms(1)])
  have c: "tot (highest_irq c True ?g1) (\<lambda>_. True)" using assms(2,3) by (intro highest_irq_tot [OF i]) simp_all
  have "tot (gicr_mmio_write c 0x14 4 v g) (\<lambda>(b, g'). b \<and> redists g' = redists ?g1)"
  proof -
    have r: "write_register \<lparr>ra_offset = 0x14, ra_base_reg = 0x14, ra_base_max = 0x17, ra_bytes = 4\<rparr>
        (ucast (new_waker (ucast v))) WAKER_RESV_ZERO 0 x = (True, w)" for x
      by (simp add: w write_register_def new_waker_def s unsigned_minus_1_eq_mask mask_eq_decr_exp)
    have e: "write_waker c 0x14 4 v g = (if bit v 1 then do { (x, g) \<leftarrow> highest_irq c True ?g1; Some (True, g) } else Some (True, ?g1))"
      using l by (simp add: write_waker_def nth_opt_def upd_opt_def r [simplified] redist_modify_def s split_def)
    have f: "redists h = redists ?g1" if "highest_irq c True ?g1 = Some (x, h)" for x h
      using highest_irq_spec(2) [OF i that] same_shape_simps(5) [of ?g1 h] unfolding loop_frame_def by blast
    have "gicr_mmio_write c 0x14 4 v g = write_waker c 0x14 4 v g"
      using assms(2) l by (simp add: gicr_mmio_write_def nth_opt_def gicr_regs_def)
    moreover obtain x h where "highest_irq c True ?g1 = Some (x, h)" using c by (auto simp: tot_iff)
    ultimately show ?thesis using e f [of x h] by (cases "bit v 1") simp_all
  qed
  then show ?thesis using l by (auto simp: tot_iff can_receive_irq_def waker_sleeping_def w)
qed

theorem gicr_waker_never_sleeps_witness:
  "\<exists>g'. gicr_mmio_write 0 0x14 4 2 (demo_gic demo40 (\<lambda>n. n = 40) 3) = Some (True, g') \<and> can_receive_irq (redists g' ! 0)"
  using gicr_waker_never_sleeps [OF demo40_inv, of 0 2] by (auto simp: demo_gic_def)

subsection \<open>What the register accesses do\<close>

lemma for_each_upt_inv:
  assumes "for_each [0..<n] f s = Some s'" "P 0 s" "\<And>i s s'. i < n \<Longrightarrow> P i s \<Longrightarrow> f i s = Some s' \<Longrightarrow> P (Suc i) s'"
  shows "P n s'"
  using assms(1,3)
proof (induction n arbitrary: s')
  case 0
  then show ?case using assms(2) by simp
next
  case (Suc n)
  then obtain t where t: "for_each [0..<n] f s = Some t" "f n t = Some s'"
    by (auto simp: for_each_append split: option.splits)
  have "P n t" by (rule Suc.IH [OF t(1)]) (use Suc.prems(2) in simp)
  then show ?case using Suc.prems(2) t(2) by blast
qed

text \<open>The value for interrupt \<open>i\<close> of the access, and the objects after a write.\<close>

definition acc_value :: "irq_access \<Rightarrow> u64 \<Rightarrow> nat \<Rightarrow> u64" where
  "acc_value a v i = take_bit (acc_bits a) (drop_bit (i * acc_bits a) v)"

lemma irq_write_objects:
  assumes "gic_inv g" "acc_ok g a" "irq_write f c a v g = Some (b, g')"
  shows "irq_object g' q =
    (if \<exists>i < acc_num a. same_irq (c, acc_first a + i) q
     then map_option (f (acc_value a v (snd q - acc_first a))) (irq_object g q) else irq_object g q)"
proof -
  have wf: "gic_wf g" using assms(1) by (simp add: gic_inv_def)
  note s = acc_ok_simps [OF assms(2) wf]
  let ?f = "\<lambda>i g. do { x \<leftarrow> acc_field a v i; irq_modify (c, first_irq_accessed a + i) (f x) g }"
  let ?P = "\<lambda>k h. irq_object h q = (if \<exists>i < k. same_irq (c, acc_first a + i) q
     then map_option (f (acc_value a v (snd q - acc_first a))) (irq_object g q) else irq_object g q)"
  have "for_each [0..<acc_num a] ?f g = Some g'" using assms(3) by (auto simp: irq_write_def s bind_eq_Some_conv)
  then show ?thesis
  proof (rule for_each_upt_inv [where P = ?P])
    fix i h h' assume i: "i < acc_num a" and h: "?P i h" and st: "?f i h = Some h'"
    have m: "irq_modify (c, acc_first a + i) (f (acc_value a v i)) h = Some h'"
      using st s(6) [OF i] by (simp add: s shift_right_def acc_value_def)
    have e: "same_irq (c, acc_first a + j) q \<Longrightarrow> snd q - acc_first a = j" for j
      by (auto simp: same_irq_def)
    show "?P (Suc i) h'"
      unfolding irq_modify_object [OF m] h using e by (auto simp: less_Suc_eq)
  qed simp
qed

lemma irq_read_bits:
  assumes "gic_inv g" "acc_ok g a" "c < num_vcpus g" "irq_per_bytes a = 8"
  shows "\<exists>w. irq_read (read_bool f) c a u g = Some (True, w) \<and>
     (\<forall>i. bit w i \<longleftrightarrow> i < acc_num a \<and> (\<exists>j. irq_object g (c, acc_first a + i) = Some j \<and> f j))"
proof -
  have wf: "gic_wf g" using assms(1) by (simp add: gic_inv_def)
  note s = acc_ok_simps [OF assms(2) wf]
  let ?f = "\<lambda>i w. do { j \<leftarrow> irq_object g (c, first_irq_accessed a + i); b \<leftarrow> irq_per_bytes_to_bits (irq_per_bytes a);
      ASSERT (i * b < 64); Some (w OR push_bit (i * b) (read_bool f j)) }"
  let ?P = "\<lambda>k (w :: u64). \<forall>i. bit w i \<longleftrightarrow> i < k \<and> (\<exists>j. irq_object g (c, acc_first a + i) = Some j \<and> f j)"
  have ab: "acc_bits a = 1" using assms(4) by (simp add: acc_bits_def)
  obtain w where w: "irq_read (read_bool f) c a u g = Some (True, w)" "for_each [0..<acc_num a] ?f 0 = Some w"
    using irq_read_tot [OF assms(1-3), of "read_bool f" u] by (auto simp: tot_iff irq_read_def s bind_eq_Some_conv)
  from w(2) have "?P (acc_num a) w"
  proof (rule for_each_upt_inv [where P = ?P])
    fix i and y y' :: u64 assume i: "i < acc_num a" and y: "?P i y" and st: "?f i y = Some y'"
    then obtain j where j: "irq_object g (c, acc_first a + i) = Some j" "y' = y OR push_bit i (read_bool f j)"
      using s(7) [OF i] by (auto simp: s ab bind_eq_Some_conv)
    have "bit (push_bit i (read_bool f j)) k \<longleftrightarrow> k = i \<and> f j" for k
      using s(7) [OF i] by (auto simp: read_bool_def bit_simps)
    then show "?P (Suc i) y'" using y j by (auto simp: bit_simps less_Suc_eq)
  qed simp
  then show ?thesis using w(1) by blast
qed

lemma irq_read_fields:
  assumes "gic_inv g" "acc_ok g a" "c < num_vcpus g"
    and "\<And>i j. i < acc_num a \<Longrightarrow> irq_object g (c, acc_first a + i) = Some j \<Longrightarrow> f j = acc_value a v i"
  shows "irq_read f c a u g = Some (True, take_bit (acc_num a * acc_bits a) v)"
proof -
  have wf: "gic_wf g" using assms(1) by (simp add: gic_inv_def)
  note s = acc_ok_simps [OF assms(2) wf]
  let ?f = "\<lambda>i w. do { j \<leftarrow> irq_object g (c, first_irq_accessed a + i); b \<leftarrow> irq_per_bytes_to_bits (irq_per_bytes a);
      ASSERT (i * b < 64); Some (w OR push_bit (i * b) (f j)) }"
  obtain w where w: "irq_read f c a u g = Some (True, w)" "for_each [0..<acc_num a] ?f 0 = Some w"
    using irq_read_tot [OF assms(1-3), of f u] by (auto simp: tot_iff irq_read_def s bind_eq_Some_conv)
  from w(2) have "w = take_bit (acc_num a * acc_bits a) v"
  proof (rule for_each_upt_inv [where P = "\<lambda>k y. y = take_bit (k * acc_bits a) v"])
    fix i y y' assume i: "i < acc_num a" and y: "y = take_bit (i * acc_bits a) v" and st: "?f i y = Some y'"
    then have "y' = y OR push_bit (i * acc_bits a) (acc_value a v i)"
      using s(6) [OF i] assms(4) [OF i] by (auto simp: s bind_eq_Some_conv)
    also have "\<dots> = take_bit (Suc i * acc_bits a) v"
      by (rule bit_eqI) (auto simp: y acc_value_def bit_simps)
    finally show "y' = take_bit (Suc i * acc_bits a) v" .
  qed simp
  then show ?thesis using w(1) by simp
qed

lemma irq_write_Some:
  assumes "gic_inv g" "acc_ok g a" "c < num_vcpus g" "\<And>x i. i_id (f x i) = i_id i \<and> i_info (f x i) = i_info i"
  obtains g' where "irq_write f c a v g = Some (True, g')" "gic_inv g'" "same_shape g g'"
    "\<And>i. i < acc_num a \<Longrightarrow> irq_object g' (c, acc_first a + i) = map_option (f (acc_value a v i)) (irq_object g (c, acc_first a + i))"
    "\<And>d m. m < acc_first a \<or> acc_first a + acc_num a \<le> m \<Longrightarrow> irq_object g' (d, m) = irq_object g (d, m)"
proof -
  obtain b g' where g': "irq_write f c a v g = Some (b, g')" "b" "gic_inv g'" "same_shape g g'"
    using irq_write_tot [OF assms(1-3), of f v] assms(4) by (auto simp: tot_iff)
  note o = irq_write_objects [OF assms(1,2) g'(1)]
  show ?thesis
  proof (rule that)
    show "irq_write f c a v g = Some (True, g')" using g'(1,2) by simp
    show "irq_object g' (c, acc_first a + i) = map_option (f (acc_value a v i)) (irq_object g (c, acc_first a + i))"
      if "i < acc_num a" for i
      unfolding o using that by (auto simp: same_irq_def)
    show "irq_object g' (d, m) = irq_object g (d, m)" if "m < acc_first a \<or> acc_first a + acc_num a \<le> m" for d m
      unfolding o using that by (auto simp: same_irq_def)
  qed (use g' in simp_all)
qed

text \<open>
  The priority registers are a memory of one byte per interrupt: a write of up to four bytes
  is accepted, a read of the same place gives back the bytes of the existing interrupts and zero
  for the others, and no interrupt outside the written range changes, on any vCPU.
\<close>

theorem gicd_priority_roundtrip:
  assumes "gic_inv g" "c < num_vcpus g" "k < 0x400" "n \<le> 4"
  shows "\<exists>g'. gicd_mmio_write c (0x400 + k) n v g = Some (True, g') \<and>
     gicd_mmio_read c (0x400 + k) n u g' = Some (True, take_bit (8 * min n (configured_irqs g - k)) v) \<and>
     (\<forall>d m. m < k \<or> k + n \<le> m \<longrightarrow> irq_object g' (d, m) = irq_object g (d, m))"
proof -
  let ?a = "(default_access (0x400 + k) n g)\<lparr>irq_per_bytes := 1, base_abs := 0x400\<rparr>"
  have r: "reg_at gicd_regs (0x400 + k) = Some GICD_IPRIORITYR" using assms(3) by (simp add: gicd_regs_def)
  have f: "acc_first ?a = k" "acc_num ?a = min n (configured_irqs g - k)" "acc_bits ?a = 8"
    by (simp_all add: acc_first_def acc_num_def acc_bits_def default_access_simps)
  have ok: "acc_ok g ?a" using assms(3,4) by (simp add: acc_ok_def f(1) default_access_simps del: One_nat_def)
  obtain g' where g': "irq_write (of_byte_field irq_set_prio) c ?a v g = Some (True, g')" "gic_inv g'" "same_shape g g'"
    "\<And>i. i < acc_num ?a \<Longrightarrow> irq_object g' (c, acc_first ?a + i) =
       map_option (of_byte_field irq_set_prio (acc_value ?a v i)) (irq_object g (c, acc_first ?a + i))"
    "\<And>d m. m < acc_first ?a \<or> acc_first ?a + acc_num ?a \<le> m \<Longrightarrow> irq_object g' (d, m) = irq_object g (d, m)"
    by (rule irq_write_Some [OF assms(1) ok assms(2), of "of_byte_field irq_set_prio" v]) (auto simp: of_byte_field_def)
  note eq = same_shape_simps [OF g'(3)]
  have a': "default_access (0x400 + k) n g' = default_access (0x400 + k) n g" by (simp add: default_access_def eq)
  have "irq_read (read_byte i_prio) c ?a u g' = Some (True, take_bit (acc_num ?a * acc_bits ?a) v)"
  proof (rule irq_read_fields [OF g'(2)])
    show "acc_ok g' ?a" using ok acc_ok_shape [OF g'(3)] by simp
    show "c < num_vcpus g'" using assms(2) eq by simp
    fix i j assume i: "i < acc_num ?a" "irq_object g' (c, acc_first ?a + i) = Some j"
    then have "i_prio j = ucast (acc_value ?a v i)" using g'(4) by (auto simp: of_byte_field_def irq_set_prio_def)
    then show "read_byte i_prio j = acc_value ?a v i"
      unfolding read_byte_def acc_value_def f(3) using bit_imp_le_length [of "i_prio j"] by (auto simp: bit_eq_iff bit_simps)
  qed
  note this [unfolded f(2,3)]
  then have "gicd_mmio_read c (0x400 + k) n u g' = Some (True, take_bit (8 * min n (configured_irqs g - k)) v)"
    using assms(2-4) by (simp add: gicd_mmio_read_def mmio_read_32_or_less_def default_access_simps r eq a' Let_def mult.commute)
  moreover have "gicd_mmio_write c (0x400 + k) n v g = Some (True, g')"
    using assms(2-4) g'(1) by (simp add: gicd_mmio_write_def mmio_write_32_or_less_def default_access_simps r)
  moreover have "irq_object g' (d, m) = irq_object g (d, m)" if "m < k \<or> k + n \<le> m" for d m
    by (rule g'(5)) (use that in \<open>unfold f(1,2); auto\<close>)
  ultimately show ?thesis by blast
qed

theorem gicd_priority_roundtrip_witness:
  "\<exists>g'. gicd_mmio_write 0 0x428 4 0x40302010 (demo_gic demo40 (\<lambda>n. n = 40) 3) = Some (True, g') \<and>
     gicd_mmio_read 0 0x428 4 0 g' = Some (True, 0x40302010)"
  using gicd_priority_roundtrip [OF demo40_inv, of 0 40 4 "0x40302010" 0] by (auto simp: demo_gic_def take_bit_eq_mod)

lemma bitfield_write_read:
  assumes "gic_inv g" "acc_ok g a" "c < num_vcpus g" "irq_per_bytes a = 8"
    and F: "\<And>b j. i_id (F b j) = i_id j" "\<And>b j. i_info (F b j) = i_info j" "\<And>b j. get (F b j) = (if b then x else get j)"
  obtains w g' w' where "\<And>u. irq_read (read_bool get) c a u g = Some (True, w)"
    "irq_write (of_bool_field F) c a v g = Some (True, g')" "same_shape g g'"
    "\<And>u. irq_read (read_bool get) c a u g' = Some (True, w')"
    "\<And>i. bit w i \<Longrightarrow> i < acc_num a" "\<And>i. bit w' i \<longleftrightarrow> i < acc_num a \<and> (if bit v i then x else bit w i)"
proof -
  have wf: "gic_wf g" using assms(1) by (simp add: gic_inv_def)
  have ab: "acc_bits a = 1" using assms(4) by (simp add: acc_bits_def)
  have val: "acc_value a v i \<noteq> 0 \<longleftrightarrow> bit v i" for i
    by (simp add: acc_value_def ab take_bit_Suc mod2_eq_if bit_iff_odd_drop_bit)
  obtain w where w: "irq_read (read_bool get) c a 0 g = Some (True, w)"
    "\<forall>i. bit w i \<longleftrightarrow> i < acc_num a \<and> (\<exists>j. irq_object g (c, acc_first a + i) = Some j \<and> get j)"
    using irq_read_bits [OF assms(1-4), of get 0] by blast
  obtain g' where g': "irq_write (of_bool_field F) c a v g = Some (True, g')" "gic_inv g'" "same_shape g g'"
    "\<And>i. i < acc_num a \<Longrightarrow> irq_object g' (c, acc_first a + i) =
       map_option (of_bool_field F (acc_value a v i)) (irq_object g (c, acc_first a + i))"
    by (rule irq_write_Some [OF assms(1-3), of "of_bool_field F" v]) (auto simp: of_bool_field_def F)
  have ok': "acc_ok g' a" "c < num_vcpus g'"
    using assms(2,3) acc_ok_shape [OF g'(3)] same_shape_simps [OF g'(3)] by simp_all
  obtain w' where w': "irq_read (read_bool get) c a 0 g' = Some (True, w')"
    "\<forall>i. bit w' i \<longleftrightarrow> i < acc_num a \<and> (\<exists>j. irq_object g' (c, acc_first a + i) = Some j \<and> get j)"
    using irq_read_bits [OF g'(2) ok' assms(4), of get 0] by blast
  show ?thesis
  proof (rule that)
    show "irq_read (read_bool get) c a u g = Some (True, w)" for u
      using w(1) by (simp add: irq_read_def acc_ok_simps [OF assms(2) wf])
    show "irq_read (read_bool get) c a u g' = Some (True, w')" for u
      using w'(1) g'(2) by (simp add: irq_read_def gic_inv_def acc_ok_simps [OF ok'(1)])
    show "bit w' i \<longleftrightarrow> i < acc_num a \<and> (if bit v i then x else bit w i)" for i
    proof (cases "i < acc_num a")
      case True
      obtain j where j: "irq_object g (c, acc_first a + i) = Some j"
        using irq_object_tot [OF assms(1) acc_ok_ref [OF assms(2) wf True assms(3)]] by (auto simp: tot_iff)
      show ?thesis using w(2) w'(2) True j g'(4) [OF True] by (simp add: of_bool_field_def F(3) val)
    qed (use w'(2) in simp)
  qed (use w g' in auto)
qed

text \<open>
  The two enable registers are the set and clear views of one bit per interrupt. Both read as
  the same word \<open>w\<close>; after a write of \<open>v\<close> to the set register they read as \<open>w OR v\<close>, cut to the
  existing interrupts, and after a write of \<open>v\<close> to the clear register as \<open>w AND NOT v\<close>.
\<close>

theorem gicd_enable_set_clear:
  assumes "gic_inv g" "c < num_vcpus g" "k < 0x80" "n \<le> 4"
  shows "\<exists>w g1 g2. gicd_mmio_read c (0x100 + k) n u g = Some (True, w) \<and> gicd_mmio_read c (0x180 + k) n u g = Some (True, w) \<and>
     gicd_mmio_write c (0x100 + k) n v g = Some (True, g1) \<and> gicd_mmio_write c (0x180 + k) n v g = Some (True, g2) \<and>
     gicd_mmio_read c (0x100 + k) n u g1 = Some (True, w OR take_bit (min (8 * n) (configured_irqs g - 8 * k)) v) \<and>
     gicd_mmio_read c (0x180 + k) n u g2 = Some (True, w AND NOT v)"
proof -
  let ?s = "(default_access (0x100 + k) n g)\<lparr>base_abs := 0x100\<rparr>"
  let ?c = "(default_access (0x180 + k) n g)\<lparr>base_abs := 0x180\<rparr>"
  have rs: "reg_at gicd_regs (0x100 + k) = Some GICD_ISENABLER" and rc: "reg_at gicd_regs (0x180 + k) = Some GICD_ICENABLER"
    using assms(3) by (simp_all add: gicd_regs_def)
  have oks: "acc_ok g ?s" and okc: "acc_ok g ?c" using assms(3,4) by (auto intro!: bitfield_acc_ok)
  have num: "acc_num ?s = min (8 * n) (configured_irqs g - 8 * k)" "acc_num ?c = acc_num ?s"
    by (simp_all add: acc_num_def acc_first_def default_access_simps)
  have per: "irq_per_bytes ?s = 8" "irq_per_bytes ?c = 8" by (simp_all add: default_access_simps)
  obtain w g1 w1 where s: "\<And>u. irq_read (read_bool i_enable) c ?s u g = Some (True, w)"
    "irq_write (of_bool_field irq_set_enable) c ?s v g = Some (True, g1)" "same_shape g g1"
    "\<And>u. irq_read (read_bool i_enable) c ?s u g1 = Some (True, w1)"
    "\<And>i. bit w i \<Longrightarrow> i < acc_num ?s" "\<And>i. bit w1 i \<longleftrightarrow> i < acc_num ?s \<and> (if bit v i then True else bit w i)"
    by (rule bitfield_write_read [OF assms(1) oks assms(2) per(1), of irq_set_enable i_enable True v])
      (simp_all add: irq_set_enable_def)
  obtain wc g2 w2 where d: "\<And>u. irq_read (read_bool i_enable) c ?c u g = Some (True, wc)"
    "irq_write (of_bool_field irq_disable) c ?c v g = Some (True, g2)" "same_shape g g2"
    "\<And>u. irq_read (read_bool i_enable) c ?c u g2 = Some (True, w2)"
    "\<And>i. bit wc i \<Longrightarrow> i < acc_num ?c" "\<And>i. bit w2 i \<longleftrightarrow> i < acc_num ?c \<and> (if bit v i then False else bit wc i)"
    by (rule bitfield_write_read [OF assms(1) okc assms(2) per(2), of irq_disable i_enable False v])
      (simp_all add: irq_disable_def)
  have same: "wc = w"
    using irq_read_bits [OF assms(1) oks assms(2) per(1), of i_enable u] irq_read_bits [OF assms(1) okc assms(2) per(2), of i_enable u]
    by (intro bit_eqI) (auto simp: s(1) d(1) num(2) acc_first_def default_access_simps)
  have w1: "w1 = w OR take_bit (min (8 * n) (configured_irqs g - 8 * k)) v"
    using s(5,6) unfolding num(1) by (intro bit_eqI) (auto simp: bit_simps)
  have w2: "w2 = w AND NOT v" using d(5,6) by (intro bit_eqI) (auto simp: bit_simps same)
  have a': "default_access off n g1 = default_access off n g" "default_access off n g2 = default_access off n g" for off
    using same_shape_simps [OF s(3)] same_shape_simps [OF d(3)] by (simp_all add: default_access_def)
  note rw = gicd_mmio_read_def gicd_mmio_write_def mmio_read_32_or_less_def mmio_write_32_or_less_def default_access_simps
    rs rc Let_def a'
  show ?thesis
    using assms(2-4) same_shape_simps [OF s(3)] same_shape_simps [OF d(3)] w1 w2 same s(1,2,4) d(1,2,4)
    by (intro exI [of _ w] exI [of _ g1] exI [of _ g2]) (simp add: rw)
qed

theorem gicd_enable_set_clear_witness:
  "\<exists>w g1. gicd_mmio_read 0 0x104 4 0 (demo_gic demo40 (\<lambda>n. n = 40) 3) = Some (True, w) \<and>
     gicd_mmio_write 0 0x104 4 0x2ff (demo_gic demo40 (\<lambda>n. n = 40) 3) = Some (True, g1) \<and>
     gicd_mmio_read 0 0x104 4 0 g1 = Some (True, w OR 0x2ff)"
  using gicd_enable_set_clear [OF demo40_inv, of 0 4 4 0 "0x2ff"] by (auto simp: demo_gic_def take_bit_eq_mod)

end
