(* ===== verification/GuestMem.thy ===== *)
theory GuestMem
  imports Prelude
begin

text \<open>
  Memory shared with the guest, as the code reads and writes it through \<open>ForeignPtr\<close>
  (\<open>devices/virtio_base/include/model/foreign_ptr.hpp\<close>) and the little-endian accessors
  \<open>get_offset\<close> and \<open>set_offset\<close> of \<open>model/virtqueue.hpp\<close>: a byte for every 64-bit address, with
  the wrap-around of address arithmetic. The lemmas say what a load sees after a store: the
  value at the same place, and the old value where the two places are apart.
\<close>

type_synonym memory = "u64 \<Rightarrow> u8"

text \<open>The memory of the host with a state of its operating system, a parameter.\<close>

type_synonym 'x world = "memory \<times> 'x"

primrec load_le :: "nat \<Rightarrow> memory \<Rightarrow> u64 \<Rightarrow> u64" where
  "load_le 0 m p = 0"
| "load_le (Suc n) m p = ucast (m p) OR push_bit 8 (load_le n m (p + 1))"

primrec store_le :: "nat \<Rightarrow> u64 \<Rightarrow> u64 \<Rightarrow> memory \<Rightarrow> memory" where
  "store_le 0 p v m = m"
| "store_le (Suc n) p v m = store_le n (p + 1) (drop_bit 8 v) (m(p := ucast v))"

definition get_offset :: "memory \<Rightarrow> u64 \<Rightarrow> nat \<Rightarrow> 'a::len word" where
  "get_offset m fp off = ucast (load_le (LENGTH('a) div 8) m (fp + of_nat off))"

definition set_offset :: "u64 \<Rightarrow> nat \<Rightarrow> 'a::len word \<Rightarrow> memory \<Rightarrow> memory" where
  "set_offset fp off t m = store_le (LENGTH('a) div 8) (fp + of_nat off) (ucast t) m"

subsection \<open>Loads and stores\<close>

lemma unat_of_nat64: "n < 2 ^ 64 \<Longrightarrow> unat (of_nat n :: u64) = n"
  by (simp add: unsigned_of_nat take_bit_nat_eq_self)

lemma unat_minus_Suc: "a \<noteq> p \<Longrightarrow> unat (a - (p + 1)) = unat (a - p) - 1" for a p :: u64
proof -
  assume "a \<noteq> p"
  then have "1 \<le> a - p" using word_gt_0 [of "a - p"] inc_le [of 0 "a - p"] by simp
  then have "unat (a - p - 1) = unat (a - p) - unat (1 :: u64)" by (rule unat_minus_le)
  then show ?thesis by (simp add: algebra_simps)
qed

lemma store_le_at:
  "n \<le> 8 \<Longrightarrow> store_le n p v m a = (if unat (a - p) < n then ucast (drop_bit (8 * unat (a - p)) v) else m a)"
proof (induction n arbitrary: p v m)
  case 0
  then show ?case by simp
next
  case (Suc n)
  show ?case
  proof (cases "a = p")
    case True
    have "unat (a - (p + 1)) = unat (- 1 :: u64)" using True by simp
    then show ?thesis using Suc True by (simp add: unsigned_minus_1_eq_mask mask_eq_exp_minus_1)
  next
    case False
    then have "0 < unat (a - p)" by (simp add: unat_gt_0)
    then obtain k where k: "unat (a - p) = Suc k" by (cases "unat (a - p)") auto
    then show ?thesis using Suc False unat_minus_Suc [OF False] by (simp add: algebra_simps)
  qed
qed

lemma bit_load_le:
  "n \<le> 8 \<Longrightarrow> bit (load_le n m p) k \<longleftrightarrow> k < 8 * n \<and> bit (m (p + of_nat (k div 8))) (k mod 8)"
proof (induction n arbitrary: p k)
  case 0
  then show ?case by simp
next
  case (Suc n)
  show ?case
  proof (cases "k < 8")
    case True
    then show ?thesis using Suc.prems by (simp add: bit_simps)
  next
    case False
    then obtain j where j: "k = j + 8" using le_Suc_ex [of 8 k] by (auto simp: add.commute)
    have "bit (load_le n m (p + 1)) j \<longleftrightarrow> j < 8 * n \<and> bit (m (p + 1 + of_nat (j div 8))) (j mod 8)"
      using Suc by simp
    moreover have "p + 1 + of_nat (j div 8) = p + of_nat (k div 8)" by (simp add: j div_add_self2)
    moreover have "\<not> bit (m p) k" using False bit_imp_le_length [of "m p" k] by auto
    ultimately show ?thesis using Suc.prems by (auto simp: j bit_simps)
  qed
qed

lemma load_le_cong:
  "(\<And>i. i < n \<Longrightarrow> m (p + of_nat i) = m' (p + of_nat i)) \<Longrightarrow> load_le n m p = load_le n m' p"
proof (induction n arbitrary: p)
  case 0
  then show ?case by simp
next
  case (Suc n)
  have "m p = m' p" using Suc.prems [of 0] by simp
  moreover have "load_le n m (p + 1) = load_le n m' (p + 1)"
    using Suc.prems [of "Suc i" for i] by (intro Suc.IH) (simp add: algebra_simps)
  ultimately show ?case by simp
qed

lemma load_store_same: "n \<le> 8 \<Longrightarrow> load_le n (store_le n p v m) p = take_bit (8 * n) v"
proof (rule bit_eqI)
  fix k assume n: "n \<le> 8" and "possible_bit TYPE(u64) k"
  then have k: "k < 64" by simp
  then have u: "unat (of_nat (k div 8) :: u64) = k div 8" by (intro unat_of_nat64) simp
  have "8 * (k div 8) + k mod 8 = k" by simp
  then show "bit (load_le n (store_le n p v m) p) k \<longleftrightarrow> bit (take_bit (8 * n) v) k"
    using n k by (auto simp: bit_load_le store_le_at u bit_simps)
qed

subsection \<open>Areas\<close>

text \<open>The \<open>n\<close> bytes from \<open>p\<close> on, and two areas without a common byte.\<close>

definition in_area :: "u64 \<Rightarrow> nat \<Rightarrow> u64 \<Rightarrow> bool" where
  "in_area p n a \<longleftrightarrow> unat (a - p) < n"

definition apart :: "u64 \<Rightarrow> nat \<Rightarrow> u64 \<Rightarrow> nat \<Rightarrow> bool" where
  "apart p n q k \<longleftrightarrow> n \<le> unat (q - p) \<and> k \<le> unat (p - q)"

lemma apart_sym: "apart p n q k \<longleftrightarrow> apart q k p n"
  by (auto simp: apart_def)

lemma word_sub_wraps: "x < d \<Longrightarrow> - d \<le> x - d" for x d :: u64
  using unat_sub_if_size [of 0 d] by (simp add: word_le_nat_alt word_less_nat_alt unat_sub_if_size word_size split: if_splits)

lemma apart_no_common: "apart p n q k \<Longrightarrow> in_area p n a \<Longrightarrow> \<not> in_area q k a"
proof
  assume ap: "apart p n q k" and a: "in_area p n a" "in_area q k a"
  have "unat (a - p) < unat (q - p)" "unat (a - q) < unat (p - q)" using ap a by (auto simp: apart_def in_area_def)
  then have 1: "a - p < q - p" and 2: "a - q < p - q" by (simp_all add: word_less_nat_alt)
  show False using word_sub_wraps [OF 1] 2 by simp
qed

lemma in_area_sub:
  assumes "in_area (p + of_nat i) n' a" "i + n' \<le> n" "n \<le> 2 ^ 64"
  shows "in_area p n a"
proof -
  let ?t = "unat (a - (p + of_nat i))"
  have t: "?t < n'" using assms(1) by (simp add: in_area_def)
  have "a - p = of_nat (i + ?t)" by (simp add: algebra_simps)
  moreover have "unat (of_nat (i + ?t) :: u64) = i + ?t" using t assms(2,3) by (intro unat_of_nat64) simp
  ultimately show ?thesis using t assms(2) by (simp add: in_area_def)
qed

lemma in_area_offset:
  assumes "in_area (p + of_nat i) n a" "in_area (p + of_nat j) k a" "i + n \<le> 2 ^ 64" "j + k \<le> 2 ^ 64"
  shows "i < j + k \<and> j < i + n"
proof -
  define t where "t = unat (a - (p + of_nat i))"
  define u where "u = unat (a - (p + of_nat j))"
  have b: "t < n" "u < k" using assms(1,2) by (simp_all add: in_area_def t_def u_def)
  have "of_nat (i + t) = (of_nat (j + u) :: u64)" by (simp add: t_def u_def algebra_simps)
  then have "unat (of_nat (i + t) :: u64) = unat (of_nat (j + u) :: u64)" by simp
  moreover have "i + t < 2 ^ 64" "j + u < 2 ^ 64" using b assms(3,4) by simp_all
  ultimately have "i + t = j + u" by (simp only: unat_of_nat64)
  then show ?thesis using b by linarith
qed

lemma load_store_other:
  assumes "\<And>a. in_area q k a \<Longrightarrow> \<not> in_area p n a" "n \<le> 8" "k \<le> 8"
  shows "load_le k (store_le n p v m) q = load_le k m q"
proof (rule load_le_cong)
  fix i assume i: "i < k"
  have "in_area q k (q + of_nat i)" using i assms(3) by (simp add: in_area_def unat_of_nat64)
  then have "\<not> in_area p n (q + of_nat i)" by (rule assms(1))
  then show "store_le n p v m (q + of_nat i) = m (q + of_nat i)" using assms(2) by (simp add: store_le_at in_area_def)
qed

subsection \<open>Fields\<close>

lemma get_set_same:
  assumes "LENGTH('a) \<in> {8, 16, 32, 64}"
  shows "get_offset (set_offset p i (v :: 'a::len word) m) p i = v"
proof -
  have l: "LENGTH('a) div 8 \<le> 8" "8 * (LENGTH('a) div 8) = LENGTH('a)" "LENGTH('a) \<le> 64" using assms by auto
  then show ?thesis
    by (simp add: get_offset_def set_offset_def load_store_same) (rule bit_eqI, auto simp: bit_simps)
qed

lemma get_offset_16:
  "get_offset m p i = (ucast (m (p + of_nat i)) OR push_bit 8 (ucast (m (p + of_nat i + 1))) :: u16)"
  by (rule bit_eqI) (auto simp: get_offset_def bit_simps numeral_2_eq_2)

lemma load_le_4:
  "load_le 4 m p = ucast (m p) OR push_bit 8 (ucast (m (p + 1)) OR push_bit 8 (ucast (m (p + 2)) OR push_bit 8 (ucast (m (p + 3)))))"
proof -
  have "load_le (Suc (Suc (Suc (Suc 0)))) m p = ucast (m p) OR push_bit 8 (ucast (m (p + 1)) OR
      push_bit 8 (ucast (m (p + 1 + 1)) OR push_bit 8 (ucast (m (p + 1 + 1 + 1)))))" by simp
  then show ?thesis by (simp add: numeral_eq_Suc add.assoc)
qed

text \<open>The size of a field in bytes, and a store that does not reach it.\<close>

lemma get_set_other:
  assumes "\<And>a. in_area (q + of_nat j) (LENGTH('b) div 8) a \<Longrightarrow> \<not> in_area (p + of_nat i) (LENGTH('a) div 8) a"
    and "LENGTH('a) \<le> 64" "LENGTH('b) \<le> 64"
  shows "get_offset (set_offset p i (v :: 'a::len word) m) q j = (get_offset m q j :: 'b::len word)"
  using assms by (simp add: get_offset_def set_offset_def load_store_other)

lemma get_set_offset:
  assumes "i + LENGTH('a) div 8 \<le> j \<or> j + LENGTH('b) div 8 \<le> i" "i \<le> 2 ^ 32" "j \<le> 2 ^ 32"
    and "LENGTH('a) \<le> 64" "LENGTH('b) \<le> 64"
  shows "get_offset (set_offset p i (v :: 'a::len word) m) p j = (get_offset m p j :: 'b::len word)"
proof (rule get_set_other)
  fix a assume a: "in_area (p + of_nat j) (LENGTH('b) div 8) a"
  show "\<not> in_area (p + of_nat i) (LENGTH('a) div 8) a"
  proof
    assume "in_area (p + of_nat i) (LENGTH('a) div 8) a"
    moreover have "LENGTH('a) div 8 \<le> 8" "LENGTH('b) div 8 \<le> 8" using assms(4,5) by auto
    ultimately have "j < i + LENGTH('a) div 8 \<and> i < j + LENGTH('b) div 8"
      using a assms(2,3) by (intro in_area_offset [where a = a and p = p]) auto
    then show False using assms(1) by linarith
  qed
qed (use assms in auto)

lemma get_set_apart:
  assumes "apart p n q k" "i + LENGTH('a) div 8 \<le> n" "j + LENGTH('b) div 8 \<le> k" "n \<le> 2 ^ 32" "k \<le> 2 ^ 32"
    and "LENGTH('a) \<le> 64" "LENGTH('b) \<le> 64"
  shows "get_offset (set_offset p i (v :: 'a::len word) m) q j = (get_offset m q j :: 'b::len word)"
proof (rule get_set_other)
  fix a assume "in_area (q + of_nat j) (LENGTH('b) div 8) a"
  then have "in_area q k a" by (rule in_area_sub) (use assms in auto)
  then have "\<not> in_area p n a" using apart_no_common assms(1) by blast
  then show "\<not> in_area (p + of_nat i) (LENGTH('a) div 8) a"
    using in_area_sub [of p i "LENGTH('a) div 8" a n] assms by auto
qed (use assms in auto)

text \<open>Which bytes a store may change.\<close>

lemma set_offset_frame:
  "LENGTH('a) \<le> 64 \<Longrightarrow> \<not> in_area (p + of_nat i) (LENGTH('a) div 8) a \<Longrightarrow> set_offset p i (v :: 'a::len word) m a = m a"
  by (simp add: set_offset_def store_le_at in_area_def)

lemma set_offset_frame_area:
  assumes "\<not> in_area p n a" "i + LENGTH('a) div 8 \<le> n" "n \<le> 2 ^ 64" "LENGTH('a) \<le> 64"
  shows "set_offset p i (v :: 'a::len word) m a = m a"
  using assms in_area_sub [of p i "LENGTH('a) div 8" a n] by (intro set_offset_frame) auto

end
