(* ===== verification/Virtqueue.thy ===== *)
theory Virtqueue
  imports GuestMem
begin

text \<open>
  The split virtqueue (\<open>devices/virtio_base/include/model/virtqueue.hpp\<close> and
  \<open>devices/virtio_base/src/virtqueue.cpp\<close>): descriptors, the available and the used ring in memory
  shared with the guest, and the two ends, \<open>DeviceQueue\<close> and \<open>DriverQueue\<close>. The indices are 16-bit
  counters that run freely and wrap; the place in a ring is the counter modulo the size of the
  queue. An operation takes the shared memory and the queue object and returns both; the memory
  barriers of the code have no effect on one memory. A queue object without memory has size 0, and
  the remainder by its size is the division by zero that aborts.

  The theorems: the two ends over one memory behave as two first-in first-out queues, whatever the
  number of turns of the counters; the device end stays inside its areas whatever the memory holds;
  when the device notifies; and what the creation of a driver queue allocates and gives back.
\<close>

abbreviation VIRTQ_AVAIL_NO_INTERRUPT :: u16 where "VIRTQ_AVAIL_NO_INTERRUPT \<equiv> 0x1"
abbreviation VIRTQ_DESC_CONT_NEXT :: u16 where "VIRTQ_DESC_CONT_NEXT \<equiv> 0x1"
abbreviation VIRTQ_DESC_WRITE_ONLY :: u16 where "VIRTQ_DESC_WRITE_ONLY \<equiv> 0x2"
abbreviation VIRTQ_USED_NO_NOTIFY :: u16 where "VIRTQ_USED_NO_NOTIFY \<equiv> 0x1"

subsection \<open>Descriptors\<close>

record descriptor =
  d_p :: u64
  d_idx :: u16

definition null_desc :: descriptor where
  "null_desc = \<lparr>d_p = 0, d_idx = 0xffff\<rparr>"

definition desc_is_null :: "descriptor \<Rightarrow> bool" where
  "desc_is_null d \<longleftrightarrow> d_idx d = 0xffff"

abbreviation DESC_ENTRY_BYTES :: nat where "DESC_ENTRY_BYTES \<equiv> 16"

definition desc_at :: "u64 \<Rightarrow> u16 \<Rightarrow> descriptor" where
  "desc_at base i = \<lparr>d_p = base + of_nat (unat i * DESC_ENTRY_BYTES), d_idx = i\<rparr>"

definition desc_region_bytes :: "u16 \<Rightarrow> nat" where
  "desc_region_bytes n = unat n * DESC_ENTRY_BYTES"

definition desc_address :: "memory \<Rightarrow> descriptor \<Rightarrow> u64" where "desc_address m d = get_offset m (d_p d) 0"
definition desc_length :: "memory \<Rightarrow> descriptor \<Rightarrow> u32" where "desc_length m d = get_offset m (d_p d) 8"
definition desc_flags :: "memory \<Rightarrow> descriptor \<Rightarrow> u16" where "desc_flags m d = get_offset m (d_p d) 12"
definition desc_next :: "memory \<Rightarrow> descriptor \<Rightarrow> u16" where "desc_next m d = get_offset m (d_p d) 14"

definition desc_set_address :: "descriptor \<Rightarrow> u64 \<Rightarrow> memory \<Rightarrow> memory" where "desc_set_address d = set_offset (d_p d) 0"
definition desc_set_length :: "descriptor \<Rightarrow> u32 \<Rightarrow> memory \<Rightarrow> memory" where "desc_set_length d = set_offset (d_p d) 8"
definition desc_set_flags :: "descriptor \<Rightarrow> u16 \<Rightarrow> memory \<Rightarrow> memory" where "desc_set_flags d = set_offset (d_p d) 12"
definition desc_set_next :: "descriptor \<Rightarrow> u16 \<Rightarrow> memory \<Rightarrow> memory" where "desc_set_next d = set_offset (d_p d) 14"

subsection \<open>The two rings\<close>

text \<open>\<open>Available\<close> and \<open>Used\<close>: the address of the area and the size it was made with.\<close>

record vring =
  rg_p :: u64
  rg_size :: u16

definition avail_region_bytes :: "u16 \<Rightarrow> nat" where "avail_region_bytes n = 4 + unat n * 2 + 2"
definition avail_flags :: "memory \<Rightarrow> vring \<Rightarrow> u16" where "avail_flags m r = get_offset m (rg_p r) 0"
definition avail_index :: "memory \<Rightarrow> vring \<Rightarrow> u16" where "avail_index m r = get_offset m (rg_p r) 2"
definition avail_ring :: "memory \<Rightarrow> vring \<Rightarrow> nat \<Rightarrow> u16" where "avail_ring m r i = get_offset m (rg_p r) (4 + 2 * i)"
definition avail_avail_event :: "memory \<Rightarrow> vring \<Rightarrow> u16" where
  "avail_avail_event m r = get_offset m (rg_p r) (4 + 2 * unat (rg_size r))"
definition avail_set_flags :: "vring \<Rightarrow> u16 \<Rightarrow> memory \<Rightarrow> memory" where "avail_set_flags r = set_offset (rg_p r) 0"
definition avail_set_index :: "vring \<Rightarrow> u16 \<Rightarrow> memory \<Rightarrow> memory" where "avail_set_index r = set_offset (rg_p r) 2"
definition avail_set_ring :: "vring \<Rightarrow> nat \<Rightarrow> u16 \<Rightarrow> memory \<Rightarrow> memory" where
  "avail_set_ring r i = set_offset (rg_p r) (4 + 2 * i)"
definition avail_set_avail_event :: "vring \<Rightarrow> u16 \<Rightarrow> memory \<Rightarrow> memory" where
  "avail_set_avail_event r = set_offset (rg_p r) (4 + 2 * unat (rg_size r))"

definition used_region_bytes :: "u16 \<Rightarrow> nat" where "used_region_bytes n = 4 + unat n * 8 + 2"
definition used_flags :: "memory \<Rightarrow> vring \<Rightarrow> u16" where "used_flags m r = get_offset m (rg_p r) 0"
definition used_index :: "memory \<Rightarrow> vring \<Rightarrow> u16" where "used_index m r = get_offset m (rg_p r) 2"
definition used_avail_event :: "memory \<Rightarrow> vring \<Rightarrow> u16" where
  "used_avail_event m r = get_offset m (rg_p r) (4 + 8 * unat (rg_size r))"
definition used_set_flags :: "vring \<Rightarrow> u16 \<Rightarrow> memory \<Rightarrow> memory" where "used_set_flags r = set_offset (rg_p r) 0"
definition used_set_index :: "vring \<Rightarrow> u16 \<Rightarrow> memory \<Rightarrow> memory" where "used_set_index r = set_offset (rg_p r) 2"
definition used_set_avail_event :: "vring \<Rightarrow> u16 \<Rightarrow> memory \<Rightarrow> memory" where
  "used_set_avail_event r = set_offset (rg_p r) (4 + 8 * unat (rg_size r))"

text \<open>\<open>UsedEntry\<close>: a place of the used ring, with the index of a chain and the length written.\<close>

definition used_ring :: "vring \<Rightarrow> nat \<Rightarrow> u64" where "used_ring r i = rg_p r + of_nat (4 + 8 * i)"
definition entry_id :: "memory \<Rightarrow> u64 \<Rightarrow> u32" where "entry_id m e = get_offset m e 0"
definition entry_length :: "memory \<Rightarrow> u64 \<Rightarrow> u32" where "entry_length m e = get_offset m e 4"
definition entry_set_id :: "u64 \<Rightarrow> u32 \<Rightarrow> memory \<Rightarrow> memory" where "entry_set_id e = set_offset e 0"
definition entry_set_length :: "u64 \<Rightarrow> u32 \<Rightarrow> memory \<Rightarrow> memory" where "entry_set_length e = set_offset e 4"

definition used_set_ring :: "vring \<Rightarrow> nat \<Rightarrow> u32 \<Rightarrow> u32 \<Rightarrow> memory \<Rightarrow> memory" where
  "used_set_ring r i n len m = (let e = used_ring r i in entry_set_length e len (entry_set_id e n m))"

subsection \<open>The queue object\<close>

record vqueue =
  descriptor_base :: u64
  available_base :: u64
  used_base :: u64
  available :: vring
  used :: vring
  vq_size :: u16
  vq_idx :: u16
  vq_prev :: u16
  driven_idx :: u16

definition is_size_valid :: "u16 \<Rightarrow> bool" where
  "is_size_valid sz \<longleftrightarrow> sz \<noteq> 0 \<and> sz \<le> 32768 \<and> sz AND (sz - 1) = 0"

definition queue_new :: "u64 \<Rightarrow> u64 \<Rightarrow> u64 \<Rightarrow> u16 \<Rightarrow> vqueue option" where
  "queue_new d a u sz = do {
     ASSERT (d \<noteq> 0);
     ASSERT (a \<noteq> 0);
     ASSERT (u \<noteq> 0);
     ASSERT (is_size_valid sz);
     Some \<lparr>descriptor_base = d, available_base = a, used_base = u, available = \<lparr>rg_p = a, rg_size = sz\<rparr>,
           used = \<lparr>rg_p = u, rg_size = sz\<rparr>, vq_size = sz, vq_idx = 0, vq_prev = 0, driven_idx = 0\<rparr>
   }"

definition queue_none :: vqueue where
  "queue_none = \<lparr>descriptor_base = 0, available_base = 0, used_base = 0, available = \<lparr>rg_p = 0, rg_size = 0\<rparr>,
     used = \<lparr>rg_p = 0, rg_size = 0\<rparr>, vq_size = 0, vq_idx = 0, vq_prev = 0, driven_idx = 0\<rparr>"

definition count_available :: "vqueue \<Rightarrow> u16 \<Rightarrow> u16" where
  "count_available q idx = (if vq_idx q \<le> idx then idx - vq_idx q else (0xffff - vq_idx q) + 1 + idx)"

definition count_free :: "vqueue \<Rightarrow> u16 \<Rightarrow> u16" where
  "count_free q idx = vq_size q - count_available q idx"

text \<open>The place of a counter in a ring.\<close>

definition ring_slot :: "vqueue \<Rightarrow> u16 \<Rightarrow> nat option" where
  "ring_slot q i = do { ASSERT (vq_size q \<noteq> 0); Some (unat i mod unat (vq_size q)) }"

text \<open>
  \<open>next_in_chain\<close>: the result, the flags, whether there is a next descriptor, and what becomes of
  the caller's \<open>next\<close> and \<open>next_desc\<close>.
\<close>

definition next_in_chain :: "memory \<Rightarrow> vqueue \<Rightarrow> descriptor \<Rightarrow> u16 \<Rightarrow> descriptor \<Rightarrow> Errno \<times> u16 \<times> bool \<times> u16 \<times> descriptor" where
  "next_in_chain m q d nxt nd =
     (let flags = desc_flags m d in
      if flags AND VIRTQ_DESC_CONT_NEXT \<noteq> 0
      then let nxt = desc_next m d in
           if vq_size q \<le> nxt then (NOTRECOVERABLE, flags, True, nxt, nd)
           else (NONE, flags, True, nxt, desc_at (descriptor_base q) nxt)
      else (NONE, flags, False, nxt, nd))"

subsection \<open>The device end\<close>

definition bump_driven_idx :: "vqueue \<Rightarrow> vqueue" where
  "bump_driven_idx q = q\<lparr>vq_prev := driven_idx q, driven_idx := driven_idx q + 1\<rparr>"

definition dev_send :: "descriptor \<Rightarrow> u32 \<Rightarrow> memory \<times> vqueue \<Rightarrow> (memory \<times> vqueue) option" where
  "dev_send d len s = (case s of (m, q) \<Rightarrow> do {
     let q = bump_driven_idx q;
     i \<leftarrow> ring_slot q (vq_prev q);
     let m = used_set_ring (used q) i (ucast (d_idx d)) len m;
     let m = used_set_index (used q) (driven_idx q) m;
     Some (m, q)
   })"

definition dev_recv :: "memory \<times> vqueue \<Rightarrow> (Errno \<times> descriptor option \<times> memory \<times> vqueue) option" where
  "dev_recv s = (case s of (m, q) \<Rightarrow>
     let avail_idx = avail_index m (available q) in
     if count_available q avail_idx = 0 then Some (NOENT, None, m, q)
     else do {
       let m = used_set_avail_event (used q) avail_idx m;
       i \<leftarrow> ring_slot q (vq_idx q);
       let ring_idx = avail_ring m (available q) i;
       let q = q\<lparr>vq_idx := vq_idx q + 1\<rparr>;
       if vq_size q \<le> ring_idx then Some (NOTRECOVERABLE, None, m, q)
       else Some (NONE, Some (desc_at (descriptor_base q) ring_idx), m, q)
     })"

definition dev_get_available :: "memory \<Rightarrow> vqueue \<Rightarrow> u16" where
  "dev_get_available m q = count_available q (avail_index m (available q))"

definition dev_get_free :: "memory \<Rightarrow> vqueue \<Rightarrow> u16" where
  "dev_get_free m q = count_free q (avail_index m (available q))"

definition used_event_notify :: "memory \<Rightarrow> vqueue \<Rightarrow> bool" where
  "used_event_notify m q \<longleftrightarrow>
     driven_idx q - avail_avail_event m (available q) - 1 < driven_idx q - vq_prev q"

definition interrupts_disabled :: "memory \<Rightarrow> vqueue \<Rightarrow> bool" where
  "interrupts_disabled m q \<longleftrightarrow> avail_flags m (available q) AND VIRTQ_AVAIL_NO_INTERRUPT \<noteq> 0"

definition enable_notifications :: "vqueue \<Rightarrow> memory \<Rightarrow> memory" where
  "enable_notifications q m = used_set_flags (used q) 0 m"

definition disable_notifications :: "vqueue \<Rightarrow> memory \<Rightarrow> memory" where
  "disable_notifications q m = used_set_flags (used q) (used_flags m (used q) OR VIRTQ_USED_NO_NOTIFY) m"

subsection \<open>The driver end\<close>

definition initialize_descriptor :: "vqueue \<Rightarrow> u16 \<Rightarrow> descriptor" where
  "initialize_descriptor q i = desc_at (descriptor_base q) i"

definition drv_send :: "descriptor \<Rightarrow> u32 \<Rightarrow> memory \<times> vqueue \<Rightarrow> (memory \<times> vqueue) option" where
  "drv_send d len s = (case s of (m, q) \<Rightarrow> do {
     let q = q\<lparr>vq_prev := driven_idx q, driven_idx := driven_idx q + 1\<rparr>;
     i \<leftarrow> ring_slot q (vq_prev q);
     let m = avail_set_ring (available q) i (d_idx d) m;
     let m = avail_set_index (available q) (driven_idx q) m;
     Some (m, q)
   })"

definition drv_recv :: "memory \<times> vqueue \<Rightarrow> (Errno \<times> descriptor option \<times> memory \<times> vqueue) option" where
  "drv_recv s = (case s of (m, q) \<Rightarrow>
     let used_idx = used_index m (used q) in
     if count_available q used_idx = 0 then Some (NOENT, None, m, q)
     else do {
       let m = avail_set_avail_event (available q) used_idx m;
       i \<leftarrow> ring_slot q (vq_idx q);
       let q = q\<lparr>vq_idx := vq_idx q + 1\<rparr>;
       let desc_idx = ucast (entry_id m (used_ring (used q) i) mod ucast (vq_size q));
       Some (NONE, Some (desc_at (descriptor_base q) desc_idx), m, q)
     })"

definition drv_get_available :: "memory \<Rightarrow> vqueue \<Rightarrow> u16" where
  "drv_get_available m q = count_available q (used_index m (used q))"

definition drv_get_free :: "memory \<Rightarrow> vqueue \<Rightarrow> u16" where
  "drv_get_free m q = count_free q (used_index m (used q))"

definition notifications_disabled :: "memory \<Rightarrow> vqueue \<Rightarrow> bool" where
  "notifications_disabled m q \<longleftrightarrow> used_flags m (used q) AND VIRTQ_USED_NO_NOTIFY \<noteq> 0"

definition enable_interrupts :: "vqueue \<Rightarrow> memory \<Rightarrow> memory" where
  "enable_interrupts q m = avail_set_flags (available q) 0 m"

definition disable_interrupts :: "vqueue \<Rightarrow> memory \<Rightarrow> memory" where
  "disable_interrupts q m = avail_set_flags (available q) (avail_flags m (available q) OR VIRTQ_AVAIL_NO_INTERRUPT) m"

subsection \<open>Creation of a driver queue\<close>

text \<open>
  The allocator of the host is a parameter: \<open>new8\<close> takes a size and the state of the heap and gives
  an address, 0 when there is no memory, and \<open>free8\<close> is \<open>delete[]\<close>.
\<close>

definition zero_fill :: "u64 \<Rightarrow> nat \<Rightarrow> memory \<Rightarrow> memory" where
  "zero_fill p n m = (\<lambda>a. if in_area p n a then 0 else m a)"

definition allocz :: "(nat \<Rightarrow> 'h \<Rightarrow> u64 \<times> 'h) \<Rightarrow> nat \<Rightarrow> memory \<times> 'h \<Rightarrow> u64 \<times> memory \<times> 'h" where
  "allocz new8 sz s = (case s of (m, h) \<Rightarrow>
     let alloc_sz = unat (align_up (of_nat sz) 4096); (p, h) = new8 alloc_sz h in
     if p = 0 then (0, m, h) else (p, zero_fill p alloc_sz m, h))"

definition create_driver_queue ::
    "(nat \<Rightarrow> 'h \<Rightarrow> u64 \<times> 'h) \<Rightarrow> (u64 \<Rightarrow> 'h \<Rightarrow> 'h) \<Rightarrow> u16 \<Rightarrow> vqueue \<Rightarrow> memory \<times> 'h \<Rightarrow>
     (Errno \<times> vqueue \<times> memory \<times> 'h) option" where
  "create_driver_queue new8 free8 n out s =
     (if \<not> is_size_valid n then Some (INVAL, out, s)
      else let (desc, s) = allocz new8 (desc_region_bytes n) s in
      if desc = 0 then Some (NOMEM, out, s)
      else let (avail, s) = allocz new8 (avail_region_bytes n) s in
      if avail = 0 then Some (NOMEM, out, fst s, free8 desc (snd s))
      else let (used, s) = allocz new8 (used_region_bytes n) s in
      if used = 0 then Some (NOMEM, out, fst s, free8 desc (free8 avail (snd s)))
      else do { q \<leftarrow> queue_new desc avail used n; Some (NONE, q, s) })"

definition delete_driver_queue :: "(u64 \<Rightarrow> 'h \<Rightarrow> 'h) \<Rightarrow> vqueue \<Rightarrow> 'h \<Rightarrow> 'h" where
  "delete_driver_queue free8 q h = free8 (used_base q) (free8 (available_base q) (free8 (descriptor_base q) h))"

subsection \<open>Counters and sizes\<close>

lemma size_valid_power:
  assumes "is_size_valid sz"
  obtains k where "k \<le> 15" "unat sz = 2 ^ k"
proof -
  have nz: "sz \<noteq> 0" and le: "unat sz \<le> 32768" and a: "sz AND (sz - 1) = 0"
    using assms by (auto simp: is_size_valid_def word_le_nat_alt)
  then have "1 \<le> unat sz" by (simp add: Suc_le_eq unat_gt_0)
  then obtain k where k: "2 ^ k \<le> unat sz" "unat sz < 2 ^ (k + 1)" using ex_power_ivl1 [of 2 "unat sz"] by auto
  have k15: "k \<le> 15"
  proof (rule ccontr)
    assume "\<not> k \<le> 15"
    then have "(2 :: nat) ^ 16 \<le> 2 ^ k" by (intro power_increasing) auto
    then show False using k(1) le by simp
  qed
  have high: "bit w k" if "2 ^ k \<le> unat w" "unat w < 2 ^ (k + 1)" for w :: u16
  proof -
    have "unat w div 2 ^ k = 1" using that by (intro div_nat_eqI) auto
    then have "bit (unat w) k" by (simp add: bit_iff_odd)
    then show ?thesis by (simp add: bit_unsigned_iff)
  qed
  have "unat sz = 2 ^ k"
  proof (rule ccontr)
    assume "unat sz \<noteq> 2 ^ k"
    moreover have "unat (sz - 1) = unat sz - 1" using nz by (simp add: unat_minus_one)
    ultimately have "bit sz k" "bit (sz - 1) k" using k by (auto intro!: high)
    then have "bit (sz AND (sz - 1)) k" by (simp add: bit_and_iff)
    then show False using a by simp
  qed
  then show ?thesis using that k15 by blast
qed

lemma size_valid_facts:
  assumes "is_size_valid sz"
  shows "0 < unat sz" "unat sz \<le> 32768" "sz \<noteq> 0" "unat sz dvd 2 ^ 16"
proof -
  obtain k where k: "k \<le> 15" "unat sz = 2 ^ k" using assms by (rule size_valid_power)
  then show "0 < unat sz" by simp
  have "(2 :: nat) ^ k dvd 2 ^ 16" using k(1) by (intro le_imp_power_dvd) simp
  then show "unat sz dvd 2 ^ 16" using k(2) by simp
qed (use assms in \<open>auto simp: is_size_valid_def word_le_nat_alt\<close>)

lemma counter_mod:
  assumes "n dvd 2 ^ 16"
  shows "unat (a + of_nat k :: u16) mod n = (unat a + k) mod n"
proof -
  have "unat (a + of_nat k) = (unat a + k) mod 2 ^ 16"
    by (simp add: unat_word_ariths unsigned_of_nat take_bit_eq_mod mod_simps)
  then show ?thesis using assms by (simp add: mod_mod_cancel)
qed

lemma count_available_diff: "count_available q idx = idx - vq_idx q"
  by (simp add: count_available_def)

lemma ring_slot_valid: "is_size_valid (vq_size q) \<Longrightarrow> ring_slot q i = Some (unat i mod unat (vq_size q))"
  by (simp add: ring_slot_def is_size_valid_def)

lemma mod_add_same: "(a + j) mod n = (a + k) mod n \<longleftrightarrow> j = k" if "j < n" "k < n" for a j k n :: nat
  using that
proof (induction j k rule: linorder_wlog)
  case (le j k)
  have "j = k" if "(a + k) mod n = (a + j) mod n"
  proof -
    have "n dvd (a + k) - (a + j)" using that le(1) by (simp add: mod_eq_dvd_iff_nat)
    then have "n dvd k - j" by simp
    then show ?thesis using le by (metis diff_is_0_eq dvd_imp_le le_antisym less_imp_diff_less not_le zero_less_diff)
  qed
  then show ?case by metis
next
  case (sym j k)
  then show ?case by metis
qed

text \<open>The entries of a ring of \<open>n\<close> places from the counter \<open>lo\<close> on.\<close>

definition ring_content :: "(nat \<Rightarrow> 'a) \<Rightarrow> nat \<Rightarrow> u16 \<Rightarrow> 'a list \<Rightarrow> bool" where
  "ring_content get n lo xs \<longleftrightarrow> length xs \<le> n \<and> (\<forall>k < length xs. get ((unat lo + k) mod n) = xs ! k)"

lemma ring_content_push:
  assumes "ring_content get n lo xs" "length xs < n" "n dvd 2 ^ 16"
    and "\<And>i. i < n \<Longrightarrow> get' i = (if i = unat (lo + of_nat (length xs)) mod n then x else get i)"
  shows "ring_content get' n lo (xs @ [x])"
  unfolding ring_content_def
proof (intro conjI allI impI)
  fix k assume k: "k < length (xs @ [x])"
  have n: "0 < n" using assms(2) by simp
  have e: "(unat lo + k) mod n = (unat lo + length xs) mod n \<longleftrightarrow> k = length xs"
    by (rule mod_add_same) (use k assms(2) in auto)
  show "get' ((unat lo + k) mod n) = (xs @ [x]) ! k"
    using assms(1,4) k n e by (auto simp: ring_content_def counter_mod [OF assms(3)] nth_append)
qed (use assms(2) in simp)

lemma ring_content_pop:
  assumes "ring_content get n lo (x # xs)" "n dvd 2 ^ 16"
  shows "get (unat lo mod n) = x" "ring_content get n (lo + 1) xs"
proof -
  show "get (unat lo mod n) = x" using assms(1) by (auto simp: ring_content_def)
  have "get ((unat (lo + 1) + k) mod n) = xs ! k" if "k < length xs" for k
  proof -
    have "(unat (lo + 1) + k) mod n = (unat lo + Suc k) mod n"
      using mod_add_left_eq [of "unat (lo + 1)" n k] mod_add_left_eq [of "unat lo + 1" n k] counter_mod [OF assms(2), of lo 1]
      by simp
    then show ?thesis using assms(1) that by (simp add: ring_content_def del: add_Suc_right)
  qed
  then show "ring_content get n (lo + 1) xs" using assms(1) by (simp add: ring_content_def)
qed

subsection \<open>Reads after writes\<close>

text \<open>The two rings of a queue of size \<open>n\<close>, in areas without a common byte.\<close>

definition rings_ok :: "u16 \<Rightarrow> vring \<Rightarrow> vring \<Rightarrow> bool" where
  "rings_ok n r u \<longleftrightarrow> unat n \<le> 32768 \<and> rg_size r = n \<and> rg_size u = n \<and>
     apart (rg_p r) (avail_region_bytes n) (rg_p u) (used_region_bytes n)"

lemma entry_offset:
  "entry_id m (used_ring r i) = get_offset m (rg_p r) (4 + 8 * i)"
  "entry_length m (used_ring r i) = get_offset m (rg_p r) (8 + 8 * i)"
  "entry_set_id (used_ring r i) k = set_offset (rg_p r) (4 + 8 * i) k"
  "entry_set_length (used_ring r i) len = set_offset (rg_p r) (8 + 8 * i) len"
  by (simp_all add: entry_id_def entry_length_def entry_set_id_def entry_set_length_def used_ring_def get_offset_def
      set_offset_def fun_eq_iff algebra_simps)

lemmas avail_defs = avail_flags_def avail_index_def avail_ring_def avail_avail_event_def avail_set_flags_def avail_set_index_def
  avail_set_ring_def avail_set_avail_event_def

lemmas used_defs = used_flags_def used_index_def used_avail_event_def used_set_flags_def used_set_index_def
  used_set_avail_event_def used_set_ring_def Let_def entry_offset

lemma avail_after_avail:
  assumes "rings_ok n r u" "i < unat n" "j < unat n"
  shows "avail_index (avail_set_ring r i v m) r = avail_index m r"
    "avail_ring (avail_set_ring r i v m) r j = (if j = i then v else avail_ring m r j)"
    "avail_index (avail_set_index r v m) r = v" "avail_ring (avail_set_index r v m) r j = avail_ring m r j"
    "avail_index (avail_set_avail_event r v m) r = avail_index m r"
    "avail_ring (avail_set_avail_event r v m) r j = avail_ring m r j"
  using assms by (auto simp: rings_ok_def avail_defs get_set_same intro!: get_set_offset)

lemma used_after_used:
  assumes "rings_ok n r u" "i < unat n" "j < unat n"
  shows "used_index (used_set_ring u i k len m) u = used_index m u"
    "entry_id (used_set_ring u i k len m) (used_ring u j) = (if j = i then k else entry_id m (used_ring u j))"
    "used_index (used_set_index u v m) u = v" "entry_id (used_set_index u v m) (used_ring u j) = entry_id m (used_ring u j)"
    "used_index (used_set_avail_event u v m) u = used_index m u"
    "entry_id (used_set_avail_event u v m) (used_ring u j) = entry_id m (used_ring u j)"
  using assms by (auto simp: rings_ok_def used_defs get_set_same get_set_offset nat_neq_iff)

lemma used_after_avail:
  assumes "rings_ok n r u" "i < unat n" "j < unat n"
  shows "used_index (avail_set_ring r i v m) u = used_index m u"
    "entry_id (avail_set_ring r i v m) (used_ring u j) = entry_id m (used_ring u j)"
    "used_index (avail_set_index r v m) u = used_index m u"
    "entry_id (avail_set_index r v m) (used_ring u j) = entry_id m (used_ring u j)"
    "used_index (avail_set_avail_event r v m) u = used_index m u"
    "entry_id (avail_set_avail_event r v m) (used_ring u j) = entry_id m (used_ring u j)"
  using assms
  by (auto simp: rings_ok_def avail_defs used_defs avail_region_bytes_def used_region_bytes_def
      intro!: get_set_apart [where n = "avail_region_bytes n" and k = "used_region_bytes n"])

lemma avail_after_used:
  assumes "rings_ok n r u" "i < unat n" "j < unat n"
  shows "avail_index (used_set_ring u i k len m) r = avail_index m r"
    "avail_ring (used_set_ring u i k len m) r j = avail_ring m r j"
    "avail_index (used_set_index u v m) r = avail_index m r" "avail_ring (used_set_index u v m) r j = avail_ring m r j"
    "avail_index (used_set_avail_event u v m) r = avail_index m r"
    "avail_ring (used_set_avail_event u v m) r j = avail_ring m r j"
    "avail_avail_event (used_set_ring u i k len m) r = avail_avail_event m r"
    "avail_avail_event (used_set_index u v m) r = avail_avail_event m r"
proof -
  let ?n = "used_region_bytes n" and ?k = "avail_region_bytes n"
  have ap: "apart (rg_p u) ?n (rg_p r) ?k" and n: "unat n \<le> 32768" "rg_size r = n" "rg_size u = n"
    using assms(1) by (auto simp: rings_ok_def apart_sym)
  note other = get_set_apart [OF ap]
  show "avail_index (used_set_ring u i k len m) r = avail_index m r"
    "avail_ring (used_set_ring u i k len m) r j = avail_ring m r j"
    "avail_index (used_set_index u v m) r = avail_index m r" "avail_ring (used_set_index u v m) r j = avail_ring m r j"
    "avail_index (used_set_avail_event u v m) r = avail_index m r"
    "avail_ring (used_set_avail_event u v m) r j = avail_ring m r j"
    "avail_avail_event (used_set_ring u i k len m) r = avail_avail_event m r"
    "avail_avail_event (used_set_index u v m) r = avail_avail_event m r"
    using n assms(2,3) by (simp_all add: avail_defs used_defs other avail_region_bytes_def used_region_bytes_def)
qed

subsection \<open>The two ends as two queues\<close>

datatype vq_event = Driver_send u16 | Device_recv | Device_send u16 u32 | Driver_recv

text \<open>
  The specification: the chains made available and the chains given back, each in order. A step is
  allowed when the index exists and the queue it enters has room.
\<close>

type_synonym vq_fifos = "u16 list \<times> u16 list"

fun fifo_step :: "nat \<Rightarrow> vq_event \<Rightarrow> vq_fifos \<Rightarrow> ((Errno \<times> u16 option) \<times> vq_fifos) option" where
  "fifo_step n (Driver_send i) (as, us) =
     (if length as < n \<and> unat i < n then Some ((NONE, None), as @ [i], us) else None)"
| "fifo_step n Device_recv (as, us) =
     (case as of [] \<Rightarrow> Some ((NOENT, None), as, us) | a # as' \<Rightarrow> Some ((NONE, Some a), as', us))"
| "fifo_step n (Device_send i len) (as, us) =
     (if length us < n \<and> unat i < n then Some ((NONE, None), as, us @ [i]) else None)"
| "fifo_step n Driver_recv (as, us) =
     (case us of [] \<Rightarrow> Some ((NOENT, None), as, us) | u # us' \<Rightarrow> Some ((NONE, Some u), as, us'))"

text \<open>The same steps of the two ends over one memory.\<close>

type_synonym vq_system = "memory \<times> vqueue \<times> vqueue"

fun vq_step :: "vq_event \<Rightarrow> vq_system \<Rightarrow> ((Errno \<times> u16 option) \<times> vq_system) option" where
  "vq_step (Driver_send i) (m, dev, drv) = do {
     (m, drv) \<leftarrow> drv_send (initialize_descriptor drv i) 0 (m, drv);
     Some ((NONE, None), m, dev, drv)
   }"
| "vq_step Device_recv (m, dev, drv) = do {
     (err, d, m, dev) \<leftarrow> dev_recv (m, dev);
     Some ((err, map_option d_idx d), m, dev, drv)
   }"
| "vq_step (Device_send i len) (m, dev, drv) = do {
     (m, dev) \<leftarrow> dev_send (desc_at (descriptor_base dev) i) len (m, dev);
     Some ((NONE, None), m, dev, drv)
   }"
| "vq_step Driver_recv (m, dev, drv) = do {
     (err, d, m, drv) \<leftarrow> drv_recv (m, drv);
     Some ((err, map_option d_idx d), m, dev, drv)
   }"

fun run_steps :: "('e \<Rightarrow> 's \<Rightarrow> ('o \<times> 's) option) \<Rightarrow> 'e list \<Rightarrow> 's \<Rightarrow> ('o list \<times> 's) option" where
  "run_steps step [] s = Some ([], s)"
| "run_steps step (e # es) s = do { (x, s) \<leftarrow> step e s; (xs, s) \<leftarrow> run_steps step es s; Some (x # xs, s) }"

lemma run_steps_simulation:
  assumes "\<And>e s t x t'. R s t \<Longrightarrow> spec e t = Some (x, t') \<Longrightarrow> \<exists>s'. impl e s = Some (x, s') \<and> R s' t'"
  shows "R s t \<Longrightarrow> run_steps spec es t = Some (xs, t') \<Longrightarrow> \<exists>s'. run_steps impl es s = Some (xs, s') \<and> R s' t'"
proof (induction es arbitrary: s t xs)
  case Nil
  then show ?case by auto
next
  case (Cons e es)
  from Cons.prems(2) obtain x t1 ys where 1: "spec e t = Some (x, t1)" "run_steps spec es t1 = Some (ys, t')" "xs = x # ys"
    by (auto simp: bind_eq_Some_conv)
  obtain s1 where 2: "impl e s = Some (x, s1)" "R s1 t1" using assms [OF Cons.prems(1) 1(1)] by blast
  show ?case using Cons.IH [OF 2(2) 1(2)] 1(3) 2(1) by auto
qed

definition vq_wf :: "vqueue \<Rightarrow> bool" where
  "vq_wf q \<longleftrightarrow> is_size_valid (vq_size q) \<and> rings_ok (vq_size q) (available q) (used q)"

definition vq_rel :: "nat \<Rightarrow> vq_system \<Rightarrow> vq_fifos \<Rightarrow> bool" where
  "vq_rel n s f = (case s of (m, dev, drv) \<Rightarrow> case f of (as, us) \<Rightarrow>
     vq_wf dev \<and> n = unat (vq_size dev) \<and>
     available drv = available dev \<and> used drv = used dev \<and> vq_size drv = vq_size dev \<and> descriptor_base drv = descriptor_base dev \<and>
     avail_index m (available dev) = driven_idx drv \<and> driven_idx drv = vq_idx dev + of_nat (length as) \<and>
     ring_content (avail_ring m (available dev)) n (vq_idx dev) as \<and> (\<forall>i \<in> set as. unat i < n) \<and>
     used_index m (used dev) = driven_idx dev \<and> driven_idx dev = vq_idx drv + of_nat (length us) \<and>
     ring_content (\<lambda>i. entry_id m (used_ring (used dev) i)) n (vq_idx drv) (map ucast us) \<and> (\<forall>i \<in> set us. unat i < n))"

lemma ring_content_cong:
  "(\<And>i. i < n \<Longrightarrow> get' i = get i) \<Longrightarrow> 0 < n \<Longrightarrow> ring_content get' n lo xs = ring_content get n lo xs"
  by (simp add: ring_content_def)

lemma of_nat_16_eq_0: "n \<le> 32768 \<Longrightarrow> (of_nat n :: u16) = 0 \<longleftrightarrow> n = 0"
proof
  assume n: "n \<le> 32768" and "(of_nat n :: u16) = 0"
  then have "unat (of_nat n :: u16) = 0" by simp
  then show "n = 0" using n by (simp add: unsigned_of_nat take_bit_nat_eq_self del: unsigned_eq_0_iff)
qed simp

lemma drv_send_sim:
  assumes R: "vq_rel n (m, dev, drv) (as, us)" and len: "length as < n" and i: "unat i < n"
  shows "\<exists>m' drv'. drv_send (initialize_descriptor drv i) len' (m, drv) = Some (m', drv') \<and>
     vq_rel n (m', dev, drv') (as @ [i], us)"
proof -
  note d = R [unfolded vq_rel_def prod.case]
  have sz: "is_size_valid (vq_size dev)" and ok: "rings_ok (vq_size dev) (available dev) (used dev)"
      and n: "n = unat (vq_size dev)" using d by (auto simp: vq_wf_def)
  note f = size_valid_facts [OF sz]
  let ?s = "unat (driven_idx drv) mod n"
  let ?m1 = "avail_set_ring (available dev) ?s i m"
  let ?m = "avail_set_index (available dev) (driven_idx drv + 1) ?m1"
  have s: "?s < unat (vq_size dev)" using f(1) n by simp
  note upd = avail_after_avail [OF ok s] used_after_avail [OF ok s]
  have "drv_send (initialize_descriptor drv i) len' (m, drv) =
      Some (?m, drv\<lparr>vq_prev := driven_idx drv, driven_idx := driven_idx drv + 1\<rparr>)"
    using d f(3) n by (simp add: drv_send_def ring_slot_def initialize_descriptor_def desc_at_def)
  moreover have "ring_content (avail_ring ?m (available dev)) n (vq_idx dev) (as @ [i])"
    by (rule ring_content_push [OF _ len]) (use d f(4) n upd in \<open>auto simp: desc_at_def\<close>)
  moreover have "ring_content (\<lambda>i. entry_id ?m (used_ring (used dev) i)) n (vq_idx drv) (map ucast us)"
    using d f(1) n upd by (subst ring_content_cong [where get = "\<lambda>i. entry_id m (used_ring (used dev) i)"]) auto
  ultimately show ?thesis using d upd(3) [OF s] upd(7,9) [OF s] i by (auto simp: vq_rel_def)
qed

lemma dev_send_sim:
  assumes R: "vq_rel n (m, dev, drv) (as, us)" and len: "length us < n" and i: "unat i < n"
  shows "\<exists>m' dev'. dev_send (desc_at (descriptor_base dev) i) k (m, dev) = Some (m', dev') \<and>
     vq_rel n (m', dev', drv) (as, us @ [i])"
proof -
  note d = R [unfolded vq_rel_def prod.case]
  have sz: "is_size_valid (vq_size dev)" and ok: "rings_ok (vq_size dev) (available dev) (used dev)"
      and n: "n = unat (vq_size dev)" using d by (auto simp: vq_wf_def)
  note f = size_valid_facts [OF sz]
  let ?s = "unat (driven_idx dev) mod n"
  let ?m1 = "used_set_ring (used dev) ?s (ucast i) k m"
  let ?m = "used_set_index (used dev) (driven_idx dev + 1) ?m1"
  have s: "?s < unat (vq_size dev)" using f(1) n by simp
  note upd = used_after_used [OF ok s] avail_after_used [OF ok s]
  have "dev_send (desc_at (descriptor_base dev) i) k (m, dev) =
      Some (?m, dev\<lparr>vq_prev := driven_idx dev, driven_idx := driven_idx dev + 1\<rparr>)"
    using f(3) n by (simp add: dev_send_def ring_slot_def bump_driven_idx_def desc_at_def)
  moreover have "ring_content (\<lambda>i. entry_id ?m (used_ring (used dev) i)) n (vq_idx drv) (map ucast us @ [ucast i])"
    by (rule ring_content_push) (use d f(4) n upd len in auto)
  moreover have "ring_content (avail_ring ?m (available dev)) n (vq_idx dev) as"
    using d f(1) n upd by (subst ring_content_cong [where get = "avail_ring m (available dev)"]) auto
  ultimately show ?thesis using d upd(3) [OF s] upd(7,9) [OF s] i by (auto simp: vq_rel_def vq_wf_def)
qed

lemma dev_recv_sim:
  assumes R: "vq_rel n (m, dev, drv) (a # as, us)"
  shows "\<exists>m' dev'. dev_recv (m, dev) = Some (NONE, Some (desc_at (descriptor_base dev) a), m', dev') \<and>
     vq_rel n (m', dev', drv) (as, us)"
proof -
  note d = R [unfolded vq_rel_def prod.case]
  have sz: "is_size_valid (vq_size dev)" and ok: "rings_ok (vq_size dev) (available dev) (used dev)"
      and n: "n = unat (vq_size dev)" using d by (auto simp: vq_wf_def)
  note f = size_valid_facts [OF sz]
  let ?m = "used_set_avail_event (used dev) (avail_index m (available dev)) m"
  have s: "unat (vq_idx dev) mod n < unat (vq_size dev)" using f(1) n by simp
  note upd = used_after_used [OF ok s] avail_after_used [OF ok s]
  have l: "length as < n" using d by (auto simp: ring_content_def)
  have c: "count_available dev (avail_index m (available dev)) \<noteq> 0"
    using d of_nat_16_eq_0 [of "Suc (length as)"] l n f(2) by (simp add: count_available_diff)
  note pop = ring_content_pop [of "avail_ring m (available dev)" n "vq_idx dev" a as]
  have a: "avail_ring m (available dev) (unat (vq_idx dev) mod n) = a" using pop(1) d f(4) n by blast
  have "dev_recv (m, dev) = Some (NONE, Some (desc_at (descriptor_base dev) a), ?m, dev\<lparr>vq_idx := vq_idx dev + 1\<rparr>)"
    using c a f(3) d n upd(12) [OF s] s by (simp add: dev_recv_def Let_def ring_slot_def word_le_nat_alt)
  moreover have "ring_content (avail_ring ?m (available dev)) n (vq_idx dev + 1) as"
    using pop(2) d f(1,4) n upd by (subst ring_content_cong [where get = "avail_ring m (available dev)"]) auto
  moreover have "ring_content (\<lambda>i. entry_id ?m (used_ring (used dev) i)) n (vq_idx drv) (map ucast us)"
    using d f(1) n upd by (subst ring_content_cong [where get = "\<lambda>i. entry_id m (used_ring (used dev) i)"]) auto
  ultimately show ?thesis using d upd(5,11) [OF s] by (auto simp: vq_rel_def vq_wf_def algebra_simps)
qed

lemma drv_recv_sim:
  assumes R: "vq_rel n (m, dev, drv) (as, u # us)"
  shows "\<exists>m' drv'. drv_recv (m, drv) = Some (NONE, Some (desc_at (descriptor_base dev) u), m', drv') \<and>
     vq_rel n (m', dev, drv') (as, us)"
proof -
  note d = R [unfolded vq_rel_def prod.case]
  have sz: "is_size_valid (vq_size dev)" and ok: "rings_ok (vq_size dev) (available dev) (used dev)"
      and n: "n = unat (vq_size dev)" using d by (auto simp: vq_wf_def)
  note f = size_valid_facts [OF sz]
  let ?m = "avail_set_avail_event (available dev) (used_index m (used dev)) m"
  have s: "unat (vq_idx drv) mod n < unat (vq_size dev)" using f(1) n by simp
  note upd = avail_after_avail [OF ok s] used_after_avail [OF ok s]
  have l: "length us < n" using d by (auto simp: ring_content_def)
  have c: "count_available drv (used_index m (used dev)) \<noteq> 0"
    using d of_nat_16_eq_0 [of "Suc (length us)"] l n f(2) by (simp add: count_available_diff)
  note pop = ring_content_pop [of "\<lambda>i. entry_id m (used_ring (used dev) i)" n "vq_idx drv" "ucast u" "map ucast us"]
  have a: "entry_id m (used_ring (used dev) (unat (vq_idx drv) mod n)) = ucast u" using pop(1) d f(4) n by simp
  have "unat (ucast u mod ucast (vq_size dev) :: u32) = unat u" using d n by (simp add: unat_mod_distrib)
  then have "unat (ucast (ucast u mod ucast (vq_size dev) :: u32) :: u16) = take_bit 16 (unat u)" by (simp add: unsigned_ucast_eq)
  also have "\<dots> = unat u" using unsigned_less [of u, where 'a = nat] by (simp add: take_bit_nat_eq_self)
  finally have "unat (ucast (ucast u mod ucast (vq_size dev) :: u32) :: u16) = unat u" .
  then have u: "ucast (ucast u mod ucast (vq_size dev) :: u32) = u" by (simp only: word_unat_eq_iff)
  have "drv_recv (m, drv) = Some (NONE, Some (desc_at (descriptor_base dev) u), ?m, drv\<lparr>vq_idx := vq_idx drv + 1\<rparr>)"
    using c a f(3) d n upd(12) [OF s] s u by (simp add: drv_recv_def Let_def ring_slot_def)
  moreover have "ring_content (avail_ring ?m (available dev)) n (vq_idx dev) as"
    using d f(1) n upd by (subst ring_content_cong [where get = "avail_ring m (available dev)"]) auto
  moreover have "ring_content (\<lambda>i. entry_id ?m (used_ring (used dev) i)) n (vq_idx drv + 1) (map ucast us)"
    using pop(2) d f(1,4) n upd by (subst ring_content_cong [where get = "\<lambda>i. entry_id m (used_ring (used dev) i)"]) auto
  ultimately show ?thesis using d upd(5,11) [OF s] by (auto simp: vq_rel_def vq_wf_def algebra_simps)
qed

lemma vq_step_sim:
  assumes R: "vq_rel n s f" and st: "fifo_step n e f = Some (x, f')"
  shows "\<exists>s'. vq_step e s = Some (x, s') \<and> vq_rel n s' f'"
proof -
  obtain m dev drv as us where s: "s = (m, dev, drv)" "f = (as, us)" by (metis prod_cases3 prod.exhaust)
  note R' = R [unfolded s]
  show ?thesis
  proof (cases e)
    case (Driver_send i)
    then show ?thesis using st drv_send_sim [OF R', of i 0] by (fastforce simp: s split: if_splits)
  next
    case (Device_send i len)
    then show ?thesis using st dev_send_sim [OF R', of i len] by (fastforce simp: s split: if_splits)
  next
    case Device_recv
    show ?thesis
    proof (cases as)
      case Nil
      then have "dev_recv (m, dev) = Some (NOENT, None, m, dev)"
        using R' by (simp add: dev_recv_def vq_rel_def count_available_diff)
      then show ?thesis using st R' by (simp add: s Device_recv Nil)
    next
      case (Cons a as')
      then show ?thesis using st dev_recv_sim [of n m dev drv a as' us] R' by (fastforce simp: s Device_recv desc_at_def)
    qed
  next
    case Driver_recv
    show ?thesis
    proof (cases us)
      case Nil
      then have "drv_recv (m, drv) = Some (NOENT, None, m, drv)"
        using R' by (simp add: drv_recv_def vq_rel_def count_available_diff)
      then show ?thesis using st R' by (simp add: s Driver_recv Nil)
    next
      case (Cons u us')
      then show ?thesis using st drv_recv_sim [of n m dev drv as u us'] R' by (fastforce simp: s Driver_recv desc_at_def)
    qed
  qed
qed

lemma queue_new_wf:
  assumes "queue_new d a u n = Some q" "apart a (avail_region_bytes n) u (used_region_bytes n)"
  shows "vq_wf q" "vq_size q = n" "vq_idx q = 0" "driven_idx q = 0"
  using assms by (auto simp: queue_new_def vq_wf_def rings_ok_def bind_eq_Some_conv is_size_valid_def word_le_nat_alt)

text \<open>
  C13: a device end and a driver end over one memory with zeroed rings are two first-in first-out
  queues of chains. For every sequence of sends and receives of the two parties that never puts
  more chains into a ring than it has places, every receive gives the result of the queues, in
  their order and with nothing lost or repeated, whatever the number of turns of the 16-bit
  counters; and the counts of available chains are the lengths of the queues.
\<close>

theorem vq_refines_fifos:
  assumes "queue_new d a u n = Some q" "apart a (avail_region_bytes n) u (used_region_bytes n)"
    and "avail_index m (available q) = 0" "used_index m (used q) = 0"
    and "run_steps (fifo_step (unat n)) es ([], []) = Some (xs, as, us)"
  shows "\<exists>m' dev drv. run_steps vq_step es (m, q, q) = Some (xs, m', dev, drv) \<and>
     dev_get_available m' dev = of_nat (length as) \<and> drv_get_available m' drv = of_nat (length us)"
proof -
  note new = queue_new_wf [OF assms(1,2)]
  have "vq_rel (unat n) (m, q, q) ([], [])" using new assms(3,4) by (simp add: vq_rel_def ring_content_def)
  then have "\<exists>s. run_steps vq_step es (m, q, q) = Some (xs, s) \<and> vq_rel (unat n) s (as, us)"
    using vq_step_sim assms(5) by (intro run_steps_simulation [where spec = "fifo_step (unat n)"])
  then obtain s where s: "run_steps vq_step es (m, q, q) = Some (xs, s)" "vq_rel (unat n) s (as, us)" by blast
  obtain m' dev drv where "s = (m', dev, drv)" by (metis prod_cases3)
  then show ?thesis
    using s by (auto simp: vq_rel_def dev_get_available_def drv_get_available_def count_available_diff)
qed

theorem vq_refines_fifos_witness:
  "\<exists>q m' dev drv. queue_new 0x1000 0x2000 0x3000 2 = Some q \<and>
     run_steps vq_step [Driver_send 1, Device_recv, Device_send 1 5, Driver_send 0, Driver_recv, Driver_recv] (\<lambda>_. 0, q, q) =
       Some ([(NONE, None), (NONE, Some 1), (NONE, None), (NONE, None), (NONE, Some 1), (NOENT, None)], m', dev, drv) \<and>
     dev_get_available m' dev = 1"
proof -
  let ?es = "[Driver_send 1, Device_recv, Device_send 1 5, Driver_send 0, Driver_recv, Driver_recv]"
  obtain q where q: "queue_new 0x1000 0x2000 0x3000 2 = Some q" by (simp add: queue_new_def is_size_valid_def)
  have z: "get_offset (\<lambda>_. 0) p i = (0 :: u16)" for p i by (simp add: get_offset_def numeral_2_eq_2)
  have f: "run_steps (fifo_step (unat (2 :: u16))) ?es ([], []) =
      Some ([(NONE, None), (NONE, Some 1), (NONE, None), (NONE, None), (NONE, Some 1), (NOENT, None)], [0], [])" by simp
  have ap: "apart 0x2000 (avail_region_bytes 2) 0x3000 (used_region_bytes 2)"
    by (simp add: apart_def avail_region_bytes_def used_region_bytes_def)
  show ?thesis
    using vq_refines_fifos [OF q ap _ _ f, of "\<lambda>_. 0"] q by (auto simp: avail_index_def used_index_def z simp del: run_steps.simps)
qed

subsection \<open>The device end and hostile memory\<close>

lemma desc_at_inside:
  assumes "i < n" "in_area (d_p (desc_at base i)) DESC_ENTRY_BYTES a"
  shows "in_area base (desc_region_bytes n) a"
proof -
  have u: "unat i < unat n" using assms(1) by (simp add: word_less_nat_alt)
  have "unat n < 65536" using unsigned_less [of n, where 'a = nat] by simp
  then have "unat i * 16 + 16 \<le> unat n * 16" "unat n * 16 \<le> 2 ^ 64" using u by auto
  moreover have "in_area (base + of_nat (unat i * 16)) 16 a" using assms(2) by (simp add: desc_at_def)
  ultimately show ?thesis unfolding desc_region_bytes_def using in_area_sub by blast
qed

text \<open>The bytes of the used area only.\<close>

abbreviation only_used :: "vqueue \<Rightarrow> memory \<Rightarrow> memory \<Rightarrow> bool" where
  "only_used q m m' \<equiv> \<forall>a. in_area (rg_p (used q)) (used_region_bytes (vq_size q)) a \<or> m' a = m a"

lemma used_writes_inside:
  assumes "vq_wf q" "i < unat (vq_size q)"
  shows "only_used q m (used_set_ring (used q) i e len m)" "only_used q m (used_set_index (used q) v m)"
    "only_used q m (used_set_avail_event (used q) v m)"
proof -
  have n: "unat (vq_size q) \<le> 32768" "rg_size (used q) = vq_size q" using assms(1) by (auto simp: vq_wf_def rings_ok_def)
  obtain k where k: "used_region_bytes (vq_size q) = k" "6 + unat (vq_size q) * 8 \<le> k" "k \<le> 2 ^ 64"
    using n(1) by (simp add: used_region_bytes_def)
  note frame = set_offset_frame_area [where p = "rg_p (used q)" and n = k]
  show "only_used q m (used_set_ring (used q) i e len m)" "only_used q m (used_set_index (used q) v m)"
    "only_used q m (used_set_avail_event (used q) v m)"
    unfolding k(1) using n k(2) assms(2) k(3) by (simp_all add: disj_imp used_defs frame)
qed

lemma vq_wf_update [simp]:
  "vq_wf (q\<lparr>vq_idx := x\<rparr>) = vq_wf q" "vq_wf (q\<lparr>vq_prev := x, driven_idx := y\<rparr>) = vq_wf q"
  by (simp_all add: vq_wf_def)

abbreviation desc_bytes :: "descriptor \<Rightarrow> u64 set" where
  "desc_bytes d \<equiv> {a. in_area (d_p d) DESC_ENTRY_BYTES a}"

abbreviation desc_table :: "vqueue \<Rightarrow> u64 set" where
  "desc_table q \<equiv> {a. in_area (descriptor_base q) (desc_region_bytes (vq_size q)) a}"

text \<open>
  C14: whatever the shared memory holds, the device end returns from a receive and from a send, and
  they change no byte outside the area of the used ring; the sixteen bytes of a descriptor that a
  receive or the walk along a chain hands out lie in the descriptor table.
\<close>

theorem vq_device_stays_inside:
  assumes "vq_wf q"
  shows "tot (dev_recv (m, q)) (\<lambda>(e, d, m', q'). vq_wf q' \<and> only_used q m m' \<and>
       (case d of None \<Rightarrow> e \<noteq> NONE | Some x \<Rightarrow> e = NONE \<and> desc_bytes x \<subseteq> desc_table q)) \<and>
     tot (dev_send d0 len (m, q)) (\<lambda>(m', q'). vq_wf q' \<and> only_used q m m') \<and>
     (case next_in_chain m q d0 nxt d1 of (e, f, en, i, x) \<Rightarrow>
        if e = NONE \<and> en then desc_bytes x \<subseteq> desc_table q else x = d1)"
proof (intro conjI)
  have sz: "is_size_valid (vq_size q)" using assms by (simp add: vq_wf_def)
  note f = size_valid_facts [OF sz] and slot = ring_slot_valid [OF sz]
  have s: "unat i mod unat (vq_size q) < unat (vq_size q)" for i :: u16 using f(1) by simp
  note wr = used_writes_inside [OF assms s]
  have table: "desc_bytes (desc_at (descriptor_base q) i) \<subseteq> desc_table q" if "\<not> vq_size q \<le> i" for i
    using desc_at_inside [of i "vq_size q"] that by (auto simp: not_le)
  show "tot (dev_recv (m, q)) (\<lambda>(e, d, m', q'). vq_wf q' \<and> only_used q m m' \<and>
       (case d of None \<Rightarrow> e \<noteq> NONE | Some x \<Rightarrow> e = NONE \<and> desc_bytes x \<subseteq> desc_table q))"
    using assms table wr(3) slot by (auto simp: dev_recv_def Let_def)
  show "tot (dev_send d0 len (m, q)) (\<lambda>(m', q'). vq_wf q' \<and> only_used q m m')"
  proof -
    let ?m1 = "used_set_ring (used q) (unat (driven_idx q) mod unat (vq_size q)) (ucast (d_idx d0)) len m"
    have "only_used q m ?m1" by (rule wr(1))
    moreover have "only_used q ?m1 (used_set_index (used q) (driven_idx q + 1) ?m1)" by (rule wr(2))
    ultimately have "only_used q m (used_set_index (used q) (driven_idx q + 1) ?m1)" by metis
    then show ?thesis using assms f(3) by (simp add: dev_send_def bump_driven_idx_def Let_def ring_slot_def)
  qed
  show "case next_in_chain m q d0 nxt d1 of (e, f, en, i, x) \<Rightarrow>
        if e = NONE \<and> en then desc_bytes x \<subseteq> desc_table q else x = d1"
    using table by (auto simp: next_in_chain_def Let_def)
qed

theorem vq_device_stays_inside_witness:
  "\<exists>q m1 q1. queue_new 0x1000 0x2000 0x3000 2 = Some q \<and>
     dev_recv (\<lambda>a. if a = 0x2002 then 1 else if a = 0x2004 then 1 else 0, q) = Some (NONE, Some (desc_at 0x1000 1), m1, q1) \<and>
     desc_bytes (desc_at 0x1000 1) \<subseteq> desc_table q"
proof -
  define m where "m = (\<lambda>a :: u64. if a = 0x2002 then 1 else if a = 0x2004 then 1 else 0 :: u8)"
  let ?u = "\<lparr>rg_p = 0x3000, rg_size = 2\<rparr>"
  obtain q where q: "queue_new 0x1000 0x2000 0x3000 2 = Some q"
    "q = \<lparr>descriptor_base = 0x1000, available_base = 0x2000, used_base = 0x3000, available = \<lparr>rg_p = 0x2000, rg_size = 2\<rparr>,
           used = \<lparr>rg_p = 0x3000, rg_size = 2\<rparr>, vq_size = 2, vq_idx = 0, vq_prev = 0, driven_idx = 0\<rparr>"
    by (simp add: queue_new_def is_size_valid_def)
  have wf: "vq_wf q"
    by (rule queue_new_wf [OF q(1)]) (simp add: apart_def avail_region_bytes_def used_region_bytes_def)
  have g: "avail_index m \<lparr>rg_p = 0x2000, rg_size = 2\<rparr> = 1" "avail_ring m \<lparr>rg_p = 0x2000, rg_size = 2\<rparr> 0 = 1"
    by (simp_all add: m_def avail_index_def avail_ring_def get_offset_16)
  have "rings_ok 2 \<lparr>rg_p = 0x2000, rg_size = 2\<rparr> \<lparr>rg_p = 0x3000, rg_size = 2\<rparr>"
    using wf by (simp add: vq_wf_def q(2))
  from avail_after_used(6) [OF this, of 0 0]
  have "avail_ring (used_set_avail_event \<lparr>rg_p = 0x3000, rg_size = 2\<rparr> 1 m) \<lparr>rg_p = 0x2000, rg_size = 2\<rparr> 0 = 1"
    using g(2) by simp
  then have r: "dev_recv (m, q) = Some (NONE, Some (desc_at 0x1000 1), used_set_avail_event ?u 1 m, q\<lparr>vq_idx := 1\<rparr>)"
    using g(1) by (simp add: q(2) dev_recv_def count_available_def ring_slot_def Let_def word_le_nat_alt)
  have "desc_bytes (desc_at 0x1000 1) \<subseteq> desc_table q"
    using vq_device_stays_inside [OF wf, of m] unfolding r by simp
  then show ?thesis using q(1) r [unfolded m_def] by blast
qed

subsection \<open>Notification of the driver\<close>

lemma not_wrap_window: "w - e - 1 < w \<longleftrightarrow> e < w" for e w :: u16
proof (cases "e < w")
  case True
  then have "unat (w - e - 1) = unat w - unat e - 1"
    by (simp add: unat_minus_one unat_minus_le less_imp_le word_less_nat_alt unat_sub_if_size word_size)
  then show ?thesis using True by (simp add: word_less_nat_alt)
next
  case False
  then have le: "w \<le> e" by simp
  have "unat (w - e - 1) \<ge> unat w"
    using le unsigned_less [of e, where 'a = nat] by (simp add: word_le_nat_alt unat_sub_if_size word_size) arith
  then show ?thesis using False by (simp add: word_less_nat_alt)
qed

text \<open>
  C15: the comparison by which the device decides to interrupt the driver is the rule of the
  specification: it interrupts when the event index that the driver wrote is one of the used
  indices from the previous one on, up to and without the current one, counted with wrap-around.
\<close>

theorem vq_notify_window:
  "used_event_notify m q \<longleftrightarrow>
     avail_avail_event m (available q) \<in> (\<lambda>k. vq_prev q + of_nat k) ` {..<unat (driven_idx q - vq_prev q)}"
proof -
  let ?e = "avail_avail_event m (available q)" and ?d = "driven_idx q" and ?p = "vq_prev q"
  have "?d - ?e - 1 < ?d - ?p \<longleftrightarrow> ?e - ?p < ?d - ?p"
    using not_wrap_window [of "?d - ?p" "?e - ?p"] by simp
  also have "\<dots> \<longleftrightarrow> ?e \<in> (\<lambda>k. ?p + of_nat k) ` {..<unat (?d - ?p)}"
  proof
    assume "?e - ?p < ?d - ?p"
    then have "?e = ?p + of_nat (unat (?e - ?p))" "unat (?e - ?p) < unat (?d - ?p)" by (simp_all add: word_less_nat_alt)
    then show "?e \<in> (\<lambda>k. ?p + of_nat k) ` {..<unat (?d - ?p)}" by blast
  next
    assume "?e \<in> (\<lambda>k. ?p + of_nat k) ` {..<unat (?d - ?p)}"
    then obtain k where k: "?e - ?p = of_nat k" "k < unat (?d - ?p)" by auto
    have "k < 2 ^ 16" using k(2) unsigned_less [of "?d - ?p", where 'a = nat] by simp
    then show "?e - ?p < ?d - ?p" using k by (simp add: word_less_nat_alt unsigned_of_nat take_bit_nat_eq_self)
  qed
  finally show ?thesis by (simp add: used_event_notify_def)
qed

subsection \<open>Allocation\<close>

text \<open>
  A heap as the list of its live blocks, and what the host's \<open>new\<close> and \<open>delete\<close> do to it: a block
  that is handed out is new and apart from the live ones, a failed request changes nothing, and a
  block that is given back is no longer live.
\<close>

type_synonym blocks = "(u64 \<times> nat) list"

definition good_allocator :: "(nat \<Rightarrow> blocks \<Rightarrow> u64 \<times> blocks) \<Rightarrow> (u64 \<Rightarrow> blocks \<Rightarrow> blocks) \<Rightarrow> bool" where
  "good_allocator new8 free8 \<longleftrightarrow>
     (\<forall>n h p h'. new8 n h = (p, h') \<longrightarrow>
        (if p = 0 then h' = h else h' = (p, n) # h \<and> p \<notin> fst ` set h \<and> (\<forall>(q, k) \<in> set h. apart p n q k))) \<and>
     (\<forall>p h. free8 p h = filter (\<lambda>b. fst b \<noteq> p) h)"

lemma filter_fresh: "p \<notin> fst ` set h \<Longrightarrow> filter (\<lambda>b. fst b \<noteq> p) h = h"
  by (induction h) auto

lemma and_not_mask_value: "unat (x AND NOT (mask n)) = 2 ^ n * (unat x div 2 ^ n)" for x :: u64
proof -
  have e: "x AND NOT (mask n) = push_bit n (drop_bit n x)" by (rule bit_eqI) (auto simp: bit_simps)
  have "unat (x AND NOT (mask n)) = take_bit 64 (push_bit n (drop_bit n (take_bit 64 (unat x))))"
    unfolding e by (simp only: unsigned_push_bit_eq unsigned_drop_bit_eq) simp
  also have "\<dots> = take_bit 64 (2 ^ n * (unat x div 2 ^ n))"
    using unsigned_less [of x, where 'a = nat] by (simp add: push_bit_eq_mult drop_bit_eq_div take_bit_nat_eq_self mult.commute)
  finally have "unat (x AND NOT (mask n)) = take_bit 64 (2 ^ n * (unat x div 2 ^ n))" .
  moreover have "2 ^ n * (unat x div 2 ^ n) < 2 ^ 64"
    by (rule le_less_trans [OF times_div_less_eq_dividend]) (use unsigned_less [of x, where 'a = nat] in simp)
  ultimately show ?thesis by (simp add: take_bit_nat_eq_self)
qed

lemma align_up_page:
  assumes "n \<le> 2 ^ 32"
  shows "n \<le> unat (align_up (of_nat n) 4096)" "unat (align_up (of_nat n) 4096) \<le> n + 4095"
proof -
  have "unat (of_nat n + 0xfff :: u64) = n + 4095"
    using assms by (subst unat_plus_no_wrap) (simp_all add: unat_of_nat64)
  then have "unat (align_up (of_nat n) 4096) = 4096 * ((n + 4095) div 4096)"
    using and_not_mask_value [of "of_nat n + 0xfff" 12] by (simp add: align_up_def align_dn_def mask_eq_exp_minus_1)
  moreover have "4096 * ((n + 4095) div 4096) + (n + 4095) mod 4096 = n + 4095" by (rule mult_div_mod_eq)
  moreover have "(n + 4095) mod 4096 < 4096" by simp
  ultimately show "n \<le> unat (align_up (of_nat n) 4096)" "unat (align_up (of_nat n) 4096) \<le> n + 4095" by linarith+
qed

lemma get_offset_16_zero:
  assumes "\<And>a. in_area p n a \<Longrightarrow> m a = 0" "i + 2 \<le> n" "n \<le> 2 ^ 64"
  shows "get_offset m p i = (0 :: u16)"
proof -
  have "in_area p n (p + of_nat i)" "in_area p n (p + of_nat i + 1)"
    using assms(2,3) unat_of_nat64 [of i] unat_of_nat64 [of "Suc i"] by (simp_all add: in_area_def algebra_simps)
  then show ?thesis by (simp add: get_offset_16 assms(1))
qed

lemma allocz_good:
  assumes "good_allocator new8 free8" "allocz new8 n (m, h) = (p, m', h')" "n \<le> 2 ^ 32"
  shows "p = 0 \<Longrightarrow> m' = m \<and> h' = h"
    "p \<noteq> 0 \<Longrightarrow> \<exists>k. h' = (p, k) # h \<and> n \<le> k \<and> k \<le> n + 4095 \<and> m' = zero_fill p k m \<and> p \<notin> fst ` set h \<and>
       (\<forall>(q, j) \<in> set h. apart p k q j)"
proof -
  let ?k = "unat (align_up (of_nat n) 4096)"
  obtain p' h2 where a: "new8 ?k h = (p', h2)" by (cases "new8 ?k h")
  have g: "if p' = 0 then h2 = h else h2 = (p', ?k) # h \<and> p' \<notin> fst ` set h \<and> (\<forall>(q, j) \<in> set h. apart p' ?k q j)"
    using assms(1) a unfolding good_allocator_def by blast
  show "p = 0 \<Longrightarrow> m' = m \<and> h' = h" using assms(2) a g by (auto simp: allocz_def Let_def split: if_splits)
  show "\<exists>k. h' = (p, k) # h \<and> n \<le> k \<and> k \<le> n + 4095 \<and> m' = zero_fill p k m \<and> p \<notin> fst ` set h \<and>
       (\<forall>(q, j) \<in> set h. apart p k q j)" if "p \<noteq> 0"
    using that assms(2) a g align_up_page [OF assms(3)]
    by (intro exI [of _ ?k]) (auto simp: allocz_def Let_def split: if_splits)
qed

lemma apart_smaller: "apart p n q k \<Longrightarrow> n' \<le> n \<Longrightarrow> k' \<le> k \<Longrightarrow> apart p n' q k'"
  by (auto simp: apart_def)

text \<open>
  Over an allocator that behaves, the creation of a driver queue either fails, and then the
  caller's queue is untouched and every block that was allocated has been given back, or gives a
  well-formed queue with zeroed rings in three new blocks, from which it can start; its deletion
  gives the three blocks back. It fails with \<open>INVAL\<close> exactly when the size is no power of two up to
  32768.
\<close>

theorem vq_create_or_clean:
  assumes "good_allocator new8 free8"
  shows "\<exists>e q m' h'. create_driver_queue new8 free8 n out (m, h) = Some (e, q, m', h') \<and>
     (e = INVAL \<longleftrightarrow> \<not> is_size_valid n) \<and>
     (if e = NONE then vq_wf q \<and> vq_size q = n \<and> avail_index m' (available q) = 0 \<and> used_index m' (used q) = 0 \<and>
        delete_driver_queue free8 q h' = h
      else q = out \<and> h' = h)"
proof (cases "is_size_valid n")
  case False
  then show ?thesis by (simp add: create_driver_queue_def)
next
  case True
  note f = size_valid_facts [OF True]
  have sz: "desc_region_bytes n \<le> 2 ^ 32" "avail_region_bytes n \<le> 2 ^ 31" "used_region_bytes n \<le> 2 ^ 31"
    using f(2) by (simp_all add: desc_region_bytes_def avail_region_bytes_def used_region_bytes_def)
  have free: "free8 p h = filter (\<lambda>b. fst b \<noteq> p) h" for p h using assms by (simp add: good_allocator_def)
  obtain d m1 h1 where a1: "allocz new8 (desc_region_bytes n) (m, h) = (d, m1, h1)" by (metis prod_cases3)
  obtain a m2 h2 where a2: "allocz new8 (avail_region_bytes n) (m1, h1) = (a, m2, h2)" by (metis prod_cases3)
  obtain u m3 h3 where a3: "allocz new8 (used_region_bytes n) (m2, h2) = (u, m3, h3)" by (metis prod_cases3)
  note g1 = allocz_good [OF assms a1] and g2 = allocz_good [OF assms a2] and g3 = allocz_good [OF assms a3]
  consider "d = 0" | "d \<noteq> 0" "a = 0" | "d \<noteq> 0" "a \<noteq> 0" "u = 0" | "d \<noteq> 0" "a \<noteq> 0" "u \<noteq> 0" by blast
  then show ?thesis
  proof cases
    case 1
    then show ?thesis using True a1 g1(1) sz by (simp add: create_driver_queue_def)
  next
    case 2
    then show ?thesis using True a1 a2 g1(2) g2(1) sz by (auto simp: create_driver_queue_def free filter_fresh)
  next
    case 3
    then show ?thesis using True a1 a2 a3 g1(2) g2(2) g3(1) sz
      by (auto simp: create_driver_queue_def free filter_fresh simp del: filter_filter)
  next
    case 4
    obtain k1 where k1: "h1 = (d, k1) # h" "d \<notin> fst ` set h" using g1(2) 4 sz by auto
    obtain k2 where k2: "h2 = (a, k2) # h1" "a \<notin> fst ` set h1" "avail_region_bytes n \<le> k2" "m2 = zero_fill a k2 m1"
      using g2(2) 4 sz by auto
    obtain k3 where k3: "h3 = (u, k3) # h2" "u \<notin> fst ` set h2" "used_region_bytes n \<le> k3" "m3 = zero_fill u k3 m2"
        "k3 \<le> used_region_bytes n + 4095" "\<forall>(q, j) \<in> set h2. apart u k3 q j"
      using g3(2) 4 sz by auto
    obtain q where q: "queue_new d a u n = Some q" "q = \<lparr>descriptor_base = d, available_base = a, used_base = u,
        available = \<lparr>rg_p = a, rg_size = n\<rparr>, used = \<lparr>rg_p = u, rg_size = n\<rparr>, vq_size = n, vq_idx = 0, vq_prev = 0, driven_idx = 0\<rparr>"
      using True 4 by (simp add: queue_new_def)
    have "apart u k3 a k2" using k2(1) k3(6) by simp
    then have "apart a (avail_region_bytes n) u (used_region_bytes n)" using k2(3) k3(3) apart_smaller by (subst apart_sym)
    then have wf: "vq_wf q" "vq_size q = n" using queue_new_wf [OF q(1)] by simp_all
    have "m3 x = 0" if "in_area u (used_region_bytes n) x" for x
      using that k3(3,4) by (auto simp: zero_fill_def in_area_def)
    then have ui: "used_index m3 (used q) = 0"
      unfolding used_index_def by (rule get_offset_16_zero) (use sz in \<open>auto simp: q(2) used_region_bytes_def\<close>)
    have "m3 x = 0" if "in_area a (avail_region_bytes n) x" for x
      using that k2(3,4) k3(4) by (auto simp: zero_fill_def in_area_def)
    then have ai: "avail_index m3 (available q) = 0"
      unfolding avail_index_def by (rule get_offset_16_zero) (use sz in \<open>auto simp: q(2) avail_region_bytes_def\<close>)
    have "delete_driver_queue free8 q h3 = h"
      using k1 k2(1,2) k3(1,2) by (auto simp: delete_driver_queue_def q(2) free filter_fresh)
    then show ?thesis using True 4 a1 a2 a3 q(1) wf ui ai by (simp add: create_driver_queue_def)
  qed
qed

text \<open>An allocator that hands out pages in turn, as long as they are apart from the live blocks.\<close>

definition page_new :: "nat \<Rightarrow> blocks \<Rightarrow> u64 \<times> blocks" where
  "page_new n h =
     (let p = 0x1000 * of_nat (Suc (length h)) in
      if p = 0 \<or> p \<in> fst ` set h \<or> \<not> list_all (\<lambda>(q, k). apart p n q k) h then (0, h) else (p, (p, n) # h))"

definition page_free :: "u64 \<Rightarrow> blocks \<Rightarrow> blocks" where
  "page_free p h = filter (\<lambda>b. fst b \<noteq> p) h"

lemma page_allocator: "good_allocator page_new page_free"
  by (auto simp: good_allocator_def page_new_def page_free_def Let_def list_all_iff split: if_splits)

theorem vq_create_or_clean_witness:
  "\<exists>q m' h'. create_driver_queue page_new page_free 2 queue_none (\<lambda>_. 7, []) = Some (NONE, q, m', h') \<and>
     vq_wf q \<and> avail_index m' (available q) = 0 \<and> delete_driver_queue page_free q h' = []"
proof -
  have al: "align_up 32 4096 = 4096" "align_up 10 4096 = 4096" "align_up 22 4096 = 4096"
    by (simp_all add: align_up_def align_dn_def)
  have "\<exists>q m' h'. create_driver_queue page_new page_free 2 queue_none (\<lambda>_. 7, []) = Some (NONE, q, m', h')"
    by (simp add: create_driver_queue_def is_size_valid_def allocz_def page_new_def desc_region_bytes_def avail_region_bytes_def
        used_region_bytes_def al queue_new_def apart_def Let_def)
  then show ?thesis using vq_create_or_clean [OF page_allocator, of 2 queue_none "\<lambda>_. 7" "[]"] by auto
qed

end
