(* ===== verification/VirtioSg.thy ===== *)
theory VirtioSg
  imports Virtqueue
begin

text \<open>
  The scatter-gather buffer (\<open>devices/virtio_base/include/model/virtio_sg.hpp\<close> and
  \<open>devices/virtio_base/src/virtio_sg.cpp\<close>): a descriptor chain read once from shared memory into
  arrays, with its checks, the building of a chain by a driver, the heuristic count of the written
  bytes and the return of the chain. An access outside an array, a failed \<open>ASSERT\<close> and a null
  pointer that is used are \<open>None\<close>. A cookie is a heap object whose address the code compares:
  \<open>cookie_ptr\<close> is that address.

  The theorems: the walk along a chain agrees with a reference definition of a valid chain for
  every content of the shared memory, looped chains included, and gives an invalid chain back to
  the driver with length 0; and what the written-bytes heuristic and \<open>modify_link\<close> do on their edge
  cases.
\<close>

subsection \<open>The data\<close>

record linear_desc =
  l_address :: u64
  l_length :: u32
  l_flags :: u16
  linear_next :: u16

record desc_meta =
  md_desc :: descriptor
  original_next :: u16
  prefix_written :: u32

record async_cookie =
  copy_started :: bool
  other_is_sg :: bool
  copy_is_src :: bool
  pending_dsts :: u64
  req_sz :: u64
  req_d_off :: u64
  req_s_off :: u64
  cookie_src :: "nat option"
  linear_src :: u64
  linear_dst :: u64

record sg_buffer =
  max_chain_length :: u16
  active_chain_length :: u16
  sg_size_bytes :: u64
  complete_chain :: bool
  chain_for_device :: bool
  seen_readable_desc :: bool
  seen_writable_desc :: bool
  first_writable_desc :: u16
  desc_chain :: "linear_desc list"
  chain_meta :: "desc_meta list"
  cookie_ptr :: nat
  cookie :: "async_cookie option"

abbreviation UINT32_MAX :: nat where "UINT32_MAX \<equiv> 4294967295"

definition linear_desc_new :: linear_desc where
  "linear_desc_new = \<lparr>l_address = 0, l_length = 0, l_flags = 0, linear_next = 0\<rparr>"

definition desc_meta_new :: desc_meta where
  "desc_meta_new = \<lparr>md_desc = null_desc, original_next = 0, prefix_written = 0\<rparr>"

definition cookie_reset :: "async_cookie \<Rightarrow> async_cookie" where
  "cookie_reset c = \<lparr>copy_started = False, other_is_sg = False, copy_is_src = False, pending_dsts = 0, req_sz = - 1,
     req_d_off = - 1, req_s_off = - 1, cookie_src = None, linear_src = 0, linear_dst = 0\<rparr>"

abbreviation in_use :: "async_cookie \<Rightarrow> bool" where "in_use c \<equiv> copy_started c"

definition buffer_new :: "u16 \<Rightarrow> sg_buffer" where
  "buffer_new n = \<lparr>max_chain_length = n, active_chain_length = 0, sg_size_bytes = 0, complete_chain = False,
     chain_for_device = False, seen_readable_desc = False, seen_writable_desc = False, first_writable_desc = 0xffff,
     desc_chain = [], chain_meta = [], cookie_ptr = 0, cookie = None\<rparr>"

definition reset_fields :: "sg_buffer \<Rightarrow> sg_buffer" where
  "reset_fields b = b\<lparr>active_chain_length := 0, sg_size_bytes := 0, complete_chain := False, chain_for_device := False,
     seen_readable_desc := False, seen_writable_desc := False, first_writable_desc := 0xffff,
     cookie := map_option cookie_reset (cookie b)\<rparr>"

definition sg_reset :: "sg_buffer \<Rightarrow> sg_buffer option" where
  "sg_reset b = do {
     ASSERT (case cookie b of None \<Rightarrow> True | Some c \<Rightarrow> \<not> in_use c);
     Some (reset_fields b)
   }"

subsection \<open>Positions in the payload\<close>

text \<open>An iterator is an index into the two arrays; the end is the length of the active chain.\<close>

abbreviation sg_end :: "sg_buffer \<Rightarrow> nat" where "sg_end b \<equiv> unat (active_chain_length b)"

fun find_loop :: "linear_desc list \<Rightarrow> nat \<Rightarrow> nat \<Rightarrow> u64 \<Rightarrow> u64 \<Rightarrow> (nat \<times> u64) option" where
  "find_loop ds it 0 cur off = Some (it, off)"
| "find_loop ds it (Suc n) cur off = do {
     d \<leftarrow> nth_opt ds it;
     if off < cur + ucast (l_length d) then Some (it, off - cur)
     else find_loop ds (Suc it) n (cur + ucast (l_length d)) off
   }"

definition sg_find :: "sg_buffer \<Rightarrow> u64 \<Rightarrow> (nat \<times> u64) option" where
  "sg_find b off =
     (if sg_size_bytes b < off then Some (sg_end b, off)
      else if off = 0 then Some (0, off)
      else find_loop (desc_chain b) 0 (sg_end b) 0 off)"

fun offset_loop :: "linear_desc list \<Rightarrow> nat \<Rightarrow> nat \<Rightarrow> nat \<Rightarrow> u64 \<Rightarrow> (Errno \<times> u64) option" where
  "offset_loop ds end it 0 off = Some (NONE, off)"
| "offset_loop ds end it (Suc n) off =
     (if it = end then Some (INVAL, off)
      else do { d \<leftarrow> nth_opt ds it; offset_loop ds end (Suc it) n (off + ucast (l_length d)) })"

text \<open>\<open>descriptor_offset\<close>: the result, and the offset when it is \<open>NONE\<close>.\<close>

definition descriptor_offset :: "sg_buffer \<Rightarrow> nat \<Rightarrow> (Errno \<times> u64) option" where
  "descriptor_offset b i = offset_loop (desc_chain b) (sg_end b) 0 i 0"

definition get_first_writable_desc :: "sg_buffer \<Rightarrow> u16 \<Rightarrow> Errno \<times> u16" where
  "get_first_writable_desc b i = (if seen_writable_desc b then (NONE, first_writable_desc b) else (PERM, i))"

fun first_writable_byte_loop :: "linear_desc list \<Rightarrow> nat \<Rightarrow> nat \<Rightarrow> u64 \<Rightarrow> u64 option" where
  "first_writable_byte_loop ds i 0 off = Some off"
| "first_writable_byte_loop ds i (Suc n) off = do {
     d \<leftarrow> nth_opt ds i;
     first_writable_byte_loop ds (Suc i) n (off + ucast (l_length d))
   }"

definition first_writable_byte :: "sg_buffer \<Rightarrow> u64 \<Rightarrow> (Errno \<times> u64) option" where
  "first_writable_byte b off =
     (case get_first_writable_desc b 0xffff of
        (NONE, i) \<Rightarrow> do { x \<leftarrow> first_writable_byte_loop (desc_chain b) 0 (unat i) 0; Some (NONE, x) }
      | (e, i) \<Rightarrow> Some (e, off))"

definition root_desc_idx :: "sg_buffer \<Rightarrow> (Errno \<times> u16) option" where
  "root_desc_idx b =
     (if active_chain_length b = 0 then Some (NOENT, 0xffff)
      else do { d \<leftarrow> nth_opt (chain_meta b) 0; Some (NONE, d_idx (md_desc d)) })"

subsection \<open>The count of the written bytes\<close>

definition track_written :: "u64 \<Rightarrow> u64 \<Rightarrow> desc_meta \<Rightarrow> desc_meta" where
  "track_written off n d =
     (if off \<le> ucast (prefix_written d)
      then let local = off + n in
           d\<lparr>prefix_written := (if local < ucast (prefix_written d) \<or> 0xffffffff < local then 0xffffffff else ucast local)\<rparr>
      else d)"

function track_loop :: "nat \<Rightarrow> u64 \<Rightarrow> u64 \<Rightarrow> sg_buffer \<Rightarrow> sg_buffer option" where
  "track_loop it off n b =
     (if n = 0 then Some b
      else case nth_opt (desc_chain b) it of
        None \<Rightarrow> None
      | Some d \<Rightarrow>
          let sz = ucast (l_length d - ucast off) :: u64 in
          case upd_opt (chain_meta b) it (track_written off (if sz \<le> n then sz else n)) of
            None \<Rightarrow> None
          | Some ms \<Rightarrow> track_loop (Suc it) 0 (if sz \<le> n then n - sz else 0) (b\<lparr>chain_meta := ms\<rparr>))"
  by pat_completeness auto

termination track_loop
  by (relation "measure (\<lambda>(it, off, n, b). length (desc_chain b) - it)") auto

declare track_loop.simps [simp del]

definition buffer_track_written :: "u64 \<Rightarrow> u64 \<Rightarrow> sg_buffer \<Rightarrow> sg_buffer option" where
  "buffer_track_written off n b = do { (it, off) \<leftarrow> sg_find b off; track_loop it off n b }"

function lowerbound_loop :: "sg_buffer \<Rightarrow> u16 \<Rightarrow> u32 \<Rightarrow> u32 option" where
  "lowerbound_loop b i lb =
     (if i < active_chain_length b
      then case (nth_opt (desc_chain b) (unat i), nth_opt (chain_meta b) (unat i)) of
             (Some d, Some e) \<Rightarrow>
               if prefix_written e \<noteq> l_length d then Some (lb + prefix_written e)
               else lowerbound_loop b (i + 1) (lb + prefix_written e)
           | _ \<Rightarrow> None
      else Some lb)"
  by pat_completeness auto

termination lowerbound_loop
proof (relation "measure (\<lambda>(b, i, lb). unat (active_chain_length b - i))", goal_cases)
  case (2 b i lb)
  then have "active_chain_length b - i \<noteq> 0" by auto
  then have "unat (active_chain_length b - i - 1) < unat (active_chain_length b - i)"
    by (simp add: unat_minus_one unat_gt_0)
  then show ?case by (simp add: algebra_simps)
qed simp

declare lowerbound_loop.simps [simp del]

definition written_lowerbound :: "sg_buffer \<Rightarrow> u32 option" where
  "written_lowerbound b =
     (if seen_writable_desc b then lowerbound_loop b (snd (get_first_writable_desc b 0xffff)) 0 else Some 0)"

subsection \<open>The return of a chain\<close>

text \<open>The queue of a buffer is either end; \<open>dev\<close> tells which.\<close>

definition vq_send :: "bool \<Rightarrow> descriptor \<Rightarrow> u32 \<Rightarrow> memory \<times> vqueue \<Rightarrow> (memory \<times> vqueue) option" where
  "vq_send dev d len s = (if dev then dev_send d len s else drv_send d len s)"

definition vq_recv :: "bool \<Rightarrow> memory \<times> vqueue \<Rightarrow> (Errno \<times> descriptor option \<times> memory \<times> vqueue) option" where
  "vq_recv dev s = (if dev then dev_recv s else drv_recv s)"

definition conclude_chain_use :: "bool \<Rightarrow> bool \<Rightarrow> sg_buffer \<times> memory \<times> vqueue \<Rightarrow> (sg_buffer \<times> memory \<times> vqueue) option" where
  "conclude_chain_use dev send_incomplete s = (case s of (b, m, q) \<Rightarrow> do {
     (m, q) \<leftarrow> (if complete_chain b \<or> send_incomplete
                then do {
                  lb \<leftarrow> written_lowerbound b;
                  d \<leftarrow> nth_opt (chain_meta b) 0;
                  vq_send dev (md_desc d) lb (m, q)
                }
                else Some (m, q));
     b \<leftarrow> sg_reset b;
     Some (b, m, q)
   })"

subsection \<open>The walk along a chain\<close>

text \<open>
  The call-back of the walk is a parameter that changes a state of its own. One turn of the loop
  ends with a result (\<open>Inl\<close>) or goes on with the next descriptor (\<open>Inr\<close>).
\<close>

type_synonym 'x walk_cb = "Errno \<Rightarrow> u64 \<Rightarrow> u32 \<Rightarrow> u16 \<Rightarrow> u16 \<Rightarrow> 'x \<Rightarrow> 'x"
type_synonym 'x walk_result = "Errno \<times> 'x \<times> sg_buffer \<times> memory \<times> vqueue"

definition record_access :: "sg_buffer \<Rightarrow> u16 \<Rightarrow> u16 \<Rightarrow> Errno \<Rightarrow> Errno \<times> sg_buffer" where
  "record_access b cur flags err =
     (if err = NONE \<and> flags AND VIRTQ_DESC_WRITE_ONLY = 0
      then if seen_writable_desc b then (NOTRECOVERABLE, b) else (err, b\<lparr>seen_readable_desc := True\<rparr>)
      else if err = NONE
      then (err, (if seen_writable_desc b then b else b\<lparr>first_writable_desc := cur\<rparr>)\<lparr>seen_writable_desc := True\<rparr>)
      else (err, b))"

text \<open>
  The part of a turn that reads a descriptor into the next place of the arrays: the result, whether
  the chain goes on, and the descriptor after it.
\<close>

definition take_descriptor ::
    "memory \<Rightarrow> vqueue \<Rightarrow> descriptor \<Rightarrow> sg_buffer \<Rightarrow> (Errno \<times> linear_desc \<times> u16 \<times> bool \<times> descriptor \<times> sg_buffer) option" where
  "take_descriptor m q tmp b = do {
     let cur = active_chain_length b;
     e \<leftarrow> nth_opt (chain_meta b) (unat cur);
     let (err, flags, next_en, onext, tmp') = next_in_chain m q tmp (original_next e) (md_desc e);
     let d = \<lparr>l_address = desc_address m tmp, l_length = desc_length m tmp, l_flags = flags, linear_next = cur + 1\<rparr>;
     ds \<leftarrow> upd_opt (desc_chain b) (unat cur) (\<lambda>_. d);
     es \<leftarrow> upd_opt (chain_meta b) (unat cur) (\<lambda>_. \<lparr>md_desc = tmp, original_next = onext, prefix_written = 0\<rparr>);
     let b = b\<lparr>active_chain_length := cur + 1, sg_size_bytes := sg_size_bytes b + ucast (l_length d), desc_chain := ds,
                chain_meta := es\<rparr>;
     let (err, b) = record_access b cur flags err;
     let err = (if l_length d = 0 \<or> 0xffffffff < sg_size_bytes b then NOTRECOVERABLE else err);
     Some (err, d, onext, next_en, tmp', b)
   }"

definition walk_step ::
    "'x walk_cb \<Rightarrow> bool \<Rightarrow> memory \<Rightarrow> vqueue \<Rightarrow> descriptor \<Rightarrow> 'x \<Rightarrow> sg_buffer \<Rightarrow>
     ('x walk_result + descriptor \<times> 'x \<times> sg_buffer) option" where
  "walk_step cb dev m q tmp x b =
     (if active_chain_length b = max_chain_length b
      then do {
        ASSERT (max_chain_length b \<noteq> 0);
        d \<leftarrow> nth_opt (desc_chain b) (unat (max_chain_length b) - 1);
        e \<leftarrow> nth_opt (chain_meta b) (unat (max_chain_length b) - 1);
        let x = cb NOTRECOVERABLE (l_address d) (l_length d) (l_flags d) (original_next e) x;
        (b, m, q) \<leftarrow> conclude_chain_use dev True (b, m, q);
        Some (Inl (NOTRECOVERABLE, x, b, m, q))
      }
      else do {
        (err, d, onext, next_en, tmp', b) \<leftarrow> take_descriptor m q tmp b;
        let x = cb err (l_address d) (l_length d) (l_flags d) onext x;
        if err \<noteq> NONE
        then do { (b, m, q) \<leftarrow> conclude_chain_use dev True (b, m, q); Some (Inl (err, x, b, m, q)) }
        else if next_en then Some (Inr (tmp', x, b))
        else Some (Inl (NONE, x, b\<lparr>complete_chain := True\<rparr>, m, q))
      })"

lemma record_access_fields [simp]:
  "max_chain_length (snd (record_access b cur fl err)) = max_chain_length b"
  "active_chain_length (snd (record_access b cur fl err)) = active_chain_length b"
  "sg_size_bytes (snd (record_access b cur fl err)) = sg_size_bytes b"
  "complete_chain (snd (record_access b cur fl err)) = complete_chain b"
  "chain_for_device (snd (record_access b cur fl err)) = chain_for_device b"
  "desc_chain (snd (record_access b cur fl err)) = desc_chain b"
  "chain_meta (snd (record_access b cur fl err)) = chain_meta b"
  "cookie (snd (record_access b cur fl err)) = cookie b" "cookie_ptr (snd (record_access b cur fl err)) = cookie_ptr b"
  by (auto simp: record_access_def)

lemma take_descriptor_lengths:
  assumes "take_descriptor m q tmp b = Some (err, d, onext, en, tmp', b')"
  shows "max_chain_length b' = max_chain_length b" "active_chain_length b' = active_chain_length b + 1"
  using assms by (auto simp: take_descriptor_def Let_def bind_eq_Some_conv split_def)

lemma walk_step_Inr:
  assumes "walk_step cb dev m q tmp x b = Some (Inr (tmp', x', b'))"
  shows "active_chain_length b \<noteq> max_chain_length b" "max_chain_length b' = max_chain_length b"
    "active_chain_length b' = active_chain_length b + 1"
proof -
  show ne: "active_chain_length b \<noteq> max_chain_length b" using assms by (auto simp: walk_step_def bind_eq_Some_conv)
  obtain err d onext en where "take_descriptor m q tmp b = Some (err, d, onext, en, tmp', b')"
    using assms ne by (auto simp: walk_step_def Let_def bind_eq_Some_conv split: if_splits)
  then show "max_chain_length b' = max_chain_length b" "active_chain_length b' = active_chain_length b + 1"
    by (rule take_descriptor_lengths)+
qed

function walk_loop ::
    "'x walk_cb \<Rightarrow> bool \<Rightarrow> memory \<Rightarrow> vqueue \<Rightarrow> descriptor \<Rightarrow> 'x \<Rightarrow> sg_buffer \<Rightarrow> 'x walk_result option" where
  "walk_loop cb dev m q tmp x b =
     (case walk_step cb dev m q tmp x b of
        None \<Rightarrow> None
      | Some (Inl r) \<Rightarrow> Some r
      | Some (Inr (tmp', x', b')) \<Rightarrow> walk_loop cb dev m q tmp' x' b')"
  by pat_completeness auto

termination walk_loop
proof (relation "measure (\<lambda>(cb, dev, m, q, tmp, x, b). unat (max_chain_length b - active_chain_length b))", goal_cases)
  case (2 cb dev m q tmp x b r y tmp' z x' b')
  then have st: "walk_step cb dev m q tmp x b = Some (Inr (tmp', x', b'))" by simp
  note f = walk_step_Inr [OF st]
  have "max_chain_length b - active_chain_length b \<noteq> 0" using f(1) by auto
  then have "unat (max_chain_length b - active_chain_length b - 1) < unat (max_chain_length b - active_chain_length b)"
    by (simp add: unat_minus_one unat_gt_0)
  then show ?case by (simp add: f(2,3) algebra_simps)
qed simp

declare walk_loop.simps [simp del]

definition walk_chain_callback ::
    "'x walk_cb \<Rightarrow> bool \<Rightarrow> descriptor \<Rightarrow> 'x \<Rightarrow> sg_buffer \<times> memory \<times> vqueue \<Rightarrow> 'x walk_result option" where
  "walk_chain_callback cb dev root x s = (case s of (b, m, q) \<Rightarrow>
     if max_chain_length b < vq_size q
     then do {
       let x = cb NOMEM 0 0 0 0 x;
       (m, q) \<leftarrow> vq_send dev root 0 (m, q);
       Some (NOMEM, x, b, m, q)
     }
     else walk_loop cb dev m q root x (b\<lparr>chain_for_device := dev\<rparr>))"

text \<open>The overloads that receive the root descriptor themselves, and those without a call-back.\<close>

definition recv_and_walk :: "'x walk_cb \<Rightarrow> bool \<Rightarrow> 'x \<Rightarrow> sg_buffer \<times> memory \<times> vqueue \<Rightarrow> 'x walk_result option" where
  "recv_and_walk cb dev x s = (case s of (b, m, q) \<Rightarrow> do {
     (err, d, m, q) \<leftarrow> vq_recv dev (m, q);
     if err \<noteq> NONE then Some (err, x, b, m, q)
     else do { root \<leftarrow> d; walk_chain_callback cb dev root x (b, m, q) }
   })"

definition walk_nop :: "unit walk_cb" where
  "walk_nop err a l f n x = x"

definition walk_chain :: "bool \<Rightarrow> sg_buffer \<times> memory \<times> vqueue \<Rightarrow> unit walk_result option" where
  "walk_chain dev s = recv_and_walk walk_nop dev () s"

definition walk_chain_root :: "bool \<Rightarrow> descriptor \<Rightarrow> sg_buffer \<times> memory \<times> vqueue \<Rightarrow> unit walk_result option" where
  "walk_chain_root dev root s = walk_chain_callback walk_nop dev root () s"

subsection \<open>Building a chain\<close>

definition add_descriptor ::
    "descriptor \<Rightarrow> u64 \<Rightarrow> u32 \<Rightarrow> u16 \<Rightarrow> u16 \<Rightarrow> sg_buffer \<times> memory \<Rightarrow> (Errno \<times> sg_buffer \<times> memory) option" where
  "add_descriptor new_desc address len flags nxt s = (case s of (b, m) \<Rightarrow>
     let readable = (flags AND VIRTQ_DESC_WRITE_ONLY = 0) in
     if len = 0 then Some (BADR, b, m)
     else if 0xffffffff < sg_size_bytes b \<or> 0xffffffff < sg_size_bytes b + ucast len then Some (BADR, b, m)
     else if seen_writable_desc b \<and> readable then Some (PERM, b, m)
     else do {
       let cur = active_chain_length b;
       let b = b\<lparr>sg_size_bytes := sg_size_bytes b + ucast len\<rparr>;
       let b = (if readable then b\<lparr>seen_readable_desc := True\<rparr>
                else (if seen_writable_desc b then b else b\<lparr>first_writable_desc := cur\<rparr>)\<lparr>seen_writable_desc := True\<rparr>);
       ds \<leftarrow> upd_opt (desc_chain b) (unat cur)
              (\<lambda>_. \<lparr>l_address = address, l_length = len, l_flags = flags, linear_next = cur + 1\<rparr>);
       es \<leftarrow> upd_opt (chain_meta b) (unat cur) (\<lambda>e. e\<lparr>md_desc := new_desc, original_next := nxt\<rparr>);
       let m = desc_set_next new_desc nxt (desc_set_flags new_desc flags (desc_set_length new_desc len
                 (desc_set_address new_desc address m)));
       Some (NONE, b\<lparr>active_chain_length := cur + 1, desc_chain := ds, chain_meta := es\<rparr>, m)
     })"

definition add_link ::
    "descriptor \<Rightarrow> u64 \<Rightarrow> u32 \<Rightarrow> u16 \<Rightarrow> u16 \<Rightarrow> sg_buffer \<times> memory \<Rightarrow> (Errno \<times> sg_buffer \<times> memory) option" where
  "add_link d address len flags nxt s =
     (if flags AND VIRTQ_DESC_CONT_NEXT = 0 then Some (PERM, s) else add_descriptor d address len flags nxt s)"

definition add_final_link ::
    "descriptor \<Rightarrow> u64 \<Rightarrow> u32 \<Rightarrow> u16 \<Rightarrow> sg_buffer \<times> memory \<Rightarrow> (Errno \<times> sg_buffer \<times> memory) option" where
  "add_final_link d address len flags s =
     (if flags AND VIRTQ_DESC_CONT_NEXT \<noteq> 0 then Some (PERM, s)
      else do {
        (err, b, m) \<leftarrow> add_descriptor d address len flags 0 s;
        Some (err, if err = NONE then b\<lparr>complete_chain := True\<rparr> else b, m)
      })"

definition modify_link :: "nat \<Rightarrow> u64 \<Rightarrow> u32 \<Rightarrow> sg_buffer \<times> memory \<Rightarrow> (Errno \<times> sg_buffer \<times> memory) option" where
  "modify_link i address len s = (case s of (b, m) \<Rightarrow>
     if sg_end b \<le> i then Some (NOENT, b, m)
     else if len = 0 then Some (BADR, b, m)
     else do {
       d \<leftarrow> nth_opt (desc_chain b) i;
       e \<leftarrow> nth_opt (chain_meta b) i;
       let b = b\<lparr>sg_size_bytes := sg_size_bytes b - ucast (l_length d)\<rparr>;
       if 0xffffffff < sg_size_bytes b \<or> 0xffffffff < sg_size_bytes b + ucast len then Some (BADR, b, m)
       else Some (NONE,
         b\<lparr>sg_size_bytes := sg_size_bytes b + ucast len,
           desc_chain := (desc_chain b)[i := d\<lparr>l_address := address, l_length := len\<rparr>]\<rparr>,
         desc_set_length (md_desc e) len (desc_set_address (md_desc e) address m))
     })"

subsection \<open>Initialisation\<close>

text \<open>
  The three allocations of \<open>init\<close>, each of which may fail: \<open>oks\<close> tells which do not. A cookie that
  is allocated gets the address \<open>p\<close>.
\<close>

definition deinit_async_copy_cookie :: "sg_buffer \<Rightarrow> sg_buffer option" where
  "deinit_async_copy_cookie b = do {
     ASSERT (case cookie b of None \<Rightarrow> True | Some c \<Rightarrow> \<not> in_use c);
     Some (b\<lparr>cookie := None, cookie_ptr := 0\<rparr>)
   }"

definition deinit_desc_chain :: "sg_buffer \<Rightarrow> sg_buffer" where "deinit_desc_chain b = b\<lparr>desc_chain := []\<rparr>"
definition deinit_desc_chain_metadata :: "sg_buffer \<Rightarrow> sg_buffer" where "deinit_desc_chain_metadata b = b\<lparr>chain_meta := []\<rparr>"

definition cookie_new :: async_cookie where
  "cookie_new = \<lparr>copy_started = False, other_is_sg = False, copy_is_src = False, pending_dsts = 0, req_sz = - 1,
     req_d_off = - 1, req_s_off = - 1, cookie_src = None, linear_src = 0, linear_dst = 0\<rparr>"

definition sg_init :: "nat \<Rightarrow> bool \<Rightarrow> bool \<Rightarrow> bool \<Rightarrow> sg_buffer \<Rightarrow> (Errno \<times> sg_buffer) option" where
  "sg_init p ok_cookie ok_chain ok_meta b =
     (if \<not> ok_cookie then Some (NOMEM, b\<lparr>cookie := None, cookie_ptr := 0\<rparr>)
      else let b = b\<lparr>cookie := Some cookie_new, cookie_ptr := p\<rparr> in
      if \<not> ok_chain then do { b \<leftarrow> deinit_async_copy_cookie (b\<lparr>desc_chain := []\<rparr>); Some (NOMEM, b) }
      else let b = b\<lparr>desc_chain := replicate (unat (max_chain_length b)) linear_desc_new\<rparr> in
      if \<not> ok_meta
      then do { b \<leftarrow> deinit_async_copy_cookie (b\<lparr>chain_meta := []\<rparr>); Some (NOMEM, deinit_desc_chain b) }
      else Some (NONE, b\<lparr>chain_meta := replicate (unat (max_chain_length b)) desc_meta_new\<rparr>))"

definition sg_deinit :: "sg_buffer \<Rightarrow> sg_buffer option" where
  "sg_deinit b = deinit_async_copy_cookie (deinit_desc_chain (deinit_desc_chain_metadata b))"

subsection \<open>What a valid chain is\<close>

text \<open>The descriptors of a chain in shared memory, at most \<open>n\<close> of them, or none if it does not end in them.\<close>

fun chain_spec :: "nat \<Rightarrow> memory \<Rightarrow> vqueue \<Rightarrow> descriptor \<Rightarrow> descriptor list option" where
  "chain_spec 0 m q d = None"
| "chain_spec (Suc n) m q d =
     (if desc_flags m d AND VIRTQ_DESC_CONT_NEXT = 0 then Some [d]
      else if vq_size q \<le> desc_next m d then None
      else map_option (\<lambda>ds. d # ds) (chain_spec n m q (desc_at (descriptor_base q) (desc_next m d))))"

text \<open>No empty descriptor, less than four gigabytes in all, and what the device reads before what it writes.\<close>

fun chain_ok :: "bool \<Rightarrow> nat \<Rightarrow> (u64 \<times> u32 \<times> u16) list \<Rightarrow> bool" where
  "chain_ok w n [] = True"
| "chain_ok w n ((a, l, f) # ds) \<longleftrightarrow> l \<noteq> 0 \<and> n + unat l \<le> UINT32_MAX \<and>
     (if f AND VIRTQ_DESC_WRITE_ONLY = 0 then \<not> w \<and> chain_ok False (n + unat l) ds else chain_ok True (n + unat l) ds)"

definition read_desc :: "memory \<Rightarrow> descriptor \<Rightarrow> u64 \<times> u32 \<times> u16" where
  "read_desc m d = (desc_address m d, desc_length m d, desc_flags m d)"

definition valid_chain :: "nat \<Rightarrow> memory \<Rightarrow> vqueue \<Rightarrow> descriptor \<Rightarrow> descriptor list option" where
  "valid_chain n m q root =
     (case chain_spec n m q root of
        None \<Rightarrow> None
      | Some ds \<Rightarrow> if chain_ok False 0 (map (read_desc m) ds) then Some ds else None)"

text \<open>The buffer holds the descriptors \<open>ds\<close> with what the memory said of them.\<close>

definition is_writable :: "u64 \<times> u32 \<times> u16 \<Rightarrow> bool" where
  "is_writable d \<longleftrightarrow> snd (snd d) AND VIRTQ_DESC_WRITE_ONLY \<noteq> 0"

definition sg_holds :: "memory \<Rightarrow> descriptor list \<Rightarrow> sg_buffer \<Rightarrow> bool" where
  "sg_holds m ds b \<longleftrightarrow>
     sg_end b = length ds \<and> length ds \<le> unat (max_chain_length b) \<and>
     length (desc_chain b) = unat (max_chain_length b) \<and> length (chain_meta b) = unat (max_chain_length b) \<and>
     (\<forall>i < length ds. (l_address (desc_chain b ! i), l_length (desc_chain b ! i), l_flags (desc_chain b ! i)) = read_desc m (ds ! i) \<and>
        linear_next (desc_chain b ! i) = of_nat (Suc i) \<and> md_desc (chain_meta b ! i) = ds ! i \<and> prefix_written (chain_meta b ! i) = 0) \<and>
     unat (sg_size_bytes b) = sum_list (map (\<lambda>d. unat (desc_length m d)) ds) \<and>
     seen_writable_desc b = list_ex is_writable (map (read_desc m) ds) \<and>
     seen_readable_desc b = list_ex (\<lambda>d. \<not> is_writable d) (map (read_desc m) ds) \<and>
     (if seen_writable_desc b then unat (first_writable_desc b) = length (takeWhile (\<lambda>d. \<not> is_writable d) (map (read_desc m) ds))
      else first_writable_desc b = 0xffff)"

subsection \<open>The walk and the reference definition\<close>

text \<open>An initialised buffer between two chains.\<close>

definition sg_ready :: "sg_buffer \<Rightarrow> bool" where
  "sg_ready b \<longleftrightarrow>
     active_chain_length b = 0 \<and> sg_size_bytes b = 0 \<and> \<not> complete_chain b \<and> \<not> seen_readable_desc b \<and>
     \<not> seen_writable_desc b \<and> first_writable_desc b = 0xffff \<and> length (desc_chain b) = unat (max_chain_length b) \<and>
     length (chain_meta b) = unat (max_chain_length b) \<and> (case cookie b of None \<Rightarrow> True | Some c \<Rightarrow> \<not> in_use c)"

abbreviation chain_bytes :: "memory \<Rightarrow> descriptor list \<Rightarrow> nat" where
  "chain_bytes m ds \<equiv> sum_list (map (\<lambda>d. unat (desc_length m d)) ds)"

lemma chain_ok_append:
  "chain_ok w n (xs @ ys) \<longleftrightarrow>
     chain_ok w n xs \<and> chain_ok (w \<or> list_ex is_writable xs) (n + sum_list (map (\<lambda>d. unat (fst (snd d))) xs)) ys"
proof (induction w n xs rule: chain_ok.induct)
  case (2 w n a l f ds)
  then show ?case by (cases w) (auto simp: is_writable_def algebra_simps)
qed simp

lemma chain_ok_first: "chain_ok w n (x # xs) \<Longrightarrow> chain_ok w n [x]"
  by (cases x) (auto split: if_splits)

lemma chain_ok_bytes:
  "chain_ok w n xs \<Longrightarrow> n \<le> UINT32_MAX \<Longrightarrow> n + sum_list (map (\<lambda>d. unat (fst (snd d))) xs) \<le> UINT32_MAX"
  by (induction w n xs rule: chain_ok.induct) (auto split: if_splits simp: algebra_simps)

text \<open>A buffer whose chain can be given back: the root at the front and nothing written.\<close>

definition returnable :: "descriptor \<Rightarrow> sg_buffer \<Rightarrow> bool" where
  "returnable root b \<longleftrightarrow>
     sg_end b \<le> length (desc_chain b) \<and> sg_end b \<le> length (chain_meta b) \<and> chain_meta b \<noteq> [] \<and>
     md_desc (chain_meta b ! 0) = root \<and> (\<forall>i < sg_end b. prefix_written (chain_meta b ! i) = 0) \<and>
     length (desc_chain b) = unat (max_chain_length b) \<and> length (chain_meta b) = unat (max_chain_length b) \<and>
     (case cookie b of None \<Rightarrow> True | Some c \<Rightarrow> \<not> in_use c)"

lemma lowerbound_zero:
  "returnable root b \<Longrightarrow> lb = 0 \<Longrightarrow> lowerbound_loop b i lb = Some 0"
proof (induction b i lb rule: lowerbound_loop.induct)
  case (1 b i lb)
  show ?case
  proof (cases "i < active_chain_length b")
    case True
    then have i: "unat i < sg_end b" by (simp add: word_less_nat_alt)
    then have e: "nth_opt (desc_chain b) (unat i) = Some (desc_chain b ! unat i)"
      "nth_opt (chain_meta b) (unat i) = Some (chain_meta b ! unat i)" "prefix_written (chain_meta b ! unat i) = 0"
      using 1(2) by (auto simp: returnable_def)
    then show ?thesis
      using 1(1) [OF True _ e(1,2)] 1(2,3) True by (subst lowerbound_loop.simps) (simp add: nth_opt_def)
  qed (use 1(3) in \<open>simp add: lowerbound_loop.simps\<close>)
qed

lemma conclude_returnable:
  assumes "returnable root b"
  shows "conclude_chain_use dev True (b, m, q) =
    map_option (\<lambda>(m', q'). (reset_fields b, m', q')) (vq_send dev root 0 (m, q))"
proof -
  have "written_lowerbound b = Some 0" using lowerbound_zero [OF assms] by (simp add: written_lowerbound_def)
  moreover have "nth_opt (chain_meta b) 0 = Some (chain_meta b ! 0)" "md_desc (chain_meta b ! 0) = root"
    "sg_reset b = Some (reset_fields b)"
    using assms by (auto simp: returnable_def sg_reset_def nth_opt_def simp flip: length_greater_0_conv)
  ultimately show ?thesis
    by (cases "vq_send dev root 0 (m, q)") (auto simp: conclude_chain_use_def nth_opt_def)
qed

lemma reset_ready: "returnable root b \<Longrightarrow> sg_ready (reset_fields b)"
  by (auto simp: returnable_def sg_ready_def reset_fields_def cookie_reset_def split: option.splits)

lemma next_in_chain_cases:
  "next_in_chain m q d nxt nd =
     (if desc_flags m d AND VIRTQ_DESC_CONT_NEXT = 0 then (NONE, desc_flags m d, False, nxt, nd)
      else if vq_size q \<le> desc_next m d then (NOTRECOVERABLE, desc_flags m d, True, desc_next m d, nd)
      else (NONE, desc_flags m d, True, desc_next m d, desc_at (descriptor_base q) (desc_next m d)))"
  by (simp add: next_in_chain_def Let_def)

lemma next_in_chain_flags: "fst (snd (next_in_chain m q d nxt nd)) = desc_flags m d"
  by (simp add: next_in_chain_cases)

text \<open>Another descriptor is acceptable after those of the buffer.\<close>

definition next_ok :: "memory \<Rightarrow> vqueue \<Rightarrow> descriptor \<Rightarrow> bool" where
  "next_ok m q d \<longleftrightarrow> desc_flags m d AND VIRTQ_DESC_CONT_NEXT = 0 \<or> \<not> vq_size q \<le> desc_next m d"

lemma take_descriptor_holds:
  assumes h: "sg_holds m ds b" and room: "length ds < unat (max_chain_length b)" and ok: "chain_ok False 0 (map (read_desc m) ds)"
    and cookie: "case cookie b of None \<Rightarrow> True | Some c \<Rightarrow> \<not> in_use c" and root: "root = hd (ds @ [d])"
  obtains err ld onext tmp' b' where
    "take_descriptor m q d b = Some (err, ld, onext, desc_flags m d AND VIRTQ_DESC_CONT_NEXT \<noteq> 0, tmp', b')"
    "returnable root b'" "max_chain_length b' = max_chain_length b" "cookie b' = cookie b" "complete_chain b' = complete_chain b"
    "chain_for_device b' = chain_for_device b"
    "err = (if next_ok m q d \<and> chain_ok False 0 (map (read_desc m) (ds @ [d])) then NONE else NOTRECOVERABLE)"
    "err = NONE \<Longrightarrow> sg_holds m (ds @ [d]) b'"
    "err = NONE \<Longrightarrow> desc_flags m d AND VIRTQ_DESC_CONT_NEXT \<noteq> 0 \<Longrightarrow> tmp' = desc_at (descriptor_base q) (desc_next m d)"
proof -
  let ?n = "length ds"
  let ?cur = "active_chain_length b"
  have act: "unat ?cur = ?n" and len: "length (desc_chain b) = unat (max_chain_length b)" "length (chain_meta b) = unat (max_chain_length b)"
    using h by (auto simp: sg_holds_def)
  have mx: "unat (max_chain_length b) < 65536" using unsigned_less [of "max_chain_length b", where 'a = nat] by simp
  have act1: "unat (?cur + 1) = Suc ?n" using room mx act by (simp add: unat_plus_no_wrap)
  have at1: "?cur + 1 = of_nat (Suc ?n)" using act by (metis of_nat_Suc of_nat_unat ucast_id add.commute)
  have lt: "?n < length (desc_chain b)" "?n < length (chain_meta b)" using room len by simp_all
  define e where "e = chain_meta b ! ?n"
  obtain er fl en onext tmp' where nx: "next_in_chain m q d (original_next e) (md_desc e) = (er, fl, en, onext, tmp')"
    by (metis prod_cases5)
  have fl: "fl = desc_flags m d" "en \<longleftrightarrow> desc_flags m d AND VIRTQ_DESC_CONT_NEXT \<noteq> 0"
    and er: "er = (if next_ok m q d then NONE else NOTRECOVERABLE)"
    and tm: "next_ok m q d \<Longrightarrow> en \<Longrightarrow> tmp' = desc_at (descriptor_base q) (desc_next m d)"
    using nx by (auto simp: next_in_chain_cases next_ok_def split: if_splits)
  let ?ld = "\<lparr>l_address = desc_address m d, l_length = desc_length m d, l_flags = fl, linear_next = ?cur + 1\<rparr>"
  let ?md = "\<lparr>md_desc = d, original_next = onext, prefix_written = 0\<rparr>"
  define b1 where "b1 = b\<lparr>active_chain_length := ?cur + 1, sg_size_bytes := sg_size_bytes b + ucast (desc_length m d),
     desc_chain := (desc_chain b)[?n := ?ld], chain_meta := (chain_meta b)[?n := ?md]\<rparr>"
  obtain er2 b2 where ra: "record_access b1 ?cur fl er = (er2, b2)" by (cases "record_access b1 ?cur fl er")
  note f = record_access_fields [of b1 ?cur fl er, unfolded ra snd_conv]
  let ?err = "if desc_length m d = 0 \<or> 0xffffffff < sg_size_bytes b2 then NOTRECOVERABLE else er2"
  have take: "take_descriptor m q d b = Some (?err, ?ld, onext, en, tmp', b2)"
    using lt nx ra by (simp add: take_descriptor_def act nth_opt_def upd_opt_def e_def b1_def Let_def)
  have holds: "\<forall>i < ?n. (l_address (desc_chain b ! i), l_length (desc_chain b ! i), l_flags (desc_chain b ! i)) = read_desc m (ds ! i) \<and>
        linear_next (desc_chain b ! i) = of_nat (Suc i) \<and> md_desc (chain_meta b ! i) = ds ! i \<and> prefix_written (chain_meta b ! i) = 0"
    using h by (simp add: sg_holds_def)
  have ret: "returnable root b2"
  proof -
    have "md_desc ((chain_meta b)[?n := ?md] ! 0) = root" using root holds lt by (cases ds) auto
    then show ?thesis using f act1 len lt cookie holds by (auto simp: returnable_def b1_def nth_list_update less_Suc_eq)
  qed
  have sz: "unat (sg_size_bytes b) = chain_bytes m ds" "chain_bytes m ds \<le> UINT32_MAX"
    using h chain_ok_bytes [OF ok] by (simp_all add: sg_holds_def read_desc_def comp_def)
  have sz2: "unat (sg_size_bytes b2) = chain_bytes m ds + unat (desc_length m d)"
    using f(3) sz unsigned_less [of "desc_length m d", where 'a = nat] by (simp add: b1_def unat_plus_no_wrap)
  have seen: "seen_writable_desc b1 = list_ex is_writable (map (read_desc m) ds)" using h by (simp add: b1_def sg_holds_def)
  have w: "is_writable (read_desc m d) \<longleftrightarrow> fl AND VIRTQ_DESC_WRITE_ONLY \<noteq> 0" by (simp add: is_writable_def read_desc_def fl)
  have big: "0xffffffff < sg_size_bytes b2 \<longleftrightarrow> UINT32_MAX < chain_bytes m ds + unat (desc_length m d)"
    by (simp add: word_less_nat_alt sz2)
  have ok1: "chain_ok False 0 (map (read_desc m) (ds @ [d])) \<longleftrightarrow> desc_length m d \<noteq> 0 \<and> \<not> 0xffffffff < sg_size_bytes b2 \<and>
      \<not> (seen_writable_desc b1 \<and> fl AND VIRTQ_DESC_WRITE_ONLY = 0)"
    using ok seen by (auto simp: chain_ok_append big read_desc_def fl comp_def)
  have er2: "er2 = (if er = NONE \<and> fl AND VIRTQ_DESC_WRITE_ONLY = 0 \<and> seen_writable_desc b1 then NOTRECOVERABLE else er)"
    using ra by (auto simp: record_access_def split: if_splits)
  have err: "?err = (if next_ok m q d \<and> chain_ok False 0 (map (read_desc m) (ds @ [d])) then NONE else NOTRECOVERABLE)"
    unfolding ok1 er2 er by auto
  have hold2: "sg_holds m (ds @ [d]) b2" if ne: "?err = NONE"
  proof -
    have e2: "er2 = NONE" using ne by (auto split: if_splits)
    have b2: "b2 = (if fl AND VIRTQ_DESC_WRITE_ONLY = 0 then b1\<lparr>seen_readable_desc := True\<rparr>
        else (if seen_writable_desc b1 then b1 else b1\<lparr>first_writable_desc := ?cur\<rparr>)\<lparr>seen_writable_desc := True\<rparr>)"
      and ro: "fl AND VIRTQ_DESC_WRITE_ONLY = 0 \<Longrightarrow> \<not> seen_writable_desc b1"
      using ra e2 by (auto simp: record_access_def split: if_splits)
    let ?rs = "map (read_desc m) ds"
    have seenr: "seen_readable_desc b1 = list_ex (\<lambda>d. \<not> is_writable d) ?rs"
      and fw: "if seen_writable_desc b1 then unat (first_writable_desc b1) = length (takeWhile (\<lambda>d. \<not> is_writable d) ?rs)
        else first_writable_desc b1 = 0xffff"
      using h by (simp_all add: b1_def sg_holds_def)
    have tw: "length (takeWhile (\<lambda>d. \<not> is_writable d) (?rs @ [read_desc m d])) =
        (if list_ex is_writable ?rs then length (takeWhile (\<lambda>d. \<not> is_writable d) ?rs)
         else ?n + (if is_writable (read_desc m d) then 0 else 1))"
      by (auto simp: list_ex_iff takeWhile_append)
    have seen2: "seen_writable_desc b2 = list_ex is_writable (?rs @ [read_desc m d])"
      "seen_readable_desc b2 = list_ex (\<lambda>d. \<not> is_writable d) (?rs @ [read_desc m d])"
      using seen seenr w ro by (auto simp: b2)
    have fw2: "if seen_writable_desc b2
        then unat (first_writable_desc b2) = length (takeWhile (\<lambda>d. \<not> is_writable d) (?rs @ [read_desc m d]))
        else first_writable_desc b2 = 0xffff"
      using fw seen w ro act unfolding tw by (auto simp: b2)
    show ?thesis
      unfolding sg_holds_def
      using f act1 at1 len lt room holds sz2 seen2 fw2
      by (auto simp: b1_def nth_append nth_list_update less_Suc_eq read_desc_def fl(1))
  qed
  show ?thesis
  proof (rule that [OF take [unfolded fl(2)] ret _ _ _ _ err hold2])
    show "max_chain_length b2 = max_chain_length b" "cookie b2 = cookie b" "complete_chain b2 = complete_chain b"
      "chain_for_device b2 = chain_for_device b" using f by (simp_all add: b1_def)
    show "tmp' = desc_at (descriptor_base q) (desc_next m d)"
      if "?err = NONE" "desc_flags m d AND VIRTQ_DESC_CONT_NEXT \<noteq> 0"
      using that err fl(2) tm by (auto split: if_splits)
  qed
qed

lemma sg_holds_returnable:
  assumes "sg_holds m ds b" "ds \<noteq> []" "case cookie b of None \<Rightarrow> True | Some c \<Rightarrow> \<not> in_use c"
  shows "returnable (hd ds) b"
proof -
  have "0 < length ds" using assms(2) by simp
  then show ?thesis using assms by (auto simp: returnable_def sg_holds_def hd_conv_nth)
qed

lemma sg_holds_congs:
  "sg_holds m ds (b\<lparr>complete_chain := x\<rparr>) = sg_holds m ds b" "sg_holds m ds (b\<lparr>chain_for_device := y\<rparr>) = sg_holds m ds b"
  by (simp_all add: sg_holds_def)

text \<open>The result of the walk for the chain that the reference definition gives.\<close>

definition walk_result_ok :: "bool \<Rightarrow> memory \<Rightarrow> vqueue \<Rightarrow> descriptor \<Rightarrow> descriptor list option \<Rightarrow> 'x walk_result option \<Rightarrow> bool" where
  "walk_result_ok dev m q root chain r =
     (case chain of
        Some ds \<Rightarrow> \<exists>x b. r = Some (NONE, x, b, m, q) \<and> sg_holds m ds b \<and> complete_chain b \<and> chain_for_device b = dev
      | None \<Rightarrow> \<exists>x b m' q'. r = Some (NOTRECOVERABLE, x, b, m', q') \<and> vq_send dev root 0 (m, q) = Some (m', q') \<and> sg_ready b)"

lemma rejected:
  assumes "returnable root b" "vq_send dev root 0 (m, q) = Some s"
  shows "\<exists>m' q'. conclude_chain_use dev True (b, m, q) = Some (reset_fields b, m', q') \<and>
    vq_send dev root 0 (m, q) = Some (m', q') \<and> sg_ready (reset_fields b)"
  using conclude_returnable [OF assms(1), of dev m q] assms(2) reset_ready [OF assms(1)] by (cases s) simp

lemma walk_loop_spec:
  assumes "sg_holds m ds b" "chain_ok False 0 (map (read_desc m) ds)"
    and "case cookie b of None \<Rightarrow> True | Some c \<Rightarrow> \<not> in_use c" "root = hd (ds @ [d])"
    and "length ds + n = unat (max_chain_length b)" "max_chain_length b \<noteq> 0" "vq_send dev root 0 (m, q) = Some s"
    and "chain_for_device b = dev"
  shows "walk_result_ok dev m q root
     (case chain_spec n m q d of None \<Rightarrow> None
      | Some es \<Rightarrow> if chain_ok False 0 (map (read_desc m) (ds @ es)) then Some (ds @ es) else None)
     (walk_loop cb dev m q d x b)"
  using assms
proof (induction n arbitrary: ds b d x)
  case 0
  have full: "active_chain_length b = max_chain_length b" using 0(1,5) by (simp add: sg_holds_def word_unat_eq_iff)
  have "0 < unat (max_chain_length b)" using 0(6) by (simp add: unat_gt_0)
  then have len: "unat (max_chain_length b) - 1 < length (desc_chain b)" "unat (max_chain_length b) - 1 < length (chain_meta b)" "ds \<noteq> []"
    using 0(1,5) by (auto simp: sg_holds_def)
  then have "returnable root b" using sg_holds_returnable [OF 0(1) _ 0(3)] 0(4) by simp
  from rejected [OF this 0(7)] show ?case
    using len full 0(6) by (subst walk_loop.simps) (auto simp: walk_step_def nth_opt_def walk_result_ok_def Let_def)
next
  case (Suc n)
  have room: "length ds < unat (max_chain_length b)" using Suc.prems(5) by simp
  have nfull: "active_chain_length b \<noteq> max_chain_length b" using Suc.prems(1) room by (auto simp: sg_holds_def)
  let ?en = "desc_flags m d AND VIRTQ_DESC_CONT_NEXT \<noteq> 0"
  obtain err ld onext tmp' b' where t: "take_descriptor m q d b = Some (err, ld, onext, ?en, tmp', b')"
    "returnable root b'" "max_chain_length b' = max_chain_length b" "cookie b' = cookie b" "complete_chain b' = complete_chain b"
    "chain_for_device b' = chain_for_device b"
    "err = (if next_ok m q d \<and> chain_ok False 0 (map (read_desc m) (ds @ [d])) then NONE else NOTRECOVERABLE)"
    "err = NONE \<Longrightarrow> sg_holds m (ds @ [d]) b'" "err = NONE \<Longrightarrow> ?en \<Longrightarrow> tmp' = desc_at (descriptor_base q) (desc_next m d)"
  proof (rule take_descriptor_holds [OF Suc.prems(1) room Suc.prems(2-4), of q], goal_cases)
    case 1
    from 1(2-) show thesis by (rule 1(1))
  qed
  show ?case
  proof (cases "err = NONE")
    case False
    then have e: "err = NOTRECOVERABLE" and bad: "\<not> (next_ok m q d \<and> chain_ok False 0 (map (read_desc m) (ds @ [d])))"
      using t(7) by (auto split: if_splits)
    have none: "(case chain_spec (Suc n) m q d of None \<Rightarrow> None
        | Some es \<Rightarrow> if chain_ok False 0 (map (read_desc m) (ds @ es)) then Some (ds @ es) else None) = None"
      using bad Suc.prems(2) by (auto simp: next_ok_def chain_ok_append dest: chain_ok_first split: option.splits)
    show ?thesis
      unfolding none using rejected [OF t(2) Suc.prems(7)] t(1) nfull e
      by (subst walk_loop.simps) (auto simp: walk_step_def walk_result_ok_def Let_def)
  next
    case True
    then have ok: "next_ok m q d" "chain_ok False 0 (map (read_desc m) (ds @ [d]))" using t(7) by (auto split: if_splits)
    note h' = t(8) [OF True]
    show ?thesis
    proof (cases ?en)
      case False
      then have "walk_loop cb dev m q d x b = Some (NONE, cb err (l_address ld) (l_length ld) (l_flags ld) onext x,
          b'\<lparr>complete_chain := True\<rparr>, m, q)"
        using t(1) nfull True by (subst walk_loop.simps) (simp add: walk_step_def Let_def)
      then show ?thesis using False ok(2) h' t(6) Suc.prems(8) by (simp add: walk_result_ok_def sg_holds_congs)
    next
      case en: True
      have sp: "chain_spec (Suc n) m q d = map_option (\<lambda>es. d # es) (chain_spec n m q tmp')"
        using en ok(1) t(9) [OF True en] by (simp add: next_ok_def)
      have lp: "walk_loop cb dev m q d x b = walk_loop cb dev m q tmp' (cb err (l_address ld) (l_length ld) (l_flags ld) onext x) b'"
        using t(1) nfull True en by (subst walk_loop.simps) (simp add: walk_step_def Let_def)
      have "walk_result_ok dev m q root
         (case chain_spec n m q tmp' of None \<Rightarrow> None
          | Some es \<Rightarrow> if chain_ok False 0 (map (read_desc m) ((ds @ [d]) @ es)) then Some ((ds @ [d]) @ es) else None)
         (walk_loop cb dev m q d x b)"
        unfolding lp
        by (rule Suc.IH [OF h' ok(2)]) (use Suc.prems t in \<open>simp_all add: hd_append\<close>)
      then show ?thesis unfolding sp by (cases "chain_spec n m q tmp'") (auto split: if_splits)
    qed
  qed
qed

lemma vq_send_total: "vq_wf q \<Longrightarrow> \<exists>s. vq_send dev d len (m, q) = Some s"
  by (simp add: vq_send_def dev_send_def drv_send_def bump_driven_idx_def ring_slot_valid vq_wf_def)

text \<open>
  C16: the walk along a chain agrees with the reference definition for every content of the shared
  memory. If the descriptors from the root on end within the capacity of the buffer, with no index
  outside the table, no empty one, less than four gigabytes in all and no readable one after a
  writable one, the walk succeeds, the buffer holds exactly these descriptors with their addresses,
  lengths and flags, and memory and queue are as before. In every other case, a chain that loops
  included, it ends with \<open>NOTRECOVERABLE\<close>, the root has been given back with length 0, and the
  buffer is ready for the next chain.
\<close>

theorem sg_walk_agrees:
  assumes "sg_ready b" "vq_wf q" "vq_size q \<le> max_chain_length b"
  shows "walk_result_ok dev m q root (valid_chain (unat (max_chain_length b)) m q root)
    (walk_chain_callback cb dev root x (b, m, q))"
proof -
  let ?b = "b\<lparr>chain_for_device := dev\<rparr>"
  have "vq_size q \<noteq> 0" using assms(2) by (auto simp: vq_wf_def is_size_valid_def)
  then have n0: "max_chain_length b \<noteq> 0" using assms(3) by (metis word_le_0_iff)
  obtain s where s: "vq_send dev root 0 (m, q) = Some s" using vq_send_total [OF assms(2)] by blast
  have h: "sg_holds m [] ?b" using assms(1) by (auto simp: sg_ready_def sg_holds_def)
  have "walk_result_ok dev m q root
     (case chain_spec (unat (max_chain_length b)) m q root of None \<Rightarrow> None
      | Some es \<Rightarrow> if chain_ok False 0 (map (read_desc m) ([] @ es)) then Some ([] @ es) else None)
     (walk_loop cb dev m q root x ?b)"
    by (rule walk_loop_spec [OF h _ _ _ _ _ s]) (use assms(1) n0 in \<open>simp_all add: sg_ready_def\<close>)
  moreover have "\<not> max_chain_length b < vq_size q" using assms(3) by (simp add: not_less)
  ultimately show ?thesis by (cases "chain_spec (unat (max_chain_length b)) m q root") (auto simp: walk_chain_callback_def valid_chain_def split: if_splits)
qed

text \<open>An initialised buffer for chains of up to four descriptors.\<close>

definition demo_buffer :: sg_buffer where
  "demo_buffer = (buffer_new 4)\<lparr>cookie := Some cookie_new, cookie_ptr := 1, desc_chain := replicate 4 linear_desc_new,
     chain_meta := replicate 4 desc_meta_new\<rparr>"

lemma demo_buffer_ready: "sg_ready demo_buffer"
  by (simp add: sg_ready_def demo_buffer_def buffer_new_def cookie_new_def)

text \<open>A descriptor that has itself as its successor.\<close>

theorem sg_walk_agrees_witness:
  "\<exists>q b' m' q'. queue_new 0x1000 0x2000 0x3000 2 = Some q \<and>
     walk_chain_callback walk_nop True (desc_at 0x1000 0) () (demo_buffer, \<lambda>a. if a \<in> {0x1008, 0x100c} then 1 else 0, q) =
       Some (NOTRECOVERABLE, (), b', m', q') \<and> sg_ready b'"
proof -
  define m where "m = (\<lambda>a :: u64. if a \<in> {0x1008, 0x100c} then 1 else 0 :: u8)"
  obtain q where q: "queue_new 0x1000 0x2000 0x3000 2 = Some q" "vq_size q = 2" "descriptor_base q = 0x1000"
    by (simp add: queue_new_def is_size_valid_def)
  have wf: "vq_wf q"
    by (rule queue_new_wf [OF q(1)]) (simp add: apart_def avail_region_bytes_def used_region_bytes_def)
  have f: "desc_flags m (desc_at 0x1000 0) = 1" "desc_next m (desc_at 0x1000 0) = 0"
    by (simp_all add: desc_flags_def desc_next_def desc_at_def get_offset_16 m_def)
  have "chain_spec n m q (desc_at 0x1000 0) = None" for n
    by (induction n) (use f q in simp_all)
  then have "valid_chain (unat (max_chain_length demo_buffer)) m q (desc_at 0x1000 0) = None" by (simp add: valid_chain_def)
  moreover have "vq_size q \<le> max_chain_length demo_buffer"
    by (simp add: q(2) demo_buffer_def buffer_new_def word_le_nat_alt)
  ultimately have "walk_result_ok True m q (desc_at 0x1000 0) None
      (walk_chain_callback walk_nop True (desc_at 0x1000 0) () (demo_buffer, m, q))"
    using sg_walk_agrees [OF demo_buffer_ready wf] by metis
  then show ?thesis using q(1) by (auto simp: walk_result_ok_def m_def)
qed

subsection \<open>The count of the written bytes goes wrong\<close>

lemma track_loop_0 [simp]: "track_loop it off 0 b = Some b"
  by (simp add: track_loop.simps)

lemma track_single:
  assumes "desc_chain b \<noteq> []" "chain_meta b \<noteq> []" "n \<noteq> 0" "n \<le> ucast (l_length (desc_chain b ! 0))"
  shows "buffer_track_written 0 n b = Some (b\<lparr>chain_meta := (chain_meta b)[0 := track_written 0 n (chain_meta b ! 0)]\<rparr>)"
proof -
  let ?L = "ucast (l_length (desc_chain b ! 0)) :: u64"
  have "(if ?L \<le> n then ?L else n) = n" "(if ?L \<le> n then n - ?L else 0) = 0" using assms(4) by auto
  then show ?thesis
    using assms(1-3) by (simp add: buffer_track_written_def sg_find_def, subst track_loop.simps)
      (simp add: Let_def nth_opt_def upd_opt_def)
qed

lemma lowerbound_single:
  assumes "active_chain_length b = 1" "desc_chain b \<noteq> []" "chain_meta b \<noteq> []" "seen_writable_desc b" "first_writable_desc b = 0"
  shows "written_lowerbound b = Some (prefix_written (chain_meta b ! 0))"
  using assms by (simp add: written_lowerbound_def get_first_writable_desc_def lowerbound_loop.simps nth_opt_def)

text \<open>
  A device that writes the first \<open>n\<close> bytes of a chain of one writable descriptor and then writes
  the first \<open>k\<close> bytes again, with \<open>k < n\<close>, gives the chain back with the length 4294967295, whatever
  the length of the descriptor; after the first write the count was \<open>n\<close>. (The check for an overflow
  of the count also takes a shorter rewrite for one.)
\<close>

theorem sg_rewrite_overstates:
  assumes "sg_holds m [d] b" "desc_flags m d AND VIRTQ_DESC_WRITE_ONLY \<noteq> 0" "0 < k" "k < n" "n \<le> ucast (desc_length m d)"
  shows "\<exists>b1 b2. buffer_track_written 0 n b = Some b1 \<and> written_lowerbound b1 = Some (ucast n) \<and>
     buffer_track_written 0 k b1 = Some b2 \<and> written_lowerbound b2 = Some 4294967295"
proof -
  have h: "desc_chain b \<noteq> []" "chain_meta b \<noteq> []" "l_length (desc_chain b ! 0) = desc_length m d"
    "prefix_written (chain_meta b ! 0) = 0" "seen_writable_desc b" "first_writable_desc b = 0" "sg_end b = 1"
    using assms(1,2) by (auto simp: sg_holds_def read_desc_def is_writable_def word_unat_eq_iff)
  have act: "active_chain_length b = 1" using h(7) by (simp add: word_unat_eq_iff)
  let ?b1 = "b\<lparr>chain_meta := (chain_meta b)[0 := track_written 0 n (chain_meta b ! 0)]\<rparr>"
  let ?b2 = "?b1\<lparr>chain_meta := (chain_meta ?b1)[0 := track_written 0 k (chain_meta ?b1 ! 0)]\<rparr>"
  have L: "unat n \<le> unat (desc_length m d)" using assms(5) by (simp add: word_le_nat_alt)
  have n32: "unat n < 2 ^ 32" using L unsigned_less [of "desc_length m d", where 'a = nat] by simp
  then have small: "\<not> 0xffffffff < n" "unat (ucast n :: u32) = unat n"
    by (simp_all add: word_less_nat_alt unsigned_ucast_eq take_bit_nat_eq_self)
  have p1: "prefix_written (chain_meta ?b1 ! 0) = ucast n" using h small by (simp add: track_written_def)
  have up: "ucast (ucast n :: u32) = n" using small(2) by (simp add: word_unat_eq_iff)
  have p2: "prefix_written (chain_meta ?b2 ! 0) = 4294967295" using h p1 up assms(4) by (simp add: track_written_def)
  have "k \<le> ucast (desc_length m d)" "n \<noteq> 0" "k \<noteq> 0" using assms(3-5) by auto
  then have "buffer_track_written 0 n b = Some ?b1" "buffer_track_written 0 k ?b1 = Some ?b2"
    using h assms(5) track_single [of b n] track_single [of ?b1 k] by simp_all
  moreover have "written_lowerbound ?b1 = Some (ucast n)" "written_lowerbound ?b2 = Some 4294967295"
    using lowerbound_single [of ?b1] lowerbound_single [of ?b2] act h p1 p2 by simp_all
  ultimately show ?thesis by blast
qed

theorem sg_rewrite_overstates_witness:
  "\<exists>b b1 b2. sg_holds (\<lambda>a. if a = 0x1008 then 16 else if a = 0x100c then 2 else 0) [desc_at 0x1000 0] b \<and>
     buffer_track_written 0 10 b = Some b1 \<and> buffer_track_written 0 4 b1 = Some b2 \<and> written_lowerbound b2 = Some 4294967295"
proof -
  define m where "m = (\<lambda>a :: u64. if a = 0x1008 then 16 else if a = 0x100c then 2 else 0 :: u8)"
  have f: "desc_flags m (desc_at 0x1000 0) = 2" by (simp add: desc_flags_def desc_at_def get_offset_16 m_def)
  have l: "desc_length m (desc_at 0x1000 0) = 16" by (simp add: desc_length_def desc_at_def get_offset_def load_le_4 m_def)
  define b where "b = demo_buffer\<lparr>active_chain_length := 1, sg_size_bytes := 16, seen_writable_desc := True,
    first_writable_desc := 0, desc_chain := (desc_chain demo_buffer)[0 := \<lparr>l_address = desc_address m (desc_at 0x1000 0),
      l_length = 16, l_flags = 2, linear_next = 1\<rparr>],
    chain_meta := (chain_meta demo_buffer)[0 := \<lparr>md_desc = desc_at 0x1000 0, original_next = 0, prefix_written = 0\<rparr>]\<rparr>"
  have h: "sg_holds m [desc_at 0x1000 0] b"
    using f l by (simp add: sg_holds_def b_def demo_buffer_def buffer_new_def read_desc_def is_writable_def)
  obtain b1 b2 where "buffer_track_written 0 10 b = Some b1" "buffer_track_written 0 4 b1 = Some b2"
    "written_lowerbound b2 = Some 4294967295"
    using sg_rewrite_overstates [OF h, of 4 10] f l by (auto simp: word_le_nat_alt word_less_nat_alt)
  then show ?thesis using h unfolding m_def by blast
qed

end
