(* ===== verification/SgCopy.thy ===== *)
theory SgCopy
  imports VirtioSg
begin

text \<open>
  The copies of scatter-gather buffers (\<open>devices/virtio_base/src/virtio_sg.cpp\<close>): the cookie that
  records a copy in progress, the address translation around a bulk copy, and the copies from a
  buffer to a buffer, from a buffer to linear memory and from linear memory to a buffer, with the
  start, the attempt to end and the synchronous version of each.

  The world of a copy is the memory of the host and a state of the address translation, a
  parameter \<open>'x\<close>. The translation (\<open>ChainAccessor\<close>) and the bulk copier are parameters; the
  default copier is \<open>memcpy\<close>. The virtual \<open>start_..._impl\<close> functions are those of the base class,
  which do nothing. Source and destination are different buffers.
\<close>

subsection \<open>The cookie\<close>

definition init_status :: "bool \<Rightarrow> bool \<Rightarrow> async_cookie \<Rightarrow> async_cookie" where
  "init_status is_src other_sg c =
     c\<lparr>copy_started := True, other_is_sg := other_sg, copy_is_src := is_src,
       pending_dsts := (if is_src then if other_sg then pending_dsts c + 1 else 1 else 0)\<rparr>"

definition init_metadata :: "bool \<Rightarrow> bool \<Rightarrow> u64 \<Rightarrow> u64 \<Rightarrow> u64 \<Rightarrow> async_cookie \<Rightarrow> async_cookie" where
  "init_metadata is_src other_sg sz d_off s_off c =
     (init_status is_src other_sg c)\<lparr>req_sz := sz, req_d_off := d_off, req_s_off := s_off\<rparr>"

definition init_sg_dst_from_sg_src :: "nat \<Rightarrow> u64 \<Rightarrow> u64 \<Rightarrow> u64 \<Rightarrow> async_cookie \<Rightarrow> async_cookie" where
  "init_sg_dst_from_sg_src src sz d_off s_off c = (init_metadata False True sz d_off s_off c)\<lparr>cookie_src := Some src\<rparr>"

definition init_sg_src_to_sg_dst :: "async_cookie \<Rightarrow> async_cookie" where
  "init_sg_src_to_sg_dst c = init_status True True c"

definition init_sg_src_to_linear_dst :: "u64 \<Rightarrow> u64 \<Rightarrow> u64 \<Rightarrow> async_cookie \<Rightarrow> async_cookie" where
  "init_sg_src_to_linear_dst dst sz s_off c = (init_metadata True False sz 0 s_off c)\<lparr>linear_dst := dst\<rparr>"

definition init_sg_dst_from_linear_src :: "u64 \<Rightarrow> u64 \<Rightarrow> u64 \<Rightarrow> async_cookie \<Rightarrow> async_cookie" where
  "init_sg_dst_from_linear_src src sz d_off c = (init_metadata False False sz d_off 0 c)\<lparr>linear_src := src\<rparr>"

definition record_bytes_copied :: "u64 \<Rightarrow> async_cookie \<Rightarrow> async_cookie option" where
  "record_bytes_copied n c = do {
     ASSERT (n \<le> req_sz c);
     ASSERT (copy_started c);
     Some (c\<lparr>req_sz := req_sz c - n, req_d_off := req_d_off c + n, req_s_off := req_s_off c + n\<rparr>)
   }"

definition conclude_dst :: "async_cookie \<Rightarrow> async_cookie option" where
  "conclude_dst c = do { ASSERT (copy_started c); ASSERT (\<not> copy_is_src c); Some (cookie_reset c) }"

definition conclude_src :: "async_cookie \<Rightarrow> async_cookie option" where
  "conclude_src c = do {
     ASSERT (copy_started c);
     ASSERT (copy_is_src c);
     ASSERT (0 < pending_dsts c);
     let c = c\<lparr>pending_dsts := pending_dsts c - 1\<rparr>;
     Some (if pending_dsts c = 0 then cookie_reset c else c)
   }"

definition req_linear_src :: "async_cookie \<Rightarrow> u64" where "req_linear_src c = linear_src c + req_s_off c"
definition req_linear_dst :: "async_cookie \<Rightarrow> u64" where "req_linear_dst c = linear_dst c + req_d_off c"

definition is_dst_from_sg :: "async_cookie \<Rightarrow> bool" where
  "is_dst_from_sg c \<longleftrightarrow> in_use c \<and> \<not> copy_is_src c \<and> other_is_sg c"
definition is_dst_from_linear :: "async_cookie \<Rightarrow> bool" where
  "is_dst_from_linear c \<longleftrightarrow> in_use c \<and> \<not> copy_is_src c \<and> \<not> other_is_sg c \<and> linear_src c \<noteq> 0"
definition is_dst :: "async_cookie \<Rightarrow> bool" where
  "is_dst c \<longleftrightarrow> is_dst_from_sg c \<or> is_dst_from_linear c"
definition is_src_to_sg :: "async_cookie \<Rightarrow> bool" where
  "is_src_to_sg c \<longleftrightarrow> in_use c \<and> copy_is_src c \<and> other_is_sg c \<and> 0 < pending_dsts c"
definition is_src_to_linear :: "async_cookie \<Rightarrow> bool" where
  "is_src_to_linear c \<longleftrightarrow> in_use c \<and> copy_is_src c \<and> \<not> other_is_sg c \<and> linear_dst c \<noteq> 0 \<and> 0 < pending_dsts c"
definition is_src :: "async_cookie \<Rightarrow> bool" where
  "is_src c \<longleftrightarrow> is_src_to_sg c \<or> is_src_to_linear c"

text \<open>The cookie of the source at the address \<open>p\<close>, seen from the destination's.\<close>

definition is_dst_from_matching_cookie :: "async_cookie \<Rightarrow> nat \<Rightarrow> async_cookie \<Rightarrow> bool" where
  "is_dst_from_matching_cookie dst p src \<longleftrightarrow> is_dst_from_sg dst \<and> is_src_to_sg src \<and> cookie_src dst = Some p"

definition get_copy_arguments_from_cookie :: "async_cookie \<Rightarrow> Errno \<times> (u64 \<times> u64 \<times> u64) option" where
  "get_copy_arguments_from_cookie c =
     (if \<not> in_use c then (NOENT, None)
      else if is_src_to_sg c then (BADR, None)
      else (NONE, Some (req_sz c, req_d_off c, req_s_off c)))"

definition cookie_modify :: "(async_cookie \<Rightarrow> async_cookie option) \<Rightarrow> sg_buffer \<Rightarrow> sg_buffer option" where
  "cookie_modify f b = do { c \<leftarrow> cookie b; c \<leftarrow> f c; Some (b\<lparr>cookie := Some c\<rparr>) }"

subsection \<open>Translated bulk copies\<close>

text \<open>
  \<open>ChainAccessor\<close>: the translation of an area of queue addresses for reading and for writing, before
  and after the use, and the notices of a failure. \<open>None\<close> is a translation that aborts.
\<close>

record 'x accessor =
  to_r_hva :: "u64 \<Rightarrow> u64 \<Rightarrow> 'x world \<Rightarrow> (Errno \<times> u64 \<times> 'x world) option"
  to_w_hva :: "u64 \<Rightarrow> u64 \<Rightarrow> 'x world \<Rightarrow> (Errno \<times> u64 \<times> 'x world) option"
  r_hva_post :: "u64 \<Rightarrow> u64 \<Rightarrow> u64 \<Rightarrow> 'x world \<Rightarrow> (Errno \<times> 'x world) option"
  w_hva_post :: "u64 \<Rightarrow> u64 \<Rightarrow> u64 \<Rightarrow> 'x world \<Rightarrow> (Errno \<times> 'x world) option"
  on_failure :: "bool \<Rightarrow> Errno \<Rightarrow> u64 \<Rightarrow> u64 \<Rightarrow> 'x world \<Rightarrow> 'x world"
  on_post_failure :: "bool \<Rightarrow> Errno \<Rightarrow> u64 \<Rightarrow> u64 \<Rightarrow> 'x world \<Rightarrow> 'x world"

type_synonym 'x copier = "u64 \<Rightarrow> u64 \<Rightarrow> u64 \<Rightarrow> 'x world \<Rightarrow> 'x world"

definition memcpy :: "'x copier" where
  "memcpy dst src n w = ((\<lambda>a. if in_area dst (unat n) a then fst w (src + (a - dst)) else fst w a), snd w)"

definition copy_between_vqa ::
    "'x copier option \<Rightarrow> 'x accessor \<Rightarrow> 'x accessor \<Rightarrow> u64 \<Rightarrow> u64 \<Rightarrow> u64 \<Rightarrow> 'x world \<Rightarrow> (Errno \<times> 'x world) option" where
  "copy_between_vqa copier dacc sacc dst_vqa src_vqa n w =
     (case copier of
        None \<Rightarrow> Some (INVAL, w)
      | Some bulk_copy \<Rightarrow> do {
          (err, dst_hva, w) \<leftarrow> to_w_hva dacc dst_vqa n w;
          if err \<noteq> NONE then Some (err, on_failure dacc False err dst_vqa n w)
          else do {
            (err, src_hva, w) \<leftarrow> to_r_hva sacc src_vqa n w;
            if err \<noteq> NONE then Some (err, on_failure sacc True err src_vqa n w)
            else do {
              (err, w) \<leftarrow> r_hva_post sacc src_vqa n src_hva (bulk_copy dst_hva src_hva n w);
              if err \<noteq> NONE then Some (err, on_post_failure sacc True err src_vqa n w)
              else do {
                (err, w) \<leftarrow> w_hva_post dacc dst_vqa n dst_hva w;
                Some (if err \<noteq> NONE then (err, on_post_failure dacc False err dst_vqa n w) else (NONE, w))
              }}}})"

definition copy_from_vqa :: "'x copier option \<Rightarrow> 'x accessor \<Rightarrow> u64 \<Rightarrow> u64 \<Rightarrow> u64 \<Rightarrow> 'x world \<Rightarrow> (Errno \<times> 'x world) option" where
  "copy_from_vqa copier acc dst_hva src_vqa n w =
     (case copier of
        None \<Rightarrow> Some (INVAL, w)
      | Some bulk_copy \<Rightarrow> do {
          (err, src_hva, w) \<leftarrow> to_r_hva acc src_vqa n w;
          if err \<noteq> NONE then Some (err, on_failure acc True err src_vqa n w)
          else do {
            (err, w) \<leftarrow> r_hva_post acc src_vqa n src_hva (bulk_copy dst_hva src_hva n w);
            Some (if err \<noteq> NONE then (err, on_post_failure acc True err src_vqa n w) else (NONE, w))
          }})"

definition copy_to_vqa :: "'x copier option \<Rightarrow> 'x accessor \<Rightarrow> u64 \<Rightarrow> u64 \<Rightarrow> u64 \<Rightarrow> 'x world \<Rightarrow> (Errno \<times> 'x world) option" where
  "copy_to_vqa copier acc dst_vqa src_hva n w =
     (case copier of
        None \<Rightarrow> Some (INVAL, w)
      | Some bulk_copy \<Rightarrow> do {
          (err, dst_hva, w) \<leftarrow> to_w_hva acc dst_vqa n w;
          if err \<noteq> NONE then Some (err, on_failure acc False err dst_vqa n w)
          else do {
            (err, w) \<leftarrow> w_hva_post acc dst_vqa n dst_hva (bulk_copy dst_hva src_hva n w);
            Some (if err \<noteq> NONE then (err, on_post_failure acc False err dst_vqa n w) else (NONE, w))
          }})"

subsection \<open>The start of the payload\<close>

text \<open>
  \<open>check_copy_configuration\<close>: every failed check is an \<open>ASSERT (false)\<close> before its error return, so
  the only result is the place and the offset in its descriptor.
\<close>

definition check_copy_configuration :: "sg_buffer \<Rightarrow> u64 \<Rightarrow> u64 \<Rightarrow> (nat \<times> u64) option" where
  "check_copy_configuration b n off = do {
     ASSERT (\<not> sg_size_bytes b \<le> off);
     ASSERT (\<not> sg_size_bytes b < n);
     ASSERT (\<not> sg_size_bytes b < off + n);
     (it, off') \<leftarrow> sg_find b off;
     ASSERT (it \<noteq> sg_end b);
     Some (it, off')
   }"

definition should_only_read :: "sg_buffer \<Rightarrow> u16 \<Rightarrow> bool" where
  "should_only_read b flags \<longleftrightarrow> chain_for_device b \<and> flags AND VIRTQ_DESC_WRITE_ONLY = 0"

definition should_only_write :: "sg_buffer \<Rightarrow> u16 \<Rightarrow> bool" where
  "should_only_write b flags \<longleftrightarrow> chain_for_device b \<and> flags AND VIRTQ_DESC_WRITE_ONLY \<noteq> 0"

subsection \<open>From a buffer to a buffer\<close>

function copy_sg_loop ::
    "'x copier \<Rightarrow> 'x accessor \<Rightarrow> 'x accessor \<Rightarrow> sg_buffer \<Rightarrow> sg_buffer \<Rightarrow> u64 \<Rightarrow> nat \<Rightarrow> u64 \<Rightarrow> nat \<Rightarrow> u64 \<Rightarrow> u64 \<Rightarrow>
     'x world \<Rightarrow> (Errno \<times> u64 \<times> 'x world) option" where
  "copy_sg_loop copier dacc sacc dst src rem d d_off s s_off copied w =
     (if rem = 0 \<or> d = sg_end dst \<or> s = sg_end src then Some (NONE, copied, w)
      else case nth_opt (desc_chain dst) d of
        None \<Rightarrow> None
      | Some dd \<Rightarrow>
          (case nth_opt (desc_chain src) s of
             None \<Rightarrow> None
           | Some sd \<Rightarrow>
               let n = min rem (min (ucast (l_length sd) - s_off) (ucast (l_length dd) - d_off)) in
               if should_only_read dst (l_flags dd) then Some (PERM, copied, w)
               else case copy_between_vqa (Some copier) dacc sacc (l_address dd + d_off) (l_address sd + s_off) n w of
                 None \<Rightarrow> None
               | Some (err, w') \<Rightarrow>
                   if err \<noteq> NONE then Some (BADR, copied, w')
                   else copy_sg_loop copier dacc sacc dst src (rem - n)
                          (if d_off + n = ucast (l_length dd) then Suc d else d)
                          (if d_off + n = ucast (l_length dd) then 0 else d_off + n)
                          (if s_off + n = ucast (l_length sd) then Suc s else s)
                          (if s_off + n = ucast (l_length sd) then 0 else s_off + n) (copied + n) w'))"
  by pat_completeness auto

lemma unat_minus_lt: "n \<noteq> 0 \<Longrightarrow> n \<le> a \<Longrightarrow> unat (a - n) < unat a" for a n :: u64
  by (simp add: unat_minus_le word_le_nat_alt unat_gt_0 [symmetric] del: unat_gt_0)

termination copy_sg_loop
proof (relation "measure (\<lambda>(copier, dacc, sacc, dst, src, rem, d, d_off, s, s_off, copied, w).
    unat rem + (length (desc_chain dst) - d) + (length (desc_chain src) - s))", goal_cases)
  case (2 copier dacc sacc dst src rem d d_off s s_off copied w dd sd n r err w')
  have lt: "d < length (desc_chain dst)" "s < length (desc_chain src)" using 2(2,3) by simp_all
  show ?case
  proof (cases "n = 0")
    case True
    then have "ucast (l_length sd) - s_off = 0 \<or> ucast (l_length dd) - d_off = 0"
      using 2(1,4) by (auto simp: min_def split: if_splits)
    then have "d_off + n = ucast (l_length dd) \<or> s_off + n = ucast (l_length sd)" using True by auto
    then show ?thesis using True lt by auto
  next
    case False
    have "n \<le> rem" using 2(4) by simp
    then have "unat (rem - n) < unat rem" using False unat_minus_lt by blast
    then show ?thesis using lt by auto
  qed
qed simp

declare copy_sg_loop.simps [simp del]

text \<open>
  The attempt to end a copy of the base class: the result, the bytes copied and the world. Both
  buffers have their cookies.
\<close>

definition try_end_copy_to_sg_impl ::
    "'x copier \<Rightarrow> 'x accessor \<Rightarrow> 'x accessor \<Rightarrow> sg_buffer \<Rightarrow> sg_buffer \<Rightarrow> 'x world \<Rightarrow> (Errno \<times> u64 \<times> 'x world) option" where
  "try_end_copy_to_sg_impl copier dacc sacc src dst w = do {
     c \<leftarrow> cookie dst;
     (d, d_off) \<leftarrow> check_copy_configuration dst (req_sz c) (req_d_off c);
     (s, s_off) \<leftarrow> check_copy_configuration src (req_sz c) (req_s_off c);
     copy_sg_loop copier dacc sacc dst src (req_sz c) d d_off s s_off 0 w
   }"

text \<open>The result, the requested size that is left in the caller's variable, and both buffers.\<close>

definition start_copy_to_sg ::
    "u64 \<Rightarrow> u64 \<Rightarrow> u64 \<Rightarrow> sg_buffer \<times> sg_buffer \<Rightarrow> (Errno \<times> u64 \<times> sg_buffer \<times> sg_buffer) option" where
  "start_copy_to_sg sz d_off s_off s = (case s of (src, dst) \<Rightarrow> do {
     sc \<leftarrow> cookie src;
     dc \<leftarrow> cookie dst;
     if is_dst sc \<or> in_use dc then Some (RBUSY, sz, src, dst)
     else Some (NONE, 0, src\<lparr>cookie := Some (init_sg_src_to_sg_dst sc)\<rparr>,
            dst\<lparr>cookie := Some (init_sg_dst_from_sg_src (cookie_ptr src) sz d_off s_off dc)\<rparr>)
   })"

definition try_end_copy_to_sg ::
    "'x copier option \<Rightarrow> 'x accessor \<Rightarrow> 'x accessor \<Rightarrow> sg_buffer \<times> sg_buffer \<times> 'x world \<Rightarrow>
     (Errno \<times> u64 \<times> sg_buffer \<times> sg_buffer \<times> 'x world) option" where
  "try_end_copy_to_sg copier dacc sacc s = (case s of (src, dst, w) \<Rightarrow> do {
     sc \<leftarrow> cookie src;
     dc \<leftarrow> cookie dst;
     if \<not> is_dst_from_matching_cookie dc (cookie_ptr src) sc then Some (EXIST, 0, src, dst, w)
     else do {
       (err, n, w) \<leftarrow> (if 0 < req_sz dc
                       then try_end_copy_to_sg_impl (case copier of None \<Rightarrow> memcpy | Some f \<Rightarrow> f) dacc sacc src dst w
                       else Some (if req_d_off dc \<le> sg_size_bytes dst \<and> req_s_off dc \<le> sg_size_bytes src then NONE else NOENT,
                                  0, w));
       dst \<leftarrow> buffer_track_written (req_d_off dc) n dst;
       if err \<noteq> AGAIN
       then do { dst \<leftarrow> cookie_modify conclude_dst dst; src \<leftarrow> cookie_modify conclude_src src; Some (err, n, src, dst, w) }
       else do { dst \<leftarrow> cookie_modify (record_bytes_copied n) dst; Some (err, n, src, dst, w) }
     }
   })"

text \<open>The tries of a synchronous copy: at most one and \<open>k\<close> more, as long as the result is \<open>AGAIN\<close>.\<close>

fun retry :: "('s \<Rightarrow> (Errno \<times> u64 \<times> 's) option) \<Rightarrow> nat \<Rightarrow> u64 \<Rightarrow> 's \<Rightarrow> (Errno \<times> u64 \<times> 's) option" where
  "retry f k sz s = do {
     (err, n, s) \<leftarrow> f s;
     case k of
       0 \<Rightarrow> Some (err, sz + n, s)
     | Suc k' \<Rightarrow> if err = AGAIN then retry f k' (sz + n) s else Some (err, sz + n, s)
   }"

declare retry.simps [simp del]

definition copy_to_sg ::
    "'x copier option \<Rightarrow> 'x accessor \<Rightarrow> 'x accessor \<Rightarrow> u64 \<Rightarrow> u64 \<Rightarrow> u64 \<Rightarrow> sg_buffer \<times> sg_buffer \<times> 'x world \<Rightarrow>
     (Errno \<times> u64 \<times> sg_buffer \<times> sg_buffer \<times> 'x world) option" where
  "copy_to_sg copier dacc sacc sz d_off s_off s = (case s of (src, dst, w) \<Rightarrow> do {
     (err, sz, src, dst) \<leftarrow> start_copy_to_sg sz d_off s_off (src, dst);
     if err \<noteq> NONE then Some (err, sz, src, dst, w)
     else do {
       (err, sz, src, dst, w) \<leftarrow> retry (try_end_copy_to_sg copier dacc sacc) 10 sz (src, dst, w);
       if err = AGAIN
       then do { dst \<leftarrow> cookie_modify conclude_dst dst; src \<leftarrow> cookie_modify conclude_src src; Some (err, sz, src, dst, w) }
       else Some (err, sz, src, dst, w)
     }
   })"

subsection \<open>Between a buffer and linear memory\<close>

text \<open>\<open>copy_fromto_linear_impl\<close> for both directions; \<open>l\<close> is the address in linear memory.\<close>

function copy_linear_loop ::
    "bool \<Rightarrow> 'x copier \<Rightarrow> 'x accessor \<Rightarrow> sg_buffer \<Rightarrow> u64 \<Rightarrow> nat \<Rightarrow> u64 \<Rightarrow> u64 \<Rightarrow> u64 \<Rightarrow> 'x world \<Rightarrow>
     (Errno \<times> u64 \<times> 'x world) option" where
  "copy_linear_loop to_sg copier acc b rem it sg_off l copied w =
     (if rem = 0 \<or> it = sg_end b then Some (NONE, copied, w)
      else case nth_opt (desc_chain b) it of
        None \<Rightarrow> None
      | Some d \<Rightarrow>
          let n = min (ucast (l_length d) - sg_off) rem in
          if to_sg \<and> should_only_read b (l_flags d) then Some (PERM, copied, w)
          else case (if to_sg then copy_to_vqa (Some copier) acc (l_address d + sg_off) l n w
                     else copy_from_vqa (Some copier) acc l (l_address d + sg_off) n w) of
            None \<Rightarrow> None
          | Some (err, w') \<Rightarrow>
              if err \<noteq> NONE then Some (BADR, copied, w')
              else copy_linear_loop to_sg copier acc b (rem - n) (Suc it) 0 (l + n) (copied + n) w')"
  by pat_completeness auto

termination copy_linear_loop
  by (relation "measure (\<lambda>(to_sg, copier, acc, b, rem, it, sg_off, l, copied, w). length (desc_chain b) - it)") auto

declare copy_linear_loop.simps [simp del]

definition copy_fromto_linear_impl ::
    "bool \<Rightarrow> 'x copier \<Rightarrow> 'x accessor \<Rightarrow> u64 \<Rightarrow> sg_buffer \<Rightarrow> 'x world \<Rightarrow> (Errno \<times> u64 \<times> 'x world) option" where
  "copy_fromto_linear_impl to_sg copier acc l b w = do {
     c \<leftarrow> cookie b;
     (it, off) \<leftarrow> check_copy_configuration b (req_sz c) (if to_sg then req_d_off c else req_s_off c);
     copy_linear_loop to_sg copier acc b (req_sz c) it off l 0 w
   }"

definition start_copy_to_linear :: "u64 \<Rightarrow> u64 \<Rightarrow> u64 \<Rightarrow> sg_buffer \<Rightarrow> (Errno \<times> u64 \<times> sg_buffer) option" where
  "start_copy_to_linear dst sz s_off b =
     (if dst = 0 then Some (BADR, sz, b)
      else do {
        c \<leftarrow> cookie b;
        if is_dst c then Some (RBUSY, sz, b)
        else Some (NONE, 0, b\<lparr>cookie := Some (init_sg_src_to_linear_dst dst sz s_off c)\<rparr>)
      })"

definition try_end_copy_to_linear ::
    "'x copier option \<Rightarrow> 'x accessor \<Rightarrow> sg_buffer \<times> 'x world \<Rightarrow> (Errno \<times> u64 \<times> sg_buffer \<times> 'x world) option" where
  "try_end_copy_to_linear copier acc s = (case s of (b, w) \<Rightarrow> do {
     c \<leftarrow> cookie b;
     if \<not> is_src_to_linear c then Some (EXIST, 0, b, w)
     else do {
       (err, n, w) \<leftarrow> (if 0 < req_sz c
                       then copy_fromto_linear_impl False (case copier of None \<Rightarrow> memcpy | Some f \<Rightarrow> f) acc (req_linear_dst c) b w
                       else Some (if req_s_off c \<le> sg_size_bytes b then NONE else NOENT, 0, w));
       b \<leftarrow> cookie_modify (if err \<noteq> AGAIN then conclude_src else record_bytes_copied n) b;
       Some (err, n, b, w)
     }
   })"

definition copy_to_linear ::
    "'x copier option \<Rightarrow> 'x accessor \<Rightarrow> u64 \<Rightarrow> u64 \<Rightarrow> u64 \<Rightarrow> sg_buffer \<times> 'x world \<Rightarrow>
     (Errno \<times> u64 \<times> sg_buffer \<times> 'x world) option" where
  "copy_to_linear copier acc dst sz s_off s = (case s of (b, w) \<Rightarrow> do {
     (err, sz, b) \<leftarrow> start_copy_to_linear dst sz s_off b;
     if err \<noteq> NONE then Some (err, sz, b, w)
     else do {
       (err, sz, b, w) \<leftarrow> retry (try_end_copy_to_linear copier acc) 10 sz (b, w);
       if err = AGAIN then do { b \<leftarrow> cookie_modify conclude_src b; Some (err, sz, b, w) } else Some (err, sz, b, w)
     }
   })"

definition start_copy_from_linear :: "u64 \<Rightarrow> u64 \<Rightarrow> u64 \<Rightarrow> sg_buffer \<Rightarrow> (Errno \<times> u64 \<times> sg_buffer) option" where
  "start_copy_from_linear src sz d_off b =
     (if src = 0 then Some (BADR, sz, b)
      else do {
        c \<leftarrow> cookie b;
        if is_dst c then Some (RBUSY, sz, b)
        else Some (NONE, 0, b\<lparr>cookie := Some (init_sg_dst_from_linear_src src sz d_off c)\<rparr>)
      })"

definition try_end_copy_from_linear ::
    "'x copier option \<Rightarrow> 'x accessor \<Rightarrow> sg_buffer \<times> 'x world \<Rightarrow> (Errno \<times> u64 \<times> sg_buffer \<times> 'x world) option" where
  "try_end_copy_from_linear copier acc s = (case s of (b, w) \<Rightarrow> do {
     c \<leftarrow> cookie b;
     if \<not> is_dst_from_linear c then Some (EXIST, 0, b, w)
     else do {
       (err, n, w) \<leftarrow> (if 0 < req_sz c
                       then copy_fromto_linear_impl True (case copier of None \<Rightarrow> memcpy | Some f \<Rightarrow> f) acc (req_linear_src c) b w
                       else Some (if req_d_off c \<le> sg_size_bytes b then NONE else NOENT, 0, w));
       b \<leftarrow> buffer_track_written (req_d_off c) n b;
       b \<leftarrow> cookie_modify (if err \<noteq> AGAIN then conclude_dst else record_bytes_copied n) b;
       Some (err, n, b, w)
     }
   })"

definition copy_from_linear ::
    "'x copier option \<Rightarrow> 'x accessor \<Rightarrow> u64 \<Rightarrow> u64 \<Rightarrow> u64 \<Rightarrow> sg_buffer \<times> 'x world \<Rightarrow>
     (Errno \<times> u64 \<times> sg_buffer \<times> 'x world) option" where
  "copy_from_linear copier acc src sz d_off s = (case s of (b, w) \<Rightarrow> do {
     (err, sz, b) \<leftarrow> start_copy_from_linear src sz d_off b;
     if err \<noteq> NONE then Some (err, sz, b, w)
     else do {
       (err, sz, b, w) \<leftarrow> retry (try_end_copy_from_linear copier acc) 10 sz (b, w);
       if err = AGAIN then do { b \<leftarrow> cookie_modify conclude_dst b; Some (err, sz, b, w) } else Some (err, sz, b, w)
     }
   })"

end
