(* ===== verification/SgCopyProps.thy ===== *)
theory SgCopyProps
  imports SgCopy
begin

text \<open>
  What the copies of scatter-gather buffers do to memory: the payload of a buffer is the list of the
  queue addresses of its bytes, and a copy moves bytes between two lists of addresses. The
  interface \<open>chain_accessor\<close> is what a copy relies on: a translation that succeeds on the areas of
  the descriptors and is contiguous on each.
\<close>

subsection \<open>Lists of addresses\<close>

definition area :: "u64 \<Rightarrow> nat \<Rightarrow> u64 list" where
  "area p n = map (\<lambda>i. p + of_nat i) [0..<n]"

definition scatter :: "u64 list \<Rightarrow> u8 list \<Rightarrow> memory \<Rightarrow> memory" where
  "scatter as xs m = fold (\<lambda>(a, x) m. m(a := x)) (zip as xs) m"

abbreviation move_bytes :: "u64 list \<Rightarrow> u64 list \<Rightarrow> memory \<Rightarrow> memory" where
  "move_bytes ds ss m \<equiv> scatter ds (map m ss) m"

lemma length_area [simp]: "length (area p n) = n"
  by (simp add: area_def)

lemma area_0 [simp]: "area p 0 = []"
  by (simp add: area_def)

lemma nth_area [simp]: "i < n \<Longrightarrow> area p n ! i = p + of_nat i"
  by (simp add: area_def)

lemma area_append: "area p n @ area (p + of_nat n) k = area p (n + k)"
  by (rule nth_equalityI) (auto simp: nth_append algebra_simps of_nat_diff)

lemma area_split: "k \<le> n \<Longrightarrow> area p n = area p k @ area (p + of_nat k) (n - k)"
  by (simp add: area_append)

lemma drop_area: "drop k (area p n) = area (p + of_nat k) (n - k)"
  by (rule nth_equalityI) (auto simp: algebra_simps)

lemma take_area: "take k (area p n) = area p (min k n)"
  by (rule nth_equalityI) auto

lemma distinct_area: "n \<le> 2 ^ 64 \<Longrightarrow> distinct (area p n)"
proof -
  assume n: "n \<le> 2 ^ 64"
  have "inj_on (\<lambda>i. p + of_nat i) {0..<n}"
    using n by (intro inj_onI) (metis add_left_cancel atLeastLessThan_iff less_le_trans unat_of_nat64)
  then show ?thesis by (simp add: area_def distinct_map)
qed

lemma set_area: "n \<le> 2 ^ 64 \<Longrightarrow> set (area p n) = {a. in_area p n a}"
proof (rule set_eqI, rule iffI, goal_cases)
  case (1 a)
  then show ?case by (auto simp: area_def in_area_def unat_of_nat64)
next
  case (2 a)
  show ?case unfolding area_def set_map
    by (rule image_eqI [where x = "unat (a - p)"]) (use 2 in \<open>simp_all add: in_area_def\<close>)
qed

lemma scatter_Nil [simp]: "scatter [] xs m = m" "scatter as [] m = m"
  by (simp_all add: scatter_def)

lemma scatter_Cons [simp]: "scatter (a # as) (x # xs) m = scatter as xs (m(a := x))"
  by (simp add: scatter_def)

lemma scatter_append: "length as = length xs \<Longrightarrow> scatter (as @ bs) (xs @ ys) m = scatter bs ys (scatter as xs m)"
  by (induction as xs arbitrary: m rule: list_induct2) simp_all

lemma scatter_other: "a \<notin> set as \<Longrightarrow> scatter as xs m a = m a"
  by (induction as arbitrary: xs m) (simp, case_tac xs, simp_all)

lemma map_scatter_other: "set as \<inter> set bs = {} \<Longrightarrow> map (scatter as xs m) bs = map m bs"
  by (auto intro!: scatter_other)

lemma map_scatter_same: "distinct as \<Longrightarrow> length as = length xs \<Longrightarrow> map (scatter as xs m) as = xs"
proof (induction as arbitrary: xs m)
  case (Cons a as)
  then obtain y ys where "xs = y # ys" by (cases xs) auto
  then show ?case using Cons by (simp add: scatter_other)
qed simp

lemma move_append:
  assumes "length ds = length ss" "set ss' \<inter> set ds = {}"
  shows "move_bytes (ds @ ds') (ss @ ss') m = move_bytes ds' ss' (move_bytes ds ss m)"
proof -
  have e: "map (scatter ds (map m ss) m) ss' = map m ss'" using assms(2) by (intro map_scatter_other) blast
  show ?thesis by (simp only: e map_append) (simp add: assms(1) scatter_append)
qed

lemma memcpy_moves: "memcpy dst src n (m, x) = (move_bytes (area dst (unat n)) (area src (unat n)) m, x)"
proof -
  have n: "unat n \<le> 2 ^ 64" using unsigned_less [of n, where 'a = nat] by simp
  have "(if in_area dst (unat n) a then m (src + (a - dst)) else m a) = move_bytes (area dst (unat n)) (area src (unat n)) m a" for a
  proof (cases "in_area dst (unat n) a")
    case True
    let ?i = "unat (a - dst)"
    have i: "?i < unat n" using True by (simp add: in_area_def)
    have "map (move_bytes (area dst (unat n)) (area src (unat n)) m) (area dst (unat n)) ! ?i = map m (area src (unat n)) ! ?i"
      by (subst map_scatter_same) (use n in \<open>simp_all add: distinct_area\<close>)
    then show ?thesis using i True by simp
  next
    case False
    then show ?thesis using set_area [OF n] by (simp add: scatter_other)
  qed
  then have "(\<lambda>a. if in_area dst (unat n) a then m (src + (a - dst)) else m a) = move_bytes (area dst (unat n)) (area src (unat n)) m"
    by (rule ext)
  then show ?thesis by (simp only: memcpy_def fst_conv snd_conv)
qed

subsection \<open>The payload of a buffer\<close>

definition chunk :: "linear_desc \<Rightarrow> u64 list" where
  "chunk d = area (l_address d) (unat (l_length d))"

definition active :: "sg_buffer \<Rightarrow> linear_desc list" where
  "active b = take (sg_end b) (desc_chain b)"

definition payload :: "sg_buffer \<Rightarrow> u64 list" where
  "payload b = concat (map chunk (active b))"

text \<open>The payload from a place on.\<close>

definition rest :: "sg_buffer \<Rightarrow> nat \<Rightarrow> u64 \<Rightarrow> u64 list" where
  "rest b it off = drop (unat off) (concat (map chunk (drop it (active b))))"

definition sg_wf :: "sg_buffer \<Rightarrow> bool" where
  "sg_wf b \<longleftrightarrow> sg_end b \<le> length (desc_chain b) \<and> length (chain_meta b) = length (desc_chain b) \<and>
     (\<forall>d \<in> set (active b). l_length d \<noteq> 0) \<and> unat (sg_size_bytes b) = sum_list (map (\<lambda>d. unat (l_length d)) (active b))"

definition place_ok :: "sg_buffer \<Rightarrow> nat \<Rightarrow> u64 \<Rightarrow> bool" where
  "place_ok b it off \<longleftrightarrow> it \<le> sg_end b \<and> (it < sg_end b \<longrightarrow> unat off < unat (l_length (desc_chain b ! it)))"

lemma length_chunk [simp]: "length (chunk d) = unat (l_length d)"
  by (simp add: chunk_def)

lemma length_payload: "sg_wf b \<Longrightarrow> length (payload b) = unat (sg_size_bytes b)"
  by (simp add: payload_def sg_wf_def length_concat comp_def)

lemma drop_active:
  assumes "sg_wf b" "it < sg_end b"
  shows "drop it (active b) = desc_chain b ! it # drop (Suc it) (active b)"
  using assms by (simp add: active_def sg_wf_def Cons_nth_drop_Suc [symmetric])

lemma active_mem:
  assumes "sg_wf b" "it < sg_end b"
  shows "desc_chain b ! it \<in> set (active b)"
  using drop_active [OF assms] by (metis in_set_dropD list.set_intros(1))

lemma active_nonzero: "sg_wf b \<Longrightarrow> it < sg_end b \<Longrightarrow> 0 < unat (l_length (desc_chain b ! it))"
  using active_mem [of b it] by (auto simp: sg_wf_def unat_gt_0)

lemma rest_end [simp]: "rest b (sg_end b) off = []"
  by (simp add: rest_def active_def)

lemma rest_next:
  assumes "sg_wf b" "it < sg_end b" "unat off \<le> unat (l_length (desc_chain b ! it))"
  shows "rest b it off = area (l_address (desc_chain b ! it) + off) (unat (l_length (desc_chain b ! it)) - unat off) @ rest b (Suc it) 0"
  using assms by (simp add: rest_def drop_active chunk_def drop_area)

lemma place_next: "sg_wf b \<Longrightarrow> it < sg_end b \<Longrightarrow> place_ok b (Suc it) 0"
  by (simp add: place_ok_def active_nonzero)

lemma place_copied:
  assumes "sg_wf b" "it < sg_end b" "place_ok b it off" "unat n \<le> unat (l_length (desc_chain b ! it)) - unat off"
    and "full \<longleftrightarrow> off + n = ucast (l_length (desc_chain b ! it))"
  shows "place_ok b (if full then Suc it else it) (if full then 0 else off + n)"
    and "rest b it off = area (l_address (desc_chain b ! it) + off) (unat n) @
      rest b (if full then Suc it else it) (if full then 0 else off + n)"
proof -
  let ?l = "l_length (desc_chain b ! it)"
  have o: "unat off < unat ?l" using assms(2,3) by (simp add: place_ok_def)
  have "unat off + unat n < 2 ^ 64" using o assms(4) unsigned_less [of ?l, where 'a = nat] by simp
  then have s: "unat (off + n) = unat off + unat n" by (simp add: unat_plus_no_wrap)
  have f: "full \<longleftrightarrow> unat off + unat n = unat ?l"
    using s unsigned_less [of ?l, where 'a = nat] by (simp add: assms(5) word_unat_eq_iff unsigned_ucast_eq)
  show "place_ok b (if full then Suc it else it) (if full then 0 else off + n)"
    using f s o assms(4) place_next [OF assms(1,2)] assms(3) by (auto simp: place_ok_def)
  have off: "off + n = off + of_nat (unat n)" by simp
  have "area (l_address (desc_chain b ! it) + off) (unat ?l - unat off) =
      area (l_address (desc_chain b ! it) + off) (unat n) @ area (l_address (desc_chain b ! it) + (off + n)) (unat ?l - unat (off + n))"
    using area_split [OF assms(4), of "l_address (desc_chain b ! it) + off"] s by (simp add: add.assoc)
  then show "rest b it off = area (l_address (desc_chain b ! it) + off) (unat n) @
      rest b (if full then Suc it else it) (if full then 0 else off + n)"
    using f s o assms(4) rest_next [OF assms(1,2), of off] rest_next [OF assms(1,2), of "off + n"] by simp
qed

subsection \<open>The start of a copy\<close>

lemma sum_take_le: "sum_list (map f (take k xs)) \<le> sum_list (map f xs)" for f :: "'a \<Rightarrow> nat"
  by (metis append_take_drop_id le_add1 map_append sum_list_append)

lemma find_loop_place:
  assumes "sg_wf b" "it + n = sg_end b" "unat cur = sum_list (map (\<lambda>d. unat (l_length d)) (take it (active b)))"
    and "cur \<le> off" "off < sg_size_bytes b" "rest b it 0 = drop (unat cur) (payload b)"
  shows "\<exists>it' off'. find_loop (desc_chain b) it n cur off = Some (it', off') \<and> it' < sg_end b \<and> place_ok b it' off' \<and>
    rest b it' off' = drop (unat off) (payload b)"
  using assms(2-)
proof (induction n arbitrary: it cur)
  case 0
  then have "unat cur = unat (sg_size_bytes b)" using assms(1) by (simp add: sg_wf_def active_def)
  then show ?case using 0(3,4) by (simp add: word_le_nat_alt word_less_nat_alt)
next
  case (Suc n)
  let ?l = "l_length (desc_chain b ! it)"
  have it: "it < sg_end b" "it < length (desc_chain b)" using Suc.prems(1) assms(1) by (auto simp: sg_wf_def)
  have lenA: "length (active b) = sg_end b" using assms(1) by (simp add: active_def sg_wf_def)
  have nth: "active b ! it = desc_chain b ! it" using it by (simp add: active_def)
  have sum: "sum_list (map (\<lambda>d. unat (l_length d)) (take (Suc it) (active b))) = unat cur + unat ?l"
    using it lenA Suc.prems(2) nth by (simp add: take_Suc_conv_app_nth)
  have "sum_list (map (\<lambda>d. unat (l_length d)) (take (Suc it) (active b))) \<le> unat (sg_size_bytes b)"
    using assms(1) sum_take_le [of _ "Suc it" "active b"] by (simp add: sg_wf_def)
  then have bnd: "unat cur + unat ?l < 2 ^ 64" using sum unsigned_less [of "sg_size_bytes b", where 'a = nat] by simp
  then have s: "unat (cur + ucast ?l) = unat cur + unat ?l" by (simp add: unat_plus_no_wrap unsigned_ucast_eq)
  show ?case
  proof (cases "off < cur + ucast ?l")
    case True
    have d: "unat (off - cur) = unat off - unat cur" using Suc.prems(3) by (simp add: unat_minus_le)
    have "place_ok b it (off - cur)" using True it s d Suc.prems(3) by (simp add: place_ok_def word_less_nat_alt word_le_nat_alt)
    moreover have "rest b it (off - cur) = drop (unat off) (payload b)"
      using Suc.prems(3,5) d by (simp add: rest_def word_le_nat_alt)
    ultimately show ?thesis using True it by (simp add: nth_opt_def)
  next
    case False
    have "rest b (Suc it) 0 = drop (unat (cur + ucast ?l)) (payload b)"
      using rest_next [OF assms(1) it(1), of 0] Suc.prems(5) s
      by (simp add: add.commute [of "unat cur"] drop_drop [symmetric]) 
    then show ?thesis
      using Suc.IH [of "Suc it" "cur + ucast ?l"] Suc.prems(1,4) leI [OF False] it s sum by (simp add: nth_opt_def if_not_P [OF False])
  qed
qed

lemma sg_find_place:
  assumes "sg_wf b" "off < sg_size_bytes b"
  shows "\<exists>it off'. sg_find b off = Some (it, off') \<and> it < sg_end b \<and> place_ok b it off' \<and> rest b it off' = drop (unat off) (payload b)"
proof (cases "off = 0")
  case True
  have "active_chain_length b \<noteq> 0"
  proof
    assume "active_chain_length b = 0"
    then have "unat (sg_size_bytes b) = 0" using assms(1) by (simp add: sg_wf_def active_def)
    then show False using assms(2) by (simp only: word_less_nat_alt)
  qed
  then have "0 < sg_end b" by (simp add: unat_gt_0)
  then have "place_ok b 0 0" using active_nonzero [OF assms(1)] by (simp add: place_ok_def)
  then show ?thesis using True \<open>0 < sg_end b\<close> assms(2) by (auto simp: sg_find_def rest_def payload_def not_less)
next
  case False
  then show ?thesis
    using find_loop_place [OF assms(1), of 0 "sg_end b" 0 off] assms(2) by (simp add: sg_find_def rest_def payload_def)
qed

lemma check_copy_place:
  assumes "sg_wf b" "n \<noteq> 0" "unat off + unat n \<le> unat (sg_size_bytes b)"
  shows "\<exists>it off'. check_copy_configuration b n off = Some (it, off') \<and> place_ok b it off' \<and>
    rest b it off' = drop (unat off) (payload b)"
proof -
  have "0 < unat n" using assms(2) by (simp add: unat_gt_0)
  then have lt: "off < sg_size_bytes b" "\<not> sg_size_bytes b < n" using assms(3) by (simp_all add: word_less_nat_alt)
  have "unat (off + n) = unat off + unat n"
    using assms(3) unsigned_less [of "sg_size_bytes b", where 'a = nat] by (simp add: unat_plus_no_wrap)
  then have "\<not> sg_size_bytes b < off + n" using assms(3) by (simp add: word_less_nat_alt)
  then show ?thesis using lt sg_find_place [OF assms(1) lt(1)] by (auto simp: check_copy_configuration_def not_le)
qed

subsection \<open>The count of the written bytes\<close>

lemma track_loop_total:
  assumes "sg_wf b" "place_ok b it off" "unat n \<le> length (rest b it off)"
  shows "\<exists>ms. track_loop it off n b = Some (b\<lparr>chain_meta := ms\<rparr>) \<and> length ms = length (chain_meta b)"
  using assms
proof (induction it off n b rule: track_loop.induct)
  case (1 it off n b)
  show ?case
  proof (cases "n = 0")
    case True
    then show ?thesis by (subst track_loop.simps) (auto intro: exI [of _ "chain_meta b"])
  next
    case False
    let ?l = "l_length (desc_chain b ! it)"
    have it: "it < sg_end b" using False "1.prems"(2,3) by (metis length_0_conv le_zero_eq nless_le place_ok_def rest_end unat_eq_zero)
    then have len: "it < length (desc_chain b)" "it < length (chain_meta b)" using "1.prems"(1) by (auto simp: sg_wf_def)
    have o: "unat off < unat ?l" using "1.prems"(2) it by (simp add: place_ok_def)
    then have "unat (ucast off :: u32) = unat off"
      using unsigned_less [of ?l, where 'a = nat] by (simp add: unsigned_ucast_eq take_bit_nat_eq_self)
    then have sz: "unat (ucast (?l - ucast off) :: u64) = unat ?l - unat off"
      using o by (simp add: unsigned_ucast_eq unat_minus_le word_le_nat_alt)
    let ?sz = "ucast (?l - ucast off) :: u64"
    let ?n = "if ?sz \<le> n then n - ?sz else 0"
    let ?b = "b\<lparr>chain_meta := (chain_meta b)[it := track_written off (if ?sz \<le> n then ?sz else n) (chain_meta b ! it)]\<rparr>"
    have same: "active ?b = active b" "sg_wf ?b" "place_ok ?b (Suc it) 0" "rest ?b (Suc it) 0 = rest b (Suc it) 0"
      using "1.prems"(1) place_next [OF "1.prems"(1) it] by (simp_all add: active_def sg_wf_def place_ok_def rest_def)
    have "length (rest b it off) = unat ?l - unat off + length (rest b (Suc it) 0)"
      using rest_next [OF "1.prems"(1) it, of off] o by simp
    then have "unat ?n \<le> length (rest b (Suc it) 0)" using "1.prems"(3) sz by (simp add: unat_minus_le word_le_nat_alt) arith
    moreover have "nth_opt (desc_chain b) it = Some (desc_chain b ! it)" using len by (simp add: nth_opt_def)
    moreover have "upd_opt (chain_meta b) it (track_written off (if ?sz \<le> n then ?sz else n)) = Some (chain_meta ?b)"
      using len by (simp add: upd_opt_def)
    ultimately have "\<exists>ms. track_loop (Suc it) 0 ?n ?b = Some (?b\<lparr>chain_meta := ms\<rparr>) \<and> length ms = length (chain_meta ?b)"
      using "1.IH" [OF False _ refl, of _ "chain_meta ?b"] same by simp
    then show ?thesis using False len by (subst track_loop.simps) (simp add: nth_opt_def upd_opt_def Let_def)
  qed
qed

lemma track_written_total:
  assumes "sg_wf b" "n \<noteq> 0" "unat off + unat n \<le> unat (sg_size_bytes b)"
  shows "\<exists>ms. buffer_track_written off n b = Some (b\<lparr>chain_meta := ms\<rparr>) \<and> length ms = length (chain_meta b)"
proof -
  have "off < sg_size_bytes b" using assms(2,3) unat_gt_0 [of n] by (simp add: word_less_nat_alt)
  from sg_find_place [OF assms(1) this] obtain it off' where
    f: "sg_find b off = Some (it, off')" "place_ok b it off'" "rest b it off' = drop (unat off) (payload b)" by blast
  then have "unat n \<le> length (rest b it off')" using assms(3) length_payload [OF assms(1)] by simp
  from track_loop_total [OF assms(1) f(2) this] f(1) show ?thesis by (simp add: buffer_track_written_def)
qed

lemma track_loop_cookie:
  "track_loop it off n (b\<lparr>cookie := c\<rparr>) = map_option (\<lambda>b. b\<lparr>cookie := c\<rparr>) (track_loop it off n b)"
proof (induction it off n b rule: track_loop.induct)
  case (1 it off n b)
  show ?case
  proof (cases "n = 0 \<or> length (desc_chain b) \<le> it \<or> length (chain_meta b) \<le> it")
    case True
    then show ?thesis by (subst (1 2) track_loop.simps) (auto simp: nth_opt_def upd_opt_def Let_def)
  next
    case False
    let ?sz = "ucast (l_length (desc_chain b ! it) - ucast off) :: u64"
    let ?ms = "(chain_meta b)[it := track_written off (if ?sz \<le> n then ?sz else n) (chain_meta b ! it)]"
    have n: "n \<noteq> 0" "nth_opt (desc_chain b) it = Some (desc_chain b ! it)" using False by (simp_all add: nth_opt_def)
    have u: "upd_opt (chain_meta b) it (track_written off (if ?sz \<le> n then ?sz else n)) = Some ?ms"
      using False by (simp add: upd_opt_def)
    have comm: "b\<lparr>cookie := c, chain_meta := ?ms\<rparr> = b\<lparr>chain_meta := ?ms, cookie := c\<rparr>" by simp
    have l: "track_loop it off n b = track_loop (Suc it) 0 (if ?sz \<le> n then n - ?sz else 0) (b\<lparr>chain_meta := ?ms\<rparr>)"
      using False by (subst track_loop.simps) (simp add: nth_opt_def upd_opt_def Let_def)
    have lc: "track_loop it off n (b\<lparr>cookie := c\<rparr>) =
        track_loop (Suc it) 0 (if ?sz \<le> n then n - ?sz else 0) (b\<lparr>chain_meta := ?ms, cookie := c\<rparr>)"
      unfolding comm [symmetric] using False by (subst track_loop.simps) (simp add: nth_opt_def upd_opt_def Let_def)
    show ?thesis unfolding l lc by (rule "1.IH" [OF n refl u])
  qed
qed

lemma track_written_cookie:
  "buffer_track_written off n (b\<lparr>cookie := c\<rparr>) = map_option (\<lambda>b. b\<lparr>cookie := c\<rparr>) (buffer_track_written off n b)"
proof -
  have "sg_find (b\<lparr>cookie := c\<rparr>) off = sg_find b off" by (simp add: sg_find_def)
  then show ?thesis by (cases "sg_find b off") (auto simp: buffer_track_written_def track_loop_cookie)
qed

lemma unat_min: "unat (min a b) = min (unat a) (unat b)"
  by (simp add: min_def word_le_nat_alt)

subsection \<open>The interface of a translation\<close>

text \<open>
  A translation that succeeds on the areas \<open>ok\<close>, leaves the world as it is, and is contiguous on
  each of them.
\<close>

locale chain_accessor =
  fixes acc :: "'x accessor" and tr :: "u64 \<Rightarrow> u64" and ok :: "u64 \<Rightarrow> u64 \<Rightarrow> bool"
  assumes to_r: "ok a n \<Longrightarrow> to_r_hva acc a n w = Some (NONE, tr a, w)"
    and to_w: "ok a n \<Longrightarrow> to_w_hva acc a n w = Some (NONE, tr a, w)"
    and r_post: "ok a n \<Longrightarrow> r_hva_post acc a n (tr a) w = Some (NONE, w)"
    and w_post: "ok a n \<Longrightarrow> w_hva_post acc a n (tr a) w = Some (NONE, w)"
    and contiguous: "ok a n \<Longrightarrow> i < n \<Longrightarrow> tr (a + i) = tr a + i"
    and ok_sub: "ok a n \<Longrightarrow> k \<noteq> 0 \<Longrightarrow> unat i + unat k \<le> unat n \<Longrightarrow> ok (a + i) k"
begin

definition accessible :: "sg_buffer \<Rightarrow> bool" where
  "accessible b \<longleftrightarrow> (\<forall>d \<in> set (active b). ok (l_address d) (ucast (l_length d)))"

lemma map_tr_area: "ok a n \<Longrightarrow> map tr (area a (unat n)) = area (tr a) (unat n)"
proof (rule nth_equalityI, goal_cases)
  case (2 i)
  then have "i < unat n" by simp
  moreover from this have "unat (of_nat i :: u64) = i" using unsigned_less [of n, where 'a = nat] by (intro unat_of_nat64) simp
  ultimately have "(of_nat i :: u64) < n" by (simp add: word_less_nat_alt)
  then show ?case using 2 contiguous [of a n "of_nat i"] by simp
qed simp

lemma accessible_part:
  assumes "accessible b" "sg_wf b" "it < sg_end b" "n \<noteq> 0" "unat off + unat n \<le> unat (l_length (desc_chain b ! it))"
  shows "ok (l_address (desc_chain b ! it) + off) n"
  using assms(1,4,5) active_mem [OF assms(2,3)]
  by (intro ok_sub [of _ "ucast (l_length (desc_chain b ! it))"]) (simp_all add: accessible_def unsigned_ucast_eq)

lemma copy_from_moves:
  "ok a n \<Longrightarrow> copy_from_vqa (Some memcpy) acc l a n (m, x) = Some (NONE, move_bytes (area l (unat n)) (map tr (area a (unat n))) m, x)"
  by (simp add: copy_from_vqa_def to_r r_post memcpy_moves map_tr_area)

lemma copy_to_moves:
  "ok a n \<Longrightarrow> copy_to_vqa (Some memcpy) acc a l n (m, x) = Some (NONE, move_bytes (map tr (area a (unat n))) (area l (unat n)) m, x)"
  by (simp add: copy_to_vqa_def to_w w_post memcpy_moves map_tr_area)

end

text \<open>The bytes that a copy between linear memory and a buffer moves.\<close>

definition linear_move :: "bool \<Rightarrow> u64 list \<Rightarrow> u64 list \<Rightarrow> memory \<Rightarrow> memory" where
  "linear_move to_sg ps ls m = (if to_sg then move_bytes ps ls m else move_bytes ls ps m)"

lemma linear_move_append:
  assumes "length ps = length ls" "set (ps @ ps') \<inter> set (ls @ ls') = {}"
  shows "linear_move to_sg (ps @ ps') (ls @ ls') m = linear_move to_sg ps' ls' (linear_move to_sg ps ls m)"
proof -
  have d: "set ls' \<inter> set ps = {}" "set ps' \<inter> set ls = {}" using assms(2) by auto
  show ?thesis
    using move_append [OF assms(1) d(1), of ps' m] move_append [OF assms(1) [symmetric] d(2), of ls' m]
    by (simp only: linear_move_def split: if_split) simp
qed

context chain_accessor
begin

lemma copy_linear_loop_moves:
  assumes "sg_wf b" "accessible b" "place_ok b it off" "unat rem \<le> length (rest b it off)"
    and "\<forall>d \<in> set (active b). \<not> (to_sg \<and> should_only_read b (l_flags d))"
    and "set (map tr (take (unat rem) (rest b it off))) \<inter> set (area l (unat rem)) = {}"
  shows "copy_linear_loop to_sg memcpy acc b rem it off l copied (m, x) =
    Some (NONE, copied + rem, linear_move to_sg (map tr (take (unat rem) (rest b it off))) (area l (unat rem)) m, x)"
  using assms(3,4,6)
proof (induction "sg_end b - it" arbitrary: it off rem l copied m)
  case 0
  then have "unat rem = 0" by (simp add: place_ok_def)
  then have "rem = 0" by (simp only: unat_eq_zero)
  then show ?case by (subst copy_linear_loop.simps) (simp add: linear_move_def)
next
  case (Suc k)
  let ?d = "desc_chain b ! it"
  have it: "it < sg_end b" "it \<noteq> sg_end b" "nth_opt (desc_chain b) it = Some ?d"
    using Suc(2) assms(1) by (auto simp: nth_opt_def sg_wf_def)
  show ?case
  proof (cases "rem = 0")
    case True
    then show ?thesis by (subst copy_linear_loop.simps) (simp add: linear_move_def)
  next
    case False
    define n where "n = min (ucast (l_length ?d) - off) rem"
    have o: "unat off < unat (l_length ?d)" using Suc.prems(1) it by (simp add: place_ok_def)
    have "unat (ucast (l_length ?d) - off) = unat (l_length ?d) - unat off"
      using o by (simp add: unat_minus_le word_le_nat_alt unsigned_ucast_eq)
    then have n: "unat n = min (unat (l_length ?d) - unat off) (unat rem)" by (simp add: n_def unat_min)
    have "0 < unat rem" using False by (simp add: unat_gt_0)
    then have "unat n \<noteq> 0" using o n by (simp add: min_def)
    then have n0: "n \<noteq> 0" by auto
    let ?p = "area (l_address ?d + off) (unat n)"
    have ok: "ok (l_address ?d + off) n" using o n by (intro accessible_part [OF assms(2,1) it(1) n0]) simp
    have r: "unat (rem - n) = unat rem - unat n" using n by (simp add: unat_minus_le word_le_nat_alt)
    have next_rest: "rest b it off = area (l_address ?d + off) (unat (l_length ?d) - unat off) @ rest b (Suc it) 0"
      using rest_next [OF assms(1) it(1)] o by simp
    have ps: "take (unat rem) (rest b it off) = ?p @ take (unat (rem - n)) (rest b (Suc it) 0)"
      unfolding next_rest r by (simp add: take_area n min_def)
    have nle: "unat n \<le> unat rem" using n by simp
    have ls: "area l (unat rem) = area l (unat n) @ area (l + n) (unat (rem - n))"
      using area_split [OF nle, of l] r by simp
    have en: "\<not> (to_sg \<and> should_only_read b (l_flags ?d))" using assms(5) active_mem [OF assms(1) it(1)] by blast
    have ih: "copy_linear_loop to_sg memcpy acc b (rem - n) (Suc it) 0 (l + n) (copied + n) (m', x) =
        Some (NONE, copied + n + (rem - n), linear_move to_sg (map tr (take (unat (rem - n)) (rest b (Suc it) 0)))
          (area (l + n) (unat (rem - n))) m', x)" for m'
    proof (rule Suc(1))
      show "k = sg_end b - Suc it" using Suc(2) by simp
      show "place_ok b (Suc it) 0" by (rule place_next [OF assms(1) it(1)])
      show "unat (rem - n) \<le> length (rest b (Suc it) 0)" using Suc.prems(2) next_rest r n by (simp add: min_def) arith
      show "set (map tr (take (unat (rem - n)) (rest b (Suc it) 0))) \<inter> set (area (l + n) (unat (rem - n))) = {}"
        using Suc.prems(3) unfolding ps ls by auto
    qed
    have "(if to_sg then copy_to_vqa (Some memcpy) acc (l_address ?d + off) l n (m, x)
        else copy_from_vqa (Some memcpy) acc l (l_address ?d + off) n (m, x)) =
        Some (NONE, linear_move to_sg (map tr ?p) (area l (unat n)) m, x)"
      using copy_from_moves [OF ok] copy_to_moves [OF ok] by (simp add: linear_move_def)
    then have "copy_linear_loop to_sg memcpy acc b rem it off l copied (m, x) =
        copy_linear_loop to_sg memcpy acc b (rem - n) (Suc it) 0 (l + n) (copied + n)
          (linear_move to_sg (map tr ?p) (area l (unat n)) m, x)"
      using False it by (subst copy_linear_loop.simps) (simp add: n_def [symmetric] Let_def nth_opt_def if_not_P [OF en])
    then show ?thesis
      unfolding ps ls ih map_append
      by (subst linear_move_append) (use Suc.prems(3) in \<open>simp_all add: ps ls\<close>)
  qed
qed

end

subsection \<open>The copies\<close>

lemma with_cookie [simp]:
  "active (b\<lparr>cookie := c\<rparr>) = active b" "payload (b\<lparr>cookie := c\<rparr>) = payload b" "sg_wf (b\<lparr>cookie := c\<rparr>) = sg_wf b"
  "should_only_read (b\<lparr>cookie := c\<rparr>) = should_only_read b"
  by (simp_all add: active_def payload_def sg_wf_def should_only_read_def fun_eq_iff)

lemma retry_once: "f s = Some (err, n, s') \<Longrightarrow> err \<noteq> AGAIN \<Longrightarrow> retry f k sz s = Some (err, sz + n, s')"
  by (subst retry.simps) (simp split: nat.split)

lemma cookie_reset_same: "cookie_reset c = cookie_reset c'"
  by (simp add: cookie_reset_def)

text \<open>The bytes \<open>off\<close> to \<open>off + n\<close> of the payload.\<close>

definition payload_part :: "sg_buffer \<Rightarrow> u64 \<Rightarrow> u64 \<Rightarrow> u64 list" where
  "payload_part b off n = take (unat n) (drop (unat off) (payload b))"

context chain_accessor
begin

lemma accessible_cookie [simp]: "accessible (b\<lparr>cookie := c\<rparr>) = accessible b"
  by (simp add: accessible_def)

lemma copy_linear_impl_moves:
  assumes "sg_wf b" "accessible b" "cookie b = Some c" "req_sz c \<noteq> 0" "off = (if to_sg then req_d_off c else req_s_off c)"
    and "unat off + unat (req_sz c) \<le> unat (sg_size_bytes b)"
    and "\<forall>d \<in> set (active b). \<not> (to_sg \<and> should_only_read b (l_flags d))"
    and "set (map tr (payload_part b off (req_sz c))) \<inter> set (area l (unat (req_sz c))) = {}"
  shows "copy_fromto_linear_impl to_sg memcpy acc l b (m, x) =
    Some (NONE, req_sz c, linear_move to_sg (map tr (payload_part b off (req_sz c))) (area l (unat (req_sz c))) m, x)"
proof -
  obtain it off' where c: "check_copy_configuration b (req_sz c) off = Some (it, off')" "place_ok b it off'"
    "rest b it off' = drop (unat off) (payload b)"
    using check_copy_place [OF assms(1,4,6)] by blast
  have "unat (req_sz c) \<le> length (rest b it off')" using c(3) assms(6) length_payload [OF assms(1)] by simp
  from copy_linear_loop_moves [OF assms(1,2) c(2) this assms(7), of l 0 m x] show ?thesis
    using assms(3,8) c by (simp add: copy_fromto_linear_impl_def payload_part_def assms(5) [symmetric])
qed

lemma copy_to_linear_moves:
  assumes "sg_wf b" "accessible b" "cookie b = Some c" "\<not> in_use c" "dst \<noteq> 0" "sz \<noteq> 0"
    and "unat off + unat sz \<le> unat (sg_size_bytes b)"
    and "set (map tr (payload_part b off sz)) \<inter> set (area dst (unat sz)) = {}"
  shows "copy_to_linear None acc dst sz off (b, m, x) =
    Some (NONE, sz, b\<lparr>cookie := Some (cookie_reset c)\<rparr>, move_bytes (area dst (unat sz)) (map tr (payload_part b off sz)) m, x)"
proof -
  let ?c = "init_sg_src_to_linear_dst dst sz off c"
  let ?b = "b\<lparr>cookie := Some ?c\<rparr>"
  have f: "req_sz ?c = sz" "req_s_off ?c = off" "req_linear_dst ?c = dst" "is_src_to_linear ?c" "copy_is_src ?c" "pending_dsts ?c = 1"
    using assms(5) by (simp_all add: init_sg_src_to_linear_dst_def init_metadata_def init_status_def req_linear_dst_def is_src_to_linear_def)
  have cs: "conclude_src ?c = Some (cookie_reset c)"
    using f by (simp add: conclude_src_def is_src_to_linear_def cookie_reset_def)
  have st: "start_copy_to_linear dst sz off b = Some (NONE, 0, ?b)"
    using assms(3-5) by (simp add: start_copy_to_linear_def is_dst_def is_dst_from_sg_def is_dst_from_linear_def)
  have "copy_fromto_linear_impl False memcpy acc (req_linear_dst ?c) ?b (m, x) =
      Some (NONE, sz, move_bytes (area dst (unat sz)) (map tr (payload_part b off sz)) m, x)"
    using copy_linear_impl_moves [of ?b ?c off False "req_linear_dst ?c" m x] assms f
    by (simp add: payload_part_def linear_move_def)
  then have "try_end_copy_to_linear None acc (?b, m, x) =
      Some (NONE, sz, b\<lparr>cookie := Some (cookie_reset c)\<rparr>, move_bytes (area dst (unat sz)) (map tr (payload_part b off sz)) m, x)"
    using f cs assms(6) by (simp add: try_end_copy_to_linear_def cookie_modify_def word_neq_0_conv)
  from retry_once [where f = "try_end_copy_to_linear None acc", OF this] st show ?thesis by (simp add: copy_to_linear_def)
qed

lemma copy_from_linear_moves:
  assumes "sg_wf b" "accessible b" "cookie b = Some c" "\<not> in_use c" "src \<noteq> 0" "sz \<noteq> 0"
    and "unat off + unat sz \<le> unat (sg_size_bytes b)"
    and "\<forall>d \<in> set (active b). \<not> should_only_read b (l_flags d)"
    and "set (map tr (payload_part b off sz)) \<inter> set (area src (unat sz)) = {}"
  shows "\<exists>ms. copy_from_linear None acc src sz off (b, m, x) =
      Some (NONE, sz, b\<lparr>cookie := Some (cookie_reset c), chain_meta := ms\<rparr>,
        move_bytes (map tr (payload_part b off sz)) (area src (unat sz)) m, x) \<and> length ms = length (chain_meta b) \<and>
      buffer_track_written off sz b = Some (b\<lparr>chain_meta := ms\<rparr>)"
proof -
  let ?c = "init_sg_dst_from_linear_src src sz off c"
  let ?b = "b\<lparr>cookie := Some ?c\<rparr>"
  let ?m = "move_bytes (map tr (payload_part b off sz)) (area src (unat sz)) m"
  have f: "req_sz ?c = sz" "req_d_off ?c = off" "req_linear_src ?c = src" "is_dst_from_linear ?c" "copy_started ?c" "\<not> copy_is_src ?c"
    using assms(5) by (simp_all add: init_sg_dst_from_linear_src_def init_metadata_def init_status_def req_linear_src_def is_dst_from_linear_def)
  have cd: "conclude_dst ?c = Some (cookie_reset c)" using f by (simp add: conclude_dst_def cookie_reset_def)
  have st: "start_copy_from_linear src sz off b = Some (NONE, 0, ?b)"
    using assms(3-5) by (simp add: start_copy_from_linear_def is_dst_def is_dst_from_sg_def is_dst_from_linear_def)
  obtain ms where ms: "buffer_track_written off sz b = Some (b\<lparr>chain_meta := ms\<rparr>)" "length ms = length (chain_meta b)"
    using track_written_total [OF assms(1,6,7)] by auto
  then have mb: "buffer_track_written off sz ?b = Some (?b\<lparr>chain_meta := ms\<rparr>)" by (simp add: track_written_cookie)
  have "copy_fromto_linear_impl True memcpy acc (req_linear_src ?c) ?b (m, x) = Some (NONE, sz, ?m, x)"
    using copy_linear_impl_moves [of ?b ?c off True "req_linear_src ?c" m x] assms f
    by (simp add: payload_part_def linear_move_def)
  then have "try_end_copy_from_linear None acc (?b, m, x) =
      Some (NONE, sz, b\<lparr>cookie := Some (cookie_reset c), chain_meta := ms\<rparr>, ?m, x)"
    using f cd mb assms(6) by (simp add: try_end_copy_from_linear_def cookie_modify_def word_neq_0_conv)
  from retry_once [where f = "try_end_copy_from_linear None acc", OF this] st ms show ?thesis
    by (auto simp: copy_from_linear_def)
qed

end

lemma disjoint_tails:
  "set (as @ bs) \<inter> set (cs @ ds) = {} \<Longrightarrow> set bs \<inter> set ds = {} \<and> set ds \<inter> set as = {}"
  by auto

text \<open>Two translations, of the destination and of the source of a copy between buffers.\<close>

locale chain_pair = dst: chain_accessor dacc dtr dok + src: chain_accessor sacc str sok
  for dacc :: "'x accessor" and dtr dok and sacc :: "'x accessor" and str sok
begin

lemma copy_between_moves:
  "dok a n \<Longrightarrow> sok a' n \<Longrightarrow> copy_between_vqa (Some memcpy) dacc sacc a a' n (m, x) =
     Some (NONE, move_bytes (map dtr (area a (unat n))) (map str (area a' (unat n))) m, x)"
  by (simp add: copy_between_vqa_def dst.to_w dst.w_post src.to_r src.r_post memcpy_moves dst.map_tr_area src.map_tr_area)

lemma copy_sg_loop_moves:
  assumes wf: "sg_wf db" "sg_wf sb" and acc: "dst.accessible db" "src.accessible sb"
    and dw: "\<forall>d \<in> set (active db). \<not> should_only_read db (l_flags d)"
    and "place_ok db d d_off" "place_ok sb s s_off"
    and "unat rem \<le> length (rest db d d_off)" "unat rem \<le> length (rest sb s s_off)"
    and "set (map dtr (take (unat rem) (rest db d d_off))) \<inter> set (map str (take (unat rem) (rest sb s s_off))) = {}"
  shows "copy_sg_loop memcpy dacc sacc db sb rem d d_off s s_off copied (m, x) =
    Some (NONE, copied + rem, move_bytes (map dtr (take (unat rem) (rest db d d_off)))
      (map str (take (unat rem) (rest sb s s_off))) m, x)"
  using assms(6-)
proof (induction "unat rem" arbitrary: rem d d_off s s_off copied m rule: less_induct)
  case less
  show ?case
  proof (cases "rem = 0")
    case True
    then show ?thesis by (subst copy_sg_loop.simps) simp
  next
    case False
    then have r0: "0 < unat rem" by (simp add: unat_gt_0)
    let ?dd = "desc_chain db ! d" and ?sd = "desc_chain sb ! s"
    have it: "d < sg_end db" "s < sg_end sb"
      using less.prems(1-4) r0 by (auto simp: place_ok_def le_eq_less_or_eq)
    then have nth: "nth_opt (desc_chain db) d = Some ?dd" "nth_opt (desc_chain sb) s = Some ?sd"
      using wf by (auto simp: nth_opt_def sg_wf_def)
    have o: "unat d_off < unat (l_length ?dd)" "unat s_off < unat (l_length ?sd)"
      using less.prems(1,2) it by (auto simp: place_ok_def)
    define n where "n = min rem (min (ucast (l_length ?sd) - s_off) (ucast (l_length ?dd) - d_off))"
    have "unat (ucast (l_length ?dd) - d_off) = unat (l_length ?dd) - unat d_off"
      "unat (ucast (l_length ?sd) - s_off) = unat (l_length ?sd) - unat s_off"
      using o by (simp_all add: unat_minus_le word_le_nat_alt unsigned_ucast_eq)
    then have n: "unat n = min (unat rem) (min (unat (l_length ?sd) - unat s_off) (unat (l_length ?dd) - unat d_off))"
      by (simp add: n_def unat_min)
    then have n0: "0 < unat n" using o r0 by simp
    then have nz: "n \<noteq> 0" by (simp add: unat_gt_0)
    have ok: "dok (l_address ?dd + d_off) n" "sok (l_address ?sd + s_off) n"
      using o n dst.accessible_part [OF acc(1) wf(1) it(1) nz, of d_off] src.accessible_part [OF acc(2) wf(2) it(2) nz, of s_off]
      by simp_all
    have r: "unat (rem - n) = unat rem - unat n" using n by (simp add: unat_minus_le word_le_nat_alt)
    define fd where "fd \<longleftrightarrow> d_off + n = ucast (l_length ?dd)"
    define fs where "fs \<longleftrightarrow> s_off + n = ucast (l_length ?sd)"
    let ?d = "if fd then Suc d else d" and ?do = "if fd then 0 else d_off + n"
    let ?s = "if fs then Suc s else s" and ?so = "if fs then 0 else s_off + n"
    have nd: "unat n \<le> unat (l_length ?dd) - unat d_off" "unat n \<le> unat (l_length ?sd) - unat s_off" unfolding n by auto
    note dp = place_copied [OF wf(1) it(1) less.prems(1) nd(1) fd_def]
    note sp = place_copied [OF wf(2) it(2) less.prems(2) nd(2) fs_def]
    have ds: "take (unat rem) (rest db d d_off) = area (l_address ?dd + d_off) (unat n) @ take (unat (rem - n)) (rest db ?d ?do)"
      "take (unat rem) (rest sb s s_off) = area (l_address ?sd + s_off) (unat n) @ take (unat (rem - n)) (rest sb ?s ?so)"
      unfolding dp(2) sp(2) r using n by (simp_all add: take_area min_def)
    note tails = less.prems(5) [unfolded ds map_append, THEN disjoint_tails]
    have ih: "copy_sg_loop memcpy dacc sacc db sb (rem - n) ?d ?do ?s ?so (copied + n) (m', x) =
        Some (NONE, copied + n + (rem - n), move_bytes (map dtr (take (unat (rem - n)) (rest db ?d ?do)))
          (map str (take (unat (rem - n)) (rest sb ?s ?so))) m', x)" for m'
    proof (rule less.hyps)
      show "unat (rem - n) < unat rem" using r n0 r0 by simp
      show "unat (rem - n) \<le> length (rest db ?d ?do)" "unat (rem - n) \<le> length (rest sb ?s ?so)"
        using less.prems(3,4) unfolding r dp(2) sp(2) by simp_all
      show "set (map dtr (take (unat (rem - n)) (rest db ?d ?do))) \<inter> set (map str (take (unat (rem - n)) (rest sb ?s ?so))) = {}"
        by (rule tails [THEN conjunct1])
    qed (use dp sp in auto)
    have en: "\<not> should_only_read db (l_flags ?dd)" using dw active_mem [OF wf(1) it(1)] by blast
    have "copy_sg_loop memcpy dacc sacc db sb rem d d_off s s_off copied (m, x) =
        copy_sg_loop memcpy dacc sacc db sb (rem - n) ?d ?do ?s ?so (copied + n)
          (move_bytes (map dtr (area (l_address ?dd + d_off) (unat n))) (map str (area (l_address ?sd + s_off) (unat n))) m, x)"
      using False it en nth copy_between_moves [OF ok]
      by (subst copy_sg_loop.simps) (simp add: n_def [symmetric] fd_def [symmetric] fs_def [symmetric] Let_def nth_opt_def)
    then show ?thesis
      unfolding ds ih map_append [of dtr] map_append [of str]
      by (subst move_append) (use tails in simp_all)
  qed
qed

lemma copy_to_sg_moves:
  assumes wf: "sg_wf db" "sg_wf sb" and acc: "dst.accessible db" "src.accessible sb"
    and c: "cookie db = Some (cookie_reset c)" "cookie sb = Some (cookie_reset c')"
    and dw: "\<forall>d \<in> set (active db). \<not> should_only_read db (l_flags d)"
    and sz: "sz \<noteq> 0" "unat d_off + unat sz \<le> unat (sg_size_bytes db)" "unat s_off + unat sz \<le> unat (sg_size_bytes sb)"
    and dj: "set (map dtr (payload_part db d_off sz)) \<inter> set (map str (payload_part sb s_off sz)) = {}"
  shows "\<exists>ms. copy_to_sg None dacc sacc sz d_off s_off (sb, db, m, x) =
      Some (NONE, sz, sb, db\<lparr>chain_meta := ms\<rparr>, move_bytes (map dtr (payload_part db d_off sz)) (map str (payload_part sb s_off sz)) m, x)
      \<and> length ms = length (chain_meta db)"
proof -
  let ?dc = "init_sg_dst_from_sg_src (cookie_ptr sb) sz d_off s_off (cookie_reset c)"
  let ?sc = "init_sg_src_to_sg_dst (cookie_reset c')"
  let ?d = "db\<lparr>cookie := Some ?dc\<rparr>" and ?s = "sb\<lparr>cookie := Some ?sc\<rparr>"
  let ?m = "move_bytes (map dtr (payload_part db d_off sz)) (map str (payload_part sb s_off sz)) m"
  note defs = init_sg_dst_from_sg_src_def init_sg_src_to_sg_dst_def init_metadata_def init_status_def cookie_reset_def
  have f: "req_sz ?dc = sz" "req_d_off ?dc = d_off" "req_s_off ?dc = s_off" "is_dst_from_matching_cookie ?dc (cookie_ptr sb) ?sc"
    by (simp_all add: defs is_dst_from_matching_cookie_def is_dst_from_sg_def is_src_to_sg_def)
  have cd: "conclude_dst ?dc = Some (cookie_reset c)" "conclude_src ?sc = Some (cookie_reset c')"
    by (simp_all add: defs conclude_dst_def conclude_src_def)
  have st: "start_copy_to_sg sz d_off s_off (sb, db) = Some (NONE, 0, ?s, ?d)"
    using c by (simp add: start_copy_to_sg_def is_dst_def is_dst_from_sg_def is_dst_from_linear_def cookie_reset_def)
  obtain d d_off' where d: "check_copy_configuration ?d sz d_off = Some (d, d_off')" "place_ok ?d d d_off'"
    "rest ?d d d_off' = drop (unat d_off) (payload db)"
    using check_copy_place [of ?d sz d_off] wf sz by auto
  obtain s s_off' where s: "check_copy_configuration ?s sz s_off = Some (s, s_off')" "place_ok ?s s s_off'"
    "rest ?s s s_off' = drop (unat s_off) (payload sb)"
    using check_copy_place [of ?s sz s_off] wf sz by auto
  obtain ms where ms: "buffer_track_written d_off sz ?d = Some (?d\<lparr>chain_meta := ms\<rparr>)" "length ms = length (chain_meta db)"
    using track_written_total [of ?d sz d_off] wf sz by auto
  have "copy_sg_loop memcpy dacc sacc ?d ?s sz d d_off' s s_off' 0 (m, x) =
      Some (NONE, 0 + sz, move_bytes (map dtr (take (unat sz) (rest ?d d d_off'))) (map str (take (unat sz) (rest ?s s s_off'))) m, x)"
    by (rule copy_sg_loop_moves)
      (use wf acc dw d s sz length_payload [OF wf(1)] length_payload [OF wf(2)] dj in \<open>simp_all add: payload_part_def\<close>)
  then have "try_end_copy_to_sg_impl memcpy dacc sacc ?s ?d (m, x) = Some (NONE, sz, ?m, x)"
    using d(1,3) s(1,3) f by (simp add: try_end_copy_to_sg_impl_def payload_part_def)
  then have "try_end_copy_to_sg None dacc sacc (?s, ?d, m, x) = Some (NONE, sz, sb, db\<lparr>chain_meta := ms\<rparr>, ?m, x)"
    using f cd ms(1) sz(1) c by (simp add: try_end_copy_to_sg_def cookie_modify_def word_neq_0_conv)
  from retry_once [where f = "try_end_copy_to_sg None dacc sacc", OF this] st ms(2) show ?thesis
    by (auto simp: copy_to_sg_def)
qed

end

end
