(* ===== verification/SgSafe.thy ===== *)
theory SgSafe
  imports SgCopyProps
begin

text \<open>
  The life of a scatter-gather buffer on the device side: \<open>sg_idle\<close> between two chains and \<open>sg_held\<close>
  with a chain in it. A walk, a copy to or from linear memory and the return of the chain never
  abort and move between the two, whatever the shared memory holds and wherever a translation
  fails, as long as the translation itself does not abort (\<open>accessor_total\<close>).
\<close>

definition sg_idle :: "sg_buffer \<Rightarrow> bool" where
  "sg_idle b \<longleftrightarrow> sg_ready b \<and> cookie b \<noteq> None"

definition sg_held :: "sg_buffer \<Rightarrow> bool" where
  "sg_held b \<longleftrightarrow> sg_wf b \<and> complete_chain b \<and> 0 < sg_end b \<and> length (desc_chain b) = unat (max_chain_length b) \<and>
     (\<exists>c. cookie b = Some c \<and> \<not> in_use c)"

lemma sg_held_size: "sg_held b \<Longrightarrow> sg_size_bytes b \<noteq> 0"
proof
  assume h: "sg_held b" and z: "sg_size_bytes b = 0"
  then have "payload b = []" using length_payload [of b] by (simp add: sg_held_def)
  moreover have m: "desc_chain b ! 0 \<in> set (active b)" "0 < unat (l_length (desc_chain b ! 0))"
    using h active_mem [of b 0] active_nonzero [of b 0] by (simp_all add: sg_held_def del: unat_gt_0)
  have "chunk (desc_chain b ! 0) \<noteq> []" using m(2) by (simp flip: length_greater_0_conv del: unat_gt_0)
  ultimately show False using m(1) by (auto simp: payload_def)
qed

subsection \<open>The return of a chain\<close>

lemma lowerbound_total:
  "sg_end b \<le> length (desc_chain b) \<Longrightarrow> sg_end b \<le> length (chain_meta b) \<Longrightarrow> \<exists>x. lowerbound_loop b i lb = Some x"
proof (induction b i lb rule: lowerbound_loop.induct)
  case (1 b i lb)
  show ?case
  proof (cases "i < active_chain_length b")
    case True
    then have i: "unat i < sg_end b" by (simp add: word_less_nat_alt)
    then have e: "nth_opt (desc_chain b) (unat i) = Some (desc_chain b ! unat i)"
      "nth_opt (chain_meta b) (unat i) = Some (chain_meta b ! unat i)"
      using 1(2,3) by (simp_all add: nth_opt_def)
    show ?thesis using 1(1) [OF True _ e] 1(2,3) True e by (subst lowerbound_loop.simps) (simp add: nth_opt_def)
  qed (simp add: lowerbound_loop.simps)
qed

lemma vq_send_valid: "is_size_valid (vq_size q) \<Longrightarrow> \<exists>m' q'. vq_send True d len (m, q) = Some (m', q') \<and> vq_size q' = vq_size q"
  by (simp add: vq_send_def dev_send_def bump_driven_idx_def ring_slot_valid)

lemma reset_idle: "cookie b \<noteq> None \<Longrightarrow> length (desc_chain b) = unat (max_chain_length b) \<Longrightarrow>
    length (chain_meta b) = unat (max_chain_length b) \<Longrightarrow> sg_idle (reset_fields b)"
  by (auto simp: sg_idle_def sg_ready_def reset_fields_def cookie_reset_def)

lemma conclude_held:
  assumes "sg_held b" "is_size_valid (vq_size q)"
  shows "\<exists>b' m' q'. conclude_chain_use True f (b, m, q) = Some (b', m', q') \<and> vq_size q' = vq_size q \<and> sg_idle b'"
proof -
  obtain c where c: "cookie b = Some c" "\<not> in_use c" using assms(1) by (auto simp: sg_held_def)
  have h: "sg_end b \<le> length (desc_chain b)" "sg_end b \<le> length (chain_meta b)" "0 < length (chain_meta b)" "complete_chain b"
    using assms(1) by (auto simp: sg_held_def sg_wf_def)
  have "\<exists>lb. written_lowerbound b = Some lb" using lowerbound_total [OF h(1,2)] by (simp add: written_lowerbound_def)
  then obtain lb where lb: "written_lowerbound b = Some lb" by blast
  obtain m' q' where s: "vq_send True (md_desc (chain_meta b ! 0)) lb (m, q) = Some (m', q')" "vq_size q' = vq_size q"
    using vq_send_valid [OF assms(2)] by blast
  have "sg_reset b = Some (reset_fields b)" using c by (simp add: sg_reset_def)
  moreover have "sg_idle (reset_fields b)" using assms(1) c by (intro reset_idle) (auto simp: sg_held_def sg_wf_def)
  ultimately show ?thesis using h lb s by (simp add: conclude_chain_use_def nth_opt_def)
qed

lemma conclude_idle: "sg_idle b \<Longrightarrow> \<exists>b'. conclude_chain_use True False (b, m, q) = Some (b', m, q) \<and> sg_idle b'"
  by (auto simp: conclude_chain_use_def sg_idle_def sg_ready_def sg_reset_def reset_fields_def cookie_reset_def)

subsection \<open>The walk\<close>

lemma take_descriptor_cookie: "take_descriptor m q d b = Some (err, ld, onext, en, d', b') \<Longrightarrow> cookie b' = cookie b"
  by (auto simp: take_descriptor_def bind_eq_Some_conv Let_def split_beta)

lemma conclude_cookie: "conclude_chain_use dev f (b, m, q) = Some (b', m', q') \<Longrightarrow> cookie b' = map_option cookie_reset (cookie b)"
  by (auto simp: conclude_chain_use_def bind_eq_Some_conv sg_reset_def reset_fields_def split: if_splits)

lemma walk_loop_cookie:
  "walk_loop cb dev m q d x b = Some (err, x', b', m', q') \<Longrightarrow> cookie b' = cookie b \<or> cookie b' = map_option cookie_reset (cookie b)"
proof (induction cb dev m q d x b rule: walk_loop.induct)
  case (1 cb dev m q d x b)
  show ?case
  proof (cases "walk_step cb dev m q d x b")
    case None
    then show ?thesis using "1.prems" walk_loop.simps [of cb dev m q d x b] by simp
  next
    case (Some r)
    show ?thesis
    proof (cases r)
      case (Inl y)
      then have "walk_step cb dev m q d x b = Some (Inl (err, x', b', m', q'))" using Some "1.prems" walk_loop.simps [of cb dev m q d x b] by simp
      then show ?thesis
        by (auto simp: walk_step_def bind_eq_Some_conv Let_def dest!: take_descriptor_cookie conclude_cookie split: if_splits)
    next
      case (Inr y)
      then obtain d2 x2 b2 where y: "y = (d2, x2, b2)" by (cases y) auto
      then have l: "walk_loop cb dev m q d2 x2 b2 = Some (err, x', b', m', q')"
        using Inr Some "1.prems" walk_loop.simps [of cb dev m q d x b] by simp
      have "cookie b2 = cookie b" using Some Inr y
        by (auto simp: walk_step_def bind_eq_Some_conv Let_def dest!: take_descriptor_cookie split: if_splits)
      then show ?thesis using "1.IH" [OF Some Inr y [symmetric] refl l] by simp
    qed
  qed
qed

lemma holds_held:
  assumes "sg_holds m ds b" "chain_ok False 0 (map (read_desc m) ds)" "ds \<noteq> []" "complete_chain b" "cookie b = Some c" "\<not> in_use c"
  shows "sg_held b"
proof -
  have len: "sg_end b = length ds" "sg_end b \<le> length (desc_chain b)" "length (chain_meta b) = length (desc_chain b)"
    "length (desc_chain b) = unat (max_chain_length b)"
    using assms(1) by (simp_all add: sg_holds_def)
  have l: "l_length (active b ! i) = desc_length m (ds ! i)" if "i < length ds" for i
    using assms(1) that by (simp add: sg_holds_def active_def read_desc_def)
  have la: "length (active b) = length ds" using len by (simp add: active_def)
  have sizes: "map (\<lambda>d. l_length d) (active b) = map (desc_length m) ds"
    by (rule nth_equalityI) (simp_all add: la l)
  have nz: "chain_ok w n xs \<Longrightarrow> x \<in> set xs \<Longrightarrow> fst (snd x) \<noteq> 0" for w n x xs
    by (induction w n xs rule: chain_ok.induct) (auto split: if_splits)
  have "l_length d \<noteq> 0" if "d \<in> set (active b)" for d
  proof -
    have "l_length d \<in> set (map (desc_length m) ds)" using that by (simp add: sizes [symmetric])
    then show ?thesis using nz [OF assms(2)] by (fastforce simp: read_desc_def)
  qed
  moreover have "sum_list (map (\<lambda>d. unat (l_length d)) (active b)) = chain_bytes m ds"
    using arg_cong [OF sizes, of "\<lambda>ls. sum_list (map unat ls)"] by (simp add: comp_def)
  ultimately show ?thesis using assms len by (auto simp: sg_held_def sg_wf_def sg_holds_def)
qed

lemma chain_spec_not_empty: "chain_spec n m q d = Some ds \<Longrightarrow> ds \<noteq> []"
  by (cases n) (auto split: if_splits)

lemma dev_recv_total:
  assumes "is_size_valid (vq_size q)"
  shows "\<exists>err d m' q'. dev_recv (m, q) = Some (err, d, m', q') \<and> vq_size q' = vq_size q \<and> (err = NONE \<longrightarrow> d \<noteq> None) \<and>
    err \<in> {NONE, NOENT, NOTRECOVERABLE}"
  using ring_slot_valid [OF assms] by (auto simp: dev_recv_def Let_def)

text \<open>One walk: the buffer is idle again unless there was a valid chain.\<close>

lemma walk_chain_total:
  assumes "sg_idle b" "is_size_valid (vq_size q)"
  shows "\<exists>err b' m' q'. walk_chain True (b, m, q) = Some (err, (), b', m', q') \<and> vq_size q' = vq_size q \<and>
    (if err = NONE then sg_held b' else sg_idle b')"
proof -
  obtain err d m1 q1 where r: "dev_recv (m, q) = Some (err, d, m1, q1)" "vq_size q1 = vq_size q" "err = NONE \<Longrightarrow> d \<noteq> None"
    using dev_recv_total [OF assms(2)] by blast
  then have rv: "vq_recv True (m, q) = Some (err, d, m1, q1)" by (simp add: vq_recv_def)
  show ?thesis
  proof (cases "err = NONE")
    case False
    then show ?thesis using rv r assms(1) by (simp add: walk_chain_def recv_and_walk_def)
  next
    case True
    then obtain root where d: "d = Some root" using r(3) by auto
    have sv: "is_size_valid (vq_size q1)" using assms(2) r(2) by simp
    obtain m2 q2 where s: "vq_send True root 0 (m1, q1) = Some (m2, q2)" "vq_size q2 = vq_size q1"
      using vq_send_valid [OF sv] by blast
    have w: "walk_chain True (b, m, q) = walk_chain_callback walk_nop True root () (b, m1, q1)"
      using rv True d by (simp add: walk_chain_def recv_and_walk_def)
    show ?thesis
    proof (cases "max_chain_length b < vq_size q1")
      case True
      then show ?thesis using w s r(2) assms(1) by (simp add: walk_chain_callback_def Let_def)
    next
      case False
      let ?b = "b\<lparr>chain_for_device := True\<rparr>"
      have i: "sg_ready b" "\<exists>c. cookie b = Some c \<and> \<not> in_use c"
        using assms(1) by (auto simp: sg_idle_def sg_ready_def)
      have "vq_size q1 \<noteq> 0" using sv by (auto simp: is_size_valid_def)
      then have n0: "max_chain_length b \<noteq> 0" using False by (metis not_less word_le_0_iff)
      have h: "sg_holds m1 [] ?b" using i(1) by (auto simp: sg_ready_def sg_holds_def)
      let ?ch = "case chain_spec (unat (max_chain_length b)) m1 q1 root of None \<Rightarrow> None
          | Some es \<Rightarrow> if chain_ok False 0 (map (read_desc m1) ([] @ es)) then Some ([] @ es) else None"
      have ok: "walk_result_ok True m1 q1 root ?ch (walk_loop walk_nop True m1 q1 root () ?b)"
        by (rule walk_loop_spec [OF h _ _ _ _ _ s(1)]) (use i n0 in \<open>auto simp: sg_ready_def\<close>)
      have wl: "walk_chain True (b, m, q) = walk_loop walk_nop True m1 q1 root () ?b"
        using w False by (simp add: walk_chain_callback_def)
      show ?thesis
      proof (cases ?ch)
        case None
        then obtain b' where "walk_loop walk_nop True m1 q1 root () ?b = Some (NOTRECOVERABLE, (), b', m2, q2)" "sg_ready b'"
          using ok s(1) by (auto simp: walk_result_ok_def)
        moreover from this(1) have "cookie b' \<noteq> None" using walk_loop_cookie [of walk_nop] i(2) by fastforce
        ultimately show ?thesis using wl s(2) r(2) by (simp add: sg_idle_def)
      next
        case (Some ds)
        then obtain b' where b': "walk_loop walk_nop True m1 q1 root () ?b = Some (NONE, (), b', m1, q1)"
          "sg_holds m1 ds b'" "complete_chain b'"
          using ok by (auto simp: walk_result_ok_def)
        have ds: "chain_ok False 0 (map (read_desc m1) ds)" "ds \<noteq> []"
          using Some chain_spec_not_empty by (auto split: option.splits if_splits)
        obtain c where "cookie b' = Some c" "\<not> in_use c"
          using walk_loop_cookie [OF b'(1)] i(2) by (auto simp: cookie_reset_def)
        then have "sg_held b'" using holds_held [OF b'(2) ds b'(3)] by blast
        then show ?thesis using wl b'(1) r(2) by simp
      qed
    qed
  qed
qed

subsection \<open>Copies\<close>

definition accessor_total :: "'x accessor \<Rightarrow> bool" where
  "accessor_total acc \<longleftrightarrow> (\<forall>a n p w. to_r_hva acc a n w \<noteq> None \<and> to_w_hva acc a n w \<noteq> None \<and>
     r_hva_post acc a n p w \<noteq> None \<and> w_hva_post acc a n p w \<noteq> None)"

lemma accessor_totalD:
  assumes "accessor_total acc"
  obtains (r) err p w' where "to_r_hva acc a n w = Some (err, p, w')"
  using assms by (metis accessor_total_def not_None_eq prod_cases3)

lemma accessor_total_w:
  assumes "accessor_total acc"
  obtains (w) err p w' where "to_w_hva acc a n w = Some (err, p, w')"
  using assms by (metis accessor_total_def not_None_eq prod_cases3)

lemma accessor_total_post:
  assumes "accessor_total acc"
  shows "\<exists>err w'. r_hva_post acc a n p w = Some (err, w')" "\<exists>err w'. w_hva_post acc a n p w = Some (err, w')"
  using assms by (metis accessor_total_def not_None_eq surj_pair)+

lemma copy_to_vqa_total: "accessor_total acc \<Longrightarrow> \<exists>err w'. copy_to_vqa (Some f) acc a p n w = Some (err, w')"
proof -
  assume t: "accessor_total acc"
  obtain err q w1 where 1: "to_w_hva acc a n w = Some (err, q, w1)" using t by (rule accessor_total_w)
  obtain err2 w2 where "w_hva_post acc a n q (f q p n w1) = Some (err2, w2)" using accessor_total_post(2) [OF t] by blast
  then show ?thesis using 1 by (simp add: copy_to_vqa_def)
qed

lemma copy_from_vqa_total: "accessor_total acc \<Longrightarrow> \<exists>err w'. copy_from_vqa (Some f) acc p a n w = Some (err, w')"
proof -
  assume t: "accessor_total acc"
  obtain err q w1 where 1: "to_r_hva acc a n w = Some (err, q, w1)" using t by (rule accessor_totalD)
  obtain err2 w2 where "r_hva_post acc a n q (f p q n w1) = Some (err2, w2)" using accessor_total_post(1) [OF t] by blast
  then show ?thesis using 1 by (simp add: copy_from_vqa_def)
qed

lemma copy_linear_loop_total:
  assumes "accessor_total acc" "sg_wf b" "place_ok b it off" "unat rem \<le> length (rest b it off)"
  shows "\<exists>err k w'. copy_linear_loop to_sg f acc b rem it off l copied w = Some (err, copied + k, w') \<and>
    err \<in> {NONE, PERM, BADR} \<and> unat k \<le> unat rem \<and> (err = NONE \<longrightarrow> k = rem)"
  using assms(3,4)
proof (induction "sg_end b - it" arbitrary: it off rem l copied w)
  case 0
  then have "unat rem = 0" by (simp add: place_ok_def)
  then have "rem = 0" by (simp only: unat_eq_zero)
  then show ?case by (subst copy_linear_loop.simps) (simp add: exI [of _ "0 :: u64"])
next
  case (Suc k)
  let ?d = "desc_chain b ! it"
  have it: "it < sg_end b" "it \<noteq> sg_end b" "nth_opt (desc_chain b) it = Some ?d"
    using Suc(2) assms(2) by (auto simp: nth_opt_def sg_wf_def)
  show ?case
  proof (cases "rem = 0 \<or> (to_sg \<and> should_only_read b (l_flags ?d))")
    case True
    then show ?thesis using it by (subst copy_linear_loop.simps) (auto simp: Let_def nth_opt_def intro!: exI [of _ "0 :: u64"])
  next
    case False
    define n where "n = min (ucast (l_length ?d) - off) rem"
    have o: "unat off < unat (l_length ?d)" using Suc.prems(1) it by (simp add: place_ok_def)
    have "unat (ucast (l_length ?d) - off) = unat (l_length ?d) - unat off"
      using o by (simp add: unat_minus_le word_le_nat_alt unsigned_ucast_eq)
    then have n: "unat n = min (unat (l_length ?d) - unat off) (unat rem)" by (simp add: n_def unat_min)
    have r: "unat (rem - n) = unat rem - unat n" using n by (simp add: unat_minus_le word_le_nat_alt)
    let ?copy = "if to_sg then copy_to_vqa (Some f) acc (l_address ?d + off) l n w
      else copy_from_vqa (Some f) acc l (l_address ?d + off) n w"
    obtain err w1 where c: "?copy = Some (err, w1)"
      using copy_to_vqa_total [OF assms(1)] copy_from_vqa_total [OF assms(1)] by (metis (full_types))
    have step: "copy_linear_loop to_sg f acc b rem it off l copied w = (if err \<noteq> NONE then Some (BADR, copied, w1)
        else copy_linear_loop to_sg f acc b (rem - n) (Suc it) 0 (l + n) (copied + n) w1)"
      using False it c by (subst copy_linear_loop.simps) (auto simp: n_def [symmetric] Let_def nth_opt_def)
    show ?thesis
    proof (cases "err = NONE")
      case True
      have next_rest: "rest b it off = area (l_address ?d + off) (unat (l_length ?d) - unat off) @ rest b (Suc it) 0"
        using rest_next [OF assms(2) it(1)] o by simp
      have "unat (rem - n) \<le> length (rest b (Suc it) 0)" using Suc.prems(2) next_rest r n by (simp add: min_def) arith
      then obtain e2 k2 w2 where i: "copy_linear_loop to_sg f acc b (rem - n) (Suc it) 0 (l + n) (copied + n) w1 =
          Some (e2, copied + n + k2, w2)" "e2 \<in> {NONE, PERM, BADR}" "unat k2 \<le> unat (rem - n)" "e2 = NONE \<Longrightarrow> k2 = rem - n"
        using Suc(1) [OF _ place_next [OF assms(2) it(1)], of "rem - n" "l + n" "copied + n" w1] Suc(2) by fastforce
      have nle: "unat n \<le> unat rem" using n by simp
      have b: "unat n + unat k2 \<le> unat rem" using i(3) r nle by linarith
      then have "unat (n + k2) = unat n + unat k2" using unsigned_less [of rem, where 'a = nat] by (simp add: unat_plus_no_wrap)
      then show ?thesis using step True i b by (intro exI [of _ e2] exI [of _ "n + k2"] exI [of _ w2]) (simp add: add.assoc)
    next
      case False
      then show ?thesis using step by (intro exI [of _ BADR] exI [of _ "0 :: u64"] exI [of _ w1]) simp
    qed
  qed
qed

lemma copy_impl_total:
  assumes "accessor_total acc" "sg_wf b" "cookie b = Some c" "req_sz c \<noteq> 0"
    and "unat (if to_sg then req_d_off c else req_s_off c) + unat (req_sz c) \<le> unat (sg_size_bytes b)"
  shows "\<exists>err k w'. copy_fromto_linear_impl to_sg f acc l b w = Some (err, k, w') \<and> err \<in> {NONE, PERM, BADR} \<and>
    unat k \<le> unat (req_sz c) \<and> (err = NONE \<longrightarrow> k = req_sz c)"
proof -
  let ?off = "if to_sg then req_d_off c else req_s_off c"
  obtain it off' where p: "check_copy_configuration b (req_sz c) ?off = Some (it, off')" "place_ok b it off'"
    "rest b it off' = drop (unat ?off) (payload b)"
    using check_copy_place [OF assms(2,4,5)] by blast
  have "unat (req_sz c) \<le> length (rest b it off')" using p(3) assms(5) length_payload [OF assms(2)] by simp
  from copy_linear_loop_total [OF assms(1,2) p(2) this, of to_sg f l 0 w] show ?thesis
    using assms(3) p(1) by (auto simp: copy_fromto_linear_impl_def)
qed

lemma sg_held_cookie: "sg_held b \<Longrightarrow> \<not> in_use c \<Longrightarrow> sg_held (b\<lparr>cookie := Some c\<rparr>)"
  by (simp add: sg_held_def sg_wf_def active_def)

lemma sg_held_meta: "sg_held b \<Longrightarrow> length ms = length (chain_meta b) \<Longrightarrow> sg_held (b\<lparr>chain_meta := ms\<rparr>)"
  by (simp add: sg_held_def sg_wf_def active_def)

lemma copy_to_linear_total:
  assumes "accessor_total acc" "sg_held b" "sz \<noteq> 0" "unat off + unat sz \<le> unat (sg_size_bytes b)"
  shows "\<exists>err k b' w'. copy_to_linear f acc dst sz off (b, w) = Some (err, k, b', w') \<and> sg_held b' \<and>
    sg_size_bytes b' = sg_size_bytes b \<and> (err = NONE \<longrightarrow> k = sz)"
proof -
  obtain c where c: "cookie b = Some c" "\<not> in_use c" using assms(2) by (auto simp: sg_held_def)
  show ?thesis
  proof (cases "dst = 0")
    case True
    then show ?thesis using assms(2) by (simp add: copy_to_linear_def start_copy_to_linear_def)
  next
    case False
    let ?c = "init_sg_src_to_linear_dst dst sz off c"
    let ?b = "b\<lparr>cookie := Some ?c\<rparr>"
    have q: "req_sz ?c = sz" "req_s_off ?c = off" "is_src_to_linear ?c" "copy_is_src ?c" "pending_dsts ?c = 1"
      using False by (simp_all add: init_sg_src_to_linear_dst_def init_metadata_def init_status_def is_src_to_linear_def)
    have cs: "conclude_src ?c = Some (cookie_reset c)"
      using q by (simp add: conclude_src_def is_src_to_linear_def cookie_reset_def)
    have st: "start_copy_to_linear dst sz off b = Some (NONE, 0, ?b)"
      using c False by (simp add: start_copy_to_linear_def is_dst_def is_dst_from_sg_def is_dst_from_linear_def)
    have wf: "sg_wf ?b" using assms(2) by (simp add: sg_held_def)
    from copy_impl_total [OF assms(1) wf, of ?c False "case f of None \<Rightarrow> memcpy | Some g \<Rightarrow> g" "req_linear_dst ?c" w]
    obtain err k w' where i: "copy_fromto_linear_impl False (case f of None \<Rightarrow> memcpy | Some g \<Rightarrow> g) acc (req_linear_dst ?c) ?b w =
        Some (err, k, w')" "err \<in> {NONE, PERM, BADR}" "err = NONE \<Longrightarrow> k = sz"
      using assms(3,4) q by auto
    let ?b' = "b\<lparr>cookie := Some (cookie_reset c)\<rparr>"
    have "try_end_copy_to_linear f acc (?b, w) = Some (err, k, ?b', w')"
      using i(1,2) q cs assms(3) by (auto simp: try_end_copy_to_linear_def cookie_modify_def word_neq_0_conv)
    then have "copy_to_linear f acc dst sz off (b, w) = Some (err, k, ?b', w')"
      using st i(2) by (auto simp: copy_to_linear_def retry_once)
    moreover have "sg_held ?b'" using assms(2) by (intro sg_held_cookie) (auto simp: cookie_reset_def)
    ultimately show ?thesis using i(3) by auto
  qed
qed

lemma copy_from_linear_total:
  assumes "accessor_total acc" "sg_held b" "sz \<noteq> 0" "unat off + unat sz \<le> unat (sg_size_bytes b)"
  shows "\<exists>err k b' w'. copy_from_linear f acc src sz off (b, w) = Some (err, k, b', w') \<and> sg_held b' \<and>
    sg_size_bytes b' = sg_size_bytes b \<and> (err = NONE \<longrightarrow> k = sz)"
proof -
  obtain c where c: "cookie b = Some c" "\<not> in_use c" using assms(2) by (auto simp: sg_held_def)
  show ?thesis
  proof (cases "src = 0")
    case True
    then show ?thesis using assms(2) by (simp add: copy_from_linear_def start_copy_from_linear_def)
  next
    case False
    let ?c = "init_sg_dst_from_linear_src src sz off c"
    let ?b = "b\<lparr>cookie := Some ?c\<rparr>"
    have q: "req_sz ?c = sz" "req_d_off ?c = off" "is_dst_from_linear ?c" "copy_started ?c" "\<not> copy_is_src ?c"
      using False by (simp_all add: init_sg_dst_from_linear_src_def init_metadata_def init_status_def is_dst_from_linear_def)
    have cd: "conclude_dst ?c = Some (cookie_reset c)" using q by (simp add: conclude_dst_def cookie_reset_def)
    have st: "start_copy_from_linear src sz off b = Some (NONE, 0, ?b)"
      using c False by (simp add: start_copy_from_linear_def is_dst_def is_dst_from_sg_def is_dst_from_linear_def)
    have wf: "sg_wf ?b" using assms(2) by (simp add: sg_held_def)
    from copy_impl_total [OF assms(1) wf, of ?c True "case f of None \<Rightarrow> memcpy | Some g \<Rightarrow> g" "req_linear_src ?c" w]
    obtain err k w' where i: "copy_fromto_linear_impl True (case f of None \<Rightarrow> memcpy | Some g \<Rightarrow> g) acc (req_linear_src ?c) ?b w =
        Some (err, k, w')" "err \<in> {NONE, PERM, BADR}" "unat k \<le> unat sz" "err = NONE \<Longrightarrow> k = sz"
      using assms(3,4) q by auto
    obtain ms where ms: "buffer_track_written off k ?b = Some (?b\<lparr>chain_meta := ms\<rparr>)" "length ms = length (chain_meta b)"
    proof (cases "k = 0")
      case True
      have "off < sg_size_bytes ?b" using assms(3,4) unat_gt_0 [of sz] by (simp add: word_less_nat_alt)
      from sg_find_place [OF wf this] show ?thesis using True that [of "chain_meta b"]
        by (auto simp: buffer_track_written_def track_loop.simps)
    next
      case False
      then show ?thesis using track_written_total [OF wf False, of off] i(3) assms(4) that by auto
    qed
    let ?b' = "b\<lparr>cookie := Some (cookie_reset c), chain_meta := ms\<rparr>"
    have "try_end_copy_from_linear f acc (?b, w) = Some (err, k, ?b', w')"
      using i(1,2) q cd ms(1) assms(3) by (auto simp: try_end_copy_from_linear_def cookie_modify_def word_neq_0_conv)
    then have "copy_from_linear f acc src sz off (b, w) = Some (err, k, ?b', w')"
      using st i(2) by (auto simp: copy_from_linear_def retry_once)
    moreover have "sg_held ?b'"
      using sg_held_meta [OF sg_held_cookie [OF assms(2), of "cookie_reset c"], of ms] ms(2) by (simp add: cookie_reset_def)
    ultimately show ?thesis using i(4) by auto
  qed
qed

end
