(* ===== verification/SimpleAs.thy ===== *)
theory SimpleAs
  imports Vbus SgCopyProps
begin

text \<open>
  Guest memory: the address space that the monitor gives to a guest
  (\<open>devices/simple_as/include/model/simple_as.hpp\<close>, \<open>devices/simple_as/src/simple_as.cpp\<close>) over the
  host's memory mapping (\<open>platform/posix/include/platform/memory.hpp\<close>). A space is a range of guest
  addresses with a memory object behind it; it is mapped into the monitor as a whole (\<open>vmm_view\<close>)
  or, when it is not, piece by piece on demand.

  The calls \<open>mmap\<close> and \<open>munmap\<close> of the host are parameters that act on a \<open>world\<close>, the memory of the
  monitor with a state of the host. Maintenance of the caches has no effect on memory. An abort is
  \<open>None\<close>. The null pointer is the address 0.
\<close>

subsection \<open>Page permissions and addresses\<close>

type_synonym page_permission = u8

abbreviation PP_NONE :: page_permission where "PP_NONE \<equiv> 0"
abbreviation PP_READ :: page_permission where "PP_READ \<equiv> 1"
abbreviation PP_WRITE :: page_permission where "PP_WRITE \<equiv> 2"
abbreviation PP_EXEC_USER :: page_permission where "PP_EXEC_USER \<equiv> 4"
abbreviation PP_EXEC_SUPERVISOR :: page_permission where "PP_EXEC_SUPERVISOR \<equiv> 8"
abbreviation PP_EXEC :: page_permission where "PP_EXEC \<equiv> PP_EXEC_USER OR PP_EXEC_SUPERVISOR"

definition pp_not :: "page_permission \<Rightarrow> page_permission" where "pp_not a = NOT a AND 0xf"
definition pp_is_read_set :: "page_permission \<Rightarrow> bool" where "pp_is_read_set a \<longleftrightarrow> a AND PP_READ \<noteq> 0"
definition pp_is_write_set :: "page_permission \<Rightarrow> bool" where "pp_is_write_set a \<longleftrightarrow> a AND PP_WRITE \<noteq> 0"
definition pp_is_exec_set :: "page_permission \<Rightarrow> bool" where "pp_is_exec_set a \<longleftrightarrow> a AND PP_EXEC \<noteq> 0"
definition pp_is_exec_user_set :: "page_permission \<Rightarrow> bool" where "pp_is_exec_user_set a \<longleftrightarrow> a AND PP_EXEC_USER \<noteq> 0"
definition pp_is_exec_supervisor_set :: "page_permission \<Rightarrow> bool" where
  "pp_is_exec_supervisor_set a \<longleftrightarrow> a AND PP_EXEC_SUPERVISOR \<noteq> 0"

definition page_permission_to_str :: "page_permission \<Rightarrow> string" where
  "page_permission_to_str p =
     (if p = 0 then ''---'' else if p = 1 then ''R--'' else if p = 2 then ''-W-'' else if p = 4 then ''--XU''
      else if p = 8 then ''--XS'' else if p = 0xc then ''--X'' else if p = 3 then ''RW-'' else if p = 5 then ''R-XU''
      else if p = 9 then ''R-XS'' else if p = 0xd then ''R-X'' else if p = 6 then ''-WXU'' else if p = 0xa then ''-WXS''
      else if p = 0xe then ''-WX'' else if p = 7 then ''RWXU'' else if p = 0xb then ''RWXS'' else if p = 0xf then ''RWX''
      else ''UNKNOWN'')"

abbreviation INVALID_GPA :: u64 where "INVALID_GPA \<equiv> - 1"
definition gpa_invalid :: "u64 \<Rightarrow> bool" where "gpa_invalid a \<longleftrightarrow> a = INVALID_GPA"

text \<open>Frame numbers; \<open>pb\<close> is the logarithm of the host's page size.\<close>

definition gfn :: "nat \<Rightarrow> u64 \<Rightarrow> u64" where "gfn pb a = drop_bit pb a"
definition gfn_to_gpa :: "nat \<Rightarrow> u64 \<Rightarrow> u64" where "gfn_to_gpa pb g = push_bit pb g"

subsection \<open>The memory mapping of the host\<close>

record cred =
  cred_read :: bool
  cred_write :: bool
  cred_uexec :: bool
  cred_sexec :: bool

text \<open>The credentials of the posix platform allow everything.\<close>

definition posix_cred :: cred where
  "posix_cred = \<lparr>cred_read = True, cred_write = True, cred_uexec = True, cred_sexec = True\<rparr>"

record mem_descr =
  msel :: u64
  mem_cred :: cred

text \<open>\<open>host_mmap\<close> has the length, whether the mapping is for writing, the file and the offset.\<close>

record 'x host =
  page_size :: u64
  host_mmap :: "u64 \<Rightarrow> bool \<Rightarrow> u64 \<Rightarrow> u64 \<Rightarrow> 'x world \<Rightarrow> u64 option \<times> 'x world"
  host_munmap :: "u64 \<Rightarrow> u64 \<Rightarrow> 'x world \<Rightarrow> bool \<times> 'x world"

text \<open>The offset in the page, the aligned offset and the aligned size.\<close>

definition align_mmap :: "'x host \<Rightarrow> u64 \<Rightarrow> u64 \<Rightarrow> u64 \<times> u64 \<times> u64" where
  "align_mmap h off sz =
     (let aligned_off = align_dn off (page_size h);
          in_page = off - aligned_off
      in (in_page, aligned_off, align_up (sz + in_page) (page_size h)))"

definition map_mem :: "'x host \<Rightarrow> mem_descr \<Rightarrow> u64 \<Rightarrow> u64 \<Rightarrow> bool \<Rightarrow> 'x world \<Rightarrow> u64 \<times> 'x world" where
  "map_mem h descr off sz write w =
     (case align_mmap h off sz of (in_page, off, sz) \<Rightarrow>
        case host_mmap h sz write (msel descr) off w of
          (None, w) \<Rightarrow> (0, w)
        | (Some res, w) \<Rightarrow> (res + in_page, w))"

definition unmap_mem :: "'x host \<Rightarrow> u64 \<Rightarrow> u64 \<Rightarrow> 'x world \<Rightarrow> bool \<times> 'x world" where
  "unmap_mem h addr sz w = (case align_mmap h addr sz of (_, off, sz) \<Rightarrow> host_munmap h off sz w)"

subsection \<open>One address space\<close>

record simple_as =
  guest_cred :: cred
  flush_on_reset :: bool
  flush_on_write :: bool
  vmm_view :: u64
  as_range :: range
  mobject :: mem_descr

definition simple_as_new :: "range \<Rightarrow> mem_descr \<Rightarrow> cred \<Rightarrow> bool \<Rightarrow> bool \<Rightarrow> simple_as" where
  "simple_as_new r descr c on_reset on_write =
     \<lparr>guest_cred = c, flush_on_reset = on_reset, flush_on_write = on_write, vmm_view = 0, as_range = r, mobject = descr\<rparr>"

abbreviation mapped :: "simple_as \<Rightarrow> bool" where "mapped as \<equiv> vmm_view as \<noteq> 0"
abbreviation is_read_only :: "simple_as \<Rightarrow> bool" where "is_read_only as \<equiv> \<not> cred_write (guest_cred as)"
abbreviation get_guest_view :: "simple_as \<Rightarrow> u64" where "get_guest_view as \<equiv> r_begin (as_range as)"

definition is_gpa_valid :: "simple_as \<Rightarrow> u64 \<Rightarrow> u64 \<Rightarrow> bool" where
  "is_gpa_valid as addr sz \<longleftrightarrow> range_contains (as_range as) \<lparr>r_begin = addr, r_size = sz\<rparr>"

definition gpa_to_page_idx :: "'x host \<Rightarrow> simple_as \<Rightarrow> u64 \<Rightarrow> u64 option" where
  "gpa_to_page_idx h as addr = do {
     ASSERT (is_gpa_valid as addr 1);
     Some ((addr - get_guest_view as) div page_size h)
   }"

definition get_original_perms :: "simple_as \<Rightarrow> page_permission" where
  "get_original_perms as =
     (let c = mem_cred (mobject as)
      in (if cred_read c then PP_READ else 0) OR (if cred_write c then PP_WRITE else 0) OR
         (if cred_uexec c then PP_EXEC_USER else 0) OR (if cred_sexec c then PP_EXEC_SUPERVISOR else 0))"

definition map_host :: "'x host \<Rightarrow> simple_as \<times> 'x world \<Rightarrow> bool \<times> simple_as \<times> 'x world" where
  "map_host h s = (case s of (as, w) \<Rightarrow>
     case map_mem h (mobject as) 0 (r_size (as_range as)) (cred_write (mem_cred (mobject as))) w of
       (va, w) \<Rightarrow> (va \<noteq> 0, as\<lparr>vmm_view := va\<rparr>, w))"

definition as_destruct :: "'x host \<Rightarrow> simple_as \<times> 'x world \<Rightarrow> bool \<times> simple_as \<times> 'x world" where
  "as_destruct h s = (case s of (as, w) \<Rightarrow>
     if mapped as
     then case unmap_mem h (vmm_view as) (r_size (as_range as)) w of
            (ok, w) \<Rightarrow> if ok then (True, as\<lparr>vmm_view := 0\<rparr>, w) else (False, as, w)
     else (True, as, w))"

definition gpa_to_vmm_view :: "simple_as \<Rightarrow> u64 \<Rightarrow> u64 \<Rightarrow> u64" where
  "gpa_to_vmm_view as addr sz =
     (if \<not> is_gpa_valid as addr sz then 0 else if \<not> mapped as then 0 else vmm_view as + (addr - r_begin (as_range as)))"

text \<open>The result, the address, which is only set when the result is \<open>NONE\<close>, and the world.\<close>

definition demand_map :: "'x host \<Rightarrow> simple_as \<Rightarrow> u64 \<Rightarrow> u64 \<Rightarrow> bool \<Rightarrow> 'x world \<Rightarrow> Errno \<times> u64 \<times> 'x world" where
  "demand_map h as gpa sz write w =
     (if \<not> is_gpa_valid as gpa sz then (INVAL, 0, w)
      else if write \<and> is_read_only as \<and> \<not> cred_write (mem_cred (mobject as)) then (PERM, 0, w)
      else let off = gpa - get_guest_view as
           in if \<not> mapped as
              then case map_mem h (mobject as) off sz write w of
                     (va, w) \<Rightarrow> if va = 0 then (NOMEM, 0, w) else (NONE, va, w)
              else (NONE, vmm_view as + off, w))"

definition demand_unmap :: "'x host \<Rightarrow> simple_as \<Rightarrow> u64 \<Rightarrow> u64 \<Rightarrow> 'x world \<Rightarrow> (Errno \<times> 'x world) option" where
  "demand_unmap h as sz va w =
     (if mapped as then Some (NONE, w)
      else case unmap_mem h va sz w of (b, w) \<Rightarrow> do { ASSERT b; Some (NONE, w) })"

text \<open>\<open>demand_unmap_clean\<close> also cleans the caches.\<close>

definition demand_unmap_clean :: "'x host \<Rightarrow> simple_as \<Rightarrow> u64 \<Rightarrow> u64 \<Rightarrow> 'x world \<Rightarrow> (Errno \<times> 'x world) option" where
  "demand_unmap_clean h as sz va w =
     (if mapped as then Some (NONE, w)
      else case unmap_mem h va sz w of (b, w) \<Rightarrow> do { ASSERT b; Some (NONE, w) })"

text \<open>A view that may not be written is the null pointer; a mapping that fails is an abort.\<close>

definition map_view :: "'x host \<Rightarrow> simple_as \<Rightarrow> u64 \<Rightarrow> u64 \<Rightarrow> bool \<Rightarrow> 'x world \<Rightarrow> (u64 \<times> 'x world) option" where
  "map_view h as off sz write w =
     (if is_read_only as \<and> write \<and> \<not> cred_write (mem_cred (mobject as)) then Some (0, w)
      else case map_mem h (mobject as) off sz write w of (va, w) \<Rightarrow> do { ASSERT (va \<noteq> 0); Some (va, w) })"

definition unmap_guest_mem :: "'x host \<Rightarrow> u64 \<Rightarrow> u64 \<Rightarrow> 'x world \<Rightarrow> 'x world option" where
  "unmap_guest_mem h va sz w = (case unmap_mem h va sz w of (b, w) \<Rightarrow> do { ASSERT b; Some w })"

definition as_read :: "'x host \<Rightarrow> simple_as \<Rightarrow> u64 \<Rightarrow> u64 \<Rightarrow> u64 \<Rightarrow> 'x world \<Rightarrow> (Errno \<times> 'x world) option" where
  "as_read h as dst sz addr w =
     (if \<not> is_gpa_valid as addr sz then Some (INVAL, w)
      else let off = addr - get_guest_view as
           in if mapped as then Some (NONE, memcpy dst (vmm_view as + off) sz w)
              else case map_mem h (mobject as) off sz False w of
                (src, w) \<Rightarrow>
                  if src = 0 then Some (NOMEM, w)
                  else do { w \<leftarrow> unmap_guest_mem h src sz (memcpy dst src sz w); Some (NONE, w) })"

definition as_write :: "'x host \<Rightarrow> simple_as \<Rightarrow> u64 \<Rightarrow> u64 \<Rightarrow> u64 \<Rightarrow> 'x world \<Rightarrow> (Errno \<times> 'x world) option" where
  "as_write h as gpa sz src w =
     (case demand_map h as gpa sz True w of
        (err, dst, w) \<Rightarrow>
          if err \<noteq> NONE then Some (err, w)
          else let w = memcpy dst src sz w
               in if flush_on_write as then demand_unmap_clean h as sz dst w else demand_unmap h as sz dst w)"

definition clean_invalidate :: "'x host \<Rightarrow> simple_as \<Rightarrow> u64 \<Rightarrow> u64 \<Rightarrow> 'x world \<Rightarrow> (Errno \<times> 'x world) option" where
  "clean_invalidate h as gpa sz w =
     (if \<not> is_gpa_valid as gpa sz then Some (INVAL, w)
      else if mapped as then Some (NONE, w)
      else case map_mem h (mobject as) (gpa - get_guest_view as) sz True w of
             (dst, w) \<Rightarrow>
               if dst = 0 then Some (NOMEM, w)
               else do { w \<leftarrow> unmap_guest_mem h dst sz w; Some (NONE, w) })"

text \<open>The areas that a flush cleans and invalidates in the caches are recorded, with the world.\<close>

type_synonym 'x flushed = "(u64 \<times> u64) list \<times> 'x world"

definition flush_guest_as :: "'x host \<Rightarrow> simple_as \<Rightarrow> 'x flushed \<Rightarrow> 'x flushed option" where
  "flush_guest_as h as s = (case s of (fl, w) \<Rightarrow>
     if is_read_only as \<or> \<not> flush_on_reset as \<or> \<not> cred_write (mem_cred (mobject as)) then Some s
     else do {
       (va, w) \<leftarrow> (if \<not> mapped as
                  then case map_mem h (mobject as) 0 (r_size (as_range as)) True w of (va, w) \<Rightarrow> do { ASSERT (va \<noteq> 0); Some (va, w) }
                  else Some (vmm_view as, w));
       let fl = fl @ [(va, r_size (as_range as))];
       w \<leftarrow> (if \<not> mapped as then unmap_guest_mem h va (r_size (as_range as)) w else Some w);
       Some (fl, w)
     })"

subsection \<open>Accesses of one to eight bytes\<close>

text \<open>
  The variable that holds the value read is not initialised: \<open>ret\<close> is what it holds before, and a
  read at an unaligned address sets only its low bytes.
\<close>

definition single_mapped_read :: "u64 \<Rightarrow> u64 \<Rightarrow> u8 \<Rightarrow> memory \<Rightarrow> u64 option" where
  "single_mapped_read ret ptr sz m = do {
     ASSERT (sz \<le> 8);
     ASSERT (sz \<noteq> 0);
     ASSERT (ptr \<noteq> 0);
     if ptr mod ucast sz \<noteq> 0
     then Some ((ret AND NOT (mask (8 * unat sz))) OR load_le (unat sz) m ptr)
     else do { ASSERT (sz \<in> {1, 2, 4, 8}); Some (load_le (unat sz) m ptr) }
   }"

definition single_mapped_write :: "u64 \<Rightarrow> u8 \<Rightarrow> u64 \<Rightarrow> memory \<Rightarrow> memory option" where
  "single_mapped_write ptr sz val m = do {
     ASSERT (sz \<le> 8);
     ASSERT (sz \<noteq> 0);
     ASSERT (ptr \<noteq> 0);
     ASSERT (ptr mod ucast sz \<noteq> 0 \<or> sz \<in> {1, 2, 4, 8});
     Some (store_le (unat sz) ptr val m)
   }"

definition single_access_ptr :: "'x host \<Rightarrow> simple_as \<Rightarrow> u64 \<Rightarrow> u8 \<Rightarrow> 'x world \<Rightarrow> (u64 \<times> 'x world) option" where
  "single_access_ptr h as off sz w = do {
     ASSERT (sz \<le> 8);
     (ptr, w) \<leftarrow> (if mapped as then Some (vmm_view as + off, w) else map_view h as off (ucast sz) True w);
     ASSERT (ptr \<noteq> 0);
     Some (ptr, w)
   }"

definition single_access_read :: "'x host \<Rightarrow> simple_as \<Rightarrow> u64 \<Rightarrow> u64 \<Rightarrow> u8 \<Rightarrow> 'x world \<Rightarrow> (u64 \<times> 'x world) option" where
  "single_access_read h as ret off sz w = do {
     (ptr, w) \<leftarrow> single_access_ptr h as off sz w;
     v \<leftarrow> single_mapped_read ret ptr sz (fst w);
     w \<leftarrow> (if mapped as then Some w else unmap_guest_mem h ptr (ucast sz) w);
     Some (v, w)
   }"

definition single_access_write :: "'x host \<Rightarrow> simple_as \<Rightarrow> u64 \<Rightarrow> u8 \<Rightarrow> u64 \<Rightarrow> 'x world \<Rightarrow> 'x world option" where
  "single_access_write h as off sz val w = do {
     (ptr, w) \<leftarrow> single_access_ptr h as off sz w;
     m \<leftarrow> single_mapped_write ptr sz val (fst w);
     if mapped as then Some (m, snd w) else unmap_guest_mem h ptr (ucast sz) (m, snd w)
   }"

subsection \<open>The address spaces of a bus\<close>

text \<open>A bus with the types of its devices and the address spaces among them.\<close>

record ('d, 'x) as_env =
  env_bus :: "'d bus"
  env_type :: "'d \<Rightarrow> dev_typ"
  env_as :: "'d \<Rightarrow> simple_as"
  env_host :: "'x host"

definition get_as_device_at :: "('d, 'x) as_env \<Rightarrow> u64 \<Rightarrow> u64 \<Rightarrow> simple_as option" where
  "get_as_device_at e addr sz =
     (case get_device_at (env_bus e) addr sz of
        None \<Rightarrow> None
      | Some d \<Rightarrow>
          if env_type e d \<noteq> GUEST_PHYSICAL_DYNAMIC_MEMORY \<and> env_type e d \<noteq> GUEST_PHYSICAL_STATIC_MEMORY then None
          else Some (env_as e d))"

definition gpa_to_vmm_view_bus :: "('d, 'x) as_env \<Rightarrow> u64 \<Rightarrow> u64 \<Rightarrow> u64" where
  "gpa_to_vmm_view_bus e addr sz =
     (case get_as_device_at e addr sz of None \<Rightarrow> 0 | Some as \<Rightarrow> gpa_to_vmm_view as addr sz)"

definition read_bus :: "('d, 'x) as_env \<Rightarrow> u64 \<Rightarrow> u64 \<Rightarrow> u64 \<Rightarrow> 'x world \<Rightarrow> (Errno \<times> 'x world) option" where
  "read_bus e addr dst sz w =
     (case get_as_device_at e addr sz of None \<Rightarrow> Some (INVAL, w) | Some as \<Rightarrow> as_read (env_host e) as dst sz addr w)"

definition write_bus :: "('d, 'x) as_env \<Rightarrow> u64 \<Rightarrow> u64 \<Rightarrow> u64 \<Rightarrow> 'x world \<Rightarrow> (Errno \<times> 'x world) option" where
  "write_bus e addr src sz w =
     (case get_as_device_at e addr sz of None \<Rightarrow> Some (INVAL, w) | Some as \<Rightarrow> as_write (env_host e) as addr sz src w)"

definition demand_map_bus :: "('d, 'x) as_env \<Rightarrow> u64 \<Rightarrow> u64 \<Rightarrow> bool \<Rightarrow> 'x world \<Rightarrow> Errno \<times> u64 \<times> 'x world" where
  "demand_map_bus e gpa sz write w =
     (case get_as_device_at e gpa sz of None \<Rightarrow> (INVAL, 0, w) | Some as \<Rightarrow> demand_map (env_host e) as gpa sz write w)"

definition demand_unmap_bus :: "('d, 'x) as_env \<Rightarrow> u64 \<Rightarrow> u64 \<Rightarrow> u64 \<Rightarrow> 'x world \<Rightarrow> (Errno \<times> 'x world) option" where
  "demand_unmap_bus e gpa sz va w =
     (case get_as_device_at e gpa sz of None \<Rightarrow> Some (INVAL, w) | Some as \<Rightarrow> demand_unmap (env_host e) as sz va w)"

definition demand_unmap_bus_clean :: "('d, 'x) as_env \<Rightarrow> u64 \<Rightarrow> u64 \<Rightarrow> u64 \<Rightarrow> 'x world \<Rightarrow> (Errno \<times> 'x world) option" where
  "demand_unmap_bus_clean e gpa sz va w =
     (case get_as_device_at e gpa sz of None \<Rightarrow> Some (INVAL, w) | Some as \<Rightarrow> demand_unmap_clean (env_host e) as sz va w)"

definition map_guest_mem :: "('d, 'x) as_env \<Rightarrow> u64 \<Rightarrow> u64 \<Rightarrow> bool \<Rightarrow> 'x world \<Rightarrow> (u64 \<times> 'x world) option" where
  "map_guest_mem e gpa sz write w =
     (case get_as_device_at e gpa sz of
        None \<Rightarrow> Some (0, w)
      | Some as \<Rightarrow>
          if write \<and> is_read_only as then Some (0, w)
          else map_view (env_host e) as (gpa - get_guest_view as) sz write w)"

definition lookup_mem_ranges :: "('d, 'x) as_env \<Rightarrow> range \<Rightarrow> simple_as list" where
  "lookup_mem_ranges e r = (case get_as_device_at e (r_begin r) (r_size r) of None \<Rightarrow> [] | Some as \<Rightarrow> [as])"

definition flush_callback :: "('d, 'x) as_env \<Rightarrow> 'd node \<Rightarrow> 'x flushed \<Rightarrow> 'x flushed option" where
  "flush_callback e n s =
     (if env_type e (snd n) = GUEST_PHYSICAL_STATIC_MEMORY \<or> env_type e (snd n) = GUEST_PHYSICAL_DYNAMIC_MEMORY
      then flush_guest_as (env_host e) (env_as e (snd n)) s
      else Some s)"

text \<open>\<open>MappingGuard\<close>: a mapping that is undone at the end of its scope.\<close>

record mapping_guard =
  mg_gpa :: u64
  mg_size :: u64
  mg_va :: u64
  mg_write :: bool

definition guard_map :: "('d, 'x) as_env \<Rightarrow> mapping_guard \<times> 'x world \<Rightarrow> (Errno \<times> u64 \<times> mapping_guard \<times> 'x world) option" where
  "guard_map e s = (case s of (g, w) \<Rightarrow> do {
     ASSERT (mg_va g = 0);
     let (err, va, w) = demand_map_bus e (mg_gpa g) (mg_size g) (mg_write g) w;
     Some (err, va, if err = NONE then g\<lparr>mg_va := va\<rparr> else g, w)
   })"

definition guard_unmap :: "('d, 'x) as_env \<Rightarrow> mapping_guard \<times> 'x world \<Rightarrow> (mapping_guard \<times> 'x world) option" where
  "guard_unmap e s = (case s of (g, w) \<Rightarrow> do {
     (_, w) \<leftarrow> (if mg_write g then demand_unmap_bus_clean e (mg_gpa g) (mg_size g) (mg_va g) w
                else demand_unmap_bus e (mg_gpa g) (mg_size g) (mg_va g) w);
     Some (g\<lparr>mg_va := 0\<rparr>, w)
   })"

definition guard_end :: "('d, 'x) as_env \<Rightarrow> mapping_guard \<times> 'x world \<Rightarrow> 'x world option" where
  "guard_end e s = (if mg_va (fst s) \<noteq> 0 then map_option snd (guard_unmap e s) else Some (snd s))"

subsection \<open>Accesses stay inside\<close>

text \<open>The guest addresses of an access, and the place of the space in the monitor.\<close>

abbreviation gpa_range :: "u64 \<Rightarrow> u64 \<Rightarrow> range" where "gpa_range a n \<equiv> \<lparr>r_begin = a, r_size = n\<rparr>"

abbreviation host_area :: "simple_as \<Rightarrow> u64 \<Rightarrow> u64 \<Rightarrow> u64 list" where
  "host_area as gpa n \<equiv> area (vmm_view as + (gpa - get_guest_view as)) (unat n)"

lemma host_area_inside:
  assumes "range_ok (as_range as)" "range_ok (gpa_range gpa n)" "is_gpa_valid as gpa n"
  shows "set (host_area as gpa n) \<subseteq> set (area (vmm_view as) (unat (r_size (as_range as))))"
proof -
  let ?s = "r_size (as_range as)"
  have "addrs (gpa_range gpa n) \<subseteq> addrs (as_range as)"
    using assms range_contains_addrs by (simp add: is_gpa_valid_def)
  moreover have "0 < unat n" using assms(2) by (simp add: range_ok_def)
  ultimately have b: "unat (get_guest_view as) \<le> unat gpa" "unat gpa + unat n \<le> unat (get_guest_view as) + unat ?s"
    by (auto simp: addrs_def ivl_subset simp del: unat_gt_0)
  then have d: "unat (gpa - get_guest_view as) = unat gpa - unat (get_guest_view as)"
    by (simp add: unat_minus_le word_le_nat_alt)
  have "unat n \<le> unat ?s - unat (gpa - get_guest_view as)" "unat (gpa - get_guest_view as) \<le> unat ?s" using b d by simp_all
  then have "area (vmm_view as) (unat ?s) = area (vmm_view as) (unat (gpa - get_guest_view as)) @ host_area as gpa n @
      area (vmm_view as + (gpa - get_guest_view as) + n) (unat ?s - unat (gpa - get_guest_view as) - unat n)"
    using area_split [of "unat (gpa - get_guest_view as)" "unat ?s" "vmm_view as"]
      area_split [of "unat n" "unat ?s - unat (gpa - get_guest_view as)" "vmm_view as + (gpa - get_guest_view as)"] by simp
  then show ?thesis by auto
qed

lemma as_at_range_ok: "get_as_device_at e gpa n = Some as \<Longrightarrow> range_ok (gpa_range gpa n)"
  by (auto simp: get_as_device_at_def get_device_at_def bus_lookup_def range_ok_guard split: option.splits if_splits)

text \<open>All the address spaces are mapped and none reaches the end of the guest's addresses.\<close>

definition spaces_mapped :: "('d, 'x) as_env \<Rightarrow> bool" where
  "spaces_mapped e \<longleftrightarrow> (\<forall>gpa n as. get_as_device_at e gpa n = Some as \<longrightarrow> mapped as \<and> range_ok (as_range as))"

lemma write_bus_result:
  assumes "spaces_mapped e"
  shows "\<exists>err m'. write_bus e gpa src n (m, x) = Some (err, m', x) \<and>
     (if \<exists>as. get_as_device_at e gpa n = Some as \<and> addrs (gpa_range gpa n) \<subseteq> addrs (as_range as) \<and>
             (cred_write (guest_cred as) \<or> cred_write (mem_cred (mobject as)))
      then err = NONE \<and> (\<exists>as. get_as_device_at e gpa n = Some as \<and> m' = move_bytes (host_area as gpa n) (area src (unat n)) m \<and>
             set (host_area as gpa n) \<subseteq> set (area (vmm_view as) (unat (r_size (as_range as)))))
      else err \<noteq> NONE \<and> m' = m)"
proof (cases "get_as_device_at e gpa n")
  case None
  then show ?thesis by (simp add: write_bus_def)
next
  case (Some as)
  have as: "mapped as" "range_ok (as_range as)" using assms Some by (auto simp: spaces_mapped_def)
  note ok = as_at_range_ok [OF Some]
  have "is_gpa_valid as gpa n \<longleftrightarrow> addrs (gpa_range gpa n) \<subseteq> addrs (as_range as)"
    using range_contains_addrs [OF as(2) ok] by (simp add: is_gpa_valid_def)
  then show ?thesis
    using Some as host_area_inside [OF as(2) ok]
    by (auto simp: write_bus_def as_write_def demand_map_def demand_unmap_def demand_unmap_clean_def memcpy_moves Let_def)
qed

text \<open>
  What the address spaces and the host promise: the pages have a power of two as their size, no space
  reaches the end of the addresses, also not when it is rounded up to pages, and a new mapping is at
  an address of a page. A space may be mapped as a whole or on demand.
\<close>

definition spaces_ok :: "('d, 'x) as_env \<Rightarrow> bool" where
  "spaces_ok e \<longleftrightarrow> (\<exists>k<64. page_size (env_host e) = 2 ^ k) \<and>
     (\<forall>gpa n as. get_as_device_at e gpa n = Some as \<longrightarrow>
        range_ok (as_range as) \<and> unat (r_size (as_range as)) + unat (page_size (env_host e)) \<le> 2 ^ 64) \<and>
     (\<forall>len wr f off w p w'. host_mmap (env_host e) len wr f off w = (Some p, w') \<longrightarrow> p \<noteq> 0 \<and> align_dn p (page_size (env_host e)) = p)"

lemma align_dn_value:
  assumes "page = 2 ^ k" "k < 64"
  shows "unat (align_dn a page) = unat page * (unat a div unat page)" "unat page = 2 ^ k"
proof -
  have m: "page - 1 = mask k" using assms(1) by (simp add: mask_eq_exp_minus_1)
  have "(2 :: nat) ^ k < 2 ^ 64" using assms(2) by (intro power_strict_increasing) simp_all
  moreover have "page = of_nat (2 ^ k)" using assms(1) by simp
  ultimately show p: "unat page = 2 ^ k" by (simp only: unat_of_nat64)
  show "unat (align_dn a page) = unat page * (unat a div unat page)" unfolding align_dn_def m p by (rule and_not_mask_value)
qed

lemma align_up_value:
  assumes "page = 2 ^ k" "k < 64" "unat a + unat page \<le> 2 ^ 64" "0 < unat a"
  shows "unat a \<le> unat (align_up a page)"
proof -
  note v = align_dn_value [OF assms(1,2)]
  have "0 < unat page" using v(2) by simp
  then have "unat (page - 1) = unat page - 1" by (simp add: unat_minus_le word_le_nat_alt)
  then have "unat (a + (page - 1)) = unat a + (unat page - 1)"
    using assms(3,4) \<open>0 < unat page\<close> by (simp add: unat_plus_no_wrap)
  then have "unat (align_up a page) = unat page * ((unat a + (unat page - 1)) div unat page)" by (simp add: align_up_def v(1))
  moreover have "(unat a + (unat page - 1)) mod unat page < unat page" using \<open>0 < unat page\<close> by simp
  moreover have "unat page * ((unat a + (unat page - 1)) div unat page) + (unat a + (unat page - 1)) mod unat page = unat a + (unat page - 1)"
    by simp
  ultimately show ?thesis by linarith
qed

lemma mmap_window:
  assumes "page_size h = 2 ^ k" "k < 64" "align_mmap h off n = (in_page, win, len)"
    and "unat off + unat n + unat (page_size h) \<le> 2 ^ 64" "0 < unat n"
  shows "unat win + unat in_page = unat off" "unat in_page < unat (page_size h)" "unat in_page + unat n \<le> unat len"
    "align_dn win (page_size h) = win"
proof -
  let ?P = "unat (page_size h)"
  have e: "win = align_dn off (page_size h)" "in_page = off - win" "len = align_up (n + in_page) (page_size h)"
    using assms(3) by (auto simp: align_mmap_def Let_def)
  have w: "unat win = ?P * (unat off div ?P)" "?P = 2 ^ k" unfolding e(1) using align_dn_value [OF assms(1,2)] by blast+
  show "align_dn win (page_size h) = win" unfolding e(1) align_dn_def by (simp add: and.assoc)
  have m: "?P * (unat off div ?P) + unat off mod ?P = unat off" by simp
  have "0 < ?P" using w(2) by simp
  then have l: "unat off mod ?P < ?P" by simp
  have "unat in_page = unat off - unat win" unfolding e(2) using w(1) m by (intro unat_minus_le) (simp add: word_le_nat_alt)
  then show i: "unat win + unat in_page = unat off" "unat in_page < ?P" using w(1) m l by linarith+
  have "unat (n + in_page) = unat n + unat in_page" using i(1) assms(4) \<open>0 < ?P\<close> by (intro unat_plus_no_wrap) simp
  then show "unat in_page + unat n \<le> unat len"
    unfolding e(3) using align_up_value [OF assms(1,2), of "n + in_page"] i(1) assms(4,5) by simp
qed

text \<open>The window is found again from the address of the mapping: what is unmapped is what was mapped.\<close>

lemma munmap_window:
  assumes "page_size h = 2 ^ k" "k < 64" "align_mmap h off n = (in_page, win, len)" "unat in_page < unat (page_size h)"
    and "align_dn q (page_size h) = q" "q \<noteq> 0"
  shows "align_mmap h (q + in_page) n = (in_page, q, len)" "q + in_page \<noteq> 0"
proof -
  let ?P = "unat (page_size h)"
  note v = align_dn_value [OF assms(1,2)]
  have q: "unat q = ?P * (unat q div ?P)" using v(1) [of q] assms(5) by simp
  have "?P dvd 2 ^ 64" unfolding v(2) using assms(2) by (intro le_imp_power_dvd) simp
  then obtain t where t: "2 ^ 64 = ?P * t" by (auto simp: dvd_def)
  have lt: "unat q < 2 ^ 64" using unsigned_less [of q, where 'a = nat] by simp
  then have "unat q div ?P < t" using q t v(2) by (metis mult_less_cancel1)
  then have "?P * Suc (unat q div ?P) \<le> ?P * t" by (intro mult_le_mono2) simp
  then have s: "unat q + ?P \<le> 2 ^ 64" using q t by simp
  then have u: "unat (q + in_page) = unat q + unat in_page" using assms(4) by (intro unat_plus_no_wrap) simp
  define c where "c = unat q div ?P"
  have qc: "unat q = ?P * c" using q by (simp only: c_def)
  have "(?P * c + unat in_page) div ?P = c" using assms(4) by simp
  then have "unat (q + in_page) div ?P = unat q div ?P" unfolding u c_def [symmetric] by (simp only: qc)
  then have "align_dn (q + in_page) (page_size h) = q" using v(1) [of "q + in_page"] q by (metis word_unat_eq_iff)
  then show "align_mmap h (q + in_page) n = (in_page, q, len)" using assms(3) by (auto simp: align_mmap_def Let_def)
  have "0 < unat q" using assms(6) by (simp add: unat_gt_0)
  then show "q + in_page \<noteq> 0" using u by (metis add_is_0 unat_0 not_less_zero)
qed

text \<open>The bytes written through a mapping on demand: the window of whole pages is mapped, written and unmapped.\<close>

definition write_through_window ::
    "'x host \<Rightarrow> mem_descr \<Rightarrow> u64 \<Rightarrow> u64 \<Rightarrow> u64 \<Rightarrow> u64 \<Rightarrow> u64 \<Rightarrow> 'x world \<Rightarrow> (Errno \<times> 'x world) option" where
  "write_through_window h descr win len in_page src n w =
     (case host_mmap h len True (msel descr) win w of
        (None, w) \<Rightarrow> Some (NOMEM, w)
      | (Some q, w) \<Rightarrow>
          (case host_munmap h q len (move_bytes (area (q + in_page) (unat n)) (area src (unat n)) (fst w), snd w) of
             (True, w) \<Rightarrow> Some (NONE, w)
           | (False, w) \<Rightarrow> None))"

lemma as_write_unmapped:
  assumes "page_size h = 2 ^ k" "k < 64" "range_ok (as_range as)" "unat (r_size (as_range as)) + unat (page_size h) \<le> 2 ^ 64"
    and "\<And>len wr f off w q w'. host_mmap h len wr f off w = (Some q, w') \<Longrightarrow> q \<noteq> 0 \<and> align_dn q (page_size h) = q"
    and "range_ok (gpa_range gpa n)" "is_gpa_valid as gpa n" "\<not> mapped as" "\<not> is_read_only as \<or> cred_write (mem_cred (mobject as))"
  shows "\<exists>win len in_page. as_write h as gpa n src w = write_through_window h (mobject as) win len in_page src n w \<and>
    unat win + unat in_page = unat gpa - unat (get_guest_view as) \<and> unat in_page < unat (page_size h) \<and> unat in_page + unat n \<le> unat len \<and>
    align_dn win (page_size h) = win"
proof -
  let ?off = "gpa - get_guest_view as"
  obtain in_page win len where al: "align_mmap h ?off n = (in_page, win, len)" by (cases "align_mmap h ?off n") auto
  have "addrs (gpa_range gpa n) \<subseteq> addrs (as_range as)" using assms(3,6,7) range_contains_addrs by (simp add: is_gpa_valid_def)
  moreover have n0: "0 < unat n" using assms(6) by (simp add: range_ok_def)
  ultimately have b: "unat (get_guest_view as) \<le> unat gpa" "unat gpa + unat n \<le> unat (get_guest_view as) + unat (r_size (as_range as))"
    by (auto simp: addrs_def ivl_subset simp del: unat_gt_0)
  then have o: "unat ?off = unat gpa - unat (get_guest_view as)" by (simp add: unat_minus_le word_le_nat_alt)
  then have "unat ?off + unat n + unat (page_size h) \<le> 2 ^ 64" using b assms(4) by linarith
  note win = mmap_window [OF assms(1,2) al this n0]
  have "as_write h as gpa n src w = write_through_window h (mobject as) win len in_page src n w"
  proof -
    obtain r w1 where Pair: "host_mmap h len True (msel (mobject as)) win w = (r, w1)"
      by (cases "host_mmap h len True (msel (mobject as)) win w") auto
    show ?thesis
    proof (cases r)
      case None
      then show ?thesis using assms(7-9) Pair
        by (simp add: as_write_def demand_map_def map_mem_def al write_through_window_def Let_def)
    next
      case (Some q)
      have q: "q \<noteq> 0" "align_dn q (page_size h) = q" using assms(5) Pair Some by blast+
      note un = munmap_window [OF assms(1,2) al win(2) q(2,1)]
      obtain m1 x1 where w1: "w1 = (m1, x1)" by (cases w1)
      let ?m = "(move_bytes (area (q + in_page) (unat n)) (area src (unat n)) m1, x1)"
      obtain ok w3 where mu: "host_munmap h q len ?m = (ok, w3)" by (cases "host_munmap h q len ?m")
      show ?thesis using assms(7-9) Pair Some un w1 mu
        by (cases ok) (simp_all add: as_write_def demand_map_def map_mem_def al unmap_mem_def demand_unmap_def demand_unmap_clean_def
            memcpy_moves write_through_window_def Let_def)
    qed
  qed
  then show ?thesis using win o by (intro exI [of _ win] exI [of _ len] exI [of _ in_page]) simp
qed

text \<open>
  C17: a write to guest memory through the bus is refused with an error and no change, of the memory or
  of the host, unless one space contains all the guest addresses, which do not wrap, and may be
  written. When the space is mapped as a whole, the write succeeds and sets exactly the bytes it names,
  all of them inside the memory of the space and at the offsets of the guest addresses. When it is mapped
  on demand, the window of whole pages around the bytes, in the file of the space, is mapped, the
  bytes are written at their place in the window, and the same window is unmapped: the write reports
  \<open>NOMEM\<close> when the host refuses the mapping, and aborts exactly when the host refuses to unmap.
\<close>

theorem guest_write_confined:
  assumes "spaces_ok e"
  shows "if \<exists>as. get_as_device_at e gpa n = Some as \<and> addrs (gpa_range gpa n) \<subseteq> addrs (as_range as) \<and>
             (cred_write (guest_cred as) \<or> cred_write (mem_cred (mobject as)))
    then \<exists>as. get_as_device_at e gpa n = Some as \<and>
      (if mapped as
       then write_bus e gpa src n (m, x) = Some (NONE, move_bytes (host_area as gpa n) (area src (unat n)) m, x) \<and>
            set (host_area as gpa n) \<subseteq> set (area (vmm_view as) (unat (r_size (as_range as))))
       else \<exists>win len in_page.
            write_bus e gpa src n (m, x) = write_through_window (env_host e) (mobject as) win len in_page src n (m, x) \<and>
            unat win + unat in_page = unat gpa - unat (get_guest_view as) \<and>
            unat in_page < unat (page_size (env_host e)) \<and> unat in_page + unat n \<le> unat len \<and>
            align_dn win (page_size (env_host e)) = win)
    else \<exists>err. err \<noteq> NONE \<and> write_bus e gpa src n (m, x) = Some (err, m, x)"
proof (cases "get_as_device_at e gpa n")
  case None
  then show ?thesis by (simp add: write_bus_def)
next
  case (Some as)
  obtain k where k: "page_size (env_host e) = 2 ^ k" "k < 64" using assms by (auto simp: spaces_ok_def)
  have as: "range_ok (as_range as)" "unat (r_size (as_range as)) + unat (page_size (env_host e)) \<le> 2 ^ 64"
    using assms Some by (auto simp: spaces_ok_def)
  have h: "q \<noteq> 0 \<and> align_dn q (page_size (env_host e)) = q" if "host_mmap (env_host e) len wr f off w = (Some q, w')"
    for len wr f off w q w' using assms that unfolding spaces_ok_def by blast
  note ok = as_at_range_ok [OF Some]
  have v: "is_gpa_valid as gpa n \<longleftrightarrow> addrs (gpa_range gpa n) \<subseteq> addrs (as_range as)"
    using range_contains_addrs [OF as(1) ok] by (simp add: is_gpa_valid_def)
  show ?thesis
  proof (cases "is_gpa_valid as gpa n \<and> (cred_write (guest_cred as) \<or> cred_write (mem_cred (mobject as)))")
    case True
    show ?thesis
    proof (cases "mapped as")
      case mapped: True
      then show ?thesis using True Some v host_area_inside [OF as(1) ok]
        by (auto simp: write_bus_def as_write_def demand_map_def demand_unmap_def demand_unmap_clean_def memcpy_moves Let_def)
    next
      case False
      then show ?thesis using True Some v as_write_unmapped [where src = src and w = "(m, x)", OF k as h ok] by (auto simp: write_bus_def)
    qed
  next
    case False
    then have "\<exists>err. err \<noteq> NONE \<and> write_bus e gpa src n (m, x) = Some (err, m, x)"
      using Some by (auto simp: write_bus_def as_write_def demand_map_def)
    then show ?thesis using False Some v by auto
  qed
qed

lemma area_4: "area p 4 = [p, p + 1, p + 2, p + 3]"
  by (simp add: area_def upt_rec)

subsection \<open>A flush of the guest's memory\<close>

text \<open>The devices whose memory a flush covers, and what it does to each of them.\<close>

definition flushed_dev :: "('d, 'x) as_env \<Rightarrow> 'd node \<Rightarrow> bool" where
  "flushed_dev e n \<longleftrightarrow> env_type e (snd n) \<in> {GUEST_PHYSICAL_STATIC_MEMORY, GUEST_PHYSICAL_DYNAMIC_MEMORY} \<and>
     cred_write (guest_cred (env_as e (snd n))) \<and> flush_on_reset (env_as e (snd n)) \<and> cred_write (mem_cred (mobject (env_as e (snd n))))"

definition whole_space :: "simple_as \<Rightarrow> u64 \<times> u64 \<Rightarrow> bool" where
  "whole_space as r \<longleftrightarrow> snd r = r_size (as_range as) \<and> fst r \<noteq> 0 \<and> (mapped as \<longrightarrow> fst r = vmm_view as)"

lemma flush_devices_areas:
  assumes "for_each ns (flush_callback e) (fl, w) = Some s"
  shows "\<exists>rs w'. s = (fl @ rs, w') \<and> list_all2 (\<lambda>n. whole_space (env_as e (snd n))) (filter (flushed_dev e) ns) rs"
  using assms
proof (induction ns arbitrary: fl w)
  case Nil
  then show ?case by (intro exI [of _ "[]"] exI [of _ w]) simp
next
  case (Cons n ns)
  obtain fl1 w1 where c: "flush_callback e n (fl, w) = Some (fl1, w1)" "for_each ns (flush_callback e) (fl1, w1) = Some s"
    using Cons.prems by (auto split: option.splits)
  obtain rs w' where r: "s = (fl1 @ rs, w')" "list_all2 (\<lambda>n. whole_space (env_as e (snd n))) (filter (flushed_dev e) ns) rs"
    using Cons.IH [OF c(2)] by blast
  show ?case
  proof (cases "flushed_dev e n")
    case True
    obtain va where "fl1 = fl @ [(va, r_size (as_range (env_as e (snd n))))]" "va \<noteq> 0"
        "mapped (env_as e (snd n)) \<longrightarrow> va = vmm_view (env_as e (snd n))"
      using c(1) True by (auto simp: flush_callback_def flushed_dev_def flush_guest_as_def Let_def bind_eq_Some_conv split: if_splits prod.splits)
    moreover from this have "whole_space (env_as e (snd n)) (va, r_size (as_range (env_as e (snd n))))" by (simp add: whole_space_def)
    ultimately show ?thesis using r True by auto
  next
    case False
    then have "fl1 = fl" using c(1) by (auto simp: flush_callback_def flushed_dev_def flush_guest_as_def split: if_splits)
    then show ?thesis using r False by auto
  qed
qed

text \<open>A flush aborts only when the host refuses a mapping or its removal.\<close>

definition host_maps :: "'x host \<Rightarrow> bool" where
  "host_maps h \<longleftrightarrow> (\<forall>len wr f off w. \<exists>p w'. host_mmap h len wr f off w = (Some p, w') \<and> p \<noteq> 0) \<and> (\<forall>p len w. fst (host_munmap h p len w))"

lemma flush_devices_total:
  assumes "host_maps (env_host e)"
  shows "for_each ns (flush_callback e) s \<noteq> None"
proof (induction ns arbitrary: s)
  case (Cons n ns)
  let ?as = "env_as e (snd n)"
  obtain fl w where s: "s = (fl, w)" by (rule prod.exhaust)
  have a0: "align_dn 0 (page_size (env_host e)) = 0" by (simp add: align_dn_def)
  have map: "\<exists>p w'. map_mem (env_host e) d 0 sz True w = (p, w') \<and> p \<noteq> 0" for d sz w
  proof -
    obtain p w' where "host_mmap (env_host e) (align_up sz (page_size (env_host e))) True (msel d) 0 w = (Some p, w')" "p \<noteq> 0"
      using assms unfolding host_maps_def by blast
    then show ?thesis by (simp add: map_mem_def align_mmap_def a0)
  qed
  have unmap: "\<exists>w'. unmap_guest_mem (env_host e) p sz w = Some w'" for p sz w
  proof -
    obtain b w' where u: "unmap_mem (env_host e) p sz w = (b, w')" by (rule prod.exhaust)
    moreover have "fst (host_munmap (env_host e) q len w)" for q len using assms unfolding host_maps_def by blast
    then have "fst (unmap_mem (env_host e) p sz w)" by (simp add: unmap_mem_def align_mmap_def Let_def)
    ultimately have b by simp
    then show ?thesis using u by (simp add: unmap_guest_mem_def)
  qed
  have "flush_callback e n s \<noteq> None"
  proof -
    obtain p w1 where m: "map_mem (env_host e) (mobject ?as) 0 (r_size (as_range ?as)) True w = (p, w1)" "p \<noteq> 0" using map by blast
    moreover obtain w2 where "unmap_guest_mem (env_host e) p (r_size (as_range ?as)) w1 = Some w2" using unmap by blast
    ultimately show ?thesis by (simp add: s flush_callback_def flush_guest_as_def Let_def)
  qed
  then show ?case using Cons.IH by auto
qed simp

text \<open>A machine with one mapped space of 256 bytes and a host that refuses further mappings.\<close>

definition demo_as :: simple_as where
  "demo_as = (simple_as_new \<lparr>r_begin = 0x1000, r_size = 0x100\<rparr> \<lparr>msel = 3, mem_cred = posix_cred\<rparr> posix_cred True True)
     \<lparr>vmm_view := 0x70000\<rparr>"

definition demo_host :: "unit host" where
  "demo_host = \<lparr>page_size = 0x1000, host_mmap = \<lambda>_ _ _ _ w. (None, w), host_munmap = \<lambda>_ _ w. (False, w)\<rparr>"

definition demo_env :: "(nat, unit) as_env" where
  "demo_env = \<lparr>env_bus = demo_bus, env_type = (\<lambda>d. if d = 1 then GUEST_PHYSICAL_STATIC_MEMORY else DEVICE),
     env_as = (\<lambda>_. demo_as), env_host = demo_host\<rparr>"

lemma demo_spaces_mapped: "spaces_mapped demo_env"
  by (auto simp: spaces_mapped_def get_as_device_at_def demo_env_def demo_as_def simple_as_new_def range_ok_def
      split: option.splits if_splits)

lemma demo_env_at: "get_as_device_at demo_env 0x1010 4 = Some demo_as"
  by (simp add: get_as_device_at_def get_device_at_def demo_env_def demo_bus_devices bus_lookup_def range_compare_def
      range_intersect_def range_end_def range_empty_def range_less_def word_le_nat_alt word_less_nat_alt)

lemma demo_addrs: "addrs (gpa_range 0x1010 4) \<subseteq> addrs (as_range demo_as)"
  by (auto simp: addrs_def demo_as_def simple_as_new_def)

definition demo_mem :: memory where
  "demo_mem a = ucast a"

text \<open>The same machine with the space mapped on demand, and a host that maps at a fixed place.\<close>

definition demand_env :: "(nat, unit) as_env" where
  "demand_env = demo_env\<lparr>env_as := (\<lambda>_. demo_as\<lparr>vmm_view := 0\<rparr>),
     env_host := \<lparr>page_size = 0x1000, host_mmap = \<lambda>_ _ _ _ w. (Some 0x40000000, w), host_munmap = \<lambda>_ _ w. (True, w)\<rparr>\<rparr>"

lemma demo_spaces_ok: "spaces_ok demo_env" "spaces_ok demand_env"
  by (auto simp: spaces_ok_def get_as_device_at_def demand_env_def demo_env_def demo_host_def demo_as_def simple_as_new_def range_ok_def
      align_dn_def split: option.splits if_splits intro!: exI [of _ 12])

lemma demand_env_at: "get_as_device_at demand_env 0x1010 4 = Some (demo_as\<lparr>vmm_view := 0\<rparr>)"
  using demo_env_at by (auto simp: demand_env_def demo_env_def get_as_device_at_def split: option.splits if_splits)

theorem guest_write_confined_witness:
  "write_bus demo_env 0x1010 0x9000 4 (demo_mem, ()) = Some (NONE, move_bytes (area 0x70010 4) (area 0x9000 4) demo_mem, ()) \<and>
   (\<exists>in_page. write_bus demand_env 0x1010 0x9000 4 (demo_mem, ()) =
      Some (NONE, move_bytes (area (0x40000000 + in_page) 4) (area 0x9000 4) demo_mem, ()))"
proof -
  have c: "\<exists>as. get_as_device_at demo_env 0x1010 4 = Some as \<and> addrs (gpa_range 0x1010 4) \<subseteq> addrs (as_range as) \<and>
      (cred_write (guest_cred as) \<or> cred_write (mem_cred (mobject as)))"
    "\<exists>as. get_as_device_at demand_env 0x1010 4 = Some as \<and> addrs (gpa_range 0x1010 4) \<subseteq> addrs (as_range as) \<and>
      (cred_write (guest_cred as) \<or> cred_write (mem_cred (mobject as)))"
    using demo_env_at demand_env_at demo_addrs by (auto simp: demo_as_def simple_as_new_def posix_cred_def)
  have m: "write_bus demo_env 0x1010 0x9000 4 (demo_mem, ()) = Some (NONE, move_bytes (host_area demo_as 0x1010 4) (area 0x9000 4) demo_mem, ())"
    using guest_write_confined [OF demo_spaces_ok(1), of "0x1010" 4 "0x9000" demo_mem "()"] c(1) demo_env_at
    by (auto simp: demo_as_def simple_as_new_def)
  obtain win len in_page where "write_bus demand_env 0x1010 0x9000 4 (demo_mem, ()) =
      write_through_window (env_host demand_env) (mobject demo_as) win len in_page 0x9000 4 (demo_mem, ())"
    using guest_write_confined [OF demo_spaces_ok(2), of "0x1010" 4 "0x9000" demo_mem "()"] c(2) demand_env_at by auto
  then show ?thesis using m by (auto simp: write_through_window_def demand_env_def demo_as_def simple_as_new_def)
qed

text \<open>
  What a successful write to guest memory through the bus has written, a read of the same guest
  range gives back, into any buffer that does not overlap the memory of the range.
\<close>

theorem guest_memory_roundtrip:
  assumes "spaces_mapped e" "write_bus e gpa src n (m, x) = Some (NONE, m', x')"
    and "\<forall>as. get_as_device_at e gpa n = Some as \<longrightarrow> set (host_area as gpa n) \<inter> set (area dst (unat n)) = {}"
  shows "\<exists>m''. read_bus e gpa dst n (m', x') = Some (NONE, m'', x') \<and> map m'' (area dst (unat n)) = map m (area src (unat n))"
proof -
  obtain as where as: "get_as_device_at e gpa n = Some as" "addrs (gpa_range gpa n) \<subseteq> addrs (as_range as)"
    "m' = move_bytes (host_area as gpa n) (area src (unat n)) m"
    using write_bus_result [of e gpa src n m x, unfolded assms(2)] assms(1) by (auto split: if_splits)
  have v: "mapped as" "is_gpa_valid as gpa n"
    using assms(1) as(1,2) range_contains_addrs [OF _ as_at_range_ok [OF as(1)]]
    by (auto simp: spaces_mapped_def is_gpa_valid_def)
  have n: "unat n \<le> 2 ^ 64" using unsigned_less [of n, where 'a = nat] by simp
  have "map m' (host_area as gpa n) = map m (area src (unat n))"
    unfolding as(3) by (rule map_scatter_same) (use n in \<open>simp_all add: distinct_area\<close>)
  moreover have "map (scatter (area dst (unat n)) xs m') (area dst (unat n)) = xs" if "length xs = unat n" for xs
    by (rule map_scatter_same) (use n that in \<open>simp_all add: distinct_area\<close>)
  ultimately show ?thesis
    using as(1) v by (simp add: read_bus_def as_read_def memcpy_moves Let_def)
qed

theorem guest_memory_roundtrip_witness:
  "\<exists>m' m''. write_bus demo_env 0x1010 0x9000 4 (demo_mem, ()) = Some (NONE, m', ()) \<and>
     read_bus demo_env 0x1010 0xa000 4 (m', ()) = Some (NONE, m'', ()) \<and>
     map m'' (area 0xa000 4) = map demo_mem (area 0x9000 4)"
proof -
  have w: "write_bus demo_env 0x1010 0x9000 4 (demo_mem, ()) = Some (NONE, move_bytes (host_area demo_as 0x1010 4) (area 0x9000 4) demo_mem, ())"
    using demo_env_at by (simp add: write_bus_def as_write_def demand_map_def demand_unmap_clean_def memcpy_moves Let_def
        demo_as_def simple_as_new_def posix_cred_def is_gpa_valid_def range_contains_def range_contains_val_def
        range_last_def range_end_def range_empty_def word_le_nat_alt word_less_nat_alt)
  have "set (host_area demo_as 0x1010 4) \<inter> set (area 0xa000 4) = {}"
    by (simp add: demo_as_def simple_as_new_def area_4)
  then show ?thesis
    using guest_memory_roundtrip [OF demo_spaces_mapped w, of "0xa000"] w demo_env_at by auto
qed

text \<open>The size of an access by itself is not enough: without the check of the bus, a size that wraps is accepted.\<close>

lemma gpa_valid_wraps: "is_gpa_valid demo_as 0x1002 0xffffffffffffffff"
  by (simp add: is_gpa_valid_def demo_as_def simple_as_new_def range_contains_def range_contains_val_def
      range_last_def range_end_def range_empty_def word_le_nat_alt word_less_nat_alt)

text \<open>An unaligned read of fewer than eight bytes returns the high bytes of the variable that is not initialised.\<close>

lemma unaligned_read_leaks:
  assumes "ptr \<noteq> 0" "ptr mod 4 \<noteq> 0"
  shows "single_mapped_read ret ptr 4 m = Some (ret AND NOT 0xffffffff OR load_le 4 m ptr)"
  using assms by (simp add: single_mapped_read_def mask_eq_exp_minus_1 word_le_nat_alt)

lemma aligned_read_write:
  assumes "ptr \<noteq> 0" "sz \<in> {1, 2, 4, 8}" "ptr mod ucast sz = 0"
  shows "\<exists>m'. single_mapped_write ptr sz v m = Some m' \<and> single_mapped_read ret ptr sz m' = Some (take_bit (8 * unat sz) v)"
  using assms load_store_same [of "unat sz" ptr v m]
  by (auto simp: single_mapped_write_def single_mapped_read_def word_le_nat_alt simp del: load_le.simps store_le.simps)

end
