(* ===== verification/VirtioMmio.thy ===== *)
theory VirtioMmio
  imports SimpleAs
begin

text \<open>
  The part that virtio devices share: the interface to a virtual IOMMU
  (\<open>devices/virtio_base/include/model/iommu_interface.hpp\<close>), the state of a device and its queues
  (\<open>model/virtio_common.hpp\<close>), the registers of the MMIO transport (\<open>model/virtio_mmio.hpp\<close>), and the
  device itself (\<open>model/virtio.hpp\<close>), which lets the transport change the state and then acts on the
  events that the transport left.

  The calls of the interrupt controller are recorded in order. The configuration space is a list of
  bytes. An index outside \<open>data\<close> or \<open>queue\<close>, which the code does not check, is \<open>None\<close>. The pointer
  from a queue to its \<open>QueueData\<close>, which only \<open>construct\<close> uses, is left out.
\<close>

subsection \<open>The virtual IOMMU\<close>

abbreviation IO_READ :: u32 where "IO_READ \<equiv> 1"
abbreviation IO_WRITE :: u32 where "IO_WRITE \<equiv> 2"

record io_mapping =
  im_va :: u64
  im_pa :: u64
  im_sz :: u64
  im_flags :: u32

definition im_write :: "io_mapping \<Rightarrow> bool" where "im_write m \<longleftrightarrow> im_flags m AND IO_WRITE \<noteq> 0"
definition im_read :: "io_mapping \<Rightarrow> bool" where "im_read m \<longleftrightarrow> im_flags m AND IO_READ \<noteq> 0"

record iommu =
  iommu_avail :: bool
  attached :: bool
  io_mappings :: "io_mapping range_map"

definition iommu_new :: iommu where
  "iommu_new = \<lparr>iommu_avail = False, attached = False, io_mappings = []\<rparr>"

definition iommu_present :: "iommu \<Rightarrow> iommu" where "iommu_present s = s\<lparr>iommu_avail := True\<rparr>"
definition iommu_attach :: "iommu \<Rightarrow> iommu" where "iommu_attach s = s\<lparr>attached := True\<rparr>"

definition remove_all_mappings :: "iommu \<Rightarrow> iommu" where
  "remove_all_mappings s = s\<lparr>io_mappings := fst (rm_clear (\<lambda>_ x. x) (io_mappings s) ())\<rparr>"

definition iommu_detach :: "iommu \<Rightarrow> iommu" where
  "iommu_detach s = (remove_all_mappings s)\<lparr>attached := False\<rparr>"

definition io_mapping_node :: "io_mapping \<Rightarrow> io_mapping node" where
  "io_mapping_node m = (\<lparr>r_begin = im_va m, r_size = im_sz m\<rparr>, m)"

text \<open>\<open>alloc\<close> tells whether there is memory for the node.\<close>

definition iommu_map :: "bool \<Rightarrow> io_mapping \<Rightarrow> iommu \<Rightarrow> Errno \<times> iommu" where
  "iommu_map alloc m s =
     (if \<not> alloc then (NOMEM, s) else (NONE, s\<lparr>io_mappings := fst (rm_insert (io_mappings s) (io_mapping_node m))\<rparr>))"

definition iommu_unmap :: "io_mapping \<Rightarrow> iommu \<Rightarrow> Errno \<times> iommu" where
  "iommu_unmap m s = (NONE, s\<lparr>io_mappings := fst (rm_remove (io_mappings s) \<lparr>r_begin = im_va m, r_size = im_sz m\<rparr>)\<rparr>)"

definition translate_io :: "iommu \<Rightarrow> u64 \<Rightarrow> u64 \<Rightarrow> u64" where
  "translate_io s io_addr sz =
     (case rm_lookup (io_mappings s) \<lparr>r_begin = io_addr, r_size = sz\<rparr> of
        None \<Rightarrow> - 1
      | Some n \<Rightarrow> io_addr - im_va (snd n) + im_pa (snd n))"

definition iommu_reset :: "iommu \<Rightarrow> iommu" where
  "iommu_reset s = (remove_all_mappings s)\<lparr>iommu_avail := False, attached := False\<rparr>"

subsection \<open>Queues\<close>

datatype DeviceID = PLACE_HOLDER | NET | BLOCK | CONSOLE | ENTROPY | BALLOON | SCSI | GPU | INPUT | SOCKET | CRYPTO | IOMMU

fun device_id_num :: "DeviceID \<Rightarrow> u16" where
  "device_id_num PLACE_HOLDER = 0" | "device_id_num NET = 1" | "device_id_num BLOCK = 2" | "device_id_num CONSOLE = 3"
| "device_id_num ENTROPY = 4" | "device_id_num BALLOON = 5" | "device_id_num SCSI = 8" | "device_id_num GPU = 16"
| "device_id_num INPUT = 18" | "device_id_num SOCKET = 19" | "device_id_num CRYPTO = 20" | "device_id_num IOMMU = 23"

abbreviation DEVICE_RESET :: u32 where "DEVICE_RESET \<equiv> 0"
abbreviation DRIVER_OK :: u32 where "DRIVER_OK \<equiv> 4"
abbreviation QUEUES_MAX :: nat where "QUEUES_MAX \<equiv> 3"
abbreviation VIRTIO_F_VERSION_1 :: u64 where "VIRTIO_F_VERSION_1 \<equiv> 0x100000000"
abbreviation VIRTIO_F_ACCESS_PLATFORM :: u64 where "VIRTIO_F_ACCESS_PLATFORM \<equiv> 0x200000000"

record queue_data =
  descr_low :: u32
  descr_high :: u32
  driver_low :: u32
  driver_high :: u32
  device_low :: u32
  device_high :: u32
  qd_num :: u32
  qd_ready :: u32
  msix_vector :: u32
  notify_off :: u32

definition queue_data_new :: "u32 \<Rightarrow> queue_data" where
  "queue_data_new n = \<lparr>descr_low = 0, descr_high = 0, driver_low = 0, driver_high = 0, device_low = 0, device_high = 0,
     qd_num = n, qd_ready = 0, msix_vector = 0, notify_off = 0\<rparr>"

definition qd_descr :: "queue_data \<Rightarrow> u64" where "qd_descr d = combine_low_high (descr_low d) (descr_high d)"
definition qd_driver :: "queue_data \<Rightarrow> u64" where "qd_driver d = combine_low_high (driver_low d) (driver_high d)"
definition qd_device :: "queue_data \<Rightarrow> u64" where "qd_device d = combine_low_high (device_low d) (device_high d)"

record queue_state =
  queue_num_descs :: u16
  device_queue :: vqueue
  constructed :: bool
  desc_addr :: u64
  avail_addr :: u64
  used_addr :: u64

definition queue_state_new :: queue_state where
  "queue_state_new = \<lparr>queue_num_descs = 0, device_queue = queue_none, constructed = False, desc_addr = 0, avail_addr = 0,
     used_addr = 0\<rparr>"

definition io_convert :: "iommu \<Rightarrow> u64 \<Rightarrow> nat \<Rightarrow> bool \<Rightarrow> u64" where
  "io_convert io addr sz use_io = (if \<not> use_io then addr else translate_io io addr (of_nat sz))"

text \<open>Undoing one of the mappings of a queue.\<close>

definition unmap_area :: "'x host \<Rightarrow> u64 \<Rightarrow> nat \<Rightarrow> 'x world \<Rightarrow> 'x world option" where
  "unmap_area h p sz w = (if p \<noteq> 0 then unmap_guest_mem h p (of_nat sz) w else Some w)"

definition queue_destruct :: "('d, 'x) as_env \<Rightarrow> queue_state \<times> 'x world \<Rightarrow> (queue_state \<times> 'x world) option" where
  "queue_destruct e s = (case s of (qs, w) \<Rightarrow> do {
     w \<leftarrow> unmap_area (env_host e) (desc_addr qs) (desc_region_bytes (queue_num_descs qs)) w;
     w \<leftarrow> unmap_area (env_host e) (avail_addr qs) (avail_region_bytes (queue_num_descs qs)) w;
     w \<leftarrow> unmap_area (env_host e) (used_addr qs) (used_region_bytes (queue_num_descs qs)) w;
     Some (queue_state_new, w)
   })"

definition queue_construct ::
    "('d, 'x) as_env \<Rightarrow> bool \<Rightarrow> iommu \<Rightarrow> queue_data \<Rightarrow> queue_state \<times> 'x world \<Rightarrow> (queue_state \<times> 'x world) option" where
  "queue_construct e use_io io d s = (case s of (qs, w) \<Rightarrow>
     let n = ucast (qd_num d) in
     if \<not> is_size_valid n then Some (qs, w)
     else
       let qs = qs\<lparr>queue_num_descs := n\<rparr>;
           descs = io_convert io (qd_descr d) (desc_region_bytes n) use_io;
           drv = io_convert io (qd_driver d) (avail_region_bytes n) use_io;
           dev = io_convert io (qd_device d) (used_region_bytes n) use_io
       in if gpa_invalid descs \<or> gpa_invalid drv \<or> gpa_invalid dev then queue_destruct e (qs, w)
          else do {
            (p, w) \<leftarrow> map_guest_mem e descs (of_nat (desc_region_bytes n)) True w;
            let qs = qs\<lparr>desc_addr := p\<rparr>;
            if p = 0 then queue_destruct e (qs, w)
            else do {
              (p, w) \<leftarrow> map_guest_mem e drv (of_nat (avail_region_bytes n)) True w;
              let qs = qs\<lparr>avail_addr := p\<rparr>;
              if p = 0 then queue_destruct e (qs, w)
              else do {
                (p, w) \<leftarrow> map_guest_mem e dev (of_nat (used_region_bytes n)) True w;
                let qs = qs\<lparr>used_addr := p\<rparr>;
                if p = 0 then queue_destruct e (qs, w)
                else do {
                  q \<leftarrow> queue_new (desc_addr qs) (avail_addr qs) (used_addr qs) n;
                  Some (qs\<lparr>device_queue := q, constructed := True\<rparr>, w)
                }}}})"

subsection \<open>The state of a device\<close>

record msix_entry =
  msg_addr :: u64
  msg_data :: u32
  vec_ctrl :: u32

record device_state =
  status_changed :: bool
  construct_queue :: bool
  irq_acknowledged :: bool
  ds_notify :: bool
  notify_val :: u32
  queue_num_max :: u16
  vendor_id :: u32
  device_id :: u32
  device_feature_lower :: u32
  device_feature_upper :: u32
  config_space :: "u8 list"
  config_size :: u32
  sel_queue :: u32
  irq_status :: u32
  status :: u32
  drv_device_sel :: u32
  drv_feature_sel :: u32
  drv_feature_upper :: u32
  drv_feature_lower :: u32
  config_generation :: u32
  config_msix_vector :: u32
  tbl_data :: "msix_entry list"
  pba_data :: "u64 list"
  qdata :: "queue_data list"
  queues :: "queue_state list"

definition device_state_new :: "u16 \<Rightarrow> u32 \<Rightarrow> u32 \<Rightarrow> u64 \<Rightarrow> u8 list \<Rightarrow> device_state" where
  "device_state_new num_max vendor dev_id feature config =
     \<lparr>status_changed = False, construct_queue = False, irq_acknowledged = False, ds_notify = False, notify_val = 0,
      queue_num_max = num_max, vendor_id = vendor, device_id = dev_id, device_feature_lower = ucast feature,
      device_feature_upper = ucast (drop_bit 32 (feature OR VIRTIO_F_VERSION_1)), config_space = config,
      config_size = of_nat (length config), sel_queue = 0, irq_status = 0, status = 0, drv_device_sel = 0,
      drv_feature_sel = 0, drv_feature_upper = 0, drv_feature_lower = 0, config_generation = 0, config_msix_vector = 0,
      tbl_data = replicate 64 \<lparr>msg_addr = 0, msg_data = 0, vec_ctrl = 0\<rparr>, pba_data = replicate 64 0,
      qdata = replicate QUEUES_MAX (queue_data_new (ucast num_max)), queues = replicate QUEUES_MAX queue_state_new\<rparr>"

definition selected_queue_data :: "device_state \<Rightarrow> queue_data option" where
  "selected_queue_data s = nth_opt (qdata s) (unat (sel_queue s))"

definition construct_selected ::
    "('d, 'x) as_env \<Rightarrow> bool \<Rightarrow> iommu \<Rightarrow> device_state \<times> 'x world \<Rightarrow> (device_state \<times> 'x world) option" where
  "construct_selected e use_io io s = (case s of (ds, w) \<Rightarrow> do {
     qs \<leftarrow> nth_opt (queues ds) (unat (sel_queue ds));
     if constructed qs then Some (ds, w)
     else do {
       d \<leftarrow> selected_queue_data ds;
       (qs, w) \<leftarrow> queue_construct e use_io io d (qs, w);
       Some (ds\<lparr>queues := (queues ds)[unat (sel_queue ds) := qs]\<rparr>, w)
     }
   })"

definition destruct_selected :: "('d, 'x) as_env \<Rightarrow> device_state \<times> 'x world \<Rightarrow> (device_state \<times> 'x world) option" where
  "destruct_selected e s = (case s of (ds, w) \<Rightarrow> do {
     qs \<leftarrow> nth_opt (queues ds) (unat (sel_queue ds));
     if \<not> constructed qs then Some (ds, w)
     else do {
       (qs, w) \<leftarrow> queue_destruct e (qs, w);
       Some (ds\<lparr>queues := (queues ds)[unat (sel_queue ds) := qs]\<rparr>, w)
     }
   })"

fun destruct_all :: "('d, 'x) as_env \<Rightarrow> queue_state list \<times> 'x world \<Rightarrow> (queue_state list \<times> 'x world) option" where
  "destruct_all e ([], w) = Some ([], w)"
| "destruct_all e (qs # qss, w) = do {
     (qs, w) \<leftarrow> queue_destruct e (qs, w);
     (qss, w) \<leftarrow> destruct_all e (qss, w);
     Some (qs # qss, w)
   }"

definition state_reset :: "('d, 'x) as_env \<Rightarrow> device_state \<times> 'x world \<Rightarrow> (device_state \<times> 'x world) option" where
  "state_reset e s = (case s of (ds, w) \<Rightarrow> do {
     (qss, w) \<leftarrow> destruct_all e (queues ds, w);
     Some (ds\<lparr>queues := qss, qdata := map (\<lambda>_. queue_data_new (ucast (queue_num_max ds))) (qdata ds), status := 0,
              irq_status := 0, drv_device_sel := 0, drv_feature_sel := 0, drv_feature_upper := 0, drv_feature_lower := 0,
              tbl_data := map (\<lambda>_. \<lparr>msg_addr = 0, msg_data = 0, vec_ctrl = 0\<rparr>) (tbl_data ds),
              pba_data := map (\<lambda>_. 0) (pba_data ds)\<rparr>, w)
   })"

definition is_driver_ok_state :: "device_state \<Rightarrow> bool" where
  "is_driver_ok_state s \<longleftrightarrow> status s = DRIVER_OK"

definition update_config_gen :: "device_state \<Rightarrow> device_state" where
  "update_config_gen s = s\<lparr>config_generation := config_generation s + 1\<rparr>"

definition platform_specific_access_enabled :: "device_state \<Rightarrow> bool" where
  "platform_specific_access_enabled s \<longleftrightarrow>
     device_feature_upper s AND drv_feature_upper s AND ucast (drop_bit 32 VIRTIO_F_ACCESS_PLATFORM) \<noteq> 0"

subsection \<open>Registers\<close>

definition virtio_read_register :: "u64 \<Rightarrow> u32 \<Rightarrow> u32 \<Rightarrow> u8 \<Rightarrow> u64 \<Rightarrow> u64 option" where
  "virtio_read_register offset base_reg base_max bytes val =
     (if bytes = 0 \<or> 8 < bytes \<or> ucast (base_max + 1) < offset + ucast bytes then None
      else let base = offset - ucast base_reg;
               m = if 8 \<le> bytes then - 1 else mask (8 * unat bytes)
           in Some (drop_bit (8 * unat base) val AND m))"

text \<open>\<open>virtio_write_register\<close> for the 32-bit registers.\<close>

definition virtio_write_register :: "u64 \<Rightarrow> u32 \<Rightarrow> u32 \<Rightarrow> u8 \<Rightarrow> u64 \<Rightarrow> u32 \<Rightarrow> u32 option" where
  "virtio_write_register offset base_reg base_max bytes val result =
     (if bytes = 0 \<or> 4 < bytes \<or> ucast (base_max + 1) < offset + ucast bytes then None
      else let base = offset - ucast base_reg;
               m = if 4 \<le> bytes then - 1 else mask (8 * unat bytes) :: u64
           in Some ((result AND ucast (if 4 \<le> bytes then 0 else NOT (push_bit (8 * unat base) m)))
                    OR ucast (push_bit (8 * unat base) (val AND m))))"

definition config_space_read :: "u64 \<Rightarrow> u64 \<Rightarrow> u8 \<Rightarrow> u64 \<Rightarrow> device_state \<Rightarrow> (bool \<times> u64) option" where
  "config_space_read offset config_base bytes val s =
     (let off = offset - config_base in
      if ucast (config_size s) < off + ucast bytes then Some (False, val)
      else do {
        ASSERT (unat off + unat bytes \<le> length (config_space s));
        let m = (\<lambda>a. config_space s ! unat a);
        Some (True, (val AND NOT (mask (8 * unat bytes))) OR load_le (unat bytes) m off)
      })"

definition config_space_write :: "u64 \<Rightarrow> u64 \<Rightarrow> u8 \<Rightarrow> u64 \<Rightarrow> device_state \<Rightarrow> (bool \<times> device_state) option" where
  "config_space_write offset config_base bytes val s =
     (let off = offset - config_base in
      if ucast (config_size s) < off + ucast bytes then Some (False, s)
      else do {
        ASSERT (unat off + unat bytes \<le> length (config_space s));
        let m = store_le (unat bytes) off val (\<lambda>a. config_space s ! unat a);
        Some (True, s\<lparr>config_space := map (\<lambda>i. m (of_nat i)) [0..<length (config_space s)]\<rparr>)
      })"

subsection \<open>The MMIO transport\<close>

abbreviation RO_MAGIC :: u32 where "RO_MAGIC \<equiv> 0x0"
abbreviation RO_VERSION :: u32 where "RO_VERSION \<equiv> 0x4"
abbreviation RO_DEVICE_ID :: u32 where "RO_DEVICE_ID \<equiv> 0x8"
abbreviation RO_VENDOR_ID :: u32 where "RO_VENDOR_ID \<equiv> 0xc"
abbreviation RO_DEVICE_FEATURE :: u32 where "RO_DEVICE_FEATURE \<equiv> 0x10"
abbreviation RW_DEVICE_FEATURE_SEL :: u32 where "RW_DEVICE_FEATURE_SEL \<equiv> 0x14"
abbreviation WO_DRIVER_FEATURE :: u32 where "WO_DRIVER_FEATURE \<equiv> 0x20"
abbreviation RW_DRIVER_FEATURE_SEL :: u32 where "RW_DRIVER_FEATURE_SEL \<equiv> 0x24"
abbreviation WO_QUEUE_SEL :: u32 where "WO_QUEUE_SEL \<equiv> 0x30"
abbreviation RO_QUEUE_NUM_MAX :: u32 where "RO_QUEUE_NUM_MAX \<equiv> 0x34"
abbreviation WO_QUEUE_NUM :: u32 where "WO_QUEUE_NUM \<equiv> 0x38"
abbreviation RW_QUEUE_READY :: u32 where "RW_QUEUE_READY \<equiv> 0x44"
abbreviation WO_QUEUE_NOTIFY :: u64 where "WO_QUEUE_NOTIFY \<equiv> 0x50"
abbreviation RO_IRQ_STATUS :: u32 where "RO_IRQ_STATUS \<equiv> 0x60"
abbreviation WO_IRQ_ACK :: u32 where "WO_IRQ_ACK \<equiv> 0x64"
abbreviation RW_STATUS :: u32 where "RW_STATUS \<equiv> 0x70"
abbreviation WO_QUEUE_DESCR_LOW :: u32 where "WO_QUEUE_DESCR_LOW \<equiv> 0x80"
abbreviation WO_QUEUE_DESCR_HIGH :: u32 where "WO_QUEUE_DESCR_HIGH \<equiv> 0x84"
abbreviation WO_QUEUE_DRIVER_LOW :: u32 where "WO_QUEUE_DRIVER_LOW \<equiv> 0x90"
abbreviation WO_QUEUE_DRIVER_HIGH :: u32 where "WO_QUEUE_DRIVER_HIGH \<equiv> 0x94"
abbreviation WO_QUEUE_DEVICE_LOW :: u32 where "WO_QUEUE_DEVICE_LOW \<equiv> 0xa0"
abbreviation WO_QUEUE_DEVICE_HIGH :: u32 where "WO_QUEUE_DEVICE_HIGH \<equiv> 0xa4"
abbreviation RO_CONFIG_GENERATION :: u32 where "RO_CONFIG_GENERATION \<equiv> 0xfc"
abbreviation RW_CONFIG :: u64 where "RW_CONFIG \<equiv> 0x100"
abbreviation RW_CONFIG_END :: u64 where "RW_CONFIG_END \<equiv> 0x163"

text \<open>The four bytes of a register, its last byte \<open>REG + 3\<close> being the constant \<open>REG_END\<close> of the code.\<close>

definition at_reg :: "u32 \<Rightarrow> u64 \<Rightarrow> bool" where
  "at_reg reg off \<longleftrightarrow> ucast reg \<le> off \<and> off \<le> ucast reg + 3"

definition reg_read :: "u32 \<Rightarrow> u64 \<Rightarrow> u8 \<Rightarrow> u64 \<Rightarrow> u64 \<Rightarrow> bool \<times> u64" where
  "reg_read reg off bytes v val =
     (case virtio_read_register off reg (reg + 3) bytes v of None \<Rightarrow> (False, val) | Some r \<Rightarrow> (True, r))"

definition reg_write :: "u32 \<Rightarrow> u64 \<Rightarrow> u8 \<Rightarrow> u64 \<Rightarrow> u32 \<Rightarrow> bool \<times> u32" where
  "reg_write reg off bytes val old =
     (case virtio_write_register off reg (reg + 3) bytes val old of None \<Rightarrow> (False, old) | Some r \<Rightarrow> (True, r))"

text \<open>The result, and what becomes of the caller's value.\<close>

definition mmio_read :: "u64 \<Rightarrow> u8 \<Rightarrow> u64 \<Rightarrow> device_state \<Rightarrow> (bool \<times> u64) option" where
  "mmio_read off bytes val s =
     (if 4 < bytes then Some (False, val)
      else if at_reg RO_MAGIC off then Some (reg_read RO_MAGIC off bytes 0x74726976 val)
      else if at_reg RO_VERSION off then Some (reg_read RO_VERSION off bytes 2 val)
      else if at_reg RO_DEVICE_ID off then Some (reg_read RO_DEVICE_ID off bytes (ucast (device_id s)) val)
      else if at_reg RO_VENDOR_ID off then Some (reg_read RO_VENDOR_ID off bytes (ucast (vendor_id s)) val)
      else if at_reg RO_DEVICE_FEATURE off
      then Some (reg_read RO_DEVICE_FEATURE off bytes
             (if drv_device_sel s = 0 then ucast (device_feature_lower s) else ucast (device_feature_upper s)) val)
      else if at_reg RW_DEVICE_FEATURE_SEL off then Some (reg_read RW_DEVICE_FEATURE_SEL off bytes (ucast (drv_device_sel s)) val)
      else if at_reg RW_DRIVER_FEATURE_SEL off then Some (reg_read RW_DRIVER_FEATURE_SEL off bytes (ucast (drv_feature_sel s)) val)
      else if at_reg RO_QUEUE_NUM_MAX off then Some (reg_read RO_QUEUE_NUM_MAX off bytes (ucast (queue_num_max s)) val)
      else if at_reg RW_QUEUE_READY off
      then do { d \<leftarrow> selected_queue_data s; Some (reg_read RW_QUEUE_READY off bytes (ucast (qd_ready d)) val) }
      else if at_reg RO_IRQ_STATUS off then Some (reg_read RO_IRQ_STATUS off bytes (ucast (irq_status s)) val)
      else if at_reg RW_STATUS off then Some (reg_read RW_STATUS off bytes (ucast (status s)) val)
      else if at_reg RO_CONFIG_GENERATION off then Some (reg_read RO_CONFIG_GENERATION off bytes (ucast (config_generation s)) val)
      else if RW_CONFIG \<le> off \<and> off \<le> RW_CONFIG_END
      then if RW_CONFIG_END < off + ucast bytes then Some (False, val) else config_space_read off RW_CONFIG bytes val s
      else Some (False, val))"

text \<open>A write to a register of the selected queue: \<open>get\<close> and \<open>put\<close> are its field.\<close>

definition queue_reg_write ::
    "u32 \<Rightarrow> (queue_data \<Rightarrow> u32) \<Rightarrow> (u32 \<Rightarrow> queue_data \<Rightarrow> queue_data) \<Rightarrow> u64 \<Rightarrow> u8 \<Rightarrow> u64 \<Rightarrow> device_state \<Rightarrow>
     (bool \<times> device_state) option" where
  "queue_reg_write reg get put off bytes val s = do {
     d \<leftarrow> selected_queue_data s;
     let (ok, v) = reg_write reg off bytes val (get d);
     Some (ok, s\<lparr>qdata := (qdata s)[unat (sel_queue s) := put v d]\<rparr>)
   }"

text \<open>The address registers of a queue are not written once the driver is ready.\<close>

definition queue_addr_write ::
    "u32 \<Rightarrow> (queue_data \<Rightarrow> u32) \<Rightarrow> (u32 \<Rightarrow> queue_data \<Rightarrow> queue_data) \<Rightarrow> u64 \<Rightarrow> u8 \<Rightarrow> u64 \<Rightarrow> device_state \<Rightarrow>
     (bool \<times> device_state) option" where
  "queue_addr_write reg get put off bytes val s =
     (if is_driver_ok_state s then Some (True, s) else queue_reg_write reg get put off bytes val s)"

definition mmio_write :: "u64 \<Rightarrow> u8 \<Rightarrow> u64 \<Rightarrow> device_state \<Rightarrow> (bool \<times> device_state) option" where
  "mmio_write off bytes val s =
     (if 4 < bytes then Some (False, s)
      else if at_reg RW_DEVICE_FEATURE_SEL off
      then let (ok, v) = reg_write RW_DEVICE_FEATURE_SEL off bytes val (drv_device_sel s) in Some (ok, s\<lparr>drv_device_sel := v\<rparr>)
      else if at_reg WO_DRIVER_FEATURE off
      then if is_driver_ok_state s then Some (True, s)
           else if drv_feature_sel s = 0
           then let (ok, v) = reg_write WO_DRIVER_FEATURE off bytes val (drv_feature_lower s) in Some (ok, s\<lparr>drv_feature_lower := v\<rparr>)
           else let (ok, v) = reg_write WO_DRIVER_FEATURE off bytes val (drv_feature_upper s) in Some (ok, s\<lparr>drv_feature_upper := v\<rparr>)
      else if at_reg RW_DRIVER_FEATURE_SEL off
      then let (ok, v) = reg_write RW_DRIVER_FEATURE_SEL off bytes val (drv_feature_sel s) in Some (ok, s\<lparr>drv_feature_sel := v\<rparr>)
      else if at_reg WO_QUEUE_SEL off
      then if of_nat QUEUES_MAX \<le> val then Some (True, s)
           else let (ok, v) = reg_write WO_QUEUE_SEL off bytes val (sel_queue s) in Some (ok, s\<lparr>sel_queue := v\<rparr>)
      else if at_reg WO_QUEUE_NUM off
      then if is_driver_ok_state s \<or> ucast (queue_num_max s) < val then Some (True, s)
           else queue_reg_write WO_QUEUE_NUM qd_num (\<lambda>v. qd_num_update (\<lambda>_. v)) off bytes val s
      else if at_reg RW_QUEUE_READY off
      then do {
        (ok, s) \<leftarrow> queue_reg_write RW_QUEUE_READY qd_ready (\<lambda>v. qd_ready_update (\<lambda>_. v)) off bytes val s;
        Some (if ok then (True, s\<lparr>construct_queue := True\<rparr>) else (False, s))
      }
      else if at_reg WO_IRQ_ACK off then Some (True, s\<lparr>irq_acknowledged := True\<rparr>)
      else if at_reg RW_STATUS off
      then let (ok, v) = reg_write RW_STATUS off bytes val (status s) in Some (ok, s\<lparr>status_changed := True, status := v\<rparr>)
      else if off = WO_QUEUE_NOTIFY then Some (True, s\<lparr>ds_notify := True, notify_val := ucast val\<rparr>)
      else if at_reg WO_QUEUE_DESCR_LOW off
      then queue_addr_write WO_QUEUE_DESCR_LOW descr_low (\<lambda>v. descr_low_update (\<lambda>_. v)) off bytes val s
      else if at_reg WO_QUEUE_DESCR_HIGH off
      then queue_addr_write WO_QUEUE_DESCR_HIGH descr_high (\<lambda>v. descr_high_update (\<lambda>_. v)) off bytes val s
      else if at_reg WO_QUEUE_DRIVER_LOW off
      then queue_addr_write WO_QUEUE_DRIVER_LOW driver_low (\<lambda>v. driver_low_update (\<lambda>_. v)) off bytes val s
      else if at_reg WO_QUEUE_DRIVER_HIGH off
      then queue_addr_write WO_QUEUE_DRIVER_HIGH driver_high (\<lambda>v. driver_high_update (\<lambda>_. v)) off bytes val s
      else if at_reg WO_QUEUE_DEVICE_LOW off
      then queue_addr_write WO_QUEUE_DEVICE_LOW device_low (\<lambda>v. device_low_update (\<lambda>_. v)) off bytes val s
      else if at_reg WO_QUEUE_DEVICE_HIGH off
      then queue_addr_write WO_QUEUE_DEVICE_HIGH device_high (\<lambda>v. device_high_update (\<lambda>_. v)) off bytes val s
      else if RW_CONFIG \<le> off \<and> off \<le> RW_CONFIG_END
      then if RW_CONFIG_END < off + ucast bytes then Some (False, s) else config_space_write off RW_CONFIG bytes val s
      else Some (False, s))"

definition mmio_access :: "vbus_access \<Rightarrow> u64 \<Rightarrow> u8 \<Rightarrow> u64 \<Rightarrow> device_state \<Rightarrow> (bool \<times> u64 \<times> device_state) option" where
  "mmio_access a off sz val s =
     (if a = WRITE then do { (ok, s) \<leftarrow> mmio_write off sz val s; Some (ok, val, s) }
      else if a = READ then do { (ok, v) \<leftarrow> mmio_read off sz val s; Some (ok, v, s) }
      else Some (False, val, s))"

subsection \<open>The device\<close>

datatype irq_call = Assert_global_line u16 | Deassert_global_line u16

record virtio_device =
  vd_state :: device_state
  vd_iommu :: iommu
  vd_irq :: u16
  vd_calls :: "irq_call list"

abbreviation VENDOR_ID :: u32 where "VENDOR_ID \<equiv> 0x20564842"

definition assert_queue_interrupt :: "'a virtio_device_scheme \<Rightarrow> 'a virtio_device_scheme" where
  "assert_queue_interrupt d =
     (if irq_status (vd_state d) AND 1 \<noteq> 0 then d
      else d\<lparr>vd_state := (vd_state d)\<lparr>irq_status := irq_status (vd_state d) OR 1\<rparr>,
             vd_calls := vd_calls d @ [Assert_global_line (vd_irq d)]\<rparr>)"

definition deassert_queue_interrupt :: "'a virtio_device_scheme \<Rightarrow> 'a virtio_device_scheme" where
  "deassert_queue_interrupt d =
     d\<lparr>vd_state := (vd_state d)\<lparr>irq_status := irq_status (vd_state d) AND NOT 1\<rparr>,
       vd_calls := vd_calls d @ [Deassert_global_line (vd_irq d)]\<rparr>"

definition use_io_mappings :: "'a virtio_device_scheme \<Rightarrow> bool" where
  "use_io_mappings d \<longleftrightarrow>
     iommu_avail (vd_iommu d) \<and> attached (vd_iommu d) \<and> platform_specific_access_enabled (vd_state d)"

definition drv_feature :: "'a virtio_device_scheme \<Rightarrow> u64" where
  "drv_feature d = combine_low_high (drv_feature_lower (vd_state d)) (drv_feature_upper (vd_state d))"

definition reset_virtio ::
    "('d, 'x) as_env \<Rightarrow> 'a virtio_device_scheme \<times> 'x world \<Rightarrow> ('a virtio_device_scheme \<times> 'x world) option" where
  "reset_virtio e s = (case s of (d, w) \<Rightarrow> do {
     (ds, w) \<leftarrow> state_reset e (vd_state d, w);
     Some (d\<lparr>vd_state := ds, vd_iommu := iommu_reset (vd_iommu d)\<rparr>, w)
   })"

text \<open>The virtual functions \<open>notify\<close> and \<open>driver_ok\<close> of the derived class are parameters.\<close>

record 'a dev_virtuals =
  dv_notify :: "u32 \<Rightarrow> 'a \<Rightarrow> 'a"
  dv_driver_ok :: "'a \<Rightarrow> 'a"

definition handle_events ::
    "('d, 'x) as_env \<Rightarrow> 'a virtio_device_scheme dev_virtuals \<Rightarrow> 'a virtio_device_scheme \<times> 'x world \<Rightarrow>
     ('a virtio_device_scheme \<times> 'x world) option" where
  "handle_events e vt s = (case s of (d, w) \<Rightarrow> do {
     (d, w) \<leftarrow> (if construct_queue (vd_state d)
                then do {
                  (ds, w) \<leftarrow> construct_selected e (use_io_mappings d) (vd_iommu d) ((vd_state d)\<lparr>construct_queue := False\<rparr>, w);
                  Some (d\<lparr>vd_state := ds\<rparr>, w)
                }
                else Some (d, w));
     (d, w) \<leftarrow> (if status_changed (vd_state d)
                then let d = d\<lparr>vd_state := (vd_state d)\<lparr>status_changed := False\<rparr>\<rparr>
                     in if status (vd_state d) = DEVICE_RESET
                        then do { (ds, w) \<leftarrow> state_reset e (vd_state d, w); Some (d\<lparr>vd_state := ds\<rparr>, w) }
                        else if status (vd_state d) AND DRIVER_OK \<noteq> 0 then Some (dv_driver_ok vt d, w)
                        else Some (d, w)
                else Some (d, w));
     let d = (if irq_acknowledged (vd_state d)
              then deassert_queue_interrupt (d\<lparr>vd_state := (vd_state d)\<lparr>irq_acknowledged := False\<rparr>\<rparr>)
              else d);
     Some (if ds_notify (vd_state d)
           then (let d = d\<lparr>vd_state := (vd_state d)\<lparr>ds_notify := False\<rparr>\<rparr> in dv_notify vt (notify_val (vd_state d)) d, w)
           else (d, w))
   })"

definition virtio_access ::
    "('d, 'x) as_env \<Rightarrow> 'a virtio_device_scheme dev_virtuals \<Rightarrow> vbus_access \<Rightarrow> u64 \<Rightarrow> u8 \<Rightarrow> u64 \<Rightarrow>
     'a virtio_device_scheme \<times> 'x world \<Rightarrow> (vbus_err \<times> u64 \<times> 'a virtio_device_scheme \<times> 'x world) option" where
  "virtio_access e vt a off sz val s = (case s of (d, w) \<Rightarrow> do {
     (ok, val, ds) \<leftarrow> mmio_access a off sz val (vd_state d);
     let d = d\<lparr>vd_state := ds\<rparr>;
     if ok then do { (d, w) \<leftarrow> handle_events e vt (d, w); Some (OK, val, d, w) } else Some (ACCESS_ERR, val, d, w)
   })"

definition virtio_device_new :: "DeviceID \<Rightarrow> u16 \<Rightarrow> u16 \<Rightarrow> u64 \<Rightarrow> u8 list \<Rightarrow> virtio_device" where
  "virtio_device_new i irq num feature config =
     \<lparr>vd_state = device_state_new num VENDOR_ID (ucast (device_id_num i)) feature config, vd_iommu = iommu_new,
      vd_irq = irq, vd_calls = []\<rparr>"

end
