(* ===== verification/VirtioMmioProps.thy ===== *)
theory VirtioMmioProps
  imports VirtioMmio
begin

text \<open>
  The theorems on the shared part of virtio devices: the translation of the virtual IOMMU, the
  registers of the MMIO transport, the construction of a queue, and the interrupt line.
\<close>

subsection \<open>The virtual IOMMU\<close>

definition iommu_ok :: "iommu \<Rightarrow> bool" where
  "iommu_ok s \<longleftrightarrow> rm_invar (io_mappings s) \<and> (\<forall>n \<in> set (io_mappings s). n = io_mapping_node (snd n))"

abbreviation im_range :: "io_mapping \<Rightarrow> range" where "im_range m \<equiv> fst (io_mapping_node m)"

definition translation :: "io_mapping \<Rightarrow> u64 \<Rightarrow> u64" where
  "translation m a = a - im_va m + im_pa m"

lemma iommu_ok_new: "iommu_ok iommu_new"
  by (simp add: iommu_ok_def iommu_new_def rm_invar_def)

lemma iommu_ok_empty: "iommu_ok (iommu_reset s)" "iommu_ok (iommu_detach s)"
  by (simp_all add: iommu_ok_def iommu_reset_def iommu_detach_def remove_all_mappings_def rm_clear_def rm_invar_def)

lemma iommu_ok_map: "iommu_ok s \<Longrightarrow> range_ok (im_range m) \<Longrightarrow> iommu_ok (snd (iommu_map alloc m s))"
  using rm.ins_invar [of "io_mappings s" "io_mapping_node m"] rm.ins_nodes [of "io_mappings s" "io_mapping_node m"]
  by (auto simp: iommu_ok_def iommu_map_def io_mapping_node_def split: if_splits)

lemma iommu_ok_unmap: "iommu_ok s \<Longrightarrow> iommu_ok (snd (iommu_unmap m s))"
  using rm.rem_invar [of "io_mappings s" "im_range m"] rm.rem_nodes [of "io_mappings s" "im_range m"]
  by (auto simp: iommu_ok_def iommu_unmap_def io_mapping_node_def)

text \<open>
  The virtual IOMMU translates an access by the mapping that it overlaps, and refuses exactly
  the accesses that overlap none. The access need not lie inside the mapping: its begin is
  translated by the mapping even if the access starts before it or reaches beyond its end.
\<close>

theorem iommu_translates_overlap:
  assumes "iommu_ok s" "range_ok \<lparr>r_begin = a, r_size = n\<rparr>"
  shows "(\<exists>m. io_mapping_node m \<in> set (io_mappings s) \<and> range_intersect (im_range m) \<lparr>r_begin = a, r_size = n\<rparr> \<and>
            translate_io s a n = translation m a) \<or>
         (\<forall>m. io_mapping_node m \<in> set (io_mappings s) \<longrightarrow> \<not> range_intersect (im_range m) \<lparr>r_begin = a, r_size = n\<rparr>) \<and>
            translate_io s a n = - 1"
proof (cases "rm_lookup (io_mappings s) \<lparr>r_begin = a, r_size = n\<rparr>")
  case None
  then have "\<forall>x \<in> set (io_mappings s). \<not> range_intersect (fst x) \<lparr>r_begin = a, r_size = n\<rparr>"
    using rm.find_None [OF _ assms(2) None] assms(1) by (auto simp: iommu_ok_def)
  then show ?thesis using None by (auto simp: translate_io_def)
next
  case (Some x)
  then have x: "x \<in> set (io_mappings s)" "range_intersect (fst x) \<lparr>r_begin = a, r_size = n\<rparr>"
    using rm.find_Some [OF _ assms(2) Some] assms(1) by (auto simp: iommu_ok_def)
  then have e: "io_mapping_node (snd x) = x" using assms(1) by (auto simp: iommu_ok_def)
  have "translate_io s a n = translation (snd x) a" using Some by (simp add: translate_io_def translation_def)
  then show ?thesis using x by (intro disjI1 exI [of _ "snd x"]) (simp only: e simp_thms)
qed

definition demo_mapping :: io_mapping where
  "demo_mapping = \<lparr>im_va = 0x10000, im_pa = 0x80000, im_sz = 0x1000, im_flags = IO_READ\<rparr>"

text \<open>An access of 0x20 bytes that starts 0x10 bytes before the end of the only mapping.\<close>

theorem iommu_translates_overlap_witness:
  "translate_io (snd (iommu_map True demo_mapping iommu_new)) 0x10ff0 0x20 = 0x80ff0"
proof -
  let ?s = "snd (iommu_map True demo_mapping iommu_new)"
  have s: "io_mappings ?s = [io_mapping_node demo_mapping]" by (simp add: iommu_map_def iommu_new_def)
  have i: "range_intersect (im_range demo_mapping) \<lparr>r_begin = 0x10ff0, r_size = 0x20\<rparr>"
    by (simp add: range_intersect_def range_end_def range_empty_def io_mapping_node_def demo_mapping_def word_less_nat_alt)
  have "iommu_ok ?s"
    by (rule iommu_ok_map [OF iommu_ok_new]) (simp add: range_ok_def io_mapping_node_def demo_mapping_def)
  moreover have "range_ok \<lparr>r_begin = 0x10ff0, r_size = 0x20\<rparr>" by (simp add: range_ok_def)
  ultimately obtain m where "io_mapping_node m = io_mapping_node demo_mapping" "translate_io ?s 0x10ff0 0x20 = translation m 0x10ff0"
    using iommu_translates_overlap [of ?s "0x10ff0" "0x20"] i s by auto
  then show ?thesis by (simp add: io_mapping_node_def translation_def demo_mapping_def)
qed

lemma rm_lookup_insert_other:
  assumes "rm_invar ms" "range_ok (fst n)" "range_ok r" "\<not> range_intersect (fst n) r"
  shows "rm_lookup (fst (rm_insert ms n)) r = rm_lookup ms r"
  using assms
proof (induction ms n rule: rm_insert.induct)
  case (1 n)
  then show ?case by (auto dest: range_compare_total)
next
  case (2 m ms n)
  then have m: "range_ok (fst m)" "rm_invar ms" by (simp_all add: rm_invar_Cons)
  show ?case
  proof (cases "range_compare (fst m) (fst n)")
    case True
    then show ?thesis using 2 m by (cases "rm_insert ms n") simp
  next
    case False
    have "range_compare r (fst m) \<and> \<not> range_compare (fst m) r" if "range_compare (fst n) (fst m)" "\<not> range_compare (fst n) r"
    proof -
      have "range_compare r (fst n)" using that(2) 2(3-5) range_compare_total by blast
      then have c: "range_compare r (fst m)" using range_compare_trans [OF 2(4,3) m(1)] that(1) by blast
      then show ?thesis using m(1) 2(4) by (auto simp: range_compare_iff range_ok_def)
    qed
    moreover have "range_compare (fst n) r \<or> range_compare r (fst n)" using 2(3-5) 2 range_compare_total by blast
    ultimately show ?thesis using False by auto
  qed
qed

text \<open>
  A mapping that overlaps no other one and is added with \<open>map\<close> translates every access inside
  it to the same offset from its physical address and changes the translation of no access that does
  not overlap it; after \<open>unmap\<close> of the mapping the accesses inside it are refused.
\<close>

theorem iommu_map_unmap:
  assumes "iommu_ok s" "range_ok (im_range m)" "\<forall>n \<in> set (io_mappings s). \<not> range_intersect (fst n) (im_range m)"
    and "range_ok \<lparr>r_begin = a, r_size = n\<rparr>"
  shows "let s1 = snd (iommu_map True m s); s2 = snd (iommu_unmap m s1) in
     iommu_ok s1 \<and> iommu_ok s2 \<and>
     (range_contains (im_range m) \<lparr>r_begin = a, r_size = n\<rparr> \<longrightarrow>
        translate_io s1 a n = im_pa m + (a - im_va m) \<and> translate_io s2 a n = - 1) \<and>
     (\<not> range_intersect (im_range m) \<lparr>r_begin = a, r_size = n\<rparr> \<longrightarrow> translate_io s1 a n = translate_io s a n)"
proof -
  let ?k = "\<lparr>r_begin = a, r_size = n\<rparr>"
  let ?s1 = "snd (iommu_map True m s)" and ?s2 = "snd (iommu_unmap m (snd (iommu_map True m s)))"
  have inv: "rm_invar (io_mappings s)" using assms(1) by (simp add: iommu_ok_def)
  have ok: "iommu_ok ?s1" "iommu_ok ?s2" by (simp_all add: iommu_ok_map iommu_ok_unmap assms(1,2))
  have ins: "snd (rm_insert (io_mappings s) (io_mapping_node m))"
    using rm.ins_iff [OF inv assms(2)] assms(3) by blast
  have s1: "io_mappings ?s1 = fst (rm_insert (io_mappings s) (io_mapping_node m))" by (simp add: iommu_map_def)
  have s2: "io_mappings ?s2 = fst (rm_remove (io_mappings ?s1) (im_range m))" by (simp add: iommu_unmap_def io_mapping_node_def)
  have f: "rm_lookup (io_mappings ?s1) r = Some (io_mapping_node m)" if "range_ok r" "range_contains (im_range m) r" for r
    unfolding s1 using rm.find_inserted [OF inv assms(2) ins that] .
  have self: "range_contains (im_range m) (im_range m)" using range_contains_addrs assms(2) by simp
  have "translate_io ?s1 a n = im_pa m + (a - im_va m) \<and> translate_io ?s2 a n = - 1" if c: "range_contains (im_range m) ?k"
  proof -
    have "rm_lookup (io_mappings ?s2) ?k = None"
      unfolding s2 using rm.find_removed [OF _ assms(2) f [OF assms(2) self] assms(4) c] ok(1) by (simp add: iommu_ok_def)
    then show ?thesis using f [OF assms(4) c] by (simp add: translate_io_def io_mapping_node_def)
  qed
  moreover have "translate_io ?s1 a n = translate_io s a n" if c: "\<not> range_intersect (im_range m) ?k"
    unfolding translate_io_def s1 using rm_lookup_insert_other [OF inv assms(2,4) c] by simp
  ultimately show ?thesis using ok by (simp add: Let_def)
qed

theorem iommu_map_unmap_witness:
  "translate_io (snd (iommu_map True demo_mapping iommu_new)) 0x10010 0x20 = 0x80010 \<and>
   translate_io (snd (iommu_unmap demo_mapping (snd (iommu_map True demo_mapping iommu_new)))) 0x10010 0x20 = - 1"
proof -
  have c: "range_contains (im_range demo_mapping) \<lparr>r_begin = 0x10010, r_size = 0x20\<rparr>"
    by (simp add: range_contains_def range_contains_val_def range_last_def range_end_def range_empty_def io_mapping_node_def
        demo_mapping_def word_le_nat_alt word_less_nat_alt)
  have "range_ok (im_range demo_mapping)" "range_ok \<lparr>r_begin = 0x10010, r_size = 0x20\<rparr>"
    by (simp_all add: range_ok_def io_mapping_node_def demo_mapping_def)
  from iommu_map_unmap [OF iommu_ok_new this(1) _ this(2)] c show ?thesis
    by (simp add: Let_def iommu_new_def demo_mapping_def)
qed

subsection \<open>Registers\<close>

lemma at_reg_place:
  assumes "at_reg reg off" "reg \<le> 0xfc"
  shows "unat (off - ucast reg) \<le> 3" "off = ucast reg + of_nat (unat (off - ucast reg))"
    "ucast (reg + 3 + 1) < off + ucast bytes \<longleftrightarrow> 4 < unat (off - ucast reg) + unat (bytes :: u8)"
proof -
  have r: "unat reg \<le> 252" using assms(2) by (simp add: word_le_nat_alt)
  have u: "unat (ucast reg + 3 :: u64) = unat reg + 3" "unat (ucast reg :: u64) = unat reg" "unat (ucast (reg + 3 + 1) :: u64) = unat reg + 4"
    using r by (simp_all add: unat_word_ariths unsigned_ucast_eq take_bit_nat_eq_self)
  have o: "unat reg \<le> unat off" "unat off \<le> unat reg + 3" using assms(1) u by (simp_all add: at_reg_def word_le_nat_alt)
  then have d: "unat (off - ucast reg) = unat off - unat reg" using u(2) by (simp add: unat_minus_le word_le_nat_alt)
  show "unat (off - ucast reg) \<le> 3" using d o by simp
  show "off = ucast reg + of_nat (unat (off - ucast reg))" by simp
  have b: "unat bytes < 256" using unsigned_less [of bytes, where 'a = nat] by simp
  then have "unat (off + ucast bytes) = unat off + unat bytes"
    using o r by (simp add: unat_word_ariths unsigned_ucast_eq)
  then show "ucast (reg + 3 + 1) < off + ucast bytes \<longleftrightarrow> 4 < unat (off - ucast reg) + unat bytes"
    using u d o by (simp add: word_less_nat_alt) linarith
qed

lemma reg_write_ok:
  assumes "at_reg reg off" "reg \<le> 0xfc"
  shows "fst (reg_write reg off bytes val old) \<longleftrightarrow> bytes \<noteq> 0 \<and> unat (off - ucast reg) + unat bytes \<le> 4"
  using at_reg_place(1) [OF assms] at_reg_place(3) [OF assms, of bytes] by (auto simp: reg_write_def virtio_write_register_def Let_def word_less_nat_alt)

lemma reg_write_bits:
  assumes "at_reg reg off" "reg \<le> 0xfc" "fst (reg_write reg off bytes val old)" "k < 32"
  shows "bit (snd (reg_write reg off bytes val old)) k \<longleftrightarrow>
    (if 8 * unat (off - ucast reg) \<le> k \<and> k < 8 * (unat (off - ucast reg) + unat bytes) then bit val (k - 8 * unat (off - ucast reg))
     else bit old k)"
proof -
  let ?i = "unat (off - ucast reg)"
  note ok = assms(3) [unfolded reg_write_ok [OF assms(1,2)]]
  have g: "\<not> (bytes = 0 \<or> 4 < bytes \<or> ucast (reg + 3 + 1) < off + ucast bytes)"
    using ok at_reg_place(3) [OF assms(1,2), of bytes] by (auto simp: word_less_nat_alt)
  note w = reg_write_def virtio_write_register_def Let_def if_not_P [OF g] option.case snd_conv
  show ?thesis
  proof (cases "4 \<le> bytes")
    case True
    then have "?i = 0" "unat bytes = 4" using ok by (auto simp: word_le_nat_alt)
    then show ?thesis using assms(4) by (simp only: w if_P [OF True]) (simp add: bit_simps)
  next
    case False
    then show ?thesis using assms(4)
      by (simp only: w if_not_P [OF False]) (auto simp: bit_simps)
  qed
qed

lemma reg_read_bits:
  assumes "at_reg reg off" "reg \<le> 0xfc" "bytes \<noteq> 0" "unat (off - ucast reg) + unat bytes \<le> 4"
  shows "fst (reg_read reg off bytes v val)"
    "bit (snd (reg_read reg off bytes v val)) k \<longleftrightarrow> k < 8 * unat bytes \<and> bit v (8 * unat (off - ucast reg) + k)"
proof -
  have g: "\<not> (bytes = 0 \<or> 8 < bytes \<or> ucast (reg + 3 + 1) < off + ucast bytes)" "\<not> 8 \<le> bytes"
    using assms(3,4) at_reg_place(3) [OF assms(1,2), of bytes] by (auto simp: word_less_nat_alt word_le_nat_alt)
  then show "fst (reg_read reg off bytes v val)" by (simp add: reg_read_def virtio_read_register_def Let_def)
  have "8 * unat (off - ucast reg) + k < 64" if "k < 8 * unat bytes" using that assms(4) by simp
  then show "bit (snd (reg_read reg off bytes v val)) k \<longleftrightarrow> k < 8 * unat bytes \<and> bit v (8 * unat (off - ucast reg) + k)"
    using g by (auto simp: reg_read_def virtio_read_register_def Let_def bit_simps add.commute)
qed

lemma reg_write_read:
  assumes "at_reg reg off" "reg \<le> 0xfc" "fst (reg_write reg off bytes val old)"
  shows "reg_read reg off bytes (ucast (snd (reg_write reg off bytes val old))) x = (True, take_bit (8 * unat bytes) val)"
proof -
  note ok = assms(3) [unfolded reg_write_ok [OF assms(1,2)]]
  let ?v = "ucast (snd (reg_write reg off bytes val old)) :: u64"
  have "snd (reg_read reg off bytes ?v x) = take_bit (8 * unat bytes) val"
  proof (rule bit_eqI)
    fix k
    show "bit (snd (reg_read reg off bytes ?v x)) k \<longleftrightarrow> bit (take_bit (8 * unat bytes) val) k"
      using ok reg_read_bits(2) [OF assms(1,2), of bytes ?v x k]
        reg_write_bits [OF assms, of "8 * unat (off - ucast reg) + k"] by (auto simp: bit_simps)
  qed
  then show ?thesis using reg_read_bits(1) [OF assms(1,2), of bytes ?v x] ok by (metis prod.collapse)
qed

text \<open>The states in which the registers and the arrays fit together.\<close>

definition ds_ok :: "device_state \<Rightarrow> bool" where
  "ds_ok s \<longleftrightarrow> length (qdata s) = QUEUES_MAX \<and> length (queues s) = QUEUES_MAX \<and> unat (sel_queue s) < QUEUES_MAX \<and>
     (\<forall>d \<in> set (qdata s). unat (qd_num d) \<le> unat (queue_num_max s)) \<and> length (config_space s) = unat (config_size s)"

text \<open>Accesses to the queue selector and to the queue size that are not made with the whole word.\<close>

definition word_access :: "u64 \<Rightarrow> u8 \<Rightarrow> bool" where
  "word_access off sz \<longleftrightarrow>
     (at_reg WO_QUEUE_SEL off \<longrightarrow> off = ucast WO_QUEUE_SEL) \<and> (at_reg WO_QUEUE_NUM off \<longrightarrow> off = ucast WO_QUEUE_NUM \<and> sz = 4)"

lemma ds_ok_new: "unat (of_nat (length c) :: u32) = length c \<Longrightarrow> ds_ok (device_state_new n v i f c)"
  by (simp add: ds_ok_def device_state_new_def queue_data_new_def unsigned_ucast_eq take_bit_nat_eq_self)

lemma ds_ok_selected: "ds_ok s \<Longrightarrow> selected_queue_data s = Some (qdata s ! unat (sel_queue s))"
  by (simp add: ds_ok_def selected_queue_data_def nth_opt_def)

lemma config_offset:
  assumes "RW_CONFIG \<le> off" "off \<le> RW_CONFIG_END" "bytes \<le> 4" "\<not> ucast (n :: u32) < (off - RW_CONFIG) + ucast (bytes :: u8)"
  shows "unat (off - RW_CONFIG) + unat bytes \<le> unat n"
proof -
  have o: "unat (off - RW_CONFIG) \<le> 0x63" using assms(1,2) by (simp add: unat_minus_le word_le_nat_alt)
  have b: "unat bytes \<le> 4" using assms(3) by (simp add: word_le_nat_alt)
  have "unat (off - RW_CONFIG + ucast bytes) = unat (off - RW_CONFIG) + unat bytes"
    using o b by (simp add: unat_word_ariths(1) unsigned_ucast_eq)
  then show ?thesis using assms(4) by (simp add: word_less_nat_alt unsigned_ucast_eq)
qed

lemma mmio_read_total: "ds_ok s \<Longrightarrow> mmio_read off bytes val s \<noteq> None"
  using config_offset [of off bytes "config_size s"]
  by (simp add: mmio_read_def config_space_read_def ds_ok_selected Let_def del: not_None_eq) (simp add: ds_ok_def del: not_None_eq)

text \<open>A result that is there and keeps the invariant.\<close>

abbreviation keeps_ok :: "(bool \<times> device_state) option \<Rightarrow> bool" where
  "keeps_ok r \<equiv> (case r of None \<Rightarrow> False | Some x \<Rightarrow> ds_ok (snd x))"

lemma queue_reg_write_total:
  assumes "ds_ok s" "v = snd (reg_write reg off bytes val (get (qdata s ! unat (sel_queue s))))"
    and "unat (qd_num (put v (qdata s ! unat (sel_queue s)))) \<le> unat (queue_num_max s)"
  shows "keeps_ok (queue_reg_write reg get put off bytes val s)"
  using assms by (simp add: queue_reg_write_def ds_ok_selected split_beta Let_def)
    (auto simp: ds_ok_def dest!: set_update_subset_insert [THEN subsetD])

lemma selected_num: "ds_ok s \<Longrightarrow> unat (qd_num (qdata s ! unat (sel_queue s))) \<le> unat (queue_num_max s)"
  by (simp add: ds_ok_def)

lemma queue_addr_write_total:
  assumes "ds_ok s" "\<And>v d. qd_num (put v d) = qd_num d"
  shows "keeps_ok (queue_addr_write reg get put off bytes val s)"
  using assms queue_reg_write_total [OF assms(1) refl] selected_num [OF assms(1)] by (simp add: queue_addr_write_def)

lemma bit_small: "unat w < 3 \<Longrightarrow> bit w k \<Longrightarrow> k < 2" for w :: "'b::len word"
proof (rule ccontr)
  assume w: "unat w < 3" "bit w k" and "\<not> k < 2"
  then have "(2 :: nat) ^ 2 \<le> 2 ^ k" by (intro power_increasing) simp_all
  then have "unat w div 2 ^ k = 0" using w(1) by simp
  moreover have "bit (unat w) k" using w(2) by (simp add: bit_unsigned_iff)
  ultimately show False by (simp add: bit_iff_odd)
qed

lemma queue_sel_bound:
  assumes "off = ucast WO_QUEUE_SEL" "\<not> of_nat QUEUES_MAX \<le> val" "unat old < QUEUES_MAX"
  shows "unat (snd (reg_write WO_QUEUE_SEL off bytes val old)) < QUEUES_MAX"
proof (cases "fst (reg_write WO_QUEUE_SEL off bytes val old)")
  case False
  then show ?thesis using assms(3) by (simp add: reg_write_def split: option.splits)
next
  case True
  let ?r = "snd (reg_write WO_QUEUE_SEL off bytes val old)"
  have v: "unat val < 3" using assms(2) by (simp add: word_le_nat_alt not_le)
  have at: "at_reg WO_QUEUE_SEL off" using assms(1) by (simp add: at_reg_def)
  have "bytes \<noteq> 0" using True reg_write_ok [OF at] by auto
  then have "0 < unat bytes" by (simp add: unat_gt_0)
  then have "8 \<le> 8 * unat bytes" by simp
  then have "?r = ucast val"
    using reg_write_bits [OF at _ True] bit_small [OF v] bit_small [OF assms(3)] assms(1)
    by (intro bit_word_eqI) (force simp: bit_simps)
  moreover have "unat (ucast val :: u32) = unat val" using v by (simp add: unsigned_ucast_eq take_bit_nat_eq_self)
  ultimately show ?thesis using v by simp
qed

lemma queue_num_bound:
  assumes "off = ucast WO_QUEUE_NUM" "val \<le> ucast (n :: u16)"
  shows "unat (snd (reg_write WO_QUEUE_NUM off 4 val old)) \<le> unat n"
proof -
  have at: "at_reg WO_QUEUE_NUM off" using assms(1) by (simp add: at_reg_def)
  have ok: "fst (reg_write WO_QUEUE_NUM off 4 val old)" using reg_write_ok [OF at] assms(1) by simp
  have "snd (reg_write WO_QUEUE_NUM off 4 val old) = ucast val"
    using reg_write_bits [OF at _ ok] assms(1) by (intro bit_word_eqI) (simp add: bit_simps)
  moreover have "unat val \<le> unat n" using assms(2) by (simp add: word_le_nat_alt unsigned_ucast_eq)
  moreover have "unat n < 2 ^ 16" using unsigned_less [of n, where 'a = nat] by simp
  ultimately show ?thesis by (simp add: unsigned_ucast_eq take_bit_nat_eq_self)
qed

lemma ds_ok_fields [simp]:
  "ds_ok (s\<lparr>drv_device_sel := v\<rparr>) = ds_ok s" "ds_ok (s\<lparr>drv_feature_lower := v\<rparr>) = ds_ok s"
  "ds_ok (s\<lparr>drv_feature_upper := v\<rparr>) = ds_ok s" "ds_ok (s\<lparr>drv_feature_sel := v\<rparr>) = ds_ok s"
  "ds_ok (s\<lparr>construct_queue := b\<rparr>) = ds_ok s" "ds_ok (s\<lparr>irq_acknowledged := b\<rparr>) = ds_ok s"
  "ds_ok (s\<lparr>status_changed := b, status := v\<rparr>) = ds_ok s" "ds_ok (s\<lparr>ds_notify := b, notify_val := v\<rparr>) = ds_ok s"
  "ds_ok (s\<lparr>ds_notify := b\<rparr>) = ds_ok s" "ds_ok (s\<lparr>status_changed := b\<rparr>) = ds_ok s" "ds_ok (s\<lparr>irq_status := v\<rparr>) = ds_ok s"
  by (simp_all add: ds_ok_def)

lemma config_write_total:
  assumes "ds_ok s" "RW_CONFIG \<le> off" "off \<le> RW_CONFIG_END" "bytes \<le> 4"
  shows "keeps_ok (config_space_write off RW_CONFIG bytes val s)"
  using assms config_offset [OF assms(2-4), of "config_size s"]
  by (simp add: config_space_write_def Let_def) (simp add: ds_ok_def)

lemma mmio_write_total:
  assumes ok: "ds_ok s" and word: "word_access off bytes"
  shows "keeps_ok (mmio_write off bytes val s)"
proof -
  have 1: "keeps_ok (queue_reg_write WO_QUEUE_NUM qd_num (\<lambda>v. qd_num_update (\<lambda>_. v)) off bytes val s)"
    if "at_reg WO_QUEUE_NUM off" "\<not> ucast (queue_num_max s) < val"
    using that queue_num_bound [of off val "queue_num_max s"] word
    by (intro queue_reg_write_total [OF ok refl]) (simp add: word_access_def not_less)
  have 2: "keeps_ok (queue_reg_write RW_QUEUE_READY qd_ready (\<lambda>v. qd_ready_update (\<lambda>_. v)) off bytes val s)"
    by (intro queue_reg_write_total [OF ok refl]) (simp add: selected_num [OF ok])
  then have 2: "keeps_ok (do {
        (ok, s) \<leftarrow> queue_reg_write RW_QUEUE_READY qd_ready (\<lambda>v. qd_ready_update (\<lambda>_. v)) off bytes val s;
        Some (if ok then (True, s\<lparr>construct_queue := True\<rparr>) else (False, s))
      })"
    by (auto split: option.splits if_splits)
  have 3: "ds_ok (s\<lparr>sel_queue := snd (reg_write WO_QUEUE_SEL off bytes val (sel_queue s))\<rparr>)"
    if "at_reg WO_QUEUE_SEL off" "\<not> of_nat QUEUES_MAX \<le> val"
    using that queue_sel_bound [of off val "sel_queue s" bytes] word ok by (simp add: word_access_def ds_ok_def)
  show ?thesis
    unfolding mmio_write_def
    using ok 1 2 3 config_write_total [OF ok, of off bytes val] queue_addr_write_total [OF ok]
    by (simp add: split_beta Let_def not_less split del: option.split)
qed

text \<open>
  C18: a guest access to the registers of a virtio device neither leaves an array nor breaks the
  invariant of the device state (the selected queue exists, no queue is larger than the device
  offers, the configuration space has its size), if accesses to the queue selector start at its
  first byte and those to the queue size are whole words.
\<close>

theorem mmio_access_safe:
  assumes "ds_ok s" "word_access off sz"
  shows "\<exists>ok v s'. mmio_access a off sz val s = Some (ok, v, s') \<and> ds_ok s'"
proof -
  obtain r where "mmio_write off sz val s = Some r" "ds_ok (snd r)"
    using mmio_write_total [OF assms, of val] by (auto split: option.splits)
  moreover obtain r' where "mmio_read off sz val s = Some r'" using mmio_read_total [OF assms(1)] by blast
  ultimately show ?thesis using assms(1) by (cases r, cases r') (auto simp: mmio_access_def)
qed

definition demo_state :: device_state where
  "demo_state = device_state_new 8 VENDOR_ID 3 0 (replicate 12 0)"

lemma demo_state_ok: "ds_ok demo_state"
  unfolding demo_state_def by (rule ds_ok_new) simp

theorem mmio_access_safe_witness:
  "\<exists>ok v s'. mmio_access WRITE 0x30 4 2 demo_state = Some (ok, v, s') \<and> ds_ok s'"
  using mmio_access_safe [OF demo_state_ok, of "0x30" 4 WRITE 2] by (simp add: word_access_def at_reg_def word_le_nat_alt)

text \<open>
  C19: a one-byte write of 1 or 2 to the second byte of the queue selector is accepted and selects a
  queue that does not exist; the next access to a register of the selected queue, a read of
  \<open>QUEUE_READY\<close> or a write of a size that the device offers, leaves the array.
\<close>

theorem mmio_queue_sel_escapes:
  assumes "ds_ok s" "v \<in> {1, 2}" "\<not> is_driver_ok_state s" "n \<le> ucast (queue_num_max s)"
  shows "\<exists>s'. mmio_access WRITE 0x31 1 v s = Some (True, v, s') \<and> QUEUES_MAX \<le> unat (sel_queue s') \<and>
     mmio_access READ 0x44 4 x s' = None \<and> mmio_access WRITE 0x38 4 n s' = None"
proof -
  let ?r = "reg_write WO_QUEUE_SEL 0x31 1 v (sel_queue s)"
  let ?s = "s\<lparr>sel_queue := snd ?r\<rparr>"
  have at: "at_reg WO_QUEUE_SEL 0x31" by (simp add: at_reg_def word_le_nat_alt)
  have o: "unat (0x31 - ucast WO_QUEUE_SEL :: u64) = 1" by simp
  have ok: "fst ?r" using reg_write_ok [OF at, of 1 v "sel_queue s"] by simp
  have r: "?r = (True, snd ?r)" using ok by (metis prod.collapse)
  have "bit (snd ?r) 8 \<or> bit (snd ?r) 9"
    using assms(2) reg_write_bits [OF at _ ok, of 8] reg_write_bits [OF at _ ok, of 9] o by auto
  then have "\<not> unat (snd ?r) < 3" using bit_small [of "snd ?r" 8] bit_small [of "snd ?r" 9] by auto
  then have big: "QUEUES_MAX \<le> unat (sel_queue ?s)" by simp
  then have sel: "selected_queue_data ?s = None"
    using assms(1) by (simp add: selected_queue_data_def nth_opt_def ds_ok_def)
  have "mmio_access WRITE 0x31 1 v s = Some (True, v, ?s)"
    using assms(2) by (auto simp: mmio_access_def mmio_write_def at_reg_def word_le_nat_alt word_less_nat_alt r [symmetric] split_beta ok)
  moreover have "mmio_access READ 0x44 4 x ?s = None"
    by (simp add: mmio_access_def mmio_read_def at_reg_def word_le_nat_alt word_less_nat_alt sel)
  moreover have "mmio_access WRITE 0x38 4 n ?s = None"
    using assms(3,4)
    by (simp add: mmio_access_def mmio_write_def at_reg_def word_le_nat_alt word_less_nat_alt sel queue_reg_write_def
        is_driver_ok_state_def)
  ultimately show ?thesis using big by blast
qed

theorem mmio_queue_sel_escapes_witness:
  "\<exists>s'. mmio_access WRITE 0x31 1 1 demo_state = Some (True, 1, s') \<and> mmio_access WRITE 0x38 4 8 s' = None"
  using mmio_queue_sel_escapes [OF demo_state_ok, of 1 8]
  by (auto simp: is_driver_ok_state_def demo_state_def device_state_new_def)

text \<open>
  What the driver writes to the readable registers, a read of the same bytes gives back: the
  two feature selectors and the device status, for accesses of every size that stay in the register.
\<close>

theorem mmio_register_roundtrip:
  assumes "reg \<in> {RW_DEVICE_FEATURE_SEL, RW_DRIVER_FEATURE_SEL, RW_STATUS}" "at_reg reg off" "bytes \<noteq> 0"
    and "unat (off - ucast reg) + unat bytes \<le> 4"
  shows "\<exists>s'. mmio_access WRITE off bytes v s = Some (True, v, s') \<and>
     mmio_access READ off bytes x s' = Some (True, take_bit (8 * unat bytes) v, s')"
proof -
  have b: "\<not> 4 < bytes" using assms(4) by (simp add: word_less_nat_alt)
  have r: "reg \<le> 0xfc" using assms(1) by (auto simp: word_le_nat_alt)
  have ok: "fst (reg_write reg off bytes v old)" for old using reg_write_ok [OF assms(2) r] assms(3,4) by simp
  note rd = reg_write_read [OF assms(2) r ok]
  have m: "4 \<le> reg \<Longrightarrow> unat (reg - 4) = unat reg - 4" by (simp add: unat_minus_le)
  have other: "at_reg r' off \<longleftrightarrow> False" if "r' \<le> reg - 4 \<and> 4 \<le> reg \<or> reg + 4 \<le> r'" "r' \<le> 0xfc" for r'
    using assms(2) that r m
    by (auto simp: at_reg_def word_le_nat_alt unat_word_ariths unsigned_ucast_eq take_bit_nat_eq_self)
  from assms(1) consider (dev) "reg = RW_DEVICE_FEATURE_SEL" | (drv) "reg = RW_DRIVER_FEATURE_SEL" | (st) "reg = RW_STATUS" by auto
  then show ?thesis
  proof cases
    case dev
    then show ?thesis using assms(2) b ok rd other by (simp add: mmio_access_def mmio_write_def mmio_read_def split_beta word_le_nat_alt)
  next
    case drv
    then show ?thesis using assms(2) b ok rd other by (simp add: mmio_access_def mmio_write_def mmio_read_def split_beta word_le_nat_alt)
  next
    case st
    then show ?thesis using assms(2) b ok rd other by (simp add: mmio_access_def mmio_write_def mmio_read_def split_beta word_le_nat_alt)
  qed
qed

theorem mmio_register_roundtrip_witness:
  "\<exists>s'. mmio_access WRITE 0x71 2 0x12345 demo_state = Some (True, 0x12345, s') \<and>
     mmio_access READ 0x71 2 0 s' = Some (True, 0x2345, s')"
  using mmio_register_roundtrip [of RW_STATUS "0x71" 2 "0x12345" demo_state 0] by (simp add: at_reg_def word_le_nat_alt)

subsection \<open>Construction of a queue\<close>

text \<open>
  The construction of a queue is all or nothing. It leaves the queue unconstructed with no
  mapping recorded, or the queue is constructed on three non-null mappings of the areas that the
  driver gave, with a valid number of descriptors and both counters at the start; a number of
  descriptors that is not valid changes nothing.
\<close>

theorem queue_construct_all_or_nothing:
  assumes "queue_construct e use_io io d (queue_state_new, w) = Some (qs, w')"
  shows "qs = queue_state_new \<or>
     (constructed qs \<and> queue_num_descs qs = ucast (qd_num d) \<and> is_size_valid (queue_num_descs qs) \<and>
      desc_addr qs \<noteq> 0 \<and> avail_addr qs \<noteq> 0 \<and> used_addr qs \<noteq> 0 \<and>
      queue_new (desc_addr qs) (avail_addr qs) (used_addr qs) (queue_num_descs qs) = Some (device_queue qs) \<and>
      (\<exists>w1 w2. map_guest_mem e (io_convert io (qd_descr d) (desc_region_bytes (queue_num_descs qs)) use_io)
                 (of_nat (desc_region_bytes (queue_num_descs qs))) True w = Some (desc_addr qs, w1) \<and>
         map_guest_mem e (io_convert io (qd_driver d) (avail_region_bytes (queue_num_descs qs)) use_io)
                 (of_nat (avail_region_bytes (queue_num_descs qs))) True w1 = Some (avail_addr qs, w2) \<and>
         map_guest_mem e (io_convert io (qd_device d) (used_region_bytes (queue_num_descs qs)) use_io)
                 (of_nat (used_region_bytes (queue_num_descs qs))) True w2 = Some (used_addr qs, w')))"
proof -
  have d: "queue_destruct e s = Some (r, w'') \<Longrightarrow> r = queue_state_new" for s r w''
    by (auto simp: queue_destruct_def bind_eq_Some_conv split_def)
  show ?thesis
    using assms
    by (auto simp: queue_construct_def Let_def bind_eq_Some_conv dest: d split: if_splits)
qed

text \<open>A host that maps the memory object of the demonstration space at 0x70000.\<close>

definition mapping_env :: "(nat, unit) as_env" where
  "mapping_env = demo_env\<lparr>env_host := \<lparr>page_size = 0x1000, host_mmap = \<lambda>_ _ _ _ w. (Some 0x70000, w),
     host_munmap = \<lambda>_ _ w. (True, w)\<rparr>\<rparr>"

definition demo_queue_data :: queue_data where
  "demo_queue_data = (queue_data_new 2)\<lparr>descr_low := 0x1000, driver_low := 0x1040, device_low := 0x1080\<rparr>"

lemma mapping_env_maps:
  assumes "a \<in> {0x1000, 0x1040, 0x1080}" "n \<in> {32, 10, 22}"
  shows "map_guest_mem mapping_env a n True w = Some (0x70000 + (a - 0x1000), w)"
  using assms
  by (auto simp: map_guest_mem_def mapping_env_def get_as_device_at_def get_device_at_def demo_env_def demo_bus_devices
      bus_lookup_def range_compare_def range_intersect_def range_end_def range_empty_def range_less_def word_le_nat_alt
      word_less_nat_alt demo_as_def simple_as_new_def posix_cred_def map_view_def map_mem_def align_mmap_def align_dn_def)

theorem queue_construct_all_or_nothing_witness:
  "\<exists>qs w'. queue_construct mapping_env False iommu_new demo_queue_data (queue_state_new, (demo_mem, ())) = Some (qs, w') \<and>
     constructed qs \<and> queue_new 0x70000 0x70040 0x70080 2 = Some (device_queue qs)"
proof -
  have f: "qd_num demo_queue_data = 2" "qd_descr demo_queue_data = 0x1000" "qd_driver demo_queue_data = 0x1040"
    "qd_device demo_queue_data = 0x1080"
    by (simp_all add: demo_queue_data_def queue_data_new_def qd_descr_def qd_driver_def qd_device_def combine_low_high_def)
  have s: "is_size_valid 2" "desc_region_bytes 2 = 32" "avail_region_bytes 2 = 10" "used_region_bytes 2 = 22"
    by (simp_all add: is_size_valid_def desc_region_bytes_def avail_region_bytes_def used_region_bytes_def word_le_nat_alt)
  obtain qs w' where q: "queue_construct mapping_env False iommu_new demo_queue_data (queue_state_new, (demo_mem, ())) = Some (qs, w')"
    "qs \<noteq> queue_state_new" "desc_addr qs = 0x70000" "avail_addr qs = 0x70040" "used_addr qs = 0x70080" "queue_num_descs qs = 2"
    by (simp add: queue_construct_def f s io_convert_def gpa_invalid_def mapping_env_maps queue_state_new_def queue_new_def Let_def)
  have "constructed qs \<and> queue_new 0x70000 0x70040 0x70080 2 = Some (device_queue qs)"
    using queue_construct_all_or_nothing [OF q(1)] q(2-) by auto
  then show ?thesis using q(1) by blast
qed

subsection \<open>The interrupt line\<close>

definition line_up :: "'a virtio_device_scheme \<Rightarrow> bool" where
  "line_up d \<longleftrightarrow> vd_calls d \<noteq> [] \<and> last (vd_calls d) = Assert_global_line (vd_irq d)"

definition line_agrees :: "'a virtio_device_scheme \<Rightarrow> bool" where
  "line_agrees d \<longleftrightarrow> (line_up d \<longleftrightarrow> irq_status (vd_state d) AND 1 \<noteq> 0)"

lemma or_1_and_1: "(x OR 1) AND 1 = (1 :: u32)" "(x AND NOT 1) AND 1 = (0 :: u32)"
  by (rule bit_eqI, auto simp: bit_simps)+

lemma minus_2_and_1: "(x AND - 2) AND 1 = (0 :: u32)"
proof -
  have "(- 2 :: u32) = NOT 1" by simp
  then show ?thesis by (simp only: or_1_and_1)
qed

lemma assert_agrees: "line_agrees d \<Longrightarrow> line_agrees (assert_queue_interrupt d) \<and> line_up (assert_queue_interrupt d)"
  by (auto simp: assert_queue_interrupt_def line_agrees_def line_up_def or_1_and_1)

lemma deassert_agrees: "line_agrees (deassert_queue_interrupt d)" "\<not> line_up (deassert_queue_interrupt d)"
  by (auto simp: deassert_queue_interrupt_def line_agrees_def line_up_def minus_2_and_1)

lemma queue_reg_write_irq: "queue_reg_write reg get put off bytes val s = Some (ok, s') \<Longrightarrow> irq_status s' = irq_status s"
  by (auto simp: queue_reg_write_def bind_eq_Some_conv split_beta)

lemma mmio_access_irq: "mmio_access a off sz val s = Some (ok, v, s') \<Longrightarrow> irq_status s' = irq_status s"
  by (auto simp: mmio_access_def mmio_write_def queue_addr_write_def config_space_write_def Let_def bind_eq_Some_conv split_beta
      dest: queue_reg_write_irq split: if_splits)

lemma construct_selected_irq: "construct_selected e u io (s, w) = Some (s', w') \<Longrightarrow>
    irq_status s' = irq_status s \<and> status s' = status s \<and> status_changed s' = status_changed s"
  by (auto simp: construct_selected_def bind_eq_Some_conv split_def split: if_splits)

lemma agrees_cong:
  "irq_status s = irq_status (vd_state d) \<Longrightarrow> line_agrees (d\<lparr>vd_state := s\<rparr>) = line_agrees d"
  "line_up (d\<lparr>vd_state := s\<rparr>) = line_up d"
  by (simp_all add: line_agrees_def line_up_def)

lemma state_reset_irq: "state_reset e (s, w) = Some (s', w') \<Longrightarrow> irq_status s' = 0"
  by (auto simp: state_reset_def bind_eq_Some_conv)

lemma handle_events_agrees:
  assumes "handle_events e vt (d, w) = Some (d', w')" "line_agrees d"
    and "\<not> (status_changed (vd_state d) \<and> status (vd_state d) = DEVICE_RESET \<and> line_up d)"
    and "\<And>n x. line_agrees x \<Longrightarrow> line_agrees (dv_notify vt n x)" "\<And>x. line_agrees x \<Longrightarrow> line_agrees (dv_driver_ok vt x)"
  shows "line_agrees d'"
proof -
  let ?ev1 = "if construct_queue (vd_state d)
     then do { (ds, w) \<leftarrow> construct_selected e (use_io_mappings d) (vd_iommu d) ((vd_state d)\<lparr>construct_queue := False\<rparr>, w);
               Some (d\<lparr>vd_state := ds\<rparr>, w) }
     else Some (d, w)"
  obtain d1 w1 where 1: "?ev1 = Some (d1, w1)" using assms(1) by (auto simp: handle_events_def bind_eq_Some_conv)
  have a1: "line_agrees d1" "line_up d1 = line_up d" "status (vd_state d1) = status (vd_state d)"
    "status_changed (vd_state d1) = status_changed (vd_state d)"
    using 1 assms(2) by (auto simp: bind_eq_Some_conv agrees_cong dest!: construct_selected_irq split: if_splits)
  let ?ev2 = "if status_changed (vd_state d1)
     then let d = d1\<lparr>vd_state := (vd_state d1)\<lparr>status_changed := False\<rparr>\<rparr>
          in if status (vd_state d) = DEVICE_RESET
             then do { (ds, w) \<leftarrow> state_reset e (vd_state d, w1); Some (d\<lparr>vd_state := ds\<rparr>, w) }
             else if status (vd_state d) AND DRIVER_OK \<noteq> 0 then Some (dv_driver_ok vt d, w1)
             else Some (d, w1)
     else Some (d1, w1)"
  obtain d2 w2 where 2: "?ev2 = Some (d2, w2)" using assms(1) 1 by (auto simp: handle_events_def bind_eq_Some_conv)
  have c: "line_agrees (d1\<lparr>vd_state := (vd_state d1)\<lparr>status_changed := False\<rparr>\<rparr>)" using a1(1) by (simp add: agrees_cong)
  have "line_agrees (d1\<lparr>vd_state := s\<rparr>)" if "irq_status s = 0" "\<not> line_up d1" for s
    using that by (simp add: line_agrees_def line_up_def)
  then have a2: "line_agrees d2"
    using 2 a1 assms(3) assms(5) [OF c] c
    by (auto simp: Let_def bind_eq_Some_conv dest: state_reset_irq split: if_splits)
  have d': "d' = (let d = (if irq_acknowledged (vd_state d2)
              then deassert_queue_interrupt (d2\<lparr>vd_state := (vd_state d2)\<lparr>irq_acknowledged := False\<rparr>\<rparr>)
              else d2)
      in if ds_notify (vd_state d) then dv_notify vt (notify_val (vd_state d)) (d\<lparr>vd_state := (vd_state d)\<lparr>ds_notify := False\<rparr>\<rparr>) else d)"
    using assms(1) 1 2 by (simp add: handle_events_def Let_def split: if_splits)
  show ?thesis unfolding d' using a2 assms(4) deassert_agrees(1) by (auto simp: Let_def agrees_cong)
qed

text \<open>
  A guest access keeps the agreement if the functions of the derived class do, unless it resets the
  device while the line is up.
\<close>

definition access_resets :: "vbus_access \<Rightarrow> u64 \<Rightarrow> u8 \<Rightarrow> u64 \<Rightarrow> 'a virtio_device_scheme \<Rightarrow> bool" where
  "access_resets a off sz val d = (case mmio_access a off sz val (vd_state d) of
     None \<Rightarrow> False | Some (ok, _, s) \<Rightarrow> ok \<and> status_changed s \<and> status s = DEVICE_RESET)"

lemma access_agrees:
  assumes "virtio_access e vt a off sz val (d, w) = Some (err, v, d', w')" "line_agrees d"
    and "\<And>n x. line_agrees x \<Longrightarrow> line_agrees (dv_notify vt n x)" "\<And>x. line_agrees x \<Longrightarrow> line_agrees (dv_driver_ok vt x)"
  shows "line_agrees d' \<or> access_resets a off sz val d \<and> line_up d"
proof -
  obtain ok u ds where m: "mmio_access a off sz val (vd_state d) = Some (ok, u, ds)"
    using assms(1) by (auto simp: virtio_access_def bind_eq_Some_conv)
  let ?d = "d\<lparr>vd_state := ds\<rparr>"
  have ag: "line_agrees ?d" "line_up ?d = line_up d" using mmio_access_irq [OF m] assms(2) by (simp_all add: agrees_cong)
  show ?thesis
  proof (cases "ok")
    case False
    then show ?thesis using assms(1) m ag by (simp add: virtio_access_def)
  next
    case True
    then have h: "handle_events e vt (?d, w) = Some (d', w')"
      using assms(1) m by (auto simp: virtio_access_def bind_eq_Some_conv)
    show ?thesis
    proof (cases "status_changed ds \<and> status ds = DEVICE_RESET \<and> line_up d")
      case True
      then show ?thesis using m \<open>ok\<close> by (simp add: access_resets_def)
    next
      case False
      show ?thesis using handle_events_agrees [OF h ag(1)] False ag(2) assms(3,4) by auto
    qed
  qed
qed

text \<open>An acknowledgement lowers the line, if the functions of the derived class leave it alone.\<close>

lemma access_ack_lowers:
  assumes "virtio_access e vt WRITE 0x64 sz val (d, w) = Some (OK, v, d', w')"
    and "\<And>n x. line_up (dv_notify vt n x) = line_up x" "\<And>x. irq_acknowledged (vd_state (dv_driver_ok vt x)) = irq_acknowledged (vd_state x)"
  shows "\<not> line_up d'"
proof -
  have "mmio_write 0x64 sz val (vd_state d) = (if 4 < sz then Some (False, vd_state d) else Some (True, (vd_state d)\<lparr>irq_acknowledged := True\<rparr>))"
    by (simp add: mmio_write_def at_reg_def word_le_nat_alt word_less_nat_alt)
  then have m: "handle_events e vt (d\<lparr>vd_state := (vd_state d)\<lparr>irq_acknowledged := True\<rparr>\<rparr>, w) = Some (d', w')"
    using assms(1) by (auto simp: virtio_access_def mmio_access_def bind_eq_Some_conv split: if_splits)
  let ?d = "d\<lparr>vd_state := (vd_state d)\<lparr>irq_acknowledged := True\<rparr>\<rparr>"
  let ?ev1 = "if construct_queue (vd_state ?d)
     then do { (ds, w) \<leftarrow> construct_selected e (use_io_mappings ?d) (vd_iommu ?d) ((vd_state ?d)\<lparr>construct_queue := False\<rparr>, w);
               Some (?d\<lparr>vd_state := ds\<rparr>, w) }
     else Some (?d, w)"
  obtain d1 w1 where 1: "?ev1 = Some (d1, w1)" using m by (auto simp: handle_events_def bind_eq_Some_conv)
  have a1: "irq_acknowledged (vd_state d1)"
    using 1 by (auto simp: construct_selected_def bind_eq_Some_conv split_def split: if_splits)
  let ?ev2 = "if status_changed (vd_state d1)
     then let d = d1\<lparr>vd_state := (vd_state d1)\<lparr>status_changed := False\<rparr>\<rparr>
          in if status (vd_state d) = DEVICE_RESET
             then do { (ds, w) \<leftarrow> state_reset e (vd_state d, w1); Some (d\<lparr>vd_state := ds\<rparr>, w) }
             else if status (vd_state d) AND DRIVER_OK \<noteq> 0 then Some (dv_driver_ok vt d, w1)
             else Some (d, w1)
     else Some (d1, w1)"
  obtain d2 w2 where 2: "?ev2 = Some (d2, w2)" using m 1 by (auto simp: handle_events_def bind_eq_Some_conv)
  have a2: "irq_acknowledged (vd_state d2)"
  proof (cases "status_changed (vd_state d1)")
    case True
    let ?d = "d1\<lparr>vd_state := (vd_state d1)\<lparr>status_changed := False\<rparr>\<rparr>"
    have "irq_acknowledged (vd_state (dv_driver_ok vt ?d))" using a1 assms(3) [of ?d] by simp
    moreover have "irq_acknowledged s'" if "state_reset e (vd_state ?d, w1) = Some (s', w2)" for s'
      using that a1 by (auto simp: state_reset_def bind_eq_Some_conv)
    ultimately show ?thesis using 2 True a1 by (auto simp: Let_def bind_eq_Some_conv simp del: virtio_device.simps split: if_splits)
  qed (use 2 a1 in simp)
  let ?d3 = "deassert_queue_interrupt (d2\<lparr>vd_state := (vd_state d2)\<lparr>irq_acknowledged := False\<rparr>\<rparr>)"
  have "d' = (if ds_notify (vd_state ?d3) then dv_notify vt (notify_val (vd_state ?d3)) (?d3\<lparr>vd_state := (vd_state ?d3)\<lparr>ds_notify := False\<rparr>\<rparr>) else ?d3)"
    using m 1 2 a2 by (simp add: handle_events_def Let_def split: if_splits)
  moreover have "line_up (?d3\<lparr>vd_state := s\<rparr>) = line_up ?d3" for s by (simp add: line_up_def)
  ultimately show ?thesis using assms(2) deassert_agrees(2) by simp
qed

text \<open>A reset by the driver while the line is up.\<close>

lemma virtio_reset_keeps_line:
  assumes "line_up d" "queues (vd_state d) = replicate QUEUES_MAX queue_state_new" "\<not> construct_queue (vd_state d)" "\<not> irq_acknowledged (vd_state d)"
    and "\<not> ds_notify (vd_state d)"
  shows "\<exists>d'. virtio_access e vt WRITE 0x70 4 0 (d, w) = Some (OK, 0, d', w) \<and> line_up d' \<and> irq_status (vd_state d') = 0"
proof -
  let ?w = "reg_write RW_STATUS 0x70 4 0 (status (vd_state d))"
  have at: "at_reg RW_STATUS 0x70" by (simp add: at_reg_def)
  have ok: "fst ?w" using reg_write_ok [OF at] by simp
  have "snd ?w = 0" using reg_write_bits [OF at _ ok] by (intro bit_word_eqI) simp
  then have w: "?w = (True, 0)" using ok by (metis prod.collapse)
  have "mmio_access WRITE 0x70 4 0 (vd_state d) = Some (True, 0, (vd_state d)\<lparr>status_changed := True, status := 0\<rparr>)"
    by (simp add: mmio_access_def mmio_write_def at_reg_def word_le_nat_alt word_less_nat_alt w)
  then show ?thesis
    using assms by (simp add: virtio_access_def handle_events_def Let_def state_reset_def line_up_def numeral_3_eq_3 queue_state_new_def
        queue_destruct_def unmap_area_def)
qed

text \<open>The mapping for a queue does not check that the area lies inside the space: here it ends 24 bytes after it.\<close>

lemma map_guest_mem_beyond:
  "map_guest_mem mapping_env 0x10f8 32 True w = Some (0x700f8, w)" "\<not> is_gpa_valid demo_as 0x10f8 32"
  by (auto simp: map_guest_mem_def mapping_env_def get_as_device_at_def get_device_at_def demo_env_def demo_bus_devices
      bus_lookup_def range_compare_def range_intersect_def range_end_def range_empty_def range_less_def word_le_nat_alt
      word_less_nat_alt demo_as_def simple_as_new_def posix_cred_def map_view_def map_mem_def align_mmap_def align_dn_def
      is_gpa_valid_def range_contains_def range_contains_val_def range_last_def)

end
