(* ===== verification/VirtioDevices.thy ===== *)
theory VirtioDevices
  imports VirtioMmioProps
begin

text \<open>
  The block, network and socket devices (\<open>devices/virtio_block\<close>, \<open>devices/virtio_net\<close>,
  \<open>devices/virtio_sock\<close>): thin front ends that pass what happens to a device to a back end, and their
  configuration spaces. The source files of the three are the same but for the names of the
  classes, so the network and the socket device have the functions of the block device.

  The calls to the back end are recorded in order; what its \<open>map\<close> and \<open>unmap\<close> return is a parameter.
  A device has one signal, whose raises are recorded with the calls.
\<close>

subsection \<open>A device with a back end\<close>

datatype backend_call = Sig | Driver_ok | Device_reset | Shutdown | Attach | Detach | Map io_mapping | Unmap io_mapping

record backed_device = virtio_device +
  callback_set :: bool
  dev_callback_set :: bool
  backend_connected :: bool
  bk_log :: "backend_call list"

definition call_backend :: "backend_call \<Rightarrow> backed_device \<Rightarrow> backed_device" where
  "call_backend c d = (if dev_callback_set d then d\<lparr>bk_log := bk_log d @ [c]\<rparr> else d)"

definition block_notify :: "u32 \<Rightarrow> backed_device \<Rightarrow> backed_device" where
  "block_notify v d = (if backend_connected d then d\<lparr>bk_log := bk_log d @ [Sig]\<rparr> else d)"

definition block_driver_ok :: "backed_device \<Rightarrow> backed_device" where
  "block_driver_ok d = (if callback_set d then d\<lparr>bk_log := bk_log d @ [Driver_ok]\<rparr> else d)"

definition block_signal :: "backed_device \<Rightarrow> backed_device" where
  "block_signal d = (if backend_connected d then assert_queue_interrupt d else d)"

definition block_reset :: "('d, 'x) as_env \<Rightarrow> backed_device \<times> 'x world \<Rightarrow> (backed_device \<times> 'x world) option" where
  "block_reset e s = (case s of (d, w) \<Rightarrow> reset_virtio e (call_backend Device_reset d, w))"

definition block_shutdown :: "backed_device \<Rightarrow> backed_device" where
  "block_shutdown d = call_backend Shutdown d"

definition block_attach :: "backed_device \<Rightarrow> backed_device" where
  "block_attach d = call_backend Attach (d\<lparr>vd_iommu := iommu_attach (vd_iommu d)\<rparr>)"

definition block_detach :: "backed_device \<Rightarrow> backed_device" where
  "block_detach d = call_backend Detach (d\<lparr>vd_iommu := iommu_detach (vd_iommu d)\<rparr>)"

text \<open>\<open>alloc\<close> tells whether there is memory for the mapping, \<open>res\<close> is the back end's result.\<close>

definition block_map :: "bool \<Rightarrow> (io_mapping \<Rightarrow> Errno) \<Rightarrow> io_mapping \<Rightarrow> backed_device \<Rightarrow> Errno \<times> backed_device" where
  "block_map alloc res m d =
     (case iommu_map alloc m (vd_iommu d) of (err, io) \<Rightarrow>
        let d = d\<lparr>vd_iommu := io\<rparr> in
        if err \<noteq> NONE then (err, d)
        else if dev_callback_set d then (res m, call_backend (Map m) d)
        else (NONE, d))"

definition block_unmap :: "(io_mapping \<Rightarrow> Errno) \<Rightarrow> io_mapping \<Rightarrow> backed_device \<Rightarrow> Errno \<times> backed_device" where
  "block_unmap res m d =
     (case iommu_unmap m (vd_iommu d) of (err, io) \<Rightarrow>
        let d = d\<lparr>vd_iommu := io\<rparr> in
        if err \<noteq> NONE then (err, d)
        else if dev_callback_set d then (res m, call_backend (Unmap m) d)
        else (NONE, d))"

definition block_register_callback :: "backed_device \<Rightarrow> backed_device" where
  "block_register_callback d = d\<lparr>callback_set := True, dev_callback_set := True\<rparr>"

definition block_connect :: "backed_device \<Rightarrow> backed_device" where "block_connect d = d\<lparr>backend_connected := True\<rparr>"
definition block_disconnect :: "backed_device \<Rightarrow> backed_device" where "block_disconnect d = d\<lparr>backend_connected := False\<rparr>"

definition block_virtuals :: "backed_device dev_virtuals" where
  "block_virtuals = \<lparr>dv_notify = block_notify, dv_driver_ok = block_driver_ok\<rparr>"

definition backed_device_new :: "DeviceID \<Rightarrow> u16 \<Rightarrow> u16 \<Rightarrow> u64 \<Rightarrow> u8 list \<Rightarrow> backed_device" where
  "backed_device_new i irq num feature config =
     virtio_device.extend (virtio_device_new i irq num feature config)
       \<lparr>callback_set = False, dev_callback_set = False, backend_connected = False, bk_log = []\<rparr>"

subsection \<open>The block device\<close>

definition le_bytes :: "nat \<Rightarrow> 'a::len word \<Rightarrow> u8 list" where
  "le_bytes n v = map (\<lambda>i. ucast (drop_bit (8 * i) v)) [0..<n]"

abbreviation BLK_SIZE_MAX :: u64 where "BLK_SIZE_MAX \<equiv> 2"
abbreviation SEG_MAX :: u64 where "SEG_MAX \<equiv> 4"

record block_config =
  capacity :: u64
  size_max :: u32
  seg_max :: u32
  geo_cylinder :: u16
  geo_heads :: u8
  geo_sectors :: u8
  blk_size :: u32
  top_physical_block_exp :: u8
  top_alignment_offset :: u8
  top_min_io_size :: u16
  top_opt_io_size :: u32
  writeback :: u8
  max_discard_sectors :: u32
  max_discard_seg :: u32
  discard_sector_alignment :: u32
  max_write_zeroes_sectors :: u32
  max_write_zeroes_seg :: u32
  write_zeroes_may_unmap :: u8

text \<open>The packed bytes of \<open>VirtioBlockConfig\<close>; the two reserved fields keep their initial zeros.\<close>

definition block_config_bytes :: "block_config \<Rightarrow> u8 list" where
  "block_config_bytes c =
     le_bytes 8 (capacity c) @ le_bytes 4 (size_max c) @ le_bytes 4 (seg_max c) @ le_bytes 2 (geo_cylinder c) @
     le_bytes 1 (geo_heads c) @ le_bytes 1 (geo_sectors c) @ le_bytes 4 (blk_size c) @ le_bytes 1 (top_physical_block_exp c) @
     le_bytes 1 (top_alignment_offset c) @ le_bytes 2 (top_min_io_size c) @ le_bytes 4 (top_opt_io_size c) @
     le_bytes 1 (writeback c) @ [0, 0, 0] @ le_bytes 4 (max_discard_sectors c) @ le_bytes 4 (max_discard_seg c) @
     le_bytes 4 (discard_sector_alignment c) @ le_bytes 4 (max_write_zeroes_sectors c) @ le_bytes 4 (max_write_zeroes_seg c) @
     le_bytes 1 (write_zeroes_may_unmap c) @ [0, 0, 0]"

definition block_default_features :: u64 where
  "block_default_features = SEG_MAX OR BLK_SIZE_MAX"

definition block_new :: "u16 \<Rightarrow> u16 \<Rightarrow> u64 \<Rightarrow> block_config \<Rightarrow> backed_device" where
  "block_new irq queue_entries feature c = backed_device_new BLOCK irq queue_entries feature (block_config_bytes c)"

subsection \<open>The network device\<close>

text \<open>The MAC address is the low six bytes of a number.\<close>

record net_config =
  net_mac :: u64
  net_mtu :: u16

definition net_config_bytes :: "net_config \<Rightarrow> u8 list" where
  "net_config_bytes c = le_bytes 6 (net_mac c) @ le_bytes 2 (0 :: u16) @ le_bytes 2 (0 :: u16) @ le_bytes 2 (net_mtu c)"

definition net_new :: "u16 \<Rightarrow> u16 \<Rightarrow> u64 \<Rightarrow> net_config \<Rightarrow> backed_device" where
  "net_new irq queue_entries feature c = backed_device_new NET irq queue_entries feature (net_config_bytes c)"

definition net_notify :: "u32 \<Rightarrow> backed_device \<Rightarrow> backed_device" where "net_notify = block_notify"
definition net_driver_ok :: "backed_device \<Rightarrow> backed_device" where "net_driver_ok = block_driver_ok"
definition net_signal :: "backed_device \<Rightarrow> backed_device" where "net_signal = block_signal"
definition net_reset :: "('d, 'x) as_env \<Rightarrow> backed_device \<times> 'x world \<Rightarrow> (backed_device \<times> 'x world) option" where
  "net_reset = block_reset"
definition net_shutdown :: "backed_device \<Rightarrow> backed_device" where "net_shutdown = block_shutdown"
definition net_attach :: "backed_device \<Rightarrow> backed_device" where "net_attach = block_attach"
definition net_detach :: "backed_device \<Rightarrow> backed_device" where "net_detach = block_detach"
definition net_map :: "bool \<Rightarrow> (io_mapping \<Rightarrow> Errno) \<Rightarrow> io_mapping \<Rightarrow> backed_device \<Rightarrow> Errno \<times> backed_device" where
  "net_map = block_map"
definition net_unmap :: "(io_mapping \<Rightarrow> Errno) \<Rightarrow> io_mapping \<Rightarrow> backed_device \<Rightarrow> Errno \<times> backed_device" where
  "net_unmap = block_unmap"

subsection \<open>The socket device\<close>

definition sock_config_bytes :: "u64 \<Rightarrow> u8 list" where
  "sock_config_bytes guest_cid = le_bytes 8 guest_cid"

definition sock_new :: "u16 \<Rightarrow> u16 \<Rightarrow> u64 \<Rightarrow> u64 \<Rightarrow> backed_device" where
  "sock_new irq queue_entries features cid = backed_device_new SOCKET irq queue_entries features (sock_config_bytes cid)"

definition sock_notify :: "u32 \<Rightarrow> backed_device \<Rightarrow> backed_device" where "sock_notify = block_notify"
definition sock_driver_ok :: "backed_device \<Rightarrow> backed_device" where "sock_driver_ok = block_driver_ok"
definition sock_signal :: "backed_device \<Rightarrow> backed_device" where "sock_signal = block_signal"
definition sock_reset :: "('d, 'x) as_env \<Rightarrow> backed_device \<times> 'x world \<Rightarrow> (backed_device \<times> 'x world) option" where
  "sock_reset = block_reset"
definition sock_shutdown :: "backed_device \<Rightarrow> backed_device" where "sock_shutdown = block_shutdown"
definition sock_attach :: "backed_device \<Rightarrow> backed_device" where "sock_attach = block_attach"
definition sock_detach :: "backed_device \<Rightarrow> backed_device" where "sock_detach = block_detach"
definition sock_map :: "bool \<Rightarrow> (io_mapping \<Rightarrow> Errno) \<Rightarrow> io_mapping \<Rightarrow> backed_device \<Rightarrow> Errno \<times> backed_device" where
  "sock_map = block_map"
definition sock_unmap :: "(io_mapping \<Rightarrow> Errno) \<Rightarrow> io_mapping \<Rightarrow> backed_device \<Rightarrow> Errno \<times> backed_device" where
  "sock_unmap = block_unmap"

subsection \<open>The back end's view of the mappings\<close>

text \<open>What can happen to a device after its back end is registered, from the bus, the IOMMU and the back end.\<close>

datatype 'x backed_event =
  Access vbus_access u64 u8 u64
  | Reset_device
  | Shutdown_device
  | Present
  | Attach_device
  | Detach_device
  | Map_device bool "io_mapping \<Rightarrow> Errno" io_mapping
  | Unmap_device "io_mapping \<Rightarrow> Errno" io_mapping
  | Connect
  | Disconnect
  | Signal_guest
  | Memory_changes "'x world"

fun backed_step :: "('d, 'x) as_env \<Rightarrow> 'x backed_event \<Rightarrow> backed_device \<times> 'x world \<Rightarrow> (backed_device \<times> 'x world) option" where
  "backed_step e (Access a off sz v) s = map_option (\<lambda>r. snd (snd r)) (virtio_access e block_virtuals a off sz v s)"
| "backed_step e Reset_device s = block_reset e s"
| "backed_step e Shutdown_device (d, w) = Some (block_shutdown d, w)"
| "backed_step e Present (d, w) = Some (d\<lparr>vd_iommu := iommu_present (vd_iommu d)\<rparr>, w)"
| "backed_step e Attach_device (d, w) = Some (block_attach d, w)"
| "backed_step e Detach_device (d, w) = Some (block_detach d, w)"
| "backed_step e (Map_device al res m) (d, w) = Some (snd (block_map al res m d), w)"
| "backed_step e (Unmap_device res m) (d, w) = Some (snd (block_unmap res m d), w)"
| "backed_step e Connect (d, w) = Some (block_connect d, w)"
| "backed_step e Disconnect (d, w) = Some (block_disconnect d, w)"
| "backed_step e Signal_guest (d, w) = Some (block_signal d, w)"
| "backed_step e (Memory_changes w') (d, w) = Some (d, w')"

text \<open>An IOMMU of its own that the back end keeps from the calls it gets.\<close>

fun replay :: "iommu \<Rightarrow> backend_call list \<Rightarrow> iommu" where
  "replay s [] = s"
| "replay s (Attach # cs) = replay (iommu_attach s) cs"
| "replay s (Detach # cs) = replay (iommu_detach s) cs"
| "replay s (Map m # cs) = replay (snd (iommu_map True m s)) cs"
| "replay s (Unmap m # cs) = replay (snd (iommu_unmap m s)) cs"
| "replay s (Device_reset # cs) = replay (iommu_reset s) cs"
| "replay s (_ # cs) = replay s cs"

definition mirrors :: "backed_device \<Rightarrow> bool" where
  "mirrors d \<longleftrightarrow> (let v = replay iommu_new (bk_log d)
     in attached v = attached (vd_iommu d) \<and> io_mappings v = io_mappings (vd_iommu d))"

lemma replay_append: "replay s (cs @ ds) = replay (replay s cs) ds"
  by (induction s cs rule: replay.induct) simp_all

text \<open>
  What the accesses of a driver keep: a property \<open>P\<close> of the device that the virtual functions keep
  and that depends on the transport's state only by a property \<open>Q\<close> which the operations on that
  state keep.
\<close>

definition state_keeps :: "('d, 'x) as_env \<Rightarrow> (device_state \<Rightarrow> bool) \<Rightarrow> bool" where
  "state_keeps e Q \<longleftrightarrow>
     (\<forall>s v. Q s \<longrightarrow> Q (s\<lparr>construct_queue := False\<rparr>) \<and> Q (s\<lparr>status_changed := False\<rparr>) \<and> Q (s\<lparr>irq_acknowledged := False\<rparr>) \<and>
        Q (s\<lparr>ds_notify := False\<rparr>) \<and> Q (s\<lparr>irq_status := v\<rparr>)) \<and>
     (\<forall>u io s w s' w'. Q s \<longrightarrow> construct_selected e u io (s, w) = Some (s', w') \<longrightarrow> Q s') \<and>
     (\<forall>s w s' w'. Q s \<longrightarrow> state_reset e (s, w) = Some (s', w') \<longrightarrow> Q s')"

lemma state_keepsD:
  assumes "state_keeps e Q" "Q s"
  shows "Q (s\<lparr>construct_queue := False\<rparr>)" "Q (s\<lparr>status_changed := False\<rparr>)" "Q (s\<lparr>irq_acknowledged := False\<rparr>)"
    "Q (s\<lparr>ds_notify := False\<rparr>)" "Q (s\<lparr>irq_status := v\<rparr>)"
    "construct_selected e u io (s, w) = Some (s', w') \<Longrightarrow> Q s'" "state_reset e (s, w) = Some (s', w') \<Longrightarrow> Q s'"
  using assms unfolding state_keeps_def by blast+

lemma handle_events_keeps:
  assumes "handle_events e vt (d, w) = Some (d', w')" "P d" "state_keeps e Q" "\<And>d. P d \<Longrightarrow> Q (vd_state d)"
    and st: "\<And>d s. P d \<Longrightarrow> Q s \<Longrightarrow> P (d\<lparr>vd_state := s\<rparr>)" "\<And>d c. P d \<Longrightarrow> P (d\<lparr>vd_calls := c\<rparr>)"
    and vt: "\<And>n d. P d \<Longrightarrow> P (dv_notify vt n d)" "\<And>d. P d \<Longrightarrow> P (dv_driver_ok vt d)"
  shows "P d'"
proof -
  let ?ev1 = "if construct_queue (vd_state d)
     then do { (ds, w) \<leftarrow> construct_selected e (use_io_mappings d) (vd_iommu d) ((vd_state d)\<lparr>construct_queue := False\<rparr>, w);
               Some (d\<lparr>vd_state := ds\<rparr>, w) }
     else Some (d, w)"
  obtain d1 w1 where 1: "?ev1 = Some (d1, w1)" using assms(1) by (auto simp: handle_events_def bind_eq_Some_conv)
  let ?ev2 = "if status_changed (vd_state d1)
     then let d = d1\<lparr>vd_state := (vd_state d1)\<lparr>status_changed := False\<rparr>\<rparr>
          in if status (vd_state d) = DEVICE_RESET
             then do { (ds, w) \<leftarrow> state_reset e (vd_state d, w1); Some (d\<lparr>vd_state := ds\<rparr>, w) }
             else if status (vd_state d) AND DRIVER_OK \<noteq> 0 then Some (dv_driver_ok vt d, w1)
             else Some (d, w1)
     else Some (d1, w1)"
  obtain d2 w2 where 2: "?ev2 = Some (d2, w2)" using assms(1) 1 by (auto simp: handle_events_def bind_eq_Some_conv)
  have d': "d' = (let d = (if irq_acknowledged (vd_state d2)
              then deassert_queue_interrupt (d2\<lparr>vd_state := (vd_state d2)\<lparr>irq_acknowledged := False\<rparr>\<rparr>)
              else d2)
      in if ds_notify (vd_state d) then dv_notify vt (notify_val (vd_state d)) (d\<lparr>vd_state := (vd_state d)\<lparr>ds_notify := False\<rparr>\<rparr>) else d)"
    using assms(1) 1 2 by (simp add: handle_events_def Let_def split: if_splits)
  note q = state_keepsD [OF assms(3)]
  have keep: "P (d\<lparr>vd_state := (vd_state d)\<lparr>status_changed := False\<rparr>\<rparr>)" "P (d\<lparr>vd_state := (vd_state d)\<lparr>irq_acknowledged := False\<rparr>\<rparr>)"
    "P (d\<lparr>vd_state := (vd_state d)\<lparr>ds_notify := False\<rparr>\<rparr>)" "P (d\<lparr>vd_state := (vd_state d)\<lparr>irq_status := v\<rparr>\<rparr>)"
    if "P d" for d v
    using q(2-5) [OF assms(4) [OF that]] st(1) [OF that] by blast+
  have de: "P (deassert_queue_interrupt d)" if "P d" for d
    using st(2) [OF keep(4) [OF that]] by (simp add: deassert_queue_interrupt_def)
  have "P d1"
  proof (cases "construct_queue (vd_state d)")
    case True
    then obtain ds where c: "construct_selected e (use_io_mappings d) (vd_iommu d) ((vd_state d)\<lparr>construct_queue := False\<rparr>, w) =
        Some (ds, w1)" "d1 = d\<lparr>vd_state := ds\<rparr>"
      using 1 by (auto simp: bind_eq_Some_conv)
    then show ?thesis using st(1) [OF assms(2) q(6) [OF q(1) [OF assms(4) [OF assms(2)]] c(1)]] by simp
  qed (use 1 assms(2) in simp)
  have P2: "P d2"
  proof (cases "status_changed (vd_state d1)")
    case True
    let ?d = "d1\<lparr>vd_state := (vd_state d1)\<lparr>status_changed := False\<rparr>\<rparr>"
    have Pd: "P ?d" by (rule keep(1) [OF \<open>P d1\<close>])
    have "P (?d\<lparr>vd_state := ds\<rparr>)" if "state_reset e (vd_state ?d, w1) = Some (ds, w2)" for ds
      by (rule st(1) [OF Pd q(7) [OF assms(4) [OF Pd] that]])
    then show ?thesis using 2 True Pd vt(2) [OF Pd] by (auto simp: Let_def bind_eq_Some_conv split: if_splits)
  qed (use 2 \<open>P d1\<close> in simp)
  have "P (if irq_acknowledged (vd_state d2)
      then deassert_queue_interrupt (d2\<lparr>vd_state := (vd_state d2)\<lparr>irq_acknowledged := False\<rparr>\<rparr>) else d2)"
    using P2 de [OF keep(2)] by simp
  then show ?thesis unfolding d' using vt(1) keep(3) by (simp add: Let_def)
qed

lemma virtio_access_keeps:
  assumes "virtio_access e vt a off sz v (d, w) = Some (err, v', d', w')" "P d" "state_keeps e Q" "\<And>d. P d \<Longrightarrow> Q (vd_state d)"
    and mmio: "\<And>s ok u s'. Q s \<Longrightarrow> mmio_access a off sz v s = Some (ok, u, s') \<Longrightarrow> Q s'"
    and st: "\<And>d s. P d \<Longrightarrow> Q s \<Longrightarrow> P (d\<lparr>vd_state := s\<rparr>)" "\<And>d c. P d \<Longrightarrow> P (d\<lparr>vd_calls := c\<rparr>)"
    and vt: "\<And>n d. P d \<Longrightarrow> P (dv_notify vt n d)" "\<And>d. P d \<Longrightarrow> P (dv_driver_ok vt d)"
  shows "P d'"
proof -
  obtain ok u ds where m: "mmio_access a off sz v (vd_state d) = Some (ok, u, ds)"
    using assms(1) by (auto simp: virtio_access_def bind_eq_Some_conv)
  then have c: "ok \<Longrightarrow> handle_events e vt (d\<lparr>vd_state := ds\<rparr>, w) = Some (d', w')" "\<not> ok \<Longrightarrow> d' = d\<lparr>vd_state := ds\<rparr>"
    using assms(1) by (auto simp: virtio_access_def bind_eq_Some_conv)
  have P1: "P (d\<lparr>vd_state := ds\<rparr>)" using st(1) [OF assms(2) mmio [OF assms(4) [OF assms(2)] m]] .
  show ?thesis
  proof (cases ok)
    case True
    show ?thesis by (rule handle_events_keeps [where P = P, OF c(1) [OF True] P1 assms(3,4) st vt])
  qed (use c(2) P1 in simp)
qed

lemma state_keeps_True: "state_keeps e (\<lambda>_. True)"
  by (simp add: state_keeps_def)

lemma mirrors_frame [simp]:
  "mirrors (d\<lparr>vd_state := s\<rparr>) = mirrors d" "mirrors (d\<lparr>vd_calls := c\<rparr>) = mirrors d"
  "mirrors (d\<lparr>backend_connected := b\<rparr>) = mirrors d"
  by (simp_all add: mirrors_def)

lemma mirrors_logged:
  "mirrors d \<Longrightarrow> c \<in> {Sig, Driver_ok, Shutdown} \<Longrightarrow> mirrors (d\<lparr>bk_log := bk_log d @ [c]\<rparr>)"
  by (auto simp: mirrors_def replay_append Let_def)

lemma backed_step_mirrors:
  assumes "backed_step e ev (d, w) = Some (d', w')" "mirrors d" "dev_callback_set d"
  shows "mirrors d' \<and> dev_callback_set d'"
proof (cases ev)
  case (Access a off sz v)
  then obtain err v' where "virtio_access e block_virtuals a off sz v (d, w) = Some (err, v', d', w')" using assms(1) by auto
  from virtio_access_keeps [OF this, of "\<lambda>d. mirrors d \<and> dev_callback_set d", OF _ state_keeps_True] show ?thesis
    using assms(2,3) by (simp add: block_virtuals_def block_notify_def block_driver_ok_def mirrors_logged)
next
  case Signal_guest
  then show ?thesis using assms by (auto simp: block_signal_def assert_queue_interrupt_def mirrors_def)
qed (use assms in \<open>auto simp: mirrors_def replay_append Let_def block_reset_def reset_virtio_def call_backend_def block_shutdown_def
  iommu_present_def block_attach_def iommu_attach_def block_detach_def iommu_detach_def remove_all_mappings_def iommu_reset_def
  block_map_def iommu_map_def block_unmap_def iommu_unmap_def block_connect_def block_disconnect_def bind_eq_Some_conv
  rm_clear_def split: if_splits prod.splits\<close>)

text \<open>
  The back end can follow the device. However the driver, the IOMMU, the bus and the back end
  act on a device whose back end is registered, an IOMMU state that the back end keeps by replaying
  the calls it received has the same mappings and the same attachment as the device's own. This
  includes mappings that the back end refused, which the device keeps.
\<close>

theorem backend_mirrors_iommu:
  assumes "for_each evs (backed_step e) (d, w) = Some (d', w')" "mirrors d" "dev_callback_set d"
  shows "attached (replay iommu_new (bk_log d')) = attached (vd_iommu d') \<and>
    io_mappings (replay iommu_new (bk_log d')) = io_mappings (vd_iommu d')"
proof -
  have "(\<lambda>s. mirrors (fst s) \<and> dev_callback_set (fst s)) (d', w')"
  proof (rule for_each_inv [OF assms(1)])
    fix ev s s'
    assume "backed_step e ev s = Some s'" "mirrors (fst s) \<and> dev_callback_set (fst s)"
    then show "mirrors (fst s') \<and> dev_callback_set (fst s')" using backed_step_mirrors [of e ev "fst s" "snd s" "fst s'" "snd s'"] by simp
  qed (use assms(2,3) in simp)
  then show ?thesis by (simp add: mirrors_def Let_def)
qed

text \<open>A mapping that the back end refuses is in both tables.\<close>

definition demo_block :: backed_device where
  "demo_block = block_register_callback (block_new 40 8 block_default_features
     \<lparr>capacity = 0x800, size_max = 0x1000, seg_max = 4, geo_cylinder = 0, geo_heads = 0, geo_sectors = 0, blk_size = 512,
      top_physical_block_exp = 0, top_alignment_offset = 0, top_min_io_size = 0, top_opt_io_size = 0, writeback = 0,
      max_discard_sectors = 0, max_discard_seg = 0, discard_sector_alignment = 0, max_write_zeroes_sectors = 0,
      max_write_zeroes_seg = 0, write_zeroes_may_unmap = 0\<rparr>)"

definition demo_io :: io_mapping where
  "demo_io = \<lparr>im_va = 0x10000, im_pa = 0x1000, im_sz = 0x100, im_flags = 3\<rparr>"

theorem backend_mirrors_iommu_witness:
  "\<exists>d. for_each [Attach_device, Map_device True (\<lambda>_. PERM) demo_io] (backed_step demo_env) (demo_block, demo_mem, ()) =
       Some (d, demo_mem, ()) \<and> bk_log d = [Attach, Map demo_io] \<and> io_mappings (vd_iommu d) = [io_mapping_node demo_io] \<and>
     io_mappings (replay iommu_new (bk_log d)) = io_mappings (vd_iommu d)"
proof -
  have m: "mirrors demo_block" "dev_callback_set demo_block"
    by (simp_all add: mirrors_def Let_def demo_block_def block_register_callback_def block_new_def backed_device_new_def
        virtio_device.defs virtio_device_new_def)
  have f: "vd_iommu demo_block = iommu_new" "bk_log demo_block = []"
    by (simp_all add: demo_block_def block_register_callback_def block_new_def backed_device_new_def virtio_device.defs
        virtio_device_new_def)
  let ?d = "demo_block\<lparr>vd_iommu := \<lparr>iommu_avail = False, attached = True, io_mappings = [io_mapping_node demo_io]\<rparr>,
    bk_log := [Attach, Map demo_io]\<rparr>"
  have r: "for_each [Attach_device, Map_device True (\<lambda>_. PERM) demo_io] (backed_step demo_env) (demo_block, demo_mem, ()) =
      Some (?d, demo_mem, ())"
    using m(2) f by (simp add: block_attach_def block_map_def call_backend_def iommu_attach_def iommu_map_def iommu_new_def
        io_mapping_node_def range_ok_def Let_def demo_io_def)
  show ?thesis using backend_mirrors_iommu [OF r m] r by auto
qed

end
