(* ===== verification/VirtioConsole.thy ===== *)
theory VirtioConsole
  imports SgSafe VirtioDevices
begin

text \<open>
  The console device (\<open>devices/virtio_console/include/model/virtio_console.hpp\<close>,
  \<open>devices/virtio_console/src/virtio_console.cpp\<close>): it copies the characters of the host into the
  chains that the driver offers on its receive queue, and those of the driver's chains on the
  transmit queue out to the host, with guest addresses translated by the IOMMU and mapped on demand.

  The loops are partial functions, so a loop that does not end is \<open>None\<close>, as an abort is. The
  driver runs between the calls of the host, not during one; the mutex of the IOMMU's mappings is
  left out for that reason. Signals and the calls of the two callbacks are recorded in order.
\<close>

abbreviation RX :: nat where "RX \<equiv> 0"
abbreviation TX :: nat where "TX \<equiv> 1"

datatype console_call = Notify_event | Empty_space | Con_driver_ok | Con_device_reset | Con_shutdown

record console_config =
  con_cols :: u16
  con_rows :: u16
  con_num_ports :: u32
  con_emerg_wr :: u32

definition console_config_bytes :: "console_config \<Rightarrow> u8 list" where
  "console_config_bytes c = le_bytes 2 (con_cols c) @ le_bytes 2 (con_rows c) @ le_bytes 4 (con_num_ports c) @ le_bytes 4 (con_emerg_wr c)"

record console = virtio_device +
  rx_buff :: sg_buffer
  tx_buff :: sg_buffer
  tx_buff_progress :: u64
  driver_initialized :: bool
  con_callback :: bool
  con_dev_callback :: bool
  con_calls :: "console_call list"

definition console_new :: "u16 \<Rightarrow> u16 \<Rightarrow> u64 \<Rightarrow> console" where
  "console_new irq queue_entries device_features =
     virtio_device.extend
       (virtio_device_new CONSOLE irq queue_entries device_features
          (console_config_bytes \<lparr>con_cols = 0, con_rows = 0, con_num_ports = 0, con_emerg_wr = 0\<rparr>))
       \<lparr>rx_buff = buffer_new queue_entries, tx_buff = buffer_new queue_entries, tx_buff_progress = 0,
        driver_initialized = False, con_callback = False, con_dev_callback = False, con_calls = []\<rparr>"

text \<open>
  The allocations of the two buffers and whether the signal and the mutex can be created; \<open>p\<close> and
  \<open>p'\<close> are the addresses of the cookies.
\<close>

definition console_init :: "nat \<Rightarrow> nat \<Rightarrow> bool \<times> bool \<times> bool \<Rightarrow> bool \<times> bool \<times> bool \<Rightarrow> bool \<Rightarrow> bool \<Rightarrow> console \<Rightarrow> (bool \<times> console) option" where
  "console_init p p' ok ok' sig_ok lock_ok d = do {
     (err, b) \<leftarrow> (case ok of (c1, c2, c3) \<Rightarrow> sg_init p c1 c2 c3 (rx_buff d));
     let d = d\<lparr>rx_buff := b\<rparr>;
     if err \<noteq> NONE then Some (False, d)
     else do {
       (err, b) \<leftarrow> (case ok' of (c1, c2, c3) \<Rightarrow> sg_init p' c1 c2 c3 (tx_buff d));
       let d = d\<lparr>tx_buff := b\<rparr>;
       Some (err = NONE \<and> sig_ok \<and> lock_ok, d)
     }
   }"

definition call_console :: "console_call \<Rightarrow> console \<Rightarrow> console" where
  "call_console c d = d\<lparr>con_calls := con_calls d @ [c]\<rparr>"

definition console_register_callback :: "console \<Rightarrow> console" where
  "console_register_callback d = d\<lparr>con_callback := True, con_dev_callback := True\<rparr>"

subsection \<open>The queues of the device\<close>

definition queue_at :: "nat \<Rightarrow> 'a virtio_device_scheme \<Rightarrow> queue_state option" where
  "queue_at i d = nth_opt (queues (vd_state d)) i"

text \<open>The queue is a part of the device's state that its operations change.\<close>

definition put_queue :: "nat \<Rightarrow> vqueue \<Rightarrow> 'a virtio_device_scheme \<Rightarrow> 'a virtio_device_scheme" where
  "put_queue i q d =
     d\<lparr>vd_state := (vd_state d)\<lparr>queues := (queues (vd_state d))[i := (queues (vd_state d) ! i)\<lparr>device_queue := q\<rparr>]\<rparr>\<rparr>"

subsection \<open>Translation\<close>

definition console_translate :: "'a virtio_device_scheme \<Rightarrow> u64 \<Rightarrow> u64 \<Rightarrow> u64" where
  "console_translate d addr n = (if \<not> use_io_mappings d then addr else translate_io (vd_iommu d) addr n)"

definition vq_addr_to_r_hva :: "('d, 'x) as_env \<Rightarrow> 'a virtio_device_scheme \<Rightarrow> u64 \<Rightarrow> u64 \<Rightarrow> 'x world \<Rightarrow> (Errno \<times> u64 \<times> 'x world) option" where
  "vq_addr_to_r_hva e d a n w =
     (let g = console_translate d a n in if gpa_invalid g then Some (PERM, 0, w) else Some (demand_map_bus e g n False w))"

definition vq_addr_to_w_hva :: "('d, 'x) as_env \<Rightarrow> 'a virtio_device_scheme \<Rightarrow> u64 \<Rightarrow> u64 \<Rightarrow> 'x world \<Rightarrow> (Errno \<times> u64 \<times> 'x world) option" where
  "vq_addr_to_w_hva e d a n w =
     (let g = console_translate d a n in if gpa_invalid g then Some (PERM, 0, w) else Some (demand_map_bus e g n True w))"

definition vq_addr_to_r_hva_post :: "('d, 'x) as_env \<Rightarrow> 'a virtio_device_scheme \<Rightarrow> u64 \<Rightarrow> u64 \<Rightarrow> u64 \<Rightarrow> 'x world \<Rightarrow> (Errno \<times> 'x world) option" where
  "vq_addr_to_r_hva_post e d a n hva w =
     (let g = console_translate d a n in if gpa_invalid g then Some (PERM, w) else demand_unmap_bus e g n hva w)"

definition vq_addr_to_w_hva_post :: "('d, 'x) as_env \<Rightarrow> 'a virtio_device_scheme \<Rightarrow> u64 \<Rightarrow> u64 \<Rightarrow> u64 \<Rightarrow> 'x world \<Rightarrow> (Errno \<times> 'x world) option" where
  "vq_addr_to_w_hva_post e d a n hva w =
     (let g = console_translate d a n in if gpa_invalid g then Some (PERM, w) else demand_unmap_bus_clean e g n hva w)"

text \<open>The console as a \<open>ChainAccessor\<close>; it does not override the notices of a failure, which do nothing.\<close>

definition console_accessor :: "('d, 'x) as_env \<Rightarrow> 'a virtio_device_scheme \<Rightarrow> 'x accessor" where
  "console_accessor e d =
     \<lparr>to_r_hva = vq_addr_to_r_hva e d, to_w_hva = vq_addr_to_w_hva e d, r_hva_post = vq_addr_to_r_hva_post e d,
      w_hva_post = vq_addr_to_w_hva_post e d, on_failure = \<lambda>_ _ _ _ w. w, on_post_failure = \<lambda>_ _ _ _ w. w\<rparr>"

subsection \<open>Events\<close>

definition console_notify :: "memory \<Rightarrow> u32 \<Rightarrow> console \<Rightarrow> console" where
  "console_notify m v d =
     (let d = call_console Notify_event d in
      case queue_at RX d of
        None \<Rightarrow> d
      | Some qs \<Rightarrow>
          if \<not> constructed qs \<or> \<not> driver_initialized d then d
          else if dev_get_free m (device_queue qs) \<noteq> 0 then call_console Empty_space d
          else d)"

definition console_driver_ok :: "console \<Rightarrow> console" where
  "console_driver_ok d =
     (let d = d\<lparr>driver_initialized := True\<rparr> in if con_callback d then call_console Con_driver_ok d else d)"

text \<open>\<open>m\<close> is the memory at the time of the access, which the checks of \<open>notify\<close> read.\<close>

definition console_virtuals :: "memory \<Rightarrow> console dev_virtuals" where
  "console_virtuals m = \<lparr>dv_notify = console_notify m, dv_driver_ok = console_driver_ok\<rparr>"

definition console_reset :: "('d, 'x) as_env \<Rightarrow> console \<times> 'x world \<Rightarrow> (console \<times> 'x world) option" where
  "console_reset e s = (case s of (d, m, x) \<Rightarrow> do {
     rx \<leftarrow> queue_at RX d;
     (b, m, q) \<leftarrow> conclude_chain_use True False (rx_buff d, m, device_queue rx);
     let d = put_queue RX q (d\<lparr>rx_buff := b\<rparr>);
     tx \<leftarrow> queue_at TX d;
     (b, m, q) \<leftarrow> conclude_chain_use True False (tx_buff d, m, device_queue tx);
     let d = call_console Empty_space (put_queue TX q (d\<lparr>tx_buff := b\<rparr>));
     (d, w) \<leftarrow> reset_virtio e (d, m, x);
     Some (if con_dev_callback d then call_console Con_device_reset d else d, w)
   })"

definition console_shutdown :: "console \<Rightarrow> console" where
  "console_shutdown d = (if con_dev_callback d then call_console Con_shutdown d else d)"

definition console_detach :: "console \<Rightarrow> console" where
  "console_detach d = d\<lparr>vd_iommu := iommu_detach (vd_iommu d)\<rparr>"

definition console_map :: "bool \<Rightarrow> io_mapping \<Rightarrow> console \<Rightarrow> Errno \<times> console" where
  "console_map alloc m d = (case iommu_map alloc m (vd_iommu d) of (err, io) \<Rightarrow> (err, d\<lparr>vd_iommu := io\<rparr>))"

definition console_unmap :: "io_mapping \<Rightarrow> console \<Rightarrow> Errno \<times> console" where
  "console_unmap m d = (case iommu_unmap m (vd_iommu d) of (err, io) \<Rightarrow> (err, d\<lparr>vd_iommu := io\<rparr>))"

subsection \<open>Characters to the guest\<close>

partial_function (option) to_guest_loop ::
    "('d, 'x) as_env \<Rightarrow> u64 \<Rightarrow> u64 \<Rightarrow> u64 \<Rightarrow> console \<times> 'x world \<Rightarrow> (bool \<times> console \<times> 'x world) option" where
  "to_guest_loop e buff n idx s = (case s of (d, m, x) \<Rightarrow>
     if n = 0 then Some (True, d, m, x)
     else do {
       rx \<leftarrow> queue_at RX d;
       (err, _, b, m, q) \<leftarrow> walk_chain True (rx_buff d, m, device_queue rx);
       if err \<noteq> NONE then Some (False, assert_queue_interrupt (put_queue RX q (d\<lparr>rx_buff := b\<rparr>)), m, x)
       else do {
         (err, k, b, m, x) \<leftarrow> copy_from_linear None (console_accessor e d) (buff + idx) (min n (sg_size_bytes b)) 0 (b, m, x);
         (b, m, q) \<leftarrow> conclude_chain_use True False (b, m, q);
         if err \<noteq> NONE then Some (False, assert_queue_interrupt (put_queue RX q (d\<lparr>rx_buff := b\<rparr>)), m, x)
         else to_guest_loop e buff (n - k) (idx + k) (assert_queue_interrupt (put_queue RX q (d\<lparr>rx_buff := b\<rparr>)), m, x)
       }
     })"

definition console_to_guest :: "('d, 'x) as_env \<Rightarrow> u64 \<Rightarrow> u64 \<Rightarrow> console \<times> 'x world \<Rightarrow> (bool \<times> console \<times> 'x world) option" where
  "console_to_guest e buff n s = do {
     rx \<leftarrow> queue_at RX (fst s);
     if \<not> constructed rx \<or> \<not> driver_initialized (fst s) then Some (False, s) else to_guest_loop e buff n 0 s
   }"

subsection \<open>Characters from the guest\<close>

text \<open>The first part of a turn: with no chain in the buffer, the next one is walked.\<close>

definition next_tx_chain :: "console \<times> 'x world \<Rightarrow> (Errno \<times> console \<times> 'x world) option" where
  "next_tx_chain s = (case s of (d, m, x) \<Rightarrow>
     if sg_size_bytes (tx_buff d) = 0
     then do {
       tx \<leftarrow> queue_at TX d;
       (err, _, b, m, q) \<leftarrow> walk_chain True (tx_buff d, m, device_queue tx);
       Some (err, put_queue TX q (d\<lparr>tx_buff := b, tx_buff_progress := 0\<rparr>), m, x)
     }
     else Some (NONE, s))"

definition conclude_tx :: "console \<times> 'x world \<Rightarrow> (console \<times> 'x world) option" where
  "conclude_tx s = (case s of (d, m, x) \<Rightarrow> do {
     tx \<leftarrow> queue_at TX d;
     (b, m, q) \<leftarrow> conclude_chain_use True False (tx_buff d, m, device_queue tx);
     Some (assert_queue_interrupt (put_queue TX q (d\<lparr>tx_buff := b\<rparr>)), m, x)
   })"

text \<open>The copy of a turn: the error, the bytes copied and the new state.\<close>

definition copy_tx :: "('d, 'x) as_env \<Rightarrow> u64 \<Rightarrow> u64 \<Rightarrow> console \<times> 'x world \<Rightarrow> (Errno \<times> u64 \<times> console \<times> 'x world) option" where
  "copy_tx e dst n s = (case s of (d, w) \<Rightarrow>
     if 0 < n
     then do {
       (err, k, b, w) \<leftarrow> copy_to_linear None (console_accessor e d) dst n (tx_buff_progress d) (tx_buff d, w);
       Some (err, k, d\<lparr>tx_buff := b\<rparr>, w)
     }
     else Some (NONE, n, s))"

partial_function (option) from_guest_loop ::
    "('d, 'x) as_env \<Rightarrow> u64 \<Rightarrow> u64 \<Rightarrow> u64 \<Rightarrow> console \<times> 'x world \<Rightarrow> (u64 \<times> console \<times> 'x world) option" where
  "from_guest_loop e out n was_read s =
     (if n = 0 then Some (was_read, s)
      else do {
        (err, s) \<leftarrow> next_tx_chain s;
        if err \<noteq> NONE then Some (was_read, s)
        else do {
          (err, k, s) \<leftarrow> copy_tx e (out + was_read) (min n (sg_size_bytes (tx_buff (fst s)) - tx_buff_progress (fst s))) s;
          if err \<noteq> NONE \<or> k = 0
          then do {
            s \<leftarrow> conclude_tx s;
            if err \<noteq> NONE then Some (was_read, s) else from_guest_loop e out n was_read s
          }
          else from_guest_loop e out (n - k) (was_read + k)
                 ((fst s)\<lparr>tx_buff_progress := tx_buff_progress (fst s) + k\<rparr>, snd s)
        }
      })"

definition console_from_guest :: "('d, 'x) as_env \<Rightarrow> u64 \<Rightarrow> u64 \<Rightarrow> console \<times> 'x world \<Rightarrow> (u64 \<times> console \<times> 'x world) option" where
  "console_from_guest e out n s = do {
     tx \<leftarrow> queue_at TX (fst s);
     if \<not> constructed tx \<or> \<not> driver_initialized (fst s) then Some (0, s) else from_guest_loop e out n 0 s
   }"

end
