(* ===== verification/VirtioConsoleProps.thy ===== *)
theory VirtioConsoleProps
  imports VirtioConsole
begin

text \<open>
  The console keeps its invariant and its loops return, whatever the driver does with the shared
  memory, the registers and the queues.
\<close>

subsection \<open>The invariant\<close>

definition queues_valid :: "device_state \<Rightarrow> bool" where
  "queues_valid s \<longleftrightarrow> length (queues s) = QUEUES_MAX \<and>
     (\<forall>qs \<in> set (queues s). constructed qs \<longrightarrow> is_size_valid (vq_size (device_queue qs)))"

definition tx_ok :: "console \<Rightarrow> bool" where
  "tx_ok d \<longleftrightarrow> sg_idle (tx_buff d) \<or> sg_held (tx_buff d) \<and> tx_buff_progress d \<le> sg_size_bytes (tx_buff d)"

definition con_ok :: "console \<Rightarrow> bool" where
  "con_ok d \<longleftrightarrow> queues_valid (vd_state d) \<and> sg_idle (rx_buff d) \<and> tx_ok d"

text \<open>The mappings of the host can be undone, or there are none to undo.\<close>

definition unmap_safe :: "('d, 'x) as_env \<Rightarrow> bool" where
  "unmap_safe e \<longleftrightarrow> spaces_mapped e \<or> (\<forall>a n w. fst (host_munmap (env_host e) a n w))"

lemma unmap_mem_safe: "\<forall>a n w. fst (host_munmap h a n w) \<Longrightarrow> \<exists>w'. unmap_mem h a n w = (True, w')"
  by (simp add: unmap_mem_def split_beta) (metis prod.collapse)

lemma demand_unmap_safe:
  assumes "unmap_safe e"
  shows "\<exists>r. demand_unmap_bus e g n p w = Some r" "\<exists>r. demand_unmap_bus_clean e g n p w = Some r"
proof -
  have "mapped as \<or> (\<exists>w'. unmap_mem (env_host e) p n w = (True, w'))" if "get_as_device_at e g n = Some as" for as
    using assms that unmap_mem_safe [of "env_host e" p n w] by (auto simp: unmap_safe_def spaces_mapped_def)
  then show "\<exists>r. demand_unmap_bus e g n p w = Some r" "\<exists>r. demand_unmap_bus_clean e g n p w = Some r"
    by (auto simp: demand_unmap_bus_def demand_unmap_bus_clean_def demand_unmap_def demand_unmap_clean_def split: option.splits)
qed

lemma console_accessor_total: "unmap_safe e \<Longrightarrow> accessor_total (console_accessor e d)"
  using demand_unmap_safe [of e]
  by (simp add: accessor_total_def console_accessor_def vq_addr_to_r_hva_def vq_addr_to_w_hva_def vq_addr_to_r_hva_post_def
      vq_addr_to_w_hva_post_def Let_def not_None_eq del: split_paired_Ex)

subsection \<open>The queues\<close>

lemma queue_at_valid:
  assumes "queues_valid (vd_state d)" "i < QUEUES_MAX"
  shows "queue_at i d = Some (queues (vd_state d) ! i)"
    "constructed (queues (vd_state d) ! i) \<Longrightarrow> is_size_valid (vq_size (device_queue (queues (vd_state d) ! i)))"
  using assms by (simp_all add: queue_at_def nth_opt_def queues_valid_def)

lemma RX_lt: "RX < QUEUES_MAX" and TX_lt: "TX < QUEUES_MAX"
  by simp_all

lemma put_queue_fields [simp]:
  "rx_buff (put_queue i q d) = rx_buff d" "tx_buff (put_queue i q d) = tx_buff d"
  "tx_buff_progress (put_queue i q d) = tx_buff_progress d" "driver_initialized (put_queue i q d) = driver_initialized d"
  by (simp_all add: put_queue_def)

lemma assert_fields [simp]:
  "rx_buff (assert_queue_interrupt d) = rx_buff d" "tx_buff (assert_queue_interrupt d) = tx_buff d"
  "tx_buff_progress (assert_queue_interrupt d) = tx_buff_progress d"
  "queues (vd_state (assert_queue_interrupt d)) = queues (vd_state d)"
  by (simp_all add: assert_queue_interrupt_def)

lemma queues_valid_cong: "queues s = queues s' \<Longrightarrow> queues_valid s = queues_valid s'"
  by (simp add: queues_valid_def)

text \<open>An operation of a constructed queue keeps its size.\<close>

lemma put_queue_valid:
  assumes "queues_valid (vd_state d)" "i < QUEUES_MAX" "vq_size q = vq_size (device_queue (queues (vd_state d) ! i))"
  shows "queues_valid (vd_state (put_queue i q d))"
    and "j < QUEUES_MAX \<Longrightarrow> constructed (queues (vd_state (put_queue i q d)) ! j) = constructed (queues (vd_state d) ! j)"
proof -
  let ?qs = "queues (vd_state d) ! i"
  have i: "i < length (queues (vd_state d))" "?qs \<in> set (queues (vd_state d))" using assms(1,2) by (simp_all add: queues_valid_def)
  have "constructed ?qs \<longrightarrow> is_size_valid (vq_size q)" using assms(1,3) i(2) by (simp add: queues_valid_def)
  then show "queues_valid (vd_state (put_queue i q d))"
    using assms(1) set_update_subset_insert [of "queues (vd_state d)" i "?qs\<lparr>device_queue := q\<rparr>"]
    by (fastforce simp: queues_valid_def put_queue_def)
  show "constructed (queues (vd_state (put_queue i q d)) ! j) = constructed (queues (vd_state d) ! j)" if "j < QUEUES_MAX"
    using that i(1) assms(1) by (simp add: put_queue_def nth_list_update queues_valid_def)
qed

subsection \<open>Characters to the guest\<close>

lemma to_guest_loop_total:
  assumes "unmap_safe e" "con_ok d" "constructed (queues (vd_state d) ! RX)"
  shows "\<exists>ok d' w'. to_guest_loop e buff n idx (d, w) = Some (ok, d', w') \<and> con_ok d'"
  using assms(2,3)
proof (induction "unat n" arbitrary: n idx d w rule: less_induct)
  case less
  obtain m x where w: "w = (m, x)" by (cases w)
  let ?q = "device_queue (queues (vd_state d) ! RX)"
  have ok: "queues_valid (vd_state d)" "sg_idle (rx_buff d)" "tx_ok d" using less.prems(1) by (simp_all add: con_ok_def)
  note q = queue_at_valid [OF ok(1) RX_lt]
  show ?case
  proof (cases "n = 0")
    case True
    then show ?thesis using less.prems w by (subst to_guest_loop.simps) auto
  next
    case False
    obtain err b m1 q1 where wk: "walk_chain True (rx_buff d, m, ?q) = Some (err, (), b, m1, q1)" "vq_size q1 = vq_size ?q"
      "if err = NONE then sg_held b else sg_idle b"
      using walk_chain_total [OF ok(2) q(2) [OF less.prems(2)]] by blast
    show ?thesis
    proof (cases "err = NONE")
      case False
      let ?d = "assert_queue_interrupt (put_queue RX q1 (d\<lparr>rx_buff := b\<rparr>))"
      have "queues_valid (vd_state ?d)"
        using put_queue_valid(1) [of "d\<lparr>rx_buff := b\<rparr>" RX q1] ok(1) wk(2) by (simp add: queues_valid_def)
      then have "con_ok ?d" using wk(3) ok(3) False by (simp add: con_ok_def tx_ok_def)
      then show ?thesis using \<open>n \<noteq> 0\<close> False w q(1) wk(1) by (subst to_guest_loop.simps) auto
    next
      case True
      then have h: "sg_held b" using wk(3) by simp
      let ?k = "min n (sg_size_bytes b)"
      have k0: "?k \<noteq> 0" using \<open>n \<noteq> 0\<close> sg_held_size [OF h] by (simp add: min_def)
      have kl: "unat (0 :: u64) + unat ?k \<le> unat (sg_size_bytes b)" by (simp add: unat_min)
      obtain err2 k b2 m2 x2 where c: "copy_from_linear None (console_accessor e d) (buff + idx) ?k 0 (b, m1, x) = Some (err2, k, b2, m2, x2)"
        "sg_held b2" "err2 = NONE \<Longrightarrow> k = ?k"
        using copy_from_linear_total [OF console_accessor_total [OF assms(1)] h k0 kl] by (metis surj_pair)
      obtain b3 m3 q3 where cc: "conclude_chain_use True False (b2, m2, q1) = Some (b3, m3, q3)" "vq_size q3 = vq_size q1" "sg_idle b3"
        using conclude_held [OF c(2), of q1] q(2) [OF less.prems(2)] wk(2) by metis
      let ?d = "assert_queue_interrupt (put_queue RX q3 (d\<lparr>rx_buff := b3\<rparr>))"
      have v: "queues_valid (vd_state ?d)" "constructed (queues (vd_state ?d) ! RX)"
        using put_queue_valid [of "d\<lparr>rx_buff := b3\<rparr>" RX q3] ok(1) wk(2) cc(2) less.prems(2) by (simp_all add: queues_valid_def)
      then have d: "con_ok ?d" using cc(3) ok(3) by (simp add: con_ok_def tx_ok_def)
      have step: "to_guest_loop e buff n idx (d, w) = (if err2 \<noteq> NONE then Some (False, ?d, m3, x2)
          else to_guest_loop e buff (n - k) (idx + k) (?d, m3, x2))"
        using \<open>n \<noteq> 0\<close> True w q(1) wk(1) c(1) cc(1) by (subst to_guest_loop.simps) simp
      show ?thesis
      proof (cases "err2 = NONE")
        case True
        then have "unat (n - k) < unat n" using c(3) k0 by (intro unat_minus_lt) simp_all
        then show ?thesis using less.hyps [of "n - k" ?d "idx + k" "(m3, x2)"] d v step True by simp
      next
        case False
        then show ?thesis using step d by auto
      qed
    qed
  qed
qed

subsection \<open>Characters from the guest\<close>

lemma min_left: "min n a \<le> a" "min n a \<le> n" for a n :: "'a::linorder"
  by simp_all

lemma next_tx_chain_total:
  assumes "con_ok d" "constructed (queues (vd_state d) ! TX)"
  shows "\<exists>err d' w'. next_tx_chain (d, w) = Some (err, d', w') \<and> con_ok d' \<and> constructed (queues (vd_state d') ! TX) \<and>
    (err = NONE \<longrightarrow> sg_held (tx_buff d') \<and>
       (d' = d \<and> w' = w \<and> sg_held (tx_buff d) \<or> sg_size_bytes (tx_buff d) = 0 \<and> tx_buff_progress d' = 0))"
proof -
  obtain m x where w: "w = (m, x)" by (cases w)
  let ?q = "device_queue (queues (vd_state d) ! TX)"
  have ok: "queues_valid (vd_state d)" "sg_idle (rx_buff d)" "tx_ok d" using assms(1) by (simp_all add: con_ok_def)
  note q = queue_at_valid [OF ok(1) TX_lt]
  show ?thesis
  proof (cases "sg_size_bytes (tx_buff d) = 0")
    case False
    then have "sg_held (tx_buff d)" using ok(3) by (auto simp: tx_ok_def sg_idle_def sg_ready_def)
    then show ?thesis using False assms w by (simp add: next_tx_chain_def)
  next
    case True
    then have i: "sg_idle (tx_buff d)" using ok(3) sg_held_size by (auto simp: tx_ok_def)
    obtain err b m1 q1 where wk: "walk_chain True (tx_buff d, m, ?q) = Some (err, (), b, m1, q1)" "vq_size q1 = vq_size ?q"
      "if err = NONE then sg_held b else sg_idle b"
      using walk_chain_total [OF i q(2) [OF assms(2)]] by blast
    let ?d = "put_queue TX q1 (d\<lparr>tx_buff := b, tx_buff_progress := 0\<rparr>)"
    have v: "queues_valid (vd_state ?d)" "constructed (queues (vd_state ?d) ! TX)"
      using put_queue_valid [of "d\<lparr>tx_buff := b, tx_buff_progress := 0\<rparr>" TX q1] ok(1) wk(2) assms(2) by (simp_all add: queues_valid_def)
    then have "con_ok ?d" using wk(3) ok(2) by (simp add: con_ok_def tx_ok_def split: if_splits)
    then show ?thesis using True w q(1) wk v by (simp add: next_tx_chain_def)
  qed
qed

lemma conclude_tx_total:
  assumes "con_ok d" "constructed (queues (vd_state d) ! TX)" "sg_held (tx_buff d)"
  shows "\<exists>d' w'. conclude_tx (d, w) = Some (d', w') \<and> con_ok d' \<and> constructed (queues (vd_state d') ! TX) \<and> sg_idle (tx_buff d')"
proof -
  obtain m x where w: "w = (m, x)" by (cases w)
  have ok: "queues_valid (vd_state d)" "sg_idle (rx_buff d)" using assms(1) by (simp_all add: con_ok_def)
  note q = queue_at_valid [OF ok(1) TX_lt]
  obtain b m1 q1 where c: "conclude_chain_use True False (tx_buff d, m, device_queue (queues (vd_state d) ! TX)) = Some (b, m1, q1)"
    "vq_size q1 = vq_size (device_queue (queues (vd_state d) ! TX))" "sg_idle b"
    using conclude_held [OF assms(3) q(2) [OF assms(2)]] by metis
  let ?d = "assert_queue_interrupt (put_queue TX q1 (d\<lparr>tx_buff := b\<rparr>))"
  have "queues_valid (vd_state ?d)" "constructed (queues (vd_state ?d) ! TX)"
    using put_queue_valid [of "d\<lparr>tx_buff := b\<rparr>" TX q1] ok(1) c(2) assms(2) by (simp_all add: queues_valid_def)
  then show ?thesis using ok(2) c w q(1) by (simp add: conclude_tx_def con_ok_def tx_ok_def)
qed

text \<open>Another turn with nothing to copy needs a full chain, which it gives back.\<close>

abbreviation spent :: "console \<Rightarrow> nat" where
  "spent d \<equiv> if sg_size_bytes (tx_buff d) \<noteq> 0 \<and> tx_buff_progress d = sg_size_bytes (tx_buff d) then 1 else 0"

lemma from_guest_loop_total:
  assumes "unmap_safe e" "con_ok d" "constructed (queues (vd_state d) ! TX)" "unat done + unat n < 2 ^ 64"
  shows "\<exists>r d' w'. from_guest_loop e out n done (d, w) = Some (r, d', w') \<and> con_ok d' \<and> unat r \<le> unat done + unat n"
  using assms(2-)
proof (induction "2 * unat n + spent d" arbitrary: n "done" d w rule: less_induct)
  case less
  show ?case
  proof (cases "n = 0")
    case True
    then show ?thesis using less.prems by (subst from_guest_loop.simps) auto
  next
    case False
    obtain err d1 w1 where nx: "next_tx_chain (d, w) = Some (err, d1, w1)" "con_ok d1" "constructed (queues (vd_state d1) ! TX)"
      "err = NONE \<Longrightarrow> sg_held (tx_buff d1) \<and>
         (d1 = d \<and> w1 = w \<and> sg_held (tx_buff d) \<or> sg_size_bytes (tx_buff d) = 0 \<and> tx_buff_progress d1 = 0)"
      using next_tx_chain_total [OF less.prems(1,2), of w] by blast
    show ?thesis
    proof (cases "err = NONE")
      case False
      then show ?thesis using \<open>n \<noteq> 0\<close> nx(1,2) by (subst from_guest_loop.simps) simp
    next
      case True
      note nx' = nx(4) [OF True]
      let ?sz = "sg_size_bytes (tx_buff d1)" and ?p = "tx_buff_progress d1"
      have sz: "?sz \<noteq> 0" using nx' sg_held_size by blast
      then have ple: "?p \<le> ?sz" using nx(2) by (auto simp: con_ok_def tx_ok_def sg_idle_def sg_ready_def)
      let ?k = "min n (?sz - ?p)"
      have step0: "from_guest_loop e out n done (d, w) = do {
          (err, k, s) \<leftarrow> copy_tx e (out + done) ?k (d1, w1);
          if err \<noteq> NONE \<or> k = 0
          then do { s \<leftarrow> conclude_tx s; if err \<noteq> NONE then Some (done, s) else from_guest_loop e out n done s }
          else from_guest_loop e out (n - k) (done + k) ((fst s)\<lparr>tx_buff_progress := tx_buff_progress (fst s) + k\<rparr>, snd s) }"
        using \<open>n \<noteq> 0\<close> nx(1) True by (subst from_guest_loop.simps) simp
      show ?thesis
      proof (cases "?k = 0")
        case True
        then have "?sz - ?p = 0" using \<open>n \<noteq> 0\<close> by (auto simp: min_def split: if_splits)
        then have full: "?p = ?sz" by simp
        then have d1: "d1 = d" using nx' sz by auto
        obtain d2 w2 where c: "conclude_tx (d1, w1) = Some (d2, w2)" "con_ok d2" "constructed (queues (vd_state d2) ! TX)" "sg_idle (tx_buff d2)"
          using conclude_tx_total [OF nx(2,3)] nx' by blast
        have "spent d2 = 0" "spent d = 1" using c(4) full sz d1 by (simp_all add: sg_idle_def sg_ready_def)
        then show ?thesis
          using less.hyps [of n d2 "done" w2] less.prems(3) c step0 True by (simp add: copy_tx_def)
      next
        case False
        have kl: "unat ?p + unat ?k \<le> unat ?sz"
          using ple by (simp add: unat_min unat_minus_le word_le_nat_alt min_def) arith
        obtain err2 k b2 w2 where c: "copy_to_linear None (console_accessor e d1) (out + done) ?k ?p (tx_buff d1, w1) = Some (err2, k, b2, w2)"
          "sg_held b2" "sg_size_bytes b2 = ?sz" "err2 = NONE \<Longrightarrow> k = ?k"
          using copy_to_linear_total [OF console_accessor_total [OF assms(1)] _ False kl] nx' by blast
        have k0: "0 < ?k" using False by (simp add: word_neq_0_conv)
        let ?d2 = "d1\<lparr>tx_buff := b2\<rparr>"
        have ct: "copy_tx e (out + done) ?k (d1, w1) = Some (err2, k, ?d2, w2)" using c(1) k0 by (simp add: copy_tx_def)
        have d2: "con_ok ?d2" "constructed (queues (vd_state ?d2) ! TX)"
          using nx(2,3) c(2,3) ple by (simp_all add: con_ok_def tx_ok_def)
        show ?thesis
        proof (cases "err2 = NONE")
          case False
          obtain d3 w3 where "conclude_tx (?d2, w2) = Some (d3, w3)" "con_ok d3"
            using conclude_tx_total [OF d2, of w2] c(2) by auto
          then show ?thesis using step0 ct False by simp
        next
          case True
          then have k: "k = ?k" by (rule c(4))
          let ?d3 = "?d2\<lparr>tx_buff_progress := ?p + k\<rparr>"
          have "unat (?p + k) = unat ?p + unat k"
            using kl k unsigned_less [of ?sz, where 'a = nat] by (simp add: unat_plus_no_wrap)
          then have "?p + k \<le> ?sz" using kl k by (simp add: word_le_nat_alt)
          then have d3: "con_ok ?d3" "constructed (queues (vd_state ?d3) ! TX)" using d2 c(2,3) by (simp_all add: con_ok_def tx_ok_def)
          have kn: "k \<le> n" "k \<noteq> 0" using k False by simp_all
          then have nk: "unat (n - k) = unat n - unat k" "0 < unat k" "unat k \<le> unat n"
            by (simp_all add: unat_minus_le word_le_nat_alt unat_gt_0)
          then have dk: "unat (done + k) = unat done + unat k" using less.prems(3) by (simp add: unat_plus_no_wrap)
          have "2 * unat (n - k) + spent ?d3 < 2 * unat n + spent d" using nk by (auto simp del: unat_gt_0)
          from less.hyps [OF this d3, of "done + k" w2] show ?thesis
            using step0 ct True kn(2) nk dk less.prems(3) by (simp del: unat_gt_0)
        qed
      qed
    qed
  qed
qed

subsection \<open>Everything that happens to a console\<close>

text \<open>
  The events of a console: accesses of the driver, the calls of the host and of the IOMMU, and any
  change of the memory by the guest between them.
\<close>

datatype 'x console_event =
  Con_access vbus_access u64 u8 u64
  | Con_to_guest u64 u64
  | Con_from_guest u64 u64
  | Con_reset
  | Con_shut
  | Con_present
  | Con_attach
  | Con_detach
  | Con_map bool io_mapping
  | Con_unmap io_mapping
  | Con_memory "'x world"

fun console_step :: "('d, 'x) as_env \<Rightarrow> 'x console_event \<Rightarrow> console \<times> 'x world \<Rightarrow> (console \<times> 'x world) option" where
  "console_step e (Con_access a off sz v) s = map_option (\<lambda>r. snd (snd r)) (virtio_access e (console_virtuals (fst (snd s))) a off sz v s)"
| "console_step e (Con_to_guest p n) s = map_option snd (console_to_guest e p n s)"
| "console_step e (Con_from_guest p n) s = map_option snd (console_from_guest e p n s)"
| "console_step e Con_reset s = console_reset e s"
| "console_step e Con_shut (d, w) = Some (console_shutdown d, w)"
| "console_step e Con_present (d, w) = Some (d\<lparr>vd_iommu := iommu_present (vd_iommu d)\<rparr>, w)"
| "console_step e Con_attach (d, w) = Some (d\<lparr>vd_iommu := iommu_attach (vd_iommu d)\<rparr>, w)"
| "console_step e Con_detach (d, w) = Some (console_detach d, w)"
| "console_step e (Con_map al m) (d, w) = Some (snd (console_map al m d), w)"
| "console_step e (Con_unmap m) (d, w) = Some (snd (console_unmap m d), w)"
| "console_step e (Con_memory w') (d, w) = Some (d, w')"

lemma destruct_all_valid:
  "destruct_all e (qss, w) = Some (qss', w') \<Longrightarrow> length qss' = length qss \<and> set qss' \<subseteq> {queue_state_new}"
  by (induction e "(qss, w)" arbitrary: qss w qss' w' rule: destruct_all.induct)
    (fastforce simp: bind_eq_Some_conv queue_destruct_def)+

lemma state_reset_valid: "queues_valid s \<Longrightarrow> state_reset e (s, w) = Some (s', w') \<Longrightarrow> queues_valid s'"
  by (auto simp: state_reset_def bind_eq_Some_conv queues_valid_def queue_state_new_def dest!: destruct_all_valid)

lemma queue_construct_valid:
  assumes "queue_construct e u io qd (qs, w) = Some (qs', w')" "constructed qs \<longrightarrow> is_size_valid (vq_size (device_queue qs))"
  shows "constructed qs' \<longrightarrow> is_size_valid (vq_size (device_queue qs'))"
  using assms by (auto simp: queue_construct_def Let_def bind_eq_Some_conv queue_destruct_def queue_state_new_def queue_new_def split: if_splits)

lemma construct_selected_valid:
  assumes "queues_valid s" "construct_selected e u io (s, w) = Some (s', w')"
  shows "queues_valid s'"
proof -
  obtain qs where qs: "nth_opt (queues s) (unat (sel_queue s)) = Some qs" using assms(2) by (auto simp: construct_selected_def bind_eq_Some_conv)
  then have "qs \<in> set (queues s)" by auto
  then have v: "constructed qs \<longrightarrow> is_size_valid (vq_size (device_queue qs))" using assms(1) by (simp add: queues_valid_def)
  show ?thesis
  proof (cases "constructed qs")
    case True
    then show ?thesis using assms qs by (auto simp: construct_selected_def)
  next
    case False
    then obtain qd qs' where c: "queue_construct e u io qd (qs, w) = Some (qs', w')" "s' = s\<lparr>queues := (queues s)[unat (sel_queue s) := qs']\<rparr>"
      using assms(2) qs by (auto simp: construct_selected_def bind_eq_Some_conv)
    show ?thesis using queue_construct_valid [OF c(1) v] assms(1) set_update_subset_insert [of "queues s" "unat (sel_queue s)" qs']
      by (fastforce simp: queues_valid_def c(2))
  qed
qed

lemma queues_valid_keeps: "state_keeps e queues_valid"
  unfolding state_keeps_def
proof (intro conjI allI impI, goal_cases)
  case (6 u io s w s' w')
  then show ?case by (cases w') (metis construct_selected_valid surj_pair)
next
  case (7 s w s' w')
  then show ?case by (metis state_reset_valid surj_pair)
qed (simp_all add: queues_valid_def)

lemma queue_reg_write_queues: "queue_reg_write reg get put off bytes val s = Some (ok, s') \<Longrightarrow> queues s' = queues s"
  by (auto simp: queue_reg_write_def bind_eq_Some_conv split_beta)

lemma mmio_write_queues: "mmio_write off sz v s = Some (ok, s') \<Longrightarrow> queues s' = queues s"
  unfolding mmio_write_def queue_addr_write_def
  by (auto simp: config_space_write_def Let_def bind_eq_Some_conv split_beta dest!: queue_reg_write_queues split: if_split_asm)

lemma mmio_access_queues: "mmio_access a off sz v s = Some (ok, u, s') \<Longrightarrow> queues s' = queues s"
  by (auto simp: mmio_access_def bind_eq_Some_conv dest: mmio_write_queues split: if_split_asm)

lemma con_ok_fields [simp]:
  "con_ok (d\<lparr>vd_calls := c\<rparr>) = con_ok d" "con_ok (d\<lparr>vd_iommu := io\<rparr>) = con_ok d" "con_ok (d\<lparr>con_calls := cs\<rparr>) = con_ok d"
  "con_ok (d\<lparr>driver_initialized := b\<rparr>) = con_ok d"
  by (simp_all add: con_ok_def tx_ok_def)

lemma con_ok_state: "con_ok d \<Longrightarrow> queues_valid s \<Longrightarrow> con_ok (d\<lparr>vd_state := s\<rparr>)"
  by (simp add: con_ok_def tx_ok_def)

lemma console_virtuals_ok:
  "con_ok d \<Longrightarrow> con_ok (dv_notify (console_virtuals m) v d)" "con_ok d \<Longrightarrow> con_ok (dv_driver_ok (console_virtuals m) d)"
  by (auto simp: console_virtuals_def console_notify_def console_driver_ok_def call_console_def Let_def split: option.splits)

lemma conclude_any:
  assumes "conclude_chain_use True False (b, m, q) = Some (b', m', q')"
    and "sg_idle b \<or> sg_held b"
  shows "vq_size q' = vq_size q \<and> sg_idle b'"
proof -
  have q: "vq_size q' = vq_size q"
    using assms(1) by (auto simp: conclude_chain_use_def bind_eq_Some_conv vq_send_def dev_send_def bump_driven_idx_def Let_def split: if_splits)
  have "b' = reset_fields b" using assms(1) by (auto simp: conclude_chain_use_def bind_eq_Some_conv sg_reset_def split: if_splits)
  moreover have "sg_idle (reset_fields b)"
    using assms(2) by (intro reset_idle) (auto simp: sg_idle_def sg_ready_def sg_held_def sg_wf_def)
  ultimately show ?thesis using q by simp
qed

lemma console_reset_ok:
  assumes "console_reset e (d, m, x) = Some (d', w')" "con_ok d"
  shows "con_ok d'"
proof -
  have ok: "queues_valid (vd_state d)" "sg_idle (rx_buff d)" "tx_ok d" using assms(2) by (simp_all add: con_ok_def)
  note rx = queue_at_valid(1) [OF ok(1) RX_lt]
  obtain b1 m1 q1 where 1: "conclude_chain_use True False (rx_buff d, m, device_queue (queues (vd_state d) ! RX)) = Some (b1, m1, q1)"
    using assms(1) rx by (auto simp: console_reset_def bind_eq_Some_conv)
  let ?d1 = "put_queue RX q1 (d\<lparr>rx_buff := b1\<rparr>)"
  have i1: "vq_size q1 = vq_size (device_queue (queues (vd_state d) ! RX))" "sg_idle b1" using conclude_any [OF 1] ok(2) by simp_all
  have v1: "queues_valid (vd_state ?d1)" using put_queue_valid(1) [of "d\<lparr>rx_buff := b1\<rparr>" RX q1] ok(1) i1(1) by simp
  note tx = queue_at_valid(1) [OF v1 TX_lt]
  obtain b2 m2 q2 where 2: "conclude_chain_use True False (tx_buff ?d1, m1, device_queue (queues (vd_state ?d1) ! TX)) = Some (b2, m2, q2)"
    using assms(1) rx 1 tx by (auto simp: console_reset_def bind_eq_Some_conv Let_def)
  let ?d2 = "call_console Empty_space (put_queue TX q2 (?d1\<lparr>tx_buff := b2\<rparr>))"
  have i2: "vq_size q2 = vq_size (device_queue (queues (vd_state ?d1) ! TX))" "sg_idle b2"
    using conclude_any [OF 2] ok(3) by (auto simp: tx_ok_def)
  have v2: "queues_valid (vd_state ?d2)"
    using put_queue_valid(1) [of "?d1\<lparr>tx_buff := b2\<rparr>" TX q2] v1 i2(1) by (simp add: call_console_def)
  obtain ds w2 where 3: "state_reset e (vd_state ?d2, m2, x) = Some (ds, w2)"
    using assms(1) rx 1 tx 2 by (auto simp: console_reset_def reset_virtio_def bind_eq_Some_conv Let_def)
  have ok2: "con_ok (?d2\<lparr>vd_state := ds, vd_iommu := iommu_reset (vd_iommu ?d2)\<rparr>)"
    using state_reset_valid [OF v2 3] i1(2) i2(2) by (simp add: con_ok_def tx_ok_def call_console_def)
  have "d' = (let d = ?d2\<lparr>vd_state := ds, vd_iommu := iommu_reset (vd_iommu ?d2)\<rparr> in if con_dev_callback d then call_console Con_device_reset d else d)"
    using assms(1) rx 1 tx 2 3 by (auto simp: console_reset_def reset_virtio_def Let_def)
  then show ?thesis using ok2 by (simp add: call_console_def Let_def con_ok_def tx_ok_def)
qed

lemma to_guest_total:
  assumes "unmap_safe e" "con_ok d"
  shows "\<exists>ok d' w'. console_to_guest e p n (d, w) = Some (ok, d', w') \<and> con_ok d'"
  using assms(2) to_guest_loop_total [OF assms, of p n 0 w] queue_at_valid [of d RX]
  by (cases "constructed (queues (vd_state d) ! RX) \<and> driver_initialized d") (auto simp: console_to_guest_def con_ok_def)

lemma from_guest_total:
  assumes "unmap_safe e" "con_ok d"
  shows "\<exists>r d' w'. console_from_guest e p n (d, w) = Some (r, d', w') \<and> con_ok d' \<and> unat r \<le> unat n"
proof -
  have lt: "unat (0 :: u64) + unat n < 2 ^ 64" using unsigned_less [of n, where 'a = nat] by simp
  have q: "queue_at TX d = Some (queues (vd_state d) ! TX)"
    by (rule queue_at_valid(1) [OF _ TX_lt]) (use assms(2) in \<open>simp add: con_ok_def\<close>)
  show ?thesis
  proof (cases "constructed (queues (vd_state d) ! TX) \<and> driver_initialized d")
    case True
    then show ?thesis using from_guest_loop_total [OF assms _ lt, of p w] q by (simp add: console_from_guest_def)
  next
    case False
    then show ?thesis using q assms(2) by (auto simp: console_from_guest_def)
  qed
qed

lemma console_step_ok:
  assumes "console_step e ev (d, w) = Some (d', w')" "con_ok d" "unmap_safe e"
  shows "con_ok d'"
proof (cases ev)
  case (Con_access a off sz v)
  then obtain err v' where a: "virtio_access e (console_virtuals (fst w)) a off sz v (d, w) = Some (err, v', d', w')"
    using assms(1) by auto
  show ?thesis
  proof (rule virtio_access_keeps [where P = con_ok, OF a assms(2) queues_valid_keeps])
    show "queues_valid (vd_state d)" if "con_ok d" for d :: console using that by (simp add: con_ok_def)
    show "queues_valid s'" if "queues_valid s" "mmio_access a off sz v s = Some (ok, u, s')" for s ok u s'
      using that mmio_access_queues [OF that(2)] by (simp add: queues_valid_def)
  qed (use con_ok_state console_virtuals_ok in simp_all)
next
  case (Con_to_guest p n)
  then show ?thesis using assms to_guest_total [OF assms(3,2), of p n w] by auto
next
  case (Con_from_guest p n)
  then show ?thesis using assms from_guest_total [OF assms(3,2), of p n w] by auto
next
  case Con_reset
  then show ?thesis using assms(1,2) console_reset_ok [of e d "fst w" "snd w" d' w'] by simp
qed (use assms in \<open>auto simp: console_shutdown_def call_console_def console_detach_def console_map_def console_unmap_def split: prod.splits\<close>)

text \<open>
  C21: a read of the console always returns. After any sequence of accesses of the driver, of calls
  of the host, the IOMMU and the bus, and of changes of the shared memory by the guest, from a
  console whose buffers are initialised, the loop of \<open>console_from_guest\<close> ends and aborts nowhere, whatever
  the queues in the shared memory hold: chains that loop, descriptors outside guest memory, indices
  outside the table, rings that overlap what is written. It reads at most the bytes asked for.
\<close>

theorem console_from_guest_returns:
  assumes "for_each evs (console_step e) (d, w) = Some (d', w')" "con_ok d" "unmap_safe e"
  shows "\<exists>r d'' w''. console_from_guest e out n (d', w') = Some (r, d'', w'') \<and> unat r \<le> unat n \<and> con_ok d''"
proof -
  have "(\<lambda>s. con_ok (fst s)) (d', w')"
  proof (rule for_each_inv [OF assms(1)])
    fix ev s s'
    assume "console_step e ev s = Some s'" "con_ok (fst s)"
    then show "con_ok (fst s')" using console_step_ok [of e ev "fst s" "snd s" "fst s'" "snd s'"] assms(3) by simp
  qed (use assms(2) in simp)
  then show ?thesis using from_guest_total [OF assms(3)] by fastforce
qed

end
