(* ===== verification/ConsoleCopy.thy ===== *)
theory ConsoleCopy
  imports VirtioConsoleProps
begin

text \<open>
  The console as a translation of queue addresses: the interfaces \<open>chain_accessor\<close> and \<open>chain_pair\<close>
  of the copies hold for it on the areas that the IOMMU and the bus place inside one mapped address
  space, and with them what its copies do to memory.
\<close>

subsection \<open>Lookups of a part\<close>

lemma addrs_part:
  assumes "range_ok (gpa_range a n)" "k \<noteq> 0" "unat i + unat k \<le> unat n"
  shows "range_ok (gpa_range (a + i) k)" "addrs (gpa_range (a + i) k) \<subseteq> addrs (gpa_range a n)"
    "unat (a + i) = unat a + unat i"
proof -
  have lt: "unat a + unat n < 2 ^ 64" using assms(1) by (simp add: range_ok_def)
  then show u: "unat (a + i) = unat a + unat i" using assms(3) by (simp add: unat_plus_no_wrap)
  have "0 < unat k" using assms(2) by (simp add: unat_gt_0)
  then show "range_ok (gpa_range (a + i) k)" using lt u assms(3) by (simp add: range_ok_def)
  show "addrs (gpa_range (a + i) k) \<subseteq> addrs (gpa_range a n)" using u assms(3) by (auto simp: addrs_def)
qed

lemma rm_lookup_part:
  assumes "rm_invar m" "range_ok r" "rm_lookup m r = Some n" "addrs r \<subseteq> addrs (fst n)" "range_ok r'" "addrs r' \<subseteq> addrs r"
  shows "rm_lookup m r' = Some n"
proof -
  have n: "n \<in> set m" "range_ok (fst n)" using rm_lookup_in [OF assms(3)] assms(1) by (auto simp: rm_invar_def)
  have ne: "addrs r' \<noteq> {}" using assms(5) by (auto simp: range_ok_def addrs_def simp del: unat_gt_0)
  have i: "range_intersect (fst n) r'" using ne assms(4,6) by (auto simp: range_intersect_addrs [OF n(2) assms(5)])
  then obtain n' where n': "rm_lookup m r' = Some n'" using rm_lookup_None [OF assms(1,5) _ n(1)] by (cases "rm_lookup m r'") auto
  have s: "n' \<in> set m" "range_intersect (fst n') r'" using rm_lookup_Some [OF assms(1,5) n'] by auto
  then have "range_ok (fst n')" using assms(1) by (auto simp: rm_invar_def)
  then have "range_intersect (fst n') (fst n)"
    using s(2) assms(4,6) by (auto simp: range_intersect_addrs [OF _ assms(5)] range_intersect_addrs [OF _ n(2)])
  then show ?thesis using rm_disjoint [OF assms(1) s(1) n(1)] n' by simp
qed

subsection \<open>Areas inside one space\<close>

text \<open>Every address space is registered on the bus at its own range and mapped.\<close>

definition spaces_placed :: "('d, 'x) as_env \<Rightarrow> bool" where
  "spaces_placed e \<longleftrightarrow> bus_inv (env_bus e) \<and>
     (\<forall>n \<in> set (devices (env_bus e)).
        env_type e (snd n) = GUEST_PHYSICAL_DYNAMIC_MEMORY \<or> env_type e (snd n) = GUEST_PHYSICAL_STATIC_MEMORY \<longrightarrow>
        mapped (env_as e (snd n)) \<and> as_range (env_as e (snd n)) = fst n)"

definition gpa_area :: "('d, 'x) as_env \<Rightarrow> u64 \<Rightarrow> u64 \<Rightarrow> simple_as \<Rightarrow> bool" where
  "gpa_area e g n as \<longleftrightarrow> get_as_device_at e g n = Some as \<and> addrs (gpa_range g n) \<subseteq> addrs (as_range as)"

lemma spaces_placed_as:
  assumes "spaces_placed e" "get_as_device_at e g n = Some as"
  shows "mapped as" "range_ok (as_range as)" "range_ok (gpa_range g n)"
    "\<exists>d. rm_lookup (devices (env_bus e)) (gpa_range g n) = Some (as_range as, d) \<and> env_as e d = as \<and>
       (env_type e d = GUEST_PHYSICAL_DYNAMIC_MEMORY \<or> env_type e d = GUEST_PHYSICAL_STATIC_MEMORY)"
proof -
  obtain nd where nd: "rm_lookup (devices (env_bus e)) (gpa_range g n) = Some nd" "env_as e (snd nd) = as"
    "env_type e (snd nd) = GUEST_PHYSICAL_DYNAMIC_MEMORY \<or> env_type e (snd nd) = GUEST_PHYSICAL_STATIC_MEMORY"
    using assms(2) by (auto simp: get_as_device_at_def get_device_at_def bus_lookup_def split: option.splits if_splits)
  have "nd \<in> set (devices (env_bus e))" using rm_lookup_in [OF nd(1)] .
  then have s: "mapped as" "as_range as = fst nd" "range_ok (fst nd)"
    using assms(1) nd(2,3) by (auto simp: spaces_placed_def bus_inv_def rm_invar_def)
  then show "mapped as" "range_ok (as_range as)" by simp_all
  show "range_ok (gpa_range g n)" by (rule as_at_range_ok [OF assms(2)])
  show "\<exists>d. rm_lookup (devices (env_bus e)) (gpa_range g n) = Some (as_range as, d) \<and> env_as e d = as \<and>
       (env_type e d = GUEST_PHYSICAL_DYNAMIC_MEMORY \<or> env_type e d = GUEST_PHYSICAL_STATIC_MEMORY)"
    using nd s by (cases nd) auto
qed

lemma gpa_area_part:
  assumes "spaces_placed e" "gpa_area e g n as" "k \<noteq> 0" "unat i + unat k \<le> unat n"
  shows "gpa_area e (g + i) k as"
proof -
  have at: "get_as_device_at e g n = Some as" and sub: "addrs (gpa_range g n) \<subseteq> addrs (as_range as)"
    using assms(2) by (simp_all add: gpa_area_def)
  note s = spaces_placed_as [OF assms(1) at]
  note p = addrs_part [OF s(3) assms(3,4)]
  obtain d where d: "rm_lookup (devices (env_bus e)) (gpa_range g n) = Some (as_range as, d)" "env_as e d = as"
    "env_type e d = GUEST_PHYSICAL_DYNAMIC_MEMORY \<or> env_type e d = GUEST_PHYSICAL_STATIC_MEMORY"
    using s(4) by blast
  have inv: "rm_invar (devices (env_bus e))" using assms(1) by (simp add: spaces_placed_def bus_inv_def)
  have "rm_lookup (devices (env_bus e)) (gpa_range (g + i) k) = Some (as_range as, d)"
    using rm_lookup_part [OF inv s(3) d(1) _ p(1,2)] sub by simp
  moreover have "\<not> g + i + k \<le> g + i" using p(1) by (simp add: range_ok_guard)
  ultimately have "get_as_device_at e (g + i) k = Some as"
    using d(2,3) by (auto simp: get_as_device_at_def get_device_at_def bus_lookup_def)
  then show ?thesis using p(2) sub by (simp add: gpa_area_def)
qed

subsection \<open>Areas of the console\<close>

text \<open>The queue addresses that the IOMMU, when it is used, maps by one entry.\<close>

definition io_area :: "'a virtio_device_scheme \<Rightarrow> u64 \<Rightarrow> u64 \<Rightarrow> bool" where
  "io_area d a n \<longleftrightarrow> (use_io_mappings d \<longrightarrow> rm_invar (io_mappings (vd_iommu d)) \<and> range_ok (gpa_range a n) \<and>
     (\<exists>nd. rm_lookup (io_mappings (vd_iommu d)) (gpa_range a n) = Some nd \<and> addrs (gpa_range a n) \<subseteq> addrs (fst nd)))"

lemma io_area_part:
  assumes "io_area d a n" "k \<noteq> 0" "unat i + unat k \<le> unat n"
  shows "io_area d (a + i) k" "console_translate d (a + i) k = console_translate d a n + i"
proof -
  have "io_area d (a + i) k \<and> console_translate d (a + i) k = console_translate d a n + i"
  proof (cases "use_io_mappings d")
    case True
    then obtain nd where nd: "rm_invar (io_mappings (vd_iommu d))" "range_ok (gpa_range a n)"
      "rm_lookup (io_mappings (vd_iommu d)) (gpa_range a n) = Some nd" "addrs (gpa_range a n) \<subseteq> addrs (fst nd)"
      using assms(1) by (auto simp: io_area_def)
    note p = addrs_part [OF nd(2) assms(2,3)]
    have "rm_lookup (io_mappings (vd_iommu d)) (gpa_range (a + i) k) = Some nd" by (rule rm_lookup_part [OF nd p(1,2)])
    then show ?thesis using True nd p by (auto simp: io_area_def console_translate_def translate_io_def algebra_simps)
  qed (simp add: io_area_def console_translate_def)
  then show "io_area d (a + i) k" "console_translate d (a + i) k = console_translate d a n + i" by blast+
qed

text \<open>The areas that can be read and written, and the place of an address in the memory of the monitor.\<close>

definition console_area :: "('d, 'x) as_env \<Rightarrow> 'a virtio_device_scheme \<Rightarrow> u64 \<Rightarrow> u64 \<Rightarrow> bool" where
  "console_area e d a n \<longleftrightarrow> spaces_placed e \<and> io_area d a n \<and>
     (\<exists>as. gpa_area e (console_translate d a n) n as \<and> (cred_write (guest_cred as) \<or> cred_write (mem_cred (mobject as))))"

definition console_hva :: "('d, 'x) as_env \<Rightarrow> 'a virtio_device_scheme \<Rightarrow> u64 \<Rightarrow> u64" where
  "console_hva e d a =
     (let g = console_translate d a 1 in
      case get_as_device_at e g 1 of None \<Rightarrow> 0 | Some as \<Rightarrow> vmm_view as + (g - get_guest_view as))"

lemma console_area_facts:
  assumes "console_area e d a n"
  obtains as where "gpa_area e (console_translate d a n) n as" "mapped as" "\<not> gpa_invalid (console_translate d a n)"
    "is_gpa_valid as (console_translate d a n) n" "cred_write (guest_cred as) \<or> cred_write (mem_cred (mobject as))" "n \<noteq> 0"
proof -
  let ?g = "console_translate d a n"
  obtain as where as: "gpa_area e ?g n as" "cred_write (guest_cred as) \<or> cred_write (mem_cred (mobject as))"
    using assms by (auto simp: console_area_def)
  then have at: "get_as_device_at e ?g n = Some as" by (simp add: gpa_area_def)
  have pl: "spaces_placed e" using assms by (simp add: console_area_def)
  note s = spaces_placed_as [OF pl at]
  have "unat ?g + unat n < 2 ^ 64" "0 < unat n" using s(3) by (simp_all add: range_ok_def)
  then have "unat ?g \<noteq> 2 ^ 64 - 1" "n \<noteq> 0" by auto
  moreover have "unat (- 1 :: u64) = 2 ^ 64 - 1" by (simp add: unsigned_minus_1_eq_mask mask_eq_exp_minus_1)
  ultimately have "\<not> gpa_invalid ?g" "n \<noteq> 0" by (auto simp: gpa_invalid_def)
  moreover have "is_gpa_valid as ?g n" using as(1) range_contains_addrs [OF s(2,3)] by (simp add: is_gpa_valid_def gpa_area_def)
  ultimately show thesis using that as s(1) \<open>n \<noteq> 0\<close> by blast
qed

lemma console_area_part:
  assumes "console_area e d a n" "k \<noteq> 0" "unat i + unat k \<le> unat n"
  shows "console_area e d (a + i) k"
  using assms io_area_part [OF _ assms(2,3), of d a] gpa_area_part [OF _ _ assms(2,3)] unfolding console_area_def by fastforce

lemma console_hva_offset:
  assumes "gpa_area e (console_translate d a n) n as" "console_area e d a n" "unat i < unat n"
  shows "console_hva e d (a + i) = vmm_view as + (console_translate d a n + i - get_guest_view as)"
proof -
  have "unat i + unat (1 :: u64) \<le> unat n" using assms(3) by simp
  then have "console_translate d (a + i) 1 = console_translate d a n + i" "gpa_area e (console_translate d a n + i) 1 as"
    using assms(1,2) io_area_part(2) [of d a n 1 i] gpa_area_part [of e "console_translate d a n" n as 1 i]
    by (simp_all add: console_area_def)
  then show ?thesis by (simp add: console_hva_def Let_def gpa_area_def)
qed

interpretation con: chain_accessor "console_accessor e d" "console_hva e d" "console_area e d"
  for e :: "('d, 'x) as_env" and d :: "'a virtio_device_scheme"
proof (unfold_locales, goal_cases)
  case (1 a n w)
  from 1 obtain as where f: "gpa_area e (console_translate d a n) n as" "mapped as" "\<not> gpa_invalid (console_translate d a n)"
    "is_gpa_valid as (console_translate d a n) n" "cred_write (guest_cred as) \<or> cred_write (mem_cred (mobject as))" "n \<noteq> 0"
    by (rule console_area_facts)
  then show ?case
    using console_hva_offset [OF f(1) 1, of 0] unat_gt_0 [of n]
    by (auto simp: console_accessor_def vq_addr_to_r_hva_def Let_def demand_map_bus_def gpa_area_def demand_map_def)
next
  case (2 a n w)
  from 2 obtain as where f: "gpa_area e (console_translate d a n) n as" "mapped as" "\<not> gpa_invalid (console_translate d a n)"
    "is_gpa_valid as (console_translate d a n) n" "cred_write (guest_cred as) \<or> cred_write (mem_cred (mobject as))" "n \<noteq> 0"
    by (rule console_area_facts)
  then show ?case
    using console_hva_offset [OF f(1) 2, of 0] unat_gt_0 [of n]
    by (auto simp: console_accessor_def vq_addr_to_w_hva_def Let_def demand_map_bus_def gpa_area_def demand_map_def)
next
  case (3 a n w)
  from 3 obtain as where "gpa_area e (console_translate d a n) n as" "mapped as" "\<not> gpa_invalid (console_translate d a n)"
    by (rule console_area_facts)
  then show ?case
    by (auto simp: console_accessor_def vq_addr_to_r_hva_post_def Let_def demand_unmap_bus_def gpa_area_def demand_unmap_def)
next
  case (4 a n w)
  from 4 obtain as where "gpa_area e (console_translate d a n) n as" "mapped as" "\<not> gpa_invalid (console_translate d a n)"
    by (rule console_area_facts)
  then show ?case
    by (auto simp: console_accessor_def vq_addr_to_w_hva_post_def Let_def demand_unmap_bus_clean_def gpa_area_def demand_unmap_clean_def)
next
  case (5 a n i)
  from 5(1) obtain as where f: "gpa_area e (console_translate d a n) n as" "n \<noteq> 0" by (rule console_area_facts)
  show ?case
    using console_hva_offset [OF f(1) 5(1), of i] console_hva_offset [OF f(1) 5(1), of 0] 5(2) f(2) unat_gt_0 [of n]
    by (simp add: word_less_nat_alt)
next
  case (6 a n k i)
  then show ?case by (rule console_area_part)
qed

interpretation con_pair: chain_pair "console_accessor e d" "console_hva e d" "console_area e d"
    "console_accessor e' d'" "console_hva e' d'" "console_area e' d'"
  for e :: "('d, 'x) as_env" and d :: "'a virtio_device_scheme" and e' :: "('e, 'x) as_env" and d' :: "'b virtio_device_scheme" ..

subsection \<open>A chain and its bytes\<close>

text \<open>The queue addresses of the bytes of a chain in shared memory.\<close>

definition chain_addrs :: "memory \<Rightarrow> descriptor list \<Rightarrow> u64 list" where
  "chain_addrs m ds = concat (map (\<lambda>d. area (desc_address m d) (unat (desc_length m d))) ds)"

lemma length_chain_addrs: "length (chain_addrs m ds) = chain_bytes m ds"
  by (simp add: chain_addrs_def length_concat comp_def)

lemma holds_active:
  assumes "sg_holds m ds b"
  shows "map (\<lambda>l. (l_address l, l_length l, l_flags l)) (active b) = map (read_desc m) ds"
  using assms by (intro nth_equalityI) (auto simp: sg_holds_def active_def)

lemma holds_payload: "sg_holds m ds b \<Longrightarrow> payload b = chain_addrs m ds"
proof -
  assume "sg_holds m ds b"
  from arg_cong [OF holds_active [OF this], of "\<lambda>xs. concat (map (\<lambda>(a, l, f). area a (unat l)) xs)"] show ?thesis
    by (simp add: payload_def chunk_def [abs_def] chain_addrs_def read_desc_def comp_def)
qed

lemma holds_accessible:
  assumes "sg_holds m ds b" "\<forall>c \<in> set ds. console_area e d (desc_address m c) (ucast (desc_length m c))"
  shows "chain_accessor.accessible (console_area e d) b"
  unfolding con.accessible_def
proof
  fix l assume "l \<in> set (active b)"
  then have "(l_address l, l_length l, l_flags l) \<in> set (map (\<lambda>l. (l_address l, l_length l, l_flags l)) (active b))" by auto
  then show "console_area e d (l_address l) (ucast (l_length l))"
    using assms(2) by (auto simp: holds_active [OF assms(1)] read_desc_def)
qed

text \<open>The translation depends on the IOMMU and the features of the driver only.\<close>

lemma console_translate_cong:
  assumes "vd_iommu d' = vd_iommu d" "drv_feature_upper (vd_state d') = drv_feature_upper (vd_state d)"
    "device_feature_upper (vd_state d') = device_feature_upper (vd_state d)"
  shows "console_translate d' = console_translate d" "console_hva e d' = console_hva e d" "console_area e d' = console_area e d"
proof -
  have u: "use_io_mappings d' = use_io_mappings d" using assms by (simp add: use_io_mappings_def platform_specific_access_enabled_def)
  show t: "console_translate d' = console_translate d" by (intro ext) (simp add: console_translate_def u assms(1))
  show "console_hva e d' = console_hva e d" by (intro ext) (simp add: console_hva_def t)
  have "io_area d' = io_area d" by (intro ext) (simp add: io_area_def u assms(1))
  then show "console_area e d' = console_area e d" by (intro ext) (simp add: console_area_def t)
qed

lemma put_queue_translate [simp]:
  "console_hva e (put_queue i q d) = console_hva e d" "console_area e (put_queue i q d) = console_area e d"
  "console_hva e (d\<lparr>tx_buff := b, tx_buff_progress := p\<rparr>) = console_hva e d"
  "console_area e (d\<lparr>tx_buff := b, tx_buff_progress := p\<rparr>) = console_area e d"
  "console_hva e (c\<lparr>rx_buff := b\<rparr>) = console_hva e c" "console_area e (c\<lparr>rx_buff := b\<rparr>) = console_area e c"
  by (rule console_translate_cong; simp add: put_queue_def)+

lemma walk_delivers:
  assumes "sg_idle b" "is_size_valid (vq_size q)" "vq_size q \<le> max_chain_length b"
    and "dev_recv (m, q) = Some (NONE, Some root, m1, q1)" "valid_chain (unat (max_chain_length b)) m1 q1 root = Some ds"
  obtains b' where "walk_chain True (b, m, q) = Some (NONE, (), b', m1, q1)" "sg_holds m1 ds b'" "sg_held b'"
    "chain_for_device b'" "cookie b' = cookie b \<or> cookie b' = map_option cookie_reset (cookie b)" "hd ds = root" "ds \<noteq> []"
proof -
  have q1: "vq_size q1 = vq_size q" using dev_recv_total [OF assms(2), of m] assms(4) by auto
  have "vq_size q \<noteq> 0" using assms(2) by (auto simp: is_size_valid_def)
  then have n0: "max_chain_length b \<noteq> 0" using assms(3) by (metis word_le_0_iff)
  have i: "sg_ready b" "\<exists>c. cookie b = Some c \<and> \<not> in_use c" using assms(1) by (auto simp: sg_idle_def sg_ready_def)
  obtain s where s: "vq_send True root 0 (m1, q1) = Some s" using vq_send_valid [of q1] assms(2) q1 by fastforce
  have h: "sg_holds m1 [] (b\<lparr>chain_for_device := True\<rparr>)" using i(1) by (auto simp: sg_ready_def sg_holds_def)
  have v: "chain_spec (unat (max_chain_length b)) m1 q1 root = Some ds" "chain_ok False 0 (map (read_desc m1) ds)"
    using assms(5) by (auto simp: valid_chain_def split: option.splits if_splits)
  have "walk_result_ok True m1 q1 root (case chain_spec (unat (max_chain_length b)) m1 q1 root of None \<Rightarrow> None
      | Some es \<Rightarrow> if chain_ok False 0 (map (read_desc m1) ([] @ es)) then Some ([] @ es) else None)
     (walk_loop walk_nop True m1 q1 root () (b\<lparr>chain_for_device := True\<rparr>))"
    by (rule walk_loop_spec [OF h _ _ _ _ _ s]) (use i n0 in \<open>auto simp: sg_ready_def\<close>)
  then obtain b' where b': "walk_loop walk_nop True m1 q1 root () (b\<lparr>chain_for_device := True\<rparr>) = Some (NONE, (), b', m1, q1)"
    "sg_holds m1 ds b'" "complete_chain b'" "chain_for_device b'"
    using v by (auto simp: walk_result_ok_def)
  have c: "cookie b' = cookie b \<or> cookie b' = map_option cookie_reset (cookie b)" using walk_loop_cookie [OF b'(1)] by simp
  then obtain ck where "cookie b' = Some ck" "\<not> in_use ck" using i(2) by (auto simp: cookie_reset_def)
  moreover have ne: "ds \<noteq> []" by (rule chain_spec_not_empty [OF v(1)])
  ultimately have "sg_held b'" using holds_held [OF b'(2) v(2) _ b'(3)] by blast
  moreover have "hd ds = root" using v(1) by (cases "unat (max_chain_length b)") (auto split: if_splits)
  moreover have "walk_chain True (b, m, q) = Some (NONE, (), b', m1, q1)"
    using assms(3,4) q1 b'(1) by (simp add: walk_chain_def recv_and_walk_def vq_recv_def walk_chain_callback_def leD)
  ultimately show thesis using that b'(2,4) c ne by blast
qed

text \<open>
  C22: the host reads what the driver sent. If the next chain on the transmit queue is a valid chain
  whose buffers lie in guest memory, a read of at most its length returns that many bytes: the bytes
  of the buffers in the order of the chain, at the places in the monitor's memory that the IOMMU and
  the bus give to their addresses. No other memory changes but the ring event that the receipt of the
  chain writes (\<open>m1\<close> is the memory after it).
\<close>

theorem console_from_guest_delivers:
  assumes "queue_at TX d = Some qs" "constructed qs" "driver_initialized d" "sg_idle (tx_buff d)"
    and "is_size_valid (vq_size (device_queue qs))" "vq_size (device_queue qs) \<le> max_chain_length (tx_buff d)"
    and "dev_recv (m, device_queue qs) = Some (NONE, Some root, m1, q1)"
    and "valid_chain (unat (max_chain_length (tx_buff d))) m1 q1 root = Some ds"
    and "\<forall>c \<in> set ds. console_area e d (desc_address m1 c) (ucast (desc_length m1 c))"
    and "n \<noteq> 0" "unat n \<le> chain_bytes m1 ds" "out \<noteq> 0"
    and "set (map (console_hva e d) (take (unat n) (chain_addrs m1 ds))) \<inter> set (area out (unat n)) = {}"
  shows "\<exists>d' m'. console_from_guest e out n (d, m, x) = Some (n, d', m', x) \<and>
    map m' (area out (unat n)) = map (m1 \<circ> console_hva e d) (take (unat n) (chain_addrs m1 ds)) \<and>
    (\<forall>a. a \<notin> set (area out (unat n)) \<longrightarrow> m' a = m1 a)"
proof -
  obtain b where b: "walk_chain True (tx_buff d, m, device_queue qs) = Some (NONE, (), b, m1, q1)" "sg_holds m1 ds b" "sg_held b"
    by (rule walk_delivers [OF assms(4-8)]) (rule that; assumption)
  let ?d1 = "put_queue TX q1 (d\<lparr>tx_buff := b, tx_buff_progress := 0\<rparr>)"
  obtain c where c: "cookie b = Some c" "\<not> in_use c" using b(3) by (auto simp: sg_held_def)
  have wf: "sg_wf b" using b(3) by (simp add: sg_held_def)
  have acc: "chain_accessor.accessible (console_area e ?d1) b" using holds_accessible [OF b(2), of e d] assms(9) by (simp add: con.accessible_def)
  have sz: "unat (sg_size_bytes b) = chain_bytes m1 ds" using b(2) by (simp add: sg_holds_def)
  have part: "payload_part b 0 n = take (unat n) (chain_addrs m1 ds)" using holds_payload [OF b(2)] by (simp add: payload_part_def)
  have bnd: "unat (0 :: u64) + unat n \<le> unat (sg_size_bytes b)" using assms(11) sz by simp
  let ?b2 = "b\<lparr>cookie := Some (cookie_reset c)\<rparr>"
  let ?m2 = "move_bytes (area out (unat n)) (map (console_hva e d) (take (unat n) (chain_addrs m1 ds))) m1"
  have cp: "copy_to_linear None (console_accessor e ?d1) out n 0 (b, m1, x) = Some (NONE, n, ?b2, ?m2, x)"
    using con.copy_to_linear_moves [OF wf acc c assms(12,10) bnd, of m1 x] assms(13) part by simp
  have sz0: "sg_size_bytes (tx_buff d) = 0" using assms(4) by (simp add: sg_idle_def sg_ready_def)
  have mn: "min n (sg_size_bytes b) = n" using assms(11) sz by (simp add: min_def word_le_nat_alt)
  have nx: "next_tx_chain (d, m, x) = Some (NONE, ?d1, m1, x)" using sz0 assms(1) b(1) by (simp add: next_tx_chain_def)
  have "copy_tx e out n (?d1, m1, x) = Some (NONE, n, ?d1\<lparr>tx_buff := ?b2\<rparr>, ?m2, x)"
    using cp assms(10) by (simp add: copy_tx_def word_neq_0_conv)
  then have "from_guest_loop e out n 0 (d, m, x) = from_guest_loop e out 0 n (?d1\<lparr>tx_buff := ?b2, tx_buff_progress := n\<rparr>, ?m2, x)"
    using nx assms(10) mn by (subst from_guest_loop.simps) simp
  also have "\<dots> = Some (n, ?d1\<lparr>tx_buff := ?b2, tx_buff_progress := n\<rparr>, ?m2, x)" by (subst from_guest_loop.simps) simp
  finally have r: "console_from_guest e out n (d, m, x) = Some (n, ?d1\<lparr>tx_buff := ?b2, tx_buff_progress := n\<rparr>, ?m2, x)"
    using assms(1-3) by (simp add: console_from_guest_def)
  have len: "length (take (unat n) (chain_addrs m1 ds)) = unat n" using assms(11) by (simp add: length_chain_addrs)
  have "unat n \<le> 2 ^ 64" using unsigned_less [of n, where 'a = nat] by simp
  then have c: "map ?m2 (area out (unat n)) = map (m1 \<circ> console_hva e d) (take (unat n) (chain_addrs m1 ds))"
    using len by (subst map_map [symmetric], intro map_scatter_same distinct_area) simp_all
  have o: "\<forall>a. a \<notin> set (area out (unat n)) \<longrightarrow> ?m2 a = m1 a" by (simp add: scatter_other)
  show ?thesis by (rule exI, rule exI, rule conjI, rule r, rule conjI, rule c, rule o)
qed

subsection \<open>The length given back\<close>

lemma ucast_minus_le: "b \<le> a \<Longrightarrow> (ucast (a - b) :: 'b::len word) = ucast a - ucast b" for a b :: "'a::len word"
  by (metis of_nat_diff of_nat_unat unat_minus_le word_le_nat_alt)

lemma track_fresh:
  assumes "sg_wf b" "place_ok b it 0" "unat n \<le> length (rest b it 0)"
    and "\<forall>i. it \<le> i \<longrightarrow> i < sg_end b \<longrightarrow> prefix_written (chain_meta b ! i) = 0"
    and "track_loop it 0 n b = Some (b\<lparr>chain_meta := ms\<rparr>)"
  shows "lowerbound_loop (b\<lparr>chain_meta := ms\<rparr>) (of_nat it) lb = Some (lb + ucast n) \<and>
    (\<forall>i < length ms. md_desc (ms ! i) = md_desc (chain_meta b ! i)) \<and> take it ms = take it (chain_meta b)"
  using assms
proof (induction "sg_end b - it" arbitrary: it n b lb)
  case 0
  then have it: "it = sg_end b" by (simp add: place_ok_def)
  then have "unat n = 0" using 0(4) by simp
  then have "n = 0" by (simp only: unat_eq_zero)
  then have "ms = chain_meta b" using 0(6) by (cases b) simp
  then show ?case using it \<open>n = 0\<close> by (subst lowerbound_loop.simps) simp
next
  case (Suc k)
  let ?l = "l_length (desc_chain b ! it)"
  have it: "it < sg_end b" using Suc(2) by simp
  then have len: "it < length (desc_chain b)" "it < length (chain_meta b)" using Suc.prems(1) by (auto simp: sg_wf_def)
  have i16: "unat (of_nat it :: u16) = it"
    using it unsigned_less [of "active_chain_length b", where 'a = nat] by (simp add: unat_of_nat take_bit_nat_eq_self)
  have act: "(of_nat it :: u16) < active_chain_length b" using it i16 by (simp add: word_less_nat_alt)
  have nz: "?l \<noteq> 0" using active_nonzero [OF Suc.prems(1) it] by auto
  show ?case
  proof (cases "n = 0")
    case True
    then have "ms = chain_meta b" using Suc.prems(5) by (simp, metis sg_buffer.ext_inject sg_buffer.surjective sg_buffer.update_convs(10))
    then show ?thesis using True act i16 len nz Suc.prems(4) it by (subst lowerbound_loop.simps) (simp add: nth_opt_def)
  next
    case False
    let ?sz = "ucast ?l :: u64"
    let ?n = "if ?sz \<le> n then ?sz else n"
    let ?e = "track_written 0 ?n (chain_meta b ! it)"
    let ?b = "b\<lparr>chain_meta := (chain_meta b)[it := ?e]\<rparr>"
    have u: "unat ?sz = unat ?l" "unat ?l < 2 ^ 32" using unsigned_less [of ?l, where 'a = nat] by (simp_all add: unsigned_ucast_eq)
    have small: "\<not> 0xffffffff < ?n" using u by (auto simp: word_less_nat_alt word_le_nat_alt)
    have p0: "prefix_written (chain_meta b ! it) = 0" using Suc.prems(4) it by simp
    have e: "?e = (chain_meta b ! it)\<lparr>prefix_written := ucast ?n\<rparr>" using small p0 by (simp add: track_written_def Let_def)
    have tl: "track_loop it 0 n b = track_loop (Suc it) 0 (if ?sz \<le> n then n - ?sz else 0) ?b"
      using False len by (subst track_loop.simps) (simp add: nth_opt_def upd_opt_def Let_def)
    have same: "sg_wf ?b" "place_ok ?b (Suc it) 0" "rest ?b (Suc it) 0 = rest b (Suc it) 0" "active ?b = active b"
      using Suc.prems(1) place_next [OF Suc.prems(1) it] by (simp_all add: active_def sg_wf_def place_ok_def rest_def)
    have fresh: "\<forall>i. Suc it \<le> i \<longrightarrow> i < sg_end ?b \<longrightarrow> prefix_written (chain_meta ?b ! i) = 0"
      using Suc.prems(4) by simp
    let ?r = "if ?sz \<le> n then n - ?sz else 0"
    have "length (rest b it 0) = unat ?l + length (rest b (Suc it) 0)" using rest_next [OF Suc.prems(1) it, of 0] by simp
    then have "unat ?r \<le> length (rest ?b (Suc it) 0)"
      using Suc.prems(3) u same(3) by (auto simp: unat_minus_le word_le_nat_alt)
    moreover have "track_loop (Suc it) 0 ?r ?b = Some (?b\<lparr>chain_meta := ms\<rparr>)" using tl Suc.prems(5) by simp
    moreover have "k = sg_end ?b - Suc it" using Suc(2) by simp
    ultimately have ih: "lowerbound_loop (?b\<lparr>chain_meta := ms\<rparr>) (of_nat (Suc it)) (lb + ucast ?n) = Some (lb + ucast ?n + ucast ?r)"
      "\<forall>i < length ms. md_desc (ms ! i) = md_desc (chain_meta ?b ! i)" "take (Suc it) ms = take (Suc it) (chain_meta ?b)"
      using Suc(1) [OF _ same(1,2) _ fresh, of ?r "lb + ucast ?n"] by blast+
    have lm: "length ms = length (chain_meta b)"
      using track_loop_total [OF Suc.prems(1-3)] Suc.prems(5) by (auto, metis sg_buffer.ext_inject sg_buffer.surjective sg_buffer.update_convs(10))
    have mit: "ms ! it = ?e" using arg_cong [OF ih(3), of "\<lambda>xs. xs ! it"] len lm by simp
    have tk: "take it ms = take it (chain_meta b)" using arg_cong [OF ih(3), of "take it"] by simp
    have lb: "lowerbound_loop (b\<lparr>chain_meta := ms\<rparr>) (of_nat it) lb = Some (lb + ucast n)"
    proof (cases "?sz \<le> n")
      case True
      have uc: "(ucast ?sz :: u32) = ?l"
        using u by (simp add: word_unat_eq_iff unsigned_ucast_eq take_bit_nat_eq_self take_bit_word_eq_self)
      have "lowerbound_loop (b\<lparr>chain_meta := ms\<rparr>) (of_nat it) lb = Some (lb + ?l + ucast (n - ?sz))"
        using ih(1) True act i16 len lm mit e uc by (subst lowerbound_loop.simps) (simp add: nth_opt_def add.commute [of 1])
      moreover have "ucast (n - ?sz) = (ucast n - ?l :: u32)" using ucast_minus_le [OF True, where 'b = 32] uc by simp
      ultimately show ?thesis by simp
    next
      case False
      then have "unat n < unat ?l" using u by (simp add: not_le word_less_nat_alt)
      then have "unat (ucast n :: u32) \<noteq> unat ?l" using u(2) by (simp add: unsigned_ucast_eq take_bit_nat_eq_self)
      then have "(ucast n :: u32) \<noteq> ?l" by auto
      then show ?thesis using False act i16 len lm mit e by (subst lowerbound_loop.simps) (simp add: nth_opt_def)
    qed
    moreover have "md_desc (ms ! i) = md_desc (chain_meta b ! i)" if "i < length ms" for i
      using ih(2) that e len by (cases "i = it") simp_all
    ultimately show ?thesis using tk by blast
  qed
qed

lemma lowerbound_cookie: "lowerbound_loop (b\<lparr>cookie := c\<rparr>) i lb = lowerbound_loop b i lb"
proof (induction b i lb rule: lowerbound_loop.induct)
  case (1 b i lb)
  show ?case
  proof (cases "i < active_chain_length b \<and> unat i < length (desc_chain b) \<and> unat i < length (chain_meta b)")
    case True
    then have "nth_opt (desc_chain b) (unat i) = Some (desc_chain b ! unat i)" "nth_opt (chain_meta b) (unat i) = Some (chain_meta b ! unat i)"
      by simp_all
    from "1.IH" [OF _ refl this] True show ?thesis by (subst (1 2) lowerbound_loop.simps) (simp add: nth_opt_def)
  next
    case False
    then show ?thesis by (subst (1 2) lowerbound_loop.simps) (auto simp: nth_opt_def)
  qed
qed

text \<open>A chain that the device may write from its first byte.\<close>

lemma all_writable:
  assumes "sg_holds m ds b" "ds \<noteq> []" "\<forall>c \<in> set ds. desc_flags m c AND VIRTQ_DESC_WRITE_ONLY \<noteq> 0"
  shows "seen_writable_desc b" "first_writable_desc b = 0" "\<forall>l \<in> set (active b). \<not> should_only_read b (l_flags l)"
proof -
  have w: "\<forall>x \<in> set (map (read_desc m) ds). is_writable x" using assms(3) by (simp add: is_writable_def read_desc_def)
  have "list_ex is_writable (map (read_desc m) ds)" using w assms(2) by (cases ds) simp_all
  then show s: "seen_writable_desc b" using assms(1) by (simp add: sg_holds_def)
  have "takeWhile (\<lambda>d. \<not> is_writable d) (map (read_desc m) ds) = []" using w assms(2) by (cases ds) simp_all
  then show "first_writable_desc b = 0" using assms(1) s by (simp add: sg_holds_def unat_eq_zero)
  show "\<forall>l \<in> set (active b). \<not> should_only_read b (l_flags l)"
  proof
    fix l assume "l \<in> set (active b)"
    then have "(l_address l, l_length l, l_flags l) \<in> set (map (\<lambda>l. (l_address l, l_length l, l_flags l)) (active b))" by auto
    then show "\<not> should_only_read b (l_flags l)"
      using assms(3) by (auto simp: holds_active [OF assms(1)] read_desc_def should_only_read_def)
  qed
qed

text \<open>
  C23: the guest reads what the host sent. If the next chain on the receive queue is a valid chain that
  the device may write and whose buffers lie in guest memory, writing at most its length puts the
  bytes at the beginning of the chain, in the order of the chain and at the places that the IOMMU and
  the bus give to its addresses, and then gives the chain back with exactly the number of bytes
  written; the memory before that return, \<open>m2\<close>, differs from \<open>m1\<close> only there.
\<close>

theorem console_to_guest_delivers:
  assumes "queue_at RX d = Some qs" "constructed qs" "driver_initialized d" "sg_idle (rx_buff d)"
    and "is_size_valid (vq_size (device_queue qs))" "vq_size (device_queue qs) \<le> max_chain_length (rx_buff d)"
    and "dev_recv (m, device_queue qs) = Some (NONE, Some root, m1, q1)"
    and "valid_chain (unat (max_chain_length (rx_buff d))) m1 q1 root = Some ds"
    and "\<forall>c \<in> set ds. console_area e d (desc_address m1 c) (ucast (desc_length m1 c)) \<and> desc_flags m1 c AND VIRTQ_DESC_WRITE_ONLY \<noteq> 0"
    and "n \<noteq> 0" "unat n \<le> chain_bytes m1 ds" "buff \<noteq> 0"
    and "set (map (console_hva e d) (take (unat n) (chain_addrs m1 ds))) \<inter> set (area buff (unat n)) = {}"
  shows "\<exists>d' m2 m' q'. console_to_guest e buff n (d, m, x) = Some (True, d', m', x) \<and>
    m2 = move_bytes (map (console_hva e d) (take (unat n) (chain_addrs m1 ds))) (area buff (unat n)) m1 \<and>
    dev_send root (ucast n) (m2, q1) = Some (m', q') \<and> queue_at RX d' = Some (qs\<lparr>device_queue := q'\<rparr>)"
proof -
  have q1: "vq_size q1 = vq_size (device_queue qs)" using dev_recv_total [OF assms(5), of m] assms(7) by auto
  obtain b where b: "walk_chain True (rx_buff d, m, device_queue qs) = Some (NONE, (), b, m1, q1)" "sg_holds m1 ds b" "sg_held b"
    "hd ds = root" "ds \<noteq> []"
    by (rule walk_delivers [OF assms(4-8)]) (rule that; assumption)
  obtain c where c: "cookie b = Some c" "\<not> in_use c" using b(3) by (auto simp: sg_held_def)
  have wf: "sg_wf b" "0 < sg_end b" using b(3) by (simp_all add: sg_held_def)
  have wr: "seen_writable_desc b" "first_writable_desc b = 0" "\<forall>l \<in> set (active b). \<not> should_only_read b (l_flags l)"
    using all_writable [OF b(2,5)] assms(9) by blast+
  have acc: "chain_accessor.accessible (console_area e d) b" using holds_accessible [OF b(2), of e d] assms(9) by simp
  have sz: "unat (sg_size_bytes b) = chain_bytes m1 ds" using b(2) by (simp add: sg_holds_def)
  have part: "payload_part b 0 n = take (unat n) (chain_addrs m1 ds)" using holds_payload [OF b(2)] by (simp add: payload_part_def)
  have bnd: "unat (0 :: u64) + unat n \<le> unat (sg_size_bytes b)" using assms(11) sz by simp
  have dj: "set (map (console_hva e d) (payload_part b 0 n)) \<inter> set (area buff (unat n)) = {}" using assms(13) part by simp
  let ?m2 = "move_bytes (map (console_hva e d) (take (unat n) (chain_addrs m1 ds))) (area buff (unat n)) m1"
  from con.copy_from_linear_moves [OF wf(1) acc c assms(12,10) bnd wr(3) dj, of m1 x, unfolded part]
  obtain ms where ms: "copy_from_linear None (console_accessor e d) buff n 0 (b, m1, x) =
      Some (NONE, n, b\<lparr>cookie := Some (cookie_reset c), chain_meta := ms\<rparr>, ?m2, x)"
    "length ms = length (chain_meta b)" "buffer_track_written 0 n b = Some (b\<lparr>chain_meta := ms\<rparr>)"
    by (elim exE conjE) (rule that)
  have "\<not> sg_size_bytes b < 0" by simp
  then have tr: "track_loop 0 0 n b = Some (b\<lparr>chain_meta := ms\<rparr>)" using ms(3) by (simp add: buffer_track_written_def sg_find_def)
  have p0: "place_ok b 0 0" using active_nonzero [OF wf] by (simp add: place_ok_def)
  have r0: "rest b 0 0 = payload b" by (simp add: rest_def payload_def)
  have fresh: "\<forall>i. 0 \<le> i \<longrightarrow> i < sg_end b \<longrightarrow> prefix_written (chain_meta b ! i) = 0" using b(2) by (simp add: sg_holds_def)
  have nr: "unat n \<le> length (rest b 0 0)" using bnd r0 length_payload [OF wf(1)] by simp
  note lb = track_fresh [OF wf(1) p0 nr fresh tr, of 0]
  let ?b2 = "b\<lparr>cookie := Some (cookie_reset c), chain_meta := ms\<rparr>"
  have "?b2 = (b\<lparr>chain_meta := ms\<rparr>)\<lparr>cookie := Some (cookie_reset c)\<rparr>" by simp
  then have cong: "lowerbound_loop ?b2 i l = lowerbound_loop (b\<lparr>chain_meta := ms\<rparr>) i l" for i l
    by (simp only: lowerbound_cookie)
  have wl: "written_lowerbound ?b2 = Some (ucast n)"
    using lb wr(1,2) by (simp add: written_lowerbound_def get_first_writable_desc_def cong)
  have len0: "0 < length ms" using ms(2) wf by (auto simp: sg_wf_def)
  have "md_desc (chain_meta b ! 0) = root" using b(2,4,5) wf(2) by (cases ds) (auto simp: sg_holds_def)
  then have root: "md_desc (ms ! 0) = root" using lb len0 by simp
  obtain m' q' where s: "dev_send root (ucast n) (?m2, q1) = Some (m', q')"
    using vq_send_valid [of q1] assms(5) q1 by (fastforce simp: vq_send_def)
  let ?d' = "assert_queue_interrupt (put_queue RX q' (d\<lparr>rx_buff := reset_fields ?b2\<rparr>))"
  have "conclude_chain_use True False (?b2, ?m2, q1) = Some (reset_fields ?b2, m', q')"
    using b(3) wl root s len0 by (simp add: conclude_chain_use_def sg_held_def nth_opt_def vq_send_def sg_reset_def cookie_reset_def)
  moreover have mn: "min n (sg_size_bytes b) = n" using assms(11) sz by (simp add: min_def word_le_nat_alt)
  ultimately have "to_guest_loop e buff n 0 (d, m, x) = to_guest_loop e buff 0 n (?d', m', x)"
    using assms(1,10) b(1) ms(1) by (subst to_guest_loop.simps) simp
  also have "\<dots> = Some (True, ?d', m', x)" by (subst to_guest_loop.simps) simp
  finally have "console_to_guest e buff n (d, m, x) = Some (True, ?d', m', x)" using assms(1-3) by (simp add: console_to_guest_def)
  moreover have "queue_at RX ?d' = Some (qs\<lparr>device_queue := q'\<rparr>)"
    using assms(1) by (auto simp: queue_at_def assert_queue_interrupt_def put_queue_def)
  ultimately show ?thesis using s by blast
qed

subsection \<open>A console with one chain\<close>

text \<open>
  The machine has 256 bytes of guest memory at 0x1000, which the monitor sees at 0x70000, and its
  queues of four entries at 0x80000. The only chain is the first descriptor: four bytes at 0x1010
  with the flags \<open>f\<close>.
\<close>

definition demo_q :: vqueue where
  "demo_q = \<lparr>descriptor_base = 0x80000, available_base = 0x81000, used_base = 0x82000,
     available = \<lparr>rg_p = 0x81000, rg_size = 4\<rparr>, used = \<lparr>rg_p = 0x82000, rg_size = 4\<rparr>, vq_size = 4, vq_idx = 0, vq_prev = 0, driven_idx = 0\<rparr>"

definition demo_qs :: queue_state where
  "demo_qs = \<lparr>queue_num_descs = 4, device_queue = demo_q, constructed = True, desc_addr = 0x80000, avail_addr = 0x81000,
     used_addr = 0x82000\<rparr>"

definition demo_chain :: "u8 \<Rightarrow> memory" where
  "demo_chain f a = (if a = 0x80000 \<or> a = 0x80001 then 0x10 else if a = 0x80008 then 4 else if a = 0x8000c then f
     else if a = 0x81002 then 1 else if a = 0x70010 then 7 else if a = 0x90000 then 9 else 0)"

definition demo_console :: console where
  "demo_console = (let d = (console_new 41 4 0)\<lparr>rx_buff := demo_buffer, tx_buff := demo_buffer, driver_initialized := True\<rparr>
     in d\<lparr>vd_state := (vd_state d)\<lparr>queues := [demo_qs, demo_qs, queue_state_new]\<rparr>\<rparr>)"

lemma demo_console_fields:
  "queue_at RX demo_console = Some demo_qs" "queue_at TX demo_console = Some demo_qs" "driver_initialized demo_console"
  "rx_buff demo_console = demo_buffer" "tx_buff demo_console = demo_buffer" "\<not> use_io_mappings demo_console"
  "queues (vd_state demo_console) = [demo_qs, demo_qs, queue_state_new]"
  by (simp_all add: demo_console_def queue_at_def nth_opt_def Let_def use_io_mappings_def console_new_def virtio_device.defs
      virtio_device_new_def iommu_new_def)

lemma demo_idle: "sg_idle demo_buffer" "max_chain_length demo_buffer = 4"
  using demo_buffer_ready by (simp_all add: sg_idle_def demo_buffer_def buffer_new_def)

lemma demo_qs_fields: "constructed demo_qs" "device_queue demo_qs = demo_q" "vq_size demo_q = 4" "is_size_valid 4"
  by (simp_all add: demo_qs_def demo_q_def is_size_valid_def)

lemma demo_con_ok: "con_ok demo_console"
  using demo_idle by (simp add: con_ok_def queues_valid_def demo_console_fields demo_qs_fields tx_ok_def queue_state_new_def)

lemma demo_area: "console_area demo_env demo_console 0x1010 4"
proof -
  have dev: "get_as_device_at demo_env 0x1010 4 = Some demo_as" by (rule demo_env_at)
  have "spaces_placed demo_env"
    using demo_bus_inv by (simp add: spaces_placed_def demo_env_def demo_bus_devices demo_as_def simple_as_new_def)
  then show ?thesis
    using demo_console_fields(6) dev demo_addrs
    by (auto simp: console_area_def io_area_def gpa_area_def console_translate_def demo_as_def simple_as_new_def posix_cred_def)
qed

text \<open>The receipt of the chain: the index is written to the used ring.\<close>

definition demo_received :: "u8 \<Rightarrow> memory" where
  "demo_received f = used_set_avail_event (used demo_q) 1 (demo_chain f)"

lemma demo_received_at: "\<not> in_area 0x82024 2 a \<Longrightarrow> demo_received f a = demo_chain f a"
  by (simp add: demo_received_def used_set_avail_event_def demo_q_def set_offset_frame)

lemma demo_recv: "dev_recv (demo_chain f, demo_q) = Some (NONE, Some (desc_at 0x80000 0), demo_received f, demo_q\<lparr>vq_idx := 1\<rparr>)"
proof -
  have a: "avail_index (demo_chain f) (available demo_q) = 1"
    by (simp add: avail_index_def get_offset_16 demo_q_def demo_chain_def)
  have r: "avail_ring (demo_received f) (available demo_q) 0 = 0"
    by (simp add: avail_ring_def get_offset_16 demo_q_def demo_received_at in_area_def demo_chain_def)
  show ?thesis
    using r by (simp add: dev_recv_def a Let_def demo_received_def [symmetric] count_available_def ring_slot_def)
      (simp add: demo_q_def desc_at_def)
qed

lemma load_le_8: "load_le 8 m p = load_le 4 m p OR push_bit 32 (load_le 4 m (p + 4))"
proof -
  have e: "load_le 8 m p = load_le (Suc (Suc (Suc (Suc 4)))) m p" by simp
  show ?thesis unfolding e load_le_4 [of m p] by (simp only: load_le.simps) (simp add: push_bit_or or.assoc add.assoc)
qed

lemma demo_desc:
  "desc_flags (demo_received f) (desc_at 0x80000 0) = ucast f" "desc_length (demo_received f) (desc_at 0x80000 0) = 4"
  "desc_address (demo_received f) (desc_at 0x80000 0) = 0x1010"
  by (simp_all add: desc_flags_def desc_length_def desc_address_def desc_at_def get_offset_16 get_offset_def load_le_8 load_le_4
      demo_received_at in_area_def demo_chain_def)

lemma demo_valid:
  assumes "f = 0 \<or> f = 2"
  shows "valid_chain 4 (demo_received f) (demo_q\<lparr>vq_idx := 1\<rparr>) (desc_at 0x80000 0) = Some [desc_at 0x80000 0]"
proof -
  have "(ucast f :: u16) AND VIRTQ_DESC_CONT_NEXT = 0" using assms by auto
  then have "chain_spec (Suc n) (demo_received f) (demo_q\<lparr>vq_idx := 1\<rparr>) (desc_at 0x80000 0) = Some [desc_at 0x80000 0]" for n
    by (simp add: demo_desc)
  from this [of 3] have "chain_spec 4 (demo_received f) (demo_q\<lparr>vq_idx := 1\<rparr>) (desc_at 0x80000 0) = Some [desc_at 0x80000 0]" by simp
  moreover have "chain_ok False 0 [(0x1010, 4, ucast f)]" by simp
  ultimately show ?thesis by (simp add: valid_chain_def read_desc_def demo_desc)
qed

lemma demo_addrs_hva: "map (console_hva demo_env demo_console) (chain_addrs (demo_received f) [desc_at 0x80000 0]) = area 0x70010 4"
proof -
  have "chain_addrs (demo_received f) [desc_at 0x80000 0] = area 0x1010 4" by (simp add: chain_addrs_def demo_desc)
  moreover have "map (console_hva demo_env demo_console) (area 0x1010 (unat (4 :: u64))) = area (console_hva demo_env demo_console 0x1010) (unat (4 :: u64))"
    by (rule con.map_tr_area [OF demo_area])
  moreover have "console_hva demo_env demo_console 0x1010 = 0x70010"
    using console_hva_offset [OF _ demo_area, of demo_as 0] demo_area demo_env_at demo_addrs demo_console_fields(6)
    by (simp add: gpa_area_def console_translate_def demo_as_def simple_as_new_def)
  ultimately show ?thesis by simp
qed

theorem console_from_guest_delivers_witness:
  "\<exists>d' m'. console_from_guest demo_env 0x90000 4 (demo_console, demo_chain 0, ()) = Some (4, d', m', ()) \<and>
     map m' (area 0x90000 4) = [7, 0, 0, 0]"
proof -
  have d: "\<forall>c \<in> set [desc_at 0x80000 0]. console_area demo_env demo_console (desc_address (demo_received 0) c)
      (ucast (desc_length (demo_received 0) c))"
    using demo_area by (simp add: demo_desc)
  have dj: "set (map (console_hva demo_env demo_console) (take (unat (4 :: u64)) (chain_addrs (demo_received 0) [desc_at 0x80000 0])))
      \<inter> set (area 0x90000 (unat (4 :: u64))) = {}"
    using demo_addrs_hva [of 0] by (simp add: take_map [symmetric] take_area area_4)
  obtain d' m' where r: "console_from_guest demo_env 0x90000 4 (demo_console, demo_chain 0, ()) = Some (4, d', m', ())"
    "map m' (area 0x90000 (unat (4 :: u64))) = map (demo_received 0 \<circ> console_hva demo_env demo_console)
       (take (unat (4 :: u64)) (chain_addrs (demo_received 0) [desc_at 0x80000 0]))"
    using console_from_guest_delivers [OF demo_console_fields(2) demo_qs_fields(1) demo_console_fields(3), where n = 4 and out = "0x90000"
        and m = "demo_chain 0" and ds = "[desc_at 0x80000 0]" and e = demo_env and x = "()", OF _ _ _ _ _ d _ _ _ dj]
      demo_idle demo_qs_fields demo_recv [of 0] demo_valid [of 0] demo_console_fields(5) by (auto simp: demo_desc)
  have "map m' (area 0x90000 4) = map (demo_received 0) (take 4 (map (console_hva demo_env demo_console)
      (chain_addrs (demo_received 0) [desc_at 0x80000 0])))"
    using r(2) by (simp add: take_map)
  also have "\<dots> = [7, 0, 0, 0]"
    by (simp add: demo_addrs_hva area_4 demo_received_at in_area_def demo_chain_def)
  finally have g: "map m' (area 0x90000 4) = [7, 0, 0, 0]" .
  show ?thesis by (rule exI, rule exI, rule conjI, rule r(1), rule g)
qed

lemma area_single: "area p (Suc 0) = [p]"
  by (simp add: area_def)

lemma take_addrs_hva:
  "map (console_hva demo_env demo_console) (take n (chain_addrs (demo_received f) [desc_at 0x80000 0])) = take n (area 0x70010 4)"
  using demo_addrs_hva [of f] by (simp add: take_map [symmetric])

theorem console_to_guest_delivers_witness:
  "\<exists>d' m' q'. console_to_guest demo_env 0x90000 1 (demo_console, demo_chain 2, ()) = Some (True, d', m', ()) \<and>
     dev_send (desc_at 0x80000 0) 1 (move_bytes [0x70010] [0x90000] (demo_received 2), demo_q\<lparr>vq_idx := 1\<rparr>) = Some (m', q') \<and>
     move_bytes [0x70010] [0x90000] (demo_received 2) 0x70010 = 9"
proof -
  have d: "\<forall>c \<in> set [desc_at 0x80000 0]. console_area demo_env demo_console (desc_address (demo_received 2) c)
      (ucast (desc_length (demo_received 2) c)) \<and> desc_flags (demo_received 2) c AND VIRTQ_DESC_WRITE_ONLY \<noteq> 0"
    using demo_area by (simp add: demo_desc)
  have dj: "set (map (console_hva demo_env demo_console) (take (unat (1 :: u64)) (chain_addrs (demo_received 2) [desc_at 0x80000 0])))
      \<inter> set (area 0x90000 (unat (1 :: u64))) = {}"
    by (simp add: take_addrs_hva take_area area_single)
  obtain d' m' q' where r: "console_to_guest demo_env 0x90000 1 (demo_console, demo_chain 2, ()) = Some (True, d', m', ())"
    "dev_send (desc_at 0x80000 0) 1 (move_bytes [0x70010] [0x90000] (demo_received 2), demo_q\<lparr>vq_idx := 1\<rparr>) = Some (m', q')"
    using console_to_guest_delivers [OF demo_console_fields(1) demo_qs_fields(1) demo_console_fields(3), where n = 1 and buff = "0x90000"
        and m = "demo_chain 2" and ds = "[desc_at 0x80000 0]" and e = demo_env and x = "()", OF _ _ _ _ _ d _ _ _ dj]
      demo_idle demo_qs_fields demo_recv [of 2] demo_valid [of 2] demo_console_fields(4)
    by (auto simp: demo_desc take_addrs_hva take_area area_single)
  have g: "move_bytes [0x70010] [0x90000] (demo_received 2) 0x70010 = 9"
    by (simp add: demo_received_at in_area_def demo_chain_def)
  show ?thesis by (rule exI, rule exI, rule exI, rule conjI, rule r(1), rule conjI, rule r(2), rule g)
qed

theorem console_from_guest_returns_witness:
  "\<exists>d' w' r d'' w''. for_each [Con_memory (demo_chain 0, ())] (console_step demo_env) (demo_console, (\<lambda>_. 0, ())) = Some (d', w') \<and>
     console_from_guest demo_env 0x90000 4 (d', w') = Some (r, d'', w'') \<and> unat r \<le> 4"
proof -
  have s: "for_each [Con_memory (demo_chain 0, ())] (console_step demo_env) (demo_console, (\<lambda>_. 0, ())) =
      Some (demo_console, demo_chain 0, ())" by simp
  have u: "unmap_safe demo_env" using demo_spaces_mapped by (simp add: unmap_safe_def)
  obtain r d'' w'' where "console_from_guest demo_env 0x90000 4 (demo_console, demo_chain 0, ()) = Some (r, d'', w'')" "unat r \<le> unat (4 :: u64)"
    using console_from_guest_returns [OF s demo_con_ok u] by blast
  then show ?thesis using s by (cases w'') auto
qed

subsection \<open>A reset by the monitor after one by the driver\<close>

lemma reset_queue_sizes:
  assumes "state_reset e (s, w) = Some (s', w')" "length (queues s) = QUEUES_MAX"
  shows "queues s' = replicate QUEUES_MAX queue_state_new"
  using assms by (auto simp: state_reset_def bind_eq_Some_conv intro!: replicate_eqI dest!: destruct_all_valid)

lemma conclude_no_queue:
  assumes "sg_held b" "vq_size q = 0"
  shows "conclude_chain_use True f (b, m, q) = None"
proof -
  have "sg_end b \<le> length (desc_chain b)" "sg_end b \<le> length (chain_meta b)" using assms(1) by (auto simp: sg_held_def sg_wf_def)
  then have "\<exists>lb. written_lowerbound b = Some lb" using lowerbound_total by (simp add: written_lowerbound_def)
  then obtain lb where "written_lowerbound b = Some lb" by blast
  moreover have "complete_chain b" "0 < length (chain_meta b)" using assms(1) by (auto simp: sg_held_def sg_wf_def)
  ultimately show ?thesis
    using assms(2) by (simp add: conclude_chain_use_def nth_opt_def vq_send_def dev_send_def bump_driven_idx_def ring_slot_def)
qed

text \<open>
  When the driver writes 0 to the status register while the console holds a chain that it has
  read in part, the queues are destroyed but the chain stays. A reset of the console by the monitor
  then returns the chain to a queue of size 0 and divides by zero.
\<close>

theorem console_reset_after_driver_reset:
  assumes "con_ok d" "sg_held (tx_buff d)" "state_reset e (vd_state d, w) = Some (s, w')"
  shows "console_reset e (d\<lparr>vd_state := s\<rparr>, w'') = None"
proof -
  obtain m x where w: "w'' = (m, x)" by (cases w'')
  have len: "length (queues (vd_state d)) = QUEUES_MAX" and idle: "sg_idle (rx_buff d)"
    using assms(1) by (simp_all add: con_ok_def queues_valid_def)
  note qs = reset_queue_sizes [OF assms(3) len]
  have at: "queue_at RX (d\<lparr>vd_state := s\<rparr>) = Some queue_state_new"
    using RX_lt qs by (simp add: queue_at_def nth_opt_def)
  obtain b where b: "conclude_chain_use True False (rx_buff d, m, device_queue queue_state_new) = Some (b, m, device_queue queue_state_new)"
    using conclude_idle [OF idle] by blast
  let ?d = "put_queue RX (device_queue queue_state_new) (d\<lparr>vd_state := s, rx_buff := b\<rparr>)"
  have tx: "queue_at TX ?d = Some queue_state_new"
    using TX_lt qs by (simp add: queue_at_def put_queue_def nth_opt_def)
  have "vq_size (device_queue queue_state_new) = 0" by (simp add: queue_state_new_def queue_none_def)
  from conclude_no_queue [OF assms(2) this]
  have c: "conclude_chain_use True False (tx_buff ?d, m, device_queue queue_state_new) = None" by (simp add: put_queue_def)
  show ?thesis unfolding w using at b tx c by (simp add: console_reset_def)
qed

text \<open>A machine whose host undoes every mapping.\<close>

definition mapped_env :: "(nat, unit) as_env" where
  "mapped_env = demo_env\<lparr>env_host := demo_host\<lparr>host_munmap := \<lambda>_ _ w. (True, w)\<rparr>\<rparr>"

lemma destruct_all_mapped: "destruct_all mapped_env (qss, w) = Some (map (\<lambda>_. queue_state_new) qss, w)"
  by (induction qss) (simp_all add: queue_destruct_def unmap_area_def unmap_guest_mem_def unmap_mem_def mapped_env_def split_beta)

theorem console_reset_after_driver_reset_witness:
  "\<exists>b s w'. state_reset mapped_env (vd_state demo_console, (\<lambda>_. 0, ())) = Some (s, w') \<and>
     console_reset mapped_env (demo_console\<lparr>tx_buff := b, tx_buff_progress := 1, vd_state := s\<rparr>, (\<lambda>_. 0, ())) = None"
proof -
  obtain b where b: "sg_held b"
    by (rule walk_delivers [of demo_buffer demo_q "demo_chain 0" "desc_at 0x80000 0" "demo_received 0" "demo_q\<lparr>vq_idx := 1\<rparr>"
        "[desc_at 0x80000 0]"]) (use demo_idle demo_qs_fields demo_recv [of 0] demo_valid [of 0] in auto)
  let ?d = "demo_console\<lparr>tx_buff := b, tx_buff_progress := 1\<rparr>"
  obtain s w' where s: "state_reset mapped_env (vd_state demo_console, (\<lambda>_. 0, ())) = Some (s, w')"
    by (simp add: state_reset_def destruct_all_mapped)
  have "0 < unat (sg_size_bytes b)" using sg_held_size [OF b] by (simp only: unat_gt_0 not_False_eq_True)
  then have "1 \<le> sg_size_bytes b" unfolding word_le_nat_alt unat_1 by linarith
  then have "con_ok ?d" using demo_con_ok b by (simp add: con_ok_def tx_ok_def)
  from console_reset_after_driver_reset [OF this, of mapped_env "(\<lambda>_. 0, ())" s w' "(\<lambda>_. 0, ())"] b s
  have "console_reset mapped_env (demo_console\<lparr>tx_buff := b, tx_buff_progress := 1, vd_state := s\<rparr>, (\<lambda>_. 0, ())) = None" by simp
  with s show ?thesis by blast
qed

end
