(* ===== verification/VirtioIrq.thy ===== *)
theory VirtioIrq
  imports VirtioConsoleProps
begin

text \<open>
  The interrupt of the console and of the devices with a back end, over everything that happens to
  them: accesses of the driver, calls of the host, of the bus, of the IOMMU and of the back end.
\<close>

lemma agrees_frame:
  assumes "vd_calls d' = vd_calls d" "vd_irq d' = vd_irq d" "irq_status (vd_state d') = irq_status (vd_state d)"
  shows "line_agrees d' = line_agrees d" "line_up d' = line_up d"
  using assms by (simp_all add: line_agrees_def line_up_def)

lemma put_queue_line [simp]:
  "line_agrees (put_queue i q d) = line_agrees d" "line_up (put_queue i q d) = line_up d"
  by (intro agrees_frame; simp add: put_queue_def)+

lemma console_line [simp]:
  fixes d :: console
  shows "line_agrees (d\<lparr>rx_buff := b\<rparr>) = line_agrees d" "line_up (d\<lparr>rx_buff := b\<rparr>) = line_up d"
    "line_agrees (d\<lparr>tx_buff := b\<rparr>) = line_agrees d" "line_up (d\<lparr>tx_buff := b\<rparr>) = line_up d"
    "line_agrees (d\<lparr>tx_buff_progress := p\<rparr>) = line_agrees d" "line_up (d\<lparr>tx_buff_progress := p\<rparr>) = line_up d"
    "line_agrees (d\<lparr>tx_buff := b, tx_buff_progress := p\<rparr>) = line_agrees d" "line_up (d\<lparr>tx_buff := b, tx_buff_progress := p\<rparr>) = line_up d"
    "line_agrees (d\<lparr>driver_initialized := i\<rparr>) = line_agrees d" "line_up (d\<lparr>driver_initialized := i\<rparr>) = line_up d"
    "line_agrees (call_console c d) = line_agrees d" "line_up (call_console c d) = line_up d"
  by (intro agrees_frame; simp add: call_console_def)+

lemma iommu_line [simp]: "line_agrees (d\<lparr>vd_iommu := io\<rparr>) = line_agrees d" "line_up (d\<lparr>vd_iommu := io\<rparr>) = line_up d"
  by (intro agrees_frame; simp)+

lemma backed_line [simp]:
  fixes b :: backed_device
  shows "line_agrees (b\<lparr>bk_log := l\<rparr>) = line_agrees b" "line_up (b\<lparr>bk_log := l\<rparr>) = line_up b"
    "line_agrees (b\<lparr>backend_connected := c\<rparr>) = line_agrees b"
    "line_agrees (call_backend bc b) = line_agrees b"
  by (intro agrees_frame; simp add: call_backend_def)+

lemma console_notify_line [simp]:
  "line_agrees (console_notify m v d) = line_agrees d" "line_up (console_notify m v d) = line_up d"
  by (auto simp: console_notify_def Let_def split: option.splits)

lemma console_driver_ok_line [simp]:
  "line_agrees (console_driver_ok d) = line_agrees d" "vd_state (console_driver_ok d) = vd_state d"
  by (simp_all add: console_driver_ok_def Let_def, simp add: call_console_def)

lemma block_line [simp]:
  "line_agrees (block_notify v b) = line_agrees b" "line_up (block_notify v b) = line_up b"
  "line_agrees (block_driver_ok b) = line_agrees b" "vd_state (block_driver_ok b) = vd_state b"
  by (simp_all add: block_notify_def block_driver_ok_def)

lemmas assert_line = assert_agrees [THEN conjunct1] assert_agrees [THEN conjunct2]

subsection \<open>Characters to the guest\<close>

text \<open>A result of the loop with characters copied, or with an error, has the line up.\<close>

lemma to_guest_loop_line:
  assumes "to_guest_loop e p n i (d, w) = Some (ok, d', w')" "line_agrees d" "n = 0 \<Longrightarrow> line_up d"
  shows "line_agrees d' \<and> line_up d'"
proof -
  have "line_agrees (fst s) \<longrightarrow> (n = 0 \<longrightarrow> line_up (fst s)) \<longrightarrow> line_agrees (fst (snd r)) \<and> line_up (fst (snd r))"
    if "to_guest_loop e p n i s = Some r" for n i s r
    using that
  proof (induct rule: to_guest_loop.raw_induct [rotated, consumes 1])
    case (1 f e p n i s r)
    show ?case using 1(2) 
      by (cases s) (auto simp: bind_eq_Some_conv assert_line split: if_splits dest!: 1(1))
  qed
  from this [OF assms(1)] show ?thesis using assms(2,3) by simp
qed

subsection \<open>Characters from the guest\<close>

lemma copy_to_linear_size:
  assumes "copy_to_linear f acc dst sz off (b, w) = Some (err, k, b', w')"
  shows "sg_size_bytes b' = sg_size_bytes b"
proof -
  have tr: "sg_size_bytes (fst s') = sg_size_bytes (fst s)"
    if t: "try_end_copy_to_linear f acc s = Some (err, n, s')" for s err n s'
  proof -
    obtain b w where bw: "s = (b, w)" by (rule prod.exhaust)
    then obtain c where s: "s = (b, w)" "cookie b = Some c"
      using t by (auto simp: try_end_copy_to_linear_def bind_eq_Some_conv)
    show ?thesis
    proof (cases "is_src_to_linear c")
      case True
      let ?r = "if 0 < req_sz c then copy_fromto_linear_impl False (case f of None \<Rightarrow> memcpy | Some g \<Rightarrow> g) acc (req_linear_dst c) b w
                 else Some (if req_s_off c \<le> sg_size_bytes b then NONE else NOENT, 0, w)"
      have "do { (err, n, w) \<leftarrow> ?r; b \<leftarrow> cookie_modify (if err \<noteq> AGAIN then conclude_src else record_bytes_copied n) b; Some (err, n, b, w) } = Some (err, n, s')"
        using t s True by (simp add: try_end_copy_to_linear_def)
      then obtain g where "cookie_modify g b = Some (fst s')"
        by (cases ?r) (auto simp only: bind.simps option.simps split_def bind_eq_Some_conv prod.inject option.inject fst_conv)
      then show ?thesis using s by (auto simp: cookie_modify_def bind_eq_Some_conv dest!: sym [of _ "fst s'"])
    qed (use t s in \<open>simp add: try_end_copy_to_linear_def\<close>)
  qed
  have rt: "sg_size_bytes (fst s') = sg_size_bytes (fst s)"
    if "retry (try_end_copy_to_linear f acc) j n s = Some (err, n', s')" for j n s err n' s'
    using that
  proof (induction j arbitrary: n s)
    case 0
    then show ?case by (auto simp: retry.simps [of _ 0] bind_eq_Some_conv dest: tr)
  next
    case (Suc j)
    then show ?case by (auto simp: retry.simps [of _ "Suc j"] bind_eq_Some_conv split: if_splits dest!: tr Suc.IH)
  qed
  show ?thesis
    using assms by (auto simp: copy_to_linear_def start_copy_to_linear_def cookie_modify_def bind_eq_Some_conv split: if_splits dest!: rt)
qed

lemma next_tx_line:
  assumes "next_tx_chain (d, w) = Some (err, d', w')"
  shows "line_agrees d' = line_agrees d" "line_up d' = line_up d" "err \<noteq> NONE \<Longrightarrow> sg_size_bytes (tx_buff d) = 0"
    "sg_size_bytes (tx_buff d) = 0 \<Longrightarrow> tx_buff_progress d' = 0" "sg_size_bytes (tx_buff d) \<noteq> 0 \<Longrightarrow> d' = d"
  using assms by (cases w; auto simp: next_tx_chain_def bind_eq_Some_conv split: if_splits prod.splits)+

lemma conclude_tx_line:
  assumes "conclude_tx (d, w) = Some (d', w')" "line_agrees d"
  shows "line_agrees d' \<and> line_up d'"
  using assms by (cases w) (auto simp: conclude_tx_def bind_eq_Some_conv assert_line)

lemma copy_tx_line:
  assumes "copy_tx e dst n (d, w) = Some (err, k, d', w')"
  shows "line_agrees d' = line_agrees d" "line_up d' = line_up d" "sg_size_bytes (tx_buff d') = sg_size_bytes (tx_buff d)"
    "n = 0 \<Longrightarrow> k = 0" "tx_buff_progress d' = tx_buff_progress d"
  using assms by (auto simp: copy_tx_def bind_eq_Some_conv dest: copy_to_linear_size split: if_splits)

text \<open>
  With something read, either the buffer still holds its chain or the line is up. So a result that is
  short of what was asked for leaves the line up.
\<close>

lemma from_guest_loop_line:
  assumes "from_guest_loop e out n z (d, w) = Some (r, d', w')" "line_agrees d"
    and "z = 0 \<or> sg_size_bytes (tx_buff d) \<noteq> 0 \<or> line_up d"
  shows "line_agrees d' \<and> (r = z + n \<or> r = 0 \<or> line_up d')"
proof -
  have "line_agrees (fst s) \<longrightarrow> (z = 0 \<or> sg_size_bytes (tx_buff (fst s)) \<noteq> 0 \<or> line_up (fst s)) \<longrightarrow>
      line_agrees (fst (snd y)) \<and> (fst y = z + n \<or> fst y = 0 \<or> line_up (fst (snd y)))"
    if "from_guest_loop e out n z s = Some y" for n z s y
    using that
  proof (induct rule: from_guest_loop.raw_induct [rotated, consumes 1])
    case (1 f e out n z s y)
    note IH = 1(1) and eq = 1(2)
    obtain d w where s: "s = (d, w)" by (cases s)
    show ?case
    proof (intro impI)
      assume ag: "line_agrees (fst s)" and c: "z = 0 \<or> sg_size_bytes (tx_buff (fst s)) \<noteq> 0 \<or> line_up (fst s)"
      show "line_agrees (fst (snd y)) \<and> (fst y = z + n \<or> fst y = 0 \<or> line_up (fst (snd y)))"
      proof (cases "n = 0")
        case True
        then show ?thesis using eq ag by auto
      next
        case False
        then obtain err d1 w1 where nx: "next_tx_chain (d, w) = Some (err, d1, w1)" using eq s by (auto simp: bind_eq_Some_conv)
        note l1 = next_tx_line [OF nx]
        show ?thesis
        proof (cases "err = NONE")
          case False
          then have "y = (z, d1, w1)" using eq s nx \<open>n \<noteq> 0\<close> by auto
          then show ?thesis using l1 False ag c s by auto
        next
          case True
          let ?k = "min n (sg_size_bytes (tx_buff d1) - tx_buff_progress d1)"
          obtain err2 k d2 w2 where cp: "copy_tx e (out + z) ?k (d1, w1) = Some (err2, k, d2, w2)"
            using eq s nx \<open>n \<noteq> 0\<close> True by (auto simp: bind_eq_Some_conv)
          note l2 = copy_tx_line [OF cp]
          show ?thesis
          proof (cases "err2 \<noteq> NONE \<or> k = 0")
            case True
            then obtain d3 w3 where cn: "conclude_tx (d2, w2) = Some (d3, w3)"
              "if err2 \<noteq> NONE then y = (z, d3, w3) else f e out n z (d3, w3) = Some y"
              using eq s nx cp \<open>n \<noteq> 0\<close> \<open>err = NONE\<close> by (auto simp: bind_eq_Some_conv split: if_splits)
            have "line_agrees d3 \<and> line_up d3" using conclude_tx_line [OF cn(1)] l1(1) l2(1) ag s by simp
            then show ?thesis using cn(2) IH [of e out n z "(d3, w3)" y] by (auto split: if_splits)
          next
            case False
            then have "f e out (n - k) (z + k) (d2\<lparr>tx_buff_progress := tx_buff_progress d2 + k\<rparr>, w2) = Some y"
              using eq s nx cp \<open>n \<noteq> 0\<close> \<open>err = NONE\<close> by auto
            note ih = IH [OF this]
            have "?k \<noteq> 0" using l2(4) False by blast
            then have "sg_size_bytes (tx_buff d1) \<noteq> 0" using l1(4,5) by (cases "sg_size_bytes (tx_buff d) = 0") auto
            then show ?thesis using ih l1(1) l2(1,3) ag s by simp
          qed
        qed
      qed
    qed
  qed
  from this [OF assms(1)] show ?thesis using assms(2,3) by simp
qed


subsection \<open>Every event\<close>

definition console_resets :: "'x console_event \<Rightarrow> console \<Rightarrow> bool" where
  "console_resets ev d = (case ev of Con_access a off sz v \<Rightarrow> access_resets a off sz v d | Con_reset \<Rightarrow> True | _ \<Rightarrow> False)"

definition backed_resets :: "'x backed_event \<Rightarrow> backed_device \<Rightarrow> bool" where
  "backed_resets ev b = (case ev of Access a off sz v \<Rightarrow> access_resets a off sz v b | Reset_device \<Rightarrow> True | _ \<Rightarrow> False)"

lemma reset_virtio_agrees:
  assumes "reset_virtio e (d, w) = Some (d', w')"
  shows "\<not> line_up d \<Longrightarrow> line_agrees d'" "line_up d' = line_up d"
  using assms state_reset_irq [of e "vd_state d" w]
  by (auto simp: reset_virtio_def bind_eq_Some_conv line_agrees_def line_up_def)

lemma console_to_guest_line:
  assumes "console_to_guest e p n (d, w) = Some (ok, d', w')" "line_agrees d"
  shows "line_agrees d'" "ok \<Longrightarrow> n \<noteq> 0 \<Longrightarrow> line_up d'"
proof -
  have "line_agrees d' \<and> (ok \<longrightarrow> n \<noteq> 0 \<longrightarrow> line_up d')"
  proof (cases "n = 0")
    case True
    then have "d' = d" using assms(1)
      by (cases w) (auto simp: console_to_guest_def to_guest_loop.simps bind_eq_Some_conv split: if_splits)
    then show ?thesis using assms(2) True by simp
  next
    case False
    then show ?thesis using assms to_guest_loop_line [of e p n 0 d w ok d' w']
      by (auto simp: console_to_guest_def bind_eq_Some_conv split: if_splits)
  qed
  then show "line_agrees d'" "ok \<Longrightarrow> n \<noteq> 0 \<Longrightarrow> line_up d'" by simp_all
qed

lemma console_from_guest_line:
  assumes "console_from_guest e out n (d, w) = Some (r, d', w')" "line_agrees d"
  shows "line_agrees d'" "r \<noteq> 0 \<Longrightarrow> r \<noteq> n \<Longrightarrow> line_up d'"
  using assms from_guest_loop_line [of e out n 0 d w r d' w']
  by (auto simp: console_from_guest_def bind_eq_Some_conv split: if_splits)

lemma console_reset_agrees:
  assumes "console_reset e (d, w) = Some (d', w')" "\<not> line_up d"
  shows "line_agrees d'"
proof -
  obtain m x where w: "w = (m, x)" by (cases w)
  then obtain q1 b1 q2 b2 d1 m1 where r: "reset_virtio e (call_console Empty_space
      (put_queue TX q2 ((put_queue RX q1 (d\<lparr>rx_buff := b1\<rparr>))\<lparr>tx_buff := b2\<rparr>)), m1, x) = Some (d1, w')"
    "d' = (if con_dev_callback d1 then call_console Con_device_reset d1 else d1)"
    using assms(1) by (auto simp: console_reset_def bind_eq_Some_conv Let_def)
  then show ?thesis using reset_virtio_agrees(1) [OF r(1)] assms(2) by simp
qed

lemma console_step_agrees:
  assumes "console_step e ev (d, w) = Some (d', w')" "line_agrees d"
  shows "line_agrees d' \<or> console_resets ev d \<and> line_up d"
proof (cases ev)
  case (Con_access a off sz v)
  then obtain err v' where "virtio_access e (console_virtuals (fst w)) a off sz v (d, w) = Some (err, v', d', w')" using assms(1) by auto
  from access_agrees [OF this assms(2)] show ?thesis using Con_access by (simp add: console_virtuals_def console_resets_def)
next
  case (Con_to_guest p n)
  then show ?thesis using assms console_to_guest_line(1) [of e p n d w] by auto
next
  case (Con_from_guest p n)
  then show ?thesis using assms console_from_guest_line(1) [of e p n d w] by auto
next
  case Con_reset
  then show ?thesis using assms(1) console_reset_agrees [of e d w d' w'] by (auto simp: console_resets_def)
qed (use assms in \<open>auto simp: console_shutdown_def console_detach_def console_map_def console_unmap_def split: prod.splits if_splits\<close>)

lemma backed_step_agrees:
  assumes "backed_step e ev (b, w) = Some (b', w')" "line_agrees b"
  shows "line_agrees b' \<or> backed_resets ev b \<and> line_up b"
proof (cases ev)
  case (Access a off sz v)
  then obtain err v' where "virtio_access e block_virtuals a off sz v (b, w) = Some (err, v', b', w')" using assms(1) by auto
  from access_agrees [OF this assms(2)] show ?thesis using Access by (simp add: block_virtuals_def backed_resets_def)
next
  case Reset_device
  then have r: "reset_virtio e (call_backend Device_reset b, w) = Some (b', w')" using assms(1) by (simp add: block_reset_def)
  have "line_up (call_backend Device_reset b) = line_up b" by (simp add: call_backend_def)
  then show ?thesis using reset_virtio_agrees(1) [OF r] Reset_device by (auto simp: backed_resets_def)
next
  case Signal_guest
  then show ?thesis using assms assert_line(1) [of b] by (auto simp: block_signal_def split: if_splits)
qed (use assms in \<open>auto simp: block_shutdown_def block_attach_def block_detach_def block_connect_def block_disconnect_def
  block_map_def block_unmap_def Let_def split: prod.splits if_splits\<close>)

text \<open>
  C20: the interrupt line of the console and of the devices with a back end (block, and with the same
  functions network and socket) is up exactly when bit 0 of the interrupt status is set. It is so for
  a new device and after every event, with the device's own \<open>notify\<close> and \<open>driver_ok\<close>; the one exception
  is a reset with the line up, which clears the status and leaves the line. The line is up after
  characters were handed to the guest, after a read of the console that got some and fewer than it
  asked for, which gave the driver a chain back, and after the signal of a connected back end. An
  acknowledgement of the driver lowers it.
\<close>

theorem virtio_line_agrees:
  assumes "line_agrees d" "line_agrees b"
  shows "line_agrees (console_new irq qe f) \<and> line_agrees (backed_device_new dev irq qe f cfg) \<and>
    (console_step e ev (d, w) = Some (d', w') \<longrightarrow> line_agrees d' \<or> console_resets ev d \<and> line_up d) \<and>
    (backed_step e ev' (b, w) = Some (b', w') \<longrightarrow> line_agrees b' \<or> backed_resets ev' b \<and> line_up b) \<and>
    (console_to_guest e p n (d, w) = Some (True, d', w') \<and> n \<noteq> 0 \<longrightarrow> line_up d') \<and>
    (console_from_guest e p n (d, w) = Some (r, d', w') \<and> r \<noteq> 0 \<and> r \<noteq> n \<longrightarrow> line_up d') \<and>
    (backend_connected b \<longrightarrow> line_up (block_signal b)) \<and>
    (virtio_access e (console_virtuals m) WRITE 0x64 sz val (d, w) = Some (OK, v, d', w') \<longrightarrow> \<not> line_up d') \<and>
    (virtio_access e block_virtuals WRITE 0x64 sz val (b, w) = Some (OK, v, b', w') \<longrightarrow> \<not> line_up b')"
proof (intro conjI impI; (elim conjE)?)
  show "line_agrees (console_new irq qe f)"
    by (simp add: console_new_def virtio_device_new_def device_state_new_def virtio_device.defs line_agrees_def line_up_def)
  show "line_agrees (backed_device_new dev irq qe f cfg)"
    by (simp add: backed_device_new_def virtio_device_new_def device_state_new_def virtio_device.defs line_agrees_def line_up_def)
  show "line_agrees d' \<or> console_resets ev d \<and> line_up d" if "console_step e ev (d, w) = Some (d', w')"
    by (rule console_step_agrees [OF that assms(1)])
  show "line_agrees b' \<or> backed_resets ev' b \<and> line_up b" if "backed_step e ev' (b, w) = Some (b', w')"
    by (rule backed_step_agrees [OF that assms(2)])
  show "line_up d'" if "console_to_guest e p n (d, w) = Some (True, d', w')" "n \<noteq> 0"
    using console_to_guest_line(2) [OF that(1) assms(1)] that(2) by simp
  show "line_up d'" if "console_from_guest e p n (d, w) = Some (r, d', w')" "r \<noteq> 0" "r \<noteq> n"
    by (rule console_from_guest_line(2) [OF that(1) assms(1) that(2,3)])
  show "line_up (block_signal b)" if "backend_connected b"
    using that assert_line(2) [OF assms(2)] by (simp add: block_signal_def)
  show "\<not> line_up d'" if "virtio_access e (console_virtuals m) WRITE 0x64 sz val (d, w) = Some (OK, v, d', w')"
    by (rule access_ack_lowers [OF that]) (simp_all add: console_virtuals_def)
  show "\<not> line_up b'" if "virtio_access e block_virtuals WRITE 0x64 sz val (b, w) = Some (OK, v, b', w')"
    by (rule access_ack_lowers [OF that]) (simp_all add: block_virtuals_def)
qed


text \<open>The back end of a block device raises the line, the driver acknowledges; the same for a console whose interrupt is up.\<close>

definition irq_console :: console where
  "irq_console = assert_queue_interrupt (console_new 0x2a 8 0)"

definition irq_block :: backed_device where
  "irq_block = block_connect demo_block"

lemma ack_access:
  assumes "\<not> construct_queue (vd_state d)" "\<not> status_changed (vd_state d)" "\<not> ds_notify (vd_state d)"
  shows "virtio_access e vt WRITE 0x64 4 1 (d, w) =
     Some (OK, 1, deassert_queue_interrupt (d\<lparr>vd_state := (vd_state d)\<lparr>irq_acknowledged := False\<rparr>\<rparr>), w)"
  using assms
  by (simp add: virtio_access_def mmio_access_def mmio_write_def at_reg_def word_le_nat_alt word_less_nat_alt handle_events_def
      Let_def deassert_queue_interrupt_def)

theorem virtio_line_agrees_witness:
  "\<exists>d' b'. virtio_access demo_env (console_virtuals demo_mem) WRITE 0x64 4 1 (irq_console, (demo_mem, ())) = Some (OK, 1, d', (demo_mem, ())) \<and>
     virtio_access demo_env block_virtuals WRITE 0x64 4 1 (block_signal irq_block, (demo_mem, ())) = Some (OK, 1, b', (demo_mem, ())) \<and>
     line_up irq_console \<and> \<not> line_up d' \<and> line_agrees d' \<and> \<not> line_up irq_block \<and> line_up (block_signal irq_block) \<and> \<not> line_up b'"
proof -
  let ?d = irq_console and ?b = "block_signal irq_block"
  have nb: "line_agrees irq_block" "\<not> line_up irq_block" "backend_connected irq_block"
    by (simp_all add: irq_block_def block_connect_def demo_block_def block_register_callback_def block_new_def backed_device_new_def
        virtio_device_new_def device_state_new_def virtio_device.defs line_agrees_def line_up_def)
  have nd: "line_agrees (console_new 0x2a 8 0)"
    by (simp add: console_new_def virtio_device_new_def device_state_new_def virtio_device.defs line_agrees_def line_up_def)
  have d: "line_agrees ?d" "line_up ?d" using assert_line [OF nd] by (simp_all add: irq_console_def)
  have b: "line_agrees ?b" using assert_line(1) [OF nb(1)] nb(3) by (simp add: block_signal_def)
  have fd: "\<not> construct_queue (vd_state ?d)" "\<not> status_changed (vd_state ?d)" "\<not> ds_notify (vd_state ?d)"
    by (simp_all add: irq_console_def assert_queue_interrupt_def console_new_def virtio_device_new_def device_state_new_def virtio_device.defs)
  have fb: "\<not> construct_queue (vd_state ?b)" "\<not> status_changed (vd_state ?b)" "\<not> ds_notify (vd_state ?b)"
    by (simp_all add: block_signal_def irq_block_def block_connect_def demo_block_def block_register_callback_def block_new_def
        backed_device_new_def assert_queue_interrupt_def virtio_device_new_def device_state_new_def virtio_device.defs)
  have up: "line_up ?b"
    using virtio_line_agrees [where d = ?d and b = irq_block, OF d(1) nb(1)] nb(3) by blast
  note ad = ack_access [where e = demo_env and w = "(demo_mem, ())" and vt = "console_virtuals demo_mem", OF fd]
  note ab = ack_access [where e = demo_env and w = "(demo_mem, ())" and vt = block_virtuals, OF fb]
  have cs: "console_step demo_env (Con_access WRITE 0x64 4 1) (?d, (demo_mem, ())) =
      Some (deassert_queue_interrupt (?d\<lparr>vd_state := (vd_state ?d)\<lparr>irq_acknowledged := False\<rparr>\<rparr>), (demo_mem, ()))"
    using ad by simp
  note res = virtio_line_agrees [where d = ?d and b = ?b, OF d(1) b]
  have "\<not> line_up (deassert_queue_interrupt (?d\<lparr>vd_state := (vd_state ?d)\<lparr>irq_acknowledged := False\<rparr>\<rparr>))"
    "\<not> line_up (deassert_queue_interrupt (?b\<lparr>vd_state := (vd_state ?b)\<lparr>irq_acknowledged := False\<rparr>\<rparr>))"
    using res ad ab by metis+
  then show ?thesis using ad ab d nb up deassert_agrees(1) by blast
qed

end
