(* ===== verification/CpuFeature.thy ===== *)
theory CpuFeature
  imports Prelude
begin

text \<open>
  \<open>vcpu/cpu_model/include/model/cpu_feature.hpp\<close>: the features of a vCPU that several requestors
  switch on and off. A requestor stores its configuration and then marks the feature dirty; the
  vCPU clears the mark and then reads the configurations. The two sides run in different threads
  over atomic words, so the order of their accesses is modelled: each side is a list of actions,
  one per atomic access. An abort is \<open>None\<close>.
\<close>

subsection \<open>CpuFeature\<close>

type_synonym requestor = u32

abbreviation VMM :: requestor where "VMM \<equiv> 0"
abbreviation VMI :: requestor where "VMI \<equiv> 1"
abbreviation MAX_REQUESTORS :: requestor where "MAX_REQUESTORS \<equiv> 2"
abbreviation ENABLE_MASK :: u64 where "ENABLE_MASK \<equiv> 0x8000000000000000"

record cpu_feature =
  fe_requests :: "u64 list"
  fe_dirty :: bool

definition feature_new :: cpu_feature where
  "feature_new = \<lparr>fe_requests = [0, 0], fe_dirty = False\<rparr>"

datatype feature_action = Store_request requestor u64 | Set_dirty | Clear_dirty | Load_request requestor

fun feature_act :: "feature_action \<Rightarrow> cpu_feature \<times> u64 list \<Rightarrow> (cpu_feature \<times> u64 list) option" where
  "feature_act (Store_request r v) (f, loads) =
     do { reqs \<leftarrow> upd_opt (fe_requests f) (unat r) (\<lambda>_. v); Some (f\<lparr>fe_requests := reqs\<rparr>, loads) }"
| "feature_act Set_dirty (f, loads) = Some (f\<lparr>fe_dirty := True\<rparr>, loads)"
| "feature_act Clear_dirty (f, loads) = Some (f\<lparr>fe_dirty := False\<rparr>, loads)"
| "feature_act (Load_request r) (f, loads) =
     do { v \<leftarrow> nth_opt (fe_requests f) (unat r); l \<leftarrow> upd_opt loads (unat r) (\<lambda>_. v); Some (f, l) }"

definition force_reconfiguration :: "feature_action list" where "force_reconfiguration = [Set_dirty]"

definition request_actions :: "bool \<Rightarrow> requestor \<Rightarrow> u64 \<Rightarrow> feature_action list" where
  "request_actions enable r regs = Store_request r (if enable then regs OR ENABLE_MASK else 0) # force_reconfiguration"

definition read_actions :: "feature_action list" where "read_actions = [Load_request 0, Load_request 1]"
definition clean_actions :: "feature_action list" where "clean_actions = [Clear_dirty]"
definition clean_read_actions :: "feature_action list" where "clean_read_actions = clean_actions @ read_actions"

text \<open>What \<open>read\<close> makes of the two words that it loads.\<close>

definition conf_of :: "u64 list \<Rightarrow> bool \<times> u64" where
  "conf_of loads = (let conf = foldr (OR) loads 0 in
     if conf AND ENABLE_MASK \<noteq> 0 then (True, conf AND NOT ENABLE_MASK) else (False, 0))"

text \<open>The operations, when no other thread interferes.\<close>

definition feature_is_requested_by :: "requestor \<Rightarrow> cpu_feature \<Rightarrow> bool option" where
  "feature_is_requested_by r f = do {
     ASSERT (r < MAX_REQUESTORS);
     v \<leftarrow> nth_opt (fe_requests f) (unat r);
     Some (v AND ENABLE_MASK \<noteq> 0)
   }"

definition feature_is_requested :: "cpu_feature \<Rightarrow> bool option" where
  "feature_is_requested f = do {
     a \<leftarrow> feature_is_requested_by VMM f;
     if a then Some True else feature_is_requested_by VMI f
   }"

definition feature_run :: "feature_action list \<Rightarrow> cpu_feature \<Rightarrow> (cpu_feature \<times> u64 list) option" where
  "feature_run acts f = for_each acts feature_act (f, [0, 0])"

definition feature_read :: "cpu_feature \<Rightarrow> (bool \<times> u64) option" where
  "feature_read f = map_option (\<lambda>(_, loads). conf_of loads) (feature_run read_actions f)"

definition feature_clean_read :: "cpu_feature \<Rightarrow> ((bool \<times> u64) \<times> cpu_feature) option" where
  "feature_clean_read f = map_option (\<lambda>(f, loads). (conf_of loads, f)) (feature_run clean_read_actions f)"

definition feature_check_clean :: "cpu_feature \<Rightarrow> bool \<times> cpu_feature" where
  "feature_check_clean f = (fe_dirty f, if fe_dirty f then f\<lparr>fe_dirty := False\<rparr> else f)"

text \<open>\<open>old\<close> is what the caller's variables hold, which are left alone when nothing is read.\<close>

definition feature_check_clean_read :: "bool \<Rightarrow> bool \<times> u64 \<Rightarrow> cpu_feature \<Rightarrow> (bool \<times> (bool \<times> u64) \<times> cpu_feature) option" where
  "feature_check_clean_read always old f = (case feature_check_clean f of (dirty, f) \<Rightarrow> do {
     conf \<leftarrow> (if always \<or> dirty then feature_read f else Some old);
     Some (dirty, conf, f)
   })"

definition feature_request :: "bool \<Rightarrow> requestor \<Rightarrow> u64 \<Rightarrow> cpu_feature \<Rightarrow> cpu_feature option" where
  "feature_request enable r regs f = do {
     ASSERT (r < MAX_REQUESTORS);
     ASSERT (ENABLE_MASK AND regs = 0);
     map_option fst (feature_run (request_actions enable r regs) f)
   }"

definition feature_force_reconfiguration :: "cpu_feature \<Rightarrow> cpu_feature" where
  "feature_force_reconfiguration f = f\<lparr>fe_dirty := True\<rparr>"

definition feature_needs_reconfiguration :: "cpu_feature \<Rightarrow> bool" where
  "feature_needs_reconfiguration f = fe_dirty f"

definition feature_clean :: "cpu_feature \<Rightarrow> cpu_feature" where
  "feature_clean f = f\<lparr>fe_dirty := False\<rparr>"

subsection \<open>CpuFlag\<close>

text \<open>A flag keeps its requests and the dirty mark in one byte.\<close>

type_synonym cpu_flag = u8

abbreviation FLAG_DIRTY :: u8 where "FLAG_DIRTY \<equiv> 4"
abbreviation ONLY_DATA :: u8 where "ONLY_DATA \<equiv> 3"

definition requestor_bit :: "requestor \<Rightarrow> u8" where
  "requestor_bit r = push_bit (unat r) 1"

definition flag_is_requested_by :: "requestor \<Rightarrow> cpu_flag \<Rightarrow> bool option" where
  "flag_is_requested_by r x = do { ASSERT (r < MAX_REQUESTORS); Some (x AND requestor_bit r \<noteq> 0) }"

definition flag_is_requested :: "cpu_flag \<Rightarrow> bool" where
  "flag_is_requested x \<longleftrightarrow> x AND ONLY_DATA \<noteq> 0"

definition flag_read :: "cpu_flag \<Rightarrow> bool" where
  "flag_read x \<longleftrightarrow> x AND ONLY_DATA \<noteq> 0"

definition flag_check_clean_read :: "cpu_flag \<Rightarrow> bool \<times> bool \<times> cpu_flag" where
  "flag_check_clean_read x = (x AND FLAG_DIRTY \<noteq> 0, x AND ONLY_DATA \<noteq> 0, x AND ONLY_DATA)"

definition flag_clean_read :: "cpu_flag \<Rightarrow> bool \<times> cpu_flag" where
  "flag_clean_read x = (x AND ONLY_DATA \<noteq> 0, x AND ONLY_DATA)"

definition flag_force_reconfiguration :: "cpu_flag \<Rightarrow> cpu_flag" where
  "flag_force_reconfiguration x = x OR FLAG_DIRTY"

definition flag_needs_reconfiguration :: "cpu_flag \<Rightarrow> bool" where
  "flag_needs_reconfiguration x \<longleftrightarrow> x AND FLAG_DIRTY \<noteq> 0"

definition flag_request :: "bool \<Rightarrow> requestor \<Rightarrow> cpu_flag \<Rightarrow> cpu_flag option" where
  "flag_request enable r x = do {
     ASSERT (r < MAX_REQUESTORS);
     Some (flag_force_reconfiguration (if enable then x OR requestor_bit r else x AND NOT (requestor_bit r)))
   }"

definition flag_check_clean :: "cpu_flag \<Rightarrow> bool \<times> cpu_flag" where
  "flag_check_clean x = (x AND FLAG_DIRTY \<noteq> 0, x AND ONLY_DATA)"

definition flag_clean :: "cpu_flag \<Rightarrow> cpu_flag" where
  "flag_clean x = x AND ONLY_DATA"

lemma requestor_cases: "r < MAX_REQUESTORS \<longleftrightarrow> r = VMM \<or> r = VMI"
  by (auto simp: word_less_nat_alt word_unat_eq_iff)

lemma feature_run_simps [simp]:
  "feature_run [] f = Some (f, [0, 0])"
  "feature_run (a # as) f = do { s \<leftarrow> feature_act a (f, [0, 0]); for_each as feature_act s }"
  by (simp_all add: feature_run_def split: option.splits)

lemma feature_request_eq:
  assumes "length (fe_requests f) = 2"
  shows "feature_request enable r regs f =
    (if r < MAX_REQUESTORS \<and> ENABLE_MASK AND regs = 0
     then Some \<lparr>fe_requests = (fe_requests f)[unat r := if enable then regs OR ENABLE_MASK else 0], fe_dirty = True\<rparr> else None)"
  using assms by (auto simp: feature_request_def requestor_cases request_actions_def force_reconfiguration_def upd_opt_def
      ASSERT_def cpu_feature.equality)

lemma unat_requestor: "r < MAX_REQUESTORS \<Longrightarrow> unat r < 2"
  by (auto simp: requestor_cases)

lemma and_requestor_bit: "r < MAX_REQUESTORS \<Longrightarrow> x AND requestor_bit r \<noteq> 0 \<longleftrightarrow> bit x (unat r)"
  unfolding requestor_bit_def using unat_requestor [of r] by (intro and_push_bit_1_neq_0) simp

lemma bit_requestor_bit: "r < MAX_REQUESTORS \<Longrightarrow> bit (requestor_bit r) n \<longleftrightarrow> n = unat r"
  unfolding requestor_bit_def bit_push_bit_1_iff using unat_requestor [of r] by simp

lemma flag_is_requested_by_bit:
  "flag_is_requested_by r x = (if r < MAX_REQUESTORS then Some (bit x (unat r)) else None)"
  using and_requestor_bit [of r x] by (simp add: flag_is_requested_by_def)

lemma flag_request_requested:
  assumes "flag_request enable r x = Some y" "r' < MAX_REQUESTORS"
  shows "flag_is_requested_by r' y = (if r' = r then Some enable else flag_is_requested_by r' x)"
proof -
  have r: "r < MAX_REQUESTORS" and y: "y = (if enable then x OR requestor_bit r else x AND NOT (requestor_bit r)) OR FLAG_DIRTY"
    using assms(1) by (simp_all add: flag_request_def flag_force_reconfiguration_def ASSERT_def split: if_splits)
  have b: "bit FLAG_DIRTY (unat r') = False" "unat r' < 8" using assms(2) by (auto simp: requestor_cases)
  have "bit y (unat r') = (if r' = r then enable else bit x (unat r'))"
    using bit_requestor_bit [OF r, of "unat r'"] b
    by (auto simp: y bit_or_iff bit_and_iff bit_not_iff word_unat_eq_iff)
  then show ?thesis using assms(2) by (simp add: flag_is_requested_by_bit)
qed

lemma flag_request_dirty: "flag_request enable r x = Some y \<Longrightarrow> flag_needs_reconfiguration y"
proof -
  assume "flag_request enable r x = Some y"
  then have "bit y 2"
    by (auto simp: flag_request_def flag_force_reconfiguration_def bit_or_iff ASSERT_def split: if_splits)
  then show ?thesis
    using and_push_bit_1_neq_0 [of 2 y] by (simp add: flag_needs_reconfiguration_def)
qed

subsection \<open>Requests and reads that interleave\<close>

text \<open>
  One thread per requestor, which does the actions of one request after the other, and one reader.
  The reader starts a read when it finds the feature dirty (\<open>check_clean_read\<close>) or without a check
  (\<open>clean_read\<close>); between its reads its variables keep what it read last.
\<close>

record feature_sys =
  shared :: cpu_feature
  writer_todo :: "requestor \<Rightarrow> feature_action list"
  reader_todo :: "feature_action list"
  loads :: "u64 list"

definition feature_sys_new :: feature_sys where
  "feature_sys_new = \<lparr>shared = feature_new, writer_todo = (\<lambda>_. []), reader_todo = [], loads = [0, 0]\<rparr>"

inductive feature_step :: "feature_sys \<Rightarrow> feature_sys \<Rightarrow> bool" where
  start_request: "writer_todo s r = [] \<Longrightarrow> r < MAX_REQUESTORS \<Longrightarrow> ENABLE_MASK AND regs = 0 \<Longrightarrow>
    feature_step s (s\<lparr>writer_todo := (writer_todo s)(r := request_actions enable r regs)\<rparr>)"
| start_force: "writer_todo s r = [] \<Longrightarrow> r < MAX_REQUESTORS \<Longrightarrow>
    feature_step s (s\<lparr>writer_todo := (writer_todo s)(r := force_reconfiguration)\<rparr>)"
| writer: "writer_todo s r = a # as \<Longrightarrow> feature_act a (shared s, loads s) = Some (f, l) \<Longrightarrow>
    feature_step s (s\<lparr>shared := f, writer_todo := (writer_todo s)(r := as)\<rparr>)"
| start_read: "reader_todo s = [] \<Longrightarrow> feature_step s (s\<lparr>reader_todo := clean_read_actions\<rparr>)"
| start_check: "reader_todo s = [] \<Longrightarrow> fe_dirty (shared s) \<Longrightarrow>
    feature_step s (s\<lparr>reader_todo := clean_read_actions\<rparr>)"
| reader: "reader_todo s = a # as \<Longrightarrow> feature_act a (shared s, loads s) = Some (f, l) \<Longrightarrow>
    feature_step s (s\<lparr>shared := f, loads := l, reader_todo := as\<rparr>)"

inductive feature_reachable :: "feature_sys \<Rightarrow> bool" where
  feature_init: "feature_reachable feature_sys_new"
| feature_next: "feature_reachable s \<Longrightarrow> feature_step s s' \<Longrightarrow> feature_reachable s'"

inductive_cases feature_stepE: "feature_step s s'"

definition writer_shape :: "requestor \<Rightarrow> feature_action list \<Rightarrow> bool" where
  "writer_shape r as \<longleftrightarrow> as \<in> {[], [Set_dirty]} \<or> r < MAX_REQUESTORS \<and> (\<exists>v. as = [Store_request r v, Set_dirty])"

text \<open>The reader's value of a requestor is current, or something is left to do that will renew it.\<close>

definition feature_inv :: "feature_sys \<Rightarrow> bool" where
  "feature_inv s \<longleftrightarrow>
     length (fe_requests (shared s)) = 2 \<and> length (loads s) = 2 \<and> (\<forall>r. writer_shape r (writer_todo s r)) \<and>
     reader_todo s \<in> {[], [Load_request 1], read_actions, clean_read_actions} \<and>
     (\<forall>r < MAX_REQUESTORS. loads s ! unat r = fe_requests (shared s) ! unat r \<or> fe_dirty (shared s) \<or>
        writer_todo s r = [Set_dirty] \<or> Load_request r \<in> set (reader_todo s))"

lemmas action_lists = request_actions_def force_reconfiguration_def read_actions_def clean_actions_def clean_read_actions_def

lemma feature_inv_step:
  assumes "feature_step s s'" "feature_inv s"
  shows "feature_inv s'"
  using assms(1)
proof (cases rule: feature_step.cases)
  case (writer r a as f l)
  have "writer_shape r (writer_todo s r)" using assms(2) by (simp add: feature_inv_def)
  then consider "a = Set_dirty" "as = []" | v where "a = Store_request r v" "as = [Set_dirty]" "r < MAX_REQUESTORS"
    using writer by (auto simp: writer_shape_def)
  then show ?thesis
  proof cases
    case 1
    then show ?thesis using assms(2) writer by (auto simp: feature_inv_def writer_shape_def)
  next
    case (2 v)
    then have f: "f = (shared s)\<lparr>fe_requests := (fe_requests (shared s))[unat r := v]\<rparr>" "l = loads s"
      using writer by (auto simp: bind_eq_Some_conv)
    have "(fe_requests (shared s))[unat r := v] ! unat r' = fe_requests (shared s) ! unat r'" if "r' \<noteq> r" for r'
      using that by (simp add: word_unat_eq_iff)
    then show ?thesis using assms(2) writer 2 f by (simp add: feature_inv_def writer_shape_def)
  qed
next
  case (reader a as f l)
  have "reader_todo s \<in> {[Load_request 1], read_actions, clean_read_actions}"
    using assms(2) reader by (auto simp: feature_inv_def)
  then consider "a = Load_request 1" "as = []" | "a = Load_request 0" "as = [Load_request 1]" | "a = Clear_dirty" "as = read_actions"
    using reader by (auto simp: action_lists)
  then show ?thesis
  proof cases
    case 1
    then have "f = shared s" "l = (loads s)[1 := fe_requests (shared s) ! 1]" using reader by (auto simp: bind_eq_Some_conv)
    then show ?thesis using assms(2) reader 1 by (auto simp: feature_inv_def action_lists requestor_cases)
  next
    case 2
    then have "f = shared s" "l = (loads s)[0 := fe_requests (shared s) ! 0]" using reader by (auto simp: bind_eq_Some_conv)
    then show ?thesis using assms(2) reader 2 by (auto simp: feature_inv_def action_lists requestor_cases)
  next
    case 3
    then show ?thesis using assms(2) reader by (auto simp: feature_inv_def action_lists requestor_cases)
  qed
qed (use assms(2) in \<open>auto simp: feature_inv_def writer_shape_def action_lists requestor_cases\<close>)

text \<open>
  C28: no request is lost. Whenever requests of both requestors and reads interleave, and no thread is
  in the middle of an operation and the feature is not marked dirty, what the vCPU read last is
  the configuration that the requestors stored last.
\<close>

theorem feature_no_lost_update:
  assumes "feature_reachable s" "\<forall>r. writer_todo s r = []" "reader_todo s = []" "\<not> fe_dirty (shared s)"
  shows "feature_read (shared s) = Some (conf_of (loads s))"
proof -
  have "feature_inv s" using assms(1)
  proof induction
    case feature_init
    show ?case by (simp add: feature_inv_def feature_sys_new_def feature_new_def writer_shape_def)
  next
    case (feature_next s s')
    from feature_inv_step [OF feature_next(2,3)] show ?case .
  qed
  then have l: "length (fe_requests (shared s)) = 2" "length (loads s) = 2"
    and e: "\<forall>r < MAX_REQUESTORS. loads s ! unat r = fe_requests (shared s) ! unat r"
    using assms(2-4) by (simp_all add: feature_inv_def)
  have "loads s = fe_requests (shared s)"
    using l e by (auto simp: list_eq_iff_nth_eq less_2_cases_iff requestor_cases)
  moreover obtain a b where "fe_requests (shared s) = [a, b]"
    using l(1) by (auto simp: length_Suc_conv numeral_2_eq_2)
  ultimately show ?thesis by (simp add: feature_read_def read_actions_def feature_run_def upd_opt_def nth_opt_def)
qed

lemma feature_writer_run:
  assumes "feature_reachable s" "writer_todo s r = [a, b]"
    and "feature_act a (shared s, loads s) = Some (f1, l1)" "feature_act b (f1, loads s) = Some (f2, l2)"
  shows "feature_reachable (s\<lparr>shared := f2, writer_todo := (writer_todo s)(r := [])\<rparr>)"
proof -
  let ?s = "s\<lparr>shared := f1, writer_todo := (writer_todo s)(r := [b])\<rparr>"
  have 1: "feature_reachable ?s" by (rule feature_next [OF assms(1) writer [OF assms(2,3)]])
  have "feature_reachable (?s\<lparr>shared := f2, writer_todo := (writer_todo ?s)(r := [])\<rparr>)"
    by (rule feature_next [OF 1 writer [where a = b]]) (use assms(4) in simp_all)
  then show ?thesis by simp
qed

lemma feature_reader_run:
  assumes "feature_reachable s" "reader_todo s = acts" "for_each acts feature_act (shared s, loads s) = Some (f, l)"
  shows "feature_reachable (s\<lparr>shared := f, loads := l, reader_todo := []\<rparr>)"
  using assms
proof (induction acts arbitrary: s)
  case (Cons a acts)
  then obtain f1 l1 where 1: "feature_act a (shared s, loads s) = Some (f1, l1)" "for_each acts feature_act (f1, l1) = Some (f, l)"
    by (auto split: option.splits)
  from Cons.IH [OF feature_next [OF Cons.prems(1) reader [OF Cons.prems(2) 1(1)]]] 1(2) show ?case by simp
qed (auto intro: back_subst [where P = feature_reachable])


theorem feature_no_lost_update_witness:
  "\<exists>s. feature_reachable s \<and> (\<forall>r. writer_todo s r = []) \<and> reader_todo s = [] \<and> \<not> fe_dirty (shared s) \<and>
     conf_of (loads s) = (True, 5) \<and> feature_read (shared s) = Some (True, 5)"
proof -
  let ?v = "5 OR ENABLE_MASK :: u64"
  let ?f = "\<lparr>fe_requests = [?v, 0], fe_dirty = True\<rparr>"
  let ?s1 = "feature_sys_new\<lparr>writer_todo := (\<lambda>_. [])(VMM := request_actions True VMM 5)\<rparr>"
  have 1: "feature_reachable ?s1"
    using feature_next [OF feature_init start_request [of feature_sys_new VMM 5 True]] by (simp add: feature_sys_new_def)
  have "feature_reachable (?s1\<lparr>shared := ?f, writer_todo := (writer_todo ?s1)(VMM := [])\<rparr>)"
    by (rule feature_writer_run [OF 1, where a = "Store_request VMM ?v" and b = Set_dirty
        and ?f1.0 = "\<lparr>fe_requests = [?v, 0], fe_dirty = False\<rparr>" and ?l1.0 = "[0, 0]" and ?l2.0 = "[0, 0]"]; simp add: action_lists feature_sys_new_def feature_new_def upd_opt_def)
  then have 2: "feature_reachable (feature_sys_new\<lparr>shared := ?f\<rparr>)" by (simp add: feature_sys_new_def fun_upd_idem)
  let ?s3 = "feature_sys_new\<lparr>shared := ?f, reader_todo := clean_read_actions\<rparr>"
  have 3: "feature_reachable ?s3"
    using feature_next [OF 2 start_check] by (simp add: feature_sys_new_def)
  let ?s4 = "?s3\<lparr>shared := ?f\<lparr>fe_dirty := False\<rparr>, loads := [?v, 0], reader_todo := []\<rparr>"
  have 4: "feature_reachable ?s4"
    by (rule feature_reader_run [OF 3 refl]) (simp add: action_lists feature_sys_new_def upd_opt_def nth_opt_def)
  have c: "conf_of (loads ?s4) = (True, 5)" by (simp add: conf_of_def Let_def)
  have w: "\<forall>r. writer_todo ?s4 r = []" "reader_todo ?s4 = []" "\<not> fe_dirty (shared ?s4)" by (simp_all add: feature_sys_new_def)
  have "feature_read (shared ?s4) = Some (True, 5)" using feature_no_lost_update [OF 4 w] unfolding c .
  then show ?thesis using 4 w c by blast
qed

end
