(* ===== verification/CpuModel.thy ===== *)
theory CpuModel
  imports CpuFeature Vbus
begin

text \<open>
  \<open>vcpu/cpu_model/src/cpu_model.cpp\<close>, \<open>vcpu/cpu_model/include/model/cpu.hpp\<close>: the vCPUs of the machine,
  their run state, the switches of their features, and the start and the reset of a vCPU. Each
  function is here what it does when no other thread interferes; a loop around a compare-and-swap is
  the change that it makes when it succeeds. Their interleaving is the subject of \<open>Roundup\<close>.

  A signal is a boolean. The virtual functions of the derived class (\<open>recall\<close>) and the calls of the
  interrupt controller are recorded. An abort, also by a missing object or an index outside the
  array of vCPUs, is \<open>None\<close>.
\<close>

subsection \<open>The run state\<close>

datatype State = OFF | OFF_ROUNDEDUP | ON | ON_ROUNDEDUP | EMULATE | EMULATE_ROUNDEDUP

fun run_state_code :: "State \<Rightarrow> u8" where
  "run_state_code OFF = 0"
| "run_state_code OFF_ROUNDEDUP = 1"
| "run_state_code ON = 2"
| "run_state_code ON_ROUNDEDUP = 3"
| "run_state_code EMULATE = 4"
| "run_state_code EMULATE_ROUNDEDUP = 5"

definition state_printable_name :: "string list" where
  "state_printable_name = [''OFF'', ''OFF_ROUNDEDUP'', ''ON'', ''ON_ROUNDEDUP'', ''EMULATE'', ''EMULATE_ROUNDEDUP'']"

text \<open>The changes of the state, each with its abort on an unexpected state.\<close>

fun to_roundedup :: "State \<Rightarrow> State option" where
  "to_roundedup ON = Some ON_ROUNDEDUP"
| "to_roundedup OFF = Some OFF_ROUNDEDUP"
| "to_roundedup EMULATE = Some EMULATE_ROUNDEDUP"
| "to_roundedup _ = None"

fun to_resumed :: "State \<Rightarrow> State option" where
  "to_resumed ON_ROUNDEDUP = Some ON"
| "to_resumed OFF_ROUNDEDUP = Some OFF"
| "to_resumed EMULATE_ROUNDEDUP = Some EMULATE"
| "to_resumed _ = None"

fun to_on :: "State \<Rightarrow> State option" where
  "to_on OFF_ROUNDEDUP = Some ON_ROUNDEDUP"
| "to_on EMULATE_ROUNDEDUP = Some ON_ROUNDEDUP"
| "to_on OFF = Some ON"
| "to_on EMULATE = Some ON"
| "to_on _ = None"

fun to_off :: "State \<Rightarrow> State option" where
  "to_off ON_ROUNDEDUP = Some OFF_ROUNDEDUP"
| "to_off ON = Some OFF"
| "to_off _ = None"

text \<open>The first look at the state before emulation: go on with the swap, refuse, or abort.\<close>

fun emulate_check :: "State \<Rightarrow> bool option" where
  "emulate_check ON_ROUNDEDUP = Some False"
| "emulate_check ON = Some True"
| "emulate_check _ = None"

text \<open>The swap from \<open>ON\<close>: it succeeds, fails as it may, or fails an assertion.\<close>

fun emulate_swap :: "State \<Rightarrow> (bool \<times> State) option" where
  "emulate_swap ON = Some (True, EMULATE)"
| "emulate_swap ON_ROUNDEDUP = Some (False, ON_ROUNDEDUP)"
| "emulate_swap _ = None"

subsection \<open>A vCPU\<close>

datatype Mode = BITS_64 | BITS_32 | BITS_16 | T32

datatype RecallReason = IRQ | ROUNDUP | RECONFIG

datatype cpu_resource = Off_sm | Resume_sig | Reset_mutex | Irq_sig

abbreviation MAX_BOOT_ARGS :: nat where "MAX_BOOT_ARGS \<equiv> 4"

record vcpu =
  v_pcpu_id :: u64
  v_state :: State
  v_off_sm :: bool
  v_resume_sig :: bool
  v_irq_sig :: bool
  v_boot_addr :: u64
  v_boot_args :: "u64 list"
  v_timer_offset :: u64
  v_start_mode :: Mode
  v_tvm :: cpu_feature
  v_hypercall :: cpu_feature
  v_reset :: cpu_flag
  v_single_step :: cpu_flag
  v_execution_paused :: cpu_flag
  v_icache_invalidate :: cpu_flag
  v_dump_regs :: cpu_feature
  v_pf :: cpu_feature
  v_recalls :: "(bool \<times> RecallReason) list"

definition vcpu_new :: "u64 \<Rightarrow> vcpu" where
  "vcpu_new pcpu =
     \<lparr>v_pcpu_id = pcpu, v_state = OFF, v_off_sm = False, v_resume_sig = False, v_irq_sig = False, v_boot_addr = 0,
      v_boot_args = replicate MAX_BOOT_ARGS 0, v_timer_offset = 0, v_start_mode = BITS_64, v_tvm = feature_new,
      v_hypercall = feature_new, v_reset = 0, v_single_step = 0, v_execution_paused = 0, v_icache_invalidate = 0,
      v_dump_regs = feature_new, v_pf = feature_new, v_recalls = []\<rparr>"

definition recall :: "bool \<Rightarrow> RecallReason \<Rightarrow> vcpu \<Rightarrow> vcpu" where
  "recall strong reason v = v\<lparr>v_recalls := v_recalls v @ [(strong, reason)]\<rparr>"

definition unblock :: "vcpu \<Rightarrow> vcpu" where "unblock v = v\<lparr>v_irq_sig := True\<rparr>"
definition resume_vcpu :: "vcpu \<Rightarrow> vcpu" where "resume_vcpu v = v\<lparr>v_resume_sig := True\<rparr>"
definition switch_on :: "vcpu \<Rightarrow> vcpu" where "switch_on v = v\<lparr>v_off_sm := True\<rparr>"

definition is_roundup_pending :: "vcpu \<Rightarrow> bool" where
  "is_roundup_pending v \<longleftrightarrow> v_state v = EMULATE_ROUNDEDUP"

definition is_turned_on_by_guest :: "vcpu \<Rightarrow> bool option" where
  "is_turned_on_by_guest v = map_option Not (flag_is_requested_by VMM (v_execution_paused v))"

text \<open>Setup: which of the four resources are left behind; an initialisation may fail.\<close>

definition vcpu_setup :: "(cpu_resource \<Rightarrow> bool) \<Rightarrow> bool \<times> cpu_resource list" where
  "vcpu_setup ok =
     (if \<not> ok Off_sm then (False, [])
      else let r = [Off_sm] in
      if \<not> ok Resume_sig then (False, removeAll Off_sm r)
      else let r = r @ [Resume_sig] in
      if \<not> ok Reset_mutex then (False, removeAll Off_sm (removeAll Resume_sig r))
      else let r = r @ [Reset_mutex] in
      if \<not> ok Irq_sig then (False, removeAll Off_sm (removeAll Resume_sig (removeAll Reset_mutex r)))
      else (True, r @ [Irq_sig]))"

definition vcpu_cleanup :: "cpu_resource list \<Rightarrow> cpu_resource list" where
  "vcpu_cleanup r = removeAll Off_sm (removeAll Resume_sig (removeAll Reset_mutex (removeAll Irq_sig r)))"

definition set_reset_parameters :: "u64 \<Rightarrow> u64 list \<Rightarrow> u64 \<Rightarrow> Mode \<Rightarrow> vcpu \<Rightarrow> vcpu option" where
  "set_reset_parameters boot_addr boot_args tmr_off m v = do {
     args \<leftarrow> (if MAX_BOOT_ARGS \<le> length boot_args then Some (take MAX_BOOT_ARGS boot_args) else None);
     Some (v\<lparr>v_boot_addr := boot_addr, v_boot_args := args, v_timer_offset := tmr_off, v_start_mode := m\<rparr>)
   }"

text \<open>The run state of a vCPU; \<open>True\<close> from \<open>switch_state_to_on\<close>: it reports the end of its progress.\<close>

definition switch_state_to_roundedup :: "vcpu \<Rightarrow> (bool \<times> vcpu) option" where
  "switch_state_to_roundedup v = do {
     st \<leftarrow> to_roundedup (v_state v);
     Some (v_state v = EMULATE, v\<lparr>v_state := st\<rparr>)
   }"

definition vcpu_resume :: "vcpu \<Rightarrow> vcpu option" where
  "vcpu_resume v = do { st \<leftarrow> to_resumed (v_state v); Some (resume_vcpu (v\<lparr>v_state := st\<rparr>)) }"

definition switch_state_to_on :: "vcpu \<Rightarrow> (bool \<times> vcpu) option" where
  "switch_state_to_on v = do {
     st \<leftarrow> to_on (v_state v);
     Some (v_state v = EMULATE_ROUNDEDUP, v\<lparr>v_state := st\<rparr>)
   }"

definition switch_state_to_off :: "vcpu \<Rightarrow> vcpu option" where
  "switch_state_to_off v = do { st \<leftarrow> to_off (v_state v); Some (v\<lparr>v_state := st\<rparr>) }"

text \<open>Without the wait of a paused vCPU (\<open>wait_if_exec_paused\<close>).\<close>

definition switch_state_to_emulating :: "vcpu \<Rightarrow> (bool \<times> vcpu) option" where
  "switch_state_to_emulating v = do {
     go \<leftarrow> emulate_check (v_state v);
     if \<not> go then Some (False, v)
     else do { (ok, st) \<leftarrow> emulate_swap (v_state v); Some (ok, v\<lparr>v_state := st\<rparr>) }
   }"

text \<open>\<open>True\<close>: the caller reports that the vCPU has stopped.\<close>

definition roundup_impl :: "vcpu \<Rightarrow> (bool \<times> vcpu) option" where
  "roundup_impl v = do {
     (emulating, v) \<leftarrow> switch_state_to_roundedup v;
     Some (\<not> emulating, unblock (recall True ROUNDUP v))
   }"

definition notify_interrupt_pending :: "vcpu \<Rightarrow> vcpu" where
  "notify_interrupt_pending v =
     unblock (if run_state_code (v_state v) AND run_state_code ON \<noteq> 0 then recall False IRQ v else v)"

text \<open>
  Waiting for an interrupt. Each look of the loop sees a state of the vCPU and whether an interrupt
  or an NMI is pending; between two looks the vCPU is blocked. The result is how often it was
  blocked, or \<open>None\<close> when it still is.
\<close>

fun wait_loop :: "(bool \<times> bool \<times> vcpu) list \<Rightarrow> nat option" where
  "wait_loop [] = None"
| "wait_loop ((int_pending, nmi_pending, v) # looks) =
     (if int_pending \<or> nmi_pending \<or> is_roundup_pending v \<or> feature_is_requested (v_dump_regs v) = Some True
      then Some 0 else map_option Suc (wait_loop looks))"

definition wait_for_interrupt :: "bool \<Rightarrow> (bool \<times> bool \<times> vcpu) list \<Rightarrow> nat option" where
  "wait_for_interrupt will_timeout looks =
     (if \<not> will_timeout then wait_loop looks
      else case looks of
          (int_pending, _, v) # _ \<Rightarrow>
            Some (if int_pending \<or> is_roundup_pending v \<or> feature_is_requested (v_dump_regs v) = Some True then 0 else 1)
        | [] \<Rightarrow> None)"

subsection \<open>All vCPUs\<close>

record cpus =
  configured_vcpus :: u16
  vcpu_tab :: "vcpu option list"
  irq_ctlr_cpus :: "(bool \<times> u64) list"

definition cpus_init :: "bool \<Rightarrow> u16 \<Rightarrow> bool \<times> cpus" where
  "cpus_init alloc n =
     (alloc, \<lparr>configured_vcpus = n, vcpu_tab = (if alloc then replicate (unat n) None else []), irq_ctlr_cpus = []\<rparr>)"

definition cpus_deinit :: "cpus \<Rightarrow> cpus" where "cpus_deinit c = c\<lparr>vcpu_tab := []\<rparr>"

definition cpu_create :: "u64 \<Rightarrow> u64 \<Rightarrow> cpus \<Rightarrow> cpus option" where
  "cpu_create i pcpu c = do {
     tab \<leftarrow> upd_opt (vcpu_tab c) (unat i) (\<lambda>_. Some (vcpu_new pcpu));
     Some (c\<lparr>irq_ctlr_cpus := irq_ctlr_cpus c @ [(True, i)], vcpu_tab := tab\<rparr>)
   }"

definition cpu_destroy :: "u64 \<Rightarrow> cpus \<Rightarrow> cpus option" where
  "cpu_destroy i c = do {
     tab \<leftarrow> upd_opt (vcpu_tab c) (unat i) (\<lambda>_. None);
     Some (c\<lparr>irq_ctlr_cpus := irq_ctlr_cpus c @ [(False, i)], vcpu_tab := tab\<rparr>)
   }"

text \<open>\<open>vcpus[id]\<close>, read and changed; a missing object aborts.\<close>

definition vcpu_at :: "u64 \<Rightarrow> cpus \<Rightarrow> vcpu option" where
  "vcpu_at i c = do { v \<leftarrow> nth_opt (vcpu_tab c) (unat i); v }"

definition vcpu_mod :: "u64 \<Rightarrow> (vcpu \<Rightarrow> vcpu option) \<Rightarrow> cpus \<Rightarrow> cpus option" where
  "vcpu_mod i f c = do { v \<leftarrow> vcpu_at i c; v \<leftarrow> f v; Some (c\<lparr>vcpu_tab := (vcpu_tab c)[unat i := Some v]\<rparr>) }"

definition cpu_get :: "u64 \<Rightarrow> cpus \<Rightarrow> vcpu option" where
  "cpu_get i c = do { ASSERT (i < ucast (configured_vcpus c)); vcpu_at i c }"

definition get_num_vcpus :: "cpus \<Rightarrow> u16" where "get_num_vcpus c = configured_vcpus c"

definition is_64bit :: "u64 \<Rightarrow> cpus \<Rightarrow> bool option" where
  "is_64bit i c = do { v \<leftarrow> vcpu_at i c; Some (v_start_mode v = BITS_64) }"

definition get_pcpu :: "u64 \<Rightarrow> cpus \<Rightarrow> u64 option" where
  "get_pcpu i c = do { v \<leftarrow> cpu_get i c; Some (v_pcpu_id v) }"

text \<open>\<open>vhw_id\<close>, unless a derived class overrides it.\<close>

definition get_vcpu_vhw_id :: "u64 \<Rightarrow> cpus \<Rightarrow> u64 option" where
  "get_vcpu_vhw_id i c = do { _ \<leftarrow> cpu_get i c; Some i }"

definition cpu_state_string :: "u64 \<Rightarrow> cpus \<Rightarrow> string option" where
  "cpu_state_string i c = do { v \<leftarrow> cpu_get i c; nth_opt state_printable_name (unat (run_state_code (v_state v))) }"

definition vcpu_ids :: "cpus \<Rightarrow> u64 list" where
  "vcpu_ids c = map of_nat [0..<unat (configured_vcpus c)]"

text \<open>Both loops over all vCPUs; \<open>roundup_all\<close> also gives the number of vCPUs that it reports as stopped.\<close>

definition roundup_all :: "cpus \<Rightarrow> (nat \<times> cpus) option" where
  "roundup_all c = for_each (vcpu_ids c) (\<lambda>i (n, c). do {
     v \<leftarrow> cpu_get i c;
     (stopped, v) \<leftarrow> roundup_impl v;
     Some (n + of_bool stopped, c\<lparr>vcpu_tab := (vcpu_tab c)[unat i := Some v]\<rparr>)
   }) (0, c)"

definition resume_all :: "cpus \<Rightarrow> cpus option" where
  "resume_all c = for_each (vcpu_ids c) (\<lambda>i c. do { _ \<leftarrow> cpu_get i c; vcpu_mod i vcpu_resume c }) c"

subsection \<open>Feature switches\<close>

type_synonym ctrl_feature_cb = "bool \<Rightarrow> requestor \<Rightarrow> u64 \<Rightarrow> vcpu \<Rightarrow> vcpu option"

definition ctrl_feature_on_vcpu :: "ctrl_feature_cb \<Rightarrow> u64 \<Rightarrow> bool \<Rightarrow> requestor \<Rightarrow> u64 \<Rightarrow> cpus \<Rightarrow> cpus option" where
  "ctrl_feature_on_vcpu cb i enabled r regs c = do {
     ASSERT (i < ucast (configured_vcpus c));
     vcpu_mod i (cb enabled r regs) c
   }"

definition ctrl_feature_on_all_but_vcpu :: "ctrl_feature_cb \<Rightarrow> u64 \<Rightarrow> bool \<Rightarrow> requestor \<Rightarrow> u64 \<Rightarrow> cpus \<Rightarrow> cpus option" where
  "ctrl_feature_on_all_but_vcpu cb i enabled r regs c = do {
     ASSERT (i < ucast (configured_vcpus c));
     for_each (vcpu_ids c) (\<lambda>j c. if j \<noteq> i then vcpu_mod j (cb enabled r regs) c else Some c) c
   }"

definition ctrl_feature_on_all_vcpus :: "ctrl_feature_cb \<Rightarrow> bool \<Rightarrow> requestor \<Rightarrow> u64 \<Rightarrow> cpus \<Rightarrow> cpus option" where
  "ctrl_feature_on_all_vcpus cb enabled r regs c = for_each (vcpu_ids c) (\<lambda>j. vcpu_mod j (cb enabled r regs)) c"

definition ctrl_register_trap_on_vcpu ::
    "(bool \<Rightarrow> requestor \<Rightarrow> u64 \<Rightarrow> u64 \<Rightarrow> vcpu \<Rightarrow> vcpu option) \<Rightarrow> u64 \<Rightarrow> bool \<Rightarrow> requestor \<Rightarrow> u64 \<Rightarrow> u64 \<Rightarrow> cpus \<Rightarrow> cpus option" where
  "ctrl_register_trap_on_vcpu cb i enabled r trap_id regs c = do {
     ASSERT (i < ucast (configured_vcpus c));
     vcpu_mod i (cb enabled r trap_id regs) c
   }"

definition is_feature_enabled_on_vcpu :: "(requestor \<Rightarrow> vcpu \<Rightarrow> bool option) \<Rightarrow> u64 \<Rightarrow> requestor \<Rightarrow> cpus \<Rightarrow> bool option" where
  "is_feature_enabled_on_vcpu cb i r c = do {
     ASSERT (i < ucast (configured_vcpus c));
     v \<leftarrow> vcpu_at i c;
     cb r v
   }"

definition ctrl_feature_tvm :: ctrl_feature_cb where
  "ctrl_feature_tvm enable r regs v = map_option (\<lambda>f. v\<lparr>v_tvm := f\<rparr>) (feature_request enable r regs (v_tvm v))"

definition ctrl_feature_pf :: ctrl_feature_cb where
  "ctrl_feature_pf enable r regs v = do {
     ASSERT enable;
     map_option (\<lambda>f. v\<lparr>v_pf := f\<rparr>) (feature_request True r regs (v_pf v))
   }"

definition ctrl_feature_single_step :: ctrl_feature_cb where
  "ctrl_feature_single_step enable r regs v = map_option (\<lambda>x. v\<lparr>v_single_step := x\<rparr>) (flag_request enable r (v_single_step v))"

definition requested_feature_tvm :: "requestor \<Rightarrow> vcpu \<Rightarrow> bool option" where
  "requested_feature_tvm r v = feature_is_requested_by r (v_tvm v)"
definition requested_feature_single_step :: "requestor \<Rightarrow> vcpu \<Rightarrow> bool option" where
  "requested_feature_single_step r v = flag_is_requested_by r (v_single_step v)"
definition requested_feature_hypercall :: "requestor \<Rightarrow> vcpu \<Rightarrow> bool option" where
  "requested_feature_hypercall r v = feature_is_requested_by r (v_hypercall v)"
definition requested_feature_regs_dump :: "requestor \<Rightarrow> vcpu \<Rightarrow> bool option" where
  "requested_feature_regs_dump r v = feature_is_requested_by r (v_dump_regs v)"

definition ctrl_feature_off :: ctrl_feature_cb where
  "ctrl_feature_off enable r regs v = do {
     x \<leftarrow> flag_request enable r (v_execution_paused v);
     let v = v\<lparr>v_execution_paused := x\<rparr>;
     Some (if \<not> enable then switch_on v else recall True RECONFIG v)
   }"

definition ctrl_feature_reset :: ctrl_feature_cb where
  "ctrl_feature_reset enable r regs v = map_option (\<lambda>x. v\<lparr>v_reset := x\<rparr>) (flag_request enable r (v_reset v))"

definition ctrl_feature_icache_invalidate :: ctrl_feature_cb where
  "ctrl_feature_icache_invalidate enable r regs v =
     map_option (\<lambda>x. v\<lparr>v_icache_invalidate := x\<rparr>) (flag_request enable r (v_icache_invalidate v))"

definition ctrl_feature_hypercall :: ctrl_feature_cb where
  "ctrl_feature_hypercall enable r regs v = map_option (\<lambda>f. v\<lparr>v_hypercall := f\<rparr>) (feature_request enable r regs (v_hypercall v))"

text \<open>\<open>trap\<close> is the virtual function \<open>ctrl_register_trap\<close>.\<close>

definition ctrl_register_trap_cb ::
    "(bool \<Rightarrow> requestor \<Rightarrow> u64 \<Rightarrow> u64 \<Rightarrow> vcpu \<Rightarrow> vcpu) \<Rightarrow> bool \<Rightarrow> requestor \<Rightarrow> u64 \<Rightarrow> u64 \<Rightarrow> vcpu \<Rightarrow> vcpu option" where
  "ctrl_register_trap_cb trap enable r trap_id regs v = Some (trap enable r trap_id regs v)"

text \<open>\<open>stats_on\<close>: whether statistics are enabled.\<close>

definition ctrl_feature_regs_dump :: "bool \<Rightarrow> ctrl_feature_cb" where
  "ctrl_feature_regs_dump stats_on enable r regs v =
     (if \<not> stats_on then Some v
      else do {
        f \<leftarrow> feature_request enable r 0 (v_dump_regs v);
        let v = v\<lparr>v_dump_regs := f\<rparr>;
        Some (if enable then recall False RECONFIG (unblock v) else v)
      })"

subsection \<open>Start and reset\<close>

datatype StartErr = START_SUCCESS | START_INVALID_PARAMETERS | ALREADY_ON | START_INVALID_ADDRESS

text \<open>The values of the enumeration, as the caller converts them to 64 bits.\<close>

fun start_err_code :: "StartErr \<Rightarrow> u64" where
  "start_err_code START_SUCCESS = 0"
| "start_err_code START_INVALID_PARAMETERS = - 2"
| "start_err_code ALREADY_ON = - 4"
| "start_err_code START_INVALID_ADDRESS = - 9"

definition is_cpu_turned_on_by_guest :: "u64 \<Rightarrow> cpus \<Rightarrow> bool option" where
  "is_cpu_turned_on_by_guest i c =
     (if ucast (configured_vcpus c) \<le> i then Some False else do { v \<leftarrow> vcpu_at i c; is_turned_on_by_guest v })"

definition reset_cpu :: "u64 \<Rightarrow> u64 list \<Rightarrow> u64 \<Rightarrow> u64 \<Rightarrow> Mode \<Rightarrow> cpus \<Rightarrow> (StartErr \<times> cpus) option" where
  "reset_cpu i boot_args boot_addr timer_off m c =
     (if ucast (configured_vcpus c) \<le> i then Some (START_INVALID_PARAMETERS, c)
      else do {
        c \<leftarrow> vcpu_mod i (set_reset_parameters boot_addr boot_args timer_off m) c;
        c \<leftarrow> ctrl_feature_on_vcpu ctrl_feature_reset i True VMM 0 c;
        c \<leftarrow> ctrl_feature_on_vcpu ctrl_feature_off i False VMM 0 c;
        Some (START_SUCCESS, c)
      })"

definition start_cpu :: "('d \<Rightarrow> dev_typ) \<Rightarrow> 'd bus \<Rightarrow> u64 \<Rightarrow> u64 \<Rightarrow> u64 list \<Rightarrow> u64 \<Rightarrow> Mode \<Rightarrow> cpus \<Rightarrow> (StartErr \<times> cpus) option" where
  "start_cpu typ bus i boot_addr boot_args timer_off m c = do {
     on \<leftarrow> is_cpu_turned_on_by_guest i c;
     if on then Some (ALREADY_ON, c)
     else case get_device_at bus boot_addr 1 of
         None \<Rightarrow> Some (START_INVALID_ADDRESS, c)
       | Some d \<Rightarrow>
           if typ d \<noteq> GUEST_PHYSICAL_STATIC_MEMORY \<and> typ d \<noteq> GUEST_PHYSICAL_DYNAMIC_MEMORY
           then Some (START_INVALID_ADDRESS, c)
           else reset_cpu i boot_args boot_addr timer_off m c
   }"

subsection \<open>The loops over all vCPUs\<close>

definition cpus_ok :: "cpus \<Rightarrow> bool" where
  "cpus_ok c \<longleftrightarrow> length (vcpu_tab c) = unat (configured_vcpus c) \<and> None \<notin> set (vcpu_tab c)"

lemma cpu_index:
  assumes "k < unat (configured_vcpus c)"
  shows "(of_nat k :: u64) < ucast (configured_vcpus c)" "unat (of_nat k :: u64) = k"
proof -
  have "unat (configured_vcpus c) < 2 ^ 16" using unsigned_less [of "configured_vcpus c"] by simp
  then show "unat (of_nat k :: u64) = k" using assms by (simp add: unat_of_nat)
  then show "(of_nat k :: u64) < ucast (configured_vcpus c)" using assms by (simp add: word_less_nat_alt unat_ucast_up)
qed

lemma vcpu_at_ok:
  assumes "cpus_ok c" "i < ucast (configured_vcpus c)"
  obtains v where "vcpu_at i c = Some v" "unat i < length (vcpu_tab c)" "vcpu_tab c ! unat i = Some v"
proof -
  have "unat i < unat (configured_vcpus c)" using assms(2) by (simp add: word_less_nat_alt unat_ucast_up)
  then have l: "unat i < length (vcpu_tab c)" using assms(1) by (simp add: cpus_ok_def)
  then have "vcpu_tab c ! unat i \<noteq> None" using nth_mem [OF l] assms(1) unfolding cpus_ok_def by metis
  with l show thesis using that by (auto simp: vcpu_at_def nth_opt_def)
qed

text \<open>
  A loop that changes every vCPU by a function gives the table with the function applied to every
  entry, and adds up what the function counts.
\<close>

lemma for_all_cpus:
  assumes body: "\<And>k v n c. k < unat (configured_vcpus c) \<Longrightarrow> vcpu_tab c ! k = Some v \<Longrightarrow> length (vcpu_tab c) = unat (configured_vcpus c) \<Longrightarrow>
      P v \<Longrightarrow> f (of_nat k) (n, c) = Some (n + cnt v, c\<lparr>vcpu_tab := (vcpu_tab c)[k := Some (g v)]\<rparr>)"
    and "vcpu_tab c = map Some vs" "length vs = unat (configured_vcpus c)" "\<forall>v \<in> set vs. P v" "k \<le> length vs"
  shows "for_each (map of_nat [0..<k]) f (0, c) =
    Some (\<Sum>v \<leftarrow> take k vs. cnt v, c\<lparr>vcpu_tab := map Some (map g (take k vs) @ drop k vs)\<rparr>)"
  using assms(5)
proof (induction k)
  case 0
  then show ?case using assms(2) by simp
next
  case (Suc k)
  let ?c = "c\<lparr>vcpu_tab := map Some (map g (take k vs) @ drop k vs)\<rparr>"
  have k: "k < length vs" using Suc.prems by simp
  have at: "vcpu_tab ?c ! k = Some (vs ! k)" using k by (simp add: nth_append)
  have "f (of_nat k) (\<Sum>v \<leftarrow> take k vs. cnt v, ?c) =
      Some ((\<Sum>v \<leftarrow> take k vs. cnt v) + cnt (vs ! k), ?c\<lparr>vcpu_tab := (vcpu_tab ?c)[k := Some (g (vs ! k))]\<rparr>)"
    by (rule body [OF _ at]) (use k assms(3,4) in auto)
  moreover have "(vcpu_tab ?c)[k := Some (g (vs ! k))] = map Some (map g (take (Suc k) vs) @ drop (Suc k) vs)"
    using k by (simp add: list_update_append upd_conv_take_nth_drop take_Suc_conv_app_nth Cons_nth_drop_Suc [symmetric] map_update [symmetric])
  ultimately show ?case using Suc k by (simp add: for_each_append take_Suc_conv_app_nth)
qed

definition rounded :: "State \<Rightarrow> bool" where
  "rounded st \<longleftrightarrow> st \<in> {OFF_ROUNDEDUP, ON_ROUNDEDUP, EMULATE_ROUNDEDUP}"

lemma rounded_state: "\<not> rounded st \<Longrightarrow> \<exists>st'. to_roundedup st = Some st' \<and> rounded st' \<and> to_resumed st' = Some st"
  by (cases st) (simp_all add: rounded_def)

definition rounded_vcpu :: "vcpu \<Rightarrow> vcpu" where
  "rounded_vcpu v = unblock (recall True ROUNDUP (v\<lparr>v_state := the (to_roundedup (v_state v))\<rparr>))"

definition resumed_vcpu :: "vcpu \<Rightarrow> vcpu" where
  "resumed_vcpu v = resume_vcpu (v\<lparr>v_state := the (to_resumed (v_state v))\<rparr>)"

lemma cpus_ok_list:
  assumes "cpus_ok c"
  obtains vs where "vcpu_tab c = map Some vs" "length vs = unat (configured_vcpus c)"
proof
  show "vcpu_tab c = map Some (map the (vcpu_tab c))"
  proof (rule nth_equalityI)
    fix i assume "i < length (vcpu_tab c)"
    then have "vcpu_tab c ! i \<noteq> None" using assms nth_mem unfolding cpus_ok_def by metis
    then show "vcpu_tab c ! i = map Some (map the (vcpu_tab c)) ! i" using \<open>i < length (vcpu_tab c)\<close> by simp
  qed simp
  show "length (map the (vcpu_tab c)) = unat (configured_vcpus c)" using assms by (simp add: cpus_ok_def)
qed

lemma cpu_get_nth:
  "k < unat (configured_vcpus c) \<Longrightarrow> vcpu_tab c ! k = Some v \<Longrightarrow> length (vcpu_tab c) = unat (configured_vcpus c) \<Longrightarrow>
     cpu_get (of_nat k) c = Some v \<and> vcpu_at (of_nat k) c = Some v"
  using cpu_index [of k c] by (simp add: cpu_get_def vcpu_at_def nth_opt_def)

lemma roundup_all_map:
  assumes "vcpu_tab c = map Some vs" "length vs = unat (configured_vcpus c)" "\<forall>v \<in> set vs. \<not> rounded (v_state v)"
  shows "roundup_all c = Some (length (filter (\<lambda>v. v_state v \<noteq> EMULATE) vs), c\<lparr>vcpu_tab := map (Some \<circ> rounded_vcpu) vs\<rparr>)"
proof -
  have "for_each (map of_nat [0..<length vs]) (\<lambda>i (n, c). do {
     v \<leftarrow> cpu_get i c;
     (stopped, v) \<leftarrow> roundup_impl v;
     Some (n + of_bool stopped, c\<lparr>vcpu_tab := (vcpu_tab c)[unat i := Some v]\<rparr>) }) (0, c) =
    Some (\<Sum>v \<leftarrow> take (length vs) vs. of_bool (v_state v \<noteq> EMULATE) :: nat, c\<lparr>vcpu_tab := map Some (map rounded_vcpu (take (length vs) vs) @ drop (length vs) vs)\<rparr>)"
  proof (rule for_all_cpus [where P = "\<lambda>v. \<not> rounded (v_state v)", OF _ assms(1,2,3)])
    fix k v n and c :: cpus
    assume k: "k < unat (configured_vcpus c)" "vcpu_tab c ! k = Some v" "length (vcpu_tab c) = unat (configured_vcpus c)" "\<not> rounded (v_state v)"
    obtain st where "to_roundedup (v_state v) = Some st" using rounded_state [OF k(4)] by blast
    then show "(case (n, c) of (n, c) \<Rightarrow> do {
       v \<leftarrow> cpu_get (of_nat k) c;
       (stopped, v) \<leftarrow> roundup_impl v;
       Some (n + of_bool stopped, c\<lparr>vcpu_tab := (vcpu_tab c)[unat (of_nat k :: u64) := Some v]\<rparr>) }) =
      Some (n + of_bool (v_state v \<noteq> EMULATE), c\<lparr>vcpu_tab := (vcpu_tab c)[k := Some (rounded_vcpu v)]\<rparr>)"
      using cpu_get_nth [OF k(1-3)] cpu_index [OF k(1)]
      by (simp add: roundup_impl_def switch_state_to_roundedup_def rounded_vcpu_def)
  qed simp
  moreover have "(\<Sum>v \<leftarrow> vs. of_bool (v_state v \<noteq> EMULATE) :: nat) = length (filter (\<lambda>v. v_state v \<noteq> EMULATE) vs)"
    by (induction vs) simp_all
  ultimately show ?thesis using assms(2) by (simp add: roundup_all_def vcpu_ids_def)
qed


lemma resume_all_map:
  assumes "vcpu_tab c = map Some vs" "length vs = unat (configured_vcpus c)" "\<forall>v \<in> set vs. rounded (v_state v)"
  shows "resume_all c = Some (c\<lparr>vcpu_tab := map (Some \<circ> resumed_vcpu) vs\<rparr>)"
proof -
  have one: "for_each is f c = map_option snd (for_each is (\<lambda>i (n, c). map_option (Pair n) (f i c)) (0 :: nat, c))"
    for "is" :: "u64 list" and f and c :: cpus
    by (induction "is" arbitrary: c) (auto split: option.splits)
  have "for_each (map of_nat [0..<length vs]) (\<lambda>i (n, c). map_option (Pair n) (do { _ \<leftarrow> cpu_get i c; vcpu_mod i vcpu_resume c })) (0 :: nat, c) =
    Some (\<Sum>v \<leftarrow> take (length vs) vs. 0, c\<lparr>vcpu_tab := map Some (map resumed_vcpu (take (length vs) vs) @ drop (length vs) vs)\<rparr>)"
  proof (rule for_all_cpus [where P = "\<lambda>v. rounded (v_state v)", OF _ assms(1,2,3)])
    fix k v and n :: nat and c :: cpus
    assume k: "k < unat (configured_vcpus c)" "vcpu_tab c ! k = Some v" "length (vcpu_tab c) = unat (configured_vcpus c)" "rounded (v_state v)"
    then obtain st where "to_resumed (v_state v) = Some st" by (cases "v_state v") (auto simp: rounded_def)
    then show "(case (n, c) of (n, c) \<Rightarrow> map_option (Pair n) (do { _ \<leftarrow> cpu_get (of_nat k) c; vcpu_mod (of_nat k) vcpu_resume c })) =
      Some (n + 0, c\<lparr>vcpu_tab := (vcpu_tab c)[k := Some (resumed_vcpu v)]\<rparr>)"
      using cpu_get_nth [OF k(1-3)] cpu_index [OF k(1)]
      by (simp add: vcpu_mod_def vcpu_resume_def resumed_vcpu_def)
  qed simp
  then show ?thesis using assms(2) by (simp add: resume_all_def vcpu_ids_def one [of _ _ c])
qed

text \<open>
  C29: rounding all vCPUs up and resuming them gives every vCPU its run state back. The roundup
  reports as stopped exactly the vCPUs that were not emulating, every vCPU is then in one of the three
  rounded-up states, and both loops abort nowhere.
\<close>

theorem roundup_resume_all:
  assumes "vcpu_tab c = map Some vs" "length vs = unat (configured_vcpus c)" "\<forall>v \<in> set vs. \<not> rounded (v_state v)"
  shows "\<exists>c' vs' c''. roundup_all c = Some (length (filter (\<lambda>v. v_state v \<noteq> EMULATE) vs), c') \<and>
    vcpu_tab c' = map Some vs' \<and> length vs' = length vs \<and> (\<forall>v \<in> set vs'. rounded (v_state v)) \<and>
    resume_all c' = Some c'' \<and> map (map_option v_state) (vcpu_tab c'') = map (\<lambda>v. Some (v_state v)) vs"
proof -
  have r: "rounded (v_state (rounded_vcpu v))" "v_state (resumed_vcpu (rounded_vcpu v)) = v_state v" if "v \<in> set vs" for v
    using rounded_state [of "v_state v"] that assms(3)
    by (auto simp: rounded_vcpu_def resumed_vcpu_def unblock_def recall_def resume_vcpu_def)
  let ?c = "c\<lparr>vcpu_tab := map (Some \<circ> rounded_vcpu) vs\<rparr>"
  have "resume_all ?c = Some (?c\<lparr>vcpu_tab := map (Some \<circ> resumed_vcpu) (map rounded_vcpu vs)\<rparr>)"
    by (rule resume_all_map) (use assms(2) r(1) in auto)
  then show ?thesis using r
    by (intro exI [of _ ?c] exI [of _ "map rounded_vcpu vs"] exI conjI [OF roundup_all_map [OF assms]]) auto
qed

theorem roundup_resume_all_witness:
  "\<exists>c' c''. roundup_all \<lparr>configured_vcpus = 2, vcpu_tab = [Some (vcpu_new 0), Some (vcpu_new 1\<lparr>v_state := EMULATE\<rparr>)], irq_ctlr_cpus = []\<rparr> =
     Some (1, c') \<and> resume_all c' = Some c'' \<and> map (map_option v_state) (vcpu_tab c'') = [Some OFF, Some EMULATE]"
  using roundup_resume_all [of "\<lparr>configured_vcpus = 2, vcpu_tab = [Some (vcpu_new 0), Some (vcpu_new 1\<lparr>v_state := EMULATE\<rparr>)],
      irq_ctlr_cpus = []\<rparr>" "[vcpu_new 0, vcpu_new 1\<lparr>v_state := EMULATE\<rparr>]"]
  by (auto simp: vcpu_new_def rounded_def)

subsection \<open>Starting a vCPU\<close>

definition in_guest_ram :: "('d \<Rightarrow> dev_typ) \<Rightarrow> 'd bus \<Rightarrow> u64 \<Rightarrow> bool" where
  "in_guest_ram typ bus addr \<longleftrightarrow> (case get_device_at bus addr 1 of None \<Rightarrow> False
     | Some d \<Rightarrow> typ d = GUEST_PHYSICAL_STATIC_MEMORY \<or> typ d = GUEST_PHYSICAL_DYNAMIC_MEMORY)"

lemma start_cpu_spec:
  assumes "cpus_ok c" "MAX_BOOT_ARGS \<le> length args"
  shows "\<exists>err c'. start_cpu typ bus i addr args off m c = Some (err, c') \<and> cpus_ok c' \<and> configured_vcpus c' = configured_vcpus c \<and>
    (err \<noteq> START_SUCCESS \<longrightarrow> c' = c) \<and>
    err = (if is_cpu_turned_on_by_guest i c = Some True then ALREADY_ON else if \<not> in_guest_ram typ bus addr then START_INVALID_ADDRESS
           else if ucast (configured_vcpus c) \<le> i then START_INVALID_PARAMETERS else START_SUCCESS) \<and>
    (err = START_SUCCESS \<longrightarrow> is_cpu_turned_on_by_guest i c' = Some True \<and>
       (\<exists>v. vcpu_at i c' = Some v \<and> v_boot_addr v = addr \<and> v_boot_args v = take MAX_BOOT_ARGS args \<and> v_timer_offset v = off \<and>
          v_start_mode v = m \<and> flag_is_requested_by VMM (v_reset v) = Some True \<and> flag_needs_reconfiguration (v_reset v) \<and> v_off_sm v \<and>
          map_option v_state (vcpu_at i c) = Some (v_state v)) \<and>
       (\<forall>j. j \<noteq> i \<longrightarrow> vcpu_at j c' = vcpu_at j c))"
proof (cases "ucast (configured_vcpus c) \<le> i")
  case True
  then show ?thesis using assms
    by (auto simp: start_cpu_def in_guest_ram_def is_cpu_turned_on_by_guest_def reset_cpu_def split: option.splits)
next
  case False
  then have i: "i < ucast (configured_vcpus c)" by simp
  obtain v where v: "vcpu_at i c = Some v" "unat i < length (vcpu_tab c)" "vcpu_tab c ! unat i = Some v"
    by (rule vcpu_at_ok [OF assms(1) i])
  obtain on where on: "is_turned_on_by_guest v = Some on" by (simp add: is_turned_on_by_guest_def flag_is_requested_by_def)
  obtain x y where x: "flag_request True VMM (v_reset v) = Some x" and y: "flag_request False VMM (v_execution_paused v) = Some y"
    by (simp add: flag_request_def)
  let ?v = "switch_on (v\<lparr>v_boot_addr := addr, v_boot_args := take MAX_BOOT_ARGS args, v_timer_offset := off, v_start_mode := m,
      v_reset := x, v_execution_paused := y\<rparr>)"
  let ?c = "c\<lparr>vcpu_tab := (vcpu_tab c)[unat i := Some ?v]\<rparr>"
  have r: "reset_cpu i args addr off m c = Some (START_SUCCESS, ?c)"
    using i v x y assms(2)
    by (simp add: reset_cpu_def vcpu_mod_def set_reset_parameters_def ctrl_feature_on_vcpu_def vcpu_at_def nth_opt_def
        ctrl_feature_reset_def ctrl_feature_off_def)
  have ok: "cpus_ok ?c" using assms(1) set_update_subset_insert [of "vcpu_tab c" "unat i" "Some ?v"] by (fastforce simp: cpus_ok_def)
  have new: "vcpu_at i ?c = Some ?v" and other: "\<And>j. j \<noteq> i \<Longrightarrow> vcpu_at j ?c = vcpu_at j c"
    using v by (simp_all add: vcpu_at_def nth_opt_def word_unat_eq_iff)
  have f: "flag_is_requested_by VMM x = Some True" "flag_is_requested_by VMM y = Some False"
    using flag_request_requested [OF x, of VMM] flag_request_requested [OF y, of VMM] by simp_all
  have d: "flag_needs_reconfiguration x"
    using flag_request_dirty [OF x] .
  have le: "\<not> ucast (configured_vcpus c) \<le> i" using i by simp
  have on': "is_cpu_turned_on_by_guest i c = Some on" "is_cpu_turned_on_by_guest i ?c = Some True"
    using le v(1) on new f(2) by (simp_all add: is_cpu_turned_on_by_guest_def is_turned_on_by_guest_def switch_on_def)
  show ?thesis
  proof (cases "\<not> on \<and> in_guest_ram typ bus addr")
    case True
    then have s: "start_cpu typ bus i addr args off m c = Some (START_SUCCESS, ?c)"
      using on' r by (auto simp: start_cpu_def in_guest_ram_def split: option.splits)
    have "v_off_sm ?v" "v_state ?v = v_state v" "v_reset ?v = x" by (simp_all add: switch_on_def)
    then show ?thesis unfolding s using True ok on' new other f d i v(1) by (simp add: switch_on_def)
  next
    case False
    then have s: "start_cpu typ bus i addr args off m c = Some (if on then ALREADY_ON else START_INVALID_ADDRESS, c)"
      using on' by (auto simp: start_cpu_def in_guest_ram_def split: option.splits)
    show ?thesis unfolding s using False assms(1) on' by auto
  qed
qed

text \<open>
  The start of a vCPU. It is refused without a change when the vCPU is on, when the boot address
  is not in guest memory, and when there is no such vCPU. Otherwise the vCPU has the boot
  parameters, its reset is requested, it is no longer switched off by the monitor and is given the
  signal to go on; no other vCPU changes.
\<close>

theorem start_cpu_effect:
  assumes "cpus_ok c" "MAX_BOOT_ARGS \<le> length args"
  shows "\<exists>err c'. start_cpu typ bus i addr args off m c = Some (err, c') \<and> cpus_ok c' \<and>
    (err \<noteq> START_SUCCESS \<longrightarrow> c' = c) \<and>
    err = (if is_cpu_turned_on_by_guest i c = Some True then ALREADY_ON else if \<not> in_guest_ram typ bus addr then START_INVALID_ADDRESS
           else if ucast (configured_vcpus c) \<le> i then START_INVALID_PARAMETERS else START_SUCCESS) \<and>
    (err = START_SUCCESS \<longrightarrow> is_cpu_turned_on_by_guest i c' = Some True \<and>
       (\<exists>v. vcpu_at i c' = Some v \<and> v_boot_addr v = addr \<and> v_boot_args v = take MAX_BOOT_ARGS args \<and> v_timer_offset v = off \<and>
          v_start_mode v = m \<and> flag_is_requested_by VMM (v_reset v) = Some True \<and> flag_needs_reconfiguration (v_reset v) \<and> v_off_sm v \<and>
          map_option v_state (vcpu_at i c) = Some (v_state v)) \<and>
       (\<forall>j. j \<noteq> i \<longrightarrow> vcpu_at j c' = vcpu_at j c))"
  using start_cpu_spec [OF assms, of "typ" bus i addr off m] by auto

theorem start_cpu_effect_witness:
  "\<exists>c'. start_cpu (\<lambda>d. GUEST_PHYSICAL_STATIC_MEMORY) (snd (register_device True (bus_new MMIO False (\<lambda>_. \<lparr>accesses = 0, time_spent = 0\<rparr>)) (7 :: nat) 0x1000 0x1000))
      0 0x1800 [1, 2, 3, 4] 9 BITS_64
      \<lparr>configured_vcpus = 1, vcpu_tab = [Some (vcpu_new 0\<lparr>v_execution_paused := 1\<rparr>)], irq_ctlr_cpus = []\<rparr> = Some (START_SUCCESS, c') \<and>
    map_option v_boot_addr (vcpu_at 0 c') = Some 0x1800 \<and> is_cpu_turned_on_by_guest 0 c' = Some True"
proof -
  let ?bus = "snd (register_device True (bus_new MMIO False (\<lambda>_. \<lparr>accesses = 0, time_spent = 0\<rparr>)) (7 :: nat) 0x1000 0x1000)"
  let ?c = "\<lparr>configured_vcpus = 1, vcpu_tab = [Some (vcpu_new 0\<lparr>v_execution_paused := 1\<rparr>)], irq_ctlr_cpus = []\<rparr> :: cpus"
  have ok: "cpus_ok ?c" by (simp add: cpus_ok_def)
  have ram: "in_guest_ram (\<lambda>d. GUEST_PHYSICAL_STATIC_MEMORY) ?bus 0x1800"
    by (simp add: in_guest_ram_def get_device_at_def bus_lookup_def register_device_def bus_new_def range_compare_def range_intersect_def range_less_def range_end_def range_last_def)
  have off: "is_cpu_turned_on_by_guest 0 ?c = Some False"
    by (simp add: is_cpu_turned_on_by_guest_def vcpu_at_def nth_opt_def is_turned_on_by_guest_def flag_is_requested_by_def requestor_bit_def)
  from start_cpu_effect [OF ok, of "[1, 2, 3, 4]" "\<lambda>d. GUEST_PHYSICAL_STATIC_MEMORY" ?bus 0 "0x1800" 9 BITS_64] ram off
  show ?thesis by auto
qed

end
