(* ===== verification/Roundup.thy ===== *)
theory Roundup
  imports CpuModel
begin

text \<open>
  \<open>vcpu/vcpu_roundup/src/vcpu_roundup.cpp\<close> with the parts of \<open>cpu_model.cpp\<close> that it works with: the
  protocol that stops the progress of all vCPUs and lets them go on. Every thread is at a place in
  the code (\<open>pc\<close>), and a step of a thread does one access to a variable that the threads share:
  an atomic operation, a compare-and-swap that succeeds, a wait that ends, or a signal.

  The threads are one per vCPU and any number of others. A vCPU thread handles exits of its guest: it
  begins an emulation, may call for a roundup while it emulates, and ends the emulation. The
  monitor may at any time ask for a vCPU to be paused and signal that it is to be switched on.
  The mutex is a flag: it is not recorded which thread took it.
\<close>

subsection \<open>Places and shared variables\<close>

datatype thread = Vcpu nat | Ext nat

text \<open>Who calls for the roundup: a thread of its own, one vCPU, or several vCPUs together.\<close>

datatype kind = External | From_vcpu | Parallel

datatype pc =
    Idle
  | Check_paused | Switch_off | Switched_off | Switch_on
  | Look | Swap | Wait_resume
  | Emulating
  | Yield kind | Enter kind | Round kind nat | Test kind | Await kind | Rounded kind
  | Unyield kind | Read_waiters kind | Store kind u16 | Resume kind nat | Wake kind nat | Exit kind
  | Par_count | Read_count | Release u16
  | F_yield | F_acquire | F_unyield
  | Par_rounded | Par_sub | R_acquire | Rel | Rel_dec
  | Done pc | Signal pc

record rsys =
  pc :: "thread \<Rightarrow> pc"
  vstate :: "nat \<Rightarrow> State"
  exec_paused :: "nat \<Rightarrow> bool"
  off_sm :: "nat \<Rightarrow> bool"
  resume_sig :: "nat \<Rightarrow> bool"
  progressing :: u16
  waiters :: u16
  emu_sig :: bool
  locked :: bool
  par_count :: u16
  par_num_waiters :: u16
  count_sem :: nat
  resume_waiter_sem :: nat

text \<open>At the start every vCPU is switched off, and nobody waits.\<close>

definition roundup_init :: "u16 \<Rightarrow> rsys" where
  "roundup_init n =
     \<lparr>pc = (\<lambda>t. case t of Vcpu _ \<Rightarrow> Switched_off | Ext _ \<Rightarrow> Idle), vstate = (\<lambda>_. OFF), exec_paused = (\<lambda>_. False),
      off_sm = (\<lambda>_. False), resume_sig = (\<lambda>_. False), progressing = n, waiters = 0, emu_sig = False, locked = False,
      par_count = 0, par_num_waiters = 0, count_sem = 0, resume_waiter_sem = 0\<rparr>"

datatype 's outcome = Blocked | Aborts | Next 's

definition goto :: "thread \<Rightarrow> pc \<Rightarrow> rsys \<Rightarrow> rsys" where
  "goto t p s = s\<lparr>pc := (pc s)(t := p)\<rparr>"

definition set_state :: "nat \<Rightarrow> State \<Rightarrow> rsys \<Rightarrow> rsys" where
  "set_state i st s = s\<lparr>vstate := (vstate s)(i := st)\<rparr>"

text \<open>What a vCPU chooses to do next where the code leaves it open.\<close>

datatype choice = Begin_emulation | End_emulation | Call_roundup | Call_parallel

subsection \<open>The steps\<close>

text \<open>A vCPU goes on, and reports its end of progress when a roundup waits for it.\<close>

definition turn_on :: "nat \<Rightarrow> pc \<Rightarrow> rsys \<Rightarrow> rsys outcome" where
  "turn_on i k s = (case to_on (vstate s i) of None \<Rightarrow> Aborts
     | Some st \<Rightarrow> Next (goto (Vcpu i) (if vstate s i = EMULATE_ROUNDEDUP then Done k else k) (set_state i st s)))"

definition notify_done :: "thread \<Rightarrow> pc \<Rightarrow> rsys \<Rightarrow> rsys outcome" where
  "notify_done t k s =
     (if progressing s = 0 then Aborts
      else Next (goto t (if progressing s = 1 then Signal k else k) (s\<lparr>progressing := progressing s - 1\<rparr>)))"

definition signal_step :: "thread \<Rightarrow> pc \<Rightarrow> rsys \<Rightarrow> rsys outcome" where
  "signal_step t k s = Next (goto t k (s\<lparr>emu_sig := True\<rparr>))"

definition unyield_step :: "thread \<Rightarrow> pc \<Rightarrow> rsys \<Rightarrow> rsys outcome" where
  "unyield_step t k s = (if waiters s = 0 then Aborts else Next (goto t k (s\<lparr>waiters := waiters s - 1\<rparr>)))"

definition round_step :: "u16 \<Rightarrow> thread \<Rightarrow> kind \<Rightarrow> nat \<Rightarrow> rsys \<Rightarrow> rsys outcome" where
  "round_step n t k j s =
     (if unat n \<le> j then Next (goto t (Test k) s)
      else case to_roundedup (vstate s j) of None \<Rightarrow> Aborts
        | Some st \<Rightarrow> Next (goto t (if vstate s j = EMULATE then Round k (Suc j) else Done (Round k (Suc j))) (set_state j st s)))"

definition resume_step :: "u16 \<Rightarrow> thread \<Rightarrow> kind \<Rightarrow> nat \<Rightarrow> rsys \<Rightarrow> rsys outcome" where
  "resume_step n t k j s =
     (if unat n \<le> j then Next (goto t (Exit k) s)
      else case to_resumed (vstate s j) of None \<Rightarrow> Aborts
        | Some st \<Rightarrow> Next (goto t (Wake k j) (set_state j st s)))"

text \<open>The steps of the code that only the thread of a vCPU runs.\<close>

definition vcpu_step :: "choice \<Rightarrow> nat \<Rightarrow> rsys \<Rightarrow> rsys outcome" where
  "vcpu_step c i s = (let t = Vcpu i in case pc s t of
     Idle \<Rightarrow> if c = Begin_emulation then Next (goto t Check_paused s) else Blocked
   | Check_paused \<Rightarrow> Next (goto t (if exec_paused s i then Switch_off else Look) s)
   | Switch_off \<Rightarrow> (case to_off (vstate s i) of None \<Rightarrow> Aborts | Some st \<Rightarrow> Next (goto t Switched_off (set_state i st s)))
   | Switched_off \<Rightarrow> if off_sm s i then Next (goto t Switch_on (s\<lparr>off_sm := (off_sm s)(i := False)\<rparr>)) else Blocked
   | Switch_on \<Rightarrow> turn_on i Check_paused s
   | Look \<Rightarrow> (case emulate_check (vstate s i) of None \<Rightarrow> Aborts
        | Some go \<Rightarrow> Next (goto t (if go then Swap else Wait_resume) s))
   | Swap \<Rightarrow> (case emulate_swap (vstate s i) of None \<Rightarrow> Aborts
        | Some (ok, st) \<Rightarrow> Next (goto t (if ok then Emulating else Wait_resume) (set_state i st s)))
   | Wait_resume \<Rightarrow>
       if resume_sig s i then Next (goto t Check_paused (s\<lparr>resume_sig := (resume_sig s)(i := False)\<rparr>)) else Blocked
   | Emulating \<Rightarrow> (case c of
          End_emulation \<Rightarrow> turn_on i Idle s
        | Call_roundup \<Rightarrow> Next (goto t (Yield From_vcpu) s)
        | Call_parallel \<Rightarrow> Next (goto t Par_count s)
        | Begin_emulation \<Rightarrow> Blocked)
   | Par_count \<Rightarrow> Next (goto t (if par_count s = 0 then Yield Parallel else F_yield) (s\<lparr>par_count := par_count s + 1\<rparr>))
   | Read_count \<Rightarrow> Next (goto t (Release (par_count s - 1)) (s\<lparr>par_num_waiters := par_count s - 1\<rparr>))
   | Release m \<Rightarrow>
       if 0 < m then Next (goto t (Release (m - 1)) (s\<lparr>count_sem := count_sem s + 1\<rparr>)) else Next (goto t Par_rounded s)
   | F_yield \<Rightarrow> Next (goto t (Done F_acquire) (s\<lparr>waiters := waiters s + 1\<rparr>))
   | F_acquire \<Rightarrow> if 0 < count_sem s then Next (goto t F_unyield (s\<lparr>count_sem := count_sem s - 1\<rparr>)) else Blocked
   | F_unyield \<Rightarrow> unyield_step t Par_rounded s
   | Par_rounded \<Rightarrow> if par_count s = 0 then Aborts else Next (goto t Par_sub s)
   | Par_sub \<Rightarrow>
       Next (goto t (if par_count s - 1 = 0 then Unyield Parallel else R_acquire) (s\<lparr>par_count := par_count s - 1\<rparr>))
   | R_acquire \<Rightarrow>
       if 0 < resume_waiter_sem s then Next (goto t Emulating (s\<lparr>resume_waiter_sem := resume_waiter_sem s - 1\<rparr>)) else Blocked
   | Rel \<Rightarrow>
       if 0 < par_num_waiters s then Next (goto t Rel_dec (s\<lparr>resume_waiter_sem := resume_waiter_sem s + 1\<rparr>))
       else Next (goto t Emulating s)
   | Rel_dec \<Rightarrow> Next (goto t Rel (s\<lparr>par_num_waiters := par_num_waiters s - 1\<rparr>))
   | _ \<Rightarrow> Blocked)"

text \<open>Where a roundup and its resume come from and return to.\<close>

fun after_rounded :: "kind \<Rightarrow> pc" where
  "after_rounded External = Read_waiters External"
| "after_rounded From_vcpu = Unyield From_vcpu"
| "after_rounded Parallel = Read_count"

fun after_resume :: "kind \<Rightarrow> pc" where
  "after_resume External = Idle"
| "after_resume From_vcpu = Emulating"
| "after_resume Parallel = Rel"

definition thread_step :: "u16 \<Rightarrow> choice \<Rightarrow> thread \<Rightarrow> rsys \<Rightarrow> rsys outcome" where
  "thread_step n c t s = (case pc s t of
     Done k \<Rightarrow> notify_done t k s
   | Signal k \<Rightarrow> signal_step t k s
   | Yield k \<Rightarrow> Next (goto t (Done (Enter k)) (s\<lparr>waiters := waiters s + 1\<rparr>))
   | Enter k \<Rightarrow> if locked s then Blocked else Next (goto t (Round k 0) (s\<lparr>locked := True\<rparr>))
   | Round k j \<Rightarrow> round_step n t k j s
   | Test k \<Rightarrow> Next (goto t (if progressing s \<noteq> 0 then Await k else Rounded k) s)
   | Await k \<Rightarrow> if emu_sig s then Next (goto t (Test k) (s\<lparr>emu_sig := False\<rparr>)) else Blocked
   | Rounded k \<Rightarrow> Next (goto t (after_rounded k) s)
   | Unyield k \<Rightarrow> unyield_step t (Read_waiters k) s
   | Read_waiters k \<Rightarrow> if waiters s \<le> n then Next (goto t (Store k (waiters s)) s) else Aborts
   | Store k w \<Rightarrow> Next (goto t (Resume k 0) (s\<lparr>progressing := n - w\<rparr>))
   | Resume k j \<Rightarrow> resume_step n t k j s
   | Wake k j \<Rightarrow> Next (goto t (Resume k (Suc j)) (s\<lparr>resume_sig := (resume_sig s)(j := True)\<rparr>))
   | Exit k \<Rightarrow> Next (goto t (after_resume k) (s\<lparr>locked := False\<rparr>))
   | _ \<Rightarrow> (case t of
        Vcpu i \<Rightarrow> if i < unat n then vcpu_step c i s else Blocked
      | Ext _ \<Rightarrow> if pc s t = Idle \<and> c = Call_roundup then Next (goto t (Enter External) s) else Blocked))"

text \<open>The steps of the threads and of the monitor, and the states that they reach.\<close>

inductive roundup_step :: "u16 \<Rightarrow> rsys \<Rightarrow> rsys \<Rightarrow> bool" for n where
  run_thread: "thread_step n c t s = Next s' \<Longrightarrow> roundup_step n s s'"
| pause: "roundup_step n s (s\<lparr>exec_paused := (exec_paused s)(i := b)\<rparr>)"
| sig_off: "roundup_step n s (s\<lparr>off_sm := (off_sm s)(i := True)\<rparr>)"

inductive roundup_reachable :: "u16 \<Rightarrow> rsys \<Rightarrow> bool" for n where
  roundup_start: "roundup_reachable n (roundup_init n)"
| roundup_next: "roundup_reachable n s \<Longrightarrow> roundup_step n s s' \<Longrightarrow> roundup_reachable n s'"

subsection \<open>The start of the machine\<close>

text \<open>The vCPUs report that they are initialized, and the last one wakes the thread that waits for all.\<close>

record startup =
  startup_done :: u16
  all_initialized :: bool

definition startup_init :: startup where
  "startup_init = \<lparr>startup_done = 0, all_initialized = False\<rparr>"

definition vcpu_notify_initialized :: "u16 \<Rightarrow> startup \<Rightarrow> startup" where
  "vcpu_notify_initialized n x = (let k = startup_done x + 1 in
     x\<lparr>startup_done := k, all_initialized := all_initialized x \<or> k = n\<rparr>)"

definition wait_for_all_off :: "startup \<Rightarrow> startup outcome" where
  "wait_for_all_off x = (if all_initialized x then Next (x\<lparr>all_initialized := False\<rparr>) else Blocked)"

text \<open>The wait ends when as many vCPUs have reported as the machine has, and not before.\<close>

lemma startup_signal:
  assumes "0 < unat n" "k < 2 ^ 16"
  shows "all_initialized ((vcpu_notify_initialized n ^^ k) startup_init) \<longleftrightarrow> unat n \<le> k"
proof -
  have "unat (startup_done ((vcpu_notify_initialized n ^^ k) startup_init)) = k \<and>
      (all_initialized ((vcpu_notify_initialized n ^^ k) startup_init) \<longleftrightarrow> unat n \<le> k)"
    using assms(2)
  proof (induction k)
    case 0
    then show ?case using assms(1) by (simp add: startup_init_def)
  next
    case (Suc k)
    let ?x = "(vcpu_notify_initialized n ^^ k) startup_init"
    have I: "unat (startup_done ?x) = k" "all_initialized ?x \<longleftrightarrow> unat n \<le> k" using Suc by simp_all
    then have u: "unat (startup_done ?x + 1) = Suc k" using Suc.prems unat_plus_no_wrap [of "startup_done ?x" 1] by simp
    then have "startup_done ?x + 1 = n \<longleftrightarrow> unat n = Suc k" by (metis unsigned_word_eqI)
    then show ?case using I(2) u by (auto simp: vcpu_notify_initialized_def [of n ?x] Let_def)
  qed
  then show ?thesis ..
qed

end
