(* ===== verification/RoundupInv.thy ===== *)
theory RoundupInv
  imports Roundup
begin

text \<open>
  The invariant of the roundup protocol and what follows from it. The invariant is relative to a
  stage, which tells how far the roundup has come that holds the mutex. The counters of the code are
  tied to the number of vCPU threads at certain places.
\<close>

subsection \<open>Counting threads\<close>

definition tally :: "nat \<Rightarrow> (nat \<Rightarrow> bool) \<Rightarrow> nat" where
  "tally n P = card {i. i < n \<and> P i}"

lemma tally_le: "tally n P \<le> n"
  unfolding tally_def using card_mono [of "{..<n}" "{i. i < n \<and> P i}"] by auto

lemma tally_cong: "(\<And>i. i < n \<Longrightarrow> P i = Q i) \<Longrightarrow> tally n P = tally n Q"
  unfolding tally_def by (rule arg_cong [where f = card]) auto

lemma tally_0 [simp]: "tally n (\<lambda>_. False) = 0"
  by (simp add: tally_def)

lemma tally_eq_0: "tally n P = 0 \<longleftrightarrow> (\<forall>i < n. \<not> P i)"
  by (auto simp: tally_def)

lemma tally_pos: "i < n \<Longrightarrow> P i \<Longrightarrow> 0 < tally n P"
  using tally_eq_0 [of n P] by auto

lemma tally_one_unique: "tally n P \<le> 1 \<Longrightarrow> i < n \<Longrightarrow> j < n \<Longrightarrow> P i \<Longrightarrow> P j \<Longrightarrow> i = j"
  unfolding tally_def by (rule card_le_Suc0_iff_eq [THEN iffD1, rule_format]) auto

lemma tally_less: "i < n \<Longrightarrow> \<not> P i \<Longrightarrow> tally n P < n"
  unfolding tally_def using psubset_card_mono [of "{..<n}" "{i. i < n \<and> P i}"] by auto

text \<open>A change at one index.\<close>

lemma tally_update:
  assumes "m < n" "\<And>i. i < n \<Longrightarrow> i \<noteq> m \<Longrightarrow> Q i = P i"
  shows "tally n Q + of_bool (P m) = tally n P + of_bool (Q m)"
proof -
  let ?A = "{i. i < n \<and> i \<noteq> m \<and> P i}"
  have "{i. i < n \<and> P i} = (if P m then insert m ?A else ?A)" "{i. i < n \<and> Q i} = (if Q m then insert m ?A else ?A)"
    using assms by auto
  then show ?thesis by (simp add: tally_def)
qed

lemma tally_complement: "tally n (\<lambda>i. \<not> P i) + tally n P = n"
proof -
  have "{i. i < n \<and> \<not> P i} = {..<n} - {i. i < n \<and> P i}" by auto
  then have "tally n (\<lambda>i. \<not> P i) = n - tally n P" by (simp add: tally_def card_Diff_subset subset_eq)
  then show ?thesis using tally_le [of n P] by simp
qed

subsection \<open>What a place says of its thread\<close>

fun base :: "pc \<Rightarrow> pc" where
  "base (Done p) = p"
| "base (Signal p) = p"
| "base p = p"

text \<open>The state of the vCPU: it is on, off, or emulates.\<close>

fun on_pc :: "pc \<Rightarrow> bool" where
  "on_pc Idle = True" | "on_pc Check_paused = True" | "on_pc Switch_off = True" | "on_pc Look = True"
| "on_pc Swap = True" | "on_pc Wait_resume = True" | "on_pc _ = False"

fun off_pc :: "pc \<Rightarrow> bool" where
  "off_pc Switched_off = True" | "off_pc Switch_on = True" | "off_pc _ = False"

text \<open>The thread that runs the roundup or the resume.\<close>

fun crit :: "pc \<Rightarrow> bool" where
  "crit (Round _ _) = True" | "crit (Test _) = True" | "crit (Await _) = True" | "crit (Rounded _) = True"
| "crit Read_count = True" | "crit (Release _) = True" | "crit (Unyield _) = True" | "crit (Read_waiters _) = True"
| "crit (Store _ _) = True" | "crit (Resume _ _) = True" | "crit (Wake _ _) = True" | "crit (Exit _) = True"
| "crit _ = False"

text \<open>A vCPU thread that has counted itself as a waiter.\<close>

fun waits :: "pc \<Rightarrow> bool" where
  "waits (Enter _) = True" | "waits (Round _ _) = True" | "waits (Test _) = True" | "waits (Await _) = True"
| "waits (Rounded _) = True" | "waits (Unyield _) = True" | "waits Read_count = True" | "waits (Release _) = True"
| "waits F_acquire = True" | "waits F_unyield = True" | "waits _ = False"

text \<open>It has also taken itself out of the count of the vCPUs that make progress.\<close>

fun yielded :: "pc \<Rightarrow> bool" where
  "yielded (Done p) = crit p"
| "yielded (Signal p) = waits p"
| "yielded p = waits p"

text \<open>The thread of an emulating vCPU that makes no progress while all vCPUs are stopped.\<close>

fun parked :: "pc \<Rightarrow> bool" where
  "parked Par_rounded = True" | "parked Par_sub = True" | "parked R_acquire = True" | "parked (Read_waiters _) = True"
| "parked (Store _ _) = True" | "parked (Resume _ _) = True" | "parked (Wake _ _) = True" | "parked (Exit _) = True"
| "parked p = yielded p"

text \<open>The groups of a parallel roundup: its members, its leader, the followers that wait for the roundup.\<close>

fun kind_of :: "pc \<Rightarrow> kind" where
  "kind_of (Yield k) = k" | "kind_of (Enter k) = k" | "kind_of (Round k _) = k" | "kind_of (Test k) = k"
| "kind_of (Await k) = k" | "kind_of (Rounded k) = k" | "kind_of (Unyield k) = k" | "kind_of (Read_waiters k) = k"
| "kind_of (Store k _) = k" | "kind_of (Resume k _) = k" | "kind_of (Wake k _) = k" | "kind_of (Exit k) = k"
| "kind_of (Done p) = kind_of p" | "kind_of (Signal p) = kind_of p" | "kind_of _ = Parallel"

fun leads :: "pc \<Rightarrow> bool" where
  "leads (Yield k) \<longleftrightarrow> k = Parallel" | "leads (Enter k) \<longleftrightarrow> k = Parallel" | "leads (Round k _) \<longleftrightarrow> k = Parallel"
| "leads (Test k) \<longleftrightarrow> k = Parallel" | "leads (Await k) \<longleftrightarrow> k = Parallel" | "leads (Rounded k) \<longleftrightarrow> k = Parallel"
| "leads Read_count = True" | "leads (Release _) = True" | "leads (Done p) = leads p" | "leads (Signal p) = leads p" | "leads _ = False"

fun joined :: "pc \<Rightarrow> bool" where
  "joined F_yield = True" | "joined F_acquire = True" | "joined F_unyield = True" | "joined Par_rounded = True"
| "joined Par_sub = True" | "joined (Done p) = (joined p \<or> leads p)" | "joined (Signal p) = (joined p \<or> leads p)" | "joined p = leads p"

fun follows :: "pc \<Rightarrow> bool" where
  "follows F_acquire = True" | "follows (Signal p) = follows p" | "follows _ = False"

text \<open>The member that resumes the vCPUs and then lets the others go.\<close>

fun finishes :: "pc \<Rightarrow> bool" where
  "finishes (Unyield k) \<longleftrightarrow> k = Parallel" | "finishes (Read_waiters k) \<longleftrightarrow> k = Parallel" | "finishes (Store k _) \<longleftrightarrow> k = Parallel"
| "finishes (Resume k _) \<longleftrightarrow> k = Parallel" | "finishes (Wake k _) \<longleftrightarrow> k = Parallel" | "finishes (Exit k) \<longleftrightarrow> k = Parallel"
| "finishes Rel = True" | "finishes Rel_dec = True" | "finishes _ = False"

text \<open>The places of threads of the two sorts.\<close>

fun nested :: "pc \<Rightarrow> bool" where
  "nested (Done _) = True" | "nested (Signal _) = True" | "nested _ = False"

definition pc_ok :: "thread \<Rightarrow> pc \<Rightarrow> bool" where
  "pc_ok t p \<longleftrightarrow> \<not> nested (base p) \<and>
     (case p of Done q \<Rightarrow> (q = Idle \<and> (\<exists>i. t = Vcpu i)) \<or> (\<exists>k j. q = Round k j) \<or> ((\<exists>k. q = Enter k) \<or> q = F_acquire) \<and> (\<exists>i. t = Vcpu i)
      | Signal q \<Rightarrow> (q = Idle \<and> (\<exists>i. t = Vcpu i)) \<or> (\<exists>k j. q = Round k j) \<or> ((\<exists>k. q = Enter k) \<or> q = F_acquire) \<and> (\<exists>i. t = Vcpu i)
      | _ \<Rightarrow> True) \<and>
     (case t of
        Vcpu _ \<Rightarrow> kind_of (base p) \<noteq> External
      | Ext _ \<Rightarrow> p = Idle \<or> kind_of (base p) = External \<and> (\<forall>k. base p \<noteq> Yield k \<and> base p \<noteq> Unyield k))"

definition state_ok :: "pc \<Rightarrow> State \<Rightarrow> bool" where
  "state_ok p st \<longleftrightarrow>
     (if p = Done Idle then st = ON_ROUNDEDUP
      else if on_pc (base p) then st = ON \<or> st = ON_ROUNDEDUP
      else if off_pc (base p) then st = OFF \<or> st = OFF_ROUNDEDUP
      else st = EMULATE \<or> st = EMULATE_ROUNDEDUP)"

subsection \<open>The stages\<close>

datatype stage = Free | Sweep thread nat | Drain thread | Complete thread | Joint | Ending thread | Resuming thread nat

fun owner :: "stage \<Rightarrow> thread option" where
  "owner Free = None" | "owner (Sweep t _) = Some t" | "owner (Drain t) = Some t" | "owner (Complete t) = Some t"
| "owner Joint = None" | "owner (Ending t) = Some t" | "owner (Resuming t _) = Some t"

fun owner_pc :: "stage \<Rightarrow> pc \<Rightarrow> bool" where
  "owner_pc (Sweep t j) p \<longleftrightarrow> (\<exists>k. p = Round k j \<or> p = Done (Round k j) \<or> p = Signal (Round k j))"
| "owner_pc (Drain t) p \<longleftrightarrow> (\<exists>k. p = Test k \<or> p = Await k)"
| "owner_pc (Complete t) p \<longleftrightarrow> (\<exists>k. p = Rounded k) \<or> p = Read_count \<or> (\<exists>m. p = Release m)"
| "owner_pc (Ending t) p \<longleftrightarrow> (\<exists>k. p = Unyield k \<or> p = Read_waiters k \<or> (\<exists>w. p = Store k w))"
| "owner_pc (Resuming t j) p \<longleftrightarrow> (\<exists>k. p = Resume k j \<or> (\<exists>i. j = Suc i \<and> p = Wake k i) \<or> p = Exit k)"
| "owner_pc _ p \<longleftrightarrow> False"

text \<open>Which vCPUs have been rounded up, whose contribution to the count has been swept, and which are stopped.\<close>

fun is_rounded :: "nat \<Rightarrow> stage \<Rightarrow> nat \<Rightarrow> bool" where
  "is_rounded n Free i = False" | "is_rounded n (Sweep t j) i = (i < j)" | "is_rounded n (Resuming t j) i = (j \<le> i)"
| "is_rounded n _ i = True"

fun swept :: "stage \<Rightarrow> nat \<Rightarrow> bool" where
  "swept (Sweep t j) i = (i < j)" | "swept (Drain t) i = True" | "swept _ i = False"

fun stopped :: "stage \<Rightarrow> nat \<Rightarrow> bool" where
  "stopped (Complete t) i = True" | "stopped Joint i = True" | "stopped (Ending t) i = True" | "stopped (Resuming t j) i = (j \<le> i)"
| "stopped _ i = False"

fun frozen :: "stage \<Rightarrow> bool" where
  "frozen (Complete t) = True" | "frozen Joint = True" | "frozen (Ending t) = True" | "frozen _ = False"

definition counted :: "stage \<Rightarrow> nat \<Rightarrow> pc \<Rightarrow> State \<Rightarrow> bool" where
  "counted g i p st \<longleftrightarrow> \<not> yielded p \<and> (\<not> swept g i \<or> st = EMULATE_ROUNDEDUP \<or> p = Done Idle)"

text \<open>The decrement that the roundup still owes for a vCPU that it has just stopped.\<close>

fun owed :: "pc \<Rightarrow> nat" where
  "owed (Done p) = of_bool (crit p)" | "owed _ = 0"

fun calm :: "stage \<Rightarrow> bool" where
  "calm Free = True" | "calm (Sweep t j) = True" | "calm (Drain t) = True" | "calm _ = False"

definition releasing :: "stage \<Rightarrow> rsys \<Rightarrow> bool" where
  "releasing g s \<longleftrightarrow> g = Joint \<or> (\<exists>t m. g = Complete t \<and> pc s t = Release m)"

abbreviation vpc :: "rsys \<Rightarrow> nat \<Rightarrow> pc" where "vpc s i \<equiv> pc s (Vcpu i)"

definition places_inv :: "nat \<Rightarrow> stage \<Rightarrow> rsys \<Rightarrow> bool" where
  "places_inv n g s \<longleftrightarrow>
     (\<forall>t. pc_ok t (pc s t)) \<and> (\<forall>i \<ge> n. vpc s i = Switched_off) \<and> (\<forall>i < n. state_ok (vpc s i) (vstate s i)) \<and>
     (locked s \<longleftrightarrow> g \<noteq> Free) \<and> (\<forall>t. crit (base (pc s t)) \<longleftrightarrow> owner g = Some t) \<and>
     (\<forall>t. owner g = Some t \<longrightarrow> owner_pc g (pc s t)) \<and> (\<forall>i. owner g = Some (Vcpu i) \<longrightarrow> i < n) \<and>
     (\<forall>t j. g = Sweep t j \<or> g = Resuming t j \<longrightarrow> j \<le> n) \<and> (\<forall>t k. pc s t = Exit k \<longrightarrow> g = Resuming t n) \<and>
     (\<forall>i < n. rounded (vstate s i) \<longleftrightarrow> is_rounded n g i)"

definition count_inv :: "nat \<Rightarrow> stage \<Rightarrow> rsys \<Rightarrow> bool" where
  "count_inv n g s \<longleftrightarrow>
     unat (progressing s) = (if frozen g then 0
       else tally n (\<lambda>i. counted g i (vpc s i) (vstate s i)) + (case owner g of None \<Rightarrow> 0 | Some t \<Rightarrow> owed (pc s t))) \<and>
     unat (waiters s) = tally n (\<lambda>i. waits (base (vpc s i))) + of_bool (g = Joint) \<and>
     (\<forall>i < n. stopped g i \<longrightarrow> (vstate s i \<noteq> EMULATE_ROUNDEDUP \<and> vpc s i \<noteq> Done Idle) \<or> parked (vpc s i)) \<and>
     (\<forall>t k w. pc s t = Store k w \<longrightarrow> waiters s = w)"

definition group_inv :: "nat \<Rightarrow> stage \<Rightarrow> rsys \<Rightarrow> bool" where
  "group_inv n g s \<longleftrightarrow>
     unat (par_count s) = tally n (\<lambda>i. joined (vpc s i)) \<and>
     tally n (\<lambda>i. leads (vpc s i)) \<le> 1 \<and>
     (g \<noteq> Joint \<longrightarrow> 0 < tally n (\<lambda>i. joined (vpc s i)) \<longrightarrow> tally n (\<lambda>i. leads (vpc s i)) = 1) \<and>
     (\<forall>i < n. vpc s i \<in> {F_unyield, Par_rounded, Par_sub} \<longrightarrow> releasing g s) \<and>
     (\<not> releasing g s \<longrightarrow> count_sem s = 0) \<and>
     (g = Joint \<longrightarrow> count_sem s = tally n (\<lambda>i. follows (vpc s i))) \<and>
     (\<forall>t m. pc s t = Release m \<longrightarrow> count_sem s + unat m = tally n (\<lambda>i. follows (vpc s i))) \<and>
     (\<not> calm g \<longrightarrow> resume_waiter_sem s = 0 \<and> (\<forall>i < n. vpc s i \<noteq> Rel \<and> vpc s i \<noteq> Rel_dec)) \<and>
     (\<forall>i < n. vpc s i = Rel_dec \<longrightarrow> par_num_waiters s \<noteq> 0) \<and>
     tally n (\<lambda>i. finishes (vpc s i)) \<le> 1 \<and>
     (if releasing g s
      then unat (par_num_waiters s) + 1 = tally n (\<lambda>i. joined (vpc s i)) + tally n (\<lambda>i. vpc s i = R_acquire)
      else resume_waiter_sem s + unat (par_num_waiters s) =
             tally n (\<lambda>i. vpc s i = R_acquire) + tally n (\<lambda>i. vpc s i = Rel_dec) \<and>
           (tally n (\<lambda>i. finishes (vpc s i)) = 0 \<longrightarrow> par_num_waiters s = 0))"

definition wake_inv :: "nat \<Rightarrow> stage \<Rightarrow> rsys \<Rightarrow> bool" where
  "wake_inv n g s \<longleftrightarrow>
     (\<forall>t k. pc s t = Await k \<longrightarrow> progressing s = 0 \<longrightarrow> emu_sig s \<or> (\<exists>t' q. pc s t' = Signal q)) \<and>
     (\<forall>i < n. vpc s i = Wait_resume \<longrightarrow> vstate s i = ON_ROUNDEDUP \<or> resume_sig s i \<or> (\<exists>t k. pc s t = Wake k i))"

definition rinv :: "u16 \<Rightarrow> stage \<Rightarrow> rsys \<Rightarrow> bool" where
  "rinv n g s \<longleftrightarrow> places_inv (unat n) g s \<and> count_inv (unat n) g s \<and> group_inv (unat n) g s \<and> wake_inv (unat n) g s"


subsection \<open>Moves of one thread\<close>

lemma goto_fields [simp]:
  "pc (goto t p s) = (pc s)(t := p)" "vstate (goto t p s) = vstate s" "exec_paused (goto t p s) = exec_paused s"
  "off_sm (goto t p s) = off_sm s" "resume_sig (goto t p s) = resume_sig s" "progressing (goto t p s) = progressing s"
  "waiters (goto t p s) = waiters s" "emu_sig (goto t p s) = emu_sig s" "locked (goto t p s) = locked s"
  "par_count (goto t p s) = par_count s" "par_num_waiters (goto t p s) = par_num_waiters s" "count_sem (goto t p s) = count_sem s"
  "resume_waiter_sem (goto t p s) = resume_waiter_sem s"
  by (simp_all add: goto_def)

lemma set_state_fields [simp]:
  "pc (set_state i st s) = pc s" "vstate (set_state i st s) = (vstate s)(i := st)" "exec_paused (set_state i st s) = exec_paused s"
  "off_sm (set_state i st s) = off_sm s" "resume_sig (set_state i st s) = resume_sig s" "progressing (set_state i st s) = progressing s"
  "waiters (set_state i st s) = waiters s" "emu_sig (set_state i st s) = emu_sig s" "locked (set_state i st s) = locked s"
  "par_count (set_state i st s) = par_count s" "par_num_waiters (set_state i st s) = par_num_waiters s"
  "count_sem (set_state i st s) = count_sem s" "resume_waiter_sem (set_state i st s) = resume_waiter_sem s"
  by (simp_all add: set_state_def)

definition here :: "thread \<Rightarrow> bool \<Rightarrow> nat" where
  "here t b = (case t of Vcpu _ \<Rightarrow> of_bool b | Ext _ \<Rightarrow> 0)"

lemma here_simps [simp]: "here (Vcpu m) b = of_bool b" "here (Ext e) b = 0"
  by (simp_all add: here_def)

lemma tally_move:
  assumes "pc s' = (pc s)(t := q)" "\<And>m. t = Vcpu m \<Longrightarrow> m < n"
  shows "tally n (\<lambda>i. P (vpc s' i)) + here t (P (pc s t)) = tally n (\<lambda>i. P (vpc s i)) + here t (P q)"
proof (cases t)
  case (Vcpu m)
  then have "m < n" using assms(2) by simp
  from tally_update [OF this, of "\<lambda>i. P (vpc s' i)" "\<lambda>i. P (vpc s i)"] assms(1) Vcpu show ?thesis by simp
qed (use assms(1) in \<open>simp cong: tally_cong\<close>)

lemma tally_same:
  assumes "pc s' = (pc s)(t := q)" "P q = P (pc s t)"
  shows "tally n (\<lambda>i. P (vpc s' i)) = tally n (\<lambda>i. P (vpc s i))"
  using assms by (intro tally_cong) auto

definition same_group :: "pc \<Rightarrow> pc \<Rightarrow> bool" where
  "same_group p q \<longleftrightarrow> joined p = joined q \<and> leads p = leads q \<and> finishes p = finishes q \<and>
     (\<forall>r \<in> {p, q}. r \<notin> {R_acquire, Rel, Rel_dec, F_unyield, Par_rounded, Par_sub} \<and> (\<forall>m. r \<noteq> Release m))"

lemma group_frame:
  assumes "group_inv n g s" "pc s' = (pc s)(t := q)" "same_group (pc s t) q"
    and "follows q = follows (pc s t) \<or> \<not> releasing g s"
    and "par_count s' = par_count s" "par_num_waiters s' = par_num_waiters s" "count_sem s' = count_sem s"
      "resume_waiter_sem s' = resume_waiter_sem s"
    and "g' = Joint \<longleftrightarrow> g = Joint" "releasing g' s' \<longleftrightarrow> releasing g s" "\<And>t m. pc s t = Release m \<Longrightarrow> releasing g s"
    and "\<not> calm g' \<Longrightarrow> \<not> calm g \<or> resume_waiter_sem s = 0 \<and> (\<forall>i < n. vpc s i \<noteq> Rel \<and> vpc s i \<noteq> Rel_dec)"
  shows "group_inv n g' s'"
proof -
  have c: "joined q = joined (pc s t)" "leads q = leads (pc s t)" "finishes q = finishes (pc s t)"
    "(q = R_acquire) = (pc s t = R_acquire)" "(q = Rel_dec) = (pc s t = Rel_dec)"
    and n: "\<And>m. q \<noteq> Release m" "\<And>m. pc s t \<noteq> Release m" "q \<notin> {Rel, Rel_dec, F_unyield, Par_rounded, Par_sub}"
    using assms(3) by (auto simp: same_group_def)
  note t = tally_same [where P = joined, OF assms(2) c(1)] tally_same [where P = leads, OF assms(2) c(2)]
    tally_same [where P = finishes, OF assms(2) c(3)] tally_same [where P = "\<lambda>p. p = R_acquire", OF assms(2) c(4)]
    tally_same [where P = "\<lambda>p. p = Rel_dec", OF assms(2) c(5)]
  have rel: "pc s' u = Release m \<longleftrightarrow> pc s u = Release m" for u m using n assms(2) by auto
  have fol: "releasing g s \<Longrightarrow> tally n (\<lambda>i. follows (vpc s' i)) = tally n (\<lambda>i. follows (vpc s i))"
    using assms(4) by (intro tally_same [OF assms(2)]) blast
  have places: "\<forall>i < n. vpc s' i \<in> {F_unyield, Par_rounded, Par_sub} \<longrightarrow> releasing g' s'"
    "\<forall>u m. pc s' u = Release m \<longrightarrow> count_sem s + unat m = tally n (\<lambda>i. follows (vpc s' i))"
    "g' = Joint \<longrightarrow> count_sem s = tally n (\<lambda>i. follows (vpc s' i))"
    "\<not> calm g' \<longrightarrow> resume_waiter_sem s = 0 \<and> (\<forall>i < n. vpc s' i \<noteq> Rel \<and> vpc s' i \<noteq> Rel_dec)"
    "\<forall>i < n. vpc s' i = Rel_dec \<longrightarrow> par_num_waiters s \<noteq> 0"
    using assms(1) n(3) assms(2,10) apply (auto simp: group_inv_def) [1]
    using assms(1,11) fol rel apply (auto simp: group_inv_def) [1]
    using assms(1,9) fol apply (auto simp: group_inv_def releasing_def) [1]
    using assms(1,2,12) n(3) apply (auto simp: group_inv_def) [1]
    using assms(1,2) n(3) by (auto simp: group_inv_def)
  show ?thesis
    using assms(1) places assms(9,10) unfolding group_inv_def assms(5-8,10) t by auto
qed

lemma placesD:
  assumes "places_inv n g s"
  shows "pc_ok t (pc s t)" "i \<ge> n \<Longrightarrow> vpc s i = Switched_off" "i < n \<Longrightarrow> state_ok (vpc s i) (vstate s i)"
    "crit (base (pc s t)) \<longleftrightarrow> owner g = Some t" "owner g = Some t \<Longrightarrow> owner_pc g (pc s t)"
    "owner g = Some (Vcpu i) \<Longrightarrow> i < n" "g = Sweep t j \<Longrightarrow> j \<le> n" "g = Resuming t j \<Longrightarrow> j \<le> n" "pc s t = Exit k \<Longrightarrow> g = Resuming t n"
    "i < n \<Longrightarrow> rounded (vstate s i) \<longleftrightarrow> is_rounded n g i" "locked s \<longleftrightarrow> g \<noteq> Free"
  using assms by (simp_all add: places_inv_def)

lemma releasing_cong: "(\<And>t m. pc s' t = Release m \<longleftrightarrow> pc s t = Release m) \<Longrightarrow> releasing g s' = releasing g s"
  by (simp add: releasing_def)

lemma crit_stage:
  assumes "places_inv n g s" "crit (base (pc s t))"
  shows "owner g = Some t" "owner_pc g (pc s t)"
  using placesD [OF assms(1)] assms(2) by blast+

lemma release_stage: "places_inv n g s \<Longrightarrow> pc s t = Release m \<Longrightarrow> releasing g s"
  using crit_stage [of n g s t] by (cases g) (auto simp: releasing_def)

lemma store_stage: "places_inv n g s \<Longrightarrow> pc s t = Store k w \<Longrightarrow> g = Ending t"
  using crit_stage [of n g s t] by (cases g) auto

lemma releasing_frozen: "releasing g s \<Longrightarrow> frozen g"
  by (auto simp: releasing_def)

lemma places_frame:
  assumes "places_inv n g s" "pc s' = (pc s)(t := q)" "pc_ok t q" "\<And>m. t = Vcpu m \<Longrightarrow> m < n"
    and "\<And>m. t = Vcpu m \<Longrightarrow> state_ok q (vstate s' m)"
    and "\<And>i. i < n \<Longrightarrow> t \<noteq> Vcpu i \<Longrightarrow> state_ok (vpc s i) (vstate s' i)"
    and "locked s' \<longleftrightarrow> g' \<noteq> Free" "crit (base q) \<longleftrightarrow> owner g' = Some t" "crit (base q) \<Longrightarrow> owner_pc g' q"
    and "\<And>t'. t' \<noteq> t \<Longrightarrow> owner g' = Some t' \<longleftrightarrow> owner g = Some t'"
    and "\<And>t'. t' \<noteq> t \<Longrightarrow> owner g = Some t' \<Longrightarrow> g' = g"
    and "\<And>t j. g' = Sweep t j \<or> g' = Resuming t j \<Longrightarrow> j \<le> n" "\<And>k. q = Exit k \<Longrightarrow> g' = Resuming t n"
    and "\<And>i. i < n \<Longrightarrow> rounded (vstate s' i) \<longleftrightarrow> is_rounded n g' i"
  shows "places_inv n g' s'"
proof -
  note inv = placesD [OF assms(1)]
  have "\<forall>t'. crit (base (pc s' t')) \<longleftrightarrow> owner g' = Some t'" using inv(4) assms(2,8,10) by auto
  moreover have "\<forall>t'. owner g' = Some t' \<longrightarrow> owner_pc g' (pc s' t')"
  proof (intro allI impI)
    fix t' assume o: "owner g' = Some t'"
    show "owner_pc g' (pc s' t')"
    proof (cases "t' = t")
      case False
      then have g: "owner g = Some t'" using assms(10) o by blast
      then have "g' = g" using assms(11) False by blast
      then show ?thesis using inv(5) [OF g] assms(2) False by simp
    qed (use o assms(2,8,9) in auto)
  qed
  moreover have "\<forall>i. owner g' = Some (Vcpu i) \<longrightarrow> i < n" using inv(6) assms(4,10) by metis
  moreover have "\<forall>t' k. pc s' t' = Exit k \<longrightarrow> g' = Resuming t' n"
  proof (intro allI impI)
    fix t' k assume e: "pc s' t' = Exit k"
    show "g' = Resuming t' n"
    proof (cases "t' = t")
      case False
      then have p: "pc s t' = Exit k" using e assms(2) by simp
      then have "owner g = Some t'" using inv(4) [of t'] by simp
      then show ?thesis using inv(9) [OF p] assms(11) False by auto
    qed (use e assms(2,13) in auto)
  qed
  ultimately show ?thesis
    using inv(1,2) assms(2-7,12,14) unfolding places_inv_def by auto
qed

lemma wake_frame:
  assumes "wake_inv n g s" "pc s' = (pc s)(t := q)"
    and "progressing s' = 0 \<Longrightarrow> progressing s = 0 \<or> (\<exists>r. q = Signal r) \<or> emu_sig s' \<or> (\<forall>t' k. pc s' t' \<noteq> Await k)"
    and "\<And>k. q = Await k \<Longrightarrow> progressing s' \<noteq> 0"
    and "\<And>r. pc s t = Signal r \<Longrightarrow> emu_sig s'" "emu_sig s \<Longrightarrow> emu_sig s' \<or> (\<forall>t' k. pc s' t' \<noteq> Await k)"
    and "\<And>i. t = Vcpu i \<Longrightarrow> q = Wait_resume \<Longrightarrow> vstate s' i = ON_ROUNDEDUP"
    and "\<And>i. i < n \<Longrightarrow> t \<noteq> Vcpu i \<Longrightarrow> vstate s i = ON_ROUNDEDUP \<Longrightarrow> vpc s i = Wait_resume \<Longrightarrow> vstate s' i = ON_ROUNDEDUP \<or> (\<exists>k. q = Wake k i)"
    and "\<And>i. t \<noteq> Vcpu i \<Longrightarrow> resume_sig s i \<Longrightarrow> resume_sig s' i" "\<And>k i. pc s t = Wake k i \<Longrightarrow> resume_sig s' i"
  shows "wake_inv n g' s'"
proof -
  have 1: "emu_sig s' \<or> (\<exists>t' r. pc s' t' = Signal r)" if a: "pc s' t' = Await k" "progressing s' = 0" for t' k
  proof (cases "t' = t")
    case True
    then show ?thesis using a assms(2,4) by simp
  next
    case False
    then have p: "pc s t' = Await k" using a(1) assms(2) by simp
    from assms(3) [OF a(2)] a(1) consider "progressing s = 0" | r where "q = Signal r" | "emu_sig s'" by blast
    then show ?thesis
    proof cases
      case 1
      with assms(1) p have "emu_sig s \<or> (\<exists>u r. pc s u = Signal r)" unfolding wake_inv_def by blast
      then show ?thesis
      proof
        assume "\<exists>u r. pc s u = Signal r"
        then obtain u r where u: "pc s u = Signal r" by blast
        show ?thesis
        proof (cases "u = t")
          case False
          then have "pc s' u = Signal r" using u assms(2) by simp
          then show ?thesis by blast
        qed (use u assms(5) in blast)
      qed (use assms(6) a(1) in blast)
    next
      case (2 r)
      then have "pc s' t = Signal r" using assms(2) by simp
      then show ?thesis by blast
    qed blast
  qed
  have 2: "vstate s' i = ON_ROUNDEDUP \<or> resume_sig s' i \<or> (\<exists>u k. pc s' u = Wake k i)" if w: "i < n" "vpc s' i = Wait_resume" for i
  proof (cases "t = Vcpu i")
    case True
    then show ?thesis using w assms(2,7) by simp
  next
    case False
    then have p: "vpc s i = Wait_resume" using w(2) assms(2) by (auto simp: fun_upd_def split: if_splits)
    with assms(1) w(1) have "vstate s i = ON_ROUNDEDUP \<or> resume_sig s i \<or> (\<exists>u k. pc s u = Wake k i)" unfolding wake_inv_def by blast
    then show ?thesis
    proof (elim disjE)
      assume "vstate s i = ON_ROUNDEDUP"
      from assms(8) [OF w(1) False this p] assms(2) show ?thesis by (metis fun_upd_same)
    next
      assume "\<exists>u k. pc s u = Wake k i"
      then obtain u k where u: "pc s u = Wake k i" by blast
      then show ?thesis using assms(2,10) by (cases "u = t") (auto simp: fun_upd_def)
    qed (use assms(9) False in blast)
  qed
  show ?thesis using 1 2 unfolding wake_inv_def by blast
qed

text \<open>
  A step of the thread of a vCPU outside the roundup: the stage stays, and the counters change as the
  place of the thread tells. The variables of the groups are left to the premise on \<open>group_inv\<close>.
\<close>

lemma vcpu_move:
  assumes inv: "rinv n g s" and m: "m < unat n"
    and s': "pc s' = (pc s)(Vcpu m := q)" "vstate s' = (vstate s)(m := st)" "locked s' = locked s"
    and sigs: "emu_sig s \<Longrightarrow> emu_sig s'" "\<And>r. vpc s m = Signal r \<Longrightarrow> emu_sig s'" "\<And>i. i \<noteq> m \<Longrightarrow> resume_sig s' i = resume_sig s i"
    and group: "group_inv (unat n) g s'"
    and waiting: "unat (waiters s') + of_bool (waits (base (vpc s m))) = unat (waiters s) + of_bool (waits (base q))"
      "waiters s' = waiters s \<or> (\<forall>t k w. pc s t \<noteq> Store k w)"
    and prog: "\<not> frozen g \<Longrightarrow> unat (progressing s') + of_bool (counted g m (vpc s m) (vstate s m)) =
        unat (progressing s) + of_bool (counted g m q st)" "frozen g \<Longrightarrow> progressing s' = progressing s"
      "progressing s' = 0 \<Longrightarrow> progressing s = 0 \<or> (\<exists>r. q = Signal r) \<or> emu_sig s'"
    and p: "\<not> crit (base (vpc s m))"
    and q: "\<not> crit (base q)" "pc_ok (Vcpu m) q" "state_ok q st" "q = Wait_resume \<Longrightarrow> st = ON_ROUNDEDUP"
    and st: "rounded st = rounded (vstate s m)" "stopped g m \<Longrightarrow> (st \<noteq> EMULATE_ROUNDEDUP \<and> q \<noteq> Done Idle) \<or> parked q"
  shows "rinv n g s'"
proof -
  let ?n = "unat n"
  have I: "places_inv ?n g s" "count_inv ?n g s" "wake_inv ?n g s" using inv by (simp_all add: rinv_def)
  have own: "owner g \<noteq> Some (Vcpu m)" using I(1) p(1) by (auto simp: places_inv_def)
  have crit': "\<And>k. q \<noteq> Await k" "\<And>k i. vpc s m \<noteq> Wake k i" "\<And>k. q \<noteq> Exit k" "\<And>k w. q \<noteq> Store k w" using p(1) q(1) by auto
  have "places_inv ?n g s'"
    by (rule places_frame [OF I(1) s'(1)]) (use I(1) m s'(2,3) q own st(1) crit' in \<open>auto simp: places_inv_def\<close>)
  moreover have "count_inv ?n g s'"
  proof -
    have w: "tally ?n (\<lambda>i. waits (base (vpc s' i))) + of_bool (waits (base (vpc s m))) =
        tally ?n (\<lambda>i. waits (base (vpc s i))) + of_bool (waits (base q))"
      using tally_move [where P = "\<lambda>p. waits (base p)" and n = ?n, OF s'(1)] m by simp
    have c: "tally ?n (\<lambda>i. counted g i (vpc s' i) (vstate s' i)) + of_bool (counted g m (vpc s m) (vstate s m)) =
        tally ?n (\<lambda>i. counted g i (vpc s i) (vstate s i)) + of_bool (counted g m q st)"
      using tally_update [OF m, of "\<lambda>i. counted g i (vpc s' i) (vstate s' i)" "\<lambda>i. counted g i (vpc s i) (vstate s i)"] s' by simp
    have o: "(case owner g of None \<Rightarrow> 0 | Some t \<Rightarrow> owed (pc s' t)) = (case owner g of None \<Rightarrow> 0 | Some t \<Rightarrow> owed (pc s t))"
      using own s'(1) by (auto split: option.splits)
    have 1: "unat (progressing s') = (if frozen g then 0 else tally ?n (\<lambda>i. counted g i (vpc s' i) (vstate s' i)) +
        (case owner g of None \<Rightarrow> 0 | Some t \<Rightarrow> owed (pc s' t)))"
      using I(2) prog(1,2) c unfolding count_inv_def o by (auto split: if_splits)
    have 2: "unat (waiters s') = tally ?n (\<lambda>i. waits (base (vpc s' i))) + of_bool (g = Joint)"
      using I(2) waiting(1) w unfolding count_inv_def by linarith
    have 3: "(vstate s' i \<noteq> EMULATE_ROUNDEDUP \<and> vpc s' i \<noteq> Done Idle) \<or> parked (vpc s' i)" if "i < ?n" "stopped g i" for i
      using I(2) that st(2) s' unfolding count_inv_def by (cases "i = m") auto
    have 4: "waiters s' = w" if "pc s' t = Store k w" for t k w
      using I(2) waiting(2) that crit'(4) s' unfolding count_inv_def by (cases "t = Vcpu m") auto
    show ?thesis unfolding count_inv_def using 1 2 3 4 by blast
  qed
  moreover have "wake_inv ?n g s'"
    by (rule wake_frame [OF I(3) s'(1)]) (use s' sigs prog(3) q(4) crit' in auto)
  ultimately show ?thesis using group by (simp add: rinv_def)
qed

text \<open>A move that no counter sees.\<close>

lemma quiet_move:
  assumes inv: "rinv n g s" and m: "m < unat n"
    and s': "pc s' = (pc s)(Vcpu m := q)" "vstate s' = (vstate s)(m := st)"
    and vars: "locked s' = locked s" "progressing s' = progressing s" "waiters s' = waiters s" "emu_sig s' = emu_sig s"
      "par_count s' = par_count s" "par_num_waiters s' = par_num_waiters s" "count_sem s' = count_sem s"
      "resume_waiter_sem s' = resume_waiter_sem s" "\<And>i. i \<noteq> m \<Longrightarrow> resume_sig s' i = resume_sig s i"
    and p: "\<not> crit (base (vpc s m))" "\<And>r. vpc s m \<noteq> Signal r"
    and q: "\<not> crit (base q)" "pc_ok (Vcpu m) q" "state_ok q st" "same_group (vpc s m) q" "follows q = follows (vpc s m)" "waits (base q) = waits (base (vpc s m))"
      "q = Wait_resume \<Longrightarrow> st = ON_ROUNDEDUP"
    and st: "rounded st = rounded (vstate s m)" "counted g m q st = counted g m (vpc s m) (vstate s m)"
      "stopped g m \<Longrightarrow> (st \<noteq> EMULATE_ROUNDEDUP \<and> q \<noteq> Done Idle) \<or> parked q"
  shows "rinv n g s'"
proof (rule vcpu_move [OF inv m s' vars(1)])
  have I: "group_inv (unat n) g s" "places_inv (unat n) g s" using inv by (simp_all add: rinv_def)
  show "group_inv (unat n) g s'"
  proof (rule group_frame [OF I(1) s'(1) q(4) _ _ _ _ _ _ _ release_stage [OF I(2)]])
    show "releasing g s' \<longleftrightarrow> releasing g s" using s'(1) q(4) by (intro releasing_cong) (auto simp: same_group_def)
  qed (use vars q(5) in simp_all)
qed (use vars p q st in simp_all)

subsection \<open>The steps of a vCPU outside a roundup\<close>

lemma stage_rounded: "swept g i \<Longrightarrow> is_rounded n g i" "stopped g i \<Longrightarrow> is_rounded n g i"
  by (cases g; simp)+

definition good_step :: "u16 \<Rightarrow> rsys outcome \<Rightarrow> bool" where
  "good_step n r \<longleftrightarrow> r \<noteq> Aborts \<and> (\<forall>s'. r = Next s' \<longrightarrow> (\<exists>g'. rinv n g' s'))"

lemma good_step_simps [simp]: "good_step n Blocked" "\<not> good_step n Aborts" "good_step n (Next s') \<longleftrightarrow> (\<exists>g'. rinv n g' s')"
  by (simp_all add: good_step_def)

lemmas moves = same_group_def pc_ok_def state_ok_def counted_def rounded_def

text \<open>What is known of the state of a vCPU, by the place of its thread.\<close>

lemma vcpu_facts:
  assumes "rinv n g s" "m < unat n"
  shows "state_ok (vpc s m) (vstate s m)" "rounded (vstate s m) \<longleftrightarrow> is_rounded (unat n) g m"
    "swept g m \<Longrightarrow> rounded (vstate s m)" "stopped g m \<Longrightarrow> rounded (vstate s m)"
    "stopped g m \<Longrightarrow> vstate s m \<noteq> EMULATE_ROUNDEDUP \<and> vpc s m \<noteq> Done Idle \<or> parked (vpc s m)" "pc_ok (Vcpu m) (vpc s m)"
proof -
  have p: "places_inv (unat n) g s" and c: "count_inv (unat n) g s" using assms(1) by (simp_all add: rinv_def)
  show "state_ok (vpc s m) (vstate s m)" "pc_ok (Vcpu m) (vpc s m)" using placesD [OF p] assms(2) by blast+
  show r: "rounded (vstate s m) \<longleftrightarrow> is_rounded (unat n) g m" using placesD(10) [OF p] assms(2) by blast
  show "swept g m \<Longrightarrow> rounded (vstate s m)" "stopped g m \<Longrightarrow> rounded (vstate s m)" using stage_rounded r by blast+
  show "stopped g m \<Longrightarrow> vstate s m \<noteq> EMULATE_ROUNDEDUP \<and> vpc s m \<noteq> Done Idle \<or> parked (vpc s m)"
    using c assms(2) by (simp add: count_inv_def)
qed

lemma quiet_steps:
  assumes inv: "rinv n g s" and m: "m < unat n"
    and p: "vpc s m \<in> {Idle, Check_paused, Switch_off, Switched_off, Switch_on, Look, Swap, Wait_resume}"
  shows "good_step n (vcpu_step c m s)"
proof -
  note f = vcpu_facts [OF inv m]
  have q: "rinv n g (goto (Vcpu m) q (set_state m st s\<lparr>off_sm := o', resume_sig := r'\<rparr>))"
    if st: "on_pc q \<and> st \<in> {ON, ON_ROUNDEDUP} \<or> off_pc q \<and> st \<in> {OFF, OFF_ROUNDEDUP} \<or> q = Emulating \<and> st = EMULATE"
      "rounded st = rounded (vstate s m)" "q = Wait_resume \<longrightarrow> st = ON_ROUNDEDUP" "\<And>i. i \<noteq> m \<Longrightarrow> r' i = resume_sig s i" for q st o' r'
  proof -
    have p': "base (vpc s m) = vpc s m" "\<not> crit (vpc s m)" "\<not> yielded (vpc s m)" "\<not> waits (vpc s m)" "vpc s m \<noteq> Done Idle"
      "on_pc (vpc s m) \<or> off_pc (vpc s m)" "\<And>r. vpc s m \<noteq> Signal r" "\<not> parked (vpc s m)"
      using p by auto
    have "on_pc q \<or> off_pc q \<or> q = Emulating" using st(1) by blast
    then have "q \<in> {Idle, Check_paused, Switch_off, Switched_off, Switch_on, Look, Swap, Wait_resume, Emulating}" by (cases q) simp_all
    then have q': "base q = q" "\<not> crit q" "\<not> yielded q" "\<not> waits q" "q \<noteq> Done Idle" "pc_ok (Vcpu m) q"
      "\<not> joined q" "\<not> leads q" "\<not> finishes q" "\<not> follows q" "q \<notin> {R_acquire, Rel, Rel_dec, F_unyield, Par_rounded, Par_sub}"
      "\<And>x. q \<noteq> Release x"
      by (auto simp: pc_ok_def)
    moreover have "\<not> joined (vpc s m)" "\<not> leads (vpc s m)" "\<not> finishes (vpc s m)" "\<not> follows (vpc s m)"
      "vpc s m \<notin> {R_acquire, Rel, Rel_dec, F_unyield, Par_rounded, Par_sub}" "\<And>x. vpc s m \<noteq> Release x"
      using p by auto
    ultimately have g': "same_group (vpc s m) q" "follows q = follows (vpc s m)" by (simp_all add: same_group_def)
    have e: "vstate s m \<noteq> EMULATE_ROUNDEDUP" using f(1) p by (auto simp: state_ok_def)
    have ok: "state_ok q st" using st(1) by (cases q) (auto simp: state_ok_def)
    show ?thesis
      by (rule quiet_move [OF inv m, where q = q and st = st])
        (use p' q'(1-6) g' st e f(2-5) ok in \<open>auto simp: counted_def rounded_def\<close>)
  qed
  have q0: "rinv n g (goto (Vcpu m) q s)"
    if "on_pc q \<and> vstate s m \<in> {ON, ON_ROUNDEDUP} \<or> off_pc q \<and> vstate s m \<in> {OFF, OFF_ROUNDEDUP}"
      "q = Wait_resume \<longrightarrow> vstate s m = ON_ROUNDEDUP" for q
    using q [of q "vstate s m" "resume_sig s" "off_sm s"] that by (auto simp: set_state_def)
  have q1: "rinv n g (goto (Vcpu m) q (set_state m st s))"
    if "on_pc q \<and> st \<in> {ON, ON_ROUNDEDUP} \<or> off_pc q \<and> st \<in> {OFF, OFF_ROUNDEDUP} \<or> q = Emulating \<and> st = EMULATE"
      "rounded st = rounded (vstate s m)" "q = Wait_resume \<longrightarrow> st = ON_ROUNDEDUP" for q st
    using q [of q st "resume_sig s" "off_sm s"] that by (simp add: set_state_def)
  have sig: "rinv n g (goto (Vcpu m) Check_paused (s\<lparr>resume_sig := (resume_sig s)(m := False)\<rparr>))" if "vpc s m = Wait_resume"
    using q [of Check_paused "vstate s m" "(resume_sig s)(m := False)" "off_sm s"] that f(1) by (simp add: set_state_def state_ok_def)
  have off: "rinv n g (goto (Vcpu m) Switch_on (s\<lparr>off_sm := (off_sm s)(m := False)\<rparr>))" if "vpc s m = Switched_off"
    using q [of Switch_on "vstate s m" "resume_sig s" "(off_sm s)(m := False)"] that f(1) by (simp add: set_state_def state_ok_def)
  from p consider "vpc s m = Idle" | "vpc s m = Check_paused" | "vpc s m = Switch_off" | "vpc s m = Switched_off"
    | "vpc s m = Switch_on" | "vpc s m = Look" | "vpc s m = Swap" | "vpc s m = Wait_resume"
    by auto
  then show ?thesis
  proof cases
    case 1
    then show ?thesis using f(1) q0 [of Check_paused] by (auto simp: vcpu_step_def state_ok_def)
  next
    case 2
    then show ?thesis using f(1) q0 [of Switch_off] q0 [of Look] by (auto simp: vcpu_step_def state_ok_def)
  next
    case 3
    then show ?thesis using f(1) q1 [of Switched_off OFF] q1 [of Switched_off OFF_ROUNDEDUP]
      by (auto simp: vcpu_step_def state_ok_def rounded_def)
  next
    case 4
    then show ?thesis using off by (auto simp: vcpu_step_def)
  next
    case 5
    then show ?thesis using f(1) q1 [of Check_paused ON] q1 [of Check_paused ON_ROUNDEDUP]
      by (auto simp: vcpu_step_def turn_on_def state_ok_def rounded_def)
  next
    case 6
    then show ?thesis using f(1) q0 [of Swap] q0 [of Wait_resume] by (auto simp: vcpu_step_def state_ok_def)
  next
    case 7
    then show ?thesis using f(1) q1 [of Emulating EMULATE] q1 [of Wait_resume ON_ROUNDEDUP]
      by (auto simp: vcpu_step_def state_ok_def rounded_def)
  next
    case 8
    then show ?thesis using sig by (auto simp: vcpu_step_def)
  qed
qed

lemma not_stopped:
  assumes "rinv n g s" "m < unat n" "\<not> on_pc (base (vpc s m))" "\<not> off_pc (base (vpc s m))" "\<not> parked (vpc s m)"
  shows "\<not> stopped g m"
  using vcpu_facts [OF assms(1,2)] assms(3-5) by (auto simp: state_ok_def rounded_def split: if_splits)

lemma not_stopped_frozen:
  assumes "rinv n g s" "m < unat n" "\<not> on_pc (base (vpc s m))" "\<not> off_pc (base (vpc s m))" "\<not> parked (vpc s m)"
  shows "\<not> frozen g"
  using not_stopped [OF assms] by (cases g) auto

text \<open>The end of an emulation, and the calls for a roundup.\<close>

lemma emulating_steps:
  assumes inv: "rinv n g s" and m: "m < unat n" and p: "vpc s m = Emulating"
  shows "good_step n (vcpu_step c m s)"
proof -
  note f = vcpu_facts [OF inv m]
  have ns: "\<not> stopped g m" by (rule not_stopped [OF inv m]) (use p in simp_all)
  have st: "vstate s m = EMULATE \<or> vstate s m = EMULATE_ROUNDEDUP" using f(1) p by (simp add: state_ok_def)
  have q: "rinv n g (goto (Vcpu m) q (set_state m st' s))"
    if "(q, st') \<in> {(Idle, ON)} \<and> vstate s m = EMULATE \<or> (q, st') \<in> {(Done Idle, ON_ROUNDEDUP)} \<and> vstate s m = EMULATE_ROUNDEDUP \<or>
       q \<in> {Yield From_vcpu, Par_count} \<and> st' = vstate s m" for q st'
    by (rule quiet_move [OF inv m, where q = q and st = st'])
      (use that p ns st f in \<open>auto simp: moves\<close>)
  show ?thesis
  proof (cases c)
    case End_emulation
    then show ?thesis using p st q [of Idle ON] q [of "Done Idle" ON_ROUNDEDUP] by (auto simp: vcpu_step_def turn_on_def)
  next
    case Call_roundup
    then show ?thesis using p q [of "Yield From_vcpu" "vstate s m"] by (auto simp: vcpu_step_def set_state_def)
  next
    case Call_parallel
    then show ?thesis using p q [of Par_count "vstate s m"] by (auto simp: vcpu_step_def set_state_def)
  qed (use p in \<open>simp add: vcpu_step_def\<close>)
qed

subsection \<open>Leaving and rejoining the count\<close>

lemma active_stage:
  assumes "rinv n g s" "\<not> frozen g"
  shows "\<not> releasing g s" "\<And>t k w. pc s t \<noteq> Store k w" "\<And>t m. pc s t \<noteq> Release m" "g \<noteq> Joint"
proof -
  have p: "places_inv (unat n) g s" using assms(1) by (simp add: rinv_def)
  show "\<not> releasing g s" using assms(2) releasing_frozen by blast
  then show "\<And>t m. pc s t \<noteq> Release m" using release_stage [OF p] by blast
  show "\<And>t k w. pc s t \<noteq> Store k w" using store_stage [OF p] assms(2) by fastforce
  show "g \<noteq> Joint" using assms(2) by auto
qed

lemma tally_bound: "tally (unat n) P \<le> unat n" "unat n < 2 ^ 16" for n :: u16
  using tally_le unsigned_less [of n] by auto

lemma unat_suc: "unat x < 2 ^ 16 - 1 \<Longrightarrow> unat (x + 1) = unat x + 1" for x :: u16
  using unat_plus_no_wrap [of x 1] by simp

lemma unat_pred: "x \<noteq> 0 \<Longrightarrow> unat (x - 1) + 1 = unat x" for x :: u16
proof -
  assume "x \<noteq> 0"
  moreover from this have "0 < unat x" by (simp only: unat_gt_0 not_False_eq_True)
  ultimately show ?thesis by (simp add: unat_minus_one del: unat_gt_0)
qed

lemma yield_steps:
  assumes inv: "rinv n g s" and m: "m < unat n"
    and p: "(\<exists>k. vpc s m = Yield k \<and> q = Done (Enter k)) \<or> vpc s m = F_yield \<and> q = Done F_acquire"
  shows "rinv n g (goto (Vcpu m) q (s\<lparr>waiters := waiters s + 1\<rparr>))" (is "rinv n g ?s")
proof -
  note f = vcpu_facts [OF inv m]
  have nf: "\<not> frozen g" "\<not> stopped g m" using not_stopped_frozen [OF inv m] not_stopped [OF inv m] p by auto
  note a = active_stage [OF inv nf(1)]
  have "\<not> waits (base (vpc s m))" using p by auto
  then have "tally (unat n) (\<lambda>i. waits (base (vpc s i))) < unat n" using tally_less [OF m, of "\<lambda>i. waits (base (vpc s i))"] by simp
  then have w: "unat (waiters s + 1) = unat (waiters s) + 1"
    using inv a(4) tally_bound(2) [of n] by (intro unat_suc) (auto simp: rinv_def count_inv_def)
  have I: "group_inv (unat n) g s" using inv by (simp add: rinv_def)
  have g: "group_inv (unat n) g ?s"
    by (rule group_frame [OF I, where t = "Vcpu m" and q = q])
      (use p a in \<open>auto simp: same_group_def releasing_def\<close>)
  have q: "\<not> waits (base (vpc s m))" "waits (base q)" "\<not> crit (base (vpc s m))" "\<not> crit (base q)" "q \<noteq> Wait_resume" "q \<noteq> Done Idle"
      "\<And>r. vpc s m \<noteq> Signal r" "counted g m q st = counted g m (vpc s m) st" for st
    using p by (auto simp: counted_def)
  have ok: "pc_ok (Vcpu m) q" "state_ok q (vstate s m)" using p f(1,6) by (auto simp: pc_ok_def state_ok_def)
  show ?thesis
    by (rule vcpu_move [OF inv m, where q = q and st = "vstate s m"]) (use q ok g nf a(2) w in simp_all)
qed

lemma notify_steps:
  assumes inv: "rinv n g s" and m: "m < unat n" and p: "vpc s m = Done k" "\<not> crit k"
  shows "good_step n (notify_done (Vcpu m) k s)"
proof -
  note f = vcpu_facts [OF inv m]
  have k: "k = Idle \<or> (\<exists>k'. k = Enter k') \<or> k = F_acquire" using f(6) p by (auto simp: pc_ok_def)
  have ns: "\<not> stopped g m" using f(5) f(1) not_stopped [OF inv m] p k by auto
  have nf: "\<not> frozen g" using ns by (cases g) auto
  note a = active_stage [OF inv nf]
  have c: "counted g m (Done k) (vstate s m)"
    using f(1,3) p k ns by (auto simp: counted_def state_ok_def rounded_def)
  have "0 < tally (unat n) (\<lambda>i. counted g i (vpc s i) (vstate s i))" by (rule tally_pos [OF m]) (use c p in simp)
  then have pr: "progressing s \<noteq> 0" using inv nf by (auto simp: rinv_def count_inv_def)
  have sw: "swept g m" if "k = Idle"
    using f(1,2) p that ns by (cases g) (auto simp: state_ok_def rounded_def)
  have I: "group_inv (unat n) g s" using inv by (simp add: rinv_def)
  have "rinv n g (goto (Vcpu m) q (s\<lparr>progressing := progressing s - 1\<rparr>))" (is "rinv n g ?s")
    if q: "q = (if progressing s = 1 then Signal k else k)" for q
  proof -
    have g: "group_inv (unat n) g ?s"
      by (rule group_frame [OF I, where t = "Vcpu m" and q = q]) (use p q k a in \<open>auto simp: same_group_def releasing_def\<close>)
    have c': "\<not> counted g m q (vstate s m)"
      using f(1) k sw p q by (auto simp: counted_def state_ok_def)
    have sig: "progressing s - 1 = 0 \<Longrightarrow> \<exists>r. q = Signal r" using q by auto
    have q': "waits (base q) = waits (base (vpc s m))" "\<not> crit (base (vpc s m))" "\<not> crit (base q)" "q \<noteq> Wait_resume"
        "\<And>r. vpc s m \<noteq> Signal r"
      using p q k by auto
    have ok: "pc_ok (Vcpu m) q" "state_ok q (vstate s m)" using p q k f(1,6) by (auto simp: pc_ok_def state_ok_def)
    show ?thesis
      by (rule vcpu_move [OF inv m, where q = q and st = "vstate s m"])
        (use q' ok g ns nf c [folded p(1)] c' unat_pred [OF pr] sig in simp_all)
  qed
  then show ?thesis using pr by (auto simp: notify_done_def)
qed

lemma signal_steps:
  assumes inv: "rinv n g s" and m: "m < unat n" and p: "vpc s m = Signal k" "\<not> crit k"
  shows "good_step n (signal_step (Vcpu m) k s)"
proof -
  note f = vcpu_facts [OF inv m]
  have k: "k = Idle \<or> (\<exists>k'. k = Enter k') \<or> k = F_acquire" using f(6) p by (auto simp: pc_ok_def)
  have I: "group_inv (unat n) g s" "places_inv (unat n) g s" using inv by (simp_all add: rinv_def)
  let ?s = "goto (Vcpu m) k (s\<lparr>emu_sig := True\<rparr>)"
  have g: "group_inv (unat n) g ?s"
    by (rule group_frame [OF I(1), where t = "Vcpu m" and q = k])
      (use p k release_stage [OF I(2)] in \<open>auto simp: same_group_def releasing_def\<close>)
  have q: "waits (base k) = waits (base (vpc s m))" "\<not> crit (base (vpc s m))" "\<not> crit (base k)" "k \<noteq> Wait_resume" "k \<noteq> Done Idle"
      "counted g m k st = counted g m (vpc s m) st" "parked k = parked (vpc s m)" for st
    using p k by (auto simp: counted_def)
  have ok: "pc_ok (Vcpu m) k" "state_ok k (vstate s m)" using p k f(1,6) by (auto simp: pc_ok_def state_ok_def)
  have "rinv n g ?s"
    by (rule vcpu_move [OF inv m, where q = k and st = "vstate s m"]) (use q ok f(5) g in auto)
  then show ?thesis by (auto simp: signal_step_def)
qed

subsection \<open>The steps of a group\<close>

lemma group_tallies:
  assumes "pc s' = (pc s)(Vcpu m := q)" "m < n"
  shows "tally n (\<lambda>i. joined (vpc s' i)) + of_bool (joined (vpc s m)) = tally n (\<lambda>i. joined (vpc s i)) + of_bool (joined q)"
    "tally n (\<lambda>i. leads (vpc s' i)) + of_bool (leads (vpc s m)) = tally n (\<lambda>i. leads (vpc s i)) + of_bool (leads q)"
    "tally n (\<lambda>i. follows (vpc s' i)) + of_bool (follows (vpc s m)) = tally n (\<lambda>i. follows (vpc s i)) + of_bool (follows q)"
    "tally n (\<lambda>i. finishes (vpc s' i)) + of_bool (finishes (vpc s m)) = tally n (\<lambda>i. finishes (vpc s i)) + of_bool (finishes q)"
    "tally n (\<lambda>i. vpc s' i = R_acquire) + of_bool (vpc s m = R_acquire) = tally n (\<lambda>i. vpc s i = R_acquire) + of_bool (q = R_acquire)"
    "tally n (\<lambda>i. vpc s' i = Rel_dec) + of_bool (vpc s m = Rel_dec) = tally n (\<lambda>i. vpc s i = Rel_dec) + of_bool (q = Rel_dec)"
  using tally_move [OF assms(1), of n joined] tally_move [OF assms(1), of n leads] tally_move [OF assms(1), of n follows]
    tally_move [OF assms(1), of n finishes] tally_move [OF assms(1), of n "\<lambda>p. p = R_acquire"]
    tally_move [OF assms(1), of n "\<lambda>p. p = Rel_dec"] assms(2) by simp_all

lemma leads_joined: "leads p \<Longrightarrow> joined p"
  by (induction p) simp_all

lemma tally_mono: "(\<And>i. i < n \<Longrightarrow> P i \<Longrightarrow> Q i) \<Longrightarrow> tally n P \<le> tally n Q"
  unfolding tally_def by (rule card_mono) auto

text \<open>The parts of the invariant of the groups.\<close>

lemma groupD:
  assumes "group_inv n g s"
  shows "unat (par_count s) = tally n (\<lambda>i. joined (vpc s i))" "tally n (\<lambda>i. leads (vpc s i)) \<le> 1"
    "g \<noteq> Joint \<Longrightarrow> 0 < tally n (\<lambda>i. joined (vpc s i)) \<Longrightarrow> tally n (\<lambda>i. leads (vpc s i)) = 1"
    "i < n \<Longrightarrow> vpc s i \<in> {F_unyield, Par_rounded, Par_sub} \<Longrightarrow> releasing g s" "\<not> releasing g s \<Longrightarrow> count_sem s = 0"
    "g = Joint \<Longrightarrow> count_sem s = tally n (\<lambda>i. follows (vpc s i))"
    "pc s t = Release w \<Longrightarrow> count_sem s + unat w = tally n (\<lambda>i. follows (vpc s i))"
    "\<not> calm g \<Longrightarrow> resume_waiter_sem s = 0" "\<not> calm g \<Longrightarrow> i < n \<Longrightarrow> vpc s i \<noteq> Rel \<and> vpc s i \<noteq> Rel_dec"
    "i < n \<Longrightarrow> vpc s i = Rel_dec \<Longrightarrow> par_num_waiters s \<noteq> 0" "tally n (\<lambda>i. finishes (vpc s i)) \<le> 1"
    "releasing g s \<Longrightarrow> unat (par_num_waiters s) + 1 = tally n (\<lambda>i. joined (vpc s i)) + tally n (\<lambda>i. vpc s i = R_acquire)"
    "\<not> releasing g s \<Longrightarrow> resume_waiter_sem s + unat (par_num_waiters s) =
       tally n (\<lambda>i. vpc s i = R_acquire) + tally n (\<lambda>i. vpc s i = Rel_dec)"
    "\<not> releasing g s \<Longrightarrow> tally n (\<lambda>i. finishes (vpc s i)) = 0 \<Longrightarrow> par_num_waiters s = 0"
  using assms unfolding group_inv_def by (simp_all, blast+)

lemma par_count_step:
  assumes inv: "rinv n g s" and m: "m < unat n" and p: "vpc s m = Par_count"
  shows "good_step n (vcpu_step c m s)"
proof -
  note f = vcpu_facts [OF inv m]
  have nf: "\<not> frozen g" "\<not> stopped g m" using not_stopped_frozen [OF inv m] not_stopped [OF inv m] p by auto
  note a = active_stage [OF inv nf(1)]
  let ?n = "unat n"
  define q where "q = (if par_count s = 0 then Yield Parallel else F_yield)"
  define s' where "s' = goto (Vcpu m) q (s\<lparr>par_count := par_count s + 1\<rparr>)"
  have pcs: "pc s' = (pc s)(Vcpu m := q)" by (simp add: s'_def)
  have v: "par_count s' = par_count s + 1" "par_num_waiters s' = par_num_waiters s" "count_sem s' = count_sem s"
    "resume_waiter_sem s' = resume_waiter_sem s" by (simp_all add: s'_def)
  have I: "group_inv ?n g s" using inv by (simp add: rinv_def)
  note G = groupD [OF I] and T = group_tallies [OF pcs m]
  have q: "joined q" "leads q \<longleftrightarrow> par_count s = 0" "\<not> follows q" "\<not> finishes q" "q \<notin> {R_acquire, Rel, Rel_dec, F_unyield, Par_rounded, Par_sub}"
    "\<And>w. q \<noteq> Release w" by (simp_all add: q_def)
  have "tally ?n (\<lambda>i. joined (vpc s i)) < ?n" by (rule tally_less [OF m]) (use p in simp)
  then have c1: "unat (par_count s + 1) = unat (par_count s) + 1"
    using G(1) tally_bound(2) [of n] by (intro unat_suc) simp
  have l: "tally ?n (\<lambda>i. leads (vpc s i)) \<le> tally ?n (\<lambda>i. joined (vpc s i))" by (rule tally_mono) (rule leads_joined)
  have rel: "\<not> releasing g s'" "\<And>t w. pc s' t \<noteq> Release w" using a q(6) pcs by (auto simp: releasing_def)
  have z: "par_count s = 0 \<longleftrightarrow> tally ?n (\<lambda>i. joined (vpc s i)) = 0" using G(1) by (metis unat_eq_zero)
  have leads: "tally ?n (\<lambda>i. leads (vpc s' i)) = 1"
    using T(2) q(2) p z l G(3) [OF a(4)] by (cases "par_count s = 0") auto
  have places: "\<And>i. i < ?n \<Longrightarrow> vpc s' i \<notin> {F_unyield, Par_rounded, Par_sub}"
      "\<And>i. i < ?n \<Longrightarrow> \<not> calm g \<Longrightarrow> vpc s' i \<noteq> Rel \<and> vpc s' i \<noteq> Rel_dec"
      "\<And>i. i < ?n \<Longrightarrow> vpc s' i = Rel_dec \<Longrightarrow> par_num_waiters s \<noteq> 0"
    using pcs q(5) G(4,9,10) a(1) by (auto split: if_splits)
  have "group_inv ?n g s'"
    using places rel leads a(1,4) G T q p c1 unfolding group_inv_def v by simp
  moreover have "pc_ok (Vcpu m) q" "state_ok q (vstate s m)" using f(1) p by (auto simp: pc_ok_def state_ok_def q_def)
  moreover have "waits (base q) = waits (base (vpc s m))" "\<not> crit (base q)" "q \<noteq> Wait_resume" "\<And>r. vpc s m \<noteq> Signal r"
     "counted g m q (vstate s m) = counted g m (vpc s m) (vstate s m)"
    using p by (auto simp: q_def counted_def)
  ultimately have "rinv n g s'"
    by (intro vcpu_move [OF inv m, where q = q and st = "vstate s m"]) (use p nf f in \<open>simp_all add: s'_def\<close>)
  then show ?thesis using p by (auto simp: vcpu_step_def s'_def q_def)
qed

text \<open>A follower is let go and leaves the waiters.\<close>

lemma follower_steps:
  assumes inv: "rinv n g s" and m: "m < unat n" and p: "vpc s m = F_acquire \<or> vpc s m = F_unyield \<or> vpc s m = Par_rounded"
  shows "good_step n (vcpu_step c m s)"
proof -
  note f = vcpu_facts [OF inv m]
  let ?n = "unat n"
  have I: "group_inv ?n g s" "places_inv ?n g s" "count_inv ?n g s" using inv by (simp_all add: rinv_def)
  note G = groupD [OF I(1)]
  have move: "rinv n g s'"
    if q: "(vpc s m, q) \<in> {(F_acquire, F_unyield), (F_unyield, Par_rounded), (Par_rounded, Par_sub)}" and r: "releasing g s"
      and s': "s' = goto (Vcpu m) q (s\<lparr>count_sem := cs, waiters := w\<rparr>)"
      and cs: "count_sem s = cs + of_bool (vpc s m = F_acquire)"
      and w: "unat (waiters s) = unat w + of_bool (vpc s m = F_unyield)" "vpc s m \<noteq> F_unyield \<Longrightarrow> w = waiters s" for q s' cs w
  proof -
    have pcs: "pc s' = (pc s)(Vcpu m := q)" using s' by simp
    have v: "par_count s' = par_count s" "par_num_waiters s' = par_num_waiters s" "count_sem s' = cs"
      "resume_waiter_sem s' = resume_waiter_sem s" using s' by simp_all
    note T = group_tallies [OF pcs m]
    have q': "joined q" "\<not> leads q" "\<not> follows q" "\<not> finishes q" "q \<noteq> R_acquire" "q \<noteq> Rel_dec" "q \<noteq> Rel"
      "\<And>x. q \<noteq> Release x" "joined (vpc s m)" "\<not> leads (vpc s m)" "follows (vpc s m) \<longleftrightarrow> vpc s m = F_acquire" "\<not> finishes (vpc s m)"
      "vpc s m \<noteq> R_acquire" "vpc s m \<noteq> Rel_dec" "\<And>x. vpc s m \<noteq> Release x"
      using q by auto
    have rel: "releasing g s' \<longleftrightarrow> releasing g s" using q'(8,15) pcs by (intro releasing_cong) auto
    have R: "pc s' t = Release x \<longleftrightarrow> pc s t = Release x" for t x using q'(8,15) pcs by auto
    have places: "\<And>i. i < ?n \<Longrightarrow> \<not> calm g \<Longrightarrow> vpc s' i \<noteq> Rel \<and> vpc s' i \<noteq> Rel_dec"
      "\<And>i. i < ?n \<Longrightarrow> vpc s' i = Rel_dec \<Longrightarrow> par_num_waiters s \<noteq> 0"
      using pcs q' G(9,10) by (auto split: if_splits)
    have fol: "tally ?n (\<lambda>i. follows (vpc s' i)) + of_bool (vpc s m = F_acquire) = tally ?n (\<lambda>i. follows (vpc s i))"
      using T(3) q'(3,11) by simp
    have cnt: "cs + unat x = tally ?n (\<lambda>i. follows (vpc s' i))" if "pc s t = Release x" for t x
      using G(7) [OF that] fol cs by simp
    have cntJ: "cs = tally ?n (\<lambda>i. follows (vpc s' i))" if "g = Joint"
      using G(6) [OF that] fol cs by simp
    have "group_inv ?n g s'"
      using places G(1-3,5,8,11-14) T cnt cntJ q' r unfolding group_inv_def v rel R by simp
    moreover have "pc_ok (Vcpu m) q" "state_ok q (vstate s m)" using f(1) q by (auto simp: pc_ok_def state_ok_def)
    moreover have "(of_bool (waits (base (vpc s m))) :: nat) = of_bool (waits (base q)) + of_bool (vpc s m = F_unyield)"
        "\<not> crit (base q)" "\<not> crit (base (vpc s m))" "q \<noteq> Wait_resume" "\<And>x. vpc s m \<noteq> Signal x" "parked q"
      using q by auto
    moreover have "waiters s' = waiters s \<or> (\<forall>t k w. pc s t \<noteq> Store k w)"
      using store_stage [OF I(2)] r by (fastforce simp: releasing_def)
    moreover have "frozen g" using r releasing_frozen by blast
    ultimately show ?thesis
      by (intro vcpu_move [OF inv m, where q = q and st = "vstate s m"]) (use s' w in auto)
  qed
  from p consider (1) "vpc s m = F_acquire" | (2) "vpc s m = F_unyield" | (3) "vpc s m = Par_rounded" by blast
  then show ?thesis
  proof cases
    case 1
    have "rinv n g (goto (Vcpu m) F_unyield (s\<lparr>count_sem := count_sem s - 1\<rparr>))" if "0 < count_sem s"
      by (rule move [where q = F_unyield and cs = "count_sem s - 1" and w = "waiters s"]) (use 1 that G(5) in auto)
    then show ?thesis using 1 by (auto simp: vcpu_step_def)
  next
    case 2
    have "0 < tally ?n (\<lambda>i. waits (base (vpc s i)))" by (rule tally_pos [OF m]) (use 2 in simp)
    then have "0 < unat (waiters s)" using I(3) by (simp add: count_inv_def)
    then have w: "waiters s \<noteq> 0" by auto
    have "rinv n g (goto (Vcpu m) Par_rounded (s\<lparr>waiters := waiters s - 1\<rparr>))"
      by (rule move [where q = Par_rounded and cs = "count_sem s" and w = "waiters s - 1"])
        (use 2 G(4) [OF m] unat_pred [OF w] in auto)
    then show ?thesis using 2 w by (auto simp: vcpu_step_def unyield_step_def)
  next
    case 3
    have "0 < tally ?n (\<lambda>i. joined (vpc s i))" by (rule tally_pos [OF m]) (use 3 in simp)
    then have c: "par_count s \<noteq> 0" using G(1) by auto
    have "rinv n g (goto (Vcpu m) Par_sub s)"
      by (rule move [where q = Par_sub and cs = "count_sem s" and w = "waiters s"]) (use 3 G(4) [OF m] in auto)
    then show ?thesis using 3 c by (auto simp: vcpu_step_def)
  qed
qed

text \<open>The waiters of a group are let go one by one.\<close>

lemma release_steps:
  assumes inv: "rinv n g s" and m: "m < unat n" and p: "vpc s m = R_acquire \<or> vpc s m = Rel \<or> vpc s m = Rel_dec"
  shows "good_step n (vcpu_step c m s)"
proof -
  note f = vcpu_facts [OF inv m]
  let ?n = "unat n"
  have I: "group_inv ?n g s" using inv by (simp add: rinv_def)
  note G = groupD [OF I]
  have move: "rinv n g s'"
    if q: "(vpc s m, q) \<in> {(R_acquire, Emulating), (Rel, Rel_dec), (Rel_dec, Rel)} \<or> (vpc s m, q) = (Rel, Emulating) \<and> par_num_waiters s = 0"
      and r: "calm g" and s': "s' = goto (Vcpu m) q (s\<lparr>resume_waiter_sem := rs, par_num_waiters := nw\<rparr>)"
      and rs: "rs + of_bool (vpc s m = R_acquire) = resume_waiter_sem s + of_bool (q = Rel_dec)"
      and nw: "unat (par_num_waiters s) = unat nw + of_bool (vpc s m = Rel_dec)" "q = Rel_dec \<Longrightarrow> nw \<noteq> 0"
        "vpc s m \<noteq> Rel_dec \<Longrightarrow> nw = par_num_waiters s" for q s' rs nw
  proof -
    have pcs: "pc s' = (pc s)(Vcpu m := q)" using s' by simp
    have v: "par_count s' = par_count s" "par_num_waiters s' = nw" "count_sem s' = count_sem s" "resume_waiter_sem s' = rs"
      using s' by simp_all
    have nf: "\<not> frozen g" "\<not> stopped g m" using r by (cases g; simp)+
    note a = active_stage [OF inv nf(1)] and T = group_tallies [OF pcs m]
    have q': "\<not> joined q" "\<not> leads q" "\<not> follows q" "finishes q \<longleftrightarrow> q = Rel \<or> q = Rel_dec" "\<And>x. q \<noteq> Release x" "q \<noteq> R_acquire"
      "\<not> joined (vpc s m)" "\<not> leads (vpc s m)" "\<not> follows (vpc s m)" "finishes (vpc s m) \<longleftrightarrow> vpc s m = Rel \<or> vpc s m = Rel_dec"
      "q \<notin> {F_unyield, Par_rounded, Par_sub}" "q = Rel \<longleftrightarrow> vpc s m = Rel_dec" "q = Rel_dec \<Longrightarrow> vpc s m = Rel"
      using q by auto
    have rel: "\<not> releasing g s'" "\<And>t x. pc s' t \<noteq> Release x" using a q'(5) pcs by (auto simp: releasing_def)
    have other: "vpc s i \<noteq> Rel_dec" if "i < ?n" "i \<noteq> m" "finishes (vpc s m)" for i
      using tally_one_unique [OF G(11) that(1) m] that by auto
    have places: "\<And>i. i < ?n \<Longrightarrow> vpc s' i \<notin> {F_unyield, Par_rounded, Par_sub}"
      using pcs q'(11) G(4) a(1) by (auto split: if_splits)
    have dec: "\<And>i. i < ?n \<Longrightarrow> vpc s' i = Rel_dec \<Longrightarrow> nw \<noteq> 0"
      using pcs nw other G(10) q by (auto split: if_splits)
    have fin: "tally ?n (\<lambda>i. finishes (vpc s' i)) \<le> 1" using T(4) G(11) q'(4,10) q by auto
    have num: "rs + unat nw = tally ?n (\<lambda>i. vpc s' i = R_acquire) + tally ?n (\<lambda>i. vpc s' i = Rel_dec)"
      using T(5,6) G(13) [OF a(1)] rs nw(1) q by auto
    have z: "nw = 0" if "tally ?n (\<lambda>i. finishes (vpc s' i)) = 0"
      using that T(4) G(14) [OF a(1)] nw q q'(4,10) by auto
    have "group_inv ?n g s'"
      using places dec fin num z rel G(1-3,5) a(1,4) T(1-3) q' r unfolding group_inv_def v by simp
    moreover have "pc_ok (Vcpu m) q" "state_ok q (vstate s m)" using f(1) q by (auto simp: pc_ok_def state_ok_def)
    moreover have "waits (base (vpc s m)) = waits (base q)" "\<not> crit (base q)" "\<not> crit (base (vpc s m))" "q \<noteq> Wait_resume"
        "\<And>x. vpc s m \<noteq> Signal x" "counted g m q (vstate s m) = counted g m (vpc s m) (vstate s m)"
      using q by (auto simp: counted_def)
    ultimately show ?thesis
      by (intro vcpu_move [OF inv m, where q = q and st = "vstate s m"]) (use s' nf in auto)
  qed
  from p consider (1) "vpc s m = R_acquire" | (2) "vpc s m = Rel" | (3) "vpc s m = Rel_dec" by blast
  then show ?thesis
  proof cases
    case 1
    have "rinv n g (goto (Vcpu m) Emulating (s\<lparr>resume_waiter_sem := resume_waiter_sem s - 1\<rparr>))" if "0 < resume_waiter_sem s"
      by (rule move [where q = Emulating and rs = "resume_waiter_sem s - 1" and nw = "par_num_waiters s"])
        (use 1 that G(8) in auto)
    then show ?thesis using 1 by (auto simp: vcpu_step_def)
  next
    case 2
    have r: "calm g" using G(9) [OF _ m] 2 by blast
    have "rinv n g (goto (Vcpu m) Rel_dec (s\<lparr>resume_waiter_sem := resume_waiter_sem s + 1\<rparr>))" if "par_num_waiters s \<noteq> 0"
      by (rule move [where q = Rel_dec and rs = "resume_waiter_sem s + 1" and nw = "par_num_waiters s"]) (use 2 that r in auto)
    moreover have "rinv n g (goto (Vcpu m) Emulating s)" if "par_num_waiters s = 0"
      by (rule move [where q = Emulating and rs = "resume_waiter_sem s" and nw = "par_num_waiters s"]) (use 2 that r in auto)
    ultimately show ?thesis using 2 by (cases "par_num_waiters s = 0") (auto simp: vcpu_step_def word_gt_0)
  next
    case 3
    have r: "calm g" "par_num_waiters s \<noteq> 0" using G(9) [OF _ m] G(10) [OF m] 3 by blast+
    have "rinv n g (goto (Vcpu m) Rel (s\<lparr>par_num_waiters := par_num_waiters s - 1\<rparr>))"
      by (rule move [where q = Rel and rs = "resume_waiter_sem s" and nw = "par_num_waiters s - 1"])
        (use 3 r unat_pred [OF r(2)] in auto)
    then show ?thesis using 3 by (auto simp: vcpu_step_def)
  qed
qed

end
