(* ===== verification/RoundupProps.thy ===== *)
theory RoundupProps
  imports RoundupInv
begin

text \<open>
  The steps of the thread that runs a roundup or a resume, the proof that the invariant of
  \<open>RoundupInv\<close> holds in every state that the protocol reaches, and the properties that follow.
\<close>

subsection \<open>A move of the thread that runs the roundup\<close>

definition owe :: "stage \<Rightarrow> rsys \<Rightarrow> nat" where
  "owe g s = (case owner g of None \<Rightarrow> 0 | Some t \<Rightarrow> owed (pc s t))"

definition load :: "nat \<Rightarrow> stage \<Rightarrow> rsys \<Rightarrow> nat" where
  "load n g s = (if frozen g then 0 else tally n (\<lambda>i. counted g i (vpc s i) (vstate s i)) + owe g s)"

lemma owner_move:
  assumes inv: "rinv n g s" and t: "\<And>m. t = Vcpu m \<Longrightarrow> m < unat n" and s': "pc s' = (pc s)(t := q)"
    and alone: "\<And>t'. t' \<noteq> t \<Longrightarrow> \<not> crit (base (pc s t'))"
    and ok: "pc_ok t q" "\<And>i. i < unat n \<Longrightarrow> state_ok (vpc s' i) (vstate s' i)"
    and own: "locked s' \<longleftrightarrow> g' \<noteq> Free" "owner g' = None \<or> owner g' = Some t" "crit (base q) \<longleftrightarrow> owner g' = Some t"
      "crit (base q) \<Longrightarrow> owner_pc g' q" "\<And>u j. g' = Sweep u j \<or> g' = Resuming u j \<Longrightarrow> j \<le> unat n"
      "\<And>k. q = Exit k \<Longrightarrow> g' = Resuming t (unat n)" "\<And>i. i < unat n \<Longrightarrow> rounded (vstate s' i) \<longleftrightarrow> is_rounded (unat n) g' i"
    and group: "group_inv (unat n) g' s'"
    and prog: "unat (progressing s') = load (unat n) g' s'"
    and waiting: "unat (waiters s') + of_bool (g = Joint) + here t (waits (base (pc s t))) =
        unat (waiters s) + of_bool (g' = Joint) + here t (waits (base q))"
      "\<And>k w. q = Store k w \<Longrightarrow> waiters s' = w"
    and stop: "\<And>i. i < unat n \<Longrightarrow> stopped g' i \<Longrightarrow> (vstate s' i \<noteq> EMULATE_ROUNDEDUP \<and> vpc s' i \<noteq> Done Idle) \<or> parked (vpc s' i)"
    and wake: "\<And>k. q = Await k \<Longrightarrow> progressing s' \<noteq> 0" "q \<noteq> Wait_resume"
      "\<And>r. pc s t = Signal r \<Longrightarrow> emu_sig s'" "\<And>k. q = Await k \<Longrightarrow> emu_sig s \<Longrightarrow> emu_sig s'"
      "\<And>i. i < unat n \<Longrightarrow> vstate s i = ON_ROUNDEDUP \<Longrightarrow> vpc s i = Wait_resume \<Longrightarrow> vstate s' i = ON_ROUNDEDUP \<or> (\<exists>k. q = Wake k i)"
      "\<And>i. resume_sig s i \<Longrightarrow> resume_sig s' i" "\<And>k i. pc s t = Wake k i \<Longrightarrow> resume_sig s' i"
  shows "rinv n g' s'"
proof -
  let ?n = "unat n"
  have I: "places_inv ?n g s" "count_inv ?n g s" "wake_inv ?n g s" using inv by (simp_all add: rinv_def)
  note pl = placesD [OF I(1)]
  have o: "owner g \<noteq> Some t'" if "t' \<noteq> t" for t' using alone [OF that] pl(4) by blast
  have c: "\<not> crit (base (pc s' t'))" if "t' \<noteq> t" for t' using alone [OF that] s' that by simp
  have st: "state_ok (vpc s i) (vstate s' i)" if "i < ?n" "t \<noteq> Vcpu i" for i using ok(2) [OF that(1)] s' that(2) by auto
  have sq: "state_ok q (vstate s' m)" if "t = Vcpu m" for m using ok(2) [of m] s' t that by simp
  have "places_inv ?n g' s'"
    by (rule places_frame [OF I(1) s' ok(1) t sq st]) (use own o in auto)
  moreover have "count_inv ?n g' s'"
  proof -
    have w: "tally ?n (\<lambda>i. waits (base (vpc s' i))) + here t (waits (base (pc s t))) =
        tally ?n (\<lambda>i. waits (base (vpc s i))) + here t (waits (base q))"
      by (rule tally_move [where P = "\<lambda>p. waits (base p)", OF s' t])
    have 1: "unat (waiters s') = tally ?n (\<lambda>i. waits (base (vpc s' i))) + of_bool (g' = Joint)"
      using w waiting(1) I(2) unfolding count_inv_def by linarith
    have 2: "waiters s' = w" if "pc s' t' = Store k w" for t' k w
      using that waiting(2) c [of t'] s' by (cases "t' = t") auto
    show ?thesis using prog 1 2 stop unfolding count_inv_def load_def owe_def by blast
  qed
  moreover have "wake_inv ?n g' s'"
  proof (rule wake_frame [OF I(3) s'])
    have "\<exists>k. q = Await k" if "pc s' t' = Await k" for t' k using that c [of t'] s' by (cases "t' = t") auto
    then show "progressing s' = 0 \<Longrightarrow> progressing s = 0 \<or> (\<exists>r. q = Signal r) \<or> emu_sig s' \<or> (\<forall>t' k. pc s' t' \<noteq> Await k)"
      "emu_sig s \<Longrightarrow> emu_sig s' \<or> (\<forall>t' k. pc s' t' \<noteq> Await k)"
      using wake(1,4) by blast+
  qed (use wake in auto)
  ultimately show ?thesis using group by (simp add: rinv_def)
qed

text \<open>The count of the vCPUs that make progress, when no vCPU's contribution changes.\<close>

lemma load_same:
  assumes "rinv n g s" "pc s' = (pc s)(t := q)" "vstate s' = vstate s" "\<not> frozen g" "\<not> frozen g'"
    and "\<And>i. i < unat n \<Longrightarrow> swept g' i = swept g i" "yielded q = yielded (pc s t)" "q \<noteq> Done Idle" "pc s t \<noteq> Done Idle"
    and "unat (progressing s') + owe g s = unat (progressing s) + owe g' s'"
  shows "unat (progressing s') = load (unat n) g' s'"
proof -
  have "tally (unat n) (\<lambda>i. counted g' i (vpc s' i) (vstate s' i)) = tally (unat n) (\<lambda>i. counted g i (vpc s i) (vstate s i))"
    using assms(2,3,6-9) by (intro tally_cong) (auto simp: counted_def)
  moreover have "unat (progressing s) = load (unat n) g s" using assms(1) by (simp add: rinv_def count_inv_def load_def owe_def)
  ultimately show ?thesis using assms(4,5,10) by (simp add: load_def)
qed

text \<open>The thread that runs the roundup is alone, and what is known of it.\<close>

lemma owner_facts:
  assumes "rinv n g s" "crit (base (pc s t))"
  shows "owner g = Some t" "owner_pc g (pc s t)" "\<And>t'. t' \<noteq> t \<Longrightarrow> \<not> crit (base (pc s t'))" "\<And>m. t = Vcpu m \<Longrightarrow> m < unat n"
    "locked s" "g \<noteq> Free" "g \<noteq> Joint" "pc_ok t (pc s t)"
proof -
  have I: "places_inv (unat n) g s" using assms(1) by (simp add: rinv_def)
  note p = placesD [OF I]
  show o: "owner g = Some t" using crit_stage [OF I assms(2)] by blast
  show "owner_pc g (pc s t)" using crit_stage [OF I assms(2)] by blast
  show "\<And>t'. t' \<noteq> t \<Longrightarrow> \<not> crit (base (pc s t'))" using p(4) o by auto
  show "\<And>m. t = Vcpu m \<Longrightarrow> m < unat n" using p(6) o by blast
  show "g \<noteq> Free" "g \<noteq> Joint" using o by auto
  then show "locked s" using p(11) by blast
  show "pc_ok t (pc s t)" by (rule p(1))
qed

lemma on_off_places:
  "on_pc p \<longleftrightarrow> p \<in> {Idle, Check_paused, Switch_off, Look, Swap, Wait_resume}" "off_pc p \<longleftrightarrow> p \<in> {Switched_off, Switch_on}"
  by (cases p; simp)+

lemma idle_not_yielded: "on_pc (base p) \<or> off_pc (base p) \<Longrightarrow> \<not> yielded p"
  by (cases p) (auto simp: on_off_places)

lemma crit_places: "crit p \<Longrightarrow> \<not> on_pc p \<and> \<not> off_pc p"
  by (cases p) simp_all

text \<open>A move of this thread within the roundup: no vCPU changes its state.\<close>

lemma owner_step:
  assumes inv: "rinv n g s" and c: "crit (base (pc s t))" "crit (base q)"
    and s': "pc s' = (pc s)(t := q)" "vstate s' = vstate s" "locked s' = locked s"
    and ok: "pc_ok t q" "owner_pc g' q" "owner g' = Some t"
    and stage: "\<And>i. i < unat n \<Longrightarrow> is_rounded (unat n) g' i = is_rounded (unat n) g i" "\<And>u j. g' = Sweep u j \<or> g' = Resuming u j \<Longrightarrow> j \<le> unat n"
      "\<And>k. q = Exit k \<Longrightarrow> g' = Resuming t (unat n)" "\<And>i. stopped g' i \<Longrightarrow> stopped g i"
    and group: "group_inv (unat n) g' s'" and prog: "unat (progressing s') = load (unat n) g' s'"
    and waiting: "unat (waiters s') + here t (waits (base (pc s t))) = unat (waiters s) + here t (waits (base q))"
      "\<And>k w. q = Store k w \<Longrightarrow> waiters s' = w"
    and wake: "\<And>k. q = Await k \<Longrightarrow> progressing s' \<noteq> 0" "\<And>r. pc s t = Signal r \<Longrightarrow> emu_sig s'"
      "\<And>k. q = Await k \<Longrightarrow> emu_sig s \<Longrightarrow> emu_sig s'" "\<And>i. resume_sig s i \<Longrightarrow> resume_sig s' i"
      "\<And>k i. pc s t = Wake k i \<Longrightarrow> resume_sig s' i"
  shows "rinv n g' s'"
proof -
  let ?n = "unat n"
  note f = owner_facts [OF inv c(1)]
  have I: "places_inv ?n g s" "count_inv ?n g s" using inv by (simp_all add: rinv_def)
  note pl = placesD [OF I(1)]
  have st: "state_ok (vpc s' i) (vstate s' i)" if "i < ?n" for i
  proof (cases "t = Vcpu i")
    case True
    show ?thesis using pl(3) [OF that] True s' crit_places [OF c(1)] crit_places [OF c(2)] c by (auto simp: state_ok_def split: if_splits)
  qed (use pl(3) [OF that] s' in simp)
  have q: "q \<noteq> Wait_resume" "q \<noteq> Done Idle" using c(2) by auto
  have pk: "parked q"
    using c(2) ok(1) by (cases q) (auto simp: pc_ok_def)
  have stop: "(vstate s' i \<noteq> EMULATE_ROUNDEDUP \<and> vpc s' i \<noteq> Done Idle) \<or> parked (vpc s' i)" if "i < ?n" "stopped g' i" for i
    using I(2) that stage(4) pk s' unfolding count_inv_def by (cases "t = Vcpu i") auto
  have g': "g' \<noteq> Free" "g' \<noteq> Joint" using ok(3) by auto
  have r: "rounded (vstate s' i) \<longleftrightarrow> is_rounded ?n g' i" if "i < ?n" for i using pl(10) that stage(1) s'(2) by simp
  show ?thesis
    by (rule owner_move [OF inv f(4) s'(1) f(3) ok(1) st _ _ _ _ stage(2,3) r group prog _ waiting(2) stop wake(1) q(1) wake(2,3) _ wake(4,5)])
      (insert c ok(3) s'(3) f(5-7) g' waiting(1), simp_all add: ok(2) s'(2))
qed

subsection \<open>The roundup\<close>

text \<open>The counters of the groups see only the moves at the ends of a parallel roundup.\<close>

lemma owner_group:
  assumes inv: "rinv n g s" and s': "pc s' = (pc s)(t := q)" "par_count s' = par_count s" "par_num_waiters s' = par_num_waiters s"
      "count_sem s' = count_sem s" "resume_waiter_sem s' = resume_waiter_sem s"
    and q: "same_group (pc s t) q" "follows q = follows (pc s t)" and g: "g \<noteq> Joint" "g' \<noteq> Joint" "owner g \<noteq> None \<longrightarrow> owner g = Some t"
    and c: "\<not> calm g' \<Longrightarrow> \<not> calm g \<or> resume_waiter_sem s = 0 \<and> (\<forall>i < unat n. vpc s i \<noteq> Rel \<and> vpc s i \<noteq> Rel_dec)"
  shows "group_inv (unat n) g' s'"
proof -
  have I: "group_inv (unat n) g s" "places_inv (unat n) g s" using inv by (simp_all add: rinv_def)
  have p: "\<And>x. pc s t \<noteq> Release x" "\<And>x. q \<noteq> Release x" using q(1) by (simp_all add: same_group_def)
  have "pc s u \<noteq> Release x" for u x
    using crit_stage(1) [OF I(2), of u] g(3) p(1) [of x] by (cases "u = t") auto
  then have r: "\<not> releasing g s" "\<not> releasing g' s'" "\<And>u x. pc s u \<noteq> Release x"
    using g s'(1) p(2) by (auto simp: releasing_def)
  show ?thesis
    by (rule group_frame [OF I(1) s'(1) q(1) _ s'(2-5) _ _ _ c]) (use r g q(2) in simp_all)
qed

lemma enter_step:
  assumes inv: "rinv n g s" and t: "\<And>m. t = Vcpu m \<Longrightarrow> m < unat n" and p: "pc s t = Enter k" "\<not> locked s"
  shows "rinv n (Sweep t 0) (goto t (Round k 0) (s\<lparr>locked := True\<rparr>))" (is "rinv n ?g ?s")
proof -
  let ?n = "unat n"
  have I: "places_inv ?n g s" using inv by (simp add: rinv_def)
  note pl = placesD [OF I]
  have g: "g = Free" using pl(11) p by simp
  have al: "\<not> crit (base (pc s t'))" for t' using pl(4) g by simp
  have st: "state_ok (vpc ?s i) (vstate ?s i)" if "i < ?n" for i
    using pl(3) [OF that] p by (auto simp: state_ok_def)
  have pk: "pc_ok t (Round k 0)" using pl(1) [of t] p by (auto simp: pc_ok_def split: thread.splits)
  have gr: "group_inv ?n ?g ?s"
    by (rule owner_group [OF inv, where t = t and q = "Round k 0"]) (use p g in \<open>auto simp: same_group_def\<close>)
  have ld: "unat (progressing ?s) = load ?n ?g ?s"
    by (rule load_same [OF inv, where t = t and q = "Round k 0"]) (use p g in \<open>auto simp: owe_def\<close>)
  show ?thesis
    by (rule owner_move [where t = t, OF inv t _ al, where q = "Round k 0"]) (use g pk st gr ld pl(10) in \<open>simp_all add: p\<close>)
qed

lemma done_round_step:
  assumes inv: "rinv n g s" and p: "pc s t = Done (Round k j)"
  shows "good_step n (notify_done t (Round k j) s)"
proof -
  let ?n = "unat n"
  have c: "crit (base (pc s t))" using p by simp
  note f = owner_facts [OF inv c]
  have g: "g = Sweep t j" using f(1,2) p by (cases g) auto
  have ow: "owe g s = 1" using g p by (simp add: owe_def)
  have "unat (progressing s) = load ?n g s" using inv by (simp add: rinv_def count_inv_def load_def owe_def)
  then have pr: "progressing s \<noteq> 0" using ow g by (auto simp: load_def)
  define q where "q = (if progressing s = 1 then Signal (Round k j) else Round k j)"
  let ?s = "goto t q (s\<lparr>progressing := progressing s - 1\<rparr>)"
  have q: "owed q = 0" "crit (base q)" "yielded q" "q \<noteq> Done Idle" "\<And>k. q \<noteq> Exit k" "\<And>k w. q \<noteq> Store k w" "\<And>k. q \<noteq> Await k"
      "waits (base q)" "owner_pc g q" "pc_ok t q"
    using f(8) p g by (auto simp: q_def pc_ok_def split: thread.splits)
  have gr: "group_inv ?n g ?s"
    by (rule owner_group [OF inv, where t = t and q = q]) (use p g in \<open>auto simp: same_group_def q_def\<close>)
  have ld: "unat (progressing ?s) = load ?n g ?s"
    by (rule load_same [OF inv, where t = t and q = q])
      (use p g q ow unat_pred [OF pr] in \<open>auto simp: owe_def\<close>)
  have "rinv n g ?s"
    by (rule owner_step [OF inv c, where q = q and g' = g]) (use p g q gr ld f placesD(7) inv in \<open>auto simp: rinv_def\<close>)
  then show ?thesis using pr by (auto simp: notify_done_def q_def)
qed

lemma signal_round_step:
  assumes inv: "rinv n g s" and p: "pc s t = Signal (Round k j)"
  shows "rinv n g (goto t (Round k j) (s\<lparr>emu_sig := True\<rparr>))" (is "rinv n g ?s")
proof -
  let ?n = "unat n"
  have c: "crit (base (pc s t))" using p by simp
  note f = owner_facts [OF inv c]
  have g: "g = Sweep t j" using f(1,2) p by (cases g) auto
  have gr: "group_inv ?n g ?s"
    by (rule owner_group [OF inv, where t = t and q = "Round k j"]) (use p g in \<open>auto simp: same_group_def\<close>)
  have ld: "unat (progressing ?s) = load ?n g ?s"
    by (rule load_same [OF inv, where t = t and q = "Round k j"]) (use p g in \<open>auto simp: owe_def\<close>)
  have "pc_ok t (Round k j)" using f(8) p by (simp add: pc_ok_def split: thread.splits)
  then show ?thesis
    by (intro owner_step [OF inv c, where q = "Round k j" and g' = g])
      (use p g gr ld f placesD(7) inv in \<open>auto simp: rinv_def\<close>)
qed

text \<open>The sweep over the vCPUs: the vCPU at hand is stopped, or, if it emulates, will report itself.\<close>

lemma sweep_move:
  assumes inv: "rinv n g s" and p: "pc s t = Round k j" and j: "j < unat n" and st: "to_roundedup (vstate s j) = Some st"
    and q: "q = (if vstate s j = EMULATE then Round k (Suc j) else Done (Round k (Suc j)))"
  shows "rinv n (Sweep t (Suc j)) (goto t q (set_state j st s))" (is "rinv n ?g ?s")
proof -
  let ?n = "unat n"
  have c: "crit (base (pc s t))" using p by simp
  note f = owner_facts [OF inv c]
  have I: "places_inv ?n g s" "group_inv ?n g s" using inv by (simp_all add: rinv_def)
  note pl = placesD [OF I(1)]
  have g: "g = Sweep t j" using f(1,2) p by (cases g) auto
  have r: "\<not> rounded (vstate s j)" using pl(10) [OF j] g by simp
  have vs: "vstate s j = ON \<and> st = ON_ROUNDEDUP \<or> vstate s j = OFF \<and> st = OFF_ROUNDEDUP \<or> vstate s j = EMULATE \<and> st = EMULATE_ROUNDEDUP"
    using st r by (cases "vstate s j") (auto simp: rounded_def)
  have qf: "crit (base q)" "owner_pc ?g q" "yielded q" "waits (base q)" "q \<noteq> Done Idle" "\<And>k. q \<noteq> Exit k" "\<And>k w. q \<noteq> Store k w"
      "\<And>k. q \<noteq> Await k" "q \<noteq> Wait_resume" "\<And>k i. q \<noteq> Wake k i" "pc_ok t q"
    using f(8) p by (auto simp: q pc_ok_def split: thread.splits)
  have nd: "vpc s j \<noteq> Done Idle" using pl(3) [OF j] r by (auto simp: state_ok_def rounded_def)
  have sj: "state_ok (vpc ?s i) (vstate ?s i)" if i: "i < ?n" for i
    using pl(3) [OF i] vs nd p qf(1,5) crit_places [OF qf(1)]
    by (cases "i = j"; cases "t = Vcpu i") (auto simp: state_ok_def split: if_splits)
  have gr: "group_inv ?n ?g ?s"
    by (rule owner_group [OF inv, where t = t and q = q]) (use p g q in \<open>auto simp: same_group_def\<close>)
  have "(of_bool (counted ?g j (vpc ?s j) (vstate ?s j)) :: nat) + owed q = of_bool (counted g j (vpc s j) (vstate s j))"
    using pl(3) [OF j] vs nd p qf(3,5) g q idle_not_yielded [of "vpc s j"]
    by (auto simp: counted_def state_ok_def split: if_splits)
  moreover have "tally ?n (\<lambda>i. counted ?g i (vpc ?s i) (vstate ?s i)) + of_bool (counted g j (vpc s j) (vstate s j)) =
      tally ?n (\<lambda>i. counted g i (vpc s i) (vstate s i)) + of_bool (counted ?g j (vpc ?s j) (vstate ?s j))"
    by (rule tally_update [OF j]) (use p g qf(3,5) in \<open>auto simp: counted_def\<close>)
  moreover have "unat (progressing s) = load ?n g s" using inv by (simp add: rinv_def count_inv_def load_def owe_def)
  ultimately have ld: "unat (progressing ?s) = load ?n ?g ?s" using g p by (simp add: load_def owe_def)
  have rd: "rounded (vstate ?s i) \<longleftrightarrow> is_rounded ?n ?g i" if "i < ?n" for i
    using pl(10) [OF that] g vs by (auto simp: rounded_def less_Suc_eq)
  show ?thesis
    by (rule owner_move [where t = t, OF inv f(4) _ f(3), where q = q])
      (use g qf sj gr ld rd j r f(5) in \<open>auto simp: p rounded_def\<close>)
qed

lemma round_step_ok:
  assumes inv: "rinv n g s" and p: "pc s t = Round k j"
  shows "good_step n (round_step n t k j s)"
proof (cases "unat n \<le> j")
  case True
  let ?n = "unat n"
  let ?s = "goto t (Test k) s"
  have c: "crit (base (pc s t))" using p by simp
  note f = owner_facts [OF inv c]
  have g: "g = Sweep t j" using f(1,2) p by (cases g) auto
  have I: "places_inv ?n g s" using inv by (simp add: rinv_def)
  have j: "j = ?n" using placesD(7) [OF I g] True by simp
  have gr: "group_inv ?n (Drain t) ?s"
    by (rule owner_group [OF inv, where t = t and q = "Test k"]) (use p g in \<open>auto simp: same_group_def\<close>)
  have ld: "unat (progressing ?s) = load ?n (Drain t) ?s"
    by (rule load_same [OF inv, where t = t and q = "Test k"]) (use p g j in \<open>auto simp: owe_def\<close>)
  have "rinv n (Drain t) ?s"
    by (rule owner_step [where t = t, OF inv c, where q = "Test k"])
      (use f g gr ld j in \<open>auto simp: p pc_ok_def split: thread.splits\<close>)
  then show ?thesis using True by (auto simp: round_step_def)
next
  case False
  have c: "crit (base (pc s t))" using p by simp
  note f = owner_facts [OF inv c]
  have g: "g = Sweep t j" using f(1,2) p by (cases g) auto
  have "\<not> rounded (vstate s j)" using inv g False placesD(10) [of "unat n" g s j] by (simp add: rinv_def)
  then obtain st where st: "to_roundedup (vstate s j) = Some st" by (cases "vstate s j") (auto simp: rounded_def)
  show ?thesis using sweep_move [OF inv p _ st refl] False st by (auto simp: round_step_def)
qed

text \<open>The wait for the vCPUs that emulate.\<close>

lemma drain_step:
  assumes inv: "rinv n g s" and p: "(\<exists>k. pc s t = Test k \<and> q = Await k \<and> progressing s \<noteq> 0 \<and> e = emu_sig s) \<or>
    (\<exists>k. pc s t = Await k \<and> q = Test k \<and> emu_sig s)"
  shows "rinv n g (goto t q (s\<lparr>emu_sig := e\<rparr>))" (is "rinv n g ?s")
proof -
  let ?n = "unat n"
  have c: "crit (base (pc s t))" using p by auto
  note f = owner_facts [OF inv c]
  have g: "g = Drain t" using f(1,2) p by (cases g) auto
  have qf: "crit (base q)" "owner_pc g q" "pc_ok t q" "\<And>k. q \<noteq> Exit k" "\<And>k w. q \<noteq> Store k w" "\<And>r. pc s t \<noteq> Signal r"
      "\<And>k i. pc s t \<noteq> Wake k i" "waits (base q) = waits (base (pc s t))" "yielded q = yielded (pc s t)" "q \<noteq> Done Idle"
      "pc s t \<noteq> Done Idle" "owed q = owed (pc s t)" "same_group (pc s t) q" "follows q = follows (pc s t)"
    using f(8) p g by (auto simp: pc_ok_def same_group_def split: thread.splits)
  have gr: "group_inv ?n g ?s"
    by (rule owner_group [OF inv, where t = t and q = q]) (use g qf in simp_all)
  have ld: "unat (progressing ?s) = load ?n g ?s"
    by (rule load_same [OF inv, where t = t and q = q]) (use g qf in \<open>simp_all add: owe_def\<close>)
  show ?thesis
    by (rule owner_step [where t = t, OF inv c, where q = q]) (use f g qf gr ld p in auto)
qed

text \<open>When the count is zero, no vCPU makes progress.\<close>

lemma rounded_stage:
  assumes inv: "rinv n g s" and p: "pc s t = Test k" and z: "progressing s = 0"
  shows "rinv n (Complete t) (goto t (Rounded k) s)" (is "rinv n ?g ?s")
proof -
  let ?n = "unat n"
  have c: "crit (base (pc s t))" using p by simp
  note f = owner_facts [OF inv c]
  have g: "g = Drain t" using f(1,2) p by (cases g) auto
  have I: "places_inv ?n g s" "count_inv ?n g s" "group_inv ?n g s" using inv by (simp_all add: rinv_def)
  note pl = placesD [OF I(1)] and G = groupD [OF I(3)]
  have "tally ?n (\<lambda>i. counted g i (vpc s i) (vstate s i)) = 0" using I(2) g z p by (simp add: count_inv_def)
  then have nc: "yielded (vpc s i) \<or> vstate s i \<noteq> EMULATE_ROUNDEDUP \<and> vpc s i \<noteq> Done Idle" if "i < ?n" for i
    using that g by (auto simp: tally_eq_0 counted_def)
  have em: "yielded (vpc s i)" if "i < ?n" "\<not> on_pc (base (vpc s i))" "\<not> off_pc (base (vpc s i))" for i
  proof -
    have "rounded (vstate s i)" using pl(10) [OF that(1)] g by simp
    then show ?thesis using nc [OF that(1)] pl(3) [OF that(1)] that(2,3) by (auto simp: state_ok_def rounded_def split: if_splits)
  qed
  have none: "\<not> (P (vpc s i) \<and> i < ?n)" if "P \<in> {(=) Rel, (=) Rel_dec, (=) R_acquire}" for P i
    using em [of i] that by auto
  have "vpc s i \<notin> {Rel, Rel_dec, R_acquire}" if "i < ?n" for i
    using none [of "(=) Rel" i] none [of "(=) Rel_dec" i] none [of "(=) R_acquire" i] that by auto
  then have nr: "\<forall>i < ?n. vpc s i \<noteq> Rel \<and> vpc s i \<noteq> Rel_dec" "tally ?n (\<lambda>i. vpc s i = R_acquire) = 0" "tally ?n (\<lambda>i. vpc s i = Rel_dec) = 0"
    unfolding tally_eq_0 by auto
  have "\<not> releasing g s" using g by (simp add: releasing_def)
  then have rs: "resume_waiter_sem s = 0" using G(13) nr by simp
  have gr: "group_inv ?n ?g ?s"
    by (rule owner_group [OF inv, where t = t and q = "Rounded k"]) (use p g nr(1) rs in \<open>auto simp: same_group_def\<close>)
  have pk: "pc_ok t (Rounded k)" using f(8) p by (auto simp: pc_ok_def split: thread.splits)
  have st: "state_ok (vpc ?s i) (vstate ?s i)" if "i < ?n" for i
    using pl(3) [OF that] p by (auto simp: state_ok_def)
  have parked: "parked r" if "yielded r" for r using that by (cases r) auto
  have stop: "(vstate ?s i \<noteq> EMULATE_ROUNDEDUP \<and> vpc ?s i \<noteq> Done Idle) \<or> parked (vpc ?s i)" if "i < ?n" for i
    using nc [OF that] parked by auto
  show ?thesis
    by (rule owner_move [where t = t, OF inv f(4) _ f(3), where q = "Rounded k"])
      (use g pk st gr stop z f(5) pl(10) in \<open>simp_all add: p load_def\<close>)
qed

text \<open>From the end of a roundup to the resume or, in a parallel roundup, to its other members.\<close>

lemma after_rounded_step:
  assumes inv: "rinv n g s" and p: "pc s t = Rounded k"
  shows "good_step n (Next (goto t (after_rounded k) s))"
proof -
  let ?n = "unat n"
  let ?s = "goto t (after_rounded k) s"
  have c: "crit (base (pc s t))" using p by simp
  note f = owner_facts [OF inv c]
  have g: "g = Complete t" using f(1,2) p by (cases g) auto
  define g' where "g' = (if k = Parallel then Complete t else Ending t)"
  have q: "crit (base (after_rounded k))" "owner_pc g' (after_rounded k)" "owner g' = Some t" "\<And>k'. after_rounded k \<noteq> Exit k'"
      "\<And>k' w. after_rounded k \<noteq> Store k' w" "\<And>k'. after_rounded k \<noteq> Await k'" "frozen g'" "\<And>i. is_rounded ?n g' i"
      "\<And>u j. g' \<noteq> Sweep u j" "\<And>u j. g' \<noteq> Resuming u j" "g' \<noteq> Joint" "\<not> calm g'"
    by (cases k; simp add: g'_def)+
  have ext: "k = External \<Longrightarrow> \<exists>e. t = Ext e" "k \<noteq> External \<Longrightarrow> \<exists>i. t = Vcpu i"
    using f(8) p by (auto simp: pc_ok_def split: thread.splits)
  have w: "here t (waits (base (after_rounded k))) = here t True" using ext by (cases k) auto
  have pk: "pc_ok t (after_rounded k)" using ext by (cases k) (auto simp: pc_ok_def)
  have gr: "group_inv ?n g' ?s"
    by (rule owner_group [OF inv, where t = t and q = "after_rounded k"])
      (use p g q(11,12) in \<open>cases k; auto simp: same_group_def\<close>)+
  have ld: "unat (progressing ?s) = load ?n g' ?s"
    using inv g q(7) by (simp add: rinv_def count_inv_def load_def)
  have "rinv n g' ?s"
    by (rule owner_step [where t = t, OF inv c, where q = "after_rounded k"])
      (use f(1,5) g q pk gr ld w in \<open>simp_all add: p\<close>)
  then show ?thesis by auto
qed

subsection \<open>The group of a parallel roundup\<close>

lemma follows_joined: "follows p \<Longrightarrow> joined p"
  by (induction p) simp_all

lemma tally_disjoint:
  assumes "\<And>i. i < n \<Longrightarrow> \<not> (P i \<and> Q i)" "\<And>i. i < n \<Longrightarrow> R i \<longleftrightarrow> P i \<or> Q i"
  shows "tally n R = tally n P + tally n Q"
proof -
  have "{i. i < n \<and> R i} = {i. i < n \<and> P i} \<union> {i. i < n \<and> Q i}" using assms(2) by auto
  moreover have "{i. i < n \<and> P i} \<inter> {i. i < n \<and> Q i} = {}" using assms(1) by auto
  ultimately show ?thesis by (simp add: tally_def card_Un_disjoint)
qed

text \<open>When a group's roundup is complete, all members but the leader wait for it.\<close>

lemma group_complete:
  assumes inv: "rinv n g s" and p: "vpc s m = Read_count"
  shows "g = Complete (Vcpu m)" "m < unat n" "\<not> releasing g s" "tally (unat n) (\<lambda>i. leads (vpc s i)) = 1"
    "tally (unat n) (\<lambda>i. joined (vpc s i)) = 1 + tally (unat n) (\<lambda>i. follows (vpc s i))"
    "tally (unat n) (\<lambda>i. vpc s i = R_acquire) = 0"
proof -
  let ?n = "unat n"
  have c: "crit (base (vpc s m))" using p by simp
  note f = owner_facts [OF inv c]
  show g: "g = Complete (Vcpu m)" using f(1,2) p by (cases g) auto
  show m: "m < ?n" by (rule f(4)) simp
  have I: "places_inv ?n g s" "count_inv ?n g s" "group_inv ?n g s" using inv by (simp_all add: rinv_def)
  note pl = placesD [OF I(1)] and G = groupD [OF I(3)]
  show r: "\<not> releasing g s" using g p by (simp add: releasing_def)
  have "0 < tally ?n (\<lambda>i. leads (vpc s i))" by (rule tally_pos [OF m]) (simp add: p)
  with G(2) show L: "tally ?n (\<lambda>i. leads (vpc s i)) = 1" by simp
  have alone: "\<not> leads (vpc s i)" if "i < ?n" "i \<noteq> m" for i
    using tally_one_unique [OF G(2) that(1) m] that p by auto
  have "joined (vpc s i) \<longleftrightarrow> leads (vpc s i) \<or> follows (vpc s i)" if i: "i < ?n" for i
  proof -
    have s: "stopped g i" using g by simp
    have "\<not> frozen g \<or> on_pc (base (vpc s i)) \<or> off_pc (base (vpc s i)) \<or> parked (vpc s i)"
      using not_stopped [OF inv i] s by blast
    then have pk: "on_pc (base (vpc s i)) \<or> off_pc (base (vpc s i)) \<or> parked (vpc s i)" using g by simp
    have nr: "vpc s i \<notin> {F_unyield, Par_rounded, Par_sub}" using G(4) [OF i] r by blast
    show ?thesis
      using pk nr pl(1) [of "Vcpu i"] by (cases "vpc s i") (auto simp: pc_ok_def on_off_places)
  qed
  moreover have "\<not> (leads (vpc s i) \<and> follows (vpc s i))" for i
  proof -
    have "follows q \<Longrightarrow> \<not> leads q" for q by (induction q) auto
    then show ?thesis by blast
  qed
  ultimately show "tally ?n (\<lambda>i. joined (vpc s i)) = 1 + tally ?n (\<lambda>i. follows (vpc s i))"
    using tally_disjoint [of ?n "\<lambda>i. leads (vpc s i)" "\<lambda>i. follows (vpc s i)" "\<lambda>i. joined (vpc s i)"] L by simp
  have "\<not> finishes (vpc s i)" if i: "i < ?n" for i
  proof -
    have "vpc s i \<noteq> Rel \<and> vpc s i \<noteq> Rel_dec" using G(9) [OF _ i] g by simp
    moreover have "i \<noteq> m \<Longrightarrow> \<not> crit (base (vpc s i))" using f(3) by simp
    ultimately show ?thesis using p by (cases "i = m"; cases "vpc s i") auto
  qed
  then have "par_num_waiters s = 0" using G(14) [OF r] by (simp add: tally_eq_0)
  then show "tally ?n (\<lambda>i. vpc s i = R_acquire) = 0" using G(13) [OF r] G(8) g by simp
qed

lemma read_count_step:
  assumes inv: "rinv n g s" and p: "vpc s m = Read_count"
  shows "rinv n g (goto (Vcpu m) (Release (par_count s - 1)) (s\<lparr>par_num_waiters := par_count s - 1\<rparr>))" (is "rinv n g ?s")
proof -
  let ?n = "unat n"
  note gc = group_complete [OF inv p]
  have c: "crit (base (vpc s m))" using p by simp
  note f = owner_facts [OF inv c]
  have I: "places_inv ?n g s" "count_inv ?n g s" "group_inv ?n g s" using inv by (simp_all add: rinv_def)
  note G = groupD [OF I(3)]
  define q where "q = Release (par_count s - 1)"
  have pcs: "pc ?s = (pc s)(Vcpu m := q)" by (simp add: q_def)
  note T = group_tallies [OF pcs gc(2)]
  have "par_count s \<noteq> 0" using G(1) gc(5) by auto
  then have w: "unat (par_count s - 1) = tally ?n (\<lambda>i. follows (vpc s i))" using unat_pred [of "par_count s"] G(1) gc(5) by simp
  have rel: "releasing g ?s" using gc(1) by (simp add: releasing_def)
  have R: "pc ?s t = Release x \<longleftrightarrow> t = Vcpu m \<and> x = par_count s - 1" for t x
    using f(3) [of t] by (cases "t = Vcpu m") auto
  have places: "\<forall>i < ?n. vpc ?s i \<noteq> Rel \<and> vpc ?s i \<noteq> Rel_dec" using G(9) gc(1) by auto
  have V: "par_count ?s = par_count s" "par_num_waiters ?s = par_count s - 1" "count_sem ?s = 0" "resume_waiter_sem ?s = 0"
    using G(5) [OF gc(3)] G(8) gc(1) by simp_all
  have qf: "joined q" "leads q" "\<not> follows q" "\<not> finishes q" "q \<noteq> R_acquire" "q \<noteq> Rel_dec" by (simp_all add: q_def)
  have T': "tally ?n (\<lambda>i. joined (vpc ?s i)) = 1 + tally ?n (\<lambda>i. follows (vpc s i))" "tally ?n (\<lambda>i. leads (vpc ?s i)) = 1"
      "tally ?n (\<lambda>i. follows (vpc ?s i)) = tally ?n (\<lambda>i. follows (vpc s i))" "tally ?n (\<lambda>i. vpc ?s i = R_acquire) = 0"
      "tally ?n (\<lambda>i. finishes (vpc ?s i)) \<le> 1"
    using T(1-5) qf p gc(4-6) G(11) by simp_all
  have gr: "group_inv ?n g ?s"
    unfolding group_inv_def R V T' using T' rel places w gc(1,5) G(1) by auto
  have ld: "unat (progressing ?s) = load ?n g ?s" using I(2) gc(1) by (simp add: count_inv_def load_def)
  have pk: "pc_ok (Vcpu m) q" by (simp add: pc_ok_def q_def)
  show ?thesis unfolding q_def [symmetric]
    by (rule owner_step [where t = "Vcpu m", OF inv c, where q = q and g' = g])
      (use f(1,5) gc(1) pk gr ld in \<open>simp_all add: p q_def\<close>)
qed

text \<open>The leader lets the followers go, one by one.\<close>

lemma release_one_step:
  assumes inv: "rinv n g s" and p: "vpc s m = Release x" and x: "x \<noteq> 0"
  shows "rinv n g (goto (Vcpu m) (Release (x - 1)) (s\<lparr>count_sem := count_sem s + 1\<rparr>))" (is "rinv n g ?s")
proof -
  let ?n = "unat n"
  have c: "crit (base (vpc s m))" using p by simp
  note f = owner_facts [OF inv c]
  have g: "g = Complete (Vcpu m)" using f(1,2) p by (cases g) auto
  have m: "m < ?n" by (rule f(4)) simp
  have I: "places_inv ?n g s" "count_inv ?n g s" "group_inv ?n g s" using inv by (simp_all add: rinv_def)
  note G = groupD [OF I(3)]
  define q where "q = Release (x - 1)"
  have pcs: "pc ?s = (pc s)(Vcpu m := q)" by (simp add: q_def)
  have qf: "joined q" "leads q" "\<not> follows q" "\<not> finishes q" "q \<noteq> R_acquire" "q \<noteq> Rel_dec" by (simp_all add: q_def)
  have T: "tally ?n (\<lambda>i. joined (vpc ?s i)) = tally ?n (\<lambda>i. joined (vpc s i))" "tally ?n (\<lambda>i. leads (vpc ?s i)) = tally ?n (\<lambda>i. leads (vpc s i))"
      "tally ?n (\<lambda>i. follows (vpc ?s i)) = tally ?n (\<lambda>i. follows (vpc s i))" "tally ?n (\<lambda>i. vpc ?s i = R_acquire) = tally ?n (\<lambda>i. vpc s i = R_acquire)"
      "tally ?n (\<lambda>i. finishes (vpc ?s i)) = tally ?n (\<lambda>i. finishes (vpc s i))"
    using group_tallies(1-5) [OF pcs m] qf p by simp_all
  have rel: "releasing g s" "releasing g ?s" using g p by (simp_all add: releasing_def)
  have R: "pc ?s t = Release y \<longleftrightarrow> t = Vcpu m \<and> y = x - 1" for t y
    using f(3) [of t] by (cases "t = Vcpu m") auto
  have places: "\<forall>i < ?n. vpc ?s i \<noteq> Rel \<and> vpc ?s i \<noteq> Rel_dec" using G(9) g by auto
  have V: "par_count ?s = par_count s" "par_num_waiters ?s = par_num_waiters s" "count_sem ?s = count_sem s + 1"
    "resume_waiter_sem ?s = resume_waiter_sem s" by simp_all
  have gr: "group_inv ?n g ?s"
    unfolding group_inv_def R V T using rel places unat_pred [OF x] g G(1,2,3,8,11,12) G(7) [OF p] by auto
  have ld: "unat (progressing ?s) = load ?n g ?s" using I(2) g by (simp add: count_inv_def load_def)
  have pk: "pc_ok (Vcpu m) q" by (simp add: pc_ok_def q_def)
  show ?thesis unfolding q_def [symmetric]
    by (rule owner_step [where t = "Vcpu m", OF inv c, where q = q and g' = g])
      (use f(1,5) g pk gr ld in \<open>simp_all add: p q_def\<close>)
qed

text \<open>The leader is done, and no thread owns the roundup until the last member comes.\<close>

lemma release_last_step:
  assumes inv: "rinv n g s" and p: "vpc s m = Release 0"
  shows "rinv n Joint (goto (Vcpu m) Par_rounded s)" (is "rinv n ?g ?s")
proof -
  let ?n = "unat n"
  have c: "crit (base (vpc s m))" using p by simp
  note f = owner_facts [OF inv c]
  have g: "g = Complete (Vcpu m)" using f(1,2) p by (cases g) auto
  have m: "m < ?n" by (rule f(4)) simp
  have I: "places_inv ?n g s" "count_inv ?n g s" "group_inv ?n g s" using inv by (simp_all add: rinv_def)
  note pl = placesD [OF I(1)] and G = groupD [OF I(3)]
  have pcs: "pc ?s = (pc s)(Vcpu m := Par_rounded)" by simp
  have T: "tally ?n (\<lambda>i. joined (vpc ?s i)) = tally ?n (\<lambda>i. joined (vpc s i))" "tally ?n (\<lambda>i. leads (vpc ?s i)) \<le> 1"
      "tally ?n (\<lambda>i. follows (vpc ?s i)) = tally ?n (\<lambda>i. follows (vpc s i))" "tally ?n (\<lambda>i. vpc ?s i = R_acquire) = tally ?n (\<lambda>i. vpc s i = R_acquire)"
      "tally ?n (\<lambda>i. finishes (vpc ?s i)) = tally ?n (\<lambda>i. finishes (vpc s i))"
    using group_tallies(1-5) [OF pcs m] p G(2) by simp_all
  have rel: "releasing g s" "releasing Joint ?s" using g p by (simp_all add: releasing_def)
  have R: "pc ?s t \<noteq> Release y" for t y using f(3) [of t] by (cases "t = Vcpu m") auto
  have places: "\<forall>i < ?n. vpc ?s i \<noteq> Rel \<and> vpc ?s i \<noteq> Rel_dec" using G(9) g by auto
  have V: "par_count ?s = par_count s" "par_num_waiters ?s = par_num_waiters s" "count_sem ?s = count_sem s"
    "resume_waiter_sem ?s = resume_waiter_sem s" by simp_all
  have gr: "group_inv ?n Joint ?s"
    unfolding group_inv_def V T(1,3-5) using T(2) R rel places g G(1,2,3,8,11,12) G(7) [OF p] by auto
  have st: "state_ok (vpc ?s i) (vstate ?s i)" if "i < ?n" for i
    using pl(3) [OF that] p by (auto simp: state_ok_def)
  have stop: "(vstate ?s i \<noteq> EMULATE_ROUNDEDUP \<and> vpc ?s i \<noteq> Done Idle) \<or> parked (vpc ?s i)" if "i < ?n" for i
    using I(2) that g by (auto simp: count_inv_def)
  have ld: "unat (progressing ?s) = load ?n Joint ?s" using I(2) g by (simp add: count_inv_def load_def)
  show ?thesis
    by (rule owner_move [where t = "Vcpu m", OF inv f(4) _ f(3), where q = Par_rounded])
      (use f(5) g st gr ld stop pl(10) in \<open>simp_all add: p pc_ok_def\<close>)
qed

text \<open>A member asks for the resume; the last one does it.\<close>

lemma par_sub_step:
  assumes inv: "rinv n g s" and m: "m < unat n" and p: "vpc s m = Par_sub"
  shows "good_step n (vcpu_step c m s)"
proof -
  let ?n = "unat n"
  have I: "places_inv ?n g s" "count_inv ?n g s" "group_inv ?n g s" using inv by (simp_all add: rinv_def)
  note f = vcpu_facts [OF inv m] and pl = placesD [OF I(1)] and G = groupD [OF I(3)]
  have rel: "releasing g s" using G(4) [OF m] p by simp
  have fz: "frozen g" using releasing_frozen [OF rel] .
  have "0 < tally ?n (\<lambda>i. joined (vpc s i))" by (rule tally_pos [OF m]) (simp add: p)
  then have nz: "par_count s \<noteq> 0" using G(1) by auto
  define q where "q = (if par_count s - 1 = 0 then Unyield Parallel else R_acquire)"
  let ?s = "goto (Vcpu m) q (s\<lparr>par_count := par_count s - 1\<rparr>)"
  have pcs: "pc ?s = (pc s)(Vcpu m := q)" by simp
  have qf: "\<not> joined q" "\<not> leads q" "\<not> follows q" "q \<noteq> Rel_dec" by (simp_all add: q_def)
  have T: "tally ?n (\<lambda>i. joined (vpc ?s i)) + 1 = tally ?n (\<lambda>i. joined (vpc s i))" "tally ?n (\<lambda>i. leads (vpc ?s i)) = tally ?n (\<lambda>i. leads (vpc s i))"
      "tally ?n (\<lambda>i. follows (vpc ?s i)) = tally ?n (\<lambda>i. follows (vpc s i))"
      "tally ?n (\<lambda>i. vpc ?s i = R_acquire) = tally ?n (\<lambda>i. vpc s i = R_acquire) + of_bool (q = R_acquire)"
      "tally ?n (\<lambda>i. finishes (vpc ?s i)) = tally ?n (\<lambda>i. finishes (vpc s i)) + of_bool (finishes q)"
      "tally ?n (\<lambda>i. vpc ?s i = Rel_dec) = tally ?n (\<lambda>i. vpc s i = Rel_dec)"
    using group_tallies [OF pcs m] qf p by simp_all
  have cnt: "unat (par_count s - 1) = tally ?n (\<lambda>i. joined (vpc ?s i))" using unat_pred [OF nz] G(1) T(1) by simp
  have places: "\<forall>i < ?n. vpc ?s i \<noteq> Rel \<and> vpc ?s i \<noteq> Rel_dec" using G(9) fz by (cases g) (auto simp: q_def)
  have V: "par_count ?s = par_count s - 1" "par_num_waiters ?s = par_num_waiters s" "count_sem ?s = count_sem s"
    "resume_waiter_sem ?s = resume_waiter_sem s" by simp_all
  have nc: "\<not> calm g" using fz by (cases g) simp_all
  show ?thesis
  proof (cases "par_count s - 1 = 0")
    case False
    have q: "q = R_acquire" using False by (simp add: q_def)
    have R: "pc ?s t = Release y \<longleftrightarrow> pc s t = Release y" for t y using p q by auto
    have rel': "releasing g ?s" using rel R by (simp add: releasing_def)
    have gr: "group_inv ?n g ?s"
      unfolding group_inv_def V T(2,3) R using T(1,4,5) q cnt places rel rel' G nc by auto
    have st: "waiters ?s = waiters s \<or> (\<forall>t k w. pc s t \<noteq> Store k w)" by simp
    have "rinv n g ?s"
      by (rule vcpu_move [OF inv m, where q = q and st = "vstate s m"])
        (use p q f gr fz in \<open>simp_all add: pc_ok_def state_ok_def\<close>)
    then show ?thesis using p by (auto simp: vcpu_step_def q_def)
  next
    case True
    have q: "q = Unyield Parallel" using True by (simp add: q_def)
    have j0: "tally ?n (\<lambda>i. joined (vpc ?s i)) = 0" using cnt True by (metis unat_0)
    then have lf: "tally ?n (\<lambda>i. leads (vpc s i)) = 0" "tally ?n (\<lambda>i. follows (vpc s i)) = 0"
      using T(2,3) tally_mono [of ?n "\<lambda>i. leads (vpc ?s i)" "\<lambda>i. joined (vpc ?s i)"] leads_joined
        tally_mono [of ?n "\<lambda>i. follows (vpc ?s i)" "\<lambda>i. joined (vpc ?s i)"] follows_joined by auto
    have g: "g = Joint" using G(3) T(1) lf(1) by fastforce
    have al: "\<not> crit (base (pc s t))" for t using pl(4) g by simp
    have nj: "\<not> joined (vpc ?s i)" if "i < ?n" for i using j0 that by (simp add: tally_eq_0)
    have cs: "count_sem s = 0" using G(6) g lf(2) by simp
    have R: "pc ?s t \<noteq> Release y" for t y using al [of t] q by (cases "t = Vcpu m") auto
    have rel': "\<not> releasing (Ending (Vcpu m)) ?s" by (simp add: releasing_def)
    have F: "tally ?n (\<lambda>i. finishes (vpc s i)) = 0" unfolding tally_eq_0
    proof (intro allI impI)
      fix i assume i: "i < ?n"
      have "vpc s i \<noteq> Rel \<and> vpc s i \<noteq> Rel_dec" using G(9) [OF nc i] .
      then show "\<not> finishes (vpc s i)" using al [of "Vcpu i"] by (cases "vpc s i") auto
    qed
    have D: "tally ?n (\<lambda>i. vpc s i = Rel_dec) = 0" using G(9) [OF nc] by (simp add: tally_eq_0)
    have np: "vpc ?s i \<notin> {F_unyield, Par_rounded, Par_sub}" if "i < ?n" for i using nj [OF that] by auto
    have num: "unat (par_num_waiters s) = tally ?n (\<lambda>i. vpc s i = R_acquire)" using G(12) [OF rel] T(1) j0 by simp
    have gr: "group_inv ?n (Ending (Vcpu m)) ?s"
      unfolding group_inv_def V T(2-6) using rel' lf j0 cs R places F D np cnt num G(8) [OF nc] q by simp
    have st: "state_ok (vpc ?s i) (vstate ?s i)" if "i < ?n" for i
      using pl(3) [OF that] p q by (auto simp: state_ok_def)
    have stop: "(vstate ?s i \<noteq> EMULATE_ROUNDEDUP \<and> vpc ?s i \<noteq> Done Idle) \<or> parked (vpc ?s i)" if "i < ?n" for i
      using I(2) that g q by (auto simp: count_inv_def)
    have ld: "unat (progressing ?s) = load ?n (Ending (Vcpu m)) ?s" using I(2) fz by (simp add: count_inv_def load_def)
    have "rinv n (Ending (Vcpu m)) ?s"
      by (rule owner_move [where t = "Vcpu m", OF inv _ _ al, where q = q])
        (use g st gr ld stop pl(10,11) q m in \<open>simp_all add: p pc_ok_def\<close>)
    then show ?thesis using p by (auto simp: vcpu_step_def q_def)
  qed
qed

subsection \<open>The resume\<close>

lemma ending_stage:
  assumes inv: "rinv n g s" and p: "pc s t = Unyield k \<or> pc s t = Read_waiters k \<or> pc s t = Store k w"
  shows "g = Ending t" "crit (base (pc s t))" "unat (progressing s) = 0" "w \<noteq> waiters s \<Longrightarrow> pc s t \<noteq> Store k w"
proof -
  show c: "crit (base (pc s t))" using p by auto
  note f = owner_facts [OF inv c]
  show g: "g = Ending t" using f(1,2) p by (cases g) auto
  show "unat (progressing s) = 0" "w \<noteq> waiters s \<Longrightarrow> pc s t \<noteq> Store k w" using inv g by (auto simp: rinv_def count_inv_def)
qed

lemma ending_move:
  assumes inv: "rinv n g s" and p: "pc s t = Unyield k \<and> q = Read_waiters k \<and> w + 1 = waiters s \<and> waiters s \<noteq> 0 \<or>
    pc s t = Read_waiters k \<and> q = Store k (waiters s) \<and> w = waiters s"
  shows "rinv n g (goto t q (s\<lparr>waiters := w\<rparr>))" (is "rinv n g ?s")
proof -
  let ?n = "unat n"
  note e = ending_stage [OF inv, of t k undefined]
  have g: "g = Ending t" and c: "crit (base (pc s t))" and z: "unat (progressing s) = 0" using e(1-3) p by blast+
  note f = owner_facts [OF inv c]
  have vc: "pc s t = Unyield k \<Longrightarrow> \<exists>i. t = Vcpu i" using f(8) by (auto simp: pc_ok_def split: thread.splits)
  have qf: "crit (base q)" "owner_pc g q" "pc_ok t q" "\<And>k. q \<noteq> Exit k" "\<And>k. q \<noteq> Await k" "\<And>r. pc s t \<noteq> Signal r"
      "\<And>k i. pc s t \<noteq> Wake k i" "same_group (pc s t) q" "follows q = follows (pc s t)" "\<And>k w'. q = Store k w' \<Longrightarrow> w = w'"
    using f(8) p g by (auto simp: pc_ok_def same_group_def split: thread.splits)
  have "unat (waiters s - 1) + 1 = unat (waiters s)" if "waiters s \<noteq> 0" using unat_pred [OF that] .
  then have w: "unat w + here t (waits (base (pc s t))) = unat (waiters s) + here t (waits (base q))"
    using p vc by (auto simp: eq_diff_eq [symmetric])
  have gr: "group_inv ?n g ?s"
    by (rule owner_group [OF inv, where t = t and q = q]) (use g qf in simp_all)
  have ld: "unat (progressing ?s) = load ?n g ?s" using z g by (simp add: load_def)
  show ?thesis
    by (rule owner_step [where t = t, OF inv c, where q = q])
      (use f(1,5) g qf gr ld w in \<open>simp_all\<close>)
qed

lemma unyield_ok:
  assumes inv: "rinv n g s" and p: "pc s t = Unyield k"
  shows "good_step n (unyield_step t (Read_waiters k) s)"
proof -
  have c: "crit (base (pc s t))" using p by simp
  note f = owner_facts [OF inv c]
  obtain m where t: "t = Vcpu m" using f(8) p by (auto simp: pc_ok_def split: thread.splits)
  have m: "m < unat n" by (rule f(4) [OF t])
  have "0 < tally (unat n) (\<lambda>i. waits (base (vpc s i)))" by (rule tally_pos [OF m]) (use p t in simp)
  then have "0 < unat (waiters s)" using inv by (simp add: rinv_def count_inv_def)
  then have w: "waiters s \<noteq> 0" by auto
  then show ?thesis using ending_move [OF inv, of t k "Read_waiters k" "waiters s - 1"] p by (auto simp: unyield_step_def)
qed

lemma waiters_le:
  assumes "rinv n g s" "g \<noteq> Joint"
  shows "waiters s \<le> n"
  using assms tally_le [of "unat n" "\<lambda>i. waits (base (vpc s i))"] by (simp add: rinv_def count_inv_def word_le_nat_alt)

text \<open>The number of the vCPUs that will make progress again: those that wait are not among them.\<close>

lemma store_step:
  assumes inv: "rinv n g s" and p: "pc s t = Store k w"
  shows "rinv n (Resuming t 0) (goto t (Resume k 0) (s\<lparr>progressing := n - w\<rparr>))" (is "rinv n ?g ?s")
proof -
  let ?n = "unat n"
  have e: "g = Ending t" "crit (base (pc s t))" using ending_stage [OF inv, of t k w] p by blast+
  note f = owner_facts [OF inv e(2)]
  have I: "places_inv ?n g s" "count_inv ?n g s" using inv by (simp_all add: rinv_def)
  note pl = placesD [OF I(1)]
  have w: "w = waiters s" using I(2) p by (auto simp: count_inv_def)
  have gr: "group_inv ?n ?g ?s"
    by (rule owner_group [OF inv, where t = t and q = "Resume k 0"]) (use p e in \<open>auto simp: same_group_def\<close>)
  have y: "yielded (vpc ?s i) \<longleftrightarrow> waits (base (vpc s i))" if i: "i < ?n" for i
  proof -
    have nc: "t \<noteq> Vcpu i \<Longrightarrow> \<not> crit (base (vpc s i))" using f(3) by auto
    have "on_pc (base (vpc s i)) \<or> off_pc (base (vpc s i)) \<or> parked (vpc s i)"
      using not_stopped [OF inv i] e(1) by auto
    then show ?thesis using nc p pl(1) [of "Vcpu i"] by (cases "t = Vcpu i"; cases "vpc s i") (auto simp: pc_ok_def on_off_places)
  qed
  have "tally ?n (\<lambda>i. counted ?g i (vpc ?s i) (vstate ?s i)) = tally ?n (\<lambda>i. \<not> waits (base (vpc s i)))"
    by (rule tally_cong) (use y in \<open>simp add: counted_def\<close>)
  moreover have "unat (waiters s) = tally ?n (\<lambda>i. waits (base (vpc s i)))" using I(2) e(1) by (simp add: count_inv_def)
  moreover have "unat (n - w) = ?n - unat w" using waiters_le [OF inv f(7)] w by (simp add: unat_sub)
  ultimately have ld: "unat (progressing ?s) = load ?n ?g ?s"
    using tally_complement [of ?n "\<lambda>i. waits (base (vpc s i))"] w by (simp add: load_def owe_def)
  have pk: "pc_ok t (Resume k 0)" using f(8) p by (simp add: pc_ok_def split: thread.splits)
  show ?thesis
    by (rule owner_step [where t = t, OF inv e(2), where q = "Resume k 0"])
      (use f(1,5) e pk gr ld in \<open>simp_all add: p\<close>)
qed

lemma resume_move:
  assumes inv: "rinv n g s" and p: "pc s t = Resume k j" and j: "j < unat n" and st: "to_resumed (vstate s j) = Some st"
  shows "rinv n (Resuming t (Suc j)) (goto t (Wake k j) (set_state j st s))" (is "rinv n ?g ?s")
proof -
  let ?n = "unat n"
  have c: "crit (base (pc s t))" using p by simp
  note f = owner_facts [OF inv c]
  have I: "places_inv ?n g s" "count_inv ?n g s" using inv by (simp_all add: rinv_def)
  note pl = placesD [OF I(1)]
  have g: "g = Resuming t j" using f(1,2) p by (cases g) auto
  have vs: "vstate s j = ON_ROUNDEDUP \<and> st = ON \<or> vstate s j = OFF_ROUNDEDUP \<and> st = OFF \<or> vstate s j = EMULATE_ROUNDEDUP \<and> st = EMULATE"
    using st by (cases "vstate s j") auto
  have nd: "vpc s j \<noteq> Done Idle" using I(2) j g by (auto simp: count_inv_def)
  have sj: "state_ok (vpc ?s i) (vstate ?s i)" if i: "i < ?n" for i
    using pl(3) [OF i] vs nd p by (cases "i = j"; cases "t = Vcpu i") (auto simp: state_ok_def split: if_splits)
  have gr: "group_inv ?n ?g ?s"
    by (rule owner_group [OF inv, where t = t and q = "Wake k j"]) (use p g in \<open>auto simp: same_group_def\<close>)
  have "tally ?n (\<lambda>i. counted ?g i (vpc ?s i) (vstate ?s i)) = tally ?n (\<lambda>i. counted g i (vpc s i) (vstate s i))"
    by (rule tally_cong) (use p g in \<open>auto simp: counted_def\<close>)
  moreover have "unat (progressing s) = load ?n g s" using inv by (simp add: rinv_def count_inv_def load_def owe_def)
  ultimately have ld: "unat (progressing ?s) = load ?n ?g ?s" using g p by (simp add: load_def owe_def)
  have rd: "rounded (vstate ?s i) \<longleftrightarrow> is_rounded ?n ?g i" if "i < ?n" for i
    using pl(10) [OF that] g vs by (auto simp: rounded_def)
  have stop: "(vstate ?s i \<noteq> EMULATE_ROUNDEDUP \<and> vpc ?s i \<noteq> Done Idle) \<or> parked (vpc ?s i)" if "i < ?n" "stopped ?g i" for i
    using I(2) that g by (auto simp: count_inv_def)
  have pk: "pc_ok t (Wake k j)" using f(8) p by (simp add: pc_ok_def split: thread.splits)
  show ?thesis
    by (rule owner_move [where t = t, OF inv f(4) _ f(3), where q = "Wake k j"])
      (use g pk sj gr ld rd stop j f(5) in \<open>auto simp: p\<close>)
qed

lemma resume_step_ok:
  assumes inv: "rinv n g s" and p: "pc s t = Resume k j"
  shows "good_step n (resume_step n t k j s)"
proof (cases "unat n \<le> j")
  case True
  let ?n = "unat n"
  let ?s = "goto t (Exit k) s"
  have c: "crit (base (pc s t))" using p by simp
  note f = owner_facts [OF inv c]
  have g: "g = Resuming t j" using f(1,2) p by (cases g) auto
  have I: "places_inv ?n g s" using inv by (simp add: rinv_def)
  have j: "j = ?n" using placesD(8) [OF I g] True by simp
  have gr: "group_inv ?n g ?s"
    by (rule owner_group [OF inv, where t = t and q = "Exit k"]) (use p g in \<open>auto simp: same_group_def\<close>)
  have ld: "unat (progressing ?s) = load ?n g ?s"
    by (rule load_same [OF inv, where t = t and q = "Exit k"]) (use p g in \<open>auto simp: owe_def\<close>)
  have pk: "pc_ok t (Exit k)" using f(8) p by (simp add: pc_ok_def split: thread.splits)
  have "rinv n g ?s"
    by (rule owner_step [where t = t, OF inv c, where q = "Exit k"])
      (use f(1,5) g gr ld j pk in \<open>simp_all add: p\<close>)
  then show ?thesis using True by (auto simp: resume_step_def)
next
  case False
  have c: "crit (base (pc s t))" using p by simp
  note f = owner_facts [OF inv c]
  have g: "g = Resuming t j" using f(1,2) p by (cases g) auto
  have "rounded (vstate s j)" using inv g False placesD(10) [of "unat n" g s j] by (simp add: rinv_def)
  then obtain st where st: "to_resumed (vstate s j) = Some st" by (cases "vstate s j") (auto simp: rounded_def)
  show ?thesis using resume_move [OF inv p _ st] False st by (auto simp: resume_step_def)
qed

lemma wake_step:
  assumes inv: "rinv n g s" and p: "pc s t = Wake k j"
  shows "rinv n g (goto t (Resume k (Suc j)) (s\<lparr>resume_sig := (resume_sig s)(j := True)\<rparr>))" (is "rinv n g ?s")
proof -
  let ?n = "unat n"
  have c: "crit (base (pc s t))" using p by simp
  note f = owner_facts [OF inv c]
  have I: "places_inv ?n g s" using inv by (simp add: rinv_def)
  have g: "g = Resuming t (Suc j)" using f(1,2) p by (cases g) auto
  have j: "Suc j \<le> ?n" using placesD(8) [OF I g] .
  have gr: "group_inv ?n g ?s"
    by (rule owner_group [OF inv, where t = t and q = "Resume k (Suc j)"]) (use p g in \<open>auto simp: same_group_def\<close>)
  have ld: "unat (progressing ?s) = load ?n g ?s"
    by (rule load_same [OF inv, where t = t and q = "Resume k (Suc j)"]) (use p g in \<open>auto simp: owe_def\<close>)
  have pk: "pc_ok t (Resume k (Suc j))" using f(8) p by (simp add: pc_ok_def split: thread.splits)
  show ?thesis
    by (rule owner_step [where t = t, OF inv c, where q = "Resume k (Suc j)"])
      (use f(1,5) g gr ld j pk in \<open>simp_all add: p\<close>)
qed

text \<open>The mutex is given back, and the vCPUs make progress as before.\<close>

lemma exit_step:
  assumes inv: "rinv n g s" and p: "pc s t = Exit k"
  shows "rinv n Free (goto t (after_resume k) (s\<lparr>locked := False\<rparr>))" (is "rinv n ?g ?s")
proof -
  let ?n = "unat n"
  define q where "q = after_resume k"
  have c: "crit (base (pc s t))" using p by simp
  note f = owner_facts [OF inv c]
  have I: "places_inv ?n g s" "group_inv ?n g s" using inv by (simp_all add: rinv_def)
  note pl = placesD [OF I(1)] and G = groupD [OF I(2)]
  have g: "g = Resuming t ?n" using pl(9) p by simp
  have ext: "k = External \<Longrightarrow> \<exists>e. t = Ext e" "k \<noteq> External \<Longrightarrow> \<exists>i. t = Vcpu i"
    using f(8) p by (auto simp: pc_ok_def split: thread.splits)
  have pcs: "pc ?s = (pc s)(t := q)" by (simp add: q_def)
  have qf: "\<not> joined q" "\<not> leads q" "\<not> follows q" "finishes q = finishes (pc s t)" "q \<noteq> R_acquire" "q \<noteq> Rel_dec" "\<not> crit (base q)" "\<not> yielded q"
      "q \<noteq> Done Idle" "\<not> waits (base q)" "q \<noteq> Wait_resume" "\<And>x. q \<noteq> Release x" "q \<notin> {F_unyield, Par_rounded, Par_sub}" "\<And>k. q \<noteq> Exit k"
      "\<And>k w. q \<noteq> Store k w" "\<And>k. q \<noteq> Await k"
    using p by (cases k; simp add: q_def)+
  have same: "tally ?n (\<lambda>i. P (vpc ?s i)) = tally ?n (\<lambda>i. P (vpc s i))" if "P q = P (pc s t)" for P
    by (rule tally_same [where P = P, OF pcs that])
  have T: "tally ?n (\<lambda>i. joined (vpc ?s i)) = tally ?n (\<lambda>i. joined (vpc s i))" "tally ?n (\<lambda>i. leads (vpc ?s i)) = tally ?n (\<lambda>i. leads (vpc s i))"
      "tally ?n (\<lambda>i. follows (vpc ?s i)) = tally ?n (\<lambda>i. follows (vpc s i))" "tally ?n (\<lambda>i. vpc ?s i = R_acquire) = tally ?n (\<lambda>i. vpc s i = R_acquire)"
      "tally ?n (\<lambda>i. finishes (vpc ?s i)) = tally ?n (\<lambda>i. finishes (vpc s i))" "tally ?n (\<lambda>i. vpc ?s i = Rel_dec) = tally ?n (\<lambda>i. vpc s i = Rel_dec)"
    using same [of joined] same [of leads] same [of follows] same [of "\<lambda>p. p = R_acquire"] same [of finishes] same [of "\<lambda>p. p = Rel_dec"] qf p
    by simp_all
  have R: "pc ?s u \<noteq> Release y" for u y using f(3) [of u] qf(12) pcs by (cases "u = t") auto
  have r: "\<not> releasing g s" "\<not> releasing Free ?s" using g by (simp_all add: releasing_def)
  have np: "\<forall>i < ?n. vpc ?s i \<notin> {F_unyield, Par_rounded, Par_sub}" using G(4) r(1) qf(13) pcs by auto
  have nd: "\<forall>i < ?n. vpc ?s i \<noteq> Rel_dec" using G(9) g qf(6) pcs by auto
  have V: "par_count ?s = par_count s" "par_num_waiters ?s = par_num_waiters s" "count_sem ?s = count_sem s"
    "resume_waiter_sem ?s = resume_waiter_sem s" by simp_all
  have gr: "group_inv ?n Free ?s"
    unfolding group_inv_def V T using np nd R r g G(1-3,5,11,13,14) by simp
  have sq: "state_ok q (vstate s m)" if "t = Vcpu m" for m
    using pl(3) [OF f(4) [OF that]] p ext that by (cases k) (auto simp: state_ok_def q_def)
  have st: "state_ok (vpc ?s i) (vstate ?s i)" if "i < ?n" for i
    using pl(3) [OF that] sq [of i] pcs by (cases "t = Vcpu i") auto
  have pk: "pc_ok t q" using ext by (cases k) (auto simp: pc_ok_def q_def)
  have ld: "unat (progressing ?s) = load ?n Free ?s"
    by (rule load_same [OF inv, where t = t and q = q]) (use p g qf in \<open>auto simp: owe_def q_def\<close>)
  show ?thesis unfolding q_def [symmetric]
    by (rule owner_move [where t = t, OF inv f(4) _ f(3), where q = q])
      (use g pk st [unfolded q_def [symmetric]] gr [unfolded q_def [symmetric]] ld [unfolded q_def [symmetric]] qf pl(10) in \<open>simp_all add: p\<close>)
qed

text \<open>A thread outside the vCPUs calls for a roundup, and the monitor gives its signals.\<close>

lemma external_step:
  assumes inv: "rinv n g s" and p: "pc s (Ext e) = Idle"
  shows "rinv n g (goto (Ext e) (Enter External) s)" (is "rinv n g ?s")
proof -
  have I: "places_inv (unat n) g s" "count_inv (unat n) g s" "group_inv (unat n) g s" "wake_inv (unat n) g s"
    using inv by (simp_all add: rinv_def)
  have o: "owner g \<noteq> Some (Ext e)" using placesD(4) [OF I(1), of "Ext e"] p by simp
  have R: "pc ?s t = Release x \<longleftrightarrow> pc s t = Release x" "pc ?s t = Store k w \<longleftrightarrow> pc s t = Store k w" for t x k w using p by auto
  have "places_inv (unat n) g ?s"
    by (rule places_frame [OF I(1), where t = "Ext e" and q = "Enter External"])
      (use I(1) o in \<open>auto simp: places_inv_def pc_ok_def\<close>)
  moreover have "count_inv (unat n) g ?s"
    using I(2) o unfolding count_inv_def R by (auto split: option.splits)
  moreover have "group_inv (unat n) g ?s"
    by (rule group_frame [OF I(3), where t = "Ext e" and q = "Enter External"])
      (use p release_stage [OF I(1)] releasing_cong [OF R(1), of g] in \<open>auto simp: same_group_def\<close>)
  moreover have "wake_inv (unat n) g ?s"
    by (rule wake_frame [OF I(4), where t = "Ext e" and q = "Enter External"]) (use p in auto)
  ultimately show ?thesis by (simp add: rinv_def)
qed

lemma rinv_outside: "rinv n g (s\<lparr>exec_paused := e\<rparr>) \<longleftrightarrow> rinv n g s" "rinv n g (s\<lparr>off_sm := f\<rparr>) \<longleftrightarrow> rinv n g s"
proof -
  have r: "releasing g (s\<lparr>exec_paused := e\<rparr>) = releasing g s" "releasing g (s\<lparr>off_sm := f\<rparr>) = releasing g s"
    by (simp_all add: releasing_def)
  have "places_inv k g (s\<lparr>exec_paused := e\<rparr>) = places_inv k g s" "places_inv k g (s\<lparr>off_sm := f\<rparr>) = places_inv k g s"
    "count_inv k g (s\<lparr>exec_paused := e\<rparr>) = count_inv k g s" "count_inv k g (s\<lparr>off_sm := f\<rparr>) = count_inv k g s"
    "group_inv k g (s\<lparr>exec_paused := e\<rparr>) = group_inv k g s" "group_inv k g (s\<lparr>off_sm := f\<rparr>) = group_inv k g s"
    "wake_inv k g (s\<lparr>exec_paused := e\<rparr>) = wake_inv k g s" "wake_inv k g (s\<lparr>off_sm := f\<rparr>) = wake_inv k g s" for k
    by (simp_all add: places_inv_def count_inv_def group_inv_def wake_inv_def r cong: option.case_cong)
  then show "rinv n g (s\<lparr>exec_paused := e\<rparr>) \<longleftrightarrow> rinv n g s" "rinv n g (s\<lparr>off_sm := f\<rparr>) \<longleftrightarrow> rinv n g s"
    by (simp_all only: rinv_def)
qed

subsection \<open>Every step\<close>

lemma vcpu_step_ok:
  assumes inv: "rinv n g s" and m: "m < unat n"
  shows "good_step n (vcpu_step c m s)"
proof (cases "vpc s m")
  case Read_count
  then show ?thesis using read_count_step [OF inv] by (auto simp: vcpu_step_def)
next
  case (Release x)
  then show ?thesis using release_one_step [OF inv Release] release_last_step [OF inv, of m]
    by (cases "x = 0") (auto simp: vcpu_step_def word_gt_0)
next
  case F_yield
  then show ?thesis using yield_steps [OF inv m, of "Done F_acquire"] by (auto simp: vcpu_step_def)
qed (use quiet_steps [OF inv m] emulating_steps [OF inv m] par_count_step [OF inv m] follower_steps [OF inv m]
  par_sub_step [OF inv m] release_steps [OF inv m] in \<open>auto simp: vcpu_step_def\<close>)

text \<open>The places of the thread of a vCPU are those of the vCPUs of the machine.\<close>

lemma vcpu_bound:
  assumes "rinv n g s" "pc s (Vcpu m) \<noteq> Switched_off"
  shows "m < unat n"
  using assms placesD(2) [of "unat n" g s m] unfolding rinv_def by (meson not_le)

lemma thread_step_ok:
  assumes inv: "rinv n g s"
  shows "good_step n (thread_step n c t s)"
proof -
  have I: "places_inv (unat n) g s" using inv by (simp add: rinv_def)
  note pl = placesD [OF I]
  have vc: "\<exists>m < unat n. t = Vcpu m" if "pc s t \<noteq> Switched_off" "\<forall>e. t \<noteq> Ext e"
    using that vcpu_bound [OF inv] by (cases t) auto
  have bound: "m < unat n" if "t = Vcpu m" "pc s t \<noteq> Switched_off" for m using vcpu_bound [OF inv] that by simp
  have member: "\<exists>m < unat n. t = Vcpu m" if "\<not> crit (base (pc s t))" "pc s t = Done q \<or> pc s t = Signal q" for q
    using pl(1) [of t] that vc by (cases t) (auto simp: pc_ok_def)
  show ?thesis
  proof (cases "pc s t")
    case (Done q)
    show ?thesis
    proof (cases "crit q")
      case True
      then obtain k j where "q = Round k j" using pl(1) [of t] Done by (auto simp: pc_ok_def)
      then show ?thesis using done_round_step [OF inv] Done by (simp add: thread_step_def)
    next
      case False
      moreover have "\<not> crit (base (pc s t))" using False Done by simp
      ultimately show ?thesis using member [of q] notify_steps [OF inv] Done by (auto simp: thread_step_def)
    qed
  next
    case (Signal q)
    show ?thesis
    proof (cases "crit q")
      case True
      then obtain k j where "q = Round k j" using pl(1) [of t] Signal by (auto simp: pc_ok_def)
      then show ?thesis using signal_round_step [OF inv] Signal by (auto simp: thread_step_def signal_step_def)
    next
      case False
      moreover have "\<not> crit (base (pc s t))" using False Signal by simp
      ultimately show ?thesis using member [of q] signal_steps [OF inv] Signal by (auto simp: thread_step_def)
    qed
  next
    case (Yield k)
    then obtain m where "m < unat n" "t = Vcpu m" using pl(1) [of t] vc by (cases t) (auto simp: pc_ok_def)
    then show ?thesis using yield_steps [OF inv, of m "Done (Enter k)"] Yield by (auto simp: thread_step_def)
  next
    case (Enter k)
    have "m < unat n" if "t = Vcpu m" for m using bound that Enter by simp
    from enter_step [OF inv this Enter] Enter show ?thesis by (auto simp: thread_step_def)
  next
    case (Test k)
    have "s = s\<lparr>emu_sig := emu_sig s\<rparr>" by simp
    then show ?thesis using Test rounded_stage [OF inv Test] drain_step [OF inv, of t "Await k" "emu_sig s"]
      by (cases "progressing s = 0") (auto simp: thread_step_def)
  next
    case (Await k)
    then show ?thesis using drain_step [OF inv, of t "Test k" False] by (auto simp: thread_step_def)
  next
    case (Read_waiters k)
    have "g \<noteq> Joint" using owner_facts(7) [OF inv, of t] Read_waiters by simp
    moreover have "s = s\<lparr>waiters := waiters s\<rparr>" by simp
    ultimately show ?thesis using Read_waiters waiters_le [OF inv] ending_move [OF inv, of t k "Store k (waiters s)" "waiters s"]
      by (auto simp: thread_step_def)
  next
    case (Store k w)
    then show ?thesis using store_step [OF inv] by (auto simp: thread_step_def)
  next
    case (Wake k j)
    then show ?thesis using wake_step [OF inv] by (auto simp: thread_step_def)
  next
    case (Exit k)
    then show ?thesis using exit_step [OF inv] by (auto simp: thread_step_def)
  qed (use round_step_ok [OF inv, of t] after_rounded_step [OF inv, of t] unyield_ok [OF inv, of t] resume_step_ok [OF inv, of t]
    vcpu_step_ok [OF inv] external_step [OF inv] in \<open>auto simp: thread_step_def split: thread.splits\<close>)
qed

text \<open>The invariant holds in every state that the protocol reaches.\<close>

lemma rinv_init: "rinv n Free (roundup_init n)"
proof -
  have "tally k (\<lambda>_. True) = k" for k using tally_complement [of k "\<lambda>_. False"] by simp
  then show ?thesis
    by (auto simp: rinv_def roundup_init_def places_inv_def count_inv_def group_inv_def wake_inv_def pc_ok_def state_ok_def
        rounded_def counted_def releasing_def split: thread.splits)
qed

lemma rinv_reachable:
  assumes "roundup_reachable n s"
  obtains g where "rinv n g s"
proof -
  from assms have "\<exists>g. rinv n g s"
  proof induction
    case roundup_start
    show ?case using rinv_init by blast
  next
    case (roundup_next s s')
    then obtain g where "rinv n g s" by blast
    with roundup_next(2) show ?case
    proof cases
      case (run_thread c t)
      then show ?thesis using thread_step_ok [OF \<open>rinv n g s\<close>, of c t] by simp
    qed (use rinv_outside in auto)
  qed
  then show ?thesis using that by blast
qed

subsection \<open>What the roundup guarantees\<close>

text \<open>Runs of the protocol, for examples.\<close>

datatype move = Run choice thread | Off_signal nat

fun play :: "u16 \<Rightarrow> move list \<Rightarrow> rsys \<Rightarrow> rsys option" where
  "play n [] s = Some s"
| "play n (Run c t # ms) s = (case thread_step n c t s of Next s' \<Rightarrow> play n ms s' | _ \<Rightarrow> None)"
| "play n (Off_signal i # ms) s = play n ms (s\<lparr>off_sm := (off_sm s)(i := True)\<rparr>)"

lemma play_reachable: "roundup_reachable n s \<Longrightarrow> play n ms s = Some s' \<Longrightarrow> roundup_reachable n s'"
proof (induction n ms s rule: play.induct)
  case (2 n c t ms s)
  then show ?case by (auto split: outcome.splits intro: roundup_next run_thread)
next
  case (3 n i ms s)
  then show ?case by (auto intro: roundup_next sig_off)
qed simp

lemmas play_steps = thread_step_def vcpu_step_def round_step_def notify_done_def signal_step_def turn_on_def roundup_init_def
  goto_def set_state_def

text \<open>
  C27: In every state that the protocol reaches, every thread is at a place that fits it: only vCPU
  threads take part in parallel roundups, calls from outside have their own places, and a vCPU's state
  is on, off or emulating as the place of its thread says.
\<close>

lemma roundup_places_typed:
  assumes "roundup_reachable n s"
  shows "pc_ok t (pc s t) \<and> (\<forall>i < unat n. state_ok (vpc s i) (vstate s i)) \<and> (\<forall>i \<ge> unat n. vpc s i = Switched_off)"
proof -
  from assms obtain g where "rinv n g s" by (rule rinv_reachable)
  then show ?thesis using placesD(1-3) [of "unat n" g s] by (simp add: rinv_def)
qed

lemma roundup_places_typed_witness:
  "pc_ok (Ext 0) (pc (roundup_init 2) (Ext 0)) \<and> state_ok (vpc (roundup_init 2) 1) (vstate (roundup_init 2) 1)"
  using roundup_places_typed [OF roundup_start, of "Ext 0" 2] by simp

text \<open>
  C25: However the roundups, resumes and emulations of the threads interleave, no step fails an
  assertion of the code: no counter of waiting or progressing vCPUs goes below zero, and every change
  of a vCPU's state is from a state that the code expects.
\<close>

lemma roundup_never_aborts:
  assumes "roundup_reachable n s"
  shows "thread_step n c t s \<noteq> Aborts"
proof -
  from assms obtain g where "rinv n g s" by (rule rinv_reachable)
  then show ?thesis using thread_step_ok [of n g s c t] by (auto simp: good_step_def)
qed

lemma roundup_never_aborts_witness: "thread_step 2 Call_roundup (Ext 0) (roundup_init 2) \<noteq> Aborts"
  by (rule roundup_never_aborts [OF roundup_start])

text \<open>The places of a thread whose roundup is complete, and that has not begun the resume.\<close>

fun roundup_done :: "pc \<Rightarrow> bool" where
  "roundup_done (Rounded _) = True" | "roundup_done (Unyield _) = True" | "roundup_done (Read_waiters _) = True"
| "roundup_done (Store _ _) = True" | "roundup_done Read_count = True" | "roundup_done (Release _) = True"
| "roundup_done F_unyield = True" | "roundup_done Par_rounded = True" | "roundup_done Par_sub = True" | "roundup_done _ = False"

lemma done_frozen:
  assumes inv: "rinv n g s" and d: "roundup_done (pc s t)"
  shows "frozen g"
proof (cases "crit (base (pc s t))")
  case True
  then show ?thesis using owner_facts(2,6,7) [OF inv True] d by (cases g) auto
next
  case False
  then have p: "pc s t \<in> {F_unyield, Par_rounded, Par_sub}" using d by (cases "pc s t") auto
  have I: "places_inv (unat n) g s" "group_inv (unat n) g s" using inv by (simp_all add: rinv_def)
  have "\<exists>m. t = Vcpu m" using placesD(1) [OF I(1), of t] p by (cases t) (auto simp: pc_ok_def)
  then obtain m where m: "t = Vcpu m" by blast
  then have "m < unat n" using vcpu_bound [OF inv, of m] p by auto
  then have "releasing g s" using groupD(4) [OF I(2), of m] p m by simp
  then show ?thesis by (rule releasing_frozen)
qed

text \<open>
  C24: When a thread's roundup is complete and until it begins the resume, no vCPU makes
  progress: every vCPU is in a rounded-up state, a vCPU whose thread is in the middle of an emulation
  has its thread parked in the roundup itself, the count of progressing vCPUs is zero, and only one
  thread at a time runs a roundup or a resume.
\<close>

lemma roundup_stops_vcpus:
  assumes "roundup_reachable n s" "roundup_done (pc s t)"
  shows "(\<forall>i < unat n. vstate s i = ON_ROUNDEDUP \<and> on_pc (base (vpc s i)) \<or> vstate s i = OFF_ROUNDEDUP \<and> off_pc (base (vpc s i)) \<or>
      vstate s i = EMULATE_ROUNDEDUP \<and> parked (vpc s i)) \<and> progressing s = 0 \<and>
    (\<forall>u v. crit (base (pc s u)) \<and> crit (base (pc s v)) \<longrightarrow> u = v)"
proof -
  from assms(1) obtain g where inv: "rinv n g s" by (rule rinv_reachable)
  have g: "frozen g" by (rule done_frozen [OF inv assms(2)])
  have st: "vstate s i = ON_ROUNDEDUP \<and> on_pc (base (vpc s i)) \<or> vstate s i = OFF_ROUNDEDUP \<and> off_pc (base (vpc s i)) \<or>
      vstate s i = EMULATE_ROUNDEDUP \<and> parked (vpc s i)" if i: "i < unat n" for i
  proof -
    have "stopped g i" "is_rounded (unat n) g i" using g by (cases g; simp)+
    then show ?thesis using vcpu_facts(1,2,5) [OF inv i] by (auto simp: state_ok_def rounded_def split: if_splits)
  qed
  have "progressing s = 0" using inv g by (simp add: rinv_def count_inv_def unat_eq_zero)
  moreover have "\<forall>u v. crit (base (pc s u)) \<and> crit (base (pc s v)) \<longrightarrow> u = v"
    using owner_facts(3) [OF inv] by blast
  ultimately show ?thesis using st by blast
qed

definition run_roundup :: "move list" where
  "run_roundup = replicate 7 (Run Call_roundup (Ext 0))"

lemma roundup_stops_vcpus_witness:
  "\<exists>s. play 1 run_roundup (roundup_init 1) = Some s \<and> roundup_done (pc s (Ext 0)) \<and> vstate s 0 = OFF_ROUNDEDUP \<and> progressing s = 0"
proof -
  obtain s where s: "play 1 run_roundup (roundup_init 1) = Some s" "pc s (Ext 0) = Rounded External" "vpc s 0 = Switched_off"
    by (simp add: run_roundup_def numeral_eq_Suc play_steps)
  have r: "roundup_reachable 1 s" by (rule play_reachable [OF roundup_start s(1)])
  have d: "roundup_done (pc s (Ext 0))" using s(2) by simp
  from roundup_stops_vcpus [OF r d] have "vstate s 0 = OFF_ROUNDEDUP" "progressing s = 0"
    using s(3) by auto
  with s(1) d show ?thesis by blast
qed

text \<open>
  C26: A thread that waits in a roundup for the vCPUs that emulate is not stuck: the signal has
  been given, or a thread is about to give it, or a vCPU that has not reported itself can take a step.
  The threads that can take a step are not those of vCPUs with nothing to do.
\<close>

lemma roundup_wait_not_stuck:
  assumes "roundup_reachable n s" "pc s t = Await k"
  shows "\<exists>u c s'. \<not> on_pc (pc s u) \<and> \<not> off_pc (pc s u) \<and> thread_step n c u s = Next s'"
proof -
  from assms(1) obtain g where inv: "rinv n g s" by (rule rinv_reachable)
  let ?n = "unat n"
  have I: "places_inv ?n g s" "count_inv ?n g s" "group_inv ?n g s" "wake_inv ?n g s" using inv by (simp_all add: rinv_def)
  note pl = placesD [OF I(1)] and G = groupD [OF I(3)]
  have safe: "\<exists>s'. thread_step n c u s = Next s'" if "thread_step n c u s \<noteq> Blocked" for c u
    using that thread_step_ok [OF inv, of c u] by (cases "thread_step n c u s") (auto simp: good_step_def)
  have can: ?thesis if "thread_step n c u s \<noteq> Blocked" "\<not> on_pc (pc s u)" "\<not> off_pc (pc s u)" for c u
    using safe [OF that(1)] that(2,3) by blast
  have c: "crit (base (pc s t))" using assms(2) by simp
  note f = owner_facts [OF inv c]
  have g: "g = Drain t" using f(1,2) assms(2) by (cases g) auto
  consider (sig) "emu_sig s" | (signal) u q where "pc s u = Signal q" | (wait) "progressing s \<noteq> 0"
    using I(4) assms(2) unfolding wake_inv_def by blast
  then show ?thesis
  proof cases
    case sig
    then show ?thesis using can [of Call_roundup t] assms(2) by (simp add: thread_step_def)
  next
    case (signal u q)
    then show ?thesis using can [of Call_roundup u] by (simp add: thread_step_def signal_step_def)
  next
    case wait
    then have "0 < unat (progressing s)" by (simp add: word_gt_0 unat_gt_0)
    then have "0 < tally ?n (\<lambda>i. counted g i (vpc s i) (vstate s i))" using I(2) g assms(2) by (simp add: count_inv_def)
    then obtain i where i: "i < ?n" "counted g i (vpc s i) (vstate s i)" using tally_eq_0 [of ?n "\<lambda>i. counted g i (vpc s i) (vstate s i)"] by auto
    have nc: "\<not> crit (base (vpc s i))" using i(2) f(3) assms(2) by (cases "t = Vcpu i") (auto simp: counted_def)
    have no: "\<not> on_pc (vpc s i)" "\<not> off_pc (vpc s i)"
      using i(2) pl(3) [OF i(1)] g by (auto simp: counted_def state_ok_def on_off_places split: if_splits)
    have nr: "vpc s i \<notin> {F_unyield, Par_rounded, Par_sub}" using G(4) [OF i(1)] g by (auto simp: releasing_def)
    show ?thesis
    proof (cases "vpc s i = R_acquire")
      case False
      have "thread_step n End_emulation (Vcpu i) s \<noteq> Blocked"
        using False i nc no nr
        by (cases "vpc s i") (auto simp: thread_step_def vcpu_step_def notify_done_def signal_step_def turn_on_def
            on_off_places counted_def Let_def split: option.splits if_splits)
      then show ?thesis using can [of End_emulation "Vcpu i"] no by blast
    next
      case True
      then have ra: "0 < tally ?n (\<lambda>i. vpc s i = R_acquire)" by (intro tally_pos [OF i(1)])
      have nrel: "\<not> releasing g s" using g by (simp add: releasing_def)
      show ?thesis
      proof (cases "0 < resume_waiter_sem s")
        case True
        then show ?thesis using can [of End_emulation "Vcpu i"] \<open>vpc s i = R_acquire\<close> i(1) no
          by (simp add: thread_step_def vcpu_step_def)
      next
        case False
        then have "par_num_waiters s \<noteq> 0" using G(13) [OF nrel] ra by auto
        then obtain j where j: "j < ?n" "finishes (vpc s j)" using G(14) [OF nrel] by (auto simp: tally_eq_0)
        have "\<not> crit (base (vpc s j))" using j(2) f(3) assms(2) by (cases "t = Vcpu j") auto
        then have r: "vpc s j = Rel \<or> vpc s j = Rel_dec" using j(2) by (cases "vpc s j") auto
        then have "thread_step n End_emulation (Vcpu j) s \<noteq> Blocked"
          using j(1) by (auto simp: thread_step_def vcpu_step_def Let_def split: if_splits)
        moreover have "\<not> on_pc (vpc s j)" "\<not> off_pc (vpc s j)" using r by auto
        ultimately show ?thesis using can by blast
      qed
    qed
  qed
qed

definition run_wait :: "move list" where
  "run_wait = Off_signal 0 # replicate 5 (Run Begin_emulation (Vcpu 0)) @ replicate 5 (Run Call_roundup (Ext 0))"

lemma roundup_wait_not_stuck_witness:
  "\<exists>s. play 1 run_wait (roundup_init 1) = Some s \<and> pc s (Ext 0) = Await External \<and>
     (\<exists>u c s'. \<not> on_pc (pc s u) \<and> \<not> off_pc (pc s u) \<and> thread_step 1 c u s = Next s')"
proof -
  obtain s where s: "play 1 run_wait (roundup_init 1) = Some s" "pc s (Ext 0) = Await External"
    by (simp add: run_wait_def numeral_eq_Suc play_steps)
  have r: "roundup_reachable 1 s" by (rule play_reachable [OF roundup_start s(1)])
  from roundup_wait_not_stuck [OF r s(2)] s show ?thesis by blast
qed

end
