(* ===== verification/MsrInfo.thy ===== *)
theory MsrInfo
  imports Prelude
begin

text \<open>
  \<open>devices/msr/include/aarch64/msr/msr_info.hpp\<close>: the fields of the system registers that the
  monitor looks at, as functions of the value of the register.
\<close>

subsection \<open>Constants\<close>

definition HCR_EL2_DEFAULT_VALUE :: u64 where
  "HCR_EL2_DEFAULT_VALUE = fold (\<lambda>i v. v OR push_bit i 1) [0, 1, 2, 3, 4, 5, 9, 10, 13, 14, 15, 16, 18, 19, 20, 21, 22] 0"

abbreviation SCTLR_EL1_DEFAULT_VALUE :: u64 where "SCTLR_EL1_DEFAULT_VALUE \<equiv> 0x00c50838"

subsection \<open>The saved program state (\<open>Spsr\<close>)\<close>

definition spsr_is_t32 :: "u64 \<Rightarrow> bool" where "spsr_is_t32 v \<longleftrightarrow> v AND push_bit 5 1 \<noteq> 0"
definition spsr_is_aa32 :: "u64 \<Rightarrow> bool" where "spsr_is_aa32 v \<longleftrightarrow> v AND push_bit 4 1 \<noteq> 0"
definition spsr_is_n :: "u64 \<Rightarrow> bool" where "spsr_is_n v \<longleftrightarrow> v AND push_bit 31 1 \<noteq> 0"
definition spsr_is_z :: "u64 \<Rightarrow> bool" where "spsr_is_z v \<longleftrightarrow> v AND push_bit 30 1 \<noteq> 0"
definition spsr_is_c :: "u64 \<Rightarrow> bool" where "spsr_is_c v \<longleftrightarrow> v AND push_bit 29 1 \<noteq> 0"
definition spsr_is_v :: "u64 \<Rightarrow> bool" where "spsr_is_v v \<longleftrightarrow> v AND push_bit 28 1 \<noteq> 0"
definition spsr_el :: "u64 \<Rightarrow> u8" where "spsr_el v = ucast (v AND 0xe)"
definition spsr_spx :: "u64 \<Rightarrow> bool" where "spsr_spx v \<longleftrightarrow> v AND 1 \<noteq> 0"

subsection \<open>Identification registers\<close>

text \<open>\<open>IdAa64pfr0::get_supported_mode\<close>: a level is the shift of its field.\<close>

abbreviation EL0_SHIFT :: nat where "EL0_SHIFT \<equiv> 0"
abbreviation EL1_SHIFT :: nat where "EL1_SHIFT \<equiv> 4"
abbreviation AA64_AA32 :: u64 where "AA64_AA32 \<equiv> 2"

definition get_supported_mode :: "u64 \<Rightarrow> nat \<Rightarrow> u64" where
  "get_supported_mode v l = drop_bit l v AND 0xf"

definition dfr0_debug_ver :: "u64 \<Rightarrow> u8" where "dfr0_debug_ver v = ucast (v AND 0xf)"
definition dfr0_ctx_cmp :: "u64 \<Rightarrow> u8" where "dfr0_ctx_cmp v = ucast (drop_bit 28 v AND 0xf)"
definition dfr0_brp :: "u64 \<Rightarrow> u8" where "dfr0_brp v = ucast (drop_bit 12 v AND 0xf)"
definition dfr0_wrp :: "u64 \<Rightarrow> u8" where "dfr0_wrp v = ucast (drop_bit 20 v AND 0xf)"

subsection \<open>The cache type (\<open>Ctr\<close>)\<close>

datatype IcachePolicy = VPIPT | AIVIVT | VIPT | PIPT

definition dcache_clean_pou_for_itod :: "u64 \<Rightarrow> bool" where "dcache_clean_pou_for_itod v \<longleftrightarrow> v AND push_bit 28 1 = 0"
definition icache_clean_pou_for_itod :: "u64 \<Rightarrow> bool" where "icache_clean_pou_for_itod v \<longleftrightarrow> v AND push_bit 29 1 = 0"
definition dcache_line_size :: "u64 \<Rightarrow> u64" where "dcache_line_size v = push_bit (unat (drop_bit 16 v AND 0xf)) 4"
definition icache_line_size :: "u64 \<Rightarrow> u64" where "icache_line_size v = push_bit (unat (v AND 0xf)) 4"

definition get_icache_policy :: "u64 \<Rightarrow> IcachePolicy" where
  "get_icache_policy v = (let b = bits_in_range v 14 15 in if b = 0 then VPIPT else if b = 1 then AIVIVT else if b = 2 then VIPT else PIPT)"

definition can_invalidate_guest_icache :: "u64 \<Rightarrow> bool" where
  "can_invalidate_guest_icache v \<longleftrightarrow> get_icache_policy v = PIPT"

subsection \<open>System control (\<open>SctlrEl1\<close>)\<close>

definition mmu_enabled :: "u64 \<Rightarrow> bool" where "mmu_enabled v \<longleftrightarrow> v AND push_bit 0 1 \<noteq> 0"
definition cache_enabled :: "u64 \<Rightarrow> bool" where "cache_enabled v \<longleftrightarrow> v AND push_bit 2 1 \<noteq> 0 \<and> mmu_enabled v"
definition sctlr_wxn :: "u64 \<Rightarrow> bool" where "sctlr_wxn v \<longleftrightarrow> bits v 1 19 \<noteq> 0"

subsection \<open>Translation control (\<open>TcrEl1\<close>, \<open>TcrEl2\<close>)\<close>

datatype GranuleSize = GRANULE_16KB | GRANULE_4KB | GRANULE_64KB | GRANULE_INVALID

definition tcr_tg1 :: "u64 \<Rightarrow> GranuleSize" where
  "tcr_tg1 v = (let b = bits_in_range v 30 31 in
     if b = 1 then GRANULE_16KB else if b = 2 then GRANULE_4KB else if b = 3 then GRANULE_64KB else GRANULE_INVALID)"

definition tcr_tg0 :: "u64 \<Rightarrow> GranuleSize" where
  "tcr_tg0 v = (let b = bits_in_range v 14 15 in
     if b = 2 then GRANULE_16KB else if b = 0 then GRANULE_4KB else if b = 1 then GRANULE_64KB else GRANULE_INVALID)"

definition tcr_tbi0 :: "u64 \<Rightarrow> bool" where "tcr_tbi0 v \<longleftrightarrow> bits_in_range v 38 38 \<noteq> 0"
definition tcr_tbi1 :: "u64 \<Rightarrow> bool" where "tcr_tbi1 v \<longleftrightarrow> bits_in_range v 37 37 \<noteq> 0"
definition tcr_epd0 :: "u64 \<Rightarrow> bool" where "tcr_epd0 v \<longleftrightarrow> bits_in_range v 7 7 \<noteq> 0"
definition tcr_epd1 :: "u64 \<Rightarrow> bool" where "tcr_epd1 v \<longleftrightarrow> bits_in_range v 23 23 \<noteq> 0"
definition tcr_t0sz :: "u64 \<Rightarrow> u8" where "tcr_t0sz v = ucast (bits_in_range v 0 5)"
definition tcr_t1sz :: "u64 \<Rightarrow> u8" where "tcr_t1sz v = ucast (bits_in_range v 16 21)"
definition tcr_eae :: "u64 \<Rightarrow> bool" where "tcr_eae v \<longleftrightarrow> bits_in_range v 31 31 \<noteq> 0"

abbreviation INVALID_IPS :: u8 where "INVALID_IPS \<equiv> 0xff"

definition tcr_ips :: "u64 \<Rightarrow> u8" where
  "tcr_ips v = (let b = bits_in_range v 32 34 in
     if b = 0 then 32 else if b = 1 then 36 else if b = 2 then 40 else if b = 3 then 42 else if b = 4 then 44
     else if b = 5 then 48 else if b = 6 then 52 else INVALID_IPS)"

definition tcr_hpd0 :: "u64 \<Rightarrow> bool" where "tcr_hpd0 v \<longleftrightarrow> bits_in_range v 41 41 \<noteq> 0"
definition tcr_hpd1 :: "u64 \<Rightarrow> bool" where "tcr_hpd1 v \<longleftrightarrow> bits_in_range v 42 42 \<noteq> 0"

definition tcr2_start_level :: "u64 \<Rightarrow> u8" where
  "tcr2_start_level v = (let b = bits_in_range v 6 7 in if b = 0 then 2 else if b = 1 then 1 else if b = 2 then 0 else 3)"

text \<open>
  The accessors of the top-byte-ignore bits have their bits exchanged: bit 37 of the register is for
  the lower half of the address space (\<open>tbi0\<close>).
\<close>

lemma tcr_tbi_exchanged: "tcr_tbi1 (push_bit 37 1)" "\<not> tcr_tbi0 (push_bit 37 1)"
  by code_simp+

end
