(* ===== verification/Psci.thy ===== *)
theory Psci
  imports CpuModel CpuAffinity MsrInfo
begin

text \<open>
  \<open>devices/firmware/src/psci.cpp\<close>, \<open>devices/firmware/include/model/psci.hpp\<close>: the firmware calls by
  which a guest starts and stops its CPUs, over the model of the vCPUs, the affinity map and the bus.

  The registers that a call reads are a record (\<open>RegAccessor\<close>). A result that the code leaves unset
  is \<open>None\<close>. The functions of \<open>vcpu/lifecycle/include/lifecycle.hpp\<close> are empty in this
  repository, but for \<open>can_shutdown_system\<close>.
\<close>

subsection \<open>Function numbers and results\<close>

datatype FunctionId =
    SMCCC_VERSION | SMCCC_ARCH_FEATURES | PSCI_VERSION | FEATURES | CPU_SUSPEND_32 | CPU_SUSPEND_64 | CPU_OFF
  | AFFINITY_INFO_32 | AFFINITY_INFO_64 | MIGRATE_INFO_TYPE | CPU_ON_32 | CPU_ON_64 | SYSTEM_OFF | SYSTEM_RESET
  | SYSTEM_SUSPEND_32 | SYSTEM_SUSPEND_64

fun function_code :: "FunctionId \<Rightarrow> u32" where
  "function_code SMCCC_VERSION = 0x80000000"
| "function_code SMCCC_ARCH_FEATURES = 0x80000001"
| "function_code PSCI_VERSION = 0x84000000"
| "function_code FEATURES = 0x8400000a"
| "function_code CPU_SUSPEND_32 = 0x84000001"
| "function_code CPU_SUSPEND_64 = 0xc4000001"
| "function_code CPU_OFF = 0x84000002"
| "function_code AFFINITY_INFO_32 = 0x84000004"
| "function_code AFFINITY_INFO_64 = 0xc4000004"
| "function_code MIGRATE_INFO_TYPE = 0x84000006"
| "function_code CPU_ON_32 = 0x84000003"
| "function_code CPU_ON_64 = 0xc4000003"
| "function_code SYSTEM_OFF = 0x84000008"
| "function_code SYSTEM_RESET = 0x84000009"
| "function_code SYSTEM_SUSPEND_32 = 0x8400000e"
| "function_code SYSTEM_SUSPEND_64 = 0xc400000e"

definition all_functions :: "FunctionId list" where
  "all_functions = [SMCCC_VERSION, SMCCC_ARCH_FEATURES, PSCI_VERSION, FEATURES, CPU_SUSPEND_32, CPU_SUSPEND_64, CPU_OFF,
     AFFINITY_INFO_32, AFFINITY_INFO_64, MIGRATE_INFO_TYPE, CPU_ON_32, CPU_ON_64, SYSTEM_OFF, SYSTEM_RESET,
     SYSTEM_SUSPEND_32, SYSTEM_SUSPEND_64]"

text \<open>The \<open>switch\<close> compares the lower half of the number in the register.\<close>

definition function_of :: "u64 \<Rightarrow> FunctionId option" where
  "function_of x = find (\<lambda>f. function_code f = ucast x) all_functions"

datatype PsciResult =
    PSCI_SUCCESS | NOT_SUPPORTED | PSCI_INVALID_PARAMETERS | DENIED | PSCI_ALREADY_ON | ON_PENDING | INTERNAL_FAILURE
  | NOT_PRESENT | DISABLED | PSCI_INVALID_ADDRESS

text \<open>The values, a signed 32-bit number widened to 64 bits.\<close>

fun result_code :: "PsciResult \<Rightarrow> u64" where
  "result_code PSCI_SUCCESS = 0"
| "result_code NOT_SUPPORTED = - 1"
| "result_code PSCI_INVALID_PARAMETERS = - 2"
| "result_code DENIED = - 3"
| "result_code PSCI_ALREADY_ON = - 4"
| "result_code ON_PENDING = - 5"
| "result_code INTERNAL_FAILURE = - 6"
| "result_code NOT_PRESENT = - 7"
| "result_code DISABLED = - 8"
| "result_code PSCI_INVALID_ADDRESS = - 9"

datatype psci_status = PSCI_OK | PSCI_ERROR | PSCI_WFI

abbreviation MAJOR_VERSION :: u32 where "MAJOR_VERSION \<equiv> 0x10000"
abbreviation MINOR_VERSION :: u32 where "MINOR_VERSION \<equiv> 1"

subsection \<open>The calls\<close>

record regs =
  r_gpr :: "nat \<Rightarrow> u64"
  r_tmr_cntvoff :: u64
  r_el2_spsr :: u64

definition boot_mode :: "regs \<Rightarrow> Mode \<times> u64" where
  "boot_mode r =
     (if spsr_is_aa32 (r_el2_spsr r)
      then if r_gpr r 2 AND 1 \<noteq> 0 then (T32, r_gpr r 2 AND NOT 1) else (BITS_32, r_gpr r 2)
      else (BITS_64, r_gpr r 2))"

definition psci_start_cpu :: "('d \<Rightarrow> dev_typ) \<Rightarrow> 'd bus \<Rightarrow> clusters \<Rightarrow> regs \<Rightarrow> cpus \<Rightarrow> (u64 \<times> cpus) option" where
  "psci_start_cpu typ bus m r c =
     (let (md, boot_addr) = boot_mode r; vid = cpu_affinity_to_id m (aff_of_mpidr (r_gpr r 1)) in
      if vid = INVALID_VCPU_ID then Some (result_code PSCI_INVALID_PARAMETERS, c)
      else do {
        (err, c) \<leftarrow> start_cpu typ bus vid boot_addr [r_gpr r 3, 0, 0, 0] (r_tmr_cntvoff r) md c;
        Some (start_err_code err, c)
      })"

definition system_suspend :: "u64 \<Rightarrow> cpus \<Rightarrow> (psci_status \<times> u64) option" where
  "system_suspend me c = do {
     all_others_off \<leftarrow> for_each (vcpu_ids c) (\<lambda>i b.
       if i \<noteq> me \<and> b then map_option Not (is_cpu_turned_on_by_guest i c) else Some b) True;
     Some (if \<not> all_others_off then (PSCI_OK, result_code DENIED) else (PSCI_WFI, result_code PSCI_SUCCESS))
   }"

definition psci_features :: "u64 \<Rightarrow> u64" where
  "psci_features feature =
     (if feature \<in> ucast ` function_code ` {CPU_SUSPEND_64, CPU_SUSPEND_32} then 0
      else if feature \<in> ucast ` function_code ` {PSCI_VERSION, CPU_ON_32, CPU_ON_64, AFFINITY_INFO_64, AFFINITY_INFO_32,
        CPU_OFF, SYSTEM_SUSPEND_32, SYSTEM_SUSPEND_64, SYSTEM_OFF, SYSTEM_RESET, SMCCC_VERSION} then 0
      else result_code NOT_SUPPORTED)"

definition affinity_info :: "clusters \<Rightarrow> regs \<Rightarrow> cpus \<Rightarrow> u64 option" where
  "affinity_info m r c =
     (let vid = cpu_affinity_to_id m (aff_of_mpidr (r_gpr r 1)); aff_level = r_gpr r 2 in
      if aff_level \<noteq> 0 then Some (result_code PSCI_INVALID_PARAMETERS)
      else if ucast (get_num_vcpus c) < vid then Some (result_code PSCI_INVALID_PARAMETERS)
      else map_option (\<lambda>on. if on then 0 else 1) (is_cpu_turned_on_by_guest vid c))"

definition can_shutdown_system :: bool where "can_shutdown_system = True"

text \<open>
  \<open>me\<close> is the calling vCPU, \<open>s\<close> the state of the devices on the bus. The result is
  the status, the value for the guest if one was set, the vCPUs and the devices.
\<close>

definition smc_call_service ::
    "('d, 's) dev_ops \<Rightarrow> 'd bus \<Rightarrow> clusters \<Rightarrow> u64 \<Rightarrow> regs \<Rightarrow> u64 \<Rightarrow> cpus \<Rightarrow> 's \<Rightarrow> (psci_status \<times> u64 option \<times> cpus \<times> 's) option" where
  "smc_call_service ops bus m me r function_id c s = (case function_of function_id of
     Some SMCCC_VERSION \<Rightarrow> Some (PSCI_OK, Some (ucast (MAJOR_VERSION OR MINOR_VERSION)), c, s)
   | Some SMCCC_ARCH_FEATURES \<Rightarrow> Some (PSCI_OK, Some (result_code NOT_SUPPORTED), c, s)
   | Some PSCI_VERSION \<Rightarrow> Some (PSCI_OK, Some (ucast (MAJOR_VERSION OR MINOR_VERSION)), c, s)
   | Some FEATURES \<Rightarrow> Some (PSCI_OK, Some (psci_features (r_gpr r 1)), c, s)
   | Some MIGRATE_INFO_TYPE \<Rightarrow> Some (PSCI_OK, Some 2, c, s)
   | Some f \<Rightarrow>
       if f = CPU_ON_64 \<or> f = CPU_ON_32 then do {
         (res, c) \<leftarrow> psci_start_cpu (dv_type ops) bus m r c;
         Some (PSCI_OK, Some res, c, s)
       }
       else if f = CPU_SUSPEND_32 \<or> f = CPU_SUSPEND_64 then Some (PSCI_WFI, Some (result_code PSCI_SUCCESS), c, s)
       else if f = AFFINITY_INFO_32 \<or> f = AFFINITY_INFO_64 then do {
         res \<leftarrow> affinity_info m r c;
         Some (PSCI_OK, Some res, c, s)
       }
       else if f = CPU_OFF then do {
         c \<leftarrow> ctrl_feature_on_vcpu ctrl_feature_off me True VMM 0 c;
         Some (PSCI_OK, Some (result_code PSCI_SUCCESS), c, s)
       }
       else if f = SYSTEM_OFF then Some (PSCI_OK, None, c, s)
       else if f = SYSTEM_RESET then
         if \<not> can_shutdown_system then Some (PSCI_OK, None, c, s) else Some (PSCI_OK, None, c, bus_reset ops bus s)
       else do {
         (st, res) \<leftarrow> system_suspend me c;
         Some (st, Some res, c, s)
       }
   | None \<Rightarrow> Some (PSCI_OK, Some (result_code NOT_SUPPORTED), c, s))"

subsection \<open>Properties\<close>

lemma function_of_code: "function_of (ucast (function_code f)) = Some f"
proof -
  have u: "ucast (ucast x :: u64) = x" for x :: u32 by (rule bit_word_eqI) (simp add: bit_simps)
  show ?thesis unfolding function_of_def u by (cases f) (simp_all add: all_functions_def)
qed

lemma smc_cases:
  "smc_call_service ops bus m me r (ucast (function_code CPU_OFF)) c s = do {
     c \<leftarrow> ctrl_feature_on_vcpu ctrl_feature_off me True VMM 0 c; Some (PSCI_OK, Some 0, c, s) }"
  "smc_call_service ops bus m me r (ucast (function_code CPU_ON_64)) c s = do {
     (res, c) \<leftarrow> psci_start_cpu (dv_type ops) bus m r c; Some (PSCI_OK, Some res, c, s) }"
  "smc_call_service ops bus m me r (ucast (function_code AFFINITY_INFO_64)) c s = do {
     res \<leftarrow> affinity_info m r c; Some (PSCI_OK, Some res, c, s) }"
  unfolding smc_call_service_def function_of_code by simp_all

lemma on_known:
  assumes "cpus_ok c"
  obtains on where "is_cpu_turned_on_by_guest i c = Some on"
proof (cases "ucast (configured_vcpus c) \<le> i")
  case False
  then obtain v where "vcpu_at i c = Some v" using vcpu_at_ok [OF assms, of i] by (auto simp: not_le)
  then show ?thesis using that False by (simp add: is_cpu_turned_on_by_guest_def is_turned_on_by_guest_def flag_is_requested_by_def)
qed (use that [of False] in \<open>simp add: is_cpu_turned_on_by_guest_def\<close>)

lemma suspend_total:
  assumes "cpus_ok c"
  shows "\<exists>r. system_suspend me c = Some r"
proof -
  have "\<exists>b'. for_each is (\<lambda>i b. if i \<noteq> me \<and> b then map_option Not (is_cpu_turned_on_by_guest i c) else Some b) b = Some b'"
    for "is" :: "u64 list" and b
  proof (induction "is" arbitrary: b)
    case (Cons i "is")
    obtain on where "is_cpu_turned_on_by_guest i c = Some on" by (rule on_known [OF assms])
    then show ?case using Cons by (cases "i \<noteq> me \<and> b") auto
  qed simp
  from this [of "vcpu_ids c" True] show ?thesis by (auto simp: system_suspend_def)
qed

text \<open>What the switch-off of a vCPU does.\<close>

lemma switch_off_effect:
  assumes "cpus_ok c" "i < ucast (configured_vcpus c)"
  shows "\<exists>c'. ctrl_feature_on_vcpu ctrl_feature_off i True VMM 0 c = Some c' \<and> cpus_ok c' \<and> configured_vcpus c' = configured_vcpus c \<and>
    is_cpu_turned_on_by_guest i c' = Some False \<and> (\<forall>j. j \<noteq> i \<longrightarrow> vcpu_at j c' = vcpu_at j c)"
proof -
  obtain v where v: "vcpu_at i c = Some v" "unat i < length (vcpu_tab c)" "vcpu_tab c ! unat i = Some v"
    by (rule vcpu_at_ok [OF assms])
  obtain y where y: "flag_request True VMM (v_execution_paused v) = Some y" by (simp add: flag_request_def)
  let ?v = "recall True RECONFIG (v\<lparr>v_execution_paused := y\<rparr>)"
  let ?c = "c\<lparr>vcpu_tab := (vcpu_tab c)[unat i := Some ?v]\<rparr>"
  have r: "ctrl_feature_on_vcpu ctrl_feature_off i True VMM 0 c = Some ?c"
    using assms(2) v y by (simp add: ctrl_feature_on_vcpu_def vcpu_mod_def ctrl_feature_off_def)
  have ok: "cpus_ok ?c" using assms(1) set_update_subset_insert [of "vcpu_tab c" "unat i" "Some ?v"] by (fastforce simp: cpus_ok_def)
  have new: "vcpu_at i ?c = Some ?v" and other: "\<And>j. j \<noteq> i \<Longrightarrow> vcpu_at j ?c = vcpu_at j c"
    using v by (simp_all add: vcpu_at_def nth_opt_def word_unat_eq_iff)
  have "flag_is_requested_by VMM y = Some True" using flag_request_requested [OF y, of VMM] by simp
  then have "is_cpu_turned_on_by_guest i ?c = Some False"
    using assms(2) new by (simp add: is_cpu_turned_on_by_guest_def is_turned_on_by_guest_def recall_def not_le)
  then show ?thesis using r ok other by auto
qed

text \<open>
  C31: the on and off state that the firmware reports follows the calls. After a vCPU has called
  \<open>CPU_OFF\<close>, the information on its affinity is \<open>OFF\<close>; when another vCPU then calls
  \<open>CPU_ON\<close> for this affinity with a boot address in guest memory, the call succeeds, and the
  information is \<open>ON\<close>; a second \<open>CPU_ON\<close> is refused as already on. The information on
  other vCPUs does not change.
\<close>

theorem psci_on_off_info:
  assumes "cpus_ok c" "me < ucast (configured_vcpus c)" "cpu_affinity_to_id m (aff_of_mpidr (r_gpr q 1)) = me" "r_gpr q 2 = 0"
    and "r_gpr r 1 = r_gpr q 1" "in_guest_ram (dv_type ops) bus (snd (boot_mode r))"
  shows "\<exists>c1 c2. smc_call_service ops bus m me x (ucast (function_code CPU_OFF)) c s = Some (PSCI_OK, Some 0, c1, s) \<and>
    smc_call_service ops bus m you q (ucast (function_code AFFINITY_INFO_64)) c1 s = Some (PSCI_OK, Some 1, c1, s) \<and>
    smc_call_service ops bus m you r (ucast (function_code CPU_ON_64)) c1 s = Some (PSCI_OK, Some 0, c2, s) \<and>
    smc_call_service ops bus m you q (ucast (function_code AFFINITY_INFO_64)) c2 s = Some (PSCI_OK, Some 0, c2, s) \<and>
    smc_call_service ops bus m you r (ucast (function_code CPU_ON_64)) c2 s = Some (PSCI_OK, Some (result_code PSCI_ALREADY_ON), c2, s) \<and>
    (\<forall>j. j \<noteq> me \<longrightarrow> is_cpu_turned_on_by_guest j c2 = is_cpu_turned_on_by_guest j c)"
proof -
  obtain c1 where c1: "ctrl_feature_on_vcpu ctrl_feature_off me True VMM 0 c = Some c1" "cpus_ok c1" "configured_vcpus c1 = configured_vcpus c"
    "is_cpu_turned_on_by_guest me c1 = Some False" "\<forall>j. j \<noteq> me \<longrightarrow> vcpu_at j c1 = vcpu_at j c"
    using switch_off_effect [OF assms(1,2)] by blast
  obtain md addr where b: "boot_mode r = (md, addr)" by fastforce
  let ?start = "start_cpu (dv_type ops) bus me addr [r_gpr r 3, 0, 0, 0] (r_tmr_cntvoff r) md"
  have n: "unat (configured_vcpus c) < 2 ^ 16" using unsigned_less [of "configured_vcpus c"] by simp
  have le: "\<not> ucast (configured_vcpus c) \<le> me" "\<not> ucast (get_num_vcpus c1) < me" using assms(2) c1(3) by (simp_all add: get_num_vcpus_def)
  have inv: "me \<noteq> INVALID_VCPU_ID" using assms(2) word_order.extremum [of "ucast (configured_vcpus c) :: u64"] by (auto simp: not_less)
  have ram: "in_guest_ram (dv_type ops) bus addr" using assms(6) b by simp
  obtain c2 where c2: "?start c1 = Some (START_SUCCESS, c2)" "cpus_ok c2" "is_cpu_turned_on_by_guest me c2 = Some True"
      "\<forall>j. j \<noteq> me \<longrightarrow> vcpu_at j c2 = vcpu_at j c1" "configured_vcpus c2 = configured_vcpus c1"
    using start_cpu_spec [OF c1(2), of "[r_gpr r 3, 0, 0, 0]" "dv_type ops" bus me addr "r_tmr_cntvoff r" md] c1(3,4) le(1) ram by auto
  have cf: "configured_vcpus c2 = configured_vcpus c" using c2(5) c1(3) by simp
  have again: "?start c2 = Some (ALREADY_ON, c2)" using c2(3) by (simp add: start_cpu_def)
  have "is_cpu_turned_on_by_guest j c2 = is_cpu_turned_on_by_guest j c" if "j \<noteq> me" for j
    using c1(3,5) c2(4) cf that by (simp add: is_cpu_turned_on_by_guest_def)
  moreover have "psci_start_cpu (dv_type ops) bus m r c1 = Some (0, c2)" "psci_start_cpu (dv_type ops) bus m r c2 = Some (- 4, c2)"
    using b assms(3,5) inv c2(1) again by (simp_all add: psci_start_cpu_def)
  moreover have "affinity_info m q c1 = Some 1" "affinity_info m q c2 = Some 0"
    using assms(3,4) le c1(3,4) c2(3) cf by (simp_all add: affinity_info_def get_num_vcpus_def)
  ultimately show ?thesis unfolding smc_cases using c1(1) by simp
qed

text \<open>A machine of two vCPUs, the second one off, in one cluster and one memory.\<close>

definition example_bus :: "nat bus" where
  "example_bus = snd (register_device True (bus_new MMIO False (\<lambda>_. \<lparr>accesses = 0, time_spent = 0\<rparr>)) 7 0x1000 0x1000)"

definition example_ops :: "(nat, unit) dev_ops" where
  "example_ops = \<lparr>dv_type = (\<lambda>_. GUEST_PHYSICAL_STATIC_MEMORY), dv_access = (\<lambda>_ _ _ _ _ v s. (OK, v, s)), dv_reset = (\<lambda>_ s. s),
     dv_shutdown = (\<lambda>_ s. s), dv_deinit = (\<lambda>_ s. s)\<rparr>"

definition example_map :: clusters where
  "example_map = [(cluster_range 0, cluster_new[0 := 0, 1 := 1])]"

definition example_cpus :: cpus where
  "example_cpus = \<lparr>configured_vcpus = 2, vcpu_tab = [Some (vcpu_new 0), Some (vcpu_new 1)], irq_ctlr_cpus = []\<rparr>"

definition call_regs :: "u64 \<Rightarrow> u64 \<Rightarrow> regs" where
  "call_regs a b = \<lparr>r_gpr = (\<lambda>i. if i = 1 then a else if i = 2 then b else 0), r_tmr_cntvoff = 0, r_el2_spsr = 0\<rparr>"

lemma example_cpus_ok: "cpus_ok example_cpus" by (simp add: cpus_ok_def example_cpus_def)

theorem psci_on_off_info_witness:
  "\<exists>c1 c2. smc_call_service example_ops example_bus example_map 1 (call_regs 0 0) (ucast (function_code CPU_OFF)) example_cpus () =
       Some (PSCI_OK, Some 0, c1, ()) \<and>
     smc_call_service example_ops example_bus example_map 0 (call_regs 1 0x1800) (ucast (function_code CPU_ON_64)) c1 () =
       Some (PSCI_OK, Some 0, c2, ()) \<and>
     smc_call_service example_ops example_bus example_map 0 (call_regs 1 0) (ucast (function_code AFFINITY_INFO_64)) c2 () =
       Some (PSCI_OK, Some 0, c2, ())"
proof -
  have a: "cpu_affinity_to_id example_map (aff_of_mpidr (r_gpr (call_regs 1 0) 1)) = 1"
    by (simp add: call_regs_def aff_of_mpidr_def example_map_def get_cluster_at_def cpu_affinity_to_id_def cluster_vcpu_id_def cluster_new_def
        aff0_def cluster_range_def aff_cluster_def range_compare_def range_intersect_def range_less_def range_end_def range_last_def)
  have ram: "in_guest_ram (dv_type example_ops) example_bus (snd (boot_mode (call_regs 1 0x1800)))"
    by (simp add: boot_mode_def call_regs_def spsr_is_aa32_def example_ops_def example_bus_def in_guest_ram_def get_device_at_def bus_lookup_def
        register_device_def bus_new_def range_compare_def range_intersect_def range_less_def range_end_def range_last_def)
  have n: "1 < (ucast (configured_vcpus example_cpus) :: u64)" by (simp add: example_cpus_def)
  have q: "r_gpr (call_regs 1 0) 2 = 0" "r_gpr (call_regs 1 0x1800) 1 = r_gpr (call_regs 1 0) 1" by (simp_all add: call_regs_def)
  from psci_on_off_info [OF example_cpus_ok n a q ram, of "call_regs 0 0" "()" 0] show ?thesis by blast
qed

text \<open>
  C32: no firmware call of a vCPU of the machine aborts, whatever the registers hold, and the machine
  stays well formed. Every call gives the guest a value, but for \<open>SYSTEM_OFF\<close> and
  \<open>SYSTEM_RESET\<close>; an unknown function is answered as not supported and changes nothing; only the
  suspend calls make the vCPU wait, and only \<open>SYSTEM_RESET\<close> touches the devices.
\<close>

theorem psci_call_safe:
  assumes "cpus_ok c" "me < ucast (configured_vcpus c)"
  shows "\<exists>st res c' s'. smc_call_service ops bus m me r fid c s = Some (st, res, c', s') \<and> cpus_ok c' \<and>
    configured_vcpus c' = configured_vcpus c \<and> (res = None \<longleftrightarrow> function_of fid \<in> {Some SYSTEM_OFF, Some SYSTEM_RESET}) \<and>
    (function_of fid = None \<longrightarrow> st = PSCI_OK \<and> res = Some (result_code NOT_SUPPORTED) \<and> c' = c) \<and>
    (st = PSCI_WFI \<longrightarrow> function_of fid \<in> Some ` {CPU_SUSPEND_32, CPU_SUSPEND_64, SYSTEM_SUSPEND_32, SYSTEM_SUSPEND_64}) \<and>
    s' = (if function_of fid = Some SYSTEM_RESET then bus_reset ops bus s else s)"
proof -
  obtain md addr where b: "boot_mode r = (md, addr)" by fastforce
  have start: "\<exists>res c'. psci_start_cpu (dv_type ops) bus m r c = Some (res, c') \<and> cpus_ok c' \<and> configured_vcpus c' = configured_vcpus c"
  proof -
    have l: "MAX_BOOT_ARGS \<le> length [r_gpr r 3, 0, 0, 0]" by simp
    obtain err c' where "start_cpu (dv_type ops) bus (cpu_affinity_to_id m (aff_of_mpidr (r_gpr r 1))) addr [r_gpr r 3, 0, 0, 0] (r_tmr_cntvoff r) md c =
        Some (err, c')" "cpus_ok c'" "configured_vcpus c' = configured_vcpus c"
      using start_cpu_spec [OF assms(1) l, of "dv_type ops" bus "cpu_affinity_to_id m (aff_of_mpidr (r_gpr r 1))" addr "r_tmr_cntvoff r" md] by blast
    then show ?thesis using assms(1) b by (auto simp: psci_start_cpu_def Let_def)
  qed
  obtain on where on: "is_cpu_turned_on_by_guest (cpu_affinity_to_id m (aff_of_mpidr (r_gpr r 1))) c = Some on" by (rule on_known [OF assms(1)])
  then have info: "\<exists>res. affinity_info m r c = Some res" by (simp add: affinity_info_def Let_def)
  obtain st res where sus: "system_suspend me c = Some (st, res)" using suspend_total [OF assms(1), of me] by auto
  obtain c1 where off: "ctrl_feature_on_vcpu ctrl_feature_off me True VMM 0 c = Some c1" "cpus_ok c1" "configured_vcpus c1 = configured_vcpus c"
    using switch_off_effect [OF assms] by blast
  show ?thesis
  proof (cases "function_of fid")
    case None
    then show ?thesis using assms(1) by (simp add: smc_call_service_def)
  next
    case (Some f)
    then show ?thesis using assms(1) start info sus off
      by (cases f) (auto simp: smc_call_service_def can_shutdown_system_def)
  qed
qed

theorem psci_call_safe_witness:
  "\<exists>c' s'. smc_call_service example_ops example_bus example_map 1 (call_regs 0 0) 0x84000123 example_cpus () =
     Some (PSCI_OK, Some (result_code NOT_SUPPORTED), c', s')"
proof -
  have n: "1 < (ucast (configured_vcpus example_cpus) :: u64)" by (simp add: example_cpus_def)
  have f: "function_of 0x84000123 = None" by (simp add: function_of_def all_functions_def)
  from psci_call_safe [OF example_cpus_ok n, of example_ops example_bus example_map "call_regs 0 0" "0x84000123" "()"] f show ?thesis by auto
qed

end
