(* ===== verification/MsrIds.thy ===== *)
theory MsrIds
  imports Prelude
begin

text \<open>
  \<open>devices/msr/include/msr/msr_id.hpp\<close> and the register numbers of
  \<open>devices/msr/include/aarch64/msr/msr.hpp\<close>: a system register is named by the five fields of
  the instruction that accesses it, which are packed into 32 bits.
\<close>

definition build_msr_id :: "u8 \<Rightarrow> u8 \<Rightarrow> u8 \<Rightarrow> u8 \<Rightarrow> u8 \<Rightarrow> u32" where
  "build_msr_id op0 crn op1 crm op2 =
     push_bit 3 (ucast crm AND 0xf) OR push_bit 7 (ucast crn AND 0xf) OR push_bit 10 (ucast op1 AND 0x7) OR
     push_bit 13 (ucast op2 AND 0x7) OR push_bit 16 (ucast op0 AND 0xff)"

abbreviation OP0_AARCH32_ONLY_MSR :: u8 where "OP0_AARCH32_ONLY_MSR \<equiv> 0xff"

subsection \<open>The register numbers\<close>

abbreviation CTR_A32 :: u32 where "CTR_A32 \<equiv> build_msr_id 15 0 0 0 1"
abbreviation CTR_A64 :: u32 where "CTR_A64 \<equiv> build_msr_id 3 0 3 0 1"
abbreviation DCISW_A32 :: u32 where "DCISW_A32 \<equiv> build_msr_id 15 7 0 6 2"
abbreviation DCISW_A64 :: u32 where "DCISW_A64 \<equiv> build_msr_id 1 7 0 6 2"
abbreviation DCCSW_A32 :: u32 where "DCCSW_A32 \<equiv> build_msr_id 15 7 0 10 2"
abbreviation DCCSW_A64 :: u32 where "DCCSW_A64 \<equiv> build_msr_id 1 7 0 10 2"
abbreviation DCCISW_A32 :: u32 where "DCCISW_A32 \<equiv> build_msr_id 15 7 0 14 2"
abbreviation DCCISW_A64 :: u32 where "DCCISW_A64 \<equiv> build_msr_id 1 7 0 14 2"
abbreviation MVFR0 :: u32 where "MVFR0 \<equiv> build_msr_id 3 0 0 3 0"
abbreviation MVFR1 :: u32 where "MVFR1 \<equiv> build_msr_id 3 0 0 3 1"
abbreviation MVFR2 :: u32 where "MVFR2 \<equiv> build_msr_id 3 0 0 3 2"
abbreviation CONTEXTIDR_A32 :: u32 where "CONTEXTIDR_A32 \<equiv> build_msr_id 15 13 0 0 1"
abbreviation CONTEXTIDR_EL1 :: u32 where "CONTEXTIDR_EL1 \<equiv> build_msr_id 3 13 0 0 1"
abbreviation SCTLR_EL1 :: u32 where "SCTLR_EL1 \<equiv> build_msr_id 3 1 0 0 0"
abbreviation TTBR0_EL1 :: u32 where "TTBR0_EL1 \<equiv> build_msr_id 3 2 0 0 0"
abbreviation TTBR0_A32 :: u32 where "TTBR0_A32 \<equiv> build_msr_id 15 0 0 2 0"
abbreviation TTBR1_EL1 :: u32 where "TTBR1_EL1 \<equiv> build_msr_id 3 2 0 0 1"
abbreviation TTBR1_A32 :: u32 where "TTBR1_A32 \<equiv> build_msr_id 15 0 1 2 0"
abbreviation TCR_EL1 :: u32 where "TCR_EL1 \<equiv> build_msr_id 3 2 0 0 2"
abbreviation AFSR0_EL1 :: u32 where "AFSR0_EL1 \<equiv> build_msr_id 3 5 0 1 0"
abbreviation AFSR1_EL1 :: u32 where "AFSR1_EL1 \<equiv> build_msr_id 3 5 0 1 1"
abbreviation ESR_EL1 :: u32 where "ESR_EL1 \<equiv> build_msr_id 3 5 0 2 0"
abbreviation FAR_EL1 :: u32 where "FAR_EL1 \<equiv> build_msr_id 3 6 0 0 0"
abbreviation MAIR_EL1 :: u32 where "MAIR_EL1 \<equiv> build_msr_id 3 10 0 2 0"
abbreviation AMAIR_EL1 :: u32 where "AMAIR_EL1 \<equiv> build_msr_id 3 10 0 3 0"
abbreviation CNTPCT_A32 :: u32 where "CNTPCT_A32 \<equiv> build_msr_id 15 0 0 14 0"
abbreviation CNTP_CVAL_A32 :: u32 where "CNTP_CVAL_A32 \<equiv> build_msr_id 15 0 2 14 0"
abbreviation CNTP_CTL_A32 :: u32 where "CNTP_CTL_A32 \<equiv> build_msr_id 15 14 0 2 1"
abbreviation CNTP_TVAL_A32 :: u32 where "CNTP_TVAL_A32 \<equiv> build_msr_id 15 14 0 2 0"
abbreviation CNTPCT_EL0 :: u32 where "CNTPCT_EL0 \<equiv> build_msr_id 3 14 3 0 1"
abbreviation CNTP_CVAL_EL0 :: u32 where "CNTP_CVAL_EL0 \<equiv> build_msr_id 3 14 3 2 2"
abbreviation CNTP_CTL_EL0 :: u32 where "CNTP_CTL_EL0 \<equiv> build_msr_id 3 14 3 2 1"
abbreviation CNTP_TVAL_EL0 :: u32 where "CNTP_TVAL_EL0 \<equiv> build_msr_id 3 14 3 2 0"
abbreviation ID_AA64MMFR0_EL1 :: u32 where "ID_AA64MMFR0_EL1 \<equiv> build_msr_id 3 0 0 7 0"
abbreviation ID_AA64PFR0_EL1 :: u32 where "ID_AA64PFR0_EL1 \<equiv> build_msr_id 3 0 0 4 0"
abbreviation ID_AA64SMFR0_EL1 :: u32 where "ID_AA64SMFR0_EL1 \<equiv> build_msr_id 3 0 0 4 5"
abbreviation CCSIDR_EL1 :: u32 where "CCSIDR_EL1 \<equiv> build_msr_id 3 0 1 0 0"
abbreviation ID_PFR0_EL1 :: u32 where "ID_PFR0_EL1 \<equiv> build_msr_id 3 0 0 1 0"
abbreviation ID_PFR1_EL1 :: u32 where "ID_PFR1_EL1 \<equiv> build_msr_id 3 0 0 1 1"
abbreviation ID_AA64DFR0_EL1 :: u32 where "ID_AA64DFR0_EL1 \<equiv> build_msr_id 3 0 0 5 0"
abbreviation ID_AA64DFR1_EL1 :: u32 where "ID_AA64DFR1_EL1 \<equiv> build_msr_id 3 0 0 5 1"
abbreviation MDSCR_EL1 :: u32 where "MDSCR_EL1 \<equiv> build_msr_id 2 0 0 2 2"
abbreviation DCIVAC :: u32 where "DCIVAC \<equiv> build_msr_id 1 7 0 6 1"
abbreviation DCCVAC :: u32 where "DCCVAC \<equiv> build_msr_id 1 7 3 10 1"
abbreviation DCCVAU :: u32 where "DCCVAU \<equiv> build_msr_id 1 7 3 11 1"
abbreviation DCCVAP :: u32 where "DCCVAP \<equiv> build_msr_id 1 7 3 12 1"
abbreviation DCCIVAC :: u32 where "DCCIVAC \<equiv> build_msr_id 1 7 3 14 1"
abbreviation DCZVA :: u32 where "DCZVA \<equiv> build_msr_id 1 7 3 4 1"
abbreviation DBGBVR0_EL1 :: u32 where "DBGBVR0_EL1 \<equiv> build_msr_id 2 0 0 0 4"
abbreviation DBGBVR1_EL1 :: u32 where "DBGBVR1_EL1 \<equiv> build_msr_id 2 0 0 1 4"
abbreviation DBGBVR2_EL1 :: u32 where "DBGBVR2_EL1 \<equiv> build_msr_id 2 0 0 2 4"
abbreviation DBGBVR3_EL1 :: u32 where "DBGBVR3_EL1 \<equiv> build_msr_id 2 0 0 3 4"
abbreviation DBGBVR4_EL1 :: u32 where "DBGBVR4_EL1 \<equiv> build_msr_id 2 0 0 4 4"
abbreviation DBGBVR5_EL1 :: u32 where "DBGBVR5_EL1 \<equiv> build_msr_id 2 0 0 5 4"
abbreviation DBGBVR6_EL1 :: u32 where "DBGBVR6_EL1 \<equiv> build_msr_id 2 0 0 6 4"
abbreviation DBGBVR7_EL1 :: u32 where "DBGBVR7_EL1 \<equiv> build_msr_id 2 0 0 7 4"
abbreviation DBGBVR8_EL1 :: u32 where "DBGBVR8_EL1 \<equiv> build_msr_id 2 0 0 8 4"
abbreviation DBGBVR9_EL1 :: u32 where "DBGBVR9_EL1 \<equiv> build_msr_id 2 0 0 9 4"
abbreviation DBGBVR10_EL1 :: u32 where "DBGBVR10_EL1 \<equiv> build_msr_id 2 0 0 10 4"
abbreviation DBGBVR11_EL1 :: u32 where "DBGBVR11_EL1 \<equiv> build_msr_id 2 0 0 11 4"
abbreviation DBGBVR12_EL1 :: u32 where "DBGBVR12_EL1 \<equiv> build_msr_id 2 0 0 12 4"
abbreviation DBGBVR13_EL1 :: u32 where "DBGBVR13_EL1 \<equiv> build_msr_id 2 0 0 13 4"
abbreviation DBGBVR14_EL1 :: u32 where "DBGBVR14_EL1 \<equiv> build_msr_id 2 0 0 14 4"
abbreviation DBGBVR15_EL1 :: u32 where "DBGBVR15_EL1 \<equiv> build_msr_id 2 0 0 15 4"
abbreviation DBGBCR0_EL1 :: u32 where "DBGBCR0_EL1 \<equiv> build_msr_id 2 0 0 0 5"
abbreviation DBGBCR1_EL1 :: u32 where "DBGBCR1_EL1 \<equiv> build_msr_id 2 0 0 1 5"
abbreviation DBGBCR2_EL1 :: u32 where "DBGBCR2_EL1 \<equiv> build_msr_id 2 0 0 2 5"
abbreviation DBGBCR3_EL1 :: u32 where "DBGBCR3_EL1 \<equiv> build_msr_id 2 0 0 3 5"
abbreviation DBGBCR4_EL1 :: u32 where "DBGBCR4_EL1 \<equiv> build_msr_id 2 0 0 4 5"
abbreviation DBGBCR5_EL1 :: u32 where "DBGBCR5_EL1 \<equiv> build_msr_id 2 0 0 5 5"
abbreviation DBGBCR6_EL1 :: u32 where "DBGBCR6_EL1 \<equiv> build_msr_id 2 0 0 6 5"
abbreviation DBGBCR7_EL1 :: u32 where "DBGBCR7_EL1 \<equiv> build_msr_id 2 0 0 7 5"
abbreviation DBGBCR8_EL1 :: u32 where "DBGBCR8_EL1 \<equiv> build_msr_id 2 0 0 8 5"
abbreviation DBGBCR9_EL1 :: u32 where "DBGBCR9_EL1 \<equiv> build_msr_id 2 0 0 9 5"
abbreviation DBGBCR10_EL1 :: u32 where "DBGBCR10_EL1 \<equiv> build_msr_id 2 0 0 10 5"
abbreviation DBGBCR11_EL1 :: u32 where "DBGBCR11_EL1 \<equiv> build_msr_id 2 0 0 11 5"
abbreviation DBGBCR12_EL1 :: u32 where "DBGBCR12_EL1 \<equiv> build_msr_id 2 0 0 12 5"
abbreviation DBGBCR13_EL1 :: u32 where "DBGBCR13_EL1 \<equiv> build_msr_id 2 0 0 13 5"
abbreviation DBGBCR14_EL1 :: u32 where "DBGBCR14_EL1 \<equiv> build_msr_id 2 0 0 14 5"
abbreviation DBGBCR15_EL1 :: u32 where "DBGBCR15_EL1 \<equiv> build_msr_id 2 0 0 15 5"
abbreviation DBGWVR0_EL1 :: u32 where "DBGWVR0_EL1 \<equiv> build_msr_id 2 0 0 0 6"
abbreviation DBGWVR1_EL1 :: u32 where "DBGWVR1_EL1 \<equiv> build_msr_id 2 0 0 1 6"
abbreviation DBGWVR2_EL1 :: u32 where "DBGWVR2_EL1 \<equiv> build_msr_id 2 0 0 2 6"
abbreviation DBGWVR3_EL1 :: u32 where "DBGWVR3_EL1 \<equiv> build_msr_id 2 0 0 3 6"
abbreviation DBGWVR4_EL1 :: u32 where "DBGWVR4_EL1 \<equiv> build_msr_id 2 0 0 4 6"
abbreviation DBGWVR5_EL1 :: u32 where "DBGWVR5_EL1 \<equiv> build_msr_id 2 0 0 5 6"
abbreviation DBGWVR6_EL1 :: u32 where "DBGWVR6_EL1 \<equiv> build_msr_id 2 0 0 6 6"
abbreviation DBGWVR7_EL1 :: u32 where "DBGWVR7_EL1 \<equiv> build_msr_id 2 0 0 7 6"
abbreviation DBGWVR8_EL1 :: u32 where "DBGWVR8_EL1 \<equiv> build_msr_id 2 0 0 8 6"
abbreviation DBGWVR9_EL1 :: u32 where "DBGWVR9_EL1 \<equiv> build_msr_id 2 0 0 9 6"
abbreviation DBGWVR10_EL1 :: u32 where "DBGWVR10_EL1 \<equiv> build_msr_id 2 0 0 10 6"
abbreviation DBGWVR11_EL1 :: u32 where "DBGWVR11_EL1 \<equiv> build_msr_id 2 0 0 11 6"
abbreviation DBGWVR12_EL1 :: u32 where "DBGWVR12_EL1 \<equiv> build_msr_id 2 0 0 12 6"
abbreviation DBGWVR13_EL1 :: u32 where "DBGWVR13_EL1 \<equiv> build_msr_id 2 0 0 13 6"
abbreviation DBGWVR14_EL1 :: u32 where "DBGWVR14_EL1 \<equiv> build_msr_id 2 0 0 14 6"
abbreviation DBGWVR15_EL1 :: u32 where "DBGWVR15_EL1 \<equiv> build_msr_id 2 0 0 15 6"
abbreviation DBGWCR0_EL1 :: u32 where "DBGWCR0_EL1 \<equiv> build_msr_id 2 0 0 0 7"
abbreviation DBGWCR1_EL1 :: u32 where "DBGWCR1_EL1 \<equiv> build_msr_id 2 0 0 1 7"
abbreviation DBGWCR2_EL1 :: u32 where "DBGWCR2_EL1 \<equiv> build_msr_id 2 0 0 2 7"
abbreviation DBGWCR3_EL1 :: u32 where "DBGWCR3_EL1 \<equiv> build_msr_id 2 0 0 3 7"
abbreviation DBGWCR4_EL1 :: u32 where "DBGWCR4_EL1 \<equiv> build_msr_id 2 0 0 4 7"
abbreviation DBGWCR5_EL1 :: u32 where "DBGWCR5_EL1 \<equiv> build_msr_id 2 0 0 5 7"
abbreviation DBGWCR6_EL1 :: u32 where "DBGWCR6_EL1 \<equiv> build_msr_id 2 0 0 6 7"
abbreviation DBGWCR7_EL1 :: u32 where "DBGWCR7_EL1 \<equiv> build_msr_id 2 0 0 7 7"
abbreviation DBGWCR8_EL1 :: u32 where "DBGWCR8_EL1 \<equiv> build_msr_id 2 0 0 8 7"
abbreviation DBGWCR9_EL1 :: u32 where "DBGWCR9_EL1 \<equiv> build_msr_id 2 0 0 9 7"
abbreviation DBGWCR10_EL1 :: u32 where "DBGWCR10_EL1 \<equiv> build_msr_id 2 0 0 10 7"
abbreviation DBGWCR11_EL1 :: u32 where "DBGWCR11_EL1 \<equiv> build_msr_id 2 0 0 11 7"
abbreviation DBGWCR12_EL1 :: u32 where "DBGWCR12_EL1 \<equiv> build_msr_id 2 0 0 12 7"
abbreviation DBGWCR13_EL1 :: u32 where "DBGWCR13_EL1 \<equiv> build_msr_id 2 0 0 13 7"
abbreviation DBGWCR14_EL1 :: u32 where "DBGWCR14_EL1 \<equiv> build_msr_id 2 0 0 14 7"
abbreviation DBGWCR15_EL1 :: u32 where "DBGWCR15_EL1 \<equiv> build_msr_id 2 0 0 15 7"
abbreviation MDRAR_EL1 :: u32 where "MDRAR_EL1 \<equiv> build_msr_id 2 1 0 0 0"
abbreviation ID_DFR0_EL1 :: u32 where "ID_DFR0_EL1 \<equiv> build_msr_id 3 0 0 1 2"
abbreviation ID_DFR1_EL1 :: u32 where "ID_DFR1_EL1 \<equiv> build_msr_id 3 0 0 3 5"
abbreviation DBGDIDR :: u32 where "DBGDIDR \<equiv> build_msr_id 2 0 0 0 0"
abbreviation ACTLR_EL1 :: u32 where "ACTLR_EL1 \<equiv> build_msr_id 3 1 0 0 1"
abbreviation DBGAUTHSTATUS_EL1 :: u32 where "DBGAUTHSTATUS_EL1 \<equiv> build_msr_id 2 7 0 14 6"
abbreviation ID_AA64PFR1_EL1 :: u32 where "ID_AA64PFR1_EL1 \<equiv> build_msr_id 3 0 0 4 1"
abbreviation ID_AA64PFR2_EL1 :: u32 where "ID_AA64PFR2_EL1 \<equiv> build_msr_id 3 0 0 4 2"
abbreviation ID_AA64ZFR0_EL1 :: u32 where "ID_AA64ZFR0_EL1 \<equiv> build_msr_id 3 0 0 4 4"
abbreviation ID_AA64FPFR0_EL1 :: u32 where "ID_AA64FPFR0_EL1 \<equiv> build_msr_id 3 0 0 4 7"
abbreviation ID_AA64ISAR0_EL1 :: u32 where "ID_AA64ISAR0_EL1 \<equiv> build_msr_id 3 0 0 6 0"
abbreviation ID_AA64ISAR1_EL1 :: u32 where "ID_AA64ISAR1_EL1 \<equiv> build_msr_id 3 0 0 6 1"
abbreviation ID_AA64ISAR2_EL1 :: u32 where "ID_AA64ISAR2_EL1 \<equiv> build_msr_id 3 0 0 6 2"
abbreviation ID_AA64ISAR3_EL1 :: u32 where "ID_AA64ISAR3_EL1 \<equiv> build_msr_id 3 0 0 6 3"
abbreviation ID_AA64AFR0_EL1 :: u32 where "ID_AA64AFR0_EL1 \<equiv> build_msr_id 3 0 0 5 4"
abbreviation ID_AA64AFR1_EL1 :: u32 where "ID_AA64AFR1_EL1 \<equiv> build_msr_id 3 0 0 5 5"
abbreviation ID_PFR2_EL1 :: u32 where "ID_PFR2_EL1 \<equiv> build_msr_id 3 0 0 3 4"
abbreviation ID_ISAR0_EL1 :: u32 where "ID_ISAR0_EL1 \<equiv> build_msr_id 3 0 0 2 0"
abbreviation ID_ISAR1_EL1 :: u32 where "ID_ISAR1_EL1 \<equiv> build_msr_id 3 0 0 2 1"
abbreviation ID_ISAR2_EL1 :: u32 where "ID_ISAR2_EL1 \<equiv> build_msr_id 3 0 0 2 2"
abbreviation ID_ISAR3_EL1 :: u32 where "ID_ISAR3_EL1 \<equiv> build_msr_id 3 0 0 2 3"
abbreviation ID_ISAR4_EL1 :: u32 where "ID_ISAR4_EL1 \<equiv> build_msr_id 3 0 0 2 4"
abbreviation ID_ISAR5_EL1 :: u32 where "ID_ISAR5_EL1 \<equiv> build_msr_id 3 0 0 2 5"
abbreviation ID_ISAR6_EL1 :: u32 where "ID_ISAR6_EL1 \<equiv> build_msr_id 3 0 0 2 7"
abbreviation ID_AA64MMFR1_EL1 :: u32 where "ID_AA64MMFR1_EL1 \<equiv> build_msr_id 3 0 0 7 1"
abbreviation ID_AA64MMFR2_EL1 :: u32 where "ID_AA64MMFR2_EL1 \<equiv> build_msr_id 3 0 0 7 2"
abbreviation ID_AA64MMFR3_EL1 :: u32 where "ID_AA64MMFR3_EL1 \<equiv> build_msr_id 3 0 0 7 3"
abbreviation ID_AA64MMFR4_EL1 :: u32 where "ID_AA64MMFR4_EL1 \<equiv> build_msr_id 3 0 0 7 4"
abbreviation ID_MMFR0_EL1 :: u32 where "ID_MMFR0_EL1 \<equiv> build_msr_id 3 0 0 1 4"
abbreviation ID_MMFR1_EL1 :: u32 where "ID_MMFR1_EL1 \<equiv> build_msr_id 3 0 0 1 5"
abbreviation ID_MMFR2_EL1 :: u32 where "ID_MMFR2_EL1 \<equiv> build_msr_id 3 0 0 1 6"
abbreviation ID_MMFR3_EL1 :: u32 where "ID_MMFR3_EL1 \<equiv> build_msr_id 3 0 0 1 7"
abbreviation ID_MMFR4_EL1 :: u32 where "ID_MMFR4_EL1 \<equiv> build_msr_id 3 0 0 2 6"
abbreviation ID_MMFR5_EL1 :: u32 where "ID_MMFR5_EL1 \<equiv> build_msr_id 3 0 0 3 6"
abbreviation CLIDR_EL1 :: u32 where "CLIDR_EL1 \<equiv> build_msr_id 3 0 1 0 1"
abbreviation CSSELR_EL1 :: u32 where "CSSELR_EL1 \<equiv> build_msr_id 3 0 2 0 0"
abbreviation AIDR_EL1 :: u32 where "AIDR_EL1 \<equiv> build_msr_id 3 0 1 0 7"
abbreviation REVIDR_EL1 :: u32 where "REVIDR_EL1 \<equiv> build_msr_id 3 0 0 0 6"
abbreviation OSDLR_EL1 :: u32 where "OSDLR_EL1 \<equiv> build_msr_id 2 1 0 3 4"
abbreviation OSLAR_EL1 :: u32 where "OSLAR_EL1 \<equiv> build_msr_id 2 1 0 0 4"
abbreviation OSLSR_EL1 :: u32 where "OSLSR_EL1 \<equiv> build_msr_id 2 1 0 1 4"
abbreviation ID_AFR0_EL1 :: u32 where "ID_AFR0_EL1 \<equiv> build_msr_id 3 0 0 1 3"
abbreviation ICC_PMR_EL1 :: u32 where "ICC_PMR_EL1 \<equiv> build_msr_id 3 4 0 6 0"
abbreviation ICC_AP1R0_EL1 :: u32 where "ICC_AP1R0_EL1 \<equiv> build_msr_id 3 12 0 9 0"
abbreviation ICC_AP1R1_EL1 :: u32 where "ICC_AP1R1_EL1 \<equiv> build_msr_id 3 12 0 9 1"
abbreviation ICC_AP1R2_EL1 :: u32 where "ICC_AP1R2_EL1 \<equiv> build_msr_id 3 12 0 9 2"
abbreviation ICC_AP1R3_EL1 :: u32 where "ICC_AP1R3_EL1 \<equiv> build_msr_id 3 12 0 9 3"
abbreviation ICC_DIR_EL1 :: u32 where "ICC_DIR_EL1 \<equiv> build_msr_id 3 12 0 11 1"
abbreviation ICC_RPR_EL1 :: u32 where "ICC_RPR_EL1 \<equiv> build_msr_id 3 12 0 11 3"
abbreviation ICC_SGI1R_EL1 :: u32 where "ICC_SGI1R_EL1 \<equiv> build_msr_id 3 12 0 11 5"
abbreviation ICC_IAR1_EL1 :: u32 where "ICC_IAR1_EL1 \<equiv> build_msr_id 3 12 0 12 0"
abbreviation ICC_EOIR1_EL1 :: u32 where "ICC_EOIR1_EL1 \<equiv> build_msr_id 3 12 0 12 1"
abbreviation ICC_HPPIR1_EL1 :: u32 where "ICC_HPPIR1_EL1 \<equiv> build_msr_id 3 12 0 12 2"
abbreviation ICC_BPR1_EL1 :: u32 where "ICC_BPR1_EL1 \<equiv> build_msr_id 3 12 0 12 3"
abbreviation ICC_CTLR_EL1 :: u32 where "ICC_CTLR_EL1 \<equiv> build_msr_id 3 12 0 12 4"
abbreviation ICC_SRE_EL1 :: u32 where "ICC_SRE_EL1 \<equiv> build_msr_id 3 12 0 12 5"
abbreviation ICC_IGRPEN1_EL1 :: u32 where "ICC_IGRPEN1_EL1 \<equiv> build_msr_id 3 12 0 12 7"
abbreviation ICC_SRE_EL2 :: u32 where "ICC_SRE_EL2 \<equiv> build_msr_id 3 12 4 9 5"
abbreviation CNTHP_TVAL_EL2 :: u32 where "CNTHP_TVAL_EL2 \<equiv> build_msr_id 3 14 4 2 0"
abbreviation CNTHP_CTL_EL2 :: u32 where "CNTHP_CTL_EL2 \<equiv> build_msr_id 3 14 4 2 1"
abbreviation CNTHP_CVAL_EL2 :: u32 where "CNTHP_CVAL_EL2 \<equiv> build_msr_id 3 14 4 2 2"
abbreviation VMPIDR_EL2 :: u32 where "VMPIDR_EL2 \<equiv> build_msr_id 3 0 4 0 5"
abbreviation ESR_EL2 :: u32 where "ESR_EL2 \<equiv> build_msr_id 3 5 4 2 0"
abbreviation ELR_EL2 :: u32 where "ELR_EL2 \<equiv> build_msr_id 3 4 4 0 1"
abbreviation ELR_EL1 :: u32 where "ELR_EL1 \<equiv> build_msr_id 3 4 0 0 1"
abbreviation FAR_EL2 :: u32 where "FAR_EL2 \<equiv> build_msr_id 3 6 4 0 0"
abbreviation SPSR_EL2 :: u32 where "SPSR_EL2 \<equiv> build_msr_id 3 4 4 0 0"
abbreviation HCR_EL2 :: u32 where "HCR_EL2 \<equiv> build_msr_id 3 1 4 1 0"
abbreviation SCTLR_EL2 :: u32 where "SCTLR_EL2 \<equiv> build_msr_id 3 1 4 0 0"
abbreviation DAIF :: u32 where "DAIF \<equiv> build_msr_id 3 4 3 2 1"
abbreviation SP_EL0 :: u32 where "SP_EL0 \<equiv> build_msr_id 3 4 0 1 0"
abbreviation ERRIDR_EL1 :: u32 where "ERRIDR_EL1 \<equiv> build_msr_id 3 5 0 3 0"
abbreviation ERRSELR_EL1 :: u32 where "ERRSELR_EL1 \<equiv> build_msr_id 3 5 0 3 1"
abbreviation ERXADDR_EL1 :: u32 where "ERXADDR_EL1 \<equiv> build_msr_id 3 5 0 4 3"
abbreviation ERXCTLR_EL1 :: u32 where "ERXCTLR_EL1 \<equiv> build_msr_id 3 5 0 4 1"
abbreviation ERXFR_EL1 :: u32 where "ERXFR_EL1 \<equiv> build_msr_id 3 5 0 4 0"
abbreviation ERXMISC0_EL1 :: u32 where "ERXMISC0_EL1 \<equiv> build_msr_id 3 5 0 5 0"
abbreviation ERXMISC1_EL1 :: u32 where "ERXMISC1_EL1 \<equiv> build_msr_id 3 5 0 5 1"
abbreviation ERXSTATUS_EL1 :: u32 where "ERXSTATUS_EL1 \<equiv> build_msr_id 3 5 0 4 2"
abbreviation PMSCR_EL1 :: u32 where "PMSCR_EL1 \<equiv> build_msr_id 3 9 0 9 0"
abbreviation PMSEVFR_EL1 :: u32 where "PMSEVFR_EL1 \<equiv> build_msr_id 3 9 0 9 5"
abbreviation PMSFCR_EL1 :: u32 where "PMSFCR_EL1 \<equiv> build_msr_id 3 9 0 9 4"
abbreviation PMSICR_EL1 :: u32 where "PMSICR_EL1 \<equiv> build_msr_id 3 9 0 4 2"
abbreviation PMSIDR_EL1 :: u32 where "PMSIDR_EL1 \<equiv> build_msr_id 3 9 0 4 7"
abbreviation PMSIRR_EL1 :: u32 where "PMSIRR_EL1 \<equiv> build_msr_id 3 9 0 5 3"
abbreviation PMSLATFR_EL1 :: u32 where "PMSLATFR_EL1 \<equiv> build_msr_id 3 5 0 5 6"
abbreviation PMCR_EL0 :: u32 where "PMCR_EL0 \<equiv> build_msr_id 3 9 3 12 0"
abbreviation PMCNTENSET_EL0 :: u32 where "PMCNTENSET_EL0 \<equiv> build_msr_id 3 9 3 12 1"
abbreviation PMCNTENCLR_EL0 :: u32 where "PMCNTENCLR_EL0 \<equiv> build_msr_id 3 9 3 12 2"
abbreviation PMOVSCLR_EL0 :: u32 where "PMOVSCLR_EL0 \<equiv> build_msr_id 3 9 3 12 3"
abbreviation PMSWINC_EL0 :: u32 where "PMSWINC_EL0 \<equiv> build_msr_id 3 9 3 12 4"
abbreviation PMSELR_EL0 :: u32 where "PMSELR_EL0 \<equiv> build_msr_id 3 9 3 12 5"
abbreviation PMCEID0_EL0 :: u32 where "PMCEID0_EL0 \<equiv> build_msr_id 3 9 3 12 6"
abbreviation PMCEID1_EL0 :: u32 where "PMCEID1_EL0 \<equiv> build_msr_id 3 9 3 12 7"
abbreviation PMCCNTR_EL0 :: u32 where "PMCCNTR_EL0 \<equiv> build_msr_id 3 9 3 13 0"
abbreviation PMXEVTYPER_EL0 :: u32 where "PMXEVTYPER_EL0 \<equiv> build_msr_id 3 9 3 13 1"
abbreviation PMXEVCNTR_EL0 :: u32 where "PMXEVCNTR_EL0 \<equiv> build_msr_id 3 9 3 13 2"
abbreviation PMUSERENR_EL0 :: u32 where "PMUSERENR_EL0 \<equiv> build_msr_id 3 9 3 14 0"
abbreviation PMOVSSET_EL0 :: u32 where "PMOVSSET_EL0 \<equiv> build_msr_id 3 9 3 14 3"
abbreviation PMCCFILTR_EL0 :: u32 where "PMCCFILTR_EL0 \<equiv> build_msr_id 3 14 3 15 7"
abbreviation PMINTENSET_EL1 :: u32 where "PMINTENSET_EL1 \<equiv> build_msr_id 3 9 0 14 1"
abbreviation PMINTENCLR_EL1 :: u32 where "PMINTENCLR_EL1 \<equiv> build_msr_id 3 9 0 14 2"
abbreviation FPSID :: u32 where "FPSID \<equiv> build_msr_id OP0_AARCH32_ONLY_MSR 0 0 3 0"
abbreviation DACR_A32 :: u32 where "DACR_A32 \<equiv> build_msr_id 15 3 0 0 0"
abbreviation DACR :: u32 where "DACR \<equiv> build_msr_id OP0_AARCH32_ONLY_MSR 3 0 0 0"
abbreviation MAIR1_A32 :: u32 where "MAIR1_A32 \<equiv> build_msr_id 3 10 0 2 1"
abbreviation IFSR_A32 :: u32 where "IFSR_A32 \<equiv> build_msr_id 15 5 0 0 1"
abbreviation IFSR :: u32 where "IFSR \<equiv> build_msr_id OP0_AARCH32_ONLY_MSR 5 0 0 1"
abbreviation JIDR_A32 :: u32 where "JIDR_A32 \<equiv> build_msr_id 14 0 7 0 0"
abbreviation JIDR :: u32 where "JIDR \<equiv> build_msr_id OP0_AARCH32_ONLY_MSR 0 7 0 0"
abbreviation FCSEIDR_A32 :: u32 where "FCSEIDR_A32 \<equiv> build_msr_id 15 13 0 0 0"
abbreviation FCSEIDR :: u32 where "FCSEIDR \<equiv> build_msr_id OP0_AARCH32_ONLY_MSR 13 0 0 0"
abbreviation TCMTR_A32 :: u32 where "TCMTR_A32 \<equiv> build_msr_id 15 0 0 0 2"
abbreviation TCMTR :: u32 where "TCMTR \<equiv> build_msr_id OP0_AARCH32_ONLY_MSR 0 0 0 2"
abbreviation TLBTR_A32 :: u32 where "TLBTR_A32 \<equiv> build_msr_id 15 0 0 0 3"
abbreviation TLBTR :: u32 where "TLBTR \<equiv> build_msr_id OP0_AARCH32_ONLY_MSR 0 0 0 3"
abbreviation INVALID_ID :: u32 where "INVALID_ID \<equiv> build_msr_id 255 255 255 255 255"

text \<open>The numbers of the debug and of the event counter registers.\<close>

definition DBGBVR_EL1 :: "u32 list" where
  "DBGBVR_EL1 = [DBGBVR0_EL1, DBGBVR1_EL1, DBGBVR2_EL1, DBGBVR3_EL1, DBGBVR4_EL1, DBGBVR5_EL1, DBGBVR6_EL1, DBGBVR7_EL1, DBGBVR8_EL1, DBGBVR9_EL1, DBGBVR10_EL1, DBGBVR11_EL1, DBGBVR12_EL1, DBGBVR13_EL1, DBGBVR14_EL1, DBGBVR15_EL1]"

definition DBGBCR_EL1 :: "u32 list" where
  "DBGBCR_EL1 = [DBGBCR0_EL1, DBGBCR1_EL1, DBGBCR2_EL1, DBGBCR3_EL1, DBGBCR4_EL1, DBGBCR5_EL1, DBGBCR6_EL1, DBGBCR7_EL1, DBGBCR8_EL1, DBGBCR9_EL1, DBGBCR10_EL1, DBGBCR11_EL1, DBGBCR12_EL1, DBGBCR13_EL1, DBGBCR14_EL1, DBGBCR15_EL1]"

definition DBGWVR_EL1 :: "u32 list" where
  "DBGWVR_EL1 = [DBGWVR0_EL1, DBGWVR1_EL1, DBGWVR2_EL1, DBGWVR3_EL1, DBGWVR4_EL1, DBGWVR5_EL1, DBGWVR6_EL1, DBGWVR7_EL1, DBGWVR8_EL1, DBGWVR9_EL1, DBGWVR10_EL1, DBGWVR11_EL1, DBGWVR12_EL1, DBGWVR13_EL1, DBGWVR14_EL1, DBGWVR15_EL1]"

definition DBGWCR_EL1 :: "u32 list" where
  "DBGWCR_EL1 = [DBGWCR0_EL1, DBGWCR1_EL1, DBGWCR2_EL1, DBGWCR3_EL1, DBGWCR4_EL1, DBGWCR5_EL1, DBGWCR6_EL1, DBGWCR7_EL1, DBGWCR8_EL1, DBGWCR9_EL1, DBGWCR10_EL1, DBGWCR11_EL1, DBGWCR12_EL1, DBGWCR13_EL1, DBGWCR14_EL1, DBGWCR15_EL1]"

abbreviation NUM_PMEVCNTR_REGS :: nat where "NUM_PMEVCNTR_REGS \<equiv> 31"
abbreviation NUM_PMEVTYPER_REGS :: nat where "NUM_PMEVTYPER_REGS \<equiv> 31"

definition pmevcntrn_el0 :: "u8 \<Rightarrow> u32" where
  "pmevcntrn_el0 i = build_msr_id 3 14 3 (push_bit 2 2 OR (drop_bit 3 i AND 3)) (i AND 7)"

definition pmevtypern_el0 :: "u8 \<Rightarrow> u32" where
  "pmevtypern_el0 i = build_msr_id 3 14 3 (push_bit 2 3 OR (drop_bit 3 i AND 3)) (i AND 7)"

text \<open>
  The packing is not injective: the register fields \<open>crn\<close> and \<open>op1\<close> share a bit.
\<close>

lemma msr_id_collision: "build_msr_id 3 9 2 12 0 = PMCR_EL0" "build_msr_id 3 1 3 12 0 = PMCR_EL0"
  by (simp_all add: build_msr_id_def)

end
