(* ===== verification/X86Ids.thy ===== *)
theory X86Ids
  imports Prelude
begin

text \<open>The numbers of the system registers of an x86 machine (\<open>devices/msr/include/x86/msr/msr.hpp\<close>).\<close>

abbreviation IA32_TIME_STAMP_COUNTER :: u32 where "IA32_TIME_STAMP_COUNTER \<equiv> 0x10"
abbreviation IA32_PLATFORM_ID :: u32 where "IA32_PLATFORM_ID \<equiv> 0x17"
abbreviation IA32_APICBASE :: u32 where "IA32_APICBASE \<equiv> 0x1b"
abbreviation MSR_SMI_COUNT :: u32 where "MSR_SMI_COUNT \<equiv> 0x34"
abbreviation IA32_FEATURE_CONTROL :: u32 where "IA32_FEATURE_CONTROL \<equiv> 0x3a"
abbreviation IA32_TSC_ADJUST :: u32 where "IA32_TSC_ADJUST \<equiv> 0x3b"
abbreviation IA32_SPEC_CTRL :: u32 where "IA32_SPEC_CTRL \<equiv> 0x48"
abbreviation IA32_PRED_CMD :: u32 where "IA32_PRED_CMD \<equiv> 0x49"
abbreviation IA32_BIOS_SIGN_ID :: u32 where "IA32_BIOS_SIGN_ID \<equiv> 0x8b"
abbreviation IA32_SGXLEPUBKEYHASH0 :: u32 where "IA32_SGXLEPUBKEYHASH0 \<equiv> 0x8c"
abbreviation IA32_SGXLEPUBKEYHASH1 :: u32 where "IA32_SGXLEPUBKEYHASH1 \<equiv> 0x8d"
abbreviation IA32_SGXLEPUBKEYHASH2 :: u32 where "IA32_SGXLEPUBKEYHASH2 \<equiv> 0x8e"
abbreviation IA32_SGXLEPUBKEYHASH3 :: u32 where "IA32_SGXLEPUBKEYHASH3 \<equiv> 0x8f"
abbreviation IA32_FEATURE_INFO :: u32 where "IA32_FEATURE_INFO \<equiv> 0xce"
abbreviation IA32_CORE_CAPABILITIES :: u32 where "IA32_CORE_CAPABILITIES \<equiv> 0xcf"
abbreviation IA32_MTRRCAPP :: u32 where "IA32_MTRRCAPP \<equiv> 0xfe"
abbreviation IA32_ARCH_CAPABILITIES :: u32 where "IA32_ARCH_CAPABILITIES \<equiv> 0x10a"
abbreviation MISC_FEATURE_ENABLES :: u32 where "MISC_FEATURE_ENABLES \<equiv> 0x140"
abbreviation IA32_SYSENTER_CS :: u32 where "IA32_SYSENTER_CS \<equiv> 0x174"
abbreviation IA32_SYSENTER_ESP :: u32 where "IA32_SYSENTER_ESP \<equiv> 0x175"
abbreviation IA32_SYSENTER_EIP :: u32 where "IA32_SYSENTER_EIP \<equiv> 0x176"
abbreviation IA32_MCG_CAP :: u32 where "IA32_MCG_CAP \<equiv> 0x179"
abbreviation IA32_MCG_STATUS :: u32 where "IA32_MCG_STATUS \<equiv> 0x17a"
abbreviation IA32_MISC_ENABLE :: u32 where "IA32_MISC_ENABLE \<equiv> 0x1a0"
abbreviation IA32_MTRR_PHYSBASE0 :: u32 where "IA32_MTRR_PHYSBASE0 \<equiv> 0x200"
abbreviation IA32_MTRR_PHYSMASK0 :: u32 where "IA32_MTRR_PHYSMASK0 \<equiv> 0x201"
abbreviation IA32_MTRR_PHYSBASE1 :: u32 where "IA32_MTRR_PHYSBASE1 \<equiv> 0x202"
abbreviation IA32_MTRR_PHYSMASK1 :: u32 where "IA32_MTRR_PHYSMASK1 \<equiv> 0x203"
abbreviation IA32_MTRR_PHYSBASE2 :: u32 where "IA32_MTRR_PHYSBASE2 \<equiv> 0x204"
abbreviation IA32_MTRR_PHYSMASK2 :: u32 where "IA32_MTRR_PHYSMASK2 \<equiv> 0x205"
abbreviation IA32_MTRR_PHYSBASE3 :: u32 where "IA32_MTRR_PHYSBASE3 \<equiv> 0x206"
abbreviation IA32_MTRR_PHYSMASK3 :: u32 where "IA32_MTRR_PHYSMASK3 \<equiv> 0x207"
abbreviation IA32_MTRR_PHYSBASE4 :: u32 where "IA32_MTRR_PHYSBASE4 \<equiv> 0x208"
abbreviation IA32_MTRR_PHYSMASK4 :: u32 where "IA32_MTRR_PHYSMASK4 \<equiv> 0x209"
abbreviation IA32_MTRR_PHYSBASE5 :: u32 where "IA32_MTRR_PHYSBASE5 \<equiv> 0x20a"
abbreviation IA32_MTRR_PHYSMASK5 :: u32 where "IA32_MTRR_PHYSMASK5 \<equiv> 0x20b"
abbreviation IA32_MTRR_PHYSBASE6 :: u32 where "IA32_MTRR_PHYSBASE6 \<equiv> 0x20c"
abbreviation IA32_MTRR_PHYSMASK6 :: u32 where "IA32_MTRR_PHYSMASK6 \<equiv> 0x20d"
abbreviation IA32_MTRR_PHYSBASE7 :: u32 where "IA32_MTRR_PHYSBASE7 \<equiv> 0x20e"
abbreviation IA32_MTRR_PHYSMASK7 :: u32 where "IA32_MTRR_PHYSMASK7 \<equiv> 0x20f"
abbreviation IA32_MTRR_FIX64K_00000 :: u32 where "IA32_MTRR_FIX64K_00000 \<equiv> 0x250"
abbreviation IA32_MTRR_FIX16K_80000 :: u32 where "IA32_MTRR_FIX16K_80000 \<equiv> 0x258"
abbreviation IA32_MTRR_FIX16K_A0000 :: u32 where "IA32_MTRR_FIX16K_A0000 \<equiv> 0x259"
abbreviation IA32_MTRR_FIX4K_C0000 :: u32 where "IA32_MTRR_FIX4K_C0000 \<equiv> 0x268"
abbreviation IA32_MTRR_FIX4K_C8000 :: u32 where "IA32_MTRR_FIX4K_C8000 \<equiv> 0x269"
abbreviation IA32_MTRR_FIX4K_D0000 :: u32 where "IA32_MTRR_FIX4K_D0000 \<equiv> 0x26a"
abbreviation IA32_MTRR_FIX4K_D8000 :: u32 where "IA32_MTRR_FIX4K_D8000 \<equiv> 0x26b"
abbreviation IA32_MTRR_FIX4K_E0000 :: u32 where "IA32_MTRR_FIX4K_E0000 \<equiv> 0x26c"
abbreviation IA32_MTRR_FIX4K_E8000 :: u32 where "IA32_MTRR_FIX4K_E8000 \<equiv> 0x26d"
abbreviation IA32_MTRR_FIX4K_F0000 :: u32 where "IA32_MTRR_FIX4K_F0000 \<equiv> 0x26e"
abbreviation IA32_MTRR_FIX4K_F8000 :: u32 where "IA32_MTRR_FIX4K_F8000 \<equiv> 0x26f"
abbreviation IA32_PAT :: u32 where "IA32_PAT \<equiv> 0x277"
abbreviation IA32_MTRR_DEF_TYPE :: u32 where "IA32_MTRR_DEF_TYPE \<equiv> 0x2ff"
abbreviation UNCORE_CBO_CONFIG :: u32 where "UNCORE_CBO_CONFIG \<equiv> 0x396"
abbreviation MSR_PKG_ENERGY_STATUS :: u32 where "MSR_PKG_ENERGY_STATUS \<equiv> 0x611"
abbreviation MSR_DRAM_ENERGY_STATUS :: u32 where "MSR_DRAM_ENERGY_STATUS \<equiv> 0x619"
abbreviation MSR_PP0_ENERGY_STATUS :: u32 where "MSR_PP0_ENERGY_STATUS \<equiv> 0x639"
abbreviation MSR_PP1_ENERGY_STATUS :: u32 where "MSR_PP1_ENERGY_STATUS \<equiv> 0x641"
abbreviation MSR_PLATFORM_ENERGY_COUNTER :: u32 where "MSR_PLATFORM_ENERGY_COUNTER \<equiv> 0x64d"
abbreviation IA32_TSC_DEADLINE :: u32 where "IA32_TSC_DEADLINE \<equiv> 0x6e0"
abbreviation IA32_X2APIC_START :: u32 where "IA32_X2APIC_START \<equiv> 0x800"
abbreviation IA32_X2APIC_END :: u32 where "IA32_X2APIC_END \<equiv> 0x83f"
abbreviation IA32_XSS :: u32 where "IA32_XSS \<equiv> 0xda0"
abbreviation UNCORE_PERF_GLOBAL_CTL :: u32 where "UNCORE_PERF_GLOBAL_CTL \<equiv> 0xe01"
abbreviation IA32_EFER :: u32 where "IA32_EFER \<equiv> 0xc0000080"
abbreviation IA32_STAR :: u32 where "IA32_STAR \<equiv> 0xc0000081"
abbreviation IA32_LSTAR :: u32 where "IA32_LSTAR \<equiv> 0xc0000082"
abbreviation IA32_CSTAR :: u32 where "IA32_CSTAR \<equiv> 0xc0000083"
abbreviation IA32_FMASK :: u32 where "IA32_FMASK \<equiv> 0xc0000084"
abbreviation IA32_FS_BASE :: u32 where "IA32_FS_BASE \<equiv> 0xc0000100"
abbreviation IA32_GS_BASE :: u32 where "IA32_GS_BASE \<equiv> 0xc0000101"
abbreviation IA32_KERNEL_GS_BASE :: u32 where "IA32_KERNEL_GS_BASE \<equiv> 0xc0000102"
abbreviation IA32_TSC_AUX :: u32 where "IA32_TSC_AUX \<equiv> 0xc0000103"
abbreviation MSR_SEV_STATUS :: u32 where "MSR_SEV_STATUS \<equiv> 0xc0010131"

end
