(* ===== verification/Timer.thy ===== *)
theory Timer
  imports Prelude
begin

text \<open>
  \<open>devices/timer/src/timer.cpp\<close>, \<open>devices/timer/include/model/timer.hpp\<close>,
  \<open>devices/timer/include/model/aa64_timer.hpp\<close>: the virtual timer of a vCPU. The timer thread waits
  for the compare value and raises the interrupt; the vCPU writes the compare and the control
  register and wakes the thread.

  A step is one access to a variable that both threads use. The control register is a plain byte:
  a change of its status bit is a load and a store. The wait with a deadline is that of
  \<open>platform/posix/include/platform/signal.hpp\<close>: the deadline is read as a signed number, and a
  wait that times out leaves a signal that came late in place. Time is the monotonic clock.
\<close>

subsection \<open>The control register\<close>

abbreviation ENABLED_BIT :: u8 where "ENABLED_BIT \<equiv> 1"
abbreviation MASKED_BIT :: u8 where "MASKED_BIT \<equiv> 2"
abbreviation STATUS_BIT :: u8 where "STATUS_BIT \<equiv> 4"

definition ctl_enabled :: "u8 \<Rightarrow> bool" where "ctl_enabled v \<longleftrightarrow> v AND ENABLED_BIT \<noteq> 0"
definition ctl_masked :: "u8 \<Rightarrow> bool" where "ctl_masked v \<longleftrightarrow> v AND MASKED_BIT \<noteq> 0"
definition ctl_status :: "u8 \<Rightarrow> bool" where "ctl_status v \<longleftrightarrow> v AND STATUS_BIT \<noteq> 0"
definition ctl_can_fire :: "u8 \<Rightarrow> bool" where "ctl_can_fire v \<longleftrightarrow> ctl_enabled v \<and> \<not> ctl_masked v"

definition ctl_set_status :: "bool \<Rightarrow> u8 \<Rightarrow> u8" where
  "ctl_set_status b v = (if b then v OR STATUS_BIT else v AND NOT STATUS_BIT)"

definition will_timeout :: "u64 \<Rightarrow> bool" where "will_timeout control \<longleftrightarrow> ctl_can_fire (ucast control)"

lemma ctl_bits: "ctl_enabled v \<longleftrightarrow> bit v 0" "ctl_masked v \<longleftrightarrow> bit v 1" "ctl_status v \<longleftrightarrow> bit v 2"
  using and_exp_eq_0_iff_not_bit [of v 0] and_exp_eq_0_iff_not_bit [of v 1] and_exp_eq_0_iff_not_bit [of v 2]
  by (simp_all add: ctl_enabled_def ctl_masked_def ctl_status_def)

text \<open>The status bit is independent of the others.\<close>

lemma status_bits:
  "ctl_status (v OR STATUS_BIT)" "ctl_can_fire (v OR STATUS_BIT) = ctl_can_fire v"
  "\<not> ctl_status v \<Longrightarrow> (v OR STATUS_BIT) AND NOT STATUS_BIT = v"
proof -
  have b: "bit STATUS_BIT n \<longleftrightarrow> n = 2" for n using bit_exp_iff [where ?'a = "8 word", of 2 n] by auto
  show "ctl_status (v OR STATUS_BIT)" "ctl_can_fire (v OR STATUS_BIT) = ctl_can_fire v"
    by (simp_all add: ctl_can_fire_def ctl_bits bit_or_iff b)
  show "(v OR STATUS_BIT) AND NOT STATUS_BIT = v" if "\<not> ctl_status v"
  proof (rule bit_word_eqI)
    fix n assume "n < LENGTH(8)"
    then show "bit ((v OR STATUS_BIT) AND NOT STATUS_BIT) n = bit v n"
      using that b [of n] unfolding ctl_bits bit_or_iff bit_and_iff bit_not_iff by (cases "n = 2") auto
  qed
qed

subsection \<open>The two threads\<close>

datatype tpc =
    T_top | T_check_fire | T_check_status
  | T_clear_timeout | T_wait | T_clear_load | T_clear_store u8 | T_deassert
  | T_get | T_set_timeout u64 | T_wait_until u64 | T_reread bool
  | T_fire_check u64 | T_assert u64 | T_fired u64 | T_status_load | T_status_store u8
  | T_terminated

datatype timer_vpc = V_idle | V_cval_wake | V_ctl_check | V_ctl_wake

datatype timer_call = Assert_irq | Deassert_irq

record tsys =
  t_pc :: tpc
  t_vpc :: timer_vpc
  t_ctl :: u8
  t_cval :: u64
  t_signal :: bool
  t_ready :: bool
  t_terminate :: bool
  t_stopping :: bool
  t_timeout :: u64
  t_now :: int
  t_irqs :: "timer_call list"

definition timer_new :: "int \<Rightarrow> tsys" where
  "timer_new now = \<lparr>t_pc = T_top, t_vpc = V_idle, t_ctl = 0, t_cval = 0, t_signal = False, t_ready = True,
     t_terminate = False, t_stopping = False, t_timeout = 0, t_now = now, t_irqs = []\<rparr>"

definition t_goto :: "tpc \<Rightarrow> tsys \<Rightarrow> tsys" where "t_goto p s = s\<lparr>t_pc := p\<rparr>"

text \<open>Whether the deadline \<open>\<tau>\<close> has passed.\<close>

definition due :: "tsys \<Rightarrow> u64 \<Rightarrow> bool" where "due s tau \<longleftrightarrow> sint tau \<le> t_now s"

text \<open>
  The timer thread. \<open>late\<close>: a wait with a deadline times out although it might be signalled;
  \<open>ok\<close>: the interrupt controller takes the interrupt. \<open>None\<close>: the thread waits, or is done.
\<close>

definition timer_step :: "bool \<Rightarrow> bool \<Rightarrow> tsys \<Rightarrow> tsys option" where
  "timer_step late ok s = (case t_pc s of
     T_top \<Rightarrow> Some (t_goto (if t_terminate s then T_terminated else T_check_fire) s)
   | T_check_fire \<Rightarrow> Some (t_goto (if ctl_can_fire (t_ctl s) then T_check_status else T_clear_timeout) s)
   | T_check_status \<Rightarrow> Some (t_goto (if ctl_status (t_ctl s) then T_clear_timeout else T_get) s)
   | T_clear_timeout \<Rightarrow> Some (t_goto T_wait (s\<lparr>t_timeout := 0\<rparr>))
   | T_wait \<Rightarrow> if t_signal s then Some (t_goto T_clear_load (s\<lparr>t_signal := False\<rparr>)) else None
   | T_clear_load \<Rightarrow> Some (t_goto (T_clear_store (ctl_set_status False (t_ctl s))) s)
   | T_clear_store v \<Rightarrow> Some (t_goto T_deassert (s\<lparr>t_ctl := v\<rparr>))
   | T_deassert \<Rightarrow> Some (t_goto T_top (s\<lparr>t_irqs := t_irqs s @ [Deassert_irq]\<rparr>))
   | T_get \<Rightarrow> Some (t_goto (T_set_timeout (t_cval s)) s)
   | T_set_timeout tau \<Rightarrow> Some (t_goto (T_wait_until tau) (s\<lparr>t_timeout := tau\<rparr>))
   | T_wait_until tau \<Rightarrow>
       if t_signal s \<and> \<not> (late \<and> due s tau) then Some (t_goto (T_reread True) (s\<lparr>t_signal := False\<rparr>))
       else if due s tau then Some (t_goto (T_reread False) s) else None
   | T_reread released \<Rightarrow> Some (t_goto (if released then T_top else T_fire_check (t_cval s)) s)
   | T_fire_check cur \<Rightarrow> Some (t_goto (if ctl_can_fire (t_ctl s) then T_assert cur else T_top) s)
   | T_assert cur \<Rightarrow> Some (t_goto (if ok then T_fired cur else T_top) (s\<lparr>t_irqs := t_irqs s @ [Assert_irq]\<rparr>))
   | T_fired cur \<Rightarrow> Some (t_goto T_status_load (s\<lparr>t_timeout := cur\<rparr>))
   | T_status_load \<Rightarrow> Some (t_goto (T_status_store (ctl_set_status True (t_ctl s))) s)
   | T_status_store v \<Rightarrow> Some (t_goto T_top (s\<lparr>t_ctl := v\<rparr>))
   | T_terminated \<Rightarrow> None)"

text \<open>The vCPU: the writes of the registers, and what follows them.\<close>

definition set_cval :: "u64 \<Rightarrow> tsys \<Rightarrow> tsys" where "set_cval v s = s\<lparr>t_cval := v, t_vpc := V_cval_wake\<rparr>"
definition set_ctl :: "u8 \<Rightarrow> tsys \<Rightarrow> tsys" where "set_ctl v s = s\<lparr>t_ctl := v, t_vpc := V_ctl_check\<rparr>"

definition after_write :: "tsys \<Rightarrow> tsys" where
  "after_write s = (case t_vpc s of
     V_idle \<Rightarrow> s
   | V_cval_wake \<Rightarrow> s\<lparr>t_signal := True, t_vpc := V_idle\<rparr>
   | V_ctl_check \<Rightarrow> s\<lparr>t_vpc := if ctl_can_fire (t_ctl s) then V_ctl_wake else V_idle\<rparr>
   | V_ctl_wake \<Rightarrow> s\<lparr>t_signal := True, t_vpc := V_idle\<rparr>)"

text \<open>\<open>terminate\<close>: the flag is set, and then the thread is woken.\<close>

definition timer_terminate :: "tsys \<Rightarrow> tsys" where "timer_terminate s = s\<lparr>t_terminate := True, t_stopping := True\<rparr>"
definition terminate_wakeup :: "tsys \<Rightarrow> tsys" where "terminate_wakeup s = s\<lparr>t_signal := True, t_stopping := False\<rparr>"

inductive timer_sys_step :: "tsys \<Rightarrow> tsys \<Rightarrow> bool" where
  run_timer: "timer_step late ok s = Some s' \<Longrightarrow> timer_sys_step s s'"
| write_cval: "t_vpc s = V_idle \<Longrightarrow> timer_sys_step s (set_cval v s)"
| write_ctl: "t_vpc s = V_idle \<Longrightarrow> timer_sys_step s (set_ctl v s)"
| finish_write: "timer_sys_step s (after_write s)"
| stop: "timer_sys_step s (timer_terminate s)"
| stop_wakeup: "t_stopping s \<Longrightarrow> timer_sys_step s (terminate_wakeup s)"
| time: "t_now s \<le> now \<Longrightarrow> timer_sys_step s (s\<lparr>t_now := now\<rparr>)"

inductive timer_reachable :: "tsys \<Rightarrow> bool" where
  timer_start: "timer_reachable (timer_new now)"
| timer_next: "timer_reachable s \<Longrightarrow> timer_sys_step s s' \<Longrightarrow> timer_reachable s'"

subsection \<open>No deadline is missed\<close>

text \<open>What the thread relies on while it waits: either it holds, or a signal is there or comes.\<close>

definition waits_rightly :: "tsys \<Rightarrow> bool" where
  "waits_rightly s \<longleftrightarrow>
     (t_pc s \<in> {T_clear_timeout, T_wait} \<longrightarrow>
        \<not> ctl_can_fire (t_ctl s) \<or> ctl_status (t_ctl s) \<or> t_signal s \<or> t_vpc s \<in> {V_ctl_check, V_ctl_wake}) \<and>
     (\<forall>tau. t_pc s = T_set_timeout tau \<or> t_pc s = T_wait_until tau \<longrightarrow> tau = t_cval s \<or> t_signal s \<or> t_vpc s = V_cval_wake) \<and>
     (t_terminate s \<longrightarrow> t_signal s \<or> t_stopping s \<or> t_pc s \<notin> {T_check_fire, T_check_status, T_clear_timeout, T_wait, T_get} \<and>
        (\<forall>tau. t_pc s \<noteq> T_set_timeout tau \<and> t_pc s \<noteq> T_wait_until tau))"

lemma waits_rightly_step:
  assumes "timer_sys_step s s'" "waits_rightly s"
  shows "waits_rightly s'"
  using assms
proof cases
  case (run_timer late ok)
  then show ?thesis using assms(2)
    by (cases "t_pc s"; clarsimp simp: timer_step_def t_goto_def waits_rightly_def split: if_splits; blast?)
next
  case finish_write
  then show ?thesis using assms(2) by (cases "t_vpc s") (auto simp: after_write_def waits_rightly_def)
qed (use assms(2) in \<open>auto simp: waits_rightly_def set_cval_def set_ctl_def timer_terminate_def terminate_wakeup_def\<close>)

lemma timer_waits_rightly: "timer_reachable s \<Longrightarrow> waits_rightly s"
proof (induction rule: timer_reachable.induct)
  case (timer_start now)
  show ?case by (simp add: waits_rightly_def timer_new_def)
qed (rule waits_rightly_step)

text \<open>
  C30: no deadline is missed and no stop is missed. When the vCPU is not in the middle of a write, the
  timer thread waits only for the compare value that is stored now, or without a deadline when the
  timer is off, masked or has its status bit set, or it is done. So a timer that is on and whose
  deadline has passed has a thread that can take a step, or one that is done. Once the stop flag is
  set the thread does not wait, but for the moment before the wakeup that follows the flag.
\<close>

theorem timer_deadline_not_missed:
  assumes "timer_reachable s" "t_vpc s = V_idle" "timer_step late ok s = None"
  shows "t_pc s = T_terminated \<or>
    (t_terminate s \<longrightarrow> t_stopping s) \<and> (t_pc s = T_wait_until (t_cval s) \<and> \<not> due s (t_cval s) \<or>
      t_pc s = T_wait \<and> (\<not> ctl_can_fire (t_ctl s) \<or> ctl_status (t_ctl s)))"
  using timer_waits_rightly [OF assms(1)] assms(2,3)
  by (cases "t_pc s") (auto simp: timer_step_def waits_rightly_def split: if_splits)

fun timer_run :: "nat \<Rightarrow> tsys \<Rightarrow> tsys" where
  "timer_run 0 s = s"
| "timer_run (Suc k) s = (case timer_step False True s of None \<Rightarrow> s | Some s' \<Rightarrow> timer_run k s')"

lemma timer_run_numeral:
  "timer_run (numeral k) s = (case timer_step False True s of None \<Rightarrow> s | Some s' \<Rightarrow> timer_run (pred_numeral k) s')"
  by (simp add: numeral_eq_Suc)

lemma timer_run_reachable: "timer_reachable s \<Longrightarrow> timer_reachable (timer_run k s)"
proof (induction k arbitrary: s)
  case (Suc k)
  then show ?case
    by (cases "timer_step False True s") (auto intro: Suc.IH timer_next [OF _ run_timer])
qed simp

lemmas timer_steps = timer_step_def t_goto_def due_def after_write_def set_cval_def set_ctl_def timer_run_numeral

text \<open>The timer is switched on with a deadline, and waits for it.\<close>

definition timer_example :: tsys where
  "timer_example = timer_run 12 (after_write (after_write (set_ctl 1 (after_write (set_cval 50 (timer_new 7))))))"

lemma timer_example_reachable: "timer_reachable timer_example"
proof -
  have "timer_reachable (after_write (after_write (set_ctl 1 (after_write (set_cval 50 (timer_new 7))))))"
    by (intro timer_next [OF timer_next [OF timer_next [OF timer_next [OF timer_next [OF timer_start write_cval] finish_write] write_ctl] finish_write] finish_write])
      (simp_all add: timer_new_def after_write_def set_cval_def)
  then show ?thesis unfolding timer_example_def by (rule timer_run_reachable)
qed

theorem timer_deadline_not_missed_witness:
  "timer_step False True timer_example = None \<and> t_pc timer_example = T_wait_until 50 \<and> t_cval timer_example = 50"
proof -
  have e: "timer_step False True timer_example = None" "t_vpc timer_example = V_idle" "\<not> ctl_status (t_ctl timer_example)"
      "ctl_can_fire (t_ctl timer_example)" "t_pc timer_example \<noteq> T_terminated" "t_cval timer_example = 50"
    by (simp_all add: timer_example_def timer_new_def timer_steps ctl_can_fire_def ctl_enabled_def ctl_masked_def ctl_status_def)
  from timer_deadline_not_missed [OF timer_example_reachable e(2,1)] e show ?thesis by auto
qed

text \<open>
  When the deadline of an armed timer has passed, the timer thread raises the interrupt once and
  sets the status bit, keeps the other bits of the control register, and then waits for the next
  write; the write of a new compare value takes the status bit and the interrupt back, and the thread
  waits for the new deadline.
\<close>

theorem timer_fires_once:
  assumes "t_pc s = T_wait_until (t_cval s)" "t_vpc s = V_idle" "\<not> t_signal s" "\<not> t_terminate s"
    and "ctl_can_fire (t_ctl s)" "\<not> ctl_status (t_ctl s)" "due s (t_cval s)" "t_now s < sint v"
  shows "\<exists>s1 s2. s1 = timer_run 11 s \<and> t_pc s1 = T_wait \<and> t_irqs s1 = t_irqs s @ [Assert_irq] \<and> t_ctl s1 = t_ctl s OR STATUS_BIT \<and>
    timer_step False True s1 = None \<and>
    s2 = timer_run 9 (after_write (set_cval v s1)) \<and> t_pc s2 = T_wait_until v \<and> t_irqs s2 = t_irqs s @ [Assert_irq, Deassert_irq] \<and>
    t_ctl s2 = t_ctl s \<and> timer_step False True s2 = None"
proof -
  have b: "(t_ctl s OR STATUS_BIT) AND NOT STATUS_BIT = t_ctl s" "ctl_can_fire (t_ctl s OR STATUS_BIT)" "ctl_status (t_ctl s OR STATUS_BIT)"
    using assms(5,6) status_bits [of "t_ctl s"] by auto
  let ?s1 = "s\<lparr>t_pc := T_wait, t_ctl := t_ctl s OR STATUS_BIT, t_timeout := 0, t_irqs := t_irqs s @ [Assert_irq]\<rparr>"
  let ?s2 = "s\<lparr>t_pc := T_wait_until v, t_cval := v, t_timeout := v, t_irqs := t_irqs s @ [Assert_irq, Deassert_irq]\<rparr>"
  have 1: "timer_run 11 s = ?s1" using assms b by (simp add: timer_steps ctl_set_status_def)
  have 2: "timer_run 9 (after_write (set_cval v ?s1)) = ?s2" using assms b by (simp add: timer_steps ctl_set_status_def)
  show ?thesis unfolding 1 using 2 assms(2-4,8) by (auto simp: timer_step_def due_def)
qed

theorem timer_fires_once_witness:
  "\<exists>s1. s1 = timer_run 11 (timer_example\<lparr>t_now := 60\<rparr>) \<and> t_irqs s1 = [Assert_irq] \<and> t_ctl s1 = 5"
proof -
  let ?s = "timer_example\<lparr>t_now := 60\<rparr>"
  have e: "t_pc ?s = T_wait_until (t_cval ?s)" "t_vpc ?s = V_idle" "\<not> t_signal ?s" "\<not> t_terminate ?s" "ctl_can_fire (t_ctl ?s)"
      "\<not> ctl_status (t_ctl ?s)" "due ?s (t_cval ?s)" "t_now ?s < sint (100 :: u64)" "t_irqs ?s = []" "t_ctl ?s = 1"
    by (simp_all add: timer_example_def timer_new_def timer_steps ctl_can_fire_def ctl_enabled_def ctl_masked_def ctl_status_def)
  from timer_fires_once [OF e(1-8)] e(9,10) show ?thesis by auto
qed

text \<open>
  The status bit is changed by a load and a store, so a write of the control register by the vCPU in
  between is lost: here the vCPU switches the timer on, and the timer stays off.
\<close>

lemma timer_ctl_write_lost:
  "\<exists>s s1. timer_reachable s \<and> t_vpc s = V_idle \<and> s1 = timer_run 12 (after_write (after_write (set_ctl 1 s))) \<and> timer_step False True s1 = None \<and>
     t_ctl s1 = 0 \<and> t_pc s1 = T_wait"
proof -
  let ?s = "timer_run 5 (after_write (set_cval 50 (timer_new 7)))"
  have "timer_reachable ?s"
    by (intro timer_run_reachable timer_next [OF timer_next [OF timer_start write_cval] finish_write]) (simp add: timer_new_def)
  moreover have "t_vpc ?s = V_idle" by (simp add: timer_new_def timer_steps ctl_can_fire_def ctl_enabled_def)
  moreover have "timer_step False True (timer_run 12 (after_write (after_write (set_ctl 1 ?s)))) = None"
      "t_ctl (timer_run 12 (after_write (after_write (set_ctl 1 ?s)))) = 0" "t_pc (timer_run 12 (after_write (after_write (set_ctl 1 ?s)))) = T_wait"
    by (simp_all add: timer_new_def timer_steps ctl_can_fire_def ctl_enabled_def ctl_masked_def ctl_status_def ctl_set_status_def)
  ultimately show ?thesis by blast
qed

end
