(* ===== verification/Msr.thy ===== *)
theory Msr
  imports MsrIds X86Ids MsrInfo Timer CpuModel SimpleAs
begin

text \<open>
  The system registers of the machine: \<open>devices/msr/include/msr/msr_base.hpp\<close>,
  \<open>devices/msr/src/msr_base.cpp\<close>, \<open>devices/msr/include/aarch64/msr/msr.hpp\<close>,
  \<open>devices/msr/src/aarch64/msr.cpp\<close>, \<open>devices/msr/src/x86/msr.cpp\<close>, and the map of \<open>platform/posix_core/include/intrusive/map.hpp\<close>
  that holds them.

  A register object has an address, and a register that refers to another one holds its address. What
  the registers act on besides themselves is one state: the timer of the vCPU, the vCPUs, the interrupt
  controller, the bus that is associated with the flushes, if one is, the memory of the monitor with
  the state of the host, and the areas that were flushed from the caches, in order. The write of \<open>ICC_SGI1R_EL1\<close> to the
  interrupt controller is a parameter. The text of the log is a list of messages.
\<close>

subsection \<open>Registers\<close>

record msr_stats =
  ms_read_count :: u64
  ms_write_count :: u64
  ms_min :: u64
  ms_max :: u64
  ms_total :: u64

definition msr_stats_new :: msr_stats where
  "msr_stats_new = \<lparr>ms_read_count = 0, ms_write_count = 0, ms_min = - 1, ms_max = 0, ms_total = 0\<rparr>"

definition msr_stats_start :: "vbus_access \<Rightarrow> msr_stats \<Rightarrow> msr_stats" where
  "msr_stats_start acc t =
     (let t = (if acc = WRITE then t\<lparr>ms_write_count := ms_write_count t + 1\<rparr> else t) in
      if acc = READ then t\<lparr>ms_read_count := ms_read_count t + 1\<rparr> else t)"

definition msr_stats_end :: "u64 \<Rightarrow> u64 \<Rightarrow> msr_stats \<Rightarrow> msr_stats" where
  "msr_stats_end now start t =
     (let d = now - start; t = t\<lparr>ms_total := ms_total t + d\<rparr>;
          t = (if d < ms_min t then t\<lparr>ms_min := d\<rparr> else t) in
      if ms_max t < d then t\<lparr>ms_max := d\<rparr> else t)"

text \<open>The classes of an x86 machine, all derived from \<open>Register\<close>.\<close>

datatype x86_kind = Apic_base bool | Misc_enable | Tsc | Tsc_adjust | Sys_reg

text \<open>The classes of registers. The first seven are derived from \<open>Register\<close>, with a value.\<close>

datatype msr_kind =
    Plain_reg | Set_way_flush | Mdscr | Cntp_ctl | Cntp_cval | Cntp_tval | Id_reg
  | Ccsidr nat u64 "u64 list" "u64 list" | Icc_sgi1r | Cntpct | Wtrapped | Sctlr
  | X86 x86_kind

record msr_reg =
  m_name :: string
  m_id :: u32
  m_key :: u64
  m_kind :: msr_kind
  m_value :: u64
  m_reset_value :: u64
  m_write_mask :: u64
  m_writable :: bool
  m_err_on_write_reserved :: bool
  m_stats :: msr_stats

definition register_new :: "msr_kind \<Rightarrow> string \<Rightarrow> u32 \<Rightarrow> bool \<Rightarrow> u64 \<Rightarrow> u64 \<Rightarrow> bool \<Rightarrow> msr_reg" where
  "register_new k name i writable reset wmask err =
     \<lparr>m_name = name, m_id = i, m_key = 0, m_kind = k, m_value = reset, m_reset_value = reset, m_write_mask = wmask,
      m_writable = writable, m_err_on_write_reserved = err, m_stats = msr_stats_new\<rparr>"

text \<open>The constructor with its default arguments, and that of a register without a value.\<close>

abbreviation plain :: "string \<Rightarrow> u32 \<Rightarrow> bool \<Rightarrow> u64 \<Rightarrow> msr_reg" where
  "plain name i writable reset \<equiv> register_new Plain_reg name i writable reset (- 1) False"

definition base_new :: "msr_kind \<Rightarrow> string \<Rightarrow> u32 \<Rightarrow> msr_reg" where
  "base_new k name i = register_new k name i False 0 0 False"

definition has_value :: "msr_kind \<Rightarrow> bool" where
  "has_value k \<longleftrightarrow>
     k \<in> {Plain_reg, Set_way_flush, Mdscr, Cntp_ctl, Cntp_cval, Cntp_tval, Id_reg} \<or> (case k of X86 _ \<Rightarrow> True | _ \<Rightarrow> False)"

definition register_access :: "vbus_access \<Rightarrow> u64 \<Rightarrow> msr_reg \<Rightarrow> vbus_err \<times> u64 \<times> msr_reg" where
  "register_access acc value r =
     (if acc = WRITE \<and> \<not> m_writable r then (ACCESS_ERR, value, r)
      else if acc = WRITE then
        if m_err_on_write_reserved r \<and> value AND NOT (m_write_mask r) \<noteq> 0 then (ACCESS_ERR, value, r)
        else let v = m_value r OR (value AND m_write_mask r);
                 v = v AND NOT (m_write_mask r AND (value XOR m_write_mask r)) in (OK, value, r\<lparr>m_value := v\<rparr>)
      else (OK, m_value r, r))"

definition msr_reset :: "msr_reg \<Rightarrow> msr_reg" where
  "msr_reset r = (if has_value (m_kind r) then r\<lparr>m_value := m_reset_value r\<rparr> else r)"

subsection \<open>The map of the registers\<close>

text \<open>A set of pointers in the order of the addresses; the key is in the object.\<close>

type_synonym devs = "(nat \<times> msr_reg) list"

definition map_insert :: "u64 \<Rightarrow> nat \<Rightarrow> msr_reg \<Rightarrow> devs \<Rightarrow> msr_reg option \<times> devs" where
  "map_insert key a r ds =
     (let r = r\<lparr>m_key := key\<rparr> in
      (map_option (\<lambda>_. r) (map_of ds a), insort_key fst (a, r) (filter (\<lambda>d. fst d \<noteq> a) ds)))"

definition map_remove :: "nat \<Rightarrow> devs \<Rightarrow> devs" where
  "map_remove a ds = filter (\<lambda>d. fst d \<noteq> a) ds"

definition map_get :: "u64 \<Rightarrow> devs \<Rightarrow> (nat \<times> msr_reg) option" where
  "map_get key ds = find (\<lambda>d. m_key (snd d) = key) ds"

definition msr_register_device :: "nat \<Rightarrow> msr_reg \<Rightarrow> u64 \<Rightarrow> devs \<Rightarrow> bool \<times> devs" where
  "msr_register_device a r i ds = (case map_insert i a r ds of
     (None, ds) \<Rightarrow> (True, ds)
   | (Some old, ds) \<Rightarrow> (False, snd (map_insert i a old (map_remove a ds))))"

text \<open>The address is \<open>None\<close> when the allocation of the object failed.\<close>

definition register_system_reg :: "nat option \<Rightarrow> msr_reg \<Rightarrow> devs \<Rightarrow> (bool \<times> devs) option" where
  "register_system_reg p r ds = do {
     a \<leftarrow> p;
     let (ok, ds) = msr_register_device a r (ucast (m_id r)) ds;
     ASSERT ok;
     Some (True, ds)
   }"

text \<open>
  A setup function registers its registers in turn and stops at the first that is refused; a list of
  registers stands for the function. The addresses are those that the allocator gives.
\<close>

fun register_regs :: "nat option list \<Rightarrow> msr_reg list \<Rightarrow> devs \<Rightarrow> (bool \<times> devs) option" where
  "register_regs _ [] ds = Some (True, ds)"
| "register_regs [] (r # rs) ds = None"
| "register_regs (p # ps) (r # rs) ds = do {
     (ok, ds) \<leftarrow> register_system_reg p r ds;
     if ok then register_regs ps rs ds else Some (False, ds)
   }"

subsection \<open>The system and the accesses\<close>

datatype msr_msg = Msr_folded string u64 | Msr_traced string u32 vbus_access u64

record ('g, 'd, 'x) msr_sys =
  sys_devs :: devs
  sys_trace :: bool
  sys_fold :: bool
  sys_last_access :: "nat option"
  sys_num_accesses :: u64
  sys_stats_enabled :: bool
  sys_stats_last :: "nat option"
  sys_stats_seen :: u64
  sys_stats_total :: u64
  sys_log :: "msr_msg list"
  sys_timer :: tsys
  sys_cpus :: cpus
  sys_gic :: 'g
  sys_vbus :: "('d, 'x) as_env option"
  sys_world :: "'x world"
  sys_flushed :: "(u64 \<times> u64) list"

text \<open>What an access knows of its vCPU, and the readings of the clock before, in and after it.\<close>

record msr_ctx =
  x_vcpu :: u64
  x_sctlr :: u64
  x_cntvoff :: u64
  x_start :: u64
  x_clock :: u64
  x_end :: u64

definition put_reg :: "nat \<Rightarrow> msr_reg \<Rightarrow> ('g, 'd, 'x) msr_sys \<Rightarrow> ('g, 'd, 'x) msr_sys" where
  "put_reg a r s = s\<lparr>sys_devs := map (\<lambda>d. if fst d = a then (a, r) else d) (sys_devs s)\<rparr>"

definition tvm_enabled :: "msr_ctx \<Rightarrow> ('g, 'd, 'x) msr_sys \<Rightarrow> bool option" where
  "tvm_enabled x s = is_feature_enabled_on_vcpu requested_feature_tvm (x_vcpu x) VMM (sys_cpus s)"

definition set_tvm :: "bool \<Rightarrow> msr_ctx \<Rightarrow> ('g, 'd, 'x) msr_sys \<Rightarrow> ('g, 'd, 'x) msr_sys option" where
  "set_tvm b x s = do {
     c \<leftarrow> ctrl_feature_on_vcpu ctrl_feature_tvm (x_vcpu x) b VMM 0 (sys_cpus s);
     Some (s\<lparr>sys_cpus := c\<rparr>)
   }"

definition set_way_flush :: "msr_ctx \<Rightarrow> ('g, 'd, 'x) msr_sys \<Rightarrow> ('g, 'd, 'x) msr_sys option" where
  "set_way_flush x s = do { on \<leftarrow> tvm_enabled x s; if \<not> on then set_tvm True x s else Some s }"

definition flush_on_cache_toggle :: "msr_ctx \<Rightarrow> u64 \<Rightarrow> ('g, 'd, 'x) msr_sys \<Rightarrow> ('g, 'd, 'x) msr_sys option" where
  "flush_on_cache_toggle x new_value s = do {
     on \<leftarrow> tvm_enabled x s;
     if \<not> on then Some s
     else do {
       s \<leftarrow> (if cache_enabled (x_sctlr x) \<noteq> cache_enabled new_value
             then do {
               e \<leftarrow> sys_vbus s;
               (fl, w) \<leftarrow> for_each (devices (env_bus e)) (flush_callback e) (sys_flushed s, sys_world s);
               Some (s\<lparr>sys_flushed := fl, sys_world := w\<rparr>)
             }
             else Some s);
       if cache_enabled new_value then set_tvm False x s else Some s
     }
   }"

text \<open>The cache size register: the selection register names the level and the side.\<close>

definition ccsidr_access :: "u64 \<Rightarrow> u64 list \<Rightarrow> u64 list \<Rightarrow> vbus_access \<Rightarrow> u64 \<Rightarrow> msr_reg \<Rightarrow> (vbus_err \<times> u64) option" where
  "ccsidr_access clidr data_el1 inst_el1 acc value csselr =
     (if acc = WRITE then Some (ACCESS_ERR, value)
      else let (err, el, _) = register_access acc 0 csselr in
      if err \<noteq> OK then Some (ACCESS_ERR, value)
      else let instr = (el AND 1 \<noteq> 0); level = unat (drop_bit 1 el AND 7) in
      if 6 < level then Some (ACCESS_ERR, value)
      else let ce = drop_bit (level * 3) clidr AND 7 in
      if ce = 0 \<or> ce = 2 \<and> instr then Some (OK, 0xffffffff)
      else map_option (Pair OK) (nth_opt (if ce = 1 \<or> ce = 3 \<and> instr then inst_el1 else data_el1) level))"

abbreviation CNTP_TVAL_MASK :: u64 where "CNTP_TVAL_MASK \<equiv> 0xffffffff"

definition timer_write_ctl :: "u8 \<Rightarrow> tsys \<Rightarrow> tsys" where "timer_write_ctl v t = after_write (after_write (set_ctl v t))"
definition timer_write_cval :: "u64 \<Rightarrow> tsys \<Rightarrow> tsys" where "timer_write_cval v t = after_write (set_cval v t)"

definition cntp_tval_access :: "vbus_access \<Rightarrow> msr_ctx \<Rightarrow> u64 \<Rightarrow> tsys \<Rightarrow> vbus_err \<times> u64 \<times> tsys" where
  "cntp_tval_access acc x value t =
     (if acc = READ then (OK, (t_cval t - (x_clock x - x_cntvoff x)) AND CNTP_TVAL_MASK, t)
      else if acc = WRITE then (OK, value, timer_write_cval (x_clock x + scast (ucast value :: u32)) t)
      else (ACCESS_ERR, value, t))"

text \<open>The access of each class, to the register \<open>r\<close> at address \<open>a\<close>.\<close>

type_synonym ('g, 'd, 'x) msr_result = "(vbus_err \<times> u64 \<times> ('g, 'd, 'x) msr_sys) option"

definition plain_access :: "vbus_access \<Rightarrow> u64 \<Rightarrow> nat \<Rightarrow> msr_reg \<Rightarrow> ('g, 'd, 'x) msr_sys \<Rightarrow> ('g, 'd, 'x) msr_result" where
  "plain_access acc value a r s = (let (err, v, r) = register_access acc value r in Some (err, v, put_reg a r s))"

definition set_way_access :: "vbus_access \<Rightarrow> msr_ctx \<Rightarrow> u64 \<Rightarrow> nat \<Rightarrow> msr_reg \<Rightarrow> ('g, 'd, 'x) msr_sys \<Rightarrow> ('g, 'd, 'x) msr_result" where
  "set_way_access acc x value a r s =
     (let (err, v, r) = register_access acc value r; s = put_reg a r s in
      if acc = WRITE then do { s \<leftarrow> set_way_flush x s; Some (err, v, s) } else Some (err, v, s))"

definition cntp_ctl_access :: "vbus_access \<Rightarrow> u64 \<Rightarrow> nat \<Rightarrow> msr_reg \<Rightarrow> ('g, 'd, 'x) msr_sys \<Rightarrow> ('g, 'd, 'x) msr_result" where
  "cntp_ctl_access acc value a r s =
     (let r = r\<lparr>m_value := ucast (t_ctl (sys_timer s))\<rparr>; (err, v, r) = register_access acc value r; s = put_reg a r s in
      Some (err, v, if err = OK \<and> acc = WRITE then s\<lparr>sys_timer := timer_write_ctl (ucast (m_value r)) (sys_timer s)\<rparr> else s))"

definition cntp_cval_access :: "vbus_access \<Rightarrow> u64 \<Rightarrow> nat \<Rightarrow> msr_reg \<Rightarrow> ('g, 'd, 'x) msr_sys \<Rightarrow> ('g, 'd, 'x) msr_result" where
  "cntp_cval_access acc value a r s =
     (let r = r\<lparr>m_value := t_cval (sys_timer s)\<rparr>; (err, v, r) = register_access acc value r; s = put_reg a r s in
      Some (err, v, if err = OK \<and> acc = WRITE then s\<lparr>sys_timer := timer_write_cval (m_value r) (sys_timer s)\<rparr> else s))"

definition cntpct_access :: "vbus_access \<Rightarrow> msr_ctx \<Rightarrow> u64 \<Rightarrow> vbus_err \<times> u64" where
  "cntpct_access acc x value = (if acc \<noteq> READ then (ACCESS_ERR, value) else (OK, x_clock x - x_cntvoff x))"

text \<open>\<open>sgi\<close>: \<open>GicD::icc_sgi1r_el1\<close>.\<close>

definition icc_sgi1r_access ::
    "(u64 \<Rightarrow> u64 \<Rightarrow> 'g \<Rightarrow> 'g option) \<Rightarrow> vbus_access \<Rightarrow> msr_ctx \<Rightarrow> u64 \<Rightarrow> ('g, 'd, 'x) msr_sys \<Rightarrow> ('g, 'd, 'x) msr_result" where
  "icc_sgi1r_access sgi acc x value s =
     (if acc \<noteq> WRITE then Some (ACCESS_ERR, value, s)
      else do { g \<leftarrow> sgi value (x_vcpu x) (sys_gic s); Some (OK, value, s\<lparr>sys_gic := g\<rparr>) })"

definition wtrapped_access :: "vbus_access \<Rightarrow> u64 \<Rightarrow> ('g, 'd, 'x) msr_sys \<Rightarrow> ('g, 'd, 'x) msr_result" where
  "wtrapped_access acc value s = do { ASSERT (acc = WRITE); Some (UPDATE_REGISTER, value, s) }"

definition sctlr_access :: "vbus_access \<Rightarrow> msr_ctx \<Rightarrow> u64 \<Rightarrow> ('g, 'd, 'x) msr_sys \<Rightarrow> ('g, 'd, 'x) msr_result" where
  "sctlr_access acc x value s = do { ASSERT (acc = WRITE); s \<leftarrow> flush_on_cache_toggle x value s; Some (UPDATE_REGISTER, value, s) }"

text \<open>The classes of an x86 machine. An access that is not a write reads.\<close>

definition get_ia32_apicbase :: "bool \<Rightarrow> u64 \<Rightarrow> u64" where
  "get_ia32_apicbase x2apic vcpu_id =
     (let ret = 0xFEE00000 OR push_bit 11 1 OR (if vcpu_id = 0 then push_bit 8 1 else 0)
      in if x2apic then ret OR push_bit 10 1 else ret)"

definition apic_base_access :: "bool \<Rightarrow> vbus_access \<Rightarrow> msr_ctx \<Rightarrow> u64 \<Rightarrow> (vbus_err \<times> u64) option" where
  "apic_base_access x2apic acc x value =
     (if acc = WRITE then do { ASSERT (value = get_ia32_apicbase x2apic (x_vcpu x)); Some (OK, value) }
      else Some (OK, get_ia32_apicbase x2apic (x_vcpu x)))"

definition misc_enable_access :: "vbus_access \<Rightarrow> u64 \<Rightarrow> nat \<Rightarrow> msr_reg \<Rightarrow> ('g, 'd, 'x) msr_sys \<Rightarrow> ('g, 'd, 'x) msr_result" where
  "misc_enable_access acc value a r s =
     (if acc = WRITE then Some (OK, value, put_reg a (r\<lparr>m_value := value\<rparr>) s) else Some (OK, m_value r, s))"

definition tsc_access :: "vbus_access \<Rightarrow> msr_ctx \<Rightarrow> u64 \<Rightarrow> vbus_err \<times> u64" where
  "tsc_access acc x value = (OK, if acc = WRITE then value else x_clock x)"

definition tsc_adjust_access :: "vbus_access \<Rightarrow> u64 \<Rightarrow> (vbus_err \<times> u64) option" where
  "tsc_adjust_access acc value = (if acc = WRITE then do { ASSERT (value = 0); Some (OK, value) } else Some (OK, 0))"

definition sys_reg_access :: "vbus_access \<Rightarrow> u64 \<Rightarrow> nat \<Rightarrow> msr_reg \<Rightarrow> ('g, 'd, 'x) msr_sys \<Rightarrow> ('g, 'd, 'x) msr_result" where
  "sys_reg_access acc value a r s = do {
     ASSERT (\<not> (acc = READ \<and> m_id r = IA32_TSC_DEADLINE));
     (status, v, s) \<leftarrow> plain_access acc value a r s;
     Some (if status = OK then UPDATE_REGISTER else status, v, s)
   }"

fun x86_access :: "x86_kind \<Rightarrow> vbus_access \<Rightarrow> msr_ctx \<Rightarrow> u64 \<Rightarrow> nat \<Rightarrow> msr_reg \<Rightarrow> ('g, 'd, 'x) msr_sys \<Rightarrow> ('g, 'd, 'x) msr_result" where
  "x86_access (Apic_base x2apic) acc x value a r s = map_option (\<lambda>(err, v). (err, v, s)) (apic_base_access x2apic acc x value)"
| "x86_access Misc_enable acc x value a r s = misc_enable_access acc value a r s"
| "x86_access Tsc acc x value a r s = (let (err, v) = tsc_access acc x value in Some (err, v, s))"
| "x86_access Tsc_adjust acc x value a r s = map_option (\<lambda>(err, v). (err, v, s)) (tsc_adjust_access acc value)"
| "x86_access Sys_reg acc x value a r s = sys_reg_access acc value a r s"

definition msr_reg_access ::
    "(u64 \<Rightarrow> u64 \<Rightarrow> 'g \<Rightarrow> 'g option) \<Rightarrow> vbus_access \<Rightarrow> msr_ctx \<Rightarrow> u64 \<Rightarrow> nat \<Rightarrow> msr_reg \<Rightarrow> ('g, 'd, 'x) msr_sys \<Rightarrow> ('g, 'd, 'x) msr_result" where
  "msr_reg_access sgi acc x value a r s = (case m_kind r of
     Set_way_flush \<Rightarrow> set_way_access acc x value a r s
   | Cntp_ctl \<Rightarrow> cntp_ctl_access acc value a r s
   | Cntp_cval \<Rightarrow> cntp_cval_access acc value a r s
   | Cntp_tval \<Rightarrow> (let (err, v, t) = cntp_tval_access acc x value (sys_timer s) in Some (err, v, s\<lparr>sys_timer := t\<rparr>))
   | Cntpct \<Rightarrow> (let (err, v) = cntpct_access acc x value in Some (err, v, s))
   | Ccsidr cs clidr data inst \<Rightarrow> do {
        csselr \<leftarrow> map_of (sys_devs s) cs;
        (err, v) \<leftarrow> ccsidr_access clidr data inst acc value csselr;
        Some (err, v, s)
      }
   | Icc_sgi1r \<Rightarrow> icc_sgi1r_access sgi acc x value s
   | Wtrapped \<Rightarrow> wtrapped_access acc value s
   | Sctlr \<Rightarrow> sctlr_access acc x value s
   | X86 k \<Rightarrow> x86_access k acc x value a r s
   | _ \<Rightarrow> plain_access acc value a r s)"

text \<open>The log of the accesses: \<open>r\<close> is the register accessed, \<open>old\<close> the one before.\<close>

definition msr_log_trace_info :: "nat \<Rightarrow> msr_reg \<Rightarrow> vbus_access \<Rightarrow> u64 \<Rightarrow> ('g, 'd, 'x) msr_sys \<Rightarrow> ('g, 'd, 'x) msr_sys option" where
  "msr_log_trace_info a r acc val s = do {
     ASSERT (acc \<noteq> EXEC);
     let msg = Msr_traced (m_name r) (m_id r) acc val;
     if sys_last_access s \<noteq> Some a then do {
       folded \<leftarrow> (if sys_fold s \<and> 1 < sys_num_accesses s
                 then do { old \<leftarrow> sys_last_access s; o' \<leftarrow> map_of (sys_devs s) old; Some [Msr_folded (m_name o') (sys_num_accesses s)] }
                 else Some []);
       Some (s\<lparr>sys_log := sys_log s @ folded @ [msg], sys_num_accesses := 0, sys_last_access := Some a\<rparr>)
     }
     else if sys_fold s then Some (s\<lparr>sys_num_accesses := sys_num_accesses s + 1\<rparr>)
     else Some (s\<lparr>sys_log := sys_log s @ [msg], sys_num_accesses := 0, sys_last_access := Some a\<rparr>)
   }"

definition upd_stats :: "nat \<Rightarrow> (msr_stats \<Rightarrow> msr_stats) \<Rightarrow> ('g, 'd, 'x) msr_sys \<Rightarrow> ('g, 'd, 'x) msr_sys" where
  "upd_stats a f s = s\<lparr>sys_devs := map (\<lambda>d. if fst d = a then (a, snd d\<lparr>m_stats := f (m_stats (snd d))\<rparr>) else d) (sys_devs s)\<rparr>"

definition msr_access ::
    "(u64 \<Rightarrow> u64 \<Rightarrow> 'g \<Rightarrow> 'g option) \<Rightarrow> vbus_access \<Rightarrow> msr_ctx \<Rightarrow> u64 \<Rightarrow> u64 \<Rightarrow> ('g, 'd, 'x) msr_sys \<Rightarrow> ('g, 'd, 'x) msr_result" where
  "msr_access sgi acc x i val s = do {
     ASSERT (acc \<noteq> EXEC);
     case map_get i (sys_devs s) of
       None \<Rightarrow> Some (NO_DEVICE, val, s)
     | Some (a, _) \<Rightarrow> do {
         let s = (if sys_stats_enabled s
                  then upd_stats a (msr_stats_start acc) s\<lparr>sys_stats_last := Some a, sys_stats_seen := x_start x, sys_stats_total := sys_stats_total s + 1\<rparr>
                  else s);
         r \<leftarrow> map_of (sys_devs s) a;
         (err, v, s) \<leftarrow> msr_reg_access sgi acc x val a r s;
         s \<leftarrow> (if sys_trace s then msr_log_trace_info a r acc v s else Some s);
         Some (err, v, if sys_stats_enabled s then upd_stats a (msr_stats_end (x_end x) (x_start x)) s else s)
       }
   }"

definition msr_bus_reset :: "('g, 'd, 'x) msr_sys \<Rightarrow> ('g, 'd, 'x) msr_sys" where
  "msr_bus_reset s = s\<lparr>sys_devs := map (\<lambda>(a, r). (a, msr_reset r)) (sys_devs s)\<rparr>"

definition msr_set_trace :: "bool \<Rightarrow> bool \<Rightarrow> ('g, 'd, 'x) msr_sys \<Rightarrow> ('g, 'd, 'x) msr_sys" where
  "msr_set_trace enabled fold_successive s = s\<lparr>sys_trace := enabled, sys_fold := fold_successive\<rparr>"

definition msr_set_stats :: "bool \<Rightarrow> ('g, 'd, 'x) msr_sys \<Rightarrow> ('g, 'd, 'x) msr_sys" where
  "msr_set_stats enabled s = s\<lparr>sys_stats_enabled := enabled\<rparr>"

subsection \<open>The value of a register\<close>

text \<open>
  A write changes exactly the bits of the write mask, also where it clears bits, and a read gives the
  value; a register that is not writable, or that refuses writes of reserved bits, keeps its value.
\<close>

lemma register_write_value:
  "(v OR (w AND m)) AND NOT (m AND (w XOR m)) = (v AND NOT m) OR (w AND m)" for v w m :: u64
  by (rule bit_word_eqI) (auto simp: bit_simps)

lemma register_access_write:
  "register_access WRITE w r =
     (if \<not> m_writable r \<or> m_err_on_write_reserved r \<and> w AND NOT (m_write_mask r) \<noteq> 0 then (ACCESS_ERR, w, r)
      else (OK, w, r\<lparr>m_value := (m_value r AND NOT (m_write_mask r)) OR (w AND m_write_mask r)\<rparr>))"
  unfolding register_access_def Let_def register_write_value by simp

lemma register_access_read: "register_access READ w r = (OK, m_value r, r)"
  by (simp add: register_access_def)

subsection \<open>The map\<close>

text \<open>A map whose registers have the keys of their numbers, at different addresses and with different numbers.\<close>

definition devs_ok :: "devs \<Rightarrow> bool" where
  "devs_ok ds \<longleftrightarrow> distinct (map fst ds) \<and> distinct (map (\<lambda>d. m_key (snd d)) ds)"

lemma map_get_member:
  assumes "devs_ok ds" "(a, r) \<in> set ds"
  shows "map_get (m_key r) ds = Some (a, r)"
proof -
  have "find (\<lambda>d. m_key (snd d) = m_key r) ds \<noteq> None" using assms(2) by (auto simp: find_None_iff)
  then obtain d where d: "map_get (m_key r) ds = Some d" by (auto simp: map_get_def)
  then have "d \<in> set ds" "m_key (snd d) = m_key r" by (auto simp: map_get_def find_Some_iff)
  then have "d = (a, r)" using assms by (auto simp: devs_ok_def distinct_map inj_on_def)
  then show ?thesis using d by simp
qed

lemma distinct_map_insort: "distinct (map g (insort_key f x xs)) \<longleftrightarrow> g x \<notin> g ` set xs \<and> distinct (map g xs)"
  by (induction xs) (auto simp: set_insort_key)

lemma register_fresh:
  assumes "devs_ok ds" "a \<notin> fst ` set ds" "ucast (m_id r) \<notin> (\<lambda>d. m_key (snd d)) ` set ds"
  shows "\<exists>ds'. register_system_reg (Some a) r ds = Some (True, ds') \<and> devs_ok ds' \<and>
    set ds' = insert (a, r\<lparr>m_key := ucast (m_id r)\<rparr>) (set ds)"
proof -
  let ?r = "r\<lparr>m_key := ucast (m_id r)\<rparr>"
  have "map_of ds a = None" using assms(2) by (simp add: map_of_eq_None_iff)
  moreover have "filter (\<lambda>d. fst d \<noteq> a) ds = ds" using assms(2) by (intro filter_True) auto
  ultimately have "register_system_reg (Some a) r ds = Some (True, insort_key fst (a, ?r) ds)"
    by (simp add: register_system_reg_def msr_register_device_def map_insert_def)
  then show ?thesis using assms
    by (auto simp: devs_ok_def set_insort_key distinct_map_insort image_iff)
qed

text \<open>Different registers at different addresses are all taken, and each is found at its number.\<close>

lemma register_regs_all:
  assumes "devs_ok ds" "length as = length rs" "distinct as" "distinct (map m_id rs)"
    and "set as \<inter> fst ` set ds = {}" "(\<lambda>r. ucast (m_id r)) ` set rs \<inter> (\<lambda>d. m_key (snd d)) ` set ds = {}"
  shows "\<exists>ds'. register_regs (map Some as) rs ds = Some (True, ds') \<and> devs_ok ds' \<and>
    set ds' = set ds \<union> set (zip as (map (\<lambda>r. r\<lparr>m_key := ucast (m_id r)\<rparr>) rs))"
  using assms
proof (induction rs arbitrary: as ds)
  case Nil
  then show ?case by simp
next
  case (Cons r rs)
  then obtain a as' where as: "as = a # as'" by (cases as) auto
  obtain d where d: "register_system_reg (Some a) r ds = Some (True, d)" "devs_ok d" "set d = insert (a, r\<lparr>m_key := ucast (m_id r)\<rparr>) (set ds)"
    using register_fresh [OF Cons.prems(1), of a r] Cons.prems(5,6) as by auto
  have inj: "ucast x = (ucast y :: u64) \<Longrightarrow> x = y" for x y :: u32
    by (drule arg_cong [where f = unat]) (simp add: word_unat_eq_iff)
  obtain ds' where "register_regs (map Some as') rs d = Some (True, ds')" "devs_ok ds'"
      "set ds' = set d \<union> set (zip as' (map (\<lambda>r. r\<lparr>m_key := ucast (m_id r)\<rparr>) rs))"
  proof -
    have "set as' \<inter> fst ` set d = {}" using Cons.prems(3,5) as d(3) by auto
    moreover have "(\<lambda>r. ucast (m_id r)) ` set rs \<inter> (\<lambda>d. m_key (snd d)) ` set d = {}"
    proof -
      have "(ucast (m_id x) :: u64) \<noteq> ucast (m_id r)" if "x \<in> set rs" for x
        using inj [of "m_id x" "m_id r"] Cons.prems(4) that by (auto simp: image_iff)
      moreover have "(\<lambda>d. m_key (snd d)) ` set d = insert (ucast (m_id r)) ((\<lambda>d. m_key (snd d)) ` set ds)" by (simp add: d(3))
      ultimately show ?thesis using Cons.prems(6) by force
    qed
    ultimately show ?thesis using Cons.IH [OF d(2), of as'] Cons.prems(2-4) as that by auto
  qed
  then show ?case using d as by auto
qed

end
