(* ===== verification/MsrSetup.thy ===== *)
theory MsrSetup
  imports Msr
begin

text \<open>
  The registers that \<open>devices/msr/src/aarch64/msr.cpp\<close> sets up for a guest. A setup function is the
  list of the registers that it constructs, in order; \<open>register_regs\<close> of \<open>Msr\<close> is what registers them.
\<close>

subsection \<open>What the platform tells\<close>

record AA64PlatformInfo =
  id_aa64pfr0_el1 :: u64
  id_aa64pfr1_el1 :: u64
  id_aa64dfr0_el1 :: u64
  id_aa64dfr1_el1 :: u64
  id_aa64isar0_el1 :: u64
  id_aa64isar1_el1 :: u64
  id_aa64isar2_el1 :: u64
  id_aa64mmfr0_el1 :: u64
  id_aa64mmfr1_el1 :: u64
  id_aa64mmfr2_el1 :: u64
  id_aa64zfr0_el1 :: u64
  midr_el1 :: u64

record AA32PlatformInfo =
  id_pfr0_el1 :: u32
  id_pfr1_el1 :: u32
  id_pfr2_el1 :: u32
  id_dfr0_el1 :: u32
  id_dfr1_el1 :: u32
  id_isar0_el1 :: u32
  id_isar1_el1 :: u32
  id_isar2_el1 :: u32
  id_isar3_el1 :: u32
  id_isar4_el1 :: u32
  id_isar5_el1 :: u32
  id_isar6_el1 :: u32
  id_mmfr0_el1 :: u32
  id_mmfr1_el1 :: u32
  id_mmfr2_el1 :: u32
  id_mmfr3_el1 :: u32
  id_mmfr4_el1 :: u32
  id_mmfr5_el1 :: u32
  mvfr0_el1 :: u32
  mvfr1_el1 :: u32
  mvfr2_el1 :: u32

record PlatformInfo =
  aa64 :: AA64PlatformInfo
  aa32 :: AA32PlatformInfo

record CacheTopo =
  topo_ctr_el0 :: u64
  topo_clidr_el1 :: u64
  topo_ccsidr_el1 :: "u64 list"

subsection \<open>Values and constructors\<close>

abbreviation CCSIDR_NUM :: nat where "CCSIDR_NUM \<equiv> 7"
abbreviation AA64DFR0_DEBUG_V8 :: u64 where "AA64DFR0_DEBUG_V8 \<equiv> 6"

text \<open>The four characters of the signature, the first one in the lowest byte.\<close>

definition BHV_SIG :: u64 where
  "BHV_SIG = horner_sum of_char 256 ''BHV.''"

definition id_aa64pfr0_reset :: "u64 \<Rightarrow> u64" where
  "id_aa64pfr0_reset v =
     (let v = v AND NOT (push_bit 32 0xf); v = v AND NOT (push_bit 40 0xf) in v AND NOT (push_bit 44 0xf))"

definition id_pfr0_reset :: "u32 \<Rightarrow> u64" where
  "id_pfr0_reset v = ucast v AND 0xffff"

definition id_pfr1_reset :: "u32 \<Rightarrow> u64" where
  "id_pfr1_reset v =
     (let r = ucast v; r = r AND NOT 0xf; r = r AND NOT (push_bit 4 0xf) in r AND NOT (push_bit 12 0xf))"

definition set_way_flush_new :: "string \<Rightarrow> u32 \<Rightarrow> msr_reg" where
  "set_way_flush_new name i = register_new Set_way_flush name i True 0 0xfffffffe False"

definition ccsidr_new :: "nat \<Rightarrow> u64 \<Rightarrow> u64 list \<Rightarrow> msr_reg" where
  "ccsidr_new cs clidr ccsidr =
     base_new (Ccsidr cs clidr (map (\<lambda>level. ccsidr ! (level * 2)) [0..<CCSIDR_NUM])
       (map (\<lambda>level. ccsidr ! (level * 2 + 1)) [0..<CCSIDR_NUM])) ''CCSIDR_EL1'' CCSIDR_EL1"

definition aarch32_supported :: "u64 \<Rightarrow> bool" where
  "aarch32_supported pfr0 \<longleftrightarrow> get_supported_mode pfr0 EL1_SHIFT = AA64_AA32 \<or> get_supported_mode pfr0 EL0_SHIFT = AA64_AA32"

subsection \<open>The tables\<close>

definition setup_aarch64_debug :: "u64 \<Rightarrow> u64 \<Rightarrow> msr_reg list" where
  "setup_aarch64_debug dfr0 dfr1 =
     [plain ''ID_AA64DFR0_EL1'' ID_AA64DFR0_EL1 False AA64DFR0_DEBUG_V8,
      plain ''ID_AA64DFR1_EL1'' ID_AA64DFR1_EL1 False 0,
      register_new Mdscr ''MDSCR_EL1'' MDSCR_EL1 True 0 (- 1) False] @
     concat (map (\<lambda>i. [register_new Plain_reg ''DBGBVR_EL1'' (DBGBVR_EL1 ! i) True 0 0 False,
        register_new Plain_reg ''DBGBCR_EL1'' (DBGBCR_EL1 ! i) True 0 0 False,
        register_new Plain_reg ''DBGWVR_EL1'' (DBGWVR_EL1 ! i) True 0 0 False,
        register_new Plain_reg ''DBGWCR_EL1'' (DBGWCR_EL1 ! i) True 0 0 False]) [0..<16]) @
     [plain ''MDRAR_EL1'' MDRAR_EL1 True 0]"

definition setup_aarch64_auxiliary :: "msr_reg list" where
  "setup_aarch64_auxiliary =
     [plain ''ACTLR_EL1'' ACTLR_EL1 False 0,
      plain ''DBGAUTHSTATUS_EL1'' DBGAUTHSTATUS_EL1 False 0]"

definition setup_aarch64_features :: "u64 \<Rightarrow> u64 \<Rightarrow> u64 \<Rightarrow> u64 \<Rightarrow> u64 \<Rightarrow> u64 \<Rightarrow> msr_reg list" where
  "setup_aarch64_features pfr0 pfr1 isar0 isar1 isar2 zfr0 =
     (let isar1 = isar1 AND NOT (push_bit 4 0xff); isar1 = isar1 AND NOT (push_bit 24 0xff) in
     [plain ''ID_AA64PFR0_EL1'' ID_AA64PFR0_EL1 False (id_aa64pfr0_reset pfr0),
      plain ''ID_AA64PFR1_EL1'' ID_AA64PFR1_EL1 False 0,
      plain ''ID_AA64PFR2_EL1'' ID_AA64PFR2_EL1 False 0,
      plain ''ID_AA64SMFR0_EL1'' ID_AA64SMFR0_EL1 False 0,
      plain ''ID_AA64ZFR0_EL1'' ID_AA64ZFR0_EL1 False 0,
      plain ''ID_AA64FPFR0_EL1'' ID_AA64FPFR0_EL1 False 0,
      plain ''ID_AA64ISAR0_EL1'' ID_AA64ISAR0_EL1 False isar0,
      plain ''ID_AA64ISAR1_EL1'' ID_AA64ISAR1_EL1 False isar1,
      plain ''ID_AA64ISAR2_EL1'' ID_AA64ISAR2_EL1 False isar2,
      plain ''ID_AA64ISAR3_EL1'' ID_AA64ISAR3_EL1 False 0,
      plain ''ID_AA64AFR0_EL1'' ID_AA64AFR0_EL1 False BHV_SIG,
      plain ''ID_AA64AFR1_EL1'' ID_AA64AFR1_EL1 False 0])"

definition setup_aarch64_ras :: "msr_reg list" where
  "setup_aarch64_ras =
     [plain ''ERRIDR_EL1'' ERRIDR_EL1 False 0,
      plain ''ERRSELR_EL1'' ERRSELR_EL1 True 0,
      plain ''ERXADDR_EL1'' ERXADDR_EL1 True 0,
      plain ''ERXCTLR_EL1'' ERXCTLR_EL1 True 0,
      plain ''ERXFR_EL1'' ERXFR_EL1 False 0,
      plain ''ERXSTATUS_EL1'' ERXSTATUS_EL1 True 0,
      plain ''ERXMISC0_EL1'' ERXMISC0_EL1 True 0,
      plain ''ERXMISC1_EL1'' ERXMISC1_EL1 True 0]"

definition setup_aarch64_pms :: "msr_reg list" where
  "setup_aarch64_pms =
     [plain ''PMSIDR_EL1'' PMSIDR_EL1 False (push_bit 16 2 OR push_bit 12 6 OR 7),
      plain ''PMSCR_EL1'' PMSCR_EL1 True 0,
      register_new Plain_reg ''PMSEVFR_EL1'' PMSEVFR_EL1 True 0 0 False,
      plain ''PMSICR_EL1'' PMSICR_EL1 True 0,
      plain ''PMSIRR_EL1'' PMSIRR_EL1 True 0,
      plain ''PMSLATFR_EL1'' PMSLATFR_EL1 True 0]"

definition setup_aarch64_pm :: "msr_reg list" where
  "setup_aarch64_pm =
     [plain ''PMCR_EL0'' PMCR_EL0 True 0,
      plain ''PMCNTENSET_EL0'' PMCNTENSET_EL0 True 0,
      plain ''PMCNTENCLR_EL0'' PMCNTENCLR_EL0 True 0,
      plain ''PMOVSCLR_EL0'' PMOVSCLR_EL0 True 0,
      plain ''PMSWINC_EL0'' PMSWINC_EL0 True 0,
      plain ''PMSELR_EL0'' PMSELR_EL0 True 0,
      plain ''PMCEID0_EL0'' PMCEID0_EL0 False 0,
      plain ''PMCEID1_EL0'' PMCEID1_EL0 False 0,
      plain ''PMCCNTR_EL0'' PMCCNTR_EL0 True 0,
      plain ''PMXEVTYPER_EL0'' PMXEVTYPER_EL0 True 0,
      plain ''PMXEVCNTR_EL0'' PMXEVCNTR_EL0 True 0,
      plain ''PMUSERENR_EL0'' PMUSERENR_EL0 True 0,
      plain ''PMOVSSET_EL0'' PMOVSSET_EL0 True 0,
      plain ''PMCCFILTR_EL0'' PMCCFILTR_EL0 True 0,
      plain ''PMINTENSET_EL1'' PMINTENSET_EL1 True 0,
      plain ''PMINTENCLR_EL1'' PMINTENCLR_EL1 True 0] @
     map (\<lambda>i. plain ''PMEVCNTRN_EL0'' (pmevcntrn_el0 (of_nat i)) True 0) [0..<NUM_PMEVCNTR_REGS] @
     map (\<lambda>i. plain ''PMEVTYPERN_EL0'' (pmevtypern_el0 (of_nat i)) True 0) [0..<NUM_PMEVTYPER_REGS]"

definition setup_aarch64_memory_model :: "u64 \<Rightarrow> u64 \<Rightarrow> u64 \<Rightarrow> msr_reg list" where
  "setup_aarch64_memory_model mmfr0 mmfr1 mmfr2 =
     (let mmfr0 = mmfr0 AND NOT (push_bit 60 0xf);
          mmfr1 = mmfr1 AND NOT (push_bit 8 0xf); mmfr1 = mmfr1 AND NOT (push_bit 16 0xf);
          mmfr2 = mmfr2 AND NOT (push_bit 24 0xf); mmfr2 = mmfr2 AND NOT (push_bit 56 0xf) in
     [plain ''ID_AA64MMFR0_EL1'' ID_AA64MMFR0_EL1 False mmfr0,
      plain ''ID_AA64MMFR1_EL1'' ID_AA64MMFR1_EL1 False mmfr1,
      plain ''ID_AA64MMFR2_EL1'' ID_AA64MMFR2_EL1 False mmfr2,
      plain ''ID_AA64MMFR3_EL1'' ID_AA64MMFR3_EL1 False 0,
      plain ''ID_AA64MMFR4_EL1'' ID_AA64MMFR4_EL1 False 0])"

definition setup_aarch64_setway_flushes :: "msr_reg list" where
  "setup_aarch64_setway_flushes =
     [set_way_flush_new ''DC ISW'' DCISW_A64,
      set_way_flush_new ''DC CSW'' DCCSW_A64,
      set_way_flush_new ''DC CISW'' DCCISW_A64]"

definition setup_page_table_regs :: "msr_reg list" where
  "setup_page_table_regs =
     [base_new Wtrapped ''TCR_EL1'' TCR_EL1,
      base_new Wtrapped ''TTBR0_EL1'' TTBR0_EL1,
      base_new Wtrapped ''TTBR1_EL1'' TTBR1_EL1,
      base_new Sctlr ''SCTLR_EL1'' SCTLR_EL1]"

definition setup_tvm :: "msr_reg list" where
  "setup_tvm =
     [base_new Wtrapped ''AFSR0_EL1'' AFSR0_EL1,
      base_new Wtrapped ''AFSR1_EL1'' AFSR1_EL1,
      base_new Wtrapped ''ESR_EL1'' ESR_EL1,
      base_new Wtrapped ''FAR_EL1'' FAR_EL1,
      base_new Wtrapped ''MAIR_EL1'' MAIR_EL1,
      base_new Wtrapped ''MAIR1_A32'' MAIR1_A32,
      base_new Wtrapped ''AMAIR_EL1'' AMAIR_EL1,
      base_new Wtrapped ''DACR'' DACR,
      base_new Wtrapped ''IFSR'' IFSR,
      base_new Wtrapped ''CONTEXTDIR_EL1'' CONTEXTIDR_EL1] @
     setup_page_table_regs"

definition setup_gic_registers :: "msr_reg list" where
  "setup_gic_registers =
     [base_new Icc_sgi1r ''ICC_SGI1R_EL1'' ICC_SGI1R_EL1]"

definition setup_aarch32_features :: "AA32PlatformInfo \<Rightarrow> msr_reg list" where
  "setup_aarch32_features i =
     [plain ''ID_PFR0_EL1'' ID_PFR0_EL1 False (id_pfr0_reset (id_pfr0_el1 i)),
      plain ''ID_PFR1_EL1'' ID_PFR1_EL1 False (id_pfr1_reset (id_pfr1_el1 i)),
      plain ''ID_PFR2_EL1'' ID_PFR2_EL1 False 0,
      plain ''ID_ISAR0_EL1'' ID_ISAR0_EL1 False (ucast (id_isar0_el1 i)),
      plain ''ID_ISAR1_EL1'' ID_ISAR1_EL1 False (ucast (id_isar1_el1 i)),
      plain ''ID_ISAR2_EL1'' ID_ISAR2_EL1 False (ucast (id_isar2_el1 i)),
      plain ''ID_ISAR3_EL1'' ID_ISAR3_EL1 False (ucast (id_isar3_el1 i)),
      plain ''ID_ISAR4_EL1'' ID_ISAR4_EL1 False (ucast (id_isar4_el1 i AND NOT (push_bit 12 0xf))),
      plain ''ID_ISAR5_EL1'' ID_ISAR5_EL1 False (ucast (id_isar5_el1 i AND 0xfffff)),
      plain ''ID_ISAR6_EL1'' ID_ISAR6_EL1 False 0]"

definition setup_aarch32_memory_model :: "u32 \<Rightarrow> u32 \<Rightarrow> u32 \<Rightarrow> u32 \<Rightarrow> u32 \<Rightarrow> u32 \<Rightarrow> msr_reg list" where
  "setup_aarch32_memory_model mmfr0 mmfr1 mmfr2 mmfr3 mmfr4 mmfr5 =
     [plain ''ID_MMFR0_EL1'' ID_MMFR0_EL1 False (ucast mmfr0),
      plain ''ID_MMFR1_EL1'' ID_MMFR1_EL1 False (ucast mmfr1),
      plain ''ID_MMFR2_EL1'' ID_MMFR2_EL1 False (ucast mmfr2),
      plain ''ID_MMFR3_EL1'' ID_MMFR3_EL1 False (ucast mmfr3),
      plain ''ID_MMFR4_EL1'' ID_MMFR4_EL1 False 0,
      plain ''ID_MMFR5_EL1'' ID_MMFR5_EL1 False (ucast mmfr5)]"

definition setup_aarch32_media_vfp :: "u32 \<Rightarrow> u32 \<Rightarrow> u32 \<Rightarrow> u64 \<Rightarrow> msr_reg list" where
  "setup_aarch32_media_vfp mvfr0 mvfr1 mvfr2 midr =
     (let fpsid = (ucast midr AND 0xf0000000) OR push_bit 16 3 :: u32 in
     [plain ''FPSID'' FPSID True (ucast fpsid),
      plain ''ID_MVFR0_EL1'' MVFR0 False (ucast mvfr0),
      plain ''ID_MVFR1_EL1'' MVFR1 False (ucast mvfr1),
      plain ''ID_MVFR2_EL1'' MVFR2 False (ucast mvfr2)])"

definition setup_aarch32_debug :: "u64 \<Rightarrow> u32 \<Rightarrow> msr_reg list" where
  "setup_aarch32_debug aa64dfr0 dfr0 =
     [plain ''ID_DFR0_EL1'' ID_DFR0_EL1 False 0,
      plain ''ID_DFR1_EL1'' ID_DFR1_EL1 False 0,
      plain ''DBGDIDR'' DBGDIDR False 0]"

definition setup_aarch32_msr :: "PlatformInfo \<Rightarrow> msr_reg list" where
  "setup_aarch32_msr info =
     setup_aarch32_features (aa32 info) @
     setup_aarch32_memory_model (id_mmfr0_el1 (aa32 info)) (id_mmfr1_el1 (aa32 info)) (id_mmfr2_el1 (aa32 info))
       (id_mmfr3_el1 (aa32 info)) (id_mmfr4_el1 (aa32 info)) (id_mmfr5_el1 (aa32 info)) @
     setup_aarch32_media_vfp (mvfr0_el1 (aa32 info)) (mvfr1_el1 (aa32 info)) (mvfr2_el1 (aa32 info)) (midr_el1 (aa64 info)) @
     setup_aarch32_debug (id_aa64dfr0_el1 (aa64 info)) (id_dfr0_el1 (aa32 info)) @
     [plain ''JIDR'' JIDR False 0,
      register_new Plain_reg ''FCSEIDR'' FCSEIDR True 0 0 False,
      register_new Plain_reg ''TCMTR'' TCMTR True 0 0 False,
      register_new Plain_reg ''TLBTR'' TLBTR True 0 0 False,
      plain ''ID_AFR0_EL1'' ID_AFR0_EL1 False 0]"

definition setup_arch_msr :: "bool \<Rightarrow> PlatformInfo \<Rightarrow> msr_reg list" where
  "setup_arch_msr gic_v3 info =
     setup_aarch64_features (id_aa64pfr0_el1 (aa64 info)) (id_aa64pfr1_el1 (aa64 info)) (id_aa64isar0_el1 (aa64 info))
       (id_aa64isar1_el1 (aa64 info)) (id_aa64isar2_el1 (aa64 info)) (id_aa64zfr0_el1 (aa64 info)) @
     setup_aarch64_memory_model (id_aa64mmfr0_el1 (aa64 info)) (id_aa64mmfr1_el1 (aa64 info)) (id_aa64mmfr2_el1 (aa64 info)) @
     setup_aarch64_setway_flushes @
     setup_aarch64_debug (id_aa64dfr0_el1 (aa64 info)) (id_aa64dfr1_el1 (aa64 info)) @
     setup_tvm @ setup_aarch64_ras @ setup_aarch64_pm @ setup_aarch64_pms @
     [plain ''AIDR_EL1'' AIDR_EL1 False 0,
      plain ''REVIDR_EL1'' REVIDR_EL1 False 0,
      plain ''OSDLR_EL1'' OSDLR_EL1 True 0,
      plain ''OSLAR_EL1'' OSLAR_EL1 True 0,
      plain ''OSLSR_EL1'' OSLSR_EL1 False 0] @
     (if gic_v3 then setup_gic_registers else []) @
     (if aarch32_supported (id_aa64pfr0_el1 (aa64 info)) then setup_aarch32_msr info else [])"

definition setup_aarch64_caching_info :: "nat \<Rightarrow> CacheTopo \<Rightarrow> msr_reg list" where
  "setup_aarch64_caching_info cs topo =
     [plain ''CLIDR_EL1'' CLIDR_EL1 False (topo_clidr_el1 topo),
      plain ''CSSELR_EL1'' CSSELR_EL1 True 0,
      plain ''CTR_EL0'' CTR_A64 False (topo_ctr_el0 topo),
      ccsidr_new cs (topo_clidr_el1 topo) (topo_ccsidr_el1 topo)]"

definition setup_aarch64_physical_timer :: "msr_reg list" where
  "setup_aarch64_physical_timer =
     [register_new Cntp_tval ''CNTP_TVAL_EL0'' CNTP_TVAL_EL0 True 0 CNTP_TVAL_MASK False,
      register_new Cntp_ctl ''CNTP_CTL_EL0'' CNTP_CTL_EL0 True 0 3 False,
      register_new Cntp_cval ''CNTP_CVAL_EL0'' CNTP_CVAL_EL0 True 0 (- 1) False,
      base_new Cntpct ''CNTPCT_EL0'' CNTPCT_EL0]"

text \<open>The registers of a machine, in the order in which the platform sets them up.\<close>

definition machine_regs :: "bool \<Rightarrow> PlatformInfo \<Rightarrow> nat \<Rightarrow> CacheTopo \<Rightarrow> msr_reg list" where
  "machine_regs gic_v3 info cs topo =
     setup_arch_msr gic_v3 info @ setup_aarch64_caching_info cs topo @ setup_aarch64_physical_timer"

subsection \<open>Every register is found at its number\<close>

lemmas setup_defs = setup_aarch64_debug_def setup_aarch64_features_def setup_aarch64_ras_def setup_aarch64_pms_def setup_aarch64_pm_def
  setup_aarch64_memory_model_def setup_aarch64_setway_flushes_def setup_page_table_regs_def setup_tvm_def setup_gic_registers_def
  setup_aarch32_features_def setup_aarch32_memory_model_def setup_aarch32_media_vfp_def setup_aarch32_debug_def setup_aarch32_msr_def
  setup_aarch64_caching_info_def setup_aarch64_physical_timer_def

lemmas id_defs = build_msr_id_def pmevcntrn_el0_def pmevtypern_el0_def DBGBVR_EL1_def DBGBCR_EL1_def DBGWVR_EL1_def DBGWCR_EL1_def

lemma id_of_new [simp]:
  "m_id (register_new k name i w v m e) = i" "m_id (base_new k name i) = i" "m_id (set_way_flush_new name i) = i"
  "m_id (ccsidr_new cs clidr ccsidr) = CCSIDR_EL1"
  by (simp_all add: register_new_def base_new_def set_way_flush_new_def ccsidr_new_def)

text \<open>With every optional part, the numbers are different; a machine without a part has fewer of them.\<close>

lemma machine_ids_all:
  assumes "aarch32_supported (id_aa64pfr0_el1 (aa64 info))"
  shows "distinct (map unat (map m_id (machine_regs True info cs topo)))"
  unfolding machine_regs_def setup_arch_msr_def
  by (simp add: assms setup_defs id_defs Let_def upt_rec)

lemma machine_ids: "distinct (map m_id (machine_regs gic_v3 info cs topo))"
proof -
  let ?v = "id_aa64pfr0_el1 (aa64 info)"
  define A where "A = map m_id (setup_aarch64_features ?v (id_aa64pfr1_el1 (aa64 info)) (id_aa64isar0_el1 (aa64 info))
       (id_aa64isar1_el1 (aa64 info)) (id_aa64isar2_el1 (aa64 info)) (id_aa64zfr0_el1 (aa64 info)) @
     setup_aarch64_memory_model (id_aa64mmfr0_el1 (aa64 info)) (id_aa64mmfr1_el1 (aa64 info)) (id_aa64mmfr2_el1 (aa64 info)) @
     setup_aarch64_setway_flushes @
     setup_aarch64_debug (id_aa64dfr0_el1 (aa64 info)) (id_aa64dfr1_el1 (aa64 info)) @
     setup_tvm @ setup_aarch64_ras @ setup_aarch64_pm @ setup_aarch64_pms @
     [plain ''AIDR_EL1'' AIDR_EL1 False 0, plain ''REVIDR_EL1'' REVIDR_EL1 False 0, plain ''OSDLR_EL1'' OSDLR_EL1 True 0,
      plain ''OSLAR_EL1'' OSLAR_EL1 True 0, plain ''OSLSR_EL1'' OSLSR_EL1 False 0])"
  define D where "D = map m_id (setup_aarch64_caching_info cs topo @ setup_aarch64_physical_timer)"
  let ?m = "\<lambda>g b. A @ (if g then map m_id setup_gic_registers else []) @ (if b then map m_id (setup_aarch32_msr info) else []) @ D"
  have m: "map m_id (machine_regs g info cs topo) = ?m g (aarch32_supported ?v)" for g
    unfolding machine_regs_def setup_arch_msr_def A_def D_def by simp
  define info2 where "info2 = info\<lparr>aa64 := (aa64 info)\<lparr>id_aa64pfr0_el1 := 0x22\<rparr>\<rparr>"
  have "distinct (map m_id (machine_regs True info2 cs topo))"
    using machine_ids_all [of info2 cs topo] unfolding distinct_map [of unat]
    by (simp add: info2_def aarch32_supported_def get_supported_mode_def)
  moreover have "map m_id (machine_regs True info2 cs topo) = ?m True True"
    unfolding machine_regs_def setup_arch_msr_def A_def D_def
    by (simp add: info2_def aarch32_supported_def get_supported_mode_def setup_aarch32_msr_def setup_aarch64_features_def setup_aarch64_memory_model_def
        setup_aarch64_debug_def Let_def)
  ultimately have "distinct (?m True True)" by simp
  then have "distinct (?m g b)" for g b by (cases g; cases b) auto
  then show ?thesis unfolding m .
qed

text \<open>
  C33: The setup of the system registers succeeds for every platform when the allocations succeed: no
  register is refused, and afterwards the register bus finds each one at its number, with its reset
  value, and finds nothing at any other number. The register that tells the sizes of the caches
  refers to the selection register that was set up with it.
\<close>

theorem msr_setup_found:
  assumes "regs = machine_regs gic_v3 info (as ! n) topo" "n = length (setup_arch_msr gic_v3 info) + 1"
    and "length as = length regs" "distinct as"
  shows "\<exists>ds. register_regs (map Some as) regs [] = Some (True, ds) \<and>
    (\<forall>i < length regs. map_get (ucast (m_id (regs ! i))) ds = Some (as ! i, (regs ! i)\<lparr>m_key := ucast (m_id (regs ! i))\<rparr>)) \<and>
    (\<forall>k. k \<notin> (\<lambda>r. ucast (m_id r)) ` set regs \<longrightarrow> map_get k ds = None) \<and>
    map_option snd (map_get (ucast CCSIDR_EL1) ds) =
      Some ((ccsidr_new (as ! n) (topo_clidr_el1 topo) (topo_ccsidr_el1 topo))\<lparr>m_key := ucast CCSIDR_EL1\<rparr>) \<and>
    map_option m_id (map_of ds (as ! n)) = Some CSSELR_EL1"
proof -
  have dist: "distinct (map m_id regs)" unfolding assms(1) by (rule machine_ids)
  obtain ds where ds: "register_regs (map Some as) regs [] = Some (True, ds)" "devs_ok ds"
      "set ds = set (zip as (map (\<lambda>r. r\<lparr>m_key := ucast (m_id r)\<rparr>) regs))"
    using register_regs_all [of "[]" as regs] assms(3,4) dist by (auto simp: devs_ok_def)
  have at: "(as ! i, (regs ! i)\<lparr>m_key := ucast (m_id (regs ! i))\<rparr>) \<in> set ds" if "i < length regs" for i
    unfolding ds(3) set_zip using that assms(3) by (auto intro!: exI [of _ i])
  have get: "map_get (ucast (m_id (regs ! i))) ds = Some (as ! i, (regs ! i)\<lparr>m_key := ucast (m_id (regs ! i))\<rparr>)" if "i < length regs" for i
    using map_get_member [OF ds(2) at [OF that]] by simp
  have none: "map_get k ds = None" if "k \<notin> (\<lambda>r. ucast (m_id r)) ` set regs" for k
    using that ds(3) by (auto simp: map_get_def find_None_iff dest!: set_zip_rightD)
  have n: "n < length regs" "n + 2 < length regs" "m_id (regs ! n) = CSSELR_EL1"
      "regs ! (n + 2) = ccsidr_new (as ! n) (topo_clidr_el1 topo) (topo_ccsidr_el1 topo)"
    unfolding assms(1,2) machine_regs_def setup_aarch64_caching_info_def setup_aarch64_physical_timer_def
    by (simp_all add: nth_append)
  have "map_of ds (as ! n) = Some ((regs ! n)\<lparr>m_key := ucast (m_id (regs ! n))\<rparr>)"
    using at [OF n(1)] ds(2) by (intro map_of_is_SomeI) (simp_all add: devs_ok_def)
  then show ?thesis using ds(1) get none get [OF n(2)] n(3,4) by (intro exI [of _ ds]) simp
qed

definition example_info :: PlatformInfo where
  "example_info =
     \<lparr>aa64 = \<lparr>id_aa64pfr0_el1 = 0x1122, id_aa64pfr1_el1 = 0, id_aa64dfr0_el1 = 0, id_aa64dfr1_el1 = 0, id_aa64isar0_el1 = 0,
        id_aa64isar1_el1 = 0, id_aa64isar2_el1 = 0, id_aa64mmfr0_el1 = 0, id_aa64mmfr1_el1 = 0, id_aa64mmfr2_el1 = 0,
        id_aa64zfr0_el1 = 0, midr_el1 = 0x410fd034\<rparr>,
      aa32 = \<lparr>id_pfr0_el1 = 0x131, id_pfr1_el1 = 0, id_pfr2_el1 = 0, id_dfr0_el1 = 0, id_dfr1_el1 = 0, id_isar0_el1 = 0,
        id_isar1_el1 = 0, id_isar2_el1 = 0, id_isar3_el1 = 0, id_isar4_el1 = 0, id_isar5_el1 = 0, id_isar6_el1 = 0,
        id_mmfr0_el1 = 0, id_mmfr1_el1 = 0, id_mmfr2_el1 = 0, id_mmfr3_el1 = 0, id_mmfr4_el1 = 0, id_mmfr5_el1 = 0,
        mvfr0_el1 = 0, mvfr1_el1 = 0, mvfr2_el1 = 0\<rparr>\<rparr>"

definition example_topo :: CacheTopo where
  "example_topo = \<lparr>topo_ctr_el0 = 0x84448004, topo_clidr_el1 = 0x0a200023, topo_ccsidr_el1 = replicate 14 0x701fe00a\<rparr>"

theorem msr_setup_found_witness:
  "\<exists>n as ds. register_regs (map Some as) (machine_regs True example_info (as ! n) example_topo) [] = Some (True, ds) \<and>
     map_option m_id (map_of ds (as ! n)) = Some CSSELR_EL1"
proof -
  let ?n = "length (setup_arch_msr True example_info) + 1"
  let ?r = "machine_regs True example_info ?n example_topo"
  have n: "[0..<length ?r] ! ?n = ?n"
    by (rule nth_upt [of 0, simplified]) (simp add: machine_regs_def setup_aarch64_caching_info_def setup_aarch64_physical_timer_def)
  show ?thesis
    using msr_setup_found [where as = "[0..<length ?r]" and ?gic_v3.0 = True and info = example_info and topo = example_topo, OF refl refl] n
    by (intro exI [of _ ?n] exI [of _ "[0..<length ?r]"]) auto
qed

end
