(* ===== verification/MsrProps.thy ===== *)
theory MsrProps
  imports MsrSetup GicProps
begin

text \<open>
  The properties of the register bus, over the models of the vCPUs, the timer and the interrupt
  controller that the registers act on.
\<close>

subsection \<open>Software-generated interrupts from a register\<close>

definition sgi_of_gic :: "u64 \<Rightarrow> u64 \<Rightarrow> gicd \<Rightarrow> gicd option" where
  "sgi_of_gic v i g = icc_sgi1r_el1 v (unat i) g"

text \<open>The clusters name vCPUs of the machine only.\<close>

definition clusters_valid :: "gicd \<Rightarrow> bool" where
  "clusters_valid g \<longleftrightarrow> (\<forall>a cl i. cpu_affinity_to_cluster (cluster_map g) a = Some cl \<longrightarrow>
     cluster_vcpu_id cl i = INVALID_VCPU_ID \<or> unat (cluster_vcpu_id cl i) < num_vcpus g)"

lemma sgi_tot:
  assumes "gic_inv g" "num_vcpus g \<le> 8" "clusters_valid g"
  shows "tot (sgi_of_gic v i g) (\<lambda>g'. gic_inv g' \<and> same_shape g g')"
proof -
  let ?I = "\<lambda>h. gic_inv h \<and> same_shape g h"
  have one: "tot (send_sgi (unat i) c (sgi1r_intid v) h) ?I" if "?I h" "c < num_vcpus g" "\<not> PPI_BASE \<le> sgi1r_intid v" for c h
  proof -
    have h: "num_vcpus h = num_vcpus g" using that(1) same_shape_simps(2) by blast
    have "tot (host_step (Sgi (unat i) c (sgi1r_intid v)) h) (\<lambda>g'. gic_inv g' \<and> same_shape h g')"
      by (rule host_step_tot) (use that assms(2) h in auto)
    then show ?thesis using that(1) by (auto simp: tot_iff intro: same_shape_trans)
  qed
  show ?thesis
  proof (cases "PPI_BASE \<le> sgi1r_intid v")
    case True
    then show ?thesis using assms(1) by (simp add: sgi_of_gic_def icc_sgi1r_el1_def)
  next
    case False
    have irm: "tot (for_each [0..<num_vcpus g] (\<lambda>c g. if c = unat i then Some g else send_sgi (unat i) c (sgi1r_intid v) g) g) ?I"
      by (rule tot_for_each) (use assms(1) one [OF _ _ False] in auto)
    have "tot (for_each [0..<16] (\<lambda>c g. if \<not> sgi1r_target v c then Some g
        else if cluster_vcpu_id cl (of_nat c) = INVALID_VCPU_ID then Some g
        else send_sgi (unat i) (unat (cluster_vcpu_id cl (of_nat c))) (sgi1r_intid v) g) g) ?I"
      if "cpu_affinity_to_cluster (cluster_map g) (sgi1r_cluster_affinity v) = Some cl" for cl
    proof (rule tot_for_each)
      fix c h assume h: "?I h"
      have "tot (send_sgi (unat i) (unat (cluster_vcpu_id cl (of_nat c))) (sgi1r_intid v) h) ?I"
        if "cluster_vcpu_id cl (of_nat c) \<noteq> INVALID_VCPU_ID"
        using assms(3) \<open>cpu_affinity_to_cluster _ _ = Some cl\<close> that by (intro one [OF h _ False]) (auto simp: clusters_valid_def)
      then show "tot (if \<not> sgi1r_target v c then Some h
        else if cluster_vcpu_id cl (of_nat c) = INVALID_VCPU_ID then Some h
        else send_sgi (unat i) (unat (cluster_vcpu_id cl (of_nat c))) (sgi1r_intid v) h) ?I" using h by simp
    qed (use assms(1) in simp)
    then show ?thesis using False irm assms(1)
      by (auto simp: sgi_of_gic_def icc_sgi1r_el1_def split: option.splits)
  qed
qed

subsection \<open>The trap of the memory registers\<close>

definition features_ok :: "cpus \<Rightarrow> bool" where
  "features_ok c \<longleftrightarrow> cpus_ok c \<and> (\<forall>v. Some v \<in> set (vcpu_tab c) \<longrightarrow> length (fe_requests (v_tvm v)) = 2)"

lemma tvm_switch:
  assumes "features_ok c" "i < ucast (configured_vcpus c)"
  shows "\<exists>c'. ctrl_feature_on_vcpu ctrl_feature_tvm i b VMM 0 c = Some c' \<and> features_ok c' \<and> configured_vcpus c' = configured_vcpus c \<and>
    is_feature_enabled_on_vcpu requested_feature_tvm i VMM c' = Some b \<and> (\<forall>j. j \<noteq> i \<longrightarrow> vcpu_at j c' = vcpu_at j c)"
proof -
  have ok: "cpus_ok c" using assms(1) by (simp add: features_ok_def)
  obtain v where v: "vcpu_at i c = Some v" "unat i < length (vcpu_tab c)" "vcpu_tab c ! unat i = Some v"
    by (rule vcpu_at_ok [OF ok assms(2)])
  have l: "length (fe_requests (v_tvm v)) = 2" using assms(1) v(2,3) nth_mem by (fastforce simp: features_ok_def)
  then have ne: "fe_requests (v_tvm v) \<noteq> []" by auto
  let ?f = "\<lparr>fe_requests = (fe_requests (v_tvm v))[0 := if b then 0 OR ENABLE_MASK else 0], fe_dirty = True\<rparr>"
  let ?v = "v\<lparr>v_tvm := ?f\<rparr>"
  let ?c = "c\<lparr>vcpu_tab := (vcpu_tab c)[unat i := Some ?v]\<rparr>"
  have "ctrl_feature_on_vcpu ctrl_feature_tvm i b VMM 0 c = Some ?c"
    using assms(2) v l by (simp add: ctrl_feature_on_vcpu_def vcpu_mod_def ctrl_feature_tvm_def feature_request_eq)
  moreover have "features_ok ?c"
    using assms(1) l set_update_subset_insert [of "vcpu_tab c" "unat i" "Some ?v"] by (fastforce simp: features_ok_def cpus_ok_def)
  moreover have "vcpu_at i ?c = Some ?v" "\<forall>j. j \<noteq> i \<longrightarrow> vcpu_at j ?c = vcpu_at j c"
    using v by (simp_all add: vcpu_at_def nth_opt_def word_unat_eq_iff)
  moreover from this(1) have "is_feature_enabled_on_vcpu requested_feature_tvm i VMM ?c = Some b"
    using assms(2) ne by (simp add: is_feature_enabled_on_vcpu_def requested_feature_tvm_def feature_is_requested_by_def nth_opt_def)
  ultimately show ?thesis by (intro exI [of _ ?c]) simp
qed

lemma tvm_known:
  assumes "features_ok c" "i < ucast (configured_vcpus c)"
  obtains b where "is_feature_enabled_on_vcpu requested_feature_tvm i VMM c = Some b"
proof -
  have ok: "cpus_ok c" using assms(1) by (simp add: features_ok_def)
  obtain v where v: "vcpu_at i c = Some v" "unat i < length (vcpu_tab c)" "vcpu_tab c ! unat i = Some v"
    by (rule vcpu_at_ok [OF ok assms(2)])
  have "length (fe_requests (v_tvm v)) = 2" using assms(1) v(2,3) nth_mem by (fastforce simp: features_ok_def)
  then have "fe_requests (v_tvm v) \<noteq> []" by auto
  then show ?thesis using that assms(2) v(1)
    by (simp add: is_feature_enabled_on_vcpu_def requested_feature_tvm_def feature_is_requested_by_def nth_opt_def)
qed

subsection \<open>A well-formed system\<close>

text \<open>
  The areas flushed so far with the memory and the host, what a flush of the guest's memory makes of
  them, and when the write of a new value of the system control register asks for one.
\<close>

abbreviation flush_state :: "('g, 'd, 'x) msr_sys \<Rightarrow> 'x flushed" where
  "flush_state s \<equiv> (sys_flushed s, sys_world s)"

definition flush_memory :: "('g, 'd, 'x) msr_sys \<Rightarrow> 'x flushed option" where
  "flush_memory s = do { e \<leftarrow> sys_vbus s; for_each (devices (env_bus e)) (flush_callback e) (flush_state s) }"

definition flush_due :: "msr_ctx \<Rightarrow> u64 \<Rightarrow> ('g, 'd, 'x) msr_sys \<Rightarrow> bool" where
  "flush_due x v s \<longleftrightarrow> tvm_enabled x s = Some True \<and> cache_enabled (x_sctlr x) \<noteq> cache_enabled v"

text \<open>The two accesses that abort.\<close>

definition reg_aborts :: "vbus_access \<Rightarrow> msr_ctx \<Rightarrow> u64 \<Rightarrow> msr_reg \<Rightarrow> ('g, 'd, 'x) msr_sys \<Rightarrow> bool" where
  "reg_aborts acc x v r s \<longleftrightarrow>
     m_kind r \<in> {Wtrapped, Sctlr} \<and> acc \<noteq> WRITE \<or>
     m_kind r = Sctlr \<and> acc = WRITE \<and> flush_due x v s \<and> flush_memory s = None"

lemma flush_cong:
  assumes "sys_cpus s' = sys_cpus s" "sys_vbus s' = sys_vbus s" "flush_state s' = flush_state s"
  shows "flush_memory s' = flush_memory s" "flush_due x v s' = flush_due x v s"
  using assms by (simp_all add: flush_memory_def flush_due_def tvm_enabled_def)

text \<open>What the accesses leave alone of the registers: addresses, numbers and classes.\<close>

definition skel :: "devs \<Rightarrow> (nat \<times> u64 \<times> msr_kind) list" where
  "skel ds = map (\<lambda>(a, r). (a, m_key r, m_kind r)) ds"

fun kind_ok :: "nat set \<Rightarrow> msr_kind \<Rightarrow> bool" where
  "kind_ok as (Ccsidr cs clidr data inst) = (cs \<in> as \<and> CCSIDR_NUM \<le> length data \<and> CCSIDR_NUM \<le> length inst)"
| "kind_ok as (X86 k) = False"
| "kind_ok as _ = True"

definition skel_ok :: "(nat \<times> u64 \<times> msr_kind) list \<Rightarrow> bool" where
  "skel_ok ks \<longleftrightarrow> distinct (map fst ks) \<and> distinct (map (\<lambda>(a, k, c). k) ks) \<and> (\<forall>(a, k, c) \<in> set ks. kind_ok (fst ` set ks) c)"

text \<open>
  A system of an ARM machine with at most eight vCPUs: the registers have different addresses and
  numbers and none of the x86 classes, and each cache size register refers to a register of the
  map; a bus is associated; the vCPUs have their features; the interrupt controller keeps its
  invariant and its clusters name vCPUs of the machine.
\<close>

definition msr_sys_ok :: "(gicd, 'd, 'x) msr_sys \<Rightarrow> bool" where
  "msr_sys_ok s \<longleftrightarrow>
     skel_ok (skel (sys_devs s)) \<and> (\<forall>a. sys_last_access s = Some a \<longrightarrow> a \<in> fst ` set (sys_devs s)) \<and>
     (sys_last_access s = None \<longrightarrow> sys_num_accesses s = 0) \<and> sys_vbus s \<noteq> None \<and> features_ok (sys_cpus s) \<and>
     gic_inv (sys_gic s) \<and> num_vcpus (sys_gic s) \<le> 8 \<and> clusters_valid (sys_gic s)"

definition ctx_ok :: "msr_ctx \<Rightarrow> (gicd, 'd, 'x) msr_sys \<Rightarrow> bool" where
  "ctx_ok x s \<longleftrightarrow> x_vcpu x < ucast (configured_vcpus (sys_cpus s))"

lemma skel_facts:
  "map fst (skel ds) = map fst ds" "map (\<lambda>(a, k, c). k) (skel ds) = map (\<lambda>d. m_key (snd d)) ds" "fst ` set (skel ds) = fst ` set ds"
  by (force simp: skel_def case_prod_beta intro!: image_eqI)+

lemma skel_addresses: "skel ds' = skel ds \<Longrightarrow> fst ` set ds' = fst ` set ds"
  using skel_facts(3) [of ds] skel_facts(3) [of ds'] by simp

lemma skel_devs_ok: "skel_ok (skel ds) \<Longrightarrow> devs_ok ds"
  by (simp add: skel_ok_def devs_ok_def skel_facts)

lemma skel_put:
  assumes "distinct (map fst ds)" "map_of ds a = Some r" "m_key r' = m_key r" "m_kind r' = m_kind r"
  shows "skel (map (\<lambda>d. if fst d = a then (a, r') else d) ds) = skel ds"
proof -
  have "b = r" if "(a, b) \<in> set ds" for b using map_of_is_SomeI [OF assms(1) that] assms(2) by simp
  then show ?thesis using assms(3,4) by (auto simp: skel_def)
qed

text \<open>What an access keeps, besides the values of the registers and the statistics.\<close>

definition kept :: "(gicd, 'd, 'x) msr_sys \<Rightarrow> (gicd, 'd, 'x) msr_sys \<Rightarrow> bool" where
  "kept s s' \<longleftrightarrow> skel (sys_devs s') = skel (sys_devs s) \<and> sys_last_access s' = sys_last_access s \<and>
     sys_num_accesses s' = sys_num_accesses s \<and> sys_vbus s' = sys_vbus s \<and>
     (features_ok (sys_cpus s) \<longrightarrow> features_ok (sys_cpus s')) \<and> configured_vcpus (sys_cpus s') = configured_vcpus (sys_cpus s) \<and>
     (gic_inv (sys_gic s) \<longrightarrow> gic_inv (sys_gic s')) \<and> same_shape (sys_gic s) (sys_gic s')"

lemma kept_refl [simp]: "kept s s" by (simp add: kept_def)

lemma kept_trans: "kept s t \<Longrightarrow> kept t u \<Longrightarrow> kept s u"
  by (auto simp: kept_def intro: same_shape_trans)

lemma kept_ok:
  assumes "msr_sys_ok s" "kept s s'"
  shows "msr_sys_ok s'" and "ctx_ok x s \<Longrightarrow> ctx_ok x s'"
proof -
  have "same_shape (sys_gic s) (sys_gic s')" using assms(2) by (simp add: kept_def)
  then show "msr_sys_ok s'" using assms skel_addresses [of "sys_devs s'" "sys_devs s"]
    by (simp add: kept_def msr_sys_ok_def clusters_valid_def same_shape_simps)
  show "ctx_ok x s \<Longrightarrow> ctx_ok x s'" using assms(2) by (simp add: kept_def ctx_ok_def)
qed

lemma kept_put:
  assumes "msr_sys_ok s" "map_of (sys_devs s) a = Some r" "m_key r' = m_key r" "m_kind r' = m_kind r"
  shows "kept s (put_reg a r' s)"
  using skel_put [OF _ assms(2-4)] assms(1) by (auto simp: kept_def put_reg_def msr_sys_ok_def skel_ok_def skel_facts)

lemma kept_stats:
  "kept s (upd_stats a f s)"
  by (auto simp: kept_def upd_stats_def skel_def)

lemma kept_sys_fields [simp]:
  "kept s (s'\<lparr>sys_timer := t\<rparr>) = kept s s'" "kept s (s'\<lparr>sys_flushed := fl, sys_world := w\<rparr>) = kept s s'"
  "kept s (s'\<lparr>sys_stats_last := l, sys_stats_seen := x, sys_stats_total := y\<rparr>) = kept s s'"
  by (simp_all add: kept_def)

lemma register_access_frame:
  "register_access acc v r = (e, w, r') \<Longrightarrow> m_key r' = m_key r \<and> m_kind r' = m_kind r \<and> m_name r' = m_name r \<and> m_id r' = m_id r \<and>
     m_reset_value r' = m_reset_value r"
  by (auto simp: register_access_def Let_def split: if_splits)

subsection \<open>No access aborts\<close>

lemma set_tvm_tot:
  assumes "msr_sys_ok s" "ctx_ok x s"
  shows "tot (set_tvm b x s) (\<lambda>s'. kept s s' \<and> tvm_enabled x s' = Some b \<and> sys_devs s' = sys_devs s \<and> flush_state s' = flush_state s \<and>
    (\<forall>j. j \<noteq> x_vcpu x \<longrightarrow> vcpu_at j (sys_cpus s') = vcpu_at j (sys_cpus s)))"
  using tvm_switch [of "sys_cpus s" "x_vcpu x" b] assms
  by (auto simp: set_tvm_def msr_sys_ok_def ctx_ok_def kept_def tvm_enabled_def)

lemma tvm_enabled_known:
  assumes "msr_sys_ok s" "ctx_ok x s"
  obtains b where "tvm_enabled x s = Some b"
  using tvm_known [of "sys_cpus s" "x_vcpu x"] assms by (auto simp: msr_sys_ok_def ctx_ok_def tvm_enabled_def)

lemma set_way_flush_tot:
  assumes "msr_sys_ok s" "ctx_ok x s"
  shows "tot (set_way_flush x s) (\<lambda>s'. kept s s' \<and> tvm_enabled x s' = Some True \<and> sys_devs s' = sys_devs s \<and> flush_state s' = flush_state s \<and>
    (\<forall>j. j \<noteq> x_vcpu x \<longrightarrow> vcpu_at j (sys_cpus s') = vcpu_at j (sys_cpus s)))"
proof -
  obtain b where "tvm_enabled x s = Some b" by (rule tvm_enabled_known [OF assms])
  then show ?thesis using set_tvm_tot [OF assms, of True] by (simp add: set_way_flush_def)
qed

lemma flush_toggle_tot:
  assumes "msr_sys_ok s" "ctx_ok x s" "tvm_enabled x s = Some b"
  shows "flush_due x w s \<and> flush_memory s = None \<Longrightarrow> flush_on_cache_toggle x w s = None"
    and "\<not> (flush_due x w s \<and> flush_memory s = None) \<Longrightarrow> tot (flush_on_cache_toggle x w s) (\<lambda>s'. kept s s' \<and> sys_devs s' = sys_devs s \<and>
      tvm_enabled x s' = Some (b \<and> \<not> cache_enabled w) \<and>
      Some (flush_state s') = (if flush_due x w s then flush_memory s else Some (flush_state s)) \<and>
      (\<forall>j. j \<noteq> x_vcpu x \<longrightarrow> vcpu_at j (sys_cpus s') = vcpu_at j (sys_cpus s)))"
proof -
  obtain e where e: "sys_vbus s = Some e" using assms(1) by (auto simp: msr_sys_ok_def)
  show "flush_on_cache_toggle x w s = None" if "flush_due x w s \<and> flush_memory s = None"
    using that e by (simp add: flush_on_cache_toggle_def flush_due_def flush_memory_def)
  assume n: "\<not> (flush_due x w s \<and> flush_memory s = None)"
  show "tot (flush_on_cache_toggle x w s) (\<lambda>s'. kept s s' \<and> sys_devs s' = sys_devs s \<and>
      tvm_enabled x s' = Some (b \<and> \<not> cache_enabled w) \<and>
      Some (flush_state s') = (if flush_due x w s then flush_memory s else Some (flush_state s)) \<and>
      (\<forall>j. j \<noteq> x_vcpu x \<longrightarrow> vcpu_at j (sys_cpus s') = vcpu_at j (sys_cpus s)))"
  proof (cases b)
    case False
    then show ?thesis using assms by (simp add: flush_on_cache_toggle_def flush_due_def)
  next
    case True
    obtain fl m where f: "(if flush_due x w s then flush_memory s else Some (flush_state s)) = Some (fl, m)"
    proof (cases "flush_due x w s")
      case True
      then obtain z where "flush_memory s = Some z" using n by auto
      then show ?thesis using True that [of "fst z" "snd z"] by simp
    qed (use that in simp)
    let ?s = "if flush_due x w s then s\<lparr>sys_flushed := fl, sys_world := m\<rparr> else s"
    have k: "kept s ?s" by simp
    have "tot (set_tvm False x ?s) (\<lambda>s'. kept ?s s' \<and> tvm_enabled x s' = Some False \<and> sys_devs s' = sys_devs ?s \<and> flush_state s' = flush_state ?s \<and>
      (\<forall>j. j \<noteq> x_vcpu x \<longrightarrow> vcpu_at j (sys_cpus s') = vcpu_at j (sys_cpus ?s)))"
      by (rule set_tvm_tot [OF kept_ok [OF assms(1) k]]) (rule assms(2))
    moreover have "flush_on_cache_toggle x w s = (if cache_enabled w then set_tvm False x ?s else Some ?s)"
      using True assms(3) e f by (simp add: flush_on_cache_toggle_def flush_due_def flush_memory_def split: if_splits)
    moreover have "tvm_enabled x ?s = Some True" using assms(3) True by (simp add: tvm_enabled_def)
    moreover have "Some (flush_state ?s) = (if flush_due x w s then flush_memory s else Some (flush_state s))"
      using f by (simp split: if_splits)
    ultimately show ?thesis using True k by (auto simp: tot_iff intro: kept_trans)
  qed
qed

lemma plain_access_kept:
  assumes "msr_sys_ok s" "map_of (sys_devs s) a = Some r" "m_key r' = m_key r" "m_kind r' = m_kind r"
    and "register_access acc v r' = (e, w, q)"
  shows "kept s (put_reg a q s)"
  using kept_put [OF assms(1,2)] register_access_frame [OF assms(5)] assms(3,4) by simp

lemma ccsidr_tot:
  assumes "CCSIDR_NUM \<le> length data" "CCSIDR_NUM \<le> length inst"
  shows "tot (ccsidr_access clidr data inst acc v csselr) (\<lambda>_. True)"
proof -
  obtain e el q where r: "register_access acc 0 csselr = (e, el, q)" by (cases "register_access acc 0 csselr")
  have "unat (drop_bit 1 el AND 7) < length data \<and> unat (drop_bit 1 el AND 7) < length inst" if "\<not> 6 < unat (drop_bit 1 el AND 7)"
    using that assms by simp
  then show ?thesis using r by (auto simp: ccsidr_access_def Let_def nth_opt_def tot_def)
qed

lemma reg_access_tot:
  assumes "msr_sys_ok s" "ctx_ok x s" "map_of (sys_devs s) a = Some r" "\<not> reg_aborts acc x v r s"
  shows "tot (msr_reg_access sgi_of_gic acc x v a r s) (\<lambda>(e, w, s'). kept s s')"
proof -
  have plain: "tot (plain_access acc v a r s) (\<lambda>(e, w, s'). kept s s')"
    using plain_access_kept [OF assms(1,3) refl refl] by (auto simp: plain_access_def split: prod.split)
  have "(a, r) \<in> set (sys_devs s)" using assms(3) by (rule map_of_SomeD)
  then have "(a, m_key r, m_kind r) \<in> set (skel (sys_devs s))" by (force simp: skel_def)
  then have ok: "kind_ok (fst ` set (sys_devs s)) (m_kind r)"
    using assms(1) by (auto simp: msr_sys_ok_def skel_ok_def skel_facts)
  show ?thesis
  proof (cases "m_kind r")
    case Set_way_flush
    obtain e w q where ra: "register_access acc v r = (e, w, q)" by (cases "register_access acc v r")
    have k: "kept s (put_reg a q s)" by (rule plain_access_kept [OF assms(1,3) refl refl ra])
    from set_way_flush_tot [OF kept_ok(1) [OF assms(1) k] kept_ok(2) [OF assms(1) k assms(2)]]
    have "tot (set_way_flush x (put_reg a q s)) (kept s)" by (rule tot_mono) (use k kept_trans in blast)
    then show ?thesis using Set_way_flush ra k by (simp add: msr_reg_access_def set_way_access_def Let_def)
  next
    case Cntp_ctl
    then show ?thesis using plain_access_kept [OF assms(1,3), of "r\<lparr>m_value := ucast (t_ctl (sys_timer s))\<rparr>" acc v]
      by (auto simp: msr_reg_access_def cntp_ctl_access_def Let_def split: prod.split)
  next
    case Cntp_cval
    then show ?thesis using plain_access_kept [OF assms(1,3), of "r\<lparr>m_value := t_cval (sys_timer s)\<rparr>" acc v]
      by (auto simp: msr_reg_access_def cntp_cval_access_def Let_def split: prod.split)
  next
    case (Ccsidr cs clidr data inst)
    then obtain q where "map_of (sys_devs s) cs = Some q"
      using ok map_of_eq_None_iff [of "sys_devs s" cs] by (cases "map_of (sys_devs s) cs") auto
    then show ?thesis using ok Ccsidr ccsidr_tot [of data inst clidr acc v q]
      by (auto simp: msr_reg_access_def tot_iff)
  next
    case Icc_sgi1r
    have "tot (sgi_of_gic v (x_vcpu x) (sys_gic s)) (\<lambda>g'. gic_inv g' \<and> same_shape (sys_gic s) g')"
      using assms(1) by (intro sgi_tot) (simp_all add: msr_sys_ok_def)
    then show ?thesis using Icc_sgi1r by (auto simp: msr_reg_access_def icc_sgi1r_access_def tot_iff kept_def)
  next
    case Sctlr
    obtain b where "tvm_enabled x s = Some b" by (rule tvm_enabled_known [OF assms(1,2)])
    note fl = flush_toggle_tot(2) [OF assms(1,2) this, of v]
    have w: "acc = WRITE" "\<not> (flush_due x v s \<and> flush_memory s = None)" using Sctlr assms(4) by (auto simp: reg_aborts_def)
    have "tot (flush_on_cache_toggle x v s) (kept s)" by (rule tot_mono [OF fl [OF w(2)]]) auto
    then show ?thesis using Sctlr w(1) by (simp add: msr_reg_access_def sctlr_access_def)
  qed (use plain ok assms(4) in \<open>auto simp: msr_reg_access_def wtrapped_access_def reg_aborts_def split: prod.split\<close>)
qed

lemma map_get_key: "map_get i ds = Some (a, r) \<Longrightarrow> (a, r) \<in> set ds \<and> m_key r = i"
  unfolding map_get_def find_Some_iff by (metis nth_mem snd_conv)

lemma map_get_at:
  assumes "devs_ok ds" "map_get i ds = Some (a, r)"
  shows "map_of ds a = Some r"
  using map_get_key [OF assms(2)] assms(1) by (auto simp: devs_ok_def)

lemma stats_map_of:
  "map_of (map (\<lambda>d. if fst d = a then (a, snd d\<lparr>m_stats := f (m_stats (snd d))\<rparr>) else d) ds) a =
     map_option (\<lambda>q. q\<lparr>m_stats := f (m_stats q)\<rparr>) (map_of ds a)"
  by (induction ds) auto

lemma trace_tot:
  assumes "msr_sys_ok s" "a \<in> fst ` set (sys_devs s)" "acc \<noteq> EXEC"
  shows "tot (msr_log_trace_info a r acc v s) (\<lambda>s'. msr_sys_ok s' \<and> sys_devs s' = sys_devs s \<and> sys_cpus s' = sys_cpus s \<and>
    flush_state s' = flush_state s \<and> sys_gic s' = sys_gic s \<and> sys_timer s' = sys_timer s \<and> sys_vbus s' = sys_vbus s)"
proof -
  have "\<exists>q. map_of (sys_devs s) b = Some q" if "sys_last_access s = Some b" for b
    using assms(1) that map_of_eq_None_iff [of "sys_devs s" b] by (cases "map_of (sys_devs s) b") (auto simp: msr_sys_ok_def)
  then show ?thesis using assms
    by (cases "sys_last_access s") (auto simp: msr_log_trace_info_def msr_sys_ok_def Let_def)
qed

text \<open>An access, in one step: the register found, its effect, and the rest.\<close>

lemma access_tot:
  assumes "msr_sys_ok s" "ctx_ok x s" "acc \<noteq> EXEC" "map_get i (sys_devs s) = Some (a, r)"
    and "\<not> reg_aborts acc x v r s"
    and P: "\<And>s1 r1. kept s s1 \<Longrightarrow> sys_cpus s1 = sys_cpus s \<Longrightarrow> flush_state s1 = flush_state s \<Longrightarrow> sys_timer s1 = sys_timer s \<Longrightarrow>
      map (\<lambda>(b, q). (b, q\<lparr>m_stats := msr_stats_new\<rparr>)) (sys_devs s1) = map (\<lambda>(b, q). (b, q\<lparr>m_stats := msr_stats_new\<rparr>)) (sys_devs s) \<Longrightarrow>
      map_of (sys_devs s1) a = Some r1 \<Longrightarrow> r1\<lparr>m_stats := msr_stats_new\<rparr> = r\<lparr>m_stats := msr_stats_new\<rparr> \<Longrightarrow>
      tot (msr_reg_access sgi_of_gic acc x v a r1 s1) (\<lambda>(e, w, s2). Q e w s2)"
  shows "tot (msr_access sgi_of_gic acc x i v s) (\<lambda>(e, w, s'). msr_sys_ok s' \<and> ctx_ok x s' \<and> skel (sys_devs s') = skel (sys_devs s) \<and> sys_vbus s' = sys_vbus s \<and>
    (\<exists>s2. Q e w s2 \<and> sys_cpus s' = sys_cpus s2 \<and> flush_state s' = flush_state s2 \<and> sys_timer s' = sys_timer s2 \<and>
      map (\<lambda>(b, q). (b, q\<lparr>m_stats := msr_stats_new\<rparr>)) (sys_devs s') = map (\<lambda>(b, q). (b, q\<lparr>m_stats := msr_stats_new\<rparr>)) (sys_devs s2)))"
proof -
  let ?z = "map (\<lambda>(b, q). (b, q\<lparr>m_stats := msr_stats_new\<rparr>))"
  define s1 where "s1 = (if sys_stats_enabled s
      then upd_stats a (msr_stats_start acc) s\<lparr>sys_stats_last := Some a, sys_stats_seen := x_start x, sys_stats_total := sys_stats_total s + 1\<rparr>
      else s)"
  have k1: "kept s s1" unfolding s1_def using kept_stats [of s a] by simp
  have z: "?z (sys_devs (upd_stats b f t)) = ?z (sys_devs t)" for b f t by (auto simp: upd_stats_def)
  have z1: "?z (sys_devs s1) = ?z (sys_devs s)" by (simp add: s1_def z)
  have dev: "devs_ok (sys_devs s)" using assms(1) by (simp add: msr_sys_ok_def skel_devs_ok)
  have at: "map_of (sys_devs s) a = Some r" by (rule map_get_at [OF dev assms(4)])
  have mz: "map_of (?z ds) b = map_option (\<lambda>q. q\<lparr>m_stats := msr_stats_new\<rparr>) (map_of ds b)" for ds b
    by (induction ds) auto
  obtain r1 where r1: "map_of (sys_devs s1) a = Some r1" "r1\<lparr>m_stats := msr_stats_new\<rparr> = r\<lparr>m_stats := msr_stats_new\<rparr>"
    using mz [of "sys_devs s1" a] mz [of "sys_devs s" a] at z1 by (cases "map_of (sys_devs s1) a") auto
  have kind: "m_kind r1 = m_kind r" using arg_cong [OF r1(2), of m_kind] by simp
  have ok1: "msr_sys_ok s1" "ctx_ok x s1" using kept_ok [OF assms(1) k1] assms(2) by auto
  have "tot (msr_reg_access sgi_of_gic acc x v a r1 s1) (\<lambda>(e, w, s2). kept s1 s2)"
  proof (rule reg_access_tot [OF ok1 r1(1)])
    have "sys_cpus s1 = sys_cpus s" "sys_vbus s1 = sys_vbus s" "flush_state s1 = flush_state s" by (simp_all add: s1_def upd_stats_def)
    from flush_cong [OF this] show "\<not> reg_aborts acc x v r1 s1" using assms(5) kind by (simp add: reg_aborts_def)
  qed
  moreover have "tot (msr_reg_access sgi_of_gic acc x v a r1 s1) (\<lambda>(e, w, s2). Q e w s2)"
    by (rule P [OF k1 _ _ _ z1 r1]) (simp_all add: s1_def upd_stats_def)
  ultimately obtain e w s2 where s2: "msr_reg_access sgi_of_gic acc x v a r1 s1 = Some (e, w, s2)" "kept s1 s2" "Q e w s2"
    by (auto simp: tot_iff)
  have ok2: "msr_sys_ok s2" "ctx_ok x s2" using kept_ok [OF ok1(1) s2(2)] ok1(2) by auto
  have k2: "kept s s2" by (rule kept_trans [OF k1 s2(2)])
  have "a \<in> fst ` set (sys_devs s)" using map_of_SomeD [OF at] by force
  then have "a \<in> fst ` set (sys_devs s2)" using k2 skel_addresses [of "sys_devs s2" "sys_devs s"] by (simp add: kept_def)
  from trace_tot [OF ok2(1) this assms(3), of r1 w]
  have "tot (if sys_trace s2 then msr_log_trace_info a r1 acc w s2 else Some s2)
      (\<lambda>s3. msr_sys_ok s3 \<and> sys_devs s3 = sys_devs s2 \<and> sys_cpus s3 = sys_cpus s2 \<and> flush_state s3 = flush_state s2 \<and> sys_timer s3 = sys_timer s2 \<and> sys_vbus s3 = sys_vbus s2)"
    using ok2(1) by (auto simp: tot_iff)
  then obtain s3 where s3: "(if sys_trace s2 then msr_log_trace_info a r1 acc w s2 else Some s2) = Some s3" "msr_sys_ok s3"
      "sys_devs s3 = sys_devs s2" "sys_cpus s3 = sys_cpus s2" "flush_state s3 = flush_state s2" "sys_timer s3 = sys_timer s2" "sys_vbus s3 = sys_vbus s2" by (auto simp: tot_iff)
  let ?s4 = "if sys_stats_enabled s3 then upd_stats a (msr_stats_end (x_end x) (x_start x)) s3 else s3"
  have k4: "kept s3 ?s4" by (simp add: kept_stats)
  have "msr_access sgi_of_gic acc x i v s = Some (e, w, ?s4)"
    using assms(3,4) r1(1) s2(1) s3(1) unfolding msr_access_def by (simp add: s1_def [symmetric])
  moreover have "msr_sys_ok ?s4" by (rule kept_ok(1) [OF s3(2) k4])
  moreover have "ctx_ok x ?s4" using ok2(2) s3(4) by (simp add: ctx_ok_def upd_stats_def)
  moreover have "skel (sys_devs ?s4) = skel (sys_devs s)" using k4 k2 s3(3) by (simp add: kept_def)
  moreover have "sys_cpus ?s4 = sys_cpus s2" "flush_state ?s4 = flush_state s2" "sys_timer ?s4 = sys_timer s2" using s3(4-6) by (simp_all add: upd_stats_def)
  moreover have "sys_vbus ?s4 = sys_vbus s" using k4 k2 s3(7) by (simp add: kept_def)
  moreover have "?z (sys_devs ?s4) = ?z (sys_devs s2)" by (simp add: s3(3) z)
  ultimately show ?thesis using s2(3) by auto
qed

lemma access_aborts_none:
  assumes "msr_sys_ok s" "ctx_ok x s" "acc \<noteq> EXEC" "map_get i (sys_devs s) = Some (a, r)" "reg_aborts acc x v r s"
  shows "msr_access sgi_of_gic acc x i v s = None"
proof -
  have at: "map_of (sys_devs s) a = Some r"
    using map_get_at [OF skel_devs_ok] assms(1,4) by (simp add: msr_sys_ok_def)
  define s1 where "s1 = (if sys_stats_enabled s
      then upd_stats a (msr_stats_start acc) s\<lparr>sys_stats_last := Some a, sys_stats_seen := x_start x, sys_stats_total := sys_stats_total s + 1\<rparr>
      else s)"
  have k1: "kept s s1" unfolding s1_def using kept_stats [of s a] by simp
  note ok1 = kept_ok(1) [OF assms(1) k1] kept_ok(2) [OF assms(1) k1 assms(2)]
  obtain r1 where r1: "map_of (sys_devs s1) a = Some r1" "m_kind r1 = m_kind r"
    using at that by (cases "sys_stats_enabled s") (auto simp: s1_def upd_stats_def stats_map_of)
  obtain b where b: "tvm_enabled x s1 = Some b" by (rule tvm_enabled_known [OF ok1])
  have "sys_cpus s1 = sys_cpus s" "sys_vbus s1 = sys_vbus s" "flush_state s1 = flush_state s" by (simp_all add: s1_def upd_stats_def)
  note c = flush_cong [OF this]
  have "msr_reg_access sgi_of_gic acc x v a r1 s1 = None"
    using assms(5) c r1(2) flush_toggle_tot(1) [OF ok1 b, of v]
    by (auto simp: reg_aborts_def msr_reg_access_def wtrapped_access_def sctlr_access_def)
  then show ?thesis using assms(3,4) r1(1) unfolding msr_access_def by (simp add: s1_def [symmetric])
qed

text \<open>
  C34: which accesses of a vCPU to a system register abort. On an ARM machine with at most eight vCPUs,
  whose registers are those that the setup functions make (none of the x86 classes, the cache size
  registers refer to registers of the map), whose clusters name existing vCPUs and which has a bus
  associated with the flushes, an access aborts in two cases and no other: it is not a write and the
  register traps its writes alone, or it is a write of the system control register that switches the
  cache while the vCPU's memory registers are trapped and the host refuses a mapping or its removal in
  the flush of an address space. Every other access returns, whatever the number, the value and the
  state of the registers, and the system stays well formed. This covers the accesses that reach the
  interrupt controller, the timer and the feature switches of the vCPU. A host that maps and unmaps
  makes no flush abort.
\<close>

theorem msr_access_safe:
  assumes "msr_sys_ok s" "ctx_ok x s" "acc \<noteq> EXEC"
  shows "(if \<exists>a r. map_get i (sys_devs s) = Some (a, r) \<and> reg_aborts acc x v r s
     then msr_access sgi_of_gic acc x i v s = None
     else \<exists>e w s'. msr_access sgi_of_gic acc x i v s = Some (e, w, s') \<and> msr_sys_ok s' \<and> ctx_ok x s') \<and>
    (\<forall>e. sys_vbus s = Some e \<and> host_maps (env_host e) \<longrightarrow> flush_memory s \<noteq> None)"
proof -
  have fl: "\<forall>e. sys_vbus s = Some e \<and> host_maps (env_host e) \<longrightarrow> flush_memory s \<noteq> None"
    using flush_devices_total by (fastforce simp: flush_memory_def)
  show ?thesis
  proof (cases "map_get i (sys_devs s)")
    case None
    then show ?thesis using assms fl by (simp add: msr_access_def)
  next
    case (Some d)
    obtain a r where d: "d = (a, r)" by (cases d)
    show ?thesis
    proof (cases "reg_aborts acc x v r s")
      case False
      have reg: "tot (msr_reg_access sgi_of_gic acc x v a r1 s1) (\<lambda>(e, w, s2). True)"
        if k: "kept s s1" and c: "sys_cpus s1 = sys_cpus s" "flush_state s1 = flush_state s" and at: "map_of (sys_devs s1) a = Some r1"
          and z: "r1\<lparr>m_stats := msr_stats_new\<rparr> = r\<lparr>m_stats := msr_stats_new\<rparr>" for s1 r1
      proof -
        have "sys_vbus s1 = sys_vbus s" using k by (simp add: kept_def)
        from flush_cong [OF c(1) this c(2)] have "\<not> reg_aborts acc x v r1 s1"
          using arg_cong [OF z, of m_kind] False by (simp add: reg_aborts_def)
        then have "tot (msr_reg_access sgi_of_gic acc x v a r1 s1) (\<lambda>(e, w, s'). kept s1 s')"
          using reg_access_tot [OF kept_ok(1) [OF assms(1) k] kept_ok(2) [OF assms(1) k assms(2)] at] by simp
        then show ?thesis by (rule tot_mono) auto
      qed
      have "tot (msr_access sgi_of_gic acc x i v s) (\<lambda>(e, w, s'). msr_sys_ok s' \<and> ctx_ok x s')"
        by (rule tot_mono [OF access_tot [OF assms _ False, where Q = "\<lambda>_ _ _. True"]]) (use Some d reg in auto)
      then show ?thesis using False Some d fl by (auto simp: tot_iff)
    next
      case True
      have "msr_access sgi_of_gic acc x i v s = None"
        by (rule access_aborts_none [OF assms _ True]) (use Some d in simp)
      then show ?thesis using True Some d fl by auto
    qed
  qed
qed

definition csselr_example :: "nat \<Rightarrow> devs" where
  "csselr_example a =
     [(a, (plain ''CSSELR_EL1'' CSSELR_EL1 True 0)\<lparr>m_key := ucast CSSELR_EL1\<rparr>),
      (a + 1, (set_way_flush_new ''DC CISW'' DCCISW_A64)\<lparr>m_key := ucast DCCISW_A64\<rparr>),
      (a + 2, (base_new Sctlr ''SCTLR_EL1'' SCTLR_EL1)\<lparr>m_key := ucast SCTLR_EL1\<rparr>),
      (a + 3, (ccsidr_new a 0x23 (replicate 14 0x701fe00a))\<lparr>m_key := ucast CCSIDR_EL1\<rparr>)]"

definition msr_sys_example :: "(gicd, nat, unit) msr_sys" where
  "msr_sys_example =
     \<lparr>sys_devs = csselr_example 100, sys_trace = True, sys_fold = True, sys_last_access = None, sys_num_accesses = 0,
      sys_stats_enabled = True, sys_stats_last = None, sys_stats_seen = 0, sys_stats_total = 0, sys_log = [],
      sys_timer = timer_new 0, sys_cpus = \<lparr>configured_vcpus = 2, vcpu_tab = [Some (vcpu_new 0), Some (vcpu_new 1)], irq_ctlr_cpus = []\<rparr>,
      sys_gic = demo_gic (\<lambda>n i. i) (\<lambda>n. False) 3, sys_vbus = Some demand_env, sys_world = (demo_mem, ()), sys_flushed = []\<rparr>"

definition msr_ctx_example :: "u64 \<Rightarrow> msr_ctx" where
  "msr_ctx_example sctlr = \<lparr>x_vcpu = 1, x_sctlr = sctlr, x_cntvoff = 0, x_start = 10, x_clock = 11, x_end = 12\<rparr>"

lemma msr_example_ok: "msr_sys_ok msr_sys_example" "ctx_ok (msr_ctx_example v) msr_sys_example"
proof -
  have "gic_inv (demo_gic (\<lambda>n i. i) (\<lambda>n. False) 3)" by (rule demo_inv) (simp_all add: irq_new_def)
  moreover have "clusters_valid (demo_gic (\<lambda>n i. i) (\<lambda>n. False) 3)"
    by (simp add: clusters_valid_def demo_gic_def cpu_affinity_to_cluster_def get_cluster_at_def)
  moreover have "skel_ok (skel (csselr_example 100))"
    by (simp add: skel_ok_def skel_def csselr_example_def build_msr_id_def register_new_def base_new_def set_way_flush_new_def ccsidr_new_def)
  moreover have "features_ok (sys_cpus msr_sys_example)"
    by (auto simp: features_ok_def cpus_ok_def msr_sys_example_def vcpu_new_def feature_new_def)
  ultimately show "msr_sys_ok msr_sys_example"
    by (simp add: msr_sys_ok_def msr_sys_example_def demo_gic_def)
  show "ctx_ok (msr_ctx_example v) msr_sys_example" by (simp add: ctx_ok_def msr_ctx_example_def msr_sys_example_def)
qed

theorem msr_access_safe_witness:
  "\<exists>e w s'. msr_access sgi_of_gic WRITE (msr_ctx_example 0) (ucast SCTLR_EL1) 5 msr_sys_example = Some (e, w, s') \<and> msr_sys_ok s' \<and>
     msr_access sgi_of_gic READ (msr_ctx_example 0) (ucast SCTLR_EL1) 5 msr_sys_example = None"
proof -
  let ?s = msr_sys_example
  have d: "map_get (ucast SCTLR_EL1) (sys_devs ?s) = Some (102, (base_new Sctlr ''SCTLR_EL1'' SCTLR_EL1)\<lparr>m_key := ucast SCTLR_EL1\<rparr>)"
    by (simp add: msr_sys_example_def csselr_example_def map_get_def build_msr_id_def)
  have h: "sys_vbus ?s = Some demand_env" "host_maps (env_host demand_env)"
    by (simp_all add: msr_sys_example_def host_maps_def demand_env_def)
  note th = msr_access_safe [OF msr_example_ok, where i = "ucast SCTLR_EL1" and v = 5]
  have "flush_memory ?s \<noteq> None" using th [of WRITE 0] h by blast
  then have "\<not> reg_aborts WRITE (msr_ctx_example 0) 5 ((base_new Sctlr ''SCTLR_EL1'' SCTLR_EL1)\<lparr>m_key := ucast SCTLR_EL1\<rparr>) ?s"
    "reg_aborts READ (msr_ctx_example 0) 5 ((base_new Sctlr ''SCTLR_EL1'' SCTLR_EL1)\<lparr>m_key := ucast SCTLR_EL1\<rparr>) ?s"
    by (simp_all add: reg_aborts_def base_new_def register_new_def)
  then show ?thesis using th [of WRITE 0] th [of READ 0] d by auto
qed

subsection \<open>Set/way flushes and the cache\<close>

lemma map_get_skel:
  "map_option (\<lambda>(a, r). (a, m_kind r)) (map_get i ds) = map_option (\<lambda>(a, k, c). (a, c)) (find (\<lambda>(a, k, c). k = i) (skel ds))"
  by (induction ds) (auto simp: map_get_def skel_def)

lemma map_get_same:
  assumes "skel ds' = skel ds" "map_get i ds = Some (a, r)"
  obtains r' where "map_get i ds' = Some (a, r')" "m_kind r' = m_kind r"
proof -
  have "map_option (\<lambda>(a, r). (a, m_kind r)) (map_get i ds') = Some (a, m_kind r)"
    using map_get_skel [of i ds] map_get_skel [of i ds'] assms by simp
  then show ?thesis using that by (cases "map_get i ds'") auto
qed

lemma tvm_of_cpus: "sys_cpus s = sys_cpus s' \<Longrightarrow> x_vcpu x = x_vcpu y \<Longrightarrow> tvm_enabled x s = tvm_enabled y s'"
  by (simp add: tvm_enabled_def)

lemma set_way_access_tot:
  assumes "msr_sys_ok s" "ctx_ok x s" "map_get i (sys_devs s) = Some (a, r)" "m_kind r = Set_way_flush"
  shows "tot (msr_access sgi_of_gic WRITE x i v s) (\<lambda>(e, w, s'). msr_sys_ok s' \<and> ctx_ok x s' \<and> skel (sys_devs s') = skel (sys_devs s) \<and>
    sys_vbus s' = sys_vbus s \<and> w = v \<and> tvm_enabled x s' = Some True \<and> flush_state s' = flush_state s \<and>
    (\<forall>j. j \<noteq> x_vcpu x \<longrightarrow> vcpu_at j (sys_cpus s') = vcpu_at j (sys_cpus s)))"
proof -
  let ?Q = "\<lambda>(e :: vbus_err) w s'. w = v \<and> tvm_enabled x s' = Some True \<and> flush_state s' = flush_state s \<and>
    (\<forall>j. j \<noteq> x_vcpu x \<longrightarrow> vcpu_at j (sys_cpus s') = vcpu_at j (sys_cpus s))"
  have reg: "tot (msr_reg_access sgi_of_gic WRITE x v a r1 s1) (\<lambda>(e, w, s2). ?Q e w s2)"
    if k: "kept s s1" and c: "sys_cpus s1 = sys_cpus s" "flush_state s1 = flush_state s" and at: "map_of (sys_devs s1) a = Some r1"
      and z: "r1\<lparr>m_stats := msr_stats_new\<rparr> = r\<lparr>m_stats := msr_stats_new\<rparr>" for s1 r1
  proof -
    have kind: "m_kind r1 = Set_way_flush" using arg_cong [OF z, of m_kind] assms(4) by simp
    obtain e w q where ra: "register_access WRITE v r1 = (e, w, q)" by (cases "register_access WRITE v r1")
    have w: "w = v" using ra by (auto simp: register_access_write split: if_splits)
    note ok1 = kept_ok(1) [OF assms(1) k] kept_ok(2) [OF assms(1) k assms(2)]
    have k2: "kept s1 (put_reg a q s1)" by (rule plain_access_kept [OF ok1(1) at refl refl ra])
    have "sys_cpus (put_reg a q s1) = sys_cpus s" "flush_state (put_reg a q s1) = flush_state s" using c by (simp_all add: put_reg_def)
    then have "tot (set_way_flush x (put_reg a q s1)) (\<lambda>s2. ?Q e w s2)"
      using set_way_flush_tot [OF kept_ok(1) [OF ok1(1) k2] kept_ok(2) [OF ok1(1) k2 ok1(2)]] w by (auto simp: tot_iff)
    then show ?thesis using kind ra by (simp add: msr_reg_access_def set_way_access_def Let_def)
  qed
  show ?thesis
    by (rule tot_mono [OF access_tot [OF assms(1,2) _ assms(3), where Q = ?Q]])
      (use assms(4) reg in \<open>auto simp: reg_aborts_def cong: tvm_of_cpus\<close>)
qed

lemma sctlr_access_tot:
  assumes "msr_sys_ok s" "ctx_ok x s" "map_get i (sys_devs s) = Some (a, r)" "m_kind r = Sctlr" "tvm_enabled x s = Some b"
    and "\<not> (flush_due x v s \<and> flush_memory s = None)"
  shows "tot (msr_access sgi_of_gic WRITE x i v s) (\<lambda>(e, w, s'). e = UPDATE_REGISTER \<and> w = v \<and> tvm_enabled x s' = Some (b \<and> \<not> cache_enabled v) \<and>
    Some (flush_state s') = (if flush_due x v s then flush_memory s else Some (flush_state s)) \<and>
    (\<forall>j. j \<noteq> x_vcpu x \<longrightarrow> vcpu_at j (sys_cpus s') = vcpu_at j (sys_cpus s)))"
proof -
  let ?Q = "\<lambda>e w s'. e = UPDATE_REGISTER \<and> w = v \<and> tvm_enabled x s' = Some (b \<and> \<not> cache_enabled v) \<and>
    Some (flush_state s') = (if flush_due x v s then flush_memory s else Some (flush_state s)) \<and>
    (\<forall>j. j \<noteq> x_vcpu x \<longrightarrow> vcpu_at j (sys_cpus s') = vcpu_at j (sys_cpus s))"
  have reg: "tot (msr_reg_access sgi_of_gic WRITE x v a r1 s1) (\<lambda>(e, w, s2). ?Q e w s2)"
    if k: "kept s s1" and c: "sys_cpus s1 = sys_cpus s" "flush_state s1 = flush_state s"
      and z: "r1\<lparr>m_stats := msr_stats_new\<rparr> = r\<lparr>m_stats := msr_stats_new\<rparr>" for s1 r1
  proof -
    have kind: "m_kind r1 = Sctlr" using arg_cong [OF z, of m_kind] assms(4) by simp
    have t: "tvm_enabled x s1 = Some b" using assms(5) c(1) by (simp add: tvm_enabled_def)
    have "sys_vbus s1 = sys_vbus s" using k by (simp add: kept_def)
    note fc = flush_cong [OF c(1) this c(2)]
    from flush_toggle_tot(2) [OF kept_ok(1) [OF assms(1) k] kept_ok(2) [OF assms(1) k assms(2)] t, of v]
    show ?thesis using kind c fc assms(6) by (auto simp: msr_reg_access_def sctlr_access_def tot_iff)
  qed
  have fst: "sys_flushed s' = sys_flushed s2 \<and> sys_world s' = sys_world s2 \<Longrightarrow> Some (flush_state s2) = z \<Longrightarrow> Some (flush_state s') = z"
    for z and s' s2 :: "(gicd, 'd, 'x) msr_sys" by simp
  show ?thesis
    by (rule tot_mono [OF access_tot [OF assms(1,2) _ assms(3), where Q = ?Q]])
      (use assms(4,6) reg fst in \<open>auto simp: reg_aborts_def cong: tvm_of_cpus\<close>)
qed

text \<open>
  C35: cache maintenance by set and way. When a vCPU executes a set/way flush, the writes of its memory
  registers are trapped from then on, and nothing is flushed yet. Its next write of the system
  control register flushes the guest's memory exactly when it switches the cache on or off: then, for
  each device of the bus that is guest memory which the guest and the monitor may write and that is
  flushed on reset, in the order of the bus, the whole of its space is cleaned and invalidated, at the
  place where it is mapped when it is; otherwise nothing is. The write aborts exactly when this flush
  aborts, which is when the host refuses to map a space or to remove the mapping. When it returns, the
  trapping stops exactly when the cache is on afterwards, and the value is passed on to the real
  register. The other vCPUs are not affected.
\<close>

theorem msr_cache_toggle:
  assumes "msr_sys_ok s" "ctx_ok x s" "x_vcpu y = x_vcpu x" "sys_vbus s = Some env"
    and "map_get i (sys_devs s) = Some (a, r)" "m_kind r = Set_way_flush" "map_get k (sys_devs s) = Some (b, q)" "m_kind q = Sctlr"
  shows "\<exists>e s1. msr_access sgi_of_gic WRITE x i v s = Some (e, v, s1) \<and> tvm_enabled x s1 = Some True \<and> flush_state s1 = flush_state s \<and>
    (let toggles = (cache_enabled (x_sctlr y) \<noteq> cache_enabled w); res = msr_access sgi_of_gic WRITE y k w s1 in
      (res = None \<longleftrightarrow> toggles \<and> for_each (devices (env_bus env)) (flush_callback env) (flush_state s) = None) \<and>
      (\<forall>e' w' s2. res = Some (e', w', s2) \<longrightarrow>
         e' = UPDATE_REGISTER \<and> w' = w \<and> tvm_enabled y s2 = Some (\<not> cache_enabled w) \<and>
         (\<forall>j. j \<noteq> x_vcpu x \<longrightarrow> vcpu_at j (sys_cpus s2) = vcpu_at j (sys_cpus s)) \<and>
         (if toggles
          then \<exists>rs. sys_flushed s2 = sys_flushed s @ rs \<and>
            list_all2 (\<lambda>n. whole_space (env_as env (snd n))) (filter (flushed_dev env) (devices (env_bus env))) rs
          else flush_state s2 = flush_state s)))"
proof -
  obtain e s1 where s1: "msr_access sgi_of_gic WRITE x i v s = Some (e, v, s1)" "msr_sys_ok s1" "ctx_ok x s1"
      "skel (sys_devs s1) = skel (sys_devs s)" "tvm_enabled x s1 = Some True" "flush_state s1 = flush_state s" "sys_vbus s1 = sys_vbus s"
      "\<forall>j. j \<noteq> x_vcpu x \<longrightarrow> vcpu_at j (sys_cpus s1) = vcpu_at j (sys_cpus s)"
    using set_way_access_tot [OF assms(1,2,5,6), of v] by (auto simp: tot_iff)
  obtain q' where q: "map_get k (sys_devs s1) = Some (b, q')" "m_kind q' = Sctlr"
    using map_get_same [OF s1(4) assms(7)] assms(8) by metis
  have y: "ctx_ok y s1" "tvm_enabled y s1 = Some True" using s1(3,5) assms(3) by (simp_all add: ctx_ok_def tvm_enabled_def)
  have fm: "flush_memory s1 = for_each (devices (env_bus env)) (flush_callback env) (flush_state s)"
    using s1(6,7) assms(4) by (simp add: flush_memory_def)
  have due: "flush_due y w s1 \<longleftrightarrow> cache_enabled (x_sctlr y) \<noteq> cache_enabled w" using y(2) by (simp add: flush_due_def)
  show ?thesis
  proof (cases "flush_due y w s1 \<and> flush_memory s1 = None")
    case True
    then have "reg_aborts WRITE y w q' s1" using q(2) by (simp add: reg_aborts_def)
    then have "msr_access sgi_of_gic WRITE y k w s1 = None" by (intro access_aborts_none [OF s1(2) y(1) _ q(1)]) simp_all
    then show ?thesis using True s1 fm due by auto
  next
    case False
    obtain s2 where s2: "msr_access sgi_of_gic WRITE y k w s1 = Some (UPDATE_REGISTER, w, s2)" "tvm_enabled y s2 = Some (\<not> cache_enabled w)"
        "Some (flush_state s2) = (if flush_due y w s1 then flush_memory s1 else Some (flush_state s1))"
        "\<forall>j. j \<noteq> x_vcpu y \<longrightarrow> vcpu_at j (sys_cpus s2) = vcpu_at j (sys_cpus s1)"
      using sctlr_access_tot [OF s1(2) y(1) q y(2) False] by (auto simp: tot_iff)
    have fl: "\<exists>rs. sys_flushed s2 = sys_flushed s @ rs \<and>
        list_all2 (\<lambda>n. whole_space (env_as env (snd n))) (filter (flushed_dev env) (devices (env_bus env))) rs"
      if "flush_due y w s1"
      using flush_devices_areas [of "devices (env_bus env)" env "sys_flushed s" "sys_world s" "flush_state s2"] s2(3) that fm by auto
    have "for_each (devices (env_bus env)) (flush_callback env) (flush_state s) \<noteq> None" if "flush_due y w s1"
      using that False fm by simp
    then show ?thesis using s1(1,5,6,8) s2 fl due assms(3) by (auto simp: Let_def)
  qed
qed

text \<open>The memory of the example is mapped on demand, so the flush maps it, at the place that its host gives.\<close>

theorem msr_cache_toggle_witness:
  "\<exists>e s1 s2 va. msr_access sgi_of_gic WRITE (msr_ctx_example 5) (ucast DCCISW_A64) 0 msr_sys_example = Some (e, 0, s1) \<and>
     msr_access sgi_of_gic WRITE (msr_ctx_example 5) (ucast SCTLR_EL1) 1 s1 = Some (UPDATE_REGISTER, 1, s2) \<and>
     sys_flushed s1 = [] \<and> sys_flushed s2 = [(va, 0x100)] \<and> va \<noteq> 0"
proof -
  let ?s = msr_sys_example
  have d: "map_get (ucast DCCISW_A64) (sys_devs ?s) =
        Some (101, (set_way_flush_new ''DC CISW'' DCCISW_A64)\<lparr>m_key := ucast DCCISW_A64\<rparr>)"
      "map_get (ucast SCTLR_EL1) (sys_devs ?s) = Some (102, (base_new Sctlr ''SCTLR_EL1'' SCTLR_EL1)\<lparr>m_key := ucast SCTLR_EL1\<rparr>)"
    by (simp_all add: msr_sys_example_def csselr_example_def map_get_def build_msr_id_def)
  have c: "cache_enabled (x_sctlr (msr_ctx_example 5))" "\<not> cache_enabled 1" "sys_flushed ?s = []" "sys_vbus ?s = Some demand_env"
    by (simp_all add: cache_enabled_def mmu_enabled_def msr_ctx_example_def msr_sys_example_def)
  have dv: "filter (flushed_dev demand_env) (devices (env_bus demand_env)) = [(\<lparr>r_begin = 0x1000, r_size = 0x100\<rparr>, 1)]"
    by (simp add: flushed_dev_def demand_env_def demo_env_def demo_bus_devices demo_as_def simple_as_new_def posix_cred_def)
  have tot: "for_each (devices (env_bus demand_env)) (flush_callback demand_env) z \<noteq> None" for z
    by (rule flush_devices_total) (simp add: host_maps_def demand_env_def)
  obtain e s1 where s1: "msr_access sgi_of_gic WRITE (msr_ctx_example 5) (ucast DCCISW_A64) 0 ?s = Some (e, 0, s1)" "sys_flushed s1 = []"
    and n: "msr_access sgi_of_gic WRITE (msr_ctx_example 5) (ucast SCTLR_EL1) 1 s1 \<noteq> None"
    and res: "\<And>e' w' s2. msr_access sgi_of_gic WRITE (msr_ctx_example 5) (ucast SCTLR_EL1) 1 s1 = Some (e', w', s2) \<Longrightarrow>
      e' = UPDATE_REGISTER \<and> w' = 1 \<and> (\<exists>rs. sys_flushed s2 = rs \<and>
        list_all2 (\<lambda>n. whole_space (env_as demand_env (snd n))) (filter (flushed_dev demand_env) (devices (env_bus demand_env))) rs)"
    using msr_cache_toggle [OF msr_example_ok(1) msr_example_ok(2) refl c(4) d(1) _ d(2), of 5 0 1] c tot
    by (auto simp: set_way_flush_new_def base_new_def register_new_def Let_def)
  obtain e' w' s2 where s2: "msr_access sgi_of_gic WRITE (msr_ctx_example 5) (ucast SCTLR_EL1) 1 s1 = Some (e', w', s2)"
    using n by (cases "msr_access sgi_of_gic WRITE (msr_ctx_example 5) (ucast SCTLR_EL1) 1 s1") auto
  obtain rs where rs: "sys_flushed s2 = rs" "list_all2 (\<lambda>n. whole_space (env_as demand_env (snd n))) [(\<lparr>r_begin = 0x1000, r_size = 0x100\<rparr>, 1)] rs"
    using res [OF s2] unfolding dv by blast
  then obtain va where "sys_flushed s2 = [(va, 0x100)]" "va \<noteq> 0"
    by (auto simp: list_all2_Cons1 whole_space_def demand_env_def demo_as_def simple_as_new_def)
  then show ?thesis using s1 s2 res [OF s2] by blast
qed

subsection \<open>Reading back what was written\<close>

definition reg_value :: "u64 \<Rightarrow> devs \<Rightarrow> u64 option" where
  "reg_value i ds = map_option (\<lambda>d. m_value (snd d)) (map_get i ds)"

definition write_refused :: "u64 \<Rightarrow> msr_reg \<Rightarrow> bool" where
  "write_refused v r \<longleftrightarrow> \<not> m_writable r \<or> m_err_on_write_reserved r \<and> v AND NOT (m_write_mask r) \<noteq> 0"

lemma reg_value_stats:
  "map (\<lambda>(b, q). (b, q\<lparr>m_stats := msr_stats_new\<rparr>)) ds' = map (\<lambda>(b, q). (b, q\<lparr>m_stats := msr_stats_new\<rparr>)) ds \<Longrightarrow> reg_value i ds' = reg_value i ds"
proof -
  assume eq: "map (\<lambda>(b, q). (b, q\<lparr>m_stats := msr_stats_new\<rparr>)) ds' = map (\<lambda>(b, q). (b, q\<lparr>m_stats := msr_stats_new\<rparr>)) ds"
  have "reg_value i (map (\<lambda>(b, q). (b, q\<lparr>m_stats := msr_stats_new\<rparr>)) xs) = reg_value i xs" for xs
    by (induction xs) (auto simp: reg_value_def map_get_def)
  from this [of ds] this [of ds'] show ?thesis by (simp add: eq)
qed

lemma reg_value_put:
  assumes "devs_ok ds" "map_of ds a = Some r" "m_key r' = m_key r"
  shows "reg_value j (map (\<lambda>d. if fst d = a then (a, r') else d) ds) = (if j = m_key r then Some (m_value r') else reg_value j ds)"
proof -
  have at: "\<forall>d \<in> set ds. fst d = a \<longrightarrow> m_key (snd d) = m_key r"
  proof -
    have "q = r" if "(a, q) \<in> set ds" for q using map_of_is_SomeI [OF _ that] assms(1,2) by (simp add: devs_ok_def)
    then show ?thesis by auto
  qed
  let ?f = "\<lambda>d. if fst d = a then (a, r') else d"
  have "map_get j (map ?f ds) = map_option ?f (map_get j ds)"
  proof -
    have "find P (map ?f xs) = map_option ?f (find (\<lambda>d. P (?f d)) xs)" for P xs by (induction xs) auto
    moreover have "find (\<lambda>d. m_key (snd (?f d)) = j) ds = find (\<lambda>d. m_key (snd d) = j) ds"
      by (rule find_cong [OF refl]) (use at assms(3) in auto)
    ultimately show ?thesis by (simp add: map_get_def)
  qed
  moreover have "map_get (m_key r) ds = Some (a, r)" by (rule map_get_member [OF assms(1) map_of_SomeD [OF assms(2)]])
  moreover have "fst d \<noteq> a" if "map_get j ds = Some d" "j \<noteq> m_key r" for d
  proof -
    have "d \<in> set ds" "m_key (snd d) = j" using that(1) map_get_key [of j ds "fst d" "snd d"] by auto
    then show ?thesis using at that(2) by auto
  qed
  ultimately show ?thesis by (cases "map_get j ds") (auto simp: reg_value_def)
qed

lemma put_value:
  assumes "msr_sys_ok s" "map_of (sys_devs s) a = Some r" "m_key r' = m_key r"
  shows "reg_value j (sys_devs (put_reg a r' s)) = (if j = m_key r then Some (m_value r') else reg_value j (sys_devs s))"
  using reg_value_put [OF skel_devs_ok assms(2,3)] assms(1) by (simp add: msr_sys_ok_def put_reg_def)

lemma plain_kind_access: "m_kind r \<in> {Plain_reg, Mdscr, Id_reg} \<Longrightarrow> msr_reg_access sgi acc x v a r s = plain_access acc v a r s"
  by (auto simp: msr_reg_access_def)

lemma stats_eqD: "r1\<lparr>m_stats := t\<rparr> = r\<lparr>m_stats := t\<rparr> \<Longrightarrow>
    m_kind r1 = m_kind r \<and> m_value r1 = m_value r \<and> m_writable r1 = m_writable r \<and> m_write_mask r1 = m_write_mask r \<and>
    m_err_on_write_reserved r1 = m_err_on_write_reserved r \<and> m_key r1 = m_key r"
  by (cases r1; cases r) simp

text \<open>The value that a register gives: the compare register gives that of the timer.\<close>

definition held :: "msr_reg \<Rightarrow> ('g, 'd, 'x) msr_sys \<Rightarrow> u64" where
  "held r s = (if m_kind r = Cntp_cval then t_cval (sys_timer s) else m_value r)"

definition written :: "u64 \<Rightarrow> msr_reg \<Rightarrow> ('g, 'd, 'x) msr_sys \<Rightarrow> u64" where
  "written v r s = (if write_refused v r then held r s else (held r s AND NOT (m_write_mask r)) OR (v AND m_write_mask r))"

text \<open>The write of a register of one of these classes, and the read.\<close>

lemma write_effect:
  assumes "msr_sys_ok s" "ctx_ok x s" "map_of (sys_devs s) a = Some r" "m_kind r \<in> {Plain_reg, Mdscr, Id_reg, Set_way_flush, Cntp_cval}"
  shows "tot (msr_reg_access sgi_of_gic WRITE x v a r s) (\<lambda>(e, w, s'). e = (if write_refused v r then ACCESS_ERR else OK) \<and> w = v \<and>
    configured_vcpus (sys_cpus s') = configured_vcpus (sys_cpus s) \<and> (m_kind r = Cntp_cval \<longrightarrow> t_cval (sys_timer s') = written v r s) \<and>
    (\<forall>j. reg_value j (sys_devs s') = (if j = m_key r then Some (written v r s) else reg_value j (sys_devs s))))"
proof -
  let ?r = "r\<lparr>m_value := held r s\<rparr>"
  obtain e w q where ra: "register_access WRITE v ?r = (e, w, q)" by (cases "register_access WRITE v ?r")
  have w: "e = (if write_refused v r then ACCESS_ERR else OK)" "w = v" "m_value q = written v r s" "m_key q = m_key r" "m_kind q = m_kind r"
    using ra by (auto simp: register_access_write write_refused_def written_def split: if_splits)
  let ?s = "put_reg a q s"
  have v: "reg_value j (sys_devs ?s) = (if j = m_key r then Some (written v r s) else reg_value j (sys_devs s))" for j
    using put_value [OF assms(1,3) w(4)] w(3) by simp
  have k: "kept s ?s" by (rule kept_put [OF assms(1,3) w(4,5)])
  have same: "?r = r" if "m_kind r \<noteq> Cntp_cval" using that by (simp add: held_def)
  have cv: "t_cval (timer_write_cval c t) = c" for c t by (simp add: timer_write_cval_def after_write_def set_cval_def)
  show ?thesis
  proof (cases "m_kind r = Cntp_cval")
    case True
    have "?r = r\<lparr>m_value := t_cval (sys_timer s)\<rparr>" using True by (simp add: held_def)
    then have "msr_reg_access sgi_of_gic WRITE x v a r s =
        Some (e, w, if e = OK then ?s\<lparr>sys_timer := timer_write_cval (m_value q) (sys_timer ?s)\<rparr> else ?s)"
      using True ra by (simp add: msr_reg_access_def cntp_cval_access_def Let_def)
    then show ?thesis using w v True cv by (auto simp: put_reg_def written_def held_def)
  next
    case False
    have ra': "register_access WRITE v r = (e, w, q)" using ra same [OF False] by simp
    show ?thesis
    proof (cases "m_kind r = Set_way_flush")
      case True
      have "tot (set_way_flush x ?s) (\<lambda>s'. kept ?s s' \<and> sys_devs s' = sys_devs ?s)"
        by (rule tot_mono [OF set_way_flush_tot [OF kept_ok(1) [OF assms(1) k] kept_ok(2) [OF assms(1) k assms(2)]]]) simp
      then show ?thesis using True ra' w v
        by (auto simp: tot_iff msr_reg_access_def set_way_access_def kept_def put_reg_def)
    next
      case F: False
      then have "m_kind r \<in> {Plain_reg, Mdscr, Id_reg}" using False assms(4) by simp
      then show ?thesis using ra' w v False by (simp add: plain_kind_access plain_access_def put_reg_def)
    qed
  qed
qed

lemma read_effect:
  assumes "m_kind r \<in> {Plain_reg, Mdscr, Id_reg, Set_way_flush, Cntp_cval}"
  shows "tot (msr_reg_access sgi READ x u a r s) (\<lambda>(e, w, s'). e = OK \<and> w = held r s)"
  using assms by (auto simp: held_def msr_reg_access_def plain_access_def set_way_access_def cntp_cval_access_def register_access_read)

text \<open>
  C36: a register keeps what is written to it. This is about the registers with a value of their own:
  the plain ones, the debug control register, the identification registers and the set/way
  registers, and the compare register of the timer, whose value is that of the timer. It is not true
  of the timer value register, which counts, nor shown for the timer's control register. A write of
  \<open>v\<close> is refused exactly when the register is not writable, or takes no reserved bits and \<open>v\<close> has some;
  otherwise the bits of its write mask become those of \<open>v\<close> and the others stay. No other register
  changes its value, and the next read, by any vCPU, gives the new value.
\<close>

theorem msr_write_read:
  fixes s :: "(gicd, 'd, 'x) msr_sys"
  assumes "msr_sys_ok s" "ctx_ok x s" "ctx_ok y s" "map_get i (sys_devs s) = Some (a, r)"
    and "m_kind r \<in> {Plain_reg, Mdscr, Id_reg, Set_way_flush, Cntp_cval}"
  shows "\<exists>s1 s2 n. n = (if write_refused v r then held r s else (held r s AND NOT (m_write_mask r)) OR (v AND m_write_mask r)) \<and>
    msr_access sgi_of_gic WRITE x i v s = Some (if write_refused v r then ACCESS_ERR else OK, v, s1) \<and>
    msr_access sgi_of_gic READ y i u s1 = Some (OK, n, s2) \<and> reg_value i (sys_devs s1) = Some n \<and>
    (\<forall>j. j \<noteq> i \<longrightarrow> reg_value j (sys_devs s1) = reg_value j (sys_devs s))"
proof -
  let ?z = "map (\<lambda>(b, q). (b, q\<lparr>m_stats := msr_stats_new\<rparr>))"
  have key: "m_key r = i" using map_get_key [OF assms(4)] by simp
  let ?Q = "\<lambda>e w s'. e = (if write_refused v r then ACCESS_ERR else OK) \<and> w = v \<and> configured_vcpus (sys_cpus s') = configured_vcpus (sys_cpus s) \<and>
    (m_kind r = Cntp_cval \<longrightarrow> t_cval (sys_timer s') = written v r s) \<and>
    (\<forall>j. reg_value j (sys_devs s') = (if j = i then Some (written v r s) else reg_value j (sys_devs s)))"
  have na: "\<not> reg_aborts acc x' v' r s'" for acc x' v' and s' :: "(gicd, 'd, 'x) msr_sys" using assms(5) by (auto simp: reg_aborts_def)
  have reg: "tot (msr_reg_access sgi_of_gic WRITE x v a r1 s1) (\<lambda>(e, w, s2). ?Q e w s2)"
    if k: "kept s s1" and c: "sys_timer s1 = sys_timer s" and at: "map_of (sys_devs s1) a = Some r1"
      and z: "?z (sys_devs s1) = ?z (sys_devs s)" and st: "r1\<lparr>m_stats := msr_stats_new\<rparr> = r\<lparr>m_stats := msr_stats_new\<rparr>" for s1 r1
  proof -
    note f = stats_eqD [OF st]
    have h: "write_refused v r1 = write_refused v r" "written v r1 s1 = written v r s"
      using f c by (simp_all add: write_refused_def written_def held_def)
    have "reg_value j (sys_devs s1) = reg_value j (sys_devs s)" for j by (rule reg_value_stats [OF z])
    then show ?thesis
      using write_effect [OF kept_ok(1) [OF assms(1) k] kept_ok(2) [OF assms(1) k assms(2)] at, of v] f h key k assms(5)
      by (auto simp: tot_iff kept_def)
  qed
  have "tot (msr_access sgi_of_gic WRITE x i v s) (\<lambda>(e, w, s'). msr_sys_ok s' \<and> ctx_ok x s' \<and> skel (sys_devs s') = skel (sys_devs s) \<and>
    sys_vbus s' = sys_vbus s \<and>
    (\<exists>s2 :: (gicd, 'd, 'x) msr_sys. ?Q e w s2 \<and> sys_cpus s' = sys_cpus s2 \<and> flush_state s' = flush_state s2 \<and> sys_timer s' = sys_timer s2 \<and> ?z (sys_devs s') = ?z (sys_devs s2)))"
    by (rule access_tot [OF assms(1,2) _ assms(4) na, where Q = ?Q]) (simp, rule reg)
  then obtain e w s1 and s2 :: "(gicd, 'd, 'x) msr_sys" where a: "msr_access sgi_of_gic WRITE x i v s = Some (e, w, s1)" "msr_sys_ok s1" "skel (sys_devs s1) = skel (sys_devs s)"
      "sys_cpus s1 = sys_cpus s2" "?z (sys_devs s1) = ?z (sys_devs s2)" "sys_timer s1 = sys_timer s2" and q: "?Q e w s2"
    unfolding tot_iff split_paired_Ex prod.case by blast
  have s1: "msr_access sgi_of_gic WRITE x i v s = Some (if write_refused v r then ACCESS_ERR else OK, v, s1)"
      "\<And>j. reg_value j (sys_devs s1) = (if j = i then Some (written v r s) else reg_value j (sys_devs s))"
    using a(1) q reg_value_stats [OF a(5)] by simp_all
  obtain r' where r': "map_get i (sys_devs s1) = Some (a, r')" "m_kind r' = m_kind r" by (rule map_get_same [OF a(3) assms(4)])
  have val: "held r' s1 = written v r s"
    using s1(2) [of i] r' q a(6) by (auto simp: reg_value_def held_def)
  have y: "ctx_ok y s1" using assms(3) a(4) q by (simp add: ctx_ok_def)
  have reg2: "tot (msr_reg_access sgi_of_gic READ y u a r1 t) (\<lambda>(e, w, s2). e = OK \<and> w = written v r s)"
    if "r1\<lparr>m_stats := msr_stats_new\<rparr> = r'\<lparr>m_stats := msr_stats_new\<rparr>" "sys_timer t = sys_timer s1" for r1 and t :: "(gicd, 'd, 'x) msr_sys"
  proof -
    note f = stats_eqD [OF that(1)]
    have "held r1 t = written v r s" using val f that(2) by (simp add: held_def split: if_splits)
    then show ?thesis using read_effect [of r1 sgi_of_gic y u a t] f r'(2) assms(5) by simp
  qed
  have "\<not> reg_aborts READ y u r' s1" using assms(5) r'(2) by (auto simp: reg_aborts_def)
  then have "tot (msr_access sgi_of_gic READ y i u s1) (\<lambda>(e, w, s'). e = OK \<and> w = written v r s)"
    by (intro tot_mono [OF access_tot [OF a(2) y _ r'(1), where Q = "\<lambda>e w s'. e = OK \<and> w = written v r s"]]) (use reg2 in auto)
  then obtain s2 where "msr_access sgi_of_gic READ y i u s1 = Some (OK, written v r s, s2)" by (auto simp: tot_iff)
  then show ?thesis using s1 by (auto simp: written_def)
qed

theorem msr_write_read_witness:
  "\<exists>s1 s2. msr_access sgi_of_gic WRITE (msr_ctx_example 0) (ucast CSSELR_EL1) 3 msr_sys_example = Some (OK, 3, s1) \<and>
     msr_access sgi_of_gic READ (msr_ctx_example 7) (ucast CSSELR_EL1) 0 s1 = Some (OK, 3, s2)"
proof -
  have d: "map_get (ucast CSSELR_EL1) (sys_devs msr_sys_example) = Some (100, (plain ''CSSELR_EL1'' CSSELR_EL1 True 0)\<lparr>m_key := ucast CSSELR_EL1\<rparr>)"
    by (simp add: msr_sys_example_def csselr_example_def map_get_def)
  from msr_write_read [OF msr_example_ok(1) msr_example_ok(2) msr_example_ok(2) d, of 3 0 7 0] show ?thesis
    by (auto simp: register_new_def write_refused_def)
qed

subsection \<open>The registers that the platform sets up are well formed\<close>

lemma kind_of_new [simp]:
  "m_kind (register_new k name i w v m e) = k" "m_kind (base_new k name i) = k" "m_kind (set_way_flush_new name i) = Set_way_flush"
  by (simp_all add: register_new_def base_new_def set_way_flush_new_def)

lemma machine_kinds:
  assumes "cs \<in> A"
  shows "list_all (\<lambda>r. kind_ok A (m_kind r)) (machine_regs v info cs topo)"
  unfolding machine_regs_def setup_arch_msr_def
  using assms by (simp add: setup_defs ccsidr_new_def Let_def list.pred_map comp_def upt_rec)

lemma machine_setup_ok:
  assumes "regs = machine_regs v info (as ! n) topo" "n < length regs" "length as = length regs" "distinct as"
  shows "\<exists>ds. register_regs (map Some as) regs [] = Some (True, ds) \<and> skel_ok (skel ds)"
proof -
  have dist: "distinct (map m_id regs)" unfolding assms(1) by (rule machine_ids)
  obtain ds where ds: "register_regs (map Some as) regs [] = Some (True, ds)" "devs_ok ds"
      "set ds = set (zip as (map (\<lambda>r. r\<lparr>m_key := ucast (m_id r)\<rparr>) regs))"
    using register_regs_all [of "[]" as regs] assms(3,4) dist by (auto simp: devs_ok_def)
  have adr: "fst ` set ds = set as"
    unfolding ds(3) set_map [symmetric] by (rule arg_cong [of _ _ set], rule map_fst_zip) (simp add: assms(3))
  have "list_all (\<lambda>r. kind_ok (set as) (m_kind r)) regs"
    unfolding assms(1) by (rule machine_kinds) (use assms in simp)
  then have "kind_ok (set as) (m_kind r)" if "(a, r) \<in> set ds" for a r
    using that unfolding ds(3) list_all_iff by (auto dest!: set_zip_rightD)
  then have "skel_ok (skel ds)" using ds(2) by (auto simp: skel_ok_def devs_ok_def skel_facts adr) (auto simp: skel_def)
  then show ?thesis using ds(1) by blast
qed

subsection \<open>The timer registers\<close>

text \<open>A write of the control register leaves the status bit of the timer alone.\<close>

lemma cntp_ctl_status_kept:
  assumes "cntp_ctl_access WRITE v a r s = Some (e, w, s')" "m_writable r" "\<not> m_err_on_write_reserved r" "m_write_mask r = 3"
  shows "t_ctl (sys_timer s') = (t_ctl (sys_timer s) AND NOT 3) OR (ucast v AND 3)" "ctl_status (t_ctl (sys_timer s')) = ctl_status (t_ctl (sys_timer s))"
proof -
  have b3: "bit (3 :: u64) n \<longleftrightarrow> n < 2" "bit (3 :: u8) n \<longleftrightarrow> n < 2" for n
    using bit_mask_iff [of 2 n, where ?'a = "u64"] bit_mask_iff [of 2 n, where ?'a = "u8"] by (auto simp: mask_eq_exp_minus_1)
  have "ucast ((ucast c AND NOT 3) OR (v AND 3) :: u64) = (c AND NOT 3) OR (ucast v AND 3)" for c :: u8
    by (rule bit_word_eqI) (auto simp: bit_simps b3)
  moreover have "t_ctl (timer_write_ctl c t) = c" for c t by (simp add: timer_write_ctl_def after_write_def set_ctl_def)
  ultimately show "t_ctl (sys_timer s') = (t_ctl (sys_timer s) AND NOT 3) OR (ucast v AND 3)"
    using assms by (auto simp: cntp_ctl_access_def register_access_write Let_def)
  then show "ctl_status (t_ctl (sys_timer s')) = ctl_status (t_ctl (sys_timer s))"
    by (simp add: ctl_bits bit_or_iff bit_and_iff bit_not_iff b3)
qed

text \<open>
  The write of the timer value does not take the counter offset off, which the read does: the value
  read back at the same time is off by the offset.
\<close>

lemma cntp_tval_offset:
  assumes "cntp_tval_access WRITE x v t = (e, w, t')"
  shows "cntp_tval_access READ x u t' = (OK, (scast (ucast v :: u32) + x_cntvoff x) AND CNTP_TVAL_MASK, t')"
proof -
  have "t_cval (timer_write_cval c t) = c" for c by (simp add: timer_write_cval_def after_write_def set_cval_def)
  then show ?thesis using assms by (auto simp: cntp_tval_access_def algebra_simps)
qed
end
