(* ===== verification/X86Msr.thy ===== *)
theory X86Msr
  imports MsrSetup
begin

text \<open>
  The system registers of an x86 machine (\<open>devices/msr/src/x86/msr.cpp\<close>,
  \<open>devices/msr/include/x86/msr/msr.hpp\<close>): the setup functions, each as the list of the registers
  that it constructs, in order, and what an access to such a machine does. The bus, the class
  \<open>Register\<close> and the accesses of the x86 classes are those of \<open>Msr\<close>.
\<close>

subsection \<open>The setup\<close>

text \<open>\<open>pb\<close> is the logarithm of the host's page size.\<close>

abbreviation x86_sys :: "string \<Rightarrow> u32 \<Rightarrow> bool \<Rightarrow> u64 \<Rightarrow> msr_reg" where
  "x86_sys name i writable reset \<equiv> register_new (X86 Sys_reg) name i writable reset (- 1) False"

definition apic_base_new :: "bool \<Rightarrow> msr_reg" where
  "apic_base_new x2apic = register_new (X86 (Apic_base x2apic)) ''IA32_APICBASE'' IA32_APICBASE False 0 (- 1) False"

definition misc_new :: msr_reg where
  "misc_new = register_new (X86 Misc_enable) ''IA32_MISC_ENABLE'' IA32_MISC_ENABLE True 1 (- 1) False"

definition tsc_new :: msr_reg where
  "tsc_new = register_new (X86 Tsc) ''IA32_TIME_STAMP_COUNTER'' IA32_TIME_STAMP_COUNTER False 0 (- 1) False"

definition tsc_adjust_new :: msr_reg where
  "tsc_adjust_new = register_new (X86 Tsc_adjust) ''IA32_TSC_ADJUST'' IA32_TSC_ADJUST False 0 (- 1) False"

definition setup_syscall_msrs :: "msr_reg list" where
  "setup_syscall_msrs =
     [x86_sys ''IA32_STAR'' IA32_STAR True 0, x86_sys ''IA32_LSTAR'' IA32_LSTAR True 0,
      x86_sys ''IA32_CSTAR'' IA32_CSTAR True 0, x86_sys ''IA32_FMASK'' IA32_FMASK True 0]"

definition setup_guest_state_msrs :: "msr_reg list" where
  "setup_guest_state_msrs =
     [x86_sys ''IA32_SYSENTER_CS'' IA32_SYSENTER_CS True 0, x86_sys ''IA32_SYSENTER_ESP'' IA32_SYSENTER_ESP True 0,
      x86_sys ''IA32_SYSENTER_EIP'' IA32_SYSENTER_EIP True 0, x86_sys ''IA32_EFER'' IA32_EFER True 0,
      x86_sys ''IA32_PAT'' IA32_PAT True 0, x86_sys ''IA32_FS_BASE'' IA32_FS_BASE True 0,
      x86_sys ''IA32_GS_BASE'' IA32_GS_BASE True 0, x86_sys ''IA32_KERNEL_GS_BASE'' IA32_KERNEL_GS_BASE True 0]"

definition setup_apic_msrs :: "bool \<Rightarrow> msr_reg list" where
  "setup_apic_msrs x2apic_msrs = [apic_base_new x2apic_msrs]"

definition setup_power_msrs :: "msr_reg list" where
  "setup_power_msrs =
     [plain ''MSR_PKG_ENERGY_STATUS'' MSR_PKG_ENERGY_STATUS False 0, plain ''MSR_DRAM_ENERGY_STATUS'' MSR_DRAM_ENERGY_STATUS False 0,
      plain ''MSR_PP0_ENERGY_STATUS'' MSR_PP0_ENERGY_STATUS False 0, plain ''MSR_PP1_ENERGY_STATUS'' MSR_PP1_ENERGY_STATUS False 0,
      plain ''MSR_PLATFORM_ENERGY_COUNTER'' MSR_PLATFORM_ENERGY_COUNTER False 0]"

definition setup_caps_msr :: "u64 \<Rightarrow> u64 \<Rightarrow> msr_reg list" where
  "setup_caps_msr arch_caps core_caps =
     [plain ''IA32_ARCH_CAPABILITIES'' IA32_ARCH_CAPABILITIES False arch_caps,
      plain ''IA32_CORE_CAPABILITIES'' IA32_CORE_CAPABILITIES False core_caps]"

definition setup_tsc_msrs :: "msr_reg list" where
  "setup_tsc_msrs = [x86_sys ''IA32_TSC_DEADLINE'' IA32_TSC_DEADLINE True 0, tsc_new]"

abbreviation NUM_VAR_MTRR :: nat where "NUM_VAR_MTRR \<equiv> 8"
abbreviation MTRRCAP_VAL :: u64 where "MTRRCAP_VAL \<equiv> push_bit 8 1 OR 8"
abbreviation MTRR_DEF_TYPE_WMASK :: u64 where "MTRR_DEF_TYPE_WMASK \<equiv> 0xCFF"
abbreviation MTRR_PHYSMASK_VALID :: u64 where "MTRR_PHYSMASK_VALID \<equiv> push_bit 11 1"

definition mtrr_addr_mask :: "u8 \<Rightarrow> u8 \<Rightarrow> u64" where
  "mtrr_addr_mask pb pa_width = bit_mask (unat (pa_width - pb)) (unat pb)"

definition var_mtrr :: "u64 \<Rightarrow> nat \<Rightarrow> msr_reg list" where
  "var_mtrr addr_mask i =
     [register_new Plain_reg ''IA32_MTRR_PHYSBASE'' (IA32_MTRR_PHYSBASE0 + of_nat i * 2) True 0 (addr_mask OR 0xff) True,
      register_new Plain_reg ''IA32_MTRR_PHYSMASK'' (IA32_MTRR_PHYSMASK0 + of_nat i * 2) True 0 (addr_mask OR MTRR_PHYSMASK_VALID) True]"

definition FIXED_MTRRS :: "u32 list" where
  "FIXED_MTRRS =
     [IA32_MTRR_FIX64K_00000, IA32_MTRR_FIX16K_80000, IA32_MTRR_FIX16K_A0000, IA32_MTRR_FIX4K_C0000, IA32_MTRR_FIX4K_C8000,
      IA32_MTRR_FIX4K_D0000, IA32_MTRR_FIX4K_D8000, IA32_MTRR_FIX4K_E0000, IA32_MTRR_FIX4K_E8000, IA32_MTRR_FIX4K_F0000,
      IA32_MTRR_FIX4K_F8000]"

definition setup_mtrrs :: "u8 \<Rightarrow> bool \<Rightarrow> u8 \<Rightarrow> msr_reg list" where
  "setup_mtrrs pb mtrr pa_width =
     [plain ''IA32_MTRRCAPP'' IA32_MTRRCAPP False (if mtrr then MTRRCAP_VAL else 0),
      register_new Plain_reg ''IA32_MTRR_DEF_TYPE'' IA32_MTRR_DEF_TYPE True 0 MTRR_DEF_TYPE_WMASK True] @
     (if mtrr
      then concat (map (var_mtrr (mtrr_addr_mask pb pa_width)) [0..<NUM_VAR_MTRR]) @
           map (\<lambda>fixed. plain ''IA32_MTRR_FIX'' fixed True 0) FIXED_MTRRS
      else [])"

definition setup_platform_info_msr :: "u64 \<Rightarrow> msr_reg list" where
  "setup_platform_info_msr freq_ratio =
     [plain ''IA32_FEATURE_INFO'' IA32_FEATURE_INFO False (push_bit 8 freq_ratio OR push_bit 40 freq_ratio)]"

definition x86_setup_arch_msr :: "u8 \<Rightarrow> bool \<Rightarrow> bool \<Rightarrow> u8 \<Rightarrow> bool \<Rightarrow> msr_reg list" where
  "x86_setup_arch_msr pb x2apic_msrs mtrr pa_width sgx =
     [plain ''IA32_PLATFORM_ID'' IA32_PLATFORM_ID False 0, plain ''MSR_SMI_COUNT'' MSR_SMI_COUNT False 0,
      plain ''IA32_FEATURE_CONTROL'' IA32_FEATURE_CONTROL False (1 OR (if sgx then push_bit 17 1 OR push_bit 18 1 else 0)),
      plain ''IA32_SPEC_CTRL'' IA32_SPEC_CTRL True 0, plain ''IA32_PRED_CMD'' IA32_PRED_CMD True 0,
      plain ''IA32_BIOS_SIGN_ID'' IA32_BIOS_SIGN_ID True 0] @
     setup_mtrrs pb mtrr pa_width @
     [plain ''MISC_FEATURE_ENABLES'' MISC_FEATURE_ENABLES True 0, plain ''IA32_MCG_CAP'' IA32_MCG_CAP False 0,
      plain ''IA32_MCG_STATUS'' IA32_MCG_STATUS False 0, plain ''UNCORE_CBO_CONFIG'' UNCORE_CBO_CONFIG False 0,
      register_new Plain_reg ''UNCORE_PERF_GLOBAL_CTL'' UNCORE_PERF_GLOBAL_CTL True 0 0 False,
      plain ''MSR_SEV_STATUS'' MSR_SEV_STATUS False 0, misc_new, tsc_adjust_new] @
     setup_power_msrs @ setup_apic_msrs x2apic_msrs"

definition is_msr_with_addr :: "u32 \<Rightarrow> bool" where
  "is_msr_with_addr msrnum \<longleftrightarrow>
     msrnum = IA32_FS_BASE \<or> msrnum = IA32_GS_BASE \<or> msrnum = IA32_KERNEL_GS_BASE \<or> msrnum = IA32_SYSENTER_CS \<or>
     msrnum = IA32_SYSENTER_ESP \<or> msrnum = IA32_SYSENTER_EIP"

text \<open>What a platform asks for, and a machine with every group of registers.\<close>

record x86_config =
  xc_pb :: u8
  xc_x2apic :: bool
  xc_mtrr :: bool
  xc_pa_width :: u8
  xc_sgx :: bool
  xc_arch_caps :: u64
  xc_core_caps :: u64
  xc_freq_ratio :: u64

definition x86_machine_regs :: "x86_config \<Rightarrow> msr_reg list" where
  "x86_machine_regs c =
     x86_setup_arch_msr (xc_pb c) (xc_x2apic c) (xc_mtrr c) (xc_pa_width c) (xc_sgx c) @
     setup_caps_msr (xc_arch_caps c) (xc_core_caps c) @ setup_tsc_msrs @ setup_platform_info_msr (xc_freq_ratio c) @
     setup_guest_state_msrs @ setup_syscall_msrs"

subsection \<open>Every register is found at its number\<close>

lemmas x86_setup_defs = x86_setup_arch_msr_def setup_caps_msr_def setup_tsc_msrs_def setup_platform_info_msr_def
  setup_guest_state_msrs_def setup_syscall_msrs_def setup_power_msrs_def setup_apic_msrs_def setup_mtrrs_def var_mtrr_def
  FIXED_MTRRS_def apic_base_new_def misc_new_def tsc_new_def tsc_adjust_new_def

lemma x86_ids_all: "xc_mtrr c \<Longrightarrow> distinct (map unat (map m_id (x86_machine_regs c)))"
  unfolding x86_machine_regs_def by (simp add: x86_setup_defs upt_rec)

lemma x86_ids: "distinct (map m_id (x86_machine_regs c))"
proof -
  have "distinct (map m_id (x86_machine_regs (c\<lparr>xc_mtrr := True\<rparr>)))"
    using x86_ids_all [of "c\<lparr>xc_mtrr := True\<rparr>"] unfolding distinct_map [of unat] by simp
  then show ?thesis unfolding x86_machine_regs_def by (cases "xc_mtrr c") (auto simp: x86_setup_arch_msr_def setup_mtrrs_def)
qed

subsection \<open>What an access does\<close>

text \<open>The three accesses that abort the monitor.\<close>

definition access_aborts :: "vbus_access \<Rightarrow> msr_ctx \<Rightarrow> u64 \<Rightarrow> msr_reg \<Rightarrow> bool" where
  "access_aborts acc x v r \<longleftrightarrow> (case m_kind r of
     X86 (Apic_base b) \<Rightarrow> acc = WRITE \<and> v \<noteq> get_ia32_apicbase b (x_vcpu x)
   | X86 Tsc_adjust \<Rightarrow> acc = WRITE \<and> v \<noteq> 0
   | X86 Sys_reg \<Rightarrow> acc = READ \<and> m_id r = IA32_TSC_DEADLINE
   | _ \<Rightarrow> False)"

text \<open>The addresses, numbers and classes of the registers.\<close>

definition x86_skel :: "devs \<Rightarrow> (nat \<times> u64 \<times> u32 \<times> msr_kind) list" where
  "x86_skel ds = map (\<lambda>(a, r). (a, m_key r, m_id r, m_kind r)) ds"

definition x86_skel_ok :: "(nat \<times> u64 \<times> u32 \<times> msr_kind) list \<Rightarrow> bool" where
  "x86_skel_ok ks \<longleftrightarrow> distinct (map fst ks) \<and> distinct (map (\<lambda>(a, k, _). k) ks) \<and>
     (\<forall>(a, k, i, c) \<in> set ks. c = Plain_reg \<or> (\<exists>t. c = X86 t))"

definition x86_sys_ok :: "('g, 'd, 'x) msr_sys \<Rightarrow> bool" where
  "x86_sys_ok s \<longleftrightarrow> x86_skel_ok (x86_skel (sys_devs s)) \<and> (\<forall>a. sys_last_access s = Some a \<longrightarrow> a \<in> fst ` set (sys_devs s)) \<and>
     (sys_last_access s = None \<longrightarrow> sys_num_accesses s = 0)"

definition x86_kept :: "('g, 'd, 'x) msr_sys \<Rightarrow> ('g, 'd, 'x) msr_sys \<Rightarrow> bool" where
  "x86_kept s s' \<longleftrightarrow> x86_skel (sys_devs s') = x86_skel (sys_devs s) \<and> sys_last_access s' = sys_last_access s \<and>
     sys_num_accesses s' = sys_num_accesses s"

lemma x86_skel_facts:
  "map fst (x86_skel ds) = map fst ds" "map (\<lambda>(a, k, _). k) (x86_skel ds) = map (\<lambda>d. m_key (snd d)) ds"
  by (simp_all add: x86_skel_def case_prod_beta comp_def)

lemma x86_addresses: "x86_skel ds' = x86_skel ds \<Longrightarrow> fst ` set ds' = fst ` set ds"
  using x86_skel_facts(1) [of ds] x86_skel_facts(1) [of ds'] by (metis set_map)

lemma x86_kept_ok: "x86_sys_ok s \<Longrightarrow> x86_kept s s' \<Longrightarrow> x86_sys_ok s'"
  using x86_addresses [of "sys_devs s'" "sys_devs s"] by (simp add: x86_sys_ok_def x86_kept_def)

lemma x86_kept_trans: "x86_kept s s' \<Longrightarrow> x86_kept s' s'' \<Longrightarrow> x86_kept s s''"
  by (simp add: x86_kept_def)

lemma x86_devs_ok: "x86_sys_ok s \<Longrightarrow> devs_ok (sys_devs s)"
  by (simp add: x86_sys_ok_def x86_skel_ok_def devs_ok_def x86_skel_facts)

lemma x86_kept_stats: "x86_kept s (upd_stats a f s)"
  by (auto simp: x86_kept_def upd_stats_def x86_skel_def)

lemma x86_kept_put:
  assumes "x86_sys_ok s" "map_of (sys_devs s) a = Some r" "m_key r' = m_key r" "m_id r' = m_id r" "m_kind r' = m_kind r"
  shows "x86_kept s (put_reg a r' s)"
proof -
  have "r2 = r" if "(a, r2) \<in> set (sys_devs s)" for r2
    using x86_devs_ok [OF assms(1)] that assms(2) by (auto simp: devs_ok_def dest: map_of_is_SomeI)
  then show ?thesis using assms(3-5) by (auto simp: x86_kept_def put_reg_def x86_skel_def)
qed

lemma register_access_same:
  "register_access acc v r = (e, w, r') \<Longrightarrow> m_key r' = m_key r \<and> m_id r' = m_id r \<and> m_kind r' = m_kind r \<and> e \<in> {OK, ACCESS_ERR}"
  by (auto simp: register_access_def Let_def split: if_splits)

lemma x86_plain_access:
  assumes "x86_sys_ok s" "map_of (sys_devs s) a = Some r"
  obtains e w s' where "plain_access acc v a r s = Some (e, w, s')" "x86_kept s s'"
proof -
  obtain e w r' where ra: "register_access acc v r = (e, w, r')" by (cases "register_access acc v r")
  then show ?thesis using that x86_kept_put [OF assms] register_access_same [OF ra] by (simp add: plain_access_def)
qed

lemma x86_reg_access:
  assumes "x86_sys_ok s" "map_of (sys_devs s) a = Some r" "m_kind r = Plain_reg \<or> (\<exists>t. m_kind r = X86 t)"
  shows "(msr_reg_access sgi acc x v a r s = None \<and> access_aborts acc x v r) \<or>
    (\<exists>e w s'. msr_reg_access sgi acc x v a r s = Some (e, w, s') \<and> \<not> access_aborts acc x v r \<and> x86_kept s s')"
proof -
  obtain e w s' where p: "plain_access acc v a r s = Some (e, w, s')" "x86_kept s s'" by (rule x86_plain_access [OF assms(1,2)])
  have k: "x86_kept s s" "x86_kept s (put_reg a (r\<lparr>m_value := v\<rparr>) s)" using x86_kept_put [OF assms(1,2)] by (simp_all add: x86_kept_def)
  show ?thesis
  proof (cases "m_kind r")
    case (X86 t)
    then show ?thesis using p k
      by (cases t) (auto simp: msr_reg_access_def access_aborts_def apic_base_access_def misc_enable_access_def tsc_access_def
          tsc_adjust_access_def sys_reg_access_def ASSERT_def split: if_splits)
  qed (use assms(3) p in \<open>auto simp: msr_reg_access_def access_aborts_def\<close>)
qed

lemma x86_trace:
  assumes "x86_sys_ok s" "a \<in> fst ` set (sys_devs s)" "acc \<noteq> EXEC"
  obtains s' where "msr_log_trace_info a r acc v s = Some s'" "x86_sys_ok s'" "sys_devs s' = sys_devs s"
proof -
  have "\<exists>q. map_of (sys_devs s) b = Some q" if "sys_last_access s = Some b" for b
    using assms(1) that map_of_eq_None_iff [of "sys_devs s" b] by (cases "map_of (sys_devs s) b") (auto simp: x86_sys_ok_def)
  then have "\<exists>s'. msr_log_trace_info a r acc v s = Some s' \<and> x86_sys_ok s' \<and> sys_devs s' = sys_devs s"
    using assms by (cases "sys_last_access s") (auto simp: msr_log_trace_info_def x86_sys_ok_def Let_def, force)
  then show ?thesis using that by blast
qed

lemma map_of_stats:
  "map_of (map (\<lambda>d. if fst d = a then (a, snd d\<lparr>m_stats := f (m_stats (snd d))\<rparr>) else d) ds) a =
     map_option (\<lambda>r. r\<lparr>m_stats := f (m_stats r)\<rparr>) (map_of ds a)"
  by (induction ds) auto

lemma x86_found:
  assumes "x86_sys_ok s" "map_get i (sys_devs s) = Some (a, r)"
  shows "map_of (sys_devs s) a = Some r" "m_kind r = Plain_reg \<or> (\<exists>t. m_kind r = X86 t)" "a \<in> fst ` set (sys_devs s)"
proof -
  have m: "(a, r) \<in> set (sys_devs s)" using assms(2) by (auto simp: map_get_def find_Some_iff)
  then have "(a, m_key r, m_id r, m_kind r) \<in> set (x86_skel (sys_devs s))" by (force simp: x86_skel_def)
  then show "m_kind r = Plain_reg \<or> (\<exists>t. m_kind r = X86 t)" using assms(1) by (auto simp: x86_sys_ok_def x86_skel_ok_def)
  show "map_of (sys_devs s) a = Some r" using m x86_devs_ok [OF assms(1)] by (simp add: devs_ok_def)
  show "a \<in> fst ` set (sys_devs s)" using m by force
qed

text \<open>
  C40: on an x86 machine an access to a system register aborts the monitor in three cases and no
  other: a write of the APIC base that differs from the fixed value, a write of the TSC adjustment
  that is not 0, and a read of the TSC deadline. Otherwise it returns, the registers keep their
  addresses, numbers and classes, and the system stays well formed, so that this holds of the next
  access too.
\<close>

theorem x86_access_aborts:
  assumes "x86_sys_ok s" "acc \<noteq> EXEC"
  shows "(msr_access sgi acc x i v s = None \<longleftrightarrow> (\<exists>a r. map_get i (sys_devs s) = Some (a, r) \<and> access_aborts acc x v r)) \<and>
    (\<forall>e w s'. msr_access sgi acc x i v s = Some (e, w, s') \<longrightarrow> x86_sys_ok s' \<and> x86_skel (sys_devs s') = x86_skel (sys_devs s))"
proof (cases "map_get i (sys_devs s)")
  case None
  then show ?thesis using assms by (auto simp: msr_access_def)
next
  case (Some d)
  obtain a r where d: "d = (a, r)" by (cases d)
  note f = x86_found [OF assms(1) Some [unfolded d]]
  define s1 where "s1 = (if sys_stats_enabled s
      then upd_stats a (msr_stats_start acc) s\<lparr>sys_stats_last := Some a, sys_stats_seen := x_start x, sys_stats_total := sys_stats_total s + 1\<rparr>
      else s)"
  have k1: "x86_kept s s1" using x86_kept_stats [of s a] by (auto simp: s1_def x86_kept_def)
  note ok1 = x86_kept_ok [OF assms(1) k1]
  obtain r1 where r1: "map_of (sys_devs s1) a = Some r1" "m_id r1 = m_id r" "m_kind r1 = m_kind r"
    using that f(1) by (cases "sys_stats_enabled s") (auto simp: s1_def upd_stats_def map_of_stats)
  have ab: "access_aborts acc x v r1 \<longleftrightarrow> access_aborts acc x v r" by (simp only: access_aborts_def r1(2,3))
  have acc: "msr_access sgi acc x i v s = do {
      (err, w, t) \<leftarrow> msr_reg_access sgi acc x v a r1 s1;
      t \<leftarrow> (if sys_trace t then msr_log_trace_info a r1 acc w t else Some t);
      Some (err, w, if sys_stats_enabled t then upd_stats a (msr_stats_end (x_end x) (x_start x)) t else t) }"
    using assms(2) Some d r1(1) unfolding msr_access_def by (simp add: s1_def [symmetric])
  from x86_reg_access [OF ok1 r1(1), of sgi acc x v] f(2) r1(3)
  consider "msr_reg_access sgi acc x v a r1 s1 = None" "access_aborts acc x v r1"
    | e w s2 where "msr_reg_access sgi acc x v a r1 s1 = Some (e, w, s2)" "\<not> access_aborts acc x v r1" "x86_kept s1 s2" by auto
  then show ?thesis
  proof cases
    case 1
    then show ?thesis using acc ab Some d by auto
  next
    case 2
    have k2: "x86_kept s s2" by (rule x86_kept_trans [OF k1 2(3)])
    note ok2 = x86_kept_ok [OF assms(1) k2]
    have "a \<in> fst ` set (sys_devs s2)" using f(3) k2 x86_addresses [of "sys_devs s2" "sys_devs s"] by (simp add: x86_kept_def)
    then obtain s3 where s3: "(if sys_trace s2 then msr_log_trace_info a r1 acc w s2 else Some s2) = Some s3" "x86_sys_ok s3"
        "sys_devs s3 = sys_devs s2"
      using x86_trace [OF ok2 _ assms(2), of a r1 w] ok2 by (cases "sys_trace s2") auto
    let ?s4 = "if sys_stats_enabled s3 then upd_stats a (msr_stats_end (x_end x) (x_start x)) s3 else s3"
    have k4: "x86_kept s3 ?s4" using x86_kept_stats [of s3 a] by (simp add: x86_kept_def)
    have "msr_access sgi acc x i v s = Some (e, w, ?s4)" using acc 2(1) s3(1) by simp
    moreover have "x86_sys_ok ?s4" by (rule x86_kept_ok [OF s3(2) k4])
    moreover have "x86_skel (sys_devs ?s4) = x86_skel (sys_devs s)" using k4 k2 s3(3) by (simp add: x86_kept_def)
    ultimately show ?thesis using Some d 2(2) ab by auto
  qed
qed

text \<open>The machine that the setup functions make is well formed, and every register is found at its number.\<close>

lemma x86_setup_ok:
  assumes "regs = x86_machine_regs c" "length as = length regs" "distinct as"
  shows "\<exists>ds. register_regs (map Some as) regs [] = Some (True, ds) \<and> x86_skel_ok (x86_skel ds) \<and>
    (\<forall>i < length regs. map_get (ucast (m_id (regs ! i))) ds = Some (as ! i, (regs ! i)\<lparr>m_key := ucast (m_id (regs ! i))\<rparr>))"
proof -
  have dist: "distinct (map m_id regs)" unfolding assms(1) by (rule x86_ids)
  obtain ds where ds: "register_regs (map Some as) regs [] = Some (True, ds)" "devs_ok ds"
      "set ds = set (zip as (map (\<lambda>r. r\<lparr>m_key := ucast (m_id r)\<rparr>) regs))"
    using register_regs_all [of "[]" as regs] assms(2,3) dist by (auto simp: devs_ok_def)
  have "list_all (\<lambda>r. m_kind r = Plain_reg \<or> (\<exists>t. m_kind r = X86 t)) regs"
    unfolding assms(1) x86_machine_regs_def by (simp add: x86_setup_defs register_new_def list.pred_map comp_def upt_rec)
  then have "m_kind r = Plain_reg \<or> (\<exists>t. m_kind r = X86 t)" if m: "(a, r) \<in> set ds" for a r
  proof -
    obtain q where "q \<in> set regs" "m_kind r = m_kind q" using m unfolding ds(3) by (auto dest!: set_zip_rightD)
    then show ?thesis using \<open>list_all _ regs\<close> by (auto simp: list_all_iff)
  qed
  then have "x86_skel_ok (x86_skel ds)"
    using ds(2) by (auto simp: x86_skel_ok_def devs_ok_def x86_skel_facts) (auto simp: x86_skel_def)
  moreover have "map_get (ucast (m_id (regs ! i))) ds = Some (as ! i, (regs ! i)\<lparr>m_key := ucast (m_id (regs ! i))\<rparr>)"
    if "i < length regs" for i
  proof -
    have "(as ! i, (regs ! i)\<lparr>m_key := ucast (m_id (regs ! i))\<rparr>) \<in> set ds"
      unfolding ds(3) set_zip using that assms(2) by (auto intro!: exI [of _ i])
    from map_get_member [OF ds(2) this] show ?thesis by simp
  qed
  ultimately show ?thesis using ds(1) by blast
qed

definition x86_example_config :: x86_config where
  "x86_example_config = \<lparr>xc_pb = 12, xc_x2apic = True, xc_mtrr = False, xc_pa_width = 39, xc_sgx = False, xc_arch_caps = 0,
     xc_core_caps = 0, xc_freq_ratio = 24\<rparr>"

definition x86_example :: "devs \<Rightarrow> (unit, unit, unit) msr_sys" where
  "x86_example ds =
     \<lparr>sys_devs = ds, sys_trace = True, sys_fold = True, sys_last_access = None, sys_num_accesses = 0,
      sys_stats_enabled = True, sys_stats_last = None, sys_stats_seen = 0, sys_stats_total = 0, sys_log = [],
      sys_timer = timer_new 0, sys_cpus = \<lparr>configured_vcpus = 1, vcpu_tab = [Some (vcpu_new 0)], irq_ctlr_cpus = []\<rparr>,
      sys_gic = (), sys_vbus = None, sys_world = ((\<lambda>_. 0), ()), sys_flushed = []\<rparr>"

definition x86_example_ctx :: msr_ctx where
  "x86_example_ctx = \<lparr>x_vcpu = 0, x_sctlr = 0, x_cntvoff = 0, x_start = 10, x_clock = 11, x_end = 12\<rparr>"

theorem x86_access_aborts_witness:
  "\<exists>ds e w s'. register_regs (map Some [0..<length (x86_machine_regs x86_example_config)]) (x86_machine_regs x86_example_config) [] = Some (True, ds) \<and>
     msr_access (\<lambda>_ _ g. Some g) WRITE x86_example_ctx (ucast IA32_TSC_ADJUST) 5 (x86_example ds) = None \<and>
     msr_access (\<lambda>_ _ g. Some g) WRITE x86_example_ctx (ucast IA32_TSC_ADJUST) 0 (x86_example ds) = Some (e, w, s') \<and>
     x86_sys_ok s'"
proof -
  let ?r = "x86_machine_regs x86_example_config"
  let ?acc = "\<lambda>ds v. msr_access (\<lambda>_ _ g. Some g) WRITE x86_example_ctx (ucast IA32_TSC_ADJUST) v (x86_example ds)"
  have l: "15 < length ?r" "?r ! 15 = tsc_adjust_new"
    by (simp_all add: x86_machine_regs_def x86_setup_arch_msr_def setup_mtrrs_def x86_example_config_def)
  obtain ds where ds: "register_regs (map Some [0..<length ?r]) ?r [] = Some (True, ds)" "x86_skel_ok (x86_skel ds)"
      "map_get (ucast (m_id (?r ! 15))) ds = Some ([0..<length ?r] ! 15, (?r ! 15)\<lparr>m_key := ucast (m_id (?r ! 15))\<rparr>)"
    using x86_setup_ok [OF refl, of "[0..<length ?r]" x86_example_config] l(1) by auto
  have g: "map_get (ucast IA32_TSC_ADJUST) (sys_devs (x86_example ds)) =
      Some ([0..<length ?r] ! 15, tsc_adjust_new\<lparr>m_key := ucast IA32_TSC_ADJUST\<rparr>)"
    using ds(3) unfolding l(2) by (simp add: tsc_adjust_new_def x86_example_def)
  have ab: "access_aborts WRITE x86_example_ctx v (tsc_adjust_new\<lparr>m_key := k\<rparr>) \<longleftrightarrow> v \<noteq> 0" for v k
    by (simp add: access_aborts_def tsc_adjust_new_def register_new_def)
  have ok: "x86_sys_ok (x86_example ds)" using ds(2) by (simp add: x86_sys_ok_def x86_example_def)
  note th = x86_access_aborts [OF ok, where acc = WRITE and i = "ucast IA32_TSC_ADJUST" and sgi = "\<lambda>_ _ g. Some g" and x = x86_example_ctx]
  have "?acc ds 5 = None" using th [of 5] g ab by simp
  moreover obtain e w s' where "?acc ds 0 = Some (e, w, s')" "x86_sys_ok s'"
    using th [of 0] g ab by (cases "?acc ds 0") auto
  ultimately show ?thesis using ds(1) by blast
qed

end
