(* ===== verification/Esr.thy ===== *)
theory Esr
  imports MsrIds
begin

text \<open>
  \<open>devices/msr/include/aarch64/msr/esr.hpp\<close> and \<open>devices/msr/include/msr/msr_access.hpp\<close>: the
  syndrome that the processor gives with a trap, taken apart. The argument of each function is the
  value of the syndrome register.
\<close>

subsection \<open>The access to a system register (\<open>Msr::Access\<close>)\<close>

record msr_acc =
  acc_write :: bool
  acc_target :: u8
  acc_second_target :: u8
  acc_id :: u32

abbreviation INVALID_REG_ACCESS :: u8 where "INVALID_REG_ACCESS \<equiv> 0xff"

definition msr_acc_new :: "u8 \<Rightarrow> u8 \<Rightarrow> u8 \<Rightarrow> u8 \<Rightarrow> u8 \<Rightarrow> u8 \<Rightarrow> bool \<Rightarrow> msr_acc" where
  "msr_acc_new op0 crn op1 crm op2 gpr_target write =
     \<lparr>acc_write = write, acc_target = gpr_target, acc_second_target = INVALID_REG_ACCESS, acc_id = build_msr_id op0 crn op1 crm op2\<rparr>"

definition msr_acc_of_id :: "u32 \<Rightarrow> u8 \<Rightarrow> bool \<Rightarrow> msr_acc" where
  "msr_acc_of_id i gpr_target write =
     \<lparr>acc_write = write, acc_target = gpr_target, acc_second_target = INVALID_REG_ACCESS, acc_id = i\<rparr>"

definition double_target_reg :: "msr_acc \<Rightarrow> bool" where
  "double_target_reg a \<longleftrightarrow> acc_second_target a \<noteq> INVALID_REG_ACCESS"

definition set_second_target_reg :: "u8 \<Rightarrow> msr_acc \<Rightarrow> msr_acc" where
  "set_second_target_reg t a = a\<lparr>acc_second_target := t\<rparr>"

definition second_target_reg :: "msr_acc \<Rightarrow> u8 option" where
  "second_target_reg a = do { ASSERT (double_target_reg a); Some (acc_second_target a) }"

subsection \<open>All exceptions (\<open>Esr::Common\<close>)\<close>

abbreviation ZERO_REG :: u8 where "ZERO_REG \<equiv> 31"

definition esr_il :: "u64 \<Rightarrow> bool" where "esr_il e \<longleftrightarrow> e AND push_bit 25 1 \<noteq> 0"
definition esr_exception_class :: "u64 \<Rightarrow> u8" where "esr_exception_class e = ucast (drop_bit 26 e AND 0x3f)"
definition esr_instruction_len_bytes :: "u64 \<Rightarrow> u8" where "esr_instruction_len_bytes e = (if esr_il e then 4 else 2)"

definition hvc_imm :: "u64 \<Rightarrow> u16" where "hvc_imm e = ucast (bits_in_range e 0 15)"

subsection \<open>Register moves\<close>

text \<open>\<open>MSR\<close> and \<open>MRS\<close>.\<close>

definition msr_write :: "u64 \<Rightarrow> bool" where "msr_write e \<longleftrightarrow> e AND 1 = 0"
definition msr_crm :: "u64 \<Rightarrow> u8" where "msr_crm e = ucast (drop_bit 1 e AND 0xf)"
definition msr_rt :: "u64 \<Rightarrow> u8" where "msr_rt e = ucast (drop_bit 5 e AND 0x1f)"
definition msr_crn :: "u64 \<Rightarrow> u8" where "msr_crn e = ucast (drop_bit 10 e AND 0xf)"
definition msr_op1 :: "u64 \<Rightarrow> u8" where "msr_op1 e = ucast (drop_bit 14 e AND 0x7)"
definition msr_op2 :: "u64 \<Rightarrow> u8" where "msr_op2 e = ucast (drop_bit 17 e AND 0x7)"
definition msr_op0 :: "u64 \<Rightarrow> u8" where "msr_op0 e = ucast (drop_bit 20 e AND 0x3)"

definition system_register :: "u64 \<Rightarrow> msr_acc" where
  "system_register e = msr_acc_new (msr_op0 e) (msr_crn e) (msr_op1 e) (msr_crm e) (msr_op2 e) (msr_rt e) (msr_write e)"

text \<open>\<open>MCR\<close> and \<open>MRC\<close>, with the condition of the instruction as its four bits.\<close>

definition mcr_write :: "u64 \<Rightarrow> bool" where "mcr_write e \<longleftrightarrow> e AND 1 = 0"
definition mcr_crm :: "u64 \<Rightarrow> u8" where "mcr_crm e = ucast (drop_bit 1 e AND 0xf)"
definition mcr_rt :: "u64 \<Rightarrow> u8" where "mcr_rt e = ucast (drop_bit 5 e AND 0x1f)"
definition mcr_crn :: "u64 \<Rightarrow> u8" where "mcr_crn e = ucast (drop_bit 10 e AND 0xf)"
definition mcr_opc1 :: "u64 \<Rightarrow> u8" where "mcr_opc1 e = ucast (drop_bit 14 e AND 0x7)"
definition mcr_opc2 :: "u64 \<Rightarrow> u8" where "mcr_opc2 e = ucast (drop_bit 17 e AND 0x7)"
definition mcr_cond :: "u64 \<Rightarrow> u64" where "mcr_cond e = drop_bit 20 e AND 0xf"
definition mcr_cv :: "u64 \<Rightarrow> u8" where "mcr_cv e = ucast (drop_bit 24 e AND 1)"

text \<open>\<open>MCRR\<close> and \<open>MRRC\<close>, with two registers.\<close>

definition mcrr_write :: "u64 \<Rightarrow> bool" where "mcrr_write e \<longleftrightarrow> e AND 1 = 0"
definition mcrr_crm :: "u64 \<Rightarrow> u8" where "mcrr_crm e = ucast (drop_bit 1 e AND 0xf)"
definition mcrr_rt :: "u64 \<Rightarrow> u8" where "mcrr_rt e = ucast (drop_bit 5 e AND 0x1f)"
definition mcrr_rt2 :: "u64 \<Rightarrow> u8" where "mcrr_rt2 e = ucast (drop_bit 10 e AND 0x1f)"
definition mcrr_opc1 :: "u64 \<Rightarrow> u8" where "mcrr_opc1 e = ucast (drop_bit 16 e AND 0xf)"
definition mcrr_cond :: "u64 \<Rightarrow> u64" where "mcrr_cond e = drop_bit 20 e AND 0xf"
definition mcrr_cv :: "u64 \<Rightarrow> u8" where "mcrr_cv e = ucast (drop_bit 24 e AND 1)"

subsection \<open>Aborts\<close>

datatype FaultType = TRANSLATION_FAULT | PERMISSION_FAULT | OTHER_FAULT

abbreviation ACCESS_FLAG_FAULT_LVL_3 :: u64 where "ACCESS_FLAG_FAULT_LVL_3 \<equiv> 0xb"

definition fault_status_code :: "u64 \<Rightarrow> u64" where "fault_status_code e = e AND 0x3f"

definition fault_type :: "u64 \<Rightarrow> FaultType" where
  "fault_type e =
     (if fault_status_code e \<in> {4, 5, 6, 7} then TRANSLATION_FAULT
      else if fault_status_code e \<in> {0xd, 0xe, 0xf} then PERMISSION_FAULT else OTHER_FAULT)"

definition stage1_page_table_walk :: "u64 \<Rightarrow> bool" where "stage1_page_table_walk e \<longleftrightarrow> bits e 1 7 \<noteq> 0"
definition far_not_valid :: "u64 \<Rightarrow> bool" where "far_not_valid e \<longleftrightarrow> bits e 1 10 \<noteq> 0"

definition hpfar_is_valid :: "u64 \<Rightarrow> bool" where
  "hpfar_is_valid e \<longleftrightarrow>
     fault_status_code e \<le> ACCESS_FLAG_FAULT_LVL_3 \<or> stage1_page_table_walk e \<and> fault_type e = PERMISSION_FAULT"

definition da_access_size :: "u64 \<Rightarrow> u8" where "da_access_size e = ucast (drop_bit 22 e AND 3)"
definition da_isv :: "u64 \<Rightarrow> bool" where "da_isv e \<longleftrightarrow> drop_bit 24 e AND 1 \<noteq> 0"
definition da_sse :: "u64 \<Rightarrow> bool" where "da_sse e \<longleftrightarrow> bits_in_range e 21 21 \<noteq> 0"
definition da_ar :: "u64 \<Rightarrow> bool" where "da_ar e \<longleftrightarrow> bits_in_range e 14 14 \<noteq> 0"
definition da_sf :: "u64 \<Rightarrow> bool" where "da_sf e \<longleftrightarrow> bits_in_range e 15 15 \<noteq> 0"
definition da_reg :: "u64 \<Rightarrow> u8" where "da_reg e = ucast (drop_bit 16 e AND 0x1f)"
definition da_write :: "u64 \<Rightarrow> bool" where "da_write e \<longleftrightarrow> drop_bit 6 e AND 1 \<noteq> 0"
definition da_access_size_bytes :: "u64 \<Rightarrow> u8" where
  "da_access_size_bytes e = ucast (push_bit (unat (da_access_size e)) 1 AND 0xff :: u32)"

definition ia_sync_err_type :: "u64 \<Rightarrow> u64" where "ia_sync_err_type e = drop_bit 11 e AND 3"

definition step_isv :: "u64 \<Rightarrow> bool" where "step_isv e \<longleftrightarrow> e AND push_bit 24 1 \<noteq> 0"
definition step_ex :: "u64 \<Rightarrow> bool" where "step_ex e \<longleftrightarrow> e AND push_bit 6 1 \<noteq> 0"
definition is_exclusive_load :: "u64 \<Rightarrow> bool" where "is_exclusive_load e \<longleftrightarrow> step_isv e \<and> step_ex e"

definition breakpoint_is_thumb :: "u64 \<Rightarrow> bool" where "breakpoint_is_thumb e \<longleftrightarrow> \<not> esr_il e"
definition breakpoint_id :: "u64 \<Rightarrow> u16" where "breakpoint_id e = ucast e"

subsection \<open>The fields of a register move\<close>

text \<open>The syndrome as the architecture lays it out, from the fields of the instruction.\<close>

definition mk_msr_iss :: "u8 \<Rightarrow> u8 \<Rightarrow> u8 \<Rightarrow> u8 \<Rightarrow> u8 \<Rightarrow> u8 \<Rightarrow> bool \<Rightarrow> u64" where
  "mk_msr_iss op0 crn op1 crm op2 rt write =
     of_bool (\<not> write) OR push_bit 1 (ucast crm) OR push_bit 5 (ucast rt) OR push_bit 10 (ucast crn) OR
     push_bit 14 (ucast op1) OR push_bit 17 (ucast op2) OR push_bit 20 (ucast op0)"

lemma field_bit:
  assumes "unat f < 2 ^ k" "k \<le> n"
  shows "\<not> bit (f :: u8) n"
proof
  assume "bit f n"
  then have "bit (unat f) n" by (simp add: bit_unsigned_iff)
  then have "odd (unat f div 2 ^ n)" by (simp add: bit_iff_odd)
  moreover have "unat f < 2 ^ n" using assms(1) power_increasing [OF assms(2), of "2 :: nat"] by (simp del: power_increasing_iff)
  ultimately show False by simp
qed

lemma field_at:
  assumes "unat f < 2 ^ k" "\<And>n. n < k \<Longrightarrow> n < 8 \<Longrightarrow> bit (e :: u64) (s + n) = bit f n"
  shows "ucast (drop_bit s e AND mask k) = (f :: u8)"
proof (rule bit_word_eqI)
  fix n assume n: "n < LENGTH(8)"
  show "bit (ucast (drop_bit s e AND mask k) :: u8) n = bit f n"
  proof (cases "n < k")
    case True
    then show ?thesis using n assms(2) by (simp add: bit_simps)
  next
    case False
    then show ?thesis using field_bit [OF assms(1), of n] by (simp add: bit_simps)
  qed
qed

text \<open>
  C39: The decoding of a trapped register move inverts the layout of the syndrome. For every instruction
  with fields in their ranges, and whatever the syndrome holds above the fields, the access that the
  monitor makes of it has the direction, the general register and the register number of the
  instruction, and it has one general register.
\<close>

theorem esr_register_move_roundtrip:
  assumes "unat op0 < 4" "unat crn < 16" "unat op1 < 8" "unat crm < 16" "unat op2 < 8" "unat rt < 32"
  shows "system_register (mk_msr_iss op0 crn op1 crm op2 rt write OR push_bit 22 upper) = msr_acc_new op0 crn op1 crm op2 rt write \<and>
    acc_id (system_register (mk_msr_iss op0 crn op1 crm op2 rt write OR push_bit 22 upper)) = build_msr_id op0 crn op1 crm op2 \<and>
    \<not> double_target_reg (system_register (mk_msr_iss op0 crn op1 crm op2 rt write OR push_bit 22 upper))"
proof -
  let ?e = "mk_msr_iss op0 crn op1 crm op2 rt write OR push_bit 22 upper"
  have lim: "\<not> bit op0 n" if "2 \<le> n" for n using field_bit [of op0 2 n] assms(1) that by simp
  have b: "bit ?e n \<longleftrightarrow> ((((((\<not> write \<and> n = 0 \<or> 1 \<le> n \<and> n < 64 \<and> bit crm (n - 1)) \<or> 5 \<le> n \<and> n < 64 \<and> bit rt (n - 5)) \<or>
      10 \<le> n \<and> n < 64 \<and> bit crn (n - 10)) \<or> 14 \<le> n \<and> n < 64 \<and> bit op1 (n - 14)) \<or> 17 \<le> n \<and> n < 64 \<and> bit op2 (n - 17)) \<or>
      20 \<le> n \<and> n < 64 \<and> bit op0 (n - 20)) \<or> 22 \<le> n \<and> n < 64 \<and> bit upper (n - 22)" for n
    unfolding mk_msr_iss_def bit_or_iff bit_push_bit_iff bit_unsigned_iff
    by (simp add: disj_assoc conj_assoc bit_1_iff less_imp_diff_less cong: conj_cong)
  have small: "\<not> bit crm n" "\<not> bit crn n" if "4 \<le> n" for n using field_bit [of crm 4 n] field_bit [of crn 4 n] assms(2,4) that by auto
  have small3: "\<not> bit op1 n" "\<not> bit op2 n" if "3 \<le> n" for n using field_bit [of op1 3 n] field_bit [of op2 3 n] assms(3,5) that by auto
  have small5: "\<not> bit rt n" if "5 \<le> n" for n using field_bit [of rt 5 n] assms(6) that by auto
  have "msr_crm ?e = crm" unfolding msr_crm_def
    using field_at [of crm 4 ?e 1] assms(4) by (simp add: mask_eq_exp_minus_1 b)
  moreover have "msr_rt ?e = rt" unfolding msr_rt_def
    using field_at [of rt 5 ?e 5] assms(6) small by (simp add: mask_eq_exp_minus_1 b)
  moreover have "msr_crn ?e = crn" unfolding msr_crn_def
    using field_at [of crn 4 ?e 10] assms(2) small small5 by (simp add: mask_eq_exp_minus_1 b)
  moreover have "msr_op1 ?e = op1" unfolding msr_op1_def
    using field_at [of op1 3 ?e 14] assms(3) small small5 by (simp add: mask_eq_exp_minus_1 b)
  moreover have "msr_op2 ?e = op2" unfolding msr_op2_def
    using field_at [of op2 3 ?e 17] assms(5) small small5 small3 by (simp add: mask_eq_exp_minus_1 b)
  moreover have "msr_op0 ?e = op0" unfolding msr_op0_def
    using field_at [of op0 2 ?e 20] assms(1) small small5 small3 by (simp add: mask_eq_exp_minus_1 b)
  moreover have "msr_write ?e = write"
  proof -
    have "?e AND 1 = (if bit ?e 0 then 1 else 0)" by (rule bit_word_eqI) (auto simp: bit_simps)
    then show ?thesis using b [of 0] by (simp add: msr_write_def)
  qed
  ultimately have r: "system_register ?e = msr_acc_new op0 crn op1 crm op2 rt write" by (simp add: system_register_def)
  show ?thesis unfolding r by (simp add: msr_acc_new_def double_target_reg_def)
qed

theorem esr_register_move_roundtrip_witness:
  "acc_id (system_register (mk_msr_iss 3 1 0 0 0 7 True OR push_bit 22 0x188)) = SCTLR_EL1"
  by (rule esr_register_move_roundtrip [THEN conjunct2, THEN conjunct1]) simp_all

end
