(* ===== verification/Gits.thy ===== *)
theory Gits
  imports GicMmio SimpleAs
begin

text \<open>
  \<open>devices/gic/src/gits.cpp\<close> and class \<open>Gits\<close> of \<open>devices/gic/include/model/gic.hpp\<close>: the
  translation service of the interrupt controller. The guest writes commands into a queue in its
  memory; the service keeps its tables in guest memory too: for each device the address of its
  translation table, for each event of a device the interrupt and its collection, for each
  collection the target vCPU. A message-signalled interrupt is translated by these tables.

  Guest memory is that of \<open>SimpleAs\<close>. The local variables that the code reads into and writes from
  are bytes of the monitor's memory, at the addresses that \<open>its_env\<close> gives.
\<close>

subsection \<open>State\<close>

record gits =
  its_ctlr :: u32
  its_baser :: "u64 list"
  its_cbaser :: u64
  its_cwriter :: u64
  its_creadr :: u64

record ('d, 'x) its_env =
  ie_as :: "('d, 'x) as_env"
  ie_local :: u64
  ie_command :: u64

type_synonym 'x its_sys = "gicd \<times> 'x world"

abbreviation ARCHREV_GICV3 :: u64 where "ARCHREV_GICV3 \<equiv> 0x30"
abbreviation GITS_IIDR_IMPLEMENTER :: u64 where "GITS_IIDR_IMPLEMENTER \<equiv> 0x43b"
abbreviation BASER_DEVICE_TYPE :: u64 where "BASER_DEVICE_TYPE \<equiv> push_bit 56 1"
abbreviation BASER_INT_COLLECTION_TYPE :: u64 where "BASER_INT_COLLECTION_TYPE \<equiv> push_bit 56 4"
abbreviation ENTRY_SIZE :: u64 where "ENTRY_SIZE \<equiv> 8"
abbreviation BASER_ENTRY_SIZE :: u64 where "BASER_ENTRY_SIZE \<equiv> push_bit 48 (ENTRY_SIZE - 1)"
abbreviation BASER_RO_MASK :: u64 where "BASER_RO_MASK \<equiv> push_bit 56 7 OR push_bit 48 0x1f"

definition gits_new :: gits where
  "gits_new = \<lparr>its_ctlr = 0x80000000,
     its_baser = [BASER_DEVICE_TYPE OR BASER_ENTRY_SIZE, BASER_INT_COLLECTION_TYPE OR BASER_ENTRY_SIZE, 0, 0, 0, 0, 0, 0],
     its_cbaser = 0, its_cwriter = 0, its_creadr = 0\<rparr>"

definition gits_reset :: "gits \<Rightarrow> gits" where
  "gits_reset g = g\<lparr>its_ctlr := 0x80000000, its_cbaser := 0, its_cwriter := 0, its_creadr := 0\<rparr>"

definition gits_enabled :: "gits \<Rightarrow> bool" where "gits_enabled g \<longleftrightarrow> its_ctlr g AND 1 \<noteq> 0"

definition gits_write_ctlr :: "nat \<Rightarrow> nat \<Rightarrow> u64 \<Rightarrow> gits \<Rightarrow> (bool \<times> gits) option" where
  "gits_write_ctlr offset bytes value g = do {
     ASSERT (offset = 0);
     ASSERT (bytes = 4);
     Some (True, if value AND 1 \<noteq> 0 \<and> \<not> gits_enabled g then g\<lparr>its_ctlr := 1\<rparr> else g)
   }"

definition write_baser :: "nat \<Rightarrow> u64 \<Rightarrow> gits \<Rightarrow> (bool \<times> gits) option" where
  "write_baser index value g = do {
     bs \<leftarrow> upd_opt (its_baser g) index (\<lambda>old. (value AND NOT BASER_RO_MASK) OR (old AND BASER_RO_MASK));
     Some (True, g\<lparr>its_baser := bs\<rparr>)
   }"

definition read_baser :: "nat \<Rightarrow> gits \<Rightarrow> u64 option" where
  "read_baser index g = nth_opt (its_baser g) index"

definition write_cbaser :: "u64 \<Rightarrow> gits \<Rightarrow> bool \<times> gits" where
  "write_cbaser value g = (True, g\<lparr>its_cbaser := value\<rparr>)"

subsection \<open>The tables\<close>

text \<open>A 64-bit word of guest memory, read into a local variable that holds 0 before, or written from one.\<close>

definition its_load :: "('d, 'x) its_env \<Rightarrow> u64 \<Rightarrow> 'x world \<Rightarrow> (Errno \<times> u64 \<times> 'x world) option" where
  "its_load e addr w = do {
     (err, w) \<leftarrow> read_bus (ie_as e) addr (ie_local e) 8 (store_le 8 (ie_local e) 0 (fst w), snd w);
     Some (err, load_le 8 (fst w) (ie_local e), w)
   }"

definition its_store :: "('d, 'x) its_env \<Rightarrow> u64 \<Rightarrow> u64 \<Rightarrow> 'x world \<Rightarrow> (Errno \<times> 'x world) option" where
  "its_store e addr v w = write_bus (ie_as e) addr (ie_local e) 8 (store_le 8 (ie_local e) v (fst w), snd w)"

definition table_addr :: "nat \<Rightarrow> gits \<Rightarrow> u64 \<Rightarrow> u64 option" where
  "table_addr n g index = do { b \<leftarrow> read_baser n g; Some ((b AND 0xFFFFFFFFF000) + index * ENTRY_SIZE) }"

definition read_device_table :: "('d, 'x) its_env \<Rightarrow> gits \<Rightarrow> u32 \<Rightarrow> 'x world \<Rightarrow> (u64 \<times> 'x world) option" where
  "read_device_table e g dev_id w = do {
     a \<leftarrow> table_addr 0 g (ucast dev_id);
     (err, v, w) \<leftarrow> its_load e a w;
     Some (if err \<noteq> NONE then 0 else if v = 0 then 0 else v, w)
   }"

definition write_device_table :: "('d, 'x) its_env \<Rightarrow> gits \<Rightarrow> u32 \<Rightarrow> u64 \<Rightarrow> 'x world \<Rightarrow> 'x world option" where
  "write_device_table e g dev_id itt_addr w = do {
     a \<leftarrow> table_addr 0 g (ucast dev_id);
     (_, w) \<leftarrow> its_store e a itt_addr w;
     Some w
   }"

definition read_translation_table :: "('d, 'x) its_env \<Rightarrow> u64 \<Rightarrow> u32 \<Rightarrow> 'x world \<Rightarrow> (u64 \<times> 'x world) option" where
  "read_translation_table e itt_base event_id w = do {
     (err, v, w) \<leftarrow> its_load e (itt_base + ucast event_id * ENTRY_SIZE) w;
     Some (if err \<noteq> NONE then 0 else v, w)
   }"

definition write_translation_table :: "('d, 'x) its_env \<Rightarrow> u64 \<Rightarrow> u32 \<Rightarrow> u64 \<Rightarrow> 'x world \<Rightarrow> 'x world option" where
  "write_translation_table e itt_base event_id value w = do {
     (_, w) \<leftarrow> its_store e (itt_base + ucast event_id * ENTRY_SIZE) value w;
     Some w
   }"

definition read_collection_table :: "('d, 'x) its_env \<Rightarrow> gits \<Rightarrow> u16 \<Rightarrow> 'x world \<Rightarrow> (u64 \<times> 'x world) option" where
  "read_collection_table e g icid w = do {
     a \<leftarrow> table_addr 1 g (ucast icid);
     (err, v, w) \<leftarrow> its_load e a w;
     Some (if err \<noteq> NONE then - 1 else v, w)
   }"

definition write_collection_table :: "('d, 'x) its_env \<Rightarrow> gits \<Rightarrow> u16 \<Rightarrow> u64 \<Rightarrow> 'x world \<Rightarrow> 'x world option" where
  "write_collection_table e g icid rd_base w = do {
     a \<leftarrow> table_addr 1 g (ucast icid);
     (_, w) \<leftarrow> its_store e a rd_base w;
     Some w
   }"

subsection \<open>The commands\<close>

definition handle_movi :: "('d, 'x) its_env \<Rightarrow> gits \<Rightarrow> u32 \<Rightarrow> u32 \<Rightarrow> u16 \<Rightarrow> 'x world \<Rightarrow> 'x world option" where
  "handle_movi e g dev_id event_id icid w = do {
     (dte, w) \<leftarrow> read_device_table e g dev_id w;
     if dte = 0 then Some w
     else do {
       (entry, w) \<leftarrow> read_translation_table e dte event_id w;
       if entry = 0 then Some w
       else do {
         let old_icid = (ucast (drop_bit 32 entry) :: u16);
         let pintid = (ucast entry :: u32);
         (rd_base1, w) \<leftarrow> read_collection_table e g old_icid w;
         (rd_base2, w) \<leftarrow> read_collection_table e g icid w;
         if rd_base1 \<noteq> rd_base2
         then write_translation_table e dte event_id (push_bit 32 (ucast icid) OR ucast pintid) w
         else Some w
       }
     }
   }"

definition handle_mapd :: "('d, 'x) its_env \<Rightarrow> gits \<Rightarrow> bool \<Rightarrow> u32 \<Rightarrow> u64 \<Rightarrow> u8 \<Rightarrow> 'x world \<Rightarrow> 'x world option" where
  "handle_mapd e g valid dev_id itt_addr itt_size w = do {
     ASSERT (itt_size = 0);
     ASSERT (dev_id < 0x10000);
     write_device_table e g dev_id (if valid then itt_addr else 0) w
   }"

definition handle_mapc :: "('d, 'x) its_env \<Rightarrow> gits \<Rightarrow> bool \<Rightarrow> u32 \<Rightarrow> u16 \<Rightarrow> 'x world \<Rightarrow> 'x world option" where
  "handle_mapc e g valid rd_base icid w = write_collection_table e g icid (if valid then ucast rd_base else - 1) w"

definition handle_mapti :: "('d, 'x) its_env \<Rightarrow> gits \<Rightarrow> u32 \<Rightarrow> u32 \<Rightarrow> u32 \<Rightarrow> u16 \<Rightarrow> 'x world \<Rightarrow> 'x world option" where
  "handle_mapti e g dev_id event_id pintid icid w = do {
     (dte, w) \<leftarrow> read_device_table e g dev_id w;
     if dte \<noteq> 0 then write_translation_table e dte event_id (push_bit 32 (ucast icid) OR ucast pintid) w else Some w
   }"

text \<open>
  \<open>GicD::assert_lpi\<close> with its read of the configuration byte, which it makes only when the interrupt
  is not pending.
\<close>

definition its_assert_lpi :: "('d, 'x) its_env \<Rightarrow> u32 \<Rightarrow> u8 \<Rightarrow> 'x its_sys \<Rightarrow> 'x its_sys option" where
  "its_assert_lpi e pintid target s = (case s of (d, w) \<Rightarrow>
     if \<exists>i. irq_object d (0, unat pintid) = Some i \<and> \<not> irq_pending i
     then do {
       (err, w) \<leftarrow> read_bus (ie_as e) ((prop_baser d AND 0xFFFFFFFFF000) + of_nat (unat pintid - LPI_BASE)) (ie_local e) 1
         ((fst w)(ie_local e := 0), snd w);
       d \<leftarrow> assert_lpi (\<lambda>_. if err = NONE then Some (fst w (ie_local e)) else None) (unat pintid) (ucast target) d;
       Some (d, w)
     }
     else do { d \<leftarrow> assert_lpi (\<lambda>_. None) (unat pintid) (ucast target) d; Some (d, w) })"

definition handle_msi :: "('d, 'x) its_env \<Rightarrow> gits \<Rightarrow> u32 \<Rightarrow> u32 \<Rightarrow> 'x its_sys \<Rightarrow> 'x its_sys option" where
  "handle_msi e g event_id dev_id s = (case s of (d, w) \<Rightarrow> do {
     (dte, w) \<leftarrow> read_device_table e g dev_id w;
     if dte = 0 then Some (d, w)
     else do {
       (entry, w) \<leftarrow> read_translation_table e dte event_id w;
       if entry = 0 then Some (d, w)
       else do {
         let pintid = (ucast entry :: u32);
         let icid = (ucast (drop_bit 32 entry) :: u16);
         (ic_entry, w) \<leftarrow> read_collection_table e g icid w;
         if ic_entry = - 1 then Some (d, w) else its_assert_lpi e pintid (ucast ic_entry) (d, w)
       }
     }
   })"

datatype its_command =
    MOVI u32 u32 u16 | ITS_INT u32 u32 | SYNC | MAPD bool u32 u64 u8 | MAPC bool u32 u16 | MAPTI u32 u32 u32 u16 | INV | INVALL
  | Its_abort

text \<open>The fields of a command; the commands that are not supported abort.\<close>

definition decode_command :: "u64 \<Rightarrow> u64 \<Rightarrow> u64 \<Rightarrow> its_command" where
  "decode_command q0 q1 q2 =
     (let cmd_type = (ucast (q0 AND 0xF) :: u8); dev_id = ucast (drop_bit 32 q0); mapd_size = ucast (q1 AND 0x1F);
          event_id = ucast q1; pintid = ucast (drop_bit 32 q1); icid = ucast q2; rd_base = ucast (drop_bit 16 q2);
          itt_addr = q2 AND 0xFFFFFFFFFFF00; valid = (drop_bit 63 q2 \<noteq> 0) in
      if cmd_type = 0x01 then MOVI dev_id event_id icid
      else if cmd_type = 0x03 then ITS_INT event_id dev_id
      else if cmd_type = 0x05 then SYNC
      else if cmd_type = 0x08 then MAPD valid dev_id itt_addr mapd_size
      else if cmd_type = 0x09 then MAPC valid rd_base icid
      else if cmd_type = 0x0A then MAPTI dev_id event_id pintid icid
      else if cmd_type = 0x0C then INV
      else if cmd_type = 0x0D then INVALL
      else Its_abort)"

fun exec_command :: "('d, 'x) its_env \<Rightarrow> gits \<Rightarrow> its_command \<Rightarrow> 'x its_sys \<Rightarrow> 'x its_sys option" where
  "exec_command e g (MOVI dev_id event_id icid) (d, w) = map_option (Pair d) (handle_movi e g dev_id event_id icid w)"
| "exec_command e g (ITS_INT event_id dev_id) (d, w) = handle_msi e g event_id dev_id (d, w)"
| "exec_command e g SYNC (d, w) = Some (d, w)"
| "exec_command e g (MAPD valid dev_id itt_addr size') (d, w) = map_option (Pair d) (handle_mapd e g valid dev_id itt_addr size' w)"
| "exec_command e g (MAPC valid rd_base icid) (d, w) = map_option (Pair d) (handle_mapc e g valid rd_base icid w)"
| "exec_command e g (MAPTI dev_id event_id pintid icid) (d, w) = map_option (Pair d) (handle_mapti e g dev_id event_id pintid icid w)"
| "exec_command e g INV (d, w) = Some (d, w)"
| "exec_command e g INVALL (d, w) = Some (d, w)"
| "exec_command e g Its_abort (d, w) = None"

definition handle_command :: "('d, 'x) its_env \<Rightarrow> gits \<Rightarrow> u64 \<Rightarrow> u64 \<Rightarrow> u64 \<Rightarrow> u64 \<Rightarrow> 'x its_sys \<Rightarrow> 'x its_sys option" where
  "handle_command e g q0 q1 q2 q3 s = exec_command e g (decode_command q0 q1 q2) s"

subsection \<open>The command queue\<close>

text \<open>The size of the queue in bytes, and the queue's loop: at most \<open>n\<close> more commands are taken.\<close>

abbreviation COMMAND_SIZE :: u64 where "COMMAND_SIZE \<equiv> 32"

definition cbaser_size :: "('d, 'x) its_env \<Rightarrow> gits \<Rightarrow> u64" where
  "cbaser_size e g = ((its_cbaser g AND 0xFFF) + 1) * page_size (env_host (ie_as e))"

definition its_command_addr :: "gits \<Rightarrow> u64" where
  "its_command_addr g = (its_cbaser g AND 0xFFFFFFFFFF000) + its_creadr g"

definition fetch_command :: "('d, 'x) its_env \<Rightarrow> gits \<Rightarrow> 'x world \<Rightarrow> (Errno \<times> 'x world) option" where
  "fetch_command e g w =
     read_bus (ie_as e) (its_command_addr g) (ie_command e) COMMAND_SIZE
       (\<lambda>a. if in_area (ie_command e) 32 a then 0 else fst w a, snd w)"

definition command_word :: "('d, 'x) its_env \<Rightarrow> u64 \<Rightarrow> 'x world \<Rightarrow> u64" where
  "command_word e i w = load_le 8 (fst w) (ie_command e + 8 * i)"

primrec fetch_loop :: "('d, 'x) its_env \<Rightarrow> nat \<Rightarrow> gits \<Rightarrow> 'x its_sys \<Rightarrow> (gits \<times> 'x its_sys) option" where
  "fetch_loop e 0 g s = Some (g, s)"
| "fetch_loop e (Suc n) g s =
     (if its_cwriter g = its_creadr g then Some (g, s)
      else do {
        (err, w) \<leftarrow> fetch_command e g (snd s);
        if err = NONE
        then do {
          s \<leftarrow> handle_command e g (command_word e 0 w) (command_word e 1 w) (command_word e 2 w) (command_word e 3 w) (fst s, w);
          let next = its_creadr g + COMMAND_SIZE;
          fetch_loop e n (g\<lparr>its_creadr := if cbaser_size e g \<le> next then 0 else next\<rparr>) s
        }
        else Some (g\<lparr>its_creadr := its_creadr g OR 1\<rparr>, fst s, w)
      })"

definition fetch_commands :: "('d, 'x) its_env \<Rightarrow> gits \<Rightarrow> 'x its_sys \<Rightarrow> (gits \<times> 'x its_sys) option" where
  "fetch_commands e g s =
     (if drop_bit 63 (its_cbaser g) = 0 then Some (g, s)
      else fetch_loop e (unat (cbaser_size e g div COMMAND_SIZE)) g s)"

subsection \<open>The registers\<close>

definition gits_mmio_write ::
    "('d, 'x) its_env \<Rightarrow> nat \<Rightarrow> nat \<Rightarrow> u64 \<Rightarrow> gits \<times> 'x its_sys \<Rightarrow> (bool \<times> gits \<times> 'x its_sys) option" where
  "gits_mmio_write e offset bytes value gs = (case gs of (g, s) \<Rightarrow>
     if offset \<le> 0x3 then do { (ok, g) \<leftarrow> gits_write_ctlr offset bytes value g; Some (ok, g, s) }
     else if 0x80 \<le> offset \<and> offset \<le> 0x87 then do {
       ASSERT (bytes = 8);
       let (ok, g) = write_cbaser value g;
       Some (ok, g, s)
     }
     else if 0x88 \<le> offset \<and> offset \<le> 0x8F then do {
       ASSERT (value AND 1 = 0);
       let g = g\<lparr>its_cwriter := value AND 0xFFFE0\<rparr>;
       (g, s) \<leftarrow> (if gits_enabled g then fetch_commands e g s else Some (g, s));
       Some (True, g, s)
     }
     else if 0x100 \<le> offset \<and> offset \<le> 0x13f then do {
       ASSERT (bytes = 8);
       (ok, g) \<leftarrow> write_baser ((offset - 0x100) div 8) value g;
       Some (ok, g, s)
     }
     else None)"

definition gits_mmio_read :: "nat \<Rightarrow> nat \<Rightarrow> u64 \<Rightarrow> gits \<Rightarrow> (bool \<times> u64) option" where
  "gits_mmio_read offset bytes value g =
     (if offset \<le> 0x3 then Some (read_register offset 0x0 0x3 bytes (ucast (its_ctlr g)) value)
      else if offset \<le> 0x7 then Some (read_register offset 0x4 0x7 bytes GITS_IIDR_IMPLEMENTER value)
      else if offset \<le> 0xf then Some (read_register offset 0x8 0xf bytes 0 value)
      else if 0x80 \<le> offset \<and> offset \<le> 0x87 then Some (read_register offset 0x80 0x87 bytes (its_cbaser g) value)
      else if 0x88 \<le> offset \<and> offset \<le> 0x8F then Some (read_register offset 0x88 0x8F bytes (its_cwriter g) value)
      else if 0x90 \<le> offset \<and> offset \<le> 0x97 then Some (read_register offset 0x90 0x97 bytes (its_creadr g) value)
      else if 0x100 \<le> offset \<and> offset \<le> 0x13f then do {
        let idx = (offset - 0x100) div 8;
        v \<leftarrow> read_baser idx g;
        Some (read_register offset (0x100 + idx * 8) (0x100 + idx * 8 + 7) bytes v value)
      }
      else if 0xffe8 \<le> offset \<and> offset \<le> 0xffeb then Some (read_register offset 0xffe8 0xffeb bytes ARCHREV_GICV3 value)
      else None)"

definition gits_access ::
    "('d, 'x) its_env \<Rightarrow> vbus_access \<Rightarrow> nat \<Rightarrow> nat \<Rightarrow> u64 \<Rightarrow> gits \<times> 'x its_sys \<Rightarrow> (vbus_err \<times> u64 \<times> gits \<times> 'x its_sys) option" where
  "gits_access e acc offset bytes value gs =
     (if acc = WRITE then do {
        (ok, gs) \<leftarrow> gits_mmio_write e offset bytes value gs;
        Some (if ok then OK else ACCESS_ERR, value, gs)
      }
      else if acc = READ then do {
        (ok, v) \<leftarrow> gits_mmio_read offset bytes value (fst gs);
        Some (if ok then OK else ACCESS_ERR, v, gs)
      }
      else Some (ACCESS_ERR, value, gs))"

text \<open>\<open>GicD::assert_msi\<close>: each translation service that is registered at the address translates the message.\<close>

primrec assert_msi ::
    "('d, 'x) its_env \<Rightarrow> u64 \<Rightarrow> u32 \<Rightarrow> u32 \<Rightarrow> (u64 \<times> gits) list \<Rightarrow> 'x its_sys \<Rightarrow> 'x its_sys option" where
  "assert_msi e msi_addr msi_data rid [] s = Some s"
| "assert_msi e msi_addr msi_data rid (p # ps) s = do {
     s \<leftarrow> (if fst p = msi_addr then handle_msi e (snd p) msi_data rid s else Some s);
     assert_msi e msi_addr msi_data rid ps s
   }"

subsection \<open>Words of guest memory\<close>

text \<open>
  Where the eight bytes at a guest address are in the monitor's memory, when one writable space of
  the bus contains them; and an environment whose local variable is in no space.
\<close>

definition its_place :: "('d, 'x) its_env \<Rightarrow> u64 \<Rightarrow> u64 option" where
  "its_place e a = (case get_as_device_at (ie_as e) a 8 of
     None \<Rightarrow> None
   | Some as \<Rightarrow>
       if is_gpa_valid as a 8 \<and> cred_write (guest_cred as) then Some (vmm_view as + (a - get_guest_view as)) else None)"

definition its_env_ok :: "('d, 'x) its_env \<Rightarrow> bool" where
  "its_env_ok e \<longleftrightarrow> spaces_mapped (ie_as e) \<and> (\<forall>a q. its_place e a = Some q \<longrightarrow> apart (ie_local e) 8 q 8)"

text \<open>The memory outside the words of a list.\<close>

definition words_kept :: "u64 list \<Rightarrow> memory \<Rightarrow> memory \<Rightarrow> bool" where
  "words_kept ps m m' \<longleftrightarrow> (\<forall>q. (\<forall>p\<in>set ps. \<not> in_area p 8 q) \<longrightarrow> m' q = m q)"

lemma words_kept_trans: "words_kept ps m m' \<Longrightarrow> words_kept qs m' m'' \<Longrightarrow> words_kept (ps @ qs) m m''"
  by (simp add: words_kept_def)

lemma words_kept_mono: "words_kept ps m m' \<Longrightarrow> set ps \<subseteq> set qs \<Longrightarrow> words_kept qs m m'"
  by (auto simp: words_kept_def)

lemma words_kept_at: "words_kept ps m m' \<Longrightarrow> (\<And>p. p \<in> set ps \<Longrightarrow> apart p 8 q 8) \<Longrightarrow> load_le 8 m' q = load_le 8 m q"
proof (rule load_le_cong)
  fix i :: nat
  assume k: "words_kept ps m m'" and ap: "\<And>p. p \<in> set ps \<Longrightarrow> apart p 8 q 8" and i: "i < 8"
  have "in_area q 8 (q + of_nat i)" using i by (simp add: in_area_def unat_of_nat64)
  then have "\<not> in_area p 8 (q + of_nat i)" if "p \<in> set ps" for p
    using apart_no_common [OF ap [OF that]] by blast
  then show "m' (q + of_nat i) = m (q + of_nat i)" using k by (simp add: words_kept_def)
qed

lemma copied_word: "load_le 8 (fst (memcpy dst src 8 (m, x))) dst = load_le 8 m src"
proof (rule bit_eqI)
  fix k assume "possible_bit TYPE(u64) k"
  then have "unat (of_nat (k div 8) :: u64) = k div 8" by (intro unat_of_nat64) simp
  moreover assume "possible_bit TYPE(u64) k"
  ultimately show "bit (load_le 8 (fst (memcpy dst src 8 (m, x))) dst) k \<longleftrightarrow> bit (load_le 8 m src) k"
    by (auto simp: bit_load_le memcpy_def in_area_def)
qed

lemma copy_keeps_words: "words_kept [dst] m (fst (memcpy dst src 8 (m, x)))"
  by (simp add: words_kept_def memcpy_def)

lemma store_keeps_words: "words_kept [p] m (store_le 8 p v m)"
  by (simp add: words_kept_def store_le_at in_area_def)

lemma place_space:
  assumes "its_env_ok e" "its_place e a = Some q"
  obtains as where "get_as_device_at (ie_as e) a 8 = Some as" "is_gpa_valid as a 8" "cred_write (guest_cred as)" "mapped as"
    "q = vmm_view as + (a - get_guest_view as)" "apart (ie_local e) 8 q 8"
  using assms by (auto simp: its_env_ok_def its_place_def spaces_mapped_def split: option.splits if_splits)

text \<open>A load gives the word at the place and a store sets it; neither touches another word of a guest.\<close>

lemma its_load_at:
  assumes "its_env_ok e" "its_place e a = Some q"
  obtains m' where "its_load e a (m, x) = Some (NONE, load_le 8 m q, (m', x))" "words_kept [ie_local e] m m'"
proof -
  obtain as where as: "get_as_device_at (ie_as e) a 8 = Some as" "is_gpa_valid as a 8" "mapped as"
    "q = vmm_view as + (a - get_guest_view as)" "apart (ie_local e) 8 q 8" using place_space [OF assms] by metis
  let ?m = "store_le 8 (ie_local e) 0 m"
  let ?w = "memcpy (ie_local e) q 8 (?m, x)"
  have "load_le 8 ?m q = load_le 8 m q" using words_kept_at [OF store_keeps_words] as(5) by simp
  then have "its_load e a (m, x) = Some (NONE, load_le 8 m q, (fst ?w, x))"
    using as by (simp add: its_load_def read_bus_def as_read_def copied_word Let_def) (simp add: memcpy_def)
  moreover have "words_kept [ie_local e] m (fst ?w)"
    using words_kept_trans [OF store_keeps_words copy_keeps_words] by (rule words_kept_mono) simp
  ultimately show ?thesis using that by blast
qed

lemma its_store_at:
  assumes "its_env_ok e" "its_place e a = Some q"
  obtains m' where "its_store e a v (m, x) = Some (NONE, (m', x))" "load_le 8 m' q = v" "words_kept [ie_local e, q] m m'"
proof -
  obtain as where as: "get_as_device_at (ie_as e) a 8 = Some as" "is_gpa_valid as a 8" "cred_write (guest_cred as)" "mapped as"
    "q = vmm_view as + (a - get_guest_view as)" using place_space [OF assms] by metis
  let ?m = "store_le 8 (ie_local e) v m"
  let ?w = "memcpy q (ie_local e) 8 (?m, x)"
  have "its_store e a v (m, x) = Some (NONE, (fst ?w, x))"
    using as by (simp add: its_store_def write_bus_def as_write_def demand_map_def demand_unmap_def demand_unmap_clean_def Let_def)
      (simp add: memcpy_def)
  moreover have "load_le 8 (fst ?w) q = v" by (simp add: copied_word load_store_same take_bit_word_eq_self)
  moreover have "words_kept [ie_local e, q] m (fst ?w)"
    using words_kept_trans [OF store_keeps_words copy_keeps_words] by (rule words_kept_mono) simp
  ultimately show ?thesis using that by blast
qed

subsection \<open>The encoding of the commands\<close>

text \<open>The words of a command, as the architecture lays its fields out.\<close>

fun its_words :: "its_command \<Rightarrow> u64 \<times> u64 \<times> u64 \<times> u64" where
  "its_words (MOVI dev_id event_id icid) = (push_bit 32 (ucast dev_id) OR 0x01, ucast event_id, ucast icid, 0)"
| "its_words (ITS_INT event_id dev_id) = (push_bit 32 (ucast dev_id) OR 0x03, ucast event_id, 0, 0)"
| "its_words SYNC = (0x05, 0, 0, 0)"
| "its_words (MAPD valid dev_id itt_addr size') =
     (push_bit 32 (ucast dev_id) OR 0x08, ucast size', push_bit 63 (of_bool valid) OR itt_addr, 0)"
| "its_words (MAPC valid rd_base icid) =
     (0x09, 0, push_bit 63 (of_bool valid) OR push_bit 16 (ucast rd_base) OR ucast icid, 0)"
| "its_words (MAPTI dev_id event_id pintid icid) =
     (push_bit 32 (ucast dev_id) OR 0x0A, push_bit 32 (ucast pintid) OR ucast event_id, ucast icid, 0)"
| "its_words INV = (0x0C, 0, 0, 0)"
| "its_words INVALL = (0x0D, 0, 0, 0)"
| "its_words Its_abort = (0, 0, 0, 0)"

text \<open>The addresses of translation tables are multiples of 256 below \<open>2 ^ 52\<close>; a size has five bits.\<close>

fun its_fields_ok :: "its_command \<Rightarrow> bool" where
  "its_fields_ok (MAPD valid dev_id itt_addr size') \<longleftrightarrow> itt_addr AND 0xFFFFFFFFFFF00 = itt_addr \<and> size' AND 0x1F = size'"
| "its_fields_ok c \<longleftrightarrow> True"

lemma ucast_field_low: "(ucast (push_bit 32 (ucast (d :: u32)) OR ucast (v :: u32) :: u64) :: u32) = v"
  by (rule bit_eqI) (auto simp: bit_simps)

lemma ucast_field_high: "(ucast (drop_bit 32 (push_bit 32 (ucast (d :: u32)) OR ucast (v :: u32) :: u64)) :: u32) = d"
  by (rule bit_eqI) (auto simp: bit_simps dest: bit_imp_le_length)

lemma low_mask: "(0xF :: u64) = mask 4" "(0x1F :: u64) = mask 5" "(0x1F :: u8) = mask 5"
  by (simp_all add: mask_eq_exp_minus_1)

lemma field_above: "4 \<le> n \<Longrightarrow> (push_bit n (d :: u64) OR c) AND 0xF = c AND 0xF"
  by (simp add: low_mask take_bit_eq_mask [symmetric] take_bit_push_bit)

lemma above_field: "((c :: u64) OR push_bit 32 d) AND 0xF = c AND 0xF"
  using field_above [of 32 d c] by (simp add: or.commute)

lemma dev_field: "(c :: u64) AND 0xF = c \<Longrightarrow> (ucast (drop_bit 32 (push_bit 32 (ucast (d :: u32)) OR c :: u64)) :: u32) = d"
proof -
  assume c: "c AND 0xF = c"
  have "drop_bit 32 (take_bit 4 c) = 0" by (rule bit_eqI) (auto simp: bit_simps)
  then have "drop_bit 32 c = 0" by (simp only: take_bit_eq_mask c [unfolded low_mask])
  then show ?thesis by (simp add: drop_bit_or) (rule bit_eqI, auto simp: bit_simps dest: bit_imp_le_length)
qed

lemma icid_field: "(ucast (push_bit 63 t OR push_bit 16 (ucast (r :: u32)) OR ucast (i :: u16) :: u64) :: u16) = i"
  by (rule bit_eqI) (auto simp: bit_simps)

lemma rd_base_field: "(ucast (drop_bit 16 (push_bit 63 t OR push_bit 16 (ucast (r :: u32)) OR ucast (i :: u16) :: u64)) :: u32) = r"
  by (rule bit_eqI) (auto simp: bit_simps dest: bit_imp_le_length)

lemma valid_field: "(drop_bit 63 (push_bit 63 t OR push_bit 16 (ucast (r :: u32)) OR ucast (i :: u16) :: u64)) = take_bit 1 t"
  by (rule bit_eqI) (auto simp: bit_simps bit_0 dest: bit_imp_le_length)

lemma itt_mask: "(0xFFFFFFFFFFF00 :: u64) = push_bit 8 (mask 44)"
  by (simp add: mask_eq_exp_minus_1)

lemma itt_field: "a AND 0xFFFFFFFFFFF00 = a \<Longrightarrow> (push_bit 63 t OR a) AND 0xFFFFFFFFFFF00 = (a :: u64)"
proof -
  have "push_bit 63 t AND 0xFFFFFFFFFFF00 = 0" unfolding itt_mask by (rule bit_eqI) (auto simp: bit_simps)
  then show "a AND 0xFFFFFFFFFFF00 = a \<Longrightarrow> ?thesis" by (simp add: bit.conj_disj_distrib2)
qed

lemma itt_valid: "a AND 0xFFFFFFFFFFF00 = a \<Longrightarrow> drop_bit 63 (push_bit 63 t OR a) = take_bit 1 (t :: u64)"
proof -
  assume a: "a AND 0xFFFFFFFFFFF00 = a"
  have "drop_bit 63 (a AND push_bit 8 (mask 44)) = 0" by (rule bit_eqI) (auto simp: bit_simps)
  then have "drop_bit 63 a = 0" by (simp only: a [unfolded itt_mask])
  then show ?thesis by (simp add: drop_bit_or) (rule bit_eqI, auto simp: bit_simps bit_0 dest: bit_imp_le_length)
qed

lemma size_field: "size' AND 0x1F = size' \<Longrightarrow> ucast (ucast (size' :: u8) AND (0x1F :: u64)) = size'"
proof -
  assume "size' AND 0x1F = size'"
  moreover have "ucast (ucast size' AND (mask 5 :: u64)) = size' AND mask 5" by (rule bit_eqI) (auto simp: bit_simps)
  ultimately show ?thesis by (simp only: low_mask)
qed

lemma icid_word: "ucast (ucast (i :: u16) :: u64) = i" and event_word: "ucast (ucast (v :: u32) :: u64) = v"
  by (rule bit_eqI, auto simp: bit_simps)+

lemma valid_bit: "take_bit 1 (of_bool b :: u64) \<noteq> 0 \<longleftrightarrow> b"
  by simp

text \<open>Decoding the words of a command gives the command back.\<close>

lemma decode_its_words:
  assumes "its_fields_ok c"
  shows "(case its_words c of (q0, q1, q2, q3) \<Rightarrow> decode_command q0 q1 q2) = c"
proof -
  have t: "(push_bit 32 (ucast d) OR 0x01 :: u64) AND 0xF = 0x01" "(push_bit 32 (ucast d) OR 0x03 :: u64) AND 0xF = 0x03"
    "(push_bit 32 (ucast d) OR 0x08 :: u64) AND 0xF = 0x08" "(push_bit 32 (ucast d) OR 0x0A :: u64) AND 0xF = 0x0A" for d :: u32
    by (simp_all add: field_above)
  have d: "ucast (drop_bit 32 (push_bit 32 (ucast d) OR 0x01 :: u64)) = d" "ucast (drop_bit 32 (push_bit 32 (ucast d) OR 0x03 :: u64)) = d"
    "ucast (drop_bit 32 (push_bit 32 (ucast d) OR 0x08 :: u64)) = d" "ucast (drop_bit 32 (push_bit 32 (ucast d) OR 0x0A :: u64)) = d"
    for d :: u32
    by (rule dev_field, simp)+
  show ?thesis
  proof (cases c)
    case (MAPD v d a n)
    then have "a AND 0xFFFFFFFFFFF00 = a" "n AND 0x1F = n" using assms by simp_all
    then show ?thesis
      unfolding MAPD its_words.simps decode_command_def Let_def prod.case t d
      by (simp only: itt_field itt_valid size_field valid_bit) simp
  next
    case (MAPC v r i)
    show ?thesis
      unfolding MAPC its_words.simps decode_command_def Let_def prod.case icid_field rd_base_field valid_field valid_bit by simp
  next
    case (MAPTI d v p i)
    show ?thesis
      unfolding MAPTI its_words.simps decode_command_def Let_def prod.case t d icid_word ucast_field_low ucast_field_high by simp
  next
    case (MOVI d v i)
    show ?thesis unfolding MOVI its_words.simps decode_command_def Let_def prod.case t d icid_word event_word by simp
  next
    case (ITS_INT v d)
    show ?thesis unfolding ITS_INT its_words.simps decode_command_def Let_def prod.case t d event_word by simp
  qed (simp_all add: decode_command_def)
qed

subsection \<open>What the commands do to the tables\<close>

lemma handle_mapd_at:
  assumes "its_env_ok e" "table_addr 0 g (ucast dev_id) = Some a" "its_place e a = Some q" "dev_id < 0x10000"
  obtains m' where "handle_mapd e g valid dev_id itt_addr 0 (m, x) = Some (m', x)"
    "load_le 8 m' q = (if valid then itt_addr else 0)" "words_kept [ie_local e, q] m m'"
proof -
  obtain m' where "its_store e a (if valid then itt_addr else 0) (m, x) = Some (NONE, (m', x))"
    "load_le 8 m' q = (if valid then itt_addr else 0)" "words_kept [ie_local e, q] m m'"
    using its_store_at [OF assms(1,3)] .
  then show ?thesis using that assms(2,4) by (simp add: handle_mapd_def write_device_table_def)
qed

lemma handle_mapc_at:
  assumes "its_env_ok e" "table_addr 1 g (ucast icid) = Some a" "its_place e a = Some q"
  obtains m' where "handle_mapc e g valid rd_base icid (m, x) = Some (m', x)"
    "load_le 8 m' q = (if valid then ucast rd_base else - 1)" "words_kept [ie_local e, q] m m'"
proof -
  obtain m' where "its_store e a (if valid then ucast rd_base else - 1) (m, x) = Some (NONE, (m', x))"
    "load_le 8 m' q = (if valid then ucast rd_base else - 1)" "words_kept [ie_local e, q] m m'"
    using its_store_at [OF assms(1,3)] .
  then show ?thesis using that assms(2) by (simp add: handle_mapc_def write_collection_table_def)
qed

lemma read_device_table_at:
  assumes "its_env_ok e" "table_addr 0 g (ucast dev_id) = Some a" "its_place e a = Some q"
  obtains m' where "read_device_table e g dev_id (m, x) = Some (load_le 8 m q, (m', x))" "words_kept [ie_local e] m m'"
proof -
  obtain m' where "its_load e a (m, x) = Some (NONE, load_le 8 m q, (m', x))" "words_kept [ie_local e] m m'"
    using its_load_at [OF assms(1,3)] .
  then show ?thesis using that assms(2) by (simp add: read_device_table_def)
qed

lemma read_collection_table_at:
  assumes "its_env_ok e" "table_addr 1 g (ucast icid) = Some a" "its_place e a = Some q"
  obtains m' where "read_collection_table e g icid (m, x) = Some (load_le 8 m q, (m', x))" "words_kept [ie_local e] m m'"
proof -
  obtain m' where "its_load e a (m, x) = Some (NONE, load_le 8 m q, (m', x))" "words_kept [ie_local e] m m'"
    using its_load_at [OF assms(1,3)] .
  then show ?thesis using that assms(2) by (simp add: read_collection_table_def)
qed

lemma local_apart: "its_env_ok e \<Longrightarrow> its_place e a = Some q \<Longrightarrow> apart (ie_local e) 8 q 8"
  by (simp add: its_env_ok_def)

text \<open>An entry of a translation table: the collection above the interrupt.\<close>

definition itt_entry :: "u16 \<Rightarrow> u32 \<Rightarrow> u64" where
  "itt_entry icid pintid = push_bit 32 (ucast icid) OR ucast pintid"

lemma itt_entry_fields: "ucast (itt_entry i p) = p" "ucast (drop_bit 32 (itt_entry i p)) = i"
  by (rule bit_eqI, auto simp: itt_entry_def bit_simps dest: bit_imp_le_length)+

lemma itt_entry_zero: "p \<noteq> 0 \<Longrightarrow> itt_entry i p \<noteq> 0"
  using itt_entry_fields(1) [of i p] by auto

lemma handle_mapti_at:
  assumes "its_env_ok e" "table_addr 0 g (ucast dev_id) = Some a" "its_place e a = Some D" "load_le 8 m D \<noteq> 0"
    and "its_place e (load_le 8 m D + ucast event_id * ENTRY_SIZE) = Some q"
  obtains m' where "handle_mapti e g dev_id event_id pintid icid (m, x) = Some (m', x)"
    "load_le 8 m' q = itt_entry icid pintid" "words_kept [ie_local e, q] m m'"
proof -
  obtain m1 where 1: "read_device_table e g dev_id (m, x) = Some (load_le 8 m D, (m1, x))" "words_kept [ie_local e] m m1"
    using read_device_table_at [OF assms(1-3)] .
  obtain m' where 2: "its_store e (load_le 8 m D + ucast event_id * ENTRY_SIZE) (itt_entry icid pintid) (m1, x) = Some (NONE, (m', x))"
    "load_le 8 m' q = itt_entry icid pintid" "words_kept [ie_local e, q] m1 m'"
    using its_store_at [OF assms(1,5)] .
  have "words_kept [ie_local e, q] m m'" using words_kept_trans [OF 1(2) 2(3)] by (rule words_kept_mono) auto
  moreover have "handle_mapti e g dev_id event_id pintid icid (m, x) = Some (m', x)"
    using 1(1) 2(1) assms(4) by (simp add: handle_mapti_def write_translation_table_def itt_entry_def)
  ultimately show ?thesis using that 2(2) by blast
qed

text \<open>A message is translated by the three tables as they are in guest memory.\<close>

lemma handle_msi_at:
  assumes "its_env_ok e" "table_addr 0 g (ucast dev_id) = Some a" "its_place e a = Some D" "load_le 8 m D = itt" "itt \<noteq> 0"
    and "its_place e (itt + ucast event_id * ENTRY_SIZE) = Some T" "load_le 8 m T = itt_entry icid pintid" "pintid \<noteq> 0"
    and "table_addr 1 g (ucast icid) = Some b" "its_place e b = Some C" "load_le 8 m C \<noteq> - 1"
  obtains m' where "handle_msi e g event_id dev_id (d, m, x) = its_assert_lpi e pintid (ucast (load_le 8 m C)) (d, m', x)"
    "words_kept [ie_local e] m m'"
proof -
  obtain m1 where 1: "read_device_table e g dev_id (m, x) = Some (itt, (m1, x))" "words_kept [ie_local e] m m1"
    using read_device_table_at [OF assms(1-3), of m x] assms(4) by blast
  have "load_le 8 m1 T = load_le 8 m T" by (rule words_kept_at [OF 1(2)]) (use local_apart [OF assms(1,6)] in simp)
  then obtain m2 where 2: "its_load e (itt + ucast event_id * ENTRY_SIZE) (m1, x) = Some (NONE, itt_entry icid pintid, (m2, x))"
    "words_kept [ie_local e] m1 m2"
    using its_load_at [OF assms(1,6), of m1 x] assms(7) by metis
  have k: "words_kept [ie_local e] m m2" using words_kept_trans [OF 1(2) 2(2)] by (rule words_kept_mono) simp
  then have "load_le 8 m2 C = load_le 8 m C" by (rule words_kept_at) (use local_apart [OF assms(1,10)] in simp)
  then obtain m3 where 3: "read_collection_table e g icid (m2, x) = Some (load_le 8 m C, (m3, x))" "words_kept [ie_local e] m2 m3"
    using read_collection_table_at [OF assms(1,9,10), of m2 x] by metis
  have "words_kept [ie_local e] m m3" using words_kept_trans [OF k 3(2)] by (rule words_kept_mono) simp
  moreover have "handle_msi e g event_id dev_id (d, m, x) = its_assert_lpi e pintid (ucast (load_le 8 m C)) (d, m3, x)"
    using 1(1) 2(1) 3(1) assms(5,11) itt_entry_zero [OF assms(8), of icid]
    by (simp add: handle_msi_def read_translation_table_def itt_entry_fields)
  ultimately show ?thesis using that by blast
qed

text \<open>The guest's commands in their order, each from its words.\<close>

primrec run_its :: "('d, 'x) its_env \<Rightarrow> gits \<Rightarrow> its_command list \<Rightarrow> 'x its_sys \<Rightarrow> 'x its_sys option" where
  "run_its e g [] s = Some s"
| "run_its e g (c # cs) s =
     (case its_words c of (q0, q1, q2, q3) \<Rightarrow> do { s \<leftarrow> handle_command e g q0 q1 q2 q3 s; run_its e g cs s })"

lemma run_its_step: "its_fields_ok c \<Longrightarrow> run_its e g (c # cs) s = do { s \<leftarrow> exec_command e g c s; run_its e g cs s }"
  using decode_its_words [of c] by (simp add: handle_command_def split: prod.splits)

subsection \<open>The interrupt of a message\<close>

lemma cpu_target:
  "tgt_is_valid (irq_target CPU_ID (ucast (t :: u8)))" "\<not> tgt_is_set (irq_target CPU_ID (ucast t))"
  "unat (tgt_target (irq_target CPU_ID (ucast t))) = unat t"
proof -
  have m: "(0x7fffffff :: u32) = mask 31" by (simp add: mask_eq_exp_minus_1)
  have t: "irq_target CPU_ID (ucast t) = (ucast t :: u32)" "tgt_target (ucast t) = ucast t"
    unfolding irq_target_def tgt_target_def m by (rule bit_word_eqI, auto simp: bit_simps dest: bit_imp_le_length)+
  have u: "unat (ucast t :: u32) = unat t" using unsigned_less [of t, where 'a = nat] by (simp add: unsigned_ucast_eq take_bit_word_eq_self take_bit_nat_eq_self)
  have lt: "unat t < 256" using unsigned_less [of t, where 'a = nat] by simp
  have n: "\<not> bit (ucast t :: u32) 31" by (auto simp: bit_simps dest: bit_imp_le_length)
  have s: "bit CPU_SET n \<Longrightarrow> n = 31" for n using bit_exp_iff [where ?'a = "32 word", of 31 n] by simp
  have "ucast t AND CPU_SET = (0 :: u32)" by (rule bit_word_eqI) (use n s in \<open>auto simp only: bit_and_iff bit_0_eq\<close>)
  then show "\<not> tgt_is_set (irq_target CPU_ID (ucast t))" unfolding t(1) tgt_is_set_def by simp
  have "bit INVALID_TARGET 31" by simp
  then show "tgt_is_valid (irq_target CPU_ID (ucast t))" unfolding t(1) tgt_is_valid_def using n by metis
  show "unat (tgt_target (irq_target CPU_ID (ucast t))) = unat t" unfolding t by (rule u)
qed

text \<open>
  What the assertion of an LPI leaves: the interrupt is pending from sender 0 at its target, with
  the priority of its configuration byte, and the target is told if it can take interrupts. No
  other interrupt and no other mark changes.
\<close>

definition lpi_given :: "gicd \<Rightarrow> gicd \<Rightarrow> nat \<Rightarrow> u8 \<Rightarrow> u8 \<Rightarrow> bool" where
  "lpi_given g g' n t prio \<longleftrightarrow>
     (\<exists>j. irq_object g' (0, n) = Some j \<and> irq_pending j \<and> i_prio j = prio \<and> pend_set (i_info j) = {0} \<and> inj_set (i_info j) = {} \<and>
        inj_target (i_info j) = irq_target CPU_ID (ucast t)) \<and>
     b_pending (local g' ! unat t) n \<and>
     notified g' = notified g @ (if affinity_routing g \<longrightarrow> can_receive_irq (redists g ! unat t) then [unat t] else []) \<and>
     (\<forall>r. \<not> same_irq (0, n) r \<longrightarrow> irq_object g' r = irq_object g r) \<and>
     (\<forall>c k. c < num_vcpus g \<and> (c, k) \<noteq> (unat t, n) \<longrightarrow> b_pending (local g' ! c) k = b_pending (local g ! c) k) \<and>
     map b_in_injection (local g') = map b_in_injection (local g)"

lemma irq_modify_notified: "irq_modify r f g = Some g' \<Longrightarrow> notified g' = notified g"
  by (cases r; auto elim!: irq_modify_cases)

lemma assert_lpi_effect:
  assumes "gic_wf g" "LPI_BASE \<le> n" "irq_object g (0, n) = Some i" "\<not> irq_pending i" "prop_baser g \<noteq> 0" "unat t < num_vcpus g"
    and "rc ((prop_baser g AND 0xFFFFFFFFF000) + of_nat (n - LPI_BASE)) = Some conf"
  shows "if conf AND 1 = 0 then assert_lpi rc n (ucast t) g = Some g
     else \<exists>g'. assert_lpi rc n (ucast t) g = Some g' \<and> lpi_given g g' n t (conf AND 0xFC)"
proof -
  have n: "n < MAX_IRQ" by (rule object_bound [OF assms(1,3)])
  note w = wf_bank [OF assms(1,6)] wf_len [OF assms(1)]
  show ?thesis
  proof (cases "conf AND 1 = 0")
    case True
    then show ?thesis using n assms by (simp add: assert_lpi_def)
  next
    case False
    let ?upd = "set_target_cpu (irq_target CPU_ID (ucast t)) 0 OR push_bit PENDING_SHIFT 1"
    obtain g1 where g1: "irq_modify (0, n) (irq_set_prio (conf AND 0xFC)) g = Some g1" using irq_modify_total [OF assms(3)] by blast
    note o1 = irq_modify_object [OF g1] and s1 = irq_modify_shape [OF g1] and b1 = irq_modify_bits [OF g1]
    have "irq_object g1 (0, n) = Some (i\<lparr>i_prio := conf AND 0xFC\<rparr>)"
      using o1 [of "(0, n)"] assms(3) by (simp add: same_irq_def irq_set_prio_def)
    then obtain g2 where g2: "set_info (0, n) ?upd g1 = Some g2" using irq_modify_total by (metis set_info_def)
    note i2 = set_info_spec [OF g2]
    have sh: "same_shape g g2" using s1 i2(1) same_shape_trans by (simp add: irq_set_prio_def)
    note ss = same_shape_simps [OF sh]
    have l2: "unat t < length (local g2)" "b_notify (local g2 ! unat t)"
      using ss(9) same_shape_notify [OF sh] w assms(6) by auto
    let ?g3 = "g2\<lparr>local := (local g2)[unat t := (local g2 ! unat t)\<lparr>b_pending := bitset_set (b_pending (local g2 ! unat t)) n\<rparr>]\<rparr>"
    let ?can = "affinity_routing g \<longrightarrow> can_receive_irq (redists g ! unat t)"
    let ?g4 = "if ?can then ?g3\<lparr>notified := notified ?g3 @ [unat t]\<rparr> else ?g3"
    have can: "vcpu_can_receive_irq ?g3 (unat t) n = Some ?can"
      using assms(2,6) ss w by (auto simp: vcpu_can_receive_irq_def affinity_routing_def nth_opt_def)
    have nt: "notify_target n (irq_target CPU_ID (ucast t)) g2 = Some (True, ?g4)"
      using cpu_target [of t] l2 can by (simp add: notify_target_def notify_cpu_def nth_opt_def bank_modify_lt)
    have id: "i_id i = n" using wf_id [OF assms(1,3)] by simp
    have "set_pending 0 (set_target_cpu (irq_target CPU_ID (ucast t)) 0) = Some ?upd" by (simp add: set_pending_def)
    then have r: "assert_lpi rc n (ucast t) g = Some ?g4"
      using n assms(2-5,7) False g1 g2 nt id by (simp add: assert_lpi_def)
    have upd: "pend_set ?upd = {0}" "inj_set ?upd = {}" "inj_target ?upd = irq_target CPU_ID (ucast t)" by simp_all
    have obj: "irq_object ?g4 r = (if same_irq (0, n) r then map_option (\<lambda>i. i\<lparr>i_prio := conf AND 0xFC, i_info := ?upd\<rparr>) (irq_object g r)
        else irq_object g r)" for r
    proof -
      have "bank_modify (unat t) (\<lambda>b. b\<lparr>b_pending := bitset_set (b_pending b) n\<rparr>) g2 = Some ?g3" using l2(1) by (simp add: bank_modify_lt)
      from bank_modify_object [OF this] have "irq_object ?g3 r = irq_object g2 r" by (simp add: bits_only_def)
      then show ?thesis using i2(2) [of r] o1 [of r]
        by (auto simp: option.map_comp comp_def irq_set_prio_def)
    qed
    have "irq_object ?g4 (0, n) = Some (i\<lparr>i_prio := conf AND 0xFC, i_info := ?upd\<rparr>)"
      using obj [of "(0, n)"] assms(3) by (simp add: same_irq_def)
    moreover have "irq_pending (i\<lparr>i_prio := conf AND 0xFC, i_info := ?upd\<rparr>)"
      using upd(1) by (simp add: irq_pending_def inj_pending_iff del: inj_view_0)
    moreover have "irq_object ?g4 r = irq_object g r" if "\<not> same_irq (0, n) r" for r using obj [of r] that by simp
    moreover have "b_pending (local ?g4 ! unat t) n" using l2(1) by (simp add: bitset_set_def)
    moreover have "b_pending (local ?g4 ! c) k = b_pending (local g ! c) k" if c: "c < num_vcpus g" "(c, k) \<noteq> (unat t, n)" for c k
    proof -
      have l: "c < length (local g)" "length (local g2) = length (local g)" using c(1) w ss(9) by simp_all
      have "map b_pending (local g2) ! c = map b_pending (local g) ! c" using i2(4) b1(2) by simp
      then have "b_pending (local g2 ! c) = b_pending (local g ! c)" using l by simp
      then show ?thesis using c(2) l by (cases "c = unat t") (auto simp: bitset_set_def)
    qed
    moreover have "map b_in_injection (local ?g4) = map b_in_injection (local g)"
    proof -
      have m: "map b_in_injection (local g2) = map b_in_injection (local g)" using i2(3) b1(1) by simp
      have "b_in_injection (local g2 ! unat t) = map b_in_injection (local g2) ! unat t" using l2(1) by simp
      then have "(map b_in_injection (local g2))[unat t := b_in_injection (local g2 ! unat t)] = map b_in_injection (local g2)" by simp
      then show ?thesis using m by (simp add: map_update)
    qed
    moreover have "notified ?g4 = notified g @ (if ?can then [unat t] else [])"
      using irq_modify_notified [OF g1] irq_modify_notified [OF g2 [unfolded set_info_def]] by simp
    ultimately have "lpi_given g ?g4 n t (conf AND 0xFC)"
      unfolding lpi_given_def using upd by (intro conjI) (auto simp del: inj_view_0)
    then show ?thesis using r False by auto
  qed
qed

text \<open>Where the byte at a guest address is.\<close>

definition its_byte :: "('d, 'x) its_env \<Rightarrow> u64 \<Rightarrow> u64 option" where
  "its_byte e a = (case get_as_device_at (ie_as e) a 1 of
     None \<Rightarrow> None
   | Some as \<Rightarrow> if is_gpa_valid as a 1 then Some (vmm_view as + (a - get_guest_view as)) else None)"

text \<open>The address of the configuration byte of an LPI.\<close>

definition lpi_conf_addr :: "gicd \<Rightarrow> nat \<Rightarrow> u64" where
  "lpi_conf_addr g n = (prop_baser g AND 0xFFFFFFFFF000) + of_nat (n - LPI_BASE)"

lemma its_assert_lpi_at:
  assumes "its_env_ok e" "its_byte e (lpi_conf_addr d (unat pintid)) = Some P" "P \<noteq> ie_local e"
    and "gic_wf d" "LPI_BASE \<le> unat pintid" "irq_object d (0, unat pintid) = Some i" "\<not> irq_pending i" "prop_baser d \<noteq> 0"
    and "unat t < num_vcpus d"
  obtains d' m' where "its_assert_lpi e pintid t (d, m, x) = Some (d', m', x)" "words_kept [ie_local e] m m'"
    "if m P AND 1 = 0 then d' = d else lpi_given d d' (unat pintid) t (m P AND 0xFC)"
proof -
  let ?m = "m(ie_local e := 0)"
  let ?w = "memcpy (ie_local e) P 1 (?m, x)"
  obtain as where as: "get_as_device_at (ie_as e) (lpi_conf_addr d (unat pintid)) 1 = Some as"
    "is_gpa_valid as (lpi_conf_addr d (unat pintid)) 1" "P = vmm_view as + (lpi_conf_addr d (unat pintid) - get_guest_view as)"
    using assms(2) by (auto simp: its_byte_def split: option.splits if_splits)
  moreover from this(1) have "mapped as" using assms(1) by (auto simp: its_env_ok_def spaces_mapped_def)
  ultimately have rd: "read_bus (ie_as e) (lpi_conf_addr d (unat pintid)) (ie_local e) 1 (?m, x) = Some (NONE, (fst ?w, x))"
    by (simp add: read_bus_def as_read_def Let_def) (simp add: memcpy_def)
  have val: "fst ?w (ie_local e) = m P" using assms(3) by (simp add: memcpy_def in_area_def)
  have k: "words_kept [ie_local e] m (fst ?w)" by (auto simp: words_kept_def memcpy_def in_area_def)
  let ?rc = "\<lambda>_. Some (m P)"
  have eq: "its_assert_lpi e pintid t (d, m, x) = do { d \<leftarrow> assert_lpi ?rc (unat pintid) (ucast t) d; Some (d, fst ?w, x) }"
    using assms(6,7) rd val by (auto simp: its_assert_lpi_def lpi_conf_addr_def)
  have "if m P AND 1 = 0 then assert_lpi ?rc (unat pintid) (ucast t) d = Some d
     else \<exists>g'. assert_lpi ?rc (unat pintid) (ucast t) d = Some g' \<and> lpi_given d g' (unat pintid) t (m P AND 0xFC)"
    by (rule assert_lpi_effect [OF assms(4-8,9)]) simp
  then show ?thesis using that [of d "fst ?w"] that eq k by (cases "m P AND 1 = 0") auto
qed

text \<open>
  C37: when the guest has given a device a translation table, a collection a target, and an event of
  the device an LPI in that collection, a message of that event asserts the LPI at that target: it is
  pending there, from sender 0, with the priority of its configuration byte, the target is notified if
  it can take interrupts, and nothing else of the interrupt controller changes; when the
  configuration byte says that the LPI is off, nothing changes. The three commands write nothing but
  the three entries and the message writes no guest memory. When the guest then takes the device's
  table away, a message of the device asserts nothing. The target is the low eight bits of what the
  collection was given. The conditions: every space of guest memory is mapped and holds none of the
  service's local variable; the three entries are in writable guest memory, disjoint, and apart
  from the configuration byte, which is in guest memory; the table's address has the alignment of
  the command's field; the LPI exists, is not 0 and is not pending, the guest has given the address of
  the configuration bytes, and the target is a vCPU of the machine.
\<close>

theorem its_message_translated:
  assumes "its_env_ok e" "dev_id < 0x10000" "itt \<noteq> 0" "itt AND 0xFFFFFFFFFFF00 = itt"
    and "table_addr 0 g (ucast dev_id) = Some a" "its_place e a = Some D"
    and "table_addr 1 g (ucast icid) = Some b" "its_place e b = Some C"
    and "its_place e (itt + ucast event_id * ENTRY_SIZE) = Some T"
    and "apart C 8 D 8" "apart T 8 D 8" "apart T 8 C 8"
    and "its_byte e (lpi_conf_addr d (unat pintid)) = Some P" "\<not> in_area (ie_local e) 8 P" "\<not> in_area D 8 P" "\<not> in_area C 8 P" "\<not> in_area T 8 P"
    and "gic_inv d" "LPI_BASE \<le> unat pintid" "irq_object d (0, unat pintid) = Some i" "\<not> irq_pending i" "prop_baser d \<noteq> 0"
    and "unat (ucast rd :: u8) < num_vcpus d"
  shows "\<exists>m' m1 m2 m3 d'.
     run_its e g [MAPD True dev_id itt 0, MAPC True rd icid, MAPTI dev_id event_id pintid icid] (d, m, x) = Some (d, m', x) \<and>
     words_kept [ie_local e, D, C, T] m m' \<and>
     handle_msi e g event_id dev_id (d, m', x) = Some (d', m1, x) \<and> words_kept [ie_local e] m' m1 \<and>
     (if m P AND 1 = 0 then d' = d else lpi_given d d' (unat pintid) (ucast rd) (m P AND 0xFC)) \<and>
     run_its e g [MAPD False dev_id 0 0] (d', m1, x) = Some (d', m2, x) \<and>
     handle_msi e g event_id dev_id (d', m2, x) = Some (d', m3, x)"
proof -
  have pz: "pintid \<noteq> 0" using assms(19) by auto
  note loc = local_apart [OF assms(1,6)] local_apart [OF assms(1,8)] local_apart [OF assms(1,9)]
  obtain ma where 1: "handle_mapd e g True dev_id itt 0 (m, x) = Some (ma, x)" "load_le 8 ma D = itt" "words_kept [ie_local e, D] m ma"
    using handle_mapd_at [OF assms(1,5,6,2), of True itt m x] by auto
  obtain mb where 2: "handle_mapc e g True rd icid (ma, x) = Some (mb, x)" "load_le 8 mb C = ucast rd" "words_kept [ie_local e, C] ma mb"
    using handle_mapc_at [OF assms(1,7,8), of True rd ma x] by auto
  have D: "load_le 8 mb D = itt" using words_kept_at [OF 2(3), of D] loc assms(10) 1(2) by auto
  obtain m' where 3: "handle_mapti e g dev_id event_id pintid icid (mb, x) = Some (m', x)"
    "load_le 8 m' T = itt_entry icid pintid" "words_kept [ie_local e, T] mb m'"
    using handle_mapti_at [OF assms(1,5,6), of mb event_id T pintid icid x] D assms(3,9) by auto
  have D': "load_le 8 m' D = itt" using words_kept_at [OF 3(3), of D] loc assms(11) D by auto
  have C': "load_le 8 m' C = ucast rd" using words_kept_at [OF 3(3), of C] loc assms(12) 2(2) by auto
  have kept: "words_kept [ie_local e, D, C, T] m m'"
    using words_kept_trans [OF words_kept_trans [OF 1(3) 2(3)] 3(3)] by (rule words_kept_mono) auto
  have "bit (ucast rd :: u64) 63 \<noteq> bit (- 1 :: u64) 63" using bit_imp_le_length [of rd 63] by (auto simp: bit_simps)
  then have r: "ucast rd \<noteq> (- 1 :: u64)" by metis
  have t: "(ucast (ucast rd :: u64) :: u8) = ucast rd" by (rule bit_eqI) (auto simp: bit_simps)
  obtain m0 where 4: "handle_msi e g event_id dev_id (d, m', x) = its_assert_lpi e pintid (ucast rd) (d, m0, x)"
    "words_kept [ie_local e] m' m0"
    using handle_msi_at [OF assms(1,5,6) D' assms(3,9) 3(2) pz assms(7,8), of d x, unfolded C' t, OF r] .
  have P: "m0 P = m P" using kept 4(2) assms(14-17) by (simp add: words_kept_def)
  have wf: "gic_wf d" using assms(18) by (simp add: gic_inv_def)
  have loc_P: "P \<noteq> ie_local e" using assms(14) by (auto simp: in_area_def)
  obtain d' m1 where 7: "its_assert_lpi e pintid (ucast rd) (d, m0, x) = Some (d', m1, x)" "words_kept [ie_local e] m0 m1"
    "if m P AND 1 = 0 then d' = d else lpi_given d d' (unat pintid) (ucast rd) (m P AND 0xFC)"
    using its_assert_lpi_at [OF assms(1,13) loc_P wf assms(19-23), of m0 x] unfolding P by blast
  have k1: "words_kept [ie_local e] m' m1" using words_kept_trans [OF 4(2) 7(2)] by (rule words_kept_mono) simp
  obtain m2 where 5: "handle_mapd e g False dev_id 0 0 (m1, x) = Some (m2, x)" "load_le 8 m2 D = 0"
    using handle_mapd_at [OF assms(1,5,6,2), of False 0 m1 x] by auto
  obtain m3 where 6: "read_device_table e g dev_id (m2, x) = Some (0, (m3, x))"
    using read_device_table_at [OF assms(1,5,6), of m2 x] 5(2) by auto
  have "run_its e g [MAPD True dev_id itt 0, MAPC True rd icid, MAPTI dev_id event_id pintid icid] (d, m, x) = Some (d, m', x)"
    using assms(4) 1(1) 2(1) 3(1) by (simp add: run_its_step del: run_its.simps(2))
  moreover have "run_its e g [MAPD False dev_id 0 0] (d', m1, x) = Some (d', m2, x)"
    using 5(1) by (simp add: run_its_step del: run_its.simps(2))
  moreover have "handle_msi e g event_id dev_id (d', m2, x) = Some (d', m3, x)" using 6 by (simp add: handle_msi_def)
  ultimately show ?thesis using kept 4(1) 7(1,3) k1 by (intro exI conjI) (assumption | simp)+
qed

text \<open>A machine whose tables are in one page, with the local variable outside.\<close>

definition demo_its_env :: "(nat, unit) its_env" where
  "demo_its_env = \<lparr>ie_as = demo_env, ie_local = 0x9000, ie_command = 0xa000\<rparr>"

definition demo_gits :: gits where
  "demo_gits = gits_new\<lparr>its_baser := [0x1000, 0x1000, 0, 0, 0, 0, 0, 0]\<rparr>"

lemma demo_table_addrs:
  "table_addr 0 demo_gits (ucast (0 :: u32)) = Some 0x1000" "table_addr 1 demo_gits (ucast (4 :: u16)) = Some 0x1020"
  by (simp_all add: table_addr_def read_baser_def nth_opt_def demo_gits_def)

lemma demo_space_at: "get_as_device_at demo_env a n = Some as \<Longrightarrow> as = demo_as"
  by (auto simp: get_as_device_at_def demo_env_def split: option.splits if_splits)

lemma demo_place: "its_place demo_its_env 0x1000 = Some 0x70000" "its_place demo_its_env 0x1020 = Some 0x70020"
    "its_place demo_its_env 0x1040 = Some 0x70040"
  by (simp_all add: its_place_def demo_its_env_def get_as_device_at_def get_device_at_def demo_env_def demo_bus_devices
      bus_lookup_def range_compare_def range_intersect_def range_end_def range_empty_def range_less_def word_le_nat_alt word_less_nat_alt
      demo_as_def simple_as_new_def posix_cred_def is_gpa_valid_def range_contains_def range_contains_val_def range_last_def)

lemma demo_its_env_ok: "its_env_ok demo_its_env"
proof -
  have "apart 0x9000 8 q 8" if "its_place demo_its_env a = Some q" for a q
  proof -
    have at: "get_as_device_at demo_env a 8 = Some demo_as" "is_gpa_valid demo_as a 8" "q = 0x70000 + (a - 0x1000)"
      using that demo_space_at [of a 8]
      by (auto simp: its_place_def demo_its_env_def demo_as_def simple_as_new_def split: option.splits if_splits)
    have "range_ok (as_range demo_as)" by (simp add: demo_as_def simple_as_new_def range_ok_def)
    then have "addrs (gpa_range a 8) \<subseteq> addrs (as_range demo_as)"
      using at(2) range_contains_addrs as_at_range_ok [OF at(1)] by (simp add: is_gpa_valid_def)
    then have "unat (0x1000 :: u64) \<le> unat a \<and> unat a + 8 \<le> 0x1100"
      by (auto simp: addrs_def ivl_subset demo_as_def simple_as_new_def)
    moreover from this have "unat (a - 0x1000) = unat a - 0x1000" by (simp add: unat_minus_le word_le_nat_alt)
    ultimately have y: "unat (a - 0x1000) \<le> 0xf8" by linarith
    define y where "y = a - 0x1000"
    have "unat (0x70000 + y - 0x9000) = 0x67000 + unat y" "unat (0x9000 - (0x70000 + y)) = 2 ^ 64 - 0x67000 - unat y"
      using y unfolding y_def [symmetric] by (simp_all add: unat_word_ariths unat_sub_if_size word_size)
    then show ?thesis using y unfolding apart_def at(3) y_def [symmetric] by simp
  qed
  then show ?thesis using demo_spaces_mapped by (simp add: its_env_ok_def) (simp add: demo_its_env_def)
qed

text \<open>A controller of two vCPUs with its LPIs, whose configuration bytes are in the same page.\<close>

definition demo_its_gicd :: gicd where
  "demo_its_gicd = (demo_gic (\<lambda>n i. i) (\<lambda>n. False) 3)
     \<lparr>mem_bus := True, has_its := True, lpi := map lpi_new [0..<MAX_IRQ - LPI_BASE], prop_baser := 0x1008\<rparr>"

lemma demo_lpi: "k < 1024 \<Longrightarrow> irq_object demo_its_gicd (0, 8192 + k) = Some (lpi_new k)"
  by (simp add: demo_its_gicd_def irq_object.simps nth_opt_def)

lemma lpi_new_fresh: "i_id (lpi_new k) = k + LPI_BASE" "i_info (lpi_new k) = 0" "\<not> irq_pending (lpi_new k)"
  by (simp_all add: lpi_new_def irq_configure_hw_def irq_set_prio_def irq_set_group1_def irq_set_enable_def irq_new_def irq_pending_def
      inj_pending_def)

lemma demo_its_inv: "gic_inv demo_its_gicd"
proof -
  let ?g = "demo_gic (\<lambda>n i. i) (\<lambda>n. False) 3"
  have g: "gic_inv ?g" by (rule demo_inv) (simp_all add: irq_new_def)
  have obj: "i_id i = snd r \<and> pend_set (i_info i) \<subseteq> {0}" if o: "irq_object demo_its_gicd r = Some i" for r i
  proof (cases "snd r < LPI_BASE")
    case True
    then have "irq_object demo_its_gicd r = irq_object ?g r" by (cases r) (simp add: demo_its_gicd_def irq_object.simps)
    then have "Some i = (if snd r < 32 \<and> 2 \<le> fst r \<or> 64 \<le> snd r then None else Some (irq_new\<lparr>i_id := snd r\<rparr>))"
      using o by (cases r) (auto simp: demo_object split: if_splits)
    then show ?thesis by (auto simp: irq_new_def split: if_splits)
  next
    case False
    then obtain k where "snd r = 8192 + k" "k < 1024" "i = lpi_new k"
      using o that [of "snd r - 8192"] by (cases r) (auto simp: demo_its_gicd_def irq_object.simps nth_opt_def split: if_splits)
    then show ?thesis by (simp add: lpi_new_fresh)
  qed
  then have "ids_ok demo_its_gicd" "senders_ok demo_its_gicd" by (auto simp: ids_ok_def senders_ok_def sender_ok_def)
  moreover have "length (lpi demo_its_gicd) = MAX_IRQ - LPI_BASE" by (simp add: demo_its_gicd_def)
  moreover have "bits_ok demo_its_gicd" by (auto simp: bits_ok_def demo_its_gicd_def demo_gic_def)
  ultimately show ?thesis using g by (auto simp: gic_inv_def gic_wf_def demo_its_gicd_def demo_gic_def)
qed

theorem its_message_translated_witness:
  "\<exists>m' m1 d'.
     run_its demo_its_env demo_gits [MAPD True 0 0x1000 0, MAPC True 1 4, MAPTI 0 8 8321 4] (demo_its_gicd, demo_mem, ())
       = Some (demo_its_gicd, m', ()) \<and>
     handle_msi demo_its_env demo_gits 8 0 (demo_its_gicd, m', ()) = Some (d', m1, ()) \<and>
     lpi_given demo_its_gicd d' 8321 1 0x80"
proof -
  have p: "its_place demo_its_env (0x1000 + ucast (8 :: u32) * ENTRY_SIZE) = Some 0x70040" using demo_place(3) by simp
  have a: "apart 0x70020 8 0x70000 8" "apart 0x70040 8 0x70000 8" "apart 0x70040 8 0x70020 8" by (simp_all add: apart_def)
  have z: "(0 :: u32) < 0x10000" "(0x1000 :: u64) \<noteq> 0" "(0x1000 :: u64) AND 0xFFFFFFFFFFF00 = 0x1000" by simp_all
  have c: "its_byte demo_its_env (lpi_conf_addr demo_its_gicd (unat (8321 :: u32))) = Some 0x70081"
    by (simp add: its_byte_def lpi_conf_addr_def demo_its_gicd_def demo_its_env_def get_as_device_at_def get_device_at_def demo_env_def
      demo_bus_devices bus_lookup_def range_compare_def range_intersect_def range_end_def range_empty_def range_less_def word_le_nat_alt
      word_less_nat_alt demo_as_def simple_as_new_def posix_cred_def is_gpa_valid_def range_contains_def range_contains_val_def range_last_def)
  have ap: "\<not> in_area (ie_local demo_its_env) 8 0x70081" "\<not> in_area 0x70000 8 0x70081" "\<not> in_area 0x70020 8 0x70081"
    "\<not> in_area 0x70040 8 0x70081" by (simp_all add: in_area_def demo_its_env_def)
  have l: "LPI_BASE \<le> unat (8321 :: u32)" "irq_object demo_its_gicd (0, unat (8321 :: u32)) = Some (lpi_new 129)" "prop_baser demo_its_gicd \<noteq> 0"
    "unat (ucast (1 :: u32) :: u8) < num_vcpus demo_its_gicd"
    using demo_lpi [of 129] by (simp_all add: demo_its_gicd_def demo_gic_def)
  have conf: "demo_mem 0x70081 AND 1 \<noteq> 0" "demo_mem 0x70081 AND 0xFC = 0x80" by (simp_all add: demo_mem_def)
  have u: "unat (8321 :: u32) = 8321" "ucast (1 :: u32) = (1 :: u8)" by simp_all
  show ?thesis
    using its_message_translated [OF demo_its_env_ok z demo_table_addrs(1) demo_place(1) demo_table_addrs(2) demo_place(2) p a
        c ap demo_its_inv l(1,2) lpi_new_fresh(3) l(3,4), of demo_mem "()"] conf(1) unfolding conf(2) u by (simp only: if_False) blast
qed

subsection \<open>The queue is drained\<close>

text \<open>The number of commands from entry \<open>i\<close> to entry \<open>j\<close> of a ring of \<open>N\<close>.\<close>

definition ring_dist :: "nat \<Rightarrow> nat \<Rightarrow> nat \<Rightarrow> nat" where
  "ring_dist N i j = (if i \<le> j then j - i else N - i + j)"

text \<open>Every entry of the queue is in guest memory.\<close>

definition queue_mapped :: "('d, 'x) its_env \<Rightarrow> gits \<Rightarrow> nat \<Rightarrow> bool" where
  "queue_mapped e g N \<longleftrightarrow>
     (\<forall>i<N. \<exists>as. get_as_device_at (ie_as e) ((its_cbaser g AND 0xFFFFFFFFFF000) + of_nat (32 * i)) 32 = Some as \<and>
        is_gpa_valid as ((its_cbaser g AND 0xFFFFFFFFFF000) + of_nat (32 * i)) 32)"

lemma fetch_command_mapped:
  assumes "spaces_mapped (ie_as e)" "queue_mapped e g N" "i < N" "its_creadr g = of_nat (32 * i)"
  obtains w' where "fetch_command e g w = Some (NONE, w')"
proof -
  obtain as where as: "get_as_device_at (ie_as e) (its_command_addr g) 32 = Some as" "is_gpa_valid as (its_command_addr g) 32"
    using assms(2-4) by (auto simp: queue_mapped_def its_command_addr_def)
  then have "mapped as" using assms(1) by (auto simp: spaces_mapped_def)
  then show ?thesis using that as by (cases w) (simp add: fetch_command_def read_bus_def as_read_def Let_def)
qed

lemma ring_step:
  assumes "i < N" "j < N" "i \<noteq> j"
  shows "ring_dist N i j = Suc (ring_dist N (if N \<le> i + 1 then 0 else i + 1) j)"
  using assms by (auto simp: ring_dist_def)

lemma ring_dist_less: "i < N \<Longrightarrow> j < N \<Longrightarrow> ring_dist N i j < N"
  by (auto simp: ring_dist_def)

lemma ring_index_eq: "i < N \<Longrightarrow> j < N \<Longrightarrow> 32 * N < 2 ^ 64 \<Longrightarrow> (of_nat (32 * i) :: u64) = of_nat (32 * j) \<longleftrightarrow> i = j"
proof -
  assume "i < N" "j < N" "32 * N < 2 ^ 64"
  then have "unat (of_nat (32 * i) :: u64) = 32 * i" "unat (of_nat (32 * j) :: u64) = 32 * j" by (intro unat_of_nat64, simp)+
  then show ?thesis by (metis mult_cancel1 zero_neq_numeral)
qed

lemma ring_next:
  assumes "i < N" "32 * N < 2 ^ 64"
  shows "(if (of_nat (32 * N) :: u64) \<le> of_nat (32 * i) + 32 then 0 else of_nat (32 * i) + 32 :: u64)
    = of_nat (32 * (if N \<le> i + 1 then 0 else i + 1))"
proof -
  have e: "(of_nat (32 * i) + 32 :: u64) = of_nat (32 * (i + 1))" by simp
  have "unat (of_nat (32 * (i + 1)) :: u64) = 32 * (i + 1)" "unat (of_nat (32 * N) :: u64) = 32 * N"
    using assms by (intro unat_of_nat64, simp)+
  then have "(of_nat (32 * N) :: u64) \<le> of_nat (32 * (i + 1)) \<longleftrightarrow> 32 * N \<le> 32 * (i + 1)" by (simp only: word_le_nat_alt)
  moreover have "32 * N \<le> 32 * (i + 1) \<longleftrightarrow> N \<le> i + 1" by presburger
  ultimately have "(of_nat (32 * N) :: u64) \<le> of_nat (32 * (i + 1)) \<longleftrightarrow> N \<le> i + 1" by (simp only:)
  then show ?thesis unfolding e by simp
qed

lemma fetch_loop_drains:
  assumes "spaces_mapped (ie_as e)" "32 * N < 2 ^ 64" "j < N"
  shows "\<lbrakk>queue_mapped e g N; cbaser_size e g = of_nat (32 * N); its_creadr g = of_nat (32 * i); its_cwriter g = of_nat (32 * j);
      i < N; ring_dist N i j \<le> n\<rbrakk> \<Longrightarrow>
    fetch_loop e n g s = fetch_loop e (ring_dist N i j) g s \<and>
    (fetch_loop e n g s = None \<or> (\<exists>s'. fetch_loop e n g s = Some (g\<lparr>its_creadr := its_cwriter g\<rparr>, s')))"
proof (induction "ring_dist N i j" arbitrary: i g s n)
  case 0
  then have "i = j" using assms(3) by (auto simp: ring_dist_def split: if_splits)
  then have "its_cwriter g = its_creadr g" using 0 by simp
  moreover from this have "g\<lparr>its_creadr := its_cwriter g\<rparr> = g" by simp
  ultimately show ?case using 0(1) [symmetric] by (cases n; cases s) auto
next
  case (Suc k)
  have ij: "i \<noteq> j" using Suc.hyps(2) by (auto simp: ring_dist_def)
  define i' where "i' = (if N \<le> i + 1 then 0 else i + 1)"
  have d: "ring_dist N i j = Suc (ring_dist N i' j)" using ring_step [OF Suc.prems(5) assms(3) ij] by (simp only: i'_def)
  obtain n' where n: "n = Suc n'" "ring_dist N i' j \<le> n'" using Suc.prems(6) d by (cases n) auto
  have ne: "its_cwriter g \<noteq> its_creadr g" using Suc.prems ring_index_eq [OF Suc.prems(5) assms(3,2)] ij by auto
  obtain w where w: "fetch_command e g (snd s) = Some (NONE, w)"
    using fetch_command_mapped [OF assms(1) Suc.prems(1,5,3)] .
  define g' where "g' = g\<lparr>its_creadr := of_nat (32 * i')\<rparr>"
  have nx: "g\<lparr>its_creadr := if cbaser_size e g \<le> its_creadr g + COMMAND_SIZE then 0 else its_creadr g + COMMAND_SIZE\<rparr> = g'"
    by (simp only: Suc.prems(2,3) ring_next [OF Suc.prems(5) assms(2)] g'_def i'_def)
  have q: "queue_mapped e g' N" "cbaser_size e g' = of_nat (32 * N)" "its_creadr g' = of_nat (32 * i')" "its_cwriter g' = of_nat (32 * j)"
    "i' < N" using Suc.prems by (auto simp: queue_mapped_def cbaser_size_def g'_def i'_def)
  have kd: "k = ring_dist N i' j" using Suc.hyps(2) d by simp
  have gg: "g'\<lparr>its_creadr := its_cwriter g'\<rparr> = g\<lparr>its_creadr := its_cwriter g\<rparr>" by (simp add: g'_def)
  have ih: "fetch_loop e n' g' s = fetch_loop e (ring_dist N i' j) g' s"
    "fetch_loop e n' g' s = None \<or> (\<exists>s'. fetch_loop e n' g' s = Some (g\<lparr>its_creadr := its_cwriter g\<rparr>, s'))" for s
    using Suc.hyps(1) [OF kd q n(2), of s] unfolding gg kd [symmetric] by blast+
  define h where "h = handle_command e g (command_word e 0 w) (command_word e 1 w) (command_word e 2 w) (command_word e 3 w) (fst s, w)"
  have st: "fetch_loop e (Suc l) g s = do { s \<leftarrow> h; fetch_loop e l g' s }" for l
    using ne w nx by (simp add: Let_def h_def)
  show ?case
  proof (cases h)
    case None
    then show ?thesis by (simp only: n(1) d st) simp
  next
    case (Some t)
    then have "fetch_loop e n g s = fetch_loop e n' g' t" "fetch_loop e (ring_dist N i j) g s = fetch_loop e (ring_dist N i' j) g' t"
      unfolding n(1) d st by simp_all
    then show ?thesis using ih [of t] by simp
  qed
qed

text \<open>
  C38: when every space of guest memory is mapped, the queue is valid and in guest memory, and the read and write pointers are entries of
  it, the service takes exactly the commands from the one to the other, around the end of the queue
  if need be: unless one of them aborts, the read pointer reaches the write pointer, and a higher
  bound on the loop would not change the result.
\<close>

theorem its_queue_drained:
  assumes "spaces_mapped (ie_as e)" "drop_bit 63 (its_cbaser g) \<noteq> 0"
    and "cbaser_size e g = of_nat (32 * N)" "32 * N < 2 ^ 64" "queue_mapped e g N"
    and "its_creadr g = of_nat (32 * i)" "its_cwriter g = of_nat (32 * j)" "i < N" "j < N"
  shows "fetch_commands e g s = fetch_loop e (ring_dist N i j) g s \<and>
     fetch_loop e (N + k) g s = fetch_commands e g s \<and>
     (fetch_commands e g s = None \<or> (\<exists>s'. fetch_commands e g s = Some (g\<lparr>its_creadr := its_cwriter g\<rparr>, s')))"
proof -
  have "unat (cbaser_size e g) = 32 * N" unfolding assms(3) using assms(4) by (intro unat_of_nat64) simp
  then have "unat (cbaser_size e g div COMMAND_SIZE) = N" by (simp add: unat_div)
  then have f: "fetch_commands e g s = fetch_loop e N g s" using assms(2) by (simp add: fetch_commands_def)
  note dr = fetch_loop_drains [OF assms(1,4,9,5,3,6,7,8)]
  have "ring_dist N i j \<le> N" "ring_dist N i j \<le> N + k" using ring_dist_less [OF assms(8,9)] by simp_all
  then show ?thesis unfolding f using dr [of N s] dr [of "N + k" s] by metis
qed

text \<open>A machine with one mapped space of sixteen pages, the queue in its first page.\<close>

definition demo_queue_bus :: "nat bus" where
  "demo_queue_bus = snd (register_device True (bus_new ALL_MEM False (\<lambda>_. \<lparr>accesses = 0, time_spent = 0\<rparr>)) 1 0x100000 0x10000)"

definition demo_queue_as :: simple_as where
  "demo_queue_as = (simple_as_new \<lparr>r_begin = 0x100000, r_size = 0x10000\<rparr> \<lparr>msel = 3, mem_cred = posix_cred\<rparr> posix_cred True True)
     \<lparr>vmm_view := 0x70000000\<rparr>"

definition demo_queue_env :: "(nat, unit) its_env" where
  "demo_queue_env = \<lparr>ie_as = \<lparr>env_bus = demo_queue_bus, env_type = (\<lambda>_. GUEST_PHYSICAL_STATIC_MEMORY),
     env_as = (\<lambda>_. demo_queue_as), env_host = demo_host\<rparr>, ie_local = 0x9000, ie_command = 0xa000\<rparr>"

definition demo_queue :: gits where
  "demo_queue = gits_new\<lparr>its_cbaser := push_bit 63 1 OR 0x100000, its_creadr := of_nat (32 * 126), its_cwriter := of_nat (32 * 3)\<rparr>"

lemma demo_queue_mapped: "spaces_mapped (ie_as demo_queue_env)"
  by (auto simp: spaces_mapped_def get_as_device_at_def demo_queue_env_def demo_queue_as_def simple_as_new_def range_ok_def
      split: option.splits if_splits)

lemma demo_queue_at:
  assumes i: "i < 128"
  shows "get_as_device_at (ie_as demo_queue_env) (0x100000 + of_nat (32 * i)) 32 = Some demo_queue_as"
    "is_gpa_valid demo_queue_as (0x100000 + of_nat (32 * i)) 32"
proof -
  define a :: u64 where "a = 0x100000 + of_nat (32 * i)"
  have "unat (of_nat (32 * i) :: u64) = 32 * i" using i by (intro unat_of_nat64) simp
  then have a: "unat a = 0x100000 + 32 * i" using i unfolding a_def by (simp only: unat_word_ariths) simp
  let ?s = "\<lparr>r_begin = 0x100000, r_size = 0x10000\<rparr> :: range"
  have ok: "range_ok (gpa_range a 32)" "range_ok ?s" using a i by (simp_all add: range_ok_def)
  have sub: "addrs (gpa_range a 32) \<subseteq> addrs ?s" using a i by (auto simp: addrs_def)
  have "devices demo_queue_bus = [(?s, 1)]" by (simp add: demo_queue_bus_def register_device_def bus_new_def)
  moreover have "\<not> range_compare (gpa_range a 32) ?s" "\<not> range_compare ?s (gpa_range a 32)"
    using ok a i by (simp_all add: range_compare_iff)
  moreover have "\<not> a + 32 \<le> a" using ok(1) range_ok_guard by blast
  ultimately show "get_as_device_at (ie_as demo_queue_env) (0x100000 + of_nat (32 * i)) 32 = Some demo_queue_as"
    unfolding a_def [symmetric] by (simp add: demo_queue_env_def get_as_device_at_def get_device_at_def bus_lookup_def)
  show "is_gpa_valid demo_queue_as (0x100000 + of_nat (32 * i)) 32"
    using range_contains_addrs [OF ok(2,1)] sub unfolding a_def [symmetric]
    by (simp add: is_gpa_valid_def demo_queue_as_def simple_as_new_def)
qed

lemma demo_queue_base: "its_cbaser demo_queue AND 0xFFFFFFFFFF000 = 0x100000"
  by (simp add: demo_queue_def)

lemma demo_queue_entries: "queue_mapped demo_queue_env demo_queue 128"
  using demo_queue_at unfolding queue_mapped_def demo_queue_base by blast

text \<open>In a memory of bytes 5 every command is \<open>SYNC\<close>.\<close>

lemma demo_sync_fetch:
  assumes "i < 128" "its_creadr g = of_nat (32 * i)" "its_cbaser g = its_cbaser demo_queue"
  shows "fetch_command demo_queue_env g (\<lambda>_. 5, ()) = Some (NONE, \<lambda>_. 5, ())"
proof -
  have "its_command_addr g = 0x100000 + of_nat (32 * i)" unfolding its_command_addr_def assms(2,3) demo_queue_base ..
  moreover have "\<not> in_area 0xa000 32 (0x70000000 + of_nat (32 * i) + (a - 0xa000))" if "in_area 0xa000 32 a" for a
  proof -
    have u: "unat (of_nat (32 * i) :: u64) = 32 * i" using assms(1) by (intro unat_of_nat64) simp
    define y where "y = a - 0xa000"
    have y: "unat y < 32" using that by (simp add: in_area_def y_def)
    have "unat (0x70000000 + of_nat (32 * i) + y - 0xa000) = 0x70000000 + 32 * i + unat y - 0xa000"
      using u y assms(1) by (simp only: unat_word_ariths unat_sub_if_size word_size) simp
    then show ?thesis unfolding in_area_def y_def [symmetric] by simp
  qed
  ultimately show ?thesis
    using demo_queue_at [OF assms(1)]
    by (simp add: fetch_command_def read_bus_def as_read_def Let_def demo_queue_as_def simple_as_new_def memcpy_def fun_eq_iff)
      (simp add: demo_queue_env_def, blast)
qed

lemma demo_sync_command: "handle_command e g (command_word e' 0 (\<lambda>_. 5, ())) q1 q2 q3 s = Some s"
proof -
  have n: "(8 :: nat) = Suc 7" by simp
  have "command_word e' 0 (\<lambda>_. 5, ()) AND 0xF = 5"
    unfolding command_word_def n load_le.simps using field_above [of 8] by (simp add: or.commute)
  then have "decode_command (command_word e' 0 (\<lambda>_. 5, ())) q1 q2 = SYNC" by (simp add: decode_command_def)
  then show ?thesis by (cases s) (simp add: handle_command_def)
qed

lemma demo_sync_loop:
  "i < 128 \<Longrightarrow> its_creadr g = of_nat (32 * i) \<Longrightarrow> its_cbaser g = its_cbaser demo_queue \<Longrightarrow>
   fetch_loop demo_queue_env n g (d, \<lambda>_. 5, ()) \<noteq> None"
proof (induction n arbitrary: i g)
  case (Suc n)
  have s: "cbaser_size demo_queue_env g = of_nat (32 * 128)"
    using Suc.prems(3) by (simp add: cbaser_size_def demo_queue_env_def demo_host_def demo_queue_def)
  have "its_creadr g + COMMAND_SIZE = of_nat (32 * Suc i)" using Suc.prems(2) by simp
  then show ?case
    using Suc.IH [of 0] Suc.IH [of "Suc i"] Suc.prems demo_sync_fetch [OF Suc.prems] ring_next [OF Suc.prems(1)]
    by (auto simp: demo_sync_command Let_def s simp del: of_nat_mult of_nat_Suc)
qed simp


theorem its_queue_drained_witness:
  "fetch_commands demo_queue_env demo_queue (demo_its_gicd, \<lambda>_. 5, ()) = fetch_loop demo_queue_env 5 demo_queue (demo_its_gicd, \<lambda>_. 5, ()) \<and>
   (\<exists>s'. fetch_commands demo_queue_env demo_queue (demo_its_gicd, \<lambda>_. 5, ()) = Some (demo_queue\<lparr>its_creadr := 0x60\<rparr>, s'))"
proof -
  have v: "drop_bit 63 (its_cbaser demo_queue) \<noteq> 0" "cbaser_size demo_queue_env demo_queue = of_nat (32 * 128)"
    "(32 :: nat) * 128 < 2 ^ 64" "its_creadr demo_queue = of_nat (32 * 126)" "its_cwriter demo_queue = of_nat (32 * 3)" "(126 :: nat) < 128" "(3 :: nat) < 128"
    by (simp_all add: demo_queue_def cbaser_size_def demo_queue_env_def demo_host_def)
  have d: "ring_dist 128 126 3 = 5" "its_cwriter demo_queue = 0x60" by (simp_all add: ring_dist_def demo_queue_def)
  show ?thesis
    using its_queue_drained [OF demo_queue_mapped v(1-3) demo_queue_entries v(4-7), of "(demo_its_gicd, \<lambda>_. 5, ())"]
      demo_sync_loop [OF v(6,4), of 5 demo_its_gicd] unfolding d by metis
qed

text \<open>
  What a guest can reach: a command that is not supported, or a table with a size, aborts the monitor,
  and a write to the high half of the write pointer replaces the low half.
\<close>

lemma its_unsupported_aborts:
  "q0 AND 0xF \<in> {0x04, 0x0B, 0x0E, 0x0F} \<Longrightarrow> handle_command e g q0 q1 q2 q3 s = None"
  by (cases s) (auto simp: handle_command_def decode_command_def Let_def)

lemma its_mapd_size_aborts: "n \<noteq> 0 \<Longrightarrow> exec_command e g (MAPD v dev_id itt n) s = None"
  by (cases s) (simp add: handle_mapd_def)

lemma its_cwriter_high_half:
  "\<not> gits_enabled g \<Longrightarrow> gits_mmio_write e 0x8C 4 0 (g, s) = Some (True, g\<lparr>its_cwriter := 0\<rparr>, s)"
  by (simp add: gits_mmio_write_def gits_enabled_def)

end
