(* ===== verification/Spec2Isabelle.thy ===== *)
theory Spec2Isabelle
  imports Vbus Pl011 CpuAffinity MmioProps ConsoleCopy VirtioIrq RoundupProps Psci MsrProps X86Msr Esr Gits
begin

text \<open>
  A verification development for the device and processor models of the virtual-machine-monitor
  library.

  The program. A guest's access to a device is an access to an address on a virtual bus
  (\<open>devices/vbus\<close>), which finds the device that registered the address and calls it with the offset.
  The devices are register interfaces over a state of their own: a PL011 UART
  (\<open>devices/vpl011\<close>), the interrupt controller of Arm machines (\<open>devices/gic\<close>), guest memory
  (\<open>devices/simple_as\<close>), and virtio devices (\<open>devices/virtio_*\<close>), which take their work from queues in
  memory that they share with the guest. A device raises its interrupt through the distributor of the
  interrupt controller, which chooses what each vCPU is given next. The system registers are a bus of
  their own (\<open>devices/msr\<close>), found by register number; some of them act on the interrupt controller,
  on the timer (\<open>devices/timer\<close>), on the features of a vCPU, or flush guest memory. The vCPUs, their
  affinity numbers and their features are in \<open>vcpu/cpu_model\<close>; \<open>vcpu/vcpu_roundup\<close> stops and resumes
  them all, and the firmware calls (\<open>devices/firmware\<close>) switch them on and off.

  Theories, with the files under \<open>src/\<close> that they model and what their lemmas show.

  \<^item> \<open>Prelude\<close>: words and their names, bit fields, the bit set, the error codes and the assertion
    (\<open>platform/posix_core/include/platform\<close>: \<open>bits.hpp\<close>, \<open>bitset.hpp\<close>, \<open>errno.hpp\<close>), reading and
    updating of arrays, and the facts on them that the other theories share.
  \<^item> \<open>RangeMap\<close>: \<open>platform/rangemap.hpp\<close>, address ranges with wrapping arithmetic and the ordered map
    of disjoint ranges, with the interface \<open>interval_map\<close> that its clients rely on.
  \<^item> \<open>Vbus\<close>: \<open>devices/vbus\<close>, with the cache of the last access. The devices are a record of functions,
    \<open>dev_ops\<close>. The entries stay ordered and disjoint, a registered device gets the accesses in its
    range, and an unregistered one gets none.
  \<^item> \<open>SeqQueue\<close>, \<open>Pl011\<close>: \<open>devices/vuart\<close> and \<open>devices/vpl011\<close>, the ring buffer with its interface
    \<open>bounded_fifo\<close>, and the UART with every register, both queues, the interrupt line and the
    blocking sender.
  \<^item> \<open>CpuAffinity\<close>: \<open>vcpu/cpu_model/src/cpu_affinity.cpp\<close>, the affinity map and its clusters.
  \<^item> \<open>GicIrq\<close>, \<open>GicDist\<close>, \<open>GicMmio\<close>, \<open>GicRedist\<close>: \<open>devices/gic/include/model/gic.hpp\<close>,
    \<open>devices/gic/src/gicd.cpp\<close> and \<open>devices/gic/src/gicr.cpp\<close>: the interrupt objects, the
    distributor, its registers and the redistributors. \<open>GicProps\<close> and \<open>MmioProps\<close> show that neither
    calls nor register accesses abort, what is delivered, and that nothing is delivered twice. The
    interfaces \<open>gic_marks\<close> and \<open>gic_frame\<close> collect what every call keeps.
  \<^item> \<open>Gits\<close>: \<open>devices/gic/src/gits.cpp\<close>, the interrupt translation service, with its tables and its
    command queue in guest memory, and the delivery of a message through the distributor.
  \<^item> \<open>GuestMem\<close>: memory as a byte for every 64-bit address, with little-endian loads and stores
    (\<open>devices/virtio_base/include/model/foreign_ptr.hpp\<close>).
  \<^item> \<open>Virtqueue\<close>: \<open>devices/virtio_base/src/virtqueue.cpp\<close>, the two ends of a queue over one memory, and
    their refinement to two first-in first-out queues.
  \<^item> \<open>VirtioSg\<close>, \<open>SgCopy\<close>: \<open>devices/virtio_base/src/virtio_sg.cpp\<close>, the walk along a descriptor chain,
    the building and the return of chains, and the copies between chains and linear memory.
    \<open>SgCopyProps\<close> proves what a copy does to memory, under the interfaces \<open>chain_accessor\<close> and
    \<open>chain_pair\<close>; \<open>SgSafe\<close> follows the life of a buffer on the device side.
  \<^item> \<open>SimpleAs\<close>: \<open>devices/simple_as\<close> and \<open>platform/posix/include/platform/memory.hpp\<close>, guest memory over
    the host's memory mapping: spaces mapped as a whole and on demand, the bus read and write, and the
    flush of all spaces with its aborts.
  \<^item> \<open>VirtioMmio\<close>: \<open>devices/virtio_base/include/model\<close> (\<open>iommu_interface.hpp\<close>, \<open>virtio_common.hpp\<close>,
    \<open>virtio_mmio.hpp\<close>, \<open>virtio.hpp\<close>), the registers and the state of a virtio device;
    \<open>VirtioMmioProps\<close> holds the theorems on them. \<open>VirtioDevices\<close> holds the block, network and
    socket devices.
  \<^item> \<open>VirtioConsole\<close>: \<open>devices/virtio_console\<close>. \<open>VirtioConsoleProps\<close> shows that its loops return for
    every content of the shared memory, \<open>ConsoleCopy\<close> that the bytes arrive in order, and \<open>VirtioIrq\<close>
    follows the interrupt line of the console and of the devices with a back end.
  \<^item> \<open>CpuFeature\<close>, \<open>CpuModel\<close>: \<open>vcpu/cpu_model\<close>, the feature switches as the atomic steps of a request
    and of a read, and the vCPU's run state, start and reset.
  \<^item> \<open>Roundup\<close>: \<open>vcpu/vcpu_roundup\<close>, the protocol as steps of threads that interleave. \<open>RoundupInv\<close>
    states its invariant and \<open>RoundupProps\<close> proves it, with the safety and the progress that follow.
  \<^item> \<open>Psci\<close>: \<open>devices/firmware/src/psci.cpp\<close>, over the vCPUs and the affinity map.
  \<^item> \<open>Timer\<close>: \<open>devices/timer\<close>, the timer thread, the vCPU's writes of the timer registers and the stop
    as interleaved steps.
  \<^item> \<open>MsrIds\<close>, \<open>X86Ids\<close>, \<open>MsrInfo\<close>: the numbers of the registers and their fields
    (\<open>devices/msr/include\<close>: \<open>msr/msr_id.hpp\<close>, \<open>aarch64/msr/msr.hpp\<close>, \<open>x86/msr/msr.hpp\<close>,
    \<open>aarch64/msr/msr_info.hpp\<close>).
  \<^item> \<open>Msr\<close>, \<open>MsrSetup\<close>: \<open>devices/msr/src/msr_base.cpp\<close> and \<open>devices/msr/src/aarch64/msr.cpp\<close>, the
    register bus, the access of each class of registers and the tables of an Arm machine; \<open>MsrProps\<close>
    shows which accesses abort, what a cache toggle flushes and what a register keeps. \<open>X86Msr\<close> is
    \<open>devices/msr/src/x86/msr.cpp\<close>.
  \<^item> \<open>Esr\<close>: \<open>devices/msr/include/aarch64/msr/esr.hpp\<close> and \<open>devices/msr/include/msr/msr_access.hpp\<close>, the
    decoding of a trapped register move.

  Conventions. An object is a record with the fields of the class; a method is a function from the
  arguments and the record to the results and the record. A failed \<open>ASSERT\<close>, an access outside an
  array, an undefined shift and an abort are the result \<open>None\<close> of an option; error codes are ordinary
  values. Integers have the width of the code and wrap. A lock makes the operation it guards one
  step, but in \<open>Roundup\<close>, where the mutexes and signals are part of the state; log output is left
  out. Code that is not in the repository (the host's allocator, clock and memory mapping, call-backs)
  is a parameter, as are the devices on a bus and the back ends of the virtio devices.

  Hosts and memory. Memory is one function from addresses to bytes. What the host answers to a mapping
  comes from a state of the host that is passed along; two mappings of the same guest page are two
  areas of that memory, so a change through one is not seen through the other. Cache maintenance does
  not change memory; the areas that a flush cleans are recorded. The driver of a guest runs between
  the calls of a device, and may then change the shared memory in any way.

  Loops and bounds. Nearly all loops are structural recursions, or functions with a termination proof;
  where the code bounds a loop by a count, the count is the argument of the recursion. The two loops of
  the console have no bound in the code: they are partial functions with option results, and they are
  proved to return. The loop over the commands of the translation service has no bound in the code
  either; in the model it has the number of entries of the queue, which is proved never to be what ends
  it. The interrupt information of the code has eight bits for vCPUs, and the theorems on the
  interrupt controller and on the registers that reach it assume at most eight vCPUs, as the code
  does. In the model of the roundup all vCPUs start switched off.

  Not modelled, and why. The architecture layer (\<open>arch/\<close>) is barriers, breakpoints and cache
  instructions in assembly. The wrappers of the host's threads, locks, signals, clock and
  containers under \<open>platform/\<close> are the conventions above. The debug switches and log output of
  \<open>config/\<close> have no effect on the machine. The call-back classes of \<open>devices/vuart\<close> and
  \<open>devices/irq_controller\<close> are abstract. \<open>examples/\<close> is not part of the library. The recall of a
  vCPU, which the class that embeds the library provides, is a recorded call.

  The properties are the theorems that a text block with a number \<open>C\<close> precedes; a closed theorem
  with the suffix \<open>_witness\<close> applies each that has hypotheses at a concrete state.
\<close>

end
